(* ===== verification/Ucm_Prelude.thy ===== *)
theory Ucm_Prelude
  imports Main "HOL-Library.AList" "HOL-Library.Word" "HOL-Library.Sublist"
begin

text \<open>
  Shared vocabulary of the development: the Python values the connectors handle (byte
  strings, dictionaries, exceptions as values), Python's slicing, decimal printing, and the
  list lemmas every component uses. A Python \<open>bytes\<close> or ASCII \<open>str\<close> is a
  \<open>string\<close>, since a HOL \<open>char\<close> is one byte. A dictionary is an association list
  with its keys in insertion order, which is the order Python iterates in.
\<close>

section \<open>Types\<close>

type_synonym bytes = string
type_synonym req_id = string
type_synonym vllm_id = nat
type_synonym u64 = "64 word"
type_synonym ('k, 'v) dict = "('k \<times> 'v) list"

text \<open>
  The exceptions the modelled code raises or tells apart. \<open>StoreNotFound\<close> is
  \<open>StoreNotFoundError\<close> of the pipeline store; \<open>UnboundLocal\<close> is \<open>UnboundLocalError\<close>, \<open>NotImplemented\<close> \<open>NotImplementedError\<close>, and \<open>StoreFailure\<close> stands for any other
  exception a store call raises.
\<close>

datatype exn =
    ValueError
  | TypeError
  | RuntimeError
  | AssertionError
  | IndexError
  | KeyError
  | ZeroDivisionError
  | OverflowError
  | StopIteration
  | AttributeError
  | NotImplemented
  | StoreNotFound
  | UnboundLocal
  | StoreFailure

type_synonym 'a result = "exn + 'a"

text \<open>
  What \<open>ucmmetrics.update_stats\<close> is given: counts, and the hit-rate ratio of a lookup.
  Durations and rates are readings of the clock and are not modelled.
\<close>

datatype metric =
    MCount string int
  | MRatio string nat nat

named_theorems dict_simps \<open>lookups after dictionary updates\<close>
named_theorems slice_simps \<open>Python slices as take and drop\<close>

section \<open>Dictionaries\<close>

abbreviation dict_get :: "('k, 'v) dict \<Rightarrow> 'k \<Rightarrow> 'v option" where
  "dict_get d k \<equiv> map_of d k"

abbreviation dict_set :: "'k \<Rightarrow> 'v \<Rightarrow> ('k, 'v) dict \<Rightarrow> ('k, 'v) dict" where
  "dict_set k v d \<equiv> AList.update k v d"

abbreviation dict_pop :: "'k \<Rightarrow> ('k, 'v) dict \<Rightarrow> ('k, 'v) dict" where
  "dict_pop k d \<equiv> AList.delete k d"

abbreviation dict_keys :: "('k, 'v) dict \<Rightarrow> 'k set" where
  "dict_keys d \<equiv> fst ` set d"

text \<open>\<open>d.get(k, default)\<close>.\<close>

definition dict_get_or :: "('k, 'v) dict \<Rightarrow> 'k \<Rightarrow> 'v \<Rightarrow> 'v" where
  "dict_get_or d k v = (case map_of d k of None \<Rightarrow> v | Some x \<Rightarrow> x)"

lemma dict_get_set [dict_simps, simp]:
  "dict_get (dict_set k v d) k' = (if k' = k then Some v else dict_get d k')"
  by (simp add: update_conv')

lemma dict_get_pop [dict_simps, simp]:
  "dict_get (dict_pop k d) k' = (if k' = k then None else dict_get d k')"
  by (simp add: delete_conv')

lemma dict_get_or_set [dict_simps, simp]:
  "dict_get_or (dict_set k v d) k' x = (if k' = k then v else dict_get_or d k' x)"
  by (simp add: dict_get_or_def)

lemma dict_get_or_pop [dict_simps, simp]:
  "dict_get_or (dict_pop k d) k' x = (if k' = k then x else dict_get_or d k' x)"
  by (simp add: dict_get_or_def)

lemma dict_set_new: "k \<notin> dict_keys d \<Longrightarrow> dict_set k v d = d @ [(k, v)]"
  by (induction d) auto

lemma dict_keys_set [dict_simps, simp]: "dict_keys (dict_set k v d) = insert k (dict_keys d)"
  by (simp add: dom_update)

lemma dict_keys_pop [dict_simps, simp]: "dict_keys (dict_pop k d) = dict_keys d - {k}"
  by (force simp: AList.delete_eq)

lemma dict_set_pop_values:
  "(k', x) \<in> set (dict_pop k d) \<Longrightarrow> (k', x) \<in> set d \<and> k' \<noteq> k"
  by (auto simp: AList.delete_eq)

lemma dict_in_set_update:
  "(k', x) \<in> set (dict_set k v d) \<Longrightarrow> (k' = k \<and> x = v) \<or> (k', x) \<in> set d"
proof (induction d)
  case Nil
  then show ?case by simp
next
  case (Cons p d)
  then show ?case by (cases p) (auto split: if_splits)
qed

section \<open>Results\<close>

definition rbind :: "'a result \<Rightarrow> ('a \<Rightarrow> 'b result) \<Rightarrow> 'b result" where
  "rbind r f = (case r of Inl e \<Rightarrow> Inl e | Inr x \<Rightarrow> f x)"

lemma rbind_simps [simp]: "rbind (Inl e) f = Inl e" "rbind (Inr x) f = f x"
  by (simp_all add: rbind_def)

lemma rbind_Inr_iff: "rbind r f = Inr y \<longleftrightarrow> (\<exists>x. r = Inr x \<and> f x = Inr y)"
  by (cases r) auto

text \<open>\<open>xs[i]\<close> for a non-negative index.\<close>

definition py_index :: "'a list \<Rightarrow> nat \<Rightarrow> 'a result" where
  "py_index xs i = (if i < length xs then Inr (xs ! i) else Inl IndexError)"

definition py_key :: "('k, 'v) dict \<Rightarrow> 'k \<Rightarrow> 'v result" where
  "py_key d k = (case map_of d k of None \<Rightarrow> Inl KeyError | Some v \<Rightarrow> Inr v)"

fun rmap :: "('a \<Rightarrow> 'b result) \<Rightarrow> 'a list \<Rightarrow> 'b list result" where
  "rmap f [] = Inr []"
| "rmap f (x # xs) = rbind (f x) (\<lambda>y. rbind (rmap f xs) (\<lambda>ys. Inr (y # ys)))"

lemma rmap_Inr: "rmap f xs = Inr ys \<Longrightarrow> length ys = length xs \<and> (\<forall>i < length xs. f (xs ! i) = Inr (ys ! i))"
proof (induction xs arbitrary: ys)
  case Nil
  then show ?case by simp
next
  case (Cons x xs)
  then obtain y zs where "f x = Inr y" "rmap f xs = Inr zs" "ys = y # zs"
    by (auto simp: rbind_Inr_iff)
  with Cons.IH show ?case by (auto simp: less_Suc_eq_0_disj)
qed

section \<open>Slices\<close>

text \<open>\<open>xs[a:b]\<close> for non-negative bounds, which Python clips to the list.\<close>

definition py_slice :: "'a list \<Rightarrow> nat \<Rightarrow> nat \<Rightarrow> 'a list" where
  "py_slice xs a b = take (b - a) (drop a xs)"

text \<open>\<open>xs[a:b]\<close> for any integer bounds: a negative bound counts from the end.\<close>

definition py_bound :: "nat \<Rightarrow> int \<Rightarrow> nat" where
  "py_bound n i = (if i < 0 then nat (int n + i) else min n (nat i))"

definition py_slice_int :: "'a list \<Rightarrow> int \<Rightarrow> int \<Rightarrow> 'a list" where
  "py_slice_int xs a b = py_slice xs (py_bound (length xs) a) (py_bound (length xs) b)"

text \<open>\<open>xs[r::n]\<close>: every \<open>n\<close>-th element from index \<open>r\<close> on.\<close>

definition py_stride :: "'a list \<Rightarrow> nat \<Rightarrow> nat \<Rightarrow> 'a list" where
  "py_stride xs r n = map (\<lambda>i. xs ! i) (filter (\<lambda>i. i mod n = r mod n \<and> r \<le> i) [0..<length xs])"

lemma length_py_slice [simp]: "length (py_slice xs a b) = min b (length xs) - a"
  by (auto simp: py_slice_def min_def)

lemma nth_py_slice [simp]: "i < length (py_slice xs a b) \<Longrightarrow> py_slice xs a b ! i = xs ! (a + i)"
  by (cases "a \<le> length xs") (auto simp: py_slice_def)

lemma set_py_slice: "set (py_slice xs a b) \<subseteq> set xs"
  by (auto simp: py_slice_def dest: in_set_takeD in_set_dropD)

lemma py_slice_empty [simp]: "b \<le> a \<Longrightarrow> py_slice xs a b = []"
  by (simp add: py_slice_def)

lemma py_slice_append [slice_simps]:
  "a \<le> b \<Longrightarrow> b \<le> c \<Longrightarrow> py_slice xs a b @ py_slice xs b c = py_slice xs a c"
proof -
  assume "a \<le> b" "b \<le> c"
  then have "take (c - a) (drop a xs) = take (b - a) (drop a xs) @ take (c - b) (drop (b - a) (drop a xs))"
    by (metis diff_add_inverse2 le_add_diff_inverse2 add.commute diff_diff_add take_add Nat.diff_add_assoc2)
  with \<open>a \<le> b\<close> show ?thesis by (simp add: py_slice_def)
qed

lemma py_slice_all [simp]: "length xs \<le> b \<Longrightarrow> py_slice xs 0 b = xs"
  by (simp add: py_slice_def)

lemma py_slice_clip: "length xs \<le> b \<Longrightarrow> py_slice xs a b = drop a xs"
  by (simp add: py_slice_def)

lemma py_slice_map: "py_slice (map f xs) a b = map f (py_slice xs a b)"
  by (simp add: py_slice_def take_map drop_map)

lemma py_slice_prefix: "py_slice (take n xs) a b = py_slice xs a (min b n)"
  by (simp add: py_slice_def drop_take min_def)

lemma py_slice_append_left: "b \<le> length xs \<Longrightarrow> py_slice (xs @ ys) a b = py_slice xs a b"
  by (cases "a \<le> length xs") (simp_all add: py_slice_def)

section \<open>Strided slices\<close>

lemma filter_residue:
  assumes "r < n"
  shows "filter (\<lambda>i. i mod n = r \<and> r \<le> i) [0..<m * n] = map (\<lambda>k. k * n + r) [0..<m]"
proof (induction m)
  case 0
  then show ?case by simp
next
  case (Suc m)
  have split: "[0..<Suc m * n] = [0..<m * n] @ map (\<lambda>j. m * n + j) [0..<n]"
    using upt_add_eq_append [of 0 "m * n" n] by (simp add: map_add_upt add.commute)
  have "filter (\<lambda>i. i mod n = r \<and> r \<le> i) (map (\<lambda>j. m * n + j) [0..<n]) = map (\<lambda>j. m * n + j) (filter (\<lambda>j. j = r) [0..<n])"
    unfolding filter_map by (intro arg_cong [where f = "map _"] filter_cong) (auto simp: trans_le_add2)
  also have "filter (\<lambda>j. j = r) [0..<n] = [r]"
    using assms by (induction n) (auto simp: less_Suc_eq filter_empty_conv)
  finally show ?case unfolding split filter_append Suc.IH by simp
qed

lemma py_stride_blocks:
  assumes "r < n" and "length xs = m * n"
  shows "py_stride xs r n = map (\<lambda>k. xs ! (k * n + r)) [0..<m]"
  using filter_residue [OF assms(1), of m] assms by (simp add: py_stride_def o_def)

section \<open>Decimal printing\<close>

definition digit_char :: "nat \<Rightarrow> char" where
  "digit_char d = char_of (48 + d)"

fun show_nat :: "nat \<Rightarrow> string" where
  "show_nat n = (if n < 10 then [digit_char n] else show_nat (n div 10) @ [digit_char (n mod 10)])"

declare show_nat.simps [simp del]

definition read_nat :: "string \<Rightarrow> nat" where
  "read_nat cs = foldl (\<lambda>a c. 10 * a + (of_char c - 48)) 0 cs"

lemma of_digit_char: "d < 10 \<Longrightarrow> (of_char (digit_char d) :: nat) = 48 + d"
  by (simp add: digit_char_def of_char_of)

lemma read_show_nat [simp]: "read_nat (show_nat n) = n"
proof (induction n rule: show_nat.induct)
  case (1 n)
  show ?case
  proof (cases "n < 10")
    case True
    then show ?thesis
      by (subst show_nat.simps) (simp add: read_nat_def of_digit_char)
  next
    case False
    have d: "(of_char (digit_char (n mod 10)) :: nat) = 48 + n mod 10"
      by (simp add: of_digit_char)
    from False 1 have "read_nat (show_nat (n div 10)) = n div 10" by simp
    with False d show ?thesis
      by (subst show_nat.simps) (simp add: read_nat_def)
  qed
qed

lemma show_nat_inject [simp]: "show_nat m = show_nat n \<longleftrightarrow> m = n"
  by (metis read_show_nat)

lemma show_nat_digits: "c \<in> set (show_nat n) \<Longrightarrow> 48 \<le> (of_char c :: nat) \<and> (of_char c :: nat) < 58"
proof (induction n rule: show_nat.induct)
  case (1 n)
  show ?case
  proof (cases "n < 10")
    case True
    with 1 show ?thesis
      by (subst (asm) (2) show_nat.simps) (simp add: of_digit_char)
  next
    case False
    with 1 show ?thesis
      by (subst (asm) (2) show_nat.simps) (auto simp: of_digit_char)
  qed
qed

lemma show_nat_no_colon: "CHR '':'' \<notin> set (show_nat n)"
  using show_nat_digits [of "CHR '':''" n] by auto

text \<open>Two strings up to their first separator agree when the whole strings do.\<close>

lemma split_at_separator:
  "c \<notin> set xs \<Longrightarrow> c \<notin> set ys \<Longrightarrow> xs @ c # us = ys @ c # vs \<Longrightarrow> xs = ys \<and> us = vs"
proof (induction xs arbitrary: ys)
  case Nil
  then show ?case by (cases ys) auto
next
  case (Cons x xs)
  then show ?case by (cases ys) auto
qed

section \<open>Rounding\<close>

lemma div_le_div_add: "a div b \<le> (a + n) div (b :: nat)"
  by (simp add: div_le_mono)

lemma div_mult_le_self: "(a div b) * b \<le> (a :: nat)"
  by (simp add: div_times_less_eq_dividend)

end
