(* ===== verification/Request_Hasher.thy ===== *)
theory Request_Hasher
  imports Ucm_Prelude
begin

text \<open>
  \<open>RequestHasher\<close> and the block hash chains of \<open>ucm_connector.py\<close>. The MD5
  digest and \<open>pickle.dumps\<close> are functions of Python's library and are the two fields of
  \<open>hash_funs\<close>; everything the repository adds around them (the meta prefix, the
  chaining of block hashes through their parent, the treatment of partial blocks) is
  translated. The locale \<open>hash_chain\<close> is what the connectors rely on: one id per full
  block, and ids that depend on the token prefix only.
\<close>

section \<open>The hasher\<close>

text \<open>The values the code hands to a hasher: raw bytes, or a string or tuple to be pickled.\<close>

datatype hash_input =
    HBytes bytes
  | HText string
  | HBlock bytes "nat list"
  | HGroupSeed bytes nat
  | HMambaState bytes nat bytes

record hash_funs =
  hf_md5 :: "bytes \<Rightarrow> bytes"
  hf_pickle :: "hash_input \<Rightarrow> bytes"

record spec_config =
  sp_method :: "string option"
  sp_num_tokens :: nat

record hasher_config =
  hc_model :: string
  hc_tp_size :: nat
  hc_dtype :: string
  hc_spec :: "spec_config option"
  hc_sfa_c8 :: bool
  hc_li_c8 :: bool

definition spec_info :: "spec_config option \<Rightarrow> string" where
  "spec_info s =
     (case s of
        None \<Rightarrow> ''''
      | Some sc \<Rightarrow>
          '':'' @ (case sp_method sc of None \<Rightarrow> '''' | Some m \<Rightarrow> m)
          @ '':'' @ show_nat (sp_num_tokens sc))"

definition show_flag :: "bool \<Rightarrow> string" where
  "show_flag b = (if b then ''1'' else ''0'')"

definition hasher_meta :: "hasher_config \<Rightarrow> nat \<Rightarrow> bytes" where
  "hasher_meta c rank_id =
     hc_model c @ '':'' @ show_nat (hc_tp_size c) @ '':'' @ hc_dtype c @ '':''
     @ show_nat rank_id @ spec_info (hc_spec c)
     @ '':sfa_c8='' @ show_flag (hc_sfa_c8 c) @ '':li_c8='' @ show_flag (hc_li_c8 c)"

definition input_bytes :: "hash_funs \<Rightarrow> hash_input \<Rightarrow> bytes" where
  "input_bytes hf inp = (case inp of HBytes b \<Rightarrow> b | _ \<Rightarrow> hf_pickle hf inp)"

definition request_hasher :: "hash_funs \<Rightarrow> bytes \<Rightarrow> hash_input \<Rightarrow> bytes" where
  "request_hasher hf meta_bytes inp = hf_md5 hf (meta_bytes @ input_bytes hf inp)"

text \<open>
  The rank number is delimited on both sides, so the meta bytes of two ranks of one
  configuration differ and no two ranks feed the digest the same bytes for one block.
\<close>

lemma spec_suffix_colon:
  "\<exists>r. spec_info s @ '':sfa_c8='' @ x = CHR '':'' # r"
  by (cases s) (auto simp: spec_info_def)

lemma hasher_meta_append_inject:
  "hasher_meta c r1 @ x = hasher_meta c r2 @ y \<longleftrightarrow> r1 = r2 \<and> x = y"
proof
  assume eq: "hasher_meta c r1 @ x = hasher_meta c r2 @ y"
  let ?rest = "show_flag (hc_sfa_c8 c) @ '':li_c8='' @ show_flag (hc_li_c8 c)"
  obtain r where r: "spec_info (hc_spec c) @ '':sfa_c8='' @ ?rest = CHR '':'' # r"
    using spec_suffix_colon by blast
  then have a: "spec_info (hc_spec c) @ '':sfa_c8='' @ ?rest @ z = CHR '':'' # r @ z" for z
    by (metis append.assoc append_Cons)
  from eq have "show_nat r1 @ spec_info (hc_spec c) @ '':sfa_c8='' @ ?rest @ x
      = show_nat r2 @ spec_info (hc_spec c) @ '':sfa_c8='' @ ?rest @ y"
    by (simp add: hasher_meta_def)
  then have "show_nat r1 @ CHR '':'' # r @ x = show_nat r2 @ CHR '':'' # r @ y"
    by (simp only: a)
  from split_at_separator [OF show_nat_no_colon show_nat_no_colon this]
  show "r1 = r2 \<and> x = y" by simp
qed simp

section \<open>Block hash chains\<close>

text \<open>
  \<open>UCMDirectConnector.generate_hash\<close>: the \<open>for\<close> loop over block starts, which
  stops at the first block that is not full. A zero block size makes Python's
  \<open>range\<close> raise; no configuration has one, and the model returns no hashes there.
\<close>

function generate_hash_loop ::
  "(hash_input \<Rightarrow> bytes) \<Rightarrow> nat \<Rightarrow> nat list \<Rightarrow> nat \<Rightarrow> bytes \<Rightarrow> bytes list" where
  "generate_hash_loop h block_size token_ids start parent =
     (if block_size = 0 \<or> length token_ids \<le> start then []
      else
        let block = py_slice token_ids start (start + block_size) in
        if length block < block_size then []
        else
          let hash_value = h (HBlock parent block) in
          hash_value # generate_hash_loop h block_size token_ids (start + block_size) hash_value)"
  by pat_completeness auto
termination
  by (relation "measure (\<lambda>(h, bs, toks, start, p). length toks - start)") auto

declare generate_hash_loop.simps [simp del]

definition generate_hash ::
  "(hash_input \<Rightarrow> bytes) \<Rightarrow> nat \<Rightarrow> nat list \<Rightarrow> bytes \<Rightarrow> bytes list" where
  "generate_hash h block_size token_ids parent = generate_hash_loop h block_size token_ids 0 parent"

text \<open>
  The reference: consume the token list block by block. The loop over start indices
  computes it.
\<close>

function chain_ids :: "(hash_input \<Rightarrow> bytes) \<Rightarrow> nat \<Rightarrow> nat list \<Rightarrow> bytes \<Rightarrow> bytes list" where
  "chain_ids h bs toks parent =
     (if bs = 0 \<or> length toks < bs then []
      else h (HBlock parent (take bs toks))
           # chain_ids h bs (drop bs toks) (h (HBlock parent (take bs toks))))"
  by pat_completeness auto
termination
  by (relation "measure (\<lambda>(h, bs, toks, p). length toks)") auto

declare chain_ids.simps [simp del]

lemma chain_ids_step:
  "\<not> (bs = 0 \<or> length toks < bs) \<Longrightarrow>
     chain_ids h bs toks parent
       = h (HBlock parent (take bs toks))
         # chain_ids h bs (drop bs toks) (h (HBlock parent (take bs toks)))"
  by (subst chain_ids.simps) simp

lemma generate_hash_loop_chain:
  "generate_hash_loop h bs toks start parent = chain_ids h bs (drop start toks) parent"
proof (induction h bs toks start parent rule: generate_hash_loop.induct)
  case (1 h bs toks start parent)
  show ?case
  proof (cases "bs = 0 \<or> length toks \<le> start \<or> length toks - start < bs")
    case True
    then show ?thesis
      by (subst generate_hash_loop.simps, subst chain_ids.simps) (auto simp: min_def)
  next
    case False
    have block: "py_slice toks start (start + bs) = take bs (drop start toks)"
      by (simp add: py_slice_def)
    from False have full: "\<not> length (py_slice toks start (start + bs)) < bs"
      by (auto simp: min_def)
    from False have "generate_hash_loop h bs toks (start + bs) p
        = chain_ids h bs (drop (start + bs) toks) p"
      if "p = h (HBlock parent (py_slice toks start (start + bs)))" for p
      using "1"[OF _ refl full that] by simp
    note rec = this [OF refl, unfolded block]
    from False have nfull: "\<not> (bs = 0 \<or> length (drop start toks) < bs)"
      and nend: "\<not> (bs = 0 \<or> length toks \<le> start)" by auto
    have "generate_hash_loop h bs toks start parent
        = h (HBlock parent (take bs (drop start toks)))
          # chain_ids h bs (drop (start + bs) toks) (h (HBlock parent (take bs (drop start toks))))"
      unfolding generate_hash_loop.simps [of h bs toks start]
      using nend full by (simp only: if_False Let_def block rec)
    moreover have "drop (start + bs) toks = drop bs (drop start toks)"
      by (simp add: add.commute)
    ultimately show ?thesis
      unfolding chain_ids_step [OF nfull] by simp
  qed
qed

lemma generate_hash_chain: "generate_hash h bs toks parent = chain_ids h bs toks parent"
  by (simp add: generate_hash_def generate_hash_loop_chain)

lemma length_chain_ids: "length (chain_ids h bs toks parent) = length toks div bs"
proof (induction h bs toks parent rule: chain_ids.induct)
  case (1 h bs toks parent)
  show ?case
  proof (cases "bs = 0 \<or> length toks < bs")
    case True
    then show ?thesis by (subst chain_ids.simps) auto
  next
    case False
    then have "length toks div bs = Suc ((length toks - bs) div bs)"
      by (simp add: le_div_geq)
    with False 1 show ?thesis by (subst chain_ids.simps) simp
  qed
qed

lemma chain_ids_take: "chain_ids h bs (take (n * bs) toks) parent = take n (chain_ids h bs toks parent)"
proof (induction n arbitrary: toks parent)
  case 0
  then show ?case by (subst chain_ids.simps) auto
next
  case (Suc n)
  show ?case
  proof (cases "bs = 0 \<or> length toks < bs")
    case True
    then have "chain_ids h bs (take (Suc n * bs) toks) parent = []"
      by (subst chain_ids.simps) auto
    moreover from True have "chain_ids h bs toks parent = []"
      by (subst chain_ids.simps) auto
    ultimately show ?thesis by simp
  next
    case False
    let ?t = "take (Suc n * bs) toks"
    have first: "take bs ?t = take bs toks" by (simp add: min_def)
    have rest: "drop bs ?t = take (n * bs) (drop bs toks)" by (simp add: drop_take)
    from False have nshort: "\<not> (bs = 0 \<or> length ?t < bs)" by (auto simp: min_def)
    have "chain_ids h bs ?t parent
        = h (HBlock parent (take bs toks))
          # chain_ids h bs (take (n * bs) (drop bs toks)) (h (HBlock parent (take bs toks)))"
      by (simp only: chain_ids_step [OF nshort] first rest)
    also have "\<dots> = take (Suc n) (chain_ids h bs toks parent)"
      by (simp add: chain_ids_step [OF False] Suc.IH)
    finally show ?thesis .
  qed
qed

section \<open>The contract of a block hash chain\<close>

locale hash_chain =
  fixes ids :: "nat list \<Rightarrow> bytes list"
    and bs :: nat
  assumes one_id_per_full_block: "length (ids toks) = length toks div bs"
    and ids_of_prefix: "ids (take (n * bs) toks) = take n (ids toks)"
begin

lemma shared_prefix:
  assumes "take (n * bs) t = take (n * bs) t'"
  shows "take n (ids t) = take n (ids t')"
  using assms ids_of_prefix [of n t] ids_of_prefix [of n t'] by simp

lemma id_depends_on_prefix:
  assumes "i < length t div bs" and "i < length t' div bs"
    and "take (Suc i * bs) t = take (Suc i * bs) t'"
  shows "ids t ! i = ids t' ! i"
proof -
  from assms(3) have "take (Suc i) (ids t) = take (Suc i) (ids t')"
    by (rule shared_prefix)
  then have "take (Suc i) (ids t) ! i = take (Suc i) (ids t') ! i" by simp
  then show ?thesis by simp
qed

lemma ids_extend: "take (length t div bs) (ids (t @ u)) = ids t"
proof -
  let ?n = "length t div bs"
  have le: "?n * bs \<le> length t" by simp
  have "take ?n (ids (t @ u)) = ids (take (?n * bs) (t @ u))"
    by (rule ids_of_prefix [symmetric])
  also have "take (?n * bs) (t @ u) = take (?n * bs) t"
    using le by simp
  also have "ids (take (?n * bs) t) = take ?n (ids t)" by (rule ids_of_prefix)
  also have "\<dots> = ids t" by (simp add: one_id_per_full_block)
  finally show ?thesis .
qed

end

interpretation direct_chain: hash_chain "\<lambda>toks. generate_hash h bs toks seed" bs
  for h :: "hash_input \<Rightarrow> bytes" and bs :: nat and seed :: bytes
  by unfold_locales (simp_all add: generate_hash_chain length_chain_ids chain_ids_take)

section \<open>Ids identify token prefixes\<close>

text \<open>
  The inputs a chain hands to the hasher. Where the hasher does not collide on the inputs of
  two chains, two equal ids at one position mean equal tokens up to the end of that block.
\<close>

function chain_inputs ::
  "(hash_input \<Rightarrow> bytes) \<Rightarrow> nat \<Rightarrow> nat list \<Rightarrow> bytes \<Rightarrow> hash_input set" where
  "chain_inputs h bs toks parent =
     (if bs = 0 \<or> length toks < bs then {}
      else insert (HBlock parent (take bs toks))
             (chain_inputs h bs (drop bs toks) (h (HBlock parent (take bs toks)))))"
  by pat_completeness auto
termination
  by (relation "measure (\<lambda>(h, bs, toks, p). length toks)") auto

declare chain_inputs.simps [simp del]

lemma chain_id_input:
  assumes "i < length (chain_ids h bs toks parent)"
  shows "\<exists>p blk. chain_ids h bs toks parent ! i = h (HBlock p blk)
    \<and> HBlock p blk \<in> chain_inputs h bs toks parent
    \<and> blk = take bs (drop (i * bs) toks)
    \<and> p = (if i = 0 then parent else chain_ids h bs toks parent ! (i - 1))"
  using assms
proof (induction i arbitrary: toks parent)
  case 0
  then have "\<not> (bs = 0 \<or> length toks < bs)" by (subst (asm) chain_ids.simps) (auto split: if_splits)
  then show ?case
    by (subst chain_ids.simps, subst chain_inputs.simps) auto
next
  case (Suc i)
  then have ok: "\<not> (bs = 0 \<or> length toks < bs)" by (subst (asm) chain_ids.simps) (auto split: if_splits)
  let ?v = "h (HBlock parent (take bs toks))"
  have unf: "chain_ids h bs toks parent = ?v # chain_ids h bs (drop bs toks) ?v"
    by (subst chain_ids.simps) (use ok in simp)
  have ins: "chain_inputs h bs toks parent
      = insert (HBlock parent (take bs toks)) (chain_inputs h bs (drop bs toks) ?v)"
    by (subst chain_inputs.simps) (use ok in simp)
  from Suc.prems unf have "i < length (chain_ids h bs (drop bs toks) ?v)" by simp
  from Suc.IH [OF this] obtain p blk where
    1: "chain_ids h bs (drop bs toks) ?v ! i = h (HBlock p blk)"
    and 2: "HBlock p blk \<in> chain_inputs h bs (drop bs toks) ?v"
    and 3: "blk = take bs (drop (i * bs) (drop bs toks))"
    and 4: "p = (if i = 0 then ?v else chain_ids h bs (drop bs toks) ?v ! (i - 1))"
    by blast
  from 4 have "p = chain_ids h bs toks parent ! i"
    by (cases i) (simp_all add: unf)
  with 1 2 3 show ?case
    by (auto simp: unf ins add.commute)
qed

lemma chain_ids_identify:
  assumes "inj_on h (chain_inputs h bs t s \<union> chain_inputs h bs t' s)"
    and "i < length (chain_ids h bs t s)" and "i < length (chain_ids h bs t' s)"
    and "chain_ids h bs t s ! i = chain_ids h bs t' s ! i"
  shows "take (Suc i * bs) t = take (Suc i * bs) t'"
  using assms(2-4)
proof (induction i)
  case 0
  from chain_id_input [OF 0(1)] chain_id_input [OF 0(2)] 0(3)
  have "h (HBlock s (take bs t)) = h (HBlock s (take bs t'))"
    and "HBlock s (take bs t) \<in> chain_inputs h bs t s \<union> chain_inputs h bs t' s"
    and "HBlock s (take bs t') \<in> chain_inputs h bs t s \<union> chain_inputs h bs t' s"
    by auto
  then have "HBlock s (take bs t) = HBlock s (take bs t')"
    by (rule inj_onD [OF assms(1)])
  then show ?case by simp
next
  case (Suc i)
  from chain_id_input [OF Suc.prems(1)] obtain blk where
    a: "chain_ids h bs t s ! Suc i = h (HBlock (chain_ids h bs t s ! i) blk)"
      "HBlock (chain_ids h bs t s ! i) blk \<in> chain_inputs h bs t s"
      "blk = take bs (drop (Suc i * bs) t)" by auto
  from chain_id_input [OF Suc.prems(2)] obtain blk' where
    b: "chain_ids h bs t' s ! Suc i = h (HBlock (chain_ids h bs t' s ! i) blk')"
      "HBlock (chain_ids h bs t' s ! i) blk' \<in> chain_inputs h bs t' s"
      "blk' = take bs (drop (Suc i * bs) t')" by auto
  from a b Suc.prems(3) have "HBlock (chain_ids h bs t s ! i) blk = HBlock (chain_ids h bs t' s ! i) blk'"
    by (intro inj_onD [OF assms(1)]) auto
  then have p: "chain_ids h bs t s ! i = chain_ids h bs t' s ! i" and blks: "blk = blk'" by auto
  from p Suc.IH Suc.prems have "take (Suc i * bs) t = take (Suc i * bs) t'" by simp
  moreover have "take (Suc (Suc i) * bs) u = take (Suc i * bs) u @ take bs (drop (Suc i * bs) u)" for u :: "nat list"
    by (metis add.commute mult_Suc take_add)
  ultimately show ?case using blks a(3) b(3) by simp
qed

section \<open>Ids of the other ranks\<close>

text \<open>
  \<open>_make_other_rank_hashers\<close> builds a hasher per rank from 1 on, or none for an MLA
  model; \<open>other_rank_block_ids\<close> is the list \<open>_prefetch_other_rank_hashes\<close> passes to
  the store: for every other rank, the rank-scoped id of every block, rank by rank.
\<close>

definition make_other_rank_hashers ::
  "hash_funs \<Rightarrow> hasher_config \<Rightarrow> bool \<Rightarrow> (hash_input \<Rightarrow> bytes) list" where
  "make_other_rank_hashers hf c is_mla =
     (if is_mla then []
      else map (\<lambda>rank_id. request_hasher hf (hasher_meta c rank_id)) [1..<hc_tp_size c])"

definition other_rank_block_ids :: "(hash_input \<Rightarrow> bytes) list \<Rightarrow> bytes list \<Rightarrow> bytes list" where
  "other_rank_block_ids hashers rank0_block_ids =
     concat (map (\<lambda>rank_hasher. map (\<lambda>b. rank_hasher (HBytes b)) rank0_block_ids) hashers)"

lemma length_other_rank_block_ids:
  "length (other_rank_block_ids hs ids) = length hs * length ids"
  by (induction hs) (simp_all add: other_rank_block_ids_def)

text \<open>\<open>_rank_scoped_ucm_block_ids\<close>: rank 0 and MLA models use the ids as they are.\<close>

definition rank_scoped_ids :: "(hash_input \<Rightarrow> bytes) \<Rightarrow> bool \<Rightarrow> bytes list \<Rightarrow> bytes list" where
  "rank_scoped_ids h unscoped ids = (if unscoped then ids else map (\<lambda>b. h (HBytes b)) ids)"

lemma length_rank_scoped_ids [simp]: "length (rank_scoped_ids h u ids) = length ids"
  by (simp add: rank_scoped_ids_def)

section \<open>Properties\<close>

text \<open>Concrete inputs for the witnesses.\<close>

definition demo_hash :: "hash_input \<Rightarrow> bytes" where
  "demo_hash i = (case i of HBlock p blk \<Rightarrow> p @ map char_of blk | _ \<Rightarrow> [])"

definition demo_funs :: hash_funs where
  "demo_funs = \<lparr>hf_md5 = id, hf_pickle = \<lambda>_. ''x''\<rparr>"

definition demo_config :: hasher_config where
  "demo_config =
     \<lparr>hc_model = ''m'', hc_tp_size = 3, hc_dtype = ''bf16'', hc_spec = None,
      hc_sfa_c8 = False, hc_li_c8 = False\<rparr>"

text \<open>
  Two block hash chains that share their first \<open>n\<close> blocks of tokens share their
  first \<open>n\<close> ids, so a cached prefix is found by every request that starts with it.
\<close>

lemma shared_prefix_shares_ids:
  assumes "take (n * bs) toks = take (n * bs) toks'"
  shows "take n (generate_hash h bs toks seed) = take n (generate_hash h bs toks' seed)"
  using assms by (rule direct_chain.shared_prefix)

text \<open>
  C35: Where the hasher does not collide on the inputs of two chains, equal ids at a
  position mean equal tokens up to the end of that block: a hit in the store is a hit on the
  request's own prefix.
\<close>

theorem equal_ids_mean_equal_prefixes:
  assumes "inj_on h (chain_inputs h bs toks seed \<union> chain_inputs h bs toks' seed)"
    and "i < length (generate_hash h bs toks seed)" and "i < length (generate_hash h bs toks' seed)"
    and "generate_hash h bs toks seed ! i = generate_hash h bs toks' seed ! i"
  shows "take (Suc i * bs) toks = take (Suc i * bs) toks'"
  using chain_ids_identify [OF assms(1)] assms(2-4) by (simp add: generate_hash_chain)

theorem equal_ids_mean_equal_prefixes_witness:
  "take (Suc 0 * 2) [1, 2, 3 :: nat] = take (Suc 0 * 2) [1, 2, 4]"
proof (rule equal_ids_mean_equal_prefixes [of demo_hash 2 _ "[]"])
  show "inj_on demo_hash (chain_inputs demo_hash 2 [1, 2, 3] [] \<union> chain_inputs demo_hash 2 [1, 2, 4] [])"
    by (simp add: chain_inputs.simps)
qed (simp_all add: generate_hash_chain chain_ids.simps demo_hash_def)

text \<open>
  The ids the scheduler prefetches for the other ranks are the ids those ranks use:
  the \<open>r\<close>-th stretch of the prefetched list is what the worker of rank \<open>r\<close> loads
  and dumps under.
\<close>

lemma prefetched_ids_are_the_ranks_ids:
  assumes "0 < r" and "r < hc_tp_size c"
  shows "py_slice (other_rank_block_ids (make_other_rank_hashers hf c False) ids)
           ((r - 1) * length ids) (r * length ids)
       = rank_scoped_ids (request_hasher hf (hasher_meta c r)) (r = 0) ids"
proof -
  define hs where "hs = make_other_rank_hashers hf c False"
  have len: "length hs = hc_tp_size c - 1" by (simp add: hs_def make_other_rank_hashers_def)
  have slice: "py_slice (other_rank_block_ids gs ids) (k * length ids) (Suc k * length ids)
      = map (\<lambda>b. (gs ! k) (HBytes b)) ids" if "k < length gs" for k gs
    using that
  proof (induction gs arbitrary: k)
    case Nil
    then show ?case by simp
  next
    case (Cons g gs)
    show ?case
    proof (cases k)
      case 0
      then show ?thesis by (simp add: other_rank_block_ids_def py_slice_def)
    next
      case (Suc j)
      with Cons.prems have "j < length gs" by simp
      from Cons.IH [OF this] Suc show ?thesis
        by (simp add: other_rank_block_ids_def py_slice_def)
    qed
  qed
  have "[1..<hc_tp_size c] ! (r - 1) = r"
    using assms by (subst nth_upt) auto
  then have "hs ! (r - 1) = request_hasher hf (hasher_meta c r)"
    using assms by (simp add: hs_def make_other_rank_hashers_def)
  with slice [of "r - 1" hs] assms len show ?thesis
    by (simp add: hs_def rank_scoped_ids_def)
qed

text \<open>
  Two ranks of one configuration never store under one key: if the digest does not
  collide on the two inputs, equal ids come from the same rank and the same input bytes.
\<close>

lemma ranks_do_not_share_keys:
  assumes "request_hasher hf (hasher_meta c r1) i1 = request_hasher hf (hasher_meta c r2) i2"
    and "inj_on (hf_md5 hf) {hasher_meta c r1 @ input_bytes hf i1, hasher_meta c r2 @ input_bytes hf i2}"
  shows "r1 = r2 \<and> input_bytes hf i1 = input_bytes hf i2"
proof -
  have "hasher_meta c r1 @ input_bytes hf i1 = hasher_meta c r2 @ input_bytes hf i2"
    by (rule inj_onD [OF assms(2) assms(1) [unfolded request_hasher_def]]) (simp_all only: insert_iff simp_thms)
  then show ?thesis by (simp only: hasher_meta_append_inject)
qed

end
