(* ===== verification/Kv_Store.thy ===== *)
theory Kv_Store
  imports Ucm_Prelude
begin

text \<open>
  \<open>UcmKVStoreBaseV1\<close>, the abstract class every storage backend implements, and the
  \<open>Device\<close> class that owns the stream-synchronisation events. A store object is a record
  of its methods over the state \<open>'w\<close> of the world outside the connectors; a task handle is
  the identity of the Python task object, which is what the connectors key their tables with.
  Every method may raise. The backends themselves are native code and stay parameters: a
  theorem holds for every record of methods, and names what it needs of them as hypotheses.
\<close>

section \<open>The store interface\<close>

text \<open>The lookup half of the interface: \<open>lookup\<close>, \<open>lookup_on_prefix\<close>, \<open>prefetch\<close>.\<close>

record 'w kv_lookup_api =
  st_lookup :: "'w \<Rightarrow> bytes list \<Rightarrow> bool list result \<times> 'w"
  st_lookup_on_prefix :: "'w \<Rightarrow> bytes list \<Rightarrow> int result \<times> 'w"
  st_prefetch :: "'w \<Rightarrow> bytes list \<Rightarrow> unit result \<times> 'w"

text \<open>
  The transfer half: \<open>load_data\<close>, \<open>dump_data\<close> (with its prerequisite event handle),
  \<open>wait\<close> and \<open>check\<close>. The tensor variants \<open>load\<close> and \<open>dump\<close> are not
  called by the connectors.
\<close>

record 'w kv_store = "'w kv_lookup_api" +
  st_load_data :: "'w \<Rightarrow> bytes list \<Rightarrow> nat list \<Rightarrow> u64 list list \<Rightarrow> nat result \<times> 'w"
  st_dump_data :: "'w \<Rightarrow> bytes list \<Rightarrow> nat list \<Rightarrow> u64 list list \<Rightarrow> nat \<Rightarrow> nat result \<times> 'w"
  st_wait :: "'w \<Rightarrow> nat \<Rightarrow> unit result \<times> 'w"
  st_check :: "'w \<Rightarrow> nat \<Rightarrow> bool result \<times> 'w"

text \<open>
  The documented contract of the lookups: for the blocks \<open>present\<close> in the store,
  \<open>lookup\<close> answers per block and \<open>lookup_on_prefix\<close> returns the index of the last
  block of the longest stored prefix, \<open>-1\<close> if there is none.
\<close>

definition honest_prefix_lookup :: "(bytes \<Rightarrow> bool) \<Rightarrow> 'w \<Rightarrow> ('w, 'b) kv_lookup_api_scheme \<Rightarrow> bool" where
  "honest_prefix_lookup present w store \<longleftrightarrow>
     (\<forall>ids. fst (st_lookup_on_prefix store w ids) = Inr (int (length (takeWhile present ids)) - 1))"

definition honest_lookup :: "(bytes \<Rightarrow> bool) \<Rightarrow> 'w \<Rightarrow> ('w, 'b) kv_lookup_api_scheme \<Rightarrow> bool" where
  "honest_lookup present w store \<longleftrightarrow> (\<forall>ids. fst (st_lookup store w ids) = Inr (map present ids))"

section \<open>The device and its events\<close>

text \<open>
  \<open>CudaDevice\<close> and \<open>NpuDevice\<close> differ in the runtime calls they make. Both keep the
  handles they have handed out in \<open>events\<close>. The runtime is the parameter
  \<open>new_event\<close> (\<open>None\<close> where creating or recording the event fails) and \<open>sync\<close>.
\<close>

record 'w device_api =
  dv_new_event :: "'w \<Rightarrow> nat option \<times> 'w"
  dv_sync :: "'w \<Rightarrow> 'w"

type_synonym events = "nat set"

definition get_event_handle :: "'w device_api \<Rightarrow> events \<Rightarrow> 'w \<Rightarrow> nat \<times> events \<times> 'w" where
  "get_event_handle dv ev w =
     (case dv_new_event dv w of
        (None, w') \<Rightarrow> (0, ev, w')
      | (Some handle, w') \<Rightarrow> (handle, insert handle ev, w'))"

definition destroy_event_handle :: "nat \<Rightarrow> events \<Rightarrow> events" where
  "destroy_event_handle handle ev = ev - {handle}"

definition destroy_event_handles :: "events \<Rightarrow> events" where
  "destroy_event_handles ev = {}"

text \<open>
  \<open>_get_dump_event_handle\<close> of the connectors: without event synchronisation, or where no
  event could be recorded, the compute stream is synchronised and the handle is 0.
\<close>

definition get_dump_event_handle ::
  "'w device_api \<Rightarrow> bool \<Rightarrow> events \<Rightarrow> 'w \<Rightarrow> nat \<times> events \<times> 'w" where
  "get_dump_event_handle dv enable_event_sync ev w =
     (if \<not> enable_event_sync then (0, ev, dv_sync dv w)
      else
        (case get_event_handle dv ev w of
           (event_handle, ev', w') \<Rightarrow>
             (event_handle, ev', if event_handle = 0 then dv_sync dv w' else w')))"

end
