(* ===== verification/Rank_Consistency.thy ===== *)
theory Rank_Consistency
  imports Kv_Store "HOL-Library.Char_ord" "HOL-Library.List_Lexorder"
begin

text \<open>
  \<open>rank_consistency.py\<close>: the scheduler-side tracker of blocks that some rank failed to
  find, and the manager both sides put between a connector and its stores. On a worker the
  manager keeps, per task, the requests and blocks the task covers, so that a failed wait is
  charged to the right blocks; on the scheduler it filters lookups through the tracker. The
  worker-to-scheduler record \<open>UCMWorkerMetadata\<close> and its aggregation over ranks are here
  as well, since it carries the manager's reports.
\<close>

section \<open>The tracker\<close>

text \<open>
  \<open>RankConsistencyTracker\<close> is a set of block ids. \<open>set.pop\<close> removes an element Python
  leaves open: the parameter \<open>pick\<close>. The set a caller passes is the list of its elements
  in the order the loop meets them.
\<close>

type_synonym tracker = "bytes set"

definition max_inconsistent_blocks :: nat where
  "max_inconsistent_blocks = 2000000"

fun mark_missing_loop ::
  "nat \<Rightarrow> (bytes set \<Rightarrow> bytes) \<Rightarrow> bytes list \<Rightarrow> tracker \<times> nat \<times> nat \<Rightarrow> tracker \<times> nat \<times> nat" where
  "mark_missing_loop cap pick [] acc = acc"
| "mark_missing_loop cap pick (block_id # rest) (t, added, evicted) =
     (if block_id \<in> t then mark_missing_loop cap pick rest (t, added, evicted)
      else
        let (t', evicted') =
              (if cap \<le> card t then (t - {pick t}, Suc evicted) else (t, evicted))
        in mark_missing_loop cap pick rest (insert block_id t', Suc added, evicted'))"

definition mark_missing :: "(bytes set \<Rightarrow> bytes) \<Rightarrow> bytes list \<Rightarrow> tracker \<Rightarrow> tracker \<times> nat" where
  "mark_missing pick rank0_block_ids t =
     (let (t', added, evicted) = mark_missing_loop max_inconsistent_blocks pick rank0_block_ids (t, 0, 0)
      in (t', added))"

definition clear_dumped :: "bytes set \<Rightarrow> tracker \<Rightarrow> tracker \<times> nat" where
  "clear_dumped rank0_block_ids t = (t - rank0_block_ids, card t - card (t - rank0_block_ids))"

fun valid_prefix :: "tracker \<Rightarrow> bytes list \<Rightarrow> bytes list" where
  "valid_prefix t [] = []"
| "valid_prefix t (block_id # rest) = (if block_id \<in> t then [] else block_id # valid_prefix t rest)"

lemma valid_prefix_takeWhile: "valid_prefix t ids = takeWhile (\<lambda>b. b \<notin> t) ids"
  by (induction ids) auto

lemma mark_missing_loop_room:
  "finite t \<Longrightarrow> card (t \<union> set ids) \<le> cap \<Longrightarrow>
     mark_missing_loop cap pick ids (t, a, e) = (t \<union> set ids, a + card (set ids - t), e)"
proof (induction ids arbitrary: t a)
  case Nil
  then show ?case by simp
next
  case (Cons b ids)
  show ?case
  proof (cases "b \<in> t")
    case True
    then have "t \<union> set (b # ids) = t \<union> set ids" and "set (b # ids) - t = set ids - t" by auto
    with True Cons show ?thesis by simp
  next
    case False
    have "insert b t \<subseteq> t \<union> set (b # ids)" by auto
    then have "card (insert b t) \<le> card (t \<union> set (b # ids))"
      by (rule card_mono [rotated]) (use Cons.prems(1) in simp)
    with Cons.prems(1) False have "Suc (card t) \<le> card (t \<union> set (b # ids))" by simp
    with Cons.prems(2) have room: "\<not> cap \<le> card t" by simp
    have eqs: "insert b t \<union> set ids = t \<union> set (b # ids)"
      and diff: "set (b # ids) - t = insert b (set ids - insert b t)" using False by auto
    have "card (set (b # ids) - t) = Suc (card (set ids - insert b t))"
      by (simp only: diff) (simp add: Cons.prems(1))
    with False room Cons.IH [of "insert b t" "Suc a"] Cons.prems eqs show ?thesis
      by simp
  qed
qed

lemma mark_missing_loop_bound:
  assumes "0 < cap" and "finite t" and "card t \<le> cap"
    and "\<And>s. finite s \<Longrightarrow> s \<noteq> {} \<Longrightarrow> pick s \<in> s"
  shows "case mark_missing_loop cap pick ids (t, a, e) of
           (t', a', e') \<Rightarrow> finite t' \<and> card t' \<le> cap \<and> t' \<subseteq> t \<union> set ids
             \<and> a \<le> a' \<and> e \<le> e' \<and> card t' + (e' - e) = card t + (a' - a)"
  using assms(2,3)
proof (induction ids arbitrary: t a e)
  case Nil
  then show ?case by simp
next
  case (Cons b ids)
  show ?case
  proof (cases "b \<in> t")
    case True
    with Cons.IH [OF Cons.prems, of a e] show ?thesis
      by (auto split: prod.splits)
  next
    case False
    show ?thesis
    proof (cases "cap \<le> card t")
      case True
      with Cons.prems(2) assms(1) have c: "card t = cap" "t \<noteq> {}" by auto
      then have p: "pick t \<in> t" by (intro assms(4) Cons.prems(1))
      let ?t = "insert b (t - {pick t})"
      from False p Cons.prems c have "finite ?t" "card ?t = cap"
        using card_Suc_Diff1 [OF Cons.prems(1) p] by (auto simp: card_insert_if)
      with Cons.IH [of ?t "Suc a" "Suc e"] False True c show ?thesis
        by (auto split: prod.splits)
    next
      case room: False
      from False Cons.prems room have "finite (insert b t)" "card (insert b t) = Suc (card t)" "Suc (card t) \<le> cap"
        by auto
      with Cons.IH [of "insert b t" "Suc a" e] False room show ?thesis
        by (auto split: prod.splits)
    qed
  qed
qed

section \<open>Metadata from the workers\<close>

record worker_meta =
  wm_is_mla :: bool
  wm_load_failed_reqs :: "req_id set"
  wm_missing_reqs :: "req_id set"
  wm_missing_blocks :: "bytes set"
  wm_dump_succeeded_blocks :: "bytes set"

definition empty_worker_meta :: "bool \<Rightarrow> worker_meta" where
  "empty_worker_meta is_mla =
     \<lparr>wm_is_mla = is_mla, wm_load_failed_reqs = {}, wm_missing_reqs = {},
      wm_missing_blocks = {}, wm_dump_succeeded_blocks = {}\<rparr>"

definition mark_failed :: "req_id \<Rightarrow> worker_meta \<Rightarrow> worker_meta" where
  "mark_failed req_id m = m\<lparr>wm_load_failed_reqs := insert req_id (wm_load_failed_reqs m)\<rparr>"

definition wm_mark_missing :: "req_id \<Rightarrow> bytes list \<Rightarrow> worker_meta \<Rightarrow> worker_meta" where
  "wm_mark_missing req_id rank0_block_ids m =
     m\<lparr>wm_missing_reqs := insert req_id (wm_missing_reqs m),
       wm_missing_blocks := wm_missing_blocks m \<union> set rank0_block_ids\<rparr>"

definition aggregate :: "worker_meta \<Rightarrow> worker_meta \<Rightarrow> worker_meta result" where
  "aggregate m other =
     (if wm_is_mla m \<noteq> wm_is_mla other then Inl AssertionError
      else Inr (m\<lparr>
        wm_load_failed_reqs := wm_load_failed_reqs m \<union> wm_load_failed_reqs other,
        wm_missing_reqs := wm_missing_reqs m \<union> wm_missing_reqs other,
        wm_missing_blocks := wm_missing_blocks m \<union> wm_missing_blocks other,
        wm_dump_succeeded_blocks :=
          (if wm_is_mla m
           then wm_dump_succeeded_blocks m \<union> wm_dump_succeeded_blocks other
           else wm_dump_succeeded_blocks m \<inter> wm_dump_succeeded_blocks other)\<rparr>))"

text \<open>Aggregation over all ranks, as vLLM folds it over the workers' outputs.\<close>

fun aggregate_all :: "worker_meta \<Rightarrow> worker_meta list \<Rightarrow> worker_meta result" where
  "aggregate_all m [] = Inr m"
| "aggregate_all m (other # rest) = rbind (aggregate m other) (\<lambda>m'. aggregate_all m' rest)"

lemma aggregate_all_fields:
  assumes "\<forall>x \<in> set ms. wm_is_mla x = wm_is_mla m"
  shows "aggregate_all m ms = Inr
    \<lparr>wm_is_mla = wm_is_mla m,
     wm_load_failed_reqs = (\<Union>x \<in> set (m # ms). wm_load_failed_reqs x),
     wm_missing_reqs = (\<Union>x \<in> set (m # ms). wm_missing_reqs x),
     wm_missing_blocks = (\<Union>x \<in> set (m # ms). wm_missing_blocks x),
     wm_dump_succeeded_blocks =
       (if wm_is_mla m then (\<Union>x \<in> set (m # ms). wm_dump_succeeded_blocks x)
        else (\<Inter>x \<in> set (m # ms). wm_dump_succeeded_blocks x))\<rparr>"
  using assms
proof (induction ms arbitrary: m)
  case Nil
  then show ?case by simp
next
  case (Cons y ms)
  let ?m = "m\<lparr>wm_load_failed_reqs := wm_load_failed_reqs m \<union> wm_load_failed_reqs y,
        wm_missing_reqs := wm_missing_reqs m \<union> wm_missing_reqs y,
        wm_missing_blocks := wm_missing_blocks m \<union> wm_missing_blocks y,
        wm_dump_succeeded_blocks :=
          (if wm_is_mla m then wm_dump_succeeded_blocks m \<union> wm_dump_succeeded_blocks y
           else wm_dump_succeeded_blocks m \<inter> wm_dump_succeeded_blocks y)\<rparr>"
  from Cons.prems have "aggregate m y = Inr ?m" by (simp add: aggregate_def)
  moreover have "aggregate_all ?m ms = Inr
    \<lparr>wm_is_mla = wm_is_mla ?m,
     wm_load_failed_reqs = (\<Union>x \<in> set (?m # ms). wm_load_failed_reqs x),
     wm_missing_reqs = (\<Union>x \<in> set (?m # ms). wm_missing_reqs x),
     wm_missing_blocks = (\<Union>x \<in> set (?m # ms). wm_missing_blocks x),
     wm_dump_succeeded_blocks =
       (if wm_is_mla ?m then (\<Union>x \<in> set (?m # ms). wm_dump_succeeded_blocks x)
        else (\<Inter>x \<in> set (?m # ms). wm_dump_succeeded_blocks x))\<rparr>"
    by (rule Cons.IH) (use Cons.prems in simp)
  ultimately show ?case by (simp add: Un_assoc Int_assoc)
qed

section \<open>The manager\<close>

text \<open>
  \<open>RankConsistencyManager\<close>. A task context holds the store the task was submitted to and,
  while the manager is enabled, the blocks of each request the task covers. Iterating and
  popping a Python set leaves the order open: \<open>set_order\<close> is that choice.
\<close>

record set_order =
  so_pick :: "bytes set \<Rightarrow> bytes"
  so_list :: "bytes set \<Rightarrow> bytes list"

type_synonym load_context = "(req_id, bytes list) dict"
type_synonym dump_context = "(req_id, bytes set) dict"

record 'w rcm =
  rc_enabled :: bool
  rc_tracker :: "tracker option"
  rc_missing_reqs :: "req_id set"
  rc_missing_blocks :: "bytes set"
  rc_dump_succeeded_blocks :: "bytes set"
  rc_load_contexts :: "(nat, 'w kv_store \<times> load_context) dict"
  rc_dump_contexts :: "(nat, 'w kv_store \<times> dump_context) dict"
  rc_dump_blocks_by_request :: "(req_id, bytes set) dict"
  rc_dump_failed_by_request :: "(req_id, bytes set) dict"

definition new_rcm :: "bool \<Rightarrow> bool \<Rightarrow> 'w rcm" where
  "new_rcm is_scheduler use_consistency_manager =
     \<lparr>rc_enabled = use_consistency_manager,
      rc_tracker = (if is_scheduler \<and> use_consistency_manager then Some {} else None),
      rc_missing_reqs = {}, rc_missing_blocks = {}, rc_dump_succeeded_blocks = {},
      rc_load_contexts = [], rc_dump_contexts = [],
      rc_dump_blocks_by_request = [], rc_dump_failed_by_request = []\<rparr>"

definition rcm_lookup_on_prefix ::
  "'w rcm \<Rightarrow> ('w, 'b) kv_lookup_api_scheme \<Rightarrow> 'w \<Rightarrow> bytes list \<Rightarrow> int result \<times> 'w" where
  "rcm_lookup_on_prefix m store w block_ids =
     (if \<not> rc_enabled m then st_lookup_on_prefix store w block_ids
      else
        let ids = (case rc_tracker m of None \<Rightarrow> block_ids | Some t \<Rightarrow> valid_prefix t block_ids)
        in if ids = [] then (Inr (- 1), w) else st_lookup_on_prefix store w ids)"

definition rcm_lookup_all ::
  "'w rcm \<Rightarrow> ('w, 'b) kv_lookup_api_scheme \<Rightarrow> 'w \<Rightarrow> bytes list \<Rightarrow> bool list result \<times> 'w" where
  "rcm_lookup_all m store w block_ids =
     (case st_lookup store w block_ids of
        (Inl e, w') \<Rightarrow> (Inl e, w')
      | (Inr results, w') \<Rightarrow>
          (case rc_tracker m of
             None \<Rightarrow> (Inr results, w')
           | Some t \<Rightarrow>
               (Inr (map (\<lambda>(block_id, r). if block_id \<in> t then False else r) (zip block_ids results)), w')))"

text \<open>The loops that queue missing blocks and accumulate the blocks of a failed dump.\<close>

fun mark_load_context_missing :: "load_context \<Rightarrow> 'w rcm \<Rightarrow> 'w rcm" where
  "mark_load_context_missing [] m = m"
| "mark_load_context_missing ((request_id, block_ids) # rest) m =
     mark_load_context_missing rest
       (m\<lparr>rc_missing_reqs := insert request_id (rc_missing_reqs m),
          rc_missing_blocks := rc_missing_blocks m \<union> set block_ids\<rparr>)"

text \<open>\<open>d.setdefault(k, set()).update(s)\<close>, over the items of a context.\<close>

fun accumulate :: "dump_context \<Rightarrow> (req_id, bytes set) dict \<Rightarrow> (req_id, bytes set) dict" where
  "accumulate [] d = d"
| "accumulate ((request_id, block_ids) # rest) d =
     accumulate rest (dict_set request_id (dict_get_or d request_id {} \<union> block_ids) d)"

definition record_dump_failure :: "dump_context \<Rightarrow> 'w rcm \<Rightarrow> 'w rcm" where
  "record_dump_failure ctx m =
     m\<lparr>rc_dump_failed_by_request := accumulate ctx (rc_dump_failed_by_request m)\<rparr>"

definition submit_load ::
  "'w rcm \<Rightarrow> 'w kv_store \<Rightarrow> 'w \<Rightarrow> (req_id, bytes list) dict \<Rightarrow> bytes list \<Rightarrow> nat list
     \<Rightarrow> u64 list list \<Rightarrow> nat result \<times> 'w rcm \<times> 'w" where
  "submit_load m store w block_ids_by_request block_ids shard_indices ptrs =
     (let request_context = (if rc_enabled m then block_ids_by_request else []) in
      case st_load_data store w block_ids shard_indices ptrs of
        (Inl e, w') \<Rightarrow>
          (Inl e,
           (if rc_enabled m \<and> e = StoreNotFound then mark_load_context_missing request_context m else m),
           w')
      | (Inr task, w') \<Rightarrow>
          (Inr task,
           m\<lparr>rc_load_contexts := dict_set task (store, request_context) (rc_load_contexts m)\<rparr>,
           w'))"

definition wait_load :: "'w rcm \<Rightarrow> 'w \<Rightarrow> nat \<Rightarrow> unit result \<times> 'w rcm \<times> 'w" where
  "wait_load m w task =
     (case dict_get (rc_load_contexts m) task of
        None \<Rightarrow> (Inl RuntimeError, m, w)
      | Some (store, request_context) \<Rightarrow>
          (let m' = m\<lparr>rc_load_contexts := dict_pop task (rc_load_contexts m)\<rparr> in
           case st_wait store w task of
             (Inl e, w') \<Rightarrow>
               (Inl e,
                (if rc_enabled m \<and> e = StoreNotFound
                 then mark_load_context_missing request_context m' else m'),
                w')
           | (Inr _, w') \<Rightarrow> (Inr (), m', w')))"

definition submit_dump ::
  "'w rcm \<Rightarrow> 'w kv_store \<Rightarrow> 'w \<Rightarrow> (req_id, bytes set) dict \<Rightarrow> bytes list \<Rightarrow> nat list
     \<Rightarrow> u64 list list \<Rightarrow> nat \<Rightarrow> nat result \<times> 'w rcm \<times> 'w" where
  "submit_dump m store w block_ids_by_request block_ids shard_indices ptrs event_handle =
     (let request_context = (if rc_enabled m then block_ids_by_request else []);
          m1 = m\<lparr>rc_dump_blocks_by_request :=
                    accumulate request_context (rc_dump_blocks_by_request m)\<rparr>
      in case st_dump_data store w block_ids shard_indices ptrs event_handle of
           (Inl e, w') \<Rightarrow> (Inl e, record_dump_failure request_context m1, w')
         | (Inr task, w') \<Rightarrow>
             (Inr task,
              m1\<lparr>rc_dump_contexts := dict_set task (store, request_context) (rc_dump_contexts m1)\<rparr>,
              w'))"

definition wait_dump :: "'w rcm \<Rightarrow> 'w \<Rightarrow> nat \<Rightarrow> unit result \<times> 'w rcm \<times> 'w" where
  "wait_dump m w task =
     (case dict_get (rc_dump_contexts m) task of
        None \<Rightarrow> (Inl RuntimeError, m, w)
      | Some (store, request_context) \<Rightarrow>
          (let m' = m\<lparr>rc_dump_contexts := dict_pop task (rc_dump_contexts m)\<rparr> in
           case st_wait store w task of
             (Inl e, w') \<Rightarrow> (Inl e, record_dump_failure request_context m', w')
           | (Inr _, w') \<Rightarrow> (Inr (), m', w')))"

definition pending_dump_requests :: "'w rcm \<Rightarrow> req_id set" where
  "pending_dump_requests m = (\<Union>(store, ctx) \<in> snd ` set (rc_dump_contexts m). dict_keys ctx)"

fun finish_dump_loop :: "req_id list \<Rightarrow> 'w rcm \<Rightarrow> 'w rcm" where
  "finish_dump_loop [] m = m"
| "finish_dump_loop (request_id # rest) m =
     (let block_ids = dict_get_or (rc_dump_blocks_by_request m) request_id {};
          failed_block_ids = dict_get_or (rc_dump_failed_by_request m) request_id {}
      in finish_dump_loop rest
           (m\<lparr>rc_dump_blocks_by_request := dict_pop request_id (rc_dump_blocks_by_request m),
              rc_dump_failed_by_request := dict_pop request_id (rc_dump_failed_by_request m),
              rc_dump_succeeded_blocks :=
                rc_dump_succeeded_blocks m \<union> (block_ids - failed_block_ids)\<rparr>))"

definition finish_dump :: "'w rcm \<Rightarrow> req_id list \<Rightarrow> unit result \<times> 'w rcm" where
  "finish_dump m request_ids =
     (if \<not> rc_enabled m then (Inr (), m)
      else if set request_ids \<inter> pending_dump_requests m \<noteq> {} then (Inl RuntimeError, m)
      else (Inr (), finish_dump_loop request_ids m))"

definition update_worker_meta :: "'w rcm \<Rightarrow> worker_meta \<Rightarrow> worker_meta \<times> 'w rcm" where
  "update_worker_meta m wm =
     (if \<not> rc_enabled m then (wm, m)
      else
        (wm\<lparr>wm_missing_reqs := wm_missing_reqs wm \<union> rc_missing_reqs m,
            wm_missing_blocks := wm_missing_blocks wm \<union> rc_missing_blocks m,
            wm_dump_succeeded_blocks :=
              wm_dump_succeeded_blocks wm \<union> rc_dump_succeeded_blocks m\<rparr>,
         m\<lparr>rc_missing_reqs := {}, rc_missing_blocks := {}, rc_dump_succeeded_blocks := {}\<rparr>))"

definition apply_worker_meta :: "set_order \<Rightarrow> worker_meta \<Rightarrow> 'w rcm \<Rightarrow> 'w rcm" where
  "apply_worker_meta so wm m =
     (case rc_tracker m of
        None \<Rightarrow> m
      | Some t \<Rightarrow>
          let (t1, cleared) = clear_dumped (wm_dump_succeeded_blocks wm) t;
              (t2, added) = mark_missing (so_pick so) (so_list so (wm_missing_blocks wm)) t1
          in m\<lparr>rc_tracker := Some t2\<rparr>)"

text \<open>
  What Python guarantees of the choices: popping removes an element of the set, and a loop
  over a finite set meets exactly its elements.
\<close>

definition fair_order :: "set_order \<Rightarrow> bool" where
  "fair_order so \<longleftrightarrow>
     (\<forall>s. finite s \<longrightarrow> s \<noteq> {} \<longrightarrow> so_pick so s \<in> s) \<and> (\<forall>s. finite s \<longrightarrow> set (so_list so s) = s)"

section \<open>Lookups through the manager\<close>

lemma takeWhile_conj: "takeWhile P (takeWhile Q xs) = takeWhile (\<lambda>x. Q x \<and> P x) xs"
  by (induction xs) auto

lemma rcm_lookup_on_prefix_honest:
  assumes "honest_prefix_lookup present w store" and "rc_enabled m" and "rc_tracker m = Some t"
  shows "fst (rcm_lookup_on_prefix m store w ids)
       = Inr (int (length (takeWhile (\<lambda>b. b \<notin> t \<and> present b) ids)) - 1)"
proof (cases "valid_prefix t ids = []")
  case True
  then have "takeWhile (\<lambda>b. b \<notin> t \<and> present b) ids = []"
    by (cases ids) (auto simp: valid_prefix_takeWhile split: if_splits)
  with True assms(2,3) show ?thesis by (simp add: rcm_lookup_on_prefix_def)
next
  case False
  with assms show ?thesis
    by (simp add: rcm_lookup_on_prefix_def honest_prefix_lookup_def valid_prefix_takeWhile takeWhile_conj)
qed

lemma rcm_lookup_all_honest:
  assumes "honest_lookup present w store" and "rc_tracker m = Some t"
  shows "fst (rcm_lookup_all m store w ids) = Inr (map (\<lambda>b. b \<notin> t \<and> present b) ids)"
proof -
  have "map (\<lambda>(b, r). if b \<in> t then False else r) (zip ids (map present ids)) = map (\<lambda>b. b \<notin> t \<and> present b) ids"
    by (induction ids) auto
  moreover obtain w' where "st_lookup store w ids = (Inr (map present ids), w')"
    using assms(1) by (metis honest_lookup_def prod.collapse)
  ultimately show ?thesis
    using assms(2) by (simp add: rcm_lookup_all_def)
qed

text \<open>A store that answers no index beyond the ids it was asked for.\<close>

definition lookup_in_range :: "('w, 'b) kv_lookup_api_scheme \<Rightarrow> bool" where
  "lookup_in_range store =
     (\<forall>w ids i. fst (st_lookup_on_prefix store w ids) = Inr i \<longrightarrow> i < int (length ids))"

lemma rcm_lookup_in_range:
  assumes "lookup_in_range store" and "rcm_lookup_on_prefix m store w ids = (Inr i, w')"
  shows "i < int (length ids)"
proof -
  have r: "j < int (length xs)" if "st_lookup_on_prefix store w xs = (Inr j, w')" for j xs
    using assms(1) that unfolding lookup_in_range_def by (metis fst_conv)
  have "length (case rc_tracker m of None \<Rightarrow> ids | Some t \<Rightarrow> valid_prefix t ids) \<le> length ids"
    by (simp add: valid_prefix_takeWhile length_takeWhile_le split: option.splits)
  with assms(2) show ?thesis
    by (auto simp: rcm_lookup_on_prefix_def Let_def dest!: r split: if_splits)
qed

section \<open>Accumulated contexts\<close>

lemma accumulate_get:
  "distinct (map fst ctx) \<Longrightarrow>
     dict_get_or (accumulate ctx d) r {} = dict_get_or d r {} \<union> dict_get_or ctx r {}"
proof (induction ctx arbitrary: d)
  case Nil
  then show ?case by (simp add: dict_get_or_def)
next
  case (Cons p ctx)
  obtain k v where p: "p = (k, v)" by (cases p)
  with Cons.prems have "k \<notin> dict_keys ctx" by auto
  then have "map_of ctx k = None" by (simp add: map_of_eq_None_iff)
  with Cons p show ?case by (auto simp: dict_get_or_def)
qed

lemma accumulate_mono: "dict_get_or d r {} \<subseteq> dict_get_or (accumulate ctx d) r {}"
proof (induction ctx arbitrary: d)
  case Nil
  then show ?case by simp
next
  case (Cons p ctx)
  obtain k v where p: "p = (k, v)" by (cases p)
  have "dict_get_or d r {} \<subseteq> dict_get_or (dict_set k (dict_get_or d k {} \<union> v) d) r {}" by auto
  also have "\<dots> \<subseteq> dict_get_or (accumulate ctx (dict_set k (dict_get_or d k {} \<union> v) d)) r {}" by (rule Cons.IH)
  finally show ?case by (simp add: p)
qed

lemma mark_load_context_missing_fields:
  "rc_missing_reqs (mark_load_context_missing ctx m) = rc_missing_reqs m \<union> dict_keys ctx"
  "rc_missing_blocks (mark_load_context_missing ctx m) = rc_missing_blocks m \<union> (\<Union>(r, bs) \<in> set ctx. set bs)"
  "rc_enabled (mark_load_context_missing ctx m) = rc_enabled m"
  "rc_tracker (mark_load_context_missing ctx m) = rc_tracker m"
  "rc_load_contexts (mark_load_context_missing ctx m) = rc_load_contexts m"
  "rc_dump_contexts (mark_load_context_missing ctx m) = rc_dump_contexts m"
  "rc_dump_blocks_by_request (mark_load_context_missing ctx m) = rc_dump_blocks_by_request m"
  "rc_dump_failed_by_request (mark_load_context_missing ctx m) = rc_dump_failed_by_request m"
  "rc_dump_succeeded_blocks (mark_load_context_missing ctx m) = rc_dump_succeeded_blocks m"
  by (induction ctx m rule: mark_load_context_missing.induct) auto

lemma finish_dump_loop_frame:
  "rc_dump_contexts (finish_dump_loop rs m) = rc_dump_contexts m"
  "rc_load_contexts (finish_dump_loop rs m) = rc_load_contexts m"
  "rc_enabled (finish_dump_loop rs m) = rc_enabled m"
  "rc_tracker (finish_dump_loop rs m) = rc_tracker m"
  by (induction rs m rule: finish_dump_loop.induct) (simp_all add: Let_def)

lemma finish_dump_loop_tables:
  "dict_get_or (rc_dump_blocks_by_request (finish_dump_loop rs m)) r {}
     = (if r \<in> set rs then {} else dict_get_or (rc_dump_blocks_by_request m) r {})"
  "dict_get_or (rc_dump_failed_by_request (finish_dump_loop rs m)) r {}
     = (if r \<in> set rs then {} else dict_get_or (rc_dump_failed_by_request m) r {})"
  by (induction rs m rule: finish_dump_loop.induct) (simp_all add: Let_def)

lemma finish_dump_loop_succeeded:
  "distinct rs \<Longrightarrow>
     rc_dump_succeeded_blocks (finish_dump_loop rs m)
       = rc_dump_succeeded_blocks m
         \<union> (\<Union>r \<in> set rs. dict_get_or (rc_dump_blocks_by_request m) r {}
                            - dict_get_or (rc_dump_failed_by_request m) r {})"
proof (induction rs arbitrary: m)
  case Nil
  then show ?case by simp
next
  case (Cons x rs)
  let ?b = "dict_get_or (rc_dump_blocks_by_request m)" and ?f = "dict_get_or (rc_dump_failed_by_request m)"
  from Cons.prems have "(\<Union>r \<in> set rs. (if r = x then {} else ?b r {}) - (if r = x then {} else ?f r {}))
      = (\<Union>r \<in> set rs. ?b r {} - ?f r {})"
    by (intro SUP_cong) auto
  with Cons show ?case by (simp add: Let_def Un_assoc)
qed

section \<open>A worker's manager over time\<close>

text \<open>
  One operation of a worker's manager, with the requests it finishes. Which operation comes
  next, and how the stores answer, is open.
\<close>

inductive manager_step :: "'w rcm \<Rightarrow> req_id set \<Rightarrow> 'w rcm \<Rightarrow> bool" where
  load_submitted: "submit_load m store w ctx ids shards ptrs = (r, m', w') \<Longrightarrow> manager_step m {} m'"
| load_waited: "wait_load m w task = (r, m', w') \<Longrightarrow> manager_step m {} m'"
| dump_submitted: "submit_dump m store w ctx ids shards ptrs ev = (r, m', w') \<Longrightarrow> manager_step m {} m'"
| dump_waited: "wait_dump m w task = (r, m', w') \<Longrightarrow> manager_step m {} m'"
| dump_finished: "finish_dump m rs = (r, m') \<Longrightarrow> manager_step m (set rs) m'"
| meta_reported: "update_worker_meta m wm = (wm', m') \<Longrightarrow> manager_step m {} m'"

text \<open>Runs in which request \<open>r\<close> is not finished.\<close>

inductive manager_run :: "req_id \<Rightarrow> 'w rcm \<Rightarrow> 'w rcm \<Rightarrow> bool" for r where
  run_refl: "manager_run r m m"
| run_step: "manager_run r m m1 \<Longrightarrow> manager_step m1 fin m2 \<Longrightarrow> r \<notin> fin \<Longrightarrow> manager_run r m m2"

inductive_cases manager_step_cases [elim]: "manager_step m fin m'"

lemma record_dump_failure_fields [simp]:
  "rc_dump_failed_by_request (record_dump_failure ctx m) = accumulate ctx (rc_dump_failed_by_request m)"
  "rc_dump_blocks_by_request (record_dump_failure ctx m) = rc_dump_blocks_by_request m"
  "rc_dump_succeeded_blocks (record_dump_failure ctx m) = rc_dump_succeeded_blocks m"
  "rc_dump_contexts (record_dump_failure ctx m) = rc_dump_contexts m"
  "rc_load_contexts (record_dump_failure ctx m) = rc_load_contexts m"
  "rc_enabled (record_dump_failure ctx m) = rc_enabled m"
  "rc_tracker (record_dump_failure ctx m) = rc_tracker m"
  by (simp_all add: record_dump_failure_def)

lemma submit_load_frame:
  assumes "submit_load m store w ctx ids shards ptrs = (r, m', w')"
  shows "rc_dump_failed_by_request m' = rc_dump_failed_by_request m"
    and "rc_dump_blocks_by_request m' = rc_dump_blocks_by_request m"
    and "rc_dump_contexts m' = rc_dump_contexts m"
    and "rc_dump_succeeded_blocks m' = rc_dump_succeeded_blocks m"
    and "rc_enabled m' = rc_enabled m" and "rc_tracker m' = rc_tracker m"
  using assms
  by (auto simp: submit_load_def Let_def mark_load_context_missing_fields split: prod.splits sum.splits if_splits)

lemma wait_load_frame:
  assumes "wait_load m w task = (r, m', w')"
  shows "rc_dump_failed_by_request m' = rc_dump_failed_by_request m"
    and "rc_dump_blocks_by_request m' = rc_dump_blocks_by_request m"
    and "rc_dump_contexts m' = rc_dump_contexts m"
    and "rc_dump_succeeded_blocks m' = rc_dump_succeeded_blocks m"
    and "rc_enabled m' = rc_enabled m" and "rc_tracker m' = rc_tracker m"
  using assms
  by (auto simp: wait_load_def Let_def mark_load_context_missing_fields split: prod.splits sum.splits option.splits if_splits)

lemma submit_dump_frame:
  assumes "submit_dump m store w ctx ids shards ptrs ev = (r, m', w')"
  shows "rc_load_contexts m' = rc_load_contexts m"
    and "rc_dump_succeeded_blocks m' = rc_dump_succeeded_blocks m"
    and "rc_enabled m' = rc_enabled m" and "rc_tracker m' = rc_tracker m"
    and "dict_get_or (rc_dump_failed_by_request m) q {} \<subseteq> dict_get_or (rc_dump_failed_by_request m') q {}"
  using assms subsetD [OF accumulate_mono [of "rc_dump_failed_by_request m" q]]
  by (auto simp: submit_dump_def Let_def split: prod.splits sum.splits)

lemma wait_dump_frame:
  assumes "wait_dump m w task = (r, m', w')"
  shows "rc_load_contexts m' = rc_load_contexts m"
    and "rc_dump_succeeded_blocks m' = rc_dump_succeeded_blocks m"
    and "rc_dump_blocks_by_request m' = rc_dump_blocks_by_request m"
    and "rc_enabled m' = rc_enabled m" and "rc_tracker m' = rc_tracker m"
    and "dict_get_or (rc_dump_failed_by_request m) q {} \<subseteq> dict_get_or (rc_dump_failed_by_request m') q {}"
  using assms subsetD [OF accumulate_mono [of "rc_dump_failed_by_request m" q]]
  by (auto simp: wait_dump_def Let_def split: prod.splits sum.splits option.splits)

lemma wait_dump_contexts:
  "wait_dump m w task = (r, m', w') \<Longrightarrow> rc_dump_contexts m' = dict_pop task (rc_dump_contexts m)"
  by (auto simp: wait_dump_def Let_def split: prod.splits sum.splits option.splits)
     (metis map_of_eq_None_iff AList.delete_id)

lemma manager_step_failed_mono:
  "manager_step m fin m' \<Longrightarrow> r \<notin> fin \<Longrightarrow>
     dict_get_or (rc_dump_failed_by_request m) r {} \<subseteq> dict_get_or (rc_dump_failed_by_request m') r {}"
proof (induction rule: manager_step.induct)
  case load_submitted
  then show ?case by (simp add: submit_load_frame)
next
  case load_waited
  then show ?case by (simp add: wait_load_frame)
next
  case dump_submitted
  show ?case by (rule submit_dump_frame(5) [OF dump_submitted(1)])
next
  case dump_waited
  show ?case by (rule wait_dump_frame(6) [OF dump_waited(1)])
next
  case dump_finished
  then show ?case
    by (auto simp: finish_dump_def finish_dump_loop_tables split: if_splits)
next
  case meta_reported
  then show ?case by (auto simp: update_worker_meta_def split: if_splits)
qed

lemma manager_run_failed_mono:
  "manager_run r m m' \<Longrightarrow>
     dict_get_or (rc_dump_failed_by_request m) r {} \<subseteq> dict_get_or (rc_dump_failed_by_request m') r {}"
  by (induction rule: manager_run.induct) (blast dest: manager_step_failed_mono)+

text \<open>A dump that fails, at submission or at the wait, charges every block of its context.\<close>

lemma wait_dump_failure_charges:
  assumes "wait_dump m w task = (Inl e, m', w')"
    and "dict_get (rc_dump_contexts m) task = Some (store, ctx)" and "distinct (map fst ctx)"
  shows "dict_get_or ctx r {} \<subseteq> dict_get_or (rc_dump_failed_by_request m') r {}"
  using assms by (auto simp: wait_dump_def Let_def accumulate_get split: prod.splits sum.splits)

lemma submit_dump_failure_charges:
  assumes "submit_dump m store w ctx ids shards ptrs ev = (Inl e, m', w')"
    and "rc_enabled m" and "distinct (map fst ctx)"
  shows "dict_get_or ctx r {} \<subseteq> dict_get_or (rc_dump_failed_by_request m') r {}"
  using assms by (auto simp: submit_dump_def Let_def accumulate_get split: prod.splits sum.splits)

lemma finish_dump_reports:
  assumes "finish_dump m rs = (Inr (), m')" and "rc_enabled m" and "distinct rs"
  shows "rc_dump_succeeded_blocks m'
       = rc_dump_succeeded_blocks m
         \<union> (\<Union>r \<in> set rs. dict_get_or (rc_dump_blocks_by_request m) r {}
                            - dict_get_or (rc_dump_failed_by_request m) r {})"
  using assms by (auto simp: finish_dump_def finish_dump_loop_succeeded split: if_splits)

section \<open>The scheduler's manager over time\<close>

lemma apply_worker_meta_room:
  assumes "fair_order so" and "rc_tracker m = Some t" and "finite t" and "finite (wm_missing_blocks wm)"
    and "card (t \<union> wm_missing_blocks wm) \<le> max_inconsistent_blocks"
  shows "rc_tracker (apply_worker_meta so wm m)
       = Some ((t - wm_dump_succeeded_blocks wm) \<union> wm_missing_blocks wm)"
    and "rc_enabled (apply_worker_meta so wm m) = rc_enabled m"
proof -
  let ?t = "t - wm_dump_succeeded_blocks wm"
  from assms(1,4) have l: "set (so_list so (wm_missing_blocks wm)) = wm_missing_blocks wm"
    by (simp add: fair_order_def)
  have "card (?t \<union> wm_missing_blocks wm) \<le> card (t \<union> wm_missing_blocks wm)"
    by (rule card_mono) (use assms in auto)
  with assms(5) have "card (?t \<union> set (so_list so (wm_missing_blocks wm))) \<le> max_inconsistent_blocks"
    by (simp add: l)
  from mark_missing_loop_room [OF _ this] assms(3)
  show "rc_tracker (apply_worker_meta so wm m) = Some (?t \<union> wm_missing_blocks wm)"
    using assms(2) by (simp add: apply_worker_meta_def clear_dumped_def mark_missing_def l)
  show "rc_enabled (apply_worker_meta so wm m) = rc_enabled m"
    by (simp add: apply_worker_meta_def Let_def split: option.splits prod.splits)
qed

fun apply_worker_metas :: "set_order \<Rightarrow> worker_meta list \<Rightarrow> 'w rcm \<Rightarrow> 'w rcm" where
  "apply_worker_metas so [] m = m"
| "apply_worker_metas so (wm # rest) m = apply_worker_metas so rest (apply_worker_meta so wm m)"

lemma apply_worker_metas_keep:
  assumes "fair_order so" and "rc_tracker m = Some t" and "finite t"
    and "\<forall>wm \<in> set wms. finite (wm_missing_blocks wm) \<and> b \<notin> wm_dump_succeeded_blocks wm"
    and "card (t \<union> (\<Union>wm \<in> set wms. wm_missing_blocks wm)) \<le> max_inconsistent_blocks"
    and "b \<in> t"
  shows "\<exists>t'. rc_tracker (apply_worker_metas so wms m) = Some t' \<and> b \<in> t'
    \<and> rc_enabled (apply_worker_metas so wms m) = rc_enabled m"
  using assms(2-)
proof (induction wms arbitrary: m t)
  case Nil
  then show ?case by simp
next
  case (Cons wm wms)
  let ?t = "(t - wm_dump_succeeded_blocks wm) \<union> wm_missing_blocks wm"
  let ?all = "t \<union> (\<Union>x \<in> set (wm # wms). wm_missing_blocks x)"
  have fin: "finite ?all" using Cons.prems(2,3) by auto
  have "card (t \<union> wm_missing_blocks wm) \<le> card ?all"
    by (rule card_mono [OF fin]) auto
  with Cons.prems(4) have "card (t \<union> wm_missing_blocks wm) \<le> max_inconsistent_blocks" by simp
  note step = apply_worker_meta_room [OF assms(1) Cons.prems(1,2) _ this]
  have "card (?t \<union> (\<Union>x \<in> set wms. wm_missing_blocks x)) \<le> card ?all"
    by (rule card_mono [OF fin]) auto
  with Cons.prems(4) have "card (?t \<union> (\<Union>x \<in> set wms. wm_missing_blocks x)) \<le> max_inconsistent_blocks" by simp
  with Cons.IH [of "apply_worker_meta so wm m" ?t] step Cons.prems show ?case
    by auto
qed

section \<open>Properties\<close>

text \<open>Concrete inputs for the witnesses: a store whose waits fail, and sets iterated as lists.\<close>

definition failing_store :: "unit kv_store" where
  "failing_store =
     \<lparr>st_lookup = (\<lambda>w ids. (Inr (map (\<lambda>_. True) ids), w)),
      st_lookup_on_prefix = (\<lambda>w ids. (Inr (int (length ids) - 1), w)),
      st_prefetch = (\<lambda>w ids. (Inr (), w)),
      st_load_data = (\<lambda>w ids shards ptrs. (Inr 1, w)),
      st_dump_data = (\<lambda>w ids shards ptrs ev. (Inr 1, w)),
      st_wait = (\<lambda>w task. (Inl StoreFailure, w)),
      st_check = (\<lambda>w task. (Inr True, w))\<rparr>"

definition demo_order :: set_order where
  "demo_order = \<lparr>so_pick = Min, so_list = sorted_list_of_set\<rparr>"

lemma demo_order_fair: "fair_order demo_order"
  by (simp add: fair_order_def demo_order_def)

definition demo_wm :: worker_meta where
  "demo_wm = (empty_worker_meta False)\<lparr>wm_missing_reqs := {''r''}, wm_missing_blocks := {''b''}\<rparr>"

text \<open>
  The tracker never outgrows its capacity of 2,000,000 blocks, never invents a block,
  and grows by exactly the number of marks less the number of evictions.
\<close>

lemma tracker_stays_bounded:
  assumes "finite t" and "card t \<le> max_inconsistent_blocks" and "fair_order so"
    and "mark_missing (so_pick so) ids t = (t', added)"
  shows "finite t' \<and> card t' \<le> max_inconsistent_blocks \<and> t' \<subseteq> t \<union> set ids
    \<and> card t' \<le> card t + added"
proof -
  obtain e where m: "mark_missing_loop max_inconsistent_blocks (so_pick so) ids (t, 0, 0) = (t', added, e)"
    using assms(4) by (auto simp: mark_missing_def split: prod.splits)
  have "0 < max_inconsistent_blocks" by (simp add: max_inconsistent_blocks_def)
  from mark_missing_loop_bound [OF this assms(1,2), of "so_pick so" ids 0 0] assms(3)
  show ?thesis by (auto simp: m fair_order_def)
qed

text \<open>
  C4: Once a worker has reported a block missing, neither of the manager's lookups counts it as a
  hit, whatever else the workers report, until a dump of that block is reported successful: a
  prefix lookup that returns ends before the block's position, and an exact lookup that returns
  answers no at every position of the block. The store may hold whatever it likes, and fail; the
  one thing asked of it is that a prefix lookup answers no index beyond the ids it was given. The
  marks reported must fit under the tracker's cap of 2,000,000, beyond which it evicts some.
\<close>

theorem missing_block_is_never_a_hit:
  assumes "fair_order so" and "rc_enabled m" and "rc_tracker m = Some t" and "finite t"
    and "b \<in> wm_missing_blocks wm"
    and "\<forall>x \<in> set (wm # later). finite (wm_missing_blocks x)"
    and "\<forall>x \<in> set later. b \<notin> wm_dump_succeeded_blocks x"
    and "card (t \<union> (\<Union>x \<in> set (wm # later). wm_missing_blocks x)) \<le> max_inconsistent_blocks"
    and "lookup_in_range store" and "m' = apply_worker_metas so (wm # later) m"
    and "i < length ids" and "ids ! i = b"
  shows "(\<forall>index w'. rcm_lookup_on_prefix m' store w ids = (Inr index, w') \<longrightarrow> index < int i)
    \<and> (\<forall>results w'. rcm_lookup_all m' store w ids = (Inr results, w') \<longrightarrow> i < length results \<longrightarrow> \<not> results ! i)"
proof -
  let ?t = "(t - wm_dump_succeeded_blocks wm) \<union> wm_missing_blocks wm"
  let ?all = "t \<union> (\<Union>x \<in> set (wm # later). wm_missing_blocks x)"
  have fin: "finite ?all" using assms(4,6) by auto
  have "card (t \<union> wm_missing_blocks wm) \<le> card ?all" by (rule card_mono [OF fin]) auto
  with assms(8) have room: "card (t \<union> wm_missing_blocks wm) \<le> max_inconsistent_blocks" by simp
  have fin1: "finite (wm_missing_blocks wm)" using assms(6) by simp
  note first = apply_worker_meta_room [OF assms(1,3,4) fin1 room]
  have "card (?t \<union> (\<Union>x \<in> set later. wm_missing_blocks x)) \<le> card ?all" by (rule card_mono [OF fin]) auto
  with assms(8) have "card (?t \<union> (\<Union>x \<in> set later. wm_missing_blocks x)) \<le> max_inconsistent_blocks" by simp
  from apply_worker_metas_keep [OF assms(1) first(1) _ _ this, of b] assms(4-7) first(2) assms(2)
  obtain t' where t': "rc_tracker (apply_worker_metas so (wm # later) m) = Some t'" "b \<in> t'"
    and en: "rc_enabled (apply_worker_metas so (wm # later) m)"
    by auto
  have short: "length (valid_prefix t' ids) \<le> i"
  proof (rule ccontr)
    assume "\<not> ?thesis"
    then have "i < length (takeWhile (\<lambda>b. b \<notin> t') ids)" by (simp add: valid_prefix_takeWhile)
    from nth_mem [OF this] takeWhile_nth [OF this] t'(2) assms(12) show False
      by (auto dest: set_takeWhileD)
  qed
  have "index < int i" if "rcm_lookup_on_prefix m' store w ids = (Inr index, w')" for index w'
  proof (cases "valid_prefix t' ids = []")
    case True
    then show ?thesis using that t'(1) en by (simp add: rcm_lookup_on_prefix_def assms(10))
  next
    case False
    then have "fst (st_lookup_on_prefix store w (valid_prefix t' ids)) = Inr index"
      using that t'(1) en by (simp add: rcm_lookup_on_prefix_def assms(10))
    then have "index < int (length (valid_prefix t' ids))"
      using assms(9) by (simp add: lookup_in_range_def)
    then show ?thesis using short by linarith
  qed
  moreover have "\<not> results ! i"
    if "rcm_lookup_all m' store w ids = (Inr results, w')" "i < length results" for results w'
    using that t' assms(11,12)
    by (auto simp: rcm_lookup_all_def assms(10) split: prod.splits sum.splits)
  ultimately show ?thesis by blast
qed

theorem missing_block_is_never_a_hit_witness:
  "fst (rcm_lookup_on_prefix (apply_worker_metas demo_order [demo_wm, empty_worker_meta False] (new_rcm True True))
       failing_store () [''a'', ''b'']) = Inr 0
   \<and> fst (rcm_lookup_all (apply_worker_metas demo_order [demo_wm, empty_worker_meta False] (new_rcm True True))
       failing_store () [''a'', ''b'']) = Inr [True, False]"
proof -
  let ?m = "apply_worker_metas demo_order [demo_wm, empty_worker_meta False] (new_rcm True True) :: unit rcm"
  have range: "lookup_in_range failing_store" by (simp add: lookup_in_range_def failing_store_def)
  have hits: "(\<forall>index w'. rcm_lookup_on_prefix ?m failing_store () [''a'', ''b''] = (Inr index, w') \<longrightarrow> index < int 1)
    \<and> (\<forall>results w'. rcm_lookup_all ?m failing_store () [''a'', ''b''] = (Inr results, w') \<longrightarrow> 1 < length results \<longrightarrow> \<not> results ! 1)"
    by (rule missing_block_is_never_a_hit [OF demo_order_fair _ _ _ _ _ _ _ range refl, where t = "{}" and b = "''b''"])
       (simp_all add: new_rcm_def demo_wm_def empty_worker_meta_def max_inconsistent_blocks_def)
  have run: "rc_tracker ?m = Some {''b''}" "rc_enabled ?m"
    by (simp_all add: apply_worker_meta_def new_rcm_def demo_wm_def demo_order_def empty_worker_meta_def clear_dumped_def
        mark_missing_def max_inconsistent_blocks_def)
  then show ?thesis using hits by (simp add: rcm_lookup_on_prefix_def rcm_lookup_all_def failing_store_def)
qed

text \<open>
  C8: A block whose dump failed is never reported as dumped when its request finishes,
  whatever the worker's manager does between the failed wait and the finish.
\<close>

theorem failed_dump_is_never_reported:
  assumes "wait_dump m w task = (Inl e, m1, w')"
    and "dict_get (rc_dump_contexts m) task = Some (store, ctx)" and "distinct (map fst ctx)"
    and "b \<in> dict_get_or ctx r {}"
    and "manager_run r m1 m2"
    and "finish_dump m2 [r] = (Inr (), m3)" and "rc_enabled m2"
  shows "b \<in> rc_dump_succeeded_blocks m3 \<longleftrightarrow> b \<in> rc_dump_succeeded_blocks m2"
proof -
  have "b \<in> dict_get_or (rc_dump_failed_by_request m1) r {}"
    using wait_dump_failure_charges [OF assms(1-3)] assms(4) by blast
  with manager_run_failed_mono [OF assms(5)] have "b \<in> dict_get_or (rc_dump_failed_by_request m2) r {}"
    by blast
  with finish_dump_reports [OF assms(6,7)] show ?thesis by auto
qed

definition demo_rcm :: "unit rcm" where
  "demo_rcm = (new_rcm False True)
     \<lparr>rc_dump_contexts := [(1, (failing_store, [(''r'', {''b''})]))],
      rc_dump_blocks_by_request := [(''r'', {''b'', ''c''})]\<rparr>"

theorem failed_dump_is_never_reported_witness:
  "''b'' \<in> rc_dump_succeeded_blocks (snd (finish_dump (fst (snd (wait_dump demo_rcm () 1))) [''r'']))
     \<longleftrightarrow> ''b'' \<in> rc_dump_succeeded_blocks (fst (snd (wait_dump demo_rcm () 1)))"
proof (rule failed_dump_is_never_reported [OF _ _ _ _ run_refl])
  show w: "wait_dump demo_rcm () 1 = (Inl StoreFailure, fst (snd (wait_dump demo_rcm () 1)), ())"
    by (simp add: wait_dump_def demo_rcm_def failing_store_def)
  show "finish_dump (fst (snd (wait_dump demo_rcm () 1))) [''r'']
      = (Inr (), snd (finish_dump (fst (snd (wait_dump demo_rcm () 1))) [''r'']))"
    by (simp add: wait_dump_def demo_rcm_def failing_store_def finish_dump_def pending_dump_requests_def new_rcm_def)
  show "dict_get (rc_dump_contexts demo_rcm) 1 = Some (failing_store, [(''r'', {''b''})])"
    by (simp add: demo_rcm_def)
qed (simp_all add: wait_dump_def demo_rcm_def failing_store_def new_rcm_def dict_get_or_def)

text \<open>
  Folding the ranks' reports is a union of what went wrong and, unless the model is
  MLA, an intersection of what was dumped: a block counts as dumped only where every rank
  dumped its part of it.
\<close>

lemma aggregation_over_ranks:
  assumes "\<forall>x \<in> set ms. wm_is_mla x = wm_is_mla m"
  shows "\<exists>a. aggregate_all m ms = Inr a
    \<and> (\<forall>r. r \<in> wm_load_failed_reqs a \<longleftrightarrow> (\<exists>x \<in> set (m # ms). r \<in> wm_load_failed_reqs x))
    \<and> (\<forall>b. b \<in> wm_missing_blocks a \<longleftrightarrow> (\<exists>x \<in> set (m # ms). b \<in> wm_missing_blocks x))
    \<and> (\<not> wm_is_mla m \<longrightarrow>
         (\<forall>b. b \<in> wm_dump_succeeded_blocks a \<longleftrightarrow> (\<forall>x \<in> set (m # ms). b \<in> wm_dump_succeeded_blocks x)))"
  unfolding aggregate_all_fields [OF assms] by simp

end
