(* ===== verification/Dump_Planner.thy ===== *)
theory Dump_Planner
  imports Ucm_Prelude
begin

text \<open>
  What the three connectors' dispatch planners promise about dumping. A planner turns its
  per-request state and one step's input into the block ids to dump and the next state; it
  promises that the ids are the slice of the request's ids between its old and its new
  position. A request is prefilled in steps of any sizes, so the client lemma is about runs:
  the steps together dump one contiguous range, each block once and in order.
\<close>

fun run_plan :: "('st \<Rightarrow> 'a \<Rightarrow> bytes list \<times> 'st) \<Rightarrow> 'st \<Rightarrow> 'a list \<Rightarrow> bytes list \<times> 'st" where
  "run_plan plan st [] = ([], st)"
| "run_plan plan st (a # as) =
     (case plan st a of (ids, st1) \<Rightarrow>
        (case run_plan plan st1 as of (rest, st2) \<Rightarrow> (ids @ rest, st2)))"

locale dump_planner =
  fixes plan :: "'st \<Rightarrow> 'a \<Rightarrow> bytes list \<times> 'st"
    and pos :: "'st \<Rightarrow> nat"
    and all_ids :: "'st \<Rightarrow> bytes list"
    and inv :: "'st \<Rightarrow> bool"
  assumes plan_slice: "inv st \<Longrightarrow> fst (plan st a) = py_slice (all_ids st) (pos st) (pos (snd (plan st a)))"
    and pos_mono: "inv st \<Longrightarrow> pos st \<le> pos (snd (plan st a))"
    and ids_kept: "all_ids (snd (plan st a)) = all_ids st"
    and inv_kept: "inv st \<Longrightarrow> inv (snd (plan st a))"
begin

lemma run_range:
  "inv st \<Longrightarrow> run_plan plan st as = (ids, st') \<Longrightarrow>
     ids = py_slice (all_ids st) (pos st) (pos st') \<and> pos st \<le> pos st'
     \<and> all_ids st' = all_ids st \<and> inv st'"
proof (induction as arbitrary: st ids)
  case Nil
  then show ?case by simp
next
  case (Cons a as)
  obtain d st1 where p: "plan st a = (d, st1)" by (cases "plan st a")
  obtain rest where r: "run_plan plan st1 as = (rest, st')" and ids: "ids = d @ rest"
    using Cons.prems(2) p by (auto split: prod.splits)
  have step: "d = py_slice (all_ids st) (pos st) (pos st1)" "pos st \<le> pos st1"
    "all_ids st1 = all_ids st" "inv st1"
    using plan_slice [of st a] pos_mono [of st a] ids_kept [of st a] inv_kept [of st a] Cons.prems(1) p
    by auto
  from Cons.IH [OF step(4) r] step ids show ?case
    by (auto simp: py_slice_append)
qed

lemma run_dumps_once:
  assumes "inv st" and "distinct (all_ids st)"
  shows "distinct (fst (run_plan plan st as))"
proof -
  obtain ids st' where r: "run_plan plan st as = (ids, st')" by (cases "run_plan plan st as")
  from run_range [OF assms(1) r] have "ids = take (pos st' - pos st) (drop (pos st) (all_ids st))"
    by (simp add: py_slice_def)
  with assms(2) r show ?thesis by simp
qed

end

end
