(* ===== verification/Direct_Scheduler.thy ===== *)
theory Direct_Scheduler
  imports Request_Hasher Rank_Consistency Dump_Planner
begin

text \<open>
  The scheduler side of \<open>UCMDirectConnector\<close>: matching a request's block hashes against
  the store, the per-step load and dump plan of a request, the metadata handed to the workers,
  and the reactions to what the workers report back. The scheduler's state is explicit; log
  messages are left out, and clock-based metrics too.
\<close>

section \<open>Data\<close>

record request =
  rq_id :: req_id
  rq_all_token_ids :: "nat list"
  rq_num_tokens :: nat
  rq_num_prompt_tokens :: nat

record request_meta =
  rm_ucm_block_ids :: "bytes list"
  rm_hbm_hit_block_num :: nat
  rm_total_hit_block_num :: nat
  rm_num_token_ids :: nat
  rm_vllm_block_ids :: "vllm_id list"
  rm_token_processed :: nat

record dispatch_meta =
  dm_load :: "bytes list \<times> vllm_id list"
  dm_dump :: "bytes list \<times> vllm_id list"

record connector_meta =
  cm_request_meta :: "(req_id, dispatch_meta) dict"
  cm_preempted_req_ids :: "req_id set"

text \<open>What vLLM hands to \<open>build_connector_meta\<close>, in the two shapes the code accepts.\<close>

datatype resumed_info =
    ResumedFlags "bool list"
  | ResumedIds "req_id set"

record cached_data =
  cd_req_ids :: "req_id list"
  cd_new_block_ids :: "vllm_id list list option list"
  cd_resumed :: resumed_info

record cached_request =
  cr_req_id :: req_id
  cr_new_block_ids :: "vllm_id list list"
  cr_resumed :: bool

datatype cached_reqs =
    CachedData cached_data
  | CachedList "cached_request list"

record scheduler_output =
  so_new_reqs :: "(req_id \<times> vllm_id list list) list"
  so_cached_reqs :: cached_reqs
  so_num_scheduled :: "(req_id, nat) dict"
  so_finished :: "req_id list"
  so_preempted :: "req_id set option"

text \<open>
  The part of the connector that its constructor fixes. \<open>cf_spec_tokens\<close> is
  \<open>speculative_config.num_speculative_tokens\<close>: \<open>None\<close> without a speculative
  config, \<open>Some None\<close> where the value is not an integer.
\<close>

record connector_cfg =
  cf_block_size :: nat
  cf_hash_block_size :: nat
  cf_cp_world_size :: nat
  cf_persist_token_threshold :: nat
  cf_use_layerwise :: bool
  cf_spec_tokens :: "int option option"
  cf_hasher :: "hash_input \<Rightarrow> bytes"
  cf_seed :: bytes
  cf_other_rank_hashers :: "(hash_input \<Rightarrow> bytes) list"

record 'w scheduler =
  sd_requests_meta :: "(req_id, request_meta) dict"
  sd_async_dump_req_ids :: "req_id set"
  sd_rcm :: "'w rcm"
  sd_world :: 'w
  sd_metrics :: "metric list"

definition update_stats :: "metric list \<Rightarrow> 'w scheduler \<Rightarrow> 'w scheduler" where
  "update_stats ms s = s\<lparr>sd_metrics := sd_metrics s @ ms\<rparr>"

lemma update_stats_fields [simp]:
  "sd_requests_meta (update_stats ms s) = sd_requests_meta s"
  "sd_async_dump_req_ids (update_stats ms s) = sd_async_dump_req_ids s"
  "sd_rcm (update_stats ms s) = sd_rcm s"
  "sd_world (update_stats ms s) = sd_world s"
  by (simp_all add: update_stats_def)

section \<open>Matching\<close>

definition full_hit_recompute_tokens :: "connector_cfg \<Rightarrow> nat" where
  "full_hit_recompute_tokens cf =
     (if \<not> cf_use_layerwise cf then 1
      else
        (case cf_spec_tokens cf of
           None \<Rightarrow> 2
         | Some v \<Rightarrow>
             let spec_token_num = (case v of None \<Rightarrow> 0 | Some n \<Rightarrow> n)
             in nat (max spec_token_num 0) + 2))"

text \<open>\<open>_prefetch_other_rank_hashes\<close>.\<close>

definition prefetch_other_rank_hashes ::
  "connector_cfg \<Rightarrow> ('w, 'b) kv_lookup_api_scheme \<Rightarrow> 'w \<Rightarrow> bytes list \<Rightarrow> unit result \<times> 'w" where
  "prefetch_other_rank_hashes cf store w rank0_block_ids =
     (if cf_other_rank_hashers cf = [] \<or> rank0_block_ids = [] then (Inr (), w)
      else
        let ids = other_rank_block_ids (cf_other_rank_hashers cf) rank0_block_ids
        in if ids = [] then (Inr (), w) else st_prefetch store w ids)"

text \<open>
  The \<open>try\<close> block of the lookup: the number of external hit blocks, 0 after any
  exception, which is counted. The store documents an index of at least \<open>-1\<close>, so the
  number of hits is natural.
\<close>

definition lookup_external_blocks ::
  "connector_cfg \<Rightarrow> ('w, 'b) kv_lookup_api_scheme \<Rightarrow> 'w scheduler \<Rightarrow> bytes list \<Rightarrow> nat \<times> 'w scheduler" where
  "lookup_external_blocks cf store s external_block_ids =
     (case rcm_lookup_on_prefix (sd_rcm s) store (sd_world s) external_block_ids of
        (Inl e, w) \<Rightarrow>
          (0, update_stats [MCount ''connector_lookup_errors_total'' 1] (s\<lparr>sd_world := w\<rparr>))
      | (Inr index, w) \<Rightarrow>
          let external_hit_hashes = nat (index + 1) in
          (case prefetch_other_rank_hashes cf store w
                  (py_slice external_block_ids 0 external_hit_hashes) of
             (Inl e, w') \<Rightarrow>
               (0, update_stats [MCount ''connector_lookup_errors_total'' 1] (s\<lparr>sd_world := w'\<rparr>))
           | (Inr _, w') \<Rightarrow> (external_hit_hashes div cf_cp_world_size cf, s\<lparr>sd_world := w'\<rparr>)))"

text \<open>
  The hit tokens reported to vLLM: the external hit, less what must be left so that vLLM
  recomputes at least \<open>recompute_tokens\<close> tokens of the request.
\<close>

definition reported_hit_tokens :: "nat \<Rightarrow> nat \<Rightarrow> nat \<Rightarrow> nat \<Rightarrow> nat" where
  "reported_hit_tokens external_hit_tokens num_total_hit_tokens num_tokens recompute_tokens =
     (let actual_recompute_tokens = int num_tokens - int num_total_hit_tokens in
      if actual_recompute_tokens < int recompute_tokens
      then nat (max 0 (int external_hit_tokens - (int recompute_tokens - actual_recompute_tokens)))
      else external_hit_tokens)"

definition get_num_new_matched_tokens ::
  "connector_cfg \<Rightarrow> ('w, 'b) kv_lookup_api_scheme \<Rightarrow> 'w scheduler \<Rightarrow> request \<Rightarrow> nat
     \<Rightarrow> (nat \<times> bool) result \<times> 'w scheduler" where
  "get_num_new_matched_tokens cf store s request num_computed_tokens =
     (if cf_block_size cf = 0 then (Inl ZeroDivisionError, s)
      else if num_computed_tokens mod cf_block_size cf \<noteq> 0 then (Inl AssertionError, s)
      else
        let hbm_hit_block_num = num_computed_tokens div cf_block_size cf;
            ucm_block_ids = generate_hash (cf_hasher cf) (cf_hash_block_size cf)
                              (rq_all_token_ids request) (cf_seed cf)
        in
        if rq_num_tokens request < cf_persist_token_threshold cf then (Inr (0, False), s)
        else
          let external_block_ids = drop (hbm_hit_block_num * cf_cp_world_size cf) ucm_block_ids in
          if external_block_ids = [] then (Inr (0, False), s)
          else
            (case lookup_external_blocks cf store s external_block_ids of
               (external_hit_blocks, s1) \<Rightarrow>
                 let s2 = update_stats
                            [MRatio ''interval_lookup_hit_rates''
                               (external_hit_blocks * cf_cp_world_size cf) (length ucm_block_ids)] s1;
                     total_hit_block_num = hbm_hit_block_num + external_hit_blocks;
                     external_hit_tokens =
                       reported_hit_tokens (external_hit_blocks * cf_block_size cf)
                         (total_hit_block_num * cf_block_size cf) (rq_num_tokens request)
                         (full_hit_recompute_tokens cf);
                     meta =
                       \<lparr>rm_ucm_block_ids = ucm_block_ids,
                        rm_hbm_hit_block_num = hbm_hit_block_num,
                        rm_total_hit_block_num = total_hit_block_num,
                        rm_num_token_ids = length (rq_all_token_ids request),
                        rm_vllm_block_ids = [],
                        rm_token_processed =
                          hbm_hit_block_num * cf_block_size cf + external_hit_tokens\<rparr>
                 in (Inr (external_hit_tokens, False),
                     s2\<lparr>sd_requests_meta :=
                          dict_set (rq_id request) meta (sd_requests_meta s2)\<rparr>)))"

section \<open>The dispatch plan of a request\<close>

definition generate_dispatch_meta ::
  "connector_cfg \<Rightarrow> request_meta \<Rightarrow> nat \<Rightarrow> vllm_id list \<Rightarrow> bool \<Rightarrow> dispatch_meta \<times> request_meta" where
  "generate_dispatch_meta cf req_meta new_tokens vllm_block_ids need_load =
     (let cp = cf_cp_world_size cf;
          bs = cf_block_size cf;
          hbm = rm_hbm_hit_block_num req_meta;
          total = rm_total_hit_block_num req_meta;
          ucm_block_ids = rm_ucm_block_ids req_meta;
          m1 = req_meta\<lparr>rm_vllm_block_ids := rm_vllm_block_ids req_meta @ vllm_block_ids\<rparr>;
          load = (if need_load
                  then (py_slice ucm_block_ids (hbm * cp) (total * cp), py_slice vllm_block_ids hbm total)
                  else ([], []))
      in if rm_token_processed m1 < rm_num_token_ids m1
         then
           let start_idx = rm_token_processed m1 div bs;
               end_idx = (rm_token_processed m1 + new_tokens) div bs;
               dump_ucm = py_slice ucm_block_ids (start_idx * cp) (end_idx * cp);
               dump_vllm = py_slice (rm_vllm_block_ids m1) start_idx end_idx;
               m2 = m1\<lparr>rm_token_processed := rm_token_processed m1 + new_tokens\<rparr>;
               dump_vllm' = (if rm_num_token_ids m2 < rm_token_processed m2
                             then take (length dump_ucm) dump_vllm else dump_vllm)
           in (\<lparr>dm_load = load, dm_dump = (dump_ucm, dump_vllm')\<rparr>, m2)
         else (\<lparr>dm_load = load, dm_dump = ([], [])\<rparr>, m1))"

section \<open>Metadata for a step\<close>

definition dispatch_request ::
  "connector_cfg \<Rightarrow> scheduler_output \<Rightarrow> req_id \<Rightarrow> vllm_id list \<Rightarrow> bool
     \<Rightarrow> 'w scheduler \<times> (req_id, dispatch_meta) dict
     \<Rightarrow> ('w scheduler \<times> (req_id, dispatch_meta) dict) result" where
  "dispatch_request cf out request_id vllm_block_ids need_load acc =
     (case acc of (s, metas) \<Rightarrow>
        (case dict_get (sd_requests_meta s) request_id of
           None \<Rightarrow> Inr (s, metas)
         | Some req_meta \<Rightarrow>
             rbind (py_key (so_num_scheduled out) request_id) (\<lambda>new_tokens.
               (case generate_dispatch_meta cf req_meta new_tokens vllm_block_ids need_load of
                  (dm, req_meta') \<Rightarrow>
                    Inr (s\<lparr>sd_requests_meta := dict_set request_id req_meta' (sd_requests_meta s)\<rparr>,
                         dict_set request_id dm metas)))))"

fun dispatch_new ::
  "connector_cfg \<Rightarrow> scheduler_output \<Rightarrow> (req_id \<times> vllm_id list list) list
     \<Rightarrow> 'w scheduler \<times> (req_id, dispatch_meta) dict
     \<Rightarrow> ('w scheduler \<times> (req_id, dispatch_meta) dict) result" where
  "dispatch_new cf out [] acc = Inr acc"
| "dispatch_new cf out ((request_id, block_ids) # rest) acc =
     rbind (py_index block_ids 0) (\<lambda>vllm_block_ids.
       rbind (dispatch_request cf out request_id vllm_block_ids True acc)
         (dispatch_new cf out rest))"

definition is_resumed :: "cached_data \<Rightarrow> nat \<Rightarrow> req_id \<Rightarrow> bool result" where
  "is_resumed cd i request_id =
     (case cd_resumed cd of
        ResumedFlags flags \<Rightarrow> py_index flags i
      | ResumedIds ids \<Rightarrow> Inr (request_id \<in> ids))"

text \<open>The loop over \<open>enumerate(req_ids)\<close>; \<open>i\<close> is the index of the first request left.\<close>

fun dispatch_cached ::
  "connector_cfg \<Rightarrow> scheduler_output \<Rightarrow> cached_data \<Rightarrow> nat \<Rightarrow> req_id list
     \<Rightarrow> 'w scheduler \<times> (req_id, dispatch_meta) dict
     \<Rightarrow> ('w scheduler \<times> (req_id, dispatch_meta) dict) result" where
  "dispatch_cached cf out cd i [] acc = Inr acc"
| "dispatch_cached cf out cd i (request_id # rest) acc =
     (case dict_get (sd_requests_meta (fst acc)) request_id of
        None \<Rightarrow> dispatch_cached cf out cd (Suc i) rest acc
      | Some req_meta \<Rightarrow>
          rbind (py_index (cd_new_block_ids cd) i) (\<lambda>ids.
            rbind (case ids of None \<Rightarrow> Inr [] | Some groups \<Rightarrow> py_index groups 0) (\<lambda>new_block_ids.
              rbind (is_resumed cd i request_id) (\<lambda>resumed.
                rbind (dispatch_request cf out request_id new_block_ids resumed acc)
                  (dispatch_cached cf out cd (Suc i) rest)))))"

fun dispatch_cached_list ::
  "connector_cfg \<Rightarrow> scheduler_output \<Rightarrow> cached_request list
     \<Rightarrow> 'w scheduler \<times> (req_id, dispatch_meta) dict
     \<Rightarrow> ('w scheduler \<times> (req_id, dispatch_meta) dict) result" where
  "dispatch_cached_list cf out [] acc = Inr acc"
| "dispatch_cached_list cf out (r # rest) acc =
     (case dict_get (sd_requests_meta (fst acc)) (cr_req_id r) of
        None \<Rightarrow> dispatch_cached_list cf out rest acc
      | Some req_meta \<Rightarrow>
          rbind (py_key (so_num_scheduled out) (cr_req_id r)) (\<lambda>_.
            rbind (py_index (cr_new_block_ids r) 0) (\<lambda>new_block_ids.
              rbind (dispatch_request cf out (cr_req_id r) new_block_ids (cr_resumed r) acc)
                (dispatch_cached_list cf out rest))))"

definition dump_requests :: "(req_id, dispatch_meta) dict \<Rightarrow> req_id set" where
  "dump_requests metas = fst ` {p \<in> set metas. fst (dm_dump (snd p)) \<noteq> []}"

text \<open>\<open>_track_async_dump_requests\<close>.\<close>

definition track_async_dump_requests :: "(req_id, dispatch_meta) dict \<Rightarrow> 'w scheduler \<Rightarrow> 'w scheduler" where
  "track_async_dump_requests metas s =
     s\<lparr>sd_async_dump_req_ids := sd_async_dump_req_ids s \<union> dump_requests metas\<rparr>"

definition build_connector_meta ::
  "connector_cfg \<Rightarrow> 'w scheduler \<Rightarrow> scheduler_output \<Rightarrow> (connector_meta \<times> 'w scheduler) result" where
  "build_connector_meta cf s out =
     rbind (dispatch_new cf out (so_new_reqs out) (s, [])) (\<lambda>acc.
       rbind (case so_cached_reqs out of
                CachedData cd \<Rightarrow> dispatch_cached cf out cd 0 (cd_req_ids cd) acc
              | CachedList rs \<Rightarrow> dispatch_cached_list cf out rs acc)
         (\<lambda>(s2, metas).
            let s3 = s2\<lparr>sd_requests_meta := fold dict_pop (so_finished out) (sd_requests_meta s2)\<rparr>;
                s4 = track_async_dump_requests metas s3
            in Inr (\<lparr>cm_request_meta = metas,
                     cm_preempted_req_ids = (case so_preempted out of None \<Rightarrow> {} | Some p \<Rightarrow> p)\<rparr>,
                    s4)))"

section \<open>What the workers report\<close>

text \<open>
  \<open>update_connector_output\<close>: a request whose only trouble is a missing block falls back to
  recomputing and dumping from its local hit on; any other failed request is forgotten. The
  failed set is iterated in an order Python leaves open.
\<close>

fun update_failed ::
  "connector_cfg \<Rightarrow> worker_meta \<Rightarrow> req_id list \<Rightarrow> 'w scheduler \<Rightarrow> 'w scheduler" where
  "update_failed cf wm [] s = s"
| "update_failed cf wm (req_id # rest) s =
     (case dict_get (sd_requests_meta s) req_id of
        None \<Rightarrow> update_failed cf wm rest s
      | Some req_meta \<Rightarrow>
          update_failed cf wm rest
            (if req_id \<in> wm_missing_reqs wm
             then s\<lparr>sd_requests_meta :=
                      dict_set req_id
                        (req_meta\<lparr>rm_total_hit_block_num := rm_hbm_hit_block_num req_meta,
                                  rm_token_processed :=
                                    rm_hbm_hit_block_num req_meta * cf_block_size cf\<rparr>)
                        (sd_requests_meta s)\<rparr>
             else s\<lparr>sd_requests_meta := dict_pop req_id (sd_requests_meta s)\<rparr>))"

definition update_connector_output ::
  "connector_cfg \<Rightarrow> set_order \<Rightarrow> worker_meta option \<Rightarrow> 'w scheduler \<Rightarrow> 'w scheduler" where
  "update_connector_output cf so meta s =
     (case meta of
        None \<Rightarrow> s
      | Some wm \<Rightarrow> update_failed cf wm (so_list so (wm_load_failed_reqs wm)) (s\<lparr>sd_rcm := apply_worker_meta so wm (sd_rcm s)\<rparr>))"

text \<open>\<open>request_finished\<close>: whether vLLM must wait for the workers before freeing blocks.\<close>

definition request_finished :: "req_id \<Rightarrow> 'w scheduler \<Rightarrow> bool \<times> 'w scheduler" where
  "request_finished request_id s =
     (if request_id \<in> sd_async_dump_req_ids s
      then (True, s\<lparr>sd_async_dump_req_ids := sd_async_dump_req_ids s - {request_id}\<rparr>)
      else (False, s))"


section \<open>Matching: what is reported and what is remembered\<close>

lemma reported_hit_tokens_leave_recompute:
  assumes "k = reported_hit_tokens e (c + e) n r" and "0 < k"
  shows "c + k + r \<le> n"
  using assms by (auto simp: reported_hit_tokens_def Let_def split: if_splits)

lemma reported_hit_tokens_le: "reported_hit_tokens e t n r \<le> e"
  by (auto simp: reported_hit_tokens_def Let_def)

text \<open>A successful match either leaves the state alone and reports nothing, or it is this one.\<close>

lemma get_num_cases:
  assumes "get_num_new_matched_tokens cf store s rq c = (Inr (k, load_async), s')"
  shows "load_async = False \<and> c mod cf_block_size cf = 0 \<and> 0 < cf_block_size cf
    \<and> ((k = 0 \<and> s' = s) \<or>
       (\<exists>hits s1.
          lookup_external_blocks cf store s
            (drop (c div cf_block_size cf * cf_cp_world_size cf)
               (generate_hash (cf_hasher cf) (cf_hash_block_size cf) (rq_all_token_ids rq) (cf_seed cf)))
            = (hits, s1)
          \<and> k = reported_hit_tokens (hits * cf_block_size cf) (c + hits * cf_block_size cf)
                 (rq_num_tokens rq) (full_hit_recompute_tokens cf)
          \<and> cf_persist_token_threshold cf \<le> rq_num_tokens rq
          \<and> dict_get (sd_requests_meta s') (rq_id rq)
              = Some \<lparr>rm_ucm_block_ids =
                        generate_hash (cf_hasher cf) (cf_hash_block_size cf) (rq_all_token_ids rq) (cf_seed cf),
                      rm_hbm_hit_block_num = c div cf_block_size cf,
                      rm_total_hit_block_num = c div cf_block_size cf + hits,
                      rm_num_token_ids = length (rq_all_token_ids rq),
                      rm_vllm_block_ids = [],
                      rm_token_processed = c + k\<rparr>))"
proof -
  from assms have a: "0 < cf_block_size cf" "c mod cf_block_size cf = 0"
    by (auto simp: get_num_new_matched_tokens_def split: if_splits)
  then have c: "c div cf_block_size cf * cf_block_size cf = c"
    by (metis add.right_neutral div_mult_mod_eq)
  then have t: "(c div cf_block_size cf + h) * cf_block_size cf = c + h * cf_block_size cf" for h
    by (simp add: distrib_right)
  from assms a show ?thesis
    by (auto simp: get_num_new_matched_tokens_def Let_def t c split: if_splits prod.splits)
qed

lemma lookup_external_blocks_frame:
  "lookup_external_blocks cf store s ids = (hits, s1) \<Longrightarrow>
     sd_requests_meta s1 = sd_requests_meta s \<and> sd_rcm s1 = sd_rcm s
     \<and> sd_async_dump_req_ids s1 = sd_async_dump_req_ids s"
  by (auto simp: lookup_external_blocks_def Let_def split: prod.splits sum.splits)

text \<open>With an honest store, every hit is a stored block no rank has reported missing.\<close>

lemma lookup_external_blocks_honest:
  assumes "lookup_external_blocks cf store s ids = (hits, s1)"
    and "honest_prefix_lookup present (sd_world s) store"
    and "rc_enabled (sd_rcm s)" and "rc_tracker (sd_rcm s) = Some t"
  shows "hits * cf_cp_world_size cf \<le> length (takeWhile (\<lambda>b. b \<notin> t \<and> present b) ids)"
proof -
  let ?n = "length (takeWhile (\<lambda>b. b \<notin> t \<and> present b) ids)"
  from rcm_lookup_on_prefix_honest [OF assms(2-4), of ids] obtain w where
    w: "rcm_lookup_on_prefix (sd_rcm s) store (sd_world s) ids = (Inr (int ?n - 1), w)"
    by (metis prod.collapse)
  then have "nat ((int ?n - 1) + 1) = ?n" by simp
  with assms(1) w have "hits = 0 \<or> hits = ?n div cf_cp_world_size cf"
    by (auto simp: lookup_external_blocks_def Let_def split: prod.splits sum.splits)
  then show ?thesis by auto
qed

lemma nth_takeWhile_holds: "i < length (takeWhile P xs) \<Longrightarrow> P (xs ! i)"
  by (metis nth_mem set_takeWhileD takeWhile_nth)

section \<open>The plan\<close>

text \<open>
  The planner contract of the direct connector: the position is the block boundary below the
  processed tokens.
\<close>

definition direct_plan ::
  "connector_cfg \<Rightarrow> request_meta \<Rightarrow> nat \<times> vllm_id list \<times> bool \<Rightarrow> bytes list \<times> request_meta" where
  "direct_plan cf m a =
     (case a of (new_tokens, ids, need_load) \<Rightarrow>
        (case generate_dispatch_meta cf m new_tokens ids need_load of
           (dm, m') \<Rightarrow> (fst (dm_dump dm), m')))"

definition direct_pos :: "connector_cfg \<Rightarrow> request_meta \<Rightarrow> nat" where
  "direct_pos cf m = rm_token_processed m div cf_block_size cf * cf_cp_world_size cf"

interpretation direct_planner: dump_planner "direct_plan cf" "direct_pos cf" rm_ucm_block_ids "\<lambda>_. True"
  for cf :: connector_cfg
  by unfold_locales
     (auto simp: direct_plan_def direct_pos_def generate_dispatch_meta_def Let_def
           split: prod.splits if_splits intro!: mult_le_mono1 div_le_mono)

lemma generate_dispatch_meta_frame:
  assumes "generate_dispatch_meta cf m n ids l = (dm, m')"
  shows "rm_hbm_hit_block_num m' = rm_hbm_hit_block_num m"
    and "rm_total_hit_block_num m' = rm_total_hit_block_num m"
    and "rm_num_token_ids m' = rm_num_token_ids m"
    and "rm_ucm_block_ids m' = rm_ucm_block_ids m"
    and "rm_vllm_block_ids m' = rm_vllm_block_ids m @ ids"
    and "rm_token_processed m' =
           (if rm_token_processed m < rm_num_token_ids m then rm_token_processed m + n
            else rm_token_processed m)"
  using assms by (auto simp: generate_dispatch_meta_def Let_def split: if_splits)

lemma direct_plan_tokens:
  "rm_token_processed (snd (direct_plan cf m (n, ids, l))) =
     (if rm_token_processed m < rm_num_token_ids m then rm_token_processed m + n
      else rm_token_processed m)"
  "rm_num_token_ids (snd (direct_plan cf m (n, ids, l))) = rm_num_token_ids m"
  by (auto simp: direct_plan_def split: prod.splits dest: generate_dispatch_meta_frame)

lemma direct_run_tokens:
  "rm_token_processed m + sum_list (map fst as) \<le> rm_num_token_ids m \<Longrightarrow>
     rm_token_processed (snd (run_plan (direct_plan cf) m as))
       = rm_token_processed m + sum_list (map fst as)"
proof (induction as arbitrary: m)
  case Nil
  then show ?case by simp
next
  case (Cons a as)
  obtain n ids l where a: "a = (n, ids, l)" by (cases a)
  let ?m = "snd (direct_plan cf m a)"
  have t: "rm_token_processed ?m = rm_token_processed m + n"
    using Cons.prems by (auto simp: a direct_plan_tokens)
  have "rm_num_token_ids ?m = rm_num_token_ids m" by (simp add: a direct_plan_tokens)
  with t Cons.prems have "rm_token_processed (snd (run_plan (direct_plan cf) ?m as))
      = rm_token_processed ?m + sum_list (map fst as)"
    by (intro Cons.IH) (simp add: a)
  with t show ?case by (simp add: a split_beta)
qed

section \<open>Properties of matching\<close>

text \<open>
  C3: Whatever the store answers, a request for which external tokens are reported keeps at
  least the recompute margin: local hit, reported tokens and margin fit in the request, so
  vLLM always has a token left to compute.
\<close>

theorem matched_tokens_leave_recompute:
  assumes "get_num_new_matched_tokens cf store s rq c = (Inr (k, load_async), s')" and "0 < k"
  shows "c + k + full_hit_recompute_tokens cf \<le> rq_num_tokens rq \<and> 0 < full_hit_recompute_tokens cf
    \<and> \<not> load_async"
proof -
  have "0 < full_hit_recompute_tokens cf"
    by (auto simp: full_hit_recompute_tokens_def Let_def split: option.splits)
  moreover from get_num_cases [OF assms(1)] assms(2) have "\<not> load_async"
    and "\<exists>h. k = reported_hit_tokens h (c + h) (rq_num_tokens rq) (full_hit_recompute_tokens cf)"
    by auto
  ultimately show ?thesis
    using reported_hit_tokens_leave_recompute assms(2) by blast
qed

text \<open>Concrete inputs: a store that holds every block, and a request of two full blocks.\<close>

definition demo_lookup :: "unit kv_lookup_api" where
  "demo_lookup =
     \<lparr>st_lookup = (\<lambda>w ids. (Inr (map (\<lambda>_. True) ids), w)),
      st_lookup_on_prefix = (\<lambda>w ids. (Inr (int (length ids) - 1), w)),
      st_prefetch = (\<lambda>w ids. (Inr (), w))\<rparr>"

definition demo_cfg :: connector_cfg where
  "demo_cfg =
     \<lparr>cf_block_size = 2, cf_hash_block_size = 2, cf_cp_world_size = 1, cf_persist_token_threshold = 0,
      cf_use_layerwise = False, cf_spec_tokens = None, cf_hasher = demo_hash, cf_seed = [],
      cf_other_rank_hashers = []\<rparr>"

definition demo_scheduler :: "unit scheduler" where
  "demo_scheduler =
     \<lparr>sd_requests_meta = [], sd_async_dump_req_ids = {}, sd_rcm = new_rcm True True,
      sd_world = (), sd_metrics = []\<rparr>"

definition demo_request :: request where
  "demo_request =
     \<lparr>rq_id = ''r'', rq_all_token_ids = [1, 2, 3, 4], rq_num_tokens = 4, rq_num_prompt_tokens = 4\<rparr>"

lemma demo_match:
  "get_num_new_matched_tokens demo_cfg demo_lookup demo_scheduler demo_request 0
     = (Inr (3, False), snd (get_num_new_matched_tokens demo_cfg demo_lookup demo_scheduler demo_request 0))"
proof (rule prod_eqI)
  have "fst (get_num_new_matched_tokens demo_cfg demo_lookup demo_scheduler demo_request 0) = Inr (3, False)"
    by code_simp
  then show "fst (get_num_new_matched_tokens demo_cfg demo_lookup demo_scheduler demo_request 0)
    = fst (Inr (3, False), snd (get_num_new_matched_tokens demo_cfg demo_lookup demo_scheduler demo_request 0))"
    by simp
qed simp

theorem matched_tokens_leave_recompute_witness:
  "0 + 3 + full_hit_recompute_tokens demo_cfg \<le> rq_num_tokens demo_request
     \<and> 0 < full_hit_recompute_tokens demo_cfg \<and> \<not> False"
  by (rule matched_tokens_leave_recompute [OF demo_match]) simp

text \<open>
  C2: With a store that answers truthfully, every block the plan of a matched request will
  load is in the store, and none of them is one that some rank has reported missing.
\<close>

theorem matched_blocks_are_stored:
  assumes "get_num_new_matched_tokens cf store s rq c = (Inr (k, load_async), s')" and "0 < k"
    and "honest_prefix_lookup present (sd_world s) store"
    and "rc_enabled (sd_rcm s)" and "rc_tracker (sd_rcm s) = Some t"
  shows "\<exists>m. dict_get (sd_requests_meta s') (rq_id rq) = Some m
    \<and> rm_total_hit_block_num m * cf_cp_world_size cf \<le> length (rm_ucm_block_ids m)
    \<and> (\<forall>i. rm_hbm_hit_block_num m * cf_cp_world_size cf \<le> i
            \<and> i < rm_total_hit_block_num m * cf_cp_world_size cf
         \<longrightarrow> present (rm_ucm_block_ids m ! i) \<and> rm_ucm_block_ids m ! i \<notin> t)"
proof -
  let ?ucm = "generate_hash (cf_hasher cf) (cf_hash_block_size cf) (rq_all_token_ids rq) (cf_seed cf)"
  let ?h = "c div cf_block_size cf" and ?cp = "cf_cp_world_size cf"
  from get_num_cases [OF assms(1)] assms(2) obtain hits s1 where
    l: "lookup_external_blocks cf store s (drop (?h * ?cp) ?ucm) = (hits, s1)"
    and m: "dict_get (sd_requests_meta s') (rq_id rq)
              = Some \<lparr>rm_ucm_block_ids = ?ucm, rm_hbm_hit_block_num = ?h,
                      rm_total_hit_block_num = ?h + hits,
                      rm_num_token_ids = length (rq_all_token_ids rq),
                      rm_vllm_block_ids = [], rm_token_processed = c + k\<rparr>"
    and k: "k = reported_hit_tokens (hits * cf_block_size cf) (c + hits * cf_block_size cf)
                 (rq_num_tokens rq) (full_hit_recompute_tokens cf)"
    by auto
  let ?P = "\<lambda>b. b \<notin> t \<and> present b"
  from lookup_external_blocks_honest [OF l assms(3-5)]
  have n: "hits * ?cp \<le> length (takeWhile ?P (drop (?h * ?cp) ?ucm))" .
  have "k \<le> hits * cf_block_size cf" using k reported_hit_tokens_le by simp
  with assms(2) have hits: "0 < hits" by (cases hits) auto
  have len: "(?h + hits) * ?cp \<le> length ?ucm"
  proof (cases "?cp = 0")
    case False
    with hits n have "0 < length (takeWhile ?P (drop (?h * ?cp) ?ucm))"
      by (metis less_le_trans nat_0_less_mult_iff not_gr_zero)
    moreover have "length (takeWhile ?P (drop (?h * ?cp) ?ucm)) \<le> length ?ucm - ?h * ?cp"
      by (metis length_drop length_takeWhile_le)
    ultimately show ?thesis using n unfolding distrib_right by linarith
  qed simp
  have "?P (?ucm ! i)" if "?h * ?cp \<le> i" "i < (?h + hits) * ?cp" for i
  proof -
    from that n have j: "i - ?h * ?cp < length (takeWhile ?P (drop (?h * ?cp) ?ucm))"
      by (simp add: distrib_right)
    from nth_takeWhile_holds [OF j] have "?P (drop (?h * ?cp) ?ucm ! (i - ?h * ?cp))" .
    moreover have "drop (?h * ?cp) ?ucm ! (i - ?h * ?cp) = ?ucm ! i"
      using that len by simp
    ultimately show ?thesis by simp
  qed
  with m len show ?thesis by auto
qed

theorem matched_blocks_are_stored_witness:
  "\<exists>m. dict_get (sd_requests_meta
         (snd (get_num_new_matched_tokens demo_cfg demo_lookup demo_scheduler demo_request 0))) (rq_id demo_request)
        = Some m
    \<and> rm_total_hit_block_num m * cf_cp_world_size demo_cfg \<le> length (rm_ucm_block_ids m)"
proof -
  have "honest_prefix_lookup (\<lambda>_. True) (sd_world demo_scheduler) demo_lookup"
    by (simp add: honest_prefix_lookup_def demo_lookup_def takeWhile_eq_all_conv [THEN iffD2])
  from matched_blocks_are_stored [OF demo_match _ this, of "{}"] show ?thesis
    by (auto simp: demo_scheduler_def new_rcm_def)
qed

section \<open>Properties of the plan\<close>

text \<open>
  C1: A request prefilled in steps of any sizes dumps each of its blocks beyond the processed
  position exactly once, in order, and nothing else: the steps' dumps joined are the one
  contiguous range from the first block not yet stored to the last full block.
\<close>

theorem prefill_dumps_every_block_once:
  assumes "rm_token_processed m + sum_list (map fst steps) = rm_num_token_ids m"
  shows "fst (run_plan (direct_plan cf) m steps)
       = py_slice (rm_ucm_block_ids m)
           (rm_token_processed m div cf_block_size cf * cf_cp_world_size cf)
           (rm_num_token_ids m div cf_block_size cf * cf_cp_world_size cf)"
proof -
  obtain ids m' where r: "run_plan (direct_plan cf) m steps = (ids, m')"
    by (cases "run_plan (direct_plan cf) m steps")
  from direct_run_tokens [of m steps cf] assms r have "rm_token_processed m' = rm_num_token_ids m" by simp
  with direct_planner.run_range [OF TrueI r] r show ?thesis by (simp add: direct_pos_def)
qed

definition demo_meta :: request_meta where
  "demo_meta =
     \<lparr>rm_ucm_block_ids = [''a'', ''b'', ''c''], rm_hbm_hit_block_num = 0, rm_total_hit_block_num = 1,
      rm_num_token_ids = 7, rm_vllm_block_ids = [], rm_token_processed = 2\<rparr>"

theorem prefill_dumps_every_block_once_witness:
  "fst (run_plan (direct_plan demo_cfg) demo_meta [(3, [5, 6, 7], True), (2, [8], False)])
     = py_slice (rm_ucm_block_ids demo_meta)
           (rm_token_processed demo_meta div cf_block_size demo_cfg * cf_cp_world_size demo_cfg)
           (rm_num_token_ids demo_meta div cf_block_size demo_cfg * cf_cp_world_size demo_cfg)"
  by (rule prefill_dumps_every_block_once) (simp add: demo_meta_def)

text \<open>
  A dump pairs each block id with the device block that holds its tokens: the \<open>j\<close>-th
  id and the \<open>j\<close>-th device block of a step's dump are those of the same block of the
  request, as long as vLLM has allocated the blocks of the tokens it scheduled.
\<close>

lemma dump_pairs_ids_with_their_blocks:
  assumes "generate_dispatch_meta cf m new_tokens ids need_load = (dm, m')"
    and "cf_cp_world_size cf = 1"
    and "length (rm_ucm_block_ids m) = rm_num_token_ids m div cf_block_size cf"
    and "(rm_token_processed m + new_tokens) div cf_block_size cf \<le> length (rm_vllm_block_ids m @ ids)"
  shows "length (fst (dm_dump dm)) = length (snd (dm_dump dm))
    \<and> (\<forall>j < length (fst (dm_dump dm)).
         fst (dm_dump dm) ! j = rm_ucm_block_ids m ! (rm_token_processed m div cf_block_size cf + j)
         \<and> snd (dm_dump dm) ! j = (rm_vllm_block_ids m @ ids) ! (rm_token_processed m div cf_block_size cf + j))"
proof (cases "rm_token_processed m < rm_num_token_ids m")
  case False
  with assms(1) show ?thesis by (auto simp: generate_dispatch_meta_def Let_def)
next
  case True
  let ?bs = "cf_block_size cf"
  let ?a = "rm_token_processed m div ?bs" and ?b = "(rm_token_processed m + new_tokens) div ?bs"
  let ?u = "py_slice (rm_ucm_block_ids m) ?a ?b" and ?v = "py_slice (rm_vllm_block_ids m @ ids) ?a ?b"
  have d: "dm_dump dm = (?u, if rm_num_token_ids m < rm_token_processed m + new_tokens
                             then take (length ?u) ?v else ?v)"
    using assms(1,2) True by (auto simp: generate_dispatch_meta_def Let_def)
  have v: "length ?v = ?b - ?a" using assms(4) by simp
  have "length ?u \<le> ?b - ?a" by simp
  moreover have "length ?u = ?b - ?a" if "\<not> rm_num_token_ids m < rm_token_processed m + new_tokens"
    using that assms(3) by (simp add: div_le_mono min_absorb1)
  ultimately have len: "length (fst (dm_dump dm)) = length (snd (dm_dump dm))"
    using v by (simp add: d min_def del: length_py_slice)
  have "snd (dm_dump dm) ! j = ?v ! j" if "j < length ?u" for j
    using that by (simp add: d del: length_py_slice)
  then have "\<forall>j < length ?u. snd (dm_dump dm) ! j = (rm_vllm_block_ids m @ ids) ! (?a + j)"
    using \<open>length ?u \<le> ?b - ?a\<close> v by (simp del: length_py_slice)
  with len show ?thesis by (simp add: d del: length_py_slice)
qed

section \<open>Properties of the feedback from the workers\<close>

lemma update_failed_get:
  "dict_get (sd_requests_meta (update_failed cf wm rs s)) r =
     (if r \<in> set rs
      then (if r \<in> wm_missing_reqs wm
            then map_option (\<lambda>m. m\<lparr>rm_total_hit_block_num := rm_hbm_hit_block_num m,
                                  rm_token_processed := rm_hbm_hit_block_num m * cf_block_size cf\<rparr>)
                   (dict_get (sd_requests_meta s) r)
            else None)
      else dict_get (sd_requests_meta s) r)"
proof (induction rs arbitrary: s)
  case Nil
  then show ?case by simp
next
  case (Cons q rs)
  show ?case
  proof (cases "dict_get (sd_requests_meta s) q")
    case None
    then show ?thesis by (simp add: Cons.IH)
  next
    case (Some m)
    then show ?thesis by (auto simp: Cons.IH option.map_comp comp_def)
  qed
qed

lemma reset_meta_idem:
  "(m\<lparr>rm_total_hit_block_num := h, rm_token_processed := t\<rparr>)\<lparr>rm_total_hit_block_num := h, rm_token_processed := t\<rparr>
     = m\<lparr>rm_total_hit_block_num := h, rm_token_processed := t\<rparr>"
  by simp

text \<open>
  C11: A request whose load hit a missing block falls back to computing from its local hit on:
  it stays known, its next plan loads nothing, and the prefill that follows dumps every block
  after the local hit again, which is what repairs the missing one. A request that failed for
  any other reason is forgotten, so nothing of it is dumped.
\<close>

theorem failed_load_falls_back:
  assumes "fair_order so" and "finite (wm_load_failed_reqs wm)" and "r \<in> wm_load_failed_reqs wm"
    and "dict_get (sd_requests_meta s) r = Some m"
    and "sum_list (map fst steps) = rm_num_token_ids m - rm_hbm_hit_block_num m * cf_block_size cf"
    and "rm_hbm_hit_block_num m * cf_block_size cf \<le> rm_num_token_ids m" and "0 < cf_block_size cf"
  shows "(r \<notin> wm_missing_reqs wm \<longrightarrow>
            dict_get (sd_requests_meta (update_connector_output cf so (Some wm) s)) r = None)
    \<and> (r \<in> wm_missing_reqs wm \<longrightarrow>
         (\<exists>m'. dict_get (sd_requests_meta (update_connector_output cf so (Some wm) s)) r = Some m'
            \<and> (\<forall>n ids. dm_load (fst (generate_dispatch_meta cf m' n ids True)) = ([], []))
            \<and> fst (run_plan (direct_plan cf) m' steps)
                = py_slice (rm_ucm_block_ids m) (rm_hbm_hit_block_num m * cf_cp_world_size cf)
                    (rm_num_token_ids m div cf_block_size cf * cf_cp_world_size cf)))"
proof -
  let ?m = "m\<lparr>rm_total_hit_block_num := rm_hbm_hit_block_num m,
              rm_token_processed := rm_hbm_hit_block_num m * cf_block_size cf\<rparr>"
  have get: "dict_get (sd_requests_meta (update_connector_output cf so (Some wm) s)) r
      = (if r \<in> wm_missing_reqs wm then Some ?m else None)"
    using assms(1-4) by (simp add: update_connector_output_def update_failed_get fair_order_def)
  have load: "dm_load (fst (generate_dispatch_meta cf ?m n ids True)) = ([], [])" for n ids
    by (simp add: generate_dispatch_meta_def Let_def)
  obtain ids m' where run: "run_plan (direct_plan cf) ?m steps = (ids, m')"
    by (cases "run_plan (direct_plan cf) ?m steps")
  have "rm_token_processed m' = rm_num_token_ids m"
    using direct_run_tokens [of ?m steps cf] assms(5,6) run by simp
  with direct_planner.run_range [OF TrueI run] run assms(7)
  have "fst (run_plan (direct_plan cf) ?m steps)
      = py_slice (rm_ucm_block_ids m) (rm_hbm_hit_block_num m * cf_cp_world_size cf)
          (rm_num_token_ids m div cf_block_size cf * cf_cp_world_size cf)"
    by (simp add: direct_pos_def)
  with get load show ?thesis by simp
qed

theorem failed_load_falls_back_witness:
  "\<exists>m'. dict_get (sd_requests_meta (update_connector_output demo_cfg demo_order
              (Some (demo_wm\<lparr>wm_load_failed_reqs := {''r''}\<rparr>))
              (demo_scheduler\<lparr>sd_requests_meta := [(''r'', demo_meta)]\<rparr>))) ''r'' = Some m'
     \<and> fst (run_plan (direct_plan demo_cfg) m' [(7, [5, 6, 7], True)])
         = py_slice (rm_ucm_block_ids demo_meta)
             (rm_hbm_hit_block_num demo_meta * cf_cp_world_size demo_cfg)
             (rm_num_token_ids demo_meta div cf_block_size demo_cfg * cf_cp_world_size demo_cfg)"
proof -
  have "''r'' \<in> wm_missing_reqs (demo_wm\<lparr>wm_load_failed_reqs := {''r''}\<rparr>)"
    by (simp add: demo_wm_def)
  with failed_load_falls_back [OF demo_order_fair, of "demo_wm\<lparr>wm_load_failed_reqs := {''r''}\<rparr>" "''r''"
      "demo_scheduler\<lparr>sd_requests_meta := [(''r'', demo_meta)]\<rparr>" demo_meta "[(7, [5, 6, 7], True)]" demo_cfg]
  show ?thesis by (auto simp: demo_meta_def demo_cfg_def demo_scheduler_def)
qed

lemma dispatch_request_async:
  "dispatch_request cf out r ids l acc = Inr acc' \<Longrightarrow>
     sd_async_dump_req_ids (fst acc') = sd_async_dump_req_ids (fst acc)"
  by (auto simp: dispatch_request_def rbind_Inr_iff split_beta split: option.splits)

lemma dispatch_new_async:
  "dispatch_new cf out xs acc = Inr acc' \<Longrightarrow>
     sd_async_dump_req_ids (fst acc') = sd_async_dump_req_ids (fst acc)"
  by (induction cf out xs acc rule: dispatch_new.induct) (auto simp: rbind_Inr_iff dest: dispatch_request_async)

lemma dispatch_cached_async:
  "dispatch_cached cf out cd i xs acc = Inr acc' \<Longrightarrow>
     sd_async_dump_req_ids (fst acc') = sd_async_dump_req_ids (fst acc)"
  by (induction cf out cd i xs acc rule: dispatch_cached.induct)
     (auto simp: rbind_Inr_iff split: option.splits dest!: dispatch_request_async)

lemma dispatch_cached_list_async:
  "dispatch_cached_list cf out rs acc = Inr acc' \<Longrightarrow>
     sd_async_dump_req_ids (fst acc') = sd_async_dump_req_ids (fst acc)"
  by (induction cf out rs acc rule: dispatch_cached_list.induct)
     (auto simp: rbind_Inr_iff split: option.splits dest!: dispatch_request_async)

lemmas dispatch_async = dispatch_new_async dispatch_cached_async dispatch_cached_list_async

lemma build_connector_meta_async:
  "build_connector_meta cf s out = Inr (md, s') \<Longrightarrow>
     sd_async_dump_req_ids s' = sd_async_dump_req_ids s \<union> dump_requests (cm_request_meta md)"
  by (cases "so_cached_reqs out")
     (auto simp: build_connector_meta_def rbind_Inr_iff track_async_dump_requests_def dest!: dispatch_async)

text \<open>
  The scheduler tells vLLM to keep a finished request's blocks once for the dumps planned
  for it: every request a step's metadata dumps is tracked, nothing else is added, and asking
  clears it.
\<close>

lemma dumping_requests_are_tracked:
  assumes "build_connector_meta cf s out = Inr (md, s')"
  shows "sd_async_dump_req_ids s' = sd_async_dump_req_ids s \<union> dump_requests (cm_request_meta md)
    \<and> (r \<in> dump_requests (cm_request_meta md) \<longrightarrow>
         fst (request_finished r s') \<and> \<not> fst (request_finished r (snd (request_finished r s'))))"
  using build_connector_meta_async [OF assms] by (simp add: request_finished_def)

definition demo_out :: scheduler_output where
  "demo_out =
     \<lparr>so_new_reqs = [(''r'', [[5, 6, 7]])],
      so_cached_reqs = CachedData \<lparr>cd_req_ids = [], cd_new_block_ids = [], cd_resumed = ResumedIds {}\<rparr>,
      so_num_scheduled = [(''r'', 5)], so_finished = [], so_preempted = None\<rparr>"

end
