(* ===== verification/Direct_Worker.thy ===== *)
theory Direct_Worker
  imports Direct_Scheduler
begin

text \<open>
  The worker side of \<open>UCMDirectConnector\<close>: loading the planned blocks before the forward
  pass, submitting dumps after it, and the lifecycle of the dump tasks that stay in flight
  until vLLM asks for their requests. The manager of \<open>Rank_Consistency\<close> sits between this
  code and the store, and the device owns the events the dumps wait for.
\<close>

section \<open>State\<close>

record pending_dump_task =
  pt_task :: nat
  pt_request_ids :: "req_id set"
  pt_event_handle :: nat

text \<open>
  What \<open>register_kv_caches\<close> and the constructor fix. \<open>wc_extract_block_addrs\<close> is the
  layout's \<open>extract_block_addrs\<close> with the \<open>reshape\<close> of its result: one row of device
  addresses per block, or the exception of either (the \<open>reshape\<close> raises without blocks).
\<close>

record 'w worker_cfg =
  wc_tp_rank :: nat
  wc_tp_size :: nat
  wc_is_mla :: bool
  wc_skip_null_vllm_blocks :: bool
  wc_enable_event_sync :: bool
  wc_hasher :: "hash_input \<Rightarrow> bytes"
  wc_block_data_size :: nat
  wc_extract_block_addrs :: "vllm_id list \<Rightarrow> u64 list list result"
  wc_store :: "'w kv_store"
  wc_device :: "'w device_api"

record 'w worker =
  wk_world :: 'w
  wk_rcm :: "'w rcm"
  wk_events :: events
  wk_pending :: "pending_dump_task list"
  wk_invalid_block_ids :: "vllm_id set"
  wk_meta :: worker_meta
  wk_async_dump_req_ids :: "req_id set"
  wk_metrics :: "metric list"

definition worker_stats :: "metric list \<Rightarrow> ('w, 'b) worker_scheme \<Rightarrow> ('w, 'b) worker_scheme" where
  "worker_stats ms s = s\<lparr>wk_metrics := wk_metrics s @ ms\<rparr>"

section \<open>Null blocks\<close>

text \<open>
  \<open>_drop_null_vllm_blocks\<close>: vLLM's block 0 is a placeholder. The two lists are zipped, so
  the longer one is cut, unless one of them is empty.
\<close>

definition drop_null_vllm_blocks :: "bytes list \<Rightarrow> vllm_id list \<Rightarrow> bytes list \<times> vllm_id list" where
  "drop_null_vllm_blocks ucm_block_ids vllm_block_ids =
     (if ucm_block_ids = [] \<or> vllm_block_ids = [] then (ucm_block_ids, vllm_block_ids)
      else
        let kept = filter (\<lambda>(u, v). v \<noteq> 0) (zip ucm_block_ids vllm_block_ids)
        in (map fst kept, map snd kept))"

definition effective_blocks :: "bool \<Rightarrow> bytes list \<times> vllm_id list \<Rightarrow> bytes list \<times> vllm_id list" where
  "effective_blocks skip_null p =
     (if skip_null then drop_null_vllm_blocks (fst p) (snd p) else p)"

section \<open>Loading\<close>

text \<open>\<open>_record_load_error\<close>.\<close>

definition record_load_error ::
  "string \<Rightarrow> vllm_id list \<Rightarrow> ('w, 'b) worker_scheme \<Rightarrow> ('w, 'b) worker_scheme" where
  "record_load_error metric_name block_ids s =
     (let invalid_blocks = set block_ids;
          new_invalid_blocks = invalid_blocks - wk_invalid_block_ids s
      in worker_stats
           [MCount metric_name 1, MCount ''connector_load_invalid_requests_total'' 1,
            MCount ''connector_load_invalid_blocks_total'' (int (card new_invalid_blocks))]
           (s\<lparr>wk_invalid_block_ids := wk_invalid_block_ids s \<union> invalid_blocks\<rparr>))"

text \<open>The two exception handlers of \<open>start_load_kv\<close>, which differ in the metric only.\<close>

definition load_failed :: "string \<Rightarrow> req_id \<Rightarrow> dispatch_meta \<Rightarrow> 'w worker \<Rightarrow> 'w worker" where
  "load_failed metric_name request_id request s =
     (let s1 = record_load_error metric_name (snd (dm_load request) @ snd (dm_dump request)) s
      in s1\<lparr>wk_meta := mark_failed request_id (wk_meta s1)\<rparr>)"

definition submit_request_load ::
  "'w worker_cfg \<Rightarrow> req_id \<Rightarrow> bytes list \<Rightarrow> vllm_id list \<Rightarrow> 'w worker \<Rightarrow> nat result \<times> 'w worker" where
  "submit_request_load cf request_id ucm_block_ids vllm_block_ids s =
     (let store_block_ids =
            rank_scoped_ids (wc_hasher cf) (wc_tp_rank cf = 0 \<or> wc_is_mla cf) ucm_block_ids
      in case wc_extract_block_addrs cf vllm_block_ids of
           Inl e \<Rightarrow> (Inl e, s)
         | Inr total_ptrs \<Rightarrow>
             (case submit_load (wk_rcm s) (wc_store cf) (wk_world s) [(request_id, ucm_block_ids)]
                     store_block_ids (replicate (length ucm_block_ids) 0) total_ptrs of
                (r, rcm', w') \<Rightarrow> (r, s\<lparr>wk_rcm := rcm', wk_world := w'\<rparr>)))"

record load_acc =
  la_is_load :: bool
  la_tasks :: "(req_id \<times> nat) list"
  la_load_blocks :: "(req_id, nat) dict"
  la_num_blocks :: int
  la_num_requests :: int

fun submit_loads ::
  "'w worker_cfg \<Rightarrow> (req_id, dispatch_meta) dict \<Rightarrow> 'w worker \<times> load_acc \<Rightarrow> 'w worker \<times> load_acc" where
  "submit_loads cf [] (s, a) = (s, a)"
| "submit_loads cf ((request_id, request) # rest) (s, a) =
     (if fst (dm_load request) = [] then submit_loads cf rest (s, a)
      else
        let a1 = a\<lparr>la_is_load := True,
                   la_num_blocks := la_num_blocks a + int (length (fst (dm_load request))),
                   la_num_requests := la_num_requests a + 1\<rparr>;
            (ucm_block_ids, vllm_block_ids) =
              effective_blocks (wc_skip_null_vllm_blocks cf) (dm_load request)
        in if wc_skip_null_vllm_blocks cf \<and> ucm_block_ids = []
           then submit_loads cf rest
                  (s, a1\<lparr>la_num_blocks := la_num_blocks a1 - int (length (fst (dm_load request))),
                         la_num_requests := la_num_requests a1 - 1\<rparr>)
           else
             let a2 = (if wc_skip_null_vllm_blocks cf
                       then a1\<lparr>la_num_blocks := la_num_blocks a1
                                - (int (length (fst (dm_load request))) - int (length ucm_block_ids))\<rparr>
                       else a1)
             in (case submit_request_load cf request_id ucm_block_ids vllm_block_ids s of
                   (Inl e, s1) \<Rightarrow>
                     submit_loads cf rest
                       (load_failed ''connector_load_submit_errors_total'' request_id request s1,
                        a2\<lparr>la_num_blocks := la_num_blocks a2 - int (length ucm_block_ids)\<rparr>)
                 | (Inr task, s1) \<Rightarrow>
                     submit_loads cf rest
                       (s1, a2\<lparr>la_tasks := dict_set request_id task (la_tasks a2),
                               la_load_blocks :=
                                 dict_set request_id (length ucm_block_ids) (la_load_blocks a2)\<rparr>)))"

fun wait_loads ::
  "(req_id, dispatch_meta) dict \<Rightarrow> (req_id \<times> nat) list \<Rightarrow> 'w worker \<times> load_acc \<Rightarrow> 'w worker \<times> load_acc" where
  "wait_loads metas [] (s, a) = (s, a)"
| "wait_loads metas ((request_id, task) # rest) (s, a) =
     (case wait_load (wk_rcm s) (wk_world s) task of
        (Inr _, rcm', w') \<Rightarrow> wait_loads metas rest (s\<lparr>wk_rcm := rcm', wk_world := w'\<rparr>, a)
      | (Inl e, rcm', w') \<Rightarrow>
          let s1 = s\<lparr>wk_rcm := rcm', wk_world := w'\<rparr>;
              s2 = (case dict_get metas request_id of
                      None \<Rightarrow> s1
                    | Some request \<Rightarrow> load_failed ''connector_load_wait_errors_total'' request_id request s1)
          in wait_loads metas rest
               (s2, a\<lparr>la_num_blocks :=
                       la_num_blocks a - int (dict_get_or (la_load_blocks a) request_id 0)\<rparr>))"

definition start_load_kv :: "'w worker_cfg \<Rightarrow> connector_meta \<Rightarrow> 'w worker \<Rightarrow> 'w worker" where
  "start_load_kv cf metadata s =
     (let a0 = \<lparr>la_is_load = False, la_tasks = [], la_load_blocks = [], la_num_blocks = 0, la_num_requests = 0\<rparr>;
          (s1, a1) = submit_loads cf (cm_request_meta metadata) (s, a0);
          (s2, a2) = wait_loads (cm_request_meta metadata) (la_tasks a1) (s1, a1)
      in if la_is_load a2
         then worker_stats
                [MCount ''load_requests_num'' (la_num_requests a2),
                 MCount ''load_blocks_num'' (la_num_blocks a2),
                 MCount ''load_bytes_total'' (la_num_blocks a2 * int (wc_block_data_size cf))] s2
         else s2)"

section \<open>Dump tasks\<close>

definition release_dump_event_handle :: "'w worker_cfg \<Rightarrow> pending_dump_task \<Rightarrow> 'w worker \<Rightarrow> 'w worker" where
  "release_dump_event_handle cf t s =
     (if wc_enable_event_sync cf \<and> pt_event_handle t \<noteq> 0
      then s\<lparr>wk_events := destroy_event_handle (pt_event_handle t) (wk_events s)\<rparr> else s)"

definition wait_pending_dump_task ::
  "'w worker_cfg \<Rightarrow> pending_dump_task \<Rightarrow> 'w worker \<Rightarrow> unit result \<times> 'w worker" where
  "wait_pending_dump_task cf t s =
     (case wait_dump (wk_rcm s) (wk_world s) (pt_task t) of
        (r, rcm', w') \<Rightarrow> (r, release_dump_event_handle cf t (s\<lparr>wk_rcm := rcm', wk_world := w'\<rparr>)))"

text \<open>
  \<open>_poll_pending_dump_tasks\<close>: completed tasks are waited for, which cannot block, and
  leave the list whether or not the wait succeeds; a task whose check raises stays.
\<close>

fun poll_loop ::
  "'w worker_cfg \<Rightarrow> pending_dump_task list \<Rightarrow> 'w worker \<Rightarrow> pending_dump_task list \<times> 'w worker" where
  "poll_loop cf [] s = ([], s)"
| "poll_loop cf (t # rest) s =
     (case st_check (wc_store cf) (wk_world s) (pt_task t) of
        (Inr True, w') \<Rightarrow>
          poll_loop cf rest (snd (wait_pending_dump_task cf t (s\<lparr>wk_world := w'\<rparr>)))
      | (_, w') \<Rightarrow>
          (case poll_loop cf rest (s\<lparr>wk_world := w'\<rparr>) of
             (remaining, s') \<Rightarrow> (t # remaining, s')))"

definition poll_pending_dump_tasks :: "'w worker_cfg \<Rightarrow> 'w worker \<Rightarrow> 'w worker" where
  "poll_pending_dump_tasks cf s =
     (case poll_loop cf (wk_pending s) s of
        (remaining, s') \<Rightarrow> s'\<lparr>wk_pending := remaining\<rparr>)"

text \<open>The loop \<open>_flush_pending_dump_tasks\<close> and \<open>get_finished\<close> share: wait for the tasks of some requests.\<close>

fun drain_loop ::
  "'w worker_cfg \<Rightarrow> (pending_dump_task \<Rightarrow> bool) \<Rightarrow> pending_dump_task list \<Rightarrow> 'w worker
     \<Rightarrow> pending_dump_task list \<times> 'w worker" where
  "drain_loop cf selected [] s = ([], s)"
| "drain_loop cf selected (t # rest) s =
     (if selected t
      then drain_loop cf selected rest (snd (wait_pending_dump_task cf t s))
      else
        (case drain_loop cf selected rest s of (remaining, s') \<Rightarrow> (t # remaining, s')))"

definition flush_pending_dump_tasks ::
  "'w worker_cfg \<Rightarrow> req_id set option \<Rightarrow> 'w worker \<Rightarrow> 'w worker" where
  "flush_pending_dump_tasks cf request_ids s =
     (case drain_loop cf
             (\<lambda>t. case request_ids of None \<Rightarrow> True | Some rs \<Rightarrow> pt_request_ids t \<inter> rs \<noteq> {})
             (wk_pending s) (s\<lparr>wk_pending := []\<rparr>) of
        (remaining, s') \<Rightarrow> s'\<lparr>wk_pending := remaining\<rparr>)"

definition handle_preemptions :: "'w worker_cfg \<Rightarrow> req_id set \<Rightarrow> 'w worker \<Rightarrow> 'w worker" where
  "handle_preemptions cf preempted_req_ids s =
     (if preempted_req_ids = {} then s else flush_pending_dump_tasks cf (Some preempted_req_ids) s)"

definition get_finished ::
  "'w worker_cfg \<Rightarrow> req_id list \<Rightarrow> 'w worker \<Rightarrow> req_id set option result \<times> 'w worker" where
  "get_finished cf finished_req_ids s =
     (let async_finished = filter (\<lambda>r. r \<in> wk_async_dump_req_ids s) finished_req_ids;
          s1 = (if async_finished = [] then s
                else
                  (case drain_loop cf (\<lambda>t. pt_request_ids t \<inter> set async_finished \<noteq> {}) (wk_pending s) s of
                     (remaining, s') \<Rightarrow> s'\<lparr>wk_pending := remaining\<rparr>))
      in case finish_dump (wk_rcm s1) async_finished of
           (Inl e, rcm') \<Rightarrow> (Inl e, s1\<lparr>wk_rcm := rcm'\<rparr>)
         | (Inr _, rcm') \<Rightarrow>
             (Inr (if async_finished = [] then None else Some (set async_finished)),
              s1\<lparr>wk_rcm := rcm',
                 wk_async_dump_req_ids := wk_async_dump_req_ids s1 - set async_finished\<rparr>))"

section \<open>Saving\<close>

record dump_acc =
  da_request_ids :: "req_id set"
  da_blocks_by_request :: "(req_id, bytes set) dict"
  da_ucm_block_ids :: "bytes list"
  da_vllm_block_ids :: "vllm_id list"
  da_num_blocks :: int
  da_num_requests :: int

definition empty_dump_acc :: dump_acc where
  "empty_dump_acc =
     \<lparr>da_request_ids = {}, da_blocks_by_request = [], da_ucm_block_ids = [], da_vllm_block_ids = [],
      da_num_blocks = 0, da_num_requests = 0\<rparr>"

text \<open>The loop of \<open>wait_for_save\<close> that collects every request's dump into one task.\<close>

fun collect_dumps :: "'w worker_cfg \<Rightarrow> (req_id, dispatch_meta) dict \<Rightarrow> dump_acc \<Rightarrow> dump_acc" where
  "collect_dumps cf [] a = a"
| "collect_dumps cf ((request_id, request) # rest) a =
     (if fst (dm_dump request) = [] then collect_dumps cf rest a
      else
        let (ucm_block_ids, vllm_block_ids) =
              effective_blocks (wc_skip_null_vllm_blocks cf) (dm_dump request)
        in if wc_skip_null_vllm_blocks cf \<and> ucm_block_ids = [] then collect_dumps cf rest a
           else collect_dumps cf rest
                  \<lparr>da_request_ids = insert request_id (da_request_ids a),
                   da_blocks_by_request =
                     dict_set request_id (set ucm_block_ids) (da_blocks_by_request a),
                   da_ucm_block_ids =
                     da_ucm_block_ids a
                     @ rank_scoped_ids (wc_hasher cf) (wc_tp_rank cf = 0) ucm_block_ids,
                   da_vllm_block_ids = da_vllm_block_ids a @ vllm_block_ids,
                   da_num_blocks = da_num_blocks a + int (length ucm_block_ids),
                   da_num_requests = da_num_requests a + 1\<rparr>)"

text \<open>
  What the direct and the layerwise connector do once the addresses of a dump are known: an event
  handle is taken, the dump is submitted and filed as pending; if the submission raises, the
  handle is destroyed again.
\<close>

definition submit_dump_task ::
  "'w worker_cfg \<Rightarrow> req_id set \<Rightarrow> (req_id, bytes set) dict \<Rightarrow> bytes list \<Rightarrow> nat list \<Rightarrow> u64 list list
     \<Rightarrow> 'w worker \<Rightarrow> unit result \<times> 'w worker" where
  "submit_dump_task cf request_ids block_ids_by_request block_ids shard_indices ptrs s =
     (case get_dump_event_handle (wc_device cf) (wc_enable_event_sync cf) (wk_events s) (wk_world s) of
        (event_handle, ev, w) \<Rightarrow>
          (case submit_dump (wk_rcm s) (wc_store cf) w block_ids_by_request block_ids shard_indices
                  ptrs event_handle of
             (Inl e, rcm', w') \<Rightarrow>
               (Inl e, s\<lparr>wk_rcm := rcm', wk_world := w',
                         wk_events := (if wc_enable_event_sync cf \<and> event_handle \<noteq> 0
                                       then destroy_event_handle event_handle ev else ev)\<rparr>)
           | (Inr task, rcm', w') \<Rightarrow>
               (Inr (), s\<lparr>wk_rcm := rcm', wk_world := w', wk_events := ev,
                          wk_pending := wk_pending s
                            @ [\<lparr>pt_task = task, pt_request_ids = request_ids,
                                pt_event_handle = event_handle\<rparr>]\<rparr>)))"

text \<open>The \<open>try\<close> block of \<open>wait_for_save\<close> that submits the collected dump.\<close>

definition submit_collected_dump :: "'w worker_cfg \<Rightarrow> dump_acc \<Rightarrow> 'w worker \<Rightarrow> 'w worker" where
  "submit_collected_dump cf a s =
     (case wc_extract_block_addrs cf (da_vllm_block_ids a) of
        Inl e \<Rightarrow> s
      | Inr total_ptrs \<Rightarrow>
          (case submit_dump_task cf (da_request_ids a) (da_blocks_by_request a) (da_ucm_block_ids a)
                  (replicate (length (da_ucm_block_ids a)) 0) total_ptrs s of
             (Inl e, s') \<Rightarrow> s'
           | (Inr _, s') \<Rightarrow>
               worker_stats
                 [MCount ''save_requests_num'' (da_num_requests a),
                  MCount ''save_blocks_num'' (da_num_blocks a),
                  MCount ''save_bytes_total'' (da_num_blocks a * int (wc_block_data_size cf))] s'))"

definition wait_for_save :: "'w worker_cfg \<Rightarrow> connector_meta \<Rightarrow> 'w worker \<Rightarrow> 'w worker" where
  "wait_for_save cf metadata s =
     (let s1 = poll_pending_dump_tasks cf s;
          s2 = s1\<lparr>wk_async_dump_req_ids :=
                   wk_async_dump_req_ids s1 \<union> dump_requests (cm_request_meta metadata)\<rparr>
      in if wc_is_mla cf \<and> wc_tp_rank cf \<noteq> 0 then s2
         else
           let a = collect_dumps cf (cm_request_meta metadata) empty_dump_acc
           in if da_request_ids a = {} then s2 else submit_collected_dump cf a s2)"

section \<open>Reporting\<close>

definition get_block_ids_with_load_errors ::
  "('w, 'b) worker_scheme \<Rightarrow> vllm_id set \<times> ('w, 'b) worker_scheme" where
  "get_block_ids_with_load_errors s = (wk_invalid_block_ids s, s\<lparr>wk_invalid_block_ids := {}\<rparr>)"

definition build_connector_worker_meta ::
  "('w, 'b) worker_scheme \<Rightarrow> worker_meta option \<times> ('w, 'b) worker_scheme" where
  "build_connector_worker_meta s =
     (if \<not> rc_enabled (wk_rcm s) \<and> wm_load_failed_reqs (wk_meta s) = {} then (None, s)
      else
        (case update_worker_meta (wk_rcm s) (wk_meta s) of
           (wm, rcm') \<Rightarrow>
             (Some wm, s\<lparr>wk_rcm := rcm', wk_meta := empty_worker_meta (wm_is_mla wm)\<rparr>)))"

end
