(* ===== verification/Dump_Tasks.thy ===== *)
theory Dump_Tasks
  imports Direct_Worker
begin

text \<open>
  The lifecycle of asynchronous dumps in the direct connector's worker: the invariant that
  ties the pending list, the manager's contexts and the device's live events together, that
  every operation of the worker keeps, and what it gives when vLLM asks for finished requests.
\<close>

section \<open>Outstanding dump tasks\<close>

text \<open>
  The invariant that ties the pending list \<open>ts\<close> to the manager's contexts and to the
  device's live events: every context belongs to a pending task and only mentions requests
  that task is filed under, and the live events are the handles of the pending tasks.
\<close>

definition tasks_inv :: "'w worker_cfg \<Rightarrow> pending_dump_task list \<Rightarrow> 'w rcm \<Rightarrow> events \<Rightarrow> bool" where
  "tasks_inv cf ts m ev \<longleftrightarrow>
     distinct (map pt_task ts)
     \<and> dict_keys (rc_dump_contexts m) = pt_task ` set ts
     \<and> (\<forall>(k, store, ctx) \<in> set (rc_dump_contexts m).
          \<exists>t \<in> set ts. pt_task t = k \<and> dict_keys ctx \<subseteq> pt_request_ids t)
     \<and> ev = {h. h \<noteq> 0 \<and> (\<exists>t \<in> set ts. pt_event_handle t = h)}
     \<and> (\<forall>t \<in> set ts. \<forall>u \<in> set ts. pt_event_handle t = pt_event_handle u \<and> pt_event_handle t \<noteq> 0 \<longrightarrow> t = u)
     \<and> (wc_enable_event_sync cf \<or> (\<forall>t \<in> set ts. pt_event_handle t = 0))"

definition worker_inv :: "'w worker_cfg \<Rightarrow> 'w worker \<Rightarrow> bool" where
  "worker_inv cf s \<longleftrightarrow> tasks_inv cf (wk_pending s) (wk_rcm s) (wk_events s)"

lemma tasks_inv_context:
  assumes "tasks_inv cf ts m ev" and "(k, st, c) \<in> set (rc_dump_contexts m)"
  shows "\<exists>t \<in> set ts. pt_task t = k \<and> dict_keys c \<subseteq> pt_request_ids t"
proof -
  from assms(1) have "\<forall>(k, store, ctx) \<in> set (rc_dump_contexts m).
      \<exists>t \<in> set ts. pt_task t = k \<and> dict_keys ctx \<subseteq> pt_request_ids t"
    by (simp add: tasks_inv_def)
  from bspec [OF this assms(2)] show ?thesis by simp
qed

lemma tasks_inv_remove:
  assumes inv: "tasks_inv cf (us @ t # vs) m ev"
    and ctx: "rc_dump_contexts m' = dict_pop (pt_task t) (rc_dump_contexts m)"
    and ev': "ev' = (if wc_enable_event_sync cf \<and> pt_event_handle t \<noteq> 0 then ev - {pt_event_handle t} else ev)"
  shows "tasks_inv cf (us @ vs) m' ev'"
proof -
  from inv have d: "distinct (map pt_task (us @ t # vs))" by (simp add: tasks_inv_def)
  then have nt: "pt_task t \<notin> pt_task ` set (us @ vs)" and d': "distinct (map pt_task (us @ vs))" by auto
  then have t: "t \<notin> set (us @ vs)" by auto
  from inv have keys: "dict_keys (rc_dump_contexts m) = insert (pt_task t) (pt_task ` set (us @ vs))"
    by (auto simp: tasks_inv_def)
  then have keys': "dict_keys (rc_dump_contexts m') = pt_task ` set (us @ vs)"
    using nt unfolding ctx by (simp only: dict_keys_pop) auto
  have c': "\<exists>u \<in> set (us @ vs). pt_task u = k \<and> dict_keys c \<subseteq> pt_request_ids u"
    if mem: "(k, st, c) \<in> set (rc_dump_contexts m')" for k st c
  proof -
    from mem have "(k, st, c) \<in> set (dict_pop (pt_task t) (rc_dump_contexts m))"
      by (simp only: ctx)
    note dict_set_pop_values [OF this]
    then have k: "k \<noteq> pt_task t" and "(k, st, c) \<in> set (rc_dump_contexts m)" by simp_all
    from tasks_inv_context [OF inv this(2)] obtain u where
      "u \<in> set (us @ t # vs)" "pt_task u = k" "dict_keys c \<subseteq> pt_request_ids u"
      by blast
    with k show ?thesis by auto
  qed
  from inv have ev: "ev = {h. h \<noteq> 0 \<and> (\<exists>u \<in> set (us @ t # vs). pt_event_handle u = h)}"
    and un: "\<And>u v. u \<in> set (us @ t # vs) \<Longrightarrow> v \<in> set (us @ t # vs) \<Longrightarrow>
               pt_event_handle u = pt_event_handle v \<Longrightarrow> pt_event_handle u \<noteq> 0 \<Longrightarrow> u = v"
    and sy: "wc_enable_event_sync cf \<or> (\<forall>u \<in> set (us @ t # vs). pt_event_handle u = 0)"
    unfolding tasks_inv_def by blast+
  have ev'': "ev' = {h. h \<noteq> 0 \<and> (\<exists>u \<in> set (us @ vs). pt_event_handle u = h)}"
  proof (cases "wc_enable_event_sync cf \<and> pt_event_handle t \<noteq> 0")
    case True
    have "pt_event_handle u \<noteq> pt_event_handle t" if "u \<in> set (us @ vs)" for u
      using un [of u t] that t True by auto
    with True ev show ?thesis unfolding ev' by auto
  next
    case False
    with sy have "pt_event_handle t = 0" by auto
    with ev show ?thesis unfolding ev' by auto
  qed
  have un': "\<forall>u \<in> set (us @ vs). \<forall>v \<in> set (us @ vs).
      pt_event_handle u = pt_event_handle v \<and> pt_event_handle u \<noteq> 0 \<longrightarrow> u = v"
    using un by simp
  have sy': "wc_enable_event_sync cf \<or> (\<forall>u \<in> set (us @ vs). pt_event_handle u = 0)"
    using sy by auto
  have c'': "\<forall>(k, st, c) \<in> set (rc_dump_contexts m').
      \<exists>u \<in> set (us @ vs). pt_task u = k \<and> dict_keys c \<subseteq> pt_request_ids u"
    using c' by blast
  show ?thesis
    unfolding tasks_inv_def
    using d' keys' c'' ev'' un' sy' by (intro conjI)
qed

lemma wait_pending_frame:
  assumes "wait_pending_dump_task cf t s = (r, s')"
  shows "wk_pending s' = wk_pending s" and "wk_invalid_block_ids s' = wk_invalid_block_ids s"
    and "wk_meta s' = wk_meta s" and "wk_async_dump_req_ids s' = wk_async_dump_req_ids s"
    and "wk_metrics s' = wk_metrics s" and "rc_enabled (wk_rcm s') = rc_enabled (wk_rcm s)"
proof -
  obtain rcm' w' where w: "wait_dump (wk_rcm s) (wk_world s) (pt_task t) = (r, rcm', w')"
    and s': "s' = release_dump_event_handle cf t (s\<lparr>wk_rcm := rcm', wk_world := w'\<rparr>)"
    using assms by (auto simp: wait_pending_dump_task_def split: prod.splits)
  show "wk_pending s' = wk_pending s" and "wk_invalid_block_ids s' = wk_invalid_block_ids s"
    and "wk_meta s' = wk_meta s" and "wk_async_dump_req_ids s' = wk_async_dump_req_ids s"
    and "wk_metrics s' = wk_metrics s" and "rc_enabled (wk_rcm s') = rc_enabled (wk_rcm s)"
    using wait_dump_frame(4) [OF w] by (simp_all add: s' release_dump_event_handle_def)
qed

lemma wait_pending_inv:
  assumes "tasks_inv cf (us @ t # vs) (wk_rcm s) (wk_events s)"
    and "wait_pending_dump_task cf t s = (r, s')"
  shows "tasks_inv cf (us @ vs) (wk_rcm s') (wk_events s')"
proof -
  obtain rcm' w' where w: "wait_dump (wk_rcm s) (wk_world s) (pt_task t) = (r, rcm', w')"
    and s': "s' = release_dump_event_handle cf t (s\<lparr>wk_rcm := rcm', wk_world := w'\<rparr>)"
    using assms(2) by (auto simp: wait_pending_dump_task_def split: prod.splits)
  from wait_dump_contexts [OF w]
  have "rc_dump_contexts (wk_rcm s') = dict_pop (pt_task t) (rc_dump_contexts (wk_rcm s))"
    by (simp add: s' release_dump_event_handle_def)
  moreover have "wk_events s' = (if wc_enable_event_sync cf \<and> pt_event_handle t \<noteq> 0
      then wk_events s - {pt_event_handle t} else wk_events s)"
    by (simp add: s' release_dump_event_handle_def destroy_event_handle_def)
  ultimately show ?thesis by (rule tasks_inv_remove [OF assms(1)])
qed

lemma drain_loop_inv:
  "tasks_inv cf (us @ ts) (wk_rcm s) (wk_events s) \<Longrightarrow> drain_loop cf sel ts s = (rem, s') \<Longrightarrow>
     tasks_inv cf (us @ rem) (wk_rcm s') (wk_events s') \<and> rem = filter (\<lambda>t. \<not> sel t) ts
     \<and> wk_pending s' = wk_pending s \<and> wk_invalid_block_ids s' = wk_invalid_block_ids s
     \<and> wk_meta s' = wk_meta s \<and> wk_async_dump_req_ids s' = wk_async_dump_req_ids s"
proof (induction ts arbitrary: us s rem)
  case Nil
  then show ?case by simp
next
  case (Cons t ts)
  show ?case
  proof (cases "sel t")
    case True
    obtain r s1 where w: "wait_pending_dump_task cf t s = (r, s1)" by (cases "wait_pending_dump_task cf t s")
    from Cons.prems True w have d: "drain_loop cf sel ts s1 = (rem, s')" by simp
    have "filter (\<lambda>t. \<not> sel t) (t # ts) = filter (\<lambda>t. \<not> sel t) ts" using True by simp
    with Cons.IH [OF wait_pending_inv [OF Cons.prems(1) w] d] wait_pending_frame [OF w]
    show ?thesis by (metis (no_types))
  next
    case False
    with Cons.prems obtain rem' where d: "drain_loop cf sel ts s = (rem', s')" "rem = t # rem'"
      by (auto split: prod.splits)
    from Cons.IH [of "us @ [t]" s rem'] Cons.prems(1) d False show ?thesis by auto
  qed
qed

lemma poll_loop_inv:
  "tasks_inv cf (us @ ts) (wk_rcm s) (wk_events s) \<Longrightarrow> poll_loop cf ts s = (rem, s') \<Longrightarrow>
     tasks_inv cf (us @ rem) (wk_rcm s') (wk_events s') \<and> subseq rem ts
     \<and> wk_pending s' = wk_pending s \<and> wk_invalid_block_ids s' = wk_invalid_block_ids s
     \<and> wk_meta s' = wk_meta s \<and> wk_async_dump_req_ids s' = wk_async_dump_req_ids s"
proof (induction ts arbitrary: us s rem)
  case Nil
  then show ?case by simp
next
  case (Cons t ts)
  obtain c w' where c: "st_check (wc_store cf) (wk_world s) (pt_task t) = (c, w')"
    by (cases "st_check (wc_store cf) (wk_world s) (pt_task t)")
  let ?s = "s\<lparr>wk_world := w'\<rparr>"
  show ?case
  proof (cases "c = Inr True")
    case True
    obtain r s1 where w: "wait_pending_dump_task cf t ?s = (r, s1)" by (cases "wait_pending_dump_task cf t ?s")
    from Cons.prems(2) True w c have d: "poll_loop cf ts s1 = (rem, s')" by simp
    from Cons.prems(1) have i: "tasks_inv cf (us @ t # ts) (wk_rcm ?s) (wk_events ?s)" by simp
    from Cons.IH [OF wait_pending_inv [OF i w] d] wait_pending_frame [OF w] show ?thesis
      by (auto intro: subseq_Cons')
  next
    case False
    with Cons.prems c obtain rem' where d: "poll_loop cf ts ?s = (rem', s')" "rem = t # rem'"
      by (auto split: prod.splits sum.splits bool.splits)
    from Cons.IH [of "us @ [t]" ?s rem'] Cons.prems(1) d show ?thesis by simp
  qed
qed

lemma poll_inv:
  assumes "worker_inv cf s"
  shows "worker_inv cf (poll_pending_dump_tasks cf s)"
    and "subseq (wk_pending (poll_pending_dump_tasks cf s)) (wk_pending s)"
    and "wk_async_dump_req_ids (poll_pending_dump_tasks cf s) = wk_async_dump_req_ids s"
proof -
  obtain rem s' where p: "poll_loop cf (wk_pending s) s = (rem, s')"
    by (cases "poll_loop cf (wk_pending s) s")
  from assms have "tasks_inv cf ([] @ wk_pending s) (wk_rcm s) (wk_events s)"
    by (simp add: worker_inv_def)
  from poll_loop_inv [OF this p] p
  show "worker_inv cf (poll_pending_dump_tasks cf s)"
    and "subseq (wk_pending (poll_pending_dump_tasks cf s)) (wk_pending s)"
    and "wk_async_dump_req_ids (poll_pending_dump_tasks cf s) = wk_async_dump_req_ids s"
    by (simp_all add: worker_inv_def poll_pending_dump_tasks_def)
qed

lemma pending_requests_filed:
  assumes "tasks_inv cf ts m ev" and "r \<in> pending_dump_requests m"
  shows "\<exists>t \<in> set ts. r \<in> pt_request_ids t"
proof -
  from assms(2) obtain k st c where "(k, st, c) \<in> set (rc_dump_contexts m)" "r \<in> dict_keys c"
    unfolding pending_dump_requests_def by (elim UN_E imageE) (simp add: split_beta, metis prod.collapse)
  from tasks_inv_context [OF assms(1) this(1)] this(2) show ?thesis by blast
qed

lemma tasks_inv_contexts:
  "rc_dump_contexts m' = rc_dump_contexts m \<Longrightarrow> tasks_inv cf ts m' ev = tasks_inv cf ts m ev"
  by (simp add: tasks_inv_def)

lemma finish_dump_frame:
  assumes "finish_dump m rs = (r, m')"
  shows "rc_dump_contexts m' = rc_dump_contexts m" and "rc_enabled m' = rc_enabled m"
  using assms by (auto simp: finish_dump_def finish_dump_loop_frame split: if_splits)

text \<open>
  Asking for finished requests: the tasks of every asynchronously dumping request that
  finished are gone afterwards, so the manager's guard cannot raise.
\<close>

definition async_finished :: "req_id list \<Rightarrow> 'w worker \<Rightarrow> req_id list" where
  "async_finished rs s = filter (\<lambda>r. r \<in> wk_async_dump_req_ids s) rs"

lemma filter_no_request: "filter (\<lambda>t. \<not> (pt_request_ids t \<inter> {} \<noteq> {})) ts = ts"
  by simp

lemma get_finished_drained:
  assumes "worker_inv cf s"
  shows "\<exists>s1. worker_inv cf s1
    \<and> wk_pending s1 = filter (\<lambda>t. \<not> (pt_request_ids t \<inter> set (async_finished rs s) \<noteq> {})) (wk_pending s)
    \<and> wk_async_dump_req_ids s1 = wk_async_dump_req_ids s
    \<and> get_finished cf rs s =
        (case finish_dump (wk_rcm s1) (async_finished rs s) of
           (Inl e, rcm') \<Rightarrow> (Inl e, s1\<lparr>wk_rcm := rcm'\<rparr>)
         | (Inr _, rcm') \<Rightarrow>
             (Inr (if async_finished rs s = [] then None else Some (set (async_finished rs s))),
              s1\<lparr>wk_rcm := rcm',
                 wk_async_dump_req_ids := wk_async_dump_req_ids s1 - set (async_finished rs s)\<rparr>))"
proof (cases "async_finished rs s = []")
  case True
  then show ?thesis
    unfolding True
    by (intro exI [of _ s]) (use assms True in \<open>simp add: get_finished_def async_finished_def [symmetric]\<close>)
next
  case False
  let ?sel = "\<lambda>t. pt_request_ids t \<inter> set (async_finished rs s) \<noteq> {}"
  obtain rem s' where d: "drain_loop cf ?sel (wk_pending s) s = (rem, s')"
    by (cases "drain_loop cf ?sel (wk_pending s) s")
  from assms have "tasks_inv cf ([] @ wk_pending s) (wk_rcm s) (wk_events s)"
    by (simp add: worker_inv_def)
  note inv0 = drain_loop_inv [OF this d, unfolded append_Nil]
  have inv: "tasks_inv cf rem (wk_rcm s') (wk_events s')" by (rule inv0 [THEN conjunct1])
  have rem: "rem = filter (\<lambda>t. \<not> ?sel t) (wk_pending s)" by (rule inv0 [THEN conjunct2, THEN conjunct1])
  have async: "wk_async_dump_req_ids s' = wk_async_dump_req_ids s" using inv0 by blast
  let ?s1 = "s'\<lparr>wk_pending := rem\<rparr>"
  have "worker_inv cf ?s1" using inv by (simp add: worker_inv_def)
  moreover have "wk_pending ?s1 = filter (\<lambda>t. \<not> ?sel t) (wk_pending s)" by (simp only: rem) simp
  moreover have "wk_async_dump_req_ids ?s1 = wk_async_dump_req_ids s" using async by simp
  moreover have "get_finished cf rs s =
        (case finish_dump (wk_rcm ?s1) (async_finished rs s) of
           (Inl e, rcm') \<Rightarrow> (Inl e, ?s1\<lparr>wk_rcm := rcm'\<rparr>)
         | (Inr _, rcm') \<Rightarrow>
             (Inr (if async_finished rs s = [] then None else Some (set (async_finished rs s))),
              ?s1\<lparr>wk_rcm := rcm',
                 wk_async_dump_req_ids := wk_async_dump_req_ids ?s1 - set (async_finished rs s)\<rparr>))"
    by (simp only: get_finished_def async_finished_def [symmetric] Let_def d False if_False prod.case)
  ultimately show ?thesis by blast
qed

lemma finished_not_pending:
  assumes "worker_inv cf s" and "\<forall>t \<in> set (wk_pending s). pt_request_ids t \<inter> set rs = {}"
  shows "set rs \<inter> pending_dump_requests (wk_rcm s) = {}"
proof -
  from assms(1) have "tasks_inv cf (wk_pending s) (wk_rcm s) (wk_events s)"
    by (simp add: worker_inv_def)
  with assms(2) show ?thesis by (blast dest: pending_requests_filed)
qed

lemma get_finished_result:
  assumes "worker_inv cf s" and "get_finished cf rs s = (r, s')"
  shows "r = Inr (if async_finished rs s = [] then None else Some (set (async_finished rs s)))"
    and "wk_pending s' = filter (\<lambda>t. pt_request_ids t \<inter> set (async_finished rs s) = {}) (wk_pending s)"
    and "wk_async_dump_req_ids s' = wk_async_dump_req_ids s - set rs"
    and "worker_inv cf s'"
proof -
  obtain s1 where s1: "worker_inv cf s1"
      "wk_pending s1 = filter (\<lambda>t. \<not> (pt_request_ids t \<inter> set (async_finished rs s) \<noteq> {})) (wk_pending s)"
      "wk_async_dump_req_ids s1 = wk_async_dump_req_ids s"
    and g: "get_finished cf rs s =
        (case finish_dump (wk_rcm s1) (async_finished rs s) of
           (Inl e, rcm') \<Rightarrow> (Inl e, s1\<lparr>wk_rcm := rcm'\<rparr>)
         | (Inr _, rcm') \<Rightarrow>
             (Inr (if async_finished rs s = [] then None else Some (set (async_finished rs s))),
              s1\<lparr>wk_rcm := rcm',
                 wk_async_dump_req_ids := wk_async_dump_req_ids s1 - set (async_finished rs s)\<rparr>))"
    using get_finished_drained [OF assms(1)] by blast
  have "set (async_finished rs s) \<inter> pending_dump_requests (wk_rcm s1) = {}"
    by (rule finished_not_pending [OF s1(1)]) (simp add: s1(2))
  then obtain rcm' where f: "finish_dump (wk_rcm s1) (async_finished rs s) = (Inr (), rcm')"
    by (cases "rc_enabled (wk_rcm s1)") (simp_all add: finish_dump_def)
  have sets: "wk_async_dump_req_ids s - set (async_finished rs s) = wk_async_dump_req_ids s - set rs"
    by (auto simp: async_finished_def)
  from g f assms(2) s1 sets
  show "r = Inr (if async_finished rs s = [] then None else Some (set (async_finished rs s)))"
    and "wk_pending s' = filter (\<lambda>t. pt_request_ids t \<inter> set (async_finished rs s) = {}) (wk_pending s)"
    and "wk_async_dump_req_ids s' = wk_async_dump_req_ids s - set rs"
    by auto
  from g f assms(2) s1 have s': "wk_pending s' = wk_pending s1" "wk_rcm s' = rcm'" "wk_events s' = wk_events s1"
    by auto
  show "worker_inv cf s'"
    using s1(1) s' tasks_inv_contexts [OF finish_dump_frame(1) [OF f]] by (simp add: worker_inv_def)
qed

section \<open>Submitting a dump\<close>

text \<open>
  Adding a task: the store must hand out a task object that is not outstanding, and the
  device an event handle that is not live, as objects still referenced cannot be reused.
\<close>

lemma tasks_inv_add:
  assumes inv: "tasks_inv cf ts m ev" and fresh: "task \<notin> pt_task ` set ts"
    and ctx: "rc_dump_contexts m' = dict_set task (st, c) (rc_dump_contexts m)"
    and keys: "dict_keys c \<subseteq> rs"
    and ev: "h = 0 \<and> ev' = ev \<or> wc_enable_event_sync cf \<and> h \<notin> ev \<and> h \<noteq> 0 \<and> ev' = insert h ev"
  shows "tasks_inv cf (ts @ [\<lparr>pt_task = task, pt_request_ids = rs, pt_event_handle = h\<rparr>]) m' ev'"
proof -
  let ?t = "\<lparr>pt_task = task, pt_request_ids = rs, pt_event_handle = h\<rparr>"
  from inv have d: "distinct (map pt_task ts)" and k: "dict_keys (rc_dump_contexts m) = pt_task ` set ts"
    and e: "ev = {h. h \<noteq> 0 \<and> (\<exists>t \<in> set ts. pt_event_handle t = h)}"
    and u: "\<forall>t \<in> set ts. \<forall>u \<in> set ts. pt_event_handle t = pt_event_handle u \<and> pt_event_handle t \<noteq> 0 \<longrightarrow> t = u"
    and sy: "wc_enable_event_sync cf \<or> (\<forall>t \<in> set ts. pt_event_handle t = 0)"
    by (simp_all add: tasks_inv_def)
  have hs: "pt_event_handle t \<noteq> h" if "t \<in> set ts" "h \<noteq> 0" for t
    using ev e that by auto
  have "\<exists>t \<in> set (ts @ [?t]). pt_task t = k \<and> dict_keys c' \<subseteq> pt_request_ids t"
    if "(k, st', c') \<in> set (rc_dump_contexts m')" for k st' c'
    using dict_in_set_update [OF that [unfolded ctx]] tasks_inv_context [OF inv, of k st' c'] keys by auto
  then have c1: "\<forall>(k, st', c') \<in> set (rc_dump_contexts m').
      \<exists>t \<in> set (ts @ [?t]). pt_task t = k \<and> dict_keys c' \<subseteq> pt_request_ids t"
    by blast
  have d1: "distinct (map pt_task (ts @ [?t]))" using d fresh by auto
  have k1: "dict_keys (rc_dump_contexts m') = pt_task ` set (ts @ [?t])"
    by (simp only: ctx dict_keys_set k) simp
  have e1: "ev' = {h. h \<noteq> 0 \<and> (\<exists>t \<in> set (ts @ [?t]). pt_event_handle t = h)}"
    using ev e by auto
  have u1: "\<forall>t \<in> set (ts @ [?t]). \<forall>u \<in> set (ts @ [?t]).
      pt_event_handle t = pt_event_handle u \<and> pt_event_handle t \<noteq> 0 \<longrightarrow> t = u"
    using u hs by auto
  have s1: "wc_enable_event_sync cf \<or> (\<forall>t \<in> set (ts @ [?t]). pt_event_handle t = 0)"
    using sy ev by auto
  show ?thesis unfolding tasks_inv_def by (intro conjI d1 k1 c1 e1 u1 s1)
qed

section \<open>The worker over time\<close>

text \<open>
  What the store and the device promise of the handles they give out: one that is in use is
  not given out again, and a recorded event is not a null pointer. \<open>clock\<close> is a ghost reading of the world that bounds the handles
  given out so far.
\<close>

definition fresh_handles :: "('w \<Rightarrow> nat) \<Rightarrow> 'w worker_cfg \<Rightarrow> bool" where
  "fresh_handles clock cf \<longleftrightarrow>
     (\<forall>w ids shards ptrs. clock w \<le> clock (snd (st_load_data (wc_store cf) w ids shards ptrs)))
     \<and> (\<forall>w ids shards ptrs ev. case st_dump_data (wc_store cf) w ids shards ptrs ev of
            (Inl e, w') \<Rightarrow> clock w \<le> clock w'
          | (Inr task, w') \<Rightarrow> clock w \<le> task \<and> task < clock w')
     \<and> (\<forall>w. case dv_new_event (wc_device cf) w of
            (None, w') \<Rightarrow> clock w \<le> clock w'
          | (Some h, w') \<Rightarrow> 0 < h \<and> clock w \<le> h \<and> h < clock w')
     \<and> (\<forall>w. clock w \<le> clock (dv_sync (wc_device cf) w))"

text \<open>Waiting and checking do not turn the clock back.\<close>

definition waits_forward :: "('w \<Rightarrow> nat) \<Rightarrow> 'w kv_store \<Rightarrow> bool" where
  "waits_forward clock store \<longleftrightarrow>
     (\<forall>w task. clock w \<le> clock (snd (st_wait store w task)))
     \<and> (\<forall>w task. clock w \<le> clock (snd (st_check store w task)))"

text \<open>Every context belongs to the connector's one store.\<close>

definition stores_ok :: "'w worker_cfg \<Rightarrow> 'w rcm \<Rightarrow> bool" where
  "stores_ok cf m \<longleftrightarrow>
     (\<forall>(k, store, c) \<in> set (rc_dump_contexts m). store = wc_store cf)
     \<and> (\<forall>(k, store, c) \<in> set (rc_load_contexts m). store = wc_store cf)"

definition clocked ::
  "('w \<Rightarrow> nat) \<Rightarrow> 'w worker_cfg \<Rightarrow> pending_dump_task list \<Rightarrow> 'w rcm \<Rightarrow> events \<Rightarrow> 'w \<Rightarrow> bool" where
  "clocked clock cf ts m ev w \<longleftrightarrow>
     (\<forall>t \<in> set ts. pt_task t < clock w) \<and> (\<forall>h \<in> ev. h < clock w) \<and> stores_ok cf m"

lemma clocked_mono:
  assumes "clocked clock cf ts m ev w" and "set ts' \<subseteq> set ts" and "ev' \<subseteq> ev"
    and "clock w \<le> clock w'" and "stores_ok cf m'"
  shows "clocked clock cf ts' m' ev' w'"
  using assms by (auto simp: clocked_def intro: less_le_trans)

lemma stores_ok_dump:
  assumes "stores_ok cf m" and "dict_get (rc_dump_contexts m) task = Some (store, c)"
  shows "store = wc_store cf"
proof -
  have "(task, store, c) \<in> set (rc_dump_contexts m)" using assms(2) by (rule map_of_SomeD)
  with assms(1) show ?thesis unfolding stores_ok_def by fastforce
qed

lemma stores_ok_load:
  assumes "stores_ok cf m" and "dict_get (rc_load_contexts m) task = Some (store, c)"
  shows "store = wc_store cf"
proof -
  have "(task, store, c) \<in> set (rc_load_contexts m)" using assms(2) by (rule map_of_SomeD)
  with assms(1) show ?thesis unfolding stores_ok_def by fastforce
qed

lemma stores_ok_sub:
  assumes "stores_ok cf m"
    and "set (rc_dump_contexts m') \<subseteq> insert (k, wc_store cf, c) (set (rc_dump_contexts m))"
    and "set (rc_load_contexts m') \<subseteq> insert (k', wc_store cf, c') (set (rc_load_contexts m))"
  shows "stores_ok cf m'"
  using assms unfolding stores_ok_def by fastforce

lemma dict_pop_subset: "set (dict_pop k d) \<subseteq> set d"
  by (auto simp: AList.delete_eq)

lemma dict_set_subset: "set (dict_set k v d) \<subseteq> insert (k, v) (set d)"
  by (auto dest: dict_in_set_update)

lemma wait_dump_forward:
  assumes "wait_dump m w task = (r, m', w')" and "stores_ok cf m" and "waits_forward clock (wc_store cf)"
  shows "clock w \<le> clock w'" and "stores_ok cf m'"
proof -
  show "clock w \<le> clock w'"
  proof (cases "dict_get (rc_dump_contexts m) task")
    case None
    with assms(1) show ?thesis by (simp add: wait_dump_def)
  next
    case (Some p)
    then obtain c where "dict_get (rc_dump_contexts m) task = Some (wc_store cf, c)"
      using stores_ok_dump [OF assms(2)] by (cases p) auto
    with assms(1) have "w' = snd (st_wait (wc_store cf) w task)"
      by (cases "st_wait (wc_store cf) w task") (auto simp: wait_dump_def Let_def split: sum.splits)
    with assms(3) show ?thesis by (simp add: waits_forward_def)
  qed
  show "stores_ok cf m'"
    using wait_dump_contexts [OF assms(1)] wait_dump_frame(1) [OF assms(1)]
      dict_pop_subset [of task "rc_dump_contexts m"]
    by (intro stores_ok_sub [OF assms(2), where k = 0 and k' = 0]) auto
qed

lemma wait_load_forward:
  assumes "wait_load m w task = (r, m', w')" and "stores_ok cf m" and "waits_forward clock (wc_store cf)"
  shows "clock w \<le> clock w'" and "stores_ok cf m'"
proof -
  show "clock w \<le> clock w'"
  proof (cases "dict_get (rc_load_contexts m) task")
    case None
    with assms(1) show ?thesis by (simp add: wait_load_def)
  next
    case (Some p)
    then obtain c where "dict_get (rc_load_contexts m) task = Some (wc_store cf, c)"
      using stores_ok_load [OF assms(2)] by (cases p) auto
    with assms(1) have "w' = snd (st_wait (wc_store cf) w task)"
      by (cases "st_wait (wc_store cf) w task") (auto simp: wait_load_def Let_def split: sum.splits)
    with assms(3) show ?thesis by (simp add: waits_forward_def)
  qed
  have "set (rc_load_contexts m') \<subseteq> set (rc_load_contexts m)"
    using assms(1) dict_pop_subset [of task "rc_load_contexts m"]
    by (auto simp: wait_load_def Let_def mark_load_context_missing_fields
             split: option.splits prod.splits sum.splits if_splits)
  then show "stores_ok cf m'"
    using wait_load_frame(3) [OF assms(1)]
    by (intro stores_ok_sub [OF assms(2), where k = 0 and k' = 0]) auto
qed

lemma submit_load_forward:
  assumes "submit_load m (wc_store cf) w ctx ids shards ptrs = (r, m', w')" and "stores_ok cf m"
    and "fresh_handles clock cf"
  shows "clock w \<le> clock w'" and "stores_ok cf m'"
proof -
  obtain q v where l: "st_load_data (wc_store cf) w ids shards ptrs = (q, v)"
    by (cases "st_load_data (wc_store cf) w ids shards ptrs")
  from assms(1) l have "w' = v" by (cases q) (auto simp: submit_load_def Let_def)
  moreover from assms(3) have "clock w \<le> clock (snd (st_load_data (wc_store cf) w ids shards ptrs))"
    unfolding fresh_handles_def by blast
  ultimately show "clock w \<le> clock w'" using l by simp
  have "\<exists>k c. set (rc_load_contexts m') \<subseteq> insert (k, wc_store cf, c) (set (rc_load_contexts m))"
  proof (cases q)
    case (Inl e)
    with assms(1) l have "rc_load_contexts m' = rc_load_contexts m"
      by (auto simp: submit_load_def Let_def mark_load_context_missing_fields split: if_splits)
    then show ?thesis by auto
  next
    case (Inr task)
    with assms(1) l have "rc_load_contexts m'
        = dict_set task (wc_store cf, if rc_enabled m then ctx else []) (rc_load_contexts m)"
      by (auto simp: submit_load_def Let_def)
    then show ?thesis
      using dict_set_subset [of task "(wc_store cf, if rc_enabled m then ctx else [])" "rc_load_contexts m"]
      by metis
  qed
  then obtain k c where "set (rc_load_contexts m') \<subseteq> insert (k, wc_store cf, c) (set (rc_load_contexts m))"
    by blast
  then show "stores_ok cf m'"
    using submit_load_frame(3) [OF assms(1)]
    by (intro stores_ok_sub [OF assms(2), where k = 0 and k' = k and c' = c]) auto
qed

lemma wait_pending_forward:
  assumes "wait_pending_dump_task cf t s = (r, s')" and "stores_ok cf (wk_rcm s)"
    and "waits_forward clock (wc_store cf)"
  shows "clock (wk_world s) \<le> clock (wk_world s') \<and> stores_ok cf (wk_rcm s') \<and> wk_events s' \<subseteq> wk_events s"
proof -
  obtain rcm' w' where w: "wait_dump (wk_rcm s) (wk_world s) (pt_task t) = (r, rcm', w')"
    and s': "s' = release_dump_event_handle cf t (s\<lparr>wk_rcm := rcm', wk_world := w'\<rparr>)"
    using assms(1) by (auto simp: wait_pending_dump_task_def split: prod.splits)
  from wait_dump_forward [OF w assms(2,3)] show ?thesis
    by (auto simp: s' release_dump_event_handle_def destroy_event_handle_def)
qed

lemma drain_loop_forward:
  "drain_loop cf sel ts s = (rem, s') \<Longrightarrow> stores_ok cf (wk_rcm s) \<Longrightarrow> waits_forward clock (wc_store cf) \<Longrightarrow>
     clock (wk_world s) \<le> clock (wk_world s') \<and> stores_ok cf (wk_rcm s') \<and> wk_events s' \<subseteq> wk_events s"
proof (induction ts arbitrary: s rem)
  case Nil
  then show ?case by simp
next
  case (Cons t ts)
  show ?case
  proof (cases "sel t")
    case True
    obtain r s1 where w: "wait_pending_dump_task cf t s = (r, s1)" by (cases "wait_pending_dump_task cf t s")
    from Cons.prems(1) True w have d: "drain_loop cf sel ts s1 = (rem, s')" by simp
    note f = wait_pending_forward [OF w Cons.prems(2,3)]
    with Cons.IH [OF d _ Cons.prems(3)] show ?thesis by (meson order_trans)
  next
    case False
    with Cons.prems obtain rem' where "drain_loop cf sel ts s = (rem', s')"
      by (auto split: prod.splits)
    from Cons.IH [OF this Cons.prems(2,3)] show ?thesis .
  qed
qed

lemma poll_loop_forward:
  "poll_loop cf ts s = (rem, s') \<Longrightarrow> stores_ok cf (wk_rcm s) \<Longrightarrow> waits_forward clock (wc_store cf) \<Longrightarrow>
     clock (wk_world s) \<le> clock (wk_world s') \<and> stores_ok cf (wk_rcm s') \<and> wk_events s' \<subseteq> wk_events s"
proof (induction ts arbitrary: s rem)
  case Nil
  then show ?case by simp
next
  case (Cons t ts)
  obtain c w' where c: "st_check (wc_store cf) (wk_world s) (pt_task t) = (c, w')"
    by (cases "st_check (wc_store cf) (wk_world s) (pt_task t)")
  let ?s = "s\<lparr>wk_world := w'\<rparr>"
  from Cons.prems(3) have "clock (wk_world s) \<le> clock (snd (st_check (wc_store cf) (wk_world s) (pt_task t)))"
    unfolding waits_forward_def by blast
  with c have up: "clock (wk_world s) \<le> clock (wk_world ?s)" by simp
  from Cons.prems(2) have ok: "stores_ok cf (wk_rcm ?s)" by simp
  show ?case
  proof (cases "c = Inr True")
    case True
    obtain r s1 where w: "wait_pending_dump_task cf t ?s = (r, s1)" by (cases "wait_pending_dump_task cf t ?s")
    from Cons.prems(1) True w c have d: "poll_loop cf ts s1 = (rem, s')" by simp
    note f = wait_pending_forward [OF w ok Cons.prems(3)]
    with Cons.IH [OF d _ Cons.prems(3)] up show ?thesis by auto
  next
    case False
    with Cons.prems c obtain rem' where d: "poll_loop cf ts ?s = (rem', s')"
      by (auto split: prod.splits sum.splits bool.splits)
    from Cons.IH [OF d ok Cons.prems(3)] up show ?thesis by auto
  qed
qed

text \<open>Loading leaves the pending dumps, their contexts and the events alone.\<close>

definition loads_only :: "('w \<Rightarrow> nat) \<Rightarrow> 'w worker_cfg \<Rightarrow> 'w worker \<Rightarrow> 'w worker \<Rightarrow> bool" where
  "loads_only clock cf s s' \<longleftrightarrow>
     wk_pending s' = wk_pending s \<and> rc_dump_contexts (wk_rcm s') = rc_dump_contexts (wk_rcm s)
     \<and> wk_events s' = wk_events s \<and> wk_async_dump_req_ids s' = wk_async_dump_req_ids s
     \<and> (stores_ok cf (wk_rcm s) \<longrightarrow> stores_ok cf (wk_rcm s') \<and> clock (wk_world s) \<le> clock (wk_world s'))"

lemma loads_only_refl [simp]: "loads_only clock cf s s"
  by (simp add: loads_only_def)

lemma loads_only_trans: "loads_only clock cf s s1 \<Longrightarrow> loads_only clock cf s1 s2 \<Longrightarrow> loads_only clock cf s s2"
  by (auto simp: loads_only_def)

lemma load_failed_loads_only [simp]: "loads_only clock cf s (load_failed mt r rq s1) = loads_only clock cf s s1"
  by (simp add: loads_only_def load_failed_def record_load_error_def worker_stats_def Let_def)

lemma worker_stats_loads_only [simp]: "loads_only clock cf s (worker_stats ms s1) = loads_only clock cf s s1"
  by (simp add: loads_only_def worker_stats_def)

lemma submit_request_load_only:
  assumes "submit_request_load cf r us vs s = (q, s')" and "fresh_handles clock cf"
  shows "loads_only clock cf s s'"
proof (cases "wc_extract_block_addrs cf vs")
  case (Inl e)
  with assms(1) show ?thesis by (simp add: submit_request_load_def)
next
  case (Inr ptrs)
  with assms(1) obtain rcm' w' where
    l: "submit_load (wk_rcm s) (wc_store cf) (wk_world s) [(r, us)]
          (rank_scoped_ids (wc_hasher cf) (wc_tp_rank cf = 0 \<or> wc_is_mla cf) us)
          (replicate (length us) 0) ptrs = (q, rcm', w')"
    and s': "s' = s\<lparr>wk_rcm := rcm', wk_world := w'\<rparr>"
    by (auto simp: submit_request_load_def split: prod.splits)
  from submit_load_forward [OF l _ assms(2)] submit_load_frame(3) [OF l] show ?thesis
    by (auto simp: loads_only_def s')
qed

lemma submit_loads_only:
  assumes "fresh_handles clock cf"
  shows "loads_only clock cf s (fst (submit_loads cf metas (s, a)))"
proof (induction metas arbitrary: s a)
  case Nil
  then show ?case by simp
next
  case (Cons p metas)
  obtain r rq where p: "p = (r, rq)" by (cases p)
  obtain us vs where e: "effective_blocks (wc_skip_null_vllm_blocks cf) (dm_load rq) = (us, vs)"
    by (cases "effective_blocks (wc_skip_null_vllm_blocks cf) (dm_load rq)")
  obtain q s1 where q: "submit_request_load cf r us vs s = (q, s1)"
    by (cases "submit_request_load cf r us vs s")
  note first = submit_request_load_only [OF q assms]
  have step: "loads_only clock cf s (fst (submit_loads cf metas (s2, b)))" if "loads_only clock cf s s2" for s2 b
    by (rule loads_only_trans [OF that Cons.IH])
  show ?case
    by (cases q) (simp_all add: p e q Let_def step first)
qed

lemma wait_loads_only:
  assumes "waits_forward clock (wc_store cf)"
  shows "loads_only clock cf s (fst (wait_loads metas tasks (s, a)))"
proof (induction tasks arbitrary: s a)
  case Nil
  then show ?case by simp
next
  case (Cons p tasks)
  obtain r task where p: "p = (r, task)" by (cases p)
  obtain q rcm' w' where w: "wait_load (wk_rcm s) (wk_world s) task = (q, rcm', w')"
    by (cases "wait_load (wk_rcm s) (wk_world s) task")
  let ?s = "s\<lparr>wk_rcm := rcm', wk_world := w'\<rparr>"
  from wait_load_forward [OF w _ assms] wait_load_frame(3) [OF w]
  have first: "loads_only clock cf s ?s" by (auto simp: loads_only_def)
  have step: "loads_only clock cf s (fst (wait_loads metas tasks (s2, b)))" if "loads_only clock cf s s2" for s2 b
    by (rule loads_only_trans [OF that Cons.IH])
  show ?case
    by (cases q; cases "dict_get metas r") (simp_all add: p w Let_def step first)
qed

lemma start_load_kv_loads_only:
  assumes "fresh_handles clock cf" and "waits_forward clock (wc_store cf)"
  shows "loads_only clock cf s (start_load_kv cf md s)"
proof -
  let ?a0 = "\<lparr>la_is_load = False, la_tasks = [], la_load_blocks = [], la_num_blocks = 0, la_num_requests = 0\<rparr>"
  obtain s1 a1 where 1: "submit_loads cf (cm_request_meta md) (s, ?a0) = (s1, a1)"
    by (cases "submit_loads cf (cm_request_meta md) (s, ?a0)")
  obtain s2 a2 where 2: "wait_loads (cm_request_meta md) (la_tasks a1) (s1, a1) = (s2, a2)"
    by (cases "wait_loads (cm_request_meta md) (la_tasks a1) (s1, a1)")
  have "loads_only clock cf s s2"
    using loads_only_trans [OF submit_loads_only [OF assms(1), of s "cm_request_meta md" ?a0, unfolded 1 fst_conv]
                               wait_loads_only [OF assms(2), of s1 "cm_request_meta md" "la_tasks a1" a1, unfolded 2 fst_conv]] .
  then show ?thesis by (simp add: start_load_kv_def 1 2)
qed

section \<open>Saving keeps the invariant\<close>

text \<open>The invariant of a worker between vLLM's calls.\<close>

definition worker_ok :: "('w \<Rightarrow> nat) \<Rightarrow> 'w worker_cfg \<Rightarrow> 'w worker \<Rightarrow> bool" where
  "worker_ok clock cf s \<longleftrightarrow>
     worker_inv cf s \<and> clocked clock cf (wk_pending s) (wk_rcm s) (wk_events s) (wk_world s)"

lemma fresh_event:
  "fresh_handles clock cf \<Longrightarrow> case dv_new_event (wc_device cf) w of
      (None, w') \<Rightarrow> clock w \<le> clock w'
    | (Some h, w') \<Rightarrow> 0 < h \<and> clock w \<le> h \<and> h < clock w'"
  unfolding fresh_handles_def by (elim conjE) (erule spec)

lemma fresh_dump:
  "fresh_handles clock cf \<Longrightarrow> case st_dump_data (wc_store cf) w ids shards ptrs ev of
      (Inl e, w') \<Rightarrow> clock w \<le> clock w'
    | (Inr task, w') \<Rightarrow> clock w \<le> task \<and> task < clock w'"
  unfolding fresh_handles_def by (elim conjE) (drule spec, drule spec, drule spec, drule spec, erule spec)

lemma get_dump_event_handle_fresh:
  assumes "get_dump_event_handle (wc_device cf) sync ev w = (h, ev', w')" and "fresh_handles clock cf"
    and "\<forall>e \<in> ev. e < clock w"
  shows "clock w \<le> clock w' \<and> (\<forall>e \<in> ev'. e < clock w')
    \<and> (h = 0 \<and> ev' = ev \<or> sync \<and> h \<notin> ev \<and> h \<noteq> 0 \<and> ev' = insert h ev)"
proof -
  obtain o1 w1 where n: "dv_new_event (wc_device cf) w = (o1, w1)" by (cases "dv_new_event (wc_device cf) w")
  have f: "case (o1, w1) of (None, w') \<Rightarrow> clock w \<le> clock w'
      | (Some h, w') \<Rightarrow> 0 < h \<and> clock w \<le> h \<and> h < clock w'"
    using fresh_event [OF assms(2), of w] by (simp add: n)
  have sy: "clock v \<le> clock (dv_sync (wc_device cf) v)" for v
    using assms(2) unfolding fresh_handles_def by blast
  show ?thesis
  proof (cases sync)
    case False
    with assms(1,3) sy [of w] show ?thesis
      by (auto simp: get_dump_event_handle_def intro: less_le_trans)
  next
    case True
    show ?thesis
    proof (cases o1)
      case None
      with True assms(1,3) n f sy [of w1] show ?thesis
        by (auto simp: get_dump_event_handle_def get_event_handle_def intro: less_le_trans order_trans)
    next
      case (Some k)
      with True assms(1) n f have e: "h = k" "ev' = insert k ev" "w' = w1" "k \<noteq> 0"
        "clock w \<le> k" "k < clock w1"
        by (auto simp: get_dump_event_handle_def get_event_handle_def split: if_splits)
      from assms(3) e(5) have "k \<notin> ev" by (auto dest: leD)
      moreover have "clock w \<le> clock w1" using e by simp
      ultimately show ?thesis using True e assms(3) by (auto intro: less_le_trans)
    qed
  qed
qed

lemma submit_dump_task_ok:
  assumes ok: "worker_ok clock cf s" and fresh: "fresh_handles clock cf" and keys: "dict_keys c \<subseteq> reqs"
  shows "worker_ok clock cf (snd (submit_dump_task cf reqs c ids shards ptrs s))"
proof -
  obtain h ev w where g: "get_dump_event_handle (wc_device cf) (wc_enable_event_sync cf) (wk_events s) (wk_world s)
      = (h, ev, w)" by (metis prod_cases3)
  let ?c' = "if rc_enabled (wk_rcm s) then c else []"
  obtain q m' w' where d: "submit_dump (wk_rcm s) (wc_store cf) w c ids shards ptrs h
      = (q, m', w')" by (metis prod_cases3)
  from ok have inv: "tasks_inv cf (wk_pending s) (wk_rcm s) (wk_events s)"
    and pend: "\<forall>t \<in> set (wk_pending s). pt_task t < clock (wk_world s)"
    and evs: "\<forall>e \<in> wk_events s. e < clock (wk_world s)" and st: "stores_ok cf (wk_rcm s)"
    by (simp_all add: worker_ok_def worker_inv_def clocked_def)
  note ge = get_dump_event_handle_fresh [OF g fresh evs]
  obtain q1 w1 where dd: "st_dump_data (wc_store cf) w ids shards ptrs h = (q1, w1)"
    by (cases "st_dump_data (wc_store cf) w ids shards ptrs h")
  have f: "case (q1, w1) of (Inl e, w') \<Rightarrow> clock w \<le> clock w'
      | (Inr task, w') \<Rightarrow> clock w \<le> task \<and> task < clock w'"
    using fresh_dump [OF fresh, of w ids shards ptrs h] by (simp add: dd)
  show ?thesis
  proof (cases q1)
    case (Inl e)
    with d dd have q: "q = Inl e" "w' = w1" "rc_dump_contexts m' = rc_dump_contexts (wk_rcm s)"
      and l: "rc_load_contexts m' = rc_load_contexts (wk_rcm s)"
      by (auto simp: submit_dump_def Let_def)
    let ?ev = "if wc_enable_event_sync cf \<and> h \<noteq> 0 then destroy_event_handle h ev else ev"
    have ev: "?ev = wk_events s" using ge by (auto simp: destroy_event_handle_def)
    have up: "clock (wk_world s) \<le> clock w1" using ge f Inl by simp
    have "stores_ok cf m'" using st q l by (simp add: stores_ok_def)
    with up pend evs have cl: "clocked clock cf (wk_pending s) m' (wk_events s) w1"
      by (auto simp: clocked_def intro: less_le_trans)
    have t: "tasks_inv cf (wk_pending s) m' (wk_events s)"
      using inv tasks_inv_contexts [OF q(3)] by simp
    have res: "snd (submit_dump_task cf reqs c ids shards ptrs s) = s\<lparr>wk_rcm := m', wk_world := w1, wk_events := ?ev\<rparr>"
      using q by (simp add: submit_dump_task_def g d)
    from cl t show ?thesis unfolding res ev by (simp add: worker_ok_def worker_inv_def)
  next
    case task: (Inr task)
    with d dd have q: "q = Inr task" "w' = w1"
      and ctx: "rc_dump_contexts m' = dict_set task (wc_store cf, ?c') (rc_dump_contexts (wk_rcm s))"
      and l: "rc_load_contexts m' = rc_load_contexts (wk_rcm s)"
      by (auto simp: submit_dump_def Let_def)
    let ?t = "\<lparr>pt_task = task, pt_request_ids = reqs, pt_event_handle = h\<rparr>"
    from f task have tw: "clock w \<le> task" "task < clock w1" by simp_all
    have "task \<notin> pt_task ` set (wk_pending s)"
      using pend ge tw by (auto dest: leD)
    moreover have "dict_keys ?c' \<subseteq> reqs"
      using keys by (cases "rc_enabled (wk_rcm s)") simp_all
    ultimately have t: "tasks_inv cf (wk_pending s @ [?t]) m' ev"
      using ge by (intro tasks_inv_add [OF inv _ ctx]) auto
    have "stores_ok cf m'"
      by (rule stores_ok_sub [OF st, where k = task and c = ?c' and k' = 0 and c' = "[]"])
         (use l dict_set_subset [of task "(wc_store cf, ?c')" "rc_dump_contexts (wk_rcm s)"] in \<open>auto simp: ctx\<close>)
    moreover have "\<forall>u \<in> set (wk_pending s @ [?t]). pt_task u < clock w1"
    proof -
      from ge tw have "clock (wk_world s) \<le> clock w1" by simp
      with pend tw(2) show ?thesis by (auto intro: less_le_trans)
    qed
    moreover have "\<forall>e \<in> ev. e < clock w1" using ge tw by (auto intro: less_le_trans)
    ultimately have cl: "clocked clock cf (wk_pending s @ [?t]) m' ev w1" by (simp add: clocked_def)
    show ?thesis
      using t cl q by (simp add: worker_ok_def worker_inv_def submit_dump_task_def g d)
  qed
qed

lemma submit_dump_task_frame:
  "wk_async_dump_req_ids (snd (submit_dump_task cf reqs c ids shards ptrs s)) = wk_async_dump_req_ids s"
  "wk_meta (snd (submit_dump_task cf reqs c ids shards ptrs s)) = wk_meta s"
  "wk_invalid_block_ids (snd (submit_dump_task cf reqs c ids shards ptrs s)) = wk_invalid_block_ids s"
  by (simp_all add: submit_dump_task_def split: prod.split sum.split)

lemma submit_collected_dump_frame:
  "wk_async_dump_req_ids (submit_collected_dump cf a s) = wk_async_dump_req_ids s"
proof (cases "wc_extract_block_addrs cf (da_vllm_block_ids a)")
  case (Inl e)
  then show ?thesis by (simp add: submit_collected_dump_def)
next
  case (Inr ptrs)
  obtain q s' where t: "submit_dump_task cf (da_request_ids a) (da_blocks_by_request a) (da_ucm_block_ids a)
      (replicate (length (da_ucm_block_ids a)) 0) ptrs s = (q, s')" by (metis prod.collapse)
  with submit_dump_task_frame(1) have "wk_async_dump_req_ids s' = wk_async_dump_req_ids s" by (metis snd_conv)
  with Inr t show ?thesis by (simp add: submit_collected_dump_def worker_stats_def split: sum.split)
qed

lemma worker_stats_ok [simp]: "worker_ok clock cf (worker_stats ms s) = worker_ok clock cf s"
  by (simp add: worker_ok_def worker_inv_def worker_stats_def)

lemma submit_collected_dump_ok:
  assumes ok: "worker_ok clock cf s" and fresh: "fresh_handles clock cf"
    and keys: "dict_keys (da_blocks_by_request a) \<subseteq> da_request_ids a"
  shows "worker_ok clock cf (submit_collected_dump cf a s)"
  using submit_dump_task_ok [OF ok fresh keys, of "da_ucm_block_ids a" "replicate (length (da_ucm_block_ids a)) 0"] ok
  by (auto simp: submit_collected_dump_def split: sum.split prod.split) (metis snd_conv)+

lemma collect_dumps_keys:
  "dict_keys (da_blocks_by_request a) \<subseteq> da_request_ids a \<Longrightarrow>
     dict_keys (da_blocks_by_request (collect_dumps cf metas a)) \<subseteq> da_request_ids (collect_dumps cf metas a)"
proof (induction metas arbitrary: a)
  case Nil
  then show ?case by simp
next
  case (Cons p metas)
  obtain r rq where p: "p = (r, rq)" by (cases p)
  obtain us vs where e: "effective_blocks (wc_skip_null_vllm_blocks cf) (dm_dump rq) = (us, vs)"
    by (cases "effective_blocks (wc_skip_null_vllm_blocks cf) (dm_dump rq)")
  have "dict_keys (dict_set r (set us) (da_blocks_by_request a)) \<subseteq> insert r (da_request_ids a)"
    using Cons.prems by (simp only: dict_keys_set) blast
  with Cons.prems show ?case
    by (simp only: p collect_dumps.simps Let_def e prod.case split: if_split)
       (intro impI conjI Cons.IH, simp_all only: dump_acc.select_convs)
qed

lemma poll_ok:
  assumes "worker_ok clock cf s" and "waits_forward clock (wc_store cf)"
  shows "worker_ok clock cf (poll_pending_dump_tasks cf s)"
proof -
  obtain rem s' where p: "poll_loop cf (wk_pending s) s = (rem, s')"
    by (cases "poll_loop cf (wk_pending s) s")
  from assms(1) have i: "tasks_inv cf ([] @ wk_pending s) (wk_rcm s) (wk_events s)"
    and c: "clocked clock cf (wk_pending s) (wk_rcm s) (wk_events s) (wk_world s)"
    by (simp_all add: worker_ok_def worker_inv_def)
  then have st: "stores_ok cf (wk_rcm s)" by (simp add: clocked_def)
  note f = poll_loop_forward [OF p st assms(2)] and inv = poll_loop_inv [OF i p]
  have "set rem \<subseteq> set (wk_pending s)" using inv by (auto elim: list_emb_set)
  with f c have "clocked clock cf rem (wk_rcm s') (wk_events s') (wk_world s')"
    by (intro clocked_mono [OF c]) auto
  with inv p show ?thesis
    by (simp add: worker_ok_def worker_inv_def poll_pending_dump_tasks_def)
qed

lemma wait_for_save_ok:
  assumes "worker_ok clock cf s" and "waits_forward clock (wc_store cf)" and "fresh_handles clock cf"
  shows "worker_ok clock cf (wait_for_save cf md s)"
    and "wk_async_dump_req_ids (wait_for_save cf md s)
       = wk_async_dump_req_ids s \<union> dump_requests (cm_request_meta md)"
proof -
  let ?p = "poll_pending_dump_tasks cf s"
  let ?s = "?p\<lparr>wk_async_dump_req_ids := wk_async_dump_req_ids ?p \<union> dump_requests (cm_request_meta md)\<rparr>"
  let ?a = "collect_dumps cf (cm_request_meta md) empty_dump_acc"
  from poll_ok [OF assms(1,2)] have ok: "worker_ok clock cf ?s"
    by (simp add: worker_ok_def worker_inv_def)
  have "dict_keys (da_blocks_by_request ?a) \<subseteq> da_request_ids ?a"
    by (rule collect_dumps_keys) (simp add: empty_dump_acc_def)
  from submit_collected_dump_ok [OF ok assms(3) this] ok
  show "worker_ok clock cf (wait_for_save cf md s)" by (simp add: wait_for_save_def Let_def)
  have "wk_async_dump_req_ids (submit_collected_dump cf ?a ?s) = wk_async_dump_req_ids ?s"
    by (rule submit_collected_dump_frame)
  moreover have "worker_inv cf s" using assms(1) by (simp add: worker_ok_def)
  ultimately show "wk_async_dump_req_ids (wait_for_save cf md s)
       = wk_async_dump_req_ids s \<union> dump_requests (cm_request_meta md)"
    by (simp add: wait_for_save_def Let_def poll_inv(3))
qed

lemma drain_ok:
  assumes "worker_ok clock cf s" and "waits_forward clock (wc_store cf)"
    and "drain_loop cf sel (wk_pending s) (s\<lparr>wk_pending := ts\<rparr>) = (rem, s')"
  shows "worker_ok clock cf (s'\<lparr>wk_pending := rem\<rparr>)"
    and "rem = filter (\<lambda>t. \<not> sel t) (wk_pending s)"
    and "wk_async_dump_req_ids s' = wk_async_dump_req_ids s"
proof -
  let ?s = "s\<lparr>wk_pending := ts\<rparr>"
  from assms(1) have i: "tasks_inv cf ([] @ wk_pending s) (wk_rcm ?s) (wk_events ?s)"
    and c: "clocked clock cf (wk_pending s) (wk_rcm ?s) (wk_events ?s) (wk_world ?s)"
    by (simp_all add: worker_ok_def worker_inv_def)
  then have st: "stores_ok cf (wk_rcm ?s)" by (simp add: clocked_def)
  note f = drain_loop_forward [OF assms(3) st assms(2)]
  note inv = drain_loop_inv [OF i assms(3), unfolded append_Nil]
  show r: "rem = filter (\<lambda>t. \<not> sel t) (wk_pending s)" by (rule inv [THEN conjunct2, THEN conjunct1])
  show "wk_async_dump_req_ids s' = wk_async_dump_req_ids s" using inv by simp
  have "set rem \<subseteq> set (wk_pending s)" unfolding r by auto
  with f have "clocked clock cf rem (wk_rcm s') (wk_events s') (wk_world s')"
    by (intro clocked_mono [OF c]) auto
  moreover have "tasks_inv cf rem (wk_rcm s') (wk_events s')" by (rule inv [THEN conjunct1])
  ultimately show "worker_ok clock cf (s'\<lparr>wk_pending := rem\<rparr>)" by (simp add: worker_ok_def worker_inv_def)
qed

lemma handle_preemptions_ok:
  assumes "worker_ok clock cf s" and "waits_forward clock (wc_store cf)"
  shows "worker_ok clock cf (handle_preemptions cf rs s)"
    and "wk_pending (handle_preemptions cf rs s) = filter (\<lambda>t. pt_request_ids t \<inter> rs = {}) (wk_pending s)"
    and "wk_async_dump_req_ids (handle_preemptions cf rs s) = wk_async_dump_req_ids s"
proof -
  let ?sel = "\<lambda>t. case Some rs of None \<Rightarrow> True | Some rs \<Rightarrow> pt_request_ids t \<inter> rs \<noteq> {}"
  obtain rem s' where d: "drain_loop cf ?sel (wk_pending s) (s\<lparr>wk_pending := []\<rparr>) = (rem, s')"
    by (cases "drain_loop cf ?sel (wk_pending s) (s\<lparr>wk_pending := []\<rparr>)")
  note r = drain_ok [OF assms d]
  show "worker_ok clock cf (handle_preemptions cf rs s)"
    and "wk_pending (handle_preemptions cf rs s) = filter (\<lambda>t. pt_request_ids t \<inter> rs = {}) (wk_pending s)"
    and "wk_async_dump_req_ids (handle_preemptions cf rs s) = wk_async_dump_req_ids s"
    using r assms(1) d by (simp_all add: handle_preemptions_def flush_pending_dump_tasks_def)
qed

lemma worker_ok_contexts:
  assumes "worker_ok clock cf s" and "rc_dump_contexts m = rc_dump_contexts (wk_rcm s)"
    and "rc_load_contexts m = rc_load_contexts (wk_rcm s)"
  shows "worker_ok clock cf (s\<lparr>wk_rcm := m, wk_async_dump_req_ids := A\<rparr>)"
    and "worker_ok clock cf (s\<lparr>wk_rcm := m\<rparr>)"
    and "worker_ok clock cf (s\<lparr>wk_rcm := m, wk_meta := wm\<rparr>)"
  using assms tasks_inv_contexts [OF assms(2)]
  by (simp_all add: worker_ok_def worker_inv_def clocked_def stores_ok_def)

lemma finish_dump_load_contexts:
  "finish_dump m rs = (r, m') \<Longrightarrow> rc_load_contexts m' = rc_load_contexts m"
  by (auto simp: finish_dump_def finish_dump_loop_frame split: if_splits)

lemma get_finished_ok:
  assumes "worker_ok clock cf s" and "waits_forward clock (wc_store cf)"
  shows "worker_ok clock cf (snd (get_finished cf rs s))"
proof -
  let ?rs = "async_finished rs s" and ?sel = "\<lambda>t. pt_request_ids t \<inter> set (async_finished rs s) \<noteq> {}"
  define s1 where "s1 = (if ?rs = [] then s
     else (case drain_loop cf ?sel (wk_pending s) s of (remaining, s') \<Rightarrow> s'\<lparr>wk_pending := remaining\<rparr>))"
  have "worker_ok clock cf s1"
  proof (cases "?rs = []")
    case True
    with assms(1) show ?thesis by (simp add: s1_def)
  next
    case False
    obtain rem s' where d: "drain_loop cf ?sel (wk_pending s) s = (rem, s')"
      by (cases "drain_loop cf ?sel (wk_pending s) s")
    have same: "s\<lparr>wk_pending := wk_pending s\<rparr> = s" by simp
    from drain_ok(1) [OF assms, of ?sel "wk_pending s", unfolded same, OF d] False d show ?thesis
      by (simp add: s1_def)
  qed
  moreover obtain q m' where f: "finish_dump (wk_rcm s1) ?rs = (q, m')" by (cases "finish_dump (wk_rcm s1) ?rs")
  moreover have "snd (get_finished cf rs s) = s1\<lparr>wk_rcm := m'\<rparr>
      \<or> (\<exists>A. snd (get_finished cf rs s) = s1\<lparr>wk_rcm := m', wk_async_dump_req_ids := A\<rparr>)"
    by (cases q) (auto simp: get_finished_def async_finished_def [symmetric] s1_def [symmetric] f Let_def)
  ultimately show ?thesis
    using worker_ok_contexts [OF _ finish_dump_frame(1) [OF f] finish_dump_load_contexts [OF f]] by auto
qed

section \<open>Reachable workers\<close>

text \<open>The calls vLLM makes, in any order and with any arguments.\<close>

inductive worker_step :: "'w worker_cfg \<Rightarrow> 'w worker \<Rightarrow> 'w worker \<Rightarrow> bool" for cf where
  loaded: "worker_step cf s (start_load_kv cf md s)"
| saved: "worker_step cf s (wait_for_save cf md s)"
| preempted: "worker_step cf s (handle_preemptions cf rs s)"
| finished: "worker_step cf s (snd (get_finished cf rs s))"
| errors_read: "worker_step cf s (snd (get_block_ids_with_load_errors s))"
| meta_built: "worker_step cf s (snd (build_connector_worker_meta s))"

inductive worker_reachable :: "'w worker_cfg \<Rightarrow> 'w worker \<Rightarrow> 'w worker \<Rightarrow> bool" for cf s0 where
  start: "worker_reachable cf s0 s0"
| step: "worker_reachable cf s0 s \<Longrightarrow> worker_step cf s s' \<Longrightarrow> worker_reachable cf s0 s'"

definition new_worker :: "'w \<Rightarrow> bool \<Rightarrow> bool \<Rightarrow> 'w worker" where
  "new_worker w use_manager is_mla =
     \<lparr>wk_world = w, wk_rcm = new_rcm False use_manager, wk_events = {}, wk_pending = [],
      wk_invalid_block_ids = {}, wk_meta = empty_worker_meta is_mla, wk_async_dump_req_ids = {}, wk_metrics = []\<rparr>"

lemma new_worker_ok: "worker_ok clock cf (new_worker w use_manager is_mla)"
  by (simp add: worker_ok_def worker_inv_def tasks_inv_def clocked_def stores_ok_def new_worker_def new_rcm_def)

lemma loads_only_ok:
  assumes "worker_ok clock cf s" and "loads_only clock cf s s'"
  shows "worker_ok clock cf s'"
proof -
  from assms(1) have inv: "tasks_inv cf (wk_pending s) (wk_rcm s) (wk_events s)"
    and c: "clocked clock cf (wk_pending s) (wk_rcm s) (wk_events s) (wk_world s)"
    by (simp_all add: worker_ok_def worker_inv_def)
  from c have "stores_ok cf (wk_rcm s)" by (simp add: clocked_def)
  with assms(2) have p: "wk_pending s' = wk_pending s" and e: "wk_events s' = wk_events s"
    and ctx: "rc_dump_contexts (wk_rcm s') = rc_dump_contexts (wk_rcm s)"
    and st: "stores_ok cf (wk_rcm s')" and up: "clock (wk_world s) \<le> clock (wk_world s')"
    by (simp_all add: loads_only_def)
  have "tasks_inv cf (wk_pending s') (wk_rcm s') (wk_events s')"
    using inv by (simp only: p e tasks_inv_contexts [OF ctx])
  moreover have "clocked clock cf (wk_pending s') (wk_rcm s') (wk_events s') (wk_world s')"
    unfolding p e by (rule clocked_mono [OF c _ _ up st]) simp_all
  ultimately show ?thesis by (simp add: worker_ok_def worker_inv_def)
qed

lemma worker_step_ok:
  assumes "worker_step cf s s'" and "worker_ok clock cf s"
    and "waits_forward clock (wc_store cf)" and "fresh_handles clock cf"
  shows "worker_ok clock cf s'"
  using assms
proof (cases rule: worker_step.cases)
  case (loaded md)
  with loads_only_ok [OF assms(2) start_load_kv_loads_only [OF assms(4,3)]] show ?thesis by simp
next
  case (saved md)
  with wait_for_save_ok [OF assms(2-4)] show ?thesis by simp
next
  case (preempted rs)
  with handle_preemptions_ok [OF assms(2,3)] show ?thesis by simp
next
  case (finished rs)
  with get_finished_ok [OF assms(2,3)] show ?thesis by simp
next
  case errors_read
  with assms(2) show ?thesis
    by (simp add: get_block_ids_with_load_errors_def worker_ok_def worker_inv_def)
next
  case meta_built
  obtain wm rcm' where u: "update_worker_meta (wk_rcm s) (wk_meta s) = (wm, rcm')"
    by (cases "update_worker_meta (wk_rcm s) (wk_meta s)")
  then have "rc_dump_contexts rcm' = rc_dump_contexts (wk_rcm s)" "rc_load_contexts rcm' = rc_load_contexts (wk_rcm s)"
    by (auto simp: update_worker_meta_def split: if_splits)
  from worker_ok_contexts(3) [OF assms(2) this] assms(2) meta_built show ?thesis
    by (simp add: build_connector_worker_meta_def u)
qed

lemma reachable_ok:
  assumes "worker_reachable cf s0 s" and "worker_ok clock cf s0"
    and "waits_forward clock (wc_store cf)" and "fresh_handles clock cf"
  shows "worker_ok clock cf s"
  using assms(1)
  by (induction rule: worker_reachable.induct) (use assms worker_step_ok in blast)+

section \<open>Properties\<close>

text \<open>Concrete inputs: a world that counts handles, a store that completes every task.\<close>

definition counting_store :: "nat kv_store" where
  "counting_store =
     \<lparr>st_lookup = (\<lambda>w ids. (Inr (map (\<lambda>_. True) ids), w)),
      st_lookup_on_prefix = (\<lambda>w ids. (Inr (int (length ids) - 1), w)),
      st_prefetch = (\<lambda>w ids. (Inr (), w)),
      st_load_data = (\<lambda>w ids shards ptrs. (Inr w, Suc w)),
      st_dump_data = (\<lambda>w ids shards ptrs ev. (Inr w, Suc w)),
      st_wait = (\<lambda>w task. (Inr (), w)),
      st_check = (\<lambda>w task. (Inr False, w))\<rparr>"

definition counting_cfg :: "nat worker_cfg" where
  "counting_cfg =
     \<lparr>wc_tp_rank = 0, wc_tp_size = 1, wc_is_mla = False, wc_skip_null_vllm_blocks = False,
      wc_enable_event_sync = True, wc_hasher = (\<lambda>i. []), wc_block_data_size = 16,
      wc_extract_block_addrs = (\<lambda>ids. Inr (map (\<lambda>i. [of_nat (16 * i)]) ids)),
      wc_store = counting_store,
      wc_device = \<lparr>dv_new_event = (\<lambda>w. (Some (Suc w), w + 2)), dv_sync = id\<rparr>\<rparr>"

definition demo_step :: connector_meta where
  "demo_step =
     \<lparr>cm_request_meta = [(''r'', \<lparr>dm_load = ([''a''], [5]), dm_dump = ([''b'', ''c''], [6, 7])\<rparr>)],
      cm_preempted_req_ids = {}\<rparr>"

lemma counting_promises: "waits_forward id counting_store" "fresh_handles id counting_cfg"
  by (simp_all add: waits_forward_def fresh_handles_def counting_store_def counting_cfg_def)

definition saved_worker :: "nat worker" where
  "saved_worker = wait_for_save counting_cfg demo_step (new_worker 0 True False)"

lemma saved_worker_reachable: "worker_reachable counting_cfg (new_worker 0 True False) saved_worker"
  unfolding saved_worker_def by (rule worker_reachable.step [OF worker_reachable.start worker_step.saved])

lemma demo_step_dumps: "dump_requests (cm_request_meta demo_step) = {''r''}"
  by (auto simp: demo_step_def dump_requests_def image_iff)

lemma saved_worker_pending:
  "wk_pending saved_worker = [\<lparr>pt_task = 2, pt_request_ids = {''r''}, pt_event_handle = 1\<rparr>]"
  "wk_async_dump_req_ids saved_worker = {''r''}"
  by (simp_all add: saved_worker_def wait_for_save_def demo_step_dumps,
      simp_all add: poll_pending_dump_tasks_def new_worker_def demo_step_def
      counting_cfg_def submit_collected_dump_def submit_dump_task_def get_dump_event_handle_def get_event_handle_def
      submit_dump_def counting_store_def effective_blocks_def empty_dump_acc_def rank_scoped_ids_def
      worker_stats_def Let_def)

lemma tasks_invD:
  assumes "tasks_inv cf ts m ev"
  shows "distinct (map pt_task ts)" and "dict_keys (rc_dump_contexts m) = pt_task ` set ts"
    and "\<forall>(k, store, ctx) \<in> set (rc_dump_contexts m).
          \<exists>t \<in> set ts. pt_task t = k \<and> dict_keys ctx \<subseteq> pt_request_ids t"
    and "ev = {h. h \<noteq> 0 \<and> (\<exists>t \<in> set ts. pt_event_handle t = h)}"
    and "\<forall>t \<in> set ts. \<forall>u \<in> set ts. pt_event_handle t = pt_event_handle u \<and> pt_event_handle t \<noteq> 0 \<longrightarrow> t = u"
  by (rule assms [unfolded tasks_inv_def, THEN conjunct1]
           assms [unfolded tasks_inv_def, THEN conjunct2, THEN conjunct1]
           assms [unfolded tasks_inv_def, THEN conjunct2, THEN conjunct2, THEN conjunct1]
           assms [unfolded tasks_inv_def, THEN conjunct2, THEN conjunct2, THEN conjunct2, THEN conjunct1]
           assms [unfolded tasks_inv_def, THEN conjunct2, THEN conjunct2, THEN conjunct2, THEN conjunct2,
             THEN conjunct1])+

text \<open>
  C12: Asking for finished requests never raises in any state a worker can reach, whatever the
  store's tasks do: it answers exactly the asynchronously dumping requests among the finished
  ones, and afterwards no task and no manager context of those requests is outstanding, so
  vLLM may free their blocks. Their events are destroyed, and an event that is alive is that of a
  task still pending.
\<close>

theorem finished_requests_are_drained:
  assumes "worker_reachable cf (new_worker w use_manager is_mla) s"
    and "waits_forward clock (wc_store cf)" and "fresh_handles clock cf"
    and "get_finished cf rs s = (answer, s')"
  shows "answer = Inr (if set rs \<inter> wk_async_dump_req_ids s = {} then None
                       else Some (set rs \<inter> wk_async_dump_req_ids s))
    \<and> (\<Union>t \<in> set (wk_pending s'). pt_request_ids t) \<inter> (set rs \<inter> wk_async_dump_req_ids s) = {}
    \<and> pending_dump_requests (wk_rcm s') \<inter> (set rs \<inter> wk_async_dump_req_ids s) = {}
    \<and> wk_async_dump_req_ids s' = wk_async_dump_req_ids s - set rs
    \<and> wk_events s' = {h. h \<noteq> 0 \<and> (\<exists>t \<in> set (wk_pending s'). pt_event_handle t = h)}
    \<and> (\<forall>t \<in> set (wk_pending s). pt_request_ids t \<inter> (set rs \<inter> wk_async_dump_req_ids s) \<noteq> {}
          \<longrightarrow> pt_event_handle t \<notin> wk_events s')"
proof -
  have inv: "worker_inv cf s"
    using reachable_ok [OF assms(1) new_worker_ok assms(2,3)] by (simp add: worker_ok_def)
  have af: "set (async_finished rs s) = set rs \<inter> wk_async_dump_req_ids s"
    by (auto simp: async_finished_def)
  then have em: "async_finished rs s = [] \<longleftrightarrow> set rs \<inter> wk_async_dump_req_ids s = {}"
    by (metis set_empty)
  note g = get_finished_result [OF inv assms(4), unfolded af em]
  from g(2) have gone: "\<forall>t \<in> set (wk_pending s'). pt_request_ids t \<inter> set (async_finished rs s) = {}"
    by (simp add: af)
  from finished_not_pending [OF g(4) gone]
  have "pending_dump_requests (wk_rcm s') \<inter> (set rs \<inter> wk_async_dump_req_ids s) = {}"
    by (auto simp: af)
  moreover have "(\<Union>t \<in> set (wk_pending s'). pt_request_ids t) \<inter> (set rs \<inter> wk_async_dump_req_ids s) = {}"
    using gone by (auto simp: af)
  moreover note events = tasks_invD(4) [OF g(4) [unfolded worker_inv_def]]
  moreover have "pt_event_handle t \<notin> wk_events s'"
    if t: "t \<in> set (wk_pending s)" "pt_request_ids t \<inter> (set rs \<inter> wk_async_dump_req_ids s) \<noteq> {}" for t
  proof
    assume "pt_event_handle t \<in> wk_events s'"
    then obtain u where u: "u \<in> set (wk_pending s')" "pt_event_handle u = pt_event_handle t" "pt_event_handle t \<noteq> 0"
      unfolding events by auto
    then have "u \<in> set (wk_pending s)" by (simp add: g(2))
    with tasks_invD(5) [OF inv [unfolded worker_inv_def]] t(1) u(2,3) have "u = t" by metis
    with gone u(1) t(2) af show False by blast
  qed
  ultimately show ?thesis using g(1,3) by blast
qed

theorem finished_requests_are_drained_witness:
  "fst (get_finished counting_cfg [''r'', ''q''] saved_worker) = Inr (Some {''r''})
   \<and> pending_dump_requests (wk_rcm (snd (get_finished counting_cfg [''r'', ''q''] saved_worker))) \<inter> {''r''} = {}
   \<and> 1 \<notin> wk_events (snd (get_finished counting_cfg [''r'', ''q''] saved_worker))"
proof -
  have "waits_forward id (wc_store counting_cfg)"
    using counting_promises(1) by (simp add: counting_cfg_def)
  from finished_requests_are_drained [OF saved_worker_reachable this counting_promises(2) surjective_pairing,
      of "[''r'', ''q'']"]
  show ?thesis unfolding saved_worker_pending by (auto simp: Int_insert_left)
qed

lemma distinct_event_handles:
  assumes "distinct (map pt_task ts)"
    and "\<forall>t \<in> set ts. \<forall>u \<in> set ts. pt_event_handle t = pt_event_handle u \<and> pt_event_handle t \<noteq> 0 \<longrightarrow> t = u"
  shows "distinct (filter (\<lambda>h. h \<noteq> 0) (map pt_event_handle ts))"
  using assms
proof (induction ts)
  case Nil
  then show ?case by simp
next
  case (Cons t ts)
  then have "distinct (filter (\<lambda>h. h \<noteq> 0) (map pt_event_handle ts))" by simp
  moreover have "pt_event_handle u \<noteq> pt_event_handle t" if "u \<in> set ts" "pt_event_handle t \<noteq> 0" for u
    using that Cons.prems by (metis image_eqI distinct.simps(2) list.set_intros list.simps(9) list.set_map)
  ultimately show ?case by (cases "pt_event_handle t = 0") force+
qed

text \<open>
  Events never leak and are never shared: in every reachable state the device's live
  events are exactly the handles of the dump tasks still outstanding, one task per event, and
  every context the manager keeps belongs to one of these tasks.
\<close>

lemma events_belong_to_outstanding_dumps:
  assumes "worker_reachable cf (new_worker w use_manager is_mla) s"
    and "waits_forward clock (wc_store cf)" and "fresh_handles clock cf"
  shows "wk_events s = {h. h \<noteq> 0 \<and> (\<exists>t \<in> set (wk_pending s). pt_event_handle t = h)}
    \<and> distinct (map pt_task (wk_pending s))
    \<and> distinct (filter (\<lambda>h. h \<noteq> 0) (map pt_event_handle (wk_pending s)))
    \<and> dict_keys (rc_dump_contexts (wk_rcm s)) = pt_task ` set (wk_pending s)"
proof -
  have inv: "tasks_inv cf (wk_pending s) (wk_rcm s) (wk_events s)"
    using reachable_ok [OF assms(1) new_worker_ok assms(2,3)] by (simp add: worker_ok_def worker_inv_def)
  show ?thesis
    by (intro conjI tasks_invD(1,2,4) [OF inv] distinct_event_handles [OF tasks_invD(1,5) [OF inv]])
qed

text \<open>
  Scheduler and worker agree on who is dumping asynchronously: a step's metadata adds the
  same requests to the worker's set as the scheduler added to its own, on every rank, also on
  the ranks of an MLA model that dump nothing themselves.
\<close>

lemma async_sets_agree:
  assumes "build_connector_meta scf sched out = Inr (md, sched')"
    and "worker_reachable cf (new_worker w use_manager is_mla) s"
    and "waits_forward clock (wc_store cf)" and "fresh_handles clock cf"
    and "wk_async_dump_req_ids s = sd_async_dump_req_ids sched"
  shows "wk_async_dump_req_ids (wait_for_save cf md s) = sd_async_dump_req_ids sched'"
proof -
  have "worker_ok clock cf s" by (rule reachable_ok [OF assms(2) new_worker_ok assms(3,4)])
  from wait_for_save_ok(2) [OF this assms(3,4)] build_connector_meta_async [OF assms(1)] assms(5)
  show ?thesis by simp
qed
end
