(* ===== verification/Load_Accounting.thy ===== *)
theory Load_Accounting
  imports Dump_Tasks
begin

text \<open>
  What \<open>start_load_kv\<close> reports about a step's loads. Every request whose load could not
  be submitted or did not complete is marked failed, and the blocks it may have left half
  written are reported to vLLM; the block count in the metrics is the sum over exactly the
  other requests.
\<close>

section \<open>The ledger\<close>

text \<open>The number of blocks a request's load really submits.\<close>

definition load_size :: "'w worker_cfg \<Rightarrow> dispatch_meta \<Rightarrow> nat" where
  "load_size cf rq =
     (if fst (dm_load rq) = [] then 0
      else length (fst (effective_blocks (wc_skip_null_vllm_blocks cf) (dm_load rq))))"

definition size_of :: "'w worker_cfg \<Rightarrow> (req_id, dispatch_meta) dict \<Rightarrow> req_id \<Rightarrow> nat" where
  "size_of cf metas r = (case dict_get metas r of None \<Rightarrow> 0 | Some rq \<Rightarrow> load_size cf rq)"

text \<open>
  The invariant of both loops: \<open>D\<close> are the requests seen, \<open>F\<close> the ones failed so far,
  \<open>ts\<close> the tasks still to be waited for.
\<close>

definition ledger ::
  "'w worker_cfg \<Rightarrow> (req_id, dispatch_meta) dict \<Rightarrow> req_id set \<Rightarrow> req_id set
     \<Rightarrow> (req_id \<times> nat) list \<Rightarrow> load_acc \<Rightarrow> bool" where
  "ledger cf metas D F ts a \<longleftrightarrow>
     finite D \<and> F \<subseteq> D \<and> D \<subseteq> dict_keys metas \<and> distinct (map fst ts)
     \<and> dict_keys ts \<subseteq> D - F
     \<and> (\<forall>r \<in> dict_keys ts. dict_get_or (la_load_blocks a) r 0 = size_of cf metas r)
     \<and> la_num_blocks a = (\<Sum>r \<in> D - F. int (size_of cf metas r))"

lemma sum_insert_diff:
  "finite D \<Longrightarrow> r \<notin> D \<Longrightarrow> F \<subseteq> D \<Longrightarrow>
     (\<Sum>x \<in> insert r D - F. f x) = f r + (\<Sum>x \<in> D - F. (f x :: int))"
  by (subst insert_Diff_if) (auto simp: subset_iff)

lemma sum_diff_insert:
  "finite D \<Longrightarrow> r \<in> D - F \<Longrightarrow>
     (\<Sum>x \<in> D - insert r F. f x) = (\<Sum>x \<in> D - F. (f x :: int)) - f r"
  by (subst Diff_insert) (simp add: sum_diff1)

section \<open>What a failed load leaves behind\<close>

definition covered_blocks :: "(req_id, dispatch_meta) dict \<Rightarrow> req_id \<Rightarrow> vllm_id set" where
  "covered_blocks metas r =
     (case dict_get metas r of None \<Rightarrow> {} | Some rq \<Rightarrow> set (snd (dm_load rq)) \<union> set (snd (dm_dump rq)))"

text \<open>How the failure records move from \<open>s\<close> to \<open>s'\<close> when exactly the requests \<open>G\<close> fail.\<close>

definition failures ::
  "(req_id, dispatch_meta) dict \<Rightarrow> req_id set \<Rightarrow> 'w worker \<Rightarrow> 'w worker \<Rightarrow> bool" where
  "failures metas G s s' \<longleftrightarrow>
     wm_load_failed_reqs (wk_meta s') = wm_load_failed_reqs (wk_meta s) \<union> G
     \<and> wk_invalid_block_ids s' = wk_invalid_block_ids s \<union> (\<Union>r \<in> G. covered_blocks metas r)"

lemma failures_none: "failures metas {} s s'
    \<longleftrightarrow> wm_load_failed_reqs (wk_meta s') = wm_load_failed_reqs (wk_meta s)
        \<and> wk_invalid_block_ids s' = wk_invalid_block_ids s"
  by (simp add: failures_def)

lemma failures_trans:
  "failures metas G s s1 \<Longrightarrow> failures metas H s1 s2 \<Longrightarrow> failures metas (G \<union> H) s s2"
  by (auto simp: failures_def)

lemma load_failed_failures:
  "dict_get metas r = Some rq \<Longrightarrow> failures metas {} s s1 \<Longrightarrow> failures metas {r} s (load_failed mt r rq s1)"
  by (auto simp: failures_def load_failed_def record_load_error_def worker_stats_def mark_failed_def
        covered_blocks_def Let_def)

lemma submit_request_load_failures:
  "submit_request_load cf r us vs s = (q, s') \<Longrightarrow> failures metas {} s s'"
  by (auto simp: submit_request_load_def failures_none Let_def split: sum.splits prod.splits)

section \<open>What the store answers\<close>

text \<open>
  The loads of a step as the store and its manager see them, whatever the worker makes of the
  answers: every request with blocks to load asks once, in order, and every load that was accepted
  is waited for. An answer \<open>Inl\<close> is an exception: an address that cannot be computed, a load the
  store refuses, a task that does not complete.
\<close>

definition ask_load ::
  "'w worker_cfg \<Rightarrow> req_id \<Rightarrow> bytes list \<Rightarrow> vllm_id list \<Rightarrow> 'w rcm \<Rightarrow> 'w \<Rightarrow> nat result \<times> 'w rcm \<times> 'w" where
  "ask_load cf r us vs m w =
     (case wc_extract_block_addrs cf vs of
        Inl e \<Rightarrow> (Inl e, m, w)
      | Inr ptrs \<Rightarrow>
          submit_load m (wc_store cf) w [(r, us)]
            (rank_scoped_ids (wc_hasher cf) (wc_tp_rank cf = 0 \<or> wc_is_mla cf) us) (replicate (length us) 0) ptrs)"

fun load_answers ::
  "'w worker_cfg \<Rightarrow> (req_id, dispatch_meta) dict \<Rightarrow> 'w rcm \<Rightarrow> 'w \<Rightarrow> (req_id \<times> nat result) list \<times> 'w rcm \<times> 'w" where
  "load_answers cf [] m w = ([], m, w)"
| "load_answers cf ((r, rq) # todo) m w =
     (let (us, vs) = effective_blocks (wc_skip_null_vllm_blocks cf) (dm_load rq)
      in if fst (dm_load rq) = [] \<or> wc_skip_null_vllm_blocks cf \<and> us = [] then load_answers cf todo m w
         else (case ask_load cf r us vs m w of (q, m1, w1) \<Rightarrow>
                (case load_answers cf todo m1 w1 of (qs, m2, w2) \<Rightarrow> ((r, q) # qs, m2, w2))))"

fun wait_answers :: "(req_id \<times> nat) list \<Rightarrow> 'w rcm \<Rightarrow> 'w \<Rightarrow> (req_id \<times> unit result) list" where
  "wait_answers [] m w = []"
| "wait_answers ((r, task) # ts) m w =
     (case wait_load m w task of (q, m1, w1) \<Rightarrow> (r, q) # wait_answers ts m1 w1)"

definition refused :: "('k \<times> 'a result) list \<Rightarrow> 'k set" where
  "refused qs = {r. \<exists>e. (r, Inl e) \<in> set qs}"

definition accepted :: "('k \<times> 'a result) list \<Rightarrow> ('k \<times> 'a) list" where
  "accepted qs = concat (map (\<lambda>(r, q). case q of Inl e \<Rightarrow> [] | Inr x \<Rightarrow> [(r, x)]) qs)"

definition failed_loads :: "'w worker_cfg \<Rightarrow> (req_id, dispatch_meta) dict \<Rightarrow> 'w rcm \<Rightarrow> 'w \<Rightarrow> req_id set" where
  "failed_loads cf metas m w =
     (case load_answers cf metas m w of (qs, m1, w1) \<Rightarrow> refused qs \<union> refused (wait_answers (accepted qs) m1 w1))"

lemma answers_simps [simp]:
  "refused [] = {}" "accepted [] = []"
  "refused ((r, Inl e) # qs) = insert r (refused qs)" "refused ((r, Inr x) # qs) = refused qs"
  "accepted ((r, Inl e) # qs) = accepted qs" "accepted ((r, Inr x) # qs) = (r, x) # accepted qs"
  by (auto simp: refused_def accepted_def)

lemma answers_append:
  "refused (qs @ rs) = refused qs \<union> refused rs" "accepted (qs @ rs) = accepted qs @ accepted rs"
  by (auto simp: refused_def accepted_def)

lemma submit_request_load_asks:
  "submit_request_load cf r us vs s =
     (case ask_load cf r us vs (wk_rcm s) (wk_world s) of (q, m, w) \<Rightarrow> (q, s\<lparr>wk_rcm := m, wk_world := w\<rparr>))"
  by (simp add: submit_request_load_def ask_load_def Let_def split: sum.splits prod.splits)

lemma load_failed_env [simp]:
  "wk_rcm (load_failed mt r rq s) = wk_rcm s" "wk_world (load_failed mt r rq s) = wk_world s"
  by (simp_all add: load_failed_def record_load_error_def worker_stats_def Let_def)

section \<open>The two loops\<close>

lemma ledgerD:
  assumes "ledger cf metas D F ts a"
  shows "finite D" and "F \<subseteq> D" and "D \<subseteq> dict_keys metas" and "distinct (map fst ts)"
    and "dict_keys ts \<subseteq> D - F"
    and "\<forall>r \<in> dict_keys ts. dict_get_or (la_load_blocks a) r 0 = size_of cf metas r"
    and "la_num_blocks a = (\<Sum>r \<in> D - F. int (size_of cf metas r))"
  using assms by (simp_all add: ledger_def)

lemma ledger_skip:
  assumes "ledger cf metas D F ts a" and "r \<notin> D" and "r \<in> dict_keys metas"
    and "size_of cf metas r = 0" and "la_num_blocks b = la_num_blocks a" and "la_load_blocks b = la_load_blocks a"
  shows "ledger cf metas (insert r D) F ts b"
  using ledgerD [OF assms(1)] assms(2-)
  by (auto simp: ledger_def sum_insert_diff)

lemma ledger_fail:
  assumes "ledger cf metas D F ts a" and "r \<notin> D" and "r \<in> dict_keys metas"
    and "la_num_blocks b = la_num_blocks a" and "la_load_blocks b = la_load_blocks a"
  shows "ledger cf metas (insert r D) (insert r F) ts b"
proof -
  have "insert r D - insert r F = D - F" using assms(2) by auto
  then show ?thesis using ledgerD [OF assms(1)] assms(2-) by (auto simp: ledger_def)
qed

lemma ledger_task:
  assumes "ledger cf metas D F ts a" and "r \<notin> D" and "r \<in> dict_keys metas"
    and "la_num_blocks b = la_num_blocks a + int (size_of cf metas r)"
    and "la_load_blocks b = dict_set r (size_of cf metas r) (la_load_blocks a)"
  shows "ledger cf metas (insert r D) F (dict_set r task ts) b"
proof -
  note L = ledgerD [OF assms(1)]
  have keys: "dict_keys (dict_set r task ts) = insert r (dict_keys ts)" by (rule dict_keys_set)
  have "dict_keys (dict_set r task ts) \<subseteq> insert r D - F"
    unfolding keys using L(2,5) assms(2) by auto
  moreover have "\<forall>x \<in> dict_keys (dict_set r task ts). dict_get_or (la_load_blocks b) x 0 = size_of cf metas x"
    unfolding keys using L(6) by (simp add: assms(5))
  ultimately show ?thesis
    using L assms(2-4) unfolding ledger_def by (auto simp: sum_insert_diff distinct_update)
qed

text \<open>One request of the submission loop.\<close>

lemma submit_one:
  assumes "ledger cf metas D F (la_tasks a) a" and "r \<notin> D" and "dict_get metas r = Some rq"
  shows "\<exists>s1 a1 G. submit_loads cf ((r, rq) # todo) (s, a) = submit_loads cf todo (s1, a1)
    \<and> ledger cf metas (insert r D) (F \<union> G) (la_tasks a1) a1 \<and> G \<subseteq> {r}
    \<and> failures metas G s s1
    \<and> (la_is_load a1 \<longleftrightarrow> la_is_load a \<or> fst (dm_load rq) \<noteq> [])
    \<and> (\<exists>q. G = refused q \<and> la_tasks a1 = la_tasks a @ accepted q
        \<and> load_answers cf ((r, rq) # todo) (wk_rcm s) (wk_world s)
          = (case load_answers cf todo (wk_rcm s1) (wk_world s1) of (qs, e) \<Rightarrow> (q @ qs, e)))"
proof -
  have new: "dict_set r task (la_tasks a) = la_tasks a @ [(r, task)]" for task
    using ledgerD(5) [OF assms(1)] assms(2) by (intro dict_set_new) auto
  have rm: "r \<in> dict_keys metas" using assms(3) by (metis map_of_eq_None_iff option.distinct(1))
  obtain us vs where e: "effective_blocks (wc_skip_null_vllm_blocks cf) (dm_load rq) = (us, vs)"
    by (cases "effective_blocks (wc_skip_null_vllm_blocks cf) (dm_load rq)")
  let ?L = "int (length (fst (dm_load rq)))"
  have us: "\<not> wc_skip_null_vllm_blocks cf \<Longrightarrow> us = fst (dm_load rq)"
    using e by (cases "dm_load rq") (simp add: effective_blocks_def)
  show ?thesis
  proof (cases "fst (dm_load rq) = []")
    case True
    then have "size_of cf metas r = 0" by (simp add: size_of_def load_size_def assms(3))
    from ledger_skip [OF assms(1,2) rm this refl refl] True show ?thesis
      by (intro exI [of _ s] exI [of _ a] exI [of _ "{}"]) (auto simp: failures_none e intro!: exI [of _ "[]"])
  next
    case load: False
    show ?thesis
    proof (cases "wc_skip_null_vllm_blocks cf \<and> us = []")
      case True
      then have "size_of cf metas r = 0"
        using e by (simp add: size_of_def load_size_def assms(3))
      let ?b = "a\<lparr>la_is_load := True, la_num_blocks := la_num_blocks a + ?L - ?L,
                  la_num_requests := la_num_requests a + 1 - 1\<rparr>"
      from True e have e': "effective_blocks True (dm_load rq) = ([], vs)" by simp
      from ledger_skip [OF assms(1,2) rm \<open>size_of cf metas r = 0\<close>, of ?b] True load show ?thesis
        by (intro exI [of _ s] exI [of _ ?b] exI [of _ "{}"]) (auto simp: failures_none e' Let_def intro!: exI [of _ "[]"])
    next
      case False
      let ?b = "a\<lparr>la_is_load := True, la_num_blocks := la_num_blocks a + int (length us),
                  la_num_requests := la_num_requests a + 1\<rparr>"
      have size: "size_of cf metas r = length us"
        using load by (simp add: size_of_def load_size_def assms(3) e)
      obtain q s1 where q: "submit_request_load cf r us vs s = (q, s1)"
        by (cases "submit_request_load cf r us vs s")
      note f = submit_request_load_failures [OF q, of metas]
      have asks: "ask_load cf r us vs (wk_rcm s) (wk_world s) = (q, wk_rcm s1, wk_world s1)"
        using q by (auto simp: submit_request_load_asks split: prod.splits)
      have answers: "load_answers cf ((r, rq) # todo) (wk_rcm s) (wk_world s)
          = (case load_answers cf todo (wk_rcm s1) (wk_world s1) of (qs, e) \<Rightarrow> ([(r, q)] @ qs, e))"
        using False load by (auto simp: e asks split: prod.splits)
      show ?thesis
      proof (cases q)
        case (Inl err)
        let ?c = "?b\<lparr>la_num_blocks := la_num_blocks ?b - int (length us)\<rparr>"
        let ?s = "load_failed ''connector_load_submit_errors_total'' r rq s1"
        have "submit_loads cf ((r, rq) # todo) (s, a) = submit_loads cf todo (?s, ?c)"
          using False load us e q Inl by (cases a, cases "wc_skip_null_vllm_blocks cf") (simp_all add: Let_def)
        moreover from ledger_fail [OF assms(1,2) rm, of ?c]
        have "ledger cf metas (insert r D) (F \<union> {r}) (la_tasks ?c) ?c" by simp
        ultimately show ?thesis
          using load_failed_failures [OF assms(3) f] load answers
          by (intro exI [of _ ?s] exI [of _ ?c] exI [of _ "{r}"] conjI exI [of _ "[(r, q)]"]) (simp_all add: Inl)
      next
        case (Inr task)
        let ?c = "?b\<lparr>la_tasks := dict_set r task (la_tasks a),
                     la_load_blocks := dict_set r (length us) (la_load_blocks a)\<rparr>"
        have "submit_loads cf ((r, rq) # todo) (s, a) = submit_loads cf todo (s1, ?c)"
          using False load us e q Inr by (cases a, cases "wc_skip_null_vllm_blocks cf") (simp_all add: Let_def)
        moreover from ledger_task [OF assms(1,2) rm, of ?c task]
        have "ledger cf metas (insert r D) F (la_tasks ?c) ?c" by (simp add: size)
        ultimately show ?thesis
          using f load answers
          by (intro exI [of _ s1] exI [of _ ?c] exI [of _ "{}"] conjI exI [of _ "[(r, q)]"]) (simp_all add: Inr new)
      qed
    qed
  qed
qed

lemma submit_loads_ledger:
  assumes "submit_loads cf todo (s, a) = (s', a')"
    and "metas = done @ todo" and "distinct (map fst metas)"
    and "ledger cf metas (dict_keys done) F (la_tasks a) a"
  shows "\<exists>G. ledger cf metas (dict_keys metas) (F \<union> G) (la_tasks a') a' \<and> G \<subseteq> dict_keys todo
    \<and> failures metas G s s'
    \<and> (la_is_load a' \<longleftrightarrow> la_is_load a \<or> (\<exists>p \<in> set todo. fst (dm_load (snd p)) \<noteq> []))
    \<and> (\<exists>q. G = refused q \<and> la_tasks a' = la_tasks a @ accepted q
        \<and> load_answers cf todo (wk_rcm s) (wk_world s) = (q, wk_rcm s', wk_world s'))"
  using assms
proof (induction todo arbitrary: "done" s a F)
  case Nil
  then show ?case by (intro exI [of _ "{}"]) (auto simp: failures_none intro!: exI [of _ "[]"])
next
  case (Cons p todo)
  obtain r rq where p: "p = (r, rq)" by (cases p)
  from Cons.prems(2,3) have m: "metas = (done @ [p]) @ todo" and r: "r \<notin> dict_keys done"
    by (auto simp: p)
  have get: "dict_get metas r = Some rq"
    using Cons.prems(2,3) by (intro map_of_is_SomeI) (auto simp: p)
  have D': "dict_keys (done @ [p]) = insert r (dict_keys done)" by (simp add: p)
  from submit_one [OF Cons.prems(4) r get, of todo s] obtain s1 a1 G1 where
    1: "submit_loads cf (p # todo) (s, a) = submit_loads cf todo (s1, a1)"
    and 2: "ledger cf metas (insert r (dict_keys done)) (F \<union> G1) (la_tasks a1) a1" and 3: "G1 \<subseteq> {r}"
    and 4: "failures metas G1 s s1" and 5: "la_is_load a1 \<longleftrightarrow> la_is_load a \<or> fst (dm_load rq) \<noteq> []"
    and "\<exists>q. G1 = refused q \<and> la_tasks a1 = la_tasks a @ accepted q
        \<and> load_answers cf (p # todo) (wk_rcm s) (wk_world s)
          = (case load_answers cf todo (wk_rcm s1) (wk_world s1) of (qs, e) \<Rightarrow> (q @ qs, e))"
    unfolding p by blast
  then obtain q1 where q1: "G1 = refused q1" "la_tasks a1 = la_tasks a @ accepted q1"
      "load_answers cf (p # todo) (wk_rcm s) (wk_world s)
          = (case load_answers cf todo (wk_rcm s1) (wk_world s1) of (qs, e) \<Rightarrow> (q1 @ qs, e))"
    by blast
  from Cons.prems(1) 1 have rest: "submit_loads cf todo (s1, a1) = (s', a')" by simp
  from Cons.IH [OF rest m Cons.prems(3), unfolded D', OF 2] obtain G2 where
    6: "ledger cf metas (dict_keys metas) (F \<union> G1 \<union> G2) (la_tasks a') a'" and 7: "G2 \<subseteq> dict_keys todo"
    and 8: "failures metas G2 s1 s'"
    and 9: "la_is_load a' \<longleftrightarrow> la_is_load a1 \<or> (\<exists>p \<in> set todo. fst (dm_load (snd p)) \<noteq> [])"
    and "\<exists>q. G2 = refused q \<and> la_tasks a' = la_tasks a1 @ accepted q
        \<and> load_answers cf todo (wk_rcm s1) (wk_world s1) = (q, wk_rcm s', wk_world s')"
    by auto
  then obtain q2 where "G2 = refused q2" "la_tasks a' = la_tasks a1 @ accepted q2"
      "load_answers cf todo (wk_rcm s1) (wk_world s1) = (q2, wk_rcm s', wk_world s')"
    by blast
  with q1 have q: "G1 \<union> G2 = refused (q1 @ q2)" "la_tasks a' = la_tasks a @ accepted (q1 @ q2)"
      "load_answers cf (p # todo) (wk_rcm s) (wk_world s) = (q1 @ q2, wk_rcm s', wk_world s')"
    by (auto simp: answers_append)
  from failures_trans [OF 4 8] 3 5 6 7 9 q(2,3) show ?case
    by (intro exI [of _ "G1 \<union> G2"] conjI exI [of _ "q1 @ q2"] q(1)) (auto simp: p Un_assoc)
qed

lemma wait_loads_ledger:
  assumes "wait_loads metas ts (s, a) = (s', a')" and "ledger cf metas (dict_keys metas) F ts a"
  shows "\<exists>G. ledger cf metas (dict_keys metas) (F \<union> G) [] a' \<and> G \<subseteq> dict_keys ts
    \<and> failures metas G s s' \<and> la_is_load a' = la_is_load a \<and> la_num_requests a' = la_num_requests a
    \<and> G = refused (wait_answers ts (wk_rcm s) (wk_world s))"
  using assms
proof (induction ts arbitrary: s a F)
  case Nil
  then show ?case by (intro exI [of _ "{}"]) (simp add: failures_none)
next
  case (Cons p ts)
  obtain r task where p: "p = (r, task)" by (cases p)
  note L = ledgerD [OF Cons.prems(2)]
  have rD: "r \<in> dict_keys metas - F" using L(5) by (simp add: p)
  have rt: "r \<notin> dict_keys ts" using L(4) by (simp add: p)
  obtain rq where get: "dict_get metas r = Some rq"
    using rD by (metis DiffD1 map_of_eq_None_iff option.exhaust)
  obtain q m' w' where w: "wait_load (wk_rcm s) (wk_world s) task = (q, m', w')"
    by (metis prod_cases3)
  let ?s = "s\<lparr>wk_rcm := m', wk_world := w'\<rparr>"
  have f: "failures metas {} s ?s" by (simp add: failures_none)
  show ?case
  proof (cases q)
    case (Inr u)
    have "ledger cf metas (dict_keys metas) F ts a" using L by (simp add: ledger_def p)
    from Cons.IH [OF _ this, of ?s] Cons.prems(1) obtain G where
      "ledger cf metas (dict_keys metas) (F \<union> G) [] a'" "G \<subseteq> dict_keys ts" and fG: "failures metas G ?s s'"
      and
      "la_is_load a' = la_is_load a" "la_num_requests a' = la_num_requests a" "G = refused (wait_answers ts m' w')"
      by (auto simp: p w Inr)
    with failures_trans [OF f fG] show ?thesis by (intro exI [of _ G]) (auto simp: p w Inr)
  next
    case (Inl err)
    let ?s1 = "load_failed ''connector_load_wait_errors_total'' r rq ?s"
    let ?b = "a\<lparr>la_num_blocks := la_num_blocks a - int (dict_get_or (la_load_blocks a) r 0)\<rparr>"
    have "dict_get_or (la_load_blocks a) r 0 = size_of cf metas r" using L(6) by (simp add: p)
    with L rD rt have "ledger cf metas (dict_keys metas) (insert r F) ts ?b"
      by (simp add: ledger_def p sum_diff_insert) blast
    from Cons.IH [OF _ this, of ?s1] Cons.prems(1) obtain G where
      "ledger cf metas (dict_keys metas) (insert r F \<union> G) [] a'" "G \<subseteq> dict_keys ts" and fG: "failures metas G ?s1 s'"
      and
      "la_is_load a' = la_is_load a" "la_num_requests a' = la_num_requests a" "G = refused (wait_answers ts m' w')"
      by (auto simp: p w Inl get)
    with failures_trans [OF load_failed_failures [OF get f] fG] show ?thesis
      by (intro exI [of _ "insert r G"]) (auto simp: p w Inl)
  qed
qed

section \<open>Properties\<close>

text \<open>
  C15: No load fails silently, and none is reported that did not fail. The requests a step marks
  failed are exactly those whose load was answered with an exception, at its submission or at
  the wait for its task; the device blocks reported invalid are exactly the load and dump blocks of
  these requests; and, when the step loads anything, the block count added to the metrics is the
  sum of the submitted blocks of exactly the other requests.
\<close>

theorem loads_are_accounted_for:
  assumes "distinct (map fst (cm_request_meta md))"
    and "failed = failed_loads cf (cm_request_meta md) (wk_rcm s) (wk_world s)"
  shows "failed \<subseteq> dict_keys (cm_request_meta md)
    \<and> wm_load_failed_reqs (wk_meta (start_load_kv cf md s)) = wm_load_failed_reqs (wk_meta s) \<union> failed
    \<and> wk_invalid_block_ids (start_load_kv cf md s)
        = wk_invalid_block_ids s \<union> (\<Union>r \<in> failed. covered_blocks (cm_request_meta md) r)
    \<and> ((\<exists>p \<in> set (cm_request_meta md). fst (dm_load (snd p)) \<noteq> []) \<longrightarrow>
         (\<exists>ms n. wk_metrics (start_load_kv cf md s)
            = ms @ [MCount ''load_requests_num'' n,
                    MCount ''load_blocks_num''
                      (\<Sum>r \<in> dict_keys (cm_request_meta md) - failed. int (size_of cf (cm_request_meta md) r)),
                    MCount ''load_bytes_total''
                      ((\<Sum>r \<in> dict_keys (cm_request_meta md) - failed. int (size_of cf (cm_request_meta md) r))
                        * int (wc_block_data_size cf))]))"
proof -
  let ?M = "cm_request_meta md"
  let ?a0 = "\<lparr>la_is_load = False, la_tasks = [], la_load_blocks = [], la_num_blocks = 0, la_num_requests = 0\<rparr>"
  obtain s1 a1 where 1: "submit_loads cf ?M (s, ?a0) = (s1, a1)" by (cases "submit_loads cf ?M (s, ?a0)")
  obtain s2 a2 where 2: "wait_loads ?M (la_tasks a1) (s1, a1) = (s2, a2)"
    by (cases "wait_loads ?M (la_tasks a1) (s1, a1)")
  have "ledger cf ?M (dict_keys []) {} (la_tasks ?a0) ?a0" by (simp add: ledger_def)
  from submit_loads_ledger [OF 1 _ assms(1) this] obtain G where
    L1: "ledger cf ?M (dict_keys ?M) G (la_tasks a1) a1" and f1: "failures ?M G s s1"
    and load: "la_is_load a1 \<longleftrightarrow> (\<exists>p \<in> set ?M. fst (dm_load (snd p)) \<noteq> [])"
    and "\<exists>q. G = refused q \<and> la_tasks a1 = accepted q
      \<and> load_answers cf ?M (wk_rcm s) (wk_world s) = (q, wk_rcm s1, wk_world s1)"
    by auto
  then obtain q where q: "G = refused q" "la_tasks a1 = accepted q"
      "load_answers cf ?M (wk_rcm s) (wk_world s) = (q, wk_rcm s1, wk_world s1)" by blast
  from wait_loads_ledger [OF 2 L1] obtain H where
    L2: "ledger cf ?M (dict_keys ?M) (G \<union> H) [] a2" and f2: "failures ?M H s1 s2"
    and load2: "la_is_load a2 = la_is_load a1"
    and H: "H = refused (wait_answers (la_tasks a1) (wk_rcm s1) (wk_world s1))"
    by blast
  let ?F = "G \<union> H"
  have F: "failed = ?F" by (simp add: assms(2) failed_loads_def q H)
  have st: "start_load_kv cf md s = (if la_is_load a2
       then worker_stats [MCount ''load_requests_num'' (la_num_requests a2),
              MCount ''load_blocks_num'' (la_num_blocks a2),
              MCount ''load_bytes_total'' (la_num_blocks a2 * int (wc_block_data_size cf))] s2
       else s2)"
    by (simp add: start_load_kv_def 1 2)
  from failures_trans [OF f1 f2] have
    fl: "wm_load_failed_reqs (wk_meta (start_load_kv cf md s)) = wm_load_failed_reqs (wk_meta s) \<union> ?F"
    and iv: "wk_invalid_block_ids (start_load_kv cf md s)
        = wk_invalid_block_ids s \<union> (\<Union>r \<in> ?F. covered_blocks ?M r)"
    by (simp_all add: failures_def st worker_stats_def)
  note sub = ledgerD(2) [OF L2] and num = ledgerD(7) [OF L2]
  have ms: "\<exists>ms n. wk_metrics (start_load_kv cf md s) = ms
      @ [MCount ''load_requests_num'' n,
         MCount ''load_blocks_num'' (\<Sum>r \<in> dict_keys ?M - ?F. int (size_of cf ?M r)),
         MCount ''load_bytes_total''
           ((\<Sum>r \<in> dict_keys ?M - ?F. int (size_of cf ?M r)) * int (wc_block_data_size cf))]"
    if "\<exists>p \<in> set ?M. fst (dm_load (snd p)) \<noteq> []"
    using that by (intro exI [of _ "wk_metrics s2"] exI [of _ "la_num_requests a2"])
       (simp add: st load load2 worker_stats_def num)
  show ?thesis unfolding F by (intro conjI impI sub fl iv ms)
qed

text \<open>Two requests load a block each from a store that loses the first task.\<close>

definition lossy_cfg :: "nat worker_cfg" where
  "lossy_cfg = counting_cfg\<lparr>wc_store := counting_store\<lparr>st_wait := (\<lambda>w task. (if task = 0 then Inl StoreNotFound else Inr (), w))\<rparr>\<rparr>"

definition two_loads :: connector_meta where
  "two_loads =
     \<lparr>cm_request_meta = [(''r'', \<lparr>dm_load = ([''a''], [5]), dm_dump = ([''b''], [6])\<rparr>),
                         (''q'', \<lparr>dm_load = ([''c''], [7]), dm_dump = ([], [])\<rparr>)],
      cm_preempted_req_ids = {}\<rparr>"

theorem loads_are_accounted_for_witness:
  "wm_load_failed_reqs (wk_meta (start_load_kv lossy_cfg two_loads (new_worker 0 True False))) = {''r''}
   \<and> wk_invalid_block_ids (start_load_kv lossy_cfg two_loads (new_worker 0 True False)) = {5, 6}"
proof -
  have "{''r''} = failed_loads lossy_cfg (cm_request_meta two_loads) (wk_rcm (new_worker 0 True False)) (wk_world (new_worker 0 True False))"
    by (simp add: failed_loads_def lossy_cfg_def two_loads_def counting_cfg_def counting_store_def new_worker_def new_rcm_def
        ask_load_def effective_blocks_def submit_load_def wait_load_def rank_scoped_ids_def Let_def)
  from loads_are_accounted_for [OF _ this] show ?thesis
    by (simp add: two_loads_def new_worker_def covered_blocks_def empty_worker_meta_def insert_commute)
qed

end
