(* ===== verification/Kv_Layout.thy ===== *)
theory Kv_Layout
  imports Kv_Store
begin

text \<open>
  Where the blocks of the device's KV cache lie in memory. \<open>KVCacheLayout\<close> collects the
  cache tensors layer by layer and turns vLLM block numbers into device addresses;
  \<open>SharedIndexerKVCacheLayout\<close> gives models whose layers share an indexer rows of one
  fixed width by padding them with ghost segments at address 0. A \<open>torch\<close> tensor is
  its shape, strides, element size and data pointer; the arrays are numpy's \<open>uint64\<close>, so
  addresses are computed modulo \<open>2 ^ 64\<close>.
\<close>

section \<open>Tensors and arrays\<close>

record tensor =
  tn_shape :: "nat list"
  tn_strides :: "nat list"
  tn_elem :: nat
  tn_ptr :: nat

text \<open>\<open>t[i]\<close>: the \<open>i\<close>-th slice along the first dimension.\<close>

definition tensor_select :: "tensor \<Rightarrow> nat \<Rightarrow> tensor result" where
  "tensor_select t i =
     (case (tn_shape t, tn_strides t) of
        (n # shape, st # strides) \<Rightarrow>
          if i < n
          then Inr \<lparr>tn_shape = shape, tn_strides = strides, tn_elem = tn_elem t,
                    tn_ptr = tn_ptr t + i * st * tn_elem t\<rparr>
          else Inl IndexError
      | _ \<Rightarrow> Inl IndexError)"

datatype kv_layer =
    KvTensor tensor
  | KvTuple "tensor list"
  | KvOther

text \<open>An array of numpy's \<open>uint64\<close>, of one or two dimensions; building it checks the range.\<close>

datatype np_array =
    Flat "u64 list"
  | Rows "u64 list list"

definition u64_of :: "nat \<Rightarrow> u64 result" where
  "u64_of n = (if n < 2 ^ 64 then Inr (of_nat n) else Inl OverflowError)"

definition np_flat :: "nat list \<Rightarrow> np_array result" where
  "np_flat xs = rbind (rmap u64_of xs) (\<lambda>ws. Inr (Flat ws))"

definition np_rows :: "nat list list \<Rightarrow> np_array result" where
  "np_rows xss =
     (if \<exists>xs \<in> set xss. length xs \<noteq> length (hd xss) then Inl ValueError
      else rbind (rmap (rmap u64_of) xss) (\<lambda>wss. Inr (Rows wss)))"

definition np_reshape_flat :: "np_array \<Rightarrow> u64 list" where
  "np_reshape_flat a = (case a of Flat ws \<Rightarrow> ws | Rows wss \<Rightarrow> concat wss)"

section \<open>Collecting the tensors\<close>

record kv_tensor_info =
  ti_ptr :: nat
  ti_bytes_per_block :: nat
  ti_buffer_size :: nat

text \<open>The inner function \<open>handle_tensor\<close>; the size dimensions are the last \<open>k\<close>.\<close>

definition handle_tensor :: "tensor \<Rightarrow> nat \<Rightarrow> kv_tensor_info result" where
  "handle_tensor t k =
     (if length (tn_shape t) < k then Inl IndexError
      else
        let stride = prod_list (drop (length (tn_shape t) - k) (tn_shape t)) * tn_elem t in
        rbind (tensor_select t 0) (\<lambda>first.
          Inr \<lparr>ti_ptr = tn_ptr first, ti_bytes_per_block = stride,
               ti_buffer_size = hd (tn_shape t) * stride\<rparr>))"

definition layer_tensors :: "kv_layer \<Rightarrow> kv_tensor_info list result" where
  "layer_tensors kv =
     (case kv of
        KvTensor t \<Rightarrow>
          (if length (tn_shape t) = 5
           then rbind (tensor_select t 0) (\<lambda>k. rbind (handle_tensor k 3) (\<lambda>ki.
                rbind (tensor_select t 1) (\<lambda>v. rbind (handle_tensor v 3) (\<lambda>vi. Inr [ki, vi]))))
           else if length (tn_shape t) = 3
           then rbind (handle_tensor t 2) (\<lambda>i. Inr [i])
           else Inl ValueError)
      | KvTuple ts \<Rightarrow> rmap (\<lambda>t. handle_tensor t 3) ts
      | KvOther \<Rightarrow> Inl TypeError)"

text \<open>A list index as Python reads it: negative indices count from the end.\<close>

definition py_wrap_index :: "nat \<Rightarrow> int \<Rightarrow> nat result" where
  "py_wrap_index n i = (if - int n \<le> i \<and> i < int n then Inr (nat (i mod int n)) else Inl IndexError)"

type_synonym kv_caches = "(string, kv_layer) dict"

text \<open>
  The loop of \<open>_collect_tensor_rows\<close>. \<open>layer_id\<close> is vLLM's \<open>extract_layer_index\<close>;
  the row of a layer is its distance from the first layer, used as a Python list index.
\<close>

fun collect_loop ::
  "(string \<Rightarrow> nat) \<Rightarrow> nat \<Rightarrow> nat \<Rightarrow> kv_caches
     \<Rightarrow> kv_tensor_info list list \<times> nat option list \<Rightarrow> (kv_tensor_info list list \<times> nat option list) result" where
  "collect_loop layer_id first num_rows [] acc = Inr acc"
| "collect_loop layer_id first num_rows ((layer_name, kv) # rest) (rows, ids) =
     rbind (py_wrap_index num_rows (int (layer_id layer_name) - int first)) (\<lambda>row.
       rbind (layer_tensors kv) (\<lambda>infos.
         collect_loop layer_id first num_rows rest
           (rows[row := rows ! row @ infos], ids[row := Some (layer_id layer_name)])))"

definition num_layer_rows :: "(string \<Rightarrow> nat) \<Rightarrow> kv_caches \<Rightarrow> nat" where
  "num_layer_rows layer_id kvcaches = card (set (map (\<lambda>p. layer_id (fst p)) kvcaches))"

definition collect_tensor_rows ::
  "(string \<Rightarrow> nat) \<Rightarrow> nat \<Rightarrow> kv_caches \<Rightarrow> (kv_tensor_info list list \<times> nat option list) result" where
  "collect_tensor_rows layer_id first kvcaches =
     (let num_rows = num_layer_rows layer_id kvcaches
      in collect_loop layer_id first num_rows kvcaches (replicate num_rows [], replicate num_rows None))"

section \<open>The generic layout\<close>

record kv_layout =
  kl_use_layerwise :: bool
  kl_pp_size :: nat
  kl_num_hidden_layers :: nat
  kl_base_ptrs :: np_array
  kl_tensor_size_lists :: np_array
  kl_block_stride_lists :: np_array
  kl_buffer_sizes :: np_array

definition build_layout ::
  "bool \<Rightarrow> nat \<Rightarrow> nat \<Rightarrow> (string \<Rightarrow> nat) \<Rightarrow> nat \<Rightarrow> kv_caches \<Rightarrow> kv_layout result" where
  "build_layout use_layerwise pp_size num_hidden_layers layer_id first kvcaches =
     rbind (collect_tensor_rows layer_id first kvcaches) (\<lambda>(tensor_rows, row_layer_ids).
       let raw_ptr_rows = map (map ti_ptr) tensor_rows;
           stride_rows = map (map ti_bytes_per_block) tensor_rows;
           buffer_size_rows = map (map ti_buffer_size) tensor_rows;
           finish = (\<lambda>ptrs sizes buffers.
             Inr \<lparr>kl_use_layerwise = use_layerwise, kl_pp_size = pp_size,
                  kl_num_hidden_layers = num_hidden_layers, kl_base_ptrs = ptrs,
                  kl_tensor_size_lists = sizes, kl_block_stride_lists = sizes,
                  kl_buffer_sizes = buffers\<rparr>)
       in
       if \<not> use_layerwise then
         rbind (np_flat (concat raw_ptr_rows)) (\<lambda>ptrs.
           rbind (np_flat (concat stride_rows)) (\<lambda>sizes.
             rbind (np_flat (concat buffer_size_rows)) (finish ptrs sizes)))
       else if tensor_rows = [] \<or> hd tensor_rows = [] then Inl ValueError
       else if \<exists>row \<in> set stride_rows. row \<noteq> hd stride_rows then Inl ValueError
       else
         rbind (np_rows raw_ptr_rows) (\<lambda>ptrs.
           rbind (np_rows stride_rows) (\<lambda>sizes.
             rbind (np_rows buffer_size_rows) (finish ptrs sizes))))"

text \<open>\<open>KVCacheLayout.__init__\<close>; \<open>next(iter(...))\<close> of no layer raises.\<close>

definition new_layout ::
  "bool \<Rightarrow> nat \<Rightarrow> nat \<Rightarrow> (string \<Rightarrow> nat) \<Rightarrow> kv_caches \<Rightarrow> kv_layout result" where
  "new_layout use_layerwise pp_size num_hidden_layers layer_id kvcaches =
     (if 1 < pp_size \<and> num_hidden_layers = 0 then Inl ValueError
      else
        (case kvcaches of
           [] \<Rightarrow> Inl StopIteration
         | (name, kv) # _ \<Rightarrow>
             build_layout use_layerwise pp_size num_hidden_layers layer_id (layer_id name) kvcaches))"

section \<open>Block addresses\<close>

datatype np_addrs =
    Addr2 "u64 list list"
  | Addr3 "u64 list list list"

definition row_addrs :: "u64 list \<Rightarrow> u64 list \<Rightarrow> u64 \<Rightarrow> u64 list" where
  "row_addrs strides bases block = map2 (\<lambda>st base. block * st + base) strides bases"

definition extract_block_addrs :: "kv_layout \<Rightarrow> vllm_id list \<Rightarrow> bool \<Rightarrow> np_addrs result" where
  "extract_block_addrs l vllm_block_ids layer_first =
     rbind (rmap u64_of vllm_block_ids) (\<lambda>ids.
       case (kl_block_stride_lists l, kl_base_ptrs l) of
         (Flat strides, Flat bases) \<Rightarrow>
           (if layer_first then Inl ValueError else Inr (Addr2 (map (row_addrs strides bases) ids)))
       | (Rows strides, Rows bases) \<Rightarrow>
           Inr (Addr3 (if layer_first
             then map2 (\<lambda>st ba. map (row_addrs st ba) ids) strides bases
             else map (\<lambda>b. map2 (\<lambda>st ba. row_addrs st ba b) strides bases) ids))
       | _ \<Rightarrow> Inl ValueError)"

text \<open>\<open>total_ptrs.reshape(total_ptrs.shape[0], -1)\<close>, which numpy refuses for no rows.\<close>

definition reshape_blocks :: "np_addrs \<Rightarrow> u64 list list result" where
  "reshape_blocks a =
     (case a of
        Addr2 rows \<Rightarrow> if rows = [] then Inl ValueError else Inr rows
      | Addr3 blocks \<Rightarrow> if blocks = [] then Inl ValueError else Inr (map concat blocks))"

definition tensor_size_list :: "kv_layout \<Rightarrow> nat list result" where
  "tensor_size_list l =
     (if \<not> kl_use_layerwise l then Inr (map unat (np_reshape_flat (kl_tensor_size_lists l)))
      else
        (case kl_tensor_size_lists l of
           Rows (row # _) \<Rightarrow> Inr (map unat row)
         | _ \<Rightarrow> Inl IndexError))"

definition shard_size :: "kv_layout \<Rightarrow> nat result" where
  "shard_size l =
     (if \<not> kl_use_layerwise l then Inr (unat (sum_list (np_reshape_flat (kl_tensor_size_lists l))))
      else
        (case kl_tensor_size_lists l of
           Rows (row # _) \<Rightarrow> Inr (unat (sum_list row))
         | _ \<Rightarrow> Inl IndexError))"

definition layout_block_size :: "kv_layout \<Rightarrow> nat result" where
  "layout_block_size l =
     (if 1 < kl_pp_size l then
        (case kl_tensor_size_lists l of
           Flat (x # _) \<Rightarrow> Inr (unat (x * of_nat (kl_num_hidden_layers l)))
         | Rows (row # _) \<Rightarrow> Inr (unat (sum_list row * of_nat (kl_num_hidden_layers l)))
         | _ \<Rightarrow> Inl IndexError)
      else Inr (unat (sum_list (np_reshape_flat (kl_tensor_size_lists l)))))"

text \<open>
  The device buffers \<open>_create_store\<close> registers with the store: every address and size
  once, in order, without the ghost slots.
\<close>

fun collect_buffers :: "(nat \<times> nat) list \<Rightarrow> (nat \<times> nat) set \<Rightarrow> (nat \<times> nat) list" where
  "collect_buffers [] seen = []"
| "collect_buffers ((addr, len) # rest) seen =
     (if addr = 0 \<or> len = 0 \<or> (addr, len) \<in> seen then collect_buffers rest seen
      else (addr, len) # collect_buffers rest (insert (addr, len) seen))"

definition gpu_kv_buffers :: "kv_layout \<Rightarrow> (nat \<times> nat) list" where
  "gpu_kv_buffers l =
     collect_buffers
       (zip (map unat (np_reshape_flat (kl_base_ptrs l))) (map unat (np_reshape_flat (kl_buffer_sizes l)))) {}"

section \<open>The contract of a block address\<close>

text \<open>
  What a layout owes its clients: tensor \<open>k\<close> of block \<open>b\<close> starts \<open>b\<close> strides after
  the tensor's base. Where the block lies inside the tensor's buffer and the buffer inside the
  address space, the 64-bit arithmetic is exact, and two blocks never overlap.
\<close>

locale block_addressing =
  fixes addr :: "nat \<Rightarrow> nat \<Rightarrow> u64"
    and base stride :: "nat \<Rightarrow> nat"
    and tensors :: nat
  assumes addr_eq: "k < tensors \<Longrightarrow> addr b k = of_nat b * of_nat (stride k) + of_nat (base k)"
begin

definition inside :: "nat \<Rightarrow> nat \<Rightarrow> nat \<Rightarrow> bool" where
  "inside extent b k \<longleftrightarrow> Suc b * stride k \<le> extent \<and> base k + extent < 2 ^ 64"

lemma exact:
  assumes "k < tensors" and "inside extent b k"
  shows "unat (addr b k) = base k + b * stride k" and "unat (addr b k) + stride k \<le> base k + extent"
proof -
  have lt: "b * stride k + base k < 2 ^ 64" and le: "b * stride k + stride k \<le> extent"
    using assms(2) by (auto simp: inside_def)
  have "addr b k = of_nat (b * stride k + base k)" by (simp add: addr_eq [OF assms(1)])
  then have "unat (addr b k) = b * stride k + base k"
    using lt by (simp only: unat_of_nat) simp
  with le show "unat (addr b k) = base k + b * stride k" and "unat (addr b k) + stride k \<le> base k + extent"
    by simp_all
qed

lemma disjoint:
  assumes "k < tensors" and "inside extent b k" and "inside extent c k" and "b < c"
  shows "unat (addr b k) + stride k \<le> unat (addr c k)"
proof -
  have "b * stride k + stride k = Suc b * stride k" by simp
  also have "\<dots> \<le> c * stride k" using assms(4) by (intro mult_le_mono1) simp
  finally have "b * stride k + stride k \<le> c * stride k" .
  with exact(1) [OF assms(1,2)] exact(1) [OF assms(1,3)] show ?thesis by simp
qed

end

lemma nth_row_addrs:
  "k < length strides \<Longrightarrow> k < length bases \<Longrightarrow> row_addrs strides bases b ! k = b * strides ! k + bases ! k"
  by (simp add: row_addrs_def)

text \<open>The addresses of a row of tensors.\<close>

definition info_addr :: "kv_tensor_info list \<Rightarrow> nat \<Rightarrow> nat \<Rightarrow> u64" where
  "info_addr infos b k =
     row_addrs (map (of_nat \<circ> ti_bytes_per_block) infos) (map (of_nat \<circ> ti_ptr) infos) (of_nat b) ! k"

interpretation layout_addr: block_addressing "info_addr infos"
  "\<lambda>k. ti_ptr (infos ! k)" "\<lambda>k. ti_bytes_per_block (infos ! k)" "length infos"
  for infos :: "kv_tensor_info list"
  by unfold_locales (simp add: info_addr_def nth_row_addrs)

section \<open>Building arrays\<close>

lemma u64_of_Inr: "u64_of n = Inr w \<longleftrightarrow> n < 2 ^ 64 \<and> w = of_nat n"
  by (auto simp: u64_of_def)

lemma rmap_u64_of: "rmap u64_of xs = Inr ws \<longleftrightarrow> (\<forall>x \<in> set xs. x < 2 ^ 64) \<and> ws = map of_nat xs"
  by (induction xs arbitrary: ws) (auto simp: rbind_Inr_iff u64_of_Inr)

lemma rmap_rmap_u64_of:
  "rmap (rmap u64_of) xss = Inr wss \<longleftrightarrow> (\<forall>xs \<in> set xss. \<forall>x \<in> set xs. x < 2 ^ 64) \<and> wss = map (map of_nat) xss"
  by (induction xss arbitrary: wss) (auto simp: rbind_Inr_iff rmap_u64_of)

lemma np_flat_Inr: "np_flat xs = Inr a \<longleftrightarrow> (\<forall>x \<in> set xs. x < 2 ^ 64) \<and> a = Flat (map of_nat xs)"
  by (auto simp: np_flat_def rbind_Inr_iff rmap_u64_of)

lemma np_rows_Inr:
  "np_rows xss = Inr a \<longleftrightarrow>
     (\<forall>xs \<in> set xss. length xs = length (hd xss)) \<and> (\<forall>xs \<in> set xss. \<forall>x \<in> set xs. x < 2 ^ 64)
     \<and> a = Rows (map (map of_nat) xss)"
  by (auto simp: np_rows_def rbind_Inr_iff rmap_rmap_u64_of)

section \<open>Which row a layer's tensors land in\<close>

definition infos_of :: "kv_layer \<Rightarrow> kv_tensor_info list" where
  "infos_of kv = (case layer_tensors kv of Inl e \<Rightarrow> [] | Inr infos \<Rightarrow> infos)"

definition layer_row :: "nat \<Rightarrow> nat \<Rightarrow> nat \<Rightarrow> nat" where
  "layer_row first n l = nat ((int l - int first) mod int n)"

lemma collect_loop_rows:
  assumes "collect_loop layer_id first n items (rows, ids) = Inr (rows', ids')"
    and "length rows = n" and "length ids = n"
  shows "length rows' = n \<and> length ids' = n
    \<and> (\<forall>r < n. rows' ! r = rows ! r @ concat (map (\<lambda>p. infos_of (snd p))
                  (filter (\<lambda>p. layer_row first n (layer_id (fst p)) = r) items)))
    \<and> (\<forall>p \<in> set items. layer_row first n (layer_id (fst p)) < n)"
  using assms
proof (induction items arbitrary: rows ids)
  case Nil
  then show ?case by simp
next
  case (Cons p items)
  obtain name kv where p: "p = (name, kv)" by (cases p)
  let ?l = "layer_id name"
  from Cons.prems(1) obtain row infos where
    row: "py_wrap_index n (int ?l - int first) = Inr row" and infos: "layer_tensors kv = Inr infos"
    and rest: "collect_loop layer_id first n items (rows[row := rows ! row @ infos], ids[row := Some ?l])
      = Inr (rows', ids')"
    by (auto simp: p rbind_Inr_iff)
  have r: "row = layer_row first n ?l" and n: "row < n"
    using row by (auto simp: py_wrap_index_def layer_row_def nat_less_iff split: if_splits)
  from Cons.IH [OF rest] Cons.prems(2,3) have
    len: "length rows' = n" "length ids' = n" and
    1: "\<forall>q < n. rows' ! q = (rows[row := rows ! row @ infos]) ! q @ concat (map (\<lambda>p. infos_of (snd p))
                  (filter (\<lambda>p. layer_row first n (layer_id (fst p)) = q) items))" and
    3: "\<forall>p \<in> set items. layer_row first n (layer_id (fst p)) < n"
    by auto
  have "infos_of kv = infos" by (simp add: infos_of_def infos)
  with 1 Cons.prems(2) r n have
    "\<forall>q < n. rows' ! q = rows ! q @ concat (map (\<lambda>p. infos_of (snd p))
                  (filter (\<lambda>p. layer_row first n (layer_id (fst p)) = q) (p # items)))"
    by (auto simp: p comp_def)
  then show ?case using len 3 r n by (auto simp: p)
qed

lemma layer_row_inj:
  assumes "a \<le> l" "l < a + n" "a \<le> l'" "l' < a + n" and "layer_row first n l = layer_row first n l'"
  shows "l = l'"
proof -
  have n: "0 < int n" using assms(1,2) by simp
  from assms(5) have "(int l - int first) mod int n = (int l' - int first) mod int n"
    using n by (simp add: layer_row_def eq_nat_nat_iff)
  then have "int n dvd (int l - int first) - (int l' - int first)" by (simp only: mod_eq_dvd_iff)
  then have d: "int n dvd int l - int l'" by simp
  have "\<bar>int l - int l'\<bar> < int n" using assms(1-4) by auto
  with dvd_imp_le_int [OF _ d] have "int l - int l' = 0" by fastforce
  then show ?thesis by simp
qed

section \<open>Properties\<close>

text \<open>
  C24: The device addresses of a direct layout are exact and safe: for every requested block
  that lies inside the cache's buffers, the address of each tensor is its base plus the block
  number times the tensor's block size with no wrap-around, the block ends inside the buffer,
  and the ranges of two different blocks do not overlap.
\<close>

theorem direct_addresses_are_exact:
  assumes "build_layout False pp_size layers layer_id first kvcaches = Inr l"
    and "collect_tensor_rows layer_id first kvcaches = Inr (tensor_rows, ids)"
    and "extract_block_addrs l blocks False = Inr addrs"
    and "j < length blocks" and "k < length (concat tensor_rows)"
    and "t = concat tensor_rows ! k"
    and "Suc (blocks ! j) * ti_bytes_per_block t \<le> ti_buffer_size t" and "ti_ptr t + ti_buffer_size t < 2 ^ 64"
  shows "\<exists>rows. addrs = Addr2 rows \<and> length rows = length blocks
    \<and> unat (rows ! j ! k) = ti_ptr t + blocks ! j * ti_bytes_per_block t
    \<and> unat (rows ! j ! k) + ti_bytes_per_block t \<le> ti_ptr t + ti_buffer_size t
    \<and> (\<forall>i < length blocks. blocks ! i < blocks ! j \<longrightarrow>
         unat (rows ! i ! k) + ti_bytes_per_block t \<le> unat (rows ! j ! k))"
proof -
  let ?infos = "concat tensor_rows"
  from assms(1,2) have l: "kl_base_ptrs l = Flat (map (of_nat \<circ> ti_ptr) ?infos)"
    "kl_block_stride_lists l = Flat (map (of_nat \<circ> ti_bytes_per_block) ?infos)"
    by (auto simp: build_layout_def Let_def rbind_Inr_iff np_flat_Inr map_concat comp_def)
  from assms(3) have a: "addrs = Addr2 (map (\<lambda>b. row_addrs (map (of_nat \<circ> ti_bytes_per_block) ?infos)
      (map (of_nat \<circ> ti_ptr) ?infos) (of_nat b)) blocks)"
    by (auto simp: extract_block_addrs_def l rbind_Inr_iff rmap_u64_of)
  let ?rows = "map (\<lambda>b. row_addrs (map (of_nat \<circ> ti_bytes_per_block) ?infos)
      (map (of_nat \<circ> ti_ptr) ?infos) (of_nat b)) blocks"
  have row: "?rows ! i ! k = info_addr ?infos (blocks ! i) k" if "i < length blocks" for i
    using that by (simp add: info_addr_def)
  have inside: "layout_addr.inside ?infos (ti_buffer_size t) b k"
    if "b \<le> blocks ! j" for b
  proof -
    have "Suc b * ti_bytes_per_block t \<le> Suc (blocks ! j) * ti_bytes_per_block t"
      using that by (intro mult_le_mono1) simp
    also note assms(7)
    finally have "Suc b * ti_bytes_per_block t \<le> ti_buffer_size t" .
    with assms(8) show ?thesis unfolding layout_addr.inside_def assms(6) by simp
  qed
  note ex = layout_addr.exact [OF assms(5) inside [OF order_refl]]
  have dis: "unat (?rows ! i ! k) + ti_bytes_per_block t \<le> unat (?rows ! j ! k)"
    if "i < length blocks" "blocks ! i < blocks ! j" for i
    using layout_addr.disjoint [OF assms(5) inside inside that(2)] that row [OF that(1)] row [OF assms(4)]
    by (simp add: assms(6))
  show ?thesis
    using a ex row [OF assms(4)] dis by (intro exI [of _ ?rows]) (simp add: assms(6))
qed

text \<open>
  Where the layer numbers of a rank form a contiguous range, in whatever order the caches
  are listed, no layer is refused and no row mixes two layers: the row of a layer holds the
  tensors of exactly that layer's caches, in order.
\<close>

lemma rows_do_not_mix_layers:
  assumes "collect_tensor_rows layer_id first kvcaches = Inr (rows, ids)"
    and "n = num_layer_rows layer_id kvcaches"
    and "\<forall>p \<in> set kvcaches. a \<le> layer_id (fst p) \<and> layer_id (fst p) < a + n"
    and "(name, kv) \<in> set kvcaches"
  shows "length rows = n \<and> layer_row first n (layer_id name) < n
    \<and> rows ! layer_row first n (layer_id name)
        = concat (map (\<lambda>p. infos_of (snd p)) (filter (\<lambda>p. layer_id (fst p) = layer_id name) kvcaches))"
proof -
  let ?r = "layer_row first n (layer_id name)"
  from assms(1,2) have c: "collect_loop layer_id first n kvcaches (replicate n [], replicate n None) = Inr (rows, ids)"
    by (simp add: collect_tensor_rows_def Let_def)
  note all = collect_loop_rows [OF c length_replicate length_replicate]
  have r: "?r < n" using all assms(4) by fastforce
  from all r have len: "length rows = n"
    and rows: "rows ! ?r = concat (map (\<lambda>p. infos_of (snd p))
                  (filter (\<lambda>p. layer_row first n (layer_id (fst p)) = ?r) kvcaches))"
    by simp_all
  have "filter (\<lambda>p. layer_row first n (layer_id (fst p)) = ?r) kvcaches
      = filter (\<lambda>p. layer_id (fst p) = layer_id name) kvcaches"
  proof (rule filter_cong [OF refl])
    fix p assume "p \<in> set kvcaches"
    with assms(3,4) have "a \<le> layer_id (fst p)" "layer_id (fst p) < a + n"
      "a \<le> layer_id name" "layer_id name < a + n" by auto
    then show "(layer_row first n (layer_id (fst p)) = ?r) = (layer_id (fst p) = layer_id name)"
      using layer_row_inj by auto
  qed
  from rows [unfolded this] len r show ?thesis by blast
qed

lemma collect_buffers_mem:
  "(a, n) \<in> set (collect_buffers xs seen) \<longleftrightarrow> (a, n) \<in> set xs \<and> a \<noteq> 0 \<and> n \<noteq> 0 \<and> (a, n) \<notin> seen"
proof (induction xs seen rule: collect_buffers.induct)
  case (1 seen)
  then show ?case by simp
next
  case (2 addr len rest seen)
  then show ?case by (cases "addr = 0 \<or> len = 0 \<or> (addr, len) \<in> seen") auto
qed

lemma collect_buffers_distinct: "distinct (collect_buffers xs seen)"
proof (induction xs seen rule: collect_buffers.induct)
  case (1 seen)
  then show ?case by simp
next
  case (2 addr len rest seen)
  then show ?case
    by (cases "addr = 0 \<or> len = 0 \<or> (addr, len) \<in> seen") (simp_all add: collect_buffers_mem)
qed

text \<open>
  The buffers registered with the store are each listed once, none of them is a ghost or
  empty, and every other buffer of the layout is registered.
\<close>

lemma registered_buffers_are_real:
  "distinct (gpu_kv_buffers l)
   \<and> ((a, n) \<in> set (gpu_kv_buffers l) \<longleftrightarrow>
        a \<noteq> 0 \<and> n \<noteq> 0
        \<and> (a, n) \<in> set (zip (map unat (np_reshape_flat (kl_base_ptrs l)))
                             (map unat (np_reshape_flat (kl_buffer_sizes l)))))"
  by (auto simp: gpu_kv_buffers_def collect_buffers_distinct collect_buffers_mem)

text \<open>Concrete inputs: two layers of one combined K/V tensor each, listed in reverse.\<close>

definition demo_tensor :: "nat \<Rightarrow> tensor" where
  "demo_tensor p = \<lparr>tn_shape = [2, 4, 2, 1, 8], tn_strides = [64, 16, 8, 8, 1], tn_elem = 2, tn_ptr = p\<rparr>"

definition demo_layer_id :: "string \<Rightarrow> nat" where
  "demo_layer_id name = (if name = ''l1'' then 1 else 0)"

definition demo_caches :: kv_caches where
  "demo_caches = [(''l1'', KvTensor (demo_tensor 5000)), (''l0'', KvTensor (demo_tensor 1000))]"

definition demo_infos :: "kv_tensor_info list" where
  "demo_infos =
     [\<lparr>ti_ptr = 5000, ti_bytes_per_block = 32, ti_buffer_size = 128\<rparr>,
      \<lparr>ti_ptr = 5128, ti_bytes_per_block = 32, ti_buffer_size = 128\<rparr>,
      \<lparr>ti_ptr = 1000, ti_bytes_per_block = 32, ti_buffer_size = 128\<rparr>,
      \<lparr>ti_ptr = 1128, ti_bytes_per_block = 32, ti_buffer_size = 128\<rparr>]"

lemma demo_collect:
  "collect_tensor_rows demo_layer_id 1 demo_caches = Inr ([take 2 demo_infos, drop 2 demo_infos], [Some 1, Some 0])"
  by (simp add: collect_tensor_rows_def num_layer_rows_def demo_caches_def demo_layer_id_def demo_tensor_def
      demo_infos_def py_wrap_index_def layer_tensors_def tensor_select_def handle_tensor_def numeral_2_eq_2)

theorem direct_addresses_are_exact_witness:
  "\<exists>l rows. build_layout False 1 2 demo_layer_id 1 demo_caches = Inr l
    \<and> extract_block_addrs l [2, 3] False = Inr (Addr2 rows) \<and> unat (rows ! 1 ! 2) = 1000 + 3 * 32"
proof -
  obtain l where l: "build_layout False 1 2 demo_layer_id 1 demo_caches = Inr l"
    by (simp add: build_layout_def demo_collect [simplified] demo_infos_def np_flat_def u64_of_def)
  then have "kl_base_ptrs l = Flat (map (of_nat \<circ> ti_ptr) demo_infos)"
    and "kl_block_stride_lists l = Flat (map (of_nat \<circ> ti_bytes_per_block) demo_infos)"
    by (auto simp: build_layout_def demo_collect [simplified] demo_infos_def np_flat_def u64_of_def)
  then obtain a where a: "extract_block_addrs l [2, 3] False = Inr a"
    by (simp add: extract_block_addrs_def u64_of_def)
  have c: "concat [take 2 demo_infos, drop 2 demo_infos] ! 2
      = \<lparr>ti_ptr = 1000, ti_bytes_per_block = 32, ti_buffer_size = 128\<rparr>"
    by (simp add: demo_infos_def)
  from direct_addresses_are_exact [OF l demo_collect a, of 1 2, OF _ _ c [symmetric]] l a show ?thesis
    by (auto simp: demo_infos_def)
qed

end
