(* ===== verification/Shared_Indexer.thy ===== *)
theory Shared_Indexer
  imports Kv_Layout
begin

text \<open>
  \<open>SharedIndexerKVCacheLayout\<close>: the layerwise layout of models whose layers share an
  indexer cache. Every layer becomes a row of segments; a layer without its own indexer gets
  ghost segments (address 0, stride 0) so that all rows have the same segment sizes, which is
  what the store's copy schema needs. On CUDA the caches are classified by their name, on
  Ascend by their position in the layer's tuple.
\<close>

section \<open>Segments\<close>

record kv_segment =
  sg_ptr :: nat
  sg_copy_size :: nat
  sg_block_stride :: nat
  sg_buffer_size :: nat

record layer_info =
  li_layer_id :: nat
  li_sfa_tensors :: "kv_tensor_info list"
  li_indexer :: "kv_tensor_info option"
  li_scale :: "kv_tensor_info option"

definition ghost_segment :: "nat \<Rightarrow> kv_segment" where
  "ghost_segment slot_size =
     \<lparr>sg_ptr = 0, sg_copy_size = slot_size, sg_block_stride = 0, sg_buffer_size = 0\<rparr>"

definition real_segment :: "nat \<Rightarrow> nat \<Rightarrow> nat \<Rightarrow> nat \<Rightarrow> kv_segment" where
  "real_segment ptr copy_size block_stride buffer_size =
     \<lparr>sg_ptr = ptr, sg_copy_size = copy_size, sg_block_stride = block_stride, sg_buffer_size = buffer_size\<rparr>"

definition whole_tensor_segment :: "kv_tensor_info \<Rightarrow> kv_segment" where
  "whole_tensor_segment t =
     \<lparr>sg_ptr = ti_ptr t, sg_copy_size = ti_bytes_per_block t,
      sg_block_stride = ti_bytes_per_block t, sg_buffer_size = ti_buffer_size t\<rparr>"

text \<open>\<open>sorted(set(values))\<close> has one element exactly when all values agree and there is one.\<close>

definition validate_uniform_sizes :: "nat list \<Rightarrow> nat result" where
  "validate_uniform_sizes values =
     (case remdups values of [v] \<Rightarrow> Inr v | _ \<Rightarrow> Inl ValueError)"

definition layer_type :: "layer_info \<Rightarrow> string" where
  "layer_type layer =
     (if li_scale layer \<noteq> None then ''li_c8''
      else if li_indexer layer \<noteq> None then ''bf16''
      else ''shared'')"

text \<open>
  One row of \<open>_build_segment_rows\<close>. The indexer of a layer with a scale is present by
  construction; reading it where it is \<open>None\<close> raises in Python (\<open>AttributeError\<close>).
\<close>

definition segment_row :: "string \<Rightarrow> nat \<Rightarrow> nat \<Rightarrow> nat \<Rightarrow> layer_info \<Rightarrow> kv_segment list result" where
  "segment_row layout_mode indexer_size index_chunk_size scale_size layer =
     (let sfa = map whole_tensor_segment (li_sfa_tensors layer) in
      if layout_mode = ''bf16'' then
        (case li_indexer layer of
           Some ix \<Rightarrow> Inr (sfa @ [whole_tensor_segment ix])
         | None \<Rightarrow> Inr (sfa @ [ghost_segment indexer_size]))
      else if layout_mode = ''li_c8'' then
        (case li_scale layer of
           Some sc \<Rightarrow>
             (case li_indexer layer of
                Some ix \<Rightarrow> Inr (sfa @ [whole_tensor_segment ix, whole_tensor_segment sc])
              | None \<Rightarrow> Inl AttributeError)
         | None \<Rightarrow> Inr (sfa @ [ghost_segment index_chunk_size, ghost_segment scale_size]))
      else if layout_mode = ''mixed'' then
        (case (li_scale layer, li_indexer layer) of
           (Some sc, Some ix) \<Rightarrow>
             Inr (sfa @ [real_segment (ti_ptr ix) index_chunk_size (ti_bytes_per_block ix) (ti_buffer_size ix),
                         ghost_segment index_chunk_size, whole_tensor_segment sc])
         | (Some sc, None) \<Rightarrow> Inl AttributeError
         | (None, Some ix) \<Rightarrow>
             (if ti_bytes_per_block ix \<noteq> 2 * index_chunk_size then Inl ValueError
              else Inr (sfa @ [real_segment (ti_ptr ix) index_chunk_size (ti_bytes_per_block ix) (ti_buffer_size ix),
                               real_segment (ti_ptr ix + index_chunk_size) index_chunk_size
                                 (ti_bytes_per_block ix) 0,
                               ghost_segment scale_size]))
         | (None, None) \<Rightarrow>
             Inr (sfa @ [ghost_segment index_chunk_size, ghost_segment index_chunk_size,
                         ghost_segment scale_size]))
      else Inl ValueError)"

definition build_segment_rows ::
  "layer_info list \<Rightarrow> string \<Rightarrow> nat \<Rightarrow> nat \<Rightarrow> nat \<Rightarrow> kv_segment list list result" where
  "build_segment_rows layers layout_mode indexer_size index_chunk_size scale_size =
     rmap (segment_row layout_mode indexer_size index_chunk_size scale_size) layers"

definition set_segment_rows :: "nat \<Rightarrow> nat \<Rightarrow> kv_segment list list \<Rightarrow> kv_layout result" where
  "set_segment_rows pp_size num_hidden_layers segment_rows =
     rbind (np_rows (map (map sg_ptr) segment_rows)) (\<lambda>ptrs.
       rbind (np_rows (map (map sg_copy_size) segment_rows)) (\<lambda>sizes.
         rbind (np_rows (map (map sg_block_stride) segment_rows)) (\<lambda>strides.
           rbind (np_rows (map (map sg_buffer_size) segment_rows)) (\<lambda>buffers.
             Inr \<lparr>kl_use_layerwise = True, kl_pp_size = pp_size, kl_num_hidden_layers = num_hidden_layers,
                  kl_base_ptrs = ptrs, kl_tensor_size_lists = sizes,
                  kl_block_stride_lists = strides, kl_buffer_sizes = buffers\<rparr>))))"

section \<open>CUDA\<close>

definition lower_char :: "char \<Rightarrow> char" where
  "lower_char c = (let n = (of_char c :: nat) in if 65 \<le> n \<and> n \<le> 90 then char_of (n + 32) else c)"

text \<open>\<open>s.split(".")\<close>, without the empty components.\<close>

fun split_dots :: "string \<Rightarrow> string \<Rightarrow> string list" where
  "split_dots cur [] = (if cur = [] then [] else [cur])"
| "split_dots cur (c # cs) =
     (if c = CHR ''.'' then (if cur = [] then [] else [cur]) @ split_dots [] cs
      else split_dots (cur @ [c]) cs)"

definition is_digits :: "string \<Rightarrow> bool" where
  "is_digits s = (s \<noteq> [] \<and> (\<forall>c \<in> set s. 48 \<le> (of_char c :: nat) \<and> (of_char c :: nat) \<le> 57))"

text \<open>The components after the first \<open>layers.N\<close>, or all of them without one.\<close>

fun after_layers :: "string list \<Rightarrow> string list option" where
  "after_layers (a # b # rest) =
     (if a = ''layers'' \<and> is_digits b then Some rest else after_layers (b # rest))"
| "after_layers _ = None"

text \<open>
  The pattern \<open>(?:^|\.)indexer(?:\.|$)\<close> searched in the joined components matches
  exactly when one of them is \<open>indexer\<close>, as no component holds a dot.
\<close>

datatype cuda_role = Attention | Indexer

definition cuda_cache_role :: "string \<Rightarrow> cuda_role" where
  "cuda_cache_role layer_name =
     (let path_components = split_dots [] (map lower_char layer_name);
          semantic = (case after_layers path_components of None \<Rightarrow> path_components | Some rest \<Rightarrow> rest)
      in if ''indexer'' \<in> set semantic then Indexer else Attention)"

definition cuda_component_info :: "tensor \<Rightarrow> kv_tensor_info result" where
  "cuda_component_info c =
     (case (tn_shape c, tn_strides c) of
        (n # shape, st # strides) \<Rightarrow>
          (let bytes_per_block = st * tn_elem c; payload_size = prod_list shape * tn_elem c in
           if bytes_per_block \<noteq> payload_size then Inl ValueError
           else Inr \<lparr>ti_ptr = tn_ptr c, ti_bytes_per_block = bytes_per_block,
                     ti_buffer_size = n * bytes_per_block\<rparr>)
      | _ \<Rightarrow> Inl IndexError)"

definition cuda_tensor_infos :: "tensor \<Rightarrow> cuda_role \<Rightarrow> kv_tensor_info list result" where
  "cuda_tensor_infos t role =
     (if length (tn_shape t) = 5 then
        (if role \<noteq> Attention \<or> hd (tn_shape t) \<noteq> 2 then Inl ValueError
         else rbind (tensor_select t 0) (\<lambda>k. rbind (tensor_select t 1) (\<lambda>v. rmap cuda_component_info [k, v])))
      else rmap cuda_component_info [t])"

text \<open>\<open>layer_tensors\<close>: per layer id the tensors of its two slots.\<close>

record cuda_slots =
  cs_attention :: "kv_tensor_info list option"
  cs_indexer :: "kv_tensor_info list option"

definition empty_slots :: cuda_slots where
  "empty_slots = \<lparr>cs_attention = None, cs_indexer = None\<rparr>"

fun collect_cuda ::
  "(string \<Rightarrow> nat) \<Rightarrow> (string \<times> tensor) list \<Rightarrow> (nat, cuda_slots) dict \<Rightarrow> (nat, cuda_slots) dict result" where
  "collect_cuda layer_id [] d = Inr d"
| "collect_cuda layer_id ((layer_name, t) # rest) d =
     (let i = layer_id layer_name; layer = dict_get_or d i empty_slots; slot = cuda_cache_role layer_name in
      if (case slot of Attention \<Rightarrow> cs_attention layer | Indexer \<Rightarrow> cs_indexer layer) \<noteq> None
      then Inl ValueError
      else rbind (cuda_tensor_infos t slot) (\<lambda>infos.
        collect_cuda layer_id rest
          (dict_set i (case slot of Attention \<Rightarrow> layer\<lparr>cs_attention := Some infos\<rparr>
                                  | Indexer \<Rightarrow> layer\<lparr>cs_indexer := Some infos\<rparr>) d)))"

definition cuda_layer :: "(nat, cuda_slots) dict \<Rightarrow> nat \<Rightarrow> layer_info result" where
  "cuda_layer d i =
     rbind (py_key d i) (\<lambda>slots.
       case cs_attention slots of
         None \<Rightarrow> Inl ValueError
       | Some attention \<Rightarrow>
           (case cs_indexer slots of
              None \<Rightarrow>
                Inr \<lparr>li_layer_id = i, li_sfa_tensors = attention, li_indexer = None, li_scale = None\<rparr>
            | Some [ix] \<Rightarrow>
                Inr \<lparr>li_layer_id = i, li_sfa_tensors = attention, li_indexer = Some ix, li_scale = None\<rparr>
            | Some _ \<Rightarrow> Inl ValueError))"

definition sfa_sizes :: "layer_info \<Rightarrow> nat list" where
  "sfa_sizes layer = map ti_bytes_per_block (li_sfa_tensors layer)"

text \<open>The indexer tensors of the layers that have one of their own.\<close>

definition indexers_of :: "layer_info list \<Rightarrow> kv_tensor_info list" where
  "indexers_of layers =
     concat (map (\<lambda>layer. case li_indexer layer of None \<Rightarrow> [] | Some ix \<Rightarrow> [ix]) layers)"

definition build_cuda_layout ::
  "nat \<Rightarrow> nat \<Rightarrow> (string \<Rightarrow> nat) \<Rightarrow> (string \<times> tensor) list \<Rightarrow> kv_layout result" where
  "build_cuda_layout pp_size num_hidden_layers layer_id kvcaches =
     rbind (collect_cuda layer_id kvcaches []) (\<lambda>d.
       if d = [] then Inl IndexError
       else
         rbind (rmap (cuda_layer d) (sort (map fst d))) (\<lambda>layers.
           if \<exists>layer \<in> set (tl layers). sfa_sizes layer \<noteq> sfa_sizes (hd layers) then Inl ValueError
           else if indexers_of layers = [] then Inl ValueError
           else
             rbind (validate_uniform_sizes (map ti_bytes_per_block (indexers_of layers))) (\<lambda>indexer_size.
               rbind (build_segment_rows layers ''bf16'' indexer_size 0 0)
                 (set_segment_rows pp_size num_hidden_layers))))"

section \<open>Ascend\<close>

definition ascend_layer :: "nat \<Rightarrow> nat \<Rightarrow> nat option \<times> kv_tensor_info list \<Rightarrow> layer_info result" where
  "ascend_layer base_tensor_count max_extra_count p =
     (case p of (i, row) \<Rightarrow>
        let extras = drop base_tensor_count row in
        if max_extra_count < length extras then Inl ValueError
        else Inr \<lparr>li_layer_id = (case i of None \<Rightarrow> 0 | Some n \<Rightarrow> n),
                  li_sfa_tensors = take base_tensor_count row,
                  li_indexer = (case extras of [] \<Rightarrow> None | x # _ \<Rightarrow> Some x),
                  li_scale = (case extras of [x, y] \<Rightarrow> Some y | _ \<Rightarrow> None)\<rparr>)"

definition indexer_sizes :: "layer_info list \<Rightarrow> nat list" where
  "indexer_sizes layers = map ti_bytes_per_block (indexers_of layers)"

definition scale_sizes :: "layer_info list \<Rightarrow> nat list" where
  "scale_sizes layers =
     map ti_bytes_per_block
       (concat (map (\<lambda>layer. case li_scale layer of None \<Rightarrow> [] | Some sc \<Rightarrow> [sc]) layers))"

definition ascend_rows :: "bool \<Rightarrow> bool \<Rightarrow> nat option list \<Rightarrow> kv_tensor_info list list \<Rightarrow> kv_segment list list result" where
  "ascend_rows sfa_c8 li_c8 row_layer_ids tensor_rows =
     (if tensor_rows = [] \<or> hd tensor_rows = [] then Inl ValueError
      else
        let base_tensor_count = (if sfa_c8 then 1 else 2);
            base_sizes = map ti_bytes_per_block (take base_tensor_count (hd tensor_rows))
        in
        if length base_sizes \<noteq> base_tensor_count then Inl ValueError
        else if \<exists>row \<in> set tensor_rows. map ti_bytes_per_block (take base_tensor_count row) \<noteq> base_sizes
        then Inl ValueError
        else
          rbind (rmap (ascend_layer base_tensor_count (if li_c8 then 2 else 1)) (zip row_layer_ids tensor_rows))
            (\<lambda>layers.
              let c8_layers = filter (\<lambda>l. li_scale l \<noteq> None) layers;
                  bf16_layers = filter (\<lambda>l. li_indexer l \<noteq> None \<and> li_scale l = None) layers;
                  chunk_of = (if c8_layers \<noteq> [] then validate_uniform_sizes (indexer_sizes c8_layers) else Inr 0);
                  scale_of = (if c8_layers \<noteq> [] then validate_uniform_sizes (scale_sizes c8_layers) else Inr 0)
              in
              if c8_layers = [] \<and> bf16_layers = [] then Inl ValueError
              else
                rbind chunk_of (\<lambda>index_chunk_size. rbind scale_of (\<lambda>scale_size.
                  if c8_layers \<noteq> [] \<and> bf16_layers \<noteq> []
                  then build_segment_rows layers ''mixed'' 0 index_chunk_size scale_size
                  else if c8_layers \<noteq> []
                  then build_segment_rows layers ''li_c8'' 0 index_chunk_size scale_size
                  else rbind (validate_uniform_sizes (indexer_sizes bf16_layers)) (\<lambda>indexer_size.
                         build_segment_rows layers ''bf16'' indexer_size index_chunk_size scale_size)))))"

definition build_ascend_layout ::
  "bool \<Rightarrow> bool \<Rightarrow> nat \<Rightarrow> nat \<Rightarrow> (string \<Rightarrow> nat) \<Rightarrow> nat \<Rightarrow> kv_caches \<Rightarrow> kv_layout result" where
  "build_ascend_layout sfa_c8 li_c8 pp_size num_hidden_layers layer_id first kvcaches =
     rbind (collect_tensor_rows layer_id first kvcaches) (\<lambda>(tensor_rows, row_layer_ids).
       rbind (ascend_rows sfa_c8 li_c8 row_layer_ids tensor_rows)
         (set_segment_rows pp_size num_hidden_layers))"

section \<open>Rows of one width\<close>

lemma segment_sizes [simp]:
  "sg_copy_size (ghost_segment n) = n" "sg_copy_size (real_segment p c st b) = c"
  "sg_copy_size (whole_tensor_segment t) = ti_bytes_per_block t"
  by (simp_all add: ghost_segment_def real_segment_def whole_tensor_segment_def)

lemma sfa_copy_sizes [simp]: "map sg_copy_size (map whole_tensor_segment ts) = map ti_bytes_per_block ts"
  by simp

lemma validate_uniform_Inr: "validate_uniform_sizes vs = Inr v \<Longrightarrow> x \<in> set vs \<Longrightarrow> x = v"
proof -
  assume v: "validate_uniform_sizes vs = Inr v" and x: "x \<in> set vs"
  from v have "remdups vs = [v]" by (auto simp: validate_uniform_sizes_def split: list.splits)
  then have "set vs = {v}" by (metis list.set(1,2) set_remdups)
  with x show "x = v" by simp
qed

lemma indexer_size_mem: "layer \<in> set layers \<Longrightarrow> li_indexer layer = Some ix \<Longrightarrow> ti_bytes_per_block ix \<in> set (indexer_sizes layers)"
  by (force simp: indexer_sizes_def indexers_of_def)

lemma scale_size_mem: "layer \<in> set layers \<Longrightarrow> li_scale layer = Some sc \<Longrightarrow> ti_bytes_per_block sc \<in> set (scale_sizes layers)"
  by (force simp: scale_sizes_def)

text \<open>The sizes of one row, mode by mode.\<close>

lemma row_bf16:
  assumes "segment_row ''bf16'' n c sc layer = Inr row"
    and "\<forall>ix. li_indexer layer = Some ix \<longrightarrow> ti_bytes_per_block ix = n"
  shows "map sg_copy_size row = sfa_sizes layer @ [n]"
  using assms by (auto simp: segment_row_def sfa_sizes_def Let_def comp_def split: option.splits)

lemma row_li_c8:
  assumes "segment_row ''li_c8'' n c s layer = Inr row"
    and "\<forall>ix sc. li_indexer layer = Some ix \<longrightarrow> li_scale layer = Some sc \<longrightarrow>
           ti_bytes_per_block ix = c \<and> ti_bytes_per_block sc = s"
  shows "map sg_copy_size row = sfa_sizes layer @ [c, s]"
  using assms by (auto simp: segment_row_def sfa_sizes_def Let_def comp_def split: option.splits)

lemma row_mixed:
  assumes "segment_row ''mixed'' n c s layer = Inr row"
    and "\<forall>sc. li_scale layer = Some sc \<longrightarrow> ti_bytes_per_block sc = s"
  shows "map sg_copy_size row = sfa_sizes layer @ [c, c, s]"
  using assms by (auto simp: segment_row_def sfa_sizes_def Let_def comp_def split: option.splits if_splits)

lemma rows_sizes:
  assumes "build_segment_rows layers mode n c s = Inr rows"
    and "\<And>layer row. layer \<in> set layers \<Longrightarrow> segment_row mode n c s layer = Inr row \<Longrightarrow>
           map sg_copy_size row = sizes"
  shows "length rows = length layers \<and> (\<forall>row \<in> set rows. map sg_copy_size row = sizes)"
proof -
  from rmap_Inr [OF assms(1) [unfolded build_segment_rows_def]]
  have len: "length rows = length layers"
    and row: "\<forall>i < length layers. segment_row mode n c s (layers ! i) = Inr (rows ! i)" by auto
  have "map sg_copy_size (rows ! i) = sizes" if "i < length rows" for i
    using assms(2) [of "layers ! i" "rows ! i"] row len that by simp
  with len show ?thesis by (auto simp: in_set_conv_nth)
qed

lemma ascend_layer_fields:
  assumes "ascend_layer k mx (i, row) = Inr layer"
  shows "li_sfa_tensors layer = take k row" and "li_scale layer \<noteq> None \<Longrightarrow> li_indexer layer \<noteq> None"
proof -
  let ?e = "drop k row"
  have l: "layer = \<lparr>li_layer_id = (case i of None \<Rightarrow> 0 | Some n \<Rightarrow> n), li_sfa_tensors = take k row,
      li_indexer = (case ?e of [] \<Rightarrow> None | x # _ \<Rightarrow> Some x),
      li_scale = (case ?e of [x, y] \<Rightarrow> Some y | _ \<Rightarrow> None)\<rparr>"
    using assms by (simp add: ascend_layer_def Let_def split: if_splits)
  show "li_sfa_tensors layer = take k row" by (simp add: l)
  show "li_scale layer \<noteq> None \<Longrightarrow> li_indexer layer \<noteq> None" by (auto simp: l split: list.splits)
qed

text \<open>
  The row lemmas together, for layers whose base tensors agree and whose indexers and scales
  passed the checks.
\<close>

lemma ascend_rows_uniform:
  assumes "ascend_rows sfa_c8 li_c8 row_layer_ids tensor_rows = Inr rows"
    and "length row_layer_ids = length tensor_rows"
  shows "\<exists>sizes. length rows = length tensor_rows \<and> (\<forall>row \<in> set rows. map sg_copy_size row = sizes)
    \<and> map ti_bytes_per_block (take (if sfa_c8 then 1 else 2) (hd tensor_rows))
        = take (if sfa_c8 then 1 else 2) sizes"
proof -
  define k :: nat where "k = (if sfa_c8 then 1 else 2)"
  define mx :: nat where "mx = (if li_c8 then 2 else 1)"
  define base where "base = map ti_bytes_per_block (take k (hd tensor_rows))"
  define c8 where "c8 = (\<lambda>layers :: layer_info list. filter (\<lambda>l. li_scale l \<noteq> None) layers)"
  define bf where "bf = (\<lambda>layers :: layer_info list. filter (\<lambda>l. li_indexer l \<noteq> None \<and> li_scale l = None) layers)"
  from assms(1) obtain layers chunk scale where
    base: "\<forall>row \<in> set tensor_rows. map ti_bytes_per_block (take k row) = base" and lb: "length base = k"
    and lay: "rmap (ascend_layer k mx) (zip row_layer_ids tensor_rows) = Inr layers"
    and chunk: "(if c8 layers \<noteq> [] then validate_uniform_sizes (indexer_sizes (c8 layers)) else Inr 0) = Inr chunk"
    and scale: "(if c8 layers \<noteq> [] then validate_uniform_sizes (scale_sizes (c8 layers)) else Inr 0) = Inr scale"
    and rows: "(if c8 layers \<noteq> [] \<and> bf layers \<noteq> [] then build_segment_rows layers ''mixed'' 0 chunk scale
                else if c8 layers \<noteq> [] then build_segment_rows layers ''li_c8'' 0 chunk scale
                else rbind (validate_uniform_sizes (indexer_sizes (bf layers)))
                       (\<lambda>n. build_segment_rows layers ''bf16'' n chunk scale)) = Inr rows"
    unfolding ascend_rows_def k_def [symmetric] mx_def [symmetric] Let_def c8_def [symmetric] bf_def [symmetric]
    by (auto simp: rbind_Inr_iff base_def [symmetric] split: if_splits)
  from rmap_Inr [OF lay] assms(2) have ll: "length layers = length tensor_rows"
    and li: "\<forall>i < length tensor_rows. ascend_layer k mx (row_layer_ids ! i, tensor_rows ! i) = Inr (layers ! i)"
    by auto
  have sfa: "sfa_sizes layer = base" if "layer \<in> set layers" for layer
  proof -
    from that obtain i where i: "i < length tensor_rows" "layer = layers ! i" by (metis in_set_conv_nth ll)
    with li have "li_sfa_tensors layer = take k (tensor_rows ! i)"
      using ascend_layer_fields(1) by blast
    with base i show ?thesis by (simp add: sfa_sizes_def)
  qed
  have both: "li_indexer layer \<noteq> None" if "layer \<in> set layers" "li_scale layer \<noteq> None" for layer
  proof -
    from that obtain i where i: "i < length tensor_rows" "layer = layers ! i" by (metis in_set_conv_nth ll)
    with li that(2) show ?thesis using ascend_layer_fields(2) by blast
  qed
  have sc: "ti_bytes_per_block s = scale" and ch: "ti_bytes_per_block ix = chunk"
    if "layer \<in> set layers" "li_scale layer = Some s" "li_indexer layer = Some ix" for layer s ix
  proof -
    from that have m: "layer \<in> set (c8 layers)" by (simp add: c8_def)
    then have ne: "c8 layers \<noteq> []" by auto
    show "ti_bytes_per_block s = scale"
      using validate_uniform_Inr scale ne scale_size_mem [OF m that(2)] by auto
    show "ti_bytes_per_block ix = chunk"
      using validate_uniform_Inr chunk ne indexer_size_mem [OF m that(3)] by auto
  qed
  have "\<exists>ext. length rows = length layers \<and> (\<forall>row \<in> set rows. map sg_copy_size row = base @ ext)"
  proof (cases "c8 layers = []")
    case False
    show ?thesis
    proof (cases "bf layers = []")
      case True
      with False rows have b: "build_segment_rows layers ''li_c8'' 0 chunk scale = Inr rows" by simp
      have "length rows = length layers \<and> (\<forall>row \<in> set rows. map sg_copy_size row = base @ [chunk, scale])"
        by (rule rows_sizes [OF b]) (use row_li_c8 sfa sc ch in metis)
      then show ?thesis by blast
    next
      case bfl: False
      with False rows have b: "build_segment_rows layers ''mixed'' 0 chunk scale = Inr rows" by simp
      have "length rows = length layers \<and> (\<forall>row \<in> set rows. map sg_copy_size row = base @ [chunk, chunk, scale])"
      proof (rule rows_sizes [OF b])
        fix layer row
        assume l: "layer \<in> set layers" and r: "segment_row ''mixed'' 0 chunk scale layer = Inr row"
        have "\<forall>s. li_scale layer = Some s \<longrightarrow> ti_bytes_per_block s = scale"
          using sc [OF l] both [OF l] by auto
        from row_mixed [OF r this] sfa [OF l]
        show "map sg_copy_size row = base @ [chunk, chunk, scale]" by simp
      qed
      then show ?thesis by blast
    qed
  next
    case True
    with rows obtain n where v: "validate_uniform_sizes (indexer_sizes (bf layers)) = Inr n"
      and b: "build_segment_rows layers ''bf16'' n chunk scale = Inr rows"
      by (auto simp: rbind_Inr_iff)
    have "length rows = length layers \<and> (\<forall>row \<in> set rows. map sg_copy_size row = base @ [n])"
    proof (rule rows_sizes [OF b])
      fix layer row
      assume l: "layer \<in> set layers" and r: "segment_row ''bf16'' n chunk scale layer = Inr row"
      have "ti_bytes_per_block ix = n" if ix: "li_indexer layer = Some ix" for ix
      proof -
        have "li_scale layer = None" using True l by (auto simp: c8_def filter_empty_conv)
        with l ix have "layer \<in> set (bf layers)" by (simp add: bf_def)
        from validate_uniform_Inr [OF v indexer_size_mem [OF this ix]] show ?thesis .
      qed
      with row_bf16 [OF r] sfa [OF l] show "map sg_copy_size row = base @ [n]" by simp
    qed
    then show ?thesis by blast
  qed
  with ll lb show ?thesis
    unfolding base_def [symmetric] k_def [symmetric] by (metis append_eq_conv_conj)
qed

lemma build_cuda_rows:
  assumes "build_cuda_layout pp n layer_id kvcaches = Inr l"
  shows "\<exists>rows sizes. set_segment_rows pp n rows = Inr l \<and> rows \<noteq> []
    \<and> (\<forall>row \<in> set rows. map sg_copy_size row = sizes)"
proof -
  from assms obtain d layers v rows where
    d: "d \<noteq> []" and lay: "rmap (cuda_layer d) (sort (map fst d)) = Inr layers"
    and same: "\<forall>layer \<in> set (tl layers). sfa_sizes layer = sfa_sizes (hd layers)"
    and v: "validate_uniform_sizes (map ti_bytes_per_block (indexers_of layers)) = Inr v"
    and b: "build_segment_rows layers ''bf16'' v 0 0 = Inr rows" and l: "set_segment_rows pp n rows = Inr l"
    unfolding build_cuda_layout_def
    by (auto simp: rbind_Inr_iff split: if_splits)
  from rmap_Inr [OF lay] d have ne: "layers \<noteq> []" by auto
  have sfa: "sfa_sizes layer = sfa_sizes (hd layers)" if "layer \<in> set layers" for layer
    using that same ne by (cases layers) auto
  have "length rows = length layers \<and> (\<forall>row \<in> set rows. map sg_copy_size row = sfa_sizes (hd layers) @ [v])"
  proof (rule rows_sizes [OF b])
    fix layer row
    assume m: "layer \<in> set layers" and r: "segment_row ''bf16'' v 0 0 layer = Inr row"
    have "ti_bytes_per_block ix = v" if "li_indexer layer = Some ix" for ix
    proof -
      have "ix \<in> set (indexers_of layers)" using m that by (force simp: indexers_of_def)
      then show ?thesis using validate_uniform_Inr [OF v] by simp
    qed
    with row_bf16 [OF r] sfa [OF m] show "map sg_copy_size row = sfa_sizes (hd layers) @ [v]" by simp
  qed
  with l ne show ?thesis by (intro exI [of _ rows]) auto
qed

lemma build_ascend_rows:
  assumes "build_ascend_layout sfa_c8 li_c8 pp n layer_id first kvcaches = Inr l"
  shows "\<exists>rows sizes. set_segment_rows pp n rows = Inr l \<and> rows \<noteq> []
    \<and> (\<forall>row \<in> set rows. map sg_copy_size row = sizes)"
proof -
  from assms obtain tensor_rows ids rows where
    c: "collect_tensor_rows layer_id first kvcaches = Inr (tensor_rows, ids)"
    and r: "ascend_rows sfa_c8 li_c8 ids tensor_rows = Inr rows" and l: "set_segment_rows pp n rows = Inr l"
    by (auto simp: build_ascend_layout_def rbind_Inr_iff)
  define k where "k = num_layer_rows layer_id kvcaches"
  from c have cl: "collect_loop layer_id first k kvcaches (replicate k [], replicate k None) = Inr (tensor_rows, ids)"
    by (simp add: collect_tensor_rows_def Let_def k_def)
  from collect_loop_rows [OF cl length_replicate length_replicate]
  have len: "length ids = length tensor_rows" by simp
  have "tensor_rows \<noteq> []" using r by (auto simp: ascend_rows_def)
  with ascend_rows_uniform [OF r len] l show ?thesis by (metis length_0_conv)
qed

section \<open>Properties\<close>

text \<open>
  Every row of a shared-indexer layout has the same segment sizes, on CUDA and on Ascend
  and in each of the modes: the one size list handed to the store describes all layers,
  ghosts included.
\<close>

lemma shared_indexer_rows_have_one_width:
  assumes "build_cuda_layout pp n layer_id tensors = Inr l
         \<or> build_ascend_layout sfa_c8 li_c8 pp n layer_id first kvcaches = Inr l"
  shows "\<exists>sizes rows. tensor_size_list l = Inr sizes \<and> kl_tensor_size_lists l = Rows rows
    \<and> rows \<noteq> [] \<and> (\<forall>row \<in> set rows. map unat row = sizes)"
proof -
  from assms build_cuda_rows build_ascend_rows obtain rows sizes where
    l: "set_segment_rows pp n rows = Inr l" and ne: "rows \<noteq> []"
    and s: "\<forall>row \<in> set rows. map sg_copy_size row = sizes" by blast
  from l have f: "kl_use_layerwise l" "kl_tensor_size_lists l = Rows (map (map of_nat) (map (map sg_copy_size) rows))"
    and r: "\<forall>row \<in> set rows. \<forall>x \<in> set row. sg_copy_size x < 2 ^ 64"
    by (auto simp: set_segment_rows_def rbind_Inr_iff np_rows_Inr)
  have "map unat (map of_nat (map sg_copy_size row) :: u64 list) = sizes" if "row \<in> set rows" for row
  proof -
    have "map unat (map of_nat (map sg_copy_size row) :: u64 list) = map sg_copy_size row"
      using r that by (auto simp: unat_of_nat)
    with s that show ?thesis by simp
  qed
  then have u: "\<forall>row \<in> set (map (map of_nat) (map (map sg_copy_size) rows) :: u64 list list). map unat row = sizes"
    by auto
  from ne obtain row rest where "rows = row # rest" by (cases rows) auto
  with u f have "tensor_size_list l = Inr sizes"
    by (simp add: tensor_size_list_def)
  with u f ne show ?thesis by blast
qed

text \<open>
  In a layout built from segments, the address of a segment is its pointer plus the block
  number times its stride; the address of a ghost is the null pointer for every block; and
  asking for the addresses layer by layer gives the same numbers, transposed.
\<close>

lemma segment_addresses:
  assumes "set_segment_rows pp n rows = Inr l"
    and "extract_block_addrs l blocks False = Inr a" and "extract_block_addrs l blocks True = Inr b"
    and "j < length blocks" and "r < length rows" and "k < length (rows ! r)"
  shows "\<exists>by_block by_layer. a = Addr3 by_block \<and> b = Addr3 by_layer
    \<and> by_block ! j ! r ! k
        = of_nat (blocks ! j) * of_nat (sg_block_stride (rows ! r ! k)) + of_nat (sg_ptr (rows ! r ! k))
    \<and> by_layer ! r ! j ! k = by_block ! j ! r ! k
    \<and> (rows ! r ! k = ghost_segment m \<longrightarrow> by_block ! j ! r ! k = 0)"
proof -
  let ?st = "map (map (of_nat \<circ> sg_block_stride)) rows :: u64 list list"
  let ?ba = "map (map (of_nat \<circ> sg_ptr)) rows :: u64 list list"
  from assms(1) have l: "kl_block_stride_lists l = Rows ?st" "kl_base_ptrs l = Rows ?ba"
    by (auto simp: set_segment_rows_def rbind_Inr_iff np_rows_Inr comp_def)
  let ?A = "map (\<lambda>b. map2 (\<lambda>st ba. row_addrs st ba b) ?st ?ba) (map of_nat blocks)"
  let ?B = "map2 (\<lambda>st ba. map (row_addrs st ba) (map of_nat blocks)) ?st ?ba"
  from assms(2,3) have ab: "a = Addr3 ?A" "b = Addr3 ?B"
    by (auto simp: extract_block_addrs_def rbind_Inr_iff rmap_u64_of l)
  have row: "row_addrs (map (of_nat \<circ> sg_block_stride) (rows ! r)) (map (of_nat \<circ> sg_ptr) (rows ! r)) w ! k
      = w * of_nat (sg_block_stride (rows ! r ! k)) + of_nat (sg_ptr (rows ! r ! k))" for w
    using assms(6) by (simp add: nth_row_addrs)
  have A: "?A ! j ! r ! k
        = of_nat (blocks ! j) * of_nat (sg_block_stride (rows ! r ! k)) + of_nat (sg_ptr (rows ! r ! k))"
    using assms(4,5) row by simp
  have B: "?B ! r ! j ! k = ?A ! j ! r ! k"
    using assms(4,5) by simp
  have "?A ! j ! r ! k = 0" if "rows ! r ! k = ghost_segment m"
    unfolding A that by (simp add: ghost_segment_def)
  with ab A B show ?thesis by blast
qed

text \<open>Concrete inputs: two Ascend layers, the second without an indexer of its own.\<close>

definition demo_npu :: "nat \<Rightarrow> tensor" where
  "demo_npu p = \<lparr>tn_shape = [4, 2, 1, 8], tn_strides = [16, 8, 8, 1], tn_elem = 2, tn_ptr = p\<rparr>"

definition demo_npu_caches :: kv_caches where
  "demo_npu_caches =
     [(''l0'', KvTuple [demo_npu 100, demo_npu 300, demo_npu 500]), (''l1'', KvTuple [demo_npu 700, demo_npu 900])]"

definition demo_segments :: "kv_segment list list" where
  "demo_segments =
     [[real_segment 100 32 32 128, real_segment 300 32 32 128, real_segment 500 32 32 128],
      [real_segment 700 32 32 128, real_segment 900 32 32 128, ghost_segment 32]]"

lemma demo_ascend:
  "build_ascend_layout False False 1 2 demo_layer_id 0 demo_npu_caches = set_segment_rows 1 2 demo_segments"
  by (simp add: build_ascend_layout_def collect_tensor_rows_def num_layer_rows_def demo_npu_caches_def
      demo_layer_id_def demo_npu_def py_wrap_index_def layer_tensors_def tensor_select_def handle_tensor_def
      ascend_rows_def ascend_layer_def Let_def validate_uniform_sizes_def indexer_sizes_def indexers_of_def
      build_segment_rows_def segment_row_def whole_tensor_segment_def real_segment_def demo_segments_def
      insert_commute card_insert_if)

lemma demo_segments_layout: "\<exists>l. set_segment_rows 1 2 demo_segments = Inr l"
  by (simp add: set_segment_rows_def demo_segments_def np_rows_def u64_of_def real_segment_def ghost_segment_def)

end
