(* ===== verification/Fawa_Scheduler.thy ===== *)
theory Fawa_Scheduler
  imports Direct_Scheduler
begin

text \<open>
  The scheduler side of \<open>UCMFAWAConnector\<close> (\<open>hma_connector.py\<close>): models that mix
  full-attention (FA) and window-attention (WA) cache groups. FA rows are stored per canonical
  hash block and must be present as a prefix; WA rows hold the window's tail at a block
  boundary, and only the boundary of the final match is needed. The connector classifies the
  groups, finds the longest usable prefix, and plans loads and dumps per group.
\<close>

section \<open>Groups\<close>

record group_meta =
  gm_group_id :: nat
  gm_token_block_size :: nat
  gm_tail_blocks :: nat
  gm_tail_tokens :: int

text \<open>
  What the code reads of a vLLM cache group: the representative spec's class name, block size,
  sliding window and compression ratio, and the first layer's name components.
\<close>

record group_spec =
  gs_spec_name :: string
  gs_block_size :: nat
  gs_sliding_window :: "nat option"
  gs_compress_ratio :: nat
  gs_last_component :: string
  gs_layer_index :: nat

definition can_handle_ascend :: "group_spec list \<Rightarrow> bool" where
  "can_handle_ascend groups = (''AscendSlidingWindowMLASpec'' \<in> gs_spec_name ` set groups)"

definition can_handle_kv_cache_config :: "group_spec list option \<Rightarrow> bool" where
  "can_handle_kv_cache_config config =
     (case config of
        None \<Rightarrow> False
      | Some groups \<Rightarrow>
          ''SlidingWindowMLASpec'' \<in> gs_spec_name ` set groups \<or> can_handle_ascend groups)"

definition ascend_base_block_size :: "group_spec list \<Rightarrow> nat result" where
  "ascend_base_block_size groups =
     (case remdups (map gs_block_size
             (filter (\<lambda>g. gs_sliding_window g = None \<and> gs_compress_ratio g = 4) groups)) of
        [block_size] \<Rightarrow> if block_size \<in> {32, 64, 128} then Inr block_size else Inl ValueError
      | _ \<Rightarrow> Inl ValueError)"

record fawa_groups =
  fg_fa_group_ids :: "nat list"
  fg_window_group_ids :: "nat list"
  fg_metas :: "group_meta list"
  fg_max_token_block_size :: nat

text \<open>
  The loop of \<open>_init_group_metas\<close>. A window group of a compressor state keeps the window
  less the layer's compression ratio, which Python computes as an integer of any sign.
\<close>

definition tail_tokens_of :: "nat \<Rightarrow> nat list \<Rightarrow> group_spec \<Rightarrow> int result" where
  "tail_tokens_of hash_block_size ratios g =
     (case gs_sliding_window g of
        None \<Rightarrow> Inr (int hash_block_size)
      | Some window_size \<Rightarrow>
          if gs_last_component g = ''swa_cache'' then Inr (int window_size)
          else rbind (py_index ratios (gs_layer_index g)) (\<lambda>ratio. Inr (int window_size - int ratio)))"

fun init_groups ::
  "nat \<Rightarrow> bool \<Rightarrow> nat list \<Rightarrow> nat \<Rightarrow> group_spec list \<Rightarrow> fawa_groups \<Rightarrow> fawa_groups result" where
  "init_groups hash_block_size is_ascend ratios i [] acc = Inr acc"
| "init_groups hash_block_size is_ascend ratios i (g # rest) acc =
     (let token_block_size = (if is_ascend then gs_block_size g * gs_compress_ratio g else gs_block_size g) in
      rbind (tail_tokens_of hash_block_size ratios g) (\<lambda>tail_tokens.
        if token_block_size = 0 then Inl ZeroDivisionError
        else
          let acc1 = (if gs_sliding_window g = None
                      then acc\<lparr>fg_fa_group_ids := fg_fa_group_ids acc @ [i]\<rparr>
                      else acc\<lparr>fg_window_group_ids := fg_window_group_ids acc @ [i]\<rparr>)
          in init_groups hash_block_size is_ascend ratios (Suc i) rest
               (acc1\<lparr>fg_max_token_block_size := max (fg_max_token_block_size acc) token_block_size,
                     fg_metas := fg_metas acc
                       @ [\<lparr>gm_group_id = i, gm_token_block_size = token_block_size,
                           gm_tail_blocks = nat (max (tail_tokens div int token_block_size) 1),
                           gm_tail_tokens = tail_tokens\<rparr>]\<rparr>)))"

text \<open>
  \<open>_init_group_metas\<close> up to the divisibility check; \<open>ratios\<close> is the model's
  \<open>compress_ratios\<close>. The result pairs the hash block size with the groups.
\<close>

definition init_group_metas ::
  "nat list option \<Rightarrow> group_spec list \<Rightarrow> (nat \<times> fawa_groups) result" where
  "init_group_metas ratios groups =
     (let is_ascend = can_handle_ascend groups in
      rbind (if is_ascend then rbind (ascend_base_block_size groups) (\<lambda>b. Inr (b * 4)) else Inr 256)
        (\<lambda>hash_block_size.
          case ratios of
            None \<Rightarrow> Inl ValueError
          | Some rs \<Rightarrow>
              rbind (init_groups hash_block_size is_ascend rs 0 groups
                       \<lparr>fg_fa_group_ids = [], fg_window_group_ids = [], fg_metas = [],
                        fg_max_token_block_size = 0\<rparr>) (\<lambda>fg.
                if fg_max_token_block_size fg mod hash_block_size \<noteq> 0 then Inl ValueError
                else Inr (hash_block_size, fg))))"

text \<open>\<open>round_up\<close> of \<open>ucm/sparse/utils.py\<close>, and the file sizes kept for block collection.\<close>

definition round_up :: "nat \<Rightarrow> nat \<Rightarrow> nat" where
  "round_up x y = ((x + y - 1) div y) * y"

definition fawa_file_size :: "nat option \<Rightarrow> nat \<Rightarrow> nat option \<Rightarrow> nat \<times> nat" where
  "fawa_file_size ascend_base num_ratios spec_tokens =
     (let (num_c4a, num_c128a, layers) = (if num_ratios < 61 then (21, 20, 43) else (30, 31, 61));
          total = (case spec_tokens of None \<Rightarrow> layers | Some n \<Rightarrow> if 0 < n then layers + 1 else layers);
          (fa, wa) = (case ascend_base of
             Some base \<Rightarrow> (base * ((1024 + 128 + 2) * num_c4a + 32 * num_c128a),
                           131072 * total + (32768 + 8192) * num_c4a)
           | None \<Rightarrow> ((37376 + 8448) * num_c4a + 1168 * num_c128a,
                      (37376 * 2) * total + (8192 + 32768) * num_c4a))
      in (round_up fa 4096, round_up wa 4096))"

section \<open>State\<close>

record fawa_meta =
  fm_ucm_block_ids :: "bytes list"
  fm_hbm_hit_block_num :: nat
  fm_total_hit_block_num :: nat
  fm_num_token_ids :: nat
  fm_vllm_block_ids :: "vllm_id list list"
  fm_token_processed :: nat

record fawa_dispatch =
  fd_load_keys :: "bytes list"
  fd_load_hash_start :: nat
  fd_load_hash_end :: nat
  fd_load_vllm_block_ids :: "vllm_id list list"
  fd_dump_keys :: "bytes list"
  fd_dump_hash_start :: nat
  fd_dump_hash_end :: nat
  fd_dump_vllm_block_ids :: "vllm_id list list"

record fawa_cfg =
  fc_hash_block_size :: nat
  fc_groups :: fawa_groups
  fc_persist_token_threshold :: nat
  fc_load_tokens_threshold :: nat
  fc_wa_dump_block_wise :: bool
  fc_hasher :: "hash_input \<Rightarrow> bytes"
  fc_seed :: bytes

record 'w fawa_scheduler =
  fs_requests_meta :: "(req_id, fawa_meta) dict"
  fs_rcm :: "'w rcm"
  fs_world :: 'w
  fs_metrics :: "metric list"

section \<open>Matching\<close>

text \<open>
  The loop \<open>for hit_blocks in range(fa_hit_blocks, -1, -1)\<close>: the latest boundary whose WA
  row exists. At \<open>hit_blocks = 0\<close> the code probes \<open>external_keys[-1]\<close>, the last key;
  it returns 0 whatever the answer, but the lookup is made and may raise.
\<close>

fun wa_boundary_loop ::
  "'w rcm \<Rightarrow> ('w, 'b) kv_lookup_api_scheme \<Rightarrow> bytes list \<Rightarrow> nat \<Rightarrow> 'w \<Rightarrow> nat result \<times> 'w" where
  "wa_boundary_loop m wa_store keys hit_blocks w =
     (let key = (if hit_blocks = 0 then last keys else keys ! (hit_blocks - 1)) in
      case rcm_lookup_all m wa_store w [key] of
        (Inl e, w') \<Rightarrow> (Inl e, w')
      | (Inr answers, w') \<Rightarrow>
          (case answers of
             [] \<Rightarrow> (Inl IndexError, w')
           | found # _ \<Rightarrow>
               if found then (Inr hit_blocks, w')
               else (case hit_blocks of
                       0 \<Rightarrow> (Inr 0, w')
                     | Suc k \<Rightarrow> wa_boundary_loop m wa_store keys k w')))"

declare wa_boundary_loop.simps [simp del]

definition fawa_lookup_external ::
  "'w rcm \<Rightarrow> ('w, 'b) kv_lookup_api_scheme \<Rightarrow> ('w, 'b) kv_lookup_api_scheme \<Rightarrow> bytes list \<Rightarrow> 'w
     \<Rightarrow> nat result \<times> 'w" where
  "fawa_lookup_external m fa_store wa_store external_keys w =
     (case rcm_lookup_on_prefix m fa_store w external_keys of
        (Inl e, w') \<Rightarrow> (Inl e, w')
      | (Inr index, w') \<Rightarrow>
          let fa_hit_blocks = index + 1 in
          if fa_hit_blocks \<le> 0 then (Inr 0, w')
          else wa_boundary_loop m wa_store external_keys (nat fa_hit_blocks) w')"

definition fawa_stats :: "metric list \<Rightarrow> 'w fawa_scheduler \<Rightarrow> 'w fawa_scheduler" where
  "fawa_stats ms s = s\<lparr>fs_metrics := fs_metrics s @ ms\<rparr>"

definition fawa_get_num_new_matched_tokens ::
  "fawa_cfg \<Rightarrow> ('w, 'b) kv_lookup_api_scheme \<Rightarrow> ('w, 'b) kv_lookup_api_scheme \<Rightarrow> 'w fawa_scheduler
     \<Rightarrow> request \<Rightarrow> nat \<Rightarrow> (int \<times> bool) \<times> 'w fawa_scheduler" where
  "fawa_get_num_new_matched_tokens cf fa_store wa_store s request num_computed_tokens =
     (let hbs = fc_hash_block_size cf;
          wa_hbm = num_computed_tokens div hbs;
          wa_computed_tokens = wa_hbm * hbs
      in
      if rq_num_tokens request \<le> fc_persist_token_threshold cf
         \<or> rq_num_tokens request \<le> wa_computed_tokens + fc_load_tokens_threshold cf
      then ((0, False), s)
      else
        let canonical_hashes = generate_hash (fc_hasher cf) hbs (rq_all_token_ids request) (fc_seed cf);
            external_keys = drop wa_hbm canonical_hashes
        in
        if external_keys = [] then ((0, False), s)
        else
          let (external_hit_blocks, s1) =
                (case fawa_lookup_external (fs_rcm s) fa_store wa_store external_keys (fs_world s) of
                   (Inl e, w) \<Rightarrow>
                     (0, fawa_stats [MCount ''connector_lookup_errors_total'' 1] (s\<lparr>fs_world := w\<rparr>))
                 | (Inr hits, w) \<Rightarrow> (hits, s\<lparr>fs_world := w\<rparr>));
              total_hit_block_num = wa_hbm + external_hit_blocks;
              num_total_hit_tokens = external_hit_blocks * hbs + wa_computed_tokens;
              external_hit_tokens = int num_total_hit_tokens - int num_computed_tokens;
              external_hit_tokens = (if num_total_hit_tokens = rq_num_tokens request
                                     then external_hit_tokens - 1 else external_hit_tokens);
              few = (external_hit_blocks * hbs \<le> fc_load_tokens_threshold cf);
              external_hit_tokens = (if few then 0 else external_hit_tokens);
              num_total_hit_tokens = (if few then num_computed_tokens else num_total_hit_tokens);
              hbm = (if few then wa_hbm + external_hit_blocks else wa_hbm)
          in ((external_hit_tokens, False),
              s1\<lparr>fs_requests_meta :=
                   dict_set (rq_id request)
                     \<lparr>fm_ucm_block_ids = canonical_hashes, fm_hbm_hit_block_num = hbm,
                      fm_total_hit_block_num = total_hit_block_num,
                      fm_num_token_ids = rq_num_tokens request, fm_vllm_block_ids = [],
                      fm_token_processed = num_total_hit_tokens\<rparr>
                     (fs_requests_meta s1)\<rparr>))"

section \<open>Choosing the blocks of a group\<close>

text \<open>\<open>np.array(xs)[idx]\<close> for an array of indices: negative ones count from the end.\<close>

definition np_take :: "'a list \<Rightarrow> int list \<Rightarrow> 'a list result" where
  "np_take xs idx =
     rmap (\<lambda>i. if - int (length xs) \<le> i \<and> i < int (length xs)
               then Inr (xs ! nat (i mod int (length xs))) else Inl IndexError) idx"

definition slice_group_block_ids ::
  "fawa_groups \<Rightarrow> nat \<Rightarrow> vllm_id list \<Rightarrow> nat list \<Rightarrow> bool \<Rightarrow> vllm_id list result" where
  "slice_group_block_ids fg group_id group_block_ids boundaries block_wise =
     rbind (py_index (fg_metas fg) group_id) (\<lambda>meta.
       let tbs = gm_token_block_size meta; tail = gm_tail_blocks meta in
       if group_id \<in> set (fg_window_group_ids fg) then
         (if gm_tail_tokens meta = 0 then Inr []
          else if block_wise then
            np_take group_block_ids
              (concat (map (\<lambda>b. map (\<lambda>o'. int (b div tbs) - int o') (rev [0..<tail])) boundaries))
          else if boundaries = [] then Inl IndexError
          else
            let boundary_block_idx = last boundaries div tbs + 1 in
            Inr (py_slice_int group_block_ids (int boundary_block_idx - int tail) (int boundary_block_idx)))
       else np_take group_block_ids (map (\<lambda>b. int (b div tbs)) boundaries))"

text \<open>The last token of each canonical block from \<open>a\<close> up to \<open>b\<close>.\<close>

definition window_boundaries :: "nat \<Rightarrow> nat \<Rightarrow> nat \<Rightarrow> nat list" where
  "window_boundaries hbs a b = map (\<lambda>i. i * hbs - 1) [Suc a..<Suc b]"

definition slice_groups ::
  "fawa_groups \<Rightarrow> vllm_id list list \<Rightarrow> nat list \<Rightarrow> bool \<Rightarrow> vllm_id list list result" where
  "slice_groups fg all_group_block_ids boundaries block_wise =
     rmap (\<lambda>(group_id, ids). slice_group_block_ids fg group_id ids boundaries block_wise)
       (enumerate 0 all_group_block_ids)"

section \<open>The dispatch plan\<close>

text \<open>
  \<open>_generate_dispatch_meta\<close>. The new block ids are appended in place before the slices
  that may raise are taken, and the processed tokens are written last; an exception leaves
  the request with its blocks appended.
\<close>

definition fawa_load_ids ::
  "fawa_cfg \<Rightarrow> fawa_meta \<Rightarrow> bool \<Rightarrow> vllm_id list list result" where
  "fawa_load_ids cf m loads =
     (if loads
      then slice_groups (fc_groups cf) (fm_vllm_block_ids m)
             (window_boundaries (fc_hash_block_size cf) (fm_hbm_hit_block_num m) (fm_total_hit_block_num m)) False
      else Inr [])"

definition fawa_dump_ids ::
  "fawa_cfg \<Rightarrow> fawa_meta \<Rightarrow> nat \<Rightarrow> nat \<Rightarrow> vllm_id list list result" where
  "fawa_dump_ids cf m dump_start dump_end =
     (if dump_start < dump_end
      then slice_groups (fc_groups cf) (fm_vllm_block_ids m)
             (window_boundaries (fc_hash_block_size cf) dump_start dump_end) (fc_wa_dump_block_wise cf)
      else Inr [])"

text \<open>The request's own block ids, one list per group, created at its first dispatch.\<close>

definition fawa_own_ids :: "fawa_cfg \<Rightarrow> fawa_meta \<Rightarrow> vllm_id list list" where
  "fawa_own_ids cf m =
     (if fm_vllm_block_ids m = [] then replicate (length (fg_metas (fc_groups cf))) []
      else fm_vllm_block_ids m)"

text \<open>The body of the function after the block ids are appended.\<close>

definition fawa_transfers :: "fawa_cfg \<Rightarrow> fawa_meta \<Rightarrow> nat \<Rightarrow> bool \<Rightarrow> fawa_dispatch result \<times> fawa_meta" where
  "fawa_transfers cf m new_tokens need_load =
     (let hbs = fc_hash_block_size cf;
          hbm = fm_hbm_hit_block_num m; total = fm_total_hit_block_num m;
          loads = (need_load \<and> hbm < total);
          computed_end = min (fm_num_token_ids m) (fm_token_processed m + new_tokens);
          dump_start = max total (fm_token_processed m div hbs);
          dump_end = computed_end div hbs
      in case fawa_load_ids cf m loads of
           Inl e \<Rightarrow> (Inl e, m)
         | Inr load_ids \<Rightarrow>
             (case fawa_dump_ids cf m dump_start dump_end of
                Inl e \<Rightarrow> (Inl e, m)
              | Inr dump_ids \<Rightarrow>
                  (Inr \<lparr>fd_load_keys = (if loads then py_slice (fm_ucm_block_ids m) hbm total else []),
                        fd_load_hash_start = (if loads then hbm else 0),
                        fd_load_hash_end = (if loads then total else 0),
                        fd_load_vllm_block_ids = load_ids,
                        fd_dump_keys = py_slice (fm_ucm_block_ids m) dump_start dump_end,
                        fd_dump_hash_start = dump_start, fd_dump_hash_end = dump_end,
                        fd_dump_vllm_block_ids = dump_ids\<rparr>,
                   m\<lparr>fm_token_processed := computed_end\<rparr>)))"

definition fawa_dispatch_meta ::
  "fawa_cfg \<Rightarrow> fawa_meta \<Rightarrow> nat \<Rightarrow> vllm_id list list \<Rightarrow> bool \<Rightarrow> fawa_dispatch result \<times> fawa_meta" where
  "fawa_dispatch_meta cf req_meta new_tokens new_vllm_block_ids need_load =
     (let own = fawa_own_ids cf req_meta in
      if length new_vllm_block_ids \<noteq> length own
      then (Inl RuntimeError, req_meta\<lparr>fm_vllm_block_ids := own\<rparr>)
      else fawa_transfers cf (req_meta\<lparr>fm_vllm_block_ids := map2 (@) own new_vllm_block_ids\<rparr>)
             new_tokens need_load)"

section \<open>Metadata for a step\<close>

record fawa_connector_meta =
  fcm_request_meta :: "(req_id, fawa_dispatch) dict"
  fcm_preempted_req_ids :: "req_id set"

type_synonym 'w fawa_acc = "'w fawa_scheduler \<times> (req_id, fawa_dispatch) dict"

definition fawa_dispatch_request ::
  "fawa_cfg \<Rightarrow> scheduler_output \<Rightarrow> req_id \<Rightarrow> fawa_meta \<Rightarrow> vllm_id list list \<Rightarrow> bool \<Rightarrow> 'w fawa_acc
     \<Rightarrow> 'w fawa_acc result" where
  "fawa_dispatch_request cf out request_id req_meta new_ids need_load acc =
     rbind (py_key (so_num_scheduled out) request_id) (\<lambda>new_tokens.
       case fawa_dispatch_meta cf req_meta new_tokens new_ids need_load of
         (Inl e, _) \<Rightarrow> Inl e
       | (Inr dm, req_meta') \<Rightarrow>
           Inr ((fst acc)\<lparr>fs_requests_meta := dict_set request_id req_meta' (fs_requests_meta (fst acc))\<rparr>,
                dict_set request_id dm (snd acc)))"

fun fawa_dispatch_new ::
  "fawa_cfg \<Rightarrow> scheduler_output \<Rightarrow> (req_id \<times> vllm_id list list) list \<Rightarrow> 'w fawa_acc \<Rightarrow> 'w fawa_acc result" where
  "fawa_dispatch_new cf out [] acc = Inr acc"
| "fawa_dispatch_new cf out ((request_id, block_ids) # rest) acc =
     (case dict_get (fs_requests_meta (fst acc)) request_id of
        None \<Rightarrow> fawa_dispatch_new cf out rest acc
      | Some req_meta \<Rightarrow>
          rbind (fawa_dispatch_request cf out request_id req_meta block_ids True acc)
            (fawa_dispatch_new cf out rest))"

fun fawa_dispatch_cached ::
  "fawa_cfg \<Rightarrow> scheduler_output \<Rightarrow> cached_data \<Rightarrow> nat \<Rightarrow> req_id list \<Rightarrow> 'w fawa_acc \<Rightarrow> 'w fawa_acc result" where
  "fawa_dispatch_cached cf out cd i [] acc = Inr acc"
| "fawa_dispatch_cached cf out cd i (request_id # rest) acc =
     (case dict_get (fs_requests_meta (fst acc)) request_id of
        None \<Rightarrow> fawa_dispatch_cached cf out cd (Suc i) rest acc
      | Some req_meta \<Rightarrow>
          rbind (py_index (cd_new_block_ids cd) i) (\<lambda>ids.
            let empty = replicate (length (fg_metas (fc_groups cf))) [];
                new_ids = (case ids of None \<Rightarrow> empty | Some groups \<Rightarrow> groups)
            in
            rbind (is_resumed cd i request_id) (\<lambda>resumed.
              let req_meta' = (if resumed then req_meta\<lparr>fm_vllm_block_ids := empty\<rparr> else req_meta) in
              rbind (fawa_dispatch_request cf out request_id req_meta' new_ids resumed acc)
                (fawa_dispatch_cached cf out cd (Suc i) rest))))"

definition fawa_build_connector_meta ::
  "fawa_cfg \<Rightarrow> 'w fawa_scheduler \<Rightarrow> scheduler_output \<Rightarrow> cached_data
     \<Rightarrow> (fawa_connector_meta \<times> 'w fawa_scheduler) result" where
  "fawa_build_connector_meta cf s out cd =
     rbind (fawa_dispatch_new cf out (so_new_reqs out) (s, [])) (\<lambda>acc.
       rbind (fawa_dispatch_cached cf out cd 0 (cd_req_ids cd) acc) (\<lambda>(s2, metas).
         Inr (\<lparr>fcm_request_meta = metas,
               fcm_preempted_req_ids = (case so_preempted out of None \<Rightarrow> {} | Some p \<Rightarrow> p)\<rparr>,
              s2\<lparr>fs_requests_meta := fold dict_pop (so_finished out) (fs_requests_meta s2)\<rparr>)))"

section \<open>The longest usable prefix\<close>

lemma wa_boundary_loop_honest:
  assumes "\<forall>v. honest_lookup wa v wa_store" and "rc_tracker m = Some t"
    and "h \<le> length keys" and "keys \<noteq> []"
  shows "\<exists>r w'. wa_boundary_loop m wa_store keys h w = (Inr r, w') \<and> r \<le> h
    \<and> (0 < r \<longrightarrow> wa (keys ! (r - 1)) \<and> keys ! (r - 1) \<notin> t)
    \<and> (\<forall>i. r < i \<and> i \<le> h \<longrightarrow> \<not> (wa (keys ! (i - 1)) \<and> keys ! (i - 1) \<notin> t))"
  using assms(3)
proof (induction h arbitrary: w)
  case 0
  let ?k = "last keys"
  have "fst (rcm_lookup_all m wa_store w [?k]) = Inr (map (\<lambda>b. b \<notin> t \<and> wa b) [?k])"
    using assms(1,2) by (intro rcm_lookup_all_honest) auto
  then obtain w' where "rcm_lookup_all m wa_store w [?k] = (Inr [?k \<notin> t \<and> wa ?k], w')"
    by (metis list.map(1,2) prod.collapse)
  then show ?case by (auto simp: wa_boundary_loop.simps [of m wa_store keys 0])
next
  case (Suc h)
  let ?k = "keys ! h"
  have "fst (rcm_lookup_all m wa_store w [?k]) = Inr (map (\<lambda>b. b \<notin> t \<and> wa b) [?k])"
    using assms(1,2) by (intro rcm_lookup_all_honest) auto
  then obtain w' where l: "rcm_lookup_all m wa_store w [?k] = (Inr [?k \<notin> t \<and> wa ?k], w')"
    by (metis list.map(1,2) prod.collapse)
  show ?case
  proof (cases "?k \<notin> t \<and> wa ?k")
    case True
    with l show ?thesis
      by (intro exI [of _ "Suc h"] exI [of _ w']) (auto simp: wa_boundary_loop.simps [of m wa_store keys "Suc h"])
  next
    case False
    with l have e: "wa_boundary_loop m wa_store keys (Suc h) w = wa_boundary_loop m wa_store keys h w'"
      by (auto simp: wa_boundary_loop.simps [of m wa_store keys "Suc h"])
    from Suc.IH [of w'] Suc.prems obtain r v where r: "wa_boundary_loop m wa_store keys h w' = (Inr r, v)" "r \<le> h"
      "0 < r \<longrightarrow> wa (keys ! (r - 1)) \<and> keys ! (r - 1) \<notin> t"
      "\<forall>i. r < i \<and> i \<le> h \<longrightarrow> \<not> (wa (keys ! (i - 1)) \<and> keys ! (i - 1) \<notin> t)" by auto
    have "\<not> (wa (keys ! (i - 1)) \<and> keys ! (i - 1) \<notin> t)" if "r < i" "i \<le> Suc h" for i
      using that r(4) False by (cases "i = Suc h") auto
    with e r show ?thesis by (intro exI [of _ r] exI [of _ v]) auto
  qed
qed

text \<open>
  C39: The FAWA lookup finds the longest usable prefix: with truthful stores it returns a number
  of blocks whose FA rows are all present, whose final boundary has its WA row, none of these
  known to be missing on some rank, and no longer prefix has these three properties.
\<close>

theorem fawa_lookup_is_longest:
  assumes "honest_prefix_lookup fa w fa_store" and "\<forall>v. honest_lookup wa v wa_store"
    and "rc_enabled m" and "rc_tracker m = Some t"
  shows "\<exists>h w'. fawa_lookup_external m fa_store wa_store keys w = (Inr h, w')
    \<and> h \<le> length keys
    \<and> (\<forall>i < h. fa (keys ! i) \<and> keys ! i \<notin> t)
    \<and> (0 < h \<longrightarrow> wa (keys ! (h - 1)))
    \<and> (\<forall>g. h < g \<and> g \<le> length keys \<longrightarrow>
         \<not> ((\<forall>i < g. fa (keys ! i) \<and> keys ! i \<notin> t) \<and> wa (keys ! (g - 1))))"
proof -
  let ?P = "\<lambda>b. b \<notin> t \<and> fa b"
  let ?n = "length (takeWhile ?P keys)"
  from rcm_lookup_on_prefix_honest [OF assms(1,3,4), of keys] obtain w1 where
    l: "rcm_lookup_on_prefix m fa_store w keys = (Inr (int ?n - 1), w1)" by (metis prod.collapse)
  have pre: "fa (keys ! i) \<and> keys ! i \<notin> t" if "i < ?n" for i
    using nth_takeWhile_holds [OF that] takeWhile_nth [OF that] by simp
  have beyond: "\<not> (\<forall>i < g. fa (keys ! i) \<and> keys ! i \<notin> t)" if "?n < g" "g \<le> length keys" for g
  proof -
    have "?n < length keys" using that by simp
    then have "\<not> ?P (keys ! ?n)" using nth_length_takeWhile by blast
    with that show ?thesis by blast
  qed
  show ?thesis
  proof (cases "?n = 0")
    case True
    have "fawa_lookup_external m fa_store wa_store keys w = (Inr 0, w1)"
      using l True by (simp add: fawa_lookup_external_def)
    with beyond True show ?thesis by (intro exI [of _ 0] exI [of _ w1]) auto
  next
    case False
    then have ne: "keys \<noteq> []" by auto
    have le: "?n \<le> length keys" by (rule length_takeWhile_le)
    from wa_boundary_loop_honest [OF assms(2,4) le ne, of w1] obtain r w' where
      r: "wa_boundary_loop m wa_store keys ?n w1 = (Inr r, w')" "r \<le> ?n"
      "0 < r \<longrightarrow> wa (keys ! (r - 1)) \<and> keys ! (r - 1) \<notin> t"
      "\<forall>i. r < i \<and> i \<le> ?n \<longrightarrow> \<not> (wa (keys ! (i - 1)) \<and> keys ! (i - 1) \<notin> t)" by blast
    have "fawa_lookup_external m fa_store wa_store keys w = (Inr r, w')"
      using l r(1) False by (simp add: fawa_lookup_external_def)
    moreover have "\<not> ((\<forall>i < g. fa (keys ! i) \<and> keys ! i \<notin> t) \<and> wa (keys ! (g - 1)))"
      if "r < g" "g \<le> length keys" for g
    proof (cases "g \<le> ?n")
      case True
      with r(4) that(1) pre [of "g - 1"] show ?thesis by auto
    next
      case False
      with beyond [of g] that(2) show ?thesis by auto
    qed
    ultimately show ?thesis
      using r(2,3) le pre by (intro exI [of _ r] exI [of _ w']) auto
  qed
qed

definition demo_keys :: "bytes list" where
  "demo_keys = [''a'', ''b'', ''c'']"

definition partial_lookup :: "bytes set \<Rightarrow> unit kv_lookup_api" where
  "partial_lookup stored =
     \<lparr>st_lookup = (\<lambda>w ids. (Inr (map (\<lambda>b. b \<in> stored) ids), w)),
      st_lookup_on_prefix = (\<lambda>w ids. (Inr (int (length (takeWhile (\<lambda>b. b \<in> stored) ids)) - 1), w)),
      st_prefetch = (\<lambda>w ids. (Inr (), w))\<rparr>"

lemma partial_lookup_honest:
  "honest_prefix_lookup (\<lambda>b. b \<in> stored) () (partial_lookup stored)"
  "honest_lookup (\<lambda>b. b \<in> stored) v (partial_lookup stored)"
  by (simp_all add: honest_prefix_lookup_def honest_lookup_def partial_lookup_def)

theorem fawa_lookup_is_longest_witness:
  "\<exists>h w'. fawa_lookup_external (new_rcm True True) (partial_lookup (set demo_keys)) (partial_lookup {''b''})
        demo_keys () = (Inr h, w') \<and> h \<le> length demo_keys"
proof -
  have "rc_enabled (new_rcm True True :: unit rcm)" "rc_tracker (new_rcm True True :: unit rcm) = Some {}"
    by (simp_all add: new_rcm_def)
  from fawa_lookup_is_longest [OF partial_lookup_honest(1) allI [OF partial_lookup_honest(2)] this,
      of "set demo_keys" "{''b''}" demo_keys]
  show ?thesis by blast
qed

lemma wa_boundary_loop_le:
  "wa_boundary_loop m wa_store keys h w = (Inr r, w') \<Longrightarrow> r \<le> h"
proof (induction h arbitrary: w)
  case 0
  then show ?case
    by (subst (asm) wa_boundary_loop.simps) (auto split: prod.splits sum.splits list.splits if_splits)
next
  case (Suc h)
  from Suc.prems show ?case
    by (subst (asm) wa_boundary_loop.simps)
      (auto split: prod.splits sum.splits list.splits if_splits dest: Suc.IH)
qed

lemma fawa_lookup_external_le:
  assumes "lookup_in_range fa_store" and "fawa_lookup_external m fa_store wa_store keys w = (Inr h, w')"
  shows "h \<le> length keys"
  using assms(2)
  by (auto simp: fawa_lookup_external_def Let_def split: prod.splits sum.splits if_splits
      dest!: rcm_lookup_in_range [OF assms(1)] wa_boundary_loop_le)

text \<open>
  Whatever the stores answer within their range, the number of tokens reported for an FAWA
  match is not negative, and when it is positive the local hit and the reported tokens leave
  at least one token of the request to compute. The load is never asynchronous.
\<close>

lemma fawa_match_leaves_a_token:
  assumes "fawa_get_num_new_matched_tokens cf fa_store wa_store s rq c = ((k, load_async), s')"
    and "rq_num_tokens rq = length (rq_all_token_ids rq)" and "0 < fc_hash_block_size cf"
    and "lookup_in_range fa_store"
  shows "0 \<le> k \<and> (0 < k \<longrightarrow> int c + k < int (rq_num_tokens rq)) \<and> \<not> load_async"
proof -
  let ?b = "fc_hash_block_size cf" and ?n = "rq_num_tokens rq"
  let ?u = "generate_hash (fc_hasher cf) ?b (rq_all_token_ids rq) (fc_seed cf)"
  let ?l = "fawa_lookup_external (fs_rcm s) fa_store wa_store (drop (c div ?b) ?u) (fs_world s)"
  define h where "h = (case fst ?l of Inl e \<Rightarrow> 0 | Inr x \<Rightarrow> x)"
  have len: "length ?u = ?n div ?b" by (simp add: generate_hash_chain length_chain_ids assms(2))
  have "h \<le> length (drop (c div ?b) ?u)"
  proof (cases ?l)
    case (Pair r w)
    with fawa_lookup_external_le [OF assms(4)] show ?thesis
      unfolding h_def by (cases r) (simp, metis fst_conv sum.case(2))
  qed
  then have h: "h \<le> ?n div ?b - c div ?b" by (simp add: len)
  have c1: "c < c div ?b * ?b + ?b" using assms(3) by (metis add.commute mod_less_divisor div_mult_mod_eq nat_add_left_cancel_less)
  have "k = 0 \<or> \<not> h * ?b \<le> fc_load_tokens_threshold cf
      \<and> k = int (h * ?b + c div ?b * ?b) - int c - (if h * ?b + c div ?b * ?b = ?n then 1 else 0)"
    and la: "\<not> load_async"
    using assms(1)
    by (auto simp: fawa_get_num_new_matched_tokens_def Let_def h_def
        simp del: of_nat_add of_nat_mult split: if_splits prod.splits sum.splits)
  then show ?thesis
  proof (elim disjE conjE)
    assume "k = 0"
    with la show ?thesis by simp
  next
    assume f: "\<not> h * ?b \<le> fc_load_tokens_threshold cf"
      and k: "k = int (h * ?b + c div ?b * ?b) - int c - (if h * ?b + c div ?b * ?b = ?n then 1 else 0)"
    from f have "0 < h" by (cases h) auto
    then have "?b \<le> h * ?b" by simp
    with c1 have lo: "c < h * ?b + c div ?b * ?b" by linarith
    have "h + c div ?b \<le> ?n div ?b" using h \<open>0 < h\<close> by linarith
    then have "(h + c div ?b) * ?b \<le> ?n div ?b * ?b" by (rule mult_le_mono1)
    also have "\<dots> \<le> ?n" by simp
    finally have "h * ?b + c div ?b * ?b \<le> ?n" by (simp add: distrib_right)
    with k lo la show ?thesis by (auto simp del: of_nat_add of_nat_mult split: if_splits)
  qed
qed

definition demo_fawa_groups :: fawa_groups where
  "demo_fawa_groups =
     \<lparr>fg_fa_group_ids = [0], fg_window_group_ids = [1],
      fg_metas = [\<lparr>gm_group_id = 0, gm_token_block_size = 2, gm_tail_blocks = 1, gm_tail_tokens = 2\<rparr>,
                  \<lparr>gm_group_id = 1, gm_token_block_size = 1, gm_tail_blocks = 2, gm_tail_tokens = 2\<rparr>],
      fg_max_token_block_size = 2\<rparr>"

definition demo_fawa_cfg :: fawa_cfg where
  "demo_fawa_cfg =
     \<lparr>fc_hash_block_size = 2, fc_groups = demo_fawa_groups, fc_persist_token_threshold = 0,
      fc_load_tokens_threshold = 0, fc_wa_dump_block_wise = True, fc_hasher = demo_hash, fc_seed = []\<rparr>"

definition demo_fawa_scheduler :: "unit fawa_scheduler" where
  "demo_fawa_scheduler =
     \<lparr>fs_requests_meta = [], fs_rcm = new_rcm True True, fs_world = (), fs_metrics = []\<rparr>"

section \<open>What a run of steps dumps\<close>

type_synonym fawa_step = "nat \<times> vllm_id list list \<times> bool"

definition fawa_plan :: "fawa_cfg \<Rightarrow> fawa_meta \<Rightarrow> fawa_step \<Rightarrow> bytes list \<times> fawa_meta" where
  "fawa_plan cf m step =
     (case step of (new_tokens, new_ids, need_load) \<Rightarrow>
        (case fawa_dispatch_meta cf m new_tokens new_ids need_load of
           (Inl e, m') \<Rightarrow> ([], m')
         | (Inr d, m') \<Rightarrow> (fd_dump_keys d, m')))"

definition fawa_pos :: "fawa_cfg \<Rightarrow> fawa_meta \<Rightarrow> nat" where
  "fawa_pos cf m = max (fm_total_hit_block_num m) (fm_token_processed m div fc_hash_block_size cf)"

definition fawa_meta_ok :: "fawa_meta \<Rightarrow> bool" where
  "fawa_meta_ok m = (fm_token_processed m \<le> fm_num_token_ids m)"

lemma fawa_transfers_frame:
  "fm_ucm_block_ids (snd (fawa_transfers cf m nt load)) = fm_ucm_block_ids m
    \<and> fm_total_hit_block_num (snd (fawa_transfers cf m nt load)) = fm_total_hit_block_num m
    \<and> fm_num_token_ids (snd (fawa_transfers cf m nt load)) = fm_num_token_ids m"
  unfolding fawa_transfers_def Let_def by (simp split: sum.split)

lemma fawa_transfers_error:
  "fawa_transfers cf m nt load = (Inl e, m') \<Longrightarrow> m' = m"
  unfolding fawa_transfers_def Let_def by (simp split: sum.split_asm)

lemma fawa_transfers_plan:
  assumes "fawa_transfers cf m nt load = (Inr d, m')"
  shows "m' = m\<lparr>fm_token_processed := min (fm_num_token_ids m) (fm_token_processed m + nt)\<rparr>
    \<and> fd_dump_hash_start d = fawa_pos cf m
    \<and> fd_dump_hash_end d = fm_token_processed m' div fc_hash_block_size cf
    \<and> fd_dump_keys d = py_slice (fm_ucm_block_ids m) (fd_dump_hash_start d) (fd_dump_hash_end d)
    \<and> fawa_dump_ids cf m (fd_dump_hash_start d) (fd_dump_hash_end d) = Inr (fd_dump_vllm_block_ids d)"
  using assms unfolding fawa_transfers_def Let_def fawa_pos_def
  by (simp split: sum.split_asm) (elim conjE, hypsubst, simp)

lemma fawa_dispatch_meta_frame:
  assumes "fawa_dispatch_meta cf m new_tokens new_ids need_load = (r, m')"
  shows "fm_ucm_block_ids m' = fm_ucm_block_ids m \<and> fm_total_hit_block_num m' = fm_total_hit_block_num m
    \<and> fm_num_token_ids m' = fm_num_token_ids m"
  using assms fawa_transfers_frame [of cf _ new_tokens need_load]
  by (cases "length new_ids = length (fawa_own_ids cf m)")
    (auto simp: fawa_dispatch_meta_def dest!: arg_cong [where f = snd])

lemma fawa_dispatch_meta_error:
  assumes "fawa_dispatch_meta cf m new_tokens new_ids need_load = (Inl e, m')"
  shows "fm_token_processed m' = fm_token_processed m"
  using assms by (auto simp: fawa_dispatch_meta_def Let_def split: if_split_asm dest: fawa_transfers_error)

lemma fawa_dispatch_meta_plan:
  assumes "fawa_dispatch_meta cf m new_tokens new_ids need_load = (Inr d, m')"
  shows "fm_token_processed m' = min (fm_num_token_ids m) (fm_token_processed m + new_tokens)
    \<and> fd_dump_hash_start d = fawa_pos cf m
    \<and> fd_dump_hash_end d = fm_token_processed m' div fc_hash_block_size cf
    \<and> fd_dump_keys d = py_slice (fm_ucm_block_ids m) (fd_dump_hash_start d) (fd_dump_hash_end d)"
    and "fawa_dump_ids cf (m\<lparr>fm_vllm_block_ids := fm_vllm_block_ids m'\<rparr>)
           (fd_dump_hash_start d) (fd_dump_hash_end d) = Inr (fd_dump_vllm_block_ids d)"
    and "fm_vllm_block_ids m' = map2 (@) (fawa_own_ids cf m) new_ids"
proof -
  have "fawa_transfers cf (m\<lparr>fm_vllm_block_ids := map2 (@) (fawa_own_ids cf m) new_ids\<rparr>) new_tokens need_load
    = (Inr d, m')"
    using assms by (simp add: fawa_dispatch_meta_def Let_def split: if_split_asm)
  note p = fawa_transfers_plan [OF this]
  from p [THEN conjunct1] have m': "m' = m\<lparr>fm_vllm_block_ids := map2 (@) (fawa_own_ids cf m) new_ids,
      fm_token_processed := min (fm_num_token_ids m) (fm_token_processed m + new_tokens)\<rparr>" by simp
  show "fm_token_processed m' = min (fm_num_token_ids m) (fm_token_processed m + new_tokens)
    \<and> fd_dump_hash_start d = fawa_pos cf m
    \<and> fd_dump_hash_end d = fm_token_processed m' div fc_hash_block_size cf
    \<and> fd_dump_keys d = py_slice (fm_ucm_block_ids m) (fd_dump_hash_start d) (fd_dump_hash_end d)"
    using p m' by (simp add: fawa_pos_def)
  show ids: "fm_vllm_block_ids m' = map2 (@) (fawa_own_ids cf m) new_ids" by (simp add: m')
  show "fawa_dump_ids cf (m\<lparr>fm_vllm_block_ids := fm_vllm_block_ids m'\<rparr>)
      (fd_dump_hash_start d) (fd_dump_hash_end d) = Inr (fd_dump_vllm_block_ids d)"
    unfolding ids using p by blast
qed

lemma fawa_plan_moves:
  "fm_ucm_block_ids (snd (fawa_plan cf st a)) = fm_ucm_block_ids st"
  "fm_total_hit_block_num (snd (fawa_plan cf st a)) = fm_total_hit_block_num st"
  "fm_num_token_ids (snd (fawa_plan cf st a)) = fm_num_token_ids st"
  by (auto simp: fawa_plan_def dest: fawa_dispatch_meta_frame split: prod.split sum.split)

lemma fawa_plan_cases:
  obtains (error) "fst (fawa_plan cf st a) = []"
      "fm_token_processed (snd (fawa_plan cf st a)) = fm_token_processed st"
    | (plan) "fst (fawa_plan cf st a) = py_slice (fm_ucm_block_ids st) (fawa_pos cf st)
          (fm_token_processed (snd (fawa_plan cf st a)) div fc_hash_block_size cf)"
      "fm_token_processed (snd (fawa_plan cf st a))
        = min (fm_num_token_ids st) (fm_token_processed st + fst a)"
proof -
  obtain nt ids load where a: "a = (nt, ids, load)" by (cases a)
  obtain r m' where d: "fawa_dispatch_meta cf st nt ids load = (r, m')"
    by (cases "fawa_dispatch_meta cf st nt ids load")
  show ?thesis
  proof (cases r)
    case (Inl e)
    with d fawa_dispatch_meta_error [of cf st nt ids load e m'] error show ?thesis
      by (simp add: fawa_plan_def a)
  next
    case (Inr dm)
    from fawa_dispatch_meta_plan(1) [OF d [unfolded Inr]] plan d Inr show ?thesis
      by (simp add: fawa_plan_def a)
  qed
qed

lemma fawa_plan_position:
  assumes "fawa_meta_ok st"
  shows "fm_token_processed st \<le> fm_token_processed (snd (fawa_plan cf st a))"
    and "fawa_meta_ok (snd (fawa_plan cf st a))"
    and "fawa_pos cf st \<le> fawa_pos cf (snd (fawa_plan cf st a))"
proof -
  show le: "fm_token_processed st \<le> fm_token_processed (snd (fawa_plan cf st a))"
    using assms by (cases rule: fawa_plan_cases [of cf st a]) (simp_all add: fawa_meta_ok_def)
  show "fawa_meta_ok (snd (fawa_plan cf st a))"
    using assms by (cases rule: fawa_plan_cases [of cf st a]) (simp_all add: fawa_meta_ok_def fawa_plan_moves)
  show "fawa_pos cf st \<le> fawa_pos cf (snd (fawa_plan cf st a))"
    using div_le_mono [OF le, of "fc_hash_block_size cf"] by (simp add: fawa_pos_def fawa_plan_moves max.coboundedI2)
qed

interpretation fawa_planner: dump_planner "fawa_plan cf" "fawa_pos cf" fm_ucm_block_ids fawa_meta_ok
proof
  fix st :: fawa_meta and a :: fawa_step
  show "fm_ucm_block_ids (snd (fawa_plan cf st a)) = fm_ucm_block_ids st" by (rule fawa_plan_moves)
  assume ok: "fawa_meta_ok st"
  note moved = fawa_plan_position [OF ok, of cf a]
  show "fawa_pos cf st \<le> fawa_pos cf (snd (fawa_plan cf st a))" by (rule moved)
  show "fawa_meta_ok (snd (fawa_plan cf st a))" by (rule moved)
  show "fst (fawa_plan cf st a)
      = py_slice (fm_ucm_block_ids st) (fawa_pos cf st) (fawa_pos cf (snd (fawa_plan cf st a)))"
  proof (cases rule: fawa_plan_cases [of cf st a])
    case error
    then show ?thesis by (simp add: fawa_pos_def fawa_plan_moves)
  next
    case plan
    let ?e = "fm_token_processed (snd (fawa_plan cf st a)) div fc_hash_block_size cf"
    have "fm_token_processed st div fc_hash_block_size cf \<le> ?e" by (rule div_le_mono [OF moved(1)])
    with plan(1) show ?thesis
      by (cases "fm_total_hit_block_num st \<le> ?e") (simp_all add: fawa_pos_def fawa_plan_moves max_def)
  qed
qed

text \<open>
  The steps of an FAWA request together dump one contiguous range of its canonical blocks,
  from the matched prefix to the last full block computed, so no block is dumped twice.
\<close>

lemma fawa_dumps_every_block_once:
  assumes "fawa_meta_ok m" and "run_plan (fawa_plan cf) m steps = (ids, m')"
  shows "ids = py_slice (fm_ucm_block_ids m) (fawa_pos cf m) (fawa_pos cf m')
    \<and> (distinct (fm_ucm_block_ids m) \<longrightarrow> distinct ids)"
  using fawa_planner.run_range [OF assms] fawa_planner.run_dumps_once [OF assms(1), of cf steps] assms(2)
  by simp

definition demo_fawa_meta :: fawa_meta where
  "demo_fawa_meta =
     \<lparr>fm_ucm_block_ids = demo_keys, fm_hbm_hit_block_num = 0, fm_total_hit_block_num = 0,
      fm_num_token_ids = 6, fm_vllm_block_ids = [], fm_token_processed = 0\<rparr>"

end
