(* ===== verification/Fawa_Layout.thy ===== *)
theory Fawa_Layout
  imports Kv_Layout Fawa_Scheduler "HOL-Library.Product_Lexorder"
begin

text \<open>
  Where the blocks of an FAWA cache group lie (\<open>KVCacheGroupLayout\<close> of
  \<open>hma_connector.py\<close>) and which addresses make up a row of the FA and of the WA store
  (\<open>_extract_fa_ptr\<close>, \<open>_extract_wa_ptr\<close>). A group flattens its registered tensors in
  the order of their layers. Where a group's block holds several canonical hash blocks, a row
  starts at a token offset inside the block.
\<close>

section \<open>Views\<close>

record group_view =
  gv_ptr :: nat
  gv_block_stride :: nat
  gv_token_stride :: nat
  gv_size_per_token :: nat
  gv_block_size :: nat

text \<open>\<open>tensor[:, i]\<close>: the \<open>i\<close>-th slice along the second dimension.\<close>

definition tensor_select1 :: "tensor \<Rightarrow> nat \<Rightarrow> tensor result" where
  "tensor_select1 t i =
     (case (tn_shape t, tn_strides t) of
        (m # n # shape, sm # sn # strides) \<Rightarrow>
          if i < n
          then Inr \<lparr>tn_shape = m # shape, tn_strides = sm # strides, tn_elem = tn_elem t,
                    tn_ptr = tn_ptr t + i * sn * tn_elem t\<rparr>
          else Inl IndexError
      | _ \<Rightarrow> Inl IndexError)"

text \<open>\<open>_is_combined_kv_4d\<close>, for a shape of four dimensions.\<close>

definition is_combined_kv_4d :: "bool \<Rightarrow> nat option \<Rightarrow> nat list \<Rightarrow> bool result" where
  "is_combined_kv_4d is_ascend_layout expected_block_size shape =
     (if is_ascend_layout
      then (if expected_block_size \<noteq> None \<and> expected_block_size \<noteq> Some (shape ! 1)
            then Inl ValueError else Inr False)
      else
        let is_combined_kv = (shape ! 1 = 2);
            token_dim = (if is_combined_kv then 2 else 1)
        in if expected_block_size \<noteq> None \<and> expected_block_size \<noteq> Some (shape ! token_dim)
           then Inl ValueError else Inr is_combined_kv)"

text \<open>The inner function \<open>handle_tensor\<close>; the size dimensions are the last \<open>k\<close>.\<close>

definition group_handle_tensor :: "tensor \<Rightarrow> nat \<Rightarrow> group_view result" where
  "group_handle_tensor t k =
     rbind (tensor_select t 0) (\<lambda>first.
       if length (tn_shape t) < max 2 k \<or> length (tn_strides t) < 2 then Inl IndexError
       else
         let tensor_size = prod_list (drop (length (tn_shape t) - k) (tn_shape t)) * tn_elem t;
             tensor_block_size = tn_shape t ! 1
         in if tensor_block_size = 0 then Inl ZeroDivisionError
            else Inr \<lparr>gv_ptr = tn_ptr first, gv_block_stride = tn_strides t ! 0 * tn_elem t,
                      gv_token_stride = tn_strides t ! 1 * tn_elem t,
                      gv_size_per_token = tensor_size div tensor_block_size,
                      gv_block_size = tensor_block_size\<rparr>)"

definition group_tensor_views :: "bool \<Rightarrow> nat option \<Rightarrow> tensor \<Rightarrow> group_view list result" where
  "group_tensor_views is_ascend expected t =
     (if length (tn_shape t) = 5
      then rbind (tensor_select t 0) (\<lambda>k. rbind (group_handle_tensor k 3) (\<lambda>kv.
           rbind (tensor_select t 1) (\<lambda>v. rbind (group_handle_tensor v 3) (\<lambda>vv. Inr [kv, vv]))))
      else if length (tn_shape t) = 4
      then rbind (is_combined_kv_4d is_ascend expected (tn_shape t)) (\<lambda>combined.
             if combined
             then rbind (tensor_select1 t 0) (\<lambda>k. rbind (group_handle_tensor k 2) (\<lambda>kv.
                  rbind (tensor_select1 t 1) (\<lambda>v. rbind (group_handle_tensor v 2) (\<lambda>vv. Inr [kv, vv]))))
             else rbind (group_handle_tensor t 3) (\<lambda>v. Inr [v]))
      else if length (tn_shape t) = 3
      then rbind (group_handle_tensor t 2) (\<lambda>v. Inr [v])
      else Inl ValueError)"

definition group_layer_views :: "bool \<Rightarrow> nat option \<Rightarrow> kv_layer \<Rightarrow> group_view list result" where
  "group_layer_views is_ascend expected kv =
     (case kv of
        KvTensor t \<Rightarrow> group_tensor_views is_ascend expected t
      | KvTuple ts \<Rightarrow> rbind (rmap (group_tensor_views is_ascend expected) ts) (\<lambda>vss. Inr (concat vss))
      | KvOther \<Rightarrow> Inl TypeError)"

section \<open>The layout\<close>

record group_layout =
  gl_base_ptrs :: "u64 list"
  gl_block_strides :: "u64 list"
  gl_token_strides :: "u64 list"
  gl_sizes_per_token :: "u64 list"
  gl_block_sizes :: "u64 list"

text \<open>\<open>dict(sorted(kvcaches.items(), key=_sort_key))\<close>: by layer number, then by name.\<close>

definition sorted_caches :: "(string \<Rightarrow> nat) \<Rightarrow> kv_caches \<Rightarrow> kv_caches" where
  "sorted_caches layer_id kvcaches = sort_key (\<lambda>p. (layer_id (fst p), fst p)) kvcaches"

definition new_group_layout ::
  "(string \<Rightarrow> nat) \<Rightarrow> bool \<Rightarrow> nat option \<Rightarrow> kv_caches \<Rightarrow> group_layout result" where
  "new_group_layout layer_id is_ascend expected kvcaches =
     rbind (rmap (group_layer_views is_ascend expected \<circ> snd) (sorted_caches layer_id kvcaches)) (\<lambda>vss.
       let views = concat vss in
       if views = [] then Inl ValueError
       else
         rbind (rmap u64_of (map gv_ptr views)) (\<lambda>ptrs.
         rbind (rmap u64_of (map gv_block_stride views)) (\<lambda>strides.
         rbind (rmap u64_of (map gv_token_stride views)) (\<lambda>token_strides.
         rbind (rmap u64_of (map gv_size_per_token views)) (\<lambda>sizes.
         rbind (rmap u64_of (map gv_block_size views)) (\<lambda>block_sizes.
           Inr \<lparr>gl_base_ptrs = ptrs, gl_block_strides = strides, gl_token_strides = token_strides,
                gl_sizes_per_token = sizes, gl_block_sizes = block_sizes\<rparr>))))))"

text \<open>numpy's broadcasting of two columns: a column of one row is repeated.\<close>

definition broadcast :: "'a list \<Rightarrow> 'b list \<Rightarrow> ('a \<times> 'b) list result" where
  "broadcast xs ys =
     (if length xs = length ys then Inr (zip xs ys)
      else if length xs = 1 then Inr (map (Pair (hd xs)) ys)
      else if length ys = 1 then Inr (map (\<lambda>x. (x, hd ys)) xs)
      else Inl ValueError)"

definition group_extract_addrs :: "group_layout \<Rightarrow> u64 list \<Rightarrow> u64 list list" where
  "group_extract_addrs l block_ids = map (row_addrs (gl_block_strides l) (gl_base_ptrs l)) block_ids"

text \<open>
  \<open>extract_addrs_with_offsets\<close> for offsets of numpy's \<open>uint64\<close>, as the WA rows pass
  them: all of it is 64-bit arithmetic.
\<close>

definition offset_row :: "group_layout \<Rightarrow> nat \<Rightarrow> u64 \<times> u64 \<Rightarrow> u64 list" where
  "offset_row l group_token_block_size p =
     map2 (\<lambda>(st, base) (ts, bs).
         fst p * st + (snd p * bs div of_nat group_token_block_size) * ts + base)
       (zip (gl_block_strides l) (gl_base_ptrs l)) (zip (gl_token_strides l) (gl_block_sizes l))"

definition extract_addrs_with_offsets ::
  "group_layout \<Rightarrow> u64 list \<Rightarrow> nat \<Rightarrow> u64 list \<Rightarrow> u64 list list result" where
  "extract_addrs_with_offsets l block_ids group_token_block_size offsets =
     rbind (broadcast block_ids offsets) (\<lambda>pairs. Inr (map (offset_row l group_token_block_size) pairs))"

text \<open>
  The FA rows pass offsets of numpy's \<open>int64\<close>. Mixed with \<open>uint64\<close> arrays numpy
  computes in \<open>float64\<close>: every product and sum is rounded by \<open>rnd\<close>, and the result is
  cast back to \<open>uint64\<close>. \<open>rnd\<close> is a parameter, IEEE double rounding, which keeps
  every integer up to \<open>2 ^ 53\<close>.
\<close>

definition float_offset_row :: "(nat \<Rightarrow> nat) \<Rightarrow> group_layout \<Rightarrow> nat \<Rightarrow> u64 \<times> nat \<Rightarrow> u64 list" where
  "float_offset_row rnd l group_token_block_size p =
     map2 (\<lambda>(st, base) (ts, bs).
         let token_offset = rnd (rnd (rnd (snd p) * rnd (unat bs)) div group_token_block_size);
             block_offset = unat (fst p * st)
         in of_nat (rnd (rnd (rnd block_offset + rnd (token_offset * rnd (unat ts))) + rnd (unat base))))
       (zip (gl_block_strides l) (gl_base_ptrs l)) (zip (gl_token_strides l) (gl_block_sizes l))"

definition extract_addrs_with_int_offsets ::
  "(nat \<Rightarrow> nat) \<Rightarrow> group_layout \<Rightarrow> u64 list \<Rightarrow> nat \<Rightarrow> nat list \<Rightarrow> u64 list list result" where
  "extract_addrs_with_int_offsets rnd l block_ids group_token_block_size offsets =
     rbind (broadcast block_ids offsets)
       (\<lambda>pairs. Inr (map (float_offset_row rnd l group_token_block_size) pairs))"

definition segment_tensor_size_list :: "group_layout \<Rightarrow> nat \<Rightarrow> nat \<Rightarrow> nat list" where
  "segment_tensor_size_list l logical_tokens group_token_block_size =
     map2 (\<lambda>sz bs. unat (sz * (bs * of_nat logical_tokens div of_nat group_token_block_size)))
       (gl_sizes_per_token l) (gl_block_sizes l)"

section \<open>Rows of the stores\<close>

type_synonym group_layouts = "(nat, group_layout) dict"

text \<open>
  \<open>_store_tensor_size_list\<close>: a group contributes its views once per tail block. A window
  tail that is negative, for a window smaller than the compression ratio, does not fit the
  unsigned arrays.
\<close>

fun store_sizes :: "fawa_groups \<Rightarrow> group_layouts \<Rightarrow> nat list \<Rightarrow> nat list result" where
  "store_sizes fg layouts [] = Inr []"
| "store_sizes fg layouts (group_id # rest) =
     (case dict_get layouts group_id of
        None \<Rightarrow> store_sizes fg layouts rest
      | Some l \<Rightarrow>
          rbind (py_index (fg_metas fg) group_id) (\<lambda>meta.
            if gm_tail_tokens meta = 0 then store_sizes fg layouts rest
            else if gm_tail_tokens meta < 0 then Inl OverflowError
            else
              let segment_tokens = nat (gm_tail_tokens meta) div gm_tail_blocks meta;
                  segment_sizes = segment_tensor_size_list l segment_tokens (gm_token_block_size meta)
              in rbind (store_sizes fg layouts rest) (\<lambda>sizes.
                   Inr (concat (replicate (gm_tail_blocks meta) segment_sizes) @ sizes))))"

definition store_tensor_size_list :: "fawa_groups \<Rightarrow> group_layouts \<Rightarrow> nat list \<Rightarrow> nat list result" where
  "store_tensor_size_list fg layouts group_ids =
     rbind (store_sizes fg layouts group_ids) (\<lambda>sizes. if sizes = [] then Inl RuntimeError else Inr sizes)"

text \<open>\<open>np.concatenate(all_ptrs, axis=1)\<close>: every part has the same number of rows.\<close>

definition concat_columns :: "u64 list list list \<Rightarrow> u64 list list result" where
  "concat_columns parts =
     (case parts of
        [] \<Rightarrow> Inl ValueError
      | p # ps \<Rightarrow>
          if \<exists>q \<in> set ps. length q \<noteq> length p then Inl ValueError
          else Inr (map (\<lambda>i. concat (map (\<lambda>q. q ! i) parts)) [0..<length p]))"

text \<open>\<open>a.reshape(n, -1)\<close> of an array of rows of one width, in row-major order.\<close>

fun chunks :: "nat \<Rightarrow> nat \<Rightarrow> 'a list \<Rightarrow> 'a list list" where
  "chunks 0 k xs = []"
| "chunks (Suc n) k xs = take k xs # chunks n k (drop k xs)"

definition np_reshape_rows :: "nat \<Rightarrow> 'a list list \<Rightarrow> 'a list list result" where
  "np_reshape_rows n rows =
     (let flat = concat rows in
      if n = 0 \<or> length flat mod n \<noteq> 0 then Inl ValueError
      else Inr (chunks n (length flat div n) flat))"

fun fa_parts ::
  "(nat \<Rightarrow> nat) \<Rightarrow> nat \<Rightarrow> fawa_groups \<Rightarrow> group_layouts \<Rightarrow> nat \<Rightarrow> nat \<Rightarrow> vllm_id list list \<Rightarrow> nat list
     \<Rightarrow> u64 list list list result" where
  "fa_parts rnd hbs fg layouts hash_start hash_end ids [] = Inr []"
| "fa_parts rnd hbs fg layouts hash_start hash_end ids (group_id # rest) =
     (case dict_get layouts group_id of
        None \<Rightarrow> fa_parts rnd hbs fg layouts hash_start hash_end ids rest
      | Some l \<Rightarrow>
          rbind (py_index (fg_metas fg) group_id) (\<lambda>meta.
          rbind (py_index ids group_id) (\<lambda>group_ids.
          rbind (rmap u64_of group_ids) (\<lambda>block_ids.
          rbind (if hbs = gm_token_block_size meta then Inr (group_extract_addrs l block_ids)
                 else
                   let token_offsets = map (\<lambda>i. i * hbs mod gm_token_block_size meta) [hash_start..<hash_end]
                   in extract_addrs_with_int_offsets rnd l block_ids (gm_token_block_size meta) token_offsets)
            (\<lambda>group_ptrs.
          rbind (fa_parts rnd hbs fg layouts hash_start hash_end ids rest) (\<lambda>parts.
            Inr (group_ptrs # parts)))))))"

definition extract_fa_ptr ::
  "(nat \<Rightarrow> nat) \<Rightarrow> nat \<Rightarrow> fawa_groups \<Rightarrow> group_layouts \<Rightarrow> nat \<Rightarrow> nat \<Rightarrow> vllm_id list list
     \<Rightarrow> u64 list list result" where
  "extract_fa_ptr rnd hbs fg layouts hash_start hash_end ids =
     rbind (fa_parts rnd hbs fg layouts hash_start hash_end ids (fg_fa_group_ids fg)) concat_columns"

fun wa_parts ::
  "fawa_groups \<Rightarrow> group_layouts \<Rightarrow> nat \<Rightarrow> vllm_id list list \<Rightarrow> nat list \<Rightarrow> u64 list list list result" where
  "wa_parts fg layouts num_keys ids [] = Inr []"
| "wa_parts fg layouts num_keys ids (group_id # rest) =
     (case dict_get layouts group_id of
        None \<Rightarrow> wa_parts fg layouts num_keys ids rest
      | Some l \<Rightarrow>
          rbind (py_index (fg_metas fg) group_id) (\<lambda>meta.
            if gm_tail_tokens meta = 0 then wa_parts fg layouts num_keys ids rest
            else
              rbind (py_index ids group_id) (\<lambda>group_ids.
              rbind (rmap u64_of group_ids) (\<lambda>block_ids.
              rbind (if gm_tail_blocks meta = 1 \<and> gm_tail_tokens meta < int (gm_token_block_size meta)
                     then
                       let offset = of_int (int (gm_token_block_size meta) - gm_tail_tokens meta)
                       in extract_addrs_with_offsets l block_ids (gm_token_block_size meta)
                            (replicate (length block_ids) offset)
                     else np_reshape_rows num_keys (group_extract_addrs l block_ids))
                (\<lambda>group_ptrs.
              rbind (wa_parts fg layouts num_keys ids rest) (\<lambda>parts. Inr (group_ptrs # parts)))))))"

definition extract_wa_ptr ::
  "fawa_groups \<Rightarrow> group_layouts \<Rightarrow> nat \<Rightarrow> vllm_id list list \<Rightarrow> u64 list list result" where
  "extract_wa_ptr fg layouts num_keys ids =
     rbind (wa_parts fg layouts num_keys ids (fg_window_group_ids fg)) concat_columns"

section \<open>The width of a row\<close>

definition layout_width :: "group_layout \<Rightarrow> nat" where
  "layout_width l = length (gl_base_ptrs l)"

definition group_layout_ok :: "group_layout \<Rightarrow> bool" where
  "group_layout_ok l \<longleftrightarrow>
     length (gl_block_strides l) = layout_width l \<and> length (gl_token_strides l) = layout_width l
     \<and> length (gl_sizes_per_token l) = layout_width l \<and> length (gl_block_sizes l) = layout_width l"

lemma new_group_layout_ok:
  "new_group_layout layer_id is_ascend expected kvcaches = Inr l \<Longrightarrow> group_layout_ok l"
  by (auto simp: new_group_layout_def rbind_Inr_iff Let_def rmap_u64_of group_layout_ok_def layout_width_def
      split: if_splits)

lemma group_extract_addrs_width:
  "group_layout_ok l \<Longrightarrow> row \<in> set (group_extract_addrs l ids) \<Longrightarrow> length row = layout_width l"
  by (auto simp: group_extract_addrs_def row_addrs_def group_layout_ok_def layout_width_def)

lemma length_group_extract_addrs [simp]: "length (group_extract_addrs l ids) = length ids"
  by (simp add: group_extract_addrs_def)

lemma offset_row_width: "group_layout_ok l \<Longrightarrow> length (offset_row l g p) = layout_width l"
  by (simp add: offset_row_def group_layout_ok_def layout_width_def)

lemma float_offset_row_width: "group_layout_ok l \<Longrightarrow> length (float_offset_row rnd l g p) = layout_width l"
  by (simp add: float_offset_row_def group_layout_ok_def layout_width_def)

lemma segment_sizes_width: "group_layout_ok l \<Longrightarrow> length (segment_tensor_size_list l t g) = layout_width l"
  by (simp add: segment_tensor_size_list_def group_layout_ok_def)

definition part_width :: "nat \<Rightarrow> u64 list list \<Rightarrow> bool" where
  "part_width w part \<longleftrightarrow> (\<forall>row \<in> set part. length row = w)"

lemma part_widthI: "(\<And>row. row \<in> set part \<Longrightarrow> length row = w) \<Longrightarrow> part_width w part"
  by (simp add: part_width_def)

lemma extract_addrs_width:
  assumes "group_layout_ok l"
  shows "part_width (layout_width l) (group_extract_addrs l ids)"
    and "extract_addrs_with_offsets l ids g offs = Inr part \<Longrightarrow> part_width (layout_width l) part"
    and "extract_addrs_with_int_offsets rnd l ids g ns = Inr part \<Longrightarrow> part_width (layout_width l) part"
  using assms
  by (auto intro!: part_widthI simp: group_extract_addrs_width offset_row_width float_offset_row_width
      extract_addrs_with_offsets_def extract_addrs_with_int_offsets_def rbind_Inr_iff)

lemma concat_columns_width:
  assumes "concat_columns parts = Inr rows" and "list_all2 part_width ws parts"
  shows "part_width (sum_list ws) rows \<and> length rows = length (hd parts)"
proof -
  obtain p ps where parts: "parts = p # ps" using assms(1) by (cases parts) (simp_all add: concat_columns_def)
  with assms(1) have len: "\<forall>q \<in> set parts. length q = length p"
    and rows: "rows = map (\<lambda>i. concat (map (\<lambda>q. q ! i) parts)) [0..<length p]"
    by (auto simp: concat_columns_def split: if_splits)
  have "length (concat (map (\<lambda>q. q ! i) parts)) = sum_list ws" if "i < length p" for i
    using assms(2) len
    by (induction ws parts rule: list_all2_induct) (auto simp: part_width_def that)
  with rows parts show ?thesis by (auto intro!: part_widthI)
qed

lemma length_chunks [simp]: "length (chunks n k xs) = n"
  by (induction n arbitrary: xs) simp_all

lemma chunks_width: "length xs = n * k \<Longrightarrow> c \<in> set (chunks n k xs) \<Longrightarrow> length c = k"
proof (induction n arbitrary: xs)
  case (Suc n)
  from Suc.IH [of "drop k xs"] Suc.prems show ?case by auto
qed simp

lemma nth_chunks: "length xs = n * k \<Longrightarrow> i < n \<Longrightarrow> chunks n k xs ! i = take k (drop (i * k) xs)"
  by (induction n arbitrary: xs i) (auto simp: nth_Cons add.commute split: nat.split)

lemma length_concat_width: "part_width w rows \<Longrightarrow> length (concat rows) = length rows * w"
  by (induction rows) (auto simp: part_width_def)

lemma reshape_width:
  assumes "np_reshape_rows n rows = Inr part" and "part_width w rows" and "length rows = t * n"
  shows "part_width (t * w) part \<and> length part = n"
proof -
  have n: "0 < n" using assms(1) by (auto simp: np_reshape_rows_def Let_def split: if_splits)
  have len: "length (concat rows) = n * (t * w)"
    using length_concat_width [OF assms(2)] assms(3) by simp
  with n have "length (concat rows) div n = t * w" by simp
  with assms(1) len have "part = chunks n (t * w) (concat rows)"
    by (auto simp: np_reshape_rows_def Let_def split: if_splits)
  with len show ?thesis by (auto intro!: part_widthI dest: chunks_width)
qed

definition layouts_ok :: "group_layouts \<Rightarrow> bool" where
  "layouts_ok layouts \<longleftrightarrow> (\<forall>g l. dict_get layouts g = Some l \<longrightarrow> group_layout_ok l)"

lemma length_concat_replicate [simp]: "length (concat (replicate n xs)) = n * length xs"
  by (induction n) simp_all

lemma store_sizes_Cons:
  assumes "store_sizes fg layouts (g # gs) = Inr sizes" and "dict_get layouts g = Some l"
    and "fg_metas fg ! g = meta" and "gm_tail_tokens meta \<noteq> 0" and "layouts_ok layouts"
  shows "\<exists>rest. store_sizes fg layouts gs = Inr rest
    \<and> length sizes = gm_tail_blocks meta * layout_width l + length rest"
proof -
  have "group_layout_ok l" using assms(2,5) by (auto simp: layouts_ok_def)
  then show ?thesis
    using assms(1-4)
    by (auto simp: rbind_Inr_iff py_index_def Let_def segment_sizes_width split: if_splits)
qed

lemma fa_parts_width:
  "fa_parts rnd hbs fg layouts a b ids gs = Inr parts \<Longrightarrow> store_sizes fg layouts gs = Inr sizes
     \<Longrightarrow> layouts_ok layouts
     \<Longrightarrow> (\<And>g. g \<in> set gs \<Longrightarrow> gm_tail_blocks (fg_metas fg ! g) = 1 \<and> 0 < gm_tail_tokens (fg_metas fg ! g))
     \<Longrightarrow> \<exists>ws. list_all2 part_width ws parts \<and> sum_list ws = length sizes"
proof (induction gs arbitrary: parts sizes)
  case Nil
  then show ?case by simp
next
  case (Cons g gs)
  show ?case
  proof (cases "dict_get layouts g")
    case None
    with Cons show ?thesis by simp
  next
    case (Some l)
    have tail: "gm_tail_blocks (fg_metas fg ! g) = 1" "gm_tail_tokens (fg_metas fg ! g) \<noteq> 0"
      using Cons.prems(4) [of g] by auto
    from store_sizes_Cons [OF Cons.prems(2) Some refl tail(2) Cons.prems(3)] tail(1) obtain rest
      where rest: "store_sizes fg layouts gs = Inr rest" "length sizes = layout_width l + length rest" by auto
    have ok: "group_layout_ok l" using Cons.prems(3) Some by (auto simp: layouts_ok_def)
    from Cons.prems(1) Some obtain part ps where p: "parts = part # ps" "part_width (layout_width l) part"
      "fa_parts rnd hbs fg layouts a b ids gs = Inr ps"
      by (auto simp: rbind_Inr_iff Let_def extract_addrs_width [OF ok] split: if_splits)
    from Cons.IH [OF p(3) rest(1) Cons.prems(3)] Cons.prems(4) obtain ws
      where "list_all2 part_width ws ps" "sum_list ws = length rest" by auto
    with p rest show ?thesis by (intro exI [of _ "layout_width l # ws"]) simp
  qed
qed

lemma wa_parts_width:
  "wa_parts fg layouts n ids gs = Inr parts \<Longrightarrow> store_sizes fg layouts gs = Inr sizes
     \<Longrightarrow> layouts_ok layouts
     \<Longrightarrow> (\<And>g. g \<in> set gs \<Longrightarrow> gm_tail_tokens (fg_metas fg ! g) \<noteq> 0
            \<Longrightarrow> length (ids ! g) = gm_tail_blocks (fg_metas fg ! g) * n)
     \<Longrightarrow> \<exists>ws. list_all2 part_width ws parts \<and> sum_list ws = length sizes \<and> (\<forall>p \<in> set parts. length p = n)"
proof (induction gs arbitrary: parts sizes)
  case Nil
  then show ?case by simp
next
  case (Cons g gs)
  show ?case
  proof (cases "dict_get layouts g = None \<or> gm_tail_tokens (fg_metas fg ! g) = 0")
    case True
    then have "wa_parts fg layouts n ids gs = Inr parts" "store_sizes fg layouts gs = Inr sizes"
      using Cons.prems(1,2) by (auto simp: rbind_Inr_iff py_index_def split: option.splits if_splits)
    from Cons.IH [OF this Cons.prems(3)] Cons.prems(4) show ?thesis by simp
  next
    case False
    then obtain l where l: "dict_get layouts g = Some l" and tail: "gm_tail_tokens (fg_metas fg ! g) \<noteq> 0" by auto
    let ?t = "gm_tail_blocks (fg_metas fg ! g)"
    from store_sizes_Cons [OF Cons.prems(2) l refl tail Cons.prems(3)] obtain rest
      where rest: "store_sizes fg layouts gs = Inr rest" "length sizes = ?t * layout_width l + length rest" by auto
    have ok: "group_layout_ok l" using Cons.prems(3) l by (auto simp: layouts_ok_def)
    have ids: "length (ids ! g) = ?t * n" using Cons.prems(4) [of g] tail by simp
    from Cons.prems(1) l tail obtain bs part ps where p: "parts = part # ps"
      "wa_parts fg layouts n ids gs = Inr ps" "rmap u64_of (ids ! g) = Inr bs"
      and part: "(if ?t = 1 \<and> gm_tail_tokens (fg_metas fg ! g) < int (gm_token_block_size (fg_metas fg ! g))
                  then extract_addrs_with_offsets l bs (gm_token_block_size (fg_metas fg ! g))
                         (replicate (length bs)
                           (of_int (int (gm_token_block_size (fg_metas fg ! g)) - gm_tail_tokens (fg_metas fg ! g))))
                  else np_reshape_rows n (group_extract_addrs l bs)) = Inr part"
      by (auto simp: rbind_Inr_iff Let_def py_index_def split: if_splits)
    have bs: "length bs = ?t * n" using p(3) ids by (simp add: rmap_u64_of)
    have "part_width (?t * layout_width l) part \<and> length part = n"
    proof (cases "?t = 1 \<and> gm_tail_tokens (fg_metas fg ! g) < int (gm_token_block_size (fg_metas fg ! g))")
      case True
      with part bs show ?thesis
        by (auto simp: extract_addrs_with_offsets_def broadcast_def part_width_def offset_row_width [OF ok])
    next
      case False
      with part have "np_reshape_rows n (group_extract_addrs l bs) = Inr part" by auto
      from reshape_width [OF this extract_addrs_width(1) [OF ok], of ?t] bs show ?thesis by simp
    qed
    moreover from Cons.IH [OF p(2) rest(1) Cons.prems(3)] Cons.prems(4) obtain ws
      where "list_all2 part_width ws ps" "sum_list ws = length rest" "\<forall>p \<in> set ps. length p = n" by auto
    ultimately show ?thesis using p rest by (intro exI [of _ "?t * layout_width l # ws"]) simp
  qed
qed

section \<open>Rows fit the plan\<close>

lemma length_np_take: "np_take xs idx = Inr ys \<Longrightarrow> length ys = length idx"
  by (auto simp: np_take_def dest: rmap_Inr)

lemma slice_groups_nth:
  assumes "slice_groups fg ids bs bw = Inr out"
  shows "length out = length ids
    \<and> (\<forall>g < length ids. slice_group_block_ids fg g (ids ! g) bs bw = Inr (out ! g))"
  using rmap_Inr [OF assms [unfolded slice_groups_def]]
  by (auto simp: nth_enumerate_eq)

lemma slice_group_lengths:
  assumes "slice_group_block_ids fg g ids bs bw = Inr out"
  shows "g \<notin> set (fg_window_group_ids fg) \<Longrightarrow> length out = length bs"
    and "g \<in> set (fg_window_group_ids fg) \<Longrightarrow> bw \<Longrightarrow> gm_tail_tokens (fg_metas fg ! g) \<noteq> 0
      \<Longrightarrow> length out = gm_tail_blocks (fg_metas fg ! g) * length bs"
  using assms
  by (auto simp: slice_group_block_ids_def rbind_Inr_iff py_index_def Let_def length_concat comp_def sum_list_triv
      dest!: length_np_take split: if_splits)

text \<open>
  C40: What the scheduler plans for a block-wise window dump fits what the worker gave the store:
  for every key of the plan there is one row of addresses, and a row has one address for each
  entry of the store's tensor size list.
\<close>

theorem wa_dump_rows_match_the_store:
  assumes "fawa_dispatch_meta cf m nt new_ids load = (Inr d, m')" and "fd_dump_keys d \<noteq> []"
    and "fc_wa_dump_block_wise cf" and "layouts_ok layouts"
    and "fm_num_token_ids m \<le> length (fm_ucm_block_ids m) * fc_hash_block_size cf + fc_hash_block_size cf - 1"
    and "set (fg_window_group_ids (fc_groups cf)) \<subseteq> {..<length (fm_vllm_block_ids m')}"
    and "store_tensor_size_list (fc_groups cf) layouts (fg_window_group_ids (fc_groups cf)) = Inr sizes"
    and "extract_wa_ptr (fc_groups cf) layouts (length (fd_dump_keys d)) (fd_dump_vllm_block_ids d) = Inr rows"
  shows "length rows = length (fd_dump_keys d) \<and> list_all (\<lambda>row. length row = length sizes) rows"
proof -
  let ?fg = "fc_groups cf" and ?a = "fd_dump_hash_start d" and ?b = "fd_dump_hash_end d"
  note plan = fawa_dispatch_meta_plan [OF assms(1)]
  have keys: "fd_dump_keys d = py_slice (fm_ucm_block_ids m) ?a ?b" using plan(1) by blast
  have last: "?b \<le> length (fm_ucm_block_ids m)"
  proof -
    have "fm_token_processed m' \<le> fm_num_token_ids m" using plan(1) by simp
    then have "?b \<le> fm_num_token_ids m div fc_hash_block_size cf" using plan(1) by (simp add: div_le_mono)
    also have "\<dots> \<le> length (fm_ucm_block_ids m)"
      using assms(5) by (cases "fc_hash_block_size cf = 0")
        (simp_all add: div_le_mono less_mult_imp_div_less order.strict_trans1 flip: less_Suc_eq_le)
    finally show ?thesis .
  qed
  have n: "length (fd_dump_keys d) = ?b - ?a" using keys last by simp
  with assms(2) have lt: "?a < ?b" by (metis length_0_conv not_less zero_less_diff gr0I)
  have "slice_groups ?fg (fm_vllm_block_ids m') (window_boundaries (fc_hash_block_size cf) ?a ?b) True
      = Inr (fd_dump_vllm_block_ids d)"
    using plan(2) lt assms(3) by (simp add: fawa_dump_ids_def)
  note slices = slice_groups_nth [OF this]
  have ids: "length (fd_dump_vllm_block_ids d ! g) = gm_tail_blocks (fg_metas ?fg ! g) * length (fd_dump_keys d)"
    if "g \<in> set (fg_window_group_ids ?fg)" "gm_tail_tokens (fg_metas ?fg ! g) \<noteq> 0" for g
  proof -
    have "g < length (fm_vllm_block_ids m')" using assms(6) that(1) by auto
    with slices have "slice_group_block_ids ?fg g (fm_vllm_block_ids m' ! g)
        (window_boundaries (fc_hash_block_size cf) ?a ?b) True = Inr (fd_dump_vllm_block_ids d ! g)" by blast
    from slice_group_lengths(2) [OF this that(1) TrueI that(2)] n show ?thesis
      by (simp add: window_boundaries_def del: upt_Suc)
  qed
  obtain parts where parts: "wa_parts ?fg layouts (length (fd_dump_keys d)) (fd_dump_vllm_block_ids d)
      (fg_window_group_ids ?fg) = Inr parts" "concat_columns parts = Inr rows"
    using assms(8) by (auto simp: extract_wa_ptr_def rbind_Inr_iff)
  have "store_sizes ?fg layouts (fg_window_group_ids ?fg) = Inr sizes"
    using assms(7) by (auto simp: store_tensor_size_list_def rbind_Inr_iff split: if_splits)
  from wa_parts_width [OF parts(1) this assms(4) ids] obtain ws where
    ws: "list_all2 part_width ws parts" "sum_list ws = length sizes" "\<forall>p \<in> set parts. length p = length (fd_dump_keys d)"
    by blast
  have "parts \<noteq> []" using parts(2) by (auto simp: concat_columns_def)
  with ws concat_columns_width [OF parts(2) ws(1)] show ?thesis
    by (simp add: part_width_def list_all_iff)
qed

section \<open>Segments inside a block\<close>

definition gl_view :: "group_layout \<Rightarrow> nat \<Rightarrow> group_view" where
  "gl_view l k =
     \<lparr>gv_ptr = unat (gl_base_ptrs l ! k), gv_block_stride = unat (gl_block_strides l ! k),
      gv_token_stride = unat (gl_token_strides l ! k), gv_size_per_token = unat (gl_sizes_per_token l ! k),
      gv_block_size = unat (gl_block_sizes l ! k)\<rparr>"

text \<open>Where the segment at a token offset starts, and how long a segment of some tokens is.\<close>

definition segment_start :: "group_view \<Rightarrow> nat \<Rightarrow> nat \<Rightarrow> nat \<Rightarrow> nat" where
  "segment_start v g block off =
     gv_ptr v + block * gv_block_stride v + (off * gv_block_size v div g) * gv_token_stride v"

definition segment_bytes :: "group_view \<Rightarrow> nat \<Rightarrow> nat \<Rightarrow> nat" where
  "segment_bytes v g tokens = gv_size_per_token v * (gv_block_size v * tokens div g)"

definition view_fits :: "group_view \<Rightarrow> nat \<Rightarrow> nat \<Rightarrow> bool" where
  "view_fits v g block \<longleftrightarrow>
     0 < gv_block_size v \<and> gv_ptr v + Suc block * gv_block_stride v \<le> 2 ^ 53 \<and> gv_block_size v * g \<le> 2 ^ 53
     \<and> gv_block_size v * gv_token_stride v \<le> gv_block_stride v \<and> gv_size_per_token v \<le> gv_token_stride v"

lemma div_superadditive: "(a div n) + (b div n) \<le> (a + b) div (n :: nat)"
  by (cases "n = 0") (simp_all add: less_eq_div_iff_mult_less_eq distrib_right add_mono div_times_less_eq_dividend)

lemma segments_step:
  assumes "gv_size_per_token v \<le> gv_token_stride v" and "off + t \<le> off'"
  shows "segment_start v g block off + segment_bytes v g t \<le> segment_start v g block off'"
proof -
  let ?bs = "gv_block_size v" and ?ts = "gv_token_stride v"
  have "off * ?bs div g + t * ?bs div g \<le> (off * ?bs + t * ?bs) div g" by (rule div_superadditive)
  also have "\<dots> \<le> off' * ?bs div g" using assms(2) by (intro div_le_mono) (metis distrib_right mult_le_mono1)
  finally have le: "off * ?bs div g + t * ?bs div g \<le> off' * ?bs div g" .
  have "segment_bytes v g t \<le> (t * ?bs div g) * ?ts"
    using assms(1) by (simp add: segment_bytes_def mult.commute mult_le_mono1)
  with mult_le_mono1 [OF le, of ?ts] show ?thesis
    by (simp add: segment_start_def distrib_right)
qed

lemma segment_in_block:
  assumes "view_fits v g block" and "off + t \<le> g" and "0 < g"
  shows "segment_start v g block off + segment_bytes v g t \<le> gv_ptr v + Suc block * gv_block_stride v"
proof -
  have "segment_start v g block off + segment_bytes v g t \<le> segment_start v g block g"
    using assms by (intro segments_step) (simp_all add: view_fits_def)
  also have "\<dots> \<le> gv_ptr v + Suc block * gv_block_stride v"
    using assms(1,3) by (simp add: segment_start_def view_fits_def)
  finally show ?thesis .
qed

lemma nth_float_offset_row:
  assumes "group_layout_ok l" and "k < layout_width l" and "\<forall>n \<le> 2 ^ 53. rnd n = n"
    and "view_fits (gl_view l k) g block" and "off \<le> g" and "0 < g"
  shows "unat (float_offset_row rnd l g (of_nat block, off) ! k) = segment_start (gl_view l k) g block off"
proof -
  define bs st ts base where
    d: "bs = unat (gl_block_sizes l ! k)" "st = unat (gl_block_strides l ! k)"
      "ts = unat (gl_token_strides l ! k)" "base = unat (gl_base_ptrs l ! k)"
  have fits: "0 < bs" "base + Suc block * st \<le> 2 ^ 53" "bs * g \<le> 2 ^ 53" "bs * ts \<le> st"
    using assms(4) by (simp_all add: view_fits_def gl_view_def d)
  let ?o = "off * bs div g"
  have ob: "off * bs \<le> bs * g" using mult_le_mono1 [OF assms(5), of bs] by (simp add: mult.commute)
  then have "?o \<le> bs * g div g" by (rule div_le_mono)
  then have o: "?o \<le> bs" using assms(6) by simp
  have ot: "?o * ts \<le> st" using mult_le_mono1 [OF o, of ts] fits(4) by linarith
  have bounds: "off \<le> 2 ^ 53" "bs \<le> 2 ^ 53" "ts \<le> 2 ^ 53" "base \<le> 2 ^ 53" "off * bs \<le> 2 ^ 53" "?o \<le> 2 ^ 53"
  proof -
    have "g \<le> bs * g" "bs \<le> bs * g" "ts \<le> bs * ts" using fits(1) assms(6) by simp_all
    moreover have "st \<le> Suc block * st" by simp
    ultimately show "off \<le> 2 ^ 53" "bs \<le> 2 ^ 53" "ts \<le> 2 ^ 53" "base \<le> 2 ^ 53" "off * bs \<le> 2 ^ 53" "?o \<le> 2 ^ 53"
      using fits assms(5) ob o by linarith+
  qed
  have sum: "block * st + ?o * ts + base \<le> 2 ^ 53" "block * st \<le> 2 ^ 53" "?o * ts \<le> 2 ^ 53"
    using ot fits(2) by simp_all
  have "block * st < 2 ^ 64" using sum(2) by simp
  moreover have "of_nat block * gl_block_strides l ! k = of_nat (block * st)" by (simp add: d(2))
  ultimately have b: "unat (of_nat block * gl_block_strides l ! k) = block * st"
    by (simp only: unat_of_nat) simp
  have "float_offset_row rnd l g (of_nat block, off) ! k = of_nat (block * st + ?o * ts + base)"
    using assms(1,2) b bounds sum assms(3)
    by (simp add: float_offset_row_def group_layout_ok_def layout_width_def Let_def flip: d)
  moreover have "block * st + ?o * ts + base < 2 ^ 64" using sum(1) by simp
  ultimately have "unat (float_offset_row rnd l g (of_nat block, off) ! k) = block * st + ?o * ts + base"
    by (simp only: unat_of_nat) simp
  then show ?thesis by (simp add: segment_start_def gl_view_def flip: d)
qed

lemma u64_div:
  assumes "a < 2 ^ 64" and "b < 2 ^ 64"
  shows "(of_nat a :: u64) div of_nat b = of_nat (a div b)"
proof (rule word_unat_eq_iff [THEN iffD2])
  have "a div b < 2 ^ 64" using assms(1) div_le_dividend [of a b] by linarith
  with assms have "unat (of_nat (a div b) :: u64) = a div b" "unat (of_nat a :: u64) = a" "unat (of_nat b :: u64) = b"
    by (simp_all only: unat_of_nat) simp_all
  then show "unat ((of_nat a :: u64) div of_nat b) = unat (of_nat (a div b) :: u64)" by (simp add: unat_div)
qed

lemma unat_segment_size:
  assumes "group_layout_ok l" and "k < layout_width l" and "view_fits (gl_view l k) g block" and "t \<le> g" and "0 < g"
  shows "segment_tensor_size_list l t g ! k = segment_bytes (gl_view l k) g t"
proof -
  let ?v = "gl_view l k"
  have fits: "gv_block_size ?v * g \<le> 2 ^ 53" "gv_block_size ?v * gv_token_stride ?v \<le> gv_block_stride ?v"
    "gv_ptr ?v + Suc block * gv_block_stride ?v \<le> 2 ^ 53" "gv_size_per_token ?v \<le> gv_token_stride ?v" "0 < gv_block_size ?v"
    using assms(3) by (simp_all add: view_fits_def)
  have bt: "gv_block_size ?v * t \<le> gv_block_size ?v * g" using assms(4) by simp
  then have o: "gv_block_size ?v * t div g \<le> gv_block_size ?v"
    using div_le_mono [OF bt, of g] assms(5) by simp
  have "gv_size_per_token ?v * (gv_block_size ?v * t div g) \<le> gv_token_stride ?v * gv_block_size ?v"
    using mult_le_mono [OF fits(4) o] by simp
  also have "\<dots> \<le> 2 ^ 53" using fits(2,3) by (simp add: mult.commute)
  finally have small: "gv_size_per_token ?v * (gv_block_size ?v * t div g) < 2 ^ 64" by simp
  have "g \<le> gv_block_size ?v * g" "gv_block_size ?v \<le> gv_block_size ?v * g" using fits(5) assms(5) by simp_all
  with fits(1) assms(4) bt have "g \<le> 2 ^ 53 \<and> t \<le> 2 ^ 53 \<and> gv_block_size ?v * t \<le> 2 ^ 53" by linarith
  then have lt: "g < 2 ^ 64" "t < 2 ^ 64" "gv_block_size ?v * t < 2 ^ 64" by auto
  have "gl_block_sizes l ! k * of_nat t = of_nat (gv_block_size ?v * t)" by (simp add: gl_view_def)
  with lt have "gl_block_sizes l ! k * of_nat t div of_nat g = of_nat (gv_block_size ?v * t div g)"
    by (simp only: u64_div)
  then have "gl_sizes_per_token l ! k * (gl_block_sizes l ! k * of_nat t div of_nat g)
      = of_nat (gv_size_per_token ?v * (gv_block_size ?v * t div g))"
    by (simp add: gl_view_def)
  with small have "unat (gl_sizes_per_token l ! k * (gl_block_sizes l ! k * of_nat t div of_nat g))
      = gv_size_per_token ?v * (gv_block_size ?v * t div g)"
    by (simp only: unat_of_nat) simp
  with assms(1,2) show ?thesis
    by (simp add: segment_tensor_size_list_def group_layout_ok_def segment_bytes_def)
qed

text \<open>
  Where a device block holds several canonical hash blocks, the rows of two of them neither
  overlap nor leave the device block. With double rounding that keeps integers up to
  \<open>2 ^ 53\<close>, the address computed for a token offset is exact, the segment that starts there
  ends before the segment of any later hash block of the same device block begins, and it ends
  inside the device block.
\<close>

lemma fa_segments_are_exact_and_disjoint:
  assumes "new_group_layout layer_id is_ascend expected caches = Inr l" and "k < layout_width l"
    and "\<forall>n \<le> 2 ^ 53. rnd n = n" and "view_fits (gl_view l k) g block" and "0 < g"
    and "off + t \<le> off'" and "off' + t \<le> g"
  shows "unat (float_offset_row rnd l g (of_nat block, off) ! k) = segment_start (gl_view l k) g block off
    \<and> unat (float_offset_row rnd l g (of_nat block, off) ! k) + segment_tensor_size_list l t g ! k
        \<le> unat (float_offset_row rnd l g (of_nat block, off') ! k)
    \<and> unat (float_offset_row rnd l g (of_nat block, off') ! k) + segment_tensor_size_list l t g ! k
        \<le> gv_ptr (gl_view l k) + Suc block * gv_block_stride (gl_view l k)"
proof -
  have ok: "group_layout_ok l" by (rule new_group_layout_ok [OF assms(1)])
  note start = nth_float_offset_row [OF ok assms(2,3,4) _ assms(5)]
  note size = unat_segment_size [OF ok assms(2,4) _ assms(5), of t]
  have "gv_size_per_token (gl_view l k) \<le> gv_token_stride (gl_view l k)" using assms(4) by (simp add: view_fits_def)
  from segments_step [OF this assms(6)] segment_in_block [OF assms(4,7,5)] start [of off] start [of off'] size assms(6,7)
  show ?thesis by simp
qed

section \<open>Concrete inputs\<close>

definition demo_group_caches :: kv_caches where
  "demo_group_caches =
     [(''b'', KvTensor \<lparr>tn_shape = [4, 4, 8], tn_strides = [32, 8, 1], tn_elem = 2, tn_ptr = 8192\<rparr>),
      (''a'', KvTensor \<lparr>tn_shape = [4, 4, 8], tn_strides = [32, 8, 1], tn_elem = 2, tn_ptr = 4096\<rparr>)]"

definition demo_group_layout :: group_layout where
  "demo_group_layout =
     \<lparr>gl_base_ptrs = [4096, 8192], gl_block_strides = [64, 64], gl_token_strides = [16, 16],
      gl_sizes_per_token = [16, 16], gl_block_sizes = [4, 4]\<rparr>"

definition demo_group_layer :: "string \<Rightarrow> nat" where
  "demo_group_layer name = (if name = ''a'' then 0 else 1)"

lemma demo_group_layout:
  "new_group_layout demo_group_layer False (Some 4) demo_group_caches = Inr demo_group_layout"
  by (simp add: new_group_layout_def sorted_caches_def demo_group_caches_def demo_group_layer_def
      group_layer_views_def group_tensor_views_def group_handle_tensor_def tensor_select_def u64_of_def
      demo_group_layout_def)

lemma demo_group_layouts_ok: "layouts_ok [(1, demo_group_layout)]"
  using new_group_layout_ok [OF demo_group_layout] by (simp add: layouts_ok_def)

definition demo_fawa_dispatch :: fawa_dispatch where
  "demo_fawa_dispatch =
     \<lparr>fd_load_keys = [], fd_load_hash_start = 0, fd_load_hash_end = 0, fd_load_vllm_block_ids = [],
      fd_dump_keys = [''a''], fd_dump_hash_start = 0, fd_dump_hash_end = 1,
      fd_dump_vllm_block_ids = [[10], [20, 21]]\<rparr>"

lemma demo_fawa_dispatch:
  "fawa_dispatch_meta demo_fawa_cfg demo_fawa_meta 3 [[10, 11], [20, 21, 22, 23]] False
     = (Inr demo_fawa_dispatch,
        demo_fawa_meta\<lparr>fm_vllm_block_ids := [[10, 11], [20, 21, 22, 23]], fm_token_processed := 3\<rparr>)"
  by code_simp

theorem wa_dump_rows_match_the_store_witness:
  "\<exists>rows. extract_wa_ptr demo_fawa_groups [(1, demo_group_layout)] 1 [[10], [20, 21]] = Inr rows
     \<and> length rows = 1 \<and> list_all (\<lambda>row. length row = 4) rows"
proof -
  let ?l = "[(1, demo_group_layout)]"
  have g: "fc_groups demo_fawa_cfg = demo_fawa_groups" by (simp add: demo_fawa_cfg_def)
  have two: "replicate 2 xs = [xs, xs]" for xs :: "nat list" by (simp add: numeral_2_eq_2)
  have sizes: "store_tensor_size_list demo_fawa_groups ?l [1] = Inr [64, 64, 64, 64]"
    by (simp add: store_tensor_size_list_def py_index_def demo_fawa_groups_def segment_tensor_size_list_def
        demo_group_layout_def two)
  have rows: "extract_wa_ptr demo_fawa_groups ?l 1 [[10], [20, 21]] = Inr [[5376, 9472, 5440, 9536]]"
    by (simp add: extract_wa_ptr_def py_index_def demo_fawa_groups_def demo_group_layout_def u64_of_def
        np_reshape_rows_def group_extract_addrs_def row_addrs_def concat_columns_def)
  have w: "fg_window_group_ids demo_fawa_groups = [1]" by (simp add: demo_fawa_groups_def)
  from wa_dump_rows_match_the_store [OF demo_fawa_dispatch _ _ demo_group_layouts_ok, of "[64, 64, 64, 64]"
      "[[5376, 9472, 5440, 9536]]"] sizes rows w
  show ?thesis
    by (simp add: g demo_fawa_dispatch_def demo_fawa_cfg_def demo_fawa_meta_def demo_keys_def)
qed

end
