(* ===== verification/Fawa_Worker.thy ===== *)
theory Fawa_Worker
  imports Fawa_Layout Dump_Tasks
begin

text \<open>
  The worker side of \<open>UCMFAWAConnector\<close>: loads of a request go to the FA and to the WA store
  as two tasks; dumps are split over the tensor-parallel ranks. FA dump tasks stay in flight in a
  table keyed by the requests they cover; the WA dump of a step is waited for before
  \<open>wait_for_save\<close> returns, because its source blocks may be reused by the next step.
\<close>

section \<open>State\<close>

record fawa_load_task =
  lt_request_id :: req_id
  lt_task :: nat
  lt_key_count :: nat

record fawa_dump_task =
  dt_task :: nat
  dt_key_count :: nat
  dt_event_handle :: nat

text \<open>The connector inherits the direct connector's attributes and adds its table of tasks.\<close>

record 'w fawa_worker = "'w worker" +
  fw_tp_dump_tasks :: "(req_id list, fawa_dump_task list) dict"

record 'w fawa_worker_cfg =
  fx_tp_rank :: nat
  fx_tp_size :: nat
  fx_hash_block_size :: nat
  fx_groups :: fawa_groups
  fx_layouts :: group_layouts
  fx_round :: "nat \<Rightarrow> nat"
  fx_wa_dump_block_wise :: bool
  fx_enable_event_sync :: bool
  fx_fa_store :: "'w kv_store option"
  fx_wa_store :: "'w kv_store option"
  fx_device :: "'w device_api"

section \<open>Loading\<close>

text \<open>\<open>_submit_load_task\<close> and \<open>_wait_load_task\<close>, with \<open>_handle_load_err\<close>.\<close>

definition fawa_submit_load ::
  "req_id \<Rightarrow> 'w kv_store \<Rightarrow> bytes list \<Rightarrow> u64 list list \<Rightarrow> 'w fawa_worker
     \<Rightarrow> fawa_load_task result \<times> 'w fawa_worker" where
  "fawa_submit_load request_id store keys ptrs s =
     (case submit_load (wk_rcm s) store (wk_world s) [(request_id, keys)] keys
             (replicate (length keys) 0) ptrs of
        (Inl e, rcm', w') \<Rightarrow> (Inl e, s\<lparr>wk_rcm := rcm', wk_world := w'\<rparr>)
      | (Inr task, rcm', w') \<Rightarrow>
          (Inr \<lparr>lt_request_id = request_id, lt_task = task, lt_key_count = length keys\<rparr>,
           s\<lparr>wk_rcm := rcm', wk_world := w'\<rparr>))"

definition request_all_block_ids :: "(req_id, fawa_dispatch) dict \<Rightarrow> req_id \<Rightarrow> vllm_id list" where
  "request_all_block_ids metas request_id =
     (case dict_get metas request_id of
        None \<Rightarrow> []
      | Some request \<Rightarrow> concat (fd_load_vllm_block_ids request) @ concat (fd_dump_vllm_block_ids request))"

definition handle_load_err ::
  "(req_id, fawa_dispatch) dict \<Rightarrow> req_id \<Rightarrow> 'w fawa_worker \<Rightarrow> 'w fawa_worker" where
  "handle_load_err metas request_id s =
     (let s1 = record_load_error ''connector_load_wait_errors_total'' (request_all_block_ids metas request_id) s
      in s1\<lparr>wk_meta := mark_failed request_id (wk_meta s1)\<rparr>)"

text \<open>
  The body of the \<open>try\<close> in \<open>start_load_kv\<close>: the tasks submitted before an exception stay
  in the list that is waited for.
\<close>

definition fawa_load_request ::
  "'w fawa_worker_cfg \<Rightarrow> req_id \<Rightarrow> fawa_dispatch \<Rightarrow> 'w fawa_worker
     \<Rightarrow> unit result \<times> fawa_load_task list \<times> 'w fawa_worker" where
  "fawa_load_request cf request_id request s =
     (case (fx_fa_store cf, fx_wa_store cf) of
        (Some fa_store, Some wa_store) \<Rightarrow>
          (case extract_fa_ptr (fx_round cf) (fx_hash_block_size cf) (fx_groups cf) (fx_layouts cf)
                  (fd_load_hash_start request) (fd_load_hash_end request) (fd_load_vllm_block_ids request) of
             Inl e \<Rightarrow> (Inl e, [], s)
           | Inr fa_ptrs \<Rightarrow>
               (case fawa_submit_load request_id fa_store (fd_load_keys request) fa_ptrs s of
                  (Inl e, s1) \<Rightarrow> (Inl e, [], s1)
                | (Inr fa_task, s1) \<Rightarrow>
                    let window_keys = [last (fd_load_keys request)] in
                    (case extract_wa_ptr (fx_groups cf) (fx_layouts cf) (length window_keys)
                            (fd_load_vllm_block_ids request) of
                       Inl e \<Rightarrow> (Inl e, [fa_task], s1)
                     | Inr window_ptrs \<Rightarrow>
                         (case fawa_submit_load request_id wa_store window_keys window_ptrs s1 of
                            (Inl e, s2) \<Rightarrow> (Inl e, [fa_task], s2)
                          | (Inr wa_task, s2) \<Rightarrow> (Inr (), [fa_task, wa_task], s2)))))
      | _ \<Rightarrow> (Inl RuntimeError, [], s))"

fun fawa_submit_loads ::
  "'w fawa_worker_cfg \<Rightarrow> (req_id, fawa_dispatch) dict \<Rightarrow> (req_id, fawa_dispatch) dict
     \<Rightarrow> fawa_load_task list \<times> 'w fawa_worker \<Rightarrow> fawa_load_task list \<times> 'w fawa_worker" where
  "fawa_submit_loads cf metas [] (tasks, s) = (tasks, s)"
| "fawa_submit_loads cf metas ((request_id, request) # rest) (tasks, s) =
     (if fd_load_keys request = [] then fawa_submit_loads cf metas rest (tasks, s)
      else
        (case fawa_load_request cf request_id request s of
           (Inr _, ts, s1) \<Rightarrow> fawa_submit_loads cf metas rest (tasks @ ts, s1)
         | (Inl e, ts, s1) \<Rightarrow>
             fawa_submit_loads cf metas rest (tasks @ ts, handle_load_err metas request_id s1)))"

fun fawa_wait_loads ::
  "(req_id, fawa_dispatch) dict \<Rightarrow> fawa_load_task list \<Rightarrow> 'w fawa_worker \<Rightarrow> 'w fawa_worker" where
  "fawa_wait_loads metas [] s = s"
| "fawa_wait_loads metas (t # rest) s =
     (case wait_load (wk_rcm s) (wk_world s) (lt_task t) of
        (Inr _, rcm', w') \<Rightarrow> fawa_wait_loads metas rest (s\<lparr>wk_rcm := rcm', wk_world := w'\<rparr>)
      | (Inl e, rcm', w') \<Rightarrow>
          fawa_wait_loads metas rest
            (handle_load_err metas (lt_request_id t) (s\<lparr>wk_rcm := rcm', wk_world := w'\<rparr>)))"

definition fawa_start_load_kv :: "'w fawa_worker_cfg \<Rightarrow> fawa_connector_meta \<Rightarrow> 'w fawa_worker \<Rightarrow> 'w fawa_worker" where
  "fawa_start_load_kv cf metadata s =
     (let metas = fcm_request_meta metadata;
          (tasks, s1) = fawa_submit_loads cf metas metas ([], s)
      in fawa_wait_loads metas tasks s1)"

section \<open>Dump tasks\<close>

definition fawa_destroy_event :: "nat \<Rightarrow> 'w fawa_worker \<Rightarrow> 'w fawa_worker" where
  "fawa_destroy_event handle s = s\<lparr>wk_events := destroy_event_handle handle (wk_events s)\<rparr>"

text \<open>Waiting for one dump task; the event is destroyed whether or not the wait raises.\<close>

definition fawa_wait_dump :: "metric list \<Rightarrow> fawa_dump_task \<Rightarrow> 'w fawa_worker \<Rightarrow> 'w fawa_worker" where
  "fawa_wait_dump on_error t s =
     (case wait_dump (wk_rcm s) (wk_world s) (dt_task t) of
        (r, rcm', w') \<Rightarrow>
          let s1 = s\<lparr>wk_rcm := rcm', wk_world := w'\<rparr>;
              s2 = (case r of Inl e \<Rightarrow> worker_stats on_error s1 | Inr _ \<Rightarrow> s1)
          in fawa_destroy_event (dt_event_handle t) s2)"

fun fawa_poll_tasks ::
  "'w kv_store \<Rightarrow> fawa_dump_task list \<Rightarrow> 'w fawa_worker \<Rightarrow> fawa_dump_task list \<times> 'w fawa_worker" where
  "fawa_poll_tasks store [] s = ([], s)"
| "fawa_poll_tasks store (t # rest) s =
     (case st_check store (wk_world s) (dt_task t) of
        (Inr True, w') \<Rightarrow> fawa_poll_tasks store rest (fawa_wait_dump [] t (s\<lparr>wk_world := w'\<rparr>))
      | (_, w') \<Rightarrow>
          (case fawa_poll_tasks store rest (s\<lparr>wk_world := w'\<rparr>) of
             (in_flight, s') \<Rightarrow> (t # in_flight, s')))"

text \<open>
  \<open>_poll_completed_dump_tasks\<close>, over a snapshot of the table. Every task of the table was
  submitted to the FA store.
\<close>

fun fawa_poll_loop ::
  "'w kv_store \<Rightarrow> (req_id list \<times> fawa_dump_task list) list \<Rightarrow> 'w fawa_worker \<Rightarrow> 'w fawa_worker" where
  "fawa_poll_loop store [] s = s"
| "fawa_poll_loop store ((request_ids, tasks) # rest) s =
     (case fawa_poll_tasks store tasks s of
        (in_flight, s1) \<Rightarrow>
          fawa_poll_loop store rest
            (s1\<lparr>fw_tp_dump_tasks :=
                 (if in_flight = [] then dict_pop request_ids (fw_tp_dump_tasks s1)
                  else dict_set request_ids in_flight (fw_tp_dump_tasks s1))\<rparr>))"

definition fawa_poll_completed :: "'w kv_store \<Rightarrow> 'w fawa_worker \<Rightarrow> 'w fawa_worker" where
  "fawa_poll_completed store s = fawa_poll_loop store (fw_tp_dump_tasks s) s"

fun fawa_wait_all :: "fawa_dump_task list \<Rightarrow> 'w fawa_worker \<Rightarrow> 'w fawa_worker" where
  "fawa_wait_all [] s = s"
| "fawa_wait_all (t # rest) s =
     fawa_wait_all rest (fawa_wait_dump [MCount ''connector_dump_wait_errors_total'' 1] t s)"

fun fawa_drain_loop ::
  "req_id set \<Rightarrow> (req_id list \<times> fawa_dump_task list) list \<Rightarrow> 'w fawa_worker
     \<Rightarrow> req_id list list \<times> 'w fawa_worker" where
  "fawa_drain_loop finished [] s = ([], s)"
| "fawa_drain_loop finished ((request_ids, tasks) # rest) s =
     (if finished \<inter> set request_ids \<noteq> {}
      then (case fawa_drain_loop finished rest (fawa_wait_all tasks s) of
              (ks, s') \<Rightarrow> (request_ids # ks, s'))
      else fawa_drain_loop finished rest s)"

definition fawa_drain :: "req_id set \<Rightarrow> 'w fawa_worker \<Rightarrow> 'w fawa_worker" where
  "fawa_drain finished s =
     (if finished = {} then s
      else
        (case fawa_drain_loop finished (fw_tp_dump_tasks s) s of
           (finished_chunks, s1) \<Rightarrow>
             s1\<lparr>fw_tp_dump_tasks := fold dict_pop finished_chunks (fw_tp_dump_tasks s1)\<rparr>))"

definition fawa_handle_preemptions :: "fawa_connector_meta \<Rightarrow> 'w fawa_worker \<Rightarrow> 'w fawa_worker" where
  "fawa_handle_preemptions metadata s = fawa_drain (fcm_preempted_req_ids metadata) s"

definition fawa_get_finished ::
  "req_id list \<Rightarrow> 'w fawa_worker \<Rightarrow> req_id set result \<times> 'w fawa_worker" where
  "fawa_get_finished finished_req_ids s =
     (let s1 = fawa_drain (set finished_req_ids) s in
      case finish_dump (wk_rcm s1) finished_req_ids of
        (Inl e, rcm') \<Rightarrow> (Inl e, s1\<lparr>wk_rcm := rcm'\<rparr>)
      | (Inr _, rcm') \<Rightarrow> (Inr (set finished_req_ids), s1\<lparr>wk_rcm := rcm'\<rparr>))"

definition fawa_request_finished_all_groups :: "req_id \<Rightarrow> vllm_id list list \<Rightarrow> bool" where
  "fawa_request_finished_all_groups request block_ids = True"

section \<open>Collecting a step's dumps\<close>

record fawa_collect =
  fk_fa_keys :: "bytes list"
  fk_wa_keys :: "bytes list"
  fk_fa_rows :: "u64 list list list"
  fk_wa_rows :: "u64 list list list"
  fk_request_ids :: "req_id list"
  fk_fa_blocks :: "(req_id, bytes set) dict"
  fk_wa_blocks :: "(req_id, bytes set) dict"
  fk_ring :: nat

definition empty_fawa_collect :: fawa_collect where
  "empty_fawa_collect =
     \<lparr>fk_fa_keys = [], fk_wa_keys = [], fk_fa_rows = [], fk_wa_rows = [], fk_request_ids = [],
      fk_fa_blocks = [], fk_wa_blocks = [], fk_ring = 0\<rparr>"

definition collect_fa ::
  "'w fawa_worker_cfg \<Rightarrow> req_id \<Rightarrow> bytes list \<Rightarrow> nat \<Rightarrow> nat \<Rightarrow> vllm_id list list \<Rightarrow> fawa_collect \<Rightarrow> fawa_collect result" where
  "collect_fa cf request_id keys hash_start hash_end ids a =
     rbind (extract_fa_ptr (fx_round cf) (fx_hash_block_size cf) (fx_groups cf) (fx_layouts cf) hash_start hash_end ids)
       (\<lambda>rows. Inr (a\<lparr>fk_fa_blocks := dict_set request_id (set keys) (fk_fa_blocks a),
                       fk_fa_keys := fk_fa_keys a @ keys, fk_fa_rows := fk_fa_rows a @ [rows]\<rparr>))"

definition collect_wa ::
  "'w fawa_worker_cfg \<Rightarrow> req_id \<Rightarrow> bytes list \<Rightarrow> vllm_id list list \<Rightarrow> fawa_collect \<Rightarrow> fawa_collect result" where
  "collect_wa cf request_id keys ids a =
     rbind (extract_wa_ptr (fx_groups cf) (fx_layouts cf) (length keys) ids)
       (\<lambda>rows. Inr (a\<lparr>fk_wa_blocks := dict_set request_id (set keys) (fk_wa_blocks a),
                       fk_wa_keys := fk_wa_keys a @ keys, fk_wa_rows := fk_wa_rows a @ [rows]\<rparr>))"

text \<open>The share of a tensor-parallel rank: FA and block-wise WA rows are cut by key.\<close>

definition tp_start :: "'w fawa_worker_cfg \<Rightarrow> nat \<Rightarrow> nat" where
  "tp_start cf num_keys = num_keys * fx_tp_rank cf div fx_tp_size cf"

definition tp_end :: "'w fawa_worker_cfg \<Rightarrow> nat \<Rightarrow> nat" where
  "tp_end cf num_keys = num_keys * (fx_tp_rank cf + 1) div fx_tp_size cf"

definition tp_fa_ids :: "'w fawa_worker_cfg \<Rightarrow> nat \<Rightarrow> nat \<Rightarrow> vllm_id list list \<Rightarrow> vllm_id list list" where
  "tp_fa_ids cf a b ids =
     map (\<lambda>(g, xs). if g \<in> set (fg_fa_group_ids (fx_groups cf)) then py_slice xs a b else xs) (enumerate 0 ids)"

definition tp_wa_ids :: "'w fawa_worker_cfg \<Rightarrow> nat \<Rightarrow> nat \<Rightarrow> vllm_id list list \<Rightarrow> vllm_id list list result" where
  "tp_wa_ids cf a b ids =
     rmap (\<lambda>(g, xs). if g \<in> set (fg_window_group_ids (fx_groups cf))
                     then rbind (py_index (fg_metas (fx_groups cf)) g) (\<lambda>meta.
                            Inr (py_slice xs (a * gm_tail_blocks meta) (b * gm_tail_blocks meta)))
                     else Inr xs) (enumerate 0 ids)"

definition collect_tp ::
  "'w fawa_worker_cfg \<Rightarrow> req_id \<Rightarrow> fawa_dispatch \<Rightarrow> fawa_collect \<Rightarrow> fawa_collect result" where
  "collect_tp cf request_id request a =
     (let num_keys = length (fd_dump_keys request);
          tp_block_start = tp_start cf num_keys; tp_block_end = tp_end cf num_keys;
          tp_dump_keys = py_slice (fd_dump_keys request) tp_block_start tp_block_end;
          fa = (if tp_dump_keys = [] then Inr a
                else collect_fa cf request_id tp_dump_keys (fd_dump_hash_start request + tp_block_start)
                       (fd_dump_hash_start request + tp_block_end)
                       (tp_fa_ids cf tp_block_start tp_block_end (fd_dump_vllm_block_ids request)) a)
      in rbind fa (\<lambda>a1.
           rbind (if fx_wa_dump_block_wise cf
                  then (if tp_dump_keys = [] then Inr a1
                        else rbind (tp_wa_ids cf tp_block_start tp_block_end (fd_dump_vllm_block_ids request))
                               (\<lambda>ids. collect_wa cf request_id tp_dump_keys ids a1))
                  else if fk_ring a1 mod fx_tp_size cf = fx_tp_rank cf
                  then collect_wa cf request_id [last (fd_dump_keys request)] (fd_dump_vllm_block_ids request) a1
                  else Inr a1)
             (\<lambda>a2. Inr (a2\<lparr>fk_ring := fk_ring a2 + 1\<rparr>))))"

definition collect_single ::
  "'w fawa_worker_cfg \<Rightarrow> req_id \<Rightarrow> fawa_dispatch \<Rightarrow> fawa_collect \<Rightarrow> fawa_collect result" where
  "collect_single cf request_id request a =
     rbind (collect_fa cf request_id (fd_dump_keys request) (fd_dump_hash_start request)
              (fd_dump_hash_end request) (fd_dump_vllm_block_ids request) a) (\<lambda>a1.
       collect_wa cf request_id
         (if fx_wa_dump_block_wise cf then fd_dump_keys request else [last (fd_dump_keys request)])
         (fd_dump_vllm_block_ids request) a1)"

fun fawa_collect_dumps ::
  "'w fawa_worker_cfg \<Rightarrow> (req_id, fawa_dispatch) dict \<Rightarrow> fawa_collect \<Rightarrow> fawa_collect result" where
  "fawa_collect_dumps cf [] a = Inr a"
| "fawa_collect_dumps cf ((request_id, request) # rest) a =
     (if fd_dump_keys request = [] then fawa_collect_dumps cf rest a
      else
        rbind ((if 1 < fx_tp_size cf then collect_tp else collect_single) cf request_id request
                 (a\<lparr>fk_request_ids := fk_request_ids a @ [request_id]\<rparr>))
          (fawa_collect_dumps cf rest))"

text \<open>\<open>np.vstack\<close>: every part has the same width.\<close>

definition vstack :: "u64 list list list \<Rightarrow> u64 list list result" where
  "vstack parts =
     (let rows = concat parts in
      if parts = [] \<or> (\<exists>r \<in> set rows. length r \<noteq> length (hd rows)) then Inl ValueError else Inr rows)"

section \<open>Saving\<close>

definition fawa_event_handle :: "'w fawa_worker_cfg \<Rightarrow> 'w fawa_worker \<Rightarrow> nat \<times> 'w fawa_worker" where
  "fawa_event_handle cf s =
     (case get_dump_event_handle (fx_device cf) (fx_enable_event_sync cf) (wk_events s) (wk_world s) of
        (h, ev, w) \<Rightarrow> (h, s\<lparr>wk_events := ev, wk_world := w\<rparr>))"

definition fawa_submit_dump ::
  "'w kv_store \<Rightarrow> bytes list \<Rightarrow> u64 list list \<Rightarrow> nat \<Rightarrow> (req_id, bytes set) dict \<Rightarrow> 'w fawa_worker
     \<Rightarrow> fawa_dump_task result \<times> 'w fawa_worker" where
  "fawa_submit_dump store keys ptrs event_handle block_ids_by_request s =
     (case submit_dump (wk_rcm s) store (wk_world s) block_ids_by_request keys
             (replicate (length keys) 0) ptrs event_handle of
        (r, rcm', w') \<Rightarrow>
          (rbind r (\<lambda>task. Inr \<lparr>dt_task = task, dt_key_count = length keys, dt_event_handle = event_handle\<rparr>),
           s\<lparr>wk_rcm := rcm', wk_world := w'\<rparr>))"

text \<open>
  The FA dump: one task for the step, under the tuple of the requests that dump. The entry of
  the table is created before the submission, so it stays, empty, where that raises.
\<close>

definition fawa_dump_fa ::
  "'w fawa_worker_cfg \<Rightarrow> 'w kv_store \<Rightarrow> fawa_collect \<Rightarrow> 'w fawa_worker \<Rightarrow> unit result \<times> 'w fawa_worker" where
  "fawa_dump_fa cf store a s =
     (if fk_fa_keys a = [] then (Inr (), s)
      else
        (case fawa_event_handle cf s of
           (event_handle, s1) \<Rightarrow>
             (case vstack (fk_fa_rows a) of
                Inl e \<Rightarrow> (Inl e, s1)
              | Inr fa_ptrs \<Rightarrow>
                  let ids = fk_request_ids a;
                      tasks = dict_get_or (fw_tp_dump_tasks s1) ids [];
                      s2 = s1\<lparr>fw_tp_dump_tasks := dict_set ids tasks (fw_tp_dump_tasks s1)\<rparr>
                  in (case fawa_submit_dump store (fk_fa_keys a) fa_ptrs event_handle (fk_fa_blocks a) s2 of
                        (Inr t, s3) \<Rightarrow>
                          (Inr (), s3\<lparr>fw_tp_dump_tasks := dict_set ids (tasks @ [t]) (fw_tp_dump_tasks s3)\<rparr>)
                      | (Inl e, s3) \<Rightarrow>
                          (Inr (), worker_stats [MCount ''connector_dump_submit_errors_total'' 1]
                                     (fawa_destroy_event event_handle s3))))))"

text \<open>The WA dump: submitted and waited for before the step's \<open>wait_for_save\<close> returns.\<close>

definition fawa_dump_wa ::
  "'w fawa_worker_cfg \<Rightarrow> 'w kv_store \<Rightarrow> fawa_collect \<Rightarrow> 'w fawa_worker \<Rightarrow> unit result \<times> 'w fawa_worker" where
  "fawa_dump_wa cf store a s =
     (if fk_wa_keys a = [] then (Inr (), s)
      else
        (case fawa_event_handle cf s of
           (event_handle, s1) \<Rightarrow>
             (case vstack (fk_wa_rows a) of
                Inl e \<Rightarrow> (Inl e, s1)
              | Inr window_ptrs \<Rightarrow>
                  (case fawa_submit_dump store (fk_wa_keys a) window_ptrs event_handle (fk_wa_blocks a) s1 of
                     (Inr t, s2) \<Rightarrow>
                       (Inr (), fawa_wait_dump [MCount ''connector_dump_wait_errors_total'' 1] t s2)
                   | (Inl e, s2) \<Rightarrow>
                       (Inr (), worker_stats [MCount ''connector_dump_submit_errors_total'' 1]
                                  (fawa_destroy_event event_handle s2))))))"

definition fawa_wait_for_save ::
  "'w fawa_worker_cfg \<Rightarrow> fawa_connector_meta \<Rightarrow> 'w fawa_worker \<Rightarrow> unit result \<times> 'w fawa_worker" where
  "fawa_wait_for_save cf metadata s =
     (case (fx_fa_store cf, fx_wa_store cf) of
        (Some fa_store, Some wa_store) \<Rightarrow>
          let s1 = fawa_poll_completed fa_store s in
          (case fawa_collect_dumps cf (fcm_request_meta metadata) empty_fawa_collect of
             Inl e \<Rightarrow> (Inl e, s1)
           | Inr a \<Rightarrow>
               (case fawa_dump_fa cf fa_store a s1 of
                  (Inl e, s2) \<Rightarrow> (Inl e, s2)
                | (Inr _, s2) \<Rightarrow> fawa_dump_wa cf wa_store a s2))
      | _ \<Rightarrow> (Inl RuntimeError, s))"

end
