(* ===== verification/Fawa_Tasks.thy ===== *)
theory Fawa_Tasks
  imports Fawa_Worker
begin

text \<open>
  The dump tasks of the FAWA worker. Every outstanding dump context of the manager belongs to a
  task of the table and only mentions requests the task is filed under; the WA dump of a step
  leaves no context behind. So asking for finished requests drains all of theirs and cannot
  raise, whatever the stores answer and whichever handles they return.
\<close>

section \<open>Filed contexts\<close>

type_synonym dump_table = "(req_id list, fawa_dump_task list) dict"

definition filed_under :: "dump_table \<Rightarrow> nat \<Rightarrow> req_id set \<Rightarrow> bool" where
  "filed_under table k rs \<longleftrightarrow> (\<exists>(ids, ts) \<in> set table. k \<in> dt_task ` set ts \<and> rs \<subseteq> set ids)"

definition filed :: "dump_table \<Rightarrow> 'w rcm \<Rightarrow> bool" where
  "filed table m \<longleftrightarrow>
     distinct (map fst table)
     \<and> (\<forall>(k, store, ctx) \<in> set (rc_dump_contexts m). filed_under table k (dict_keys ctx))"

definition fawa_inv :: "'w fawa_worker \<Rightarrow> bool" where
  "fawa_inv s = filed (fw_tp_dump_tasks s) (wk_rcm s)"

lemma filedD: "filed table m \<Longrightarrow> (k, st, c) \<in> set (rc_dump_contexts m) \<Longrightarrow> filed_under table k (dict_keys c)"
  by (auto simp: filed_def)

lemma filed_subset:
  assumes "filed table m" and "set (rc_dump_contexts m') \<subseteq> set (rc_dump_contexts m)"
  shows "filed table m'"
  using assms by (auto simp: filed_def)

lemma filed_contexts: "rc_dump_contexts m' = rc_dump_contexts m \<Longrightarrow> filed table m' = filed table m"
  by (simp add: filed_def)

lemma fawa_inv_cong:
  assumes "fawa_inv s" and "rc_dump_contexts (wk_rcm s') = rc_dump_contexts (wk_rcm s)"
    and "fw_tp_dump_tasks s' = fw_tp_dump_tasks s"
  shows "fawa_inv s'"
  using assms(1) by (simp add: fawa_inv_def filed_def assms(2,3))

lemma filed_underI: "(ids, ts) \<in> set table \<Longrightarrow> t \<in> set ts \<Longrightarrow> dt_task t = k \<Longrightarrow> rs \<subseteq> set ids \<Longrightarrow> filed_under table k rs"
  by (auto simp: filed_under_def)

lemma filed_underE:
  assumes "filed_under table k rs"
  obtains ids ts t where "(ids, ts) \<in> set table" "t \<in> set ts" "dt_task t = k" "rs \<subseteq> set ids"
  using assms by (auto simp: filed_under_def)

lemma in_dict_set:
  "distinct (map fst d) \<Longrightarrow> (k', x) \<in> set (dict_set k v d) \<longleftrightarrow> (k' = k \<and> x = v) \<or> (k' \<noteq> k \<and> (k', x) \<in> set d)"
  by (metis (no_types, lifting) AList.distinct_update dict_get_set map_of_eq_Some_iff option.inject)

lemma in_dict_pop: "(k', x) \<in> set (dict_pop k d) \<longleftrightarrow> k' \<noteq> k \<and> (k', x) \<in> set d"
  by (auto simp: AList.delete_eq)

text \<open>Replacing the tasks of one entry, where every lost task has no context left.\<close>

lemma filed_replace:
  assumes "filed table m" and "(ids, ts) \<in> set table"
    and "\<forall>t \<in> set ts. t \<in> set ts' \<or> dt_task t \<notin> dict_keys (rc_dump_contexts m)"
  shows "filed (if ts' = [] then dict_pop ids table else dict_set ids ts' table) m"
proof -
  have d: "distinct (map fst table)" using assms(1) by (simp add: filed_def)
  let ?new = "if ts' = [] then dict_pop ids table else dict_set ids ts' table"
  have "filed_under ?new k (dict_keys c)" if c: "(k, st, c) \<in> set (rc_dump_contexts m)" for k st c
  proof -
    from filedD [OF assms(1) c] obtain js us u
      where u: "(js, us) \<in> set table" "u \<in> set us" "dt_task u = k" "dict_keys c \<subseteq> set js"
      by (rule filed_underE)
    have k: "k \<in> dict_keys (rc_dump_contexts m)" using c by force
    show ?thesis
    proof (cases "js = ids")
      case True
      with u(1) assms(2) d have "us = ts" by (metis map_of_eq_Some_iff option.inject)
      with u k assms(3) have "u \<in> set ts'" by auto
      then have "(ids, ts') \<in> set ?new" using in_dict_set [OF d] by auto
      then show ?thesis by (rule filed_underI) (use \<open>u \<in> set ts'\<close> u(3,4) True in simp_all)
    next
      case False
      then have "(js, us) \<in> set ?new" using u(1) by (simp add: in_dict_set [OF d] in_dict_pop)
      with u(2-4) show ?thesis by (intro filed_underI)
    qed
  qed
  moreover have "distinct (map fst ?new)" using d by (simp add: distinct_update distinct_delete)
  ultimately show ?thesis by (auto simp: filed_def)
qed

section \<open>Waiting and polling\<close>

lemma fawa_wait_dump_contexts:
  "rc_dump_contexts (wk_rcm (fawa_wait_dump ms t s)) = dict_pop (dt_task t) (rc_dump_contexts (wk_rcm s))"
  "fw_tp_dump_tasks (fawa_wait_dump ms t s) = fw_tp_dump_tasks s"
proof -
  obtain r rcm' w' where w: "wait_dump (wk_rcm s) (wk_world s) (dt_task t) = (r, rcm', w')"
    by (metis prod_cases3)
  then show "rc_dump_contexts (wk_rcm (fawa_wait_dump ms t s)) = dict_pop (dt_task t) (rc_dump_contexts (wk_rcm s))"
    "fw_tp_dump_tasks (fawa_wait_dump ms t s) = fw_tp_dump_tasks s"
    by (cases r; simp add: fawa_wait_dump_def fawa_destroy_event_def worker_stats_def Let_def
        wait_dump_contexts [OF w])+
qed

lemma fawa_poll_tasks_contexts:
  assumes "fawa_poll_tasks store ts s = (rest, s')"
  shows "set (rc_dump_contexts (wk_rcm s')) \<subseteq> set (rc_dump_contexts (wk_rcm s))
    \<and> fw_tp_dump_tasks s' = fw_tp_dump_tasks s
    \<and> (\<forall>t \<in> set ts. t \<in> set rest \<or> dt_task t \<notin> dict_keys (rc_dump_contexts (wk_rcm s')))"
  using assms
proof (induction ts arbitrary: s rest)
  case Nil
  then show ?case by simp
next
  case (Cons t ts)
  obtain c w where c: "st_check store (wk_world s) (dt_task t) = (c, w)" by (cases "st_check store (wk_world s) (dt_task t)")
  show ?case
  proof (cases "c = Inr True")
    case True
    let ?s1 = "fawa_wait_dump [] t (s\<lparr>wk_world := w\<rparr>)"
    have "fawa_poll_tasks store ts ?s1 = (rest, s')" using Cons.prems c True by simp
    note ih = Cons.IH [OF this, unfolded fawa_wait_dump_contexts]
    have sub: "set (rc_dump_contexts (wk_rcm s')) \<subseteq> set (dict_pop (dt_task t) (rc_dump_contexts (wk_rcm s)))"
      using ih by simp
    then have "dt_task t \<notin> dict_keys (rc_dump_contexts (wk_rcm s'))" by (auto simp: in_dict_pop dest!: subsetD)
    moreover have "set (rc_dump_contexts (wk_rcm s')) \<subseteq> set (rc_dump_contexts (wk_rcm s))"
      using sub by (auto simp: AList.delete_eq)
    ultimately show ?thesis using ih by auto
  next
    case False
    then obtain rest' where r: "fawa_poll_tasks store ts (s\<lparr>wk_world := w\<rparr>) = (rest', s')" "rest = t # rest'"
      using Cons.prems c by (auto split: prod.splits sum.splits bool.splits)
    from Cons.IH [OF r(1)] r(2) show ?thesis by auto
  qed
qed

lemma fawa_poll_loop_filed:
  "filed (fw_tp_dump_tasks s) (wk_rcm s) \<Longrightarrow> distinct (map fst snapshot)
     \<Longrightarrow> set snapshot \<subseteq> set (fw_tp_dump_tasks s)
     \<Longrightarrow> filed (fw_tp_dump_tasks (fawa_poll_loop store snapshot s)) (wk_rcm (fawa_poll_loop store snapshot s))"
proof (induction snapshot arbitrary: s)
  case Nil
  then show ?case by simp
next
  case (Cons p snapshot)
  obtain ids ts where p: "p = (ids, ts)" by (cases p)
  obtain rest s1 where r: "fawa_poll_tasks store ts s = (rest, s1)" by (cases "fawa_poll_tasks store ts s")
  let ?table = "fw_tp_dump_tasks s"
  let ?new = "if rest = [] then dict_pop ids ?table else dict_set ids rest ?table"
  note f = fawa_poll_tasks_contexts [OF r]
  have tab: "fw_tp_dump_tasks s1 = ?table" using f by simp
  have sub: "set (rc_dump_contexts (wk_rcm s1)) \<subseteq> set (rc_dump_contexts (wk_rcm s))" using f by simp
  have d: "distinct (map fst ?table)" using Cons.prems(1) by (simp add: filed_def)
  have "filed ?new (wk_rcm s1)"
    using filed_replace [OF filed_subset [OF Cons.prems(1) sub], of ids ts rest] Cons.prems(3) f p by auto
  moreover have "set snapshot \<subseteq> set ?new"
  proof
    fix q assume q: "q \<in> set snapshot"
    obtain js us where q': "q = (js, us)" by (cases q)
    with q Cons.prems(2) p have "js \<noteq> ids" by (auto simp: rev_image_eqI)
    with q q' Cons.prems(3) show "q \<in> set ?new" by (auto simp: in_dict_set [OF d] in_dict_pop)
  qed
  ultimately have "filed (fw_tp_dump_tasks (fawa_poll_loop store snapshot (s1\<lparr>fw_tp_dump_tasks := ?new\<rparr>)))
      (wk_rcm (fawa_poll_loop store snapshot (s1\<lparr>fw_tp_dump_tasks := ?new\<rparr>)))"
    using Cons.prems(2) by (intro Cons.IH) simp_all
  then show ?case by (cases "rest = []") (simp_all add: p r tab)
qed

lemma fawa_poll_inv: "fawa_inv s \<Longrightarrow> fawa_inv (fawa_poll_completed store s)"
  unfolding fawa_inv_def fawa_poll_completed_def
  by (rule fawa_poll_loop_filed) (simp_all add: filed_def)

section \<open>Draining\<close>

lemma fawa_wait_all_contexts:
  "rc_dump_contexts (wk_rcm (fawa_wait_all ts s))
     = filter (\<lambda>p. fst p \<notin> dt_task ` set ts) (rc_dump_contexts (wk_rcm s))
   \<and> fw_tp_dump_tasks (fawa_wait_all ts s) = fw_tp_dump_tasks s"
  by (induction ts arbitrary: s)
    (auto simp: fawa_wait_dump_contexts AList.delete_eq filter_filter intro!: filter_cong)

lemma fawa_drain_loop_contexts:
  "fawa_drain_loop finished snapshot s = (ks, s') \<Longrightarrow>
     ks = map fst (filter (\<lambda>(ids, ts). finished \<inter> set ids \<noteq> {}) snapshot)
     \<and> fw_tp_dump_tasks s' = fw_tp_dump_tasks s
     \<and> set (rc_dump_contexts (wk_rcm s')) \<subseteq> set (rc_dump_contexts (wk_rcm s))
     \<and> (\<forall>(ids, ts) \<in> set snapshot. finished \<inter> set ids \<noteq> {} \<longrightarrow>
          (\<forall>t \<in> set ts. dt_task t \<notin> dict_keys (rc_dump_contexts (wk_rcm s'))))"
proof (induction snapshot arbitrary: s ks)
  case Nil
  then show ?case by simp
next
  case (Cons p snapshot)
  obtain ids ts where p: "p = (ids, ts)" by (cases p)
  show ?case
  proof (cases "finished \<inter> set ids \<noteq> {}")
    case True
    obtain ks' where r: "fawa_drain_loop finished snapshot (fawa_wait_all ts s) = (ks', s')" "ks = ids # ks'"
      using Cons.prems p True by (auto split: prod.splits)
    from Cons.IH [OF r(1)] fawa_wait_all_contexts [of ts s] r(2) p True show ?thesis by force
  next
    case False
    with Cons.prems p have "fawa_drain_loop finished snapshot s = (ks, s')" by simp
    from Cons.IH [OF this] p False show ?thesis by auto
  qed
qed

lemma in_fold_dict_pop: "(k, x) \<in> set (fold dict_pop ks d) \<longleftrightarrow> k \<notin> set ks \<and> (k, x) \<in> set d"
  by (induction ks arbitrary: d) (auto simp: in_dict_pop)

lemma distinct_fold_dict_pop: "distinct (map fst d) \<Longrightarrow> distinct (map fst (fold dict_pop ks d))"
  by (induction ks arbitrary: d) (simp_all add: distinct_delete)

lemma fawa_drain_inv:
  assumes "fawa_inv s"
  shows "fawa_inv (fawa_drain finished s)"
    and "\<forall>(ids, ts) \<in> set (fw_tp_dump_tasks (fawa_drain finished s)). finished \<inter> set ids = {}"
proof -
  have "fawa_inv (fawa_drain finished s)
    \<and> (\<forall>(ids, ts) \<in> set (fw_tp_dump_tasks (fawa_drain finished s)). finished \<inter> set ids = {})"
  proof (cases "finished = {}")
    case True
    with assms show ?thesis by (auto simp: fawa_drain_def)
  next
    case False
    let ?t = "fw_tp_dump_tasks s"
    obtain ks s1 where l: "fawa_drain_loop finished ?t s = (ks, s1)" by (cases "fawa_drain_loop finished ?t s")
    note f = fawa_drain_loop_contexts [OF l]
    have e: "fawa_drain finished s = s1\<lparr>fw_tp_dump_tasks := fold dict_pop ks ?t\<rparr>"
      using False l f by (simp add: fawa_drain_def)
    have inv: "filed ?t (wk_rcm s)" using assms by (simp add: fawa_inv_def)
    have ks: "ids \<in> set ks \<longleftrightarrow> finished \<inter> set ids \<noteq> {}" if "(ids, ts) \<in> set ?t" for ids ts
      using that f [THEN conjunct1] by (auto simp: image_iff)
    have "filed_under (fold dict_pop ks ?t) k (dict_keys c)"
      if c: "(k, st, c) \<in> set (rc_dump_contexts (wk_rcm s1))" for k st c
    proof -
      have "(k, st, c) \<in> set (rc_dump_contexts (wk_rcm s))" using c f by blast
      from filedD [OF inv this] obtain ids ts t where
        t: "(ids, ts) \<in> set ?t" "t \<in> set ts" "dt_task t = k" "dict_keys c \<subseteq> set ids" by (rule filed_underE)
      have "k \<in> dict_keys (rc_dump_contexts (wk_rcm s1))" using c by force
      with f t(1-3) have "\<not> finished \<inter> set ids \<noteq> {}" by blast
      with ks [OF t(1)] t show ?thesis by (intro filed_underI [of ids ts _ t]) (simp_all add: in_fold_dict_pop)
    qed
    moreover have "distinct (map fst (fold dict_pop ks ?t))"
      using inv by (intro distinct_fold_dict_pop) (simp add: filed_def)
    ultimately have "fawa_inv (fawa_drain finished s)" by (auto simp: e fawa_inv_def filed_def)
    moreover have "finished \<inter> set ids = {}" if "(ids, ts) \<in> set (fold dict_pop ks ?t)" for ids ts
      using that ks by (auto simp: in_fold_dict_pop)
    ultimately show ?thesis by (auto simp: e)
  qed
  then show "fawa_inv (fawa_drain finished s)"
    and "\<forall>(ids, ts) \<in> set (fw_tp_dump_tasks (fawa_drain finished s)). finished \<inter> set ids = {}" by blast+
qed

lemma fawa_get_finished_ok:
  assumes "fawa_inv s"
  shows "\<exists>s'. fawa_get_finished rs s = (Inr (set rs), s') \<and> fawa_inv s'
    \<and> (\<forall>(ids, ts) \<in> set (fw_tp_dump_tasks s'). set rs \<inter> set ids = {})
    \<and> set rs \<inter> pending_dump_requests (wk_rcm s') = {}"
proof -
  let ?s1 = "fawa_drain (set rs) s"
  note d = fawa_drain_inv [OF assms, of "set rs"]
  have none: "set rs \<inter> pending_dump_requests (wk_rcm ?s1) = {}"
  proof -
    have "set rs \<inter> dict_keys c = {}" if "(k, st, c) \<in> set (rc_dump_contexts (wk_rcm ?s1))" for k st c
    proof -
      from filedD [OF d(1) [unfolded fawa_inv_def] that] obtain ids ts t where
        "(ids, ts) \<in> set (fw_tp_dump_tasks ?s1)" "dict_keys c \<subseteq> set ids"
        by (rule filed_underE)
      with d(2) show ?thesis by blast
    qed
    then show ?thesis by (fastforce simp: pending_dump_requests_def)
  qed
  obtain r rcm' where f: "finish_dump (wk_rcm ?s1) rs = (r, rcm')" by (cases "finish_dump (wk_rcm ?s1) rs")
  have r: "r = Inr ()" using f none by (auto simp: finish_dump_def split: if_splits)
  have c: "rc_dump_contexts rcm' = rc_dump_contexts (wk_rcm ?s1)" by (rule finish_dump_frame(1) [OF f])
  let ?s' = "?s1\<lparr>wk_rcm := rcm'\<rparr>"
  have "fawa_inv ?s'" using d(1) by (simp add: fawa_inv_def filed_contexts [OF c])
  moreover have "pending_dump_requests rcm' = pending_dump_requests (wk_rcm ?s1)"
    by (simp add: pending_dump_requests_def c)
  ultimately show ?thesis
    using d(2) none f r by (intro exI [of _ ?s']) (simp add: fawa_get_finished_def)
qed

section \<open>Saving\<close>

definition collect_ok :: "fawa_collect \<Rightarrow> bool" where
  "collect_ok acc \<longleftrightarrow> dict_keys (fk_fa_blocks acc) \<subseteq> set (fk_request_ids acc)"

lemma collect_fa_requests:
  assumes "collect_fa cf r keys a b ids acc = Inr acc'" and "r \<in> set (fk_request_ids acc)" and "collect_ok acc"
  shows "collect_ok acc'" and "fk_request_ids acc' = fk_request_ids acc"
proof -
  obtain rows where acc': "acc' = acc\<lparr>fk_fa_blocks := dict_set r (set keys) (fk_fa_blocks acc),
      fk_fa_keys := fk_fa_keys acc @ keys, fk_fa_rows := fk_fa_rows acc @ [rows]\<rparr>"
    using assms(1) by (auto simp: collect_fa_def rbind_Inr_iff)
  show "fk_request_ids acc' = fk_request_ids acc" by (simp add: acc')
  show "collect_ok acc'" using assms(2,3) by (simp add: acc' collect_ok_def)
qed

lemma collect_wa_requests:
  assumes "collect_wa cf r keys ids acc = Inr acc'"
  shows "fk_fa_blocks acc' = fk_fa_blocks acc \<and> fk_request_ids acc' = fk_request_ids acc"
  using assms by (auto simp: collect_wa_def rbind_Inr_iff)

lemma collect_tp_ok:
  assumes "collect_tp cf r request acc = Inr acc'" and "r \<in> set (fk_request_ids acc)" and "collect_ok acc"
  shows "collect_ok acc'"
proof -
  let ?n = "length (fd_dump_keys request)"
  let ?keys = "py_slice (fd_dump_keys request) (tp_start cf ?n) (tp_end cf ?n)"
  obtain a1 a2 where a1: "(if ?keys = [] then Inr acc
        else collect_fa cf r ?keys (fd_dump_hash_start request + tp_start cf ?n)
               (fd_dump_hash_start request + tp_end cf ?n)
               (tp_fa_ids cf (tp_start cf ?n) (tp_end cf ?n) (fd_dump_vllm_block_ids request)) acc) = Inr a1"
    and a2: "fk_fa_blocks a2 = fk_fa_blocks a1" "fk_request_ids a2 = fk_request_ids a1"
    and acc': "acc' = a2\<lparr>fk_ring := fk_ring a2 + 1\<rparr>"
    using assms(1)
    by (auto simp: collect_tp_def Let_def rbind_Inr_iff dest!: collect_wa_requests split: if_splits)
  from a1 assms(2,3) have "collect_ok a1"
    by (cases "?keys = []") (auto intro: collect_fa_requests(1))
  with a2 show ?thesis by (simp add: acc' collect_ok_def)
qed

lemma collect_single_ok:
  assumes "collect_single cf r request acc = Inr acc'" and "r \<in> set (fk_request_ids acc)" and "collect_ok acc"
  shows "collect_ok acc'"
proof -
  obtain a1 where "collect_fa cf r (fd_dump_keys request) (fd_dump_hash_start request)
      (fd_dump_hash_end request) (fd_dump_vllm_block_ids request) acc = Inr a1"
    and wa: "fk_fa_blocks acc' = fk_fa_blocks a1" "fk_request_ids acc' = fk_request_ids a1"
    using assms(1) by (auto simp: collect_single_def rbind_Inr_iff dest!: collect_wa_requests)
  from collect_fa_requests(1) [OF this(1) assms(2,3)] wa show ?thesis by (simp add: collect_ok_def)
qed

lemma fawa_collect_ok:
  "fawa_collect_dumps cf items acc = Inr acc' \<Longrightarrow> collect_ok acc \<Longrightarrow> collect_ok acc'"
proof (induction cf items acc rule: fawa_collect_dumps.induct)
  case (1 cf a)
  then show ?case by simp
next
  case (2 cf r request rest a)
  let ?a = "a\<lparr>fk_request_ids := fk_request_ids a @ [r]\<rparr>"
  show ?case
  proof (cases "fd_dump_keys request = []")
    case True
    with 2 show ?thesis by simp
  next
    case False
    with 2(3) obtain a1 where a1: "(if 1 < fx_tp_size cf then collect_tp else collect_single) cf r request ?a = Inr a1"
      "fawa_collect_dumps cf rest a1 = Inr acc'" by (auto simp: rbind_Inr_iff)
    have "collect_ok ?a" "r \<in> set (fk_request_ids ?a)" using 2(4) by (auto simp: collect_ok_def)
    with a1(1) have "collect_ok a1"
      by (cases "1 < fx_tp_size cf") (auto intro: collect_tp_ok collect_single_ok)
    with 2(2) [OF False] a1(2) show ?thesis by blast
  qed
qed

lemma filed_extend:
  assumes "filed table m" and "set (dict_get_or table ids []) \<subseteq> set ts"
  shows "filed (dict_set ids ts table) m"
proof -
  have d: "distinct (map fst table)" using assms(1) by (simp add: filed_def)
  have "filed_under (dict_set ids ts table) k (dict_keys c)" if c: "(k, st, c) \<in> set (rc_dump_contexts m)" for k st c
  proof -
    from filedD [OF assms(1) c] obtain js us u
      where u: "(js, us) \<in> set table" "u \<in> set us" "dt_task u = k" "dict_keys c \<subseteq> set js" by (rule filed_underE)
    show ?thesis
    proof (cases "js = ids")
      case True
      with u(1) d have "dict_get_or table ids [] = us" by (simp add: dict_get_or_def)
      with assms(2) u(2) have "u \<in> set ts" by auto
      moreover have "(ids, ts) \<in> set (dict_set ids ts table)" by (simp add: in_dict_set [OF d])
      ultimately show ?thesis using u(3,4) True by (intro filed_underI) simp_all
    next
      case False
      with u(1) have "(js, us) \<in> set (dict_set ids ts table)" by (simp add: in_dict_set [OF d])
      with u(2-4) show ?thesis by (intro filed_underI)
    qed
  qed
  with d show ?thesis by (auto simp: filed_def distinct_update)
qed

lemma fawa_submit_dump_contexts:
  assumes "fawa_submit_dump store keys ptrs h blocks s = (r, s')"
  shows "fw_tp_dump_tasks s' = fw_tp_dump_tasks s"
    and "case r of
           Inl e \<Rightarrow> rc_dump_contexts (wk_rcm s') = rc_dump_contexts (wk_rcm s)
         | Inr t \<Rightarrow> \<exists>c. dict_keys c \<subseteq> dict_keys blocks
             \<and> rc_dump_contexts (wk_rcm s') = dict_set (dt_task t) (store, c) (rc_dump_contexts (wk_rcm s))"
proof -
  let ?c = "if rc_enabled (wk_rcm s) then blocks else []"
  show "fw_tp_dump_tasks s' = fw_tp_dump_tasks s"
    using assms by (auto simp: fawa_submit_dump_def split: prod.splits)
  have keys: "dict_keys ?c \<subseteq> dict_keys blocks" by (cases "rc_enabled (wk_rcm s)") simp_all
  show "case r of
           Inl e \<Rightarrow> rc_dump_contexts (wk_rcm s') = rc_dump_contexts (wk_rcm s)
         | Inr t \<Rightarrow> \<exists>c. dict_keys c \<subseteq> dict_keys blocks
             \<and> rc_dump_contexts (wk_rcm s') = dict_set (dt_task t) (store, c) (rc_dump_contexts (wk_rcm s))"
  proof (cases r)
    case (Inl e)
    with assms show ?thesis
      by (auto simp: fawa_submit_dump_def submit_dump_def Let_def split: prod.splits sum.splits)
  next
    case (Inr t)
    with assms have "rc_dump_contexts (wk_rcm s') = dict_set (dt_task t) (store, ?c) (rc_dump_contexts (wk_rcm s))"
      by (auto simp: fawa_submit_dump_def submit_dump_def Let_def split: prod.splits sum.splits)
    with keys Inr show ?thesis by (simp only: sum.case) blast
  qed
qed

lemma fawa_event_handle_frame:
  assumes "fawa_event_handle cf s = (h, s')"
  shows "wk_rcm s' = wk_rcm s" and "fw_tp_dump_tasks s' = fw_tp_dump_tasks s"
  using assms by (auto simp: fawa_event_handle_def split: prod.splits)

lemma fawa_dump_fa_inv:
  assumes "fawa_inv s" and "collect_ok a" and "fawa_dump_fa cf store a s = (r, s')"
  shows "fawa_inv s'"
proof (cases "fk_fa_keys a = []")
  case True
  with assms(1,3) show ?thesis by (simp add: fawa_dump_fa_def)
next
  case False
  obtain h s1 where h: "fawa_event_handle cf s = (h, s1)" by (cases "fawa_event_handle cf s")
  note fr = fawa_event_handle_frame [OF h]
  have inv1: "fawa_inv s1" using assms(1) fr by (simp add: fawa_inv_def)
  let ?ids = "fk_request_ids a" and ?table = "fw_tp_dump_tasks s1"
  let ?tasks = "dict_get_or ?table ?ids []"
  let ?s2 = "s1\<lparr>fw_tp_dump_tasks := dict_set ?ids ?tasks ?table\<rparr>"
  have inv2: "fawa_inv ?s2" using inv1 by (simp add: fawa_inv_def filed_extend)
  show ?thesis
  proof (cases "vstack (fk_fa_rows a)")
    case (Inl e)
    with assms(3) False h inv1 show ?thesis by (simp add: fawa_dump_fa_def)
  next
    case (Inr rows)
    obtain t s3 where sub: "fawa_submit_dump store (fk_fa_keys a) rows h (fk_fa_blocks a) ?s2 = (t, s3)"
      by (cases "fawa_submit_dump store (fk_fa_keys a) rows h (fk_fa_blocks a) ?s2")
    note c = fawa_submit_dump_contexts [OF sub]
    show ?thesis
    proof (cases t)
      case (Inl e)
      then have "wk_rcm s' = wk_rcm s3" "fw_tp_dump_tasks s' = fw_tp_dump_tasks s3"
        using sub Inr assms(3) False h
        by (auto simp: fawa_dump_fa_def Let_def fawa_destroy_event_def worker_stats_def)
      with c Inl show ?thesis by (intro fawa_inv_cong [OF inv2]) simp_all
    next
      case (Inr task)
      let ?new = "dict_set ?ids (?tasks @ [task]) (dict_set ?ids ?tasks ?table)"
      have s': "s' = s3\<lparr>fw_tp_dump_tasks := ?new\<rparr>"
        using sub c(1) Inr \<open>vstack (fk_fa_rows a) = Inr rows\<close> assms(3) False h
        by (simp add: fawa_dump_fa_def Let_def)
      obtain b where b: "dict_keys b \<subseteq> dict_keys (fk_fa_blocks a)"
        "rc_dump_contexts (wk_rcm s3) = dict_set (dt_task task) (store, b) (rc_dump_contexts (wk_rcm ?s2))"
        using c(2) Inr by auto
      have old: "filed ?new (wk_rcm ?s2)"
        by (rule filed_extend) (use inv2 in \<open>auto simp: fawa_inv_def\<close>)
      then have d: "distinct (map fst ?new)" by (simp add: filed_def)
      have "filed_under ?new k (dict_keys cx)" if cx: "(k, st, cx) \<in> set (rc_dump_contexts (wk_rcm s3))" for k st cx
      proof -
        from dict_in_set_update [OF cx [unfolded b(2)]] show ?thesis
        proof
          assume "k = dt_task task \<and> (st, cx) = (store, b)"
          moreover have "(?ids, ?tasks @ [task]) \<in> set ?new" using d by (metis dict_get_set map_of_SomeD)
          moreover have "dict_keys b \<subseteq> set ?ids" using b(1) assms(2) by (auto simp: collect_ok_def)
          ultimately show ?thesis by (intro filed_underI) auto
        next
          assume "(k, st, cx) \<in> set (rc_dump_contexts (wk_rcm ?s2))"
          with old show ?thesis by (rule filedD)
        qed
      qed
      with d show ?thesis by (auto simp: s' fawa_inv_def filed_def)
    qed
  qed
qed

lemma fawa_dump_wa_inv:
  assumes "fawa_inv s" and "fawa_dump_wa cf store a s = (r, s')"
  shows "fawa_inv s'"
proof (cases "fk_wa_keys a = []")
  case True
  with assms show ?thesis by (simp add: fawa_dump_wa_def)
next
  case False
  obtain h s1 where h: "fawa_event_handle cf s = (h, s1)" by (cases "fawa_event_handle cf s")
  note fr = fawa_event_handle_frame [OF h]
  have inv1: "fawa_inv s1" by (rule fawa_inv_cong [OF assms(1)]) (simp_all add: fr)
  show ?thesis
  proof (cases "vstack (fk_wa_rows a)")
    case (Inl e)
    with assms(2) False h inv1 show ?thesis by (simp add: fawa_dump_wa_def)
  next
    case (Inr rows)
    obtain t s2 where sub: "fawa_submit_dump store (fk_wa_keys a) rows h (fk_wa_blocks a) s1 = (t, s2)"
      by (cases "fawa_submit_dump store (fk_wa_keys a) rows h (fk_wa_blocks a) s1")
    note c = fawa_submit_dump_contexts [OF sub]
    show ?thesis
    proof (cases t)
      case (Inl e)
      then have "wk_rcm s' = wk_rcm s2" "fw_tp_dump_tasks s' = fw_tp_dump_tasks s2"
        using sub Inr assms(2) False h
        by (auto simp: fawa_dump_wa_def Let_def fawa_destroy_event_def worker_stats_def)
      with c Inl show ?thesis by (intro fawa_inv_cong [OF inv1]) simp_all
    next
      case (Inr task)
      then have s': "s' = fawa_wait_dump [MCount ''connector_dump_wait_errors_total'' 1] task s2"
        using sub \<open>vstack (fk_wa_rows a) = Inr rows\<close> assms(2) False h by (simp add: fawa_dump_wa_def)
      obtain b where "rc_dump_contexts (wk_rcm s2) = dict_set (dt_task task) (store, b) (rc_dump_contexts (wk_rcm s1))"
        using c(2) Inr by auto
      then have "set (rc_dump_contexts (wk_rcm s')) \<subseteq> set (rc_dump_contexts (wk_rcm s1))"
        by (auto simp: s' fawa_wait_dump_contexts in_dict_pop dest!: dict_in_set_update)
      moreover have "fw_tp_dump_tasks s' = fw_tp_dump_tasks s1" by (simp add: s' fawa_wait_dump_contexts c(1))
      ultimately show ?thesis using inv1 unfolding fawa_inv_def by (metis filed_subset)
    qed
  qed
qed

lemma fawa_wait_for_save_inv:
  assumes "fawa_inv s" and "fawa_wait_for_save cf metadata s = (r, s')"
  shows "fawa_inv s'"
proof (cases "fx_fa_store cf = None \<or> fx_wa_store cf = None")
  case True
  with assms show ?thesis by (auto simp: fawa_wait_for_save_def split: option.splits)
next
  case False
  then obtain fa wa where st: "fx_fa_store cf = Some fa" "fx_wa_store cf = Some wa" by auto
  let ?s1 = "fawa_poll_completed fa s"
  have inv1: "fawa_inv ?s1" by (rule fawa_poll_inv [OF assms(1)])
  show ?thesis
  proof (cases "fawa_collect_dumps cf (fcm_request_meta metadata) empty_fawa_collect")
    case (Inl e)
    with assms(2) st inv1 show ?thesis by (simp add: fawa_wait_for_save_def)
  next
    case (Inr a)
    have ok: "collect_ok a"
      by (rule fawa_collect_ok [OF Inr]) (simp add: collect_ok_def empty_fawa_collect_def)
    obtain q s2 where d: "fawa_dump_fa cf fa a ?s1 = (q, s2)" by (cases "fawa_dump_fa cf fa a ?s1")
    have inv2: "fawa_inv s2" by (rule fawa_dump_fa_inv [OF inv1 ok d])
    show ?thesis
    proof (cases q)
      case (Inl e)
      with assms(2) st \<open>fawa_collect_dumps _ _ _ = Inr a\<close> d inv2 show ?thesis by (simp add: fawa_wait_for_save_def)
    next
      case (Inr u)
      with assms(2) st \<open>fawa_collect_dumps _ _ _ = Inr a\<close> d have "fawa_dump_wa cf wa a s2 = (r, s')"
        by (simp add: fawa_wait_for_save_def)
      with inv2 show ?thesis by (rule fawa_dump_wa_inv)
    qed
  qed
qed

section \<open>Loading\<close>

text \<open>Loads touch neither the dump contexts nor the table.\<close>

definition same_dumps :: "'w fawa_worker \<Rightarrow> 'w fawa_worker \<Rightarrow> bool" where
  "same_dumps s s' \<longleftrightarrow>
     rc_dump_contexts (wk_rcm s') = rc_dump_contexts (wk_rcm s) \<and> fw_tp_dump_tasks s' = fw_tp_dump_tasks s"

lemma same_dumps_trans: "same_dumps s t \<Longrightarrow> same_dumps t u \<Longrightarrow> same_dumps s u"
  by (simp add: same_dumps_def)

lemma handle_load_err_same: "same_dumps s (handle_load_err metas r s)"
  by (simp add: same_dumps_def handle_load_err_def record_load_error_def worker_stats_def Let_def)

lemma fawa_submit_load_same: "same_dumps s (snd (fawa_submit_load r store keys ptrs s))"
  by (auto simp: same_dumps_def fawa_submit_load_def submit_load_frame(3) split: prod.split sum.split)

lemma fawa_load_request_same: "same_dumps s (snd (snd (fawa_load_request cf r request s)))"
proof (cases "fx_fa_store cf = None \<or> fx_wa_store cf = None")
  case True
  then show ?thesis by (auto simp: fawa_load_request_def same_dumps_def split: option.split)
next
  case False
  then obtain fa wa where st: "fx_fa_store cf = Some fa" "fx_wa_store cf = Some wa" by auto
  show ?thesis
  proof (cases "extract_fa_ptr (fx_round cf) (fx_hash_block_size cf) (fx_groups cf) (fx_layouts cf)
      (fd_load_hash_start request) (fd_load_hash_end request) (fd_load_vllm_block_ids request)")
    case (Inl e)
    with st show ?thesis by (simp add: fawa_load_request_def same_dumps_def)
  next
    case (Inr ptrs)
    obtain q s1 where q: "fawa_submit_load r fa (fd_load_keys request) ptrs s = (q, s1)"
      by (cases "fawa_submit_load r fa (fd_load_keys request) ptrs s")
    have one: "same_dumps s s1" using fawa_submit_load_same [of s r fa "fd_load_keys request" ptrs] q by simp
    have two: "same_dumps s s2" if "fawa_submit_load r wa keys ws s1 = (q', s2)" for keys ws q' s2
      using same_dumps_trans [OF one fawa_submit_load_same, of r wa keys ws] that by simp
    with one show ?thesis
      by (auto simp: fawa_load_request_def st Inr q Let_def split: sum.split prod.split)
  qed
qed

lemma fawa_submit_loads_same: "same_dumps s (snd (fawa_submit_loads cf metas items (tasks, s)))"
proof (induction items arbitrary: tasks s)
  case Nil
  then show ?case by (simp add: same_dumps_def)
next
  case (Cons p items)
  obtain r request where p: "p = (r, request)" by (cases p)
  obtain q ts s1 where l: "fawa_load_request cf r request s = (q, ts, s1)" by (metis prod_cases3)
  have "same_dumps s s1" using fawa_load_request_same [of s cf r request] l by simp
  then have "same_dumps s (case q of Inl e \<Rightarrow> handle_load_err metas r s1 | Inr _ \<Rightarrow> s1)"
    by (cases q) (auto intro: same_dumps_trans [OF _ handle_load_err_same])
  from same_dumps_trans [OF this Cons.IH] Cons.IH show ?case
    by (cases q) (simp_all add: p l)
qed

lemma fawa_wait_loads_same: "same_dumps s (fawa_wait_loads metas tasks s)"
proof (induction tasks arbitrary: s)
  case Nil
  then show ?case by (simp add: same_dumps_def)
next
  case (Cons t tasks)
  obtain r rcm' w' where w: "wait_load (wk_rcm s) (wk_world s) (lt_task t) = (r, rcm', w')" by (metis prod_cases3)
  let ?s = "s\<lparr>wk_rcm := rcm', wk_world := w'\<rparr>"
  have "same_dumps s ?s" by (simp add: same_dumps_def wait_load_frame(3) [OF w])
  from same_dumps_trans [OF this] Cons.IH same_dumps_trans [OF handle_load_err_same] show ?case
    by (cases r) (simp_all add: w, blast+)
qed

lemma fawa_start_load_kv_same: "same_dumps s (fawa_start_load_kv cf metadata s)"
proof -
  let ?m = "fcm_request_meta metadata"
  obtain tasks s1 where t: "fawa_submit_loads cf ?m ?m ([], s) = (tasks, s1)" by (cases "fawa_submit_loads cf ?m ?m ([], s)")
  from fawa_submit_loads_same [of s cf ?m ?m "[]"] t have "same_dumps s s1" by simp
  from same_dumps_trans [OF this fawa_wait_loads_same] t show ?thesis
    by (simp add: fawa_start_load_kv_def)
qed

section \<open>Reachable workers\<close>

inductive fawa_step :: "'w fawa_worker_cfg \<Rightarrow> 'w fawa_worker \<Rightarrow> 'w fawa_worker \<Rightarrow> bool" for cf where
  loaded: "fawa_step cf s (fawa_start_load_kv cf md s)"
| saved: "fawa_step cf s (snd (fawa_wait_for_save cf md s))"
| preempted: "fawa_step cf s (fawa_handle_preemptions md s)"
| finished: "fawa_step cf s (snd (fawa_get_finished rs s))"
| errors_read: "fawa_step cf s (snd (get_block_ids_with_load_errors s))"
| meta_built: "fawa_step cf s (snd (build_connector_worker_meta s))"

inductive fawa_reachable :: "'w fawa_worker_cfg \<Rightarrow> 'w fawa_worker \<Rightarrow> 'w fawa_worker \<Rightarrow> bool" for cf s0 where
  start: "fawa_reachable cf s0 s0"
| step: "fawa_reachable cf s0 s \<Longrightarrow> fawa_step cf s s' \<Longrightarrow> fawa_reachable cf s0 s'"

definition new_fawa_worker :: "'w \<Rightarrow> bool \<Rightarrow> bool \<Rightarrow> 'w fawa_worker" where
  "new_fawa_worker w use_manager is_mla =
     \<lparr>wk_world = w, wk_rcm = new_rcm False use_manager, wk_events = {}, wk_pending = [],
      wk_invalid_block_ids = {}, wk_meta = empty_worker_meta is_mla, wk_async_dump_req_ids = {},
      wk_metrics = [], fw_tp_dump_tasks = []\<rparr>"

lemma fawa_step_inv:
  assumes "fawa_step cf s s'" and "fawa_inv s"
  shows "fawa_inv s'"
  using assms
proof (cases rule: fawa_step.cases)
  case (loaded md)
  with fawa_start_load_kv_same [of s cf md] fawa_inv_cong [OF assms(2)] show ?thesis by (simp add: same_dumps_def)
next
  case (saved md)
  with fawa_wait_for_save_inv [OF assms(2)] show ?thesis by (metis prod.collapse)
next
  case (preempted md)
  with fawa_drain_inv(1) [OF assms(2)] show ?thesis by (simp add: fawa_handle_preemptions_def)
next
  case (finished rs)
  with fawa_get_finished_ok [OF assms(2), of rs] show ?thesis by auto
next
  case errors_read
  with fawa_inv_cong [OF assms(2)] show ?thesis by (simp add: get_block_ids_with_load_errors_def)
next
  case meta_built
  obtain wm rcm' where u: "update_worker_meta (wk_rcm s) (wk_meta s) = (wm, rcm')"
    by (cases "update_worker_meta (wk_rcm s) (wk_meta s)")
  then have "rc_dump_contexts rcm' = rc_dump_contexts (wk_rcm s)"
    by (auto simp: update_worker_meta_def split: if_splits)
  with u meta_built assms(2) fawa_inv_cong [OF assms(2)] show ?thesis
    by (simp add: build_connector_worker_meta_def split: if_splits)
qed

lemma fawa_reachable_inv:
  assumes "fawa_reachable cf (new_fawa_worker w use_manager is_mla) s"
  shows "fawa_inv s"
  using assms
proof (induction rule: fawa_reachable.induct)
  case start
  then show ?case by (simp add: fawa_inv_def filed_def new_fawa_worker_def new_rcm_def)
next
  case (step s s')
  then show ?case by (blast intro: fawa_step_inv)
qed

text \<open>
  In every state an FAWA worker can reach, whatever the stores answer, asking for finished
  requests succeeds and reports exactly them; afterwards no task filed under any of them is
  left, no dump of theirs is outstanding, and every dump still outstanding belongs to a task of
  the table whose requests cover it, so the window dumps of past steps are all over.
\<close>

lemma fawa_finished_requests_are_drained:
  assumes "fawa_reachable cf (new_fawa_worker w use_manager is_mla) s"
  shows "\<exists>s'. fawa_get_finished rs s = (Inr (set rs), s')
    \<and> (\<forall>(ids, ts) \<in> set (fw_tp_dump_tasks s'). set rs \<inter> set ids = {})
    \<and> set rs \<inter> pending_dump_requests (wk_rcm s') = {}
    \<and> (\<forall>(k, store, ctx) \<in> set (rc_dump_contexts (wk_rcm s')).
         filed_under (fw_tp_dump_tasks s') k (dict_keys ctx))"
proof -
  from fawa_get_finished_ok [OF fawa_reachable_inv [OF assms], of rs] obtain s' where
    s': "fawa_get_finished rs s = (Inr (set rs), s')" "fawa_inv s'"
    "\<forall>(ids, ts) \<in> set (fw_tp_dump_tasks s'). set rs \<inter> set ids = {}"
    "set rs \<inter> pending_dump_requests (wk_rcm s') = {}" by blast
  have "\<forall>(k, store, ctx) \<in> set (rc_dump_contexts (wk_rcm s')). filed_under (fw_tp_dump_tasks s') k (dict_keys ctx)"
    using s'(2) unfolding fawa_inv_def filed_def by (rule conjunct2)
  with s' show ?thesis by (intro exI [of _ s'] conjI)
qed

lemma fawa_dump_wa_table: "fw_tp_dump_tasks (snd (fawa_dump_wa cf store a s)) = fw_tp_dump_tasks s"
  by (auto simp: fawa_dump_wa_def fawa_wait_dump_contexts fawa_destroy_event_def worker_stats_def
      dest!: fawa_submit_dump_contexts(1) fawa_event_handle_frame(2) split: prod.split sum.split)

definition demo_fawa_worker_cfg :: "nat fawa_worker_cfg" where
  "demo_fawa_worker_cfg =
     \<lparr>fx_tp_rank = 0, fx_tp_size = 1, fx_hash_block_size = 2, fx_groups = demo_fawa_groups,
      fx_layouts = [(0, demo_group_layout), (1, demo_group_layout)], fx_round = (\<lambda>n. n),
      fx_wa_dump_block_wise = True, fx_enable_event_sync = True, fx_fa_store = Some counting_store,
      fx_wa_store = Some counting_store,
      fx_device = \<lparr>dv_new_event = (\<lambda>w. (Some (Suc w), w + 2)), dv_sync = id\<rparr>\<rparr>"

definition demo_fawa_step :: fawa_connector_meta where
  "demo_fawa_step = \<lparr>fcm_request_meta = [(''r'', demo_fawa_dispatch)], fcm_preempted_req_ids = {}\<rparr>"

definition saved_fawa_worker :: "nat fawa_worker" where
  "saved_fawa_worker = snd (fawa_wait_for_save demo_fawa_worker_cfg demo_fawa_step (new_fawa_worker 0 True False))"

lemma saved_fawa_worker_tasks:
  "fw_tp_dump_tasks saved_fawa_worker
     = [([''r''], [\<lparr>dt_task = 2, dt_key_count = 1, dt_event_handle = 1\<rparr>])]"
proof -
  have fa: "extract_fa_ptr (\<lambda>n. n) 2 demo_fawa_groups [(0, demo_group_layout), (1, demo_group_layout)] 0 1
      [[10], [20, 21]] = Inr [[4736, 8832]]"
    by (simp add: extract_fa_ptr_def py_index_def demo_fawa_groups_def demo_group_layout_def u64_of_def
        group_extract_addrs_def row_addrs_def concat_columns_def)
  have wa: "extract_wa_ptr demo_fawa_groups [(0, demo_group_layout), (1, demo_group_layout)] 1 [[10], [20, 21]]
      = Inr [[5376, 9472, 5440, 9536]]"
    by (simp add: extract_wa_ptr_def py_index_def demo_fawa_groups_def demo_group_layout_def u64_of_def
        np_reshape_rows_def group_extract_addrs_def row_addrs_def concat_columns_def)
  let ?a = "\<lparr>fk_fa_keys = [''a''], fk_wa_keys = [''a''], fk_fa_rows = [[[4736, 8832]]],
      fk_wa_rows = [[[5376, 9472, 5440, 9536]]], fk_request_ids = [''r''], fk_fa_blocks = [(''r'', {''a''})],
      fk_wa_blocks = [(''r'', {''a''})], fk_ring = 0\<rparr>"
  let ?w = "new_fawa_worker 0 True False :: nat fawa_worker"
  let ?t = "[([''r''], [\<lparr>dt_task = 2, dt_key_count = 1, dt_event_handle = 1\<rparr>])]"
  have c: "fawa_collect_dumps demo_fawa_worker_cfg (fcm_request_meta demo_fawa_step) empty_fawa_collect = Inr ?a"
    using fa wa by (simp add: demo_fawa_worker_cfg_def demo_fawa_step_def demo_fawa_dispatch_def
        empty_fawa_collect_def collect_single_def collect_fa_def collect_wa_def)
  have p: "fawa_poll_completed counting_store ?w = ?w" by (simp add: fawa_poll_completed_def new_fawa_worker_def)
  have d: "fst (fawa_dump_fa demo_fawa_worker_cfg counting_store ?a ?w) = Inr ()
    \<and> fw_tp_dump_tasks (snd (fawa_dump_fa demo_fawa_worker_cfg counting_store ?a ?w)) = ?t"
    by (simp add: demo_fawa_worker_cfg_def new_fawa_worker_def fawa_dump_fa_def fawa_event_handle_def
        get_dump_event_handle_def get_event_handle_def vstack_def Let_def fawa_submit_dump_def submit_dump_def
        counting_store_def new_rcm_def dict_get_or_def)
  obtain q s2 where q: "fawa_dump_fa demo_fawa_worker_cfg counting_store ?a ?w = (q, s2)" by (metis prod.collapse)
  have stores: "fx_fa_store demo_fawa_worker_cfg = Some counting_store" "fx_wa_store demo_fawa_worker_cfg = Some counting_store"
    by (simp_all add: demo_fawa_worker_cfg_def)
  have saved: "saved_fawa_worker = snd (fawa_dump_wa demo_fawa_worker_cfg counting_store ?a s2)"
    using d q by (simp add: saved_fawa_worker_def fawa_wait_for_save_def stores p c Let_def)
  show ?thesis using d unfolding saved fawa_dump_wa_table q by simp
qed

section \<open>The shares of the ranks\<close>

lemma consecutive_slices:
  assumes "\<And>i. i < n \<Longrightarrow> f i \<le> f (Suc i)" and "f n \<le> length xs"
  shows "concat (map (\<lambda>i. py_slice xs (f i) (f (Suc i))) [0..<n]) = py_slice xs (f 0) (f n)"
  using assms
proof (induction n)
  case 0
  then show ?case by simp
next
  case (Suc n)
  have "m \<le> n \<Longrightarrow> f 0 \<le> f m" for m
  proof (induction m)
    case (Suc k)
    with Suc.prems(1) \<open>\<And>i. i < Suc n \<Longrightarrow> f i \<le> f (Suc i)\<close> [of k] show ?case by simp
  qed simp
  then have "f 0 \<le> f n" by simp
  moreover have "f n \<le> f (Suc n)" using Suc.prems(1) by simp
  moreover have "f n \<le> length xs" using \<open>f n \<le> f (Suc n)\<close> Suc.prems(2) by (rule le_trans)
  ultimately show ?case using Suc.IH Suc.prems(1) by (simp add: py_slice_append)
qed

lemma collect_fa_keys:
  assumes "collect_fa cf r keys a b ids acc = Inr acc'"
  shows "fk_fa_keys acc' = fk_fa_keys acc @ keys \<and> fk_wa_keys acc' = fk_wa_keys acc \<and> fk_ring acc' = fk_ring acc"
  using assms by (auto simp: collect_fa_def rbind_Inr_iff)

lemma collect_wa_keys:
  assumes "collect_wa cf r keys ids acc = Inr acc'"
  shows "fk_wa_keys acc' = fk_wa_keys acc @ keys \<and> fk_fa_keys acc' = fk_fa_keys acc"
  using assms by (auto simp: collect_wa_def rbind_Inr_iff)

lemma collect_tp_keys:
  assumes "collect_tp cf r request acc = Inr acc'"
    and "keys = py_slice (fd_dump_keys request) (tp_start cf (length (fd_dump_keys request)))
           (tp_end cf (length (fd_dump_keys request)))"
  shows "fk_fa_keys acc' = fk_fa_keys acc @ keys
    \<and> fk_wa_keys acc' = fk_wa_keys acc
      @ (if fx_wa_dump_block_wise cf then keys
         else if fk_ring acc mod fx_tp_size cf = fx_tp_rank cf then [last (fd_dump_keys request)] else [])"
proof -
  let ?n = "length (fd_dump_keys request)"
  obtain a1 a2 where a1: "(if keys = [] then Inr acc
        else collect_fa cf r keys (fd_dump_hash_start request + tp_start cf ?n)
               (fd_dump_hash_start request + tp_end cf ?n)
               (tp_fa_ids cf (tp_start cf ?n) (tp_end cf ?n) (fd_dump_vllm_block_ids request)) acc) = Inr a1"
    and a2: "(if fx_wa_dump_block_wise cf
              then (if keys = [] then Inr a1
                    else rbind (tp_wa_ids cf (tp_start cf ?n) (tp_end cf ?n) (fd_dump_vllm_block_ids request))
                           (\<lambda>ids. collect_wa cf r keys ids a1))
              else if fk_ring a1 mod fx_tp_size cf = fx_tp_rank cf
              then collect_wa cf r [last (fd_dump_keys request)] (fd_dump_vllm_block_ids request) a1
              else Inr a1) = Inr a2"
    and acc': "acc' = a2\<lparr>fk_ring := fk_ring a2 + 1\<rparr>"
    using assms(1) unfolding collect_tp_def Let_def assms(2) [symmetric] rbind_Inr_iff by blast
  have fa: "fk_fa_keys a1 = fk_fa_keys acc @ keys \<and> fk_wa_keys a1 = fk_wa_keys acc \<and> fk_ring a1 = fk_ring acc"
    using a1 by (cases "keys = []") (auto dest: collect_fa_keys)
  have "fk_fa_keys a2 = fk_fa_keys a1 \<and> fk_wa_keys a2 = fk_wa_keys a1
      @ (if fx_wa_dump_block_wise cf then keys
         else if fk_ring a1 mod fx_tp_size cf = fx_tp_rank cf then [last (fd_dump_keys request)] else [])"
    using a2 by (auto simp: rbind_Inr_iff dest!: collect_wa_keys split: if_splits)
  with fa show ?thesis by (simp add: acc')
qed

text \<open>
  The tensor-parallel ranks share a request's dump without gaps or overlaps: the FA keys the
  ranks collect, in the order of the ranks, are the request's dump keys, and so are the WA keys
  where windows are dumped block by block; otherwise exactly one rank collects the last key's
  window.
\<close>

lemma tp_ranks_share_the_dump:
  assumes "0 < fx_tp_size cf" and "fk_fa_keys acc = []" and "fk_wa_keys acc = []"
    and "\<And>r. r < fx_tp_size cf \<Longrightarrow> collect_tp (cf\<lparr>fx_tp_rank := r\<rparr>) rid request acc = Inr (out r)"
  shows "concat (map (\<lambda>r. fk_fa_keys (out r)) [0..<fx_tp_size cf]) = fd_dump_keys request
    \<and> concat (map (\<lambda>r. fk_wa_keys (out r)) [0..<fx_tp_size cf])
        = (if fx_wa_dump_block_wise cf then fd_dump_keys request else [last (fd_dump_keys request)])"
proof -
  let ?keys = "fd_dump_keys request" and ?tp = "fx_tp_size cf"
  let ?n = "length ?keys"
  let ?f = "\<lambda>i. ?n * i div ?tp"
  have slices: "concat (map (\<lambda>i. py_slice ?keys (?f i) (?f (Suc i))) [0..<?tp]) = ?keys"
    using assms(1) by (subst consecutive_slices) (simp_all add: div_le_mono)
  have share: "tp_start (cf\<lparr>fx_tp_rank := r\<rparr>) ?n = ?f r" "tp_end (cf\<lparr>fx_tp_rank := r\<rparr>) ?n = ?f (Suc r)" for r
    by (simp_all add: tp_start_def tp_end_def)
  have fa: "fk_fa_keys (out r) = py_slice ?keys (?f r) (?f (Suc r))" if "r < ?tp" for r
    using collect_tp_keys [OF assms(4) [OF that] refl] assms(2) by (simp add: share)
  have wa: "fk_wa_keys (out r) = (if fx_wa_dump_block_wise cf then py_slice ?keys (?f r) (?f (Suc r))
      else if fk_ring acc mod ?tp = r then [last ?keys] else [])" if "r < ?tp" for r
    using collect_tp_keys [OF assms(4) [OF that] refl] assms(3) by (simp add: share)
  have one: "concat (map (\<lambda>r. if q = r then [x] else []) [0..<m]) = (if q < m then [x] else [])" for q m and x :: bytes
    by (induction m) auto
  have "concat (map (\<lambda>r. fk_fa_keys (out r)) [0..<?tp])
      = concat (map (\<lambda>i. py_slice ?keys (?f i) (?f (Suc i))) [0..<?tp])"
    using fa by (intro arg_cong [where f = concat] map_cong) simp_all
  moreover have "concat (map (\<lambda>r. fk_wa_keys (out r)) [0..<?tp])
      = concat (map (\<lambda>r. if fx_wa_dump_block_wise cf then py_slice ?keys (?f r) (?f (Suc r))
          else if fk_ring acc mod ?tp = r then [last ?keys] else []) [0..<?tp])"
    using wa by (intro arg_cong [where f = concat] map_cong) simp_all
  moreover have "fk_ring acc mod ?tp < ?tp" using assms(1) by simp
  ultimately show ?thesis using slices one by (cases "fx_wa_dump_block_wise cf") simp_all
qed

end
