(* ===== verification/Layerwise.thy ===== *)
theory Layerwise
  imports Load_Accounting Kv_Layout "HOL-Library.Product_Lexorder"
begin

text \<open>
  \<open>UCMLayerWiseConnector\<close>: loads and dumps are split by layer and overlap the forward pass.
  The load of the next layer is submitted when the current one has been waited for; the dump
  of a layer is submitted when the layer has been computed, except for the layers of a
  multi-token predictor (MTP), which may run several times in a step and are dumped at its end.
  The rest of the worker is the direct connector's, whose state is a field here.
\<close>

section \<open>The multi-token predictor's layers\<close>

text \<open>
  \<open>_init_mtp_layerwise_dump_state\<close>: \<open>n_predict\<close> is \<open>None\<close> where the attribute is absent
  or no integer. The result is the pair \<open>(_is_mtp, _num_mtp_layers)\<close>.
\<close>

definition ends_with :: "string \<Rightarrow> string \<Rightarrow> bool" where
  "ends_with s suf = (length suf \<le> length s \<and> drop (length s - length suf) s = suf)"

definition init_mtp :: "string option option \<Rightarrow> int option \<Rightarrow> bool \<times> nat" where
  "init_mtp speculative_method n_predict =
     (case speculative_method of
        None \<Rightarrow> (False, 0)
      | Some mtp_method \<Rightarrow>
          let is_mtp = (case mtp_method of None \<Rightarrow> False | Some m \<Rightarrow> m = ''mtp'' \<or> ends_with m ''_mtp'')
          in if \<not> is_mtp then (False, 0)
             else (True, case n_predict of None \<Rightarrow> 0 | Some value \<Rightarrow> nat (max value 0)))"

definition mtp_layer_range :: "bool \<times> nat \<Rightarrow> nat \<Rightarrow> (nat \<times> nat) option" where
  "mtp_layer_range mtp num_hidden_layers =
     (if \<not> fst mtp \<or> snd mtp = 0 \<or> num_hidden_layers = 0 then None
      else Some (num_hidden_layers, num_hidden_layers + snd mtp))"

definition is_mtp_layer :: "(nat \<times> nat) option \<Rightarrow> nat \<Rightarrow> bool" where
  "is_mtp_layer layers layer_id =
     (case layers of None \<Rightarrow> False | Some (start, end') \<Rightarrow> start \<le> layer_id \<and> layer_id < end')"

section \<open>State\<close>

record layer_request =
  lr_request_id :: req_id
  lr_ucm_block_ids :: "bytes list"
  lr_store_block_ids :: "bytes list"
  lr_total_ptrs :: "u64 list list list"

text \<open>
  \<open>lc_extract_layers\<close> is the layout's \<open>extract_block_addrs\<close> with \<open>layer_first=True\<close>: for
  every layer, a row of addresses per block.
\<close>

record 'w layer_cfg =
  lc_base :: "'w worker_cfg"
  lc_extract_layers :: "vllm_id list \<Rightarrow> u64 list list list result"
  lc_layer_name_to_id :: "(string, nat) dict"
  lc_layer_ids :: "nat list"
  lc_first_layer_id :: nat
  lc_mtp_range :: "(nat \<times> nat) option"

text \<open>A set of request ids that is filled from the keys of a dictionary is kept in their order.\<close>

record 'w layer_worker =
  ly_worker :: "'w worker"
  ly_load_tasks :: "(nat, (req_id, nat) dict) dict"
  ly_need_load :: bool
  ly_is_save :: bool
  ly_dump_total_ptrs :: "u64 list list list option"
  ly_request_data :: "layer_request list"
  ly_failure_req_ids :: "req_id set"
  ly_deferred :: "(nat, bytes list \<times> vllm_id list \<times> req_id list) dict"

definition layer_stats :: "metric list \<Rightarrow> 'w layer_worker \<Rightarrow> 'w layer_worker" where
  "layer_stats ms s = s\<lparr>ly_worker := worker_stats ms (ly_worker s)\<rparr>"

section \<open>Loading\<close>

text \<open>The two exception handlers of the loads; \<open>request_meta[request_id]\<close> may raise itself.\<close>

definition layer_load_failed ::
  "string \<Rightarrow> (req_id, dispatch_meta) dict \<Rightarrow> req_id \<Rightarrow> 'w layer_worker \<Rightarrow> unit result \<times> 'w layer_worker" where
  "layer_load_failed metric_name metas request_id s =
     (case dict_get metas request_id of
        None \<Rightarrow> (Inl KeyError, s)
      | Some request \<Rightarrow>
          (Inr (), s\<lparr>ly_worker := load_failed metric_name request_id request (ly_worker s),
                     ly_failure_req_ids := insert request_id (ly_failure_req_ids s)\<rparr>))"

definition submit_layer_load ::
  "'w layer_cfg \<Rightarrow> nat \<Rightarrow> nat \<Rightarrow> layer_request \<Rightarrow> 'w layer_worker \<Rightarrow> nat result \<times> 'w layer_worker" where
  "submit_layer_load cf layer_id local_row d s =
     (case py_index (lr_total_ptrs d) local_row of
        Inl e \<Rightarrow> (Inl e, s)
      | Inr layer_ptrs \<Rightarrow>
          (case submit_load (wk_rcm (ly_worker s)) (wc_store (lc_base cf)) (wk_world (ly_worker s))
                  [(lr_request_id d, lr_ucm_block_ids d)] (lr_store_block_ids d)
                  (replicate (length (lr_ucm_block_ids d)) layer_id) layer_ptrs of
             (r, rcm', w') \<Rightarrow> (r, s\<lparr>ly_worker := (ly_worker s)\<lparr>wk_rcm := rcm', wk_world := w'\<rparr>\<rparr>)))"

fun submit_layer_loads ::
  "'w layer_cfg \<Rightarrow> (req_id, dispatch_meta) dict \<Rightarrow> nat \<Rightarrow> nat \<Rightarrow> layer_request list \<Rightarrow> 'w layer_worker
     \<Rightarrow> unit result \<times> 'w layer_worker" where
  "submit_layer_loads cf metas layer_id local_row [] s = (Inr (), s)"
| "submit_layer_loads cf metas layer_id local_row (d # rest) s =
     (if lr_request_id d \<in> ly_failure_req_ids s then submit_layer_loads cf metas layer_id local_row rest s
      else
        (case submit_layer_load cf layer_id local_row d s of
           (Inr task, s1) \<Rightarrow>
             submit_layer_loads cf metas layer_id local_row rest
               (s1\<lparr>ly_load_tasks :=
                    dict_set layer_id
                      (dict_set (lr_request_id d) task (dict_get_or (ly_load_tasks s1) layer_id []))
                      (ly_load_tasks s1)\<rparr>)
         | (Inl e, s1) \<Rightarrow>
             (case layer_load_failed ''connector_load_submit_errors_total'' metas (lr_request_id d) s1 of
                (Inl e', s2) \<Rightarrow> (Inl e', s2)
              | (Inr _, s2) \<Rightarrow> submit_layer_loads cf metas layer_id local_row rest s2)))"

text \<open>The loop of \<open>start_load_kv\<close> that prepares the requests; an address error escapes.\<close>

fun prepare_loads ::
  "'w layer_cfg \<Rightarrow> (req_id, dispatch_meta) dict \<Rightarrow> 'w layer_worker \<Rightarrow> unit result \<times> 'w layer_worker" where
  "prepare_loads cf [] s = (Inr (), s)"
| "prepare_loads cf ((request_id, request) # rest) s =
     (if fst (dm_load request) = [] then prepare_loads cf rest s
      else
        let s1 = s\<lparr>ly_need_load := True\<rparr>;
            base = lc_base cf;
            ucm_block_ids = fst (dm_load request);
            store_block_ids =
              rank_scoped_ids (wc_hasher base) (wc_tp_rank base mod wc_tp_size base = 0 \<or> wc_is_mla base)
                ucm_block_ids
        in (case lc_extract_layers cf (snd (dm_load request)) of
              Inl e \<Rightarrow> (Inl e, s1)
            | Inr total_ptrs \<Rightarrow>
                prepare_loads cf rest
                  (s1\<lparr>ly_request_data := ly_request_data s1
                        @ [\<lparr>lr_request_id = request_id, lr_ucm_block_ids = ucm_block_ids,
                            lr_store_block_ids = store_block_ids, lr_total_ptrs = total_ptrs\<rparr>]\<rparr>)))"

definition layer_start_load_kv ::
  "'w layer_cfg \<Rightarrow> connector_meta \<Rightarrow> 'w layer_worker \<Rightarrow> unit result \<times> 'w layer_worker" where
  "layer_start_load_kv cf metadata s =
     (let metas = cm_request_meta metadata;
          s0 = s\<lparr>ly_load_tasks := [], ly_request_data := [], ly_failure_req_ids := {}, ly_need_load := False\<rparr>
      in case prepare_loads cf metas s0 of
           (Inl e, s1) \<Rightarrow> (Inl e, s1)
         | (Inr _, s1) \<Rightarrow>
             if \<not> ly_need_load s1 then (Inr (), s1)
             else
               (case submit_layer_loads cf metas (lc_first_layer_id cf) 0 (ly_request_data s1) s1 of
                  (Inl e, s2) \<Rightarrow> (Inl e, s2)
                | (Inr _, s2) \<Rightarrow>
                    (Inr (), layer_stats
                       [MCount ''layerwise_first_layer_requests''
                          (int (length (ly_request_data s2)) - int (card (ly_failure_req_ids s2)))] s2)))"

fun wait_layer_tasks ::
  "(req_id, dispatch_meta) dict \<Rightarrow> (req_id, nat) dict \<Rightarrow> 'w layer_worker \<Rightarrow> unit result \<times> 'w layer_worker" where
  "wait_layer_tasks metas [] s = (Inr (), s)"
| "wait_layer_tasks metas ((request_id, task) # rest) s =
     (case wait_load (wk_rcm (ly_worker s)) (wk_world (ly_worker s)) task of
        (r, rcm', w') \<Rightarrow>
          let s1 = s\<lparr>ly_worker := (ly_worker s)\<lparr>wk_rcm := rcm', wk_world := w'\<rparr>\<rparr> in
          (case r of
             Inr _ \<Rightarrow> wait_layer_tasks metas rest s1
           | Inl e \<Rightarrow>
               (case layer_load_failed ''connector_load_wait_errors_total'' metas request_id s1 of
                  (Inl e', s2) \<Rightarrow> (Inl e', s2)
                | (Inr _, s2) \<Rightarrow> wait_layer_tasks metas rest s2)))"

definition wait_for_layer_load ::
  "'w layer_cfg \<Rightarrow> connector_meta option \<Rightarrow> string \<Rightarrow> 'w layer_worker \<Rightarrow> unit result \<times> 'w layer_worker" where
  "wait_for_layer_load cf bound layer_name s =
     (case bound of
        None \<Rightarrow> (Inr (), s)
      | Some metadata \<Rightarrow>
          if \<not> ly_need_load s then (Inr (), s)
          else
            (case py_key (lc_layer_name_to_id cf) layer_name of
               Inl e \<Rightarrow> (Inl e, s)
             | Inr current_layer_id \<Rightarrow>
                 let metas = cm_request_meta metadata;
                     layer_tasks = dict_get_or (ly_load_tasks s) current_layer_id [];
                     s1 = s\<lparr>ly_load_tasks := dict_pop current_layer_id (ly_load_tasks s)\<rparr>
                 in (case wait_layer_tasks metas layer_tasks s1 of
                       (Inl e, s2) \<Rightarrow> (Inl e, s2)
                     | (Inr _, s2) \<Rightarrow>
                         let next_layer_id = current_layer_id + 1 in
                         (case (if next_layer_id \<in> set (lc_layer_ids cf)
                                then submit_layer_loads cf metas next_layer_id
                                       (next_layer_id - lc_first_layer_id cf) (ly_request_data s2) s2
                                else (Inr (), s2)) of
                            (Inl e, s3) \<Rightarrow> (Inl e, s3)
                          | (Inr _, s3) \<Rightarrow>
                              (Inr (), layer_stats
                                 [MCount ''layerwise_wait_tasks_count'' (int (length layer_tasks))] s3)))))"

section \<open>Saving\<close>

definition layer_dump_blocks ::
  "(req_id, dispatch_meta) dict \<Rightarrow> req_id list \<Rightarrow> (req_id, bytes set) dict result" where
  "layer_dump_blocks metas dump_request_ids =
     rmap (\<lambda>r. rbind (py_key metas r) (\<lambda>request. Inr (r, set (fst (dm_dump request))))) dump_request_ids"

text \<open>
  \<open>_submit_layerwise_dump_task\<close>: the addresses of all layers are computed once per step and
  kept; what happens before the \<open>try\<close> escapes.
\<close>

definition submit_layerwise_dump_task ::
  "'w layer_cfg \<Rightarrow> (req_id, dispatch_meta) dict \<Rightarrow> nat \<Rightarrow> bytes list \<Rightarrow> vllm_id list \<Rightarrow> req_id list
     \<Rightarrow> 'w layer_worker \<Rightarrow> unit result \<times> 'w layer_worker" where
  "submit_layerwise_dump_task cf metas layer_id ucm_block_ids vllm_block_ids dump_request_ids s =
     (if dump_request_ids = [] then (Inr (), s)
      else
        (case layer_dump_blocks metas dump_request_ids of
           Inl e \<Rightarrow> (Inl e, s)
         | Inr block_ids_by_request \<Rightarrow>
             (case (case ly_dump_total_ptrs s of
                      Some ptrs \<Rightarrow> Inr ptrs | None \<Rightarrow> lc_extract_layers cf vllm_block_ids) of
                Inl e \<Rightarrow> (Inl e, s)
              | Inr ptrs \<Rightarrow>
                  let s1 = s\<lparr>ly_dump_total_ptrs := Some ptrs\<rparr>;
                      failed = (\<lambda>s'. (Inr (), layer_stats [MCount ''connector_dump_submit_errors_total'' 1] s'))
                  in (case py_wrap_index (length ptrs) (int layer_id - int (lc_first_layer_id cf)) of
                        Inl e \<Rightarrow> failed s1
                      | Inr row \<Rightarrow>
                          (case submit_dump_task (lc_base cf) (set dump_request_ids) block_ids_by_request
                                  ucm_block_ids (replicate (length ucm_block_ids) layer_id) (ptrs ! row)
                                  (ly_worker s1) of
                             (Inl e, w) \<Rightarrow> failed (s1\<lparr>ly_worker := w\<rparr>)
                           | (Inr _, w) \<Rightarrow> (Inr (), s1\<lparr>ly_worker := w\<rparr>))))))"

fun flush_loop ::
  "'w layer_cfg \<Rightarrow> (req_id, dispatch_meta) dict \<Rightarrow> (nat \<times> bytes list \<times> vllm_id list \<times> req_id list) list
     \<Rightarrow> 'w layer_worker \<Rightarrow> unit result \<times> 'w layer_worker" where
  "flush_loop cf metas [] s = (Inr (), s)"
| "flush_loop cf metas ((layer_id, ucm, vllm, rs) # rest) s =
     (case submit_layerwise_dump_task cf metas layer_id ucm vllm rs s of
        (Inl e, s1) \<Rightarrow> (Inl e, s1)
      | (Inr _, s1) \<Rightarrow> flush_loop cf metas rest s1)"

definition flush_deferred_mtp_dumps ::
  "'w layer_cfg \<Rightarrow> (req_id, dispatch_meta) dict \<Rightarrow> 'w layer_worker \<Rightarrow> unit result \<times> 'w layer_worker" where
  "flush_deferred_mtp_dumps cf metas s =
     flush_loop cf metas (sort_key fst (ly_deferred s)) (s\<lparr>ly_deferred := []\<rparr>)"

fun collect_layer_dumps ::
  "'w worker_cfg \<Rightarrow> (req_id, dispatch_meta) dict \<Rightarrow> bytes list \<times> vllm_id list \<times> req_id list
     \<Rightarrow> bytes list \<times> vllm_id list \<times> req_id list" where
  "collect_layer_dumps base [] acc = acc"
| "collect_layer_dumps base ((request_id, request) # rest) (ucm, vllm, rs) =
     (if fst (dm_dump request) = [] then collect_layer_dumps base rest (ucm, vllm, rs)
      else collect_layer_dumps base rest
             (ucm @ rank_scoped_ids (wc_hasher base) (wc_tp_rank base mod wc_tp_size base = 0)
                      (fst (dm_dump request)),
              vllm @ snd (dm_dump request), rs @ [request_id]))"

definition save_kv_layer ::
  "'w layer_cfg \<Rightarrow> connector_meta option \<Rightarrow> string \<Rightarrow> 'w layer_worker \<Rightarrow> unit result \<times> 'w layer_worker" where
  "save_kv_layer cf bound layer_name s =
     (case bound of
        None \<Rightarrow> (Inr (), s)
      | Some metadata \<Rightarrow>
          let base = lc_base cf in
          if wc_is_mla base \<and> wc_tp_rank base mod wc_tp_size base \<noteq> 0 then (Inr (), s)
          else
            (case py_key (lc_layer_name_to_id cf) layer_name of
               Inl e \<Rightarrow> (Inl e, s)
             | Inr layer_id \<Rightarrow>
                 let metas = cm_request_meta metadata;
                     (ucm, vllm, rs) = collect_layer_dumps base metas ([], [], []);
                     s1 = (if rs = [] then s else s\<lparr>ly_is_save := True\<rparr>)
                 in if rs = [] then (Inr (), s1)
                    else if is_mtp_layer (lc_mtp_range cf) layer_id
                    then (Inr (), s1\<lparr>ly_deferred := dict_set layer_id (ucm, vllm, rs) (ly_deferred s1)\<rparr>)
                    else submit_layerwise_dump_task cf metas layer_id ucm vllm rs s1))"

definition layer_wait_for_save ::
  "'w layer_cfg \<Rightarrow> connector_meta option \<Rightarrow> 'w layer_worker \<Rightarrow> unit result \<times> 'w layer_worker" where
  "layer_wait_for_save cf bound s =
     (let metas = (case bound of None \<Rightarrow> [] | Some metadata \<Rightarrow> cm_request_meta metadata) in
      case flush_deferred_mtp_dumps cf metas s of
        (Inl e, s1) \<Rightarrow> (Inl e, s1)
      | (Inr _, s1) \<Rightarrow>
          let w = poll_pending_dump_tasks (lc_base cf) (ly_worker s1);
              w' = w\<lparr>wk_async_dump_req_ids := wk_async_dump_req_ids w \<union> dump_requests metas\<rparr>
          in (Inr (), s1\<lparr>ly_worker := w', ly_is_save := False, ly_dump_total_ptrs := None\<rparr>))"

end
