(* ===== verification/Layer_Dumps.thy ===== *)
theory Layer_Dumps
  imports Layerwise
begin

text \<open>
  The layerwise connector keeps the invariant of the direct connector's worker: the loads touch
  only the load contexts and what is reported of failed loads, and the per-layer dumps go
  through the direct connector's submission. Every state reachable by vLLM's calls has it.
\<close>


section \<open>The worker's invariant\<close>

lemma submit_load_loads_only:
  assumes "submit_load (wk_rcm s) (wc_store cf) (wk_world s) ctx ids shards ptrs = (r, rcm', w')"
    and "fresh_handles clock cf"
  shows "loads_only clock cf s (s\<lparr>wk_rcm := rcm', wk_world := w'\<rparr>)"
  using submit_load_frame(3) [OF assms(1)] submit_load_forward [OF assms(1) _ assms(2)]
  by (simp add: loads_only_def)

lemma wait_load_loads_only:
  assumes "wait_load (wk_rcm s) (wk_world s) task = (r, rcm', w')" and "waits_forward clock (wc_store cf)"
  shows "loads_only clock cf s (s\<lparr>wk_rcm := rcm', wk_world := w'\<rparr>)"
  using wait_load_frame(3) [OF assms(1)] wait_load_forward [OF assms(1) _ assms(2)]
  by (simp add: loads_only_def)

lemma layer_load_failed_only:
  "layer_load_failed mt metas r s = (q, s') \<Longrightarrow> loads_only clock cf (ly_worker s) (ly_worker s')"
  by (auto simp: layer_load_failed_def split: option.splits)

lemma submit_layer_load_only:
  assumes "submit_layer_load cf l row d s = (q, s')" and "fresh_handles clock (lc_base cf)"
  shows "loads_only clock (lc_base cf) (ly_worker s) (ly_worker s')"
  using assms
  by (auto simp: submit_layer_load_def split: sum.splits prod.splits intro: submit_load_loads_only)

lemma submit_layer_loads_only:
  "submit_layer_loads cf metas l row ds s = (q, s') \<Longrightarrow> fresh_handles clock (lc_base cf)
     \<Longrightarrow> loads_only clock (lc_base cf) (ly_worker s) (ly_worker s')"
proof (induction ds arbitrary: s)
  case Nil
  then show ?case by simp
next
  case (Cons d ds)
  show ?case
  proof (cases "lr_request_id d \<in> ly_failure_req_ids s")
    case True
    with Cons show ?thesis by simp
  next
    case False
    obtain p s1 where p: "submit_layer_load cf l row d s = (p, s1)" by (cases "submit_layer_load cf l row d s")
    note one = submit_layer_load_only [OF p Cons.prems(2)]
    show ?thesis
    proof (cases p)
      case (Inr task)
      let ?s2 = "s1\<lparr>ly_load_tasks := dict_set l (dict_set (lr_request_id d) task (dict_get_or (ly_load_tasks s1) l []))
          (ly_load_tasks s1)\<rparr>"
      have "submit_layer_loads cf metas l row ds ?s2 = (q, s')" using Cons.prems(1) False p Inr by simp
      from Cons.IH [OF this Cons.prems(2)] one loads_only_trans show ?thesis by fastforce
    next
      case (Inl e)
      obtain p' s2 where f: "layer_load_failed ''connector_load_submit_errors_total'' metas (lr_request_id d) s1 = (p', s2)"
        by (cases "layer_load_failed ''connector_load_submit_errors_total'' metas (lr_request_id d) s1")
      note two = loads_only_trans [OF one layer_load_failed_only [OF f]]
      show ?thesis
      proof (cases p')
        case (Inl e')
        with Cons.prems(1) False p \<open>p = Inl e\<close> f two show ?thesis by simp
      next
        case (Inr u)
        with Cons.prems(1) False p \<open>p = Inl e\<close> f have "submit_layer_loads cf metas l row ds s2 = (q, s')" by simp
        from loads_only_trans [OF two Cons.IH [OF this Cons.prems(2)]] show ?thesis .
      qed
    qed
  qed
qed

lemma wait_layer_tasks_only:
  "wait_layer_tasks metas items s = (q, s') \<Longrightarrow> waits_forward clock (wc_store cf)
     \<Longrightarrow> loads_only clock cf (ly_worker s) (ly_worker s')"
proof (induction items arbitrary: s)
  case Nil
  then show ?case by simp
next
  case (Cons it items)
  obtain r task where it: "it = (r, task)" by (cases it)
  obtain p rcm' w' where p: "wait_load (wk_rcm (ly_worker s)) (wk_world (ly_worker s)) task = (p, rcm', w')"
    by (metis prod_cases3)
  let ?s1 = "s\<lparr>ly_worker := (ly_worker s)\<lparr>wk_rcm := rcm', wk_world := w'\<rparr>\<rparr>"
  have one: "loads_only clock cf (ly_worker s) (ly_worker ?s1)"
    using wait_load_loads_only [OF p Cons.prems(2)] by simp
  show ?case
  proof (cases p)
    case (Inr u)
    with Cons.prems(1) it p have "wait_layer_tasks metas items ?s1 = (q, s')" by simp
    from loads_only_trans [OF one Cons.IH [OF this Cons.prems(2)]] show ?thesis .
  next
    case (Inl e)
    obtain p' s2 where f: "layer_load_failed ''connector_load_wait_errors_total'' metas r ?s1 = (p', s2)"
      by (cases "layer_load_failed ''connector_load_wait_errors_total'' metas r ?s1")
    note two = loads_only_trans [OF one layer_load_failed_only [OF f]]
    show ?thesis
    proof (cases p')
      case (Inl e')
      with Cons.prems(1) it p \<open>p = Inl e\<close> f two show ?thesis by simp
    next
      case (Inr u)
      with Cons.prems(1) it p \<open>p = Inl e\<close> f have "wait_layer_tasks metas items s2 = (q, s')" by simp
      from loads_only_trans [OF two Cons.IH [OF this Cons.prems(2)]] show ?thesis .
    qed
  qed
qed

lemma prepare_loads_worker: "prepare_loads cf metas s = (q, s') \<Longrightarrow> ly_worker s' = ly_worker s"
  by (induction cf metas s rule: prepare_loads.induct) (auto simp: Let_def split: if_splits sum.splits)

lemma layer_start_load_kv_only:
  assumes "fresh_handles clock (lc_base cf)"
  shows "loads_only clock (lc_base cf) (ly_worker s) (ly_worker (snd (layer_start_load_kv cf md s)))"
proof -
  let ?m = "cm_request_meta md"
  let ?s0 = "s\<lparr>ly_load_tasks := [], ly_request_data := [], ly_failure_req_ids := {}, ly_need_load := False\<rparr>"
  obtain q s1 where p: "prepare_loads cf ?m ?s0 = (q, s1)" by (cases "prepare_loads cf ?m ?s0")
  obtain q2 s2 where l: "submit_layer_loads cf ?m (lc_first_layer_id cf) 0 (ly_request_data s1) s1 = (q2, s2)"
    by (cases "submit_layer_loads cf ?m (lc_first_layer_id cf) 0 (ly_request_data s1) s1")
  have "ly_worker s1 = ly_worker s" using prepare_loads_worker [OF p] by simp
  with submit_layer_loads_only [OF l assms] p l show ?thesis
    by (simp add: layer_start_load_kv_def Let_def layer_stats_def split: sum.split)
qed

lemma wait_for_layer_load_only:
  assumes "fresh_handles clock (lc_base cf)" and "waits_forward clock (wc_store (lc_base cf))"
  shows "loads_only clock (lc_base cf) (ly_worker s) (ly_worker (snd (wait_for_layer_load cf bound name s)))"
proof (cases "bound = None \<or> \<not> ly_need_load s \<or> (\<forall>l. py_key (lc_layer_name_to_id cf) name \<noteq> Inr l)")
  case True
  then show ?thesis by (auto simp: wait_for_layer_load_def split: option.split sum.split)
next
  case False
  then obtain md l where md: "bound = Some md" "ly_need_load s" "py_key (lc_layer_name_to_id cf) name = Inr l" by auto
  let ?m = "cm_request_meta md"
  let ?s1 = "s\<lparr>ly_load_tasks := dict_pop l (ly_load_tasks s)\<rparr>"
  obtain q s2 where w: "wait_layer_tasks ?m (dict_get_or (ly_load_tasks s) l []) ?s1 = (q, s2)"
    by (cases "wait_layer_tasks ?m (dict_get_or (ly_load_tasks s) l []) ?s1")
  have one: "loads_only clock (lc_base cf) (ly_worker s) (ly_worker s2)"
    using wait_layer_tasks_only [OF w assms(2)] by simp
  obtain q3 s3 where l3: "submit_layer_loads cf ?m (l + 1) (l + 1 - lc_first_layer_id cf) (ly_request_data s2) s2 = (q3, s3)"
    by (cases "submit_layer_loads cf ?m (l + 1) (l + 1 - lc_first_layer_id cf) (ly_request_data s2) s2")
  note two = loads_only_trans [OF one submit_layer_loads_only [OF l3 assms(1)]]
  from one two w l3 md show ?thesis
    by (auto simp: wait_for_layer_load_def Let_def layer_stats_def split: sum.split)
qed

lemma layer_dump_blocks_keys:
  "layer_dump_blocks metas rs = Inr blocks \<Longrightarrow> dict_keys blocks = set rs"
proof (induction rs arbitrary: blocks)
  case Nil
  then show ?case by (simp add: layer_dump_blocks_def)
next
  case (Cons r rs)
  then obtain x rest where "layer_dump_blocks metas rs = Inr rest" "blocks = (r, x) # rest"
    by (auto simp: layer_dump_blocks_def rbind_Inr_iff)
  with Cons.IH show ?case by simp
qed

lemma layer_stats_worker_ok [simp]:
  "worker_ok clock cf (ly_worker (layer_stats ms s)) = worker_ok clock cf (ly_worker s)"
  by (simp add: layer_stats_def)

lemma submit_layerwise_dump_task_ok:
  assumes "worker_ok clock (lc_base cf) (ly_worker s)" and "fresh_handles clock (lc_base cf)"
  shows "worker_ok clock (lc_base cf) (ly_worker (snd (submit_layerwise_dump_task cf metas l ucm vllm rs s)))"
proof (cases "rs = []")
  case True
  with assms(1) show ?thesis by (simp add: submit_layerwise_dump_task_def)
next
  case False
  show ?thesis
  proof (cases "layer_dump_blocks metas rs")
    case (Inl e)
    with assms(1) False show ?thesis by (simp add: submit_layerwise_dump_task_def)
  next
    case (Inr blocks)
    have ok: "worker_ok clock (lc_base cf)
        (snd (submit_dump_task (lc_base cf) (set rs) blocks ucm (replicate (length ucm) l) ptrs (ly_worker s)))" for ptrs
      using layer_dump_blocks_keys [OF Inr] by (intro submit_dump_task_ok assms) simp
    have ok': "worker_ok clock (lc_base cf) w"
      if "submit_dump_task (lc_base cf) (set rs) blocks ucm (replicate (length ucm) l) ptrs (ly_worker s) = (q, w)" for ptrs q w
      using ok [of ptrs] that by simp
    show ?thesis
      using assms(1) ok' by (auto simp: submit_layerwise_dump_task_def False Inr Let_def
          split: sum.split prod.split option.split)
  qed
qed

lemma flush_loop_ok:
  assumes "fresh_handles clock (lc_base cf)"
  shows "worker_ok clock (lc_base cf) (ly_worker s)
     \<Longrightarrow> worker_ok clock (lc_base cf) (ly_worker (snd (flush_loop cf metas items s)))"
proof (induction items arbitrary: s)
  case Nil
  then show ?case by simp
next
  case (Cons it items)
  obtain l ucm vllm rs where it: "it = (l, ucm, vllm, rs)" by (cases it)
  obtain q s1 where q: "submit_layerwise_dump_task cf metas l ucm vllm rs s = (q, s1)"
    by (cases "submit_layerwise_dump_task cf metas l ucm vllm rs s")
  have "worker_ok clock (lc_base cf) (ly_worker s1)"
    using submit_layerwise_dump_task_ok [OF Cons.prems assms, of metas l ucm vllm rs] q by simp
  with Cons.IH q it show ?case by (cases q) simp_all
qed

lemma save_kv_layer_ok:
  assumes "worker_ok clock (lc_base cf) (ly_worker s)" and "fresh_handles clock (lc_base cf)"
  shows "worker_ok clock (lc_base cf) (ly_worker (snd (save_kv_layer cf bound name s)))"
proof -
  have "worker_ok clock (lc_base cf)
      (ly_worker (snd (submit_layerwise_dump_task cf metas l ucm vllm rs (s\<lparr>ly_is_save := True\<rparr>))))"
    for metas l ucm vllm rs
    using assms by (intro submit_layerwise_dump_task_ok) simp_all
  with assms(1) show ?thesis
    by (auto simp: save_kv_layer_def Let_def split: option.split sum.split prod.split)
qed

lemma worker_ok_async [simp]:
  "worker_ok clock cf (s\<lparr>wk_async_dump_req_ids := rs\<rparr>) = worker_ok clock cf s"
  by (simp add: worker_ok_def worker_inv_def)

lemma layer_wait_for_save_ok:
  assumes "worker_ok clock (lc_base cf) (ly_worker s)" and "fresh_handles clock (lc_base cf)"
    and "waits_forward clock (wc_store (lc_base cf))"
  shows "worker_ok clock (lc_base cf) (ly_worker (snd (layer_wait_for_save cf bound s)))"
proof -
  define metas where "metas = (case bound of None \<Rightarrow> [] | Some md \<Rightarrow> cm_request_meta md)"
  obtain q s1 where q: "flush_deferred_mtp_dumps cf metas s = (q, s1)"
    by (cases "flush_deferred_mtp_dumps cf metas s")
  have "worker_ok clock (lc_base cf) (ly_worker s1)"
    using flush_loop_ok [OF assms(2), of "s\<lparr>ly_deferred := []\<rparr>" metas "sort_key fst (ly_deferred s)"] assms(1) q
    by (simp add: flush_deferred_mtp_dumps_def)
  with poll_ok [OF _ assms(3)] q show ?thesis
    by (cases q) (simp_all add: layer_wait_for_save_def Let_def flip: metas_def)
qed

section \<open>Reachable workers\<close>

text \<open>
  The calls of vLLM, in any order: layers may be waited for and saved any number of times. An
  exception that escapes leaves the state it reached.
\<close>

inductive layer_step :: "'w layer_cfg \<Rightarrow> 'w layer_worker \<Rightarrow> 'w layer_worker \<Rightarrow> bool" for cf where
  loaded: "layer_step cf s (snd (layer_start_load_kv cf md s))"
| waited: "layer_step cf s (snd (wait_for_layer_load cf bound name s))"
| layer_saved: "layer_step cf s (snd (save_kv_layer cf bound name s))"
| saved: "layer_step cf s (snd (layer_wait_for_save cf bound s))"
| preempted: "layer_step cf s (s\<lparr>ly_worker := handle_preemptions (lc_base cf) rs (ly_worker s)\<rparr>)"
| finished: "layer_step cf s (s\<lparr>ly_worker := snd (get_finished (lc_base cf) rs (ly_worker s))\<rparr>)"
| errors_read: "layer_step cf s (s\<lparr>ly_worker := snd (get_block_ids_with_load_errors (ly_worker s))\<rparr>)"
| meta_built: "layer_step cf s (s\<lparr>ly_worker := snd (build_connector_worker_meta (ly_worker s))\<rparr>)"

inductive layer_reachable :: "'w layer_cfg \<Rightarrow> 'w layer_worker \<Rightarrow> 'w layer_worker \<Rightarrow> bool" for cf s0 where
  start: "layer_reachable cf s0 s0"
| step: "layer_reachable cf s0 s \<Longrightarrow> layer_step cf s s' \<Longrightarrow> layer_reachable cf s0 s'"

definition new_layer_worker :: "'w \<Rightarrow> bool \<Rightarrow> bool \<Rightarrow> 'w layer_worker" where
  "new_layer_worker w use_manager is_mla =
     \<lparr>ly_worker = new_worker w use_manager is_mla, ly_load_tasks = [], ly_need_load = False,
      ly_is_save = False, ly_dump_total_ptrs = None, ly_request_data = [], ly_failure_req_ids = {},
      ly_deferred = []\<rparr>"

lemma layer_step_ok:
  assumes "layer_step cf s s'" and "worker_ok clock (lc_base cf) (ly_worker s)"
    and "waits_forward clock (wc_store (lc_base cf))" and "fresh_handles clock (lc_base cf)"
  shows "worker_ok clock (lc_base cf) (ly_worker s')"
  using assms(1)
proof (cases rule: layer_step.cases)
  case (loaded md)
  with loads_only_ok [OF assms(2) layer_start_load_kv_only [OF assms(4)]] show ?thesis by simp
next
  case (waited bound name)
  with loads_only_ok [OF assms(2) wait_for_layer_load_only [OF assms(4,3)]] show ?thesis by simp
next
  case (layer_saved bound name)
  with save_kv_layer_ok [OF assms(2,4)] show ?thesis by simp
next
  case (saved bound)
  with layer_wait_for_save_ok [OF assms(2,4,3)] show ?thesis by simp
next
  case (preempted rs)
  with handle_preemptions_ok(1) [OF assms(2,3)] show ?thesis by simp
next
  case (finished rs)
  with get_finished_ok [OF assms(2,3)] show ?thesis by simp
next
  case errors_read
  with worker_step_ok [OF worker_step.errors_read assms(2-4)] show ?thesis by simp
next
  case meta_built
  with worker_step_ok [OF worker_step.meta_built assms(2-4)] show ?thesis by simp
qed

lemma layer_reachable_ok:
  assumes "layer_reachable cf (new_layer_worker w use_manager is_mla) s"
    and "waits_forward clock (wc_store (lc_base cf))" and "fresh_handles clock (lc_base cf)"
  shows "worker_ok clock (lc_base cf) (ly_worker s)"
  using assms(1)
proof (induction rule: layer_reachable.induct)
  case start
  then show ?case by (simp add: new_layer_worker_def new_worker_ok)
next
  case (step s s')
  with layer_step_ok [OF step(2) _ assms(2,3)] show ?case by blast
qed

section \<open>Deferred dumps\<close>

text \<open>
  Only \<open>save_kv_layer\<close> defers a dump, and only one with requests; only \<open>wait_for_save\<close> takes
  the deferred dumps out again.
\<close>

definition deferred_ok :: "'w layer_worker \<Rightarrow> bool" where
  "deferred_ok s \<longleftrightarrow> (\<forall>(l, ucm, vllm, rs) \<in> set (ly_deferred s). rs \<noteq> [])"

lemma layer_load_failed_deferred: "layer_load_failed mt metas r s = (q, s') \<Longrightarrow> ly_deferred s' = ly_deferred s"
  by (auto simp: layer_load_failed_def split: option.splits)

lemma submit_layer_loads_deferred:
  "submit_layer_loads cf metas l row ds s = (q, s') \<Longrightarrow> ly_deferred s' = ly_deferred s"
proof (induction ds arbitrary: s)
  case Nil
  then show ?case by simp
next
  case (Cons d ds)
  have one: "submit_layer_load cf l row d s = (p, s1) \<Longrightarrow> ly_deferred s1 = ly_deferred s" for p s1
    by (auto simp: submit_layer_load_def split: sum.splits prod.splits)
  from Cons.prems show ?case
    by (auto dest!: one Cons.IH layer_load_failed_deferred split: if_splits prod.splits sum.splits)
qed

lemma wait_layer_tasks_deferred:
  "wait_layer_tasks metas items s = (q, s') \<Longrightarrow> ly_deferred s' = ly_deferred s"
proof (induction items arbitrary: s)
  case Nil
  then show ?case by simp
next
  case (Cons it items)
  then show ?case
    by (cases it) (auto simp: Let_def dest!: Cons.IH layer_load_failed_deferred split: prod.splits sum.splits)
qed

lemma prepare_loads_deferred: "prepare_loads cf metas s = (q, s') \<Longrightarrow> ly_deferred s' = ly_deferred s"
  by (induction cf metas s rule: prepare_loads.induct) (auto simp: Let_def split: if_splits sum.splits)

lemma layer_start_load_kv_deferred: "ly_deferred (snd (layer_start_load_kv cf md s)) = ly_deferred s"
  by (auto simp: layer_start_load_kv_def Let_def layer_stats_def dest!: prepare_loads_deferred submit_layer_loads_deferred
      split: prod.splits sum.splits)

lemma wait_for_layer_load_deferred: "ly_deferred (snd (wait_for_layer_load cf bound name s)) = ly_deferred s"
  by (auto simp: wait_for_layer_load_def Let_def layer_stats_def dest!: wait_layer_tasks_deferred submit_layer_loads_deferred
      split: option.splits prod.splits sum.splits if_splits)

lemma submit_layerwise_dump_task_deferred:
  "submit_layerwise_dump_task cf metas l ucm vllm rs s = (q, s') \<Longrightarrow> ly_deferred s' = ly_deferred s"
  by (auto simp: submit_layerwise_dump_task_def Let_def layer_stats_def split: if_splits sum.splits prod.splits option.splits)

lemma flush_loop_deferred: "flush_loop cf metas items s = (q, s') \<Longrightarrow> ly_deferred s' = ly_deferred s"
proof (induction items arbitrary: s)
  case Nil
  then show ?case by simp
next
  case (Cons it items)
  then show ?case
    by (cases it) (auto dest!: Cons.IH submit_layerwise_dump_task_deferred split: prod.splits sum.splits)
qed

lemma save_kv_layer_deferred:
  assumes "deferred_ok s"
  shows "deferred_ok (snd (save_kv_layer cf bound name s))"
proof -
  have keep: "deferred_ok (snd (submit_layerwise_dump_task cf metas l ucm vllm rs (s\<lparr>ly_is_save := True\<rparr>)))" for metas l ucm vllm rs
    using submit_layerwise_dump_task_deferred [of cf metas l ucm vllm rs "s\<lparr>ly_is_save := True\<rparr>"] assms
    by (cases "submit_layerwise_dump_task cf metas l ucm vllm rs (s\<lparr>ly_is_save := True\<rparr>)") (simp add: deferred_ok_def)
  have more: "deferred_ok (s\<lparr>ly_is_save := True, ly_deferred := dict_set l (ucm, vllm, rs) (ly_deferred s)\<rparr>)" if "rs \<noteq> []" for l ucm vllm rs
    using assms that by (auto simp: deferred_ok_def dest!: dict_in_set_update)
  show ?thesis
    using assms keep more by (auto simp: save_kv_layer_def Let_def split: option.split sum.split prod.split)
qed

lemma layer_wait_for_save_deferred: "ly_deferred (snd (layer_wait_for_save cf bound s)) = []"
  by (auto simp: layer_wait_for_save_def flush_deferred_mtp_dumps_def Let_def dest!: flush_loop_deferred
      split: prod.splits sum.splits)

lemma layer_reachable_deferred:
  assumes "layer_reachable cf (new_layer_worker w use_manager is_mla) s"
  shows "deferred_ok s"
  using assms
proof (induction rule: layer_reachable.induct)
  case start
  then show ?case by (simp add: new_layer_worker_def deferred_ok_def)
next
  case (step s s')
  from step(2) show ?case
  proof (cases rule: layer_step.cases)
    case (layer_saved bound name)
    then show ?thesis using save_kv_layer_deferred step(3) by simp
  qed (use step(3) in \<open>simp_all add: deferred_ok_def layer_start_load_kv_deferred wait_for_layer_load_deferred
      layer_wait_for_save_deferred\<close>)
qed

text \<open>A dump that is handed over becomes a pending task of its requests, or is counted as an error.\<close>

abbreviation dump_error :: metric where
  "dump_error \<equiv> MCount ''connector_dump_submit_errors_total'' 1"

lemma submit_layerwise_dump_task_result:
  assumes "submit_layerwise_dump_task cf metas l ucm vllm rs s = (Inr u, s')" and "rs \<noteq> []"
  shows "(\<exists>t. pt_request_ids t = set rs \<and> wk_pending (ly_worker s') = wk_pending (ly_worker s) @ [t]
            \<and> wk_metrics (ly_worker s') = wk_metrics (ly_worker s))
    \<or> wk_pending (ly_worker s') = wk_pending (ly_worker s)
            \<and> wk_metrics (ly_worker s') = wk_metrics (ly_worker s) @ [dump_error]"
proof -
  have fails: "submit_dump_task base ids blocks ucm sh ptrs v = (Inl e, v') \<Longrightarrow> wk_pending v' = wk_pending v \<and> wk_metrics v' = wk_metrics v"
    for base ids blocks sh ptrs and v v' :: "'a worker" and e
    by (auto simp: submit_dump_task_def split: prod.splits sum.splits)
  have works: "submit_dump_task base ids blocks ucm sh ptrs v = (Inr x, v') \<Longrightarrow>
      \<exists>t. pt_request_ids t = ids \<and> wk_pending v' = wk_pending v @ [t] \<and> wk_metrics v' = wk_metrics v"
    for base ids blocks sh ptrs and v v' :: "'a worker" and x
    by (auto simp: submit_dump_task_def split: prod.splits sum.splits)
  show ?thesis using assms
    by (auto simp: submit_layerwise_dump_task_def Let_def layer_stats_def worker_stats_def dest!: fails works
        split: sum.splits prod.splits option.splits)
qed

lemma flush_loop_result:
  "flush_loop cf metas items s = (Inr u, s') \<Longrightarrow> \<forall>(l, ucm, vllm, rs) \<in> set items. rs \<noteq> [] \<Longrightarrow>
   \<exists>ts e. wk_pending (ly_worker s') = wk_pending (ly_worker s) @ ts
     \<and> wk_metrics (ly_worker s') = wk_metrics (ly_worker s) @ replicate e dump_error
     \<and> length ts + e = length items
     \<and> subseq (map pt_request_ids ts) (map (\<lambda>(l, ucm, vllm, rs). set rs) items)"
proof (induction items arbitrary: s)
  case Nil
  then show ?case by simp
next
  case (Cons it items)
  obtain l ucm vllm rs where it: "it = (l, ucm, vllm, rs)" by (cases it)
  obtain q s1 where q: "submit_layerwise_dump_task cf metas l ucm vllm rs s = (q, s1)"
    by (cases "submit_layerwise_dump_task cf metas l ucm vllm rs s")
  obtain x where x: "q = Inr x" and rest: "flush_loop cf metas items s1 = (Inr u, s')"
    using Cons.prems(1) it q by (cases q) auto
  from Cons.IH [OF rest] Cons.prems(2) obtain ts e where
    ih: "wk_pending (ly_worker s') = wk_pending (ly_worker s1) @ ts"
      "wk_metrics (ly_worker s') = wk_metrics (ly_worker s1) @ replicate e dump_error" "length ts + e = length items"
      "subseq (map pt_request_ids ts) (map (\<lambda>(l, ucm, vllm, rs). set rs) items)" by auto
  from submit_layerwise_dump_task_result [OF q [unfolded x]] Cons.prems(2) it
  consider (task) t where "pt_request_ids t = set rs" "wk_pending (ly_worker s1) = wk_pending (ly_worker s) @ [t]"
      "wk_metrics (ly_worker s1) = wk_metrics (ly_worker s)"
    | (error) "wk_pending (ly_worker s1) = wk_pending (ly_worker s)"
      "wk_metrics (ly_worker s1) = wk_metrics (ly_worker s) @ [dump_error]"
    by auto
  then show ?case
  proof cases
    case task
    then show ?thesis using ih it by (intro exI [of _ "t # ts"] exI [of _ e]) simp
  next
    case error
    then show ?thesis using ih it
      by (intro exI [of _ ts] exI [of _ "Suc e"]) (auto intro: list_emb_Cons)
  qed
qed

text \<open>
  C20: The layerwise connector keeps the direct connector's promise although it dumps layer by
  layer. In every state it can reach, a \<open>wait_for_save\<close> that returns hands over every dump that was
  deferred for a layer of multi-token prediction, in the order of the layers: each becomes a pending
  task of its requests or is counted as a submission error, and nothing stays deferred. And asking
  for finished requests does not raise, answers exactly the asynchronously dumping ones among
  them, and leaves none of their submitted per-layer dump tasks outstanding; the live events are
  those of the tasks still pending.
\<close>

theorem layer_dumps_are_drained:
  assumes "layer_reachable cf (new_layer_worker w use_manager is_mla) s"
    and "waits_forward clock (wc_store (lc_base cf))" and "fresh_handles clock (lc_base cf)"
    and "get_finished (lc_base cf) rs (ly_worker s) = (answer, s')"
    and "metas = (case bound of None \<Rightarrow> [] | Some metadata \<Rightarrow> cm_request_meta metadata)"
    and "layer_wait_for_save cf bound s = (saved, s2)"
    and "flush_deferred_mtp_dumps cf metas s = (flushed, s1)"
  shows "answer = Inr (if set rs \<inter> wk_async_dump_req_ids (ly_worker s) = {} then None
                       else Some (set rs \<inter> wk_async_dump_req_ids (ly_worker s)))
    \<and> (\<Union>t \<in> set (wk_pending s'). pt_request_ids t) \<inter> (set rs \<inter> wk_async_dump_req_ids (ly_worker s)) = {}
    \<and> pending_dump_requests (wk_rcm s') \<inter> (set rs \<inter> wk_async_dump_req_ids (ly_worker s)) = {}
    \<and> wk_events s' = {h. h \<noteq> 0 \<and> (\<exists>t \<in> set (wk_pending s'). pt_event_handle t = h)}
    \<and> (saved = Inr () \<longrightarrow> ly_deferred s2 = []
        \<and> ly_worker s2 = (poll_pending_dump_tasks (lc_base cf) (ly_worker s1))
            \<lparr>wk_async_dump_req_ids := wk_async_dump_req_ids (poll_pending_dump_tasks (lc_base cf) (ly_worker s1)) \<union> dump_requests metas\<rparr>
        \<and> (\<exists>ts e. wk_pending (ly_worker s1) = wk_pending (ly_worker s) @ ts
            \<and> wk_metrics (ly_worker s1) = wk_metrics (ly_worker s) @ replicate e dump_error
            \<and> length ts + e = length (ly_deferred s)
            \<and> subseq (map pt_request_ids ts) (map (\<lambda>(l, ucm, vllm, ids). set ids) (sort_key fst (ly_deferred s)))))"
proof -
  have inv: "worker_inv (lc_base cf) (ly_worker s)"
    using layer_reachable_ok [OF assms(1-3)] by (simp add: worker_ok_def)
  have af: "set (async_finished rs (ly_worker s)) = set rs \<inter> wk_async_dump_req_ids (ly_worker s)"
    by (auto simp: async_finished_def)
  then have em: "async_finished rs (ly_worker s) = [] \<longleftrightarrow> set rs \<inter> wk_async_dump_req_ids (ly_worker s) = {}"
    by (metis set_empty)
  note g = get_finished_result [OF inv assms(4)]
  have gone: "\<forall>t \<in> set (wk_pending s'). pt_request_ids t \<inter> set (async_finished rs (ly_worker s)) = {}"
    using g(2) by simp
  have events: "wk_events s' = {h. h \<noteq> 0 \<and> (\<exists>t \<in> set (wk_pending s'). pt_event_handle t = h)}"
    using tasks_invD(4) [OF g(4) [unfolded worker_inv_def]] .
  have save: "ly_deferred s2 = [] \<and> flushed = Inr ()
      \<and> ly_worker s2 = (poll_pending_dump_tasks (lc_base cf) (ly_worker s1))
            \<lparr>wk_async_dump_req_ids := wk_async_dump_req_ids (poll_pending_dump_tasks (lc_base cf) (ly_worker s1)) \<union> dump_requests metas\<rparr>"
    if "saved = Inr ()"
    using that assms(6,7) layer_wait_for_save_deferred [of cf bound s]
    by (auto simp: layer_wait_for_save_def Let_def simp flip: assms(5) split: sum.splits)
  have "\<forall>(l, ucm, vllm, ids) \<in> set (sort_key fst (ly_deferred s)). ids \<noteq> []"
    using layer_reachable_deferred [OF assms(1)] by (simp add: deferred_ok_def)
  note flush = flush_loop_result [OF _ this, of cf metas "s\<lparr>ly_deferred := []\<rparr>"]
  show ?thesis
    using finished_not_pending [OF g(4) gone] gone g(1) events save flush assms(7)
    unfolding af em flush_deferred_mtp_dumps_def by (intro conjI impI) (auto simp del: Int_iff)
qed

text \<open>Two layers over the counting store: \<open>n\<close> blocks at 100 per layer and 16 per block.\<close>

definition two_layers :: "'w worker_cfg \<Rightarrow> 'w layer_cfg" where
  "two_layers base =
     \<lparr>lc_base = base,
      lc_extract_layers = (\<lambda>vs. Inr [map (\<lambda>v. [of_nat (16 * v)]) vs, map (\<lambda>v. [of_nat (100 + 16 * v)]) vs]),
      lc_layer_name_to_id = [(''l0'', 0), (''l1'', 1)], lc_layer_ids = [0, 1], lc_first_layer_id = 0,
      lc_mtp_range = Some (1, 2)\<rparr>"

definition saved_layers :: "nat layer_worker" where
  "saved_layers = snd (layer_wait_for_save (two_layers counting_cfg) (Some demo_step)
     (snd (save_kv_layer (two_layers counting_cfg) (Some demo_step) ''l0'' (new_layer_worker 0 True False))))"

definition dumped_layer :: "nat layer_worker" where
  "dumped_layer = snd (save_kv_layer (two_layers counting_cfg) (Some demo_step) ''l0'' (new_layer_worker 0 True False))"

lemma counting_waits: "lc_base (two_layers counting_cfg) = counting_cfg" "waits_forward id (wc_store counting_cfg)"
  using counting_promises(1) by (simp_all add: two_layers_def counting_cfg_def)

lemma dumped_layer_reachable: "layer_reachable (two_layers counting_cfg) (new_layer_worker 0 True False) dumped_layer"
  unfolding dumped_layer_def by (rule layer_reachable.step [OF layer_reachable.start layer_step.layer_saved])

lemma dumped_layer_fields: "wk_async_dump_req_ids (ly_worker dumped_layer) = {}" "ly_deferred dumped_layer = []"
  by (simp_all add: dumped_layer_def save_kv_layer_def two_layers_def counting_cfg_def demo_step_def new_layer_worker_def new_worker_def
      py_key_def rank_scoped_ids_def is_mtp_layer_def submit_layerwise_dump_task_def layer_dump_blocks_def Let_def
      py_wrap_index_def submit_dump_task_def get_dump_event_handle_def get_event_handle_def submit_dump_def counting_store_def)

lemma saved_layers_async: "wk_async_dump_req_ids (ly_worker saved_layers) = {''r''}"
proof -
  have "worker_inv counting_cfg (ly_worker dumped_layer)"
    using layer_reachable_ok [OF dumped_layer_reachable, unfolded counting_waits(1), OF counting_waits(2) counting_promises(2)]
    by (simp add: worker_ok_def)
  then have "worker_inv counting_cfg (ly_worker (dumped_layer\<lparr>ly_deferred := []\<rparr>))" by simp
  from poll_inv(3) [OF this] show ?thesis
    by (simp add: saved_layers_def dumped_layer_def [symmetric] layer_wait_for_save_def flush_deferred_mtp_dumps_def
        dumped_layer_fields demo_step_dumps counting_waits(1) Let_def)
qed

text \<open>Then the second layer, which is one of multi-token prediction, is saved as well.\<close>

definition deferred_layer :: "nat layer_worker" where
  "deferred_layer = snd (save_kv_layer (two_layers counting_cfg) (Some demo_step) ''l1'' saved_layers)"

lemma deferred_layer_fields:
  "ly_worker deferred_layer = ly_worker saved_layers" "ly_deferred deferred_layer = [(1, [''b'', ''c''], [6, 7], [''r''])]"
proof -
  have "ly_deferred saved_layers = []" unfolding saved_layers_def by (rule layer_wait_for_save_deferred)
  then show "ly_worker deferred_layer = ly_worker saved_layers" "ly_deferred deferred_layer = [(1, [''b'', ''c''], [6, 7], [''r''])]"
    by (simp_all add: deferred_layer_def save_kv_layer_def two_layers_def counting_cfg_def demo_step_def py_key_def
        rank_scoped_ids_def is_mtp_layer_def Let_def)
qed

lemma deferred_layer_saves:
  "fst (layer_wait_for_save (two_layers counting_cfg) (Some demo_step) deferred_layer) = Inr ()"
proof -
  have "\<exists>v. submit_layerwise_dump_task (two_layers counting_cfg) (cm_request_meta demo_step) 1 [''b'', ''c''] [6, 7] [''r''] s = (Inr (), v)" for s
    by (auto simp: submit_layerwise_dump_task_def layer_dump_blocks_def demo_step_def py_key_def two_layers_def Let_def
        split: sum.split prod.split option.split)
  then obtain v where "submit_layerwise_dump_task (two_layers counting_cfg) (cm_request_meta demo_step) 1 [''b'', ''c''] [6, 7] [''r'']
      (deferred_layer\<lparr>ly_deferred := []\<rparr>) = (Inr (), v)" by blast
  then show ?thesis
    by (simp add: layer_wait_for_save_def flush_deferred_mtp_dumps_def deferred_layer_fields Let_def)
qed

theorem layer_dumps_are_drained_witness:
  "fst (get_finished counting_cfg [''r'', ''q''] (ly_worker deferred_layer)) = Inr (Some {''r''})
   \<and> (\<Union>t \<in> set (wk_pending (snd (get_finished counting_cfg [''r'', ''q''] (ly_worker deferred_layer)))). pt_request_ids t) \<inter> {''r''} = {}
   \<and> (\<exists>ts e. wk_pending (ly_worker (snd (flush_deferred_mtp_dumps (two_layers counting_cfg) (cm_request_meta demo_step) deferred_layer)))
          = wk_pending (ly_worker deferred_layer) @ ts \<and> length ts + e = 1)"
proof -
  have "layer_reachable (two_layers counting_cfg) (new_layer_worker 0 True False) saved_layers"
    unfolding saved_layers_def dumped_layer_def [symmetric]
    by (rule layer_reachable.step [OF dumped_layer_reachable layer_step.saved])
  from layer_reachable.step [OF this layer_step.layer_saved]
  have reach: "layer_reachable (two_layers counting_cfg) (new_layer_worker 0 True False) deferred_layer"
    by (simp add: deferred_layer_def)
  have g: "get_finished counting_cfg [''r'', ''q''] (ly_worker deferred_layer)
      = (fst (get_finished counting_cfg [''r'', ''q''] (ly_worker deferred_layer)), snd (get_finished counting_cfg [''r'', ''q''] (ly_worker deferred_layer)))"
    by simp
  have l: "layer_wait_for_save (two_layers counting_cfg) (Some demo_step) deferred_layer
      = (Inr (), snd (layer_wait_for_save (two_layers counting_cfg) (Some demo_step) deferred_layer))"
    using deferred_layer_saves by (metis prod.collapse)
  from layer_dumps_are_drained [OF reach, unfolded counting_waits(1), OF counting_waits(2) counting_promises(2) g refl l surjective_pairing]
  show ?thesis by (auto simp: saved_layers_async deferred_layer_fields Int_insert_left)
qed

end
