(* ===== verification/Layer_Loads.thy ===== *)
theory Layer_Loads
  imports Layer_Dumps
begin

text \<open>
  The loads of the layerwise connector: what a store records of the transfers it was asked for
  and of those that completed, the progress each call of a forward pass makes, and that a pass
  over all layers returns with every request loaded or reported as failed.
\<close>

section \<open>Every layer is loaded\<close>

text \<open>
  What a store records of its transfers: \<open>issued w t ids shards ptrs\<close> says that task \<open>t\<close> was
  handed out for this transfer, \<open>finished w t\<close> that it completed. Both are facts about the
  world that later calls do not undo.
\<close>

definition steady ::
  "('w \<Rightarrow> nat \<Rightarrow> bytes list \<Rightarrow> nat list \<Rightarrow> u64 list list \<Rightarrow> bool) \<Rightarrow> ('w \<Rightarrow> nat \<Rightarrow> bool) \<Rightarrow> 'w \<Rightarrow> 'w \<Rightarrow> bool" where
  "steady issued finished w w' \<longleftrightarrow>
     (\<forall>t ids shards ptrs. issued w t ids shards ptrs \<longrightarrow> issued w' t ids shards ptrs)
     \<and> (\<forall>t. finished w t \<longrightarrow> finished w' t)"

definition load_contract ::
  "('w \<Rightarrow> nat \<Rightarrow> bytes list \<Rightarrow> nat list \<Rightarrow> u64 list list \<Rightarrow> bool) \<Rightarrow> ('w \<Rightarrow> nat \<Rightarrow> bool) \<Rightarrow> 'w kv_store \<Rightarrow> bool" where
  "load_contract issued finished store \<longleftrightarrow>
     (\<forall>w ids shards ptrs t w'. st_load_data store w ids shards ptrs = (Inr t, w') \<longrightarrow> issued w' t ids shards ptrs)
     \<and> (\<forall>w t w'. st_wait store w t = (Inr (), w') \<longrightarrow> finished w' t)
     \<and> (\<forall>w ids shards ptrs. steady issued finished w (snd (st_load_data store w ids shards ptrs)))
     \<and> (\<forall>w t. steady issued finished w (snd (st_wait store w t)))"

text \<open>The other calls between two layers, which dump, leave the record of the loads alone too.\<close>

definition dump_contract ::
  "('w \<Rightarrow> nat \<Rightarrow> bytes list \<Rightarrow> nat list \<Rightarrow> u64 list list \<Rightarrow> bool) \<Rightarrow> ('w \<Rightarrow> nat \<Rightarrow> bool) \<Rightarrow> 'w worker_cfg \<Rightarrow> bool" where
  "dump_contract issued finished cf \<longleftrightarrow>
     (\<forall>w ids shards ptrs h. steady issued finished w (snd (st_dump_data (wc_store cf) w ids shards ptrs h)))
     \<and> (\<forall>w. steady issued finished w (snd (dv_new_event (wc_device cf) w)))
     \<and> (\<forall>w. steady issued finished w (dv_sync (wc_device cf) w))"

lemma steady_refl [simp]: "steady i f w w"
  by (simp add: steady_def)

lemma steady_trans: "steady i f w v \<Longrightarrow> steady i f v u \<Longrightarrow> steady i f w u"
  by (simp add: steady_def)

lemma steadyD:
  "steady i f w v \<Longrightarrow> i w t ids shards ptrs \<Longrightarrow> i v t ids shards ptrs"
  "steady i f w v \<Longrightarrow> f w t \<Longrightarrow> f v t"
  by (simp_all add: steady_def)

lemma load_contractD:
  assumes "load_contract i f store"
  shows "st_load_data store w ids shards ptrs = (Inr t, w') \<Longrightarrow> i w' t ids shards ptrs"
    and "st_wait store w t = (Inr (), w') \<Longrightarrow> f w' t"
    and "steady i f w (snd (st_load_data store w ids shards ptrs))"
    and "steady i f w (snd (st_wait store w t))"
  using assms unfolding load_contract_def by blast+

lemma submit_load_issued:
  assumes "submit_load m store w ctx ids shards ptrs = (r, m', w')" and "load_contract i f store"
  shows "steady i f w w'" and "r = Inr t \<Longrightarrow> i w' t ids shards ptrs"
proof -
  obtain q v where q: "st_load_data store w ids shards ptrs = (q, v)" by (cases "st_load_data store w ids shards ptrs")
  with assms(1) have v: "w' = v" and r: "r = Inr t \<Longrightarrow> q = Inr t"
    by (auto simp: submit_load_def Let_def split: sum.splits)
  show "steady i f w w'" using load_contractD(3) [OF assms(2), of w ids shards ptrs] q v by simp
  show "i w' t ids shards ptrs" if "r = Inr t"
    using load_contractD(1) [OF assms(2)] q v r [OF that] by simp
qed

lemma wait_load_finished:
  assumes "wait_load m w t = (r, m', w')" and "load_contract i f store"
    and "\<forall>(k, st, c) \<in> set (rc_load_contexts m). st = store"
  shows "steady i f w w'" and "r = Inr u \<Longrightarrow> f w' t" and "rc_load_contexts m' = dict_pop t (rc_load_contexts m)"
proof -
  have "(steady i f w w' \<and> (r = Inr u \<longrightarrow> f w' t)) \<and> rc_load_contexts m' = dict_pop t (rc_load_contexts m)"
  proof (cases "dict_get (rc_load_contexts m) t")
    case None
    then have "dict_pop t (rc_load_contexts m) = rc_load_contexts m"
      by (metis map_of_eq_None_iff AList.delete_id)
    with None assms(1) show ?thesis by (auto simp: wait_load_def)
  next
    case (Some p)
    obtain st c where p: "p = (st, c)" by (cases p)
    have "(t, st, c) \<in> set (rc_load_contexts m)" using Some p by (auto dest: map_of_SomeD)
    with assms(3) have st: "st = store" by auto
    obtain q v where q: "st_wait store w t = (q, v)" by (cases "st_wait store w t")
    from assms(1) Some p st q have "w' = v" "r = Inr u \<longrightarrow> q = Inr ()"
      and "rc_load_contexts m' = dict_pop t (rc_load_contexts m)"
      by (auto simp: wait_load_def Let_def mark_load_context_missing_fields split: sum.splits if_splits)
    with load_contractD(2,4) [OF assms(2), of w t] q show ?thesis by auto
  qed
  then show "steady i f w w'" and "r = Inr u \<Longrightarrow> f w' t" and "rc_load_contexts m' = dict_pop t (rc_load_contexts m)"
    by blast+
qed

text \<open>What every step of a pass keeps while it makes progress.\<close>

definition contexts_of :: "'w kv_store \<Rightarrow> 'w worker \<Rightarrow> bool" where
  "contexts_of store s \<longleftrightarrow> (\<forall>(k, st, c) \<in> set (rc_load_contexts (wk_rcm s)). st = store)"

definition progress ::
  "('w \<Rightarrow> nat \<Rightarrow> bytes list \<Rightarrow> nat list \<Rightarrow> u64 list list \<Rightarrow> bool) \<Rightarrow> ('w \<Rightarrow> nat \<Rightarrow> bool) \<Rightarrow> 'w kv_store
     \<Rightarrow> 'w layer_worker \<Rightarrow> 'w layer_worker \<Rightarrow> bool" where
  "progress i f store s s' \<longleftrightarrow>
     steady i f (wk_world (ly_worker s)) (wk_world (ly_worker s'))
     \<and> ly_failure_req_ids s \<subseteq> ly_failure_req_ids s'
     \<and> ly_request_data s' = ly_request_data s \<and> ly_need_load s' = ly_need_load s
     \<and> (ly_failure_req_ids s \<subseteq> wm_load_failed_reqs (wk_meta (ly_worker s))
          \<longrightarrow> ly_failure_req_ids s' \<subseteq> wm_load_failed_reqs (wk_meta (ly_worker s')))
     \<and> (contexts_of store (ly_worker s) \<longrightarrow> contexts_of store (ly_worker s'))"

lemma progress_refl [simp]: "progress i f store s s"
  by (simp add: progress_def)

lemma progress_trans: "progress i f store s t \<Longrightarrow> progress i f store t u \<Longrightarrow> progress i f store s u"
  by (auto simp: progress_def intro: steady_trans)

lemma progress_data: "progress i f store s s' \<Longrightarrow> ly_request_data s' = ly_request_data s"
  and progress_need: "progress i f store s s' \<Longrightarrow> ly_need_load s' = ly_need_load s"
  and progress_failed: "progress i f store s s' \<Longrightarrow> ly_failure_req_ids s \<subseteq> ly_failure_req_ids s'"
  and progress_steady: "progress i f store s s' \<Longrightarrow> steady i f (wk_world (ly_worker s)) (wk_world (ly_worker s'))"
  and progress_contexts: "progress i f store s s' \<Longrightarrow> contexts_of store (ly_worker s) \<Longrightarrow> contexts_of store (ly_worker s')"
  by (simp_all add: progress_def)

definition layer_issued ::
  "('w \<Rightarrow> nat \<Rightarrow> bytes list \<Rightarrow> nat list \<Rightarrow> u64 list list \<Rightarrow> bool) \<Rightarrow> 'w \<Rightarrow> layer_request \<Rightarrow> nat \<Rightarrow> nat \<Rightarrow> nat \<Rightarrow> bool" where
  "layer_issued i w d l row t \<longleftrightarrow>
     row < length (lr_total_ptrs d)
     \<and> i w t (lr_store_block_ids d) (replicate (length (lr_ucm_block_ids d)) l) (lr_total_ptrs d ! row)"

lemma layer_load_failed_progress:
  assumes "layer_load_failed mt metas r s = (q, s')"
  shows "progress i f store s s' \<and> ly_load_tasks s' = ly_load_tasks s \<and> (q = Inr () \<longrightarrow> r \<in> ly_failure_req_ids s')"
  using assms
  by (auto simp: layer_load_failed_def progress_def load_failed_def record_load_error_def worker_stats_def
      mark_failed_def contexts_of_def Let_def split: option.splits)

lemma submit_layer_load_progress:
  assumes "submit_layer_load cf l row d s = (q, s')" and "load_contract i f (wc_store (lc_base cf))"
  shows "progress i f (wc_store (lc_base cf)) s s' \<and> ly_load_tasks s' = ly_load_tasks s
    \<and> (q = Inr t \<longrightarrow> layer_issued i (wk_world (ly_worker s')) d l row t)"
proof (cases "py_index (lr_total_ptrs d) row")
  case (Inl e)
  with assms(1) show ?thesis by (auto simp: submit_layer_load_def)
next
  case (Inr ptrs)
  then have ptrs: "row < length (lr_total_ptrs d)" "ptrs = lr_total_ptrs d ! row"
    by (auto simp: py_index_def split: if_splits)
  obtain r rcm' w' where l: "submit_load (wk_rcm (ly_worker s)) (wc_store (lc_base cf)) (wk_world (ly_worker s))
      [(lr_request_id d, lr_ucm_block_ids d)] (lr_store_block_ids d)
      (replicate (length (lr_ucm_block_ids d)) l) ptrs = (r, rcm', w')" by (metis prod_cases3)
  have qs: "q = r" "s' = s\<lparr>ly_worker := (ly_worker s)\<lparr>wk_rcm := rcm', wk_world := w'\<rparr>\<rparr>"
    using assms(1) Inr l by (simp_all add: submit_layer_load_def)
  have ctx: "contexts_of (wc_store (lc_base cf)) (ly_worker s)
      \<longrightarrow> (\<forall>(k, st, c) \<in> set (rc_load_contexts rcm'). st = wc_store (lc_base cf))"
    using l dict_in_set_update
    by (fastforce simp: submit_load_def Let_def contexts_of_def mark_load_context_missing_fields
        split: sum.splits prod.splits if_splits)
  show ?thesis
    using submit_load_issued(1) [OF l assms(2)] submit_load_issued(2) [OF l assms(2), of t] ptrs ctx
    by (auto simp: qs progress_def layer_issued_def contexts_of_def)
qed

lemma submit_layer_loads_progress:
  "submit_layer_loads cf metas l row ds s = (Inr (), s') \<Longrightarrow> load_contract i f (wc_store (lc_base cf))
     \<Longrightarrow> distinct (map lr_request_id ds)
     \<Longrightarrow> progress i f (wc_store (lc_base cf)) s s'
       \<and> (\<forall>d \<in> set ds. lr_request_id d \<in> ly_failure_req_ids s'
            \<or> (\<exists>t. dict_get (dict_get_or (ly_load_tasks s') l []) (lr_request_id d) = Some t
                 \<and> layer_issued i (wk_world (ly_worker s')) d l row t))
       \<and> (\<forall>r. r \<notin> lr_request_id ` set ds \<longrightarrow>
            dict_get (dict_get_or (ly_load_tasks s') l []) r = dict_get (dict_get_or (ly_load_tasks s) l []) r)"
proof (induction ds arbitrary: s)
  case Nil
  then show ?case by simp
next
  case (Cons d ds)
  let ?st = "wc_store (lc_base cf)" and ?r = "lr_request_id d"
  show ?case
  proof (cases "?r \<in> ly_failure_req_ids s")
    case True
    with Cons.prems(1) have "submit_layer_loads cf metas l row ds s = (Inr (), s')" by simp
    from Cons.IH [OF this Cons.prems(2)] Cons.prems(3) have ih:
      "progress i f ?st s s' \<and> (\<forall>d \<in> set ds. lr_request_id d \<in> ly_failure_req_ids s'
            \<or> (\<exists>t. dict_get (dict_get_or (ly_load_tasks s') l []) (lr_request_id d) = Some t
                 \<and> layer_issued i (wk_world (ly_worker s')) d l row t))
       \<and> (\<forall>r. r \<notin> lr_request_id ` set ds \<longrightarrow>
            dict_get (dict_get_or (ly_load_tasks s') l []) r = dict_get (dict_get_or (ly_load_tasks s) l []) r)" by simp
    moreover have "?r \<in> ly_failure_req_ids s'" using ih True progress_failed by blast
    ultimately show ?thesis by simp
  next
    case False
    obtain q s1 where q: "submit_layer_load cf l row d s = (q, s1)" by (cases "submit_layer_load cf l row d s")
    show ?thesis
    proof (cases q)
      case (Inr task)
      note one = submit_layer_load_progress [OF q Cons.prems(2), of task]
      let ?s2 = "s1\<lparr>ly_load_tasks := dict_set l (dict_set ?r task (dict_get_or (ly_load_tasks s1) l [])) (ly_load_tasks s1)\<rparr>"
      have p2: "progress i f ?st s ?s2" using one by (simp add: progress_def)
      have "submit_layer_loads cf metas l row ds ?s2 = (Inr (), s')" using Cons.prems(1) False q Inr by simp
      note ih = Cons.IH [OF this Cons.prems(2)]
      have d: "distinct (map lr_request_id ds)" "?r \<notin> lr_request_id ` set ds" using Cons.prems(3) by simp_all
      note ih = ih [OF d(1)]
      have "dict_get (dict_get_or (ly_load_tasks s') l []) ?r = Some task"
        using ih d(2) by simp
      moreover have "layer_issued i (wk_world (ly_worker s')) d l row task"
        using one Inr ih steadyD(1) [OF progress_steady] by (fastforce simp: layer_issued_def)
      moreover have "dict_get (dict_get_or (ly_load_tasks s') l []) r = dict_get (dict_get_or (ly_load_tasks s) l []) r"
        if "r \<notin> lr_request_id ` set (d # ds)" for r
        using ih that one by simp
      moreover have "progress i f ?st s s'" using progress_trans [OF p2] ih by blast
      ultimately show ?thesis using ih by auto
    next
      case (Inl e)
      note one = submit_layer_load_progress [OF q Cons.prems(2), of 0]
      obtain p s2 where p: "layer_load_failed ''connector_load_submit_errors_total'' metas ?r s1 = (p, s2)"
        by (cases "layer_load_failed ''connector_load_submit_errors_total'' metas ?r s1")
      have pu: "p = Inr ()" using Cons.prems(1) False q Inl p by (cases p) simp_all
      note two = layer_load_failed_progress [OF p, of i f ?st]
      have "submit_layer_loads cf metas l row ds s2 = (Inr (), s')" using Cons.prems(1) False q Inl p pu by simp
      note ih = Cons.IH [OF this Cons.prems(2)]
      have d: "distinct (map lr_request_id ds)" using Cons.prems(3) by simp
      note ih = ih [OF d]
      have "?r \<in> ly_failure_req_ids s'" using two pu ih progress_failed by blast
      moreover have "progress i f ?st s s'" using one two ih progress_trans by blast
      moreover have "dict_get (dict_get_or (ly_load_tasks s') l []) r = dict_get (dict_get_or (ly_load_tasks s) l []) r"
        if "r \<notin> lr_request_id ` set (d # ds)" for r
        using ih that one two by simp
      ultimately show ?thesis using ih by auto
    qed
  qed
qed

lemma wait_layer_tasks_progress:
  "wait_layer_tasks metas items s = (Inr (), s') \<Longrightarrow> load_contract i f store \<Longrightarrow> contexts_of store (ly_worker s)
     \<Longrightarrow> progress i f store s s' \<and> ly_load_tasks s' = ly_load_tasks s
       \<and> (\<forall>(r, t) \<in> set items. r \<in> ly_failure_req_ids s' \<or> f (wk_world (ly_worker s')) t)"
proof (induction items arbitrary: s)
  case Nil
  then show ?case by simp
next
  case (Cons it items)
  obtain r t where it: "it = (r, t)" by (cases it)
  obtain q rcm' w' where q: "wait_load (wk_rcm (ly_worker s)) (wk_world (ly_worker s)) t = (q, rcm', w')"
    by (metis prod_cases3)
  let ?s1 = "s\<lparr>ly_worker := (ly_worker s)\<lparr>wk_rcm := rcm', wk_world := w'\<rparr>\<rparr>"
  note w = wait_load_finished [OF q Cons.prems(2) Cons.prems(3) [unfolded contexts_of_def]]
  have c1: "contexts_of store (ly_worker ?s1)"
    using Cons.prems(3) by (auto simp: contexts_of_def w(3) dest!: dict_set_pop_values)
  have one: "progress i f store s ?s1" using w(1) c1 by (simp add: progress_def)
  show ?case
  proof (cases q)
    case (Inr u)
    have "wait_layer_tasks metas items ?s1 = (Inr (), s')" using Cons.prems(1) it q Inr by simp
    note ih = Cons.IH [OF this Cons.prems(2) c1]
    have "f (wk_world (ly_worker s')) t"
      using w(2) [OF Inr] ih steadyD(2) [OF progress_steady] by fastforce
    with ih progress_trans [OF one] it show ?thesis by auto
  next
    case (Inl e)
    obtain p s2 where p: "layer_load_failed ''connector_load_wait_errors_total'' metas r ?s1 = (p, s2)"
      by (cases "layer_load_failed ''connector_load_wait_errors_total'' metas r ?s1")
    have pu: "p = Inr ()" using Cons.prems(1) it q Inl p by (cases p) simp_all
    note two = layer_load_failed_progress [OF p, of i f store]
    have "wait_layer_tasks metas items s2 = (Inr (), s')" using Cons.prems(1) it q Inl p pu by simp
    note ih = Cons.IH [OF this Cons.prems(2)]
    have "contexts_of store (ly_worker s2)" using two c1 progress_contexts by blast
    note ih = ih [OF this]
    have "r \<in> ly_failure_req_ids s'" using two pu ih progress_failed by blast
    moreover have "progress i f store s s'" using one two ih progress_trans by blast
    ultimately show ?thesis using ih two it by auto
  qed
qed

text \<open>A save between two layers adds dumps; the loads and what failed of them are untouched.\<close>

lemma dump_contractD:
  assumes "dump_contract i f cf"
  shows "steady i f w (snd (st_dump_data (wc_store cf) w ids shards ptrs h))"
    and "steady i f w (snd (dv_new_event (wc_device cf) w))"
    and "steady i f w (dv_sync (wc_device cf) w)"
  using assms unfolding dump_contract_def by blast+

lemma get_dump_event_handle_steady:
  assumes "dump_contract i f cf"
  shows "steady i f w (snd (snd (get_dump_event_handle (wc_device cf) b ev w)))"
proof (cases b)
  case True
  obtain o' v where v: "dv_new_event (wc_device cf) w = (o', v)" by (cases "dv_new_event (wc_device cf) w")
  have one: "steady i f w v" using dump_contractD(2) [OF assms, of w] v by simp
  note two = steady_trans [OF one dump_contractD(3) [OF assms]]
  show ?thesis
    using True v one two by (cases o') (simp_all add: get_dump_event_handle_def get_event_handle_def)
next
  case False
  with dump_contractD(3) [OF assms, of w] show ?thesis by (simp add: get_dump_event_handle_def)
qed

lemma submit_dump_task_steady:
  assumes "dump_contract i f cf"
  shows "steady i f (wk_world s) (wk_world (snd (submit_dump_task cf reqs c ids shards ptrs s)))"
    and "rc_load_contexts (wk_rcm (snd (submit_dump_task cf reqs c ids shards ptrs s))) = rc_load_contexts (wk_rcm s)"
proof -
  obtain h ev w where h: "get_dump_event_handle (wc_device cf) (wc_enable_event_sync cf) (wk_events s) (wk_world s) = (h, ev, w)"
    by (metis prod_cases3)
  obtain q v where q: "st_dump_data (wc_store cf) w ids shards ptrs h = (q, v)"
    by (cases "st_dump_data (wc_store cf) w ids shards ptrs h")
  have "steady i f (wk_world s) w"
    using get_dump_event_handle_steady [OF assms, where w = "wk_world s" and b = "wc_enable_event_sync cf" and ev = "wk_events s"] h
    by simp
  moreover have "steady i f w v"
    using dump_contractD(1) [OF assms, of w ids shards ptrs h] q by simp
  ultimately have "steady i f (wk_world s) v" by (rule steady_trans)
  with h q show "steady i f (wk_world s) (wk_world (snd (submit_dump_task cf reqs c ids shards ptrs s)))"
    and "rc_load_contexts (wk_rcm (snd (submit_dump_task cf reqs c ids shards ptrs s))) = rc_load_contexts (wk_rcm s)"
    by (cases q; simp add: submit_dump_task_def submit_dump_def record_dump_failure_def)+
qed

definition loads_untouched :: "'w layer_worker \<Rightarrow> 'w layer_worker \<Rightarrow> bool" where
  "loads_untouched s s' \<longleftrightarrow> ly_load_tasks s' = ly_load_tasks s \<and> ly_failure_req_ids s' = ly_failure_req_ids s"

lemma submit_dump_progress:
  assumes "submit_dump_task (lc_base cf) reqs c ids shards ptrs (ly_worker s) = (q, v)" and "dump_contract i f (lc_base cf)"
  shows "progress i f store s (s\<lparr>ly_worker := v\<rparr>)"
  using submit_dump_task_steady [OF assms(2), where s = "ly_worker s" and reqs = reqs and c = c and ids = ids and shards = shards and ptrs = ptrs]
    submit_dump_task_frame(2) [of "lc_base cf" reqs c ids shards ptrs "ly_worker s"] assms(1)
  by (simp add: progress_def contexts_of_def)

lemma layer_fields_progress:
  "progress i f store s (s\<lparr>ly_dump_total_ptrs := p\<rparr>)" "progress i f store s (s\<lparr>ly_is_save := b\<rparr>)"
  "progress i f store s (s\<lparr>ly_deferred := d\<rparr>)" "progress i f store s (layer_stats ms s)"
  "progress i f store s (s\<lparr>ly_load_tasks := ts\<rparr>)"
  by (simp_all add: progress_def contexts_of_def layer_stats_def worker_stats_def)

lemma submit_layerwise_dump_task_progress:
  assumes "dump_contract i f (lc_base cf)"
  shows "progress i f store s (snd (submit_layerwise_dump_task cf metas l ucm vllm rs s))
    \<and> loads_untouched s (snd (submit_layerwise_dump_task cf metas l ucm vllm rs s))"
proof -
  have sub: "progress i f store s (s\<lparr>ly_dump_total_ptrs := p, ly_worker := v\<rparr>)"
    if "submit_dump_task (lc_base cf) reqs c ids shards ptrs (ly_worker s) = (q, v)" for reqs c ids shards ptrs q v p
    using progress_trans [OF layer_fields_progress(1) [of i f store s p]]
      submit_dump_progress [where s = "s\<lparr>ly_dump_total_ptrs := p\<rparr>", OF _ assms, of reqs c ids shards ptrs q v] that
    by simp
  have st: "progress i f store s (layer_stats ms (s\<lparr>ly_dump_total_ptrs := p, ly_worker := v\<rparr>))"
    if "submit_dump_task (lc_base cf) reqs c ids shards ptrs (ly_worker s) = (q, v)" for reqs c ids shards ptrs q v p ms
    by (rule progress_trans [OF sub [OF that] layer_fields_progress(4)])
  have st0: "progress i f store s (layer_stats ms (s\<lparr>ly_dump_total_ptrs := p\<rparr>))" for p ms
    by (rule progress_trans [OF layer_fields_progress(1) layer_fields_progress(4)])
  show ?thesis
    using sub st st0
    by (auto simp: submit_layerwise_dump_task_def loads_untouched_def Let_def
        split: sum.split prod.split option.split) (simp_all add: layer_stats_def)
qed

lemma save_kv_layer_progress:
  assumes "dump_contract i f (lc_base cf)"
  shows "progress i f store s (snd (save_kv_layer cf bound name s)) \<and> loads_untouched s (snd (save_kv_layer cf bound name s))"
proof -
  have sub: "progress i f store s (snd (submit_layerwise_dump_task cf metas l ucm vllm rs (s\<lparr>ly_is_save := True\<rparr>)))
    \<and> loads_untouched s (snd (submit_layerwise_dump_task cf metas l ucm vllm rs (s\<lparr>ly_is_save := True\<rparr>)))"
    for metas l ucm vllm rs
    using progress_trans [OF layer_fields_progress(2)]
      submit_layerwise_dump_task_progress [OF assms, where store = store and s = "s\<lparr>ly_is_save := True\<rparr>"
        and metas = metas and l = l and ucm = ucm and vllm = vllm and rs = rs]
    by (auto simp: loads_untouched_def)
  have def: "progress i f store s (s\<lparr>ly_is_save := True, ly_deferred := d\<rparr>)" for d
    using progress_trans [OF layer_fields_progress(2) [of i f store s True] layer_fields_progress(3)] by simp
  have un: "loads_untouched s s" "loads_untouched s (s\<lparr>ly_is_save := True, ly_deferred := d\<rparr>)" for d
    by (simp_all add: loads_untouched_def)
  show ?thesis
    using sub def un by (auto simp: save_kv_layer_def Let_def split: option.split sum.split prod.split)
qed

subsection \<open>A forward pass\<close>

datatype layer_event = WaitLayer string | SaveLayer string

fun run_pass :: "'w layer_cfg \<Rightarrow> connector_meta \<Rightarrow> layer_event list \<Rightarrow> 'w layer_worker \<Rightarrow> unit result \<times> 'w layer_worker" where
  "run_pass cf md [] s = (Inr (), s)"
| "run_pass cf md (WaitLayer n # es) s =
     (case wait_for_layer_load cf (Some md) n s of
        (Inl e, s') \<Rightarrow> (Inl e, s') | (Inr _, s') \<Rightarrow> run_pass cf md es s')"
| "run_pass cf md (SaveLayer n # es) s =
     (case save_kv_layer cf (Some md) n s of
        (Inl e, s') \<Rightarrow> (Inl e, s') | (Inr _, s') \<Rightarrow> run_pass cf md es s')"

fun waited_layers :: "layer_event list \<Rightarrow> string list" where
  "waited_layers [] = []"
| "waited_layers (WaitLayer n # es) = n # waited_layers es"
| "waited_layers (SaveLayer n # es) = waited_layers es"

text \<open>
  After \<open>j\<close> waits, a request that has not failed has its first \<open>j\<close> layers loaded, and the
  load of the next one, where there is a next one, is under way.
\<close>

definition layer_loaded ::
  "('w \<Rightarrow> nat \<Rightarrow> bytes list \<Rightarrow> nat list \<Rightarrow> u64 list list \<Rightarrow> bool) \<Rightarrow> ('w \<Rightarrow> nat \<Rightarrow> bool) \<Rightarrow> 'w layer_cfg
     \<Rightarrow> 'w \<Rightarrow> layer_request \<Rightarrow> nat \<Rightarrow> bool" where
  "layer_loaded i f cf w d k \<longleftrightarrow> (\<exists>t. layer_issued i w d (lc_first_layer_id cf + k) k t \<and> f w t)"

definition pass_inv where
  "pass_inv i f cf n j s \<longleftrightarrow>
     contexts_of (wc_store (lc_base cf)) (ly_worker s) \<and> ly_need_load s
     \<and> distinct (map lr_request_id (ly_request_data s))
     \<and> ly_failure_req_ids s \<subseteq> wm_load_failed_reqs (wk_meta (ly_worker s))
     \<and> (\<forall>d \<in> set (ly_request_data s). lr_request_id d \<in> ly_failure_req_ids s
          \<or> (\<forall>k < j. layer_loaded i f cf (wk_world (ly_worker s)) d k)
            \<and> (j < n \<longrightarrow> (\<exists>t. dict_get (dict_get_or (ly_load_tasks s) (lc_first_layer_id cf + j) []) (lr_request_id d) = Some t
                  \<and> layer_issued i (wk_world (ly_worker s)) d (lc_first_layer_id cf + j) j t)))"

lemma layer_issued_steady: "layer_issued i w d l row t \<Longrightarrow> steady i f w v \<Longrightarrow> layer_issued i v d l row t"
  by (auto simp: layer_issued_def dest: steadyD(1))

lemma layer_loaded_steady: "layer_loaded i f cf w d k \<Longrightarrow> steady i f w v \<Longrightarrow> layer_loaded i f cf v d k"
  by (auto simp: layer_loaded_def dest: layer_issued_steady steadyD(2))

lemma progress_subset:
  "progress i f store s s' \<Longrightarrow> ly_failure_req_ids s \<subseteq> wm_load_failed_reqs (wk_meta (ly_worker s))
     \<Longrightarrow> ly_failure_req_ids s' \<subseteq> wm_load_failed_reqs (wk_meta (ly_worker s'))"
  by (simp add: progress_def)

lemma pass_inv_untouched:
  assumes "pass_inv i f cf n j s" and p: "progress i f (wc_store (lc_base cf)) s s'" and "loads_untouched s s'"
  shows "pass_inv i f cf n j s'"
  using assms(1,3) layer_loaded_steady [OF _ progress_steady [OF p]] layer_issued_steady [OF _ progress_steady [OF p]]
    progress_subset [OF p]
  by (fastforce simp: pass_inv_def loads_untouched_def progress_data [OF p] progress_need [OF p]
      dest: progress_contexts [OF p])

lemma wait_for_layer_load_pass:
  assumes inv: "pass_inv i f cf n j s" and "j < n"
    and layers: "lc_layer_ids cf = [lc_first_layer_id cf..<lc_first_layer_id cf + n]"
    and name: "py_key (lc_layer_name_to_id cf) name = Inr (lc_first_layer_id cf + j)"
    and contract: "load_contract i f (wc_store (lc_base cf))"
    and run: "wait_for_layer_load cf (Some md) name s = (Inr (), s')"
  shows "pass_inv i f cf n (Suc j) s'"
proof -
  let ?st = "wc_store (lc_base cf)" and ?l = "lc_first_layer_id cf + j" and ?m = "cm_request_meta md"
  let ?tasks = "dict_get_or (ly_load_tasks s) ?l []"
  let ?s1 = "s\<lparr>ly_load_tasks := dict_pop ?l (ly_load_tasks s)\<rparr>"
  obtain q s2 where w: "wait_layer_tasks ?m ?tasks ?s1 = (q, s2)" by (cases "wait_layer_tasks ?m ?tasks ?s1")
  define sub where "sub = (if Suc ?l \<in> set (lc_layer_ids cf)
      then submit_layer_loads cf ?m (Suc ?l) (Suc j) (ly_request_data s2) s2 else (Inr (), s2))"
  obtain q3 s3 where sub3: "sub = (q3, s3)" by (cases sub)
  have need: "ly_need_load s" using inv by (simp add: pass_inv_def)
  have qs: "q = Inr ()"
    using run need name w by (cases q) (simp_all add: wait_for_layer_load_def Let_def)
  have run': "(case sub of (Inl e, s3) \<Rightarrow> (Inl e, s3)
      | (Inr _, s3) \<Rightarrow> (Inr (), layer_stats [MCount ''layerwise_wait_tasks_count'' (int (length ?tasks))] s3)) = (Inr (), s')"
    using run need name w qs by (simp add: wait_for_layer_load_def Let_def sub_def split: if_splits)
  then have qs: "q = Inr ()" "q3 = Inr ()"
    and s': "s' = layer_stats [MCount ''layerwise_wait_tasks_count'' (int (length ?tasks))] s3"
    using qs sub3 by (cases q3; simp)+
  have ctx1: "contexts_of ?st (ly_worker ?s1)" using inv by (simp add: pass_inv_def)
  have w1: "progress i f ?st ?s1 s2" and fin: "\<forall>(r, t) \<in> set ?tasks. r \<in> ly_failure_req_ids s2 \<or> f (wk_world (ly_worker s2)) t"
    using wait_layer_tasks_progress [OF w [unfolded qs] contract ctx1] by blast+
  have p2: "progress i f ?st s s2" by (rule progress_trans [OF layer_fields_progress(5) w1])
  have rd: "ly_request_data s2 = ly_request_data s" using progress_data [OF p2] .
  have dist: "distinct (map lr_request_id (ly_request_data s2))" using inv rd by (simp add: pass_inv_def)
  have p3: "progress i f ?st s2 s3"
    and nxt: "Suc j < n \<longrightarrow> (\<forall>d \<in> set (ly_request_data s2). lr_request_id d \<in> ly_failure_req_ids s3
            \<or> (\<exists>t. dict_get (dict_get_or (ly_load_tasks s3) (Suc ?l) []) (lr_request_id d) = Some t
                 \<and> layer_issued i (wk_world (ly_worker s3)) d (Suc ?l) (Suc j) t))"
    using sub3 layers \<open>j < n\<close> submit_layer_loads_progress [OF _ contract dist, of ?m "Suc ?l" "Suc j" s2 s3] qs
    by (auto simp: sub_def split: if_splits)
  note p4 = layer_fields_progress(4) [of i f ?st s3 "[MCount ''layerwise_wait_tasks_count'' (int (length ?tasks))]", folded s']
  note p23 = progress_trans [OF p3 p4] note p24 = progress_trans [OF p2 p23]
  have same: "ly_load_tasks s' = ly_load_tasks s3" "ly_failure_req_ids s' = ly_failure_req_ids s3"
      "wk_world (ly_worker s') = wk_world (ly_worker s3)"
    by (simp_all add: s' layer_stats_def worker_stats_def)
  have loaded: "layer_loaded i f cf (wk_world (ly_worker s')) d k"
    if "d \<in> set (ly_request_data s)" "lr_request_id d \<notin> ly_failure_req_ids s'" "k < Suc j" for d k
  proof -
    note d = that(1)
    have nf: "lr_request_id d \<notin> ly_failure_req_ids s" "lr_request_id d \<notin> ly_failure_req_ids s2"
      using that(2) progress_failed [OF p24] progress_failed [OF p23] by blast+
    show ?thesis
    proof (cases "k = j")
      case True
      obtain t where t: "dict_get ?tasks (lr_request_id d) = Some t" "layer_issued i (wk_world (ly_worker s)) d ?l j t"
        using inv nf(1) d \<open>j < n\<close> by (auto simp: pass_inv_def)
      have "(lr_request_id d, t) \<in> set ?tasks" using t(1) by (rule map_of_SomeD)
      with fin nf(2) have "f (wk_world (ly_worker s2)) t" by fastforce
      then have "f (wk_world (ly_worker s')) t" by (rule steadyD(2) [OF progress_steady [OF p23]])
      with layer_issued_steady [OF t(2) progress_steady [OF p24]] True show ?thesis
        by (auto simp: layer_loaded_def)
    next
      case False
      with inv that nf(1) have "layer_loaded i f cf (wk_world (ly_worker s)) d k" by (auto simp: pass_inv_def)
      then show ?thesis by (rule layer_loaded_steady [OF _ progress_steady [OF p24]])
    qed
  qed
  show ?thesis
    unfolding pass_inv_def progress_data [OF p24] progress_need [OF p24]
    using inv loaded nxt rd progress_contexts [OF p24] progress_subset [OF p24]
    by (auto simp: pass_inv_def same)
qed

lemma run_pass_inv:
  "run_pass cf md es s = (Inr (), s') \<Longrightarrow> pass_inv i f cf n j s \<Longrightarrow>
     lc_layer_ids cf = [lc_first_layer_id cf..<lc_first_layer_id cf + n] \<Longrightarrow>
     list_all2 (\<lambda>name l. py_key (lc_layer_name_to_id cf) name = Inr l)
       (waited_layers es) [lc_first_layer_id cf + j..<lc_first_layer_id cf + n] \<Longrightarrow>
     load_contract i f (wc_store (lc_base cf)) \<Longrightarrow> dump_contract i f (lc_base cf) \<Longrightarrow> j \<le> n \<Longrightarrow> pass_inv i f cf n n s'"
proof (induction cf md es s arbitrary: j rule: run_pass.induct)
  case (1 cf md s)
  then have "j = n" by (cases "j < n") auto
  with 1 show ?case by simp
next
  case (2 cf md name es s)
  obtain u s1 where w: "wait_for_layer_load cf (Some md) name s = (u, s1)" by (cases "wait_for_layer_load cf (Some md) name s")
  with 2(2) have u: "u = Inr ()" and run: "run_pass cf md es s1 = (Inr (), s')" by (auto split: sum.splits)
  have "j < n" using 2(5,8) by (cases "j < n") auto
  with 2(5) have "py_key (lc_layer_name_to_id cf) name = Inr (lc_first_layer_id cf + j)"
    and rest: "list_all2 (\<lambda>name l. py_key (lc_layer_name_to_id cf) name = Inr l)
       (waited_layers es) [lc_first_layer_id cf + Suc j..<lc_first_layer_id cf + n]"
    by (auto simp: upt_conv_Cons)
  from wait_for_layer_load_pass [OF 2(3) \<open>j < n\<close> 2(4) this(1) 2(6) w [unfolded u]]
  show ?case using 2(1) [OF w [symmetric] u run _ 2(4) rest 2(6,7)] \<open>j < n\<close> by simp
next
  case (3 cf md name es s)
  obtain u s1 where w: "save_kv_layer cf (Some md) name s = (u, s1)" by (cases "save_kv_layer cf (Some md) name s")
  with 3(2) have u: "u = Inr ()" and run: "run_pass cf md es s1 = (Inr (), s')" by (auto split: sum.splits)
  have "pass_inv i f cf n j s1"
    using pass_inv_untouched [OF 3(3)] save_kv_layer_progress [OF 3(7), of "wc_store (lc_base cf)" s "Some md" name] w by simp
  with 3 w u run show ?case by simp
qed

text \<open>The requests that load, as \<open>start_load_kv\<close> prepares them.\<close>

definition prepared :: "'w layer_cfg \<Rightarrow> req_id \<times> dispatch_meta \<Rightarrow> layer_request \<Rightarrow> bool" where
  "prepared cf p d \<longleftrightarrow>
     lr_request_id d = fst p \<and> lr_ucm_block_ids d = fst (dm_load (snd p))
     \<and> lr_store_block_ids d = rank_scoped_ids (wc_hasher (lc_base cf))
         (wc_tp_rank (lc_base cf) mod wc_tp_size (lc_base cf) = 0 \<or> wc_is_mla (lc_base cf)) (fst (dm_load (snd p)))
     \<and> lc_extract_layers cf (snd (dm_load (snd p))) = Inr (lr_total_ptrs d)"

lemma prepare_loads_data:
  "prepare_loads cf metas s = (Inr (), s') \<Longrightarrow>
     ly_failure_req_ids s' = ly_failure_req_ids s
     \<and> (ly_need_load s' \<longleftrightarrow> ly_need_load s \<or> filter (\<lambda>p. fst (dm_load (snd p)) \<noteq> []) metas \<noteq> [])
     \<and> (\<exists>ds. ly_request_data s' = ly_request_data s @ ds
          \<and> list_all2 (prepared cf) (filter (\<lambda>p. fst (dm_load (snd p)) \<noteq> []) metas) ds)"
proof (induction cf metas s rule: prepare_loads.induct)
  case (1 cf s)
  then show ?case by simp
next
  case (2 cf r request rest s)
  show ?case
  proof (cases "fst (dm_load request) = []")
    case True
    with 2(1) [OF True] 2(3) show ?thesis by simp
  next
    case False
    obtain ptrs where ptrs: "lc_extract_layers cf (snd (dm_load request)) = Inr ptrs"
      using 2(3) False by (auto simp: Let_def split: sum.splits)
    define d where "d = \<lparr>lr_request_id = r, lr_ucm_block_ids = fst (dm_load request),
       lr_store_block_ids = rank_scoped_ids (wc_hasher (lc_base cf))
         (wc_tp_rank (lc_base cf) mod wc_tp_size (lc_base cf) = 0 \<or> wc_is_mla (lc_base cf)) (fst (dm_load request)),
       lr_total_ptrs = ptrs\<rparr>"
    define s2 where "s2 = s\<lparr>ly_need_load := True, ly_request_data := ly_request_data s @ [d]\<rparr>"
    have "prepare_loads cf rest s2 = (Inr (), s')"
      using 2(3) False ptrs by (simp add: Let_def s2_def d_def)
    then have ih: "ly_failure_req_ids s' = ly_failure_req_ids s2 \<and> ly_need_load s'
     \<and> (\<exists>ds. ly_request_data s' = ly_request_data s2 @ ds
          \<and> list_all2 (prepared cf) (filter (\<lambda>p. fst (dm_load (snd p)) \<noteq> []) rest) ds)"
      using 2(2) [OF False refl refl refl refl ptrs] by (simp add: s2_def d_def)
    then obtain ds where ds: "ly_request_data s' = ly_request_data s2 @ ds"
      "list_all2 (prepared cf) (filter (\<lambda>p. fst (dm_load (snd p)) \<noteq> []) rest) ds" by blast
    have "prepared cf (r, request) d" using ptrs by (simp add: d_def prepared_def)
    with ds have "ly_request_data s' = ly_request_data s @ d # ds
        \<and> list_all2 (prepared cf) (filter (\<lambda>p. fst (dm_load (snd p)) \<noteq> []) ((r, request) # rest)) (d # ds)"
      using False by (simp add: s2_def)
    with ih False show ?thesis by (auto simp: s2_def)
  qed
qed

lemma prepared_ids: "list_all2 (prepared cf) ps ds \<Longrightarrow> map lr_request_id ds = map fst ps"
  by (induction rule: list_all2_induct) (simp_all add: prepared_def)

lemma layer_start_load_kv_pass:
  assumes run: "layer_start_load_kv cf md s = (Inr (), s0)" and contract: "load_contract i f (wc_store (lc_base cf))"
    and ctx: "contexts_of (wc_store (lc_base cf)) (ly_worker s)" and dist: "distinct (map fst (cm_request_meta md))"
    and p: "p \<in> set (cm_request_meta md)" "fst (dm_load (snd p)) \<noteq> []" and "0 < n"
  shows "pass_inv i f cf n 0 s0 \<and> (\<exists>d \<in> set (ly_request_data s0). prepared cf p d)"
proof -
  let ?m = "cm_request_meta md" and ?st = "wc_store (lc_base cf)"
  let ?s0 = "s\<lparr>ly_load_tasks := [], ly_request_data := [], ly_failure_req_ids := {}, ly_need_load := False\<rparr>"
  let ?ps = "filter (\<lambda>p. fst (dm_load (snd p)) \<noteq> []) ?m"
  obtain q s1 where q: "prepare_loads cf ?m ?s0 = (q, s1)" by (cases "prepare_loads cf ?m ?s0")
  with run have qu: "q = Inr ()" by (cases q) (simp_all add: layer_start_load_kv_def Let_def)
  note data = prepare_loads_data [OF q [unfolded qu]]
  have need: "ly_need_load s1" and fail: "ly_failure_req_ids s1 = {}" and all: "list_all2 (prepared cf) ?ps (ly_request_data s1)"
    using data p by (auto simp: filter_empty_conv)
  have same: "ly_worker s1 = ly_worker s" using prepare_loads_worker [OF q] by simp
  have d1: "distinct (map lr_request_id (ly_request_data s1))"
    using dist by (auto simp: prepared_ids [OF all] distinct_map intro: inj_on_subset)
  obtain q2 s2 where l: "submit_layer_loads cf ?m (lc_first_layer_id cf) 0 (ly_request_data s1) s1 = (q2, s2)"
    by (cases "submit_layer_loads cf ?m (lc_first_layer_id cf) 0 (ly_request_data s1) s1")
  let ?ms = "[MCount ''layerwise_first_layer_requests'' (int (length (ly_request_data s2)) - int (card (ly_failure_req_ids s2)))]"
  have q2: "q2 = Inr ()" and s0: "s0 = layer_stats ?ms s2"
    using run q qu need l by (cases q2; simp add: layer_start_load_kv_def Let_def)+
  note sub = submit_layer_loads_progress [OF l [unfolded q2] contract d1]
  note pr = conjunct1 [OF sub]
  have p0: "progress i f ?st s1 s0" unfolding s0 by (rule progress_trans [OF pr layer_fields_progress(4)])
  have eqs: "ly_load_tasks s0 = ly_load_tasks s2" "ly_failure_req_ids s0 = ly_failure_req_ids s2"
    "wk_world (ly_worker s0) = wk_world (ly_worker s2)"
    by (simp_all add: s0 layer_stats_def worker_stats_def)
  have "pass_inv i f cf n 0 s0"
    unfolding pass_inv_def progress_data [OF p0] progress_need [OF p0]
    using sub need d1 ctx same fail progress_contexts [OF p0] progress_subset [OF p0] by (auto simp: eqs)
  moreover have "p \<in> set ?ps" using p by simp
  then obtain d where "d \<in> set (ly_request_data s1)" "prepared cf p d"
    using all by (metis (no_types, lifting) list_all2_conv_all_nth in_set_conv_nth)
  ultimately show ?thesis using progress_data [OF p0] by auto
qed

subsection \<open>A forward pass does not raise\<close>

text \<open>Every task and every prepared load belongs to a request of the step.\<close>

definition tasks_named :: "(req_id, dispatch_meta) dict \<Rightarrow> 'w layer_worker \<Rightarrow> bool" where
  "tasks_named metas s \<longleftrightarrow>
     (\<forall>l. fst ` set (dict_get_or (ly_load_tasks s) l []) \<subseteq> dict_keys metas)
     \<and> lr_request_id ` set (ly_request_data s) \<subseteq> dict_keys metas"

definition extracts :: "'w layer_cfg \<Rightarrow> bool" where
  "extracts cf \<longleftrightarrow> (\<forall>vs. \<exists>ptrs. lc_extract_layers cf vs = Inr ptrs)"

lemma layer_load_failed_returns:
  assumes "r \<in> dict_keys metas"
  shows "\<exists>s'. layer_load_failed mt metas r s = (Inr (), s') \<and> ly_load_tasks s' = ly_load_tasks s
    \<and> ly_request_data s' = ly_request_data s"
proof -
  obtain rq where "dict_get metas r = Some rq" using assms by (cases "dict_get metas r") (simp_all add: map_of_eq_None_iff)
  then show ?thesis by (simp add: layer_load_failed_def)
qed

lemma submit_layer_load_data:
  "submit_layer_load cf l row d s = (q, s') \<Longrightarrow> ly_load_tasks s' = ly_load_tasks s \<and> ly_request_data s' = ly_request_data s"
  by (auto simp: submit_layer_load_def split: sum.splits prod.splits)

lemma submit_layer_loads_returns:
  "lr_request_id ` set ds \<subseteq> dict_keys metas \<Longrightarrow> tasks_named metas s \<Longrightarrow>
     \<exists>s'. submit_layer_loads cf metas l row ds s = (Inr (), s') \<and> tasks_named metas s'
       \<and> ly_request_data s' = ly_request_data s"
proof (induction ds arbitrary: s)
  case Nil
  then show ?case by simp
next
  case (Cons d ds)
  show ?case
  proof (cases "lr_request_id d \<in> ly_failure_req_ids s")
    case True
    with Cons show ?thesis by simp
  next
    case False
    obtain q s1 where q: "submit_layer_load cf l row d s = (q, s1)" by (cases "submit_layer_load cf l row d s")
    note same = submit_layer_load_data [OF q]
    show ?thesis
    proof (cases q)
      case (Inr task)
      let ?s2 = "s1\<lparr>ly_load_tasks := dict_set l (dict_set (lr_request_id d) task (dict_get_or (ly_load_tasks s1) l [])) (ly_load_tasks s1)\<rparr>"
      have "tasks_named metas ?s2"
        using Cons.prems same unfolding tasks_named_def by simp
      with Cons.IH [of ?s2] Cons.prems False q Inr same show ?thesis by simp
    next
      case (Inl e)
      obtain s2 where s2: "layer_load_failed ''connector_load_submit_errors_total'' metas (lr_request_id d) s1 = (Inr (), s2)"
        "ly_load_tasks s2 = ly_load_tasks s1" "ly_request_data s2 = ly_request_data s1"
        using layer_load_failed_returns [of "lr_request_id d" metas "''connector_load_submit_errors_total''" s1] Cons.prems(1)
        by auto
      then have "tasks_named metas s2" using Cons.prems same by (simp add: tasks_named_def)
      with Cons.IH [of s2] Cons.prems False q Inl same s2 show ?thesis by simp
    qed
  qed
qed

lemma wait_layer_tasks_returns:
  "fst ` set items \<subseteq> dict_keys metas \<Longrightarrow>
     \<exists>s'. wait_layer_tasks metas items s = (Inr (), s') \<and> ly_load_tasks s' = ly_load_tasks s
       \<and> ly_request_data s' = ly_request_data s"
proof (induction items arbitrary: s)
  case Nil
  then show ?case by simp
next
  case (Cons it items)
  obtain r t where it: "it = (r, t)" by (cases it)
  obtain q rcm' w' where q: "wait_load (wk_rcm (ly_worker s)) (wk_world (ly_worker s)) t = (q, rcm', w')"
    by (metis prod_cases3)
  let ?s1 = "s\<lparr>ly_worker := (ly_worker s)\<lparr>wk_rcm := rcm', wk_world := w'\<rparr>\<rparr>"
  show ?case
  proof (cases q)
    case (Inr u)
    with Cons.IH [of ?s1] Cons.prems it q show ?thesis by simp
  next
    case (Inl e)
    obtain s2 where s2: "layer_load_failed ''connector_load_wait_errors_total'' metas r ?s1 = (Inr (), s2)"
      "ly_load_tasks s2 = ly_load_tasks s" "ly_request_data s2 = ly_request_data s"
      using layer_load_failed_returns [of r metas "''connector_load_wait_errors_total''" ?s1] Cons.prems it by auto
    with Cons.IH [of s2] Cons.prems it q Inl show ?thesis by simp
  qed
qed

lemma wait_for_layer_load_returns:
  assumes "tasks_named (cm_request_meta md) s" and "py_key (lc_layer_name_to_id cf) name = Inr l"
  shows "\<exists>s'. wait_for_layer_load cf (Some md) name s = (Inr (), s') \<and> tasks_named (cm_request_meta md) s'
    \<and> ly_request_data s' = ly_request_data s"
proof (cases "ly_need_load s")
  case False
  with assms(1) show ?thesis by (simp add: wait_for_layer_load_def)
next
  case True
  let ?m = "cm_request_meta md" and ?tasks = "dict_get_or (ly_load_tasks s) l []"
  let ?s1 = "s\<lparr>ly_load_tasks := dict_pop l (ly_load_tasks s)\<rparr>"
  have "fst ` set ?tasks \<subseteq> dict_keys ?m" using assms(1) by (simp add: tasks_named_def)
  from wait_layer_tasks_returns [OF this, of ?s1]
  obtain s2 where s2: "wait_layer_tasks ?m ?tasks ?s1 = (Inr (), s2)"
    "ly_load_tasks s2 = dict_pop l (ly_load_tasks s)" "ly_request_data s2 = ly_request_data s" by auto
  have "tasks_named ?m s2" using assms(1) s2 by (simp add: tasks_named_def)
  then have *: "\<exists>s3. (if Suc l \<in> set (lc_layer_ids cf)
      then submit_layer_loads cf ?m (Suc l) (Suc l - lc_first_layer_id cf) (ly_request_data s2) s2
      else (Inr (), s2)) = (Inr (), s3) \<and> tasks_named ?m s3 \<and> ly_request_data s3 = ly_request_data s2"
    using submit_layer_loads_returns [of "ly_request_data s2" ?m s2] by (simp add: tasks_named_def)
  then show ?thesis
    using True assms(2) s2(1,3)
    by (force simp: wait_for_layer_load_def Let_def tasks_named_def layer_stats_def split: if_splits)
qed

lemma collect_layer_dumps_named:
  "collect_layer_dumps base metas (u, v, rs) = (u', v', rs') \<Longrightarrow> set rs' \<subseteq> set rs \<union> dict_keys metas"
proof (induction base metas "(u, v, rs)" arbitrary: u v rs rule: collect_layer_dumps.induct)
  case 1
  then show ?case by simp
next
  case (2 base r request rest u v rs)
  show ?case
  proof (cases "fst (dm_dump request) = []")
    case True
    with 2(1) [OF True] 2(3) show ?thesis by auto
  next
    case False
    with 2(2) [OF False] 2(3) show ?thesis by auto
  qed
qed

lemma layer_dump_blocks_returns: "set rs \<subseteq> dict_keys metas \<Longrightarrow> \<exists>b. layer_dump_blocks metas rs = Inr b"
proof (induction rs)
  case Nil
  then show ?case by (simp add: layer_dump_blocks_def)
next
  case (Cons r rs)
  then obtain b where b: "rmap (\<lambda>r. rbind (py_key metas r) (\<lambda>request. Inr (r, set (fst (dm_dump request))))) rs = Inr b"
    by (auto simp: layer_dump_blocks_def)
  have "\<exists>x. py_key metas r = Inr x"
    using Cons.prems by (cases "dict_get metas r") (simp_all add: py_key_def map_of_eq_None_iff)
  with b show ?case by (auto simp: layer_dump_blocks_def)
qed

lemma submit_layerwise_dump_task_returns:
  assumes "set rs \<subseteq> dict_keys metas" and "extracts cf"
  shows "fst (submit_layerwise_dump_task cf metas l ucm vllm rs s) = Inr ()"
proof -
  obtain b ptrs where "layer_dump_blocks metas rs = Inr b" "lc_extract_layers cf vllm = Inr ptrs"
    using layer_dump_blocks_returns [OF assms(1)] assms(2) unfolding extracts_def by blast
  then show ?thesis
    by (auto simp: submit_layerwise_dump_task_def Let_def split: sum.split prod.split option.split)
qed

lemma save_kv_layer_returns:
  assumes "py_key (lc_layer_name_to_id cf) name = Inr l" and "extracts cf"
  shows "fst (save_kv_layer cf (Some md) name s) = Inr ()"
proof -
  obtain u v rs where c: "collect_layer_dumps (lc_base cf) (cm_request_meta md) ([], [], []) = (u, v, rs)"
    by (metis prod_cases3)
  from collect_layer_dumps_named [OF c] have "set rs \<subseteq> dict_keys (cm_request_meta md)" by simp
  with submit_layerwise_dump_task_returns [OF this assms(2)] assms(1) c show ?thesis
    by (simp add: save_kv_layer_def Let_def)
qed

definition event_named :: "'w layer_cfg \<Rightarrow> layer_event \<Rightarrow> bool" where
  "event_named cf e \<longleftrightarrow>
     (case e of WaitLayer n \<Rightarrow> n \<in> dict_keys (lc_layer_name_to_id cf)
      | SaveLayer n \<Rightarrow> n \<in> dict_keys (lc_layer_name_to_id cf))"

lemma py_key_of_keys: "n \<in> dict_keys d \<Longrightarrow> \<exists>v. py_key d n = Inr v"
  by (cases "dict_get d n") (simp_all add: py_key_def map_of_eq_None_iff)

lemma run_pass_returns:
  "tasks_named (cm_request_meta md) s \<Longrightarrow> list_all (event_named cf) es \<Longrightarrow> extracts cf
     \<Longrightarrow> dump_contract i f (lc_base cf)
     \<Longrightarrow> \<exists>s'. run_pass cf md es s = (Inr (), s') \<and> ly_request_data s' = ly_request_data s"
proof (induction cf md es s rule: run_pass.induct)
  case (1 cf md s)
  then show ?case by simp
next
  case (2 cf md name es s)
  obtain l where "py_key (lc_layer_name_to_id cf) name = Inr l"
    using 2(3) py_key_of_keys [of name "lc_layer_name_to_id cf"] by (auto simp: event_named_def)
  from wait_for_layer_load_returns [OF 2(2) this]
  obtain s1 where s1: "wait_for_layer_load cf (Some md) name s = (Inr (), s1)"
    "tasks_named (cm_request_meta md) s1" "ly_request_data s1 = ly_request_data s" by blast
  with 2(1) [OF s1(1) [symmetric] refl s1(2)] 2(3-) show ?case by simp
next
  case (3 cf md name es s)
  obtain l where l: "py_key (lc_layer_name_to_id cf) name = Inr l"
    using 3(3) py_key_of_keys [of name "lc_layer_name_to_id cf"] by (auto simp: event_named_def)
  obtain s1 where s1: "save_kv_layer cf (Some md) name s = (Inr (), s1)"
    using save_kv_layer_returns [OF l 3(4)] by (metis prod.collapse)
  note pr = save_kv_layer_progress [OF 3(5), of "wc_store (lc_base cf)" s "Some md" name, unfolded s1 snd_conv]
  have "ly_request_data s1 = ly_request_data s" "ly_load_tasks s1 = ly_load_tasks s"
    using pr progress_data by (auto simp: loads_untouched_def)
  with 3(2) have "tasks_named (cm_request_meta md) s1" by (simp add: tasks_named_def)
  with 3(1) [OF s1 [symmetric] refl this] 3(3-) s1 \<open>ly_request_data s1 = ly_request_data s\<close> show ?case by simp
qed

lemma prepare_loads_returns: "extracts cf \<Longrightarrow> \<exists>s'. prepare_loads cf metas s = (Inr (), s') \<and> ly_load_tasks s' = ly_load_tasks s"
proof (induction cf metas s rule: prepare_loads.induct)
  case (1 cf s)
  then show ?case by simp
next
  case (2 cf r request rest s)
  show ?case
  proof (cases "fst (dm_load request) = []")
    case True
    with 2(1) [OF True 2(3)] show ?thesis by simp
  next
    case False
    obtain ptrs where "lc_extract_layers cf (snd (dm_load request)) = Inr ptrs" using 2(3) by (auto simp: extracts_def)
    with 2(2) [OF False refl refl refl refl this 2(3)] False show ?thesis by (simp add: Let_def)
  qed
qed

lemma layer_start_load_kv_returns:
  assumes "extracts cf"
  shows "\<exists>s'. layer_start_load_kv cf md s = (Inr (), s') \<and> tasks_named (cm_request_meta md) s'"
proof -
  let ?m = "cm_request_meta md"
  let ?s0 = "s\<lparr>ly_load_tasks := [], ly_request_data := [], ly_failure_req_ids := {}, ly_need_load := False\<rparr>"
  obtain s1 where s1: "prepare_loads cf ?m ?s0 = (Inr (), s1)" "ly_load_tasks s1 = []"
    using prepare_loads_returns [OF assms, of ?m ?s0] by auto
  obtain ds where ds: "ly_request_data s1 = ds" "list_all2 (prepared cf) (filter (\<lambda>p. fst (dm_load (snd p)) \<noteq> []) ?m) ds"
    using prepare_loads_data [OF s1(1)] by auto
  have "lr_request_id ` set ds \<subseteq> dict_keys ?m"
    using prepared_ids [OF ds(2)] by (metis (no_types, lifting) filter_is_subset image_mono list.set_map)
  then have named: "tasks_named ?m s1" using ds s1 by (simp add: tasks_named_def dict_get_or_def)
  then have keys: "lr_request_id ` set (ly_request_data s1) \<subseteq> dict_keys ?m" by (simp add: tasks_named_def)
  obtain s2 where "submit_layer_loads cf ?m (lc_first_layer_id cf) 0 (ly_request_data s1) s1 = (Inr (), s2)"
    "tasks_named ?m s2"
    using submit_layer_loads_returns [OF keys named, of cf "lc_first_layer_id cf" 0] by blast
  with named s1 show ?thesis by (simp add: layer_start_load_kv_def Let_def tasks_named_def layer_stats_def)
qed

text \<open>
  C5: A forward pass of the layerwise connector loads every layer: \<open>start_load_kv\<close> and the
  waits for the layers, one after the other and interleaved with saves in any way, do not
  raise, and when they are through each request with blocks to load is reported as failed, or
  for every layer a load of all its blocks into that layer's row of addresses was issued and
  has completed.
\<close>

theorem every_layer_is_loaded:
  assumes "lc_layer_ids cf = [lc_first_layer_id cf..<lc_first_layer_id cf + n]" and "0 < n"
    and "list_all2 (\<lambda>name l. py_key (lc_layer_name_to_id cf) name = Inr l) (waited_layers es) (lc_layer_ids cf)"
    and "list_all (event_named cf) es" and "extracts cf"
    and "load_contract i f (wc_store (lc_base cf))" and "dump_contract i f (lc_base cf)"
    and "contexts_of (wc_store (lc_base cf)) (ly_worker s)"
    and "distinct (map fst (cm_request_meta md))"
    and "(r, request) \<in> set (cm_request_meta md)" and "fst (dm_load request) \<noteq> []"
  shows "\<exists>s0 s'. layer_start_load_kv cf md s = (Inr (), s0) \<and> run_pass cf md es s0 = (Inr (), s')
    \<and> (r \<in> wm_load_failed_reqs (wk_meta (ly_worker s'))
      \<or> (\<exists>d. prepared cf (r, request) d \<and> (\<forall>k < n. layer_loaded i f cf (wk_world (ly_worker s')) d k)))"
proof -
  obtain s0 where s0: "layer_start_load_kv cf md s = (Inr (), s0)" "tasks_named (cm_request_meta md) s0"
    using layer_start_load_kv_returns [OF assms(5)] by blast
  obtain s' where s': "run_pass cf md es s0 = (Inr (), s')" "ly_request_data s' = ly_request_data s0"
    using run_pass_returns [OF s0(2) assms(4,5,7)] by blast
  obtain d where inv: "pass_inv i f cf n 0 s0" and d: "d \<in> set (ly_request_data s0)" "prepared cf (r, request) d"
    using layer_start_load_kv_pass [OF s0(1) assms(6,8,9,10) _ assms(2)] assms(11) by auto
  have inv': "pass_inv i f cf n n s'"
    using run_pass_inv [OF s'(1) inv assms(1) _ assms(6,7)] assms(1,3) by simp
  with s' s0(1) d show ?thesis by (auto simp: pass_inv_def prepared_def)
qed

text \<open>A store that keeps a ledger of the loads it was asked for and of those that completed.\<close>

type_synonym ledger = "(nat \<times> bytes list \<times> nat list \<times> u64 list list) list \<times> nat list"

definition ledger_cfg :: "ledger worker_cfg" where
  "ledger_cfg =
     \<lparr>wc_tp_rank = 0, wc_tp_size = 1, wc_is_mla = False, wc_skip_null_vllm_blocks = False,
      wc_enable_event_sync = False, wc_hasher = (\<lambda>i. []), wc_block_data_size = 16,
      wc_extract_block_addrs = (\<lambda>ids. Inr (map (\<lambda>i. [of_nat (16 * i)]) ids)),
      wc_store =
        \<lparr>st_lookup = (\<lambda>w ids. (Inr (map (\<lambda>_. True) ids), w)),
         st_lookup_on_prefix = (\<lambda>w ids. (Inr (int (length ids) - 1), w)),
         st_prefetch = (\<lambda>w ids. (Inr (), w)),
         st_load_data = (\<lambda>w ids shards ptrs. (Inr (length (fst w)), (fst w @ [(length (fst w), ids, shards, ptrs)], snd w))),
         st_dump_data = (\<lambda>w ids shards ptrs ev. (Inr 0, w)),
         st_wait = (\<lambda>w task. (Inr (), (fst w, snd w @ [task]))),
         st_check = (\<lambda>w task. (Inr False, w))\<rparr>,
      wc_device = \<lparr>dv_new_event = (\<lambda>w. (None, w)), dv_sync = id\<rparr>\<rparr>"

definition ledger_issued :: "ledger \<Rightarrow> nat \<Rightarrow> bytes list \<Rightarrow> nat list \<Rightarrow> u64 list list \<Rightarrow> bool" where
  "ledger_issued w t ids shards ptrs \<longleftrightarrow> (t, ids, shards, ptrs) \<in> set (fst w)"

definition ledger_finished :: "ledger \<Rightarrow> nat \<Rightarrow> bool" where
  "ledger_finished w t \<longleftrightarrow> t \<in> set (snd w)"

lemma ledger_contracts:
  "load_contract ledger_issued ledger_finished (wc_store ledger_cfg)" "dump_contract ledger_issued ledger_finished ledger_cfg"
  by (auto simp: load_contract_def dump_contract_def steady_def ledger_issued_def ledger_finished_def ledger_cfg_def)

theorem every_layer_is_loaded_witness:
  "\<exists>s0 s'. layer_start_load_kv (two_layers ledger_cfg) demo_step (new_layer_worker ([], []) True False) = (Inr (), s0)
     \<and> run_pass (two_layers ledger_cfg) demo_step [WaitLayer ''l0'', SaveLayer ''l0'', WaitLayer ''l1'', SaveLayer ''l1''] s0 = (Inr (), s')
     \<and> (''r'' \<in> wm_load_failed_reqs (wk_meta (ly_worker s'))
       \<or> (\<exists>d. layer_loaded ledger_issued ledger_finished (two_layers ledger_cfg) (wk_world (ly_worker s')) d 1))"
proof -
  let ?cf = "two_layers ledger_cfg" and ?es = "[WaitLayer ''l0'', SaveLayer ''l0'', WaitLayer ''l1'', SaveLayer ''l1'']"
  have base: "lc_base ?cf = ledger_cfg" "lc_first_layer_id ?cf = 0" "lc_layer_ids ?cf = [0, 1]"
    by (simp_all add: two_layers_def)
  have ex: "extracts ?cf" by (simp add: extracts_def two_layers_def)
  have ctx: "contexts_of (wc_store ledger_cfg) (ly_worker (new_layer_worker ([], []) True False))"
    by (simp add: contexts_of_def new_layer_worker_def new_worker_def new_rcm_def)
  have upt: "[0, 1] = [0..<0 + 2]" by (simp add: upt_rec)
  have names: "list_all2 (\<lambda>name l. py_key (lc_layer_name_to_id ?cf) name = Inr l) (waited_layers ?es) [0, 1]"
    "list_all (event_named ?cf) ?es"
    by (simp_all add: two_layers_def py_key_def event_named_def)
  from every_layer_is_loaded [of ?cf 2 ?es ledger_issued ledger_finished "new_layer_worker ([], []) True False" demo_step
      "''r''" "\<lparr>dm_load = ([''a''], [5]), dm_dump = ([''b'', ''c''], [6, 7])\<rparr>",
      unfolded base, OF upt _ names ex ledger_contracts ctx]
  have "\<exists>s0 s'. layer_start_load_kv ?cf demo_step (new_layer_worker ([], []) True False) = (Inr (), s0)
    \<and> run_pass ?cf demo_step ?es s0 = (Inr (), s') \<and> (''r'' \<in> wm_load_failed_reqs (wk_meta (ly_worker s'))
      \<or> (\<exists>d. prepared ?cf (''r'', \<lparr>dm_load = ([''a''], [5]), dm_dump = ([''b'', ''c''], [6, 7])\<rparr>) d
           \<and> (\<forall>k < 2. layer_loaded ledger_issued ledger_finished ?cf (wk_world (ly_worker s')) d k)))"
    by (simp add: demo_step_def)
  then obtain s0 s' where run: "layer_start_load_kv ?cf demo_step (new_layer_worker ([], []) True False) = (Inr (), s0)"
    "run_pass ?cf demo_step ?es s0 = (Inr (), s')"
    and res: "''r'' \<in> wm_load_failed_reqs (wk_meta (ly_worker s'))
      \<or> (\<exists>d. \<forall>k < 2. layer_loaded ledger_issued ledger_finished ?cf (wk_world (ly_worker s')) d k)"
    by blast
  have "(1::nat) < 2" by simp
  with res have "''r'' \<in> wm_load_failed_reqs (wk_meta (ly_worker s'))
      \<or> (\<exists>d. layer_loaded ledger_issued ledger_finished ?cf (wk_world (ly_worker s')) d 1)" by blast
  then show ?thesis by (intro exI conjI) (rule run)+
qed

end
