(* ===== verification/Connector_Variants.thy ===== *)
theory Connector_Variants
  imports Layer_Dumps
begin

text \<open>
  The connectors built on the direct and the layerwise one: \<open>UCMCPConnector\<close>, where the ranks
  of a context-parallel group share the blocks of a step, \<open>UCMPDConnector\<close>, \<open>UCMMockConnector\<close>
  and \<open>UCMLiteConnector\<close>.
\<close>

section \<open>Context parallelism\<close>

text \<open>
  \<open>UCMCPConnector.__init__\<close>: the rank inside the group, the tensor-parallel rank the hasher is
  made for, and the block size, which grows to what all ranks of the group hold of a block.
\<close>

definition cp_consistency_manager_enabled :: "bool \<Rightarrow> bool result" where
  "cp_consistency_manager_enabled use_consistency_manager =
     (if use_consistency_manager then Inl ValueError else Inr False)"

definition cp_current_rank :: "nat \<Rightarrow> nat \<Rightarrow> nat \<Rightarrow> nat" where
  "cp_current_rank dcp_world_size pcp_rank dcp_rank = dcp_world_size * pcp_rank + dcp_rank"

definition cp_hash_rank :: "nat \<Rightarrow> nat \<Rightarrow> nat \<Rightarrow> nat" where
  "cp_hash_rank tp_rank tp_size dcp_world_size = tp_rank mod tp_size div dcp_world_size"

definition cp_connector_cfg :: "nat \<Rightarrow> nat \<Rightarrow> connector_cfg \<Rightarrow> connector_cfg" where
  "cp_connector_cfg pcp_size dcp_size cf =
     cf\<lparr>cf_cp_world_size := pcp_size * dcp_size, cf_block_size := cf_block_size cf * (pcp_size * dcp_size)\<rparr>"

text \<open>\<open>bind_connector_metadata\<close>: each rank keeps its share of the block ids of the step.\<close>

definition cp_slice :: "nat \<Rightarrow> nat \<Rightarrow> bytes list \<times> vllm_id list \<Rightarrow> bytes list \<times> vllm_id list" where
  "cp_slice current_rank cp_world_size p =
     (if 0 < length (fst p) then (py_stride (fst p) current_rank cp_world_size, snd p) else p)"

definition cp_bind_request :: "nat \<Rightarrow> nat \<Rightarrow> dispatch_meta \<Rightarrow> dispatch_meta" where
  "cp_bind_request current_rank cp_world_size request =
     \<lparr>dm_load = cp_slice current_rank cp_world_size (dm_load request),
      dm_dump = cp_slice current_rank cp_world_size (dm_dump request)\<rparr>"

definition cp_bind_connector_metadata :: "nat \<Rightarrow> nat \<Rightarrow> connector_meta \<Rightarrow> connector_meta" where
  "cp_bind_connector_metadata current_rank cp_world_size metadata =
     metadata\<lparr>cm_request_meta :=
       map (\<lambda>(request_id, request). (request_id, cp_bind_request current_rank cp_world_size request))
         (cm_request_meta metadata)\<rparr>"

text \<open>The worker's hooks: layerwise where the launch configuration says so, else the direct ones.\<close>

definition cp_start_load_kv ::
  "bool \<Rightarrow> 'w layer_cfg \<Rightarrow> connector_meta \<Rightarrow> 'w layer_worker \<Rightarrow> unit result \<times> 'w layer_worker" where
  "cp_start_load_kv use_layerwise cf metadata s =
     (if use_layerwise then layer_start_load_kv cf metadata s
      else (Inr (), s\<lparr>ly_worker := start_load_kv (lc_base cf) metadata (ly_worker s)\<rparr>))"

definition cp_wait_for_layer_load ::
  "bool \<Rightarrow> 'w layer_cfg \<Rightarrow> connector_meta option \<Rightarrow> string \<Rightarrow> 'w layer_worker \<Rightarrow> unit result \<times> 'w layer_worker" where
  "cp_wait_for_layer_load use_layerwise cf bound layer_name s =
     (if use_layerwise then wait_for_layer_load cf bound layer_name s else (Inr (), s))"

definition cp_save_kv_layer ::
  "bool \<Rightarrow> 'w layer_cfg \<Rightarrow> connector_meta option \<Rightarrow> string \<Rightarrow> 'w layer_worker \<Rightarrow> unit result \<times> 'w layer_worker" where
  "cp_save_kv_layer use_layerwise cf bound layer_name s =
     (if use_layerwise then save_kv_layer cf bound layer_name s else (Inr (), s))"

definition cp_wait_for_save ::
  "bool \<Rightarrow> 'w layer_cfg \<Rightarrow> connector_meta \<Rightarrow> 'w layer_worker \<Rightarrow> unit result \<times> 'w layer_worker" where
  "cp_wait_for_save use_layerwise cf metadata s =
     (if use_layerwise then layer_wait_for_save cf (Some metadata) s
      else (Inr (), s\<lparr>ly_worker := wait_for_save (lc_base cf) metadata (ly_worker s)\<rparr>))"

section \<open>Prefill-decode, mock and lite\<close>

definition pd_get_num_new_matched_tokens :: "'w scheduler \<Rightarrow> request \<Rightarrow> nat \<Rightarrow> (nat \<times> bool) result \<times> 'w scheduler" where
  "pd_get_num_new_matched_tokens s request num_computed_tokens = (Inl NotImplemented, s)"

definition pd_get_finished :: "req_id list \<Rightarrow> 'w worker \<Rightarrow> req_id set option result \<times> 'w worker" where
  "pd_get_finished finished_req_ids s = (Inl NotImplemented, s)"

text \<open>
  \<open>expected\<close> is \<open>int(self._hit_ratio * n)\<close>, a double product, for the number \<open>n\<close> of prompt
  tokens. The dictionary lookup cannot fail where it is reached: tokens are only reported
  for a request that has been entered.
\<close>

definition mock_get_num_new_matched_tokens ::
  "(nat \<Rightarrow> nat) \<Rightarrow> connector_cfg \<Rightarrow> ('w, 'b) kv_lookup_api_scheme \<Rightarrow> 'w scheduler \<Rightarrow> request \<Rightarrow> nat
     \<Rightarrow> (nat \<times> bool) result \<times> 'w scheduler" where
  "mock_get_num_new_matched_tokens expected cf store s request num_computed_tokens =
     (case get_num_new_matched_tokens cf store s request num_computed_tokens of
        (Inl e, s1) \<Rightarrow> (Inl e, s1)
      | (Inr (hit_tokens, _), s1) \<Rightarrow>
          let expect_hit_tokens = expected (rq_num_prompt_tokens request) in
          if hit_tokens \<le> expect_hit_tokens then (Inr (hit_tokens, False), s1)
          else
            let expect_hit_block_num = expect_hit_tokens div cf_block_size cf in
            (case py_key (sd_requests_meta s1) (rq_id request) of
               Inl e \<Rightarrow> (Inl e, s1)
             | Inr meta \<Rightarrow>
                 (Inr (expect_hit_block_num * cf_block_size cf, False),
                  s1\<lparr>sd_requests_meta :=
                       dict_set (rq_id request)
                         (meta\<lparr>rm_total_hit_block_num := expect_hit_block_num,
                               rm_hbm_hit_block_num := min expect_hit_block_num (rm_hbm_hit_block_num meta)\<rparr>)
                         (sd_requests_meta s1)\<rparr>)))"

record lite_cfg =
  lt_block_size :: nat
  lt_hash_block_size :: nat
  lt_hasher :: "hash_input \<Rightarrow> bytes"
  lt_seed :: bytes

record lite_scheduler =
  ls_requests_meta :: "(req_id, request_meta) dict"
  ls_total_block_nums :: nat

text \<open>Its own copy of the block hashes, with the parent's hash as the loop's accumulator.\<close>

function lite_generate_hash_loop ::
  "(hash_input \<Rightarrow> bytes) \<Rightarrow> nat \<Rightarrow> nat list \<Rightarrow> nat \<Rightarrow> bytes \<Rightarrow> bytes list \<Rightarrow> bytes list" where
  "lite_generate_hash_loop h block_size token_ids start parent ret =
     (if block_size = 0 \<or> length token_ids \<le> start then ret
      else
        let block_token_ids = py_slice token_ids start (start + block_size) in
        if length block_token_ids < block_size then ret
        else
          let hash_value = h (HBlock parent block_token_ids) in
          lite_generate_hash_loop h block_size token_ids (start + block_size) hash_value (ret @ [hash_value]))"
  by pat_completeness auto
termination
  by (relation "measure (\<lambda>(h, bs, toks, start, p, ret). length toks - start)") auto

declare lite_generate_hash_loop.simps [simp del]

definition lite_generate_hash :: "lite_cfg \<Rightarrow> nat list \<Rightarrow> bytes list" where
  "lite_generate_hash cf token_ids =
     lite_generate_hash_loop (lt_hasher cf) (lt_hash_block_size cf) token_ids 0 (lt_seed cf) []"

definition lite_get_num_new_matched_tokens ::
  "lite_cfg \<Rightarrow> lite_scheduler \<Rightarrow> request \<Rightarrow> nat \<Rightarrow> (nat \<times> bool) result \<times> lite_scheduler" where
  "lite_get_num_new_matched_tokens cf s request num_computed_tokens =
     (if lt_hash_block_size cf = 0 then (Inl ZeroDivisionError, s)
      else
        let req_blocks_num = length (rq_all_token_ids request) div lt_hash_block_size cf in
        if req_blocks_num < 1 then (Inr (0, False), s)
        else if rq_id request \<in> dict_keys (ls_requests_meta s) then (Inr (0, False), s)
        else
          (Inr (0, False),
           \<lparr>ls_requests_meta =
              dict_set (rq_id request)
                \<lparr>rm_ucm_block_ids = lite_generate_hash cf (rq_all_token_ids request),
                 rm_hbm_hit_block_num = 0, rm_total_hit_block_num = 0,
                 rm_num_token_ids = length (rq_all_token_ids request),
                 rm_vllm_block_ids = [], rm_token_processed = 0\<rparr>
                (ls_requests_meta s),
            ls_total_block_nums = ls_total_block_nums s + req_blocks_num\<rparr>))"

definition lite_build_connector_meta :: "scheduler_output \<Rightarrow> lite_scheduler \<Rightarrow> connector_meta \<times> lite_scheduler" where
  "lite_build_connector_meta out s =
     (\<lparr>cm_request_meta = [], cm_preempted_req_ids = {}\<rparr>,
      s\<lparr>ls_requests_meta := fold dict_pop (so_finished out) (ls_requests_meta s)\<rparr>)"

definition lite_request_finished :: "req_id \<Rightarrow> lite_scheduler \<Rightarrow> bool \<times> lite_scheduler" where
  "lite_request_finished request_id s =
     (False, s\<lparr>ls_requests_meta := dict_pop request_id (ls_requests_meta s)\<rparr>)"

section \<open>Strided slices\<close>

text \<open>The inverse of the ranks' shares: one id of every rank for each block.\<close>

definition interleave :: "nat \<Rightarrow> nat \<Rightarrow> (nat \<Rightarrow> 'a list) \<Rightarrow> 'a list" where
  "interleave m n shares = concat (map (\<lambda>k. map (\<lambda>r. shares r ! k) [0..<n]) [0..<m])"

lemma interleave_strides:
  assumes "length xs = m * n"
  shows "interleave m n (\<lambda>r. py_stride xs r n) = xs"
proof -
  have "interleave m n (\<lambda>r. py_stride xs r n) = concat (map (\<lambda>k. map (\<lambda>r. xs ! (k * n + r)) [0..<n]) [0..<m])"
    unfolding interleave_def by (intro arg_cong [where f = concat] map_cong) (simp_all add: py_stride_blocks [OF _ assms])
  also have "\<dots> = map ((!) xs) (concat (map (\<lambda>k. map (\<lambda>r. k * n + r) [0..<n]) [0..<m]))"
    by (simp add: map_concat o_def)
  also have "concat (map (\<lambda>k. map (\<lambda>r. k * n + r) [0..<n]) [0..<m]) = [0..<m * n]"
  proof (induction m)
    case (Suc m)
    then show ?case using upt_add_eq_append [of 0 "m * n" n] by (simp add: map_add_upt add.commute)
  qed simp
  finally show ?thesis by (metis assms map_nth)
qed

section \<open>What the ranks of a group do with a step\<close>

lemma cp_load_plan:
  assumes "generate_dispatch_meta cf m new_tokens vllm need_load = (d, m')"
    and "rm_total_hit_block_num m * cf_cp_world_size cf \<le> length (rm_ucm_block_ids m)"
    and "rm_total_hit_block_num m \<le> length vllm"
  shows "dm_load d = (if need_load
      then (py_slice (rm_ucm_block_ids m) (rm_hbm_hit_block_num m * cf_cp_world_size cf)
              (rm_total_hit_block_num m * cf_cp_world_size cf),
            py_slice vllm (rm_hbm_hit_block_num m) (rm_total_hit_block_num m))
      else ([], []))"
    and "length (fst (dm_load d)) = length (snd (dm_load d)) * cf_cp_world_size cf"
proof -
  show load: "dm_load d = (if need_load
      then (py_slice (rm_ucm_block_ids m) (rm_hbm_hit_block_num m * cf_cp_world_size cf)
              (rm_total_hit_block_num m * cf_cp_world_size cf),
            py_slice vllm (rm_hbm_hit_block_num m) (rm_total_hit_block_num m))
      else ([], []))"
    using assms(1) by (auto simp: generate_dispatch_meta_def Let_def split: if_splits)
  show "length (fst (dm_load d)) = length (snd (dm_load d)) * cf_cp_world_size cf"
    using assms(2,3) by (simp add: load min_absorb1 diff_mult_distrib)
qed

text \<open>
  The ranks of a context-parallel group load a step between them: of a request whose hit
  blocks have device blocks, each rank loads one id per device block, the one of its own place
  in the block, and putting the ranks' ids together block by block gives back the ids the
  scheduler planned.
\<close>

lemma cp_ranks_share_the_load:
  assumes "generate_dispatch_meta cf m new_tokens vllm need_load = (d, m')"
    and "rm_total_hit_block_num m * cf_cp_world_size cf \<le> length (rm_ucm_block_ids m)"
    and "rm_total_hit_block_num m \<le> length vllm" and "0 < cf_cp_world_size cf"
  shows "interleave (length (snd (dm_load d))) (cf_cp_world_size cf)
           (\<lambda>r. fst (dm_load (cp_bind_request r (cf_cp_world_size cf) d))) = fst (dm_load d)
    \<and> (\<forall>r < cf_cp_world_size cf.
         snd (dm_load (cp_bind_request r (cf_cp_world_size cf) d)) = snd (dm_load d)
         \<and> fst (dm_load (cp_bind_request r (cf_cp_world_size cf) d))
             = map (\<lambda>k. rm_ucm_block_ids m ! ((rm_hbm_hit_block_num m + k) * cf_cp_world_size cf + r))
                 [0..<length (snd (dm_load d))])"
proof -
  let ?cp = "cf_cp_world_size cf" and ?us = "fst (dm_load d)" and ?vs = "snd (dm_load d)"
  note plan = cp_load_plan [OF assms(1-3)]
  have slice: "cp_slice r ?cp (dm_load d) = (py_stride ?us r ?cp, ?vs)" for r
    by (cases "dm_load d") (auto simp: cp_slice_def py_stride_def)
  have share: "py_stride ?us r ?cp
      = map (\<lambda>k. rm_ucm_block_ids m ! ((rm_hbm_hit_block_num m + k) * ?cp + r)) [0..<length ?vs]" if "r < ?cp" for r
  proof -
    have "k * ?cp + r < length ?us" if "k < length ?vs" for k
    proof -
      have "k * ?cp + r < Suc k * ?cp" using \<open>r < ?cp\<close> by simp
      also have "\<dots> \<le> length ?vs * ?cp" using that by (intro mult_le_mono1) simp
      finally show ?thesis using plan(2) by simp
    qed
    then have "?us ! (k * ?cp + r) = rm_ucm_block_ids m ! ((rm_hbm_hit_block_num m + k) * ?cp + r)"
      if "k < length ?vs" for k
      using that plan(1) by (cases need_load) (auto simp: algebra_simps)
    then show ?thesis by (simp add: py_stride_blocks [OF \<open>r < ?cp\<close> plan(2)])
  qed
  have "interleave (length ?vs) ?cp (\<lambda>r. py_stride ?us r ?cp) = ?us" by (rule interleave_strides [OF plan(2)])
  with share show ?thesis by (simp add: cp_bind_request_def slice)
qed

definition cp_demo_meta :: request_meta where
  "cp_demo_meta =
     \<lparr>rm_ucm_block_ids = [''a'', ''b'', ''c'', ''d'', ''e'', ''f''], rm_hbm_hit_block_num = 1, rm_total_hit_block_num = 3,
      rm_num_token_ids = 12, rm_vllm_block_ids = [], rm_token_processed = 12\<rparr>"

section \<open>The mock connector\<close>

text \<open>
  The mock connector never reports more hit tokens than the configured ratio of the prompt,
  and what it reports is what the direct connector found, or whole blocks.
\<close>

lemma mock_hit_ratio_caps_reports:
  assumes "mock_get_num_new_matched_tokens expected cf store s rq c = (Inr (k, load_async), s')"
  shows "k \<le> expected (rq_num_prompt_tokens rq) \<and> \<not> load_async
    \<and> (fst (get_num_new_matched_tokens cf store s rq c) = Inr (k, False) \<or> k mod cf_block_size cf = 0)"
proof (cases "get_num_new_matched_tokens cf store s rq c")
  case (Pair r s1)
  show ?thesis
  proof (cases r)
    case (Inl e)
    with assms Pair show ?thesis by (simp add: mock_get_num_new_matched_tokens_def)
  next
    case (Inr p)
    obtain hit b where p: "p = (hit, b)" by (cases p)
    have "\<not> b" using get_num_cases [OF Pair [unfolded Inr p]] by simp
    with assms Pair Inr p show ?thesis
      by (auto simp: mock_get_num_new_matched_tokens_def Let_def div_times_less_eq_dividend split: if_splits sum.splits)
  qed
qed

text \<open>
  Where the cap bites, the report counts the locally cached blocks again: the reported
  tokens are those of the blocks the plan loads plus those of the blocks vLLM already holds.
\<close>

lemma mock_report_counts_local_blocks:
  assumes "mock_get_num_new_matched_tokens expected cf store s rq c = (Inr (k, load_async), s')"
    and "get_num_new_matched_tokens cf store s rq c = (Inr (hit, b), s1)"
    and "expected (rq_num_prompt_tokens rq) < hit" and "expected (rq_num_prompt_tokens rq) \<le> length (rq_all_token_ids rq)"
    and "cf_cp_world_size cf = 1" and "cf_hash_block_size cf = cf_block_size cf"
  shows "\<exists>m. dict_get (sd_requests_meta s') (rq_id rq) = Some m
    \<and> k = (length (fst (dm_load (fst (generate_dispatch_meta cf m new_tokens vllm True))))
           + rm_hbm_hit_block_num m) * cf_block_size cf"
proof -
  let ?bs = "cf_block_size cf" and ?e = "expected (rq_num_prompt_tokens rq)"
  let ?u = "generate_hash (cf_hasher cf) (cf_hash_block_size cf) (rq_all_token_ids rq) (cf_seed cf)"
  obtain hits where m1: "dict_get (sd_requests_meta s1) (rq_id rq)
      = Some \<lparr>rm_ucm_block_ids = ?u, rm_hbm_hit_block_num = c div ?bs, rm_total_hit_block_num = c div ?bs + hits,
              rm_num_token_ids = length (rq_all_token_ids rq), rm_vllm_block_ids = [], rm_token_processed = c + hit\<rparr>"
    and bs: "0 < ?bs"
    using get_num_cases [OF assms(2)] assms(3) by auto
  define m where "m = \<lparr>rm_ucm_block_ids = ?u, rm_hbm_hit_block_num = min (?e div ?bs) (c div ?bs),
      rm_total_hit_block_num = ?e div ?bs, rm_num_token_ids = length (rq_all_token_ids rq), rm_vllm_block_ids = [],
      rm_token_processed = c + hit\<rparr>"
  have k: "k = ?e div ?bs * ?bs" and m: "dict_get (sd_requests_meta s') (rq_id rq) = Some m"
    using assms(1,3) by (auto simp: mock_get_num_new_matched_tokens_def assms(2) Let_def py_key_def m1 m_def)
  have "length ?u = length (rq_all_token_ids rq) div ?bs"
    using bs by (simp add: generate_hash_chain length_chain_ids assms(6))
  then have "?e div ?bs \<le> length ?u" using assms(4) by (simp add: div_le_mono)
  then have "length (fst (dm_load (fst (generate_dispatch_meta cf m new_tokens vllm True))))
      = ?e div ?bs - min (?e div ?bs) (c div ?bs)"
    by (simp add: generate_dispatch_meta_def Let_def assms(5) m_def)
  with k m show ?thesis by (simp add: m_def)
qed

definition mock_demo_request :: request where
  "mock_demo_request = \<lparr>rq_id = ''r'', rq_all_token_ids = [1, 2, 3, 4, 5, 6, 7, 8], rq_num_tokens = 8, rq_num_prompt_tokens = 8\<rparr>"

lemma mock_demo_match:
  "fst (get_num_new_matched_tokens demo_cfg demo_lookup demo_scheduler mock_demo_request 2) = Inr (5, False)"
  "fst (mock_get_num_new_matched_tokens (\<lambda>n. n div 2) demo_cfg demo_lookup demo_scheduler mock_demo_request 2) = Inr (4, False)"
  by code_simp+

section \<open>The lite connector\<close>

lemma lite_loop_prefix:
  "lite_generate_hash_loop h bs toks start parent ret = ret @ generate_hash_loop h bs toks start parent"
proof (induction h bs toks start parent ret rule: lite_generate_hash_loop.induct)
  case (1 h bs toks start parent ret)
  show ?case
  proof (cases "bs = 0 \<or> length toks \<le> start \<or> length (py_slice toks start (start + bs)) < bs")
    case True
    then show ?thesis
      by (auto simp: lite_generate_hash_loop.simps [of h bs toks start] generate_hash_loop.simps [of h bs toks start] Let_def)
  next
    case False
    with 1 show ?thesis
      by (auto simp: lite_generate_hash_loop.simps [of h bs toks start] generate_hash_loop.simps [of h bs toks start] Let_def)
  qed
qed

text \<open>
  The lite connector, which only keeps books, never asks vLLM to wait or to load, and a
  request it enters gets the block ids the direct connector would give it.
\<close>

lemma lite_ids_are_the_direct_ids:
  assumes "0 < lt_hash_block_size cf" and "lt_hash_block_size cf \<le> length (rq_all_token_ids rq)"
    and "rq_id rq \<notin> dict_keys (ls_requests_meta s)"
  shows "\<exists>s' m. lite_get_num_new_matched_tokens cf s rq c = (Inr (0, False), s')
    \<and> dict_get (ls_requests_meta s') (rq_id rq) = Some m
    \<and> rm_ucm_block_ids m = generate_hash (lt_hasher cf) (lt_hash_block_size cf) (rq_all_token_ids rq) (lt_seed cf)
    \<and> ls_total_block_nums s' = ls_total_block_nums s + length (rm_ucm_block_ids m)
    \<and> lite_get_num_new_matched_tokens cf s' rq c = (Inr (0, False), s')"
proof -
  have "1 \<le> length (rq_all_token_ids rq) div lt_hash_block_size cf"
    using assms(1,2) by (simp add: Suc_leI div_greater_zero_iff)
  then show ?thesis
    using assms
    by (simp add: lite_get_num_new_matched_tokens_def Let_def lite_generate_hash_def lite_loop_prefix generate_hash_def
        flip: generate_hash_def) (simp add: generate_hash_chain length_chain_ids)
qed

end
