(* ===== verification/Connector_Facade.thy ===== *)
theory Connector_Facade
  imports Connector_Variants
begin

text \<open>
  \<open>UCMConnector\<close>, the connector vLLM loads: it chooses the connector that does the work from
  the launch configuration, the parallel configuration and the cache layout, passes every call
  on to it, and counts how many tokens of the queries were found where.
\<close>

section \<open>The choice of a connector\<close>

datatype connector_kind =
    LiteConnector | FAWAConnector | MockConnector | CPConnector
  | HLALayerWiseConnector | HLAConnector | LayerWiseConnector | DirectConnector

text \<open>
  \<open>sel_cp_sizes\<close> is the pair of context-parallel sizes, \<open>None\<close> for a vLLM that has none.
  \<open>sel_fawa\<close> and \<open>sel_hla\<close> are the answers of \<open>can_handle_kv_cache_config\<close> and
  \<open>supports_kv_cache_layout\<close> for the cache layout.
\<close>

record selection =
  sel_use_layerwise :: bool
  sel_use_lite :: bool
  sel_has_hit_ratio :: bool
  sel_hla_layerwise :: bool
  sel_pipeline_parallel_size :: nat
  sel_cp_sizes :: "(nat \<times> nat) option"
  sel_fawa :: bool
  sel_hla :: bool

definition select_connector :: "selection \<Rightarrow> connector_kind result" where
  "select_connector c =
     (if sel_use_lite c then Inr LiteConnector
      else
        let pp_enabled = 1 < sel_pipeline_parallel_size c in
        if pp_enabled \<and> \<not> sel_use_layerwise c then Inl RuntimeError
        else
          let use_cp_parallel = (case sel_cp_sizes c of None \<Rightarrow> False | Some (p, d) \<Rightarrow> 1 < p * d);
              hla_layerwise = (sel_hla c \<and> sel_use_layerwise c \<and> sel_hla_layerwise c)
          in Inr (if sel_fawa c then FAWAConnector
                  else if sel_has_hit_ratio c then MockConnector
                  else if use_cp_parallel then CPConnector
                  else if hla_layerwise then HLALayerWiseConnector
                  else if sel_hla c then HLAConnector
                  else if sel_use_layerwise c then LayerWiseConnector
                  else DirectConnector))"

definition supports_hma :: "connector_kind \<Rightarrow> bool" where
  "supports_hma k = (k \<in> {FAWAConnector, HLALayerWiseConnector, HLAConnector})"

section \<open>Delegation\<close>

definition prefix_cache_token_metrics :: "int option \<Rightarrow> nat \<Rightarrow> int \<Rightarrow> int \<Rightarrow> int \<Rightarrow> metric list" where
  "prefix_cache_token_metrics num_tokens num_token_ids num_computed_tokens external_hit_tokens connector_block_size =
     (let total_tokens = max (case num_tokens of None \<Rightarrow> int num_token_ids | Some n \<Rightarrow> n) 0;
          gpu_hbm_hit_tokens = min (max num_computed_tokens 0) total_tokens;
          ucm_hit_tokens = min (max external_hit_tokens 0) (max (total_tokens - gpu_hbm_hit_tokens) 0);
          block_size = max connector_block_size 1
      in [MCount ''total_prefix_query_tokens_total'' total_tokens,
          MCount ''gpu_hbm_hit_tokens_total'' gpu_hbm_hit_tokens,
          MCount ''ucm_hit_tokens_total'' ucm_hit_tokens,
          MCount ''total_prefix_query_blocks_total'' (total_tokens div block_size),
          MCount ''gpu_hbm_hit_blocks_total'' (gpu_hbm_hit_tokens div block_size)])"

text \<open>The call for a direct connector behind the facade: its state is the connector's.\<close>

definition facade_get_num_new_matched_tokens ::
  "connector_cfg \<Rightarrow> ('w, 'b) kv_lookup_api_scheme \<Rightarrow> 'w scheduler \<Rightarrow> request \<Rightarrow> nat
     \<Rightarrow> (nat \<times> bool) result \<times> 'w scheduler" where
  "facade_get_num_new_matched_tokens cf store s request num_computed_tokens =
     (case get_num_new_matched_tokens cf store s request num_computed_tokens of
        (Inl e, s1) \<Rightarrow> (Inl e, s1)
      | (Inr (external_hit_tokens, need_load), s1) \<Rightarrow>
          (Inr (external_hit_tokens, need_load),
           update_stats
             (prefix_cache_token_metrics (Some (int (rq_num_tokens request))) (length (rq_all_token_ids request))
                (int num_computed_tokens) (int external_hit_tokens) (int (cf_block_size cf))) s1))"

text \<open>
  \<open>request_finished_all_groups\<close>: a connector that knows several groups is given the block ids
  of all, any other one those of the first group.
\<close>

definition facade_request_finished_all_groups ::
  "connector_kind \<Rightarrow> (req_id \<Rightarrow> vllm_id list list \<Rightarrow> 'a) \<Rightarrow> (req_id \<Rightarrow> vllm_id list \<Rightarrow> 'a) \<Rightarrow> req_id
     \<Rightarrow> vllm_id list list \<Rightarrow> 'a" where
  "facade_request_finished_all_groups kind all_groups one_group request_id block_ids =
     (if supports_hma kind then all_groups request_id block_ids
      else if block_ids \<noteq> [] then one_group request_id (block_ids ! 0)
      else one_group request_id [])"

text \<open>
  Pipeline parallelism never runs on the direct connector: without layerwise transfer the
  choice raises, unless the lite connector, which transfers nothing, was asked for; and a cache
  layout with sliding windows or linear attention is never given to a connector that ignores
  the groups, unless a hit ratio or context parallelism was configured.
\<close>

lemma selection_fits_the_model:
  "(select_connector c = Inl RuntimeError \<longleftrightarrow>
      \<not> sel_use_lite c \<and> 1 < sel_pipeline_parallel_size c \<and> \<not> sel_use_layerwise c)
   \<and> (1 < sel_pipeline_parallel_size c \<longrightarrow> select_connector c \<noteq> Inr DirectConnector)
   \<and> (sel_fawa c \<and> select_connector c = Inr k \<longrightarrow> k \<in> {LiteConnector, FAWAConnector})
   \<and> (sel_hla c \<and> \<not> sel_has_hit_ratio c \<and> (\<forall>p d. sel_cp_sizes c = Some (p, d) \<longrightarrow> p * d \<le> 1)
        \<and> select_connector c = Inr k \<longrightarrow> k = LiteConnector \<or> supports_hma k)"
  by (auto simp: select_connector_def Let_def supports_hma_def split: if_splits option.splits)

definition demo_selection :: selection where
  "demo_selection =
     \<lparr>sel_use_layerwise = True, sel_use_lite = False, sel_has_hit_ratio = False, sel_hla_layerwise = True,
      sel_pipeline_parallel_size = 2, sel_cp_sizes = Some (1, 1), sel_fawa = False, sel_hla = True\<rparr>"

lemma match_fits:
  assumes "get_num_new_matched_tokens cf store s rq c = (Inr (k, load_async), s')" and "0 < k"
  shows "c + k \<le> rq_num_tokens rq"
proof -
  obtain h where "k = reported_hit_tokens h (c + h) (rq_num_tokens rq) (full_hit_recompute_tokens cf)"
    using get_num_cases [OF assms(1)] assms(2) by auto
  from reported_hit_tokens_leave_recompute [OF this assms(2)] show ?thesis by simp
qed

text \<open>
  The tokens the facade counts as found add up: local and external hits are natural, and
  together at most the tokens of the query; and behind it the direct connector's report is
  counted in full, because it never exceeds what the request has left.
\<close>

lemma facade_metrics_are_exact:
  assumes "facade_get_num_new_matched_tokens cf store s rq c = (Inr (k, load_async), s')"
    and "0 < k"
  shows "\<exists>s1. get_num_new_matched_tokens cf store s rq c = (Inr (k, load_async), s1)
    \<and> sd_metrics s' = sd_metrics s1 @
        [MCount ''total_prefix_query_tokens_total'' (int (rq_num_tokens rq)),
         MCount ''gpu_hbm_hit_tokens_total'' (int c), MCount ''ucm_hit_tokens_total'' (int k),
         MCount ''total_prefix_query_blocks_total'' (int (rq_num_tokens rq div cf_block_size cf)),
         MCount ''gpu_hbm_hit_blocks_total'' (int (c div cf_block_size cf))]
    \<and> c + k \<le> rq_num_tokens rq"
proof -
  obtain s1 where run: "get_num_new_matched_tokens cf store s rq c = (Inr (k, load_async), s1)"
    and s': "s' = update_stats (prefix_cache_token_metrics (Some (int (rq_num_tokens rq))) (length (rq_all_token_ids rq))
        (int c) (int k) (int (cf_block_size cf))) s1"
    using assms(1) by (auto simp: facade_get_num_new_matched_tokens_def split: sum.splits prod.splits)
  have fit: "c + k \<le> rq_num_tokens rq" and bs: "0 < cf_block_size cf"
    using match_fits [OF run assms(2)] get_num_cases [OF run] by auto
  then show ?thesis
    using run by (auto simp: s' prefix_cache_token_metrics_def Let_def update_stats_def zdiv_int)
qed

end
