(* ===== verification/Hla_Groups.thy ===== *)
theory Hla_Groups
  imports Rank_Consistency Request_Hasher Dump_Planner
begin

text \<open>
  The groups of a hybrid model (\<open>hla_connector.py\<close>): layers with full attention, whose cache
  is addressed by blocks of tokens, and layers with linear attention (Mamba), of which only the
  state at a position is kept. \<open>KVCacheGroupManager\<close> hashes a request per group and looks up
  how far all groups can resume.
\<close>

section \<open>Cache specifications\<close>

text \<open>
  \<open>FullAttentionSpec\<close>, \<open>MambaSpec\<close> and any other \<open>KVCacheSpec\<close> of vLLM. The element sizes
  stand for \<open>_dtype_size\<close>. A group's spec is one of these or a table by layer name.
\<close>

datatype layer_spec =
    FullAttentionSpec nat nat nat "nat option" nat
  | MambaSpec nat bool "(nat list \<times> nat) list"
  | OtherSpec nat

datatype group_spec = SingleSpec layer_spec | UniformSpec "(string, layer_spec) dict"

record kv_cache_group =
  kg_spec :: group_spec
  kg_layer_names :: "string list"

fun spec_block_size :: "layer_spec \<Rightarrow> nat" where
  "spec_block_size (FullAttentionSpec bs _ _ _ _) = bs"
| "spec_block_size (MambaSpec bs _ _) = bs"
| "spec_block_size (OtherSpec bs) = bs"

fun is_full_attention_spec :: "layer_spec \<Rightarrow> bool" where
  "is_full_attention_spec (FullAttentionSpec _ _ _ _ _) = True"
| "is_full_attention_spec _ = False"

fun is_mamba_spec :: "layer_spec \<Rightarrow> bool" where
  "is_mamba_spec (MambaSpec _ _ _) = True"
| "is_mamba_spec _ = False"

fun is_align_spec :: "layer_spec \<Rightarrow> bool" where
  "is_align_spec (MambaSpec _ align _) = align"
| "is_align_spec _ = False"

definition block_size_from_kv_cache_spec :: "group_spec \<Rightarrow> nat result" where
  "block_size_from_kv_cache_spec spec =
     (case spec of
        SingleSpec s \<Rightarrow> Inr (spec_block_size s)
      | UniformSpec specs \<Rightarrow> (case specs of [] \<Rightarrow> Inl StopIteration | (_, s) # _ \<Rightarrow> Inr (spec_block_size s)))"

definition is_mamba_align_kv_cache_spec :: "group_spec \<Rightarrow> bool result" where
  "is_mamba_align_kv_cache_spec spec =
     (case spec of
        SingleSpec s \<Rightarrow> Inr (is_align_spec s)
      | UniformSpec specs \<Rightarrow> (case specs of [] \<Rightarrow> Inl StopIteration | (_, s) # _ \<Rightarrow> Inr (is_align_spec s)))"

text \<open>\<open>layer_name_to_kv_cache_spec\<close>: a default dictionary of lists, filled group by group.\<close>

fun add_layer_specs ::
  "group_spec \<Rightarrow> string list \<Rightarrow> (string, layer_spec list) dict \<Rightarrow> (string, layer_spec list) dict result" where
  "add_layer_specs spec [] out = Inr out"
| "add_layer_specs spec (name # names) out =
     rbind (case spec of SingleSpec s \<Rightarrow> Inr s | UniformSpec by_name \<Rightarrow> py_key by_name name) (\<lambda>s.
       add_layer_specs spec names (dict_set name (dict_get_or out name [] @ [s]) out))"

fun layer_specs_loop ::
  "kv_cache_group list \<Rightarrow> (string, layer_spec list) dict \<Rightarrow> (string, layer_spec list) dict result" where
  "layer_specs_loop [] out = Inr out"
| "layer_specs_loop (g # gs) out = rbind (add_layer_specs (kg_spec g) (kg_layer_names g) out) (layer_specs_loop gs)"

definition layer_name_to_kv_cache_spec :: "kv_cache_group list \<Rightarrow> (string, layer_spec list) dict result" where
  "layer_name_to_kv_cache_spec groups = layer_specs_loop groups []"

text \<open>
  \<open>supports_kv_cache_layout\<close>: some raw tensor is shared by layers of full attention and by
  layers whose Mamba state is aligned with the blocks. \<open>platform_ok\<close> is the check of the
  platform; \<open>None\<close> is a missing configuration.
\<close>

definition shared_specs_of :: "(string, layer_spec list) dict \<Rightarrow> string list \<Rightarrow> layer_spec list" where
  "shared_specs_of specs shared_by = concat (map (\<lambda>name. dict_get_or specs name []) shared_by)"

definition supports_kv_cache_layout ::
  "bool \<Rightarrow> (kv_cache_group list \<times> string list list) option \<Rightarrow> bool result" where
  "supports_kv_cache_layout platform_ok config =
     (case config of
        None \<Rightarrow> Inr False
      | Some (groups, shared) \<Rightarrow>
          if \<not> platform_ok then Inr False
          else rbind (layer_name_to_kv_cache_spec groups) (\<lambda>specs.
            Inr (\<exists>shared_by \<in> set shared.
              (\<exists>s \<in> set (shared_specs_of specs shared_by). is_full_attention_spec s)
              \<and> (\<exists>s \<in> set (shared_specs_of specs shared_by). is_align_spec s))))"

section \<open>The group manager\<close>

record group_info =
  gi_group_id :: nat
  gi_block_size :: nat
  gi_layer_names :: "string list"
  gi_seed :: bytes
  gi_is_mamba_align :: bool

record group_manager =
  mg_hasher :: "hash_input \<Rightarrow> bytes"
  mg_groups :: "group_info list"
  mg_lcm_block_size :: nat

definition full_attn_groups :: "group_manager \<Rightarrow> group_info list" where
  "full_attn_groups m = filter (\<lambda>g. \<not> gi_is_mamba_align g) (mg_groups m)"

definition state_groups :: "group_manager \<Rightarrow> group_info list" where
  "state_groups m = filter gi_is_mamba_align (mg_groups m)"

fun make_group_infos ::
  "(hash_input \<Rightarrow> bytes) \<Rightarrow> bytes \<Rightarrow> nat \<Rightarrow> kv_cache_group list \<Rightarrow> group_info list result" where
  "make_group_infos h base_seed group_id [] = Inr []"
| "make_group_infos h base_seed group_id (g # gs) =
     rbind (block_size_from_kv_cache_spec (kg_spec g)) (\<lambda>bs.
       rbind (is_mamba_align_kv_cache_spec (kg_spec g)) (\<lambda>align.
         rbind (make_group_infos h base_seed (Suc group_id) gs) (\<lambda>rest.
           Inr (\<lparr>gi_group_id = group_id, gi_block_size = bs, gi_layer_names = kg_layer_names g,
                 gi_seed = h (HGroupSeed base_seed group_id), gi_is_mamba_align = align\<rparr> # rest))))"

text \<open>
  The constructor. \<open>math.lcm\<close> of a block size 0 is 0 and the divisibility checks then divide
  by zero or fail; the modulus is only taken where it is defined.
\<close>

definition new_group_manager ::
  "(hash_input \<Rightarrow> bytes) \<Rightarrow> bytes \<Rightarrow> kv_cache_group list \<Rightarrow> group_manager result" where
  "new_group_manager h base_seed groups =
     rbind (make_group_infos h base_seed 0 groups) (\<lambda>infos.
       let m = \<lparr>mg_hasher = h, mg_groups = infos, mg_lcm_block_size = foldr (\<lambda>g. lcm (gi_block_size g)) infos 1\<rparr>
       in if full_attn_groups m = [] then Inl AssertionError
          else if \<exists>g \<in> set infos. gi_block_size g = 0 then Inl ZeroDivisionError
          else if \<exists>g \<in> set infos. mg_lcm_block_size m mod gi_block_size g \<noteq> 0 then Inl AssertionError
          else Inr m)"

definition compute_block_hashes :: "group_manager \<Rightarrow> group_info \<Rightarrow> nat list \<Rightarrow> bytes list" where
  "compute_block_hashes m g token_ids =
     (if gi_is_mamba_align g then replicate (length token_ids div gi_block_size g) []
      else generate_hash_loop (mg_hasher m) (gi_block_size g) token_ids 0 (gi_seed g))"

definition compute_all_group_block_ids :: "group_manager \<Rightarrow> nat list \<Rightarrow> bytes list list" where
  "compute_all_group_block_ids m token_ids = map (\<lambda>g. compute_block_hashes m g token_ids) (mg_groups m)"

definition primary_group :: "group_manager \<Rightarrow> group_info" where
  "primary_group m = hd (full_attn_groups m)"

definition compute_mamba_align_state_hash ::
  "group_manager \<Rightarrow> group_info \<Rightarrow> nat \<Rightarrow> bytes list list \<Rightarrow> bytes option" where
  "compute_mamba_align_state_hash m g seq_len group_block_ids =
     (if seq_len = 0 \<or> seq_len mod mg_lcm_block_size m \<noteq> 0 then None
      else
        let primary = primary_group m;
            n = seq_len div gi_block_size primary
        in if n = 0 then None
           else
             let ids = group_block_ids ! gi_group_id primary;
                 prefix_idx = n - 1
             in if length ids \<le> prefix_idx then None
                else if ids ! prefix_idx = [] then None
                else Some (mg_hasher m (HMambaState (gi_seed g) seq_len (ids ! prefix_idx))))"

section \<open>The lookup in two stages\<close>

text \<open>
  The lookups thread the world and count their failures. A stage-one failure counts as no hit
  of that group; \<open>lookup_on_prefix\<close> answers an index, so the number of hits is one more.
\<close>

fun hla_candidates ::
  "('w \<Rightarrow> bytes list \<Rightarrow> int result \<times> 'w) \<Rightarrow> nat \<Rightarrow> bytes list list \<Rightarrow> group_info list \<Rightarrow> 'w \<times> metric list
     \<Rightarrow> nat list \<times> 'w \<times> metric list" where
  "hla_candidates lookup num_computed_tokens group_block_ids [] s = ([], s)"
| "hla_candidates lookup num_computed_tokens group_block_ids (fa # rest) (w, ms) =
     (let fa_external = drop (num_computed_tokens div gi_block_size fa) (group_block_ids ! gi_group_id fa);
          (c, s1) =
            (if fa_external = [] then (0, (w, ms))
             else
               (case lookup w fa_external of
                  (Inl e, w') \<Rightarrow> (0, (w', ms @ [MCount ''connector_lookup_errors_total'' 1]))
                | (Inr index, w') \<Rightarrow> (nat (max (index + 1) 0) * gi_block_size fa, (w', ms))));
          (cs, s2) = hla_candidates lookup num_computed_tokens group_block_ids rest s1
      in (c # cs, s2))"

text \<open>\<open>range(hi, lo, -step)\<close> for a positive step.\<close>

definition py_range_down :: "nat \<Rightarrow> nat \<Rightarrow> nat \<Rightarrow> nat list" where
  "py_range_down hi lo step = map (\<lambda>i. hi - i * step) [0..<(hi - lo + step - 1) div step]"

definition position_hashes :: "group_manager \<Rightarrow> bytes list list \<Rightarrow> nat \<Rightarrow> bytes list" where
  "position_hashes m group_block_ids pos =
     map (\<lambda>sg. case compute_mamba_align_state_hash m sg pos group_block_ids of None \<Rightarrow> [] | Some x \<Rightarrow> x)
       (state_groups m)"

text \<open>The backward scan: \<open>Inl\<close> after a failed lookup, else the position found, if any.\<close>

fun scan_states ::
  "group_manager \<Rightarrow> ('w \<Rightarrow> bytes list \<Rightarrow> bool list result \<times> 'w) \<Rightarrow> bytes list list \<Rightarrow> nat list \<Rightarrow> 'w
     \<Rightarrow> nat option result \<times> 'w" where
  "scan_states m lookup group_block_ids [] w = (Inr None, w)"
| "scan_states m lookup group_block_ids (pos # rest) w =
     (case lookup w (position_hashes m group_block_ids pos) of
        (Inl e, w') \<Rightarrow> (Inl e, w')
      | (Inr results, w') \<Rightarrow>
          if list_all id results then (Inr (Some pos), w')
          else scan_states m lookup group_block_ids rest w')"

definition mamba_prefetch_hashes :: "group_manager \<Rightarrow> bytes list list \<Rightarrow> nat \<Rightarrow> bytes list" where
  "mamba_prefetch_hashes m group_block_ids best_pos =
     concat (map (\<lambda>k.
         concat (map (\<lambda>sg. case compute_mamba_align_state_hash m sg (k * mg_lcm_block_size m) group_block_ids of
                             None \<Rightarrow> [] | Some x \<Rightarrow> [x]) (state_groups m)))
       [1..<(best_pos + mg_lcm_block_size m - 1) div mg_lcm_block_size m + 1])"

definition lookup_external_hit_tokens ::
  "group_manager \<Rightarrow> ('w \<Rightarrow> bytes list \<Rightarrow> int result \<times> 'w) \<Rightarrow> ('w \<Rightarrow> bytes list \<Rightarrow> bool list result \<times> 'w)
     \<Rightarrow> nat \<Rightarrow> bytes list list \<Rightarrow> 'w \<times> metric list \<Rightarrow> (nat \<times> nat \<times> bytes list) result \<times> 'w \<times> metric list" where
  "lookup_external_hit_tokens m lookup_on_prefix lookup_all num_computed_tokens group_block_ids s =
     (let L = mg_lcm_block_size m in
      if length group_block_ids \<noteq> length (mg_groups m) then (Inl AssertionError, s)
      else if num_computed_tokens mod L \<noteq> 0 then (Inl AssertionError, s)
      else
        (case hla_candidates lookup_on_prefix num_computed_tokens group_block_ids (full_attn_groups m) s of
           (candidates, w, ms) \<Rightarrow>
             let external_hit_tokens = min_list candidates div L * L in
             if candidates = [] then (Inl ValueError, w, ms)
             else if external_hit_tokens = 0 then (Inr (0, 0, []), w, ms)
             else if state_groups m = []
             then (Inr (external_hit_tokens, external_hit_tokens div L, []), w, ms)
             else
               (case scan_states m lookup_all group_block_ids
                       (py_range_down (num_computed_tokens + external_hit_tokens) num_computed_tokens L) w of
                  (Inl e, w') \<Rightarrow> (Inr (0, 0, []), w', ms @ [MCount ''connector_lookup_errors_total'' 1])
                | (Inr None, w') \<Rightarrow> (Inr (0, 0, []), w', ms)
                | (Inr (Some best_pos), w') \<Rightarrow>
                    let ext = best_pos - num_computed_tokens
                    in (Inr (ext, ext div L, mamba_prefetch_hashes m group_block_ids best_pos), w', ms))))"

section \<open>Well-formed managers\<close>

definition manager_ok :: "group_manager \<Rightarrow> bool" where
  "manager_ok m \<longleftrightarrow>
     full_attn_groups m \<noteq> [] \<and> 0 < mg_lcm_block_size m
     \<and> (\<forall>g \<in> set (mg_groups m). 0 < gi_block_size g \<and> gi_block_size g dvd mg_lcm_block_size m
          \<and> gi_group_id g < length (mg_groups m))
     \<and> map gi_group_id (mg_groups m) = [0..<length (mg_groups m)]"

lemma make_group_infos_ids:
  "make_group_infos h seed n gs = Inr infos \<Longrightarrow> map gi_group_id infos = [n..<n + length infos]"
proof (induction gs arbitrary: n infos)
  case Nil
  then show ?case by simp
next
  case (Cons g gs)
  then obtain rest bs al where "make_group_infos h seed (Suc n) gs = Inr rest"
    "infos = \<lparr>gi_group_id = n, gi_block_size = bs, gi_layer_names = kg_layer_names g,
        gi_seed = h (HGroupSeed seed n), gi_is_mamba_align = al\<rparr> # rest"
    by (auto simp: rbind_Inr_iff)
  moreover have "[n..<n + Suc k] = n # [Suc n..<Suc n + k]" for k by (simp add: upt_conv_Cons)
  ultimately show ?case using Cons.IH by simp
qed

lemma foldr_lcm_pos: "\<forall>g \<in> set gs. 0 < gi_block_size g \<Longrightarrow> 0 < foldr (\<lambda>g. lcm (gi_block_size g)) gs (1 :: nat)"
  by (induction gs) (simp_all add: lcm_pos_nat)

lemma new_group_manager_ok:
  assumes "new_group_manager h seed gs = Inr m"
  shows "manager_ok m" and "mg_hasher m = h"
proof -
  obtain infos where infos: "make_group_infos h seed 0 gs = Inr infos"
    and m: "m = \<lparr>mg_hasher = h, mg_groups = infos, mg_lcm_block_size = foldr (\<lambda>g. lcm (gi_block_size g)) infos 1\<rparr>"
    and fa: "full_attn_groups m \<noteq> []" and pos: "\<forall>g \<in> set infos. 0 < gi_block_size g"
    and dv: "\<forall>g \<in> set infos. mg_lcm_block_size m mod gi_block_size g = 0"
    using assms by (auto simp: new_group_manager_def rbind_Inr_iff Let_def split: if_splits)
  have ids: "map gi_group_id infos = [0..<length infos]" using make_group_infos_ids [OF infos] by simp
  then have "\<forall>g \<in> set infos. gi_group_id g < length infos"
    by (metis atLeastLessThan_iff image_eqI list.set_map set_upt)
  with fa pos dv ids foldr_lcm_pos [OF pos] show "manager_ok m" and "mg_hasher m = h"
    by (auto simp: manager_ok_def m dvd_eq_mod_eq_0)
qed

lemma manager_okD:
  assumes "manager_ok m"
  shows "full_attn_groups m \<noteq> []" and "0 < mg_lcm_block_size m"
    and "g \<in> set (mg_groups m) \<Longrightarrow> 0 < gi_block_size g"
    and "g \<in> set (mg_groups m) \<Longrightarrow> gi_block_size g dvd mg_lcm_block_size m"
    and "g \<in> set (mg_groups m) \<Longrightarrow> gi_group_id g < length (mg_groups m)"
  using assms by (auto simp: manager_ok_def)

lemma group_at:
  assumes "manager_ok m" and "i < length (mg_groups m)"
  shows "gi_group_id (mg_groups m ! i) = i"
proof -
  have "map gi_group_id (mg_groups m) ! i = [0..<length (mg_groups m)] ! i"
    using assms(1) by (simp add: manager_ok_def)
  with assms(2) show ?thesis by simp
qed

section \<open>What the lookup finds\<close>

text \<open>
  A position beyond the local hit at which every group can resume: all blocks of the attention
  groups up to it are there, and the state of every state group at it.
\<close>

definition prefix_there :: "(bytes \<Rightarrow> bool) \<Rightarrow> bytes list \<Rightarrow> nat \<Rightarrow> nat \<Rightarrow> bool" where
  "prefix_there present ids a b \<longleftrightarrow> (\<forall>i. a \<le> i \<and> i < b \<longrightarrow> i < length ids \<and> present (ids ! i))"

definition resumable :: "group_manager \<Rightarrow> (bytes \<Rightarrow> bool) \<Rightarrow> bytes list list \<Rightarrow> nat \<Rightarrow> nat \<Rightarrow> bool" where
  "resumable m present ids c pos \<longleftrightarrow>
     c < pos \<and> mg_lcm_block_size m dvd pos
     \<and> (\<forall>fa \<in> set (full_attn_groups m).
          prefix_there present (ids ! gi_group_id fa) (c div gi_block_size fa) (pos div gi_block_size fa))
     \<and> list_all present (position_hashes m ids pos)"

definition honest_lookups ::
  "(bytes \<Rightarrow> bool) \<Rightarrow> ('w \<Rightarrow> bytes list \<Rightarrow> int result \<times> 'w) \<Rightarrow> ('w \<Rightarrow> bytes list \<Rightarrow> bool list result \<times> 'w) \<Rightarrow> bool" where
  "honest_lookups present lp la \<longleftrightarrow>
     (\<forall>w ids. fst (lp w ids) = Inr (int (length (takeWhile present ids)) - 1))
     \<and> (\<forall>w ids. fst (la w ids) = Inr (map present ids))"

lemma prefix_there_takeWhile:
  "prefix_there present ids a b \<longleftrightarrow> b - a \<le> length (takeWhile present (drop a ids))"
proof
  assume *: "prefix_there present ids a b"
  show "b - a \<le> length (takeWhile present (drop a ids))"
  proof (rule ccontr)
    let ?n = "length (takeWhile present (drop a ids))"
    assume "\<not> b - a \<le> ?n"
    then have "a + ?n < b" by simp
    with * have n: "a + ?n < length ids" "present (ids ! (a + ?n))" by (auto simp: prefix_there_def)
    then have "?n < length (drop a ids)" by simp
    from nth_length_takeWhile [OF this] n show False by simp
  qed
next
  assume *: "b - a \<le> length (takeWhile present (drop a ids))"
  show "prefix_there present ids a b"
    unfolding prefix_there_def
  proof (intro allI impI)
    fix i
    assume i: "a \<le> i \<and> i < b"
    then have j: "i - a < length (takeWhile present (drop a ids))" using * by linarith
    then have "i - a < length (drop a ids)" using length_takeWhile_le by (rule less_le_trans)
    moreover have "present (drop a ids ! (i - a))" using j by (metis nth_mem set_takeWhileD takeWhile_nth)
    ultimately show "i < length ids \<and> present (ids ! i)" using i by simp
  qed
qed

lemma hla_candidates_honest:
  assumes "honest_lookups present lp la"
  shows "hla_candidates lp c ids fas (w, ms) = (cs, w', ms') \<Longrightarrow>
    cs = map (\<lambda>fa. length (takeWhile present (drop (c div gi_block_size fa) (ids ! gi_group_id fa))) * gi_block_size fa) fas
    \<and> ms' = ms"
proof (induction fas arbitrary: w ms cs)
  case Nil
  then show ?case by simp
next
  case (Cons fa fas)
  let ?ext = "drop (c div gi_block_size fa) (ids ! gi_group_id fa)"
  obtain r v where l: "lp w ?ext = (r, v)" by (cases "lp w ?ext")
  have r: "r = Inr (int (length (takeWhile present ?ext)) - 1)"
    using assms l unfolding honest_lookups_def by (metis fst_conv)
  define w1 where "w1 = (if ?ext = [] then w else v)"
  obtain cs' where rest: "hla_candidates lp c ids fas (w1, ms) = (cs', w', ms')"
    and cs: "cs = length (takeWhile present ?ext) * gi_block_size fa # cs'"
    using Cons.prems l r by (auto simp: Let_def w1_def split: if_splits prod.splits)
  from Cons.IH [OF rest] cs show ?case by simp
qed

lemma block_multiple_le:
  fixes c pos bs n :: nat
  assumes "0 < bs" and "bs dvd c" and "bs dvd pos"
  shows "pos div bs - c div bs \<le> n \<longleftrightarrow> pos - c \<le> n * bs"
proof -
  obtain a b where ab: "c = bs * a" "pos = bs * b" using assms(2,3) by (auto elim!: dvdE)
  have "pos - c = (b - a) * bs" unfolding ab by (metis diff_mult_distrib2 mult.commute)
  with assms(1) show ?thesis by (simp add: ab)
qed

lemma multiple_le_div:
  fixes c pos L M :: nat
  assumes "0 < L" and "L dvd c" and "L dvd pos"
  shows "pos - c \<le> M \<longleftrightarrow> pos \<le> c + M div L * L"
proof -
  obtain a b where ab: "c = a * L" "pos = b * L" using assms(2,3) by (metis dvdE mult.commute)
  have "pos - c \<le> M \<longleftrightarrow> b - a \<le> M div L"
    unfolding ab less_eq_div_iff_mult_less_eq [OF assms(1)] by (simp add: diff_mult_distrib)
  also have "\<dots> \<longleftrightarrow> b \<le> a + M div L" by auto
  also have "\<dots> \<longleftrightarrow> pos \<le> c + M div L * L"
    unfolding ab using assms(1) by (simp flip: add_mult_distrib)
  finally show ?thesis .
qed

lemma fa_there_iff:
  assumes ok: "manager_ok m" and c: "mg_lcm_block_size m dvd c" and pos: "mg_lcm_block_size m dvd pos"
  shows "(\<forall>fa \<in> set (full_attn_groups m).
            prefix_there present (ids ! gi_group_id fa) (c div gi_block_size fa) (pos div gi_block_size fa))
    \<longleftrightarrow> pos - c \<le> min_list (map (\<lambda>fa. length (takeWhile present (drop (c div gi_block_size fa) (ids ! gi_group_id fa)))
                                      * gi_block_size fa) (full_attn_groups m))"
proof -
  have "prefix_there present (ids ! gi_group_id fa) (c div gi_block_size fa) (pos div gi_block_size fa)
      \<longleftrightarrow> pos - c \<le> length (takeWhile present (drop (c div gi_block_size fa) (ids ! gi_group_id fa))) * gi_block_size fa"
    if "fa \<in> set (full_attn_groups m)" for fa
  proof -
    from that have fa: "fa \<in> set (mg_groups m)" by (simp add: full_attn_groups_def)
    note dv = manager_okD(4) [OF ok fa]
    show ?thesis
      unfolding prefix_there_takeWhile
      by (rule block_multiple_le [OF manager_okD(3) [OF ok fa] dvd_trans [OF dv c] dvd_trans [OF dv pos]])
  qed
  then show ?thesis using manager_okD(1) [OF ok] by (simp add: min_list_Min Min_ge_iff)
qed

lemma scan_states_honest:
  assumes "honest_lookups present lp la"
  shows "fst (scan_states m la ids ps w) = Inr (find (\<lambda>pos. list_all present (position_hashes m ids pos)) ps)"
proof (induction ps arbitrary: w)
  case Nil
  then show ?case by simp
next
  case (Cons pos ps)
  obtain r v where l: "la w (position_hashes m ids pos) = (r, v)" by (cases "la w (position_hashes m ids pos)")
  then have "r = Inr (map present (position_hashes m ids pos))"
    using assms unfolding honest_lookups_def by (metis fst_conv)
  with l Cons.IH show ?case by (simp add: list.pred_map o_def)
qed

lemma py_range_down_multiples:
  assumes "0 < (L :: nat)"
  shows "py_range_down (c + n * L) c L = map (\<lambda>i. c + (n - i) * L) [0..<n]"
proof -
  have "(n * L + L - 1) div L = n"
  proof -
    have "n * L + L - 1 = L - 1 + n * L" using assms by simp
    moreover have "(L - 1 + n * L) div L = n + (L - 1) div L" by (rule div_mult_self1) (use assms in simp)
    ultimately show ?thesis using assms by simp
  qed
  then show ?thesis by (auto simp: py_range_down_def diff_mult_distrib)
qed

lemma find_down:
  fixes P :: "nat \<Rightarrow> bool"
  assumes "find P (map (\<lambda>i. c + (n - i) * L) [0..<n]) = r" and "0 < L"
  shows "(case r of None \<Rightarrow> \<forall>k. 0 < k \<and> k \<le> n \<longrightarrow> \<not> P (c + k * L)
          | Some pos \<Rightarrow> \<exists>k. 0 < k \<and> k \<le> n \<and> pos = c + k * L \<and> P pos \<and> (\<forall>j. k < j \<and> j \<le> n \<longrightarrow> \<not> P (c + j * L)))"
proof (cases r)
  case None
  with assms(1) have all: "\<forall>i < n. \<not> P (c + (n - i) * L)" by (auto simp: find_None_iff)
  have "\<not> P (c + k * L)" if "0 < k" "k \<le> n" for k
    using all [rule_format, of "n - k"] that by simp
  with None show ?thesis by simp
next
  case (Some pos)
  with assms(1) obtain i where i: "i < n" "P pos" "pos = c + (n - i) * L" "\<forall>j < i. \<not> P (c + (n - j) * L)"
    by (auto simp: find_Some_iff)
  have "\<not> P (c + j * L)" if "n - i < j" "j \<le> n" for j
    using i(4) [rule_format, of "n - j"] that by simp
  with i Some show ?thesis by (auto intro!: exI [of _ "n - i"])
qed

lemma lookup_finds:
  assumes ok: "manager_ok m" and honest: "honest_lookups present lp la"
    and len: "length ids = length (mg_groups m)" and c: "mg_lcm_block_size m dvd c"
  shows "\<exists>ext hashes w'. lookup_external_hit_tokens m lp la c ids (w, ms) = (Inr (ext, ext div mg_lcm_block_size m, hashes), w', ms)
    \<and> (0 < ext \<longrightarrow> resumable m present ids c (c + ext))
    \<and> (\<forall>pos. resumable m present ids c pos \<longrightarrow> pos \<le> c + ext)"
proof -
  let ?L = "mg_lcm_block_size m"
  define cs where "cs = map (\<lambda>fa. length (takeWhile present (drop (c div gi_block_size fa) (ids ! gi_group_id fa)))
      * gi_block_size fa) (full_attn_groups m)"
  define n where "n = min_list cs div ?L"
  define P where "P pos \<longleftrightarrow> list_all present (position_hashes m ids pos)" for pos
  note L = manager_okD(2) [OF ok]
  obtain cs0 w1 ms1 where cand0: "hla_candidates lp c ids (full_attn_groups m) (w, ms) = (cs0, w1, ms1)"
    by (metis prod_cases3)
  from hla_candidates_honest [OF honest cand0] cand0
  have cand: "hla_candidates lp c ids (full_attn_groups m) (w, ms) = (cs, w1, ms)" by (simp add: cs_def)
  have cs: "cs \<noteq> []" using manager_okD(1) [OF ok] by (simp add: cs_def)
  have fits: "pos - c \<le> min_list cs \<longleftrightarrow> pos \<le> c + n * ?L" if "?L dvd pos" for pos
    unfolding n_def by (rule multiple_le_div [OF L c that])
  have res: "resumable m present ids c pos \<longleftrightarrow> (\<exists>k. 0 < k \<and> k \<le> n \<and> pos = c + k * ?L \<and> P pos)" for pos
  proof
    assume r: "resumable m present ids c pos"
    then have dv: "?L dvd pos" and lt: "c < pos" and p: "P pos" by (simp_all add: resumable_def P_def)
    have "?L dvd pos - c" using dv c by (rule dvd_diff_nat)
    then obtain k where k: "pos - c = k * ?L" by (metis dvdE mult.commute)
    have "pos - c \<le> min_list cs" using r fa_there_iff [OF ok c dv] by (simp add: resumable_def cs_def)
    then have "pos \<le> c + n * ?L" unfolding fits [OF dv] .
    then have "k * ?L \<le> n * ?L" unfolding k [symmetric] by simp
    with L have "k \<le> n" by simp
    moreover have "0 < k" using k lt by (cases k) auto
    ultimately show "\<exists>k. 0 < k \<and> k \<le> n \<and> pos = c + k * ?L \<and> P pos" using k lt p by (auto intro!: exI [of _ k])
  next
    assume "\<exists>k. 0 < k \<and> k \<le> n \<and> pos = c + k * ?L \<and> P pos"
    then obtain k where k: "0 < k" "k \<le> n" "pos = c + k * ?L" "P pos" by blast
    have dv: "?L dvd pos" using c k by simp
    have "pos \<le> c + n * ?L" using k by simp
    with fits [OF dv] fa_there_iff [OF ok c dv, of present ids] k L dv show "resumable m present ids c pos"
      by (simp add: resumable_def cs_def P_def)
  qed
  define E where "E = n * ?L"
  show ?thesis
  proof (cases "n = 0 \<or> state_groups m = []")
    case True
    have P: "P pos" if "n \<noteq> 0" for pos using True that by (simp add: P_def position_hashes_def)
    have run: "lookup_external_hit_tokens m lp la c ids (w, ms) = (Inr (E, E div ?L, []), w1, ms)"
      using True len c L cand cs by (auto simp: lookup_external_hit_tokens_def Let_def E_def n_def dvd_eq_mod_eq_0)
    have "0 < E \<longrightarrow> resumable m present ids c (c + E)" unfolding res E_def using P by auto
    moreover have "\<forall>pos. resumable m present ids c pos \<longrightarrow> pos \<le> c + E" unfolding res E_def by auto
    ultimately show ?thesis using run by blast
  next
    case False
    define r where "r = find P (map (\<lambda>i. c + (n - i) * ?L) [0..<n])"
    obtain q w2 where scan0: "scan_states m la ids (py_range_down (c + n * ?L) c ?L) w1 = (q, w2)"
      by (cases "scan_states m la ids (py_range_down (c + n * ?L) c ?L) w1")
    have "q = Inr (find (\<lambda>pos. list_all present (position_hashes m ids pos)) (map (\<lambda>i. c + (n - i) * ?L) [0..<n]))"
      using scan_states_honest [OF honest, of m ids "py_range_down (c + n * ?L) c ?L" w1, unfolded scan0 fst_conv]
      by (simp add: py_range_down_multiples [OF L])
    with scan0 have scan: "scan_states m la ids (py_range_down (c + n * ?L) c ?L) w1 = (Inr r, w2)"
      by (simp add: r_def P_def [abs_def])
    have look: "lookup_external_hit_tokens m lp la c ids (w, ms) =
        (case r of None \<Rightarrow> (Inr (0, 0, []), w2, ms)
         | Some pos \<Rightarrow> (Inr (pos - c, (pos - c) div ?L, mamba_prefetch_hashes m ids pos), w2, ms))"
      using False len c L cand cs scan
      by (auto simp: lookup_external_hit_tokens_def Let_def n_def dvd_eq_mod_eq_0 split: option.split)
    note f = find_down [OF r_def [symmetric] L]
    show ?thesis
    proof (cases r)
      case None
      with f have "\<forall>pos. \<not> resumable m present ids c pos" unfolding res by auto
      with None look show ?thesis by auto
    next
      case (Some pos)
      with f obtain k where k: "0 < k" "k \<le> n" "pos = c + k * ?L" "P pos" "\<forall>j. k < j \<and> j \<le> n \<longrightarrow> \<not> P (c + j * ?L)"
        by auto
      have "resumable m present ids c (c + (pos - c))" unfolding res using k by auto
      moreover have "pos' \<le> c + (pos - c)" if "resumable m present ids c pos'" for pos'
        using that k unfolding res by (metis add_diff_cancel_left' add_le_cancel_left linorder_not_le mult_le_mono1)
      ultimately show ?thesis using Some look by auto
    qed
  qed
qed

text \<open>
  C9: The two-stage lookup of the hybrid connector finds the longest position at which all
  groups can resume: with truthful lookups it does not raise, the hit it reports ends at such a
  position, aligned to every group's blocks, and no later position is one.
\<close>

theorem hla_lookup_is_longest:
  assumes ok: "manager_ok m" and honest: "honest_lookups present lp la"
    and len: "length ids = length (mg_groups m)" and c: "mg_lcm_block_size m dvd c"
  shows "\<exists>ext hashes w'. lookup_external_hit_tokens m lp la c ids (w, ms) = (Inr (ext, ext div mg_lcm_block_size m, hashes), w', ms)
    \<and> (0 < ext \<longrightarrow> resumable m present ids c (c + ext))
    \<and> (\<forall>pos. resumable m present ids c pos \<longrightarrow> pos \<le> c + ext)"
  using assms by (rule lookup_finds)

section \<open>Ids of blocks and of states\<close>

lemma group_ids_nth:
  assumes "manager_ok m" and "g \<in> set (mg_groups m)"
  shows "compute_all_group_block_ids m toks ! gi_group_id g = compute_block_hashes m g toks"
proof -
  obtain i where i: "i < length (mg_groups m)" "g = mg_groups m ! i" using assms(2) by (metis in_set_conv_nth)
  with group_at [OF assms(1) i(1)] show ?thesis by (simp add: compute_all_group_block_ids_def)
qed

lemma primary_in: "manager_ok m \<Longrightarrow> primary_group m \<in> set (mg_groups m) \<and> \<not> gi_is_mamba_align (primary_group m)"
  using manager_okD(1) hd_in_set by (fastforce simp: primary_group_def full_attn_groups_def)

lemma compute_block_hashes_chain:
  "\<not> gi_is_mamba_align g \<Longrightarrow> compute_block_hashes m g toks = chain_ids (mg_hasher m) (gi_block_size g) toks (gi_seed g)"
  by (simp add: compute_block_hashes_def flip: generate_hash_def generate_hash_chain)

lemma chain_ids_hashed: "x \<in> set (chain_ids h bs toks parent) \<Longrightarrow> \<exists>y. x = h y"
proof (induction h bs toks parent rule: chain_ids.induct)
  case (1 h bs toks parent)
  show ?case
  proof (cases "bs = 0 \<or> length toks < bs")
    case True
    then have "chain_ids h bs toks parent = []" by (subst chain_ids.simps) auto
    with 1 show ?thesis by simp
  next
    case False
    with 1 show ?thesis by (auto simp: chain_ids_step)
  qed
qed

lemma primary_ids:
  assumes "manager_ok m"
  shows "compute_all_group_block_ids m toks ! gi_group_id (primary_group m)
    = chain_ids (mg_hasher m) (gi_block_size (primary_group m)) toks (gi_seed (primary_group m))"
  using primary_in [OF assms] by (simp add: group_ids_nth [OF assms] compute_block_hashes_chain)

text \<open>
  The key of a linear-attention state depends on the tokens before its position only: two
  requests that agree on the first \<open>n\<close> tokens use the same key for the state at \<open>n\<close>, at a
  resumption boundary both have one unless the hash of the prefix is empty, and off the
  boundaries neither has one. So a state one request dumps is the state the other finds.
\<close>

lemma state_keys_follow_the_prefix:
  assumes ok: "manager_ok m" and "n \<le> length toks1" and "n \<le> length toks2" and "take n toks1 = take n toks2"
    and hash: "\<forall>x. mg_hasher m x \<noteq> []"
  shows "compute_mamba_align_state_hash m g n (compute_all_group_block_ids m toks1)
      = compute_mamba_align_state_hash m g n (compute_all_group_block_ids m toks2)
    \<and> (compute_mamba_align_state_hash m g n (compute_all_group_block_ids m toks1) \<noteq> None
        \<longleftrightarrow> 0 < n \<and> mg_lcm_block_size m dvd n)"
proof (cases "0 < n \<and> mg_lcm_block_size m dvd n")
  case False
  then show ?thesis by (auto simp: compute_mamba_align_state_hash_def dvd_eq_mod_eq_0)
next
  case True
  let ?p = "primary_group m"
  let ?bs = "gi_block_size ?p"
  let ?ids = "\<lambda>toks. chain_ids (mg_hasher m) ?bs toks (gi_seed ?p)"
  have p: "?p \<in> set (mg_groups m)" using primary_in [OF ok] by simp
  have bs: "0 < ?bs" and dv: "?bs dvd n"
    using manager_okD(3,4) [OF ok p] True by (auto intro: dvd_trans)
  let ?k = "n div ?bs"
  have k: "0 < ?k" "?k * ?bs = n" using dv bs True by (auto simp: div_greater_zero_iff dvd_imp_le)
  have long: "?k \<le> length (?ids toks)" if "n \<le> length toks" for toks
    using that by (simp add: length_chain_ids div_le_mono)
  have pre: "take ?k (?ids toks) = ?ids (take n toks)" for toks
    using chain_ids_take [of "mg_hasher m" ?bs ?k toks "gi_seed ?p"] k by simp
  have nth: "?ids toks ! (?k - 1) = ?ids (take n toks) ! (?k - 1)" if "n \<le> length toks" for toks
    using k pre [of toks] by (metis diff_less less_numeral_extra(1) nth_take)
  have ne: "?ids toks ! (?k - 1) \<noteq> []" if "n \<le> length toks" for toks
    using chain_ids_hashed [of "?ids toks ! (?k - 1)"] long [OF that] k hash by (metis diff_less less_le_trans nth_mem zero_less_one)
  have "compute_mamba_align_state_hash m g n (compute_all_group_block_ids m toks)
      = Some (mg_hasher m (HMambaState (gi_seed g) n (?ids (take n toks) ! (?k - 1))))" if "n \<le> length toks" for toks
    using True k long [OF that] ne [OF that] nth [OF that]
    by (auto simp: compute_mamba_align_state_hash_def primary_ids [OF ok] dvd_eq_mod_eq_0 Let_def)
  with assms(2-4) True show ?thesis by simp
qed

section \<open>A concrete hybrid model\<close>

text \<open>One attention group with blocks of two tokens and one Mamba group with blocks of four.\<close>

definition hybrid_groups :: "kv_cache_group list" where
  "hybrid_groups =
     [\<lparr>kg_spec = SingleSpec (FullAttentionSpec 2 1 8 None 2), kg_layer_names = [''attn'']\<rparr>,
      \<lparr>kg_spec = SingleSpec (MambaSpec 4 True [([2, 2], 2), ([4], 4)]), kg_layer_names = [''mamba'']\<rparr>]"

definition hybrid_manager :: group_manager where
  "hybrid_manager =
     \<lparr>mg_hasher = (\<lambda>_. ''h''),
      mg_groups =
        [\<lparr>gi_group_id = 0, gi_block_size = 2, gi_layer_names = [''attn''], gi_seed = ''h'', gi_is_mamba_align = False\<rparr>,
         \<lparr>gi_group_id = 1, gi_block_size = 4, gi_layer_names = [''mamba''], gi_seed = ''h'', gi_is_mamba_align = True\<rparr>],
      mg_lcm_block_size = 4\<rparr>"

lemma hybrid_manager_made: "new_group_manager (\<lambda>_. ''h'') [] hybrid_groups = Inr hybrid_manager"
proof -
  have "lcm 2 (lcm 4 1) = (4 :: nat)" by code_simp
  then show ?thesis
    by (simp add: new_group_manager_def hybrid_groups_def hybrid_manager_def block_size_from_kv_cache_spec_def
        is_mamba_align_kv_cache_spec_def full_attn_groups_def Let_def)
qed

lemma hybrid_manager_ok: "manager_ok hybrid_manager"
  by (rule new_group_manager_ok(1) [OF hybrid_manager_made])

definition hybrid_ids :: "bytes list list" where
  "hybrid_ids = [[''h'', ''h'', ''h'', ''h''], [[], []]]"

lemma hybrid_ids_made: "compute_all_group_block_ids hybrid_manager [1, 2, 3, 4, 5, 6, 7, 8] = hybrid_ids"
  by code_simp

theorem hla_lookup_is_longest_witness:
  "\<exists>ext hashes. fst (lookup_external_hit_tokens hybrid_manager (\<lambda>w ids. (Inr (int (length ids) - 1), w))
       (\<lambda>w ids. (Inr (map (\<lambda>_. True) ids), w)) 0 hybrid_ids ((), [])) = Inr (ext, ext div 4, hashes) \<and> 8 \<le> ext"
proof -
  let ?lp = "\<lambda>w :: unit. \<lambda>ids :: bytes list. (Inr (int (length ids) - 1) :: int result, w)"
  let ?la = "\<lambda>w :: unit. \<lambda>ids :: bytes list. (Inr (map (\<lambda>_. True) ids) :: bool list result, w)"
  have L: "mg_lcm_block_size hybrid_manager = 4" by (simp add: hybrid_manager_def)
  have all: "takeWhile (\<lambda>_. True) ids = ids" for ids :: "bytes list" by (induction ids) simp_all
  have honest: "honest_lookups (\<lambda>_. True) ?lp ?la" by (simp add: honest_lookups_def all)
  have len: "length hybrid_ids = length (mg_groups hybrid_manager)" by (simp add: hybrid_ids_def hybrid_manager_def)
  have "mg_lcm_block_size hybrid_manager dvd 0" by simp
  from hla_lookup_is_longest [OF hybrid_manager_ok honest len this, of "()" "[]"] obtain ext hashes w' where
    run: "lookup_external_hit_tokens hybrid_manager ?lp ?la 0 hybrid_ids ((), []) = (Inr (ext, ext div 4, hashes), w', [])"
    and max: "\<forall>pos. resumable hybrid_manager (\<lambda>_. True) hybrid_ids 0 pos \<longrightarrow> pos \<le> 0 + ext" unfolding L by blast
  have "resumable hybrid_manager (\<lambda>_. True) hybrid_ids 0 8"
    by (simp add: resumable_def prefix_there_def full_attn_groups_def hybrid_manager_def hybrid_ids_def list_all_iff)
  with max have "8 \<le> ext" by simp
  with run show ?thesis by (intro exI [of _ ext] exI [of _ hashes]) simp
qed

end
