(* ===== verification/Hla_Scheduler.thy ===== *)
theory Hla_Scheduler
  imports Hla_Groups Direct_Scheduler
begin

text \<open>
  The scheduler side of the hybrid connector: \<open>get_num_new_matched_tokens\<close>,
  \<open>update_state_after_alloc\<close>, the plan of a step over all groups and \<open>build_connector_meta\<close>
  of \<open>UCMHybridLinearAttentionConnector\<close>. The flat lists of a plan are kept as one list of
  pairs until they are handed over.
\<close>

section \<open>State\<close>

record hla_meta = request_meta +
  hm_group_ucm_block_ids :: "bytes list list"
  hm_group_vllm_block_ids :: "vllm_id list list"

record 'w hla_scheduler =
  hs_requests_meta :: "(req_id, hla_meta) dict"
  hs_rcm :: "'w rcm"
  hs_world :: 'w
  hs_metrics :: "metric list"

section \<open>Matching\<close>

definition hla_max_hit_blocks :: "group_manager \<Rightarrow> connector_cfg \<Rightarrow> nat \<Rightarrow> nat" where
  "hla_max_hit_blocks m cf num_tokens = (num_tokens - full_hit_recompute_tokens cf) div mg_lcm_block_size m"

definition hla_lookup_ids :: "group_manager \<Rightarrow> connector_cfg \<Rightarrow> nat \<Rightarrow> bytes list list \<Rightarrow> bytes list list" where
  "hla_lookup_ids m cf num_tokens group_ucm_block_ids =
     (if hla_max_hit_blocks m cf num_tokens < num_tokens div mg_lcm_block_size m
      then map (\<lambda>(g, ids). take (hla_max_hit_blocks m cf num_tokens * (mg_lcm_block_size m div gi_block_size g)) ids)
             (zip (mg_groups m) group_ucm_block_ids)
      else group_ucm_block_ids)"

text \<open>
  The heat update: the store is told of the blocks the lookup did not touch, and of all blocks
  of the other ranks. Its exceptions are not caught.
\<close>

definition hla_prefetch ::
  "connector_cfg \<Rightarrow> ('w, 'b) kv_lookup_api_scheme \<Rightarrow> bytes list \<Rightarrow> bytes list \<Rightarrow> bytes list \<Rightarrow> 'w \<Rightarrow> unit result \<times> 'w" where
  "hla_prefetch cf store hbm_full_attn all_hit_full_attn mamba_hashes w =
     (case (if hbm_full_attn = [] then (Inr (), w) else st_prefetch store w hbm_full_attn) of
        (Inl e, w1) \<Rightarrow> (Inl e, w1)
      | (Inr _, w1) \<Rightarrow>
          (case (if mamba_hashes = [] then (Inr (), w1) else st_prefetch store w1 mamba_hashes) of
             (Inl e, w2) \<Rightarrow> (Inl e, w2)
           | (Inr _, w2) \<Rightarrow> prefetch_other_rank_hashes cf store w2 (all_hit_full_attn @ mamba_hashes)))"

definition hla_get_num_new_matched_tokens ::
  "group_manager \<Rightarrow> connector_cfg \<Rightarrow> ('w, 'b) kv_lookup_api_scheme \<Rightarrow> 'w hla_scheduler \<Rightarrow> request \<Rightarrow> nat
     \<Rightarrow> (nat \<times> bool) result \<times> 'w hla_scheduler" where
  "hla_get_num_new_matched_tokens m cf store s request num_computed_tokens =
     (let L = mg_lcm_block_size m in
      if num_computed_tokens mod L \<noteq> 0 then (Inl AssertionError, s)
      else if rq_num_tokens request < cf_persist_token_threshold cf then (Inr (0, False), s)
      else
        let hbm_hit_block_num = num_computed_tokens div L;
            group_ids = compute_all_group_block_ids m (rq_all_token_ids request);
            primary = primary_group m;
            primary_ids = group_ids ! gi_group_id primary
        in case lookup_external_hit_tokens m
                  (rcm_lookup_on_prefix (hs_rcm s) store) (rcm_lookup_all (hs_rcm s) store)
                  num_computed_tokens (hla_lookup_ids m cf (rq_num_tokens request) group_ids)
                  (hs_world s, hs_metrics s) of
             (Inl e, w, ms) \<Rightarrow> (Inl e, s\<lparr>hs_world := w, hs_metrics := ms\<rparr>)
           | (Inr (external_hit_tokens, external_hit_lcm_blocks, mamba_hashes), w, ms) \<Rightarrow>
               let total_hit_block_num = hbm_hit_block_num + external_hit_lcm_blocks;
                   total_hit_tokens = total_hit_block_num * L
               in (case hla_prefetch cf store
                          (py_slice primary_ids 0 (num_computed_tokens div gi_block_size primary))
                          (py_slice primary_ids 0 (total_hit_tokens div gi_block_size primary))
                          mamba_hashes w of
                     (Inl e, w') \<Rightarrow> (Inl e, s\<lparr>hs_world := w', hs_metrics := ms\<rparr>)
                   | (Inr _, w') \<Rightarrow>
                       let ms' = (if primary_ids = [] then ms
                                  else ms @ [MRatio ''interval_lookup_hit_rates'' (external_hit_lcm_blocks * L)
                                               (length primary_ids * gi_block_size primary)]);
                           meta = \<lparr>rm_ucm_block_ids = primary_ids, rm_hbm_hit_block_num = hbm_hit_block_num,
                                   rm_total_hit_block_num = total_hit_block_num,
                                   rm_num_token_ids = length (rq_all_token_ids request),
                                   rm_vllm_block_ids = [], rm_token_processed = total_hit_tokens,
                                   hm_group_ucm_block_ids = group_ids,
                                   hm_group_vllm_block_ids = map (\<lambda>_. []) (mg_groups m)\<rparr>
                       in (Inr (external_hit_tokens, False),
                           s\<lparr>hs_world := w', hs_metrics := ms',
                             hs_requests_meta := dict_set (rq_id request) meta (hs_requests_meta s)\<rparr>)))"

definition hla_update_state_after_alloc ::
  "group_manager \<Rightarrow> req_id \<Rightarrow> vllm_id list list \<Rightarrow> 'w hla_scheduler \<Rightarrow> unit result \<times> 'w hla_scheduler" where
  "hla_update_state_after_alloc m request_id block_ids s =
     (case dict_get (hs_requests_meta s) request_id of
        None \<Rightarrow> (Inr (), s)
      | Some req_meta \<Rightarrow>
          if length block_ids \<noteq> length (mg_groups m) then (Inl AssertionError, s)
          else (Inr (), s\<lparr>hs_requests_meta :=
                            dict_set request_id (req_meta\<lparr>hm_group_vllm_block_ids := block_ids\<rparr>)
                              (hs_requests_meta s)\<rparr>))"

section \<open>The plan of a step\<close>

definition merge_group_blocks :: "bool \<Rightarrow> vllm_id list \<Rightarrow> vllm_id list \<Rightarrow> vllm_id list" where
  "merge_group_blocks incoming_are_full existing incoming =
     (if incoming_are_full \<or> existing = [] then incoming
      else if incoming \<noteq> [] \<and> drop (length existing - length incoming) existing \<noteq> incoming
      then existing @ incoming else existing)"

text \<open>\<open>extend_non_null\<close>: pairs of an id and a block, null blocks left out.\<close>

definition extend_non_null :: "bytes list \<Rightarrow> vllm_id list \<Rightarrow> (bytes \<times> vllm_id) list" where
  "extend_non_null ucm vllm = filter (\<lambda>(u, v). v \<noteq> 0) (zip ucm vllm)"

definition last_non_null :: "vllm_id list \<Rightarrow> nat option" where
  "last_non_null block_ids = find (\<lambda>i. block_ids ! i \<noteq> 0) (rev [0..<length block_ids])"

definition mamba_align_state_block ::
  "group_manager \<Rightarrow> hla_meta \<Rightarrow> group_info \<Rightarrow> nat \<Rightarrow> bool \<Rightarrow> (bytes \<times> vllm_id) list" where
  "mamba_align_state_block m req_meta g seq_len for_load =
     (let block_ids = hm_group_vllm_block_ids req_meta ! gi_group_id g;
          state_idx = (seq_len - 1) div gi_block_size g;
          vllm_state_idx = (if for_load
                            then (case last_non_null block_ids of None \<Rightarrow> state_idx | Some i \<Rightarrow> i)
                            else state_idx)
      in if length block_ids \<le> vllm_state_idx then []
         else if block_ids ! vllm_state_idx = 0 then []
         else (case compute_mamba_align_state_hash m g seq_len (hm_group_ucm_block_ids req_meta) of
                 None \<Rightarrow> []
               | Some ucm_block_id \<Rightarrow> [(ucm_block_id, block_ids ! vllm_state_idx)]))"

definition group_blocks :: "hla_meta \<Rightarrow> group_info \<Rightarrow> nat \<Rightarrow> nat \<Rightarrow> (bytes \<times> vllm_id) list" where
  "group_blocks req_meta g start_blk end_blk =
     (if end_blk \<le> start_blk then []
      else extend_non_null (py_slice (hm_group_ucm_block_ids req_meta ! gi_group_id g) start_blk end_blk)
             (py_slice (hm_group_vllm_block_ids req_meta ! gi_group_id g) start_blk end_blk))"

definition hla_load :: "group_manager \<Rightarrow> hla_meta \<Rightarrow> bool \<Rightarrow> (bytes \<times> vllm_id) list" where
  "hla_load m req_meta need_load =
     (let L = mg_lcm_block_size m;
          hbm_hit_tokens = rm_hbm_hit_block_num req_meta * L;
          total_hit_tokens = rm_total_hit_block_num req_meta * L
      in if need_load \<and> rm_hbm_hit_block_num req_meta < rm_total_hit_block_num req_meta
         then concat (map (\<lambda>g.
                if gi_is_mamba_align g then mamba_align_state_block m req_meta g total_hit_tokens True
                else group_blocks req_meta g (hbm_hit_tokens div gi_block_size g) (total_hit_tokens div gi_block_size g))
              (mg_groups m))
         else [])"

definition hla_dump_end :: "hla_meta \<Rightarrow> nat \<Rightarrow> nat" where
  "hla_dump_end req_meta new_tokens = min (rm_token_processed req_meta + new_tokens) (rm_num_token_ids req_meta)"

definition hla_group_dump :: "group_manager \<Rightarrow> hla_meta \<Rightarrow> nat \<Rightarrow> group_info \<Rightarrow> (bytes \<times> vllm_id) list" where
  "hla_group_dump m req_meta new_tokens g =
     (let L = mg_lcm_block_size m;
          dump_tok_start = rm_token_processed req_meta;
          dump_tok_end = hla_dump_end req_meta new_tokens;
          first_lcm_b = (dump_tok_start div L + 1) * L;
          last_lcm_b = dump_tok_end div L * L
      in if \<not> gi_is_mamba_align g
         then group_blocks req_meta g (dump_tok_start div gi_block_size g) (dump_tok_end div gi_block_size g)
         else if dump_tok_end \<noteq> last_lcm_b \<or> last_lcm_b < first_lcm_b then []
         else mamba_align_state_block m req_meta g last_lcm_b False)"

definition hla_merge_blocks :: "group_manager \<Rightarrow> vllm_id list list \<Rightarrow> bool \<Rightarrow> hla_meta \<Rightarrow> hla_meta" where
  "hla_merge_blocks m new_ids incoming_are_full req_meta =
     req_meta\<lparr>hm_group_vllm_block_ids :=
       map (\<lambda>(old, new). merge_group_blocks incoming_are_full old new) (zip (hm_group_vllm_block_ids req_meta) new_ids)
       @ drop (length (mg_groups m)) (hm_group_vllm_block_ids req_meta)\<rparr>"

definition hla_dump :: "group_manager \<Rightarrow> hla_meta \<Rightarrow> nat \<Rightarrow> (bytes \<times> vllm_id) list" where
  "hla_dump m req_meta new_tokens =
     (if rm_token_processed req_meta < rm_num_token_ids req_meta
      then concat (map (hla_group_dump m req_meta new_tokens) (mg_groups m)) else [])"

definition hla_dispatch_meta ::
  "group_manager \<Rightarrow> hla_meta \<Rightarrow> nat \<Rightarrow> vllm_id list list \<Rightarrow> bool \<Rightarrow> bool \<Rightarrow> (dispatch_meta \<times> hla_meta) result" where
  "hla_dispatch_meta m req_meta new_tokens new_ids need_load incoming_are_full =
     (if length new_ids \<noteq> length (mg_groups m) then Inl AssertionError
      else if length (hm_group_vllm_block_ids req_meta) < length (mg_groups m) then Inl IndexError
      else
        let m1 = hla_merge_blocks m new_ids incoming_are_full req_meta;
            load = hla_load m m1 need_load;
            dump = hla_dump m m1 new_tokens;
            m2 = (if rm_token_processed m1 < rm_num_token_ids m1
                  then m1\<lparr>rm_token_processed := rm_token_processed m1 + new_tokens\<rparr> else m1)
        in Inr (\<lparr>dm_load = (map fst load, map snd load), dm_dump = (map fst dump, map snd dump)\<rparr>, m2))"

section \<open>Metadata for a step\<close>

definition hla_dispatch_request ::
  "group_manager \<Rightarrow> scheduler_output \<Rightarrow> req_id \<Rightarrow> vllm_id list list \<Rightarrow> bool \<Rightarrow> bool
     \<Rightarrow> 'w hla_scheduler \<times> (req_id, dispatch_meta) dict \<Rightarrow> ('w hla_scheduler \<times> (req_id, dispatch_meta) dict) result" where
  "hla_dispatch_request m out request_id ids need_load full acc =
     (case acc of (s, metas) \<Rightarrow>
        (case dict_get (hs_requests_meta s) request_id of
           None \<Rightarrow> Inr (s, metas)
         | Some req_meta \<Rightarrow>
             rbind (py_key (so_num_scheduled out) request_id) (\<lambda>new_tokens.
               rbind (hla_dispatch_meta m req_meta new_tokens ids need_load full) (\<lambda>(dm, req_meta').
                 Inr (s\<lparr>hs_requests_meta := dict_set request_id req_meta' (hs_requests_meta s)\<rparr>,
                      dict_set request_id dm metas)))))"

fun hla_dispatch_new ::
  "group_manager \<Rightarrow> scheduler_output \<Rightarrow> (req_id \<times> vllm_id list list) list
     \<Rightarrow> 'w hla_scheduler \<times> (req_id, dispatch_meta) dict \<Rightarrow> ('w hla_scheduler \<times> (req_id, dispatch_meta) dict) result" where
  "hla_dispatch_new m out [] acc = Inr acc"
| "hla_dispatch_new m out ((request_id, block_ids) # rest) acc =
     rbind (hla_dispatch_request m out request_id block_ids True True acc) (hla_dispatch_new m out rest)"

fun hla_dispatch_cached ::
  "group_manager \<Rightarrow> scheduler_output \<Rightarrow> cached_data \<Rightarrow> nat \<Rightarrow> req_id list
     \<Rightarrow> 'w hla_scheduler \<times> (req_id, dispatch_meta) dict \<Rightarrow> ('w hla_scheduler \<times> (req_id, dispatch_meta) dict) result" where
  "hla_dispatch_cached m out cd i [] acc = Inr acc"
| "hla_dispatch_cached m out cd i (request_id # rest) acc =
     (case dict_get (hs_requests_meta (fst acc)) request_id of
        None \<Rightarrow> hla_dispatch_cached m out cd (Suc i) rest acc
      | Some req_meta \<Rightarrow>
          rbind (py_index (cd_new_block_ids cd) i) (\<lambda>ids.
            rbind (is_resumed cd i request_id) (\<lambda>resumed.
              rbind (hla_dispatch_request m out request_id
                       (case ids of None \<Rightarrow> map (\<lambda>_. []) (mg_groups m) | Some groups \<Rightarrow> groups) resumed resumed acc)
                (hla_dispatch_cached m out cd (Suc i) rest))))"

fun hla_dispatch_cached_list ::
  "group_manager \<Rightarrow> scheduler_output \<Rightarrow> cached_request list
     \<Rightarrow> 'w hla_scheduler \<times> (req_id, dispatch_meta) dict \<Rightarrow> ('w hla_scheduler \<times> (req_id, dispatch_meta) dict) result" where
  "hla_dispatch_cached_list m out [] acc = Inr acc"
| "hla_dispatch_cached_list m out (r # rest) acc =
     rbind (hla_dispatch_request m out (cr_req_id r) (cr_new_block_ids r) (cr_resumed r) (cr_resumed r) acc)
       (hla_dispatch_cached_list m out rest)"

definition hla_build_connector_meta ::
  "group_manager \<Rightarrow> 'w hla_scheduler \<Rightarrow> scheduler_output \<Rightarrow> (connector_meta \<times> 'w hla_scheduler) result" where
  "hla_build_connector_meta m s out =
     rbind (hla_dispatch_new m out (so_new_reqs out) (s, [])) (\<lambda>acc.
       rbind (case so_cached_reqs out of
                CachedData cd \<Rightarrow> hla_dispatch_cached m out cd 0 (cd_req_ids cd) acc
              | CachedList rs \<Rightarrow> hla_dispatch_cached_list m out rs acc)
         (\<lambda>(s2, metas).
            Inr (\<lparr>cm_request_meta = metas,
                  cm_preempted_req_ids = (case so_preempted out of None \<Rightarrow> {} | Some p \<Rightarrow> p)\<rparr>,
                 s2\<lparr>hs_requests_meta := fold dict_pop (so_finished out) (hs_requests_meta s2)\<rparr>)))"

definition hla_request_finished_all_groups :: "req_id \<Rightarrow> vllm_id list list \<Rightarrow> bool" where
  "hla_request_finished_all_groups request_id block_ids = False"

end
