(* ===== verification/Hla_Plans.thy ===== *)
theory Hla_Plans
  imports Hla_Scheduler
begin

text \<open>
  What the scheduler side of the hybrid connector promises: the hit it reports leaves the
  recompute margin, what a match loads was found by the lookup, and the steps of a request dump
  the blocks of the attention groups once and the states at resumption boundaries.
\<close>

section \<open>What a match reports\<close>

lemma min_list_le: "x \<in> set xs \<Longrightarrow> min_list xs \<le> (x :: nat)"
  by (metis List.finite_set Min_le empty_iff list.set(1) min_list_Min)

lemma py_range_down_le: "pos \<in> set (py_range_down hi lo step) \<Longrightarrow> pos \<le> hi"
  by (auto simp: py_range_down_def)

lemma scan_states_in: "scan_states m la ids ps w = (Inr (Some pos), w') \<Longrightarrow> pos \<in> set ps"
  by (induction ps arbitrary: w) (auto split: prod.splits sum.splits if_splits)

text \<open>Whatever the lookups answer, the hit is aligned and no group found less.\<close>

lemma lookup_bounds:
  assumes "lookup_external_hit_tokens m lp la c ids (w, ms) = (Inr (ext, n, hashes), w', ms')" and "0 < mg_lcm_block_size m"
  shows "c mod mg_lcm_block_size m = 0 \<and> n = ext div mg_lcm_block_size m \<and> mg_lcm_block_size m dvd ext
    \<and> (\<exists>cs s1. hla_candidates lp c ids (full_attn_groups m) (w, ms) = (cs, s1) \<and> cs \<noteq> [] \<and> ext \<le> min_list cs)"
proof -
  let ?L = "mg_lcm_block_size m"
  obtain cs w1 ms1 where cand: "hla_candidates lp c ids (full_attn_groups m) (w, ms) = (cs, w1, ms1)"
    by (metis prod_cases3)
  define E where "E = min_list cs div ?L * ?L"
  have E: "?L dvd E" "E \<le> min_list cs" by (simp_all add: E_def)
  have c: "c mod ?L = 0" and cs: "cs \<noteq> []" and len: "length ids = length (mg_groups m)"
    using assms(1) cand by (auto simp: lookup_external_hit_tokens_def Let_def split: if_splits)
  have "(ext = 0 \<or> ext = E \<or> (\<exists>pos w2. scan_states m la ids (py_range_down (c + E) c ?L) w1 = (Inr (Some pos), w2) \<and> ext = pos - c))
      \<and> n = ext div ?L"
    using assms(1) cand c cs len
    by (auto simp: lookup_external_hit_tokens_def Let_def E_def split: if_splits prod.splits sum.splits option.splits)
  moreover have "?L dvd pos - c \<and> pos - c \<le> E"
    if "scan_states m la ids (py_range_down (c + E) c ?L) w1 = (Inr (Some pos), w2)" for pos w2
  proof -
    obtain k where k: "E = k * ?L" using E(1) by (metis dvdE mult.commute)
    have "pos \<in> set (py_range_down (c + k * ?L) c ?L)" using scan_states_in [OF that] k by simp
    then obtain i where "pos = c + (k - i) * ?L" by (auto simp: py_range_down_multiples [OF assms(2)])
    with k show ?thesis by simp
  qed
  ultimately show ?thesis using c cand cs E by (auto intro: le_trans)
qed

lemma hla_candidates_le:
  assumes "\<And>w xs i w'. lp w xs = (Inr i, w') \<Longrightarrow> i < int (length xs)"
  shows "hla_candidates lp c ids fas s = (cs, s') \<Longrightarrow>
    list_all2 (\<lambda>fa x. x \<le> (length (ids ! gi_group_id fa) - c div gi_block_size fa) * gi_block_size fa) fas cs"
proof (induction fas arbitrary: s cs)
  case Nil
  then show ?case by (cases s) simp
next
  case (Cons fa fas)
  obtain w ms where s: "s = (w, ms)" by (cases s)
  let ?ext = "drop (c div gi_block_size fa) (ids ! gi_group_id fa)"
  obtain r v where l: "lp w ?ext = (r, v)" by (cases "lp w ?ext")
  define x where "x = (if ?ext = [] then 0 else case r of Inl e \<Rightarrow> 0 | Inr i \<Rightarrow> nat (max (i + 1) 0) * gi_block_size fa)"
  define s1 where "s1 = (if ?ext = [] then s else case r of
      Inl e \<Rightarrow> (v, ms @ [MCount ''connector_lookup_errors_total'' 1]) | Inr i \<Rightarrow> (v, ms))"
  obtain cs' where rest: "hla_candidates lp c ids fas s1 = (cs', s')" and cs: "cs = x # cs'"
    using Cons.prems l by (auto simp: s Let_def x_def s1_def split: if_splits sum.splits prod.splits)
  have "x \<le> length ?ext * gi_block_size fa"
  proof (cases r)
    case (Inr i)
    with assms [OF l [unfolded Inr]] show ?thesis by (auto simp: x_def intro!: mult_le_mono1)
  qed (simp add: x_def)
  with Cons.IH [OF rest] cs show ?case by simp
qed

lemma hla_lookup_ids_nth:
  assumes "manager_ok m" and "g \<in> set (mg_groups m)" and "length gids = length (mg_groups m)"
  shows "hla_lookup_ids m cf n gids ! gi_group_id g =
     (if hla_max_hit_blocks m cf n < n div mg_lcm_block_size m
      then take (hla_max_hit_blocks m cf n * (mg_lcm_block_size m div gi_block_size g)) (gids ! gi_group_id g)
      else gids ! gi_group_id g)"
proof -
  obtain i where i: "i < length (mg_groups m)" "g = mg_groups m ! i" using assms(2) by (metis in_set_conv_nth)
  with group_at [OF assms(1) i(1)] assms(3) show ?thesis by (simp add: hla_lookup_ids_def)
qed

lemma length_hla_lookup_ids: "length gids = length (mg_groups m) \<Longrightarrow> length (hla_lookup_ids m cf n gids) = length (mg_groups m)"
  by (simp add: hla_lookup_ids_def)

lemma length_group_ids [simp]: "length (compute_all_group_block_ids m toks) = length (mg_groups m)"
  by (simp add: compute_all_group_block_ids_def)

text \<open>A successful match reports nothing, or it went through the lookup.\<close>

lemma hla_get_num_cases:
  assumes "hla_get_num_new_matched_tokens m cf store s rq c = (Inr (k, load_async), s')" and "0 < k"
  shows "\<exists>n hashes w ms. lookup_external_hit_tokens m (rcm_lookup_on_prefix (hs_rcm s) store) (rcm_lookup_all (hs_rcm s) store) c
      (hla_lookup_ids m cf (rq_num_tokens rq) (compute_all_group_block_ids m (rq_all_token_ids rq))) (hs_world s, hs_metrics s)
        = (Inr (k, n, hashes), w, ms)
    \<and> \<not> load_async \<and> dict_get (hs_requests_meta s') (rq_id rq) = Some
        \<lparr>rm_ucm_block_ids = compute_all_group_block_ids m (rq_all_token_ids rq) ! gi_group_id (primary_group m),
         rm_hbm_hit_block_num = c div mg_lcm_block_size m,
         rm_total_hit_block_num = c div mg_lcm_block_size m + n, rm_num_token_ids = length (rq_all_token_ids rq),
         rm_vllm_block_ids = [], rm_token_processed = (c div mg_lcm_block_size m + n) * mg_lcm_block_size m,
         hm_group_ucm_block_ids = compute_all_group_block_ids m (rq_all_token_ids rq),
         hm_group_vllm_block_ids = map (\<lambda>_. []) (mg_groups m)\<rparr>"
  using assms
  by (auto simp: hla_get_num_new_matched_tokens_def Let_def split: if_splits prod.splits sum.splits)

lemma whole_blocks_fit:
  fixes c L bs N n M :: nat
  assumes "0 < bs" and "bs dvd L" and "L dvd c" and "L dvd k" and "0 < k"
    and "k \<le> (n - c div bs) * bs" and "n \<le> M * (L div bs)"
  shows "c + k \<le> M * L"
proof -
  have cb: "c div bs * bs = c" and Lb: "L div bs * bs = L" using assms(2,3) by (auto intro: dvd_trans)
  have "k \<le> n * bs - c" using assms(6) cb by (simp add: diff_mult_distrib)
  with assms(5) have "c + k \<le> n * bs" by simp
  also have "\<dots> \<le> M * (L div bs) * bs" using assms(7) by simp
  also have "\<dots> = M * L" using Lb by (simp add: mult.assoc)
  finally show ?thesis .
qed

lemma hla_hit_within_max:
  assumes ok: "manager_ok m" and "lookup_in_range store"
    and look: "lookup_external_hit_tokens m (rcm_lookup_on_prefix r store) la c
        (hla_lookup_ids m cf (length toks) (compute_all_group_block_ids m toks)) (w, ms) = (Inr (k, n, hashes), w', ms')"
    and "0 < k"
  shows "c + k \<le> hla_max_hit_blocks m cf (length toks) * mg_lcm_block_size m"
proof -
  let ?L = "mg_lcm_block_size m" and ?p = "primary_group m" and ?M = "hla_max_hit_blocks m cf (length toks)"
  let ?ids = "hla_lookup_ids m cf (length toks) (compute_all_group_block_ids m toks)"
  have p: "?p \<in> set (mg_groups m)" and fa: "?p \<in> set (full_attn_groups m)"
    using primary_in [OF ok] by (simp_all add: full_attn_groups_def)
  note L = manager_okD(2) [OF ok] and bs = manager_okD(3) [OF ok p] and dv = manager_okD(4) [OF ok p]
  from lookup_bounds [OF look L] obtain cs s1 where
    cand: "hla_candidates (rcm_lookup_on_prefix r store) c ?ids (full_attn_groups m) (w, ms) = (cs, s1)"
    and k: "k \<le> min_list cs" "?L dvd k" and c: "?L dvd c" by (auto simp: dvd_eq_mod_eq_0)
  have all: "list_all2 (\<lambda>g x. x \<le> (length (?ids ! gi_group_id g) - c div gi_block_size g) * gi_block_size g) (full_attn_groups m) cs"
    by (rule hla_candidates_le [OF rcm_lookup_in_range [OF assms(2)] cand])
  obtain x where "x \<in> set cs" "x \<le> (length (?ids ! gi_group_id ?p) - c div gi_block_size ?p) * gi_block_size ?p"
  proof -
    obtain i where i: "i < length (full_attn_groups m)" "full_attn_groups m ! i = ?p" using fa by (metis in_set_conv_nth)
    have "i < length cs" using list_all2_lengthD [OF all] i by simp
    then have "cs ! i \<in> set cs" by simp
    with list_all2_nthD [OF all i(1)] i(2) that show thesis by simp
  qed
  with k(1) have kp: "k \<le> (length (?ids ! gi_group_id ?p) - c div gi_block_size ?p) * gi_block_size ?p"
    using min_list_le le_trans by metis
  have len: "length (compute_all_group_block_ids m toks ! gi_group_id ?p) = length toks div gi_block_size ?p"
    by (simp add: primary_ids [OF ok] length_chain_ids)
  show ?thesis
  proof (cases "?M < length toks div ?L")
    case True
    with kp have "k \<le> (length (?ids ! gi_group_id ?p) - c div gi_block_size ?p) * gi_block_size ?p"
      and "length (?ids ! gi_group_id ?p) \<le> ?M * (?L div gi_block_size ?p)"
      by (simp_all add: hla_lookup_ids_nth [OF ok p])
    from whole_blocks_fit [OF bs dv c k(2) assms(4) this] show ?thesis .
  next
    case False
    have kb: "k \<le> length toks div gi_block_size ?p * gi_block_size ?p - c div gi_block_size ?p * gi_block_size ?p"
      using kp False by (simp add: hla_lookup_ids_nth [OF ok p] len diff_mult_distrib)
    have "c div gi_block_size ?p * gi_block_size ?p = c" using dv c by (auto intro: dvd_trans)
    with kb assms(4) have "c + k \<le> length toks div gi_block_size ?p * gi_block_size ?p" by simp
    then have "c + k \<le> length toks" by (rule le_trans) simp
    moreover have "?L dvd c + k" using c k(2) by simp
    then have "(c + k) div ?L * ?L = c + k" by simp
    ultimately have "c + k \<le> length toks div ?L * ?L" by (metis div_le_mono mult_le_mono1)
    with False show ?thesis by (meson le_trans mult_le_mono1 not_less)
  qed
qed

text \<open>
  Whatever the store answers within its range, a hybrid match that reports tokens reports
  whole resumption steps, which together with the local hit and the recompute margin fit in the
  request.
\<close>

lemma hla_match_leaves_recompute:
  assumes "hla_get_num_new_matched_tokens m cf store s rq c = (Inr (k, load_async), s')" and "0 < k"
    and "manager_ok m" and "lookup_in_range store" and "rq_num_tokens rq = length (rq_all_token_ids rq)"
  shows "c + k + full_hit_recompute_tokens cf \<le> rq_num_tokens rq \<and> mg_lcm_block_size m dvd k \<and> \<not> load_async"
proof -
  let ?L = "mg_lcm_block_size m" and ?M = "hla_max_hit_blocks m cf (rq_num_tokens rq)"
  obtain n hashes w ms where look: "lookup_external_hit_tokens m (rcm_lookup_on_prefix (hs_rcm s) store)
      (rcm_lookup_all (hs_rcm s) store) c
      (hla_lookup_ids m cf (rq_num_tokens rq) (compute_all_group_block_ids m (rq_all_token_ids rq))) (hs_world s, hs_metrics s)
        = (Inr (k, n, hashes), w, ms)" and "\<not> load_async"
    using hla_get_num_cases [OF assms(1,2)] by blast
  have "c + k \<le> ?M * ?L"
    using hla_hit_within_max [OF assms(3,4) look [unfolded assms(5)] assms(2)] assms(5) by simp
  also have "\<dots> \<le> rq_num_tokens rq - full_hit_recompute_tokens cf" by (simp add: hla_max_hit_blocks_def)
  finally have "c + k + full_hit_recompute_tokens cf \<le> rq_num_tokens rq" using assms(2) by simp
  with lookup_bounds [OF look manager_okD(2) [OF assms(3)]] \<open>\<not> load_async\<close> show ?thesis by simp
qed

section \<open>What a match loads is there\<close>

lemma prefix_there_take:
  "prefix_there present (take n ids) a b \<Longrightarrow> prefix_there present ids a b \<and> (a < b \<longrightarrow> b \<le> n)"
proof -
  assume *: "prefix_there present (take n ids) a b"
  have "i < length ids \<and> i < n \<and> present (ids ! i)" if "a \<le> i" "i < b" for i
    using * that by (auto simp: prefix_there_def)
  moreover have "b \<le> n" if "a < b" using calculation [of "b - 1"] that by (cases b) auto
  ultimately show ?thesis by (auto simp: prefix_there_def)
qed

lemma state_hash_take:
  assumes "ids' ! p = take n (ids ! p)" and "p = gi_group_id (primary_group m)" and "pos div gi_block_size (primary_group m) \<le> n"
  shows "compute_mamba_align_state_hash m g pos ids' = compute_mamba_align_state_hash m g pos ids"
  using assms by (auto simp: compute_mamba_align_state_hash_def Let_def)

lemma group_blocks_ids: "(u, v) \<in> set (group_blocks rm g a b) \<Longrightarrow> u \<in> set (py_slice (hm_group_ucm_block_ids rm ! gi_group_id g) a b)"
  by (auto simp: group_blocks_def extend_non_null_def dest: set_zip_leftD split: if_splits)

lemma prefix_there_slice:
  assumes "prefix_there present ids a b" and "x \<in> set (py_slice ids a b)"
  shows "present x"
proof -
  obtain i where "i < length (py_slice ids a b)" "x = py_slice ids a b ! i" using assms(2) by (metis in_set_conv_nth)
  with assms(1) show ?thesis by (auto simp: prefix_there_def)
qed

lemma state_block_hash:
  "(u, v) \<in> set (mamba_align_state_block m rm g n b) \<Longrightarrow>
     compute_mamba_align_state_hash m g n (hm_group_ucm_block_ids rm) = Some u"
  by (auto simp: mamba_align_state_block_def Let_def split: if_splits option.splits)

lemma div_less_of_multiples: "b dvd c \<Longrightarrow> b dvd d \<Longrightarrow> c < d \<Longrightarrow> c div b < d div (b :: nat)"
  by (metis dvd_div_mult_self mult_less_cancel2)

lemma resumable_loads:
  assumes ok: "manager_ok m" and res: "resumable m present ids' c (c + k)" and c: "mg_lcm_block_size m dvd c"
    and trunc: "\<And>g. g \<in> set (mg_groups m) \<Longrightarrow> \<exists>n. ids' ! gi_group_id g = take n (hm_group_ucm_block_ids rm ! gi_group_id g)"
    and rm: "rm_hbm_hit_block_num rm * mg_lcm_block_size m = c" "rm_total_hit_block_num rm * mg_lcm_block_size m = c + k"
    and u: "(u, v) \<in> set (hla_load m rm need)"
  shows "present u"
proof -
  let ?ids = "hm_group_ucm_block_ids rm" and ?p = "primary_group m"
  have there: "prefix_there present (ids' ! gi_group_id g) (c div gi_block_size g) ((c + k) div gi_block_size g)"
    if "g \<in> set (full_attn_groups m)" for g
    using res that by (simp add: resumable_def)
  obtain g where g: "g \<in> set (mg_groups m)" and ug: "(u, v) \<in> set (if gi_is_mamba_align g
      then mamba_align_state_block m rm g (c + k) True
      else group_blocks rm g (c div gi_block_size g) ((c + k) div gi_block_size g))"
    using u rm by (auto simp: hla_load_def Let_def split: if_splits)
  show ?thesis
  proof (cases "gi_is_mamba_align g")
    case False
    then have fa: "g \<in> set (full_attn_groups m)" using g by (simp add: full_attn_groups_def)
    obtain n where n: "ids' ! gi_group_id g = take n (?ids ! gi_group_id g)" using trunc [OF g] by blast
    have "prefix_there present (?ids ! gi_group_id g) (c div gi_block_size g) ((c + k) div gi_block_size g)"
      using prefix_there_take [OF there [OF fa, unfolded n]] by simp
    from prefix_there_slice [OF this group_blocks_ids] ug False show ?thesis by simp
  next
    case True
    have p: "?p \<in> set (mg_groups m)" "?p \<in> set (full_attn_groups m)"
      using primary_in [OF ok] by (simp_all add: full_attn_groups_def)
    obtain n where n: "ids' ! gi_group_id ?p = take n (?ids ! gi_group_id ?p)" using trunc [OF p(1)] by blast
    have "c div gi_block_size ?p < (c + k) div gi_block_size ?p"
    proof -
      have "gi_block_size ?p dvd c" "gi_block_size ?p dvd c + k"
        using manager_okD(4) [OF ok p(1)] c res by (auto simp: resumable_def intro: dvd_trans)
      moreover have "c < c + k" using res by (simp add: resumable_def)
      ultimately show ?thesis using div_less_of_multiples by blast
    qed
    with prefix_there_take [OF there [OF p(2), unfolded n]] have "(c + k) div gi_block_size ?p \<le> n" by simp
    from state_hash_take [OF n refl this] have same:
      "compute_mamba_align_state_hash m g (c + k) ids' = compute_mamba_align_state_hash m g (c + k) ?ids" .
    have "compute_mamba_align_state_hash m g (c + k) ?ids = Some u"
      using ug True by (simp add: state_block_hash)
    with same g True have "u \<in> set (position_hashes m ids' (c + k))"
      by (force simp: position_hashes_def state_groups_def)
    with res show ?thesis by (auto simp: resumable_def list_all_iff)
  qed
qed

text \<open>
  C10: With a store that answers truthfully, everything the plan of a matched hybrid request
  loads is stored and not known to be missing on some rank: the attention blocks of every
  group up to the hit and the state of every state group at the hit, whatever device blocks
  vLLM allocates for them.
\<close>

theorem hla_loads_are_stored:
  assumes "hla_get_num_new_matched_tokens m cf store s rq c = (Inr (k, load_async), s')" and "0 < k"
    and "manager_ok m" and "rc_enabled (hs_rcm s)" and "rc_tracker (hs_rcm s) = Some t"
    and "\<forall>w. honest_prefix_lookup present w store \<and> honest_lookup present w store"
  shows "\<exists>rm. dict_get (hs_requests_meta s') (rq_id rq) = Some rm
    \<and> (\<forall>vllm u v. (u, v) \<in> set (hla_load m (rm\<lparr>hm_group_vllm_block_ids := vllm\<rparr>) True) \<longrightarrow> present u \<and> u \<notin> t)"
proof -
  let ?L = "mg_lcm_block_size m" and ?gids = "compute_all_group_block_ids m (rq_all_token_ids rq)"
  let ?ids = "hla_lookup_ids m cf (rq_num_tokens rq) ?gids" and ?P = "\<lambda>b. b \<notin> t \<and> present b"
  obtain n hashes w ms rm where look: "lookup_external_hit_tokens m (rcm_lookup_on_prefix (hs_rcm s) store)
      (rcm_lookup_all (hs_rcm s) store) c ?ids (hs_world s, hs_metrics s) = (Inr (k, n, hashes), w, ms)"
    and rm: "dict_get (hs_requests_meta s') (rq_id rq) = Some rm"
      "rm_hbm_hit_block_num rm = c div ?L" "rm_total_hit_block_num rm = c div ?L + n" "hm_group_ucm_block_ids rm = ?gids"
    using hla_get_num_cases [OF assms(1,2)] by auto
  note L = manager_okD(2) [OF assms(3)]
  have c: "?L dvd c" and k: "n = k div ?L" "?L dvd k" using lookup_bounds [OF look L] by (auto simp: dvd_eq_mod_eq_0)
  have honest: "honest_lookups ?P (rcm_lookup_on_prefix (hs_rcm s) store) (rcm_lookup_all (hs_rcm s) store)"
    unfolding honest_lookups_def
    using rcm_lookup_on_prefix_honest [OF _ assms(4,5), of present _ store] rcm_lookup_all_honest [OF _ assms(5), of present _ store] assms(6)
    by blast
  have "resumable m ?P ?ids c (c + k)"
    using lookup_finds [OF assms(3) honest length_hla_lookup_ids c, of ?gids cf "rq_num_tokens rq" "hs_world s" "hs_metrics s"]
      look assms(2) by auto
  moreover have "\<exists>j. ?ids ! gi_group_id g = take j (?gids ! gi_group_id g)" if "g \<in> set (mg_groups m)" for g
    using hla_lookup_ids_nth [OF assms(3) that] by (metis length_group_ids order_refl take_all_iff)
  ultimately have "?P u" if "(u, v) \<in> set (hla_load m (rm\<lparr>hm_group_vllm_block_ids := vllm\<rparr>) True)" for vllm u v
    using resumable_loads [OF assms(3) _ c, of ?P ?ids k "rm\<lparr>hm_group_vllm_block_ids := vllm\<rparr>" u v True] that c k rm
    by (simp add: add_mult_distrib)
  with rm(1) show ?thesis by blast
qed

section \<open>What a run of steps dumps\<close>

lemma hla_merge_blocks_fields [simp]:
  "rm_token_processed (hla_merge_blocks m ids full rm) = rm_token_processed rm"
  "rm_num_token_ids (hla_merge_blocks m ids full rm) = rm_num_token_ids rm"
  "hm_group_ucm_block_ids (hla_merge_blocks m ids full rm) = hm_group_ucm_block_ids rm"
  by (simp_all add: hla_merge_blocks_def)

lemma hla_dispatch_frame:
  assumes "hla_dispatch_meta m rm n ids need full = Inr (dm, rm')"
  shows "hm_group_ucm_block_ids rm' = hm_group_ucm_block_ids rm" and "rm_num_token_ids rm' = rm_num_token_ids rm"
    and "rm_token_processed rm' = (if rm_token_processed rm < rm_num_token_ids rm then rm_token_processed rm + n
           else rm_token_processed rm)"
    and "fst (dm_dump dm) = map fst (hla_dump m (hla_merge_blocks m ids full rm) n)"
  using assms by (auto simp: hla_dispatch_meta_def Let_def split: if_splits)

type_synonym hla_step = "nat \<times> vllm_id list list \<times> bool \<times> bool"

text \<open>The dispatches of a run of steps; one that raises ends the run.\<close>

fun hla_run :: "group_manager \<Rightarrow> hla_meta \<Rightarrow> hla_step list \<Rightarrow> (dispatch_meta list \<times> hla_meta) result" where
  "hla_run m rm [] = Inr ([], rm)"
| "hla_run m rm ((n, ids, need, full) # rest) =
     rbind (hla_dispatch_meta m rm n ids need full) (\<lambda>(dm, rm1).
       rbind (hla_run m rm1 rest) (\<lambda>(dms, rm2). Inr (dm # dms, rm2)))"

text \<open>
  For the proofs: what one attention group contributes to the dump of a step, and the range of the
  group's blocks it is taken from. That the dumps dispatched are these contributions, group by
  group, is \<open>hla_run_parts\<close>.
\<close>

definition hla_part :: "group_manager \<Rightarrow> hla_meta \<Rightarrow> hla_step \<Rightarrow> group_info \<Rightarrow> (bytes \<times> vllm_id) list" where
  "hla_part m rm step g =
     (case step of (n, ids, need, full) \<Rightarrow>
        if rm_token_processed rm < rm_num_token_ids rm then hla_group_dump m (hla_merge_blocks m ids full rm) n g else [])"

definition hla_plan :: "group_manager \<Rightarrow> group_info \<Rightarrow> hla_meta \<Rightarrow> hla_step \<Rightarrow> bytes list \<times> hla_meta" where
  "hla_plan m g rm step =
     (case step of (n, ids, need, full) \<Rightarrow>
        (case hla_dispatch_meta m rm n ids need full of
           Inl e \<Rightarrow> ([], rm)
         | Inr (dm, rm') \<Rightarrow>
             (if rm_token_processed rm < rm_num_token_ids rm
              then map fst (hla_group_dump m (hla_merge_blocks m ids full rm) n g) else [], rm')))"

definition hla_pos :: "group_info \<Rightarrow> hla_meta \<Rightarrow> nat" where
  "hla_pos g rm = min (rm_token_processed rm) (rm_num_token_ids rm) div gi_block_size g"

definition hla_range_plan :: "group_manager \<Rightarrow> group_info \<Rightarrow> hla_meta \<Rightarrow> hla_step \<Rightarrow> bytes list \<times> hla_meta" where
  "hla_range_plan m g rm step =
     (let rm' = snd (hla_plan m g rm step)
      in (py_slice (hm_group_ucm_block_ids rm ! gi_group_id g) (hla_pos g rm) (hla_pos g rm'), rm'))"

lemma hla_plan_frame:
  "hm_group_ucm_block_ids (snd (hla_plan m g rm step)) = hm_group_ucm_block_ids rm"
  "rm_num_token_ids (snd (hla_plan m g rm step)) = rm_num_token_ids rm"
  "rm_token_processed rm \<le> rm_token_processed (snd (hla_plan m g rm step))"
  by (auto simp: hla_plan_def hla_dispatch_frame split: prod.splits sum.splits)

interpretation hla_planner: dump_planner "hla_range_plan m g" "hla_pos g"
    "\<lambda>rm. hm_group_ucm_block_ids rm ! gi_group_id g" "\<lambda>_. True"
  for m :: group_manager and g :: group_info
  by unfold_locales
     (simp_all add: hla_range_plan_def Let_def hla_pos_def hla_plan_frame div_le_mono min.coboundedI1)

text \<open>The device blocks of the range a step covers are all there and none is the null block.\<close>

definition step_real :: "group_manager \<Rightarrow> group_info \<Rightarrow> hla_meta \<Rightarrow> hla_step \<Rightarrow> bool" where
  "step_real m g rm step =
     (case step of (n, ids, need, full) \<Rightarrow>
        let table = hm_group_vllm_block_ids (hla_merge_blocks m ids full rm) ! gi_group_id g
        in list_all (\<lambda>i. i < length table \<and> table ! i \<noteq> 0) [hla_pos g rm..<hla_pos g (snd (hla_plan m g rm step))])"

fun steps_real :: "group_manager \<Rightarrow> group_info \<Rightarrow> hla_meta \<Rightarrow> hla_step list \<Rightarrow> bool" where
  "steps_real m g rm [] = True"
| "steps_real m g rm (a # as) = (step_real m g rm a \<and> steps_real m g (snd (hla_plan m g rm a)) as)"

lemma extend_non_null_subseq: "subseq (map fst (extend_non_null us vs)) us"
proof -
  have "subseq (map fst (filter (\<lambda>(u, v). v \<noteq> 0) (zip us vs))) (map fst (zip us vs))"
    by (intro subseq_map subseq_filter_left)
  also have "map fst (zip us vs) = take (length vs) us" by (simp add: map_fst_zip_take min_def)
  also have "subseq (take (length vs) us) us" by (simp add: prefix_imp_subseq take_is_prefix)
  finally show ?thesis by (simp add: extend_non_null_def)
qed

lemma extend_non_null_all:
  "length us \<le> length vs \<Longrightarrow> list_all (\<lambda>i. vs ! i \<noteq> 0) [0..<length us] \<Longrightarrow> map fst (extend_non_null us vs) = us"
proof (induction us vs rule: list_induct2')
  case (4 u us v vs)
  have all: "\<forall>j < Suc (length us). (v # vs) ! j \<noteq> 0" using 4(3) by (simp add: list_all_iff del: upt_Suc)
  have v: "v \<noteq> 0" using all [rule_format, of 0] by simp
  have "vs ! i \<noteq> 0" if "i < length us" for i using all [rule_format, of "Suc i"] that by simp
  with 4(1,2) have "map fst (extend_non_null us vs) = us" by (simp add: list_all_iff)
  with v show ?case by (simp add: extend_non_null_def)
qed (auto simp: extend_non_null_def)

lemma hla_plan_dump:
  assumes "\<not> gi_is_mamba_align g"
  shows "subseq (fst (hla_plan m g rm step)) (fst (hla_range_plan m g rm step))"
    and "step_real m g rm step \<Longrightarrow> fst (hla_plan m g rm step) = fst (hla_range_plan m g rm step)"
proof -
  obtain n ids need full where step: "step = (n, ids, need, full)" by (metis prod_cases4)
  let ?rm1 = "hla_merge_blocks m ids full rm"
  let ?us = "hm_group_ucm_block_ids rm ! gi_group_id g" and ?vs = "hm_group_vllm_block_ids ?rm1 ! gi_group_id g"
  let ?a = "hla_pos g rm" and ?b = "hla_pos g (snd (hla_plan m g rm step))"
  have "subseq (fst (hla_plan m g rm step)) (fst (hla_range_plan m g rm step))
    \<and> (step_real m g rm step \<longrightarrow> fst (hla_plan m g rm step) = fst (hla_range_plan m g rm step))"
  proof (cases "hla_dispatch_meta m rm n ids need full")
    case (Inl e)
    then show ?thesis by (simp add: hla_plan_def hla_range_plan_def Let_def step)
  next
    case (Inr p)
    obtain dm rm' where p: "p = (dm, rm')" by (cases p)
    note fr = hla_dispatch_frame [OF Inr [unfolded p]]
    have b: "?b = hla_pos g rm'" by (simp add: hla_plan_def step Inr p)
    show ?thesis
    proof (cases "rm_token_processed rm < rm_num_token_ids rm")
      case False
      with fr have "?b = ?a" unfolding b by (simp add: hla_pos_def)
      with False Inr p show ?thesis by (simp add: hla_plan_def hla_range_plan_def Let_def step)
    next
      case True
      have ends: "?a = rm_token_processed rm div gi_block_size g" "?b = hla_dump_end rm n div gi_block_size g"
        using True fr unfolding b by (simp_all add: hla_pos_def hla_dump_end_def min_def)
      have out: "fst (hla_plan m g rm step) = map fst (group_blocks ?rm1 g ?a ?b)"
        using True Inr p assms ends(2) [unfolded b]
        by (simp add: hla_plan_def step hla_group_dump_def Let_def ends(1) hla_dump_end_def)
      have rng: "fst (hla_range_plan m g rm step) = py_slice ?us ?a ?b" by (simp add: hla_range_plan_def Let_def)
      have "map fst (group_blocks ?rm1 g ?a ?b) = py_slice ?us ?a ?b" if real: "step_real m g rm step"
      proof (cases "?a < ?b")
        case lt: True
        have all: "\<forall>i. ?a \<le> i \<and> i < ?b \<longrightarrow> i < length ?vs \<and> ?vs ! i \<noteq> 0"
          using real by (simp add: step_real_def step Let_def list_all_iff)
        then have "?b - 1 < length ?vs" using lt by auto
        then have len: "length (py_slice ?vs ?a ?b) = ?b - ?a" using lt by simp
        have "list_all (\<lambda>i. py_slice ?vs ?a ?b ! i \<noteq> 0) [0..<length (py_slice ?us ?a ?b)]"
          using all len by (auto simp: list_all_iff)
        with len lt show ?thesis by (simp add: group_blocks_def extend_non_null_all)
      qed (simp add: group_blocks_def)
      then show ?thesis unfolding out rng by (auto simp: group_blocks_def extend_non_null_subseq)
    qed
  qed
  then show "subseq (fst (hla_plan m g rm step)) (fst (hla_range_plan m g rm step))"
    and "step_real m g rm step \<Longrightarrow> fst (hla_plan m g rm step) = fst (hla_range_plan m g rm step)" by blast+
qed

lemma hla_runs:
  assumes "\<not> gi_is_mamba_align g"
  shows "run_plan (hla_plan m g) rm steps = (ids, rm') \<Longrightarrow> run_plan (hla_range_plan m g) rm steps = (all, rm'')
    \<Longrightarrow> rm'' = rm' \<and> subseq ids all \<and> (steps_real m g rm steps \<longrightarrow> ids = all)"
proof (induction steps arbitrary: rm ids all)
  case Nil
  then show ?case by simp
next
  case (Cons a as)
  obtain d1 m1 where p: "hla_plan m g rm a = (d1, m1)" by (cases "hla_plan m g rm a")
  obtain r1 where r: "hla_range_plan m g rm a = (r1, m1)" using p by (simp add: hla_range_plan_def Let_def)
  obtain d2 where d2: "run_plan (hla_plan m g) m1 as = (d2, rm')" "ids = d1 @ d2"
    using Cons.prems(1) p by (auto split: prod.splits)
  obtain r2 where r2: "run_plan (hla_range_plan m g) m1 as = (r2, rm'')" "all = r1 @ r2"
    using Cons.prems(2) r by (auto split: prod.splits)
  from hla_plan_dump [OF assms, of m rm a] p r have "subseq d1 r1" "step_real m g rm a \<Longrightarrow> d1 = r1" by simp_all
  with Cons.IH [OF d2(1) r2(1)] d2(2) r2(2) p show ?case by (auto intro: list_emb_append_mono)
qed

text \<open>The dumps of a run, taken apart by step and group.\<close>

lemma dispatch_is_its_parts:
  assumes "hla_dispatch_meta m rm n ids need full = Inr (dm, rm')"
  shows "zip (fst (dm_dump dm)) (snd (dm_dump dm)) = concat (map (hla_part m rm (n, ids, need, full)) (mg_groups m))"
    and "length (fst (dm_dump dm)) = length (snd (dm_dump dm))"
    and "hla_plan m g rm (n, ids, need, full) = (map fst (hla_part m rm (n, ids, need, full) g), rm')"
proof -
  have none: "concat (map (\<lambda>g. []) gs) = ([] :: (bytes \<times> vllm_id) list)" for gs :: "group_info list" by (induction gs) simp_all
  have d: "dm_dump dm = (map fst (hla_dump m (hla_merge_blocks m ids full rm) n), map snd (hla_dump m (hla_merge_blocks m ids full rm) n))"
    using assms by (auto simp: hla_dispatch_meta_def Let_def split: if_splits)
  show "zip (fst (dm_dump dm)) (snd (dm_dump dm)) = concat (map (hla_part m rm (n, ids, need, full)) (mg_groups m))"
    by (simp add: d zip_map_fst_snd hla_dump_def hla_part_def [abs_def] none)
  show "length (fst (dm_dump dm)) = length (snd (dm_dump dm))" by (simp add: d)
  show "hla_plan m g rm (n, ids, need, full) = (map fst (hla_part m rm (n, ids, need, full) g), rm')"
    by (simp add: hla_plan_def hla_part_def assms)
qed

lemma hla_run_parts:
  "hla_run m rm steps = Inr (dms, rm') \<Longrightarrow>
   \<exists>parts. length parts = length dms
     \<and> (\<forall>k < length dms. zip (fst (dm_dump (dms ! k))) (snd (dm_dump (dms ! k))) = concat (map (parts ! k) (mg_groups m))
          \<and> length (fst (dm_dump (dms ! k))) = length (snd (dm_dump (dms ! k))))
     \<and> (\<forall>g. run_plan (hla_plan m g) rm steps = (concat (map (\<lambda>part. map fst (part g)) parts), rm'))"
proof (induction steps arbitrary: rm dms)
  case Nil
  then show ?case by simp
next
  case (Cons a steps)
  obtain n ids need full where a: "a = (n, ids, need, full)" by (metis prod_cases4)
  obtain dm rm1 rest where d: "hla_dispatch_meta m rm n ids need full = Inr (dm, rm1)" and r: "hla_run m rm1 steps = Inr (rest, rm')"
    and dms: "dms = dm # rest"
    using Cons.prems by (auto simp: a rbind_Inr_iff split: prod.splits)
  from Cons.IH [OF r] obtain parts where ih: "length parts = length rest"
    "\<forall>k < length rest. zip (fst (dm_dump (rest ! k))) (snd (dm_dump (rest ! k))) = concat (map (parts ! k) (mg_groups m))
          \<and> length (fst (dm_dump (rest ! k))) = length (snd (dm_dump (rest ! k)))"
    "\<forall>g. run_plan (hla_plan m g) rm1 steps = (concat (map (\<lambda>part. map fst (part g)) parts), rm')" by blast
  note one = dispatch_is_its_parts [OF d]
  have "zip (fst (dm_dump (dms ! k))) (snd (dm_dump (dms ! k))) = concat (map ((hla_part m rm a # parts) ! k) (mg_groups m))
        \<and> length (fst (dm_dump (dms ! k))) = length (snd (dm_dump (dms ! k)))" if "k < length dms" for k
    using that ih(2) one(1,2) by (cases k) (simp_all add: dms a)
  moreover have "run_plan (hla_plan m g) rm (a # steps) = (concat (map (\<lambda>part. map fst (part g)) (hla_part m rm a # parts)), rm')" for g
    using ih(3) one(3) [of g] by (simp add: a)
  ultimately show ?case using ih(1) by (intro exI [of _ "hla_part m rm a # parts"]) (simp add: dms)
qed

text \<open>
  C25: The steps of a hybrid request dump the blocks of each full-attention group in order and at
  most once. What a dispatch dumps is put together of one part per group, in the order of the
  groups; over a run of dispatches the parts of a group are, in order and without repetition, among
  the group's blocks from the position the request stood at to the one it reaches; and where
  every block of that range has a device block when its step comes, they are all of them.
\<close>

theorem hla_dumps_every_block_once:
  assumes "hla_run m rm steps = Inr (dms, rm')"
  shows "\<exists>parts. length parts = length dms
    \<and> (\<forall>k < length dms. zip (fst (dm_dump (dms ! k))) (snd (dm_dump (dms ! k))) = concat (map (parts ! k) (mg_groups m))
         \<and> length (fst (dm_dump (dms ! k))) = length (snd (dm_dump (dms ! k))))
    \<and> (\<forall>g \<in> set (mg_groups m). \<not> gi_is_mamba_align g \<longrightarrow>
         subseq (concat (map (\<lambda>part. map fst (part g)) parts))
           (py_slice (hm_group_ucm_block_ids rm ! gi_group_id g) (hla_pos g rm) (hla_pos g rm'))
         \<and> hla_pos g rm \<le> hla_pos g rm'
         \<and> (steps_real m g rm steps \<longrightarrow>
              concat (map (\<lambda>part. map fst (part g)) parts)
                = py_slice (hm_group_ucm_block_ids rm ! gi_group_id g) (hla_pos g rm) (hla_pos g rm')))"
proof -
  from hla_run_parts [OF assms] obtain parts where parts: "length parts = length dms"
    "\<forall>k < length dms. zip (fst (dm_dump (dms ! k))) (snd (dm_dump (dms ! k))) = concat (map (parts ! k) (mg_groups m))
       \<and> length (fst (dm_dump (dms ! k))) = length (snd (dm_dump (dms ! k)))"
    and run: "\<And>g. run_plan (hla_plan m g) rm steps = (concat (map (\<lambda>part. map fst (part g)) parts), rm')" by blast
  have "subseq (concat (map (\<lambda>part. map fst (part g)) parts))
           (py_slice (hm_group_ucm_block_ids rm ! gi_group_id g) (hla_pos g rm) (hla_pos g rm'))
         \<and> hla_pos g rm \<le> hla_pos g rm'
         \<and> (steps_real m g rm steps \<longrightarrow> concat (map (\<lambda>part. map fst (part g)) parts)
              = py_slice (hm_group_ucm_block_ids rm ! gi_group_id g) (hla_pos g rm) (hla_pos g rm'))"
    if "\<not> gi_is_mamba_align g" for g
  proof -
    obtain all rm'' where all: "run_plan (hla_range_plan m g) rm steps = (all, rm'')"
      by (cases "run_plan (hla_range_plan m g) rm steps")
    from hla_runs [OF that run all] hla_planner.run_range [OF _ all] show ?thesis by auto
  qed
  with parts show ?thesis by blast
qed

text \<open>
  A linear-attention state is dumped only by a step that ends exactly at a resumption
  boundary it has crossed, under the key of that position, from the device block that holds the
  state there.
\<close>

lemma states_are_dumped_at_boundaries:
  assumes "(u, v) \<in> set (hla_group_dump m rm n g)" and "gi_is_mamba_align g" and "0 < mg_lcm_block_size m"
  shows "\<exists>pos. pos = hla_dump_end rm n \<and> mg_lcm_block_size m dvd pos \<and> rm_token_processed rm < pos
    \<and> compute_mamba_align_state_hash m g pos (hm_group_ucm_block_ids rm) = Some u
    \<and> v = hm_group_vllm_block_ids rm ! gi_group_id g ! ((pos - 1) div gi_block_size g) \<and> v \<noteq> 0"
proof -
  let ?L = "mg_lcm_block_size m"
  define pos where "pos = hla_dump_end rm n"
  have b: "pos = pos div ?L * ?L" "(rm_token_processed rm div ?L + 1) * ?L \<le> pos div ?L * ?L"
    and s: "(u, v) \<in> set (mamba_align_state_block m rm g pos False)"
    using assms(1,2) by (auto simp: hla_group_dump_def Let_def pos_def [symmetric] split: if_splits)
  have "rm_token_processed rm < (rm_token_processed rm div ?L + 1) * ?L"
    using assms(3) by (metis Suc_eq_plus1 dividend_less_times_div mult.commute mult_Suc_right)
  then have "rm_token_processed rm < pos" using b by linarith
  moreover have "?L dvd pos" by (metis b(1) dvd_triv_right)
  ultimately show ?thesis
    using s by (auto simp: pos_def [symmetric] mamba_align_state_block_def Let_def split: if_splits option.splits)
qed

section \<open>Concrete inputs\<close>

definition hybrid_scheduler :: "unit hla_scheduler" where
  "hybrid_scheduler = \<lparr>hs_requests_meta = [], hs_rcm = new_rcm True True, hs_world = (), hs_metrics = []\<rparr>"

definition hybrid_request :: request where
  "hybrid_request =
     \<lparr>rq_id = ''r'', rq_all_token_ids = [1, 2, 3, 4, 5, 6, 7, 8, 9, 10], rq_num_tokens = 10, rq_num_prompt_tokens = 10\<rparr>"

lemma hybrid_match:
  "\<exists>s'. hla_get_num_new_matched_tokens hybrid_manager demo_cfg demo_lookup hybrid_scheduler hybrid_request 0 = (Inr (8, False), s')"
proof -
  have "fst (hla_get_num_new_matched_tokens hybrid_manager demo_cfg demo_lookup hybrid_scheduler hybrid_request 0) = Inr (8, False)"
    by code_simp
  then show ?thesis by (metis prod.collapse)
qed

theorem hla_loads_are_stored_witness:
  "\<exists>s' rm. hla_get_num_new_matched_tokens hybrid_manager demo_cfg demo_lookup hybrid_scheduler hybrid_request 0 = (Inr (8, False), s')
     \<and> dict_get (hs_requests_meta s') ''r'' = Some rm"
proof -
  obtain s' where run: "hla_get_num_new_matched_tokens hybrid_manager demo_cfg demo_lookup hybrid_scheduler hybrid_request 0
      = (Inr (8, False), s')" using hybrid_match by blast
  have all: "takeWhile (\<lambda>_. True) ids = ids" for ids :: "bytes list" by (induction ids) simp_all
  have "\<forall>w. honest_prefix_lookup (\<lambda>_. True) w demo_lookup \<and> honest_lookup (\<lambda>_. True) w demo_lookup"
    by (simp add: honest_prefix_lookup_def honest_lookup_def demo_lookup_def all)
  moreover have "rc_enabled (hs_rcm hybrid_scheduler)" "rc_tracker (hs_rcm hybrid_scheduler) = Some {}"
    by (simp_all add: hybrid_scheduler_def new_rcm_def)
  ultimately obtain rm where "dict_get (hs_requests_meta s') (rq_id hybrid_request) = Some rm"
    using hla_loads_are_stored [OF run _ hybrid_manager_ok] by fastforce
  with run show ?thesis by (auto simp: hybrid_request_def)
qed

definition hybrid_meta :: hla_meta where
  "hybrid_meta =
     \<lparr>rm_ucm_block_ids = [''a'', ''b'', ''c'', ''d''], rm_hbm_hit_block_num = 0, rm_total_hit_block_num = 0, rm_num_token_ids = 8,
      rm_vllm_block_ids = [], rm_token_processed = 0,
      hm_group_ucm_block_ids = [[''a'', ''b'', ''c'', ''d''], [[], []]], hm_group_vllm_block_ids = [[], []]\<rparr>"

definition hybrid_steps :: "hla_step list" where
  "hybrid_steps = [(4, [[5, 6], [7]], False, False), (4, [[8, 9], [10]], False, False)]"

theorem hla_dumps_every_block_once_witness:
  "\<exists>dms rm' parts. hla_run hybrid_manager hybrid_meta hybrid_steps = Inr (dms, rm') \<and> length parts = length dms
    \<and> (\<forall>k < length dms. zip (fst (dm_dump (dms ! k))) (snd (dm_dump (dms ! k))) = concat (map (parts ! k) (mg_groups hybrid_manager)))
    \<and> concat (map (\<lambda>part. map fst (part (mg_groups hybrid_manager ! 0))) parts) = [''a'', ''b'', ''c'', ''d'']"
proof -
  let ?g = "mg_groups hybrid_manager ! 0"
  have "case_sum (\<lambda>_. False) (\<lambda>(dms, rm'). hla_pos ?g rm' = 4) (hla_run hybrid_manager hybrid_meta hybrid_steps)" by code_simp
  then obtain dms rm' where run: "hla_run hybrid_manager hybrid_meta hybrid_steps = Inr (dms, rm')" and pos: "hla_pos ?g rm' = 4"
    by (auto split: sum.splits)
  have real: "steps_real hybrid_manager ?g hybrid_meta hybrid_steps" by code_simp
  have "\<not> gi_is_mamba_align ?g" "?g \<in> set (mg_groups hybrid_manager)" "gi_group_id ?g = 0" "hla_pos ?g hybrid_meta = 0" "hm_group_ucm_block_ids hybrid_meta ! 0 = [''a'', ''b'', ''c'', ''d'']"
    by (simp_all add: hybrid_manager_def hla_pos_def hybrid_meta_def)
  with hla_dumps_every_block_once [OF run] real pos run show ?thesis by force
qed

end
