(* ===== verification/Hla_Layout.thy ===== *)
theory Hla_Layout
  imports Hla_Groups Kv_Layout
begin

text \<open>
  \<open>HybridLinearAttentionLayout\<close>: one raw tensor holds the pages of attention layers and of
  linear-attention layers. On CUDA a page is contiguous; on Ascend the components of all pages
  are stored one after the other (component-major). A row of the layout is the list of slices of
  one raw tensor.
\<close>

section \<open>Component sizes\<close>

record raw_tensor =
  rt_size :: nat
  rt_shared_by :: "string list"

fun mamba_component_sizes :: "layer_spec \<Rightarrow> nat list" where
  "mamba_component_sizes (MambaSpec _ _ comps) = map (\<lambda>(shape, dtype_size). prod_list shape * dtype_size) comps"
| "mamba_component_sizes _ = []"

fun attention_component_sizes :: "layer_spec \<Rightarrow> (nat \<times> nat) result" where
  "attention_component_sizes (FullAttentionSpec bs num_kv_heads head_size head_size_v dtype_size) =
     Inr (bs * num_kv_heads * head_size * dtype_size,
          bs * num_kv_heads * (case head_size_v of None \<Rightarrow> head_size | Some v \<Rightarrow> v) * dtype_size)"
| "attention_component_sizes _ = Inl AssertionError"

text \<open>
  \<open>_collect_shared_tensor_info\<close>: the specs and the device pointers of the layers that share a
  raw tensor. The cache of a layer is given by the pointers of its tensors.
\<close>

fun collect_shared_tensor_info ::
  "(string, layer_spec list) dict \<Rightarrow> (string, nat list) dict \<Rightarrow> string list \<Rightarrow> layer_spec list \<times> nat list" where
  "collect_shared_tensor_info specs kvcaches [] = ([], [])"
| "collect_shared_tensor_info specs kvcaches (layer_name # rest) =
     (case collect_shared_tensor_info specs kvcaches rest of
        (ss, ps) \<Rightarrow>
          (case dict_get kvcaches layer_name of
             None \<Rightarrow> (ss, ps)
           | Some ptrs \<Rightarrow> (dict_get_or specs layer_name [] @ ss, ptrs @ ps)))"

section \<open>Rows\<close>

text \<open>The strides of a row are its sizes in all three kinds of layout.\<close>

record page_row =
  pr_base_ptrs :: "int list"
  pr_buffer_sizes :: "nat list"
  pr_sizes :: "nat list"

definition contiguous_row :: "nat \<Rightarrow> raw_tensor \<Rightarrow> nat list \<Rightarrow> page_row result" where
  "contiguous_row num_blocks raw shared_ptrs =
     (if num_blocks = 0 then Inl ZeroDivisionError
      else if rt_size raw mod num_blocks \<noteq> 0 then Inl ValueError
      else Inr \<lparr>pr_base_ptrs = [int (min_list shared_ptrs)], pr_buffer_sizes = [rt_size raw],
               pr_sizes = [rt_size raw div num_blocks]\<rparr>)"

text \<open>The rows of three components: component-major slices over all blocks.\<close>

definition component_row :: "nat \<Rightarrow> int \<Rightarrow> nat list \<Rightarrow> page_row" where
  "component_row num_blocks base sizes =
     \<lparr>pr_base_ptrs = map (\<lambda>i. base + int (sum_list (take i sizes) * num_blocks)) [0..<length sizes],
      pr_buffer_sizes = map (\<lambda>s. s * num_blocks) sizes, pr_sizes = sizes\<rparr>"

definition component_major_row ::
  "nat \<Rightarrow> raw_tensor \<Rightarrow> nat list \<Rightarrow> layer_spec \<Rightarrow> layer_spec \<Rightarrow> page_row result" where
  "component_major_row num_blocks raw shared_ptrs mamba_spec attn_spec =
     (case mamba_component_sizes mamba_spec of
        conv_size # ssm_size # _ \<Rightarrow>
          rbind (attention_component_sizes attn_spec) (\<lambda>(k_size, v_size).
            if num_blocks = 0 then Inl ZeroDivisionError
            else
              let middle_size = max k_size ssm_size;
                  page_size = rt_size raw div num_blocks;
                  tail_size = page_size - (conv_size + middle_size)
              in if page_size \<le> conv_size + middle_size then Inl ValueError
                 else if tail_size < v_size then Inl ValueError
                 else Inr (component_row num_blocks (int (min_list shared_ptrs)) [conv_size, middle_size, tail_size]))
      | _ \<Rightarrow> contiguous_row num_blocks raw shared_ptrs)"

definition attn_only_row :: "nat \<Rightarrow> raw_tensor \<Rightarrow> nat list \<Rightarrow> layer_spec \<Rightarrow> page_row result" where
  "attn_only_row num_blocks raw shared_ptrs attn_spec =
     rbind (attention_component_sizes attn_spec) (\<lambda>(k_size, v_size).
       if num_blocks = 0 then Inl ZeroDivisionError
       else
         let page_size = rt_size raw div num_blocks;
             conv_padding_size = page_size - (k_size + v_size)
         in if page_size \<le> k_size + v_size then contiguous_row num_blocks raw shared_ptrs
            else Inr (component_row num_blocks (int (min_list shared_ptrs) - int (conv_padding_size * num_blocks))
                        [conv_padding_size, k_size, v_size]))"

definition page_row_of ::
  "bool \<Rightarrow> nat \<Rightarrow> raw_tensor \<Rightarrow> layer_spec list \<Rightarrow> nat list \<Rightarrow> page_row result" where
  "page_row_of is_npu num_blocks raw shared_specs shared_ptrs =
     (let mamba_specs = filter is_mamba_spec shared_specs;
          attn_specs = filter is_full_attention_spec shared_specs
      in if is_npu \<and> mamba_specs \<noteq> [] \<and> attn_specs \<noteq> []
         then component_major_row num_blocks raw shared_ptrs (hd mamba_specs) (hd attn_specs)
         else if is_npu \<and> attn_specs \<noteq> [] then attn_only_row num_blocks raw shared_ptrs (hd attn_specs)
         else contiguous_row num_blocks raw shared_ptrs)"

text \<open>The loop of \<open>_build_layout\<close>: raw tensors without layers or without caches are skipped.\<close>

fun build_rows ::
  "bool \<Rightarrow> nat \<Rightarrow> (string, layer_spec list) dict \<Rightarrow> (string, nat list) dict \<Rightarrow> raw_tensor list
     \<Rightarrow> page_row list \<times> (string, nat) dict \<Rightarrow> (page_row list \<times> (string, nat) dict) result" where
  "build_rows is_npu num_blocks specs kvcaches [] acc = Inr acc"
| "build_rows is_npu num_blocks specs kvcaches (raw # rest) (rows, name_to_row) =
     (if rt_shared_by raw = [] then build_rows is_npu num_blocks specs kvcaches rest (rows, name_to_row)
      else
        (case collect_shared_tensor_info specs kvcaches (rt_shared_by raw) of
           (shared_specs, shared_ptrs) \<Rightarrow>
             if shared_ptrs = [] then build_rows is_npu num_blocks specs kvcaches rest (rows, name_to_row)
             else
               rbind (page_row_of is_npu num_blocks raw shared_specs shared_ptrs) (\<lambda>row.
                 build_rows is_npu num_blocks specs kvcaches rest
                   (rows @ [row],
                    fold (\<lambda>name d. dict_set name (length rows) d) (rt_shared_by raw) name_to_row))))"

section \<open>The flattened arrays\<close>

text \<open>
  \<open>_finalize_layout_arrays\<close>. A Python integer outside the range of \<open>uint64\<close> makes NumPy raise.
  The rows keep their place in the flat arrays as the list of their slices \<open>(first, last)\<close>.
\<close>

definition int_u64 :: "int \<Rightarrow> u64 result" where
  "int_u64 i = (if 0 \<le> i \<and> i < 2 ^ 64 then Inr (word_of_int i) else Inl OverflowError)"

record hybrid_layout =
  hy_num_blocks :: nat
  hy_base_ptrs :: "u64 list"
  hy_buffer_sizes :: "u64 list"
  hy_sizes :: "u64 list"
  hy_row_slices :: "(nat \<times> nat) list"
  hy_row_tensor_size_lists :: "nat list list"
  hy_name_to_row :: "(string, nat) dict"

fun row_slices :: "nat \<Rightarrow> nat list \<Rightarrow> (nat \<times> nat) list" where
  "row_slices offset [] = []"
| "row_slices offset (n # ns) = (offset, offset + n) # row_slices (offset + n) ns"

definition finalize_layout :: "nat \<Rightarrow> page_row list \<Rightarrow> (string, nat) dict \<Rightarrow> hybrid_layout result" where
  "finalize_layout num_blocks rows name_to_row =
     rbind (rmap int_u64 (concat (map pr_base_ptrs rows))) (\<lambda>ptrs.
       rbind (rmap (\<lambda>s. int_u64 (int s)) (concat (map pr_buffer_sizes rows))) (\<lambda>buffers.
         rbind (rmap (\<lambda>s. int_u64 (int s)) (concat (map pr_sizes rows))) (\<lambda>sizes.
           Inr \<lparr>hy_num_blocks = num_blocks, hy_base_ptrs = ptrs, hy_buffer_sizes = buffers, hy_sizes = sizes,
                hy_row_slices = row_slices 0 (map (\<lambda>r. length (pr_sizes r)) rows),
                hy_row_tensor_size_lists = map pr_sizes rows, hy_name_to_row = name_to_row\<rparr>)))"

definition build_hybrid_layout ::
  "bool \<Rightarrow> nat \<Rightarrow> kv_cache_group list \<Rightarrow> raw_tensor list \<Rightarrow> (string, nat list) dict \<Rightarrow> hybrid_layout result" where
  "build_hybrid_layout is_npu num_blocks groups raws kvcaches =
     rbind (layer_name_to_kv_cache_spec groups) (\<lambda>specs.
       rbind (build_rows is_npu num_blocks specs kvcaches raws ([], [])) (\<lambda>(rows, name_to_row).
         finalize_layout num_blocks rows name_to_row))"

section \<open>Addresses\<close>

definition page_addrs :: "u64 list \<Rightarrow> u64 list \<Rightarrow> vllm_id \<Rightarrow> u64 list" where
  "page_addrs ptrs strides block = map (\<lambda>(p, s). word_of_nat block * s + p) (zip ptrs strides)"

definition hybrid_block_addrs :: "hybrid_layout \<Rightarrow> bool \<Rightarrow> vllm_id list \<Rightarrow> u64 list list result" where
  "hybrid_block_addrs l layer_first vllm_block_ids =
     (if layer_first then Inl ValueError
      else rbind (rmap (\<lambda>b. int_u64 (int b)) vllm_block_ids) (\<lambda>_.
        Inr (map (page_addrs (hy_base_ptrs l) (hy_sizes l)) vllm_block_ids)))"

text \<open>
  The table of all blocks' addresses is indexed with the block ids, which raises for an id
  beyond the blocks of the cache.
\<close>

definition hybrid_row_addrs :: "hybrid_layout \<Rightarrow> nat \<Rightarrow> vllm_id list \<Rightarrow> u64 list list result" where
  "hybrid_row_addrs l row_id vllm_block_ids =
     (if length (hy_row_slices l) \<le> row_id then Inl ValueError
      else
        let (a, b) = hy_row_slices l ! row_id in
        rmap (\<lambda>block. if block < hy_num_blocks l
                      then Inr (page_addrs (py_slice (hy_base_ptrs l) a b) (py_slice (hy_sizes l) a b) block)
                      else Inl IndexError) vllm_block_ids)"

section \<open>The slices of a raw tensor\<close>

lemma contiguous_row_is_component_row:
  assumes "contiguous_row nb raw ptrs = Inr row"
  shows "\<exists>base sizes. row = component_row nb base sizes \<and> sum_list sizes * nb \<le> rt_size raw \<and> sizes \<noteq> [] \<and> 0 < nb"
proof -
  have "0 < nb" "rt_size raw mod nb = 0" and row: "row = \<lparr>pr_base_ptrs = [int (min_list ptrs)], pr_buffer_sizes = [rt_size raw],
      pr_sizes = [rt_size raw div nb]\<rparr>"
    using assms by (auto simp: contiguous_row_def split: if_splits)
  then have "rt_size raw div nb * nb = rt_size raw" by (metis add.right_neutral div_mult_mod_eq)
  then have "row = component_row nb (int (min_list ptrs)) [rt_size raw div nb] \<and> sum_list [rt_size raw div nb] * nb \<le> rt_size raw"
    by (simp add: row component_row_def)
  with \<open>0 < nb\<close> show ?thesis by blast
qed

lemma div_times_le: "x \<le> page \<Longrightarrow> page = n div nb \<Longrightarrow> x * nb \<le> (n :: nat)"
  by (metis div_times_less_eq_dividend le_trans mult_le_mono1)

lemma page_row_is_component_row:
  assumes "page_row_of npu nb raw specs ptrs = Inr row"
  shows "\<exists>base sizes. row = component_row nb base sizes \<and> sum_list sizes * nb \<le> rt_size raw \<and> sizes \<noteq> [] \<and> 0 < nb"
proof -
  have cm: ?thesis if r: "component_major_row nb raw ptrs ms as = Inr row" for ms as
  proof (cases "length (mamba_component_sizes ms) < 2")
    case True
    with r have "contiguous_row nb raw ptrs = Inr row"
      by (auto simp: component_major_row_def split: list.splits)
    then show ?thesis by (rule contiguous_row_is_component_row)
  next
    case False
    then obtain conv ssm rest where ms: "mamba_component_sizes ms = conv # ssm # rest"
      by (cases "mamba_component_sizes ms" rule: list.exhaust; cases "tl (mamba_component_sizes ms)") auto
    obtain k v where kv: "attention_component_sizes as = Inr (k, v)"
      using r ms by (cases "attention_component_sizes as") (auto simp: component_major_row_def)
    let ?mid = "max k ssm" and ?page = "rt_size raw div nb"
    have nb: "0 < nb" and lt: "conv + ?mid < ?page"
      and row: "row = component_row nb (int (min_list ptrs)) [conv, ?mid, ?page - (conv + ?mid)]"
      using r ms kv by (auto simp: component_major_row_def Let_def split: if_splits)
    have "sum_list [conv, ?mid, ?page - (conv + ?mid)] \<le> ?page" using lt by simp
    from div_times_le [OF this refl] nb row show ?thesis by blast
  qed
  have ao: ?thesis if r: "attn_only_row nb raw ptrs as = Inr row" for as
  proof -
    obtain k v where kv: "attention_component_sizes as = Inr (k, v)"
      using r by (cases "attention_component_sizes as") (auto simp: attn_only_row_def)
    let ?page = "rt_size raw div nb"
    show ?thesis
    proof (cases "?page \<le> k + v")
      case True
      with r kv have "contiguous_row nb raw ptrs = Inr row" by (auto simp: attn_only_row_def Let_def split: if_splits)
      then show ?thesis by (rule contiguous_row_is_component_row)
    next
      case False
      then have nb: "0 < nb" and row: "row = component_row nb (int (min_list ptrs) - int ((?page - (k + v)) * nb)) [?page - (k + v), k, v]"
        using r kv by (auto simp: attn_only_row_def Let_def split: if_splits)
      have "sum_list [?page - (k + v), k, v] \<le> ?page" using False by simp
      from div_times_le [OF this refl] nb row show ?thesis by blast
    qed
  qed
  let ?ms = "filter is_mamba_spec specs" and ?as = "filter is_full_attention_spec specs"
  consider "component_major_row nb raw ptrs (hd ?ms) (hd ?as) = Inr row" | "attn_only_row nb raw ptrs (hd ?as) = Inr row"
    | "contiguous_row nb raw ptrs = Inr row"
    using assms by (simp add: page_row_of_def Let_def split: if_splits)
  then show ?thesis
  proof cases
    case 1
    then show ?thesis by (rule cm)
  next
    case 2
    then show ?thesis by (rule ao)
  next
    case 3
    then show ?thesis by (rule contiguous_row_is_component_row)
  qed
qed

text \<open>Where a slice of a block begins inside the raw tensor.\<close>

definition slice_offset :: "nat \<Rightarrow> nat list \<Rightarrow> nat \<Rightarrow> nat \<Rightarrow> nat" where
  "slice_offset num_blocks sizes i block = sum_list (take i sizes) * num_blocks + block * sizes ! i"

lemma slice_in_component:
  assumes "i < length sizes" and "block < nb"
  shows "sum_list (take i sizes) * nb \<le> slice_offset nb sizes i block"
    and "slice_offset nb sizes i block + sizes ! i \<le> sum_list (take (Suc i) sizes) * nb"
proof -
  have "block * sizes ! i + sizes ! i = Suc block * sizes ! i" by simp
  also have "\<dots> \<le> nb * sizes ! i" using assms(2) by (intro mult_le_mono1) simp
  finally show "slice_offset nb sizes i block + sizes ! i \<le> sum_list (take (Suc i) sizes) * nb"
    using assms(1) by (simp add: slice_offset_def take_Suc_conv_app_nth algebra_simps)
qed (simp add: slice_offset_def)

lemma sum_take_mono: "i \<le> j \<Longrightarrow> sum_list (take i sizes) \<le> sum_list (take j (sizes :: nat list))"
  by (metis le_add1 le_add_diff_inverse sum_list_append take_add)

lemma slices_disjoint:
  assumes "i < length sizes" and "j < length sizes" and "b < nb" and "b' < nb" and "(i, b) \<noteq> (j, b')"
  shows "slice_offset nb sizes i b + sizes ! i \<le> slice_offset nb sizes j b'
    \<or> slice_offset nb sizes j b' + sizes ! j \<le> slice_offset nb sizes i b"
proof (cases i j rule: linorder_cases)
  case less
  have "slice_offset nb sizes i b + sizes ! i \<le> sum_list (take (Suc i) sizes) * nb" by (rule slice_in_component(2) [OF assms(1,3)])
  also have "\<dots> \<le> sum_list (take j sizes) * nb" using less by (intro mult_le_mono1 sum_take_mono) simp
  also have "\<dots> \<le> slice_offset nb sizes j b'" by (rule slice_in_component(1) [OF assms(2,4)])
  finally show ?thesis ..
next
  case greater
  have "slice_offset nb sizes j b' + sizes ! j \<le> sum_list (take (Suc j) sizes) * nb" by (rule slice_in_component(2) [OF assms(2,4)])
  also have "\<dots> \<le> sum_list (take i sizes) * nb" using greater by (intro mult_le_mono1 sum_take_mono) simp
  also have "\<dots> \<le> slice_offset nb sizes i b" by (rule slice_in_component(1) [OF assms(1,3)])
  finally show ?thesis ..
next
  case equal
  have step: "x * sizes ! i + sizes ! i \<le> y * sizes ! i" if "x < y" for x y
    using that by (metis Suc_leI add.commute mult_Suc mult_le_mono1)
  have "b < b' \<or> b' < b" using assms(5) equal by auto
  then show ?thesis using equal step by (auto simp: slice_offset_def)
qed

section \<open>Rows of the finished layout\<close>

lemma rmap_int_u64: "rmap int_u64 xs = Inr ys \<longleftrightarrow> (\<forall>x \<in> set xs. 0 \<le> x \<and> x < 2 ^ 64) \<and> ys = map word_of_int xs"
  by (induction xs arbitrary: ys) (auto simp: int_u64_def rbind_Inr_iff)

lemma rmap_int_u64_nat: "rmap (\<lambda>s. int_u64 (int s)) xs = Inr ys \<longleftrightarrow> (\<forall>x \<in> set xs. x < 2 ^ 64) \<and> ys = map word_of_nat xs"
proof -
  have "rmap (\<lambda>s. int_u64 (int s)) xs = rmap int_u64 (map int xs)" by (induction xs) simp_all
  then show ?thesis by (auto simp: rmap_int_u64 o_def)
qed

lemma row_slices_nth:
  "r < length ns \<Longrightarrow> row_slices off ns ! r = (off + sum_list (take r ns), off + sum_list (take (Suc r) ns))"
proof (induction ns arbitrary: off r)
  case (Cons n ns)
  then show ?case by (cases r) (simp_all add: add.assoc)
qed simp

lemma length_row_slices [simp]: "length (row_slices off ns) = length ns"
  by (induction ns arbitrary: off) simp_all

lemma slice_of_concat:
  assumes "r < length xss"
  shows "py_slice (concat xss) (sum_list (take r (map length xss))) (sum_list (take (Suc r) (map length xss))) = xss ! r"
proof -
  let ?a = "concat (take r xss)" and ?c = "concat (drop (Suc r) xss)"
  have "concat xss = ?a @ xss ! r @ ?c" using assms by (metis append_Cons append_Nil concat.simps(2) concat_append id_take_nth_drop)
  moreover have "sum_list (take r (map length xss)) = length ?a" by (simp add: length_concat take_map)
  moreover have "sum_list (take (Suc r) (map length xss)) = length ?a + length (xss ! r)"
    using assms by (simp add: length_concat take_map take_Suc_conv_app_nth)
  ultimately show ?thesis by (simp add: py_slice_def)
qed

lemma finalize_rows:
  assumes "finalize_layout nb rows n2r = Inr l" and "\<forall>row \<in> set rows. length (pr_base_ptrs row) = length (pr_sizes row)"
  shows "hy_num_blocks l = nb" and "length (hy_row_slices l) = length rows"
    and "hy_base_ptrs l = concat (map (\<lambda>row. map word_of_int (pr_base_ptrs row)) rows)"
    and "hy_sizes l = concat (map (\<lambda>row. map word_of_nat (pr_sizes row)) rows)"
    and "\<forall>row \<in> set rows. \<forall>x \<in> set (pr_base_ptrs row). 0 \<le> x \<and> x < 2 ^ 64"
    and "\<forall>row \<in> set rows. \<forall>x \<in> set (pr_sizes row). x < 2 ^ 64"
    and "r < length rows \<Longrightarrow> hybrid_row_addrs l r ids =
       rmap (\<lambda>block. if block < nb
                     then Inr (page_addrs (map word_of_int (pr_base_ptrs (rows ! r))) (map word_of_nat (pr_sizes (rows ! r))) block)
                     else Inl IndexError) ids"
proof -
  obtain bs where l: "l = \<lparr>hy_num_blocks = nb, hy_base_ptrs = map word_of_int (concat (map pr_base_ptrs rows)),
      hy_buffer_sizes = bs, hy_sizes = map word_of_nat (concat (map pr_sizes rows)),
      hy_row_slices = row_slices 0 (map (\<lambda>r. length (pr_sizes r)) rows),
      hy_row_tensor_size_lists = map pr_sizes rows, hy_name_to_row = n2r\<rparr>"
    and rng: "\<forall>x \<in> set (concat (map pr_base_ptrs rows)). 0 \<le> x \<and> x < 2 ^ 64" "\<forall>x \<in> set (concat (map pr_sizes rows)). x < 2 ^ 64"
    using assms(1) by (auto simp: finalize_layout_def rbind_Inr_iff rmap_int_u64 rmap_int_u64_nat)
  show "hy_num_blocks l = nb" "length (hy_row_slices l) = length rows"
    and ptrs: "hy_base_ptrs l = concat (map (\<lambda>row. map word_of_int (pr_base_ptrs row)) rows)"
    and sizes: "hy_sizes l = concat (map (\<lambda>row. map word_of_nat (pr_sizes row)) rows)"
    by (simp_all add: l map_concat o_def)
  show "\<forall>row \<in> set rows. \<forall>x \<in> set (pr_base_ptrs row). 0 \<le> x \<and> x < 2 ^ 64"
    and "\<forall>row \<in> set rows. \<forall>x \<in> set (pr_sizes row). x < 2 ^ 64" using rng by auto
  assume r: "r < length rows"
  have lens: "map length (map (\<lambda>row. map word_of_int (pr_base_ptrs row) :: u64 list) rows) = map (\<lambda>r. length (pr_sizes r)) rows"
    "map length (map (\<lambda>row. map word_of_nat (pr_sizes row) :: u64 list) rows) = map (\<lambda>r. length (pr_sizes r)) rows"
    using assms(2) by (simp_all add: o_def)
  have s1: "py_slice (hy_base_ptrs l) (sum_list (take r (map (\<lambda>r. length (pr_sizes r)) rows)))
          (sum_list (take (Suc r) (map (\<lambda>r. length (pr_sizes r)) rows))) = map word_of_int (pr_base_ptrs (rows ! r))"
    using slice_of_concat [of r "map (\<lambda>row. map word_of_int (pr_base_ptrs row) :: u64 list) rows"] r unfolding lens ptrs by simp
  have s2: "py_slice (hy_sizes l) (sum_list (take r (map (\<lambda>r. length (pr_sizes r)) rows)))
          (sum_list (take (Suc r) (map (\<lambda>r. length (pr_sizes r)) rows))) = map word_of_nat (pr_sizes (rows ! r))"
    using slice_of_concat [of r "map (\<lambda>row. map word_of_nat (pr_sizes row) :: u64 list) rows"] r unfolding lens sizes by simp
  have s3: "hy_row_slices l ! r = (sum_list (take r (map (\<lambda>r. length (pr_sizes r)) rows)),
      sum_list (take (Suc r) (map (\<lambda>r. length (pr_sizes r)) rows)))"
    using r by (simp only: l hybrid_layout.select_convs row_slices_nth length_map add_0)
  have s4: "hy_num_blocks l = nb" "length (hy_row_slices l) = length rows" by (simp_all add: l)
  show "hybrid_row_addrs l r ids =
       rmap (\<lambda>block. if block < nb
                     then Inr (page_addrs (map word_of_int (pr_base_ptrs (rows ! r))) (map word_of_nat (pr_sizes (rows ! r))) block)
                     else Inl IndexError) ids"
    unfolding hybrid_row_addrs_def Let_def s3 prod.case s1 s2 s4 using r by simp
qed

lemma zip_concat: "\<forall>row \<in> set rows. length (f row) = length (g row) \<Longrightarrow>
    zip (concat (map f rows)) (concat (map g rows)) = concat (map (\<lambda>row. zip (f row) (g row)) rows)"
  by (induction rows) simp_all

text \<open>
  Moving a block row by row moves exactly what moving it at once does: the addresses of the
  rows of a hybrid layout, put one after the other, are the flat addresses of the block.
\<close>

lemma hybrid_rows_make_the_block:
  assumes "finalize_layout nb rows n2r = Inr l" and "\<forall>row \<in> set rows. length (pr_base_ptrs row) = length (pr_sizes row)"
    and "block < nb" and "nb \<le> 2 ^ 64"
  shows "\<exists>addrs. list_all2 (\<lambda>r a. hybrid_row_addrs l r [block] = Inr [a]) [0..<length rows] addrs
    \<and> hybrid_block_addrs l False [block] = Inr [concat addrs]"
proof -
  define addr where "addr row = page_addrs (map word_of_int (pr_base_ptrs row)) (map word_of_nat (pr_sizes row)) block"
    for row :: page_row
  note fin = finalize_rows [OF assms(1,2)]
  have "list_all2 (\<lambda>r a. hybrid_row_addrs l r [block] = Inr [a]) [0..<length rows] (map addr rows)"
    using fin(7) assms(3) by (simp add: list_all2_conv_all_nth addr_def)
  moreover have "page_addrs (hy_base_ptrs l) (hy_sizes l) block = concat (map addr rows)"
    using assms(2) unfolding fin(3,4) page_addrs_def addr_def
    by (subst zip_concat) (simp_all add: map_concat o_def)
  moreover have "int block < 2 ^ 64" using assms(3,4) by simp
  then have "rmap (\<lambda>b. int_u64 (int b)) [block] = Inr [word_of_nat block]" by (simp add: int_u64_def)
  ultimately show ?thesis by (auto simp: hybrid_block_addrs_def)
qed

text \<open>
  The slices a hybrid layout transfers stay inside their raw tensor and never overlap: for a
  raw tensor inside the address space, the 64-bit address of every slice of every block is the
  exact one, its bytes lie within the tensor, and two different slices are disjoint, in the
  contiguous layout and in both component-major ones.
\<close>

lemma hybrid_slices_stay_apart:
  assumes "page_row_of npu nb raw specs ptrs = Inr row" and "0 \<le> hd (pr_base_ptrs row)"
    and "nat (hd (pr_base_ptrs row)) + rt_size raw < 2 ^ 64"
    and "i < length (pr_sizes row)" and "j < length (pr_sizes row)" and "b < nb" and "c < nb"
  shows "let base = nat (hd (pr_base_ptrs row));
             addr = \<lambda>b. page_addrs (map word_of_int (pr_base_ptrs row)) (map word_of_nat (pr_sizes row)) b;
             lo = unat (addr b ! i); lo' = unat (addr c ! j)
         in base \<le> lo \<and> lo + pr_sizes row ! i \<le> base + rt_size raw
            \<and> ((i, b) \<noteq> (j, c) \<longrightarrow> lo + pr_sizes row ! i \<le> lo' \<or> lo' + pr_sizes row ! j \<le> lo)"
proof -
  obtain base sizes where row: "row = component_row nb base sizes" and fit: "sum_list sizes * nb \<le> rt_size raw" and ne: "sizes \<noteq> []"
    using page_row_is_component_row [OF assms(1)] by blast
  have sz: "pr_sizes row = sizes" and hd: "hd (pr_base_ptrs row) = base"
    using ne by (simp_all add: row component_row_def upt_conv_Cons)
  have inside: "slice_offset nb sizes k x + sizes ! k \<le> rt_size raw" if "k < length sizes" "x < nb" for k x
  proof -
    have "slice_offset nb sizes k x + sizes ! k \<le> sum_list (take (Suc k) sizes) * nb" by (rule slice_in_component(2) [OF that])
    also have "\<dots> \<le> sum_list sizes * nb" using sum_take_mono [of "Suc k" "length sizes" sizes] that by (intro mult_le_mono1) simp
    finally show ?thesis using fit by simp
  qed
  have exact: "unat (page_addrs (map word_of_int (pr_base_ptrs row)) (map word_of_nat (pr_sizes row)) x ! k)
      = nat base + slice_offset nb sizes k x" if k: "k < length sizes" and x: "x < nb" for k x
  proof -
    let ?off = "sum_list (take k sizes) * nb"
    have "page_addrs (map word_of_int (pr_base_ptrs row)) (map word_of_nat (pr_sizes row)) x ! k
        = (word_of_nat x * word_of_nat (sizes ! k) + word_of_int (base + int ?off) :: u64)"
      using k by (simp add: page_addrs_def row component_row_def)
    also have "base + int ?off = int (nat base + ?off)" using assms(2) hd by simp
    also have "word_of_nat x * word_of_nat (sizes ! k) + word_of_int (int (nat base + ?off))
        = (word_of_nat (nat base + slice_offset nb sizes k x) :: u64)"
      by (simp add: slice_offset_def)
    finally have "unat (page_addrs (map word_of_int (pr_base_ptrs row)) (map word_of_nat (pr_sizes row)) x ! k)
        = (nat base + slice_offset nb sizes k x) mod 2 ^ 64" by (simp only: unat_of_nat) simp
    moreover have "nat base + slice_offset nb sizes k x < 2 ^ 64" using inside [OF k x] assms(3) hd by simp
    ultimately show ?thesis by simp
  qed
  show ?thesis
    using exact assms(4-7) inside [of i b] slices_disjoint [of i sizes j b nb c]
    by (simp add: Let_def sz hd)
qed

definition ascend_raw :: raw_tensor where
  "ascend_raw = \<lparr>rt_size = 400, rt_shared_by = [''attn'', ''mamba'']\<rparr>"

definition ascend_specs :: "layer_spec list" where
  "ascend_specs = [FullAttentionSpec 2 1 8 None 2, MambaSpec 4 True [([2, 2], 2), ([4], 4)]]"

lemma ascend_row:
  "page_row_of True 4 ascend_raw ascend_specs [1000, 1032]
     = Inr \<lparr>pr_base_ptrs = [1000, 1032, 1160], pr_buffer_sizes = [32, 128, 240], pr_sizes = [8, 32, 60]\<rparr>"
  by code_simp

end
