(* ===== verification/Hla_Worker.thy ===== *)
theory Hla_Worker
  imports Hla_Layout Layer_Loads
begin

text \<open>
  The worker side of the hybrid connectors. \<open>UCMHybridLinearAttentionConnector\<close> loads like
  the direct connector and dumps synchronously at the end of a step.
  \<open>UCMHybridLinearAttentionLayerWiseConnector\<close> transfers row by row: a row is one raw tensor,
  shared by one full-attention layer and the linear-attention layers before it, and the loads
  of the next rows are submitted while a row is computed.
\<close>

section \<open>Block ids of a rank\<close>

text \<open>\<open>_rank_scoped_ucm_block_ids\<close>.\<close>

definition hla_rank_scoped_ids :: "'w worker_cfg \<Rightarrow> bytes list \<Rightarrow> bytes list" where
  "hla_rank_scoped_ids cf ucm_block_ids =
     rank_scoped_ids (wc_hasher cf) (wc_tp_rank cf mod wc_tp_size cf = 0 \<or> wc_is_mla cf) ucm_block_ids"

section \<open>The synchronous dump\<close>

record hla_dump_acc =
  hd_ucm_block_ids :: "bytes list"
  hd_vllm_block_ids :: "vllm_id list"
  hd_block_ids_by_request :: "(req_id, bytes set) dict"
  hd_num_saved_block :: nat
  hd_num_saved_request :: nat

fun hla_collect_dump :: "'w worker_cfg \<Rightarrow> (req_id, dispatch_meta) dict \<Rightarrow> hla_dump_acc \<Rightarrow> hla_dump_acc" where
  "hla_collect_dump cf [] a = a"
| "hla_collect_dump cf ((request_id, request) # rest) a =
     (if fst (dm_dump request) = [] then hla_collect_dump cf rest a
      else
        let (ucm_block_ids, vllm_block_ids) =
              effective_blocks (wc_skip_null_vllm_blocks cf) (dm_dump request)
        in if wc_skip_null_vllm_blocks cf \<and> ucm_block_ids = [] then hla_collect_dump cf rest a
           else hla_collect_dump cf rest
                  \<lparr>hd_ucm_block_ids = hd_ucm_block_ids a @ hla_rank_scoped_ids cf ucm_block_ids,
                   hd_vllm_block_ids = hd_vllm_block_ids a @ vllm_block_ids,
                   hd_block_ids_by_request = dict_set request_id (set ucm_block_ids) (hd_block_ids_by_request a),
                   hd_num_saved_block = hd_num_saved_block a + length ucm_block_ids,
                   hd_num_saved_request = hd_num_saved_request a + 1\<rparr>)"

definition empty_hla_dump :: hla_dump_acc where
  "empty_hla_dump =
     \<lparr>hd_ucm_block_ids = [], hd_vllm_block_ids = [], hd_block_ids_by_request = [],
      hd_num_saved_block = 0, hd_num_saved_request = 0\<rparr>"

text \<open>What both exception handlers and the end of \<open>wait_for_save\<close> do with the event and the requests.\<close>

definition hla_release_event :: "'w worker_cfg \<Rightarrow> nat \<Rightarrow> 'w worker \<Rightarrow> 'w worker" where
  "hla_release_event cf event_handle s =
     (if wc_enable_event_sync cf \<and> event_handle \<noteq> 0
      then s\<lparr>wk_events := destroy_event_handle event_handle (wk_events s)\<rparr> else s)"

definition hla_finish_dump :: "req_id list \<Rightarrow> 'w worker \<Rightarrow> unit result \<times> 'w worker" where
  "hla_finish_dump request_ids s =
     (case finish_dump (wk_rcm s) request_ids of (r, rcm') \<Rightarrow> (r, s\<lparr>wk_rcm := rcm'\<rparr>))"

definition hla_submit_dump ::
  "'w worker_cfg \<Rightarrow> hla_dump_acc \<Rightarrow> 'w worker \<Rightarrow> (nat \<times> nat) result \<times> 'w worker" where
  "hla_submit_dump cf a s =
     (case wc_extract_block_addrs cf (hd_vllm_block_ids a) of
        Inl e \<Rightarrow> (Inl e, s)
      | Inr total_ptrs \<Rightarrow>
          (case get_dump_event_handle (wc_device cf) (wc_enable_event_sync cf) (wk_events s) (wk_world s) of
             (event_handle, ev, w) \<Rightarrow>
               (case submit_dump (wk_rcm s) (wc_store cf) w (hd_block_ids_by_request a) (hd_ucm_block_ids a)
                       (replicate (length (hd_ucm_block_ids a)) 0) total_ptrs event_handle of
                  (Inl e, rcm', w') \<Rightarrow>
                    (Inl e, hla_release_event cf event_handle (s\<lparr>wk_rcm := rcm', wk_world := w', wk_events := ev\<rparr>))
                | (Inr task, rcm', w') \<Rightarrow>
                    (Inr (task, event_handle), s\<lparr>wk_rcm := rcm', wk_world := w', wk_events := ev\<rparr>))))"

definition hla_wait_for_save :: "'w worker_cfg \<Rightarrow> connector_meta \<Rightarrow> 'w worker \<Rightarrow> unit result \<times> 'w worker" where
  "hla_wait_for_save cf metadata s =
     (if wc_is_mla cf \<and> wc_tp_rank cf mod wc_tp_size cf \<noteq> 0 then (Inr (), s)
      else
        let a = hla_collect_dump cf (cm_request_meta metadata) empty_hla_dump;
            request_ids = map fst (hd_block_ids_by_request a)
        in if hd_ucm_block_ids a = [] then (Inr (), s)
           else
             (case hla_submit_dump cf a s of
                (Inl e, s1) \<Rightarrow> hla_finish_dump request_ids s1
              | (Inr (task, event_handle), s1) \<Rightarrow>
                  (case wait_dump (wk_rcm s1) (wk_world s1) task of
                     (r, rcm', w') \<Rightarrow>
                       let s2 = s1\<lparr>wk_rcm := rcm', wk_world := w'\<rparr>;
                           (q, s3) = (case r of
                                        Inl e \<Rightarrow> hla_finish_dump request_ids s2
                                      | Inr _ \<Rightarrow> (Inr (), s2));
                           s4 = hla_release_event cf event_handle s3
                       in (case r of
                             Inl e \<Rightarrow> (q, s4)
                           | Inr _ \<Rightarrow>
                               (case hla_finish_dump request_ids s4 of
                                  (Inl e, s5) \<Rightarrow> (Inl e, s5)
                                | (Inr _, s5) \<Rightarrow>
                                    (Inr (), worker_stats
                                       [MCount ''save_requests_num'' (int (hd_num_saved_request a)),
                                        MCount ''save_blocks_num'' (int (hd_num_saved_block a)),
                                        MCount ''save_bytes_total'' (int (hd_num_saved_block a * wc_block_data_size cf))] s5))))))"

section \<open>Rows\<close>

text \<open>
  \<open>register_kv_caches\<close> of the layerwise class: all rows have the segment sizes of the first,
  and the layer whose save dumps a row is the one computed last.
\<close>

fun first_max :: "('a \<Rightarrow> nat) \<Rightarrow> 'a \<Rightarrow> 'a list \<Rightarrow> 'a" where
  "first_max key best [] = best"
| "first_max key best (x # xs) = first_max key (if key best < key x then x else best) xs"

definition row_layers :: "(string, nat) dict \<Rightarrow> (nat, string list) dict" where
  "row_layers name_to_row =
     fold (\<lambda>(layer_name, row_id) d. dict_set row_id (dict_get_or d row_id [] @ [layer_name]) d) name_to_row []"

definition row_save_layers :: "(string, nat) dict \<Rightarrow> nat \<Rightarrow> (string, nat) dict \<Rightarrow> (nat, string) dict" where
  "row_save_layers name_to_id first_layer_id name_to_row =
     map (\<lambda>(row_id, layer_names).
            (row_id, first_max (\<lambda>name. dict_get_or name_to_id name first_layer_id) (hd layer_names) (tl layer_names)))
       (row_layers name_to_row)"

record row_store_config =
  rs_row_ids :: "nat list"
  rs_tensor_size_list :: "nat list"
  rs_shard_size :: nat
  rs_block_size :: nat
  rs_row_save_layer :: "(nat, string) dict"

definition sorted_row_ids :: "(string, nat) dict \<Rightarrow> nat list" where
  "sorted_row_ids name_to_row = sort (remdups (map snd name_to_row))"

definition row_store_config_of ::
  "(string, nat) dict \<Rightarrow> (string, nat) dict \<Rightarrow> nat list list \<Rightarrow> row_store_config result" where
  "row_store_config_of name_to_id name_to_row row_tensor_size_lists =
     (case sort (remdups (map snd name_to_id)) of
        [] \<Rightarrow> Inl IndexError
      | first_layer_id # _ \<Rightarrow>
          (case sorted_row_ids name_to_row of
             [] \<Rightarrow> Inl RuntimeError
           | first_row_id # rest \<Rightarrow>
               let row_ids = first_row_id # rest in
               if length row_tensor_size_lists \<le> last row_ids then Inl RuntimeError
               else
                 let sizes = row_tensor_size_lists ! first_row_id in
                 if \<exists>row_id \<in> set row_ids. row_tensor_size_lists ! row_id \<noteq> sizes then Inl RuntimeError
                 else Inr \<lparr>rs_row_ids = row_ids, rs_tensor_size_list = sizes, rs_shard_size = sum_list sizes,
                           rs_block_size = sum_list sizes * (last row_ids + 1),
                           rs_row_save_layer = row_save_layers name_to_id first_layer_id name_to_row\<rparr>))"

text \<open>\<open>"mtp" in layer_name\<close>.\<close>

definition occurs_in :: "string \<Rightarrow> string \<Rightarrow> bool" where
  "occurs_in p s = list_ex (\<lambda>k. take (length p) (drop k s) = p) [0..<Suc (length s)]"

definition hla_is_mtp_layer :: "bool \<Rightarrow> string \<Rightarrow> bool" where
  "hla_is_mtp_layer is_mtp layer_name = (is_mtp \<and> occurs_in ''mtp'' layer_name)"

definition hla_init_mtp :: "string option option \<Rightarrow> bool" where
  "hla_init_mtp speculative_method =
     (case speculative_method of
        Some (Some m) \<Rightarrow> m = ''mtp'' \<or> ends_with m ''_mtp''
      | _ \<Rightarrow> False)"

text \<open>\<open>hybrid_layerwise_prefetch_rows\<close>: \<open>None\<close> is a value \<open>int()\<close> does not take.\<close>

definition load_prefetch_rows :: "int option \<Rightarrow> nat" where
  "load_prefetch_rows config = (case config of None \<Rightarrow> 2 | Some v \<Rightarrow> nat (max 1 v))"

section \<open>State of the layerwise worker\<close>

record 'w row_cfg =
  rw_base :: "'w worker_cfg"
  rw_extract_row :: "vllm_id list \<Rightarrow> nat \<Rightarrow> u64 list list result"
  rw_name_to_row :: "(string, nat) dict"
  rw_row_ids :: "nat list"
  rw_row_save_layer :: "(nat, string) dict"
  rw_prefetch_rows :: nat
  rw_is_mtp :: bool

record row_request =
  rr_request_id :: req_id
  rr_ucm_block_ids :: "bytes list"
  rr_store_block_ids :: "bytes list"
  rr_vllm_block_ids :: "vllm_id list"

record row_dump =
  rd_ucm_block_ids :: "bytes list"
  rd_vllm_block_ids :: "vllm_id list"
  rd_request_ids :: "req_id list"
  rd_block_ids_by_request :: "(req_id, bytes set) dict"

record 'w row_worker =
  rk_worker :: "'w worker"
  rk_load_tasks :: "(nat, (req_id, nat) dict) dict"
  rk_dump_tasks :: "(nat, pending_dump_task list) dict"
  rk_request_data :: "row_request list"
  rk_failure_req_ids :: "req_id set"
  rk_submitted_rows :: "nat set"
  rk_dump_data :: "row_dump option"
  rk_deferred :: "(nat, bytes list \<times> vllm_id list \<times> req_id list) dict"
  rk_need_load :: bool
  rk_is_save :: bool

section \<open>Loading rows\<close>

text \<open>\<open>_mark_load_failed\<close>: unlike the direct connector's handler it counts no metrics.\<close>

definition row_mark_load_failed ::
  "(req_id, dispatch_meta) dict \<Rightarrow> req_id \<Rightarrow> 'w row_worker \<Rightarrow> 'w row_worker" where
  "row_mark_load_failed metas request_id s =
     (let w = rk_worker s;
          w1 = (case dict_get metas request_id of
                  None \<Rightarrow> w
                | Some request \<Rightarrow>
                    w\<lparr>wk_invalid_block_ids := wk_invalid_block_ids w \<union> set (snd (dm_load request))\<rparr>)
      in s\<lparr>rk_worker := w1\<lparr>wk_meta := mark_failed request_id (wk_meta w1)\<rparr>,
           rk_failure_req_ids := insert request_id (rk_failure_req_ids s)\<rparr>)"

definition submit_row_load ::
  "'w row_cfg \<Rightarrow> nat \<Rightarrow> row_request \<Rightarrow> 'w row_worker \<Rightarrow> nat result \<times> 'w row_worker" where
  "submit_row_load cf row_id d s =
     (case rw_extract_row cf (rr_vllm_block_ids d) row_id of
        Inl e \<Rightarrow> (Inl e, s)
      | Inr row_ptrs \<Rightarrow>
          (case submit_load (wk_rcm (rk_worker s)) (wc_store (rw_base cf)) (wk_world (rk_worker s))
                  [(rr_request_id d, rr_ucm_block_ids d)] (rr_store_block_ids d)
                  (replicate (length (rr_store_block_ids d)) row_id) row_ptrs of
             (r, rcm', w') \<Rightarrow> (r, s\<lparr>rk_worker := (rk_worker s)\<lparr>wk_rcm := rcm', wk_world := w'\<rparr>\<rparr>)))"

fun submit_row_loads_loop ::
  "'w row_cfg \<Rightarrow> (req_id, dispatch_meta) dict \<Rightarrow> nat \<Rightarrow> row_request list \<Rightarrow> 'w row_worker \<Rightarrow> 'w row_worker" where
  "submit_row_loads_loop cf metas row_id [] s = s"
| "submit_row_loads_loop cf metas row_id (d # rest) s =
     (if rr_request_id d \<in> rk_failure_req_ids s then submit_row_loads_loop cf metas row_id rest s
      else
        (case submit_row_load cf row_id d s of
           (Inl e, s1) \<Rightarrow> submit_row_loads_loop cf metas row_id rest (row_mark_load_failed metas (rr_request_id d) s1)
         | (Inr task, s1) \<Rightarrow>
             submit_row_loads_loop cf metas row_id rest
               (s1\<lparr>rk_load_tasks :=
                    dict_set row_id
                      (dict_set (rr_request_id d) task (dict_get_or (rk_load_tasks s1) row_id []))
                      (rk_load_tasks s1)\<rparr>)))"

definition submit_row_loads ::
  "'w row_cfg \<Rightarrow> (req_id, dispatch_meta) dict \<Rightarrow> nat \<Rightarrow> 'w row_worker \<Rightarrow> 'w row_worker" where
  "submit_row_loads cf metas row_id s =
     (let s1 = submit_row_loads_loop cf metas row_id (rk_request_data s) s
      in s1\<lparr>rk_submitted_rows := insert row_id (rk_submitted_rows s1)\<rparr>)"

definition submit_row_loads_once ::
  "'w row_cfg \<Rightarrow> (req_id, dispatch_meta) dict \<Rightarrow> nat \<Rightarrow> 'w row_worker \<Rightarrow> 'w row_worker" where
  "submit_row_loads_once cf metas row_id s =
     (if row_id \<in> rk_submitted_rows s then s else submit_row_loads cf metas row_id s)"

fun wait_row_tasks ::
  "(req_id, dispatch_meta) dict \<Rightarrow> (req_id, nat) dict \<Rightarrow> 'w row_worker \<Rightarrow> 'w row_worker" where
  "wait_row_tasks metas [] s = s"
| "wait_row_tasks metas ((request_id, task) # rest) s =
     (case wait_load (wk_rcm (rk_worker s)) (wk_world (rk_worker s)) task of
        (r, rcm', w') \<Rightarrow>
          let s1 = s\<lparr>rk_worker := (rk_worker s)\<lparr>wk_rcm := rcm', wk_world := w'\<rparr>\<rparr> in
          wait_row_tasks metas rest
            (case r of Inr _ \<Rightarrow> s1 | Inl e \<Rightarrow> row_mark_load_failed metas request_id s1))"

definition wait_row_load ::
  "(req_id, dispatch_meta) dict \<Rightarrow> nat \<Rightarrow> 'w row_worker \<Rightarrow> nat \<times> 'w row_worker" where
  "wait_row_load metas row_id s =
     (let row_tasks = dict_get_or (rk_load_tasks s) row_id []
      in (length row_tasks, wait_row_tasks metas row_tasks (s\<lparr>rk_load_tasks := dict_pop row_id (rk_load_tasks s)\<rparr>)))"

fun row_prepare_loads :: "'w row_cfg \<Rightarrow> (req_id, dispatch_meta) dict \<Rightarrow> row_request list" where
  "row_prepare_loads cf [] = []"
| "row_prepare_loads cf ((request_id, request) # rest) =
     (if fst (dm_load request) = [] then row_prepare_loads cf rest
      else
        let (ucm_block_ids, vllm_block_ids) =
              effective_blocks (wc_skip_null_vllm_blocks (rw_base cf)) (dm_load request)
        in if wc_skip_null_vllm_blocks (rw_base cf) \<and> ucm_block_ids = [] then row_prepare_loads cf rest
           else \<lparr>rr_request_id = request_id, rr_ucm_block_ids = ucm_block_ids,
                 rr_store_block_ids = hla_rank_scoped_ids (rw_base cf) ucm_block_ids,
                 rr_vllm_block_ids = vllm_block_ids\<rparr> # row_prepare_loads cf rest)"

text \<open>
  \<open>need_load\<close> is set with the first prepared request. The first row is waited for here: vLLM
  announces a row only when its attention layer, the last of the row, is about to run.
\<close>

definition row_start_load_kv :: "'w row_cfg \<Rightarrow> connector_meta \<Rightarrow> 'w row_worker \<Rightarrow> 'w row_worker" where
  "row_start_load_kv cf metadata s =
     (let metas = cm_request_meta metadata;
          data = row_prepare_loads cf metas;
          s1 = s\<lparr>rk_load_tasks := [], rk_request_data := data, rk_failure_req_ids := {},
                 rk_submitted_rows := {}, rk_dump_data := None, rk_deferred := [],
                 rk_need_load := data \<noteq> []\<rparr>
      in if data = [] \<or> rw_row_ids cf = [] then s1
         else snd (wait_row_load metas 0
                     (fold (submit_row_loads_once cf metas)
                        [0..<min (rw_prefetch_rows cf + 1) (length (rw_row_ids cf))] s1)))"

definition row_wait_for_layer_load ::
  "'w row_cfg \<Rightarrow> connector_meta option \<Rightarrow> string \<Rightarrow> 'w row_worker \<Rightarrow> 'w row_worker" where
  "row_wait_for_layer_load cf bound layer_name s =
     (case bound of
        None \<Rightarrow> s
      | Some metadata \<Rightarrow>
          if \<not> rk_need_load s then s
          else
            (case dict_get (rw_name_to_row cf) layer_name of
               None \<Rightarrow> s
             | Some row_id \<Rightarrow>
                 let metas = cm_request_meta metadata;
                     next_row_id = row_id + 1
                 in if length (rw_row_ids cf) \<le> next_row_id then s
                    else
                      let s1 = submit_row_loads_once cf metas next_row_id s;
                          (n_tasks, s2) = wait_row_load metas next_row_id s1;
                          prefetch_start = next_row_id + 1;
                          prefetch_end = min (prefetch_start + rw_prefetch_rows cf) (length (rw_row_ids cf));
                          s3 = fold (submit_row_loads_once cf metas) [prefetch_start..<prefetch_end] s2
                      in s3\<lparr>rk_worker := worker_stats
                              [MCount ''layerwise_wait_tasks_count'' (int n_tasks)] (rk_worker s3)\<rparr>))"

section \<open>Saving rows\<close>

fun row_collect_dump :: "'w worker_cfg \<Rightarrow> (req_id, dispatch_meta) dict \<Rightarrow> row_dump \<Rightarrow> row_dump" where
  "row_collect_dump cf [] a = a"
| "row_collect_dump cf ((request_id, request) # rest) a =
     (if fst (dm_dump request) = [] then row_collect_dump cf rest a
      else
        let a1 = a\<lparr>rd_request_ids := rd_request_ids a @ [request_id]\<rparr>;
            (ucm_block_ids, vllm_block_ids) =
              effective_blocks (wc_skip_null_vllm_blocks cf) (dm_dump request)
        in if wc_skip_null_vllm_blocks cf \<and> ucm_block_ids = [] then row_collect_dump cf rest a1
           else row_collect_dump cf rest
                  (a1\<lparr>rd_block_ids_by_request := dict_set request_id (set ucm_block_ids) (rd_block_ids_by_request a1),
                      rd_ucm_block_ids := rd_ucm_block_ids a1 @ hla_rank_scoped_ids cf ucm_block_ids,
                      rd_vllm_block_ids := rd_vllm_block_ids a1 @ vllm_block_ids\<rparr>))"

definition build_dump_transfer_data :: "'w worker_cfg \<Rightarrow> (req_id, dispatch_meta) dict \<Rightarrow> row_dump" where
  "build_dump_transfer_data cf metas =
     row_collect_dump cf metas
       \<lparr>rd_ucm_block_ids = [], rd_vllm_block_ids = [], rd_request_ids = [], rd_block_ids_by_request = []\<rparr>"

text \<open>
  The event handle of a submission that fails is not destroyed here, but by the
  \<open>destroy_event_handles\<close> of \<open>wait_for_save\<close>.
\<close>

definition submit_row_dump ::
  "'w row_cfg \<Rightarrow> nat \<Rightarrow> (req_id, bytes set) dict \<Rightarrow> bytes list \<Rightarrow> u64 list list \<Rightarrow> req_id list
     \<Rightarrow> 'w row_worker \<Rightarrow> 'w row_worker" where
  "submit_row_dump cf row_id block_ids_by_request ucm_block_ids row_ptrs request_ids s =
     (let base = rw_base cf; wk = rk_worker s in
      case get_dump_event_handle (wc_device base) (wc_enable_event_sync base) (wk_events wk) (wk_world wk) of
        (event_handle, ev, w) \<Rightarrow>
          (case submit_dump (wk_rcm wk) (wc_store base) w block_ids_by_request ucm_block_ids
                  (replicate (length ucm_block_ids) row_id) row_ptrs event_handle of
             (r, rcm', w') \<Rightarrow>
               let s1 = s\<lparr>rk_worker := wk\<lparr>wk_rcm := rcm', wk_world := w', wk_events := ev\<rparr>\<rparr> in
               (case r of
                  Inl e \<Rightarrow> s1
                | Inr task \<Rightarrow>
                    s1\<lparr>rk_dump_tasks :=
                         dict_set row_id
                           (dict_get_or (rk_dump_tasks s1) row_id []
                            @ [\<lparr>pt_task = task, pt_request_ids = set request_ids, pt_event_handle = event_handle\<rparr>])
                           (rk_dump_tasks s1)\<rparr>)))"

definition row_save_kv_layer ::
  "'w row_cfg \<Rightarrow> connector_meta option \<Rightarrow> string \<Rightarrow> 'w row_worker \<Rightarrow> unit result \<times> 'w row_worker" where
  "row_save_kv_layer cf bound layer_name s =
     (case bound of
        None \<Rightarrow> (Inr (), s)
      | Some metadata \<Rightarrow>
          let base = rw_base cf in
          if wc_is_mla base \<and> wc_tp_rank base mod wc_tp_size base \<noteq> 0 then (Inr (), s)
          else
            (case dict_get (rw_name_to_row cf) layer_name of
               None \<Rightarrow> (Inr (), s)
             | Some row_id \<Rightarrow>
                 if dict_get (rw_row_save_layer cf) row_id \<noteq> Some layer_name then (Inr (), s)
                 else
                   let d = (case rk_dump_data s of
                              Some d \<Rightarrow> d
                            | None \<Rightarrow> build_dump_transfer_data base (cm_request_meta metadata));
                       s1 = s\<lparr>rk_dump_data := Some d\<rparr>
                   in if rd_ucm_block_ids d = [] then (Inr (), s1)
                      else
                        let s2 = s1\<lparr>rk_is_save := True\<rparr> in
                        if hla_is_mtp_layer (rw_is_mtp cf) layer_name
                        then (Inr (), s2\<lparr>rk_deferred :=
                                dict_set row_id (rd_ucm_block_ids d, rd_vllm_block_ids d, rd_request_ids d) (rk_deferred s2)\<rparr>)
                        else
                          (case rw_extract_row cf (rd_vllm_block_ids d) row_id of
                             Inl e \<Rightarrow> (Inl e, s2)
                           | Inr row_ptrs \<Rightarrow>
                               (Inr (), submit_row_dump cf row_id (rd_block_ids_by_request d) (rd_ucm_block_ids d)
                                          row_ptrs (rd_request_ids d) s2))))"

fun row_flush_loop ::
  "'w row_cfg \<Rightarrow> (req_id, bytes set) dict \<Rightarrow> (nat \<times> bytes list \<times> vllm_id list \<times> req_id list) list
     \<Rightarrow> 'w row_worker \<Rightarrow> 'w row_worker" where
  "row_flush_loop cf by_request [] s = s"
| "row_flush_loop cf by_request ((row_id, ucm_ids, vllm_ids, req_ids) # rest) s =
     (case rw_extract_row cf vllm_ids row_id of
        Inl e \<Rightarrow> row_flush_loop cf by_request rest s
      | Inr row_ptrs \<Rightarrow>
          row_flush_loop cf by_request rest (submit_row_dump cf row_id by_request ucm_ids row_ptrs req_ids s))"

definition row_flush_deferred :: "'w row_cfg \<Rightarrow> 'w row_worker \<Rightarrow> 'w row_worker" where
  "row_flush_deferred cf s =
     row_flush_loop cf
       (case rk_dump_data s of Some d \<Rightarrow> rd_block_ids_by_request d | None \<Rightarrow> [])
       (rk_deferred s) (s\<lparr>rk_deferred := []\<rparr>)"

fun wait_row_dumps :: "pending_dump_task list \<Rightarrow> 'w row_worker \<Rightarrow> 'w row_worker" where
  "wait_row_dumps [] s = s"
| "wait_row_dumps (t # rest) s =
     (case wait_dump (wk_rcm (rk_worker s)) (wk_world (rk_worker s)) (pt_task t) of
        (r, rcm', w') \<Rightarrow> wait_row_dumps rest (s\<lparr>rk_worker := (rk_worker s)\<lparr>wk_rcm := rcm', wk_world := w'\<rparr>\<rparr>))"

definition wait_dumps_of_row :: "nat \<Rightarrow> 'w row_worker \<Rightarrow> 'w row_worker" where
  "wait_dumps_of_row row_id s =
     wait_row_dumps (dict_get_or (rk_dump_tasks s) row_id []) (s\<lparr>rk_dump_tasks := dict_pop row_id (rk_dump_tasks s)\<rparr>)"

definition row_wait_for_save :: "'w row_cfg \<Rightarrow> 'w row_worker \<Rightarrow> unit result \<times> 'w row_worker" where
  "row_wait_for_save cf s =
     (if \<not> rk_is_save s then (Inr (), s)
      else
        let dump_request_ids = (case rk_dump_data s of Some d \<Rightarrow> rd_request_ids d | None \<Rightarrow> []);
            s1 = row_flush_deferred cf s;
            s2 = fold wait_dumps_of_row (rw_row_ids cf) s1
        in (case finish_dump (wk_rcm (rk_worker s2)) dump_request_ids of
              (Inl e, rcm') \<Rightarrow> (Inl e, s2\<lparr>rk_worker := (rk_worker s2)\<lparr>wk_rcm := rcm'\<rparr>\<rparr>)
            | (Inr _, rcm') \<Rightarrow>
                let wk = (rk_worker s2)\<lparr>wk_rcm := rcm'\<rparr>;
                    wk' = (if wc_enable_event_sync (rw_base cf)
                           then wk\<lparr>wk_events := destroy_event_handles (wk_events wk)\<rparr> else wk)
                in (Inr (), s2\<lparr>rk_worker := wk', rk_dump_tasks := [], rk_dump_data := None, rk_is_save := False\<rparr>)))"

end
