(* ===== verification/Hla_Rows.thy ===== *)
theory Hla_Rows
  imports Hla_Worker
begin

text \<open>
  What a step of the row-wise hybrid worker guarantees: every row is loaded before its layers
  run, and a block is reported as dumped only when all its rows are.
\<close>

section \<open>Frames\<close>

text \<open>What the loads of a step leave alone, and what every call of a pass moves in one direction only.\<close>

definition row_progress ::
  "('w \<Rightarrow> nat \<Rightarrow> bytes list \<Rightarrow> nat list \<Rightarrow> u64 list list \<Rightarrow> bool) \<Rightarrow> ('w \<Rightarrow> nat \<Rightarrow> bool) \<Rightarrow> 'w kv_store
     \<Rightarrow> 'w row_worker \<Rightarrow> 'w row_worker \<Rightarrow> bool" where
  "row_progress i f store s s' \<longleftrightarrow>
     steady i f (wk_world (rk_worker s)) (wk_world (rk_worker s'))
     \<and> rk_failure_req_ids s \<subseteq> rk_failure_req_ids s'
     \<and> rk_request_data s' = rk_request_data s \<and> rk_need_load s' = rk_need_load s
     \<and> (rk_failure_req_ids s \<subseteq> wm_load_failed_reqs (wk_meta (rk_worker s))
          \<longrightarrow> rk_failure_req_ids s' \<subseteq> wm_load_failed_reqs (wk_meta (rk_worker s')))
     \<and> (contexts_of store (rk_worker s) \<longrightarrow> contexts_of store (rk_worker s'))"

lemma row_progress_refl [simp]: "row_progress i f store s s"
  by (simp add: row_progress_def)

lemma row_progress_trans: "row_progress i f store s t \<Longrightarrow> row_progress i f store t u \<Longrightarrow> row_progress i f store s u"
  by (auto simp: row_progress_def intro: steady_trans)

lemma row_progress_data: "row_progress i f store s s' \<Longrightarrow> rk_request_data s' = rk_request_data s"
  and row_progress_need: "row_progress i f store s s' \<Longrightarrow> rk_need_load s' = rk_need_load s"
  and row_progress_failed: "row_progress i f store s s' \<Longrightarrow> rk_failure_req_ids s \<subseteq> rk_failure_req_ids s'"
  and row_progress_steady: "row_progress i f store s s' \<Longrightarrow> steady i f (wk_world (rk_worker s)) (wk_world (rk_worker s'))"
  and row_progress_contexts: "row_progress i f store s s' \<Longrightarrow> contexts_of store (rk_worker s) \<Longrightarrow> contexts_of store (rk_worker s')"
  and row_progress_subset: "row_progress i f store s s' \<Longrightarrow> rk_failure_req_ids s \<subseteq> wm_load_failed_reqs (wk_meta (rk_worker s))
     \<Longrightarrow> rk_failure_req_ids s' \<subseteq> wm_load_failed_reqs (wk_meta (rk_worker s'))"
  by (simp_all add: row_progress_def)

lemma row_fields_progress:
  "row_progress i f store s (s\<lparr>rk_load_tasks := ts\<rparr>)" "row_progress i f store s (s\<lparr>rk_submitted_rows := rs\<rparr>)"
  "row_progress i f store s (s\<lparr>rk_dump_tasks := ds\<rparr>)" "row_progress i f store s (s\<lparr>rk_dump_data := d\<rparr>)"
  "row_progress i f store s (s\<lparr>rk_deferred := df\<rparr>)" "row_progress i f store s (s\<lparr>rk_is_save := b\<rparr>)"
  "row_progress i f store s (s\<lparr>rk_worker := worker_stats ms (rk_worker s)\<rparr>)"
  by (simp_all add: row_progress_def contexts_of_def worker_stats_def)

section \<open>Loads\<close>

definition row_issued ::
  "('w \<Rightarrow> nat \<Rightarrow> bytes list \<Rightarrow> nat list \<Rightarrow> u64 list list \<Rightarrow> bool)
     \<Rightarrow> 'w row_cfg \<Rightarrow> 'w \<Rightarrow> row_request \<Rightarrow> nat \<Rightarrow> nat \<Rightarrow> bool" where
  "row_issued i cf w d row t \<longleftrightarrow>
     (\<exists>ptrs. rw_extract_row cf (rr_vllm_block_ids d) row = Inr ptrs
        \<and> i w t (rr_store_block_ids d) (replicate (length (rr_store_block_ids d)) row) ptrs)"

lemma row_issued_steady: "row_issued i cf w d row t \<Longrightarrow> steady i f w v \<Longrightarrow> row_issued i cf v d row t"
  by (auto simp: row_issued_def dest: steadyD(1))

lemma row_mark_load_failed_progress:
  "row_progress i f store s (row_mark_load_failed metas r s)"
  "rk_load_tasks (row_mark_load_failed metas r s) = rk_load_tasks s"
  "rk_submitted_rows (row_mark_load_failed metas r s) = rk_submitted_rows s"
  "r \<in> rk_failure_req_ids (row_mark_load_failed metas r s)"
  by (auto simp: row_mark_load_failed_def row_progress_def mark_failed_def contexts_of_def Let_def split: option.splits)

lemma submit_row_load_progress:
  assumes "submit_row_load cf row d s = (q, s')" and "load_contract i f (wc_store (rw_base cf))"
  shows "row_progress i f (wc_store (rw_base cf)) s s'" and "rk_load_tasks s' = rk_load_tasks s"
    and "rk_submitted_rows s' = rk_submitted_rows s"
    and "q = Inr t \<Longrightarrow> row_issued i cf (wk_world (rk_worker s')) d row t"
proof -
  have "row_progress i f (wc_store (rw_base cf)) s s' \<and> rk_load_tasks s' = rk_load_tasks s
    \<and> rk_submitted_rows s' = rk_submitted_rows s \<and> (q = Inr t \<longrightarrow> row_issued i cf (wk_world (rk_worker s')) d row t)"
  proof (cases "rw_extract_row cf (rr_vllm_block_ids d) row")
    case (Inl e)
    with assms(1) show ?thesis by (auto simp: submit_row_load_def)
  next
    case (Inr ptrs)
    obtain r rcm' w' where l: "submit_load (wk_rcm (rk_worker s)) (wc_store (rw_base cf)) (wk_world (rk_worker s))
        [(rr_request_id d, rr_ucm_block_ids d)] (rr_store_block_ids d)
        (replicate (length (rr_store_block_ids d)) row) ptrs = (r, rcm', w')" by (metis prod_cases3)
    have qs: "q = r" "s' = s\<lparr>rk_worker := (rk_worker s)\<lparr>wk_rcm := rcm', wk_world := w'\<rparr>\<rparr>"
      using assms(1) Inr l by (simp_all add: submit_row_load_def)
    have ctx: "contexts_of (wc_store (rw_base cf)) (rk_worker s)
        \<longrightarrow> (\<forall>(k, st, c) \<in> set (rc_load_contexts rcm'). st = wc_store (rw_base cf))"
      using l dict_in_set_update
      by (fastforce simp: submit_load_def Let_def contexts_of_def mark_load_context_missing_fields
          split: sum.splits prod.splits if_splits)
    show ?thesis
      using submit_load_issued(1) [OF l assms(2)] submit_load_issued(2) [OF l assms(2), of t] Inr ctx
      by (auto simp: qs row_progress_def row_issued_def contexts_of_def)
  qed
  then show "row_progress i f (wc_store (rw_base cf)) s s'" and "rk_load_tasks s' = rk_load_tasks s"
    and "rk_submitted_rows s' = rk_submitted_rows s"
    and "q = Inr t \<Longrightarrow> row_issued i cf (wk_world (rk_worker s')) d row t" by blast+
qed

definition row_underway ::
  "('w \<Rightarrow> nat \<Rightarrow> bytes list \<Rightarrow> nat list \<Rightarrow> u64 list list \<Rightarrow> bool)
     \<Rightarrow> 'w row_cfg \<Rightarrow> 'w row_worker \<Rightarrow> nat \<Rightarrow> row_request \<Rightarrow> bool" where
  "row_underway i cf s row d \<longleftrightarrow>
     rr_request_id d \<in> rk_failure_req_ids s
     \<or> (\<exists>t. dict_get (dict_get_or (rk_load_tasks s) row []) (rr_request_id d) = Some t
          \<and> row_issued i cf (wk_world (rk_worker s)) d row t)"

lemma row_underway_keep:
  assumes "row_underway i cf s row d" and p: "row_progress i f store s s'"
    and "dict_get (dict_get_or (rk_load_tasks s') row []) (rr_request_id d)
       = dict_get (dict_get_or (rk_load_tasks s) row []) (rr_request_id d)"
  shows "row_underway i cf s' row d"
  using assms(1,3) row_progress_failed [OF p] row_issued_steady [OF _ row_progress_steady [OF p]]
  by (auto simp: row_underway_def)

text \<open>After a row's loads have been submitted, each request has failed or its load is under way.\<close>

lemma submit_row_loads_loop_progress:
  assumes "load_contract i f (wc_store (rw_base cf))"
  shows "distinct (map rr_request_id ds)
     \<Longrightarrow> s' = submit_row_loads_loop cf metas row ds s
     \<Longrightarrow> row_progress i f (wc_store (rw_base cf)) s s' \<and> rk_submitted_rows s' = rk_submitted_rows s
       \<and> (\<forall>d \<in> set ds. row_underway i cf s' row d)
       \<and> (\<forall>r. r \<notin> rr_request_id ` set ds \<longrightarrow>
            dict_get (dict_get_or (rk_load_tasks s') row []) r = dict_get (dict_get_or (rk_load_tasks s) row []) r)
       \<and> (\<forall>j. j \<noteq> row \<longrightarrow> dict_get_or (rk_load_tasks s') j [] = dict_get_or (rk_load_tasks s) j [])"
proof (induction ds arbitrary: s)
  case Nil
  then show ?case by simp
next
  case (Cons d ds)
  let ?st = "wc_store (rw_base cf)" and ?r = "rr_request_id d"
  have d: "distinct (map rr_request_id ds)" "?r \<notin> rr_request_id ` set ds" using Cons.prems(1) by simp_all
  have ex: "\<exists>s2. s' = submit_row_loads_loop cf metas row ds s2 \<and> row_progress i f ?st s s2
      \<and> rk_submitted_rows s2 = rk_submitted_rows s \<and> row_underway i cf s2 row d
      \<and> (\<forall>r. r \<noteq> ?r \<longrightarrow> dict_get (dict_get_or (rk_load_tasks s2) row []) r = dict_get (dict_get_or (rk_load_tasks s) row []) r)
      \<and> (\<forall>j. j \<noteq> row \<longrightarrow> dict_get_or (rk_load_tasks s2) j [] = dict_get_or (rk_load_tasks s) j [])"
  proof (cases "?r \<in> rk_failure_req_ids s")
    case True
    with Cons.prems(2) show ?thesis by (intro exI [of _ s]) (simp add: row_underway_def)
  next
    case False
    obtain q s1 where q: "submit_row_load cf row d s = (q, s1)" by (cases "submit_row_load cf row d s")
    note one = submit_row_load_progress [OF q assms]
    show ?thesis
    proof (cases q)
      case (Inl e)
      let ?s2 = "row_mark_load_failed metas ?r s1"
      have "row_progress i f ?st s ?s2" by (rule row_progress_trans [OF one(1) row_mark_load_failed_progress(1)])
      with Cons.prems(2) False q Inl one(2,3) show ?thesis
        by (intro exI [of _ ?s2]) (simp add: row_underway_def row_mark_load_failed_progress)
    next
      case (Inr task)
      let ?s2 = "s1\<lparr>rk_load_tasks := dict_set row (dict_set ?r task (dict_get_or (rk_load_tasks s1) row [])) (rk_load_tasks s1)\<rparr>"
      have "row_progress i f ?st s ?s2" by (rule row_progress_trans [OF one(1) row_fields_progress(1)])
      with Cons.prems(2) False q Inr one(2,3) one(4) [OF Inr] show ?thesis
        by (intro exI [of _ ?s2]) (simp add: row_underway_def)
    qed
  qed
  then obtain s2 where s2: "s' = submit_row_loads_loop cf metas row ds s2" "row_progress i f ?st s s2"
      "rk_submitted_rows s2 = rk_submitted_rows s" "row_underway i cf s2 row d"
      "\<forall>r. r \<noteq> ?r \<longrightarrow> dict_get (dict_get_or (rk_load_tasks s2) row []) r = dict_get (dict_get_or (rk_load_tasks s) row []) r"
      "\<forall>j. j \<noteq> row \<longrightarrow> dict_get_or (rk_load_tasks s2) j [] = dict_get_or (rk_load_tasks s) j []" by blast
  note ih = Cons.IH [OF d(1) s2(1)]
  have "row_underway i cf s' row d" using row_underway_keep [OF s2(4)] ih d(2) by blast
  with ih s2 row_progress_trans [OF s2(2)] show ?case by auto
qed

lemma submit_row_loads_once_progress:
  assumes "load_contract i f (wc_store (rw_base cf))" and "distinct (map rr_request_id (rk_request_data s))"
    and und: "row \<in> rk_submitted_rows s \<longrightarrow> (\<forall>d \<in> set (rk_request_data s). row_underway i cf s row d)"
    and s'_def: "s' = submit_row_loads_once cf metas row s"
  shows "row_progress i f (wc_store (rw_base cf)) s s'" and "rk_submitted_rows s' = insert row (rk_submitted_rows s)"
    and "\<forall>d \<in> set (rk_request_data s). row_underway i cf s' row d"
    and "j \<noteq> row \<Longrightarrow> dict_get_or (rk_load_tasks s') j [] = dict_get_or (rk_load_tasks s) j []"
proof -
  have "row_progress i f (wc_store (rw_base cf)) s s' \<and> rk_submitted_rows s' = insert row (rk_submitted_rows s)
    \<and> (\<forall>d \<in> set (rk_request_data s). row_underway i cf s' row d)
    \<and> (\<forall>j. j \<noteq> row \<longrightarrow> dict_get_or (rk_load_tasks s') j [] = dict_get_or (rk_load_tasks s) j [])"
  proof (cases "row \<in> rk_submitted_rows s")
    case True
    with und show ?thesis by (auto simp: s'_def submit_row_loads_once_def)
  next
    case False
    define s1 where "s1 = submit_row_loads_loop cf metas row (rk_request_data s) s"
    note one = submit_row_loads_loop_progress [OF assms(1,2) s1_def]
    have s': "s' = s1\<lparr>rk_submitted_rows := insert row (rk_submitted_rows s)\<rparr>"
      using False one by (simp add: s'_def submit_row_loads_once_def submit_row_loads_def s1_def [symmetric] Let_def)
    have "row_progress i f (wc_store (rw_base cf)) s s'"
      unfolding s' using one row_progress_trans row_fields_progress(2) by blast
    with one show ?thesis by (simp add: s' row_underway_def)
  qed
  then show "row_progress i f (wc_store (rw_base cf)) s s'" and "rk_submitted_rows s' = insert row (rk_submitted_rows s)"
    and "\<forall>d \<in> set (rk_request_data s). row_underway i cf s' row d"
    and "j \<noteq> row \<Longrightarrow> dict_get_or (rk_load_tasks s') j [] = dict_get_or (rk_load_tasks s) j []" by blast+
qed

lemma wait_row_tasks_progress:
  "load_contract i f store \<Longrightarrow> contexts_of store (rk_worker s) \<Longrightarrow> s' = wait_row_tasks metas items s
     \<Longrightarrow> row_progress i f store s s' \<and> rk_load_tasks s' = rk_load_tasks s \<and> rk_submitted_rows s' = rk_submitted_rows s
       \<and> (\<forall>(r, t) \<in> set items. r \<in> rk_failure_req_ids s' \<or> f (wk_world (rk_worker s')) t)"
proof (induction items arbitrary: s)
  case Nil
  then show ?case by simp
next
  case (Cons it items)
  obtain r t where it: "it = (r, t)" by (cases it)
  obtain q rcm' w' where q: "wait_load (wk_rcm (rk_worker s)) (wk_world (rk_worker s)) t = (q, rcm', w')"
    by (metis prod_cases3)
  let ?s1 = "s\<lparr>rk_worker := (rk_worker s)\<lparr>wk_rcm := rcm', wk_world := w'\<rparr>\<rparr>"
  let ?s2 = "case q of Inr _ \<Rightarrow> ?s1 | Inl e \<Rightarrow> row_mark_load_failed metas r ?s1"
  note w = wait_load_finished [OF q Cons.prems(1) Cons.prems(2) [unfolded contexts_of_def]]
  have c1: "contexts_of store (rk_worker ?s1)"
    using Cons.prems(2) by (auto simp: contexts_of_def w(3) dest!: dict_set_pop_values)
  have one: "row_progress i f store s ?s1" using w(1) c1 by (simp add: row_progress_def)
  have two: "row_progress i f store s ?s2" "rk_load_tasks ?s2 = rk_load_tasks s" "rk_submitted_rows ?s2 = rk_submitted_rows s"
    "r \<in> rk_failure_req_ids ?s2 \<or> f (wk_world (rk_worker ?s2)) t"
    using one row_progress_trans [OF one row_mark_load_failed_progress(1)] w(2)
    by (cases q; simp add: row_mark_load_failed_progress)+
  have "s' = wait_row_tasks metas items ?s2" using Cons.prems(3) it q by (simp add: Let_def)
  note ih = Cons.IH [OF Cons.prems(1) row_progress_contexts [OF two(1) Cons.prems(2)] this]
  have "r \<in> rk_failure_req_ids s' \<or> f (wk_world (rk_worker s')) t"
    using two(4) ih row_progress_failed steadyD(2) [OF row_progress_steady] by blast
  with ih two it row_progress_trans [OF two(1)] show ?case by auto
qed

section \<open>The loads of a pass\<close>

definition row_loaded ::
  "('w \<Rightarrow> nat \<Rightarrow> bytes list \<Rightarrow> nat list \<Rightarrow> u64 list list \<Rightarrow> bool) \<Rightarrow> ('w \<Rightarrow> nat \<Rightarrow> bool)
     \<Rightarrow> 'w row_cfg \<Rightarrow> 'w \<Rightarrow> row_request \<Rightarrow> nat \<Rightarrow> bool" where
  "row_loaded i f cf w d row \<longleftrightarrow> (\<exists>t. row_issued i cf w d row t \<and> f w t)"

lemma row_loaded_steady: "row_loaded i f cf w d row \<Longrightarrow> steady i f w v \<Longrightarrow> row_loaded i f cf v d row"
  by (auto simp: row_loaded_def dest: row_issued_steady steadyD(2))

text \<open>The first \<open>k\<close> rows are loaded, and the rows submitted beyond them are under way.\<close>

definition rows_inv ::
  "('w \<Rightarrow> nat \<Rightarrow> bytes list \<Rightarrow> nat list \<Rightarrow> u64 list list \<Rightarrow> bool) \<Rightarrow> ('w \<Rightarrow> nat \<Rightarrow> bool)
     \<Rightarrow> 'w row_cfg \<Rightarrow> nat \<Rightarrow> 'w row_worker \<Rightarrow> bool" where
  "rows_inv i f cf k s \<longleftrightarrow>
     contexts_of (wc_store (rw_base cf)) (rk_worker s)
     \<and> distinct (map rr_request_id (rk_request_data s))
     \<and> rk_failure_req_ids s \<subseteq> wm_load_failed_reqs (wk_meta (rk_worker s))
     \<and> (\<forall>d \<in> set (rk_request_data s).
          (rr_request_id d \<in> rk_failure_req_ids s \<or> (\<forall>j < k. row_loaded i f cf (wk_world (rk_worker s)) d j))
          \<and> (\<forall>j \<in> rk_submitted_rows s. k \<le> j \<longrightarrow> row_underway i cf s j d))"

lemma rows_inv_step:
  assumes inv: "rows_inv i f cf k s" and p: "row_progress i f (wc_store (rw_base cf)) s s'"
    and und: "\<And>d j. d \<in> set (rk_request_data s) \<Longrightarrow> j \<in> rk_submitted_rows s' \<Longrightarrow> k \<le> j \<Longrightarrow> row_underway i cf s' j d"
  shows "rows_inv i f cf k s'"
  using inv und row_progress_failed [OF p] row_loaded_steady [OF _ row_progress_steady [OF p]]
    row_progress_subset [OF p] row_progress_contexts [OF p]
  unfolding rows_inv_def row_progress_data [OF p] by blast

lemma submit_row_loads_once_inv:
  assumes inv: "rows_inv i f cf k s" and "load_contract i f (wc_store (rw_base cf))" and "k \<le> row"
  shows "rows_inv i f cf k (submit_row_loads_once cf metas row s)"
    and "row_progress i f (wc_store (rw_base cf)) s (submit_row_loads_once cf metas row s)"
    and "rk_submitted_rows (submit_row_loads_once cf metas row s) = insert row (rk_submitted_rows s)"
proof -
  have d: "distinct (map rr_request_id (rk_request_data s))" using inv by (simp add: rows_inv_def)
  have u: "row \<in> rk_submitted_rows s \<longrightarrow> (\<forall>d \<in> set (rk_request_data s). row_underway i cf s row d)"
    using inv assms(3) by (simp add: rows_inv_def)
  note one = submit_row_loads_once_progress [OF assms(2) d u refl [of "submit_row_loads_once cf metas row s"]]
  show "rows_inv i f cf k (submit_row_loads_once cf metas row s)"
  proof (rule rows_inv_step [OF inv one(1)])
    fix d j assume j: "d \<in> set (rk_request_data s)" "j \<in> rk_submitted_rows (submit_row_loads_once cf metas row s)" "k \<le> j"
    show "row_underway i cf (submit_row_loads_once cf metas row s) j d"
    proof (cases "j = row")
      case True
      with one(3) j(1) show ?thesis by blast
    next
      case False
      with inv j one(2) have "row_underway i cf s j d" by (simp add: rows_inv_def)
      from row_underway_keep [OF this one(1)] one(4) [OF False] show ?thesis by simp
    qed
  qed
  show "row_progress i f (wc_store (rw_base cf)) s (submit_row_loads_once cf metas row s)"
    and "rk_submitted_rows (submit_row_loads_once cf metas row s) = insert row (rk_submitted_rows s)" by (rule one)+
qed

lemma submit_rows_inv:
  "rows_inv i f cf k s \<Longrightarrow> load_contract i f (wc_store (rw_base cf)) \<Longrightarrow> \<forall>row \<in> set rows. k \<le> row \<Longrightarrow>
     rows_inv i f cf k (fold (submit_row_loads_once cf metas) rows s)
     \<and> row_progress i f (wc_store (rw_base cf)) s (fold (submit_row_loads_once cf metas) rows s)
     \<and> rk_submitted_rows (fold (submit_row_loads_once cf metas) rows s) = set rows \<union> rk_submitted_rows s"
proof (induction rows arbitrary: s)
  case Nil
  then show ?case by simp
next
  case (Cons row rows)
  note one = submit_row_loads_once_inv [OF Cons.prems(1,2), of row metas]
  have k: "k \<le> row" "\<forall>row \<in> set rows. k \<le> row" using Cons.prems(3) by simp_all
  show ?case
    using Cons.IH [OF one(1) [OF k(1)] Cons.prems(2) k(2)] row_progress_trans [OF one(2) [OF k(1)]] one(3) [OF k(1)] by auto
qed

lemma wait_row_load_inv:
  assumes inv: "rows_inv i f cf k s" and contract: "load_contract i f (wc_store (rw_base cf))"
    and "k \<in> rk_submitted_rows s"
  shows "rows_inv i f cf (Suc k) (snd (wait_row_load metas k s))"
    and "row_progress i f (wc_store (rw_base cf)) s (snd (wait_row_load metas k s))"
proof -
  let ?tasks = "dict_get_or (rk_load_tasks s) k []"
  let ?s1 = "s\<lparr>rk_load_tasks := dict_pop k (rk_load_tasks s)\<rparr>"
  define s' where "s' = wait_row_tasks metas ?tasks ?s1"
  have s': "snd (wait_row_load metas k s) = s'" by (simp add: wait_row_load_def s'_def Let_def)
  have "contexts_of (wc_store (rw_base cf)) (rk_worker ?s1)" using inv by (simp add: rows_inv_def)
  note w = wait_row_tasks_progress [OF contract this s'_def]
  have p: "row_progress i f (wc_store (rw_base cf)) s s'"
    by (rule row_progress_trans [OF row_fields_progress(1) conjunct1 [OF w]])
  have keep: "row_underway i cf s' j d" if "row_underway i cf s j d" "j \<noteq> k" for j d
    by (rule row_underway_keep [OF that(1) p]) (use w that(2) in simp)
  have new: "rr_request_id d \<in> rk_failure_req_ids s' \<or> row_loaded i f cf (wk_world (rk_worker s')) d k"
    if d: "d \<in> set (rk_request_data s)" for d
  proof -
    have "row_underway i cf s k d" using inv d assms(3) by (simp add: rows_inv_def)
    then consider "rr_request_id d \<in> rk_failure_req_ids s"
      | t where "dict_get ?tasks (rr_request_id d) = Some t" "row_issued i cf (wk_world (rk_worker s)) d k t"
      unfolding row_underway_def by blast
    then show ?thesis
    proof cases
      case 1
      with row_progress_failed [OF p] show ?thesis by blast
    next
      case 2
      have "(rr_request_id d, t) \<in> set ?tasks" using 2(1) by (rule map_of_SomeD)
      with w have "rr_request_id d \<in> rk_failure_req_ids s' \<or> f (wk_world (rk_worker s')) t" by blast
      with row_issued_steady [OF 2(2) row_progress_steady [OF p]] show ?thesis unfolding row_loaded_def by blast
    qed
  qed
  have loaded: "rr_request_id d \<in> rk_failure_req_ids s' \<or> (\<forall>j < Suc k. row_loaded i f cf (wk_world (rk_worker s')) d j)"
    if d: "d \<in> set (rk_request_data s)" for d
    using inv new [OF d] d row_progress_failed [OF p] row_loaded_steady [OF _ row_progress_steady [OF p]]
    unfolding rows_inv_def less_Suc_eq by blast
  have und: "row_underway i cf s' j d" if "d \<in> set (rk_request_data s)" "j \<in> rk_submitted_rows s'" "Suc k \<le> j" for d j
    by (rule keep) (use inv w that in \<open>auto simp: rows_inv_def\<close>)
  have "contexts_of (wc_store (rw_base cf)) (rk_worker s)" "distinct (map rr_request_id (rk_request_data s))"
    "rk_failure_req_ids s \<subseteq> wm_load_failed_reqs (wk_meta (rk_worker s))" using inv by (simp_all add: rows_inv_def)
  then show "rows_inv i f cf (Suc k) (snd (wait_row_load metas k s))"
    unfolding s' rows_inv_def row_progress_data [OF p]
    by (intro conjI ballI impI row_progress_contexts [OF p] row_progress_subset [OF p] loaded und)
  show "row_progress i f (wc_store (rw_base cf)) s (snd (wait_row_load metas k s))" using p s' by simp
qed

text \<open>The loads, in turn, leave alone what a step dumps.\<close>

definition loads_steady ::
  "('w \<Rightarrow> nat \<Rightarrow> bytes list \<Rightarrow> nat list \<Rightarrow> u64 list list \<Rightarrow> bool) \<Rightarrow> ('w \<Rightarrow> nat \<Rightarrow> bool) \<Rightarrow> 'w kv_store \<Rightarrow> bool" where
  "loads_steady i f store \<longleftrightarrow>
     (\<forall>w ids shards ptrs. steady i f w (snd (st_load_data store w ids shards ptrs)))
     \<and> (\<forall>w t. steady i f w (snd (st_wait store w t)))"

definition dumps_untouched ::
  "('w \<Rightarrow> nat \<Rightarrow> bytes list \<Rightarrow> nat list \<Rightarrow> u64 list list \<Rightarrow> bool) \<Rightarrow> ('w \<Rightarrow> nat \<Rightarrow> bool)
     \<Rightarrow> 'w kv_store \<Rightarrow> 'w row_worker \<Rightarrow> 'w row_worker \<Rightarrow> bool" where
  "dumps_untouched i f store s s' \<longleftrightarrow>
     (contexts_of store (rk_worker s) \<longrightarrow> contexts_of store (rk_worker s')
        \<and> steady i f (wk_world (rk_worker s)) (wk_world (rk_worker s')))
     \<and> rk_dump_tasks s' = rk_dump_tasks s \<and> rk_dump_data s' = rk_dump_data s
     \<and> rk_deferred s' = rk_deferred s \<and> rk_is_save s' = rk_is_save s
     \<and> wk_events (rk_worker s') = wk_events (rk_worker s)
     \<and> rc_enabled (wk_rcm (rk_worker s')) = rc_enabled (wk_rcm (rk_worker s))
     \<and> rc_dump_contexts (wk_rcm (rk_worker s')) = rc_dump_contexts (wk_rcm (rk_worker s))
     \<and> rc_dump_blocks_by_request (wk_rcm (rk_worker s')) = rc_dump_blocks_by_request (wk_rcm (rk_worker s))
     \<and> rc_dump_failed_by_request (wk_rcm (rk_worker s')) = rc_dump_failed_by_request (wk_rcm (rk_worker s))
     \<and> rc_dump_succeeded_blocks (wk_rcm (rk_worker s')) = rc_dump_succeeded_blocks (wk_rcm (rk_worker s))"

lemma dumps_untouched_refl [simp]: "dumps_untouched i f store s s"
  by (simp add: dumps_untouched_def)

lemma dumps_untouched_trans:
  "dumps_untouched i f store s t \<Longrightarrow> dumps_untouched i f store t u \<Longrightarrow> dumps_untouched i f store s u"
  by (auto simp: dumps_untouched_def intro: steady_trans)

lemma load_fields_untouched:
  "dumps_untouched i f store s (s\<lparr>rk_load_tasks := ts\<rparr>)" "dumps_untouched i f store s (s\<lparr>rk_submitted_rows := rs\<rparr>)"
  "dumps_untouched i f store s (s\<lparr>rk_worker := worker_stats ms (rk_worker s)\<rparr>)"
  "dumps_untouched i f store s (row_mark_load_failed metas r s)"
  by (auto simp: dumps_untouched_def contexts_of_def worker_stats_def row_mark_load_failed_def Let_def split: option.splits)

lemma submit_row_load_untouched:
  assumes "submit_row_load cf row d s = (q, s')" and "loads_steady i f (wc_store (rw_base cf))"
  shows "dumps_untouched i f (wc_store (rw_base cf)) s s'"
proof (cases "rw_extract_row cf (rr_vllm_block_ids d) row")
  case (Inl e)
  with assms(1) show ?thesis by (auto simp: submit_row_load_def)
next
  case (Inr ptrs)
  obtain r rcm' w' where l: "submit_load (wk_rcm (rk_worker s)) (wc_store (rw_base cf)) (wk_world (rk_worker s))
      [(rr_request_id d, rr_ucm_block_ids d)] (rr_store_block_ids d)
      (replicate (length (rr_store_block_ids d)) row) ptrs = (r, rcm', w')" by (metis prod_cases3)
  have qs: "q = r" "s' = s\<lparr>rk_worker := (rk_worker s)\<lparr>wk_rcm := rcm', wk_world := w'\<rparr>\<rparr>"
    using assms(1) Inr l by (simp_all add: submit_row_load_def)
  have "w' = snd (st_load_data (wc_store (rw_base cf)) (wk_world (rk_worker s)) (rr_store_block_ids d)
      (replicate (length (rr_store_block_ids d)) row) ptrs)"
    using l by (auto simp: submit_load_def Let_def split: sum.splits prod.splits)
  moreover have ctx: "contexts_of (wc_store (rw_base cf)) (rk_worker s)
      \<longrightarrow> (\<forall>(k, st, c) \<in> set (rc_load_contexts rcm'). st = wc_store (rw_base cf))"
    using l dict_in_set_update
    by (fastforce simp: submit_load_def Let_def contexts_of_def mark_load_context_missing_fields
        split: sum.splits prod.splits if_splits)
  ultimately show ?thesis
    using submit_load_frame [OF l] assms(2) by (simp add: qs dumps_untouched_def loads_steady_def contexts_of_def)
qed

lemma submit_row_loads_loop_untouched:
  assumes "loads_steady i f (wc_store (rw_base cf))"
  shows "dumps_untouched i f (wc_store (rw_base cf)) s (submit_row_loads_loop cf metas row ds s)"
proof (induction ds arbitrary: s)
  case Nil
  then show ?case by simp
next
  case (Cons d ds)
  obtain q s1 where q: "submit_row_load cf row d s = (q, s1)" by (cases "submit_row_load cf row d s")
  note one = submit_row_load_untouched [OF q assms]
  show ?case
    using q Cons.IH dumps_untouched_trans [OF dumps_untouched_trans [OF one load_fields_untouched(1)] Cons.IH]
      dumps_untouched_trans [OF dumps_untouched_trans [OF one load_fields_untouched(4)] Cons.IH]
    by (simp split: sum.split)
qed

lemma submit_rows_untouched:
  assumes "loads_steady i f (wc_store (rw_base cf))"
  shows "dumps_untouched i f (wc_store (rw_base cf)) s (fold (submit_row_loads_once cf metas) rows s)"
proof (induction rows arbitrary: s)
  case Nil
  then show ?case by simp
next
  case (Cons row rows)
  have "dumps_untouched i f (wc_store (rw_base cf)) s (submit_row_loads_once cf metas row s)"
    using dumps_untouched_trans [OF submit_row_loads_loop_untouched [OF assms] load_fields_untouched(2)]
    by (simp add: submit_row_loads_once_def submit_row_loads_def Let_def)
  from dumps_untouched_trans [OF this Cons.IH] show ?case by simp
qed

lemma wait_row_tasks_untouched:
  assumes "loads_steady i f store"
  shows "dumps_untouched i f store s (wait_row_tasks metas items s)"
proof (induction items arbitrary: s)
  case Nil
  then show ?case by simp
next
  case (Cons it items)
  obtain r t where it: "it = (r, t)" by (cases it)
  obtain q rcm' w' where q: "wait_load (wk_rcm (rk_worker s)) (wk_world (rk_worker s)) t = (q, rcm', w')"
    by (metis prod_cases3)
  let ?s1 = "s\<lparr>rk_worker := (rk_worker s)\<lparr>wk_rcm := rcm', wk_world := w'\<rparr>\<rparr>"
  have "contexts_of store (rk_worker s) \<longrightarrow> contexts_of store (rk_worker ?s1) \<and> steady i f (wk_world (rk_worker s)) w'"
  proof (cases "dict_get (rc_load_contexts (wk_rcm (rk_worker s))) t")
    case None
    with q show ?thesis by (auto simp: wait_load_def contexts_of_def)
  next
    case (Some p)
    obtain st c where p: "p = (st, c)" by (cases p)
    have mem: "(t, st, c) \<in> set (rc_load_contexts (wk_rcm (rk_worker s)))" using Some p by (auto dest: map_of_SomeD)
    have w': "w' = snd (st_wait st (wk_world (rk_worker s)) t)"
      and c': "rc_load_contexts rcm' = dict_pop t (rc_load_contexts (wk_rcm (rk_worker s)))"
      using q Some p by (auto simp: wait_load_def Let_def mark_load_context_missing_fields split: sum.splits prod.splits if_splits)
    show ?thesis
      using mem assms by (auto simp: contexts_of_def c' w' loads_steady_def dest!: dict_set_pop_values)
  qed
  then have "dumps_untouched i f store s ?s1"
    using wait_load_frame [OF q] by (simp add: dumps_untouched_def)
  then have "dumps_untouched i f store s (case q of Inr _ \<Rightarrow> ?s1 | Inl e \<Rightarrow> row_mark_load_failed metas r ?s1)"
    using dumps_untouched_trans [OF _ load_fields_untouched(4)] by (cases q) simp_all
  from dumps_untouched_trans [OF this Cons.IH] it q show ?case by (simp add: Let_def)
qed

lemma wait_row_load_untouched:
  "loads_steady i f store \<Longrightarrow> dumps_untouched i f store s (snd (wait_row_load metas row s))"
  using dumps_untouched_trans [OF load_fields_untouched(1) wait_row_tasks_untouched] by (simp add: wait_row_load_def Let_def)

lemma row_wait_for_layer_load_untouched:
  assumes "loads_steady i f (wc_store (rw_base cf))"
  shows "dumps_untouched i f (wc_store (rw_base cf)) s (row_wait_for_layer_load cf bound name s)"
proof -
  let ?st = "wc_store (rw_base cf)"
  have "dumps_untouched i f ?st s
      (let s1 = submit_row_loads_once cf metas row s; (c, s2) = wait_row_load metas row s1; s3 = fold (submit_row_loads_once cf metas) rows s2
       in s3\<lparr>rk_worker := worker_stats [MCount ''layerwise_wait_tasks_count'' (int c)] (rk_worker s3)\<rparr>)" for metas row rows
  proof -
    obtain c s2 where w: "wait_row_load metas row (submit_row_loads_once cf metas row s) = (c, s2)"
      by (cases "wait_row_load metas row (submit_row_loads_once cf metas row s)")
    have "dumps_untouched i f ?st s (submit_row_loads_once cf metas row s)"
      using submit_rows_untouched [OF assms, of s metas "[row]"] by simp
    from dumps_untouched_trans [OF this wait_row_load_untouched [OF assms], of metas row]
    have "dumps_untouched i f ?st s s2" by (simp add: w)
    from dumps_untouched_trans [OF dumps_untouched_trans [OF this submit_rows_untouched [OF assms]] load_fields_untouched(3)]
    show ?thesis by (simp add: Let_def w)
  qed
  then show ?thesis
    by (simp add: row_wait_for_layer_load_def Let_def case_prod_unfold split: option.split)
qed

lemma row_start_load_kv_untouched:
  assumes "loads_steady i f (wc_store (rw_base cf))"
  shows "dumps_untouched i f (wc_store (rw_base cf)) (s\<lparr>rk_dump_data := None, rk_deferred := []\<rparr>) (row_start_load_kv cf md s)"
proof -
  let ?m = "cm_request_meta md" and ?data = "row_prepare_loads cf (cm_request_meta md)" and ?s0 = "s\<lparr>rk_dump_data := None, rk_deferred := []\<rparr>"
  let ?s1 = "s\<lparr>rk_load_tasks := [], rk_request_data := ?data, rk_failure_req_ids := {}, rk_submitted_rows := {},
                rk_dump_data := None, rk_deferred := [], rk_need_load := ?data \<noteq> []\<rparr>"
  have one: "dumps_untouched i f (wc_store (rw_base cf)) ?s0 ?s1"
    by (simp add: dumps_untouched_def)
  note two = dumps_untouched_trans [OF dumps_untouched_trans [OF this submit_rows_untouched [OF assms]] wait_row_load_untouched [OF assms]]
  show ?thesis
    by (simp only: row_start_load_kv_def Let_def split: if_split) (use one two in blast)
qed

text \<open>A save between two rows leaves the loads alone.\<close>

lemma submit_row_dump_progress:
  assumes "dump_contract i f (rw_base cf)" and s1_def: "s1 = submit_row_dump cf row br ucm ptrs reqs s"
  shows "row_progress i f store s s1" and "rk_load_tasks s1 = rk_load_tasks s"
    and "rk_submitted_rows s1 = rk_submitted_rows s" and "rk_failure_req_ids s1 = rk_failure_req_ids s"
    and "rk_dump_data s1 = rk_dump_data s"
proof -
  let ?b = "rw_base cf" and ?w = "rk_worker s"
  obtain h ev w where h: "get_dump_event_handle (wc_device ?b) (wc_enable_event_sync ?b) (wk_events ?w) (wk_world ?w) = (h, ev, w)"
    by (metis prod_cases3)
  obtain q rcm' w' where q: "submit_dump (wk_rcm ?w) (wc_store ?b) w br ucm (replicate (length ucm) row) ptrs h = (q, rcm', w')"
    by (metis prod_cases3)
  have "steady i f (wk_world ?w) w"
    using get_dump_event_handle_steady [OF assms(1), where w = "wk_world ?w" and b = "wc_enable_event_sync ?b" and ev = "wk_events ?w"] h
    by simp
  moreover have "w' = snd (st_dump_data (wc_store ?b) w ucm (replicate (length ucm) row) ptrs h)"
    using q by (auto simp: submit_dump_def Let_def split: sum.splits prod.splits)
  then have "steady i f w w'" using dump_contractD(1) [OF assms(1)] by simp
  ultimately have st: "steady i f (wk_world ?w) w'" by (rule steady_trans)
  have same: "rc_load_contexts rcm' = rc_load_contexts (wk_rcm ?w)" by (rule submit_dump_frame(1) [OF q])
  show "row_progress i f store s s1" and "rk_load_tasks s1 = rk_load_tasks s"
    and "rk_submitted_rows s1 = rk_submitted_rows s" and "rk_failure_req_ids s1 = rk_failure_req_ids s"
    and "rk_dump_data s1 = rk_dump_data s"
    using st same unfolding s1_def submit_row_dump_def Let_def h q prod.case
    by (cases q; simp add: row_progress_def contexts_of_def)+
qed

definition pass_data :: "'w row_cfg \<Rightarrow> connector_meta \<Rightarrow> row_dump" where
  "pass_data cf md = build_dump_transfer_data (rw_base cf) (cm_request_meta md)"

definition row_extracts :: "'w row_cfg \<Rightarrow> connector_meta \<Rightarrow> bool" where
  "row_extracts cf md \<longleftrightarrow>
     (\<forall>row \<in> snd ` set (rw_name_to_row cf). \<exists>ptrs. rw_extract_row cf (rd_vllm_block_ids (pass_data cf md)) row = Inr ptrs)"

definition data_of_pass :: "'w row_cfg \<Rightarrow> connector_meta \<Rightarrow> 'w row_worker \<Rightarrow> bool" where
  "data_of_pass cf md s \<longleftrightarrow> rk_dump_data s = None \<or> rk_dump_data s = Some (pass_data cf md)"

lemma row_save_kv_layer_progress:
  assumes "dump_contract i f (rw_base cf)" and "row_extracts cf md" and "data_of_pass cf md s"
  shows "\<exists>s'. row_save_kv_layer cf (Some md) name s = (Inr (), s') \<and> row_progress i f store s s'
    \<and> rk_load_tasks s' = rk_load_tasks s \<and> rk_submitted_rows s' = rk_submitted_rows s
    \<and> rk_failure_req_ids s' = rk_failure_req_ids s \<and> data_of_pass cf md s'"
proof -
  let ?D = "pass_data cf md"
  have d: "(case rk_dump_data s of Some d \<Rightarrow> d | None \<Rightarrow> build_dump_transfer_data (rw_base cf) (cm_request_meta md)) = ?D"
    using assms(3) by (auto simp: data_of_pass_def pass_data_def)
  let ?s1 = "s\<lparr>rk_dump_data := Some ?D\<rparr>" and ?s2 = "s\<lparr>rk_dump_data := Some ?D, rk_is_save := True\<rparr>"
  have p1: "row_progress i f store s ?s1" by (rule row_fields_progress)
  have p2: "row_progress i f store s ?s2" using row_progress_trans [OF p1 row_fields_progress(6) [of i f store ?s1 True]] by simp
  have p3: "row_progress i f store s (?s2\<lparr>rk_deferred := x\<rparr>)" for x by (rule row_progress_trans [OF p2 row_fields_progress(5)])
  have nop: ?thesis if "row_save_kv_layer cf (Some md) name s = (Inr (), s)"
    using that assms(3) by simp
  show ?thesis
  proof (cases "dict_get (rw_name_to_row cf) name")
    case None
    then show ?thesis by (intro nop) (simp add: row_save_kv_layer_def Let_def)
  next
    case (Some row)
    have "row \<in> snd ` set (rw_name_to_row cf)" using map_of_SomeD [OF Some] by force
    then obtain ptrs where ptrs: "rw_extract_row cf (rd_vllm_block_ids ?D) row = Inr ptrs"
      using assms(2) by (auto simp: row_extracts_def)
    let ?s3 = "submit_row_dump cf row (rd_block_ids_by_request ?D) (rd_ucm_block_ids ?D) ptrs (rd_request_ids ?D) ?s2"
    note sub = submit_row_dump_progress [OF assms(1) refl [of ?s3]]
    have p4: "row_progress i f store s ?s3" by (rule row_progress_trans [OF p2 sub(1)])
    show ?thesis
      using p1 p3 p4 sub(2-5) Some ptrs assms(3)
      by (simp add: row_save_kv_layer_def Let_def d data_of_pass_def)
  qed
qed

lemma rows_inv_untouched:
  assumes "rows_inv i f cf k s" and "row_progress i f (wc_store (rw_base cf)) s s'"
    and "rk_load_tasks s' = rk_load_tasks s" and "rk_submitted_rows s' = rk_submitted_rows s"
  shows "rows_inv i f cf k s'"
proof (rule rows_inv_step [OF assms(1,2)])
  fix d j assume "d \<in> set (rk_request_data s)" "j \<in> rk_submitted_rows s'" "k \<le> j"
  with assms(1,4) have "row_underway i cf s j d" by (simp add: rows_inv_def)
  from row_underway_keep [OF this assms(2)] assms(3) show "row_underway i cf s' j d" by simp
qed

subsection \<open>A pass\<close>

fun row_run_pass :: "'w row_cfg \<Rightarrow> connector_meta \<Rightarrow> layer_event list \<Rightarrow> 'w row_worker \<Rightarrow> unit result \<times> 'w row_worker" where
  "row_run_pass cf md [] s = (Inr (), s)"
| "row_run_pass cf md (WaitLayer n # es) s = row_run_pass cf md es (row_wait_for_layer_load cf (Some md) n s)"
| "row_run_pass cf md (SaveLayer n # es) s =
     (case row_save_kv_layer cf (Some md) n s of
        (Inl e, s') \<Rightarrow> (Inl e, s') | (Inr _, s') \<Rightarrow> row_run_pass cf md es s')"

lemma row_wait_for_layer_load_inv:
  assumes inv: "rows_inv i f cf (min (Suc k) n) s" and n: "n = length (rw_row_ids cf)" and need: "rk_need_load s"
    and contract: "load_contract i f (wc_store (rw_base cf))" and name: "dict_get (rw_name_to_row cf) name = Some k"
  shows "rows_inv i f cf (min (Suc (Suc k)) n) (row_wait_for_layer_load cf (Some md) name s)"
    and "row_progress i f (wc_store (rw_base cf)) s (row_wait_for_layer_load cf (Some md) name s)"
proof -
  let ?m = "cm_request_meta md"
  let ?s' = "row_wait_for_layer_load cf (Some md) name s"
  have "rows_inv i f cf (min (Suc (Suc k)) n) ?s' \<and> row_progress i f (wc_store (rw_base cf)) s ?s'"
  proof (cases "Suc k < n")
    case False
    then have "?s' = s" using name need n by (simp add: row_wait_for_layer_load_def Let_def)
    moreover have "min (Suc (Suc k)) n = min (Suc k) n" using False by simp
    ultimately show ?thesis using inv by simp
  next
    case True
    let ?s1 = "submit_row_loads_once cf ?m (Suc k) s"
    have inv: "rows_inv i f cf (Suc k) s" using inv True by simp
    note one = submit_row_loads_once_inv [OF inv contract le_refl, of ?m]
    obtain c s2 where w: "wait_row_load ?m (Suc k) ?s1 = (c, s2)" by (cases "wait_row_load ?m (Suc k) ?s1")
    have "Suc k \<in> rk_submitted_rows ?s1" by (simp add: one(3))
    note two = wait_row_load_inv [OF one(1) contract this, of ?m, unfolded w snd_conv]
    let ?rows = "[Suc (Suc k)..<min (Suc (Suc k) + rw_prefetch_rows cf) n]"
    let ?s3 = "fold (submit_row_loads_once cf ?m) ?rows s2"
    have three: "rows_inv i f cf (Suc (Suc k)) ?s3 \<and> row_progress i f (wc_store (rw_base cf)) s2 ?s3"
      using submit_rows_inv [OF two(1) contract, of ?rows ?m] by simp
    let ?ms = "[MCount ''layerwise_wait_tasks_count'' (int c)]"
    have s': "?s' = ?s3\<lparr>rk_worker := worker_stats ?ms (rk_worker ?s3)\<rparr>"
      using True name need n w by (simp add: row_wait_for_layer_load_def Let_def)
    have four: "row_progress i f (wc_store (rw_base cf)) ?s3 ?s'" unfolding s' by (rule row_fields_progress)
    have "rows_inv i f cf (Suc (Suc k)) ?s'"
      by (rule rows_inv_untouched [OF conjunct1 [OF three] four]) (simp_all add: s')
    moreover have "row_progress i f (wc_store (rw_base cf)) s ?s'"
      by (rule row_progress_trans [OF one(2) row_progress_trans [OF two(2) row_progress_trans [OF conjunct2 [OF three] four]]])
    moreover have "min (Suc (Suc k)) n = Suc (Suc k)" using True by simp
    ultimately show ?thesis by simp
  qed
  then show "rows_inv i f cf (min (Suc (Suc k)) n) ?s'" "row_progress i f (wc_store (rw_base cf)) s ?s'" by blast+
qed

text \<open>The request \<open>start_load_kv\<close> prepares for one with blocks to load.\<close>

definition effective_load :: "'w row_cfg \<Rightarrow> dispatch_meta \<Rightarrow> bytes list \<times> vllm_id list" where
  "effective_load cf request = effective_blocks (wc_skip_null_vllm_blocks (rw_base cf)) (dm_load request)"

definition row_request_of :: "'w row_cfg \<Rightarrow> req_id \<Rightarrow> dispatch_meta \<Rightarrow> row_request" where
  "row_request_of cf r request =
     \<lparr>rr_request_id = r, rr_ucm_block_ids = fst (effective_load cf request),
      rr_store_block_ids = hla_rank_scoped_ids (rw_base cf) (fst (effective_load cf request)),
      rr_vllm_block_ids = snd (effective_load cf request)\<rparr>"

lemma effective_load_nonempty: "fst (effective_load cf request) \<noteq> [] \<Longrightarrow> fst (dm_load request) \<noteq> []"
  by (auto simp: effective_load_def effective_blocks_def drop_null_vllm_blocks_def split: if_splits)

lemma row_prepare_loads_filter:
  "row_prepare_loads cf metas
     = map (\<lambda>(r, request). row_request_of cf r request) (filter (\<lambda>p. fst (effective_load cf (snd p)) \<noteq> []) metas)"
proof (induction cf metas rule: row_prepare_loads.induct)
  case (1 cf)
  then show ?case by simp
next
  case (2 cf r request rest)
  obtain u v where uv: "effective_blocks (wc_skip_null_vllm_blocks (rw_base cf)) (dm_load request) = (u, v)"
    by (cases "effective_blocks (wc_skip_null_vllm_blocks (rw_base cf)) (dm_load request)")
  then have e: "effective_load cf request = (u, v)" by (simp add: effective_load_def)
  show ?case
  proof (cases "u = []")
    case True
    with uv have "fst (dm_load request) = [] \<or> wc_skip_null_vllm_blocks (rw_base cf)"
      by (auto simp: effective_blocks_def split: if_splits)
    with 2 uv e True show ?thesis by auto
  next
    case False
    with effective_load_nonempty [of cf request] e have "fst (dm_load request) \<noteq> []" by simp
    with 2 uv e False show ?thesis by (simp add: row_request_of_def)
  qed
qed

lemma row_start_load_kv_inv:
  assumes contract: "load_contract i f (wc_store (rw_base cf))" and "contexts_of (wc_store (rw_base cf)) (rk_worker s)"
    and "distinct (map fst (cm_request_meta md))"
  defines "s' \<equiv> row_start_load_kv cf md s" and "n \<equiv> length (rw_row_ids cf)"
  shows "rk_request_data s' = [] \<or> rows_inv i f cf (min 1 n) s'"
    and "rk_request_data s' = row_prepare_loads cf (cm_request_meta md)"
    and "rk_need_load s' \<longleftrightarrow> rk_request_data s' \<noteq> []"
proof -
  let ?m = "cm_request_meta md" and ?data = "row_prepare_loads cf (cm_request_meta md)"
  let ?s1 = "s\<lparr>rk_load_tasks := [], rk_request_data := ?data, rk_failure_req_ids := {}, rk_submitted_rows := {},
                rk_dump_data := None, rk_deferred := [], rk_need_load := ?data \<noteq> []\<rparr>"
  have "(rk_request_data s' = [] \<or> rows_inv i f cf (min 1 n) s') \<and> rk_request_data s' = ?data
    \<and> (rk_need_load s' \<longleftrightarrow> rk_request_data s' \<noteq> [])"
  proof (cases "?data = [] \<or> rw_row_ids cf = []")
    case True
    then have "s' = ?s1" by (auto simp: s'_def row_start_load_kv_def Let_def)
    moreover have "?data = [] \<or> rows_inv i f cf 0 ?s1"
      using assms(2,3) by (auto simp: rows_inv_def row_prepare_loads_filter distinct_map comp_def case_prod_unfold row_request_of_def
          contexts_of_def intro: inj_on_subset)
    ultimately show ?thesis using True by (auto simp: n_def)
  next
    case False
    let ?rows = "[0..<min (rw_prefetch_rows cf + 1) n]"
    let ?s2 = "fold (submit_row_loads_once cf ?m) ?rows ?s1"
    have s': "s' = snd (wait_row_load ?m 0 ?s2)" using False by (simp add: s'_def n_def row_start_load_kv_def Let_def)
    have "rows_inv i f cf 0 ?s1"
      using assms(2,3) by (auto simp: rows_inv_def row_prepare_loads_filter distinct_map comp_def case_prod_unfold row_request_of_def
          contexts_of_def intro: inj_on_subset)
    from submit_rows_inv [OF this contract, of ?rows ?m]
    have two: "rows_inv i f cf 0 ?s2" "row_progress i f (wc_store (rw_base cf)) ?s1 ?s2" "0 \<in> rk_submitted_rows ?s2"
      using False by (simp_all add: n_def)
    note three = wait_row_load_inv [OF two(1) contract two(3), of ?m, folded s']
    have "min 1 n = Suc 0" using False by (cases n) (simp_all add: n_def)
    moreover have "rk_request_data s' = ?data" "rk_need_load s' = (?data \<noteq> [])"
      using row_progress_data [OF row_progress_trans [OF two(2) three(2)]] row_progress_need [OF row_progress_trans [OF two(2) three(2)]]
      by simp_all
    ultimately show ?thesis using three(1) by simp
  qed
  then show "rk_request_data s' = [] \<or> rows_inv i f cf (min 1 n) s'" and "rk_request_data s' = ?data"
    and "rk_need_load s' \<longleftrightarrow> rk_request_data s' \<noteq> []" by blast+
qed

lemma row_run_pass_loads:
  assumes n: "n = length (rw_row_ids cf)" and contract: "load_contract i f (wc_store (rw_base cf))"
    and dumps: "dump_contract i f (rw_base cf)" and extracts: "row_extracts cf md"
  shows "list_all2 (\<lambda>name j. dict_get (rw_name_to_row cf) name = Some j) (waited_layers es) [k..<m] \<Longrightarrow> k \<le> m
    \<Longrightarrow> data_of_pass cf md s \<Longrightarrow> rk_request_data s = [] \<or> rk_need_load s \<and> rows_inv i f cf (min (Suc k) n) s
    \<Longrightarrow> rk_need_load s \<longleftrightarrow> rk_request_data s \<noteq> []
    \<Longrightarrow> \<exists>s'. row_run_pass cf md es s = (Inr (), s') \<and> rk_request_data s' = rk_request_data s
          \<and> (rk_request_data s = [] \<or> rows_inv i f cf (min (Suc m) n) s')"
proof (induction es arbitrary: s k)
  case Nil
  then have "k = m" by (cases "k < m") auto
  with Nil show ?case by auto
next
  case (Cons e es)
  show ?case
  proof (cases e)
    case (WaitLayer name)
    have k: "k < m" using Cons.prems(1,2) WaitLayer by (cases "k < m") auto
    have name: "dict_get (rw_name_to_row cf) name = Some k"
      and rest: "list_all2 (\<lambda>name j. dict_get (rw_name_to_row cf) name = Some j) (waited_layers es) [Suc k..<m]"
      using Cons.prems(1) WaitLayer k by (auto simp: upt_conv_Cons)
    let ?s1 = "row_wait_for_layer_load cf (Some md) name s"
    have st: "loads_steady (\<lambda>_ _ _ _ _. False) (\<lambda>_ _. False) (wc_store (rw_base cf))"
      by (simp add: loads_steady_def steady_def)
    have d: "data_of_pass cf md ?s1"
      using row_wait_for_layer_load_untouched [OF st, of s "Some md" name] Cons.prems(3)
      by (simp add: data_of_pass_def dumps_untouched_def)
    have step: "rk_request_data ?s1 = rk_request_data s \<and> rk_need_load ?s1 = rk_need_load s
      \<and> (rk_request_data s = [] \<or> rows_inv i f cf (min (Suc (Suc k)) n) ?s1)"
    proof (cases "rk_need_load s")
      case False
      with Cons.prems(5) show ?thesis by (simp add: row_wait_for_layer_load_def)
    next
      case True
      with Cons.prems(4,5) have "rows_inv i f cf (min (Suc k) n) s" by simp
      note one = row_wait_for_layer_load_inv [OF this n True contract name, of md]
      with row_progress_data [OF one(2)] row_progress_need [OF one(2)] show ?thesis by blast
    qed
    show ?thesis
      using Cons.IH [OF rest _ d] step k Cons.prems(5) WaitLayer by auto
  next
    case (SaveLayer name)
    obtain s1 where s1: "row_save_kv_layer cf (Some md) name s = (Inr (), s1)" "row_progress i f (wc_store (rw_base cf)) s s1"
      "rk_load_tasks s1 = rk_load_tasks s" "rk_submitted_rows s1 = rk_submitted_rows s" "data_of_pass cf md s1"
      using row_save_kv_layer_progress [OF dumps extracts Cons.prems(3), of name "wc_store (rw_base cf)"] by blast
    have "rk_request_data s = [] \<or> rk_need_load s1 \<and> rows_inv i f cf (min (Suc k) n) s1"
      using Cons.prems(4) rows_inv_untouched [OF _ s1(2,3,4)] row_progress_need [OF s1(2)] by blast
    with Cons.IH [OF _ Cons.prems(2) s1(5)] Cons.prems(1,5) row_progress_need [OF s1(2)] row_progress_data [OF s1(2)] s1(1) SaveLayer
    show ?thesis by simp
  qed
qed

text \<open>
  C7: The row-wise hybrid connector has every row in place before it is computed: after
  \<open>start_load_kv\<close> and the waits at the attention layers of the first \<open>m\<close> rows, with saves
  anywhere in between, nothing has been raised, and each request with blocks to load is reported
  as failed, or its blocks have been loaded into the first \<open>m + 1\<close> rows, which include the next
  one, whose linear-attention layers vLLM does not announce.
\<close>

theorem rows_are_loaded_ahead:
  assumes "list_all2 (\<lambda>name j. dict_get (rw_name_to_row cf) name = Some j) (waited_layers es) [0..<m]"
    and "row_extracts cf md"
    and "load_contract i f (wc_store (rw_base cf))" and "dump_contract i f (rw_base cf)"
    and "contexts_of (wc_store (rw_base cf)) (rk_worker s)"
    and "distinct (map fst (cm_request_meta md))"
    and "(r, request) \<in> set (cm_request_meta md)" and "fst (effective_load cf request) \<noteq> []"
  shows "\<exists>s'. row_run_pass cf md es (row_start_load_kv cf md s) = (Inr (), s')
    \<and> (r \<in> wm_load_failed_reqs (wk_meta (rk_worker s'))
      \<or> (\<forall>j < min (m + 1) (length (rw_row_ids cf)).
            row_loaded i f cf (wk_world (rk_worker s')) (row_request_of cf r request) j))"
proof -
  let ?s0 = "row_start_load_kv cf md s" and ?n = "length (rw_row_ids cf)"
  note start = row_start_load_kv_inv [OF assms(3,5,6)]
  have d: "row_request_of cf r request \<in> set (rk_request_data ?s0)"
    using assms(7,8) unfolding start(2) row_prepare_loads_filter by force
  have st: "loads_steady (\<lambda>_ _ _ _ _. False) (\<lambda>_ _. False) (wc_store (rw_base cf))"
    by (simp add: loads_steady_def steady_def)
  have data: "data_of_pass cf md ?s0"
    using row_start_load_kv_untouched [OF st, of s md] by (simp add: data_of_pass_def dumps_untouched_def)
  have inv: "rk_request_data ?s0 = [] \<or> rk_need_load ?s0 \<and> rows_inv i f cf (min (Suc 0) ?n) ?s0"
    using start by auto
  obtain s' where s': "row_run_pass cf md es ?s0 = (Inr (), s')" "rk_request_data s' = rk_request_data ?s0"
      "rows_inv i f cf (min (Suc m) ?n) s'"
    using row_run_pass_loads [OF refl assms(3,4,2,1) le0 data inv start(3)] d by auto
  have "rr_request_id (row_request_of cf r request) = r" by (simp add: row_request_of_def)
  with s' d show ?thesis unfolding rows_inv_def by fastforce
qed

text \<open>Two rows of a linear-attention and an attention layer each, over a store that keeps a ledger.\<close>

definition two_rows :: "ledger row_cfg" where
  "two_rows =
     \<lparr>rw_base = ledger_cfg,
      rw_extract_row = (\<lambda>ids row. Inr (map (\<lambda>b. [of_nat (1000 * row + 16 * b)]) ids)),
      rw_name_to_row = [(''gdn0'', 0), (''attn0'', 0), (''gdn1'', 1), (''attn1'', 1)],
      rw_row_ids = [0, 1], rw_row_save_layer = [(0, ''attn0''), (1, ''attn1'')],
      rw_prefetch_rows = 1, rw_is_mtp = False\<rparr>"

definition new_row_worker :: "'w \<Rightarrow> bool \<Rightarrow> 'w row_worker" where
  "new_row_worker w use_manager =
     \<lparr>rk_worker = new_worker w use_manager False, rk_load_tasks = [], rk_dump_tasks = [], rk_request_data = [],
      rk_failure_req_ids = {}, rk_submitted_rows = {}, rk_dump_data = None, rk_deferred = [],
      rk_need_load = False, rk_is_save = False\<rparr>"

lemma two_rows_simps:
  "rw_base two_rows = ledger_cfg" "row_extracts two_rows md"
  "contexts_of (wc_store ledger_cfg) (rk_worker (new_row_worker ([], []) True))"
  by (simp_all add: two_rows_def row_extracts_def contexts_of_def new_row_worker_def new_worker_def new_rcm_def)

theorem rows_are_loaded_ahead_witness:
  "\<exists>s'. row_run_pass two_rows demo_step [SaveLayer ''gdn0'', WaitLayer ''attn0'', SaveLayer ''attn0'']
         (row_start_load_kv two_rows demo_step (new_row_worker ([], []) True)) = (Inr (), s')
     \<and> (''r'' \<in> wm_load_failed_reqs (wk_meta (rk_worker s'))
       \<or> (\<exists>d. row_loaded ledger_issued ledger_finished two_rows (wk_world (rk_worker s')) d 1))"
proof -
  let ?es = "[SaveLayer ''gdn0'', WaitLayer ''attn0'', SaveLayer ''attn0'']"
    and ?q = "\<lparr>dm_load = ([''a''], [5]), dm_dump = ([''b'', ''c''], [6, 7])\<rparr>"
  have pre: "list_all2 (\<lambda>name j. dict_get (rw_name_to_row two_rows) name = Some j) (waited_layers ?es) [0..<1]"
    "distinct (map fst (cm_request_meta demo_step))" "(''r'', ?q) \<in> set (cm_request_meta demo_step)"
    "fst (effective_load two_rows ?q) \<noteq> []"
    by (simp_all add: two_rows_def demo_step_def effective_load_def effective_blocks_def ledger_cfg_def)
  have n: "min (1 + 1) (length (rw_row_ids two_rows)) = 2" by (simp add: two_rows_def)
  from rows_are_loaded_ahead [OF pre(1) two_rows_simps(2) _ _ _ pre(2-4), of ledger_issued ledger_finished
      "new_row_worker ([], []) True", unfolded two_rows_simps(1) n] ledger_contracts two_rows_simps(3)
  obtain s' where s': "row_run_pass two_rows demo_step ?es (row_start_load_kv two_rows demo_step (new_row_worker ([], []) True)) = (Inr (), s')"
    and l: "''r'' \<in> wm_load_failed_reqs (wk_meta (rk_worker s')) \<or> (\<forall>j < 2. row_loaded ledger_issued ledger_finished two_rows
        (wk_world (rk_worker s')) (row_request_of two_rows ''r'' ?q) j)" by blast
  have "(1 :: nat) < 2" by simp
  with l have "''r'' \<in> wm_load_failed_reqs (wk_meta (rk_worker s'))
      \<or> (\<exists>d. row_loaded ledger_issued ledger_finished two_rows (wk_world (rk_worker s')) d 1)" by blast
  with s' show ?thesis by blast
qed

end
