(* ===== verification/Hla_Row_Dumps.thy ===== *)
theory Hla_Row_Dumps
  imports Hla_Rows
begin

text \<open>
  The dumps of the row-wise hybrid worker: a step ends with nothing outstanding, and what it
  reports as dumped has been transferred for every row.
\<close>

section \<open>What a step collects\<close>

definition dump_facts :: "'w worker_cfg \<Rightarrow> row_dump \<Rightarrow> bool" where
  "dump_facts cf d \<longleftrightarrow>
     distinct (map fst (rd_block_ids_by_request d))
     \<and> (\<forall>r bs. (r, bs) \<in> set (rd_block_ids_by_request d) \<longrightarrow> r \<in> set (rd_request_ids d)
          \<and> (\<forall>b \<in> bs. \<forall>x \<in> set (hla_rank_scoped_ids cf [b]). x \<in> set (rd_ucm_block_ids d)))"

lemma row_collect_dump_facts:
  shows "dump_facts cf a \<Longrightarrow> dump_facts cf (row_collect_dump cf metas a)"
    and "distinct (rd_request_ids a @ map fst metas) \<Longrightarrow> distinct (rd_request_ids (row_collect_dump cf metas a))"
proof -
  have ids: "x \<in> set (hla_rank_scoped_ids cf us)" if "x \<in> set (hla_rank_scoped_ids cf [b])" "b \<in> set us" for b us x and cf :: "'a worker_cfg"
    using that by (auto simp: hla_rank_scoped_ids_def rank_scoped_ids_def)
  show "dump_facts cf a \<Longrightarrow> dump_facts cf (row_collect_dump cf metas a)"
  proof (induction cf metas a rule: row_collect_dump.induct)
    case (2 cf r request rest a)
    show ?case
    proof (cases "fst (dm_dump request) = []")
      case True
      with 2 show ?thesis by simp
    next
      case False
      obtain u v where uv: "effective_blocks (wc_skip_null_vllm_blocks cf) (dm_dump request) = (u, v)"
        by (cases "effective_blocks (wc_skip_null_vllm_blocks cf) (dm_dump request)")
      let ?a1 = "a\<lparr>rd_request_ids := rd_request_ids a @ [r]\<rparr>"
      let ?a2 = "?a1\<lparr>rd_block_ids_by_request := dict_set r (set u) (rd_block_ids_by_request ?a1),
          rd_ucm_block_ids := rd_ucm_block_ids ?a1 @ hla_rank_scoped_ids cf u,
          rd_vllm_block_ids := rd_vllm_block_ids ?a1 @ v\<rparr>"
      have a1: "dump_facts cf ?a1" using 2(4) by (auto simp: dump_facts_def)
      then have a2: "dump_facts cf ?a2"
        by (auto simp: dump_facts_def distinct_update dest!: dict_in_set_update intro: ids)
      show ?thesis
      proof (cases "wc_skip_null_vllm_blocks cf \<and> u = []")
        case True
        from 2(2) [OF False refl uv [symmetric] refl True a1] True uv False show ?thesis by (simp add: Let_def)
      next
        case F: False
        from 2(3) [OF False refl uv [symmetric] refl F a2] F uv False show ?thesis by (auto simp: Let_def)
      qed
    qed
  qed simp
  show "distinct (rd_request_ids a @ map fst metas) \<Longrightarrow> distinct (rd_request_ids (row_collect_dump cf metas a))"
    by (induction cf metas a rule: row_collect_dump.induct) (auto simp: Let_def split: prod.split)
qed

lemma pass_data_facts:
  shows "distinct (map fst (rd_block_ids_by_request (pass_data cf md)))"
    and "dict_get_or (rd_block_ids_by_request (pass_data cf md)) r {} \<noteq> {} \<Longrightarrow> r \<in> set (rd_request_ids (pass_data cf md))"
    and "b \<in> dict_get_or (rd_block_ids_by_request (pass_data cf md)) r {} \<Longrightarrow>
           set (hla_rank_scoped_ids (rw_base cf) [b]) \<subseteq> set (rd_ucm_block_ids (pass_data cf md))"
    and "distinct (map fst (cm_request_meta md)) \<Longrightarrow> distinct (rd_request_ids (pass_data cf md))"
proof -
  let ?a = "\<lparr>rd_ucm_block_ids = [], rd_vllm_block_ids = [], rd_request_ids = [], rd_block_ids_by_request = []\<rparr>"
  have d: "pass_data cf md = row_collect_dump (rw_base cf) (cm_request_meta md) ?a"
    by (simp add: pass_data_def build_dump_transfer_data_def)
  note facts = row_collect_dump_facts(1) [of "rw_base cf" ?a "cm_request_meta md", folded d]
  show "distinct (map fst (rd_block_ids_by_request (pass_data cf md)))" using facts by (simp add: dump_facts_def)
  show "dict_get_or (rd_block_ids_by_request (pass_data cf md)) r {} \<noteq> {} \<Longrightarrow> r \<in> set (rd_request_ids (pass_data cf md))"
    and "b \<in> dict_get_or (rd_block_ids_by_request (pass_data cf md)) r {} \<Longrightarrow>
           set (hla_rank_scoped_ids (rw_base cf) [b]) \<subseteq> set (rd_ucm_block_ids (pass_data cf md))"
    using facts by (auto simp: dump_facts_def dict_get_or_def split: option.splits dest!: map_of_SomeD)
  show "distinct (map fst (cm_request_meta md)) \<Longrightarrow> distinct (rd_request_ids (pass_data cf md))"
    using row_collect_dump_facts(2) [of ?a "cm_request_meta md" "rw_base cf"] by (simp add: d)
qed

section \<open>The dumps of a pass\<close>

text \<open>
  The contract of the store for dumps: an accepted one is on record, a successful wait means it
  completed, and no other call takes that back.
\<close>

definition dump_ledger ::
  "('w \<Rightarrow> nat \<Rightarrow> bytes list \<Rightarrow> nat list \<Rightarrow> u64 list list \<Rightarrow> bool) \<Rightarrow> ('w \<Rightarrow> nat \<Rightarrow> bool) \<Rightarrow> 'w worker_cfg \<Rightarrow> bool" where
  "dump_ledger issued finished cf \<longleftrightarrow>
     dump_contract issued finished cf \<and> loads_steady issued finished (wc_store cf)
     \<and> (\<forall>w ids shards ptrs h t w'. st_dump_data (wc_store cf) w ids shards ptrs h = (Inr t, w') \<longrightarrow> issued w' t ids shards ptrs)
     \<and> (\<forall>w t w'. st_wait (wc_store cf) w t = (Inr (), w') \<longrightarrow> finished w' t)"

definition row_transferred ::
  "('w \<Rightarrow> nat \<Rightarrow> bytes list \<Rightarrow> nat list \<Rightarrow> u64 list list \<Rightarrow> bool) \<Rightarrow> 'w row_cfg \<Rightarrow> row_dump \<Rightarrow> 'w \<Rightarrow> nat \<Rightarrow> nat \<Rightarrow> bool" where
  "row_transferred i cf D w row t \<longleftrightarrow>
     (\<exists>ptrs. rw_extract_row cf (rd_vllm_block_ids D) row = Inr ptrs
        \<and> i w t (rd_ucm_block_ids D) (replicate (length (rd_ucm_block_ids D)) row) ptrs)"

definition row_dumped ::
  "('w \<Rightarrow> nat \<Rightarrow> bytes list \<Rightarrow> nat list \<Rightarrow> u64 list list \<Rightarrow> bool) \<Rightarrow> ('w \<Rightarrow> nat \<Rightarrow> bool)
     \<Rightarrow> 'w row_cfg \<Rightarrow> row_dump \<Rightarrow> 'w \<Rightarrow> nat \<Rightarrow> bool" where
  "row_dumped i f cf D w row \<longleftrightarrow> (\<exists>t. row_transferred i cf D w row t \<and> f w t)"

definition failed_all :: "row_dump \<Rightarrow> 'w rcm \<Rightarrow> bool" where
  "failed_all D m \<longleftrightarrow>
     (\<forall>r. dict_get_or (rd_block_ids_by_request D) r {} \<subseteq> dict_get_or (rc_dump_failed_by_request m) r {})"

text \<open>A row whose dump is settled: charged as failed, completed, or still in a context.\<close>

definition settled ::
  "('w \<Rightarrow> nat \<Rightarrow> bytes list \<Rightarrow> nat list \<Rightarrow> u64 list list \<Rightarrow> bool) \<Rightarrow> ('w \<Rightarrow> nat \<Rightarrow> bool)
     \<Rightarrow> 'w row_cfg \<Rightarrow> row_dump \<Rightarrow> 'w rcm \<Rightarrow> 'w \<Rightarrow> nat \<Rightarrow> bool" where
  "settled i f cf D m w row \<longleftrightarrow>
     failed_all D m
     \<or> (\<exists>t. row_transferred i cf D w row t \<and> (f w t \<or> t \<in> dict_keys (rc_dump_contexts m)))"

text \<open>What the manager holds of a step that dumps \<open>D\<close>.\<close>

definition step_context :: "row_dump \<Rightarrow> 'w rcm \<Rightarrow> dump_context" where
  "step_context D m = (if rc_enabled m then rd_block_ids_by_request D else [])"

definition charges_ok :: "'w kv_store \<Rightarrow> row_dump \<Rightarrow> 'w rcm \<Rightarrow> bool" where
  "charges_ok store D m \<longleftrightarrow>
     (\<forall>(t, st, c) \<in> set (rc_dump_contexts m). st = store \<and> c = step_context D m)
     \<and> (\<forall>r. dict_get_or (rc_dump_blocks_by_request m) r {} \<subseteq> dict_get_or (step_context D m) r {}
          \<and> dict_get_or (rc_dump_failed_by_request m) r {} \<subseteq> dict_get_or (step_context D m) r {})"

lemma step_context_distinct:
  "distinct (map fst (rd_block_ids_by_request D)) \<Longrightarrow> distinct (map fst (step_context D m))"
  by (simp add: step_context_def)

lemma row_transferred_steady:
  "row_transferred i cf D w row t \<Longrightarrow> steady i f w v \<Longrightarrow> row_transferred i cf D v row t"
  by (auto simp: row_transferred_def dest: steadyD(1))

lemma failed_all_mono:
  "failed_all D m \<Longrightarrow> (\<And>r. dict_get_or (rc_dump_failed_by_request m) r {} \<subseteq> dict_get_or (rc_dump_failed_by_request m') r {})
     \<Longrightarrow> failed_all D m'"
  unfolding failed_all_def by blast

lemma settled_keep:
  assumes "settled i f cf D m w row" and "steady i f w w'"
    and "\<And>r. dict_get_or (rc_dump_failed_by_request m) r {} \<subseteq> dict_get_or (rc_dump_failed_by_request m') r {}"
    and "\<And>t. t \<in> dict_keys (rc_dump_contexts m) \<Longrightarrow> t \<in> dict_keys (rc_dump_contexts m') \<or> f w' t \<or> failed_all D m'"
  shows "settled i f cf D m' w' row"
proof -
  from assms(1) consider "failed_all D m" | t where "row_transferred i cf D w row t" "f w t \<or> t \<in> dict_keys (rc_dump_contexts m)"
    unfolding settled_def by blast
  then show ?thesis
  proof cases
    case 1
    from failed_all_mono [OF this assms(3)] show ?thesis by (simp add: settled_def)
  next
    case 2
    have "row_transferred i cf D w' row t" by (rule row_transferred_steady [OF 2(1) assms(2)])
    moreover have "f w' t \<or> t \<in> dict_keys (rc_dump_contexts m') \<or> failed_all D m'"
      using 2(2) steadyD(2) [OF assms(2)] assms(4) by blast
    ultimately show ?thesis unfolding settled_def by blast
  qed
qed

subsection \<open>Submitting and waiting\<close>

lemma submit_dump_settles:
  assumes sub: "submit_dump m (wc_store base) w (rd_block_ids_by_request D) (rd_ucm_block_ids D)
      (replicate (length (rd_ucm_block_ids D)) row) ptrs h = (q, m', w')"
    and ledger: "dump_ledger i f base" and "rw_base cf = base"
    and "rw_extract_row cf (rd_vllm_block_ids D) row = Inr ptrs"
    and "distinct (map fst (rd_block_ids_by_request D))" and ok: "charges_ok (wc_store base) D m"
  shows "charges_ok (wc_store base) D m'" and "rc_enabled m \<Longrightarrow> settled i f cf D m' w' row"
    and "settled i f cf D m w j \<Longrightarrow> settled i f cf D m' w' j"
proof -
  let ?c = "rd_block_ids_by_request D" and ?e = "step_context D m" and ?sh = "replicate (length (rd_ucm_block_ids D)) row"
  obtain r v where d: "st_dump_data (wc_store base) w (rd_ucm_block_ids D) ?sh ptrs h = (r, v)"
    by (cases "st_dump_data (wc_store base) w (rd_ucm_block_ids D) ?sh ptrs h")
  have w': "w' = v" and qr: "q = r" using sub d by (auto simp: submit_dump_def Let_def split: sum.splits)
  have st: "steady i f w w'"
    using ledger dump_contractD(1) [of i f base w "rd_ucm_block_ids D" ?sh ptrs h] d w' by (simp add: dump_ledger_def)
  have iss: "row_transferred i cf D w' row t" if "q = Inr t" for t
    using ledger d that qr w' assms(4) unfolding dump_ledger_def row_transferred_def by blast
  have fail: "failed_all D m'" if "q = Inl e" "rc_enabled m" for e
    using submit_dump_failure_charges [OF sub [unfolded that(1)] that(2) assms(5)] by (simp add: failed_all_def)
  have ctx: "rc_dump_contexts m' = (case q of Inl e \<Rightarrow> rc_dump_contexts m
      | Inr t \<Rightarrow> dict_set t (wc_store base, ?e) (rc_dump_contexts m))"
    using sub d by (auto simp: submit_dump_def Let_def step_context_def split: sum.splits)
  have old: "dict_get_or (rc_dump_blocks_by_request m) r {} \<subseteq> dict_get_or ?e r {}"
      "dict_get_or (rc_dump_failed_by_request m) r {} \<subseteq> dict_get_or ?e r {}" for r
    using ok by (simp_all add: charges_ok_def)
  have en: "step_context D m' = ?e" using submit_dump_frame(3) [OF sub] by (simp add: step_context_def)
  have "dict_get_or (rc_dump_blocks_by_request m') r {} = dict_get_or (rc_dump_blocks_by_request m) r {} \<union> dict_get_or ?e r {}
      \<and> dict_get_or (rc_dump_failed_by_request m') r {} \<subseteq> dict_get_or (rc_dump_failed_by_request m) r {} \<union> dict_get_or ?e r {}" for r
    using sub d accumulate_get [OF step_context_distinct [OF assms(5)], of m]
    by (cases q) (auto simp: submit_dump_def Let_def step_context_def qr dict_get_or_def [of "[]"])
  then have "dict_get_or (rc_dump_blocks_by_request m') r {} \<subseteq> dict_get_or ?e r {}
      \<and> dict_get_or (rc_dump_failed_by_request m') r {} \<subseteq> dict_get_or ?e r {}" for r
    using old [of r] by blast
  then show "charges_ok (wc_store base) D m'"
    using ok ctx
    by (auto simp: charges_ok_def en split: sum.splits dest!: dict_in_set_update)
  show "settled i f cf D m' w' row" if "rc_enabled m"
    using iss fail ctx that by (cases q) (auto simp: settled_def)
  show "settled i f cf D m w j \<Longrightarrow> settled i f cf D m' w' j"
    by (erule settled_keep [OF _ st submit_dump_frame(5) [OF sub]]) (auto simp: ctx split: sum.split)
qed

lemma wait_dump_settles:
  assumes w: "wait_dump m w t = (r, m', w')" and ledger: "dump_ledger i f base" and ok: "charges_ok (wc_store base) D m"
    and "distinct (map fst (rd_block_ids_by_request D))"
  shows "steady i f w w'" and "charges_ok (wc_store base) D m'"
    and "rc_enabled m \<Longrightarrow> settled i f cf D m w j \<Longrightarrow> settled i f cf D m' w' j"
    and "dict_keys (rc_dump_contexts m') = dict_keys (rc_dump_contexts m) - {t}"
proof -
  show keys: "dict_keys (rc_dump_contexts m') = dict_keys (rc_dump_contexts m) - {t}"
    by (simp add: wait_dump_contexts [OF w])
  have old: "dict_get_or (rc_dump_failed_by_request m) q {} \<subseteq> dict_get_or (step_context D m) q {}" for q
    using ok by (simp add: charges_ok_def)
  have "steady i f w w' \<and> (t \<in> dict_keys (rc_dump_contexts m) \<longrightarrow> f w' t \<or> rc_enabled m \<longrightarrow> f w' t \<or> failed_all D m')
    \<and> (\<forall>q. dict_get_or (rc_dump_failed_by_request m') q {} \<subseteq> dict_get_or (step_context D m) q {})"
  proof (cases "dict_get (rc_dump_contexts m) t")
    case None
    with w old show ?thesis by (simp add: wait_dump_def map_of_eq_None_iff)
  next
    case (Some p)
    let ?c = "step_context D m"
    have p: "p = (wc_store base, ?c)" using ok map_of_SomeD [OF Some] by (cases p) (auto simp: charges_ok_def)
    obtain q v where q: "st_wait (wc_store base) w t = (q, v)" by (cases "st_wait (wc_store base) w t")
    have st: "steady i f w v" using ledger q by (metis dump_ledger_def loads_steady_def snd_conv)
    show ?thesis
    proof (cases q)
      case (Inr u)
      then have "f v t" using ledger q by (simp add: dump_ledger_def)
      moreover have "m' = m\<lparr>rc_dump_contexts := dict_pop t (rc_dump_contexts m)\<rparr>" "w' = v"
        using w Some p q Inr by (simp_all add: wait_dump_def Let_def)
      ultimately show ?thesis using st old by simp
    next
      case (Inl e)
      then have r: "r = Inl e" "w' = v" and m': "m' = record_dump_failure ?c (m\<lparr>rc_dump_contexts := dict_pop t (rc_dump_contexts m)\<rparr>)"
        using w Some p q by (auto simp: wait_dump_def Let_def)
      note c = step_context_distinct [OF assms(4), of m]
      show ?thesis
        using st old r(2) by (auto simp: m' failed_all_def accumulate_get [OF c]) (simp_all add: step_context_def)
    qed
  qed
  then have st: "steady i f w w'" and charged: "t \<in> dict_keys (rc_dump_contexts m) \<Longrightarrow> rc_enabled m \<Longrightarrow> f w' t \<or> failed_all D m'"
    and bound: "\<forall>q. dict_get_or (rc_dump_failed_by_request m') q {} \<subseteq> dict_get_or (step_context D m) q {}" by blast+
  show "steady i f w w'" by (rule st)
  show "charges_ok (wc_store base) D m'"
    using ok bound wait_dump_frame(3,4) [OF w] wait_dump_contexts [OF w]
    by (auto simp: charges_ok_def step_context_def dest!: dict_set_pop_values)
  show "rc_enabled m \<Longrightarrow> settled i f cf D m w j \<Longrightarrow> settled i f cf D m' w' j"
    by (erule settled_keep [OF _ st wait_dump_frame(6) [OF w]]) (use keys charged in auto)
qed

subsection \<open>The invariant of a pass\<close>

definition dumping :: "'w row_cfg \<Rightarrow> connector_meta \<Rightarrow> bool" where
  "dumping cf md \<longleftrightarrow>
     rd_ucm_block_ids (pass_data cf md) \<noteq> []
     \<and> \<not> (wc_is_mla (rw_base cf) \<and> wc_tp_rank (rw_base cf) mod wc_tp_size (rw_base cf) \<noteq> 0)"

text \<open>Between two steps nothing is outstanding.\<close>

definition row_quiet :: "'w row_cfg \<Rightarrow> 'w row_worker \<Rightarrow> bool" where
  "row_quiet cf s \<longleftrightarrow>
     contexts_of (wc_store (rw_base cf)) (rk_worker s) \<and> \<not> rk_is_save s
     \<and> rk_dump_tasks s = [] \<and> rk_deferred s = [] \<and> wk_events (rk_worker s) = {}
     \<and> rc_dump_contexts (wk_rcm (rk_worker s)) = []
     \<and> (\<forall>r. dict_get_or (rc_dump_blocks_by_request (wk_rcm (rk_worker s))) r {} = {}
          \<and> dict_get_or (rc_dump_failed_by_request (wk_rcm (rk_worker s))) r {} = {})"

definition deferred_ok :: "'w row_cfg \<Rightarrow> row_dump \<Rightarrow> 'w row_worker \<Rightarrow> bool" where
  "deferred_ok cf D s \<longleftrightarrow>
     (\<forall>row x. (row, x) \<in> set (rk_deferred s) \<longrightarrow>
        row \<in> snd ` set (rw_name_to_row cf) \<and> x = (rd_ucm_block_ids D, rd_vllm_block_ids D, rd_request_ids D))"

definition tasks_cover :: "'w row_cfg \<Rightarrow> 'w row_worker \<Rightarrow> bool" where
  "tasks_cover cf s \<longleftrightarrow>
     (\<forall>t \<in> dict_keys (rc_dump_contexts (wk_rcm (rk_worker s))).
        \<exists>row \<in> set (rw_row_ids cf). t \<in> pt_task ` set (dict_get_or (rk_dump_tasks s) row []))"

definition dump_inv :: "'w row_cfg \<Rightarrow> connector_meta \<Rightarrow> bytes set \<Rightarrow> 'w row_worker \<Rightarrow> bool" where
  "dump_inv cf md S s \<longleftrightarrow>
     contexts_of (wc_store (rw_base cf)) (rk_worker s)
     \<and> charges_ok (wc_store (rw_base cf)) (pass_data cf md) (wk_rcm (rk_worker s))
     \<and> tasks_cover cf s \<and> deferred_ok cf (pass_data cf md) s \<and> data_of_pass cf md s
     \<and> (if rk_is_save s then rk_dump_data s = Some (pass_data cf md) \<and> dumping cf md else row_quiet cf s)
     \<and> (\<not> wc_enable_event_sync (rw_base cf) \<longrightarrow> wk_events (rk_worker s) = {})
     \<and> rc_dump_succeeded_blocks (wk_rcm (rk_worker s)) = S"

definition accounted ::
  "('w \<Rightarrow> nat \<Rightarrow> bytes list \<Rightarrow> nat list \<Rightarrow> u64 list list \<Rightarrow> bool) \<Rightarrow> ('w \<Rightarrow> nat \<Rightarrow> bool)
     \<Rightarrow> 'w row_cfg \<Rightarrow> connector_meta \<Rightarrow> 'w row_worker \<Rightarrow> nat \<Rightarrow> bool" where
  "accounted i f cf md s row \<longleftrightarrow>
     settled i f cf (pass_data cf md) (wk_rcm (rk_worker s)) (wk_world (rk_worker s)) row
     \<or> row \<in> dict_keys (rk_deferred s)"

lemma dump_inv_untouched:
  assumes "dump_inv cf md S s" and u: "dumps_untouched i f (wc_store (rw_base cf)) s s'"
  shows "dump_inv cf md S s'" and "accounted i f cf md s row \<Longrightarrow> accounted i f cf md s' row"
    and "rc_enabled (wk_rcm (rk_worker s')) = rc_enabled (wk_rcm (rk_worker s))"
proof -
  have c: "contexts_of (wc_store (rw_base cf)) (rk_worker s)" using assms(1) by (simp add: dump_inv_def)
  have "row_quiet cf s' = row_quiet cf s" using u c by (simp add: dumps_untouched_def row_quiet_def)
  then show "dump_inv cf md S s'"
    using assms(1) u c
    by (simp add: dump_inv_def dumps_untouched_def charges_ok_def step_context_def tasks_cover_def deferred_ok_def data_of_pass_def)
  show "accounted i f cf md s row \<Longrightarrow> accounted i f cf md s' row"
    using u c settled_keep [of i f cf "pass_data cf md" "wk_rcm (rk_worker s)" "wk_world (rk_worker s)" row
        "wk_world (rk_worker s')" "wk_rcm (rk_worker s')"]
    by (auto simp: accounted_def dumps_untouched_def)
  show "rc_enabled (wk_rcm (rk_worker s')) = rc_enabled (wk_rcm (rk_worker s))" using u by (simp add: dumps_untouched_def)
qed

lemma submit_row_dump_inv:
  assumes inv: "dump_inv cf md S s" and ledger: "dump_ledger i f (rw_base cf)" and save: "rk_is_save s"
    and row: "row \<in> set (rw_row_ids cf)" and ptrs: "rw_extract_row cf (rd_vllm_block_ids (pass_data cf md)) row = Inr ptrs"
    and s': "s' = submit_row_dump cf row (rd_block_ids_by_request (pass_data cf md)) (rd_ucm_block_ids (pass_data cf md)) ptrs reqs s"
  shows "dump_inv cf md S s'" and "rk_is_save s'" and "rk_deferred s' = rk_deferred s"
    and "rc_enabled (wk_rcm (rk_worker s')) = rc_enabled (wk_rcm (rk_worker s))"
    and "rc_enabled (wk_rcm (rk_worker s)) \<Longrightarrow> accounted i f cf md s' row"
    and "accounted i f cf md s j \<Longrightarrow> accounted i f cf md s' j"
proof -
  let ?b = "rw_base cf" and ?wk = "rk_worker s" and ?D = "pass_data cf md"
  obtain h ev w where h: "get_dump_event_handle (wc_device ?b) (wc_enable_event_sync ?b) (wk_events ?wk) (wk_world ?wk) = (h, ev, w)"
    by (metis prod_cases3)
  obtain q m' w' where q: "submit_dump (wk_rcm ?wk) (wc_store ?b) w (rd_block_ids_by_request ?D) (rd_ucm_block_ids ?D)
      (replicate (length (rd_ucm_block_ids ?D)) row) ptrs h = (q, m', w')" by (metis prod_cases3)
  have ok: "charges_ok (wc_store ?b) ?D (wk_rcm ?wk)" using inv by (simp add: dump_inv_def)
  note sub = submit_dump_settles [OF q ledger refl ptrs pass_data_facts(1) ok]
  note fr = submit_dump_frame [OF q]
  have st: "steady i f (wk_world ?wk) w"
    using get_dump_event_handle_steady [of i f ?b, where w = "wk_world ?wk" and b = "wc_enable_event_sync ?b" and ev = "wk_events ?wk"]
      h ledger by (simp add: dump_ledger_def)
  define tasks where "tasks = (case q of Inl e \<Rightarrow> rk_dump_tasks s | Inr task \<Rightarrow>
      dict_set row (dict_get_or (rk_dump_tasks s) row []
        @ [\<lparr>pt_task = task, pt_request_ids = set reqs, pt_event_handle = h\<rparr>]) (rk_dump_tasks s))"
  have eq: "s' = s\<lparr>rk_worker := ?wk\<lparr>wk_rcm := m', wk_world := w', wk_events := ev\<rparr>, rk_dump_tasks := tasks\<rparr>"
    using h q by (cases q) (simp_all add: s' submit_row_dump_def tasks_def)
  have keys: "dict_keys (rc_dump_contexts m') = (case q of Inl e \<Rightarrow> dict_keys (rc_dump_contexts (wk_rcm ?wk))
      | Inr t \<Rightarrow> insert t (dict_keys (rc_dump_contexts (wk_rcm ?wk))))"
  proof -
    have "rc_dump_contexts m' = (case q of Inl e \<Rightarrow> rc_dump_contexts (wk_rcm ?wk)
        | Inr t \<Rightarrow> dict_set t (wc_store ?b, if rc_enabled (wk_rcm ?wk) then rd_block_ids_by_request ?D else []) (rc_dump_contexts (wk_rcm ?wk)))"
      using q by (auto simp: submit_dump_def Let_def split: sum.splits prod.splits)
    then show ?thesis by (simp split: sum.split)
  qed
  let ?ts = "\<lambda>d j. pt_task ` set (dict_get_or d j [])"
  have more: "x \<in> ?ts tasks j" if "x \<in> ?ts (rk_dump_tasks s) j" for x j
    using that by (cases q) (auto simp: tasks_def)
  have new: "t \<in> ?ts tasks row" if "q = Inr t" for t using that by (simp add: tasks_def)
  have "tasks_cover cf s" using inv by (simp add: dump_inv_def)
  then have "\<forall>t \<in> dict_keys (rc_dump_contexts m'). \<exists>row \<in> set (rw_row_ids cf). t \<in> ?ts tasks row"
    using more new row unfolding keys tasks_cover_def by (cases q) (simp_all, blast+)
  then have cover: "tasks_cover cf s'" by (simp add: tasks_cover_def eq)
  have ev: "\<not> wc_enable_event_sync ?b \<Longrightarrow> ev = wk_events ?wk" using h by (simp add: get_dump_event_handle_def)
  show "dump_inv cf md S s'"
    using inv save sub(1) fr cover ev
    by (simp add: dump_inv_def eq contexts_of_def deferred_ok_def data_of_pass_def)
  show "rk_is_save s'" "rk_deferred s' = rk_deferred s"
    and "rc_enabled (wk_rcm (rk_worker s')) = rc_enabled (wk_rcm ?wk)" using save fr by (simp_all add: eq)
  show "rc_enabled (wk_rcm ?wk) \<Longrightarrow> accounted i f cf md s' row" using sub(2) by (simp add: accounted_def eq)
  show "accounted i f cf md s j \<Longrightarrow> accounted i f cf md s' j"
    using sub(3) settled_keep [OF _ st order.refl, of cf ?D "wk_rcm ?wk" j] by (auto simp: accounted_def eq)
qed

lemma row_save_kv_layer_inv:
  assumes inv: "dump_inv cf md S s" and ledger: "dump_ledger i f (rw_base cf)" and ext: "row_extracts cf md"
    and rows: "snd ` set (rw_name_to_row cf) \<subseteq> set (rw_row_ids cf)"
    and run: "row_save_kv_layer cf (Some md) name s = (Inr (), s')"
  shows "dump_inv cf md S s'" and "rc_enabled (wk_rcm (rk_worker s')) = rc_enabled (wk_rcm (rk_worker s))"
    and "accounted i f cf md s j \<Longrightarrow> accounted i f cf md s' j"
    and "rc_enabled (wk_rcm (rk_worker s)) \<Longrightarrow> dumping cf md \<Longrightarrow> dict_get (rw_name_to_row cf) name = Some row
       \<Longrightarrow> dict_get (rw_row_save_layer cf) row = Some name \<Longrightarrow> accounted i f cf md s' row"
proof -
  let ?D = "pass_data cf md"
  let ?guard = "wc_is_mla (rw_base cf) \<and> wc_tp_rank (rw_base cf) mod wc_tp_size (rw_base cf) \<noteq> 0"
  have d: "(case rk_dump_data s of Some d \<Rightarrow> d | None \<Rightarrow> build_dump_transfer_data (rw_base cf) (cm_request_meta md)) = ?D"
    using inv by (auto simp: dump_inv_def data_of_pass_def pass_data_def)
  let ?s1 = "s\<lparr>rk_dump_data := Some ?D\<rparr>" and ?s2 = "s\<lparr>rk_dump_data := Some ?D, rk_is_save := True\<rparr>"
  have q: "row_quiet cf ?s1 = row_quiet cf s" by (simp add: row_quiet_def)
  have s1: "dump_inv cf md S ?s1"
    using inv by (simp add: dump_inv_def q tasks_cover_def deferred_ok_def data_of_pass_def)
  have s2: "dump_inv cf md S ?s2" if "dumping cf md"
    using inv that by (simp add: dump_inv_def tasks_cover_def deferred_ok_def data_of_pass_def)
  have same: "accounted i f cf md (s\<lparr>rk_dump_data := x, rk_is_save := y\<rparr>) j = accounted i f cf md s j"
    "accounted i f cf md (s\<lparr>rk_dump_data := x\<rparr>) j = accounted i f cf md s j" for x y j
    by (simp_all add: accounted_def)
  let ?concl = "dump_inv cf md S s' \<and> rc_enabled (wk_rcm (rk_worker s')) = rc_enabled (wk_rcm (rk_worker s))
    \<and> (\<forall>j. accounted i f cf md s j \<longrightarrow> accounted i f cf md s' j)
    \<and> (rc_enabled (wk_rcm (rk_worker s)) \<and> dumping cf md \<and> dict_get (rw_name_to_row cf) name = Some row
       \<and> dict_get (rw_row_save_layer cf) row = Some name \<longrightarrow> accounted i f cf md s' row)"
  have ?concl
  proof (cases "?guard \<or> dict_get (rw_name_to_row cf) name = None")
    case True
    then have "s' = s" using run by (auto simp: row_save_kv_layer_def Let_def split: if_splits)
    with True inv show ?thesis by (auto simp: dumping_def)
  next
    case False
    then obtain r where r: "dict_get (rw_name_to_row cf) name = Some r" and g: "\<not> ?guard" by auto
    have rmem: "r \<in> snd ` set (rw_name_to_row cf)" using map_of_SomeD [OF r] by force
    then have rset: "r \<in> set (rw_row_ids cf)" using rows by blast
    obtain ptrs where ptrs: "rw_extract_row cf (rd_vllm_block_ids ?D) r = Inr ptrs"
      using ext rmem unfolding row_extracts_def by blast
    show ?thesis
    proof (cases "dict_get (rw_row_save_layer cf) r = Some name")
      case False
      then have "s' = s" using run r g by (cases "wc_is_mla (rw_base cf)"; simp add: row_save_kv_layer_def Let_def)
      with False r inv show ?thesis by auto
    next
      case here: True
      show ?thesis
      proof (cases "rd_ucm_block_ids ?D = []")
        case True
        then have "s' = ?s1" using run r g here by (cases "wc_is_mla (rw_base cf)"; simp add: row_save_kv_layer_def Let_def d)
        with True s1 show ?thesis by (simp add: same dumping_def)
      next
        case False
        then have dmp: "dumping cf md" using g by (simp add: dumping_def)
        show ?thesis
        proof (cases "hla_is_mtp_layer (rw_is_mtp cf) name")
          case True
          let ?x = "(rd_ucm_block_ids ?D, rd_vllm_block_ids ?D, rd_request_ids ?D)"
          have s': "s' = ?s2\<lparr>rk_deferred := dict_set r ?x (rk_deferred s)\<rparr>"
            using run r g here False True by (cases "wc_is_mla (rw_base cf)"; simp add: row_save_kv_layer_def Let_def d)
          have "deferred_ok cf ?D s" using inv by (simp add: dump_inv_def)
          then have "deferred_ok cf ?D s'"
            using rmem by (auto simp: deferred_ok_def s' dest!: dict_in_set_update)
          then have "dump_inv cf md S s'"
            using s2 [OF dmp] by (simp add: s' dump_inv_def tasks_cover_def data_of_pass_def)
          then show ?thesis using r by (auto simp: s' accounted_def)
        next
          case F: False
          have s': "s' = submit_row_dump cf r (rd_block_ids_by_request ?D) (rd_ucm_block_ids ?D) ptrs (rd_request_ids ?D) ?s2"
            using run r g here False F ptrs by (cases "wc_is_mla (rw_base cf)"; simp add: row_save_kv_layer_def Let_def d)
          note sub = submit_row_dump_inv [OF s2 [OF dmp] ledger _ rset ptrs s']
          show ?thesis using sub r by (auto simp: same)
        qed
      qed
    qed
  qed
  then show "dump_inv cf md S s'" and "rc_enabled (wk_rcm (rk_worker s')) = rc_enabled (wk_rcm (rk_worker s))"
    and "accounted i f cf md s j \<Longrightarrow> accounted i f cf md s' j"
    and "rc_enabled (wk_rcm (rk_worker s)) \<Longrightarrow> dumping cf md \<Longrightarrow> dict_get (rw_name_to_row cf) name = Some row
       \<Longrightarrow> dict_get (rw_row_save_layer cf) row = Some name \<Longrightarrow> accounted i f cf md s' row" by blast+
qed

lemma row_flush_loop_inv:
  assumes ledger: "dump_ledger i f (rw_base cf)" and ext: "row_extracts cf md"
    and rows: "snd ` set (rw_name_to_row cf) \<subseteq> set (rw_row_ids cf)"
  shows "dump_inv cf md S s \<Longrightarrow> rk_is_save s \<Longrightarrow>
     \<forall>(row, x) \<in> set items. row \<in> snd ` set (rw_name_to_row cf)
        \<and> x = (rd_ucm_block_ids (pass_data cf md), rd_vllm_block_ids (pass_data cf md), rd_request_ids (pass_data cf md)) \<Longrightarrow>
     s' = row_flush_loop cf (rd_block_ids_by_request (pass_data cf md)) items s \<Longrightarrow>
     dump_inv cf md S s' \<and> rk_is_save s' \<and> rk_deferred s' = rk_deferred s
     \<and> rc_enabled (wk_rcm (rk_worker s')) = rc_enabled (wk_rcm (rk_worker s))
     \<and> (\<forall>j. accounted i f cf md s j \<longrightarrow> accounted i f cf md s' j)
     \<and> (rc_enabled (wk_rcm (rk_worker s)) \<longrightarrow> (\<forall>row \<in> fst ` set items. accounted i f cf md s' row))"
proof (induction items arbitrary: s)
  case Nil
  then show ?case by simp
next
  case (Cons it items)
  let ?D = "pass_data cf md"
  obtain row where it: "it = (row, rd_ucm_block_ids ?D, rd_vllm_block_ids ?D, rd_request_ids ?D)"
    and row: "row \<in> snd ` set (rw_name_to_row cf)" using Cons.prems(3) by auto
  obtain ptrs where ptrs: "rw_extract_row cf (rd_vllm_block_ids ?D) row = Inr ptrs"
    using ext row unfolding row_extracts_def by blast
  define s1 where "s1 = submit_row_dump cf row (rd_block_ids_by_request ?D) (rd_ucm_block_ids ?D) ptrs (rd_request_ids ?D) s"
  have rset: "row \<in> set (rw_row_ids cf)" using rows row by blast
  note sub = submit_row_dump_inv [OF Cons.prems(1) ledger Cons.prems(2) rset ptrs s1_def]
  have "\<forall>(row, x) \<in> set items. row \<in> snd ` set (rw_name_to_row cf)
        \<and> x = (rd_ucm_block_ids ?D, rd_vllm_block_ids ?D, rd_request_ids ?D)" using Cons.prems(3) by simp
  moreover have "s' = row_flush_loop cf (rd_block_ids_by_request ?D) items s1"
    using Cons.prems(4) it ptrs by (simp add: s1_def)
  ultimately have ih: "dump_inv cf md S s' \<and> rk_is_save s' \<and> rk_deferred s' = rk_deferred s1
     \<and> rc_enabled (wk_rcm (rk_worker s')) = rc_enabled (wk_rcm (rk_worker s1))
     \<and> (\<forall>j. accounted i f cf md s1 j \<longrightarrow> accounted i f cf md s' j)
     \<and> (rc_enabled (wk_rcm (rk_worker s1)) \<longrightarrow> (\<forall>row \<in> fst ` set items. accounted i f cf md s' row))"
    by (rule Cons.IH [OF sub(1,2)])
  with sub(3-6) it show ?case by auto
qed

subsection \<open>The end of a step\<close>

lemma wait_row_dumps_settles:
  assumes ledger: "dump_ledger i f base" and dist: "distinct (map fst (rd_block_ids_by_request D))"
  shows "charges_ok (wc_store base) D (wk_rcm (rk_worker s)) \<Longrightarrow>
    \<exists>m' w'. wait_row_dumps items s = s\<lparr>rk_worker := (rk_worker s)\<lparr>wk_rcm := m', wk_world := w'\<rparr>\<rparr>
      \<and> charges_ok (wc_store base) D m' \<and> rc_load_contexts m' = rc_load_contexts (wk_rcm (rk_worker s))
      \<and> rc_dump_succeeded_blocks m' = rc_dump_succeeded_blocks (wk_rcm (rk_worker s))
      \<and> rc_enabled m' = rc_enabled (wk_rcm (rk_worker s))
      \<and> dict_keys (rc_dump_contexts m') = dict_keys (rc_dump_contexts (wk_rcm (rk_worker s))) - pt_task ` set items
      \<and> (\<forall>j. rc_enabled m' \<longrightarrow> settled i f cf D (wk_rcm (rk_worker s)) (wk_world (rk_worker s)) j \<longrightarrow> settled i f cf D m' w' j)"
proof (induction items arbitrary: s)
  case Nil
  then show ?case by (intro exI [of _ "wk_rcm (rk_worker s)"] exI [of _ "wk_world (rk_worker s)"]) simp
next
  case (Cons t items)
  obtain q m1 w1 where q: "wait_dump (wk_rcm (rk_worker s)) (wk_world (rk_worker s)) (pt_task t) = (q, m1, w1)"
    by (metis prod_cases3)
  note one = wait_dump_settles [OF q ledger Cons.prems dist]
  note fr = wait_dump_frame [OF q]
  let ?s1 = "s\<lparr>rk_worker := (rk_worker s)\<lparr>wk_rcm := m1, wk_world := w1\<rparr>\<rparr>"
  have "charges_ok (wc_store base) D (wk_rcm (rk_worker ?s1))" using one(2) by simp
  from Cons.IH [OF this] obtain m' w' where ih:
    "wait_row_dumps items ?s1 = ?s1\<lparr>rk_worker := (rk_worker ?s1)\<lparr>wk_rcm := m', wk_world := w'\<rparr>\<rparr>"
    "charges_ok (wc_store base) D m'" "rc_load_contexts m' = rc_load_contexts m1"
    "rc_dump_succeeded_blocks m' = rc_dump_succeeded_blocks m1" "rc_enabled m' = rc_enabled m1"
    "dict_keys (rc_dump_contexts m') = dict_keys (rc_dump_contexts m1) - pt_task ` set items"
    "\<forall>j. rc_enabled m' \<longrightarrow> settled i f cf D m1 w1 j \<longrightarrow> settled i f cf D m' w' j" by auto
  have "wait_row_dumps (t # items) s = s\<lparr>rk_worker := (rk_worker s)\<lparr>wk_rcm := m', wk_world := w'\<rparr>\<rparr>"
    using q ih(1) by simp
  moreover have "dict_keys (rc_dump_contexts m') = dict_keys (rc_dump_contexts (wk_rcm (rk_worker s))) - pt_task ` set (t # items)"
    unfolding ih(6) one(4) by auto
  moreover have "settled i f cf D (wk_rcm (rk_worker s)) (wk_world (rk_worker s)) j \<Longrightarrow> rc_enabled m' \<Longrightarrow> settled i f cf D m' w' j" for j
    using one(3) ih(5,7) fr(4) by simp
  ultimately show ?case using ih(2-5) fr(1,2,4) by (intro exI [of _ m'] exI [of _ w']) simp
qed

lemma wait_dumps_of_rows_settles:
  assumes ledger: "dump_ledger i f base" and dist: "distinct (map fst (rd_block_ids_by_request D))"
  shows "charges_ok (wc_store base) D (wk_rcm (rk_worker s)) \<Longrightarrow>
    \<exists>m' w' ts. fold wait_dumps_of_row rows s = s\<lparr>rk_worker := (rk_worker s)\<lparr>wk_rcm := m', wk_world := w'\<rparr>, rk_dump_tasks := ts\<rparr>
      \<and> charges_ok (wc_store base) D m' \<and> rc_load_contexts m' = rc_load_contexts (wk_rcm (rk_worker s))
      \<and> rc_dump_succeeded_blocks m' = rc_dump_succeeded_blocks (wk_rcm (rk_worker s))
      \<and> rc_enabled m' = rc_enabled (wk_rcm (rk_worker s))
      \<and> (\<forall>t \<in> dict_keys (rc_dump_contexts m'). t \<in> dict_keys (rc_dump_contexts (wk_rcm (rk_worker s)))
           \<and> (\<forall>row \<in> set rows. t \<notin> pt_task ` set (dict_get_or (rk_dump_tasks s) row [])))
      \<and> (\<forall>j. rc_enabled m' \<longrightarrow> settled i f cf D (wk_rcm (rk_worker s)) (wk_world (rk_worker s)) j \<longrightarrow> settled i f cf D m' w' j)"
proof (induction rows arbitrary: s)
  case Nil
  then show ?case
    by (intro exI [of _ "wk_rcm (rk_worker s)"] exI [of _ "wk_world (rk_worker s)"] exI [of _ "rk_dump_tasks s"]) simp
next
  case (Cons row rows)
  let ?items = "dict_get_or (rk_dump_tasks s) row []" and ?s0 = "s\<lparr>rk_dump_tasks := dict_pop row (rk_dump_tasks s)\<rparr>"
  have "charges_ok (wc_store base) D (wk_rcm (rk_worker ?s0))" using Cons.prems by simp
  from wait_row_dumps_settles [OF ledger dist this, of ?items cf] obtain m1 w1 where one:
    "wait_row_dumps ?items ?s0 = ?s0\<lparr>rk_worker := (rk_worker s)\<lparr>wk_rcm := m1, wk_world := w1\<rparr>\<rparr>"
    "charges_ok (wc_store base) D m1" "rc_load_contexts m1 = rc_load_contexts (wk_rcm (rk_worker s))"
    "rc_dump_succeeded_blocks m1 = rc_dump_succeeded_blocks (wk_rcm (rk_worker s))"
    "rc_enabled m1 = rc_enabled (wk_rcm (rk_worker s))"
    "dict_keys (rc_dump_contexts m1) = dict_keys (rc_dump_contexts (wk_rcm (rk_worker s))) - pt_task ` set ?items"
    "\<forall>j. rc_enabled m1 \<longrightarrow> settled i f cf D (wk_rcm (rk_worker s)) (wk_world (rk_worker s)) j \<longrightarrow> settled i f cf D m1 w1 j"
    by auto
  let ?s1 = "s\<lparr>rk_worker := (rk_worker s)\<lparr>wk_rcm := m1, wk_world := w1\<rparr>, rk_dump_tasks := dict_pop row (rk_dump_tasks s)\<rparr>"
  have s1: "wait_dumps_of_row row s = ?s1" using one(1) by (simp add: wait_dumps_of_row_def)
  have "charges_ok (wc_store base) D (wk_rcm (rk_worker ?s1))" using one(2) by simp
  from Cons.IH [OF this] obtain m' w' ts where ih:
    "fold wait_dumps_of_row rows ?s1 = s\<lparr>rk_worker := (rk_worker s)\<lparr>wk_rcm := m', wk_world := w'\<rparr>, rk_dump_tasks := ts\<rparr>"
    "charges_ok (wc_store base) D m'" "rc_load_contexts m' = rc_load_contexts m1"
    "rc_dump_succeeded_blocks m' = rc_dump_succeeded_blocks m1" "rc_enabled m' = rc_enabled m1"
    "\<forall>t \<in> dict_keys (rc_dump_contexts m'). t \<in> dict_keys (rc_dump_contexts m1)
       \<and> (\<forall>r \<in> set rows. t \<notin> pt_task ` set (if r = row then [] else dict_get_or (rk_dump_tasks s) r []))"
    "\<forall>j. rc_enabled m' \<longrightarrow> settled i f cf D m1 w1 j \<longrightarrow> settled i f cf D m' w' j" by auto
  have keys: "t \<in> dict_keys (rc_dump_contexts (wk_rcm (rk_worker s))) \<and> t \<notin> pt_task ` set (dict_get_or (rk_dump_tasks s) r [])"
    if "t \<in> dict_keys (rc_dump_contexts m')" "r \<in> set (row # rows)" for t r
  proof -
    have "t \<in> dict_keys (rc_dump_contexts (wk_rcm (rk_worker s)))" "t \<notin> pt_task ` set ?items"
      using ih(6) that(1) unfolding one(6) by blast+
    moreover have "t \<notin> pt_task ` set (dict_get_or (rk_dump_tasks s) r [])" if "r \<noteq> row"
      using ih(6) \<open>t \<in> dict_keys (rc_dump_contexts m')\<close> \<open>r \<in> set (row # rows)\<close> that by fastforce
    ultimately show ?thesis by (cases "r = row") simp_all
  qed
  have mem: "row \<in> set (row # rows)" by simp
  show ?case
    using ih(1-5,7) one(3-5,7) s1 keys keys [OF _ mem]
    by (intro exI [of _ m'] exI [of _ w'] exI [of _ ts]) simp
qed

lemma row_wait_for_save_reports:
  assumes inv: "dump_inv cf md S s" and ledger: "dump_ledger i f (rw_base cf)" and ext: "row_extracts cf md"
    and rows: "snd ` set (rw_name_to_row cf) \<subseteq> set (rw_row_ids cf)"
    and dist: "distinct (map fst (cm_request_meta md))"
    and acc: "rc_enabled (wk_rcm (rk_worker s)) \<Longrightarrow> dumping cf md \<Longrightarrow> \<forall>row \<in> set (rw_row_ids cf). accounted i f cf md s row"
  shows "\<exists>s'. row_wait_for_save cf s = (Inr (), s') \<and> row_quiet cf s'
    \<and> (\<forall>b \<in> rc_dump_succeeded_blocks (wk_rcm (rk_worker s')) - S.
          set (hla_rank_scoped_ids (rw_base cf) [b]) \<subseteq> set (rd_ucm_block_ids (pass_data cf md))
          \<and> (\<forall>row \<in> set (rw_row_ids cf). row_dumped i f cf (pass_data cf md) (wk_world (rk_worker s')) row))"
proof (cases "rk_is_save s")
  case False
  with inv show ?thesis by (simp add: row_wait_for_save_def dump_inv_def)
next
  case True
  let ?D = "pass_data cf md" and ?b = "rw_base cf"
  have d: "rk_dump_data s = Some ?D" and dmp: "dumping cf md" using inv True by (simp_all add: dump_inv_def)
  let ?s0 = "s\<lparr>rk_deferred := []\<rparr>"
  define s1 where "s1 = row_flush_loop cf (rd_block_ids_by_request ?D) (rk_deferred s) ?s0"
  have f1: "row_flush_deferred cf s = s1" by (simp add: row_flush_deferred_def d s1_def)
  have inv0: "dump_inv cf md S ?s0"
    using inv True by (simp add: dump_inv_def tasks_cover_def deferred_ok_def data_of_pass_def)
  have items: "\<forall>(row, x) \<in> set (rk_deferred s). row \<in> snd ` set (rw_name_to_row cf)
        \<and> x = (rd_ucm_block_ids ?D, rd_vllm_block_ids ?D, rd_request_ids ?D)"
    using inv by (auto simp: dump_inv_def deferred_ok_def)
  have "rk_is_save ?s0" using True by simp
  note fl = row_flush_loop_inv [OF ledger ext rows inv0 this items s1_def]
  then have inv1: "dump_inv cf md S s1" and def1: "rk_deferred s1 = []" and save1: "rk_is_save s1"
    and en1: "rc_enabled (wk_rcm (rk_worker s1)) = rc_enabled (wk_rcm (rk_worker s))" by simp_all
  have settled1: "settled i f cf ?D (wk_rcm (rk_worker s1)) (wk_world (rk_worker s1)) row"
    if "rc_enabled (wk_rcm (rk_worker s))" "row \<in> set (rw_row_ids cf)" for row
  proof -
    have "accounted i f cf md s row" using acc dmp that by blast
    then have "accounted i f cf md ?s0 row \<or> row \<in> fst ` set (rk_deferred s)" by (auto simp: accounted_def)
    then have "accounted i f cf md s1 row" using fl that(1) by auto
    then show ?thesis by (simp add: accounted_def def1)
  qed
  have "charges_ok (wc_store ?b) ?D (wk_rcm (rk_worker s1))" using inv1 by (simp add: dump_inv_def)
  from wait_dumps_of_rows_settles [OF ledger pass_data_facts(1) this, of "rw_row_ids cf" cf]
  obtain m2 w2 ts where all: "fold wait_dumps_of_row (rw_row_ids cf) s1 = s1\<lparr>rk_worker := (rk_worker s1)\<lparr>wk_rcm := m2, wk_world := w2\<rparr>, rk_dump_tasks := ts\<rparr>
      \<and> charges_ok (wc_store ?b) ?D m2 \<and> rc_load_contexts m2 = rc_load_contexts (wk_rcm (rk_worker s1))
      \<and> rc_dump_succeeded_blocks m2 = rc_dump_succeeded_blocks (wk_rcm (rk_worker s1))
      \<and> rc_enabled m2 = rc_enabled (wk_rcm (rk_worker s1))
      \<and> (\<forall>t \<in> dict_keys (rc_dump_contexts m2). t \<in> dict_keys (rc_dump_contexts (wk_rcm (rk_worker s1)))
           \<and> (\<forall>row \<in> set (rw_row_ids cf). t \<notin> pt_task ` set (dict_get_or (rk_dump_tasks s1) row [])))
      \<and> (\<forall>j. rc_enabled m2 \<longrightarrow> settled i f cf ?D (wk_rcm (rk_worker s1)) (wk_world (rk_worker s1)) j \<longrightarrow> settled i f cf ?D m2 w2 j)"
    by (elim exE) (rule that)
  note w = conjunct1 [OF all] note all = conjunct2 [OF all]
  note ok2 = conjunct1 [OF all] note all = conjunct2 [OF all]
  note load2 = conjunct1 [OF all] note all = conjunct2 [OF all]
  note succ2 = conjunct1 [OF all] note all = conjunct2 [OF all]
  note en2 = conjunct1 [OF all] note all = conjunct2 [OF all]
  note keys2 = conjunct1 [OF all] note settled2 = conjunct2 [OF all]
  have "tasks_cover cf s1" using inv1 by (simp add: dump_inv_def)
  have gone: "t \<notin> dict_keys (rc_dump_contexts m2)" for t
  proof
    assume "t \<in> dict_keys (rc_dump_contexts m2)"
    from bspec [OF keys2 this] have t: "t \<in> dict_keys (rc_dump_contexts (wk_rcm (rk_worker s1)))"
      and no: "\<forall>row \<in> set (rw_row_ids cf). t \<notin> pt_task ` set (dict_get_or (rk_dump_tasks s1) row [])" by simp_all
    from bspec [OF \<open>tasks_cover cf s1\<close> [unfolded tasks_cover_def] t] no show False by blast
  qed
  have none: "rc_dump_contexts m2 = []"
  proof (cases "rc_dump_contexts m2")
    case (Cons x xs)
    then have "fst x \<in> dict_keys (rc_dump_contexts m2)" by simp
    with gone show ?thesis by blast
  qed
  define m3 where "m3 = (if rc_enabled m2 then finish_dump_loop (rd_request_ids ?D) m2 else m2)"
  have fin: "finish_dump m2 (rd_request_ids ?D) = (Inr (), m3)"
    by (simp add: finish_dump_def m3_def pending_dump_requests_def none)
  define wk where "wk = (rk_worker s1)\<lparr>wk_rcm := m3, wk_world := w2,
     wk_events := (if wc_enable_event_sync ?b then destroy_event_handles (wk_events (rk_worker s1)) else wk_events (rk_worker s1))\<rparr>"
  let ?s' = "s1\<lparr>rk_worker := wk, rk_dump_tasks := [], rk_dump_data := None, rk_is_save := False\<rparr>"
  have run: "row_wait_for_save cf s = (Inr (), ?s')"
    using True by (simp add: row_wait_for_save_def d f1 w fin wk_def Let_def)
  have ctx: "rc_dump_contexts m3 = []" "rc_load_contexts m3 = rc_load_contexts (wk_rcm (rk_worker s1))"
    by (simp_all add: m3_def none load2 finish_dump_loop_frame)
  have bound: "dict_get_or (rc_dump_blocks_by_request m2) r {} \<subseteq> dict_get_or (step_context ?D m2) r {}"
    "dict_get_or (rc_dump_failed_by_request m2) r {} \<subseteq> dict_get_or (step_context ?D m2) r {}" for r
    using ok2 by (simp_all add: charges_ok_def)
  have empty: "dict_get_or (rc_dump_blocks_by_request m3) r {} = {} \<and> dict_get_or (rc_dump_failed_by_request m3) r {} = {}" for r
  proof (cases "rc_enabled m2 \<and> r \<in> set (rd_request_ids ?D)")
    case True
    then show ?thesis by (simp add: m3_def finish_dump_loop_tables)
  next
    case False
    then have "dict_get_or (step_context ?D m2) r {} = {}"
      using pass_data_facts(2) [of cf md r] by (auto simp: step_context_def dict_get_or_def [of "[]"])
    then show ?thesis using bound [of r] False by (simp add: m3_def finish_dump_loop_tables)
  qed
  have "contexts_of (wc_store ?b) (rk_worker s1)" "\<not> wc_enable_event_sync ?b \<longrightarrow> wk_events (rk_worker s1) = {}"
    using inv1 by (simp_all add: dump_inv_def)
  then have quiet: "row_quiet cf ?s'"
    using ctx empty def1 by (simp add: row_quiet_def contexts_of_def wk_def destroy_event_handles_def)
  have S: "rc_dump_succeeded_blocks m2 = S" using inv1 succ2 by (simp add: dump_inv_def)
  have reported: "set (hla_rank_scoped_ids ?b [b]) \<subseteq> set (rd_ucm_block_ids ?D)
      \<and> (\<forall>row \<in> set (rw_row_ids cf). row_dumped i f cf ?D w2 row)"
    if b: "b \<in> rc_dump_succeeded_blocks m3 - S" for b
  proof -
    have en: "rc_enabled m2" using b S by (auto simp: m3_def split: if_splits)
    then obtain r where r: "b \<in> dict_get_or (rc_dump_blocks_by_request m2) r {}" "b \<notin> dict_get_or (rc_dump_failed_by_request m2) r {}"
      using b S finish_dump_reports [OF fin en pass_data_facts(4) [OF dist]] by auto
    have byr: "b \<in> dict_get_or (rd_block_ids_by_request ?D) r {}" using r(1) bound(1) [of r] en by (auto simp: step_context_def)
    then have nf: "\<not> failed_all ?D m2" using r(2) unfolding failed_all_def by blast
    have "row_dumped i f cf ?D w2 row" if "row \<in> set (rw_row_ids cf)" for row
    proof -
      have "settled i f cf ?D m2 w2 row" using settled1 [OF _ that] settled2 en en2 en1 by simp
      with nf none show ?thesis by (auto simp: settled_def row_dumped_def)
    qed
    with pass_data_facts(3) [OF byr] show ?thesis by blast
  qed
  show ?thesis using run quiet reported by (intro exI [of _ ?s']) (simp add: wk_def)
qed

lemma row_run_pass_dumps:
  assumes ledger: "dump_ledger i f (rw_base cf)" and ext: "row_extracts cf md"
    and rows: "snd ` set (rw_name_to_row cf) \<subseteq> set (rw_row_ids cf)"
  shows "dump_inv cf md S s \<Longrightarrow>
    \<exists>s'. row_run_pass cf md es s = (Inr (), s') \<and> dump_inv cf md S s'
      \<and> rc_enabled (wk_rcm (rk_worker s')) = rc_enabled (wk_rcm (rk_worker s))
      \<and> (\<forall>j. accounted i f cf md s j \<longrightarrow> accounted i f cf md s' j)
      \<and> (\<forall>name row. SaveLayer name \<in> set es \<longrightarrow> rc_enabled (wk_rcm (rk_worker s)) \<longrightarrow> dumping cf md
           \<longrightarrow> dict_get (rw_name_to_row cf) name = Some row \<longrightarrow> dict_get (rw_row_save_layer cf) row = Some name
           \<longrightarrow> accounted i f cf md s' row)"
proof (induction es arbitrary: s)
  case Nil
  then show ?case by simp
next
  case (Cons e es)
  show ?case
  proof (cases e)
    case (WaitLayer name)
    have st: "loads_steady i f (wc_store (rw_base cf))" using ledger by (simp add: dump_ledger_def)
    note one = dump_inv_untouched [OF Cons.prems row_wait_for_layer_load_untouched [OF st, of s "Some md" name]]
    from Cons.IH [OF one(1)] obtain s' where s':
      "row_run_pass cf md es (row_wait_for_layer_load cf (Some md) name s) = (Inr (), s')" "dump_inv cf md S s'"
      "rc_enabled (wk_rcm (rk_worker s')) = rc_enabled (wk_rcm (rk_worker s))"
      "\<forall>j. accounted i f cf md (row_wait_for_layer_load cf (Some md) name s) j \<longrightarrow> accounted i f cf md s' j"
      "\<forall>name row. SaveLayer name \<in> set es \<longrightarrow> rc_enabled (wk_rcm (rk_worker s)) \<longrightarrow> dumping cf md
           \<longrightarrow> dict_get (rw_name_to_row cf) name = Some row \<longrightarrow> dict_get (rw_row_save_layer cf) row = Some name
           \<longrightarrow> accounted i f cf md s' row" by (auto simp: one(3))
    then show ?thesis using WaitLayer one(2) by (intro exI [of _ s']) simp
  next
    case (SaveLayer name)
    have "dump_contract i f (rw_base cf)" "data_of_pass cf md s" using ledger Cons.prems by (simp_all add: dump_ledger_def dump_inv_def)
    from row_save_kv_layer_progress [OF this(1) ext this(2), of name "wc_store (rw_base cf)"]
    obtain s1 where s1: "row_save_kv_layer cf (Some md) name s = (Inr (), s1)" by blast
    note one = row_save_kv_layer_inv [OF Cons.prems ledger ext rows s1]
    from Cons.IH [OF one(1)] obtain s' where s':
      "row_run_pass cf md es s1 = (Inr (), s')" "dump_inv cf md S s'"
      "rc_enabled (wk_rcm (rk_worker s')) = rc_enabled (wk_rcm (rk_worker s))"
      "\<forall>j. accounted i f cf md s1 j \<longrightarrow> accounted i f cf md s' j"
      "\<forall>name row. SaveLayer name \<in> set es \<longrightarrow> rc_enabled (wk_rcm (rk_worker s)) \<longrightarrow> dumping cf md
           \<longrightarrow> dict_get (rw_name_to_row cf) name = Some row \<longrightarrow> dict_get (rw_row_save_layer cf) row = Some name
           \<longrightarrow> accounted i f cf md s' row" by (auto simp: one(2))
    then show ?thesis using SaveLayer s1 one(3,4) by (intro exI [of _ s']) auto
  qed
qed

text \<open>
  C6: The row-wise hybrid connector reports a block as dumped only when it is stored in all its
  rows: after a step in which every row's last layer is saved, \<open>wait_for_save\<close> returns with
  nothing outstanding (no task, context, event or deferred dump), and each block the worker newly
  reports is among the blocks of a dump that was accepted and completed for every row.
\<close>

theorem reported_blocks_are_in_every_row:
  assumes "row_quiet cf s" and "row_extracts cf md" and "dump_ledger i f (rw_base cf)"
    and "distinct (map fst (cm_request_meta md))"
    and "snd ` set (rw_name_to_row cf) \<subseteq> set (rw_row_ids cf)"
    and "\<forall>row \<in> set (rw_row_ids cf). \<exists>name. SaveLayer name \<in> set es
           \<and> dict_get (rw_name_to_row cf) name = Some row \<and> dict_get (rw_row_save_layer cf) row = Some name"
  shows "\<exists>s1 s2. row_run_pass cf md es (row_start_load_kv cf md s) = (Inr (), s1)
    \<and> row_wait_for_save cf s1 = (Inr (), s2) \<and> row_quiet cf s2
    \<and> (\<forall>b \<in> rc_dump_succeeded_blocks (wk_rcm (rk_worker s2)) - rc_dump_succeeded_blocks (wk_rcm (rk_worker s)).
          set (hla_rank_scoped_ids (rw_base cf) [b]) \<subseteq> set (rd_ucm_block_ids (pass_data cf md))
          \<and> (\<forall>row \<in> set (rw_row_ids cf). row_dumped i f cf (pass_data cf md) (wk_world (rk_worker s2)) row))"
proof -
  let ?S = "rc_dump_succeeded_blocks (wk_rcm (rk_worker s))" and ?s0 = "s\<lparr>rk_dump_data := None, rk_deferred := []\<rparr>"
  have st: "loads_steady i f (wc_store (rw_base cf))" using assms(3) by (simp add: dump_ledger_def)
  have "row_quiet cf ?s0" using assms(1) by (simp add: row_quiet_def)
  then have "dump_inv cf md ?S ?s0"
    using assms(1) by (simp add: dump_inv_def row_quiet_def charges_ok_def tasks_cover_def deferred_ok_def data_of_pass_def)
  note start = dump_inv_untouched [OF this row_start_load_kv_untouched [OF st, of s md]]
  from row_run_pass_dumps [OF assms(3,2,5) start(1), of es] obtain s1 where s1:
    "row_run_pass cf md es (row_start_load_kv cf md s) = (Inr (), s1)" "dump_inv cf md ?S s1"
    and acc: "rc_enabled (wk_rcm (rk_worker s1)) \<Longrightarrow> dumping cf md \<Longrightarrow> \<forall>row \<in> set (rw_row_ids cf). accounted i f cf md s1 row"
    using assms(6) by (metis (no_types, lifting))
  from row_wait_for_save_reports [OF s1(2) assms(3,2,5,4) acc] s1(1) show ?thesis by blast
qed

text \<open>The same store that answers a dump with a fresh task and keeps it on the ledger.\<close>

definition dump_ledger_cfg :: "ledger worker_cfg" where
  "dump_ledger_cfg = ledger_cfg\<lparr>wc_store := (wc_store ledger_cfg)
     \<lparr>st_dump_data := (\<lambda>w ids shards ptrs ev. (Inr (length (fst w)), (fst w @ [(length (fst w), ids, shards, ptrs)], snd w)))\<rparr>\<rparr>"

lemma dump_ledger_kept: "dump_ledger ledger_issued ledger_finished dump_ledger_cfg"
  by (auto simp: dump_ledger_def dump_contract_def loads_steady_def steady_def ledger_issued_def ledger_finished_def
      dump_ledger_cfg_def ledger_cfg_def)

theorem reported_blocks_are_in_every_row_witness:
  "\<exists>s1 s2. row_run_pass (two_rows\<lparr>rw_base := dump_ledger_cfg\<rparr>) demo_step [SaveLayer ''attn0'', SaveLayer ''attn1'']
         (row_start_load_kv (two_rows\<lparr>rw_base := dump_ledger_cfg\<rparr>) demo_step (new_row_worker ([], []) True)) = (Inr (), s1)
     \<and> row_wait_for_save (two_rows\<lparr>rw_base := dump_ledger_cfg\<rparr>) s1 = (Inr (), s2)
     \<and> row_quiet (two_rows\<lparr>rw_base := dump_ledger_cfg\<rparr>) s2"
proof -
  let ?cf = "two_rows\<lparr>rw_base := dump_ledger_cfg\<rparr>" and ?es = "[SaveLayer ''attn0'', SaveLayer ''attn1'']"
  have base: "rw_base ?cf = dump_ledger_cfg" by simp
  have pre: "row_quiet ?cf (new_row_worker ([], []) True)" "row_extracts ?cf demo_step"
    "distinct (map fst (cm_request_meta demo_step))" "snd ` set (rw_name_to_row ?cf) \<subseteq> set (rw_row_ids ?cf)"
    by (simp_all add: row_quiet_def contexts_of_def new_row_worker_def new_worker_def new_rcm_def row_extracts_def
        two_rows_def demo_step_def dict_get_or_def)
  have last: "\<forall>row \<in> set (rw_row_ids ?cf). \<exists>name. SaveLayer name \<in> set ?es
       \<and> dict_get (rw_name_to_row ?cf) name = Some row \<and> dict_get (rw_row_save_layer ?cf) row = Some name"
    by (simp add: two_rows_def)
  from reported_blocks_are_in_every_row [OF pre(1,2) _ pre(3,4) last, unfolded base, OF dump_ledger_kept]
  show ?thesis by blast
qed

end
