(* ===== verification/Blend_Connector.thy ===== *)
theory Blend_Connector
  imports Direct_Worker
begin

text \<open>
  \<open>UCMBlendConnector\<close>: a prompt is cut into chunks at a fixed token that ends a block. The
  blocks of a chunk are hashed independently of what precedes it, so that a chunk cached once
  can be reused at any position (its keys are rotated to the new position after the load). A
  prefix of the first chunk is looked up and loaded like an ordinary prefix.
\<close>

section \<open>Chunks\<close>

text \<open>
  \<open>ChunkMetaData\<close>. The lengths and positions are Python integers: \<open>update_meta_partial_pc\<close>
  subtracts without a check.
\<close>

record chunk_meta =
  ck_start_token_dix :: int
  ck_tokens_len :: int
  ck_start_blk_idx :: int
  ck_blks_len :: int
  ck_cached_start_position :: int
  ck_vllm_blk_ids :: "vllm_id list"
  ck_blks_hash :: "bytes list"
  ck_store_hits :: "bool list"

definition ck_end_blk_idx :: "chunk_meta \<Rightarrow> int" where
  "ck_end_blk_idx c = ck_start_blk_idx c + ck_blks_len c"

definition ck_position_offset :: "chunk_meta \<Rightarrow> int" where
  "ck_position_offset c = ck_start_token_dix c - ck_cached_start_position c"

text \<open>\<open>itertools.compress\<close> stops with the shorter of its arguments.\<close>

definition py_compress :: "'a list \<Rightarrow> bool list \<Rightarrow> 'a list" where
  "py_compress xs selectors = map fst (filter snd (zip xs selectors))"

definition hits_vllm_blk_ids :: "chunk_meta \<Rightarrow> vllm_id list" where
  "hits_vllm_blk_ids c = py_compress (ck_vllm_blk_ids c) (ck_store_hits c)"

definition hits_chunk_blks_hash :: "chunk_meta \<Rightarrow> bytes list" where
  "hits_chunk_blks_hash c = py_compress (ck_blks_hash c) (ck_store_hits c)"

definition merge_chunk :: "chunk_meta \<Rightarrow> chunk_meta \<Rightarrow> chunk_meta" where
  "merge_chunk other c =
     c\<lparr>ck_tokens_len := ck_tokens_len c + ck_tokens_len other,
       ck_blks_len := ck_blks_len c + ck_blks_len other,
       ck_blks_hash := ck_blks_hash c @ ck_blks_hash other\<rparr>"

definition update_meta_partial_pc :: "nat \<Rightarrow> nat \<Rightarrow> chunk_meta \<Rightarrow> chunk_meta" where
  "update_meta_partial_pc num_pc_part_blks block_size c =
     (if 0 < num_pc_part_blks
      then c\<lparr>ck_start_token_dix := ck_start_token_dix c + int (num_pc_part_blks * block_size),
             ck_tokens_len := ck_tokens_len c - int (num_pc_part_blks * block_size),
             ck_start_blk_idx := ck_start_blk_idx c + int num_pc_part_blks,
             ck_blks_len := ck_blks_len c - int num_pc_part_blks,
             ck_blks_hash := drop num_pc_part_blks (ck_blks_hash c),
             ck_store_hits := drop num_pc_part_blks (ck_store_hits c),
             ck_cached_start_position := ck_cached_start_position c + int (num_pc_part_blks * block_size)\<rparr>
      else c)"

section \<open>Splitting a prompt\<close>

datatype blend_stage = BUILD_CHUNK_CACHE | BUILD_PREFIX_CACHE | CACHE_BLEND

record blend_cfg =
  bl_hasher :: "hash_input \<Rightarrow> bytes"
  bl_seed :: bytes
  bl_block_size :: nat
  bl_chunk_end_token_id :: nat
  bl_min_blend_threshold :: nat

text \<open>
  The loop over the last tokens of the blocks, with the start of the current chunk; it yields
  the chunks and the concatenation of their hashes.
\<close>

lemma block_end_decreases:
  assumes "0 < bs" and "\<not> length toks \<le> bs + k * bs - Suc 0"
  shows "length toks - Suc k < length toks - k"
proof -
  have "k \<le> k * bs" using assms(1) by simp
  with assms show ?thesis by linarith
qed

function split_chunks ::
  "blend_cfg \<Rightarrow> nat list \<Rightarrow> nat \<Rightarrow> nat \<Rightarrow> nat \<Rightarrow> chunk_meta list \<times> bytes list" where
  "split_chunks cf toks end_blk_idx start_blk_idx start_token_dix =
     (let bs = bl_block_size cf;
          end_token_idx = (bs - 1) + end_blk_idx * bs
      in if bs = 0 \<or> length toks \<le> end_token_idx then ([], [])
         else if toks ! end_token_idx = bl_chunk_end_token_id cf
         then
           let chunk_blks_hash = generate_hash (bl_hasher cf) bs (py_slice toks start_token_dix (end_token_idx + 1)) (bl_seed cf);
               chunk_blks_len = int end_blk_idx - int start_blk_idx + 1;
               c = \<lparr>ck_start_token_dix = int start_token_dix, ck_tokens_len = chunk_blks_len * int bs,
                    ck_start_blk_idx = int start_blk_idx, ck_blks_len = chunk_blks_len,
                    ck_cached_start_position = 0, ck_vllm_blk_ids = [], ck_blks_hash = chunk_blks_hash,
                    ck_store_hits = []\<rparr>;
               (rest, hashes) = split_chunks cf toks (end_blk_idx + 1) (end_blk_idx + 1) (end_token_idx + 1)
           in (c # rest, chunk_blks_hash @ hashes)
         else split_chunks cf toks (end_blk_idx + 1) start_blk_idx start_token_dix)"
  by pat_completeness auto
termination
  by (relation "measure (\<lambda>(cf, toks, k, _, _). length toks - k)") (auto intro: block_end_decreases)

declare split_chunks.simps [simp del]

text \<open>
  \<open>_process_req\<close>. A prompt that is a single padded chunk builds the cache of that chunk; one
  without a chunk end builds a prefix cache.
\<close>

definition process_req ::
  "blend_cfg \<Rightarrow> nat list \<Rightarrow> (blend_stage \<times> bytes list \<times> chunk_meta list \<times> bytes list) result" where
  "process_req cf all_token_ids =
     (let prefix_block_hashes = generate_hash (bl_hasher cf) (bl_block_size cf) all_token_ids (bl_seed cf) in
      if all_token_ids = [] then Inl IndexError
      else if last all_token_ids = bl_chunk_end_token_id cf \<and> length all_token_ids mod bl_block_size cf = 0
      then Inr (BUILD_CHUNK_CACHE, prefix_block_hashes, [], [])
      else
        (case split_chunks cf all_token_ids 0 0 0 of
           (chunks_meta, req_chunks_hashes) \<Rightarrow>
             Inr (if chunks_meta \<noteq> [] then CACHE_BLEND else BUILD_PREFIX_CACHE,
                  prefix_block_hashes, chunks_meta, req_chunks_hashes)))"

section \<open>Matching\<close>

text \<open>
  \<open>_get_req_chunk_hit\<close>: the leading hits of the prefix, then the chunk blocks behind them;
  the first chunk gives up the part that is loaded as a prefix.
\<close>

definition assign_store_hits :: "bool list \<Rightarrow> chunk_meta \<Rightarrow> chunk_meta" where
  "assign_store_hits results c = c\<lparr>ck_store_hits := py_slice_int results (ck_start_blk_idx c) (ck_end_blk_idx c)\<rparr>"

definition trim_first_chunk :: "nat \<Rightarrow> nat \<Rightarrow> chunk_meta list \<Rightarrow> chunk_meta list result" where
  "trim_first_chunk pc_hit_blocks block_size chunks =
     (case chunks of
        [] \<Rightarrow> Inl IndexError
      | c # rest \<Rightarrow>
          let c' = update_meta_partial_pc pc_hit_blocks block_size c
          in Inr (if ck_tokens_len c' = 0 then rest else c' # rest))"

definition get_req_chunk_hit ::
  "blend_cfg \<Rightarrow> 'w rcm \<Rightarrow> ('w, 'b) kv_lookup_api_scheme \<Rightarrow> 'w \<Rightarrow> blend_stage \<Rightarrow> bytes list \<Rightarrow> chunk_meta list \<Rightarrow> bytes list
     \<Rightarrow> (nat \<times> nat \<times> chunk_meta list) result \<times> 'w" where
  "get_req_chunk_hit cf m store w req_stage prefix_block_hashes req_chunks_meta req_chunks_hashes =
     (case rcm_lookup_all m store w prefix_block_hashes of
        (Inl e, w1) \<Rightarrow> (Inl e, w1)
      | (Inr pc_lookup_results, w1) \<Rightarrow>
          let pc_hit_blocks = length (takeWhile id pc_lookup_results) in
          if req_stage \<noteq> CACHE_BLEND then (Inr (pc_hit_blocks, 0, req_chunks_meta), w1)
          else
            (case rcm_lookup_all m store w1 (drop pc_hit_blocks req_chunks_hashes) of
               (Inl e, w2) \<Rightarrow> (Inl e, w2)
             | (Inr chunk_results, w2) \<Rightarrow>
                 let chunk_hit_blocks = length (filter id chunk_results);
                     results = take pc_hit_blocks pc_lookup_results @ chunk_results
                 in (rbind (trim_first_chunk pc_hit_blocks (bl_block_size cf) (map (assign_store_hits results) req_chunks_meta))
                       (\<lambda>chunks. Inr (pc_hit_blocks, chunk_hit_blocks, chunks)), w2)))"

section \<open>The scheduler side\<close>

record blend_meta =
  bm_ucm_block_hashs :: "bytes list"
  bm_pc_hit_block_num :: nat
  bm_chunks_meta :: "chunk_meta list"
  bm_blend_stage :: blend_stage

record 'w blend_scheduler =
  bs_requests_meta :: "(req_id, request_meta) dict"
  bs_requests_blend_meta :: "(req_id, blend_meta) dict"
  bs_rcm :: "'w rcm"
  bs_world :: 'w
  bs_metrics :: "metric list"

text \<open>
  \<open>self.monitor\<close> is assigned neither here nor in the direct connector: \<open>has_monitor\<close> says
  whether something else has set it. Without it the statistics call raises.
\<close>

definition blend_get_num_new_matched_tokens ::
  "blend_cfg \<Rightarrow> bool \<Rightarrow> ('w, 'b) kv_lookup_api_scheme \<Rightarrow> 'w blend_scheduler \<Rightarrow> request \<Rightarrow> nat
     \<Rightarrow> (nat \<times> bool) result \<times> 'w blend_scheduler" where
  "blend_get_num_new_matched_tokens cf has_monitor store s request num_computed_tokens =
     (if num_computed_tokens \<noteq> 0 then (Inl AssertionError, s)
      else
        let all_token_ids = rq_all_token_ids request;
            max_blk_num = length all_token_ids div bl_block_size cf
        in if bl_block_size cf = 0 then (Inl ZeroDivisionError, s)
           else if max_blk_num = 0 then (Inr (0, False), s)
           else
             (case process_req cf all_token_ids of
                Inl e \<Rightarrow> (Inl e, s)
              | Inr (stage, prefix_block_hashes, chunks, chunks_hashes) \<Rightarrow>
                  (case get_req_chunk_hit cf (bs_rcm s) store (bs_world s) stage prefix_block_hashes chunks chunks_hashes of
                     (Inl e, w1) \<Rightarrow> (Inl e, s\<lparr>bs_world := w1\<rparr>)
                   | (Inr (pc_hit_blocks, chunk_hit_blocks, chunks1), w1) \<Rightarrow>
                       let s1 = s\<lparr>bs_world := w1\<rparr>;
                           few = chunk_hit_blocks < bl_min_blend_threshold cf;
                           req_stage = (if few then BUILD_PREFIX_CACHE else stage);
                           req_chunks = (if few then [] else chunks1);
                           req_block_hashes = (if req_stage = CACHE_BLEND then chunks_hashes else prefix_block_hashes)
                       in if \<not> has_monitor then (Inl AttributeError, s1)
                          else
                            let pc_hit_tokens = pc_hit_blocks * bl_block_size cf;
                                reported = (if pc_hit_tokens = rq_num_tokens request then pc_hit_tokens - 1 else pc_hit_tokens)
                            in (Inr (reported, False),
                                s1\<lparr>bs_requests_blend_meta :=
                                     dict_set (rq_id request)
                                       \<lparr>bm_ucm_block_hashs = req_block_hashes, bm_pc_hit_block_num = pc_hit_blocks,
                                        bm_chunks_meta = req_chunks, bm_blend_stage = req_stage\<rparr>
                                       (bs_requests_blend_meta s1),
                                   bs_metrics := bs_metrics s1 @ [MRatio ''interval_lookup_hit_rates'' chunk_hit_blocks max_blk_num]\<rparr>))))"

text \<open>
  \<open>_generate_blend_dispatch_meta\<close>. The chunk metadata are shared objects: the vLLM blocks
  assigned here stay in the request's metadata.
\<close>

record blend_dispatch_meta = dispatch_meta +
  bd_chunks_meta :: "chunk_meta list"

definition place_chunk :: "vllm_id list \<Rightarrow> chunk_meta \<Rightarrow> chunk_meta" where
  "place_chunk vllm_block_ids c =
     c\<lparr>ck_vllm_blk_ids := py_slice_int vllm_block_ids (ck_start_blk_idx c) (ck_end_blk_idx c)\<rparr>"

definition generate_blend_dispatch_meta ::
  "blend_meta \<Rightarrow> vllm_id list \<Rightarrow> blend_dispatch_meta \<times> blend_meta" where
  "generate_blend_dispatch_meta req_meta vllm_block_ids =
     (let pc = bm_pc_hit_block_num req_meta;
          hashes = bm_ucm_block_hashs req_meta;
          load_ucm = take pc hashes;
          load_vllm = take pc vllm_block_ids
      in if bm_blend_stage req_meta = CACHE_BLEND
         then
           let chunks = map (place_chunk vllm_block_ids) (bm_chunks_meta req_meta)
           in (\<lparr>dm_load = (load_ucm @ concat (map hits_chunk_blks_hash chunks),
                           load_vllm @ concat (map hits_vllm_blk_ids chunks)),
                dm_dump = ([], []), bd_chunks_meta = chunks\<rparr>,
               req_meta\<lparr>bm_chunks_meta := chunks\<rparr>)
         else
           (\<lparr>dm_load = (load_ucm, load_vllm),
             dm_dump = (drop pc hashes, py_slice vllm_block_ids pc (length hashes)),
             bd_chunks_meta = bm_chunks_meta req_meta\<rparr>, req_meta))"

text \<open>
  \<open>build_connector_meta\<close>: the requests of the step with their block ids of the first group.
  A new request's ids are there; a cached one's may be \<open>None\<close>, which subscripting does not take.
\<close>

record blend_step =
  bp_new :: "(req_id \<times> vllm_id list) list"
  bp_cached :: "(req_id \<times> vllm_id list option) list"
  bp_num_scheduled_tokens :: "(req_id, nat) dict"
  bp_finished :: "req_id list"

definition blend_dispatch ::
  "req_id \<Rightarrow> vllm_id list \<Rightarrow> 'w blend_scheduler \<times> (req_id, blend_dispatch_meta) dict
     \<Rightarrow> 'w blend_scheduler \<times> (req_id, blend_dispatch_meta) dict" where
  "blend_dispatch request_id vllm_block_ids sd =
     (case sd of (s, d) \<Rightarrow>
        (case dict_get (bs_requests_blend_meta s) request_id of
           None \<Rightarrow> (s, d)
         | Some req_meta \<Rightarrow>
             (case generate_blend_dispatch_meta req_meta vllm_block_ids of
                (dispatch, req_meta') \<Rightarrow>
                  (s\<lparr>bs_requests_blend_meta := dict_set request_id req_meta' (bs_requests_blend_meta s)\<rparr>,
                   dict_set request_id dispatch d))))"

fun blend_dispatch_new ::
  "(req_id, nat) dict \<Rightarrow> (req_id \<times> vllm_id list) list \<Rightarrow> 'w blend_scheduler \<times> (req_id, blend_dispatch_meta) dict
     \<Rightarrow> ('w blend_scheduler \<times> (req_id, blend_dispatch_meta) dict) result" where
  "blend_dispatch_new tokens [] sd = Inr sd"
| "blend_dispatch_new tokens ((request_id, vllm_block_ids) # rest) sd =
     (if dict_get (bs_requests_blend_meta (fst sd)) request_id \<noteq> None \<and> dict_get tokens request_id = None
      then Inl KeyError
      else blend_dispatch_new tokens rest (blend_dispatch request_id vllm_block_ids sd))"

fun blend_dispatch_cached ::
  "(req_id, nat) dict \<Rightarrow> (req_id \<times> vllm_id list option) list \<Rightarrow> 'w blend_scheduler \<times> (req_id, blend_dispatch_meta) dict
     \<Rightarrow> ('w blend_scheduler \<times> (req_id, blend_dispatch_meta) dict) result" where
  "blend_dispatch_cached tokens [] sd = Inr sd"
| "blend_dispatch_cached tokens ((request_id, new_block_ids) # rest) sd =
     (case dict_get tokens request_id of
        None \<Rightarrow> Inl KeyError
      | Some n \<Rightarrow>
          if n = 1 \<or> dict_get (bs_requests_blend_meta (fst sd)) request_id = None
          then blend_dispatch_cached tokens rest sd
          else
            (case new_block_ids of
               None \<Rightarrow> Inl TypeError
             | Some vllm_block_ids \<Rightarrow>
                 blend_dispatch_cached tokens rest (blend_dispatch request_id vllm_block_ids sd)))"

text \<open>The finished requests are popped from the direct connector's table, which stays empty here.\<close>

definition blend_build_connector_meta ::
  "blend_step \<Rightarrow> 'w blend_scheduler \<Rightarrow> ((req_id, blend_dispatch_meta) dict \<times> 'w blend_scheduler) result" where
  "blend_build_connector_meta step s =
     rbind (blend_dispatch_new (bp_num_scheduled_tokens step) (bp_new step) (s, [])) (\<lambda>sd.
       rbind (blend_dispatch_cached (bp_num_scheduled_tokens step) (bp_cached step) sd) (\<lambda>(s2, d).
         Inr (d, s2\<lparr>bs_requests_meta := fold dict_pop (bp_finished step) (bs_requests_meta s2)\<rparr>)))"

section \<open>The worker side\<close>

text \<open>
  The blocks to rotate and by how much; the rotation itself is a kernel, the parameter
  \<open>rope\<close> over the state of the device.
\<close>

record delta_rope =
  dr_vllm_ids :: "vllm_id list"
  dr_positions :: "int list"

definition blend_bind_connector_metadata ::
  "(req_id, blend_dispatch_meta) dict \<Rightarrow> delta_rope option \<Rightarrow> delta_rope option" where
  "blend_bind_connector_metadata request_meta current =
     (let chunks = concat (map (\<lambda>(r, request). bd_chunks_meta request) request_meta);
          all_hits_vllm_ids = concat (map hits_vllm_blk_ids chunks);
          positions = concat (map (\<lambda>c. replicate (length (hits_vllm_blk_ids c)) (ck_position_offset c)) chunks)
      in if all_hits_vllm_ids \<noteq> [] then Some \<lparr>dr_vllm_ids = all_hits_vllm_ids, dr_positions = positions\<rparr> else current)"

definition blend_clear_connector_metadata :: "delta_rope option \<Rightarrow> delta_rope option" where
  "blend_clear_connector_metadata current = None"

text \<open>Raising a string is a \<open>TypeError\<close> in Python.\<close>

definition blend_wait_for_layer_load ::
  "('k \<Rightarrow> vllm_id list \<Rightarrow> int list \<Rightarrow> 'cos \<Rightarrow> 'k) \<Rightarrow> 'cos option \<Rightarrow> (string, 'k) dict \<Rightarrow> delta_rope option \<Rightarrow> string
     \<Rightarrow> (string, 'k) dict result" where
  "blend_wait_for_layer_load rope cos_sin_cache kv_caches current layer_name =
     (case current of
        None \<Rightarrow> Inr kv_caches
      | Some d \<Rightarrow>
          rbind (py_key kv_caches layer_name) (\<lambda>k_cache.
            (case cos_sin_cache of
               None \<Rightarrow> Inl TypeError
             | Some cos \<Rightarrow> Inr (dict_set layer_name (rope k_cache (dr_vllm_ids d) (dr_positions d) cos) kv_caches))))"

section \<open>The chunks of a prompt\<close>

text \<open>Chunks that follow each other from block \<open>sb\<close> on, each with one hash per block.\<close>

fun tiles :: "nat \<Rightarrow> chunk_meta list \<Rightarrow> bool" where
  "tiles sb [] \<longleftrightarrow> True"
| "tiles sb (c # cs) \<longleftrightarrow>
     ck_start_blk_idx c = int sb \<and> ck_blks_len c = int (length (ck_blks_hash c)) \<and> tiles (sb + length (ck_blks_hash c)) cs"

lemma length_generate_hash: "length (generate_hash h bs toks seed) = length toks div bs"
  by (simp add: generate_hash_chain length_chain_ids)

lemma block_end_in_range:
  assumes "0 < bs" and "\<not> length toks \<le> bs - 1 + k * bs"
  shows "Suc k * bs \<le> length toks"
  using assms by (cases bs) auto

lemma split_chunks_stop:
  "length toks \<le> bl_block_size cf - 1 + k * bl_block_size cf \<Longrightarrow> split_chunks cf toks k sb st = ([], [])"
  by (subst split_chunks.simps) (simp add: Let_def)

lemma split_chunks_skip:
  "0 < bl_block_size cf \<Longrightarrow> \<not> length toks \<le> bl_block_size cf - 1 + k * bl_block_size cf \<Longrightarrow>
   toks ! (bl_block_size cf - 1 + k * bl_block_size cf) \<noteq> bl_chunk_end_token_id cf \<Longrightarrow>
   split_chunks cf toks k sb st = split_chunks cf toks (k + 1) sb st"
  by (subst split_chunks.simps) (simp only: Let_def if_False simp_thms neq0_conv [symmetric])

lemma split_chunks_cut:
  assumes "0 < bl_block_size cf" and "\<not> length toks \<le> bl_block_size cf - 1 + k * bl_block_size cf"
    and "toks ! (bl_block_size cf - 1 + k * bl_block_size cf) = bl_chunk_end_token_id cf"
    and "split_chunks cf toks (k + 1) (k + 1) (bl_block_size cf - 1 + k * bl_block_size cf + 1) = (rest, hashes)"
    and "h = generate_hash (bl_hasher cf) (bl_block_size cf)
        (py_slice toks st (bl_block_size cf - 1 + k * bl_block_size cf + 1)) (bl_seed cf)"
  shows "split_chunks cf toks k sb st =
    (\<lparr>ck_start_token_dix = int st, ck_tokens_len = (int k - int sb + 1) * int (bl_block_size cf),
      ck_start_blk_idx = int sb, ck_blks_len = int k - int sb + 1, ck_cached_start_position = 0,
      ck_vllm_blk_ids = [], ck_blks_hash = h, ck_store_hits = []\<rparr> # rest, h @ hashes)"
  using assms by (subst split_chunks.simps) (simp only: Let_def if_False if_True prod.case simp_thms neq0_conv [symmetric])

text \<open>
  What the loop makes of a prompt: the hashes it returns are those of the chunks, which tile
  the blocks up to the last chunk end; every chunk is hashed on its own.
\<close>

lemma split_chunks_tiles:
  shows "split_chunks cf toks k sb st = (cs, H) \<Longrightarrow> 0 < bl_block_size cf \<Longrightarrow> sb \<le> k \<Longrightarrow> st = sb * bl_block_size cf \<Longrightarrow>
     H = concat (map ck_blks_hash cs) \<and> tiles sb cs
     \<and> (\<forall>c \<in> set cs. ck_blks_hash c \<noteq> [] \<and> ck_tokens_len c = ck_blks_len c * int (bl_block_size cf)
          \<and> ck_start_token_dix c = ck_start_blk_idx c * int (bl_block_size cf)
          \<and> ck_cached_start_position c = 0 \<and> ck_vllm_blk_ids c = []
          \<and> ck_blks_hash c = generate_hash (bl_hasher cf) (bl_block_size cf)
              (take (length (ck_blks_hash c) * bl_block_size cf) (drop (nat (ck_start_blk_idx c) * bl_block_size cf) toks)) (bl_seed cf))"
proof (induction cf toks k sb st arbitrary: cs H rule: split_chunks.induct)
  case (1 cf toks k sb st)
  let ?bs = "bl_block_size cf" and ?e = "bl_block_size cf - 1 + k * bl_block_size cf"
  show ?case
  proof (cases "length toks \<le> ?e")
    case True
    then have "cs = [] \<and> H = []" using 1(3) by (simp add: split_chunks_stop del: One_nat_def)
    then show ?thesis by simp
  next
    case range: False
    then have g: "\<not> (?bs = 0 \<or> length toks \<le> ?e)" using range 1(4) by auto
    show ?thesis
    proof (cases "toks ! ?e = bl_chunk_end_token_id cf")
      case False
      then have "split_chunks cf toks (k + 1) sb st = (cs, H)" using 1(3) split_chunks_skip [OF 1(4) range False] by simp
      from 1(2) [OF refl refl g False this 1(4) le_SucI [OF 1(5), unfolded Suc_eq_plus1] 1(6)] show ?thesis .
    next
      case True
      obtain rest hashes where r: "split_chunks cf toks (k + 1) (k + 1) (?e + 1) = (rest, hashes)"
        by (cases "split_chunks cf toks (k + 1) (k + 1) (?e + 1)")
      obtain h where h: "h = generate_hash (bl_hasher cf) ?bs (py_slice toks st (?e + 1)) (bl_seed cf)" by simp
      let ?c = "\<lparr>ck_start_token_dix = int st, ck_tokens_len = (int k - int sb + 1) * int ?bs,
          ck_start_blk_idx = int sb, ck_blks_len = int k - int sb + 1, ck_cached_start_position = 0,
          ck_vllm_blk_ids = [], ck_blks_hash = h, ck_store_hits = []\<rparr>"
      have cs: "cs = ?c # rest" "H = h @ hashes" using 1(3) split_chunks_cut [OF 1(4) range True r h] by simp_all
      have e: "?e + 1 = Suc k * ?bs" using g by (cases ?bs) auto
      have len: "length h = Suc k - sb"
      proof -
        have "length (py_slice toks st (?e + 1)) = (Suc k - sb) * ?bs"
          using block_end_in_range [of ?bs toks k] g 1(4,5,6) by (simp add: e diff_mult_distrib min_def)
        then show ?thesis using g by (simp add: h length_generate_hash)
      qed
      have own: "h = generate_hash (bl_hasher cf) ?bs (take (length h * ?bs) (drop st toks)) (bl_seed cf)"
        unfolding len unfolding h py_slice_def e 1(6) diff_mult_distrib ..
      have "st = sb * ?bs" "sb \<le> k" by (rule 1(6), rule 1(5))
      have ih: "hashes = concat (map ck_blks_hash rest) \<and> tiles (Suc k) rest
        \<and> (\<forall>c \<in> set rest. ck_blks_hash c \<noteq> [] \<and> ck_tokens_len c = ck_blks_len c * int ?bs
            \<and> ck_start_token_dix c = ck_start_blk_idx c * int ?bs
            \<and> ck_cached_start_position c = 0 \<and> ck_vllm_blk_ids c = []
            \<and> ck_blks_hash c = generate_hash (bl_hasher cf) ?bs
                (take (length (ck_blks_hash c) * ?bs) (drop (nat (ck_start_blk_idx c) * ?bs) toks)) (bl_seed cf))"
        using 1(1) [OF refl refl g True refl refl refl r] 1(4) e by simp
      have "ck_blks_len ?c = int (length h)" using len \<open>sb \<le> k\<close> by simp
      moreover have "sb + length h = Suc k" using len \<open>sb \<le> k\<close> by simp
      moreover have "h \<noteq> []" using len \<open>sb \<le> k\<close> by (metis Suc_diff_le length_greater_0_conv zero_less_Suc)
      ultimately show ?thesis using ih own \<open>st = sb * ?bs\<close> by (simp add: cs)
    qed
  qed
qed

section \<open>What is loaded\<close>

lemma py_compress_map: "py_compress xs (map q xs) = filter q xs"
  by (induction xs) (simp_all add: py_compress_def)

lemma zip_py_compress:
  "length xs = length ys \<Longrightarrow> zip (filter q xs) (py_compress ys (map q xs)) = filter (\<lambda>(x, y). q x) (zip xs ys)
     \<and> length (py_compress ys (map q xs)) = length (filter q xs)"
  by (induction xs ys rule: list_induct2) (auto simp: py_compress_def)

lemma py_slice_int_nat: "py_slice_int xs (int a) (int b) = py_slice xs a (min b (length xs))"
  by (auto simp: py_slice_int_def py_bound_def py_slice_def min_def)

lemma tiles_slice:
  assumes "ck_start_blk_idx c = int sb" and "ck_blks_len c = int n" and "sb + n \<le> length xs"
  shows "py_slice_int xs (ck_start_blk_idx c) (ck_end_blk_idx c) = take n (drop sb xs)"
  using assms py_slice_int_nat [of xs sb "sb + n"] by (simp add: ck_end_blk_idx_def py_slice_def)

text \<open>Chunks that tile the blocks from \<open>sb\<close> on load the hits among those blocks, in their order.\<close>

lemma placed_chunks_load:
  assumes "tiles sb cs" and "\<forall>c \<in> set cs. ck_store_hits c = map q (ck_blks_hash c)"
    and "sb + length (concat (map ck_blks_hash cs)) \<le> length V"
  shows "zip (concat (map hits_chunk_blks_hash (map (place_chunk V) cs))) (concat (map hits_vllm_blk_ids (map (place_chunk V) cs)))
      = filter (\<lambda>(u, v). q u) (zip (concat (map ck_blks_hash cs)) (drop sb V))
    \<and> length (concat (map hits_chunk_blks_hash (map (place_chunk V) cs)))
      = length (concat (map hits_vllm_blk_ids (map (place_chunk V) cs)))"
  using assms
proof (induction cs arbitrary: sb)
  case Nil
  then show ?case by simp
next
  case (Cons c cs)
  let ?n = "length (ck_blks_hash c)"
  have c: "ck_start_blk_idx c = int sb" "ck_blks_len c = int ?n" "tiles (sb + ?n) cs"
    and n: "sb + ?n \<le> length V" "sb + ?n + length (concat (map ck_blks_hash cs)) \<le> length V"
    and hits: "ck_store_hits c = map q (ck_blks_hash c)" "\<forall>c \<in> set cs. ck_store_hits c = map q (ck_blks_hash c)"
    using Cons.prems by simp_all
  have h: "hits_chunk_blks_hash (place_chunk V c) = filter q (ck_blks_hash c)"
    by (simp add: hits_chunk_blks_hash_def place_chunk_def hits(1) py_compress_map)
  have v: "hits_vllm_blk_ids (place_chunk V c) = py_compress (take ?n (drop sb V)) (map q (ck_blks_hash c))"
    by (simp add: hits_vllm_blk_ids_def place_chunk_def hits(1) tiles_slice [OF c(1,2) n(1)])
  have "length (ck_blks_hash c) = length (take ?n (drop sb V))" using n(1) by simp
  note z = zip_py_compress [OF this, of q]
  have split: "zip (ck_blks_hash c @ concat (map ck_blks_hash cs)) (drop sb V)
      = zip (ck_blks_hash c) (take ?n (drop sb V)) @ zip (concat (map ck_blks_hash cs)) (drop (sb + ?n) V)"
    by (simp add: zip_append1 add.commute)
  show ?case using Cons.IH [OF c(3) hits(2) n(2)] z by (simp add: h v split)
qed

lemma assign_store_hits_simps [simp]:
  "ck_start_blk_idx (assign_store_hits r c) = ck_start_blk_idx c"
  "ck_blks_len (assign_store_hits r c) = ck_blks_len c"
  "ck_tokens_len (assign_store_hits r c) = ck_tokens_len c"
  "ck_blks_hash (assign_store_hits r c) = ck_blks_hash c"
  by (simp_all add: assign_store_hits_def)

lemma assigned_hits:
  assumes "tiles sb cs" and "sb + length (concat (map ck_blks_hash cs)) \<le> length H"
    and "drop sb H = concat (map ck_blks_hash cs)"
  shows "tiles sb (map (assign_store_hits (map q H)) cs)
    \<and> (\<forall>c \<in> set (map (assign_store_hits (map q H)) cs). ck_store_hits c = map q (ck_blks_hash c))
    \<and> map ck_blks_hash (map (assign_store_hits (map q H)) cs) = map ck_blks_hash cs"
  using assms
proof (induction cs arbitrary: sb)
  case Nil
  then show ?case by simp
next
  case (Cons c cs)
  let ?n = "length (ck_blks_hash c)"
  have c: "ck_start_blk_idx c = int sb" "ck_blks_len c = int ?n" "tiles (sb + ?n) cs"
    and n: "sb + ?n \<le> length (map q H)" "sb + ?n + length (concat (map ck_blks_hash cs)) \<le> length H"
    using Cons.prems by simp_all
  have d: "take ?n (drop sb H) = ck_blks_hash c" "drop (sb + ?n) H = concat (map ck_blks_hash cs)"
  proof -
    have "drop sb H = ck_blks_hash c @ concat (map ck_blks_hash cs)" using Cons.prems(3) by simp
    then show "take ?n (drop sb H) = ck_blks_hash c" "drop (sb + ?n) H = concat (map ck_blks_hash cs)"
      by (simp_all add: drop_drop [of ?n sb H, symmetric, unfolded add.commute [of ?n sb]] del: drop_drop)
  qed
  have "ck_store_hits (assign_store_hits (map q H) c) = map q (ck_blks_hash c)"
    by (simp add: assign_store_hits_def tiles_slice [OF c(1,2) n(1)] take_map drop_map d(1))
  with Cons.IH [OF c(3) n(2) d(2)] c(1,2) show ?case
    by (simp only: list.map tiles.simps assign_store_hits_simps list.set ball_simps simp_thms) blast
qed

text \<open>The first chunk gives up its leading blocks; the chunks then tile what is left.\<close>

lemma trimmed_chunks:
  assumes "tiles 0 (c # cs)" and "\<forall>c \<in> set (c # cs). ck_store_hits c = map q (ck_blks_hash c)"
    and "ck_tokens_len c = ck_blks_len c * int bs" and "0 < bs" and "pc \<le> length (ck_blks_hash c)"
    and "trim_first_chunk pc bs (c # cs) = Inr cs'"
  shows "tiles pc cs' \<and> (\<forall>c \<in> set cs'. ck_store_hits c = map q (ck_blks_hash c))
    \<and> concat (map ck_blks_hash cs') = drop pc (concat (map ck_blks_hash (c # cs)))"
proof -
  let ?c = "update_meta_partial_pc pc bs c"
  have c: "ck_start_blk_idx ?c = int pc" "ck_blks_len ?c = int (length (ck_blks_hash ?c))"
    "ck_blks_hash ?c = drop pc (ck_blks_hash c)" "ck_store_hits ?c = map q (ck_blks_hash ?c)"
    "ck_tokens_len ?c = int (length (ck_blks_hash ?c)) * int bs"
    using assms(1,2,3,5) by (auto simp: update_meta_partial_pc_def drop_map of_nat_diff algebra_simps)
  have rest: "tiles (pc + length (ck_blks_hash ?c)) cs" using assms(1,5) c(3) by simp
  have cs': "cs' = (if ck_tokens_len ?c = 0 then cs else ?c # cs)"
    using assms(6) by (simp add: trim_first_chunk_def Let_def)
  show ?thesis
  proof (cases "ck_tokens_len ?c = 0")
    case True
    then have "ck_blks_hash ?c = []" using c(5) assms(4) by simp
    then show ?thesis using True rest assms(2,5) c(3) cs' by simp
  next
    case False
    then show ?thesis using rest c assms(2,5) cs' by simp
  qed
qed

text \<open>The prefix hashes start with those of the first chunk.\<close>

lemma first_chunk_is_a_prefix:
  assumes "split_chunks cf toks 0 0 0 = (c # cs, H)" and "0 < bl_block_size cf" and "pc \<le> length (ck_blks_hash c)"
  shows "take pc (generate_hash (bl_hasher cf) (bl_block_size cf) toks (bl_seed cf)) = take pc H"
proof -
  note t = split_chunks_tiles [OF assms(1,2), simplified]
  have c: "ck_blks_hash c = generate_hash (bl_hasher cf) (bl_block_size cf)
      (take (length (ck_blks_hash c) * bl_block_size cf) toks) (bl_seed cf)"
    using t by (metis drop0 mult_zero_left nat_0)
  have "H = ck_blks_hash c @ concat (map ck_blks_hash cs)" using t by simp
  then have "take pc H = take pc (ck_blks_hash c)" using assms(3) by simp
  also have "\<dots> = take pc (generate_hash (bl_hasher cf) (bl_block_size cf) toks (bl_seed cf))"
    using c assms(3) by (metis chain_ids_take generate_hash_chain take_take min.absorb1)
  finally show ?thesis by simp
qed

lemma takeWhile_hits: "take (length (takeWhile id bs)) bs = replicate (length (takeWhile id bs)) True"
  by (induction bs) auto

text \<open>With stores that answer truthfully, the results of the two lookups are those of the chunk hashes.\<close>

lemma get_req_chunk_hit_spec:
  assumes honest: "\<forall>w. honest_lookup present w store" and t: "rc_tracker m = Some t"
    and split: "split_chunks cf toks 0 0 0 = (c # cs, H)" and bs: "0 < bl_block_size cf"
    and pre_ids: "pre_ids = generate_hash (bl_hasher cf) (bl_block_size cf) toks (bl_seed cf)"
    and run: "get_req_chunk_hit cf m store w CACHE_BLEND pre_ids (c # cs) H = (Inr (pc, n, cs'), w')"
    and pc: "pc \<le> length (ck_blks_hash c)"
  shows "tiles pc cs' \<and> (\<forall>c \<in> set cs'. ck_store_hits c = map (\<lambda>b. b \<notin> t \<and> present b) (ck_blks_hash c))
    \<and> concat (map ck_blks_hash cs') = drop pc H \<and> (\<forall>b \<in> set (take pc H). b \<notin> t \<and> present b) \<and> pc \<le> length H"
proof -
  let ?q = "\<lambda>b. b \<notin> t \<and> present b"
  have look: "\<exists>v. rcm_lookup_all m store u ids = (Inr (map ?q ids), v)" for u ids
    using rcm_lookup_all_honest [OF spec [OF honest] t, of u ids] by (metis prod.collapse)
  obtain w1 where w1: "rcm_lookup_all m store w pre_ids = (Inr (map ?q pre_ids), w1)" using look by blast
  have pcv: "pc = length (takeWhile id (map ?q pre_ids))"
    and trim: "trim_first_chunk pc (bl_block_size cf)
        (map (assign_store_hits (take pc (map ?q pre_ids) @ map ?q (drop pc H))) (c # cs)) = Inr cs'"
    using run look [of w1 "drop (length (takeWhile id (map ?q pre_ids))) H"]
    by (auto simp: get_req_chunk_hit_def w1 Let_def rbind_Inr_iff)
  have pre: "take pc pre_ids = take pc H" unfolding pre_ids by (rule first_chunk_is_a_prefix [OF split bs pc])
  have "take pc (map ?q pre_ids) = map ?q (take pc H)" by (simp only: take_map pre)
  then have results: "take pc (map ?q pre_ids) @ map ?q (drop pc H) = map ?q H"
    by (simp only: map_append [symmetric] append_take_drop_id)
  note s = split_chunks_tiles [OF split bs, simplified]
  have H: "H = concat (map ck_blks_hash (c # cs))" and tl: "tiles 0 (c # cs)" using s by simp_all
  have "drop 0 H = concat (map ck_blks_hash (c # cs))" "0 + length (concat (map ck_blks_hash (c # cs))) \<le> length H"
    using H by simp_all
  note a = assigned_hits [OF tl this(2,1), of ?q]
  have trim': "trim_first_chunk pc (bl_block_size cf)
      (assign_store_hits (map ?q H) c # map (assign_store_hits (map ?q H)) cs) = Inr cs'"
    using trim unfolding results by simp
  have ts: "tiles pc cs' \<and> (\<forall>c \<in> set cs'. ck_store_hits c = map ?q (ck_blks_hash c))
      \<and> concat (map ck_blks_hash cs') = drop pc (concat (map ck_blks_hash
          (assign_store_hits (map ?q H) c # map (assign_store_hits (map ?q H)) cs)))"
  proof (rule trimmed_chunks [OF _ _ _ bs _ trim'])
    show "ck_tokens_len (assign_store_hits (map ?q H) c) = ck_blks_len (assign_store_hits (map ?q H) c) * int (bl_block_size cf)"
      using s by (simp add: assign_store_hits_def)
    show "pc \<le> length (ck_blks_hash (assign_store_hits (map ?q H) c))" using pc by (simp add: assign_store_hits_def)
  qed (use a in simp_all)
  have "list_all id (take pc (map ?q pre_ids))" unfolding pcv takeWhile_hits by (simp add: list_all_iff)
  then have "\<forall>b \<in> set (take pc H). ?q b"
    unfolding \<open>take pc (map ?q pre_ids) = map ?q (take pc H)\<close> by (auto simp: list_all_iff)
  moreover have "pc \<le> length H" using pc H by simp
  moreover have "concat (map ck_blks_hash cs') = drop pc H"
    using ts a H by (simp only: list.map(2) [symmetric])
  ultimately show ?thesis using ts by blast
qed

text \<open>A prompt with a chunk has a block, and a match of a block or more returns only with a monitor.\<close>

lemma chunks_have_blocks:
  assumes "split_chunks cf toks 0 0 0 = (c # cs, H)" and "0 < bl_block_size cf"
  shows "length toks div bl_block_size cf \<noteq> 0"
proof
  assume "length toks div bl_block_size cf = 0"
  then have "length toks \<le> bl_block_size cf - 1 + 0 * bl_block_size cf" using assms(2) by (simp add: div_eq_0_iff)
  from split_chunks_stop [OF this] assms(1) show False by simp
qed

lemma blend_match_needs_monitor:
  assumes run: "blend_get_num_new_matched_tokens cf has_monitor store s rq 0 = (Inr r, s')"
    and split: "split_chunks cf (rq_all_token_ids rq) 0 0 0 = (c # cs, H)"
  shows "has_monitor"
proof (rule ccontr)
  assume no: "\<not> has_monitor"
  have "0 < bl_block_size cf" using run by (auto simp: blend_get_num_new_matched_tokens_def Let_def split: if_splits)
  with chunks_have_blocks [OF split] run no show False
    by (auto simp: blend_get_num_new_matched_tokens_def Let_def split: if_splits sum.splits prod.splits)
qed

text \<open>What a successful match leaves for the dispatch of a blended request.\<close>

lemma blend_match_records:
  assumes run: "blend_get_num_new_matched_tokens cf True store s rq 0 = (Inr r, s')"
    and split: "split_chunks cf (rq_all_token_ids rq) 0 0 0 = (c # cs, H)"
    and bm: "dict_get (bs_requests_blend_meta s') (rq_id rq) = Some bm" "bm_blend_stage bm = CACHE_BLEND"
  shows "0 < bl_block_size cf \<and> bm_ucm_block_hashs bm = H \<and>
    (\<exists>n w'. get_req_chunk_hit cf (bs_rcm s) store (bs_world s) CACHE_BLEND
        (generate_hash (bl_hasher cf) (bl_block_size cf) (rq_all_token_ids rq) (bl_seed cf)) (c # cs) H
      = (Inr (bm_pc_hit_block_num bm, n, bm_chunks_meta bm), w'))"
proof -
  let ?toks = "rq_all_token_ids rq"
  have bs: "0 < bl_block_size cf" using run by (auto simp: blend_get_num_new_matched_tokens_def Let_def split: if_splits)
  have len: "length ?toks div bl_block_size cf \<noteq> 0" by (rule chunks_have_blocks [OF split bs])
  obtain stage hashes chunks chs where pr: "process_req cf ?toks = Inr (stage, hashes, chunks, chs)"
    using run bs len by (auto simp: blend_get_num_new_matched_tokens_def Let_def split: if_splits sum.splits)
  obtain pc n chunks1 w1 where hit: "get_req_chunk_hit cf (bs_rcm s) store (bs_world s) stage hashes chunks chs = (Inr (pc, n, chunks1), w1)"
    using run bs len pr by (auto simp: blend_get_num_new_matched_tokens_def Let_def split: if_splits sum.splits prod.splits)
  have out: "dict_get (bs_requests_blend_meta s') (rq_id rq) = Some
      \<lparr>bm_ucm_block_hashs = (if (if n < bl_min_blend_threshold cf then BUILD_PREFIX_CACHE else stage) = CACHE_BLEND then chs else hashes),
       bm_pc_hit_block_num = pc, bm_chunks_meta = (if n < bl_min_blend_threshold cf then [] else chunks1),
       bm_blend_stage = (if n < bl_min_blend_threshold cf then BUILD_PREFIX_CACHE else stage)\<rparr>"
    using run bs len pr hit by (auto simp: blend_get_num_new_matched_tokens_def Let_def)
  have enough: "\<not> n < bl_min_blend_threshold cf" and stage: "stage = CACHE_BLEND"
    using out bm by (auto split: if_splits)
  have "hashes = generate_hash (bl_hasher cf) (bl_block_size cf) ?toks (bl_seed cf) \<and> chunks = c # cs \<and> chs = H"
    using pr split stage by (auto simp: process_req_def Let_def split: if_splits)
  then show ?thesis using out bm enough stage hit bs by auto
qed

text \<open>
  C14: A prompt that is blended, and whose stored prefix does not reach beyond its first chunk, loads
  exactly the blocks whose keys are stored, each into the block of its position: the keys of the prefix
  and of the chunks paired with the request's blocks, less the pairs whose key the store or the
  tracker lacks; it dumps nothing. A match returns at all only where something outside the
  connector has set its monitor. Both conditions are needed: \<open>blend_may_load_unstored_keys\<close> and
  \<open>blend_match_without_monitor\<close> below.
\<close>

theorem blend_loads_stored_blocks:
  assumes match: "blend_get_num_new_matched_tokens cf has_monitor store s rq 0 = (Inr r, s')"
    and honest: "\<forall>w. honest_lookup present w store" "rc_tracker (bs_rcm s) = Some t"
    and split: "split_chunks cf (rq_all_token_ids rq) 0 0 0 = (c # cs, H)"
    and bm: "dict_get (bs_requests_blend_meta s') (rq_id rq) = Some bm" "bm_blend_stage bm = CACHE_BLEND"
    and pc: "bm_pc_hit_block_num bm \<le> length (ck_blks_hash c)"
    and blocks: "length H \<le> length vllm_block_ids"
    and dispatch: "generate_blend_dispatch_meta bm vllm_block_ids = (d, bm')"
  shows "has_monitor
    \<and> zip (fst (dm_load d)) (snd (dm_load d)) = filter (\<lambda>(u, v). u \<notin> t \<and> present u) (zip H vllm_block_ids)
    \<and> length (fst (dm_load d)) = length (snd (dm_load d)) \<and> dm_dump d = ([], [])"
proof -
  have mon: "has_monitor" by (rule blend_match_needs_monitor [OF match split])
  then have match: "blend_get_num_new_matched_tokens cf True store s rq 0 = (Inr r, s')" using match by simp
  let ?q = "\<lambda>u. u \<notin> t \<and> present u" and ?pc = "bm_pc_hit_block_num bm" and ?cs = "bm_chunks_meta bm"
  obtain n w' where bs: "0 < bl_block_size cf" and H: "bm_ucm_block_hashs bm = H"
    and hit: "get_req_chunk_hit cf (bs_rcm s) store (bs_world s) CACHE_BLEND
        (generate_hash (bl_hasher cf) (bl_block_size cf) (rq_all_token_ids rq) (bl_seed cf)) (c # cs) H = (Inr (?pc, n, ?cs), w')"
    using blend_match_records [OF match split bm] by blast
  from get_req_chunk_hit_spec [OF honest split bs refl hit pc]
  have ts: "tiles ?pc ?cs" "\<forall>c \<in> set ?cs. ck_store_hits c = map ?q (ck_blks_hash c)"
    and rest: "concat (map ck_blks_hash ?cs) = drop ?pc H" and pre: "\<forall>b \<in> set (take ?pc H). ?q b" and le: "?pc \<le> length H"
    by blast+
  have "?pc + length (concat (map ck_blks_hash ?cs)) \<le> length vllm_block_ids" using rest le blocks by simp
  note p = placed_chunks_load [OF ts this, unfolded rest]
  have load: "fst (dm_load d) = take ?pc H @ concat (map hits_chunk_blks_hash (map (place_chunk vllm_block_ids) ?cs))"
    "snd (dm_load d) = take ?pc vllm_block_ids @ concat (map hits_vllm_blk_ids (map (place_chunk vllm_block_ids) ?cs))"
    "dm_dump d = ([], [])"
    using dispatch bm(2) H by (auto simp: generate_blend_dispatch_meta_def Let_def)
  have len: "length (take ?pc H) = length (take ?pc vllm_block_ids)" using le blocks by simp
  have "filter (\<lambda>(u, v). ?q u) (zip (take ?pc H) (take ?pc vllm_block_ids)) = zip (take ?pc H) (take ?pc vllm_block_ids)"
    using pre by (auto simp: filter_id_conv dest: set_zip_leftD)
  moreover have "zip H vllm_block_ids = zip (take ?pc H) (take ?pc vllm_block_ids) @ zip (drop ?pc H) (drop ?pc vllm_block_ids)"
    by (metis append_take_drop_id len zip_append)
  ultimately show ?thesis using p len mon by (simp add: load)
qed

definition demo_blend_cfg :: blend_cfg where
  "demo_blend_cfg = \<lparr>bl_hasher = demo_hash, bl_seed = [], bl_block_size = 1, bl_chunk_end_token_id = 57, bl_min_blend_threshold = 1\<rparr>"

definition demo_blend_scheduler :: "unit blend_scheduler" where
  "demo_blend_scheduler = \<lparr>bs_requests_meta = [], bs_requests_blend_meta = [], bs_rcm = new_rcm True True, bs_world = (), bs_metrics = []\<rparr>"

definition demo_blend_request :: request where
  "demo_blend_request = \<lparr>rq_id = ''r'', rq_all_token_ids = [49, 57, 50, 57, 53], rq_num_tokens = 5, rq_num_prompt_tokens = 5\<rparr>"

definition chunk_store :: "bytes list \<Rightarrow> unit kv_lookup_api" where
  "chunk_store stored =
     \<lparr>st_lookup = (\<lambda>w ids. (Inr (map (\<lambda>b. b \<in> set stored) ids), w)),
      st_lookup_on_prefix = (\<lambda>w ids. (Inr (int (length (takeWhile (\<lambda>b. b \<in> set stored) ids)) - 1), w)),
      st_prefetch = (\<lambda>w ids. (Inr (), w))\<rparr>"

definition demo_chunk_hits :: "bytes list" where
  "demo_chunk_hits = [''1'', ''29'']"

definition demo_blend_matched :: "(nat \<times> bool) result \<times> unit blend_scheduler" where
  "demo_blend_matched =
     blend_get_num_new_matched_tokens demo_blend_cfg True (chunk_store demo_chunk_hits) demo_blend_scheduler demo_blend_request 0"

definition demo_blend_meta :: blend_meta where
  "demo_blend_meta = the (dict_get (bs_requests_blend_meta (snd demo_blend_matched)) ''r'')"

lemma demo_blend_runs:
  "fst demo_blend_matched = Inr (1, False)"
  "dict_get (bs_requests_blend_meta (snd demo_blend_matched)) ''r'' \<noteq> None"
  "bm_blend_stage demo_blend_meta = CACHE_BLEND" "bm_pc_hit_block_num demo_blend_meta = 1"
  "map ck_blks_hash (fst (split_chunks demo_blend_cfg [49, 57, 50, 57, 53] 0 0 0)) = [[''1'', ''19''], [''2'', ''29'']]"
  "snd (split_chunks demo_blend_cfg [49, 57, 50, 57, 53] 0 0 0) = [''1'', ''19'', ''2'', ''29'']"
  by code_simp+

theorem blend_loads_stored_blocks_witness:
  "zip (fst (dm_load (fst (generate_blend_dispatch_meta demo_blend_meta [20, 21, 22, 23, 24]))))
     (snd (dm_load (fst (generate_blend_dispatch_meta demo_blend_meta [20, 21, 22, 23, 24])))) = [(''1'', 20), (''29'', 23)]"
proof -
  let ?H = "[''1'', ''19'', ''2'', ''29''] :: bytes list"
  let ?sp = "split_chunks demo_blend_cfg (rq_all_token_ids demo_blend_request) 0 0 0"
  have toks: "rq_all_token_ids demo_blend_request = [49, 57, 50, 57, 53]" "rq_id demo_blend_request = ''r''"
    by (simp_all add: demo_blend_request_def)
  obtain c cs where sp: "?sp = (c # cs, ?H)" and c: "ck_blks_hash c = [''1'', ''19'']"
    using demo_blend_runs(5,6) by (cases ?sp) (auto simp: toks)
  have run: "blend_get_num_new_matched_tokens demo_blend_cfg True (chunk_store demo_chunk_hits) demo_blend_scheduler
      demo_blend_request 0 = (Inr (1, False), snd demo_blend_matched)"
    using demo_blend_runs(1) by (metis demo_blend_matched_def prod.collapse)
  have bm: "dict_get (bs_requests_blend_meta (snd demo_blend_matched)) (rq_id demo_blend_request) = Some demo_blend_meta"
    using demo_blend_runs(2) by (auto simp: toks demo_blend_meta_def)
  have honest: "\<forall>w. honest_lookup (\<lambda>b. b \<in> set demo_chunk_hits) w (chunk_store demo_chunk_hits)"
    by (simp add: honest_lookup_def chunk_store_def)
  have t: "rc_tracker (bs_rcm demo_blend_scheduler) = Some {}" by (simp add: demo_blend_scheduler_def new_rcm_def)
  let ?V = "[20, 21, 22, 23, 24] :: vllm_id list"
  obtain d bm' where d: "generate_blend_dispatch_meta demo_blend_meta ?V = (d, bm')" by fastforce
  have "zip (fst (dm_load d)) (snd (dm_load d)) = filter (\<lambda>(u, v). u \<notin> {} \<and> u \<in> set demo_chunk_hits) (zip ?H ?V)"
    using blend_loads_stored_blocks [OF run honest t sp bm demo_blend_runs(3) _ _ d] c demo_blend_runs(4) by simp
  then show ?thesis by (simp add: d demo_chunk_hits_def)
qed

section \<open>Where the result is not that\<close>

text \<open>
  The bound on the prefix is needed. Here a prompt starts with a chunk of one block, and the
  prefix cache holds its first two blocks. The second chunk's first key was never looked up, yet
  it inherits the hit of the prefix and is loaded although it is not stored.
\<close>

definition long_prefix_request :: request where
  "long_prefix_request = \<lparr>rq_id = ''r'', rq_all_token_ids = [57, 49, 50, 57, 53], rq_num_tokens = 5, rq_num_prompt_tokens = 5\<rparr>"

definition long_prefix_meta :: blend_meta where
  "long_prefix_meta = the (dict_get (bs_requests_blend_meta (snd (blend_get_num_new_matched_tokens demo_blend_cfg True
      (chunk_store [''9'', ''91'', ''12'', ''129'']) demo_blend_scheduler long_prefix_request 0))) ''r'')"

lemma blend_may_load_unstored_keys:
  "bm_blend_stage long_prefix_meta = CACHE_BLEND \<and> bm_pc_hit_block_num long_prefix_meta = 2"
  "fst (dm_load (fst (generate_blend_dispatch_meta long_prefix_meta [20, 21, 22, 23, 24])))
     = [''9'', ''1'', ''1'', ''12'', ''129'']"
  "map ck_blks_len (bm_chunks_meta long_prefix_meta) = [-1, 3]"
  by code_simp+

text \<open>Nothing in the connector or its base class sets the monitor: every match of a block or more ends in the exception.\<close>

lemma blend_match_without_monitor:
  assumes "0 < bl_block_size cf" and "bl_block_size cf \<le> length (rq_all_token_ids rq)"
    and "blend_get_num_new_matched_tokens cf False store s rq 0 = (r, s')"
  shows "\<exists>e. r = Inl e"
  using assms
  by (auto simp: blend_get_num_new_matched_tokens_def Let_def div_eq_0_iff split: if_splits sum.splits prod.splits)

end
