(* ===== verification/Py_Text.thy ===== *)
theory Py_Text
  imports Ucm_Prelude
begin

text \<open>
  The string operations of Python the affinity code uses, on ASCII text: splitting, stripping,
  joining, \<open>int(s)\<close> and \<open>str(i)\<close>.
\<close>

section \<open>Splitting and stripping\<close>

text \<open>\<open>s.split(c)\<close> for a single character: the parts between the separators, empty ones included.\<close>

fun split_on :: "char \<Rightarrow> string \<Rightarrow> string list" where
  "split_on c [] = [[]]"
| "split_on c (x # xs) = (if x = c then [] # split_on c xs else (x # hd (split_on c xs)) # tl (split_on c xs))"

text \<open>\<open>s.split(c, 1)\<close> where the separator occurs.\<close>

definition split_once :: "char \<Rightarrow> string \<Rightarrow> string \<times> string" where
  "split_once c s = (takeWhile (\<lambda>x. x \<noteq> c) s, drop 1 (dropWhile (\<lambda>x. x \<noteq> c) s))"

fun join_with :: "char \<Rightarrow> string list \<Rightarrow> string" where
  "join_with c [] = []"
| "join_with c [s] = s"
| "join_with c (s # t # rest) = s @ c # join_with c (t # rest)"

text \<open>\<open>str.isspace\<close> on ASCII.\<close>

definition is_space :: "char \<Rightarrow> bool" where
  "is_space c = (let n = (of_char c :: nat) in (9 \<le> n \<and> n \<le> 13) \<or> (28 \<le> n \<and> n \<le> 32))"

definition strip :: "string \<Rightarrow> string" where
  "strip s = rev (dropWhile is_space (rev (dropWhile is_space s)))"

definition despace :: "string \<Rightarrow> string" where
  "despace s = filter (\<lambda>c. \<not> is_space c) s"

text \<open>\<open>s.split()\<close>, and the words of \<open>s.split(None, n)\<close> with the rest of the text as the last.\<close>

function split_words :: "string \<Rightarrow> string list" where
  "split_words s =
     (let t = dropWhile is_space s in
      if t = [] then [] else takeWhile (\<lambda>c. \<not> is_space c) t # split_words (dropWhile (\<lambda>c. \<not> is_space c) t))"
  by pat_completeness auto
termination
proof (relation "measure length")
  fix s t assume t: "t = dropWhile is_space s" "t \<noteq> []"
  then have "\<not> is_space (hd t)" using hd_dropWhile by blast
  then have "length (dropWhile (\<lambda>c. \<not> is_space c) t) < length t"
    using t(2) by (cases t) (simp_all add: le_imp_less_Suc length_dropWhile_le)
  also have "\<dots> \<le> length s" using t(1) by (simp add: length_dropWhile_le)
  finally show "(dropWhile (\<lambda>c. \<not> is_space c) t, s) \<in> measure length" by simp
qed simp

declare split_words.simps [simp del]

fun split_words_max :: "nat \<Rightarrow> string \<Rightarrow> string list" where
  "split_words_max 0 s = (let t = dropWhile is_space s in if t = [] then [] else [t])"
| "split_words_max (Suc n) s =
     (let t = dropWhile is_space s in
      if t = [] then []
      else takeWhile (\<lambda>c. \<not> is_space c) t # split_words_max n (dropWhile (\<lambda>c. \<not> is_space c) t))"

text \<open>\<open>s.splitlines()\<close>: a line ends at any of the line boundaries, a carriage return with the line feed behind it.\<close>

definition is_line_end :: "char \<Rightarrow> bool" where
  "is_line_end c = (let n = (of_char c :: nat) in (10 \<le> n \<and> n \<le> 13) \<or> (28 \<le> n \<and> n \<le> 30))"

fun split_lines :: "string \<Rightarrow> string \<Rightarrow> string list" where
  "split_lines line [] = (if line = [] then [] else [rev line])"
| "split_lines line (c # cs) =
     (if \<not> is_line_end c then split_lines (c # line) cs
      else rev line # split_lines [] (if c = CHR 0x0D \<and> cs \<noteq> [] \<and> hd cs = CHR 0x0A then tl cs else cs))"

definition is_digit :: "char \<Rightarrow> bool" where
  "is_digit c = (let n = (of_char c :: nat) in 48 \<le> n \<and> n < 58)"

definition all_digits :: "string \<Rightarrow> bool" where
  "all_digits s = (s \<noteq> [] \<and> list_all is_digit s)"

definition to_upper :: "string \<Rightarrow> string" where
  "to_upper s = map (\<lambda>c. let n = (of_char c :: nat) in if 97 \<le> n \<and> n \<le> 122 then char_of (n - 32) else c) s"

definition to_lower :: "string \<Rightarrow> string" where
  "to_lower s = map (\<lambda>c. let n = (of_char c :: nat) in if 65 \<le> n \<and> n \<le> 90 then char_of (n + 32) else c) s"

section \<open>Numbers\<close>

text \<open>
  \<open>int(s)\<close>: surrounding white space, one sign, digits with single underscores between them.
\<close>

fun int_digits :: "string \<Rightarrow> bool" where
  "int_digits [] = False"
| "int_digits [c] = is_digit c"
| "int_digits (c # d # cs) = (is_digit c \<and> (if d = CHR ''_'' then int_digits cs else int_digits (d # cs)))"

definition read_digits :: "string \<Rightarrow> int result" where
  "read_digits s = (if int_digits s then Inr (int (read_nat (filter is_digit s))) else Inl ValueError)"

definition py_int :: "string \<Rightarrow> int result" where
  "py_int s =
     (case strip s of
        [] \<Rightarrow> Inl ValueError
      | c # cs \<Rightarrow>
          if c = CHR ''-'' then rbind (read_digits cs) (\<lambda>i. Inr (- i))
          else if c = CHR ''+'' then read_digits cs
          else read_digits (c # cs))"

definition show_int :: "int \<Rightarrow> string" where
  "show_int i = (if i < 0 then CHR ''-'' # show_nat (nat (- i)) else show_nat (nat i))"

text \<open>Lower-case hexadecimal, as \<open>f"{n:04x}"\<close> prints it.\<close>

fun show_hex :: "nat \<Rightarrow> string" where
  "show_hex n =
     (let digit = (\<lambda>d. char_of (if d < 10 then 48 + d else 87 + d))
      in if n < 16 then [digit n] else show_hex (n div 16) @ [digit (n mod 16)])"

declare show_hex.simps [simp del]

definition show_hex_padded :: "nat \<Rightarrow> nat \<Rightarrow> string" where
  "show_hex_padded width n = replicate (width - length (show_hex n)) (CHR ''0'') @ show_hex n"

section \<open>Reading back what was written\<close>

lemma split_on_ne [simp]: "split_on c s \<noteq> []"
  by (cases s) auto

lemma split_on_free: "c \<notin> set s \<Longrightarrow> split_on c s = [s]"
  by (induction s) auto

lemma split_on_append: "c \<notin> set s \<Longrightarrow> split_on c (s @ c # t) = s # split_on c t"
  by (induction s) auto

lemma split_on_join:
  "parts \<noteq> [] \<Longrightarrow> \<forall>s \<in> set parts. c \<notin> set s \<Longrightarrow> split_on c (join_with c parts) = parts"
  by (induction c parts rule: join_with.induct) (simp_all add: split_on_free split_on_append)

lemma join_split: "join_with c (split_on c s) = s"
proof (induction s)
  case Nil
  then show ?case by simp
next
  case (Cons x xs)
  obtain p ps where p: "split_on c xs = p # ps" by (cases "split_on c xs") auto
  show ?case using Cons by (cases ps) (simp_all add: p)
qed

lemma split_on_snoc: "c \<notin> set t \<Longrightarrow> split_on c (s @ c # t) = split_on c s @ [t]"
proof (induction s)
  case Nil
  then show ?case by (simp add: split_on_free)
next
  case (Cons x xs)
  then show ?case by (cases "split_on c xs") auto
qed

lemma split_once_append: "c \<notin> set s \<Longrightarrow> split_once c (s @ c # t) = (s, t)"
  by (induction s) (auto simp: split_once_def)

lemma show_nat_ne [simp]: "show_nat n \<noteq> []"
  by (subst show_nat.simps) simp

lemma show_nat_is_digits: "list_all is_digit (show_nat n)"
  using show_nat_digits [of _ n] by (auto simp: list_all_iff is_digit_def Let_def)

lemma dropWhile_free: "\<forall>c \<in> set s. \<not> P c \<Longrightarrow> dropWhile P s = s"
  by (cases s) simp_all

lemma strip_free: "\<forall>c \<in> set s. \<not> is_space c \<Longrightarrow> strip s = s"
  by (simp add: strip_def dropWhile_free)

lemma digit_not_space: "is_digit c \<Longrightarrow> \<not> is_space c"
  by (auto simp: is_digit_def is_space_def Let_def)

lemma not_digits: "\<not> is_digit (CHR ''_'')" "\<not> is_digit (CHR ''-'')" "\<not> is_digit (CHR ''+'')" "\<not> is_digit (CHR '','')"
  by (simp_all add: is_digit_def)

lemma int_digits_all: "s \<noteq> [] \<Longrightarrow> list_all is_digit s \<Longrightarrow> int_digits s"
proof (induction s rule: int_digits.induct)
  case (3 c d cs)
  then have "d \<noteq> CHR ''_''" using not_digits(1) by auto
  with 3 show ?case by simp
qed simp_all

lemma py_int_show_nat [simp]: "py_int (show_nat n) = Inr (int n)"
proof -
  have d: "list_all is_digit (show_nat n)" by (rule show_nat_is_digits)
  then have s: "strip (show_nat n) = show_nat n"
    by (intro strip_free) (auto simp: list_all_iff digit_not_space)
  obtain c cs where c: "show_nat n = c # cs" by (cases "show_nat n") auto
  have "is_digit c" using d c by simp
  then have "c \<noteq> CHR ''-''" "c \<noteq> CHR ''+''" using not_digits by auto
  then have "py_int (show_nat n) = read_digits (show_nat n)" unfolding py_int_def s by (simp add: c)
  also have "\<dots> = Inr (int n)"
  proof -
    have "filter is_digit (show_nat n) = show_nat n" using d by (simp add: filter_id_conv list_all_iff)
    moreover have "int_digits (show_nat n)" using d by (intro int_digits_all) simp_all
    ultimately show ?thesis by (simp add: read_digits_def)
  qed
  finally show ?thesis .
qed

lemma show_nat_free: "is_digit c \<or> c \<notin> set (show_nat n)"
  using show_nat_is_digits [of n] by (auto simp: list_all_iff)

lemma show_int_nonneg: "0 \<le> i \<Longrightarrow> show_int i = show_nat (nat i)"
  by (simp add: show_int_def)

end
