(* ===== verification/Cpu_Affinity.thy ===== *)
theory Cpu_Affinity
  imports Py_Text "HOL-Library.Multiset"
begin

text \<open>
  The CPU affinity of \<open>device.py\<close>: which cores the worker process and the store threads of
  a rank run on. The operating system and the accelerator runtime are the record \<open>host\<close>;
  what is modelled is how their text is read, how devices and cores are shared out, and the
  lists of CPUs that pass between the two sides as text.
\<close>

section \<open>The host\<close>

text \<open>
  \<open>hs_file\<close> is \<open>None\<close> where the path does not exist. \<open>hs_run\<close> is
  \<open>_execute_command\<close>: the output, or the exception of a command that failed; a command run
  twice answers the same.
\<close>

record host =
  ho_affinity :: "int set result"
  ho_env :: "string \<Rightarrow> string option"
  ho_file :: "string \<Rightarrow> string result option"
  ho_run :: "string list \<Rightarrow> string result"
  ho_device_count :: "int result"
  ho_pci :: "int \<Rightarrow> (nat \<times> nat \<times> nat) result"

text \<open>Sequencing with a handler for every exception.\<close>

definition rcatch :: "'a result \<Rightarrow> (exn \<Rightarrow> 'a result) \<Rightarrow> 'a result" where
  "rcatch r handler = (case r of Inl e \<Rightarrow> handler e | Inr x \<Rightarrow> Inr x)"

section \<open>CPU lists\<close>

text \<open>One part of a CPU list: a range, in either order, or a core.\<close>

definition cpu_part :: "string \<Rightarrow> int list result" where
  "cpu_part part =
     (if CHR ''-'' \<in> set part
      then
        (case split_once (CHR ''-'') part of
           (x, y) \<Rightarrow>
             rbind (py_int x) (\<lambda>a. rbind (py_int y) (\<lambda>b. Inr (if b < a then [b..a] else [a..b]))))
      else rbind (py_int part) (\<lambda>c. Inr [c]))"

text \<open>The loop of \<open>split_cores\<close>.\<close>

fun split_cores_loop :: "string list \<Rightarrow> int list \<Rightarrow> int list \<Rightarrow> (int list \<times> int list) result" where
  "split_cores_loop [] worker_cores store_cores = Inr (worker_cores, store_cores)"
| "split_cores_loop (raw # rest) worker_cores store_cores =
     (let part = strip raw in
      if part = [] then split_cores_loop rest worker_cores store_cores
      else
        rbind (cpu_part part) (\<lambda>seg.
          let mid = max 1 (length seg div 2)
          in split_cores_loop rest (worker_cores @ take mid seg) (store_cores @ drop mid seg)))"

definition split_cores :: "int set result \<Rightarrow> string option \<Rightarrow> int list \<times> int list" where
  "split_cores affinity cpu_affinity =
     (case cpu_affinity of
        None \<Rightarrow> ([], [])
      | Some text \<Rightarrow>
          if text = [] then ([], [])
          else
            (case rbind (split_cores_loop (split_on (CHR '','') text) [] []) (\<lambda>(worker_cores, store_cores).
                    if worker_cores \<noteq> [] then Inr (worker_cores, store_cores)
                    else
                      rbind affinity (\<lambda>allowed.
                        let cores = sorted_list_of_set allowed
                        in Inr (if cores \<noteq> [] then ([hd cores], tl cores) else ([], store_cores)))) of
               Inl e \<Rightarrow> ([], [])
             | Inr r \<Rightarrow> r))"

text \<open>
  The loop that prints maximal runs, shared by \<open>_to_cpulist_str\<close> and the CUDA fallback: the
  current run goes from \<open>s\<close> to \<open>e\<close>.
\<close>

definition show_run :: "int \<times> int \<Rightarrow> string" where
  "show_run r = (case r of (s, e) \<Rightarrow> if s \<noteq> e then show_int s @ ''-'' @ show_int e else show_int s)"

fun cpu_runs :: "int \<Rightarrow> int \<Rightarrow> int list \<Rightarrow> (int \<times> int) list" where
  "cpu_runs s e [] = [(s, e)]"
| "cpu_runs s e (c # cs) = (if c = e + 1 then cpu_runs s c cs else (s, e) # cpu_runs c c cs)"

definition print_cpulist :: "int list \<Rightarrow> string option" where
  "print_cpulist cores =
     (case cores of [] \<Rightarrow> None | c # cs \<Rightarrow> Some (join_with (CHR '','') (map show_run (cpu_runs c c cs))))"

definition to_cpulist_str :: "int list \<Rightarrow> string option" where
  "to_cpulist_str cores = (if cores = [] then None else print_cpulist (sorted_list_of_set (set cores)))"

definition merge_cpulist_parts :: "string list \<Rightarrow> string option" where
  "merge_cpulist_parts cpulist_parts =
     (let parts = map strip (filter (\<lambda>p. strip p \<noteq> []) cpulist_parts)
      in if parts \<noteq> [] then Some (join_with (CHR '','') parts) else None)"

section \<open>Sharing out the allowed cores\<close>

text \<open>The slice of the allowed cores a rank falls back to.\<close>

definition fallback_slice :: "'a list \<Rightarrow> nat \<Rightarrow> nat \<Rightarrow> 'a list" where
  "fallback_slice cores total_devices local_rank =
     (let base = length cores div total_devices;
          extra = length cores mod total_devices;
          start = local_rank * base + min local_rank extra;
          len = base + (if local_rank < extra then 1 else 0)
      in py_slice cores start (start + len))"

text \<open>Both fallbacks after they have found the number of devices.\<close>

definition fallback_cores :: "host \<Rightarrow> int result \<Rightarrow> int \<Rightarrow> int list result" where
  "fallback_cores h num_devices local_rank =
     rbind (ho_affinity h) (\<lambda>allowed.
       let cores = sorted_list_of_set allowed in
       if cores = [] then Inr []
       else
         rbind num_devices (\<lambda>total_devices.
           if total_devices \<le> 0 \<or> local_rank < 0 \<or> total_devices \<le> local_rank then Inr []
           else Inr (fallback_slice cores (nat total_devices) (nat local_rank))))"

definition cuda_total_devices :: "host \<Rightarrow> int result" where
  "cuda_total_devices h =
     (case ho_env h ''CUDA_VISIBLE_DEVICES'' of
        None \<Rightarrow> ho_device_count h
      | Some visible \<Rightarrow>
          if visible = [] then ho_device_count h
          else Inr (int (length (filter (\<lambda>x. strip x \<noteq> []) (split_on (CHR '','') visible)))))"

definition cuda_fallback_affinity :: "host \<Rightarrow> int \<Rightarrow> string option" where
  "cuda_fallback_affinity h local_rank =
     (case fallback_cores h (cuda_total_devices h) local_rank of
        Inl e \<Rightarrow> None
      | Inr sliced \<Rightarrow> print_cpulist sliced)"

definition cuda_numa_cpulist :: "host \<Rightarrow> int \<Rightarrow> string option result" where
  "cuda_numa_cpulist h local_rank =
     rbind (ho_pci h local_rank) (\<lambda>(domain, bus, device).
       let pci_bus_id = show_hex_padded 4 domain @ '':'' @ show_hex_padded 2 bus @ '':'' @ show_hex_padded 2 device @ ''.0''
       in (case ho_file h (''/sys/bus/pci/devices/'' @ pci_bus_id @ ''/numa_node'') of
             None \<Rightarrow> Inr None
           | Some content \<Rightarrow>
               rbind content (\<lambda>text. rbind (py_int (strip text)) (\<lambda>numa_node.
                 if numa_node < 0 then Inr None
                 else
                   (case ho_file h (''/sys/devices/system/node/node'' @ show_int numa_node @ ''/cpulist'') of
                      None \<Rightarrow> Inr None
                    | Some cpulist \<Rightarrow> rbind cpulist (\<lambda>t. Inr (Some (strip t))))))))"

definition cuda_get_cpu_affinity :: "host \<Rightarrow> int \<Rightarrow> string option" where
  "cuda_get_cpu_affinity h local_rank =
     (case cuda_numa_cpulist h local_rank of
        Inr (Some cpulist) \<Rightarrow> Some cpulist
      | _ \<Rightarrow> cuda_fallback_affinity h local_rank)"

section \<open>The devices of an NPU host\<close>

datatype logic_id = LogicInt int | LogicName string

record npu_info =
  np_npu_id :: int
  np_chip_id :: int
  np_chip_logic_id :: logic_id
  np_chip_name :: string
  np_pcie_info :: "string option"
  np_numa_id :: "int option"

definition from_info_line :: "string \<Rightarrow> npu_info result" where
  "from_info_line line =
     (case split_words_max 3 (strip line) of
        [npu_id, chip_id, chip_logic_id, chip_name] \<Rightarrow>
          rbind (if all_digits chip_logic_id then rbind (py_int chip_logic_id) (\<lambda>i. Inr (LogicInt i)) else Inr (LogicName chip_logic_id)) (\<lambda>logic.
            rbind (py_int npu_id) (\<lambda>n. rbind (py_int chip_id) (\<lambda>c.
              Inr \<lparr>np_npu_id = n, np_chip_id = c, np_chip_logic_id = logic, np_chip_name = chip_name,
                   np_pcie_info = None, np_numa_id = None\<rparr>)))
      | _ \<Rightarrow> Inl ValueError)"

fun device_map_loop :: "string list \<Rightarrow> (int, npu_info) dict \<Rightarrow> (int, npu_info) dict" where
  "device_map_loop [] m = m"
| "device_map_loop (raw # rest) m =
     (let line = strip raw in
      if line = [] then device_map_loop rest m
      else
        (case from_info_line line of
           Inr topo \<Rightarrow>
             (case np_chip_logic_id topo of
                LogicInt i \<Rightarrow> device_map_loop rest (dict_set i topo m)
              | LogicName _ \<Rightarrow> device_map_loop rest m)
         | Inl _ \<Rightarrow> device_map_loop rest m))"

definition get_device_map_info :: "host \<Rightarrow> (int, npu_info) dict result" where
  "get_device_map_info h =
     rbind (ho_run h [''npu-smi'', ''info'', ''-m'']) (\<lambda>out.
       Inr (device_map_loop (drop 1 (split_on (CHR 0x0A) (strip out))) []))"

definition visible_device_list_from_env :: "host \<Rightarrow> int list option result" where
  "visible_device_list_from_env h =
     (let first = ho_env h ''ASCEND_RT_VISIBLE_DEVICES'';
          visible = (if first \<noteq> None \<and> first \<noteq> Some [] then first else ho_env h ''ASCEND_VISIBLE_DEVICES'')
      in (case visible of
            None \<Rightarrow> Inr None
          | Some text \<Rightarrow>
              if text = [] then Inr None
              else
                rbind (rmap (\<lambda>x. py_int (strip x)) (filter (\<lambda>x. strip x \<noteq> []) (split_on (CHR '','') text)))
                  (\<lambda>ids. Inr (Some ids))))"

definition get_device_id :: "host \<Rightarrow> int \<Rightarrow> int result" where
  "get_device_id h local_rank =
     rbind (visible_device_list_from_env h) (\<lambda>dev_list.
       (case dev_list of
          None \<Rightarrow> Inr local_rank
        | Some ids \<Rightarrow>
            if ids = [] then Inr local_rank
            else if local_rank < int (length ids)
            then (if local_rank < - int (length ids) then Inl IndexError
                  else Inr (ids ! nat (local_rank mod int (length ids))))
            else Inr local_rank))"

definition get_visible_devices :: "host \<Rightarrow> int list result" where
  "get_visible_devices h =
     rbind (visible_device_list_from_env h) (\<lambda>visible.
       (case visible of
          Some (d # ds) \<Rightarrow> Inr (d # ds)
        | _ \<Rightarrow>
            rcatch (rbind (get_device_map_info h) (\<lambda>m. Inr (sorted_list_of_set (dict_keys m))))
              (\<lambda>e. rbind (ho_device_count h) (\<lambda>n. Inr [0..n - 1]))))"

section \<open>Devices to NUMA nodes\<close>

definition pcie_keyword :: string where
  "pcie_keyword = ''PCIeBusInfo''"

text \<open>The first line that starts with the keyword once its white space is gone; one character is skipped after it.\<close>

definition find_pcie_info :: "string list \<Rightarrow> string option" where
  "find_pcie_info raw_lines =
     map_option (\<lambda>line. to_upper (drop (length pcie_keyword + 1) line))
       (find (\<lambda>line. take (length pcie_keyword) line = pcie_keyword) (map despace raw_lines))"

definition get_pcie_info :: "host \<Rightarrow> (int, npu_info) dict \<Rightarrow> (int, npu_info) dict" where
  "get_pcie_info h = map (\<lambda>(device_id, topo).
     (device_id,
      topo\<lparr>np_pcie_info :=
        (case ho_run h [''npu-smi'', ''info'', ''-t'', ''board'', ''-i'', show_int (np_npu_id topo), ''-c'', show_int (np_chip_id topo)] of
           Inl e \<Rightarrow> None
         | Inr out \<Rightarrow> find_pcie_info (split_on (CHR 0x0A) (strip out)))\<rparr>))"

text \<open>
  \<open>NUMA\s*node\s*:\s*(\d+)\<close> without regard to case, at the start of a text and anywhere in it.
\<close>

definition numa_node_here :: "string \<Rightarrow> int option" where
  "numa_node_here s =
     (let t = dropWhile is_space (drop 4 s);
          u = dropWhile is_space (drop 4 t);
          v = dropWhile is_space (drop 1 u);
          digits = takeWhile is_digit v
      in if to_upper (take 4 s) = ''NUMA'' \<and> to_upper (take 4 t) = ''NODE'' \<and> take 1 u = '':'' \<and> digits \<noteq> []
         then Some (int (read_nat digits)) else None)"

fun search_numa_node :: "string \<Rightarrow> int option" where
  "search_numa_node [] = None"
| "search_numa_node (c # cs) = (case numa_node_here (c # cs) of Some n \<Rightarrow> Some n | None \<Rightarrow> search_numa_node cs)"

definition numa_of_device :: "host \<Rightarrow> npu_info \<Rightarrow> npu_info" where
  "numa_of_device h topo =
     (case np_pcie_info topo of
        None \<Rightarrow> topo
      | Some pcie_info \<Rightarrow>
          if pcie_info = [] then topo
          else
            let numa_path = ''/sys/bus/pci/devices/'' @ to_lower pcie_info @ ''/numa_node'';
                from_lspci =
                  (case ho_run h [''/usr/bin/lspci'', ''-s'', pcie_info, ''-vvv''] of
                     Inl e \<Rightarrow> topo
                   | Inr out \<Rightarrow> (case search_numa_node out of None \<Rightarrow> topo | Some n \<Rightarrow> topo\<lparr>np_numa_id := Some n\<rparr>))
            in (case ho_file h numa_path of
                  None \<Rightarrow> from_lspci
                | Some content \<Rightarrow>
                    (case rbind content (\<lambda>text. py_int (strip text)) of
                       Inl e \<Rightarrow> from_lspci
                     | Inr numa_id \<Rightarrow> if 0 \<le> numa_id then topo\<lparr>np_numa_id := Some numa_id\<rparr> else from_lspci)))"

definition get_numa_info :: "host \<Rightarrow> (int, npu_info) dict \<Rightarrow> (int, npu_info) dict" where
  "get_numa_info h = map (\<lambda>(device_id, topo). (device_id, numa_of_device h topo))"

text \<open>The number of NUMA nodes \<open>lscpu\<close> reports: of its first line that names it, or 1.\<close>

definition read_numa_nodes :: "string list \<Rightarrow> int" where
  "read_numa_nodes raw_lines =
     (case find (\<lambda>line. sublist ''NUMAnode(s)'' line) (map despace raw_lines) of
        None \<Rightarrow> 1
      | Some line \<Rightarrow> (case py_int (last (split_on (CHR '':'') line)) of Inl e \<Rightarrow> 1 | Inr n \<Rightarrow> n))"

fun accumulate_from :: "int \<Rightarrow> int list \<Rightarrow> int list" where
  "accumulate_from a [] = []"
| "accumulate_from a (x # xs) = (a + x) # accumulate_from (a + x) xs"

definition numa_bounds :: "nat \<Rightarrow> int \<Rightarrow> (int \<times> int) list" where
  "numa_bounds num_devices numa_nodes =
     (let device_per_numa = int num_devices div numa_nodes;
          tail_device = int num_devices mod numa_nodes;
          counts = map (\<lambda>i. device_per_numa + (if i < tail_device then 1 else 0)) [0..numa_nodes - 1];
          ends = accumulate_from 0 counts
      in zip (0 # butlast ends) ends)"

definition assign_numa :: "int \<Rightarrow> int list \<Rightarrow> (int, npu_info) dict \<Rightarrow> (int, npu_info) dict" where
  "assign_numa numa_id ids m =
     map (\<lambda>(device_id, topo). (device_id, if device_id \<in> set ids then topo\<lparr>np_numa_id := Some numa_id\<rparr> else topo)) m"

definition get_numa_info_v2 :: "host \<Rightarrow> int list \<Rightarrow> (int, npu_info) dict \<Rightarrow> (int, npu_info) dict result" where
  "get_numa_info_v2 h devices m =
     rbind (ho_run h [''lscpu'']) (\<lambda>out.
       let numa_nodes = read_numa_nodes (split_on (CHR 0x0A) out)
       in if numa_nodes = 0 then Inl ZeroDivisionError
          else Inr (fold (\<lambda>(numa_id, (start, stop)) m. assign_numa (int numa_id) (py_slice_int devices start stop) m)
                      (zip [0..<length (numa_bounds (length devices) numa_nodes)] (numa_bounds (length devices) numa_nodes)) m))"

section \<open>NUMA nodes to cores\<close>

text \<open>\<open>NUMA node(\d+) CPU\(s\):\s*(.*)\<close> at the start of a line.\<close>

definition match_numa_line :: "string \<Rightarrow> (int \<times> string) option" where
  "match_numa_line line =
     (let r = drop 9 line;
          digits = takeWhile is_digit r;
          rest = dropWhile is_digit r
      in if take 9 line = ''NUMA node'' \<and> digits \<noteq> [] \<and> take 8 rest = '' CPU(s):''
         then Some (int (read_nat digits), dropWhile is_space (drop 8 rest)) else None)"

fun cpu_ranges :: "string list \<Rightarrow> int list result" where
  "cpu_ranges [] = Inr []"
| "cpu_ranges (raw # rest) =
     (let part = strip raw in
      if part = [] then cpu_ranges rest
      else rbind (cpu_part part) (\<lambda>seg. rbind (cpu_ranges rest) (\<lambda>segs. Inr (seg @ segs))))"

fun cpu_info_loop :: "int list \<Rightarrow> string list \<Rightarrow> (int, int list) dict \<Rightarrow> (int, int list) dict result" where
  "cpu_info_loop numa_ids [] tbl = Inr tbl"
| "cpu_info_loop numa_ids (line # rest) tbl =
     (case match_numa_line line of
        None \<Rightarrow> cpu_info_loop numa_ids rest tbl
      | Some (numa_id, cpulist) \<Rightarrow>
          if numa_id \<notin> set numa_ids then cpu_info_loop numa_ids rest tbl
          else rbind (cpu_ranges (split_on (CHR '','') cpulist)) (\<lambda>ranges. cpu_info_loop numa_ids rest (dict_set numa_id ranges tbl)))"

definition get_cpu_info :: "host \<Rightarrow> int list \<Rightarrow> (int, int list) dict result" where
  "get_cpu_info h numa_ids = rbind (ho_run h [''lscpu'']) (\<lambda>out. cpu_info_loop numa_ids (split_on (CHR 0x0A) out) [])"

fun node_socket_loop :: "string list \<Rightarrow> (int, int) dict \<times> (int, int set) dict \<Rightarrow> (int, int) dict \<times> (int, int set) dict" where
  "node_socket_loop [] acc = acc"
| "node_socket_loop (line # rest) (node_to_socket, socket_to_nodes) =
     (case split_words line of
        [cpu, node_str, socket_str] \<Rightarrow>
          if to_upper cpu = ''CPU'' \<or> \<not> (all_digits node_str \<and> all_digits socket_str)
          then node_socket_loop rest (node_to_socket, socket_to_nodes)
          else
            let node = int (read_nat node_str); socket = int (read_nat socket_str)
            in node_socket_loop rest
                 (dict_set node socket node_to_socket,
                  dict_set socket (insert node (dict_get_or socket_to_nodes socket {})) socket_to_nodes)
      | _ \<Rightarrow> node_socket_loop rest (node_to_socket, socket_to_nodes))"

definition get_node_socket_map :: "host \<Rightarrow> ((int, int) dict \<times> (int, int list) dict) result" where
  "get_node_socket_map h =
     rbind (ho_run h [''lscpu'', ''-e=cpu,node,socket'']) (\<lambda>out.
       (case node_socket_loop (split_lines [] out) ([], []) of
          (node_to_socket, socket_to_nodes) \<Rightarrow>
            Inr (node_to_socket, map (\<lambda>(s, nodes). (s, sorted_list_of_set nodes)) socket_to_nodes)))"

section \<open>The affinity of an NPU\<close>

definition npu_total_devices :: "host \<Rightarrow> int result" where
  "npu_total_devices h =
     rbind (visible_device_list_from_env h) (\<lambda>visible.
       (case visible of Some (d # ds) \<Rightarrow> Inr (int (length (d # ds))) | _ \<Rightarrow> ho_device_count h))"

definition npu_fallback_cpu_affinity :: "host \<Rightarrow> int \<Rightarrow> string option" where
  "npu_fallback_cpu_affinity h local_rank =
     (case fallback_cores h (npu_total_devices h) local_rank of
        Inl e \<Rightarrow> None
      | Inr sliced \<Rightarrow> to_cpulist_str sliced)"

text \<open>The body of the \<open>try\<close>; \<open>None\<close> inside stands for a return of the fallback.\<close>

definition npu_local_cpulist :: "host \<Rightarrow> int \<Rightarrow> string option result" where
  "npu_local_cpulist h device_id =
     rbind (get_visible_devices h) (\<lambda>devices. rbind (get_device_map_info h) (\<lambda>map0.
       if map0 = [] then Inr None
       else
         let map1 = get_numa_info h (get_pcie_info h map0);
             known = list_ex (\<lambda>d. Option.bind (dict_get map1 d) np_numa_id \<noteq> None) devices
         in rbind (if known then Inr map1 else get_numa_info_v2 h devices map1) (\<lambda>map2.
              (case Option.bind (dict_get map2 device_id) np_numa_id of
                 None \<Rightarrow> Inr None
               | Some numa_id \<Rightarrow>
                   rbind (get_node_socket_map h) (\<lambda>(node_to_socket, socket_to_nodes).
                     (case dict_get node_to_socket numa_id of
                        None \<Rightarrow> Inr None
                      | Some socket \<Rightarrow>
                          let local_numa_ids = sort (dict_get_or socket_to_nodes socket [numa_id])
                          in rbind (get_cpu_info h local_numa_ids) (\<lambda>cpu_idx_tbl.
                               let cpulist_parts = List.map_filter (\<lambda>nid. to_cpulist_str (dict_get_or cpu_idx_tbl nid [])) local_numa_ids
                               in Inr (if cpulist_parts = [] then None else merge_cpulist_parts cpulist_parts))))))))"

definition npu_get_cpu_affinity :: "host \<Rightarrow> int \<Rightarrow> string option result" where
  "npu_get_cpu_affinity h local_rank =
     rbind (get_device_id h local_rank) (\<lambda>device_id.
       Inr (case npu_local_cpulist h device_id of
              Inr (Some cpulist) \<Rightarrow> Some cpulist
            | _ \<Rightarrow> npu_fallback_cpu_affinity h local_rank))"

section \<open>Reading a CPU list\<close>

lemma cpu_part_ne: "cpu_part part = Inr seg \<Longrightarrow> seg \<noteq> []"
  by (auto simp: cpu_part_def rbind_Inr_iff split: if_splits prod.splits)

text \<open>
  \<open>split_cores\<close> reads a CPU list the way \<open>_get_cpu_info\<close> does, and shares out what it reads.
\<close>

lemma split_cores_loop_parts:
  "cpu_ranges parts = Inr cores \<Longrightarrow>
   \<exists>w st. split_cores_loop parts w0 s0 = Inr (w, st) \<and> mset (w @ st) = mset (w0 @ s0) + mset cores
     \<and> (w = [] \<longrightarrow> w0 = [] \<and> cores = [])"
proof (induction parts arbitrary: w0 s0 cores)
  case Nil
  then show ?case by simp
next
  case (Cons raw rest)
  show ?case
  proof (cases "strip raw = []")
    case True
    with Cons show ?thesis by simp
  next
    case False
    then obtain seg segs where p: "cpu_part (strip raw) = Inr seg" "cpu_ranges rest = Inr segs" "cores = seg @ segs"
      using Cons.prems by (auto simp: rbind_Inr_iff Let_def)
    let ?mid = "max 1 (length seg div 2)"
    have "mset (take ?mid seg) + mset (drop ?mid seg) = mset seg"
      by (metis append_take_drop_id mset_append)
    moreover have "take ?mid seg \<noteq> []" using cpu_part_ne [OF p(1)] by (simp add: max_def)
    ultimately show ?thesis
      using Cons.IH [OF p(2), of "w0 @ take ?mid seg" "s0 @ drop ?mid seg"] False p(1,3)
      by (auto simp: Let_def ac_simps)
  qed
qed

lemma split_cores_parsed:
  assumes "cpu_ranges (split_on (CHR '','') text) = Inr cores" and "cores \<noteq> []"
    and "split_cores affinity (Some text) = (w, st)"
  shows "mset (w @ st) = mset cores \<and> w \<noteq> []"
proof -
  obtain w' s' where l: "split_cores_loop (split_on (CHR '','') text) [] [] = Inr (w', s')"
    and m: "mset (w' @ s') = mset cores" "w' \<noteq> []"
    using split_cores_loop_parts [OF assms(1), of "[]" "[]"] assms(2) by auto
  have "text \<noteq> []" using assms(1,2) by (auto simp: strip_def)
  then have "(w, st) = (w', s')" using assms(3) l m(2) by (simp add: split_cores_def)
  then show ?thesis using m by simp
qed

section \<open>The round trip of a CPU list\<close>

lemma cpu_runs_cover: "s \<le> e \<Longrightarrow> concat (map (\<lambda>(a, b). [a..b]) (cpu_runs s e cs)) = [s..e] @ cs"
proof (induction s e cs rule: cpu_runs.induct)
  case (2 s e c cs)
  then show ?case by (auto simp: upto_rec2)
qed simp

lemma cpu_runs_bounds:
  "0 \<le> s \<Longrightarrow> s \<le> e \<Longrightarrow> \<forall>c \<in> set cs. 0 \<le> c \<Longrightarrow> (a, b) \<in> set (cpu_runs s e cs) \<Longrightarrow> 0 \<le> a \<and> a \<le> b"
  by (induction s e cs rule: cpu_runs.induct) (auto split: if_splits)

lemma cpu_runs_ne: "cpu_runs s e cs \<noteq> []"
  by (induction s e cs rule: cpu_runs.induct) auto

lemma dash_not_space: "\<not> is_space (CHR ''-'')"
  by (simp add: is_space_def)

lemma show_nat_plain: "c \<in> set (show_nat n) \<Longrightarrow> is_digit c"
  using show_nat_free by blast

lemma show_run_plain:
  assumes "0 \<le> a" "a \<le> b"
  shows "strip (show_run (a, b)) = show_run (a, b) \<and> CHR '','' \<notin> set (show_run (a, b)) \<and> show_run (a, b) \<noteq> []"
proof -
  have c: "is_digit c \<or> c = CHR ''-''" if "c \<in> set (show_run (a, b))" for c
    using that assms show_nat_plain by (auto simp: show_run_def show_int_nonneg split: if_splits)
  then have "\<forall>c \<in> set (show_run (a, b)). \<not> is_space c"
    using digit_not_space dash_not_space by blast
  moreover have "CHR '','' \<notin> set (show_run (a, b))" using c not_digits(4) by fastforce
  moreover have "show_run (a, b) \<noteq> []" using assms by (simp add: show_run_def show_int_nonneg)
  ultimately show ?thesis using strip_free by blast
qed

lemma cpu_part_show_run:
  assumes "0 \<le> a" "a \<le> b"
  shows "cpu_part (show_run (a, b)) = Inr [a..b]"
proof -
  have free: "CHR ''-'' \<notin> set (show_nat n)" for n using show_nat_plain not_digits(2) by blast
  show ?thesis
  proof (cases "a = b")
    case True
    then show ?thesis using assms free by (simp add: show_run_def show_int_nonneg cpu_part_def)
  next
    case False
    then show ?thesis using assms split_once_append [OF free]
      by (simp add: show_run_def show_int_nonneg cpu_part_def)
  qed
qed

lemma cpu_ranges_show_runs:
  "\<forall>(a, b) \<in> set rs. 0 \<le> a \<and> a \<le> b \<Longrightarrow>
   cpu_ranges (map show_run rs) = Inr (concat (map (\<lambda>(a, b). [a..b]) rs))"
proof (induction rs)
  case Nil
  then show ?case by simp
next
  case (Cons r rs)
  obtain a b where r: "r = (a, b)" by (cases r)
  then have "0 \<le> a" "a \<le> b" using Cons.prems by auto
  from show_run_plain [OF this] cpu_part_show_run [OF this] Cons show ?case by (simp add: r Let_def)
qed

lemma print_cpulist_parses:
  assumes "\<forall>c \<in> set cores. 0 \<le> c" and "print_cpulist cores = Some text"
  shows "cpu_ranges (split_on (CHR '','') text) = Inr cores"
proof -
  obtain c cs where c: "cores = c # cs" and t: "text = join_with (CHR '','') (map show_run (cpu_runs c c cs))"
    using assms(2) by (auto simp: print_cpulist_def split: list.splits)
  have b: "\<forall>(a, b) \<in> set (cpu_runs c c cs). 0 \<le> a \<and> a \<le> b"
    using cpu_runs_bounds [of c c cs] assms(1) c by auto
  have "split_on (CHR '','') text = map show_run (cpu_runs c c cs)"
    unfolding t using show_run_plain b cpu_runs_ne by (intro split_on_join) auto
  then show ?thesis using cpu_ranges_show_runs [OF b] cpu_runs_cover [of c c cs] by (simp add: c)
qed

text \<open>
  C34: A list of cores printed as a CPU list and read by \<open>split_cores\<close> gives back its cores,
  each once, shared out between a worker that has at least one and the store.
\<close>

theorem cpulist_round_trip:
  assumes "to_cpulist_str cores = Some text" and "\<forall>c \<in> set cores. 0 \<le> c"
    and "split_cores affinity (Some text) = (worker_cores, store_cores)"
  shows "distinct (worker_cores @ store_cores) \<and> set (worker_cores @ store_cores) = set cores \<and> worker_cores \<noteq> []"
proof -
  let ?cores = "sorted_list_of_set (set cores)"
  have p: "print_cpulist ?cores = Some text" and "cores \<noteq> []"
    using assms(1) by (auto simp: to_cpulist_str_def split: if_splits)
  then have "?cores \<noteq> []" by simp
  from split_cores_parsed [OF print_cpulist_parses [OF _ p] this assms(3)] assms(2)
  have m: "mset (worker_cores @ store_cores) = mset ?cores" "worker_cores \<noteq> []" by simp_all
  then have "distinct (worker_cores @ store_cores)" "set (worker_cores @ store_cores) = set ?cores"
    using mset_eq_imp_distinct_iff [OF m(1)] mset_eq_setD [OF m(1)] by simp_all
  then show ?thesis using m(2) by simp
qed

theorem cpulist_round_trip_witness:
  "to_cpulist_str [9, 3, 4, 5, 9, 0] = Some ''0,3-5,9'' \<and>
   split_cores (Inr {}) (Some ''0,3-5,9'') = ([0, 3, 9], [4, 5]) \<and> set ([0, 3, 9] @ [4, 5]) = set [9, 3, 4, 5, 9, 0 :: int]"
proof -
  have t: "to_cpulist_str [9, 3, 4, 5, 9, 0] = Some ''0,3-5,9''" by code_simp
  have s: "split_cores (Inr {}) (Some ''0,3-5,9'') = ([0, 3, 9], [4, 5])" by code_simp
  show ?thesis using cpulist_round_trip [OF t _ s] t s by simp
qed

section \<open>Even shares\<close>

text \<open>
  Where the share of the \<open>i\<close>-th of \<open>k\<close> parts of \<open>n\<close> things starts when the first
  \<open>n mod k\<close> parts get one more. The fallback over cores and the fallback over devices both
  cut at these positions.
\<close>

definition share_start :: "nat \<Rightarrow> nat \<Rightarrow> nat \<Rightarrow> nat" where
  "share_start n k i = i * (n div k) + min i (n mod k)"

lemma share_start_0 [simp]: "share_start n k 0 = 0"
  by (simp add: share_start_def)

lemma share_start_Suc: "share_start n k (Suc i) = share_start n k i + n div k + (if i < n mod k then 1 else 0)"
  by (simp add: share_start_def)

lemma share_start_all: "0 < k \<Longrightarrow> share_start n k k = n"
  using mod_less_divisor [of k n] by (simp add: share_start_def)

lemma share_start_mono: "i \<le> j \<Longrightarrow> share_start n k i \<le> share_start n k j"
  by (simp add: share_start_def add_mono mult_le_mono1)

lemma fallback_slice_share:
  "fallback_slice cores k i = py_slice cores (share_start (length cores) k i) (share_start (length cores) k (Suc i))"
  by (simp add: fallback_slice_def share_start_Suc Let_def share_start_def ac_simps)

lemma slices_concat:
  assumes "f 0 = 0" and "\<And>i. f i \<le> f (Suc i)"
  shows "concat (map (\<lambda>i. py_slice xs (f i) (f (Suc i))) [0..<k]) = take (f k) xs"
proof (induction k)
  case 0
  then show ?case using assms(1) by simp
next
  case (Suc k)
  have "take (f k) xs @ py_slice xs (f k) (f (Suc k)) = take (f (Suc k)) xs"
    using assms(2) [of k] by (simp add: py_slice_def take_add [symmetric])
  with Suc show ?case by simp
qed

lemma fallback_slices_concat:
  "0 < k \<Longrightarrow> concat (map (fallback_slice cores k) [0..<k]) = cores"
  using slices_concat [of "share_start (length cores) k" cores k]
  by (simp add: fallback_slice_share [abs_def] share_start_all share_start_mono)

lemma length_fallback_slice:
  assumes "i < k"
  shows "length (fallback_slice cores k i) = length cores div k + (if i < length cores mod k then 1 else 0)"
proof -
  have "share_start (length cores) k (Suc i) \<le> length cores"
    using share_start_mono [of "Suc i" k "length cores" k] share_start_all [of k "length cores"] assms by simp
  then show ?thesis by (simp add: fallback_slice_share share_start_Suc min_def)
qed

text \<open>Slices of a duplicate-free list that belong to different parts have nothing in common.\<close>

lemma concat_parts_disjoint:
  assumes "distinct (concat (map f [0..<k]))" and "i < j" and "j < k"
  shows "set (f i) \<inter> set (f j) = {}"
proof -
  have "[0..<k] = [0..<j] @ j # [Suc j..<k]" using assms(3) 
    using upt_add_eq_append [of 0 j "k - j"] upt_conv_Cons [of j k] by simp
  then have "concat (map f [0..<k]) = concat (map f [0..<j]) @ f j @ concat (map f [Suc j..<k])" by simp
  with assms(1) have "set (concat (map f [0..<j])) \<inter> set (f j) = {}" by auto
  moreover have "set (f i) \<subseteq> set (concat (map f [0..<j]))" using assms(2) by auto
  ultimately show ?thesis by blast
qed

section \<open>The cores of the ranks\<close>

definition rank_cores :: "host \<Rightarrow> (int \<Rightarrow> string option) \<Rightarrow> nat \<Rightarrow> int set" where
  "rank_cores h affinity r = (case split_cores (ho_affinity h) (affinity (int r)) of (w, st) \<Rightarrow> set w \<union> set st)"

lemma split_printed_cores:
  assumes "\<forall>c \<in> set cores. 0 \<le> c"
  shows "(case split_cores affinity (print_cpulist cores) of (w, st) \<Rightarrow> set w \<union> set st) = set cores"
proof (cases "print_cpulist cores")
  case None
  then show ?thesis by (simp add: print_cpulist_def split_cores_def split: list.splits)
next
  case (Some cpulist)
  obtain w st where sp: "split_cores affinity (Some cpulist) = (w, st)" by fastforce
  have "cores \<noteq> []" using Some by (auto simp: print_cpulist_def)
  from split_cores_parsed [OF print_cpulist_parses [OF assms Some] this sp]
  show ?thesis using sp Some by (metis mset_eq_setD prod.case set_append)
qed

text \<open>
  When the affinity of a GPU is unknown, the allowed cores are shared out among the ranks:
  every core goes to some rank, none to two, and the shares differ by one core at most.
\<close>

lemma ranks_share_the_cores:
  assumes "ho_affinity h = Inr allowed" and "finite allowed" and "\<forall>c \<in> allowed. 0 \<le> c"
    and "cuda_total_devices h = Inr (int n)" and "0 < n"
  shows "(\<Union>r \<in> {..<n}. rank_cores h (cuda_fallback_affinity h) r) = allowed
    \<and> (\<forall>i j. i < j \<and> j < n \<longrightarrow> rank_cores h (cuda_fallback_affinity h) i \<inter> rank_cores h (cuda_fallback_affinity h) j = {})
    \<and> (\<forall>r < n. card (rank_cores h (cuda_fallback_affinity h) r) \<in> {card allowed div n, card allowed div n + 1})"
proof -
  let ?cores = "sorted_list_of_set allowed" and ?R = "rank_cores h (cuda_fallback_affinity h)"
  have cores: "set ?cores = allowed" "distinct ?cores" "length ?cores = card allowed" using assms(2) by simp_all
  have slice: "?R r = set (fallback_slice ?cores n r)" if "r < n" for r
  proof -
    have "cuda_fallback_affinity h (int r) = print_cpulist (fallback_slice ?cores n r)"
      using that assms by (cases "?cores = []")
        (simp_all add: cuda_fallback_affinity_def fallback_cores_def Let_def fallback_slice_def)
    moreover have "\<forall>c \<in> set (fallback_slice ?cores n r). 0 \<le> c"
      using assms(3) cores(1) set_py_slice [of ?cores] by (metis fallback_slice_share subsetD)
    ultimately show ?thesis using split_printed_cores by (simp add: rank_cores_def)
  qed
  have all: "concat (map (fallback_slice ?cores n) [0..<n]) = ?cores" by (rule fallback_slices_concat [OF assms(5)])
  then have d: "distinct (concat (map (fallback_slice ?cores n) [0..<n]))" using cores(2) by simp
  have "allowed = (\<Union>r \<in> {..<n}. set (fallback_slice ?cores n r))"
    using arg_cong [OF all, of set] cores(1) by (simp add: lessThan_atLeast0)
  then have "(\<Union>r \<in> {..<n}. ?R r) = allowed" using slice by simp
  moreover have "\<forall>i j. i < j \<and> j < n \<longrightarrow> ?R i \<inter> ?R j = {}"
    using slice concat_parts_disjoint [OF d] by simp
  moreover have "card (?R r) \<in> {card allowed div n, card allowed div n + 1}" if "r < n" for r
  proof -
    have "distinct (fallback_slice ?cores n r)" using cores(2) by (simp add: fallback_slice_share py_slice_def)
    then have "card (?R r) = length (fallback_slice ?cores n r)" using slice [OF that] by (simp add: distinct_card)
    then show ?thesis using length_fallback_slice [OF that, of ?cores] cores(3) by simp
  qed
  ultimately show ?thesis by blast
qed

definition demo_host :: host where
  "demo_host =
     \<lparr>ho_affinity = Inr {0, 1, 2, 3, 8, 9, 10}, ho_env = (\<lambda>_. None), ho_file = (\<lambda>_. None), ho_run = (\<lambda>_. Inl RuntimeError),
      ho_device_count = Inr 2, ho_pci = (\<lambda>_. Inl RuntimeError)\<rparr>"

section \<open>Devices spread over NUMA nodes\<close>

lemma accumulate_differences:
  "a \<le> b \<Longrightarrow> accumulate_from (f a) (map (\<lambda>j. f (Suc j) - f j) [a..<b]) = map (\<lambda>j. f (Suc j)) [a..<b]"
proof (induction "b - a" arbitrary: a)
  case 0
  then show ?case by simp
next
  case (Suc n)
  then have "a < b" by simp
  with Suc.hyps(1) [of "Suc a"] Suc.hyps(2) show ?case by (simp add: upt_conv_Cons)
qed

lemma numa_bounds_shares:
  assumes "0 < k"
  shows "numa_bounds n (int k) = map (\<lambda>j. (int (share_start n k j), int (share_start n k (Suc j)))) [0..<k]"
proof -
  let ?S = "\<lambda>j. int (share_start n k j)"
  have "[0..int k - 1] = map int [0..<k]"
    by (induction k) (simp_all add: upto_rec2)
  moreover have "int n div int k + (if int j < int n mod int k then 1 else 0) = ?S (Suc j) - ?S j" for j
    unfolding share_start_Suc zdiv_int [symmetric] zmod_int [symmetric] by simp
  ultimately have "map (\<lambda>i. int n div int k + (if i < int n mod int k then 1 else 0)) [0..int k - 1]
      = map (\<lambda>j. ?S (Suc j) - ?S j) [0..<k]"
    by (simp only: map_map o_def)
  then have ends: "accumulate_from 0 (map (\<lambda>i. int n div int k + (if i < int n mod int k then 1 else 0)) [0..int k - 1])
      = map (\<lambda>j. ?S (Suc j)) [0..<k]"
    using accumulate_differences [of 0 k ?S] by simp
  have "0 # butlast (map (\<lambda>j. ?S (Suc j)) [0..<k]) = map ?S [0..<k]"
  proof (rule nth_equalityI)
    show "length (0 # butlast (map (\<lambda>j. ?S (Suc j)) [0..<k])) = length (map ?S [0..<k])" using assms by simp
    show "(0 # butlast (map (\<lambda>j. ?S (Suc j)) [0..<k])) ! i = map ?S [0..<k] ! i"
      if "i < length (0 # butlast (map (\<lambda>j. ?S (Suc j)) [0..<k]))" for i
      using that assms by (cases i) (simp_all add: nth_butlast)
  qed
  then show ?thesis by (simp only: numa_bounds_def Let_def ends zip_map_map zip_same_conv_map map_map) simp
qed

lemma dict_get_assign_numa:
  "dict_get (assign_numa n ids m) d
     = (if d \<in> set ids then map_option (np_numa_id_update (\<lambda>_. Some n)) (dict_get m d) else dict_get m d)"
  by (induction m) (auto simp: assign_numa_def)

lemma fold_assign_numa:
  "dict_get (fold (\<lambda>j m. assign_numa (int j) (part j) m) js m) d
     = (case find (\<lambda>j. d \<in> set (part j)) (rev js) of
          None \<Rightarrow> dict_get m d
        | Some j \<Rightarrow> map_option (np_numa_id_update (\<lambda>_. Some (int j))) (dict_get m d))"
proof (induction js rule: rev_induct)
  case Nil
  then show ?case by simp
next
  case (snoc j js)
  then show ?case
    by (auto simp: dict_get_assign_numa option.map_comp o_def split: option.splits)
qed

text \<open>
  Where no device has a known node, the visible devices are spread over the nodes in blocks that
  differ by one device at most.
\<close>

lemma devices_spread_over_numa_nodes:
  assumes "ho_run h [''lscpu''] = Inr out" and "read_numa_nodes (split_on (CHR 0x0A) out) = int k" and "0 < k"
    and "distinct devices" and "j < k"
    and "d \<in> set (py_slice devices (share_start (length devices) k j) (share_start (length devices) k (Suc j)))"
  shows "\<exists>m'. get_numa_info_v2 h devices m = Inr m'
    \<and> dict_get m' d = map_option (np_numa_id_update (\<lambda>_. Some (int j))) (dict_get m d)"
proof -
  let ?S = "share_start (length devices) k"
  let ?part = "\<lambda>i. py_slice devices (?S i) (?S (Suc i))"
  have b: "numa_bounds (length devices) (int k) = map (\<lambda>j. (int (?S j), int (?S (Suc j)))) [0..<k]"
    by (rule numa_bounds_shares [OF assms(3)])
  have le: "?S i \<le> length devices" if "i \<le> k" for i
    using share_start_mono [OF that, of "length devices" k] share_start_all [OF assms(3)] by simp
  have slice: "py_slice_int devices (int (?S i)) (int (?S (Suc i))) = ?part i" if "i < k" for i
    using le [of i] le [of "Suc i"] that by (simp add: py_slice_int_def py_bound_def)
  have "zip [0..<k] (map (\<lambda>j. (int (?S j), int (?S (Suc j)))) [0..<k]) = map (\<lambda>j. (j, int (?S j), int (?S (Suc j)))) [0..<k]"
    by (simp add: zip_map2 zip_same_conv_map)
  then have run: "get_numa_info_v2 h devices m
      = Inr (fold (\<lambda>j m. assign_numa (int j) (py_slice_int devices (int (?S j)) (int (?S (Suc j)))) m) [0..<k] m)"
    using assms(1-3) by (simp add: get_numa_info_v2_def Let_def b fold_map o_def)
  also have "fold (\<lambda>j m. assign_numa (int j) (py_slice_int devices (int (?S j)) (int (?S (Suc j)))) m) [0..<k] m
      = fold (\<lambda>j m. assign_numa (int j) (?part j) m) [0..<k] m"
    by (intro fold_cong) (auto simp: slice)
  finally have run': "get_numa_info_v2 h devices m = Inr (fold (\<lambda>j m. assign_numa (int j) (?part j) m) [0..<k] m)" .
  have "distinct (concat (map ?part [0..<k]))"
    using slices_concat [of ?S devices k] assms(4) by (simp add: share_start_mono)
  note disjoint = concat_parts_disjoint [OF this]
  have only: "i = j" if "i < k" "d \<in> set (?part i)" for i
    using disjoint [of i j] disjoint [of j i] that assms(5,6) by (metis disjoint_iff linorder_neqE_nat)
  have "find (\<lambda>i. d \<in> set (?part i)) (rev [0..<k]) = Some j"
  proof -
    have "find (\<lambda>i. d \<in> set (?part i)) (rev [0..<k]) \<noteq> None" using assms(5,6) by (auto simp: find_None_iff)
    then obtain i where i: "find (\<lambda>i. d \<in> set (?part i)) (rev [0..<k]) = Some i" by blast
    then have "i \<in> set (rev [0..<k])" "d \<in> set (?part i)" by (metis find_Some_iff nth_mem)+
    then show ?thesis using i only by simp
  qed
  then show ?thesis using run' fold_assign_numa [of ?part "[0..<k]" m d] by simp
qed

end
