(* ===== verification/Cache_Coordinator.thy ===== *)
theory Cache_Coordinator
  imports Ucm_Prelude
begin

text \<open>
  The patched prefix-cache lookup of vLLM-Ascend's hybrid coordinator
  (\<open>patch_kv_cache_coordinator.py\<close> of the versions 0.20.2 to 0.23.0): every attention group
  shortens the common hit in turn until none shortens it further, and the blocks of every
  full-attention group are cut to the length found.
\<close>

section \<open>The coordinator\<close>

text \<open>
  A group's manager is vLLM code: \<open>ag_find\<close> takes the block size the hashes are regrouped to
  (\<open>None\<close> where they are handed over as they are), whether the last block is dropped for
  speculation, and the greatest length; it answers one list of blocks per cache group. The
  remaining arguments of the call are the same every time.
\<close>

datatype spec_kind = FullAttention | Mamba | OtherSpec

record 'b attn_group =
  ag_kind :: spec_kind
  ag_block_size :: nat
  ag_effective_block_size :: nat
  ag_group_ids :: "nat list"
  ag_find :: "nat option \<Rightarrow> bool \<Rightarrow> nat \<Rightarrow> 'b list list"

record 'b coordinator =
  co_num_groups :: nat
  co_attention_groups :: "'b attn_group list"
  co_eagle_attn_group_indices :: "nat set"
  co_hash_block_size :: nat
  co_dcp_world_size :: nat
  co_pcp_world_size :: nat

type_synonym 'b hits = "'b list option list"

definition get_block_hashes :: "'b coordinator \<Rightarrow> 'b attn_group \<Rightarrow> nat option" where
  "get_block_hashes co g =
     (let cp = co_dcp_world_size co * co_pcp_world_size co;
          target_block_size = (if ag_kind g \<noteq> Mamba \<and> 1 < cp then ag_block_size g * cp else ag_block_size g)
      in if target_block_size = co_hash_block_size co then None else Some target_block_size)"

definition is_simple_hybrid :: "'b coordinator \<Rightarrow> bool" where
  "is_simple_hybrid co =
     (length (co_attention_groups co) = 2 \<and> ag_kind (hd (co_attention_groups co)) = FullAttention)"

text \<open>\<open>xs[i] = v\<close> and the loop that stores the blocks of each cache group.\<close>

definition py_set :: "'a list \<Rightarrow> nat \<Rightarrow> 'a \<Rightarrow> 'a list result" where
  "py_set xs i v = (if i < length xs then Inr (xs[i := v]) else Inl IndexError)"

fun store_hits :: "(nat \<times> 'b list) list \<Rightarrow> 'b hits \<Rightarrow> 'b hits result" where
  "store_hits [] hits = Inr hits"
| "store_hits ((group_id, blocks) # rest) hits = rbind (py_set hits group_id (Some blocks)) (store_hits rest)"

text \<open>One group's turn: the current length, the blocks by cache group and the verified groups.\<close>

definition lookup_group ::
  "'b coordinator \<Rightarrow> bool \<Rightarrow> nat \<Rightarrow> nat \<times> 'b attn_group \<Rightarrow> nat \<times> 'b hits \<times> nat set \<Rightarrow> (nat \<times> 'b hits \<times> nat set) result" where
  "lookup_group co skip_mamba max_cache_hit_length ig st =
     (case (ig, st) of
        ((idx, g), (cur, hits, eagle_verified)) \<Rightarrow>
          rbind (py_index (ag_group_ids g) 0) (\<lambda>first_id.
            rbind (py_index hits first_id) (\<lambda>cached_blocks.
              if skip_mamba \<and> ag_kind g = Mamba
              then
                (if cached_blocks = None
                 then rbind (store_hits (map (\<lambda>i. (i, [])) (ag_group_ids g)) hits) (\<lambda>hits'. Inr (cur, hits', eagle_verified))
                 else Inr (cur, hits, eagle_verified))
              else if ag_kind g = FullAttention \<and> cached_blocks \<noteq> None
              then
                (if ag_effective_block_size g = 0 then Inl ZeroDivisionError
                 else Inr (cur div ag_effective_block_size g * ag_effective_block_size g, hits, eagle_verified))
              else
                let use_eagle = (idx \<in> co_eagle_attn_group_indices co \<and> idx \<notin> eagle_verified);
                    max_length = (if use_eagle then min (cur + ag_block_size g) max_cache_hit_length else cur);
                    hit_blocks = ag_find g (get_block_hashes co g) use_eagle max_length
                in rbind (py_index hit_blocks 0) (\<lambda>first.
                     let new_hit_length = length first * ag_effective_block_size g;
                         verified = (if use_eagle then insert idx eagle_verified
                                     else if new_hit_length < cur then {} else eagle_verified)
                     in rbind (store_hits (zip (ag_group_ids g) hit_blocks) hits) (\<lambda>hits'. Inr (new_hit_length, hits', verified))))))"

fun lookup_pass ::
  "'b coordinator \<Rightarrow> bool \<Rightarrow> nat \<Rightarrow> (nat \<times> 'b attn_group) list \<Rightarrow> nat \<times> 'b hits \<times> nat set \<Rightarrow> (nat \<times> 'b hits \<times> nat set) result" where
  "lookup_pass co skip_mamba mx [] st = Inr st"
| "lookup_pass co skip_mamba mx (ig # rest) st = rbind (lookup_group co skip_mamba mx ig st) (lookup_pass co skip_mamba mx rest)"

text \<open>The \<open>while True\<close> loop; \<open>None\<close> would be a loop that never ends.\<close>

partial_function (option) lookup_loop ::
  "'b coordinator \<Rightarrow> bool \<Rightarrow> nat \<Rightarrow> nat \<Rightarrow> 'b hits \<Rightarrow> nat set \<Rightarrow> ('b hits \<times> nat) result option" where
  "lookup_loop co skip_mamba mx hit_length hits eagle_verified =
     (case lookup_pass co skip_mamba mx (enumerate 0 (co_attention_groups co)) (hit_length, hits, eagle_verified) of
        Inl e \<Rightarrow> Some (Inl e)
      | Inr (cur, hits', verified) \<Rightarrow>
          if hit_length \<le> cur then Some (Inr (hits', hit_length))
          else if is_simple_hybrid co then Some (Inr (hits', cur))
          else lookup_loop co skip_mamba mx cur hits' verified)"

declare lookup_loop.simps [code]

text \<open>The blocks of a full-attention group behind the common length are deleted.\<close>

fun truncate_ids :: "nat \<Rightarrow> nat list \<Rightarrow> 'b hits \<Rightarrow> 'b hits result" where
  "truncate_ids num_blocks [] hits = Inr hits"
| "truncate_ids num_blocks (group_id # rest) hits =
     rbind (py_index hits group_id) (\<lambda>blocks.
       truncate_ids num_blocks rest (hits[group_id := map_option (take num_blocks) blocks]))"

fun truncate_full :: "nat \<Rightarrow> 'b attn_group list \<Rightarrow> 'b hits \<Rightarrow> 'b hits result" where
  "truncate_full hit_length [] hits = Inr hits"
| "truncate_full hit_length (g # rest) hits =
     (if ag_kind g \<noteq> FullAttention then truncate_full hit_length rest hits
      else if ag_effective_block_size g = 0 then Inl ZeroDivisionError
      else rbind (truncate_ids (hit_length div ag_effective_block_size g) (ag_group_ids g) hits) (truncate_full hit_length rest))"

definition find_longest_cache_hit ::
  "'b coordinator \<Rightarrow> bool \<Rightarrow> nat \<Rightarrow> ('b list list \<times> nat) result option" where
  "find_longest_cache_hit co skip_mamba max_cache_hit_length =
     map_option
       (\<lambda>r. rbind r (\<lambda>(hits, hit_length).
          rbind (truncate_full hit_length (co_attention_groups co) hits) (\<lambda>hits'.
            Inr (map (case_option [] id) hits', hit_length))))
       (lookup_loop co skip_mamba max_cache_hit_length max_cache_hit_length (replicate (co_num_groups co) None) {})"

text \<open>
  0.20.2 and 0.21.0 have one entry point, and 0.20.2 neither regroups for context parallelism
  nor asks the coordinator for the effective block size. A ratio is \<open>None\<close> where the
  specification has no such attribute, \<open>Some None\<close> where its value is \<open>None\<close>.
\<close>

definition effective_block_size_v0210 :: "nat \<Rightarrow> int option option \<Rightarrow> nat" where
  "effective_block_size_v0210 block_size ratio =
     (case ratio of
        None \<Rightarrow> block_size
      | Some None \<Rightarrow> block_size
      | Some (Some r) \<Rightarrow> block_size * nat (if 1 \<le> r then r else 1))"

definition effective_block_size_v0202 :: "nat \<Rightarrow> int option option \<Rightarrow> nat result" where
  "effective_block_size_v0202 block_size ratio =
     (case ratio of
        None \<Rightarrow> Inr block_size
      | Some None \<Rightarrow> Inl TypeError
      | Some (Some r) \<Rightarrow> Inr (block_size * nat (max r 1)))"

definition find_longest_cache_hit_v0210 :: "'b coordinator \<Rightarrow> nat \<Rightarrow> ('b list list \<times> nat) result option" where
  "find_longest_cache_hit_v0210 co = find_longest_cache_hit co False"

definition find_longest_cache_hit_v0202 ::
  "'b coordinator \<Rightarrow> int option option list \<Rightarrow> nat \<Rightarrow> ('b list list \<times> nat) result option" where
  "find_longest_cache_hit_v0202 co ratios mx =
     (case rmap (\<lambda>(g, ratio). rbind (effective_block_size_v0202 (ag_block_size g) ratio)
                  (\<lambda>e. Inr (g\<lparr>ag_effective_block_size := e\<rparr>)))
             (zip (co_attention_groups co) ratios) of
        Inl e \<Rightarrow> Some (Inl e)
      | Inr groups \<Rightarrow>
          find_longest_cache_hit (co\<lparr>co_attention_groups := groups, co_dcp_world_size := 1, co_pcp_world_size := 1\<rparr>) False mx)"

text \<open>0.23.0 keeps vLLM's lookup and cuts its result.\<close>

definition wrapped_cache_hit_lookup ::
  "'b coordinator \<Rightarrow> ('a \<Rightarrow> ('b list list \<times> nat) result) \<Rightarrow> 'a \<Rightarrow> ('b list list \<times> nat) result" where
  "wrapped_cache_hit_lookup co original_method args =
     rbind (original_method args) (\<lambda>(hits, hit_length).
       rbind (truncate_full hit_length (co_attention_groups co) (map Some hits)) (\<lambda>hits'.
         Inr (map (case_option [] id) hits', hit_length)))"

section \<open>The lookup returns\<close>

lemma lookup_loop_returns: "\<exists>r. lookup_loop co skip_mamba mx hit_length hits eagle_verified = Some r"
proof (induction hit_length arbitrary: hits eagle_verified rule: less_induct)
  case (less hit_length)
  show ?case
    by (subst lookup_loop.simps) (auto split: sum.splits prod.splits intro: less)
qed

text \<open>
  C32: The lookup always returns, whatever the managers answer: a round either ends the loop or
  makes the common length strictly smaller.
\<close>

theorem coordinator_lookup_returns: "\<exists>r. find_longest_cache_hit co skip_mamba mx = Some r"
  using lookup_loop_returns [of co skip_mamba mx mx "replicate (co_num_groups co) None" "{}"]
  by (auto simp: find_longest_cache_hit_def)

section \<open>What the lookup computes\<close>

text \<open>
  The contract: each group accepts some lengths, and its manager finds the longest one it
  accepts up to a bound. \<open>longest P n\<close> is the greatest length up to \<open>n\<close> with \<open>P\<close>.
\<close>

definition longest :: "(nat \<Rightarrow> bool) \<Rightarrow> nat \<Rightarrow> nat" where
  "longest P n = Max {l. l \<le> n \<and> P l}"

lemma longest_spec:
  assumes "P 0"
  shows "longest P n \<le> n" and "P (longest P n)" and "\<And>l. l \<le> n \<Longrightarrow> P l \<Longrightarrow> l \<le> longest P n"
proof -
  have f: "finite {l. l \<le> n \<and> P l}" by (rule finite_subset [of _ "{..n}"]) auto
  have "longest P n \<in> {l. l \<le> n \<and> P l}" unfolding longest_def by (rule Max_in [OF f]) (use assms in auto)
  then show "longest P n \<le> n" "P (longest P n)" by simp_all
  show "\<And>l. l \<le> n \<Longrightarrow> P l \<Longrightarrow> l \<le> longest P n" unfolding longest_def by (rule Max_ge [OF f]) simp
qed

lemma longest_eqI: "P 0 \<Longrightarrow> m \<le> n \<Longrightarrow> P m \<Longrightarrow> (\<And>l. l \<le> n \<Longrightarrow> P l \<Longrightarrow> l \<le> m) \<Longrightarrow> longest P n = m"
  by (intro le_antisym) (auto intro: longest_spec)

text \<open>
  The shape of a group and of the lengths it accepts: multiples of the alignment that all
  managers are given, downwards closed for full attention.
\<close>

definition honest_group :: "('b attn_group \<Rightarrow> nat \<Rightarrow> bool) \<Rightarrow> nat \<Rightarrow> nat \<Rightarrow> 'b attn_group \<Rightarrow> bool" where
  "honest_group accepts alignment num_groups g \<longleftrightarrow>
     ag_group_ids g \<noteq> [] \<and> distinct (ag_group_ids g) \<and> (\<forall>i \<in> set (ag_group_ids g). i < num_groups)
     \<and> 0 < ag_effective_block_size g \<and> ag_effective_block_size g dvd alignment
     \<and> accepts g 0 \<and> (\<forall>l. accepts g l \<longrightarrow> alignment dvd l)
     \<and> (ag_kind g = FullAttention \<longrightarrow> (\<forall>l l'. accepts g l \<longrightarrow> l' \<le> l \<longrightarrow> alignment dvd l' \<longrightarrow> accepts g l'))
     \<and> (\<forall>h n. length (ag_find g h False n) = length (ag_group_ids g)
          \<and> (\<forall>blocks \<in> set (ag_find g h False n). length blocks * ag_effective_block_size g = longest (accepts g) n))"

definition active :: "bool \<Rightarrow> 'b attn_group \<Rightarrow> bool" where
  "active skip_mamba g \<longleftrightarrow> \<not> (skip_mamba \<and> ag_kind g = Mamba)"

text \<open>What a group's blocks are after its turn, and that no turn of another group touches them.\<close>

definition holds_blocks :: "('b attn_group \<Rightarrow> nat \<Rightarrow> bool) \<Rightarrow> 'b hits \<Rightarrow> 'b attn_group \<Rightarrow> nat \<Rightarrow> bool" where
  "holds_blocks accepts hits g v \<longleftrightarrow> accepts g v \<and>
     (\<forall>i \<in> set (ag_group_ids g). \<exists>blocks. hits ! i = Some blocks \<and> length blocks * ag_effective_block_size g = v)"

definition full_ready :: "('b attn_group \<Rightarrow> nat \<Rightarrow> bool) \<Rightarrow> nat \<Rightarrow> 'b hits \<Rightarrow> 'b attn_group \<Rightarrow> nat \<Rightarrow> bool" where
  "full_ready accepts alignment hits g cur \<longleftrightarrow>
     (\<forall>i \<in> set (ag_group_ids g). hits ! i = None) \<or> (alignment dvd cur \<and> (\<exists>v. cur \<le> v \<and> holds_blocks accepts hits g v))"

lemma store_hits_ok:
  "distinct (map fst xs) \<Longrightarrow> \<forall>i \<in> set (map fst xs). i < length hits \<Longrightarrow>
   \<exists>hits'. store_hits xs hits = Inr hits' \<and> length hits' = length hits
     \<and> (\<forall>(i, b) \<in> set xs. hits' ! i = Some b) \<and> (\<forall>i. i \<notin> set (map fst xs) \<longrightarrow> hits' ! i = hits ! i)"
proof (induction xs arbitrary: hits)
  case Nil
  then show ?case by simp
next
  case (Cons p xs)
  obtain i b where p: "p = (i, b)" by (cases p)
  have "distinct (map fst xs)" "\<forall>j \<in> set (map fst xs). j < length (hits[i := Some b])"
    using Cons.prems by (simp_all add: p)
  from Cons.IH [OF this] obtain hits' where h: "store_hits xs (hits[i := Some b]) = Inr hits'"
    and len: "length hits' = length hits" and set: "\<forall>(j, c) \<in> set xs. hits' ! j = Some c"
    and other: "\<forall>j. j \<notin> set (map fst xs) \<longrightarrow> hits' ! j = hits[i := Some b] ! j" by auto
  have i: "i < length hits" "i \<notin> set (map fst xs)" using Cons.prems by (simp_all add: p)
  have "hits' ! i = Some b" using other i by simp
  moreover have "store_hits (p # xs) hits = Inr hits'" using h i(1) by (simp add: p py_set_def)
  ultimately show ?case using len set other by (auto simp: p)
qed

lemma lookup_group_ok:
  assumes g: "honest_group accepts M n g" and act: "active skip g" and eagle: "co_eagle_attn_group_indices co = {}"
    and len: "length hits = n" and ready: "ag_kind g = FullAttention \<longrightarrow> full_ready accepts M hits g cur"
  shows "\<exists>cur' hits' v ver'. lookup_group co skip mx (idx, g) (cur, hits, ver) = Inr (cur', hits', ver')
    \<and> length hits' = n \<and> cur' \<le> cur \<and> M dvd cur' \<and> (\<forall>l \<le> cur. accepts g l \<longrightarrow> l \<le> cur')
    \<and> holds_blocks accepts hits' g v \<and> cur' \<le> v \<and> (ag_kind g \<noteq> FullAttention \<longrightarrow> v = cur')
    \<and> (\<forall>i. i \<notin> set (ag_group_ids g) \<longrightarrow> hits' ! i = hits ! i)"
proof -
  let ?e = "ag_effective_block_size g"
  have ids: "ag_group_ids g \<noteq> []" "distinct (ag_group_ids g)" "\<forall>i \<in> set (ag_group_ids g). i < n"
    and e: "0 < ?e" "?e dvd M" and acc: "accepts g 0" "\<And>l. accepts g l \<Longrightarrow> M dvd l"
    and find_len: "\<And>h m. length (ag_find g h False m) = length (ag_group_ids g)"
    and find: "\<And>h m blocks. blocks \<in> set (ag_find g h False m) \<Longrightarrow> length blocks * ?e = longest (accepts g) m"
    using g by (simp_all add: honest_group_def)
  define first where "first = hd (ag_group_ids g)"
  have first: "py_index (ag_group_ids g) 0 = Inr first" "first \<in> set (ag_group_ids g)" "py_index hits first = Inr (hits ! first)"
    using ids len by (cases "ag_group_ids g"; simp add: first_def py_index_def)+
  show ?thesis
  proof (cases "ag_kind g = FullAttention \<and> hits ! first \<noteq> None")
    case True
    then obtain v where v: "M dvd cur" "cur \<le> v" "holds_blocks accepts hits g v"
      using ready first(2) by (auto simp: full_ready_def)
    have "cur div ?e * ?e = cur" using v(1) e(2) by (meson dvd_div_mult_self dvd_trans)
    then have "lookup_group co skip mx (idx, g) (cur, hits, ver) = Inr (cur, hits, ver)"
      using True act e(1) by (simp add: lookup_group_def first active_def)
    then show ?thesis using v len True by blast
  next
    case False
    let ?r = "ag_find g (get_block_hashes co g) False cur" and ?v = "longest (accepts g) cur"
    have r0: "?r \<noteq> []" using find_len [of "get_block_hashes co g" cur] ids(1) by auto
    have new: "length (?r ! 0) * ?e = ?v" using find [of "?r ! 0" "get_block_hashes co g" cur] r0 by simp
    have fsts: "map fst (zip (ag_group_ids g) ?r) = ag_group_ids g" by (rule map_fst_zip) (simp add: find_len)
    obtain hits' where h: "store_hits (zip (ag_group_ids g) ?r) hits = Inr hits'" "length hits' = length hits"
      and set: "\<forall>(i, b) \<in> set (zip (ag_group_ids g) ?r). hits' ! i = Some b"
      and other: "\<forall>i. i \<notin> set (ag_group_ids g) \<longrightarrow> hits' ! i = hits ! i"
      using store_hits_ok [of "zip (ag_group_ids g) ?r" hits] ids(2,3) len unfolding fsts by blast
    have run: "lookup_group co skip mx (idx, g) (cur, hits, ver) = Inr (?v, hits', if ?v < cur then {} else ver)"
    proof -
      have c: "(ag_kind g = FullAttention \<and> hits ! first \<noteq> None) = False" "(skip \<and> ag_kind g = Mamba) = False"
        "py_index ?r 0 = Inr (?r ! 0)"
        using False act r0 by (auto simp: active_def py_index_def)
      show ?thesis
        by (simp only: lookup_group_def prod.case first rbind_simps c eagle empty_iff simp_thms if_False Let_def new h(1))
    qed
    have "\<exists>blocks. hits' ! i = Some blocks \<and> length blocks * ?e = ?v" if "i \<in> set (ag_group_ids g)" for i
    proof -
      have "i \<in> fst ` set (zip (ag_group_ids g) ?r)" using that by (simp only: set_map [symmetric] fsts)
      then obtain b where "(i, b) \<in> set (zip (ag_group_ids g) ?r)" by auto
      then show ?thesis using set find by (fastforce dest: set_zip_rightD)
    qed
    then have "holds_blocks accepts hits' g ?v" using longest_spec(2) [of "accepts g"] acc(1) by (simp add: holds_blocks_def)
    note held = this
    show ?thesis
    proof (intro exI conjI)
      show "lookup_group co skip mx (idx, g) (cur, hits, ver) = Inr (?v, hits', if ?v < cur then {} else ver)" by (rule run)
      show "M dvd ?v" using acc(2) longest_spec(2) [of "accepts g" cur] acc(1) by simp
      show "\<forall>l \<le> cur. accepts g l \<longrightarrow> l \<le> ?v" using longest_spec(3) [of "accepts g"] acc(1) by simp
      show "holds_blocks accepts hits' g ?v" by (rule held)
    qed (use h(2) len other longest_spec(1) [of "accepts g" cur] acc(1) in simp_all)
  qed
qed

lemma lookup_group_skipped:
  assumes g: "honest_group accepts M n g" and act: "\<not> active skip g" and len: "length hits = n"
  shows "\<exists>hits'. lookup_group co skip mx (idx, g) (cur, hits, ver) = Inr (cur, hits', ver) \<and> length hits' = n
    \<and> (\<forall>i. i \<notin> set (ag_group_ids g) \<longrightarrow> hits' ! i = hits ! i)"
proof -
  have ids: "ag_group_ids g \<noteq> []" "distinct (ag_group_ids g)" "\<forall>i \<in> set (ag_group_ids g). i < n"
    using g by (simp_all add: honest_group_def)
  define first where "first = hd (ag_group_ids g)"
  have first: "py_index (ag_group_ids g) 0 = Inr first" "py_index hits first = Inr (hits ! first)"
    using ids len by (cases "ag_group_ids g"; simp add: first_def py_index_def)+
  let ?xs = "map (\<lambda>i. (i, [])) (ag_group_ids g)"
  have fsts: "map fst ?xs = ag_group_ids g" by (simp add: o_def)
  obtain hits' where "store_hits ?xs hits = Inr hits'" "length hits' = length hits"
    "\<forall>i. i \<notin> set (ag_group_ids g) \<longrightarrow> hits' ! i = hits ! i"
    using store_hits_ok [of ?xs hits] ids(2,3) len unfolding fsts by blast
  then show ?thesis using act len
    by (cases "hits ! first = None") (auto simp: lookup_group_def first active_def)
qed

lemma holds_blocks_elsewhere:
  "\<forall>i \<in> set (ag_group_ids g). hits' ! i = hits ! i \<Longrightarrow> holds_blocks accepts hits' g v = holds_blocks accepts hits g v"
  by (auto simp: holds_blocks_def)

text \<open>One round over the groups.\<close>

lemma lookup_pass_ok:
  assumes "\<forall>g \<in> set gs. honest_group accepts M n g" and "distinct (concat (map ag_group_ids gs))"
    and "co_eagle_attn_group_indices co = {}" and "length hits = n"
    and "\<forall>g \<in> set gs. ag_kind g = FullAttention \<longrightarrow> full_ready accepts M hits g cur"
  shows "\<exists>cur' hits' ver'. lookup_pass co skip mx (enumerate k gs) (cur, hits, ver) = Inr (cur', hits', ver')
    \<and> length hits' = n \<and> cur' \<le> cur \<and> (M dvd cur' \<or> cur' = cur \<and> (\<forall>g \<in> set gs. \<not> active skip g))
    \<and> (\<forall>l \<le> cur. (\<forall>g \<in> set gs. active skip g \<longrightarrow> accepts g l) \<longrightarrow> l \<le> cur')
    \<and> (\<forall>g \<in> set gs. active skip g \<longrightarrow> (\<exists>v. holds_blocks accepts hits' g v \<and> cur' \<le> v
          \<and> (ag_kind g \<noteq> FullAttention \<longrightarrow> v \<le> cur)))
    \<and> (gs \<noteq> [] \<and> active skip (last gs) \<and> ag_kind (last gs) \<noteq> FullAttention \<longrightarrow> holds_blocks accepts hits' (last gs) cur')
    \<and> (\<forall>i. i \<notin> set (concat (map ag_group_ids gs)) \<longrightarrow> hits' ! i = hits ! i)"
  using assms
proof (induction gs arbitrary: k cur hits ver)
  case Nil
  then show ?case by simp
next
  case (Cons g gs)
  have g: "honest_group accepts M n g" and gs: "\<forall>g \<in> set gs. honest_group accepts M n g" "distinct (concat (map ag_group_ids gs))"
    and apart: "set (ag_group_ids g) \<inter> set (concat (map ag_group_ids gs)) = {}"
    using Cons.prems(1,2) by auto
  have others: "set (ag_group_ids h) \<inter> set (ag_group_ids g) = {}" if "h \<in> set gs" for h
    using apart that by auto
  have keep: "full_ready accepts M hits1 h cur1"
    if "h \<in> set gs" "ag_kind h = FullAttention" "\<forall>i. i \<notin> set (ag_group_ids g) \<longrightarrow> hits1 ! i = hits ! i"
      "cur1 \<le> cur" "M dvd cur1 \<or> cur1 = cur" for hits1 h cur1
  proof -
    have same: "\<forall>i \<in> set (ag_group_ids h). hits1 ! i = hits ! i" using that(3) others [OF that(1)] by blast
    have "full_ready accepts M hits h cur" using Cons.prems(5) that(1,2) by simp
    then show ?thesis using that(4,5) same holds_blocks_elsewhere [OF same] unfolding full_ready_def
      by (metis le_trans)
  qed
  show ?case
  proof (cases "active skip g")
    case True
    obtain cur1 hits1 v ver1 where run: "lookup_group co skip mx (k, g) (cur, hits, ver) = Inr (cur1, hits1, ver1)"
      and st: "length hits1 = n" "cur1 \<le> cur" "M dvd cur1" "\<forall>l \<le> cur. accepts g l \<longrightarrow> l \<le> cur1"
        "holds_blocks accepts hits1 g v" "cur1 \<le> v" "ag_kind g \<noteq> FullAttention \<longrightarrow> v = cur1"
        "\<forall>i. i \<notin> set (ag_group_ids g) \<longrightarrow> hits1 ! i = hits ! i"
      using lookup_group_ok [OF g True Cons.prems(3,4), of cur mx k ver] Cons.prems(5) by auto
    have "\<forall>h \<in> set gs. ag_kind h = FullAttention \<longrightarrow> full_ready accepts M hits1 h cur1"
      using keep st(2,3,8) by blast
    from Cons.IH [OF gs Cons.prems(3) st(1) this, of "Suc k" ver1] obtain cur2 hits2 ver2
      where run2: "lookup_pass co skip mx (enumerate (Suc k) gs) (cur1, hits1, ver1) = Inr (cur2, hits2, ver2)"
        and p: "length hits2 = n" "cur2 \<le> cur1" "M dvd cur2 \<or> cur2 = cur1 \<and> (\<forall>g \<in> set gs. \<not> active skip g)"
          "\<forall>l \<le> cur1. (\<forall>g \<in> set gs. active skip g \<longrightarrow> accepts g l) \<longrightarrow> l \<le> cur2"
          "\<forall>g \<in> set gs. active skip g \<longrightarrow> (\<exists>v. holds_blocks accepts hits2 g v \<and> cur2 \<le> v \<and> (ag_kind g \<noteq> FullAttention \<longrightarrow> v \<le> cur1))"
          "gs \<noteq> [] \<and> active skip (last gs) \<and> ag_kind (last gs) \<noteq> FullAttention \<longrightarrow> holds_blocks accepts hits2 (last gs) cur2"
          "\<forall>i. i \<notin> set (concat (map ag_group_ids gs)) \<longrightarrow> hits2 ! i = hits1 ! i"
      by blast
    have "\<forall>i \<in> set (ag_group_ids g). hits2 ! i = hits1 ! i" using p(7) apart by blast
    from holds_blocks_elsewhere [OF this] have hg: "holds_blocks accepts hits2 g v" using st(5) by simp
    have run3: "lookup_pass co skip mx (enumerate k (g # gs)) (cur, hits, ver) = Inr (cur2, hits2, ver2)"
      using run run2 by simp
    have div: "M dvd cur2" using p(3) st(3) by auto
    have all: "\<exists>v. holds_blocks accepts hits2 h v \<and> cur2 \<le> v \<and> (ag_kind h \<noteq> FullAttention \<longrightarrow> v \<le> cur)"
      if "h \<in> set (g # gs)" "active skip h" for h
      using that hg p(2,5) st(2,6,7) by (metis le_trans le_refl set_ConsD)
    have last: "holds_blocks accepts hits2 (last (g # gs)) cur2"
      if "active skip (last (g # gs))" "ag_kind (last (g # gs)) \<noteq> FullAttention"
    proof (cases "gs = []")
      case True
      then have "cur2 = cur1" using run2 by simp
      then show ?thesis using True hg st(7) that by simp
    next
      case False
      then show ?thesis using p(6) that by simp
    qed
    have bound: "l \<le> cur2" if "l \<le> cur" "\<forall>h \<in> set (g # gs). active skip h \<longrightarrow> accepts h l" for l
      using that p(4) st(4) True by simp
    have same: "hits2 ! i = hits ! i" if "i \<notin> set (concat (map ag_group_ids (g # gs)))" for i
      using that p(7) st(8) by simp
    show ?thesis using run3 p(1) le_trans [OF p(2) st(2)] div all last bound same by blast
  next
    case False
    obtain hits1 where run: "lookup_group co skip mx (k, g) (cur, hits, ver) = Inr (cur, hits1, ver)"
      and st: "length hits1 = n" "\<forall>i. i \<notin> set (ag_group_ids g) \<longrightarrow> hits1 ! i = hits ! i"
      using lookup_group_skipped [OF g False Cons.prems(4), of co mx k cur ver] by blast
    have "\<forall>h \<in> set gs. ag_kind h = FullAttention \<longrightarrow> full_ready accepts M hits1 h cur"
      using keep st(2) by blast
    from Cons.IH [OF gs Cons.prems(3) st(1) this, of "Suc k" ver] obtain cur2 hits2 ver2
      where run2: "lookup_pass co skip mx (enumerate (Suc k) gs) (cur, hits1, ver) = Inr (cur2, hits2, ver2)"
        and p: "length hits2 = n" "cur2 \<le> cur" "M dvd cur2 \<or> cur2 = cur \<and> (\<forall>g \<in> set gs. \<not> active skip g)"
          "\<forall>l \<le> cur. (\<forall>g \<in> set gs. active skip g \<longrightarrow> accepts g l) \<longrightarrow> l \<le> cur2"
          "\<forall>g \<in> set gs. active skip g \<longrightarrow> (\<exists>v. holds_blocks accepts hits2 g v \<and> cur2 \<le> v \<and> (ag_kind g \<noteq> FullAttention \<longrightarrow> v \<le> cur))"
          "gs \<noteq> [] \<and> active skip (last gs) \<and> ag_kind (last gs) \<noteq> FullAttention \<longrightarrow> holds_blocks accepts hits2 (last gs) cur2"
          "\<forall>i. i \<notin> set (concat (map ag_group_ids gs)) \<longrightarrow> hits2 ! i = hits1 ! i"
      by blast
    have run3: "lookup_pass co skip mx (enumerate k (g # gs)) (cur, hits, ver) = Inr (cur2, hits2, ver2)"
      using run run2 by simp
    have last: "holds_blocks accepts hits2 (last (g # gs)) cur2"
      if "active skip (last (g # gs))" "ag_kind (last (g # gs)) \<noteq> FullAttention"
    proof (cases "gs = []")
      case True
      then show ?thesis using that(1) False by simp
    next
      case False
      then show ?thesis using p(6) that by simp
    qed
    have same: "hits2 ! i = hits ! i" if "i \<notin> set (concat (map ag_group_ids (g # gs)))" for i
      using that p(7) st(2) by simp
    have all: "\<exists>v. holds_blocks accepts hits2 h v \<and> cur2 \<le> v \<and> (ag_kind h \<noteq> FullAttention \<longrightarrow> v \<le> cur)"
      if "h \<in> set (g # gs)" "active skip h" for h
      using that p(5) False by auto
    show ?thesis
    proof (intro exI conjI)
      show "lookup_pass co skip mx (enumerate k (g # gs)) (cur, hits, ver) = Inr (cur2, hits2, ver2)" by (rule run3)
      show "\<forall>l \<le> cur. (\<forall>h \<in> set (g # gs). active skip h \<longrightarrow> accepts h l) \<longrightarrow> l \<le> cur2" using p(4) by simp
      show "M dvd cur2 \<or> cur2 = cur \<and> (\<forall>h \<in> set (g # gs). \<not> active skip h)" using p(3) False by auto
      show "g # gs \<noteq> [] \<and> active skip (last (g # gs)) \<and> ag_kind (last (g # gs)) \<noteq> FullAttention
          \<longrightarrow> holds_blocks accepts hits2 (last (g # gs)) cur2" using last by blast
      show "\<forall>h \<in> set (g # gs). active skip h \<longrightarrow> (\<exists>v. holds_blocks accepts hits2 h v \<and> cur2 \<le> v
          \<and> (ag_kind h \<noteq> FullAttention \<longrightarrow> v \<le> cur))" using all by simp
      show "\<forall>i. i \<notin> set (concat (map ag_group_ids (g # gs))) \<longrightarrow> hits2 ! i = hits ! i" using same by simp
    qed (rule p(1), rule p(2))
  qed
qed

text \<open>The loop: the length it ends with is the longest one all groups accept.\<close>

lemma holds_closed:
  assumes "honest_group accepts M n g" and "holds_blocks accepts hits g v" and "l \<le> v" and "M dvd l"
    and "ag_kind g = FullAttention \<or> v = l"
  shows "accepts g l"
  using assms unfolding honest_group_def holds_blocks_def by blast

lemma lookup_loop_ok:
  fixes co :: "'b coordinator"
  assumes groups: "\<forall>g \<in> set (co_attention_groups co). honest_group accepts M n g"
    and apart: "distinct (concat (map ag_group_ids (co_attention_groups co)))"
    and eagle: "co_eagle_attn_group_indices co = {}"
  shows "length hits = n \<Longrightarrow>
    \<forall>g \<in> set (co_attention_groups co). ag_kind g = FullAttention \<longrightarrow> full_ready accepts M hits g hit \<Longrightarrow>
    \<exists>hits'. lookup_loop co skip mx hit hits ver
        = Some (Inr (hits', longest (\<lambda>l. \<forall>g \<in> set (co_attention_groups co). active skip g \<longrightarrow> accepts g l) hit))
      \<and> length hits' = n
      \<and> (\<forall>g \<in> set (co_attention_groups co). active skip g \<longrightarrow>
          (\<exists>v. holds_blocks accepts hits' g v
             \<and> longest (\<lambda>l. \<forall>g \<in> set (co_attention_groups co). active skip g \<longrightarrow> accepts g l) hit \<le> v
             \<and> (ag_kind g \<noteq> FullAttention \<longrightarrow>
                 v = longest (\<lambda>l. \<forall>g \<in> set (co_attention_groups co). active skip g \<longrightarrow> accepts g l) hit)))"
proof (induction hit arbitrary: hits ver rule: less_induct)
  case (less hit)
  let ?gs = "co_attention_groups co"
  let ?C = "\<lambda>l. \<forall>g \<in> set ?gs. active skip g \<longrightarrow> accepts g l"
  have C0: "?C 0" using groups by (simp add: honest_group_def)
  obtain cur hits1 ver1 where run: "lookup_pass co skip mx (enumerate 0 ?gs) (hit, hits, ver) = Inr (cur, hits1, ver1)"
    and p: "length hits1 = n" "cur \<le> hit" "M dvd cur \<or> cur = hit \<and> (\<forall>g \<in> set ?gs. \<not> active skip g)"
      "\<forall>l \<le> hit. ?C l \<longrightarrow> l \<le> cur"
      "\<forall>g \<in> set ?gs. active skip g \<longrightarrow> (\<exists>v. holds_blocks accepts hits1 g v \<and> cur \<le> v \<and> (ag_kind g \<noteq> FullAttention \<longrightarrow> v \<le> hit))"
      "?gs \<noteq> [] \<and> active skip (last ?gs) \<and> ag_kind (last ?gs) \<noteq> FullAttention \<longrightarrow> holds_blocks accepts hits1 (last ?gs) cur"
    using lookup_pass_ok [OF groups apart eagle less.prems, of skip mx 0 ver] by blast
  have div: "M dvd cur" if "g \<in> set ?gs" "active skip g" for g using p(3) that by blast
  have settled: ?case
    if agree: "\<And>g. g \<in> set ?gs \<Longrightarrow> active skip g \<Longrightarrow>
        \<exists>v. holds_blocks accepts hits1 g v \<and> cur \<le> v \<and> (ag_kind g \<noteq> FullAttention \<longrightarrow> v = cur)"
      and out: "lookup_loop co skip mx hit hits ver = Some (Inr (hits1, cur))"
  proof -
    have "?C cur" using agree holds_closed div groups by metis
    then have "longest ?C hit = cur" using p(2,4) C0 by (intro longest_eqI) auto
    then show ?thesis using out p(1) agree by auto
  qed
  show ?case
  proof (cases "hit \<le> cur")
    case True
    then have c: "cur = hit" using p(2) by simp
    show ?thesis
    proof (rule settled)
      show "lookup_loop co skip mx hit hits ver = Some (Inr (hits1, cur))"
        by (subst lookup_loop.simps) (simp add: run c)
      show "\<exists>v. holds_blocks accepts hits1 g v \<and> cur \<le> v \<and> (ag_kind g \<noteq> FullAttention \<longrightarrow> v = cur)"
        if "g \<in> set ?gs" "active skip g" for g
        using p(5) that c by (metis le_antisym)
    qed
  next
    case less_cur: False
    show ?thesis
    proof (cases "is_simple_hybrid co")
      case True
      then obtain g1 g2 where gs: "?gs = [g1, g2]" and full: "ag_kind g1 = FullAttention"
        by (auto simp: is_simple_hybrid_def length_Suc_conv numeral_2_eq_2)
      show ?thesis
      proof (rule settled)
        show "lookup_loop co skip mx hit hits ver = Some (Inr (hits1, cur))"
          using less_cur True by (subst lookup_loop.simps) (simp add: run)
        show "\<exists>v. holds_blocks accepts hits1 g v \<and> cur \<le> v \<and> (ag_kind g \<noteq> FullAttention \<longrightarrow> v = cur)"
          if "g \<in> set ?gs" "active skip g" for g
        proof (cases "ag_kind g = FullAttention")
          case True
          then show ?thesis using p(5) that by blast
        next
          case False
          then have "g = last ?gs" using that(1) full by (auto simp: gs)
          then have "holds_blocks accepts hits1 g cur" using p(6) that False by (auto simp: gs)
          then show ?thesis by blast
        qed
      qed
    next
      case False
      have step: "lookup_loop co skip mx hit hits ver = lookup_loop co skip mx cur hits1 ver1"
        using less_cur False by (subst lookup_loop.simps) (simp add: run)
      have ready: "\<forall>g \<in> set ?gs. ag_kind g = FullAttention \<longrightarrow> full_ready accepts M hits1 g cur"
      proof (intro ballI impI)
        fix g assume "g \<in> set ?gs" "ag_kind g = FullAttention"
        moreover from this have "active skip g" by (simp add: active_def)
        ultimately show "full_ready accepts M hits1 g cur" using p(5) div by (auto simp: full_ready_def)
      qed
      have "longest ?C cur = longest ?C hit"
      proof -
        have "longest ?C cur \<le> hit" using longest_spec(1) [of ?C cur] C0 p(2) by simp
        moreover have "?C (longest ?C cur)" by (rule longest_spec(2)) (rule C0)
        moreover have "l \<le> longest ?C cur" if "l \<le> hit" "?C l" for l
          by (rule longest_spec(3)) (use C0 p(4) that in blast)+
        ultimately show ?thesis using longest_eqI [of ?C "longest ?C cur" hit] C0 by simp
      qed
      moreover have "cur < hit" using less_cur by simp
      ultimately show ?thesis using less.IH [OF _ p(1) ready, of ver1] step by simp
    qed
  qed
qed

section \<open>Cutting the full-attention groups\<close>

lemma truncate_ids_ok:
  "distinct ids \<Longrightarrow> \<forall>i \<in> set ids. i < length hits \<Longrightarrow>
   \<exists>hits'. truncate_ids n ids hits = Inr hits' \<and> length hits' = length hits
     \<and> (\<forall>i \<in> set ids. hits' ! i = map_option (take n) (hits ! i)) \<and> (\<forall>i. i \<notin> set ids \<longrightarrow> hits' ! i = hits ! i)"
proof (induction ids arbitrary: hits)
  case Nil
  then show ?case by simp
next
  case (Cons i ids)
  let ?h = "hits[i := map_option (take n) (hits ! i)]"
  have "distinct ids" "\<forall>j \<in> set ids. j < length ?h" using Cons.prems by simp_all
  from Cons.IH [OF this] obtain hits' where h: "truncate_ids n ids ?h = Inr hits'" "length hits' = length hits"
    and set: "\<forall>j \<in> set ids. hits' ! j = map_option (take n) (?h ! j)" and other: "\<forall>j. j \<notin> set ids \<longrightarrow> hits' ! j = ?h ! j"
    by auto
  have i: "i < length hits" "i \<notin> set ids" using Cons.prems by simp_all
  have "truncate_ids n (i # ids) hits = Inr hits'" using h(1) i(1) by (simp add: py_index_def)
  moreover have "hits' ! j = map_option (take n) (hits ! j)" if "j \<in> set (i # ids)" for j
    using that set other i by (cases "j = i") auto
  moreover have "hits' ! j = hits ! j" if "j \<notin> set (i # ids)" for j using that other by simp
  moreover note h(2)
  ultimately show ?case by (intro exI [of _ hits'] conjI ballI allI impI) assumption+
qed

lemma truncate_full_ok:
  "\<forall>g \<in> set gs. honest_group accepts M (length hits) g \<Longrightarrow> distinct (concat (map ag_group_ids gs)) \<Longrightarrow>
   \<exists>hits'. truncate_full hit gs hits = Inr hits' \<and> length hits' = length hits
     \<and> (\<forall>g \<in> set gs. \<forall>i \<in> set (ag_group_ids g). hits' ! i =
          (if ag_kind g = FullAttention then map_option (take (hit div ag_effective_block_size g)) (hits ! i) else hits ! i))
     \<and> (\<forall>i. i \<notin> set (concat (map ag_group_ids gs)) \<longrightarrow> hits' ! i = hits ! i)"
proof (induction gs arbitrary: hits)
  case Nil
  then show ?case by simp
next
  case (Cons g gs)
  have apart: "set (ag_group_ids g) \<inter> set (concat (map ag_group_ids gs)) = {}" and d: "distinct (concat (map ag_group_ids gs))"
    and gs: "\<forall>g \<in> set gs. honest_group accepts M (length hits) g"
    and hg: "honest_group accepts M (length hits) g"
    using Cons.prems by (simp_all add: Int_commute)
  have ids: "distinct (ag_group_ids g)" "\<forall>i \<in> set (ag_group_ids g). i < length hits" "0 < ag_effective_block_size g"
    using hg unfolding honest_group_def by simp_all
  obtain hits1 where t: "truncate_full hit (g # gs) hits = truncate_full hit gs hits1" "length hits1 = length hits"
    and set: "\<forall>i \<in> set (ag_group_ids g). hits1 ! i =
        (if ag_kind g = FullAttention then map_option (take (hit div ag_effective_block_size g)) (hits ! i) else hits ! i)"
    and other: "\<forall>i. i \<notin> set (ag_group_ids g) \<longrightarrow> hits1 ! i = hits ! i"
    using truncate_ids_ok [OF ids(1,2), of "hit div ag_effective_block_size g"] ids(3)
    by (cases "ag_kind g = FullAttention") auto
  from Cons.IH [of hits1] gs d t(2) obtain hits' where h: "truncate_full hit gs hits1 = Inr hits'" "length hits' = length hits"
    and set': "\<forall>h \<in> set gs. \<forall>i \<in> set (ag_group_ids h). hits' ! i =
        (if ag_kind h = FullAttention then map_option (take (hit div ag_effective_block_size h)) (hits1 ! i) else hits1 ! i)"
    and other': "\<forall>i. i \<notin> set (concat (map ag_group_ids gs)) \<longrightarrow> hits' ! i = hits1 ! i"
    by auto
  have g: "hits' ! i = hits1 ! i" if "i \<in> set (ag_group_ids g)" for i using other' apart that by blast
  have gs': "hits1 ! i = hits ! i" if "h \<in> set gs" "i \<in> set (ag_group_ids h)" for h i
    using other apart that by auto
  show ?case
  proof (intro exI conjI)
    show "truncate_full hit (g # gs) hits = Inr hits'" using t(1) h(1) by simp
    show "\<forall>h \<in> set (g # gs). \<forall>i \<in> set (ag_group_ids h). hits' ! i =
        (if ag_kind h = FullAttention then map_option (take (hit div ag_effective_block_size h)) (hits ! i) else hits ! i)"
      using set set' g gs' by simp
    show "\<forall>i. i \<notin> set (concat (map ag_group_ids (g # gs))) \<longrightarrow> hits' ! i = hits ! i" using other other' by simp
  qed (rule h(2))
qed

section \<open>Groups that are passed over\<close>

text \<open>A group that does not take part has no blocks, before and after every turn.\<close>

definition passed_over :: "bool \<Rightarrow> 'b attn_group list \<Rightarrow> 'b hits \<Rightarrow> bool" where
  "passed_over skip gs hits \<longleftrightarrow>
     (\<forall>g \<in> set gs. \<not> active skip g \<longrightarrow> (\<forall>i \<in> set (ag_group_ids g). hits ! i = None \<or> hits ! i = Some []))"

lemma store_hits_elsewhere:
  "store_hits xs hits = Inr hits' \<Longrightarrow> length hits' = length hits \<and> (\<forall>i. i \<notin> fst ` set xs \<longrightarrow> hits' ! i = hits ! i)"
  by (induction xs arbitrary: hits) (auto simp: rbind_Inr_iff py_set_def split: if_splits)

lemma store_empty_hits:
  "store_hits (map (\<lambda>i. (i, [])) ids) hits = Inr hits' \<Longrightarrow>
     hits' ! i = hits ! i \<or> hits' ! i = Some []"
proof (induction ids arbitrary: hits)
  case Nil
  then show ?case by simp
next
  case (Cons j ids)
  then have "store_hits (map (\<lambda>i. (i, [])) ids) (hits[j := Some []]) = Inr hits'" "j < length hits"
    by (auto simp: rbind_Inr_iff py_set_def split: if_splits)
  then show ?case using Cons.IH [of "hits[j := Some []]"] by (cases "i = j") auto
qed

lemma lookup_group_passes_over:
  assumes run: "lookup_group co skip mx (idx, g) (cur, hits, ver) = Inr (cur', hits', ver')" and g: "g \<in> set gs"
    and apart: "distinct (concat (map ag_group_ids gs))" and over: "passed_over skip gs hits"
  shows "passed_over skip gs hits'"
proof -
  have disjoint: "i \<notin> set (ag_group_ids g)" if "h \<in> set gs" "h \<noteq> g" "i \<in> set (ag_group_ids h)" for h i
    using apart g that by (induction gs) (auto simp: disjoint_iff)
  show ?thesis
  proof (cases "active skip g")
    case False
    then have "hits' = hits \<or> store_hits (map (\<lambda>i. (i, [])) (ag_group_ids g)) hits = Inr hits'"
      using run by (auto simp: lookup_group_def active_def rbind_Inr_iff split: if_splits)
    then show ?thesis using over store_empty_hits unfolding passed_over_def by metis
  next
    case True
    then consider "hits' = hits" | blocks where "store_hits (zip (ag_group_ids g) blocks) hits = Inr hits'"
      using run by (auto simp: lookup_group_def active_def Let_def rbind_Inr_iff split: if_splits)
    then show ?thesis
    proof cases
      case 1
      then show ?thesis using over by simp
    next
      case 2
      have "hits' ! i = hits ! i" if "h \<in> set gs" "\<not> active skip h" "i \<in> set (ag_group_ids h)" for h i
      proof -
        have "i \<notin> set (ag_group_ids g)" using disjoint [OF that(1) _ that(3)] that(2) True by blast
        then have "i \<notin> fst ` set (zip (ag_group_ids g) blocks)" by (auto dest: set_zip_leftD)
        then show ?thesis using store_hits_elsewhere [OF 2] by blast
      qed
      then show ?thesis using over by (simp add: passed_over_def)
    qed
  qed
qed

lemma lookup_pass_passes_over:
  "lookup_pass co skip mx igs (cur, hits, ver) = Inr (cur', hits', ver') \<Longrightarrow> snd ` set igs \<subseteq> set gs \<Longrightarrow>
   distinct (concat (map ag_group_ids gs)) \<Longrightarrow> passed_over skip gs hits \<Longrightarrow> passed_over skip gs hits'"
proof (induction igs arbitrary: cur hits ver)
  case Nil
  then show ?case by simp
next
  case (Cons ig igs)
  obtain idx g where ig: "ig = (idx, g)" by (cases ig)
  obtain cur1 hits1 ver1 where one: "lookup_group co skip mx (idx, g) (cur, hits, ver) = Inr (cur1, hits1, ver1)"
    and rest: "lookup_pass co skip mx igs (cur1, hits1, ver1) = Inr (cur', hits', ver')"
    using Cons.prems(1) by (auto simp: ig rbind_Inr_iff)
  have "passed_over skip gs hits1"
    by (rule lookup_group_passes_over [OF one]) (use Cons.prems ig in auto)
  then show ?case using Cons.IH [OF rest] Cons.prems(2,3) by simp
qed

lemma lookup_loop_passes_over:
  assumes apart: "distinct (concat (map ag_group_ids (co_attention_groups co)))"
  shows "lookup_loop co skip mx hit hits ver = Some (Inr (hits', hit')) \<Longrightarrow> passed_over skip (co_attention_groups co) hits
    \<Longrightarrow> passed_over skip (co_attention_groups co) hits'"
proof (induction hit arbitrary: hits ver rule: less_induct)
  case (less hit)
  obtain cur hits1 ver1 where run: "lookup_pass co skip mx (enumerate 0 (co_attention_groups co)) (hit, hits, ver) = Inr (cur, hits1, ver1)"
    using less.prems(1) by (subst (asm) lookup_loop.simps) (auto split: sum.splits)
  have "snd ` set (enumerate 0 (co_attention_groups co)) \<subseteq> set (co_attention_groups co)"
    by (auto simp: enumerate_eq_zip dest: set_zip_rightD)
  from lookup_pass_passes_over [OF run this apart less.prems(2)]
  have over: "passed_over skip (co_attention_groups co) hits1" .
  show ?case
  proof (cases "hit \<le> cur \<or> is_simple_hybrid co")
    case True
    then have "hits' = hits1" using less.prems(1) run by (subst (asm) lookup_loop.simps) (auto split: if_splits)
    then show ?thesis using over by simp
  next
    case False
    then have "lookup_loop co skip mx cur hits1 ver1 = Some (Inr (hits', hit'))"
      using less.prems(1) run by (subst (asm) lookup_loop.simps) auto
    with less.IH [OF _ this over] False show ?thesis by simp
  qed
qed

text \<open>Cut to the common hit, the blocks of a group that takes part cover it.\<close>

lemma cut_blocks_cover:
  assumes "honest_group accepts M n g" and "accepts g hit" and i: "i \<in> set (ag_group_ids g)"
    and "\<exists>v. holds_blocks accepts hits g v \<and> hit \<le> v \<and> (ag_kind g \<noteq> FullAttention \<longrightarrow> v = hit)"
    and cut: "hits' ! i = (if ag_kind g = FullAttention then map_option (take (hit div ag_effective_block_size g)) (hits ! i) else hits ! i)"
  shows "length (case_option [] id (hits' ! i)) * ag_effective_block_size g = hit"
proof -
  let ?e = "ag_effective_block_size g"
  have e: "0 < ?e" "?e dvd hit"
    using assms(1,2) unfolding honest_group_def by (blast, meson dvd_trans)
  obtain v blocks where v: "hit \<le> v" "ag_kind g \<noteq> FullAttention \<longrightarrow> v = hit" "hits ! i = Some blocks" "length blocks * ?e = v"
    using assms(4) i unfolding holds_blocks_def by blast
  show ?thesis
  proof (cases "ag_kind g = FullAttention")
    case True
    have "hit div ?e \<le> length blocks" using v(1,4) e(1) by (metis div_le_mono nonzero_mult_div_cancel_right not_less_zero)
    then show ?thesis using cut True v(3) e by simp
  next
    case False
    then show ?thesis using cut v by simp
  qed
qed

text \<open>
  C13: The lookup refines its specification: with managers that find the longest length their
  group accepts, and without speculative (\<open>eagle\<close>) groups, the common hit is the longest length
  that every group taking part accepts; each of these cache groups is left with exactly the blocks that
  cover it, and each group that is passed over, a Mamba group where those are skipped, with none.
\<close>

theorem coordinator_finds_longest_common_hit:
  assumes groups: "\<forall>g \<in> set (co_attention_groups co). honest_group accepts alignment (co_num_groups co) g"
    and apart: "distinct (concat (map ag_group_ids (co_attention_groups co)))"
    and eagle: "co_eagle_attn_group_indices co = {}"
    and hit: "hit = longest (\<lambda>l. \<forall>g \<in> set (co_attention_groups co). active skip_mamba g \<longrightarrow> accepts g l) mx"
  shows "\<exists>blocks. find_longest_cache_hit co skip_mamba mx = Some (Inr (blocks, hit)) \<and> length blocks = co_num_groups co
    \<and> (\<forall>g \<in> set (co_attention_groups co). \<forall>i \<in> set (ag_group_ids g).
         if active skip_mamba g then length (blocks ! i) * ag_effective_block_size g = hit else blocks ! i = [])"
proof -
  let ?gs = "co_attention_groups co" and ?n = "co_num_groups co" and ?h0 = "replicate (co_num_groups co) None"
  let ?C = "\<lambda>l. \<forall>g \<in> set ?gs. active skip_mamba g \<longrightarrow> accepts g l"
  have "full_ready accepts alignment ?h0 g mx" if "g \<in> set ?gs" for g
    using groups that by (auto simp: full_ready_def honest_group_def)
  then obtain hits where l: "lookup_loop co skip_mamba mx mx ?h0 {} = Some (Inr (hits, hit))" and len: "length hits = ?n"
    and held: "\<forall>g \<in> set ?gs. active skip_mamba g \<longrightarrow> (\<exists>v. holds_blocks accepts hits g v \<and> hit \<le> v
        \<and> (ag_kind g \<noteq> FullAttention \<longrightarrow> v = hit))"
    using lookup_loop_ok [OF groups apart eagle, of ?h0 mx skip_mamba mx "{}"] unfolding hit by auto
  obtain hits' where t: "truncate_full hit ?gs hits = Inr hits'" and len': "length hits' = length hits"
    and cut: "\<forall>g \<in> set ?gs. \<forall>i \<in> set (ag_group_ids g). hits' ! i =
        (if ag_kind g = FullAttention then map_option (take (hit div ag_effective_block_size g)) (hits ! i) else hits ! i)"
    using truncate_full_ok [of ?gs accepts alignment hits hit] groups apart len by auto
  have "?C 0" using groups by (simp add: honest_group_def)
  then have common: "?C hit" unfolding hit by (rule longest_spec(2))
  have final: "length ((case_option [] id) (hits' ! i)) * ag_effective_block_size g = hit"
    if g: "g \<in> set ?gs" "active skip_mamba g" and i: "i \<in> set (ag_group_ids g)" for g i
    by (rule cut_blocks_cover [of accepts alignment "co_num_groups co"])
      (use groups held common cut g i in auto)
  have none: "case_option [] id (hits' ! i) = []"
    if g: "g \<in> set ?gs" "\<not> active skip_mamba g" and i: "i \<in> set (ag_group_ids g)" for g i
  proof -
    have "passed_over skip_mamba ?gs ?h0"
      using groups by (auto simp: passed_over_def honest_group_def)
    from lookup_loop_passes_over [OF apart l this] g i have "hits ! i = None \<or> hits ! i = Some []"
      by (simp add: passed_over_def)
    then show ?thesis using cut g i by auto
  qed
  have bound: "i < length hits'" if "g \<in> set ?gs" "i \<in> set (ag_group_ids g)" for g i
    using groups that len len' by (simp add: honest_group_def)
  let ?b = "map (case_option [] id) hits'"
  have "find_longest_cache_hit co skip_mamba mx = Some (Inr (?b, hit))"
    by (simp add: find_longest_cache_hit_def l t)
  moreover have "length ?b = ?n" using len len' by simp
  moreover have "\<forall>g \<in> set ?gs. \<forall>i \<in> set (ag_group_ids g).
      if active skip_mamba g then length (?b ! i) * ag_effective_block_size g = hit else ?b ! i = []"
    using final none bound by simp
  ultimately show ?thesis by blast
qed

text \<open>A compressed full-attention group with hits up to 12 tokens and another group with hits up to 8.\<close>

definition demo_group :: "spec_kind \<Rightarrow> nat \<Rightarrow> nat \<Rightarrow> nat \<Rightarrow> unit attn_group" where
  "demo_group k e i stored =
     \<lparr>ag_kind = k, ag_block_size = e, ag_effective_block_size = e, ag_group_ids = [i],
      ag_find = (\<lambda>h eagle n. [replicate (min n stored div 4 * 4 div e) ()])\<rparr>"

definition demo_coordinator :: "unit coordinator" where
  "demo_coordinator =
     \<lparr>co_num_groups = 2, co_attention_groups = [demo_group FullAttention 2 0 12, demo_group OtherSpec 4 1 8],
      co_eagle_attn_group_indices = {}, co_hash_block_size = 2, co_dcp_world_size = 1, co_pcp_world_size = 1\<rparr>"

definition demo_accepts :: "unit attn_group \<Rightarrow> nat \<Rightarrow> bool" where
  "demo_accepts g l \<longleftrightarrow> 4 dvd l \<and> l \<le> (if ag_kind g = FullAttention then 12 else 8)"

lemma longest_multiple: "0 < m \<Longrightarrow> longest (\<lambda>l. m dvd l \<and> l \<le> k) n = min n k div m * m"
proof (rule longest_eqI)
  show "l \<le> min n k div m * m" if "0 < m" "l \<le> n" "m dvd l \<and> l \<le> k" for l
    using that div_le_mono [of l "min n k" m] by (auto elim!: dvdE)
qed (auto intro: order_trans [OF div_times_less_eq_dividend])

lemma demo_group_longest:
  "longest (demo_accepts (demo_group k e i stored)) n = min n (if k = FullAttention then 12 else 8) div 4 * 4"
  using longest_multiple [of 4 "if k = FullAttention then 12 else 8" n]
  by (simp add: demo_accepts_def [abs_def] demo_group_def)

lemma demo_group_honest:
  assumes "i < 2" and "0 < e" and "e dvd 4" and "stored = (if k = FullAttention then 12 else 8)"
  shows "honest_group demo_accepts 4 2 (demo_group k e i stored)"
proof -
  have "e dvd m * 4" for m :: nat using assms(3) by (rule dvd_mult)
  then show ?thesis
    using assms unfolding honest_group_def demo_group_longest
    by (simp add: demo_group_def demo_accepts_def dvd_div_mult_self)
qed

lemma demo_groups_honest:
  "\<forall>g \<in> set (co_attention_groups demo_coordinator). honest_group demo_accepts 4 (co_num_groups demo_coordinator) g"
  by (simp add: demo_coordinator_def demo_group_honest)

theorem coordinator_finds_longest_common_hit_witness:
  "\<exists>blocks. find_longest_cache_hit demo_coordinator False 11 = Some (Inr (blocks, 8))
     \<and> length (blocks ! 0) * 2 = 8 \<and> length (blocks ! 1) * 4 = 8"
proof -
  have "longest (\<lambda>l. \<forall>g \<in> set (co_attention_groups demo_coordinator). active False g \<longrightarrow> demo_accepts g l) 11
      = longest (\<lambda>l. 4 dvd l \<and> l \<le> 8) 11"
    by (rule arg_cong [of _ _ "\<lambda>P. longest P 11"])
       (auto simp: demo_coordinator_def demo_group_def demo_accepts_def active_def)
  also have "\<dots> = 8" by (simp add: longest_multiple)
  finally have hit: "8 = longest (\<lambda>l. \<forall>g \<in> set (co_attention_groups demo_coordinator). active False g \<longrightarrow> demo_accepts g l) 11"
    by simp
  have "distinct (concat (map ag_group_ids (co_attention_groups demo_coordinator)))" "co_eagle_attn_group_indices demo_coordinator = {}"
    by (simp_all add: demo_coordinator_def demo_group_def)
  from coordinator_finds_longest_common_hit [OF demo_groups_honest this hit]
  show ?thesis by (auto simp: demo_coordinator_def demo_group_def active_def)
qed

end
