(* ===== verification/Slot_Allocation.thy ===== *)
theory Slot_Allocation
  imports Ucm_Prelude
begin

text \<open>
  Two patches of vLLM's KV-cache managers: how many free blocks a request needs
  (\<open>patch/common/kv_cache_get_free_block.py\<close>) and the allocation of a compressed-attention
  group (\<open>CompressAttentionManager\<close> of \<open>single_type_kv_cache_manager.py\<close>, the same in
  every patched version). Counts are Python integers.
\<close>

section \<open>Blocks and managers\<close>

record kv_block =
  kb_block_id :: nat
  kb_ref_cnt :: nat
  kb_is_null :: bool
  kb_block_hash :: "bytes option"

text \<open>
  A manager of one cache group. \<open>req_to_blocks\<close> is a \<open>defaultdict(list)\<close>: a request
  without an entry has no blocks. \<open>get_num_skipped_tokens\<close> is vLLM's.
\<close>

record kv_manager =
  km_block_size :: int
  km_req_to_blocks :: "(req_id, kv_block list) dict"
  km_num_cached_block :: "(req_id, nat) dict"
  km_get_num_skipped_tokens :: "int \<Rightarrow> int"

record mamba_manager = kv_manager +
  mb_is_mamba_spec :: bool
  mb_cached_blocks_this_step :: "bytes option set"
  mb_num_gpu_blocks :: int
  mb_align :: bool
  mb_num_speculative_blocks :: int
  mb_spec_block_size :: int
  mb_allocated_block_reqs :: "req_id set"

definition cdiv :: "int \<Rightarrow> int \<Rightarrow> int result" where
  "cdiv a b = (if b = 0 then Inl ZeroDivisionError else Inr (- (a div - b)))"

definition floor_div :: "int \<Rightarrow> int \<Rightarrow> int result" where
  "floor_div a b = (if b = 0 then Inl ZeroDivisionError else Inr (a div b))"

section \<open>Counting the blocks to allocate\<close>

definition get_num_evictable_blocks :: "kv_block list \<Rightarrow> int" where
  "get_num_evictable_blocks blocks = int (length (filter (\<lambda>b. kb_ref_cnt b = 0 \<and> \<not> kb_is_null b) blocks))"

definition single_type_get_num_blocks_to_allocate ::
  "'x kv_manager_scheme \<Rightarrow> req_id \<Rightarrow> int \<Rightarrow> kv_block list \<Rightarrow> int \<Rightarrow> int result" where
  "single_type_get_num_blocks_to_allocate m request_id num_tokens new_computed_blocks total_computed_tokens =
     rbind (cdiv num_tokens (km_block_size m)) (\<lambda>num_required_blocks.
       let num_req_blocks = int (length (dict_get_or (km_req_to_blocks m) request_id [])) in
       if dict_get (km_num_cached_block m) request_id \<noteq> None
       then (if new_computed_blocks \<noteq> [] then Inl AssertionError else Inr (max (num_required_blocks - num_req_blocks) 0))
       else
         rbind (floor_div (km_get_num_skipped_tokens m total_computed_tokens) (km_block_size m)) (\<lambda>num_skipped_blocks.
           let num_local_computed_blocks = int (length new_computed_blocks) + num_req_blocks;
               num_new_blocks = max (num_required_blocks - max num_skipped_blocks num_local_computed_blocks) 0;
               num_skipped_new_computed_blocks = max 0 (num_skipped_blocks - num_req_blocks);
               num_evictable_blocks = get_num_evictable_blocks (drop (nat num_skipped_new_computed_blocks) new_computed_blocks)
           in Inr (num_new_blocks + num_evictable_blocks)))"

text \<open>
  The Mamba manager in align mode: the request's state blocks, its external ones, and the
  blocks between that need not exist. \<open>mamba_computed\<close> is the part for a request that has
  no blocks yet: what it needs so far, and how many blocks it then has.
\<close>

definition mamba_computed ::
  "'x mamba_manager_scheme \<Rightarrow> kv_block list \<Rightarrow> int \<Rightarrow> int \<Rightarrow> (int \<times> int) result" where
  "mamba_computed m new_computed_blocks total_computed_tokens num_external_computed_tokens =
     (let num_skipped_tokens = km_get_num_skipped_tokens m total_computed_tokens in
      rbind (floor_div num_skipped_tokens (km_block_size m)) (\<lambda>num_skipped_blocks.
        let (after_skip, external) =
              (if 0 < num_skipped_blocks
               then (drop (nat num_skipped_blocks) new_computed_blocks,
                     min (total_computed_tokens - num_skipped_tokens) num_external_computed_tokens)
               else (new_computed_blocks, num_external_computed_tokens));
            evictable = get_num_evictable_blocks after_skip;
            req_len = num_skipped_blocks + int (length after_skip)
        in if 0 < external
           then rbind (cdiv total_computed_tokens (km_block_size m)) (\<lambda>target.
                  let num_external_blocks = max (target - req_len) 0
                  in Inr (evictable + num_external_blocks, req_len + num_external_blocks))
           else Inr (evictable, req_len)))"

definition mamba_get_num_blocks_to_allocate ::
  "'x mamba_manager_scheme \<Rightarrow> req_id \<Rightarrow> int \<Rightarrow> kv_block list \<Rightarrow> int \<Rightarrow> int \<Rightarrow> int \<Rightarrow> int result" where
  "mamba_get_num_blocks_to_allocate m request_id num_tokens new_computed_blocks total_computed_tokens
       num_tokens_main_model num_external_computed_tokens =
     (if \<not> mb_is_mamba_spec m then Inl AssertionError
      else if new_computed_blocks \<noteq> [] \<and> kb_block_hash (last new_computed_blocks) \<in> mb_cached_blocks_this_step m
      then Inr (mb_num_gpu_blocks m + 1)
      else if \<not> mb_align m
      then single_type_get_num_blocks_to_allocate m request_id
             (if 0 < mb_num_speculative_blocks m
              then num_tokens + mb_spec_block_size m * mb_num_speculative_blocks m else num_tokens)
             new_computed_blocks total_computed_tokens
      else
        let req_blocks = dict_get_or (km_req_to_blocks m) request_id [];
            spec = mb_num_speculative_blocks m
        in rbind (if dict_get (km_num_cached_block m) request_id \<noteq> None then Inr (0, int (length req_blocks))
                  else mamba_computed m new_computed_blocks total_computed_tokens num_external_computed_tokens)
             (\<lambda>(num_blocks_to_allocate, req_len_after_computed).
                rbind (cdiv num_tokens_main_model (km_block_size m)) (\<lambda>token_blocks.
                  let num_required_blocks = token_blocks + spec in
                  if num_required_blocks \<le> req_len_after_computed then Inr num_blocks_to_allocate
                  else
                    let num_skipped_blocks = num_required_blocks - spec - 1;
                        before = max req_len_after_computed num_skipped_blocks;
                        reused = (if request_id \<in> mb_allocated_block_reqs m
                                  then length (takeWhile (\<lambda>i. i < num_skipped_blocks)
                                                 [req_len_after_computed - spec..req_len_after_computed - 1])
                                  else 0)
                    in Inr (num_blocks_to_allocate + max (num_required_blocks - (before + int reused)) 0))))"

text \<open>
  The coordinator adds up its managers. \<open>mc_count\<close> is a manager's method, with the external
  tokens where its signature takes them; a cross-attention manager counts the encoder's tokens.
\<close>

record counted_manager =
  mc_cross_attention :: bool
  mc_takes_external :: bool
  mc_count :: "req_id \<Rightarrow> int \<Rightarrow> kv_block list \<Rightarrow> int \<Rightarrow> int \<Rightarrow> int option \<Rightarrow> int result"

definition manager_get_num_blocks_to_allocate ::
  "counted_manager \<Rightarrow> req_id \<Rightarrow> int \<Rightarrow> kv_block list \<Rightarrow> int \<Rightarrow> int \<Rightarrow> int \<Rightarrow> int result" where
  "manager_get_num_blocks_to_allocate m rid num_tokens blocks total_computed main external =
     mc_count m rid num_tokens blocks total_computed main (if mc_takes_external m then Some external else None)"

fun coordinator_count_loop ::
  "counted_manager list \<Rightarrow> nat \<Rightarrow> req_id \<Rightarrow> int \<Rightarrow> kv_block list list \<Rightarrow> int \<Rightarrow> int \<Rightarrow> int \<Rightarrow> int \<Rightarrow> int \<Rightarrow> int result" where
  "coordinator_count_loop [] i rid num_tokens blocks encoder total_computed main external acc = Inr acc"
| "coordinator_count_loop (m # rest) i rid num_tokens blocks encoder total_computed main external acc =
     rbind (if mc_cross_attention m then manager_get_num_blocks_to_allocate m rid encoder [] 0 encoder 0
            else rbind (py_index blocks i) (\<lambda>computed.
                   manager_get_num_blocks_to_allocate m rid num_tokens computed total_computed main external))
       (\<lambda>n. coordinator_count_loop rest (Suc i) rid num_tokens blocks encoder total_computed main external (acc + n))"

text \<open>\<open>attribute\<close> is \<open>_ucm_num_external_computed_tokens\<close>, absent as \<open>None\<close>.\<close>

definition coordinator_get_num_blocks_to_allocate ::
  "counted_manager list \<Rightarrow> int option \<Rightarrow> req_id \<Rightarrow> int \<Rightarrow> kv_block list list \<Rightarrow> int \<Rightarrow> int \<Rightarrow> int option \<Rightarrow> int \<Rightarrow> int result" where
  "coordinator_get_num_blocks_to_allocate managers attribute rid num_tokens blocks encoder total_computed main external =
     coordinator_count_loop managers 0 rid num_tokens blocks encoder total_computed
       (case main of None \<Rightarrow> num_tokens | Some n \<Rightarrow> n)
       (if external = 0 then (case attribute of None \<Rightarrow> 0 | Some n \<Rightarrow> n) else external) 0"

section \<open>Passing the external tokens along\<close>

text \<open>
  \<open>make_allocate_slots_patch\<close>: the attribute is set while vLLM's method runs on the state
  \<open>'s\<close> and put back however it ends. \<open>delattr\<close> raises where the attribute is gone.
\<close>

definition allocate_slots ::
  "(int option \<times> 's \<Rightarrow> 'r result \<times> int option \<times> 's) \<Rightarrow> bool \<Rightarrow> int \<Rightarrow> int option \<times> 's \<Rightarrow> 'r result \<times> int option \<times> 's" where
  "allocate_slots original has_coordinator num_external_computed_tokens st =
     (if \<not> has_coordinator then original st
      else
        (case st of
           (previous, s) \<Rightarrow>
             (case original (Some num_external_computed_tokens, s) of
                (r, attribute, s') \<Rightarrow>
                  (case previous of
                     None \<Rightarrow> (if attribute = None then (Inl AttributeError, None, s') else (r, None, s'))
                   | Some p \<Rightarrow> (r, Some p, s')))))"

section \<open>Compressed attention\<close>





section \<open>What the patches guarantee\<close>


text \<open>However vLLM's method ends, and whatever it does to the attribute short of deleting it, the attribute is as before.\<close>

lemma allocate_slots_restores:
  assumes "allocate_slots original has_coordinator n (attribute, s) = (r, attribute', s')"
    and "\<And>a s. fst (snd (original (a, s))) = None \<longleftrightarrow> a = None" and "has_coordinator"
  shows "attribute' = attribute \<and> (\<exists>b. original (Some n, s) = (r, b, s'))"
proof -
  obtain r1 b s1 where o: "original (Some n, s) = (r1, b, s1)" by (cases "original (Some n, s)")
  with assms(2) [of "Some n" s] have "b \<noteq> None" by simp
  then show ?thesis using assms(1,3) o by (auto simp: allocate_slots_def split: option.splits)
qed












end
