(* ===== verification/Mindie_Plugin.thy ===== *)
theory Mindie_Plugin
  imports Py_Text
begin

unbundle bit_operations_syntax

text \<open>
  The MindIE plugin (\<open>prefix_cache_plugin.py\<close>, with \<open>uc_utils.py\<close> and the native hash of
  \<open>uc_hash_ext.cpp\<close>): the hash of a block, the keys of the blocks, and which blocks of a batch
  a rank fetches from the pool and hands to it.
\<close>

section \<open>Hashes\<close>

text \<open>
  \<open>hash_combine\<close> on Python's unbounded integers; \<open>HOther\<close> is a value that Python's own
  \<open>hash\<close> answers for.
\<close>

datatype 'o hashable = HInt int | HStr string | HOther 'o

definition cpp_style_hash :: "('o \<Rightarrow> int) \<Rightarrow> 'o hashable \<Rightarrow> int" where
  "cpp_style_hash py_hash v =
     (case v of
        HInt i \<Rightarrow> i
      | HStr s \<Rightarrow> foldl (\<lambda>h c. (h * 31 + int (of_char c)) AND 0xFFFFFFFFFFFFFFFF) 0 s
      | HOther x \<Rightarrow> py_hash x)"

definition combined :: "int \<Rightarrow> int \<Rightarrow> int" where
  "combined seed hv = seed XOR (hv + 0x9e3779b97f4a7c15 + push_bit 6 seed + drop_bit 2 seed)"

definition hash_combine :: "('o \<Rightarrow> int) \<Rightarrow> int \<Rightarrow> 'o hashable \<Rightarrow> int" where
  "hash_combine py_hash seed token_id =
     (let s = combined seed (cpp_style_hash py_hash token_id); s1 = (if s = 0 then 1 else s) in s1 mod 2 ^ 64)"

definition hash_block :: "('o \<Rightarrow> int) \<Rightarrow> int \<Rightarrow> 'o hashable list \<Rightarrow> int" where
  "hash_block py_hash prefix_hash_value block_token_ids =
     (let seed = (if prefix_hash_value \<noteq> 0 then hash_combine py_hash 0 (HInt prefix_hash_value) else 0)
      in hash_combine py_hash (foldl (hash_combine py_hash) seed block_token_ids) (HInt 0))"

text \<open>The native versions on 64-bit words.\<close>

definition HashCombine :: "u64 \<Rightarrow> u64 \<Rightarrow> u64" where
  "HashCombine seed hv =
     (let r = seed XOR (hv + 0x9e3779b97f4a7c15 + push_bit 6 seed + drop_bit 2 seed) in if r = 0 then 1 else r)"

definition HashBlock :: "u64 \<Rightarrow> u64 list \<Rightarrow> u64" where
  "HashBlock prefix_hash p =
     HashCombine (foldl HashCombine (if prefix_hash \<noteq> 0 then HashCombine 0 prefix_hash else 0) p) 0"

fun hash_prefix_loop :: "u64 list \<Rightarrow> nat \<Rightarrow> nat list \<Rightarrow> u64 \<Rightarrow> u64 list" where
  "hash_prefix_loop toks bs [] prefix_hash_value = []"
| "hash_prefix_loop toks bs (b # rest) prefix_hash_value =
     (let h = HashBlock prefix_hash_value (take bs (drop (b * bs) toks)) in h # hash_prefix_loop toks bs rest h)"

definition HashPrefix :: "u64 \<Rightarrow> u64 list \<Rightarrow> nat \<Rightarrow> nat \<Rightarrow> nat \<Rightarrow> u64 list result" where
  "HashPrefix prefix0 tokens block_size start_block end_block =
     (if block_size = 0 \<or> end_block < start_block \<or> length tokens < end_block * block_size then Inl RuntimeError
      else Inr (hash_prefix_loop tokens block_size [start_block..<end_block] prefix0))"

section \<open>Keys\<close>

record plugin_cfg =
  pl_scp_size :: nat
  pl_scp_rank :: nat
  pl_tp_size :: nat
  pl_tp_rank :: nat
  pl_model_name :: string
  pl_dp_rank :: nat
  pl_mempool :: bool

definition prefix_key :: "nat \<Rightarrow> nat \<Rightarrow> nat \<Rightarrow> string \<Rightarrow> string" where
  "prefix_key hash_value rank ranks model =
     show_nat hash_value @ ''_'' @ show_nat rank @ ''_'' @ show_nat ranks @ ''_'' @ model"

definition get_prefix_keys :: "plugin_cfg \<Rightarrow> u64 \<Rightarrow> string" where
  "get_prefix_keys cf hash_value =
     (if 1 < pl_scp_size cf then prefix_key (unat hash_value) (pl_scp_rank cf) (pl_scp_size cf) (pl_model_name cf)
      else prefix_key (unat hash_value) (pl_tp_rank cf) (pl_tp_size cf) (pl_model_name cf))"

section \<open>The blocks of a rank\<close>

text \<open>
  The blocks from \<open>computed\<close> to \<open>until\<close> a rank is responsible for, each with the column of
  the block table it is read from or written to. Under sequence and context parallelism the
  blocks are dealt out to the ranks in turn.
\<close>

definition first_block :: "nat \<Rightarrow> nat \<Rightarrow> nat \<Rightarrow> nat" where
  "first_block scp_rank scp_size computed =
     computed + nat ((int scp_rank - int (computed mod scp_size)) mod int scp_size)"

definition rank_blocks :: "plugin_cfg \<Rightarrow> nat \<Rightarrow> nat \<Rightarrow> (nat \<times> nat) list" where
  "rank_blocks cf computed until =
     (if 1 < pl_scp_size cf
      then
        let n = pl_scp_size cf; first = first_block (pl_scp_rank cf) n computed
        in map (\<lambda>local_idx. (first + local_idx * n, local_idx)) [0..<(until - first + n - 1) div n]
      else map (\<lambda>b. (b, b)) [computed..<until])"

definition keys_and_blocks ::
  "plugin_cfg \<Rightarrow> u64 list \<Rightarrow> nat list \<Rightarrow> nat \<Rightarrow> nat \<Rightarrow> (string \<times> nat) list result" where
  "keys_and_blocks cf prefix_hashes block_table computed until =
     rmap (\<lambda>(b, col). rbind (py_index prefix_hashes b) (\<lambda>h.
             rbind (py_index block_table col) (\<lambda>blk. Inr (get_prefix_keys cf h, blk))))
          (rank_blocks cf computed until)"

section \<open>Fetching and storing a batch\<close>

text \<open>
  A request of the batch; the computed blocks are one count per rank of the sequence-parallel
  group, which the code sums up. A missing array is \<open>None\<close>.
\<close>

record batch_item =
  bi_dp_rank :: nat
  bi_seq_len :: nat
  bi_block_table :: "nat list"
  bi_input_ids :: "u64 list"

definition counts_or_zero :: "nat \<Rightarrow> nat list list option \<Rightarrow> nat list" where
  "counts_or_zero n counts = (case counts of None \<Rightarrow> replicate n 0 | Some c \<Rightarrow> map sum_list c)"

text \<open>\<open>get_prefix_kvcache_from_mempool\<close>: \<open>ids\<close> are the concatenated tokens of the batch.\<close>

fun fetch_loop ::
  "plugin_cfg \<Rightarrow> nat \<Rightarrow> u64 list \<Rightarrow> batch_item list \<Rightarrow> nat list \<Rightarrow> nat list option \<Rightarrow> nat \<Rightarrow> nat
     \<Rightarrow> (string \<times> nat) list result" where
  "fetch_loop cf bs ids [] computed remote i offset = Inr []"
| "fetch_loop cf bs ids (it # rest) computed remote i offset =
     (let seq_len = bi_seq_len it;
          full_blocks = (if bs \<noteq> 0 then (int seq_len - 1) div int bs else 0);
          next = fetch_loop cf bs ids rest computed remote (Suc i) (offset + seq_len)
      in if bi_dp_rank it \<noteq> pl_dp_rank cf \<or> full_blocks \<le> 0 then next
         else
           rbind (py_index computed i) (\<lambda>c.
             rbind (case remote of None \<Rightarrow> Inl TypeError | Some r \<Rightarrow> py_index r i) (\<lambda>r0.
               if r0 \<le> c \<or> full_blocks \<le> int c then next
               else
                 let r = min r0 (nat full_blocks)
                 in rbind (HashPrefix 0 (py_slice ids offset (offset + r * bs)) bs 0 r) (\<lambda>hashes.
                      rbind (keys_and_blocks cf hashes (bi_block_table it) c r) (\<lambda>found.
                        rbind next (\<lambda>more. Inr (found @ more)))))))"

text \<open>The keys and blocks handed to the pool; \<open>None\<close> where the pool is not called.\<close>

definition get_prefix_kvcache ::
  "plugin_cfg \<Rightarrow> nat \<Rightarrow> u64 list \<Rightarrow> batch_item list \<Rightarrow> nat list list option \<Rightarrow> nat list list option
     \<Rightarrow> (string list \<times> nat list) option result" where
  "get_prefix_kvcache cf bs ids items computed remote =
     (if \<not> pl_mempool cf then Inr None
      else if 1 < pl_scp_size cf \<and> remote = None then Inl ValueError
      else
        rbind (fetch_loop cf bs ids items (counts_or_zero (length items) computed) (map_option (map sum_list) remote) 0 0)
          (\<lambda>pairs. Inr (if pairs = [] then None else Some (map fst pairs, map snd pairs))))"

fun store_loop ::
  "plugin_cfg \<Rightarrow> nat \<Rightarrow> batch_item list \<Rightarrow> nat list \<Rightarrow> nat \<Rightarrow> (string \<times> nat) list result" where
  "store_loop cf bs [] computed i = Inr []"
| "store_loop cf bs (it # rest) computed i =
     (let next = store_loop cf bs rest computed (Suc i) in
      if bi_dp_rank it \<noteq> pl_dp_rank cf \<or> (bs \<noteq> 0 \<and> int (bi_seq_len it) - 1 < int bs) then next
      else if bs = 0 then Inl ZeroDivisionError
      else
        let full_blocks = (bi_seq_len it - 1) div bs
        in if full_blocks = 0 then next
           else
             rbind (py_index computed i) (\<lambda>c.
               if full_blocks \<le> c then next
               else
                 rbind (HashPrefix 0 (take (full_blocks * bs) (bi_input_ids it)) bs 0 full_blocks) (\<lambda>hashes.
                   rbind (keys_and_blocks cf hashes (bi_block_table it) c full_blocks) (\<lambda>found.
                     rbind next (\<lambda>more. Inr (found @ more))))))"

definition put_prefix_kvcache ::
  "plugin_cfg \<Rightarrow> nat \<Rightarrow> bool \<Rightarrow> batch_item list \<Rightarrow> nat list list option \<Rightarrow> (string list \<times> nat list) option result" where
  "put_prefix_kvcache cf bs is_prefill items remote =
     (if \<not> pl_mempool cf \<or> \<not> is_prefill \<or> \<not> list_ex (\<lambda>it. bi_dp_rank it = pl_dp_rank cf) items then Inr None
      else
        rbind (store_loop cf bs items (counts_or_zero (length items) remote) 0)
          (\<lambda>pairs. Inr (if pairs = [] then None else Some (map fst pairs, map snd pairs))))"

text \<open>One task per layer for the saving thread: whether it is the first and the last, and which event to wait for.\<close>

definition put_tasks :: "plugin_cfg \<Rightarrow> nat \<Rightarrow> nat list \<Rightarrow> nat list option \<Rightarrow> (bool \<times> bool \<times> bool) list" where
  "put_tasks cf num_put_layers batch_dp_rank_ids remote =
     (let only_save_kv =
            (case remote of
               None \<Rightarrow> True
             | Some r \<Rightarrow>
                 pl_scp_size cf = 1
                 \<and> sum_list (map snd (filter (\<lambda>(d, n). d = pl_dp_rank cf) (zip batch_dp_rank_ids r))) = 0)
      in map (\<lambda>layer_id. (layer_id = 0, int layer_id = int num_put_layers - 1, only_save_kv)) [0..<num_put_layers])"

section \<open>Addresses of blocks\<close>

text \<open>\<open>KVPtrComputer\<close>: the keys and the values of a layer, one tensor each, blocks along the first dimension.\<close>

record npu_tensor =
  nt_blocks :: nat
  nt_block_numel :: nat
  nt_elem :: nat
  nt_storage :: nat
  nt_storage_offset :: nat
  nt_stride0 :: nat

definition kv_ptr_computer :: "(npu_tensor \<times> npu_tensor) list \<Rightarrow> (npu_tensor \<times> npu_tensor) list result" where
  "kv_ptr_computer npu_cache =
     (if npu_cache = [] then Inl AssertionError
      else if list_all (\<lambda>(k, v). nt_blocks k = nt_blocks (fst (hd npu_cache)) \<and> nt_blocks v = nt_blocks (fst (hd npu_cache))) npu_cache
      then Inr npu_cache else Inl AssertionError)"

definition block_ptr :: "npu_tensor \<Rightarrow> nat \<Rightarrow> u64" where
  "block_ptr t b = of_nat (nt_storage t + nt_storage_offset t * nt_elem t) + of_nat (nt_stride0 t * nt_elem t) * of_nat b"

definition ptrs_for_blocks :: "(npu_tensor \<times> npu_tensor) list \<Rightarrow> nat list \<Rightarrow> u64 list list list result" where
  "ptrs_for_blocks cache block_ids =
     (if list_all (\<lambda>b. b < nt_blocks (fst (hd cache))) block_ids
      then Inr (map (\<lambda>b. map (\<lambda>(k, v). [block_ptr k b, block_ptr v b]) cache) block_ids)
      else Inl IndexError)"

section \<open>The native hash\<close>

lemma mod_add_inner: "(a + b mod m + c) mod m = (a + b + c) mod (m :: int)"
  by (metis mod_add_left_eq mod_add_right_eq)

lemma uint_HashCombine_step:
  assumes "0 \<le> seed" "seed < 2 ^ 64"
  shows "uint ((word_of_int seed :: u64) XOR (word_of_int hv + 0x9e3779b97f4a7c15 + push_bit 6 (word_of_int seed) + drop_bit 2 (word_of_int seed)))
    = combined seed hv mod 2 ^ 64"
proof -
  let ?w = "word_of_int seed :: u64"
  have s: "take_bit 64 seed = seed" using assms by (simp add: take_bit_int_eq_self)
  have u: "uint ?w = seed" using s by (simp add: uint_word_of_int_eq)
  have d: "uint (drop_bit 2 ?w) = drop_bit 2 seed" using u by (simp add: unsigned_drop_bit_eq s)
  have p: "uint (push_bit 6 ?w) = take_bit 64 (push_bit 6 seed)" using u by (simp add: unsigned_push_bit_eq s)
  have c: "uint (0x9e3779b97f4a7c15 :: u64) = 0x9e3779b97f4a7c15" by simp
  have "uint (word_of_int hv + 0x9e3779b97f4a7c15 + push_bit 6 ?w + drop_bit 2 ?w :: u64)
      = take_bit 64 (hv + 0x9e3779b97f4a7c15 + push_bit 6 seed + drop_bit 2 seed)"
    by (simp only: uint_word_ariths d p c uint_word_of_int_eq take_bit_eq_mod len_num1 mod_simps)
       (simp add: take_bit_eq_mod mod_simps mod_add_inner)
  then have "uint (?w XOR (word_of_int hv + 0x9e3779b97f4a7c15 + push_bit 6 ?w + drop_bit 2 ?w))
      = take_bit 64 seed XOR take_bit 64 (hv + 0x9e3779b97f4a7c15 + push_bit 6 seed + drop_bit 2 seed)"
    by (simp add: unsigned_xor_eq u s)
  also have "\<dots> = take_bit 64 (combined seed hv)" by (simp add: combined_def)
  finally show ?thesis by (simp add: take_bit_eq_mod)
qed

text \<open>
  The two implementations of one step agree, except that where the unbounded value is a multiple
  of \<open>2 ^ 64\<close> other than 0 the native one answers 1 and Python's answers 0.
\<close>

lemma hash_combine_native:
  assumes "0 \<le> seed" "seed < 2 ^ 64"
  shows "hash_combine py_hash seed (HInt v) = uint (HashCombine (word_of_int seed) (word_of_int v))
    \<or> hash_combine py_hash seed (HInt v) = 0 \<and> HashCombine (word_of_int seed) (word_of_int v) = 1"
proof -
  let ?r = "(word_of_int seed :: u64) XOR (word_of_int v + 0x9e3779b97f4a7c15 + push_bit 6 (word_of_int seed) + drop_bit 2 (word_of_int seed))"
  have r: "uint ?r = combined seed v mod 2 ^ 64" by (rule uint_HashCombine_step [OF assms])
  then have "?r = 0 \<longleftrightarrow> combined seed v mod 2 ^ 64 = 0" by (metis uint_0_iff)
  then show ?thesis
    using r by (cases "combined seed v = 0") (auto simp: hash_combine_def HashCombine_def Let_def cpp_style_hash_def)
qed

lemma hash_combine_range: "0 \<le> hash_combine py_hash seed t \<and> hash_combine py_hash seed t < 2 ^ 64"
  by (simp add: hash_combine_def Let_def)

text \<open>The values the seed of a block goes through.\<close>

fun seed_trace :: "int \<Rightarrow> int list \<Rightarrow> int list" where
  "seed_trace seed [] = []"
| "seed_trace seed (t # ts) = (let s = hash_combine (\<lambda>x :: unit. 0) seed (HInt t) in s # seed_trace s ts)"

lemma hash_combine_HInt: "hash_combine py_hash seed (HInt t) = hash_combine (\<lambda>x :: unit. 0) seed (HInt t)"
  by (simp add: hash_combine_def cpp_style_hash_def)

lemma fold_hash_native:
  "0 \<le> seed \<Longrightarrow> seed < 2 ^ 64 \<Longrightarrow> 0 \<notin> set (seed_trace seed ts) \<Longrightarrow>
   foldl (hash_combine py_hash) seed (map HInt ts) = uint (foldl HashCombine (word_of_int seed) (map word_of_int ts))"
proof (induction ts arbitrary: seed)
  case Nil
  then show ?case by (simp add: uint_word_of_int_eq take_bit_int_eq_self)
next
  case (Cons t ts)
  let ?s = "hash_combine py_hash seed (HInt t)"
  have nz: "?s \<noteq> 0" "0 \<notin> set (seed_trace ?s ts)"
    using Cons.prems(3) by (simp_all add: hash_combine_HInt [of py_hash] Let_def)
  have "?s = uint (HashCombine (word_of_int seed) (word_of_int t))"
    using hash_combine_native [OF Cons.prems(1,2), of py_hash t] nz(1) by auto
  moreover from this have "word_of_int ?s = HashCombine (word_of_int seed) (word_of_int t)" by simp
  moreover have "foldl (hash_combine py_hash) ?s (map HInt ts) = uint (foldl HashCombine (word_of_int ?s) (map word_of_int ts))"
    using Cons.IH [OF _ _ nz(2)] hash_combine_range [of py_hash seed "HInt t"] by simp
  ultimately show ?case by simp
qed

text \<open>
  C38: The native hash of a block is Python's, on 64-bit words, for every prefix and every token,
  as long as no seed on the way is 0.
\<close>

theorem native_hash_is_python_hash:
  assumes "0 \<le> prefix_hash" "prefix_hash < 2 ^ 64"
    and "0 \<notin> set (seed_trace 0 ((if prefix_hash \<noteq> 0 then [prefix_hash] else []) @ toks @ [0]))"
  shows "hash_block py_hash prefix_hash (map HInt toks) = uint (HashBlock (word_of_int prefix_hash) (map word_of_int toks))"
proof -
  let ?ts = "(if prefix_hash \<noteq> 0 then [prefix_hash] else []) @ toks @ [0]"
  have z: "(word_of_int prefix_hash :: u64) = 0 \<longleftrightarrow> prefix_hash = 0"
  proof -
    have "uint (word_of_int prefix_hash :: u64) = prefix_hash"
      using assms(1,2) by (simp add: uint_word_of_int_eq take_bit_int_eq_self)
    then show ?thesis by (metis uint_0_iff)
  qed
  have "hash_block py_hash prefix_hash (map HInt toks) = foldl (hash_combine py_hash) 0 (map HInt ?ts)"
    by (simp add: hash_block_def Let_def)
  also have "\<dots> = uint (foldl HashCombine (word_of_int 0) (map word_of_int ?ts))"
    by (rule fold_hash_native) (use assms(3) in simp_all)
  also have "foldl HashCombine (word_of_int 0) (map word_of_int ?ts) = HashBlock (word_of_int prefix_hash) (map word_of_int toks)"
    by (simp add: HashBlock_def z)
  finally show ?thesis .
qed

theorem native_hash_is_python_hash_witness:
  "hash_block (\<lambda>x :: unit. 0) 7 [HInt 11, HInt 5] = uint (HashBlock 7 [11, 5])"
proof -
  have "0 \<notin> set (seed_trace 0 [7, 11, 5, 0])" by code_simp
  then show ?thesis using native_hash_is_python_hash [of 7 "[11, 5]" "\<lambda>x :: unit. 0"] by simp
qed

text \<open>The exception: a prefix for which the two differ.\<close>

lemma native_hash_differs:
  "hash_combine (\<lambda>x :: unit. 0) 0 (HInt (2 ^ 64 - 0x9e3779b97f4a7c15)) = 0"
  "HashCombine 0 (word_of_int (2 ^ 64 - 0x9e3779b97f4a7c15)) = 1"
  by (simp_all add: hash_combine_def HashCombine_def combined_def cpp_style_hash_def Let_def)

section \<open>The shares of the ranks\<close>

lemma first_block_residue:
  assumes "r < s"
  shows "first_block r s c mod s = r" and "c \<le> first_block r s c" and "first_block r s c < c + s"
proof -
  let ?d = "(int r - int (c mod s)) mod int s"
  have d: "0 \<le> ?d" "?d < int s" using assms by simp_all
  have f: "int (first_block r s c) = int c + ?d" using d(1) by (simp add: first_block_def)
  have "int (first_block r s c mod s) = (int c + (int r - int c mod int s) mod int s) mod int s"
    by (simp only: zmod_int f)
  also have "\<dots> = (int c + (int r - int c mod int s)) mod int s" by (rule mod_add_right_eq)
  also have "int c + (int r - int c mod int s) = int r + int c div int s * int s"
    by (simp add: minus_mod_eq_div_mult [symmetric])
  also have "\<dots> mod int s = int r mod int s" by simp
  finally show "first_block r s c mod s = r" using assms by (simp add: zmod_int [symmetric])
  show "c \<le> first_block r s c" "first_block r s c < c + s" using f d by linarith+
qed

lemma rank_blocks_parallel:
  assumes "1 < pl_scp_size cf" and "pl_scp_rank cf < pl_scp_size cf"
  shows "set (map fst (rank_blocks cf c u)) = {b. c \<le> b \<and> b < u \<and> b mod pl_scp_size cf = pl_scp_rank cf}"
    and "distinct (map fst (rank_blocks cf c u))"
proof -
  let ?s = "pl_scp_size cf" and ?f = "first_block (pl_scp_rank cf) (pl_scp_size cf) c"
  note f = first_block_residue [OF assms(2), of c]
  have blocks: "map fst (rank_blocks cf c u) = map (\<lambda>k. ?f + k * ?s) [0..<(u - ?f + ?s - 1) div ?s]"
    using assms(1) by (simp add: rank_blocks_def Let_def o_def)
  show "distinct (map fst (rank_blocks cf c u))" unfolding blocks using assms(1) by (simp add: distinct_map inj_on_def)
  show "set (map fst (rank_blocks cf c u)) = {b. c \<le> b \<and> b < u \<and> b mod ?s = pl_scp_rank cf}"
  proof (rule set_eqI, rule iffI)
    fix b assume "b \<in> set (map fst (rank_blocks cf c u))"
    then obtain k where k: "b = ?f + k * ?s" "k < (u - ?f + ?s - 1) div ?s"
      unfolding blocks by (auto simp only: set_map image_iff set_upt atLeastLessThan_iff)
    then have "Suc k * ?s \<le> u - ?f + ?s - 1" by (metis Suc_leI div_le_mono2 less_eq_div_iff_mult_less_eq assms(1) less_trans zero_less_one)
    then have "b < u" using k(1) assms(1) by simp
    then show "b \<in> {b. c \<le> b \<and> b < u \<and> b mod ?s = pl_scp_rank cf}" using k(1) f(1,2) by simp
  next
    fix b assume b: "b \<in> {b. c \<le> b \<and> b < u \<and> b mod ?s = pl_scp_rank cf}"
    have "?f \<le> b"
    proof (rule ccontr)
      assume "\<not> ?f \<le> b"
      then have lt: "b < ?f" "?f - b < ?s" using b f(3) by auto
      have "(?f - b) mod ?s = 0" using b f(1) lt(1) by (metis (mono_tags, lifting) mem_Collect_eq mod_eq_dvd_iff_nat less_imp_le dvd_imp_mod_0)
      then show False using lt by simp
    qed
    moreover have "?s dvd b - ?f" using b f(1) \<open>?f \<le> b\<close> by (metis (mono_tags, lifting) mem_Collect_eq mod_eq_dvd_iff_nat)
    ultimately obtain k where k: "b = ?f + k * ?s" by (metis dvdE le_add_diff_inverse mult.commute)
    have "Suc k * ?s \<le> u - ?f + ?s - 1" using b k by auto
    then have "k < (u - ?f + ?s - 1) div ?s" using assms(1) by (metis Suc_le_eq less_eq_div_iff_mult_less_eq less_trans zero_less_one)
    then show "b \<in> set (map fst (rank_blocks cf c u))" unfolding blocks using k by auto
  qed
qed

text \<open>
  Under sequence and context parallelism every block between the computed and the matched
  ones is fetched or stored by exactly one rank, and by that rank once.
\<close>

lemma parallel_ranks_share_the_blocks:
  assumes "1 < pl_scp_size cf" and "c \<le> b" and "b < u"
  shows "\<exists>!r. r < pl_scp_size cf \<and> b \<in> set (map fst (rank_blocks (cf\<lparr>pl_scp_rank := r\<rparr>) c u))
    \<and> distinct (map fst (rank_blocks (cf\<lparr>pl_scp_rank := r\<rparr>) c u))"
proof (rule ex1I [of _ "b mod pl_scp_size cf"])
  show "b mod pl_scp_size cf < pl_scp_size cf \<and> b \<in> set (map fst (rank_blocks (cf\<lparr>pl_scp_rank := b mod pl_scp_size cf\<rparr>) c u))
    \<and> distinct (map fst (rank_blocks (cf\<lparr>pl_scp_rank := b mod pl_scp_size cf\<rparr>) c u))"
    using rank_blocks_parallel [of "cf\<lparr>pl_scp_rank := b mod pl_scp_size cf\<rparr>" c u] assms by simp
  show "r = b mod pl_scp_size cf"
    if "r < pl_scp_size cf \<and> b \<in> set (map fst (rank_blocks (cf\<lparr>pl_scp_rank := r\<rparr>) c u))
      \<and> distinct (map fst (rank_blocks (cf\<lparr>pl_scp_rank := r\<rparr>) c u))" for r
    using rank_blocks_parallel(1) [of "cf\<lparr>pl_scp_rank := r\<rparr>" c u] assms(1) that by simp
qed

definition demo_plugin :: plugin_cfg where
  "demo_plugin = \<lparr>pl_scp_size = 3, pl_scp_rank = 1, pl_tp_size = 1, pl_tp_rank = 0, pl_model_name = ''m'', pl_dp_rank = 0, pl_mempool = True\<rparr>"

text \<open>
  The column of the block table: with the blocks dealt out in turn, block \<open>b\<close> is the rank's
  block number \<open>b div n\<close>. The column used is less by the number of the rank's blocks that are
  computed already.
\<close>

lemma parallel_columns_start_at_zero:
  assumes "1 < pl_scp_size cf" and "(b, col) \<in> set (rank_blocks cf c u)"
  shows "b div pl_scp_size cf = first_block (pl_scp_rank cf) (pl_scp_size cf) c div pl_scp_size cf + col"
  using assms by (auto simp: rank_blocks_def Let_def)

end
