(* ===== verification/Mindie_Pool.thy ===== *)
theory Mindie_Pool
  imports Mindie_Plugin Kv_Store "HOL-Library.Multiset"
begin

text \<open>
  The memory pool of MindIE (\<open>unifiedcache_mempool.py\<close>): it looks up, stores and fetches blocks
  under keys of text. Where the ranks of a tensor-parallel group hold the same cache, all of them
  use the keys of rank 0 and store a share each.
\<close>

section \<open>The pool\<close>

text \<open>
  \<open>MempoolConfig\<close> and the state of \<open>UnifiedCacheMempool\<close>: \<open>po_tp_rank\<close> is \<open>-1\<close> until the first
  key with a rank is seen. \<open>BypassMode\<close> is a set of flags.
\<close>

record pool_cfg =
  po_is_mla :: bool
  po_scp_size :: nat
  po_tp_size :: int
  po_bypass_get :: bool
  po_bypass_put :: bool
  po_bypass_exists :: bool

record 'w pool =
  po_tp_rank :: int
  po_world :: 'w

definition bypass_modes :: "nat \<Rightarrow> bool \<times> bool \<times> bool" where
  "bypass_modes v = (odd v, odd (v div 2), odd (v div 4))"

text \<open>The parallel sizes of \<open>parse_mindie_config\<close>; absent entries are 1.\<close>

record mindie_parallel =
  mp_dp :: int
  mp_tp :: int
  mp_sp :: int
  mp_cp :: int
  mp_scp :: int

definition parse_mindie_config :: "(string, int) dict \<Rightarrow> mindie_parallel" where
  "parse_mindie_config model_config =
     (let dp = dict_get_or model_config ''dp'' 1; tp = dict_get_or model_config ''tp'' 1;
          sp = dict_get_or model_config ''sp'' 1; cp = dict_get_or model_config ''cp'' 1;
          world_size = dict_get_or model_config ''worldSize'' 1
      in \<lparr>mp_dp = dp, mp_tp = (if tp * dp = 1 \<or> tp * cp = 1 then world_size else tp), mp_sp = sp, mp_cp = cp, mp_scp = sp * cp\<rparr>)"

definition parse_model_config :: "(string, 'v) dict \<Rightarrow> int \<Rightarrow> bool \<times> bool" where
  "parse_model_config model_arc scp_size =
     (if dict_get model_arc ''kv_lora_rank'' \<noteq> None then (True, scp_size = 1) else (False, False))"

text \<open>\<open>get_io_size_info\<close>: the sizes of one block's keys and values, for every layer as for the first.\<close>

definition get_io_size_info :: "(npu_tensor \<times> npu_tensor) list option \<Rightarrow> (nat list \<times> nat) result" where
  "get_io_size_info kv_caches =
     (case kv_caches of
        None \<Rightarrow> Inr ([0], 0)
      | Some cs \<Rightarrow>
          rbind (py_index cs 0) (\<lambda>(k, v).
            if nt_blocks k = 0 \<or> nt_blocks v = 0 then Inl IndexError
            else
              let k_io_size = nt_block_numel k * nt_elem k; v_io_size = nt_block_numel v * nt_elem v;
                  tensor_size_list = replicate (length cs) k_io_size @ replicate (length cs) v_io_size
              in Inr (tensor_size_list, sum_list tensor_size_list)))"

section \<open>Keys of rank 0\<close>

definition key_rank :: "string \<Rightarrow> int result" where
  "key_rank key = rbind (py_index (split_on (CHR ''_'') key) 1) py_int"

definition rank0_key :: "string \<Rightarrow> string" where
  "rank0_key key = join_with (CHR ''_'') ((split_on (CHR ''_'') key)[1 := ''0''])"

text \<open>
  \<open>_get_tp_rank_0_hash_key\<close>: a key of rank 0 ends the loop with the keys as they came. Without
  a key the rank of the last one does not exist.
\<close>

fun rank0_loop :: "string list \<Rightarrow> string list \<Rightarrow> string list \<Rightarrow> int option \<Rightarrow> int \<Rightarrow> (string list \<times> int) result \<times> int" where
  "rank0_loop all [] acc last_rank tp_rank =
     (case last_rank of None \<Rightarrow> (Inl UnboundLocal, tp_rank) | Some r \<Rightarrow> (Inr (acc, r), tp_rank))"
| "rank0_loop all (key # rest) acc last_rank tp_rank =
     (case key_rank key of
        Inl e \<Rightarrow> (Inl e, tp_rank)
      | Inr cur_tp \<Rightarrow>
          let tp_rank' = (if tp_rank < 0 then cur_tp else tp_rank)
          in if cur_tp = 0 then (Inr (all, cur_tp), tp_rank')
             else rank0_loop all rest (acc @ [rank0_key key]) (Some cur_tp) tp_rank')"

definition get_tp_rank_0_hash_key :: "string list \<Rightarrow> 'w pool \<Rightarrow> (string list \<times> int) result \<times> 'w pool" where
  "get_tp_rank_0_hash_key keys s =
     (case rank0_loop keys keys [] None (po_tp_rank s) of (r, tp_rank) \<Rightarrow> (r, s\<lparr>po_tp_rank := tp_rank\<rparr>))"

definition shares_rank0 :: "pool_cfg \<Rightarrow> bool" where
  "shares_rank0 cf \<longleftrightarrow> po_is_mla cf \<and> po_scp_size cf = 1"

text \<open>What \<open>except RuntimeError\<close> catches.\<close>

definition is_runtime_error :: "exn \<Rightarrow> bool" where
  "is_runtime_error e \<longleftrightarrow> e \<in> {RuntimeError, StoreNotFound, NotImplemented}"

section \<open>Looking up\<close>

definition pool_lookup :: "('w, 'x) kv_lookup_api_scheme \<Rightarrow> (string \<Rightarrow> bytes) \<Rightarrow> string list \<Rightarrow> 'w pool \<Rightarrow> int result \<times> 'w pool" where
  "pool_lookup store md5 keys s =
     (case st_lookup_on_prefix store (po_world s) (map md5 keys) of (r, w) \<Rightarrow> (r, s\<lparr>po_world := w\<rparr>))"

definition pool_exists ::
  "pool_cfg \<Rightarrow> ('w, 'x) kv_lookup_api_scheme \<Rightarrow> (string \<Rightarrow> bytes) \<Rightarrow> string list \<Rightarrow> 'w pool \<Rightarrow> bool result \<times> 'w pool" where
  "pool_exists cf store md5 keys s =
     (if po_bypass_exists cf then (Inr False, s)
      else
        (case (if shares_rank0 cf then get_tp_rank_0_hash_key keys s else (Inr (keys, 0), s)) of
           (Inl e, s1) \<Rightarrow> (Inl e, s1)
         | (Inr (keys1, cur_tp), s1) \<Rightarrow>
             if shares_rank0 cf \<and> 0 < cur_tp then (Inr True, s1)
             else
               (case pool_lookup store md5 keys1 s1 of
                  (Inl e, s2) \<Rightarrow> (if is_runtime_error e then Inr False else Inl e, s2)
                | (Inr found_idx, s2) \<Rightarrow> (Inr (0 \<le> found_idx), s2))))"

definition hits_of :: "nat \<Rightarrow> int \<Rightarrow> bool list" where
  "hits_of n found_idx = replicate (nat (found_idx + 1)) True @ replicate (nat (int n - found_idx - 1)) False"

definition pool_batch_exist ::
  "pool_cfg \<Rightarrow> ('w, 'x) kv_lookup_api_scheme \<Rightarrow> (string \<Rightarrow> bytes) \<Rightarrow> string list \<Rightarrow> 'w pool \<Rightarrow> bool list result \<times> 'w pool" where
  "pool_batch_exist cf store md5 keys s =
     (let n = length keys; none = replicate n False; tp_size = po_tp_size cf in
      if keys = [] then (Inl AssertionError, s)
      else if po_bypass_exists cf then (Inr none, s)
      else if shares_rank0 cf
      then
        (if tp_size \<le> 0 \<or> int n mod tp_size \<noteq> 0 then (Inr none, s)
         else
           let block_tp0_keys = py_stride keys 0 (nat tp_size)
           in (case pool_lookup store md5 block_tp0_keys s of
                 (Inl e, s1) \<Rightarrow> (if is_runtime_error e then Inr none else Inl e, s1)
               | (Inr found_idx, s1) \<Rightarrow>
                   (Inr (concat (map (\<lambda>block_idx. replicate (nat tp_size) (int block_idx < found_idx + 1)) [0..<length block_tp0_keys])), s1)))
      else
        (case pool_lookup store md5 keys s of
           (Inl e, s1) \<Rightarrow> (if is_runtime_error e then Inr none else Inl e, s1)
         | (Inr found_idx, s1) \<Rightarrow> (Inr (hits_of n found_idx), s1)))"

section \<open>Storing and fetching\<close>

definition get_tensors_for_store :: "u64 list list list \<Rightarrow> u64 list list" where
  "get_tensors_for_store mindie_tensors = map concat mindie_tensors"

text \<open>Submitting, checking the task and waiting for it; a task of id 0 is invalid.\<close>

definition finish_transfer :: "('w, 'x) kv_store_scheme \<Rightarrow> nat result \<times> 'w \<Rightarrow> int result \<times> 'w" where
  "finish_transfer store submitted =
     (case submitted of
        (Inl e, w) \<Rightarrow> (if is_runtime_error e then Inr (- 1) else Inl e, w)
      | (Inr task, w) \<Rightarrow>
          if task = 0 then (Inr (- 1), w)
          else
            (case st_wait store w task of
               (Inl e, w') \<Rightarrow> (if is_runtime_error e then Inr (- 1) else Inl e, w')
             | (Inr _, w') \<Rightarrow> (Inr 0, w')))"

text \<open>The keys and tensors a call of \<open>put\<close> stores; a step of 0 is an error of the slice. A negative
  \<open>tp_size\<close>, with which Python would read the slice backwards, is not modelled.\<close>

definition put_share ::
  "pool_cfg \<Rightarrow> string list \<Rightarrow> u64 list list list \<Rightarrow> 'w pool \<Rightarrow> (string list \<times> u64 list list list) result \<times> 'w pool" where
  "put_share cf keys tensors s =
     (if \<not> shares_rank0 cf then (Inr (keys, tensors), s)
      else
        (case get_tp_rank_0_hash_key keys s of
           (Inl e, s1) \<Rightarrow> (Inl e, s1)
         | (Inr (tp0_keys, _), s1) \<Rightarrow>
             if po_tp_size cf = 0 then (Inl ValueError, s1)
             else
               let r = nat (po_tp_rank s1); n = nat (po_tp_size cf)
               in (Inr (py_stride tp0_keys r n, py_stride tensors r n), s1)))"

definition pool_put ::
  "pool_cfg \<Rightarrow> ('w, 'x) kv_store_scheme \<Rightarrow> (string \<Rightarrow> bytes) \<Rightarrow> string list \<Rightarrow> u64 list list list \<Rightarrow> 'w pool \<Rightarrow> int result \<times> 'w pool" where
  "pool_put cf store md5 keys tensors s =
     (if po_bypass_put cf then (Inr 0, s)
      else
        (case put_share cf keys tensors s of
           (Inl e, s1) \<Rightarrow> (Inl e, s1)
         | (Inr (keys1, tensors1), s1) \<Rightarrow>
             if shares_rank0 cf \<and> keys1 = [] then (Inr 0, s1)
             else
               (case finish_transfer store
                       (st_dump_data store (po_world s1) (map md5 keys1) (replicate (length keys1) 0) (get_tensors_for_store tensors1) 0) of
                  (r, w) \<Rightarrow> (r, s1\<lparr>po_world := w\<rparr>))))"

definition pool_get ::
  "pool_cfg \<Rightarrow> ('w, 'x) kv_store_scheme \<Rightarrow> (string \<Rightarrow> bytes) \<Rightarrow> string list \<Rightarrow> u64 list list list \<Rightarrow> 'w pool \<Rightarrow> int result \<times> 'w pool" where
  "pool_get cf store md5 keys tensors s =
     (if po_bypass_get cf then (Inr 0, s)
      else
        (case (if shares_rank0 cf then get_tp_rank_0_hash_key keys s else (Inr (keys, 0), s)) of
           (Inl e, s1) \<Rightarrow> (Inl e, s1)
         | (Inr (keys1, _), s1) \<Rightarrow>
             (case finish_transfer store
                     (st_load_data store (po_world s1) (map md5 keys1) (replicate (length keys1) 0) (get_tensors_for_store tensors)) of
                (r, w) \<Rightarrow> (r, s1\<lparr>po_world := w\<rparr>))))"

section \<open>Keys read back\<close>

lemma underscore_free: "CHR ''_'' \<notin> set (show_nat n)"
  using show_nat_is_digits [of n] not_digits(1) by (auto simp: list_all_iff)

lemma split_prefix_key:
  "split_on (CHR ''_'') (prefix_key h r n m) = show_nat h # show_nat r # show_nat n # split_on (CHR ''_'') m"
  by (simp add: prefix_key_def split_on_append underscore_free)

lemma key_rank_prefix_key [simp]: "key_rank (prefix_key h r n m) = Inr (int r)"
  by (simp add: key_rank_def split_prefix_key py_index_def)

lemma rank0_prefix_key [simp]: "rank0_key (prefix_key h r n m) = prefix_key h 0 n m"
proof -
  obtain p ps where p: "split_on (CHR ''_'') m = p # ps" by (cases "split_on (CHR ''_'') m") auto
  have "show_nat 0 = ''0''" by code_simp
  moreover have "join_with (CHR ''_'') (p # ps) = m" using join_split [of "CHR ''_''" m] p by simp
  ultimately show ?thesis by (simp add: rank0_key_def split_prefix_key p) (simp add: prefix_key_def)
qed

lemma rank0_loop_other:
  "0 < r \<Longrightarrow> hs \<noteq> [] \<or> last_rank = Some (int r) \<Longrightarrow>
   rank0_loop all (map (\<lambda>h. prefix_key h r n m) hs) acc last_rank t
     = (Inr (acc @ map (\<lambda>h. prefix_key h 0 n m) hs, int r), if hs \<noteq> [] \<and> t < 0 then int r else t)"
  by (induction hs arbitrary: acc last_rank t) (auto simp: Let_def)

text \<open>Whatever its rank, a worker turns its own keys into those of rank 0 and remembers its rank.\<close>

lemma tp_rank_0_keys:
  assumes "hs \<noteq> []" and "po_tp_rank s \<in> {- 1, int r}"
  shows "get_tp_rank_0_hash_key (map (\<lambda>h. prefix_key h r n m) hs) s
    = (Inr (map (\<lambda>h. prefix_key h 0 n m) hs, int r), s\<lparr>po_tp_rank := int r\<rparr>)"
proof (cases "r = 0")
  case True
  with assms show ?thesis by (cases hs) (auto simp: get_tp_rank_0_hash_key_def Let_def)
next
  case False
  then show ?thesis using assms rank0_loop_other [of r hs None] by (auto simp: get_tp_rank_0_hash_key_def)
qed

section \<open>What the ranks store together\<close>

lemma filter_classes:
  assumes "0 < n"
  shows "mset (concat (map (\<lambda>r. filter (\<lambda>i. i mod n = r) xs) [0..<n])) = mset (xs :: nat list)"
proof (induction xs)
  case Nil
  then show ?case by simp
next
  case (Cons x xs)
  have "mset (concat (map (\<lambda>r. if x mod n = r then x # f r else f r) [0..<k]))
      = (if x mod n < k then add_mset x (mset (concat (map f [0..<k]))) else mset (concat (map f [0..<k])))" for f k
    by (induction k) (auto simp: less_Suc_eq)
  from this [of "\<lambda>r. filter (\<lambda>i. i mod n = r) xs" n] Cons assms show ?case by simp
qed

lemma strides_partition:
  assumes "0 < n"
  shows "mset (concat (map (\<lambda>r. py_stride xs r n) [0..<n])) = mset xs"
proof -
  have "py_stride xs r n = map ((!) xs) (filter (\<lambda>i. i mod n = r) [0..<length xs])" if "r < n" for r
  proof -
    have "i mod n = r mod n \<and> r \<le> i \<longleftrightarrow> i mod n = r" for i
      using that mod_less_eq_dividend [of i n] by auto
    then show ?thesis by (simp only: py_stride_def)
  qed
  then have "concat (map (\<lambda>r. py_stride xs r n) [0..<n])
      = concat (map (\<lambda>r. map ((!) xs) (filter (\<lambda>i. i mod n = r) [0..<length xs])) [0..<n])"
    by (intro arg_cong [where f = concat] map_cong) simp_all
  also have "\<dots> = map ((!) xs) (concat (map (\<lambda>r. filter (\<lambda>i. i mod n = r) [0..<length xs]) [0..<n]))"
    by (simp add: map_concat o_def)
  finally show ?thesis
    by (simp only: mset_map filter_classes [OF assms]) (metis map_nth mset_map)
qed

lemma put_share_ranks:
  assumes "shares_rank0 cf" and "po_tp_size cf = int n" and "0 < n" and "hs \<noteq> []" and "po_tp_rank s \<in> {- 1, int r}"
  shows "put_share cf (map (\<lambda>h. prefix_key h r n m) hs) ts s
    = (Inr (py_stride (map (\<lambda>h. prefix_key h 0 n m) hs) r n, py_stride ts r n), s\<lparr>po_tp_rank := int r\<rparr>)"
  using assms by (simp add: put_share_def tp_rank_0_keys)

text \<open>The scheduler's keys: those of all ranks, block by block.\<close>

definition scheduler_keys :: "nat list \<Rightarrow> nat \<Rightarrow> string \<Rightarrow> string list" where
  "scheduler_keys hs n m = concat (map (\<lambda>h. map (\<lambda>r. prefix_key h r n m) [0..<n]) hs)"

lemma length_scheduler_keys: "length (scheduler_keys hs n m) = length hs * n"
  by (induction hs) (simp_all add: scheduler_keys_def)

lemma scheduler_keys_nth: "0 < n \<Longrightarrow> k < length hs \<Longrightarrow> scheduler_keys hs n m ! (k * n) = prefix_key (hs ! k) 0 n m"
proof (induction hs arbitrary: k)
  case Nil
  then show ?case by simp
next
  case (Cons h hs)
  have cons: "scheduler_keys (h # hs) n m = map (\<lambda>r. prefix_key h r n m) [0..<n] @ scheduler_keys hs n m"
    by (simp add: scheduler_keys_def)
  show ?case
  proof (cases k)
    case 0
    then show ?thesis using Cons.prems by (simp add: cons nth_append)
  next
    case (Suc j)
    then show ?thesis using Cons by (simp add: cons nth_append)
  qed
qed

lemma scheduler_keys_stride:
  assumes "0 < n"
  shows "py_stride (scheduler_keys hs n m) 0 n = map (\<lambda>h. prefix_key h 0 n m) hs"
proof -
  have "py_stride (scheduler_keys hs n m) 0 n = map (\<lambda>k. scheduler_keys hs n m ! (k * n + 0)) [0..<length hs]"
    by (rule py_stride_blocks [OF assms length_scheduler_keys])
  also have "\<dots> = map (\<lambda>k. prefix_key (hs ! k) 0 n m) [0..<length hs]"
    by (intro map_cong refl) (simp add: scheduler_keys_nth [OF assms])
  also have "\<dots> = map (\<lambda>h. prefix_key h 0 n m) (map ((!) hs) [0..<length hs])" by (simp add: o_def)
  finally show ?thesis by (simp only: map_nth)
qed

text \<open>
  C21: The workers of a tensor-parallel group that share a cache store every block exactly once
  between them, each under the key of rank 0, and when that is what the store holds the scheduler
  finds every block of the prompt for every rank.
\<close>

theorem ranks_store_every_block_once:
  assumes cf: "shares_rank0 cf" "po_tp_size cf = int n" "0 < n" "\<not> po_bypass_exists cf" and hs: "hs \<noteq> []"
    and ranks: "\<forall>r < n. po_tp_rank (s r) \<in> {- 1, int r}"
    and shares: "\<forall>r < n. \<exists>ts s'. put_share cf (map (\<lambda>h. prefix_key h r n m) hs) (tensors r) (s r) = (Inr (share r, ts), s')"
    and stored: "\<forall>k. present k \<longleftrightarrow> (\<exists>r < n. k \<in> md5 ` set (share r))"
    and honest: "honest_prefix_lookup present (po_world p) store"
  shows "mset (concat (map share [0..<n])) = mset (map (\<lambda>h. prefix_key h 0 n m) hs)
    \<and> fst (pool_batch_exist cf store md5 (scheduler_keys hs n m) p) = Inr (replicate (length hs * n) True)"
proof -
  let ?keys = "map (\<lambda>h. prefix_key h 0 n m) hs"
  have share: "share r = py_stride ?keys r n" if "r < n" for r
    using shares ranks put_share_ranks [OF cf(1-3) hs, of "s r" r m "tensors r"] that by fastforce
  have "concat (map share [0..<n]) = concat (map (\<lambda>r. py_stride ?keys r n) [0..<n])"
    by (intro arg_cong [where f = concat] map_cong) (simp_all add: share)
  then have once: "mset (concat (map share [0..<n])) = mset ?keys" using strides_partition [OF cf(3), of ?keys] by (simp only:)
  have "set (concat (map share [0..<n])) = set ?keys" using once by (rule mset_eq_setD)
  have all: "present (md5 k)" if k: "k \<in> set ?keys" for k
  proof -
    have "k \<in> set (concat (map share [0..<n]))" using k \<open>set (concat (map share [0..<n])) = set ?keys\<close> by blast
    then obtain r where "r < n" "k \<in> set (share r)" by auto
    then show ?thesis using stored by blast
  qed
  have "takeWhile present (map md5 ?keys) = map md5 ?keys"
    unfolding takeWhile_eq_all_conv using all by (metis (no_types, lifting) imageE list.set_map)
  moreover have "fst (st_lookup_on_prefix store (po_world p) (map md5 ?keys)) = Inr (int (length (takeWhile present (map md5 ?keys))) - 1)"
    using honest unfolding honest_prefix_lookup_def by blast
  ultimately have found: "fst (st_lookup_on_prefix store (po_world p) (map md5 ?keys)) = Inr (int (length hs) - 1)"
    by (simp only: length_map)
  have ne: "scheduler_keys hs n m \<noteq> []" using length_scheduler_keys [of hs n m] hs cf(3) by auto
  have rep: "concat (map (\<lambda>i. replicate n (int i < int (length hs) - 1 + 1)) [0..<length hs]) = replicate (length hs * n) True"
  proof -
    have "concat (map (\<lambda>i. replicate n (int i < int (length hs) - 1 + 1)) [0..<length hs]) = concat (map (\<lambda>i. replicate n True) [0..<length hs])"
      by (intro arg_cong [where f = concat] map_cong) simp_all
    also have "\<dots> = replicate (length hs * n) True"
      by (rule replicate_eqI) (auto simp: length_concat o_def sum_list_triv split: if_splits)
    finally show ?thesis .
  qed
  have "fst (pool_batch_exist cf store md5 (scheduler_keys hs n m) p) = Inr (replicate (length hs * n) True)"
    using cf ne found rep
    by (cases "st_lookup_on_prefix store (po_world p) (map md5 ?keys)")
      (simp add: pool_batch_exist_def pool_lookup_def Let_def length_scheduler_keys scheduler_keys_stride [OF cf(3)])
  with once show ?thesis by blast
qed


definition tp_pool_cfg :: pool_cfg where
  "tp_pool_cfg = \<lparr>po_is_mla = True, po_scp_size = 1, po_tp_size = 2, po_bypass_get = False, po_bypass_put = False, po_bypass_exists = False\<rparr>"

definition tp_share :: "nat \<Rightarrow> string list" where
  "tp_share r = (if r = 0 then [''7_0_2_m'', ''9_0_2_m''] else [''8_0_2_m''])"

definition tp_store :: "unit kv_lookup_api" where
  "tp_store =
     \<lparr>st_lookup = (\<lambda>w ids. (Inr (map (\<lambda>b. b \<in> {''7_0_2_m'', ''8_0_2_m'', ''9_0_2_m''}) ids), w)),
      st_lookup_on_prefix = (\<lambda>w ids. (Inr (int (length (takeWhile (\<lambda>b. b \<in> {''7_0_2_m'', ''8_0_2_m'', ''9_0_2_m''}) ids)) - 1), w)),
      st_prefetch = (\<lambda>w ids. (Inr (), w))\<rparr>"

lemma tp_keys:
  "map (\<lambda>h. prefix_key h 0 2 ''m'') [7, 8, 9] = [''7_0_2_m'', ''8_0_2_m'', ''9_0_2_m'']"
  "scheduler_keys [7, 8, 9] 2 ''m'' = [''7_0_2_m'', ''7_1_2_m'', ''8_0_2_m'', ''8_1_2_m'', ''9_0_2_m'', ''9_1_2_m'']"
  by code_simp+

theorem ranks_store_every_block_once_witness:
  "fst (pool_batch_exist tp_pool_cfg tp_store id
      [''7_0_2_m'', ''7_1_2_m'', ''8_0_2_m'', ''8_1_2_m'', ''9_0_2_m'', ''9_1_2_m''] \<lparr>po_tp_rank = -1, po_world = ()\<rparr>)
    = Inr [True, True, True, True, True, True]"
proof -
  let ?s = "\<lambda>r :: nat. \<lparr>po_tp_rank = -1, po_world = ()\<rparr>" and ?hs = "[7, 8, 9] :: nat list"
  have cf: "shares_rank0 tp_pool_cfg" "po_tp_size tp_pool_cfg = int 2" "\<not> po_bypass_exists tp_pool_cfg"
    by (simp_all add: tp_pool_cfg_def shares_rank0_def)
  have strides: "py_stride [''7_0_2_m'', ''8_0_2_m'', ''9_0_2_m''] r 2 = tp_share r" if "r < 2" for r
    using that by (auto simp: less_2_cases_iff py_stride_def tp_share_def upt_rec)
  have shares: "\<forall>r < 2. \<exists>ts s'. put_share tp_pool_cfg (map (\<lambda>h. prefix_key h r 2 ''m'') ?hs) [] (?s r) = (Inr (tp_share r, ts), s')"
  proof (intro allI impI)
    fix r :: nat
    assume r: "r < 2"
    have "put_share tp_pool_cfg (map (\<lambda>h. prefix_key h r 2 ''m'') ?hs) [] (?s r)
        = (Inr (py_stride (map (\<lambda>h. prefix_key h 0 2 ''m'') ?hs) r 2, py_stride [] r 2), (?s r)\<lparr>po_tp_rank := int r\<rparr>)"
      by (rule put_share_ranks [OF cf(1,2)]) simp_all
    then show "\<exists>ts s'. put_share tp_pool_cfg (map (\<lambda>h. prefix_key h r 2 ''m'') ?hs) [] (?s r) = (Inr (tp_share r, ts), s')"
      unfolding tp_keys(1) strides [OF r] by blast
  qed
  have stored: "\<forall>k. k \<in> {''7_0_2_m'', ''8_0_2_m'', ''9_0_2_m''} \<longleftrightarrow> (\<exists>r < 2. k \<in> id ` set (tp_share r))"
    by (auto simp: tp_share_def less_2_cases_iff)
  have honest: "honest_prefix_lookup (\<lambda>k. k \<in> {''7_0_2_m'', ''8_0_2_m'', ''9_0_2_m''}) (po_world (?s 0)) tp_store"
    by (simp add: honest_prefix_lookup_def tp_store_def)
  have "fst (pool_batch_exist tp_pool_cfg tp_store id (scheduler_keys ?hs 2 ''m'') (?s 0)) = Inr (replicate 6 True)"
    using ranks_store_every_block_once [OF cf(1,2) _ cf(3) _ _ shares stored honest] by simp
  then have "fst (pool_batch_exist tp_pool_cfg tp_store id
      [''7_0_2_m'', ''7_1_2_m'', ''8_0_2_m'', ''8_1_2_m'', ''9_0_2_m'', ''9_1_2_m''] (?s 0)) = Inr (replicate 6 True)"
    unfolding tp_keys(2) .
  then show ?thesis by (simp add: numeral_eq_Suc)
qed

section \<open>Sizes and addresses of a block\<close>

text \<open>
  The pool is told the sizes of all keys and then of all values, while the addresses it is given
  alternate between keys and values. The two orders agree when keys and values are of one size.
\<close>

definition address_sizes :: "(npu_tensor \<times> npu_tensor) list \<Rightarrow> nat list" where
  "address_sizes cache = concat (map (\<lambda>(k, v). [nt_block_numel k * nt_elem k, nt_block_numel v * nt_elem v]) cache)"

lemma equal_sizes_match:
  assumes "get_io_size_info (Some cache) = Inr (sizes, shard)"
    and "\<forall>(k, v) \<in> set cache. nt_block_numel k * nt_elem k = n \<and> nt_block_numel v * nt_elem v = n"
  shows "sizes = address_sizes cache"
proof -
  have "cache \<noteq> []" using assms(1) by (auto simp: get_io_size_info_def py_index_def rbind_Inr_iff split: if_splits)
  then have "sizes = replicate (length cache) n @ replicate (length cache) n"
    using assms by (cases cache) (auto simp: get_io_size_info_def py_index_def Let_def split: if_splits)
  moreover have "address_sizes cache = replicate (length cache + length cache) n"
    using assms(2) by (induction cache) (auto simp: address_sizes_def)
  ultimately show ?thesis by (simp add: replicate_add)
qed

lemma unequal_sizes_differ:
  assumes "get_io_size_info (Some cache) = Inr (sizes, shard)" and "2 \<le> length cache"
    and "\<forall>(k, v) \<in> set cache. nt_block_numel k * nt_elem k = n \<and> nt_block_numel v * nt_elem v = n'" and "n \<noteq> n'"
  shows "sizes ! 1 = n \<and> address_sizes cache ! 1 = n'"
proof -
  obtain c1 c2 rest where c: "cache = c1 # c2 # rest" using assms(2) by (cases cache; cases "tl cache") auto
  then show ?thesis
    using assms by (cases c1) (auto simp: get_io_size_info_def py_index_def Let_def address_sizes_def split: if_splits)
qed

end
