(* ===== verification/Store_Backends.thy ===== *)
theory Store_Backends
  imports Py_Text Kv_Store
begin

text \<open>
  The Python halves of two store backends: \<open>UcmPcStoreV1\<close> (\<open>pcstore_connector_v1.py\<close>), which
  implements the store interface on a native store, and the pipelines of \<open>UcmPipelineStore\<close>
  (\<open>pipeline/connector.py\<close>), which stack native stores on each other. The native stores are
  parameters.
\<close>

section \<open>Configuration values\<close>

text \<open>The values a configuration can hold; \<open>CfgOther\<close> is none of the kinds named before.\<close>

datatype 'v cfg_value = CfgInt int | CfgBool bool | CfgStr string | CfgList "'v cfg_value list" | CfgOther 'v

type_synonym 'v config = "(string, 'v cfg_value) dict"

text \<open>Python's booleans are integers.\<close>

fun cfg_int :: "'v cfg_value \<Rightarrow> int result" where
  "cfg_int (CfgInt i) = Inr i"
| "cfg_int (CfgBool b) = Inr (if b then 1 else 0)"
| "cfg_int _ = Inl TypeError"

definition on_device :: "'v config \<Rightarrow> bool result" where
  "on_device config = rbind (cfg_int (dict_get_or config ''device_id'' (CfgInt (- 1)))) (\<lambda>d. Inr (0 \<le> d))"

section \<open>The PC store\<close>

record 'w pc_native =
  pn_LookupBatch :: "'w \<Rightarrow> bytes list \<Rightarrow> bool list result \<times> 'w"
  pn_LoadToDevice :: "'w \<Rightarrow> bytes list \<Rightarrow> u64 list \<Rightarrow> nat result \<times> 'w"
  pn_DumpFromDevice :: "'w \<Rightarrow> bytes list \<Rightarrow> u64 list \<Rightarrow> nat result \<times> 'w"
  pn_Wait :: "'w \<Rightarrow> nat \<Rightarrow> int \<times> 'w"
  pn_Check :: "'w \<Rightarrow> nat \<Rightarrow> bool result \<times> 'w"

subsection \<open>Construction\<close>

definition pc_key_mapping :: "(string, string) dict" where
  "pc_key_mapping =
     [(''unique_id'', ''uniqueId''), (''io_direct'', ''transferIoDirect''), (''local_rank_size'', ''transferLocalRankSize''),
      (''device_id'', ''transferDeviceId''), (''stream_number'', ''transferStreamNumber''), (''tensor_size'', ''transferIoSize''),
      (''buffer_number'', ''transferBufferNumber''), (''timeout_ms'', ''transferTimeoutMs''),
      (''use_scatter_gather'', ''transferScatterGatherEnable''), (''use_gdr'', ''transferUseGdr''),
      (''shard_data_dir'', ''shardDataDir''), (''gpu_kv_buffer_addrs'', ''gpuKvBufferAddrs''), (''gpu_kv_buffer_sizes'', ''gpuKvBufferSizes'')]"

definition pc_tensor_size :: "'v config \<Rightarrow> 'v config result" where
  "pc_tensor_size config =
     (case dict_get config ''tensor_size_list'' of
        None \<Rightarrow> Inr config
      | Some (CfgList (x # xs)) \<Rightarrow> if list_all (\<lambda>y. y = x) (x # xs) then Inr (dict_set ''tensor_size'' x config) else Inl RuntimeError
      | Some _ \<Rightarrow> Inl RuntimeError)"

text \<open>The attributes set on the native configuration, in order, and the configuration as it is left behind.\<close>

definition pc_attributes :: "(string \<Rightarrow> bool) \<Rightarrow> 'v config \<Rightarrow> (string \<times> 'v cfg_value) list" where
  "pc_attributes has_attr config =
     concat (map (\<lambda>(k, v). case dict_get pc_key_mapping k of
                             None \<Rightarrow> []
                           | Some attr \<Rightarrow> if has_attr attr then [(attr, v)] else []) config)"

definition pc_init ::
  "(string \<Rightarrow> bool) \<Rightarrow> ('v cfg_value \<Rightarrow> 'v cfg_value \<Rightarrow> bool \<Rightarrow> (string \<times> 'v cfg_value) list \<Rightarrow> int) \<Rightarrow> 'v config \<Rightarrow> 'v config result" where
  "pc_init has_attr setup config =
     rbind (py_key config ''storage_backends'') (\<lambda>storage_backends.
       rbind (on_device config) (\<lambda>transfer_enable.
         rbind (pc_tensor_size config) (\<lambda>config'.
           if setup storage_backends (dict_get_or config ''block_size'' (CfgInt 0)) transfer_enable (pc_attributes has_attr config') = 0
           then Inr config' else Inl RuntimeError)))"

subsection \<open>Lookups\<close>

fun first_miss :: "bool list \<Rightarrow> nat \<Rightarrow> int" where
  "first_miss [] i = int i - 1"
| "first_miss (found # rest) i = (if found then first_miss rest (Suc i) else int i - 1)"

definition pc_lookup_on_prefix :: "'w pc_native \<Rightarrow> 'w \<Rightarrow> bytes list \<Rightarrow> int result \<times> 'w" where
  "pc_lookup_on_prefix native w block_ids =
     (case pn_LookupBatch native w block_ids of
        (Inl e, w') \<Rightarrow> (Inl e, w')
      | (Inr res, w') \<Rightarrow> (Inr (first_miss res 0), w'))"

subsection \<open>Transfers of tensors\<close>

text \<open>
  \<open>_flatten_tensor_ptrs\<close>: two lists of the expected length, filled entry by entry; a tensor is
  its address. An entry that stays \<open>None\<close> is refused by the native store.
\<close>

fun flatten_row :: "bytes \<Rightarrow> u64 list \<Rightarrow> nat \<Rightarrow> bytes option list \<Rightarrow> u64 option list \<Rightarrow> (nat \<times> bytes option list \<times> u64 option list) result" where
  "flatten_row bid [] idx ids ptrs = Inr (idx, ids, ptrs)"
| "flatten_row bid (t # ts) idx ids ptrs =
     (if length ids \<le> idx then Inl IndexError else flatten_row bid ts (Suc idx) (ids[idx := Some bid]) (ptrs[idx := Some t]))"

fun flatten_rows :: "(bytes \<times> u64 list) list \<Rightarrow> nat \<Rightarrow> bytes option list \<Rightarrow> u64 option list \<Rightarrow> (bytes option list \<times> u64 option list) result" where
  "flatten_rows [] idx ids ptrs = Inr (ids, ptrs)"
| "flatten_rows ((bid, ts) # rest) idx ids ptrs =
     rbind (flatten_row bid ts idx ids ptrs) (\<lambda>(idx', ids', ptrs'). flatten_rows rest idx' ids' ptrs')"

definition flatten_tensor_ptrs :: "bytes list \<Rightarrow> u64 list list \<Rightarrow> (bytes option list \<times> u64 option list) result" where
  "flatten_tensor_ptrs block_ids tensors =
     (if tensors = [] then Inl IndexError
      else
        let total_len = length block_ids * length (hd tensors)
        in flatten_rows (zip block_ids tensors) 0 (replicate total_len None) (replicate total_len None))"

definition with_flat ::
  "('w \<Rightarrow> bytes list \<Rightarrow> u64 list \<Rightarrow> nat result \<times> 'w) \<Rightarrow> 'w \<Rightarrow> (bytes option list \<times> u64 option list) result \<Rightarrow> nat result \<times> 'w" where
  "with_flat call w flat =
     (case flat of
        Inl e \<Rightarrow> (Inl e, w)
      | Inr (ids, ptrs) \<Rightarrow>
          if None \<in> set ids \<or> None \<in> set ptrs then (Inl TypeError, w) else call w (map the ids) (map the ptrs))"

definition pc_load :: "'w pc_native \<Rightarrow> 'w \<Rightarrow> bytes list \<Rightarrow> nat list \<Rightarrow> u64 list list \<Rightarrow> nat result \<times> 'w" where
  "pc_load native w block_ids shard_index dst_tensor = with_flat (pn_LoadToDevice native) w (flatten_tensor_ptrs block_ids dst_tensor)"

definition pc_dump :: "'w pc_native \<Rightarrow> 'w \<Rightarrow> bytes list \<Rightarrow> nat list \<Rightarrow> u64 list list \<Rightarrow> nat result \<times> 'w" where
  "pc_dump native w block_ids shard_index src_tensor = with_flat (pn_DumpFromDevice native) w (flatten_tensor_ptrs block_ids src_tensor)"

subsection \<open>Transfers of addresses\<close>

text \<open>
  \<open>np.repeat\<close> and \<open>ravel\<close>. Lists are first made an array of signed integers (\<open>as_array\<close> false),
  which fails without a row, for rows of different lengths and for addresses above \<open>2 ^ 63\<close>.
  A two-dimensional array without rows is taken to have no columns.
\<close>

definition repeat_addrs :: "bool \<Rightarrow> bytes list \<Rightarrow> u64 list list \<Rightarrow> (bytes list \<times> u64 list) result" where
  "repeat_addrs as_array block_ids addrs =
     (let m = (case addrs of [] \<Rightarrow> 0 | row # _ \<Rightarrow> length row);
          flat = Inr (concat (map (replicate m) block_ids), concat addrs)
      in if as_array then flat
         else if addrs = [] then Inl IndexError
         else if \<not> list_all (\<lambda>row. length row = m) addrs then Inl ValueError
         else if list_ex (list_ex (\<lambda>a. 2 ^ 63 \<le> uint a)) addrs then Inl OverflowError
         else flat)"

definition pc_load_data :: "'w pc_native \<Rightarrow> bool \<Rightarrow> 'w \<Rightarrow> bytes list \<Rightarrow> nat list \<Rightarrow> u64 list list \<Rightarrow> nat result \<times> 'w" where
  "pc_load_data native as_array w block_ids shard_index dst_addr =
     (case repeat_addrs as_array block_ids dst_addr of
        Inl e \<Rightarrow> (Inl e, w)
      | Inr (ids, addrs) \<Rightarrow> pn_LoadToDevice native w ids addrs)"

definition pc_dump_data :: "'w pc_native \<Rightarrow> bool \<Rightarrow> 'w \<Rightarrow> bytes list \<Rightarrow> nat list \<Rightarrow> u64 list list \<Rightarrow> nat \<Rightarrow> nat result \<times> 'w" where
  "pc_dump_data native as_array w block_ids shard_index src_addr prerequisite_handle =
     (case repeat_addrs as_array block_ids src_addr of
        Inl e \<Rightarrow> (Inl e, w)
      | Inr (ids, addrs) \<Rightarrow> pn_DumpFromDevice native w ids addrs)"

definition pc_wait :: "'w pc_native \<Rightarrow> 'w \<Rightarrow> nat \<Rightarrow> unit result \<times> 'w" where
  "pc_wait native w task_id = (case pn_Wait native w task_id of (ret, w') \<Rightarrow> (if ret = 0 then Inr () else Inl RuntimeError, w'))"

text \<open>The store as the connectors see it; they pass arrays of addresses.\<close>

definition pc_store :: "'w pc_native \<Rightarrow> 'w kv_store" where
  "pc_store native =
     \<lparr>st_lookup = pn_LookupBatch native, st_lookup_on_prefix = pc_lookup_on_prefix native, st_prefetch = (\<lambda>w ids. (Inr (), w)),
      st_load_data = pc_load_data native True, st_dump_data = pc_dump_data native True, st_wait = pc_wait native, st_check = pn_Check native\<rparr>"

section \<open>Pipelines\<close>

text \<open>A pipeline is the list of native stores in the order they are stacked, each with its configuration.\<close>

type_synonym 'v stack = "(string \<times> 'v config) list"

definition whole_shards :: "'v config \<Rightarrow> 'v config result" where
  "whole_shards config =
     rbind (on_device config) (\<lambda>d.
       if d then rbind (py_key config ''shard_size'') (\<lambda>s. Inr (dict_set ''tensor_size'' s config)) else Inr config)"

definition cache_ds3fs_pipeline :: "'v config \<Rightarrow> 'v stack result" where
  "cache_ds3fs_pipeline config = rbind (whole_shards config) (\<lambda>ds3fs_config. Inr [(''Ds3fs'', ds3fs_config), (''Cache'', config)])"

definition cache_empty_pipeline :: "'v config \<Rightarrow> 'v stack result" where
  "cache_empty_pipeline config = Inr [(''Empty'', config), (''Cache'', config)]"

definition cache_posix_pipeline :: "'v config \<Rightarrow> 'v stack result" where
  "cache_posix_pipeline config = rbind (whole_shards config) (\<lambda>posix_config. Inr [(''Posix'', posix_config), (''Cache'', config)])"

definition cfg_int_at :: "'v config \<Rightarrow> string \<Rightarrow> int result" where
  "cfg_int_at config k = rbind (py_key config k) cfg_int"

text \<open>
  Compressed shards are a part of \<open>compress_ratio / 32\<close> of the shard, cut to whole pages. Where
  blocks are not made of whole shards the builder prints an error and stacks nothing.
\<close>

definition compressed_size :: "int \<Rightarrow> int \<Rightarrow> int" where
  "compressed_size shard_size ratio = shard_size * ratio div 32 div 4096 * 4096"

definition compressed_config :: "'v config \<Rightarrow> 'v config option result" where
  "compressed_config config =
     rbind (cfg_int_at config ''block_size'') (\<lambda>block_size.
       rbind (cfg_int_at config ''shard_size'') (\<lambda>shard_size.
         if shard_size = 0 then Inl ZeroDivisionError
         else if block_size mod shard_size \<noteq> 0 then Inr None
         else
           rbind (cfg_int_at config ''compress_ratio'') (\<lambda>ratio.
             let s = compressed_size shard_size ratio
             in Inr (Some (dict_set ''block_size'' (CfgInt (s * (block_size div shard_size)))
                      (dict_set ''tensor_size'' (CfgInt s) (dict_set ''shard_size'' (CfgInt s) config)))))))"

definition cache_compress_posix_pipeline :: "'v config \<Rightarrow> 'v stack result" where
  "cache_compress_posix_pipeline config =
     rbind (on_device config) (\<lambda>d.
       rbind (if d then compressed_config config else Inr (Some config)) (\<lambda>posix_config.
         case posix_config of
           None \<Rightarrow> Inr []
         | Some c \<Rightarrow> Inr [(''Posix'', c), (''Compress'', config), (''Cache'', config)]))"

definition empty_pipeline :: "'v config \<Rightarrow> 'v stack result" where
  "empty_pipeline config = Inr [(''Empty'', config)]"

definition shared_config :: "'v config \<Rightarrow> 'v config" where
  "shared_config config = dict_set ''share_buffer_enable'' (CfgBool True) config"

definition fake_pipeline :: "'v config \<Rightarrow> 'v stack result" where
  "fake_pipeline config = Inr [(''Fake'', shared_config config)]"

definition posix_pipeline :: "'v config \<Rightarrow> 'v stack result" where
  "posix_pipeline config = Inr [(''Posix'', config)]"

definition cache_fake_pipeline :: "'v config \<Rightarrow> 'v stack result" where
  "cache_fake_pipeline config = Inr [(''Fake'', shared_config config), (''Cache'', config)]"

definition mooncake_pipeline :: "'v config \<Rightarrow> 'v stack result" where
  "mooncake_pipeline config = Inr [(''Mooncake'', config)]"

definition mooncake_posix_pipeline :: "'v config \<Rightarrow> 'v stack result" where
  "mooncake_posix_pipeline config = rbind (whole_shards config) (\<lambda>posix_config. Inr [(''Posix'', posix_config), (''Mooncake'', config)])"

text \<open>The registry of builders, and the registrations at the end of the module.\<close>

type_synonym 'v builders = "(string, 'v config \<Rightarrow> 'v stack result) dict"

definition register :: "string \<Rightarrow> ('v config \<Rightarrow> 'v stack result) \<Rightarrow> 'v builders \<Rightarrow> 'v builders result" where
  "register name builder reg = (if name \<in> dict_keys reg then Inl ValueError else Inr (dict_set name builder reg))"

fun register_all :: "(string \<times> ('v config \<Rightarrow> 'v stack result)) list \<Rightarrow> 'v builders \<Rightarrow> 'v builders result" where
  "register_all [] reg = Inr reg"
| "register_all ((name, builder) # rest) reg = rbind (register name builder reg) (register_all rest)"

definition registrations :: "(string \<times> ('v config \<Rightarrow> 'v stack result)) list" where
  "registrations =
     [(''Cache|Ds3fs'', cache_ds3fs_pipeline), (''Cache|Empty'', cache_empty_pipeline), (''Cache|Posix'', cache_posix_pipeline),
      (''Empty'', empty_pipeline), (''Fake'', fake_pipeline), (''Posix'', posix_pipeline),
      (''Cache|Compress|Posix'', cache_compress_posix_pipeline), (''Cache|Fake'', cache_fake_pipeline),
      (''Mooncake'', mooncake_pipeline), (''Mooncake|Posix'', mooncake_posix_pipeline)]"

definition pipeline_init :: "'v builders \<Rightarrow> 'v config \<Rightarrow> 'v stack result" where
  "pipeline_init reg config =
     rbind (py_key config ''store_pipeline'') (\<lambda>name.
       case name of
         CfgList _ \<Rightarrow> Inl TypeError
       | CfgStr s \<Rightarrow> (case dict_get reg s of None \<Rightarrow> Inl ValueError | Some builder \<Rightarrow> builder config)
       | _ \<Rightarrow> Inl ValueError)"

section \<open>The factory of stores\<close>

text \<open>
  \<open>UcmConnectorFactoryV1\<close>: a registry of loaders under names. Importing a module and looking up
  a class in it is the parameter \<open>import_class\<close>; \<open>construct\<close> calls the class.
\<close>

type_synonym loaders = "(string, string \<times> string) dict"

definition register_connector :: "string \<Rightarrow> string \<Rightarrow> string \<Rightarrow> loaders \<Rightarrow> loaders result" where
  "register_connector name module_path class_name reg =
     (if name \<in> dict_keys reg then Inl ValueError else Inr (dict_set name (module_path, class_name) reg))"

definition create_connector ::
  "(string \<Rightarrow> string \<Rightarrow> 'c result) \<Rightarrow> ('c \<Rightarrow> bool) \<Rightarrow> ('c \<Rightarrow> 'v config \<Rightarrow> 's result) \<Rightarrow> loaders \<Rightarrow> string \<Rightarrow> 'v config \<Rightarrow> string option \<Rightarrow> 's result" where
  "create_connector import_class is_store construct reg connector_name config module_path =
     rbind (if module_path \<noteq> None \<and> module_path \<noteq> Some [] then import_class (the module_path) connector_name
            else case dict_get reg connector_name of
                   None \<Rightarrow> Inl ValueError
                 | Some (m, c) \<Rightarrow> import_class m c)
       (\<lambda>connector_cls. if is_store connector_cls then construct connector_cls config else Inl AssertionError)"

definition factory_registry :: "loaders result" where
  "factory_registry =
     rbind (register_connector ''UcmNfsStore'' ''ucm.store.pcstore.pcstore_connector_v1'' ''UcmPcStoreV1'' [])
       (register_connector ''UcmPipelineStore'' ''ucm.store.pipeline.connector'' ''UcmPipelineStore'')"

section \<open>What the PC store promises\<close>

lemma first_miss_takeWhile: "first_miss found i = int (i + length (takeWhile id found)) - 1"
  by (induction found arbitrary: i) simp_all

text \<open>
  C31: The prefix lookup of the PC store keeps the promise of the interface: when the native
  store answers truthfully which blocks it holds, the answer is the last block of the longest
  stored prefix.
\<close>

theorem pc_prefix_lookup_is_honest:
  assumes "\<forall>ids. fst (pn_LookupBatch native w ids) = Inr (map present ids)"
  shows "honest_lookup present w (pc_store native) \<and> honest_prefix_lookup present w (pc_store native)"
proof
  show "honest_lookup present w (pc_store native)" using assms by (simp add: honest_lookup_def pc_store_def)
  have "fst (pc_lookup_on_prefix native w ids) = Inr (int (length (takeWhile present ids)) - 1)" for ids
    using assms by (cases "pn_LookupBatch native w ids")
      (auto simp: pc_lookup_on_prefix_def first_miss_takeWhile takeWhile_map o_def dest!: spec [of _ ids])
  then show "honest_prefix_lookup present w (pc_store native)" by (simp add: honest_prefix_lookup_def pc_store_def)
qed

definition demo_native :: "nat pc_native" where
  "demo_native =
     \<lparr>pn_LookupBatch = (\<lambda>w ids. (Inr (map (\<lambda>b. length b \<le> w) ids), w)), pn_LoadToDevice = (\<lambda>w ids addrs. (Inr 1, w)),
      pn_DumpFromDevice = (\<lambda>w ids addrs. (Inr 1, w + length ids)), pn_Wait = (\<lambda>w t. (0, w)), pn_Check = (\<lambda>w t. (Inr True, w))\<rparr>"

theorem pc_prefix_lookup_is_honest_witness:
  "fst (st_lookup_on_prefix (pc_store demo_native) 2 [''a'', ''bb'', ''ccc'', ''d'']) = Inr 1"
proof -
  have "honest_prefix_lookup (\<lambda>b. length b \<le> 2) 2 (pc_store demo_native)"
    using pc_prefix_lookup_is_honest [of demo_native 2 "\<lambda>b. length b \<le> 2"] by (simp add: demo_native_def)
  then show ?thesis by (simp add: honest_prefix_lookup_def)
qed

section \<open>Tensors and addresses\<close>

lemma list_update_fill: "k < n \<Longrightarrow> (map f xs @ replicate n None)[length xs + k := Some v] = map f xs @ (replicate n None)[k := Some v]"
  by (simp add: list_update_append)

lemma flatten_row_fill:
  "length ts \<le> n \<Longrightarrow> length is = length ps \<Longrightarrow>
   flatten_row bid ts (length ps) (map Some is @ replicate n None) (map Some ps @ replicate n None)
   = Inr (length ps + length ts, map Some (is @ replicate (length ts) bid) @ replicate (n - length ts) None,
          map Some (ps @ ts) @ replicate (n - length ts) None)"
proof (induction ts arbitrary: n "is" ps)
  case Nil
  then show ?case by simp
next
  case (Cons t ts)
  then obtain k where n: "n = Suc k" by (cases n) auto
  have put: "(map Some xs @ replicate n None)[length xs := Some v] = map Some (xs @ [v]) @ replicate k None" for xs :: "'x list" and v
    by (simp add: n list_update_append)
  have len: "length (is @ [bid]) = length (ps @ [t])" using Cons.prems(2) by simp
  have "flatten_row bid (t # ts) (length ps) (map Some is @ replicate n None) (map Some ps @ replicate n None)
      = flatten_row bid ts (length (ps @ [t])) (map Some (is @ [bid]) @ replicate k None) (map Some (ps @ [t]) @ replicate k None)"
    using put [of "is" bid] put [of ps t] Cons.prems(2) n by simp
  also have "\<dots> = Inr (length (ps @ [t]) + length ts, map Some ((is @ [bid]) @ replicate (length ts) bid) @ replicate (k - length ts) None,
          map Some ((ps @ [t]) @ ts) @ replicate (k - length ts) None)"
    by (rule Cons.IH [OF _ len]) (use Cons.prems(1) n in simp)
  finally show ?case by (simp add: n)
qed

lemma flatten_rows_fill:
  "\<forall>r \<in> set rows. length r = m \<Longrightarrow> length bids = length rows \<Longrightarrow> length is = length ps \<Longrightarrow>
   flatten_rows (zip bids rows) (length ps) (map Some is @ replicate (length rows * m) None) (map Some ps @ replicate (length rows * m) None)
   = Inr (map Some (is @ concat (map (replicate m) bids)), map Some (ps @ concat rows))"
proof (induction rows arbitrary: bids "is" ps)
  case Nil
  then show ?case by simp
next
  case (Cons r rows)
  obtain b bs where b: "bids = b # bs" using Cons.prems(2) by (cases bids) auto
  have r: "length r = m" using Cons.prems(1) by simp
  have "flatten_row b r (length ps) (map Some is @ replicate (m + length rows * m) None) (map Some ps @ replicate (m + length rows * m) None)
      = Inr (length (ps @ r), map Some (is @ replicate m b) @ replicate (length rows * m) None, map Some (ps @ r) @ replicate (length rows * m) None)"
    using flatten_row_fill [of r "m + length rows * m" "is" ps b] Cons.prems(3) r by simp
  moreover have "flatten_rows (zip bs rows) (length (ps @ r)) (map Some (is @ replicate m b) @ replicate (length rows * m) None)
        (map Some (ps @ r) @ replicate (length rows * m) None)
      = Inr (map Some ((is @ replicate m b) @ concat (map (replicate m) bs)), map Some ((ps @ r) @ concat rows))"
    by (rule Cons.IH) (use Cons.prems b r in simp_all)
  ultimately show ?case by (simp add: b)
qed

text \<open>
  Loading or dumping tensors asks the native store for the same transfer as loading or
  dumping their addresses: every address goes with the id of its block.
\<close>

lemma pc_tensors_and_addresses_agree:
  assumes "rows \<noteq> []" and "length ids = length rows" and "\<forall>r \<in> set rows. length r = m" and "\<forall>r \<in> set rows. \<forall>a \<in> set r. uint a < 2 ^ 63"
  shows "pc_load native w ids sh rows = pc_load_data native as_array w ids sh rows
    \<and> pc_dump native w ids sh rows = pc_dump_data native as_array w ids sh rows h
    \<and> pc_load native w ids sh rows = pn_LoadToDevice native w (concat (map (replicate m) ids)) (concat rows)"
proof -
  have m: "length (hd rows) = m" using assms(1,3) by simp
  have tens: "flatten_tensor_ptrs ids rows = Inr (map Some (concat (map (replicate m) ids)), map Some (concat rows))"
    using flatten_rows_fill [of rows m ids "[]" "[]"] assms(1-3) m by (simp add: flatten_tensor_ptrs_def Let_def)
  have flat: "with_flat call w (flatten_tensor_ptrs ids rows) = call w (concat (map (replicate m) ids)) (concat rows)" for call
    by (simp add: tens with_flat_def o_def)
  have signed: "\<not> list_ex (list_ex (\<lambda>a. 2 ^ 63 \<le> uint a)) rows" using assms(4) by (auto simp: list_ex_iff not_le)
  have rect: "list_all (\<lambda>row. length row = m) rows" using assms(3) by (simp add: list_all_iff)
  have "(case rows of [] \<Rightarrow> 0 | row # _ \<Rightarrow> length row) = m" using assms(1) m by (cases rows) auto
  then have addr: "repeat_addrs as_array ids rows = Inr (concat (map (replicate m) ids), concat rows)"
    using assms(1) signed rect by (simp add: repeat_addrs_def Let_def)
  show ?thesis by (simp add: pc_load_def pc_dump_def pc_load_data_def pc_dump_data_def flat addr)
qed

text \<open>The native store never sees the shard indexes nor the event a dump has to wait for.\<close>

lemma pc_ignores_shards_and_events:
  "pc_load_data native as_array w ids sh addrs = pc_load_data native as_array w ids sh' addrs"
  "pc_dump_data native as_array w ids sh addrs h = pc_dump_data native as_array w ids sh' addrs h'"
  by (simp_all add: pc_load_data_def pc_dump_data_def)

section \<open>What a pipeline is made of\<close>

lemma registered: "register_all registrations [] = Inr registrations"
  by (simp add: registrations_def register_def)

lemma whole_shards_sizes:
  "whole_shards config = Inr c \<Longrightarrow> on_device config = Inr True \<Longrightarrow> dict_get c ''tensor_size'' = dict_get c ''shard_size''"
  by (auto simp: whole_shards_def py_key_def rbind_Inr_iff update_conv' split: option.splits)

lemma compressed_sizes:
  assumes "compressed_config config = Inr (Some c)"
  shows "dict_get c ''tensor_size'' = dict_get c ''shard_size''"
  using assms by (auto simp: compressed_config_def rbind_Inr_iff Let_def update_conv' split: if_splits)

text \<open>What a builder registered under a name has to stack.\<close>

definition well_stacked :: "string \<Rightarrow> 'v config \<Rightarrow> 'v stack \<Rightarrow> bool" where
  "well_stacked name config stack \<longleftrightarrow>
     map fst stack = rev (split_on (CHR ''|'') name)
     \<and> (on_device config = Inr True \<and> 1 < length stack \<and> fst (hd stack) \<in> {''Posix'', ''Ds3fs''}
        \<longrightarrow> dict_get (snd (hd stack)) ''tensor_size'' = dict_get (snd (hd stack)) ''shard_size'')"

lemma split_two: "c \<notin> set a \<Longrightarrow> c \<notin> set b \<Longrightarrow> split_on c (a @ c # b) = [a, b]"
  by (simp add: split_on_append split_on_free)

lemmas pipeline_split =
  split_two [of "CHR ''|''" "''Cache''" "''Ds3fs''"] split_two [of "CHR ''|''" "''Cache''" "''Empty''"]
  split_two [of "CHR ''|''" "''Cache''" "''Posix''"] split_two [of "CHR ''|''" "''Cache''" "''Fake''"]
  split_two [of "CHR ''|''" "''Mooncake''" "''Posix''"] split_two [of "CHR ''|''" "''Compress''" "''Posix''"]
  split_on_append [of "CHR ''|''" "''Cache''" "''Compress|Posix''"]

lemma pipeline_names:
  "split_on (CHR ''|'') ''Cache|Ds3fs'' = [''Cache'', ''Ds3fs'']" "split_on (CHR ''|'') ''Cache|Empty'' = [''Cache'', ''Empty'']"
  "split_on (CHR ''|'') ''Cache|Posix'' = [''Cache'', ''Posix'']" "split_on (CHR ''|'') ''Empty'' = [''Empty'']"
  "split_on (CHR ''|'') ''Fake'' = [''Fake'']" "split_on (CHR ''|'') ''Posix'' = [''Posix'']"
  "split_on (CHR ''|'') ''Cache|Compress|Posix'' = [''Cache'', ''Compress'', ''Posix'']" "split_on (CHR ''|'') ''Cache|Fake'' = [''Cache'', ''Fake'']"
  "split_on (CHR ''|'') ''Mooncake'' = [''Mooncake'']" "split_on (CHR ''|'') ''Mooncake|Posix'' = [''Mooncake'', ''Posix'']"
  using pipeline_split by (simp_all del: split_on.simps add: split_on_free)

lemma compress_well_stacked:
  fixes config :: "'v config"
  assumes "cache_compress_posix_pipeline config = Inr stack" and "stack \<noteq> []"
  shows "well_stacked ''Cache|Compress|Posix'' config stack"
proof -
  obtain d p where d: "on_device config = Inr d" "(if d then compressed_config config else Inr (Some config)) = Inr p"
      "(case p of None \<Rightarrow> Inr [] | Some c \<Rightarrow> Inr [(''Posix'', c), (''Compress'', config), (''Cache'', config)]) = (Inr stack :: 'v stack result)"
    using assms(1) unfolding cache_compress_posix_pipeline_def rbind_Inr_iff by (elim exE conjE) (rule that, assumption+)
  then obtain c where c: "p = Some c" "stack = [(''Posix'', c), (''Compress'', config), (''Cache'', config)]"
    using assms(2) by (cases p) auto
  show ?thesis unfolding well_stacked_def pipeline_names c(2) using d(1,2) c(1) compressed_sizes [of config c] by (cases d) simp_all
qed

lemma whole_shards_well_stacked:
  assumes "rbind (whole_shards config) (\<lambda>c. Inr [(file, c), (cache, config)]) = Inr stack" and "split_on (CHR ''|'') name = [cache, file]"
  shows "well_stacked name config stack"
  using assms whole_shards_sizes [of config] unfolding well_stacked_def rbind_Inr_iff by auto

lemma plain_well_stacked:
  "split_on (CHR ''|'') name = [file] \<Longrightarrow> well_stacked name config [(file, c)]"
  "split_on (CHR ''|'') name = [cache, file] \<Longrightarrow> file \<notin> {''Posix'', ''Ds3fs''} \<Longrightarrow> well_stacked name config [(file, c), (cache, c')]"
  by (simp_all add: well_stacked_def)

lemma registered_well_stacked:
  assumes "(name, builder) \<in> set registrations" and "builder config = Inr stack" and "stack \<noteq> []"
  shows "well_stacked name config stack"
proof -
  have members: "\<forall>(name, builder) \<in> set registrations. \<forall>stack. builder config = Inr stack \<and> stack \<noteq> [] \<longrightarrow> well_stacked name config stack"
    unfolding registrations_def list.set ball_simps split_conv
  proof (intro conjI allI impI TrueI, goal_cases)
    case (1 s)
    then show ?case by (elim conjE, intro whole_shards_well_stacked) (simp_all only: cache_ds3fs_pipeline_def pipeline_names)
  next
    case (2 s)
    then show ?case by (auto simp only: cache_empty_pipeline_def sum.inject intro!: plain_well_stacked(2) pipeline_names)
  next
    case (3 s)
    then show ?case by (elim conjE, intro whole_shards_well_stacked) (simp_all only: cache_posix_pipeline_def pipeline_names)
  next
    case (4 s)
    then show ?case by (auto simp only: empty_pipeline_def sum.inject intro!: plain_well_stacked(1) pipeline_names)
  next
    case (5 s)
    then show ?case by (auto simp only: fake_pipeline_def sum.inject intro!: plain_well_stacked(1) pipeline_names)
  next
    case (6 s)
    then show ?case by (auto simp only: posix_pipeline_def sum.inject intro!: plain_well_stacked(1) pipeline_names)
  next
    case (7 s)
    then show ?case by (elim conjE, intro compress_well_stacked)
  next
    case (8 s)
    then show ?case by (auto simp only: cache_fake_pipeline_def sum.inject intro!: plain_well_stacked(2) pipeline_names)
  next
    case (9 s)
    then show ?case by (auto simp only: mooncake_pipeline_def sum.inject intro!: plain_well_stacked(1) pipeline_names)
  next
    case (10 s)
    then show ?case by (elim conjE, intro whole_shards_well_stacked) (simp_all only: mooncake_posix_pipeline_def pipeline_names)
  qed
  show ?thesis using members assms by blast
qed

text \<open>
  The name of a pipeline lists its stores from the top down: the stores are stacked in the
  opposite order, and on a device the file store at the bottom moves whole shards.
\<close>

lemma pipeline_stacks_follow_the_name:
  assumes "register_all registrations [] = Inr reg" and "pipeline_init reg config = Inr stack" and "stack \<noteq> []"
    and "dict_get config ''store_pipeline'' = Some (CfgStr name)"
  shows "map fst stack = rev (split_on (CHR ''|'') name)
    \<and> (on_device config = Inr True \<and> 1 < length stack \<and> fst (hd stack) \<in> {''Posix'', ''Ds3fs''}
        \<longrightarrow> dict_get (snd (hd stack)) ''tensor_size'' = dict_get (snd (hd stack)) ''shard_size'')"
proof -
  obtain builder where "map_of registrations name = Some builder" "builder config = Inr stack"
    using assms(1,2,4) by (auto simp: registered pipeline_init_def py_key_def split: option.splits)
  then have "well_stacked name config stack" using registered_well_stacked assms(3) by (metis map_of_SomeD)
  then show ?thesis unfolding well_stacked_def .
qed

definition compress_config :: "unit config" where
  "compress_config =
     [(''store_pipeline'', CfgStr ''Cache|Compress|Posix''), (''device_id'', CfgInt 0), (''shard_size'', CfgInt 131072),
      (''block_size'', CfgInt 524288), (''compress_ratio'', CfgInt 22)]"

text \<open>Two ends of the compression: blocks that are not whole shards leave an empty pipeline, and small shards shrink to nothing.\<close>

lemma misfit_stacks_nothing:
  assumes "on_device config = Inr True" and "cfg_int_at config ''block_size'' = Inr b" and "cfg_int_at config ''shard_size'' = Inr s"
    and "s \<noteq> 0" and "b mod s \<noteq> 0"
  shows "cache_compress_posix_pipeline config = Inr []"
  using assms by (simp add: cache_compress_posix_pipeline_def compressed_config_def)

lemma compressed_size_bounds:
  assumes "0 \<le> s" and "0 \<le> ratio"
  shows "0 \<le> compressed_size s ratio" and "compressed_size s ratio \<le> s * ratio div 32" and "4096 dvd compressed_size s ratio"
    and "s * ratio < 131072 \<longleftrightarrow> compressed_size s ratio = 0"
proof -
  have x: "0 \<le> x div 32 div 4096 * 4096 \<and> x div 32 div 4096 * 4096 \<le> x div 32 \<and> (x < 131072 \<longleftrightarrow> x div 32 div 4096 * 4096 = 0)"
    if "0 \<le> x" for x :: int
  proof (intro conjI)
    have "x div 32 div 4096 = x div 131072" using zdiv_zmult2_eq [of 4096 x 32] by simp
    moreover have "x div 131072 = 0 \<longleftrightarrow> x < 131072" using that by (auto simp: zdiv_eq_0_iff)
    ultimately show "x < 131072 \<longleftrightarrow> x div 32 div 4096 * 4096 = 0" by simp
    show "x div 32 div 4096 * 4096 \<le> x div 32" using minus_mod_eq_div_mult [of "x div 32" 4096] pos_mod_sign [of 4096 "x div 32"] by linarith
    show "0 \<le> x div 32 div 4096 * 4096" using that by simp
  qed
  show "0 \<le> compressed_size s ratio" "compressed_size s ratio \<le> s * ratio div 32" "4096 dvd compressed_size s ratio"
      "s * ratio < 131072 \<longleftrightarrow> compressed_size s ratio = 0"
    using x [of "s * ratio"] assms unfolding compressed_size_def by simp_all
qed

end
