(* ===== verification/Sglang_Store.thy ===== *)
theory Sglang_Store
  imports Store_Backends
begin

text \<open>
  The SGLang adapter (\<open>src/ucm/integration/sglang/\<close>): \<open>SglangUcmConnector\<close>, which names pages of the
  host cache by keys of text and moves them to and from a store, and \<open>UnifiedCacheStore\<close>, the
  third-level store of SGLang's hierarchical cache that owns the connector. Classes of SGLang are
  parameters: a pool is its layout, its sizes, and the addresses it gives for host indices.
\<close>

section \<open>Configuration\<close>

record host_pool =
  hp_layout :: string
  hp_page_size :: int
  hp_size_per_token :: int
  hp_page_buffer_meta :: "nat list \<Rightarrow> u64 list"

record storage_cfg =
  sc_model_name :: "string option"
  sc_is_mla_model :: bool
  sc_tp_rank :: nat
  sc_tp_size :: nat

text \<open>The entry \<open>kv_connector_extra_config\<close>.\<close>

record 'v connector_extra =
  ce_config :: "'v config option"
  ce_name :: "string option"
  ce_module_path :: "string option"

datatype 'v extra_value = ExtraConnector "'v connector_extra" | ExtraNone | ExtraOther 'v

type_synonym 'v extra = "(string, 'v extra_value) dict"

text \<open>\<open>dict.update\<close>.\<close>

definition dict_update :: "('k, 'v) dict \<Rightarrow> ('k, 'v) dict \<Rightarrow> ('k, 'v) dict" where
  "dict_update d e = fold (\<lambda>(k, v). dict_set k v) e d"

text \<open>
  The sizes of a page. \<open>yaml_extra\<close> is what \<open>_load_extra_config_from_yaml_env\<close> answers. Of the
  entry \<open>kv_connector_extra_config\<close> anything but a dictionary has no \<open>get\<close>.
\<close>

definition page_sizes :: "storage_cfg \<Rightarrow> host_pool \<Rightarrow> int \<times> int" where
  "page_sizes sc pool =
     (let page_bytes = hp_page_size pool * hp_size_per_token pool;
          tensor_size = (if sc_is_mla_model sc then page_bytes else page_bytes div 2)
      in (tensor_size, tensor_size * (if sc_is_mla_model sc then 1 else 2)))"

definition backend_paths :: "'v config \<Rightarrow> string list result" where
  "backend_paths cfg =
     rbind (py_key cfg ''storage_backends'') (\<lambda>v.
       case v of CfgStr s \<Rightarrow> Inr (filter (\<lambda>path. path \<noteq> []) (split_on (CHR '':'') s)) | _ \<Rightarrow> Inl AttributeError)"

definition sgl_store_config :: "storage_cfg \<Rightarrow> host_pool \<Rightarrow> int \<Rightarrow> 'v config \<Rightarrow> 'v config result" where
  "sgl_store_config sc pool local_rank ucm_cfg =
     (case page_sizes sc pool of
        (tensor_size, block_size) \<Rightarrow>
          let cfg = dict_set ''store_pipeline'' (CfgStr ''Posix'') ucm_cfg
          in rbind (backend_paths cfg) (\<lambda>paths.
               Inr (dict_set ''stream_number'' (CfgInt 8) (dict_set ''block_size'' (CfgInt block_size)
                 (dict_set ''shard_size'' (CfgInt block_size) (dict_set ''tensor_size'' (CfgInt tensor_size)
                   (dict_set ''device_id'' (CfgInt local_rank)
                     (dict_set ''storage_backends'' (CfgList (map CfgStr paths)) cfg))))))))"

definition load_from_config ::
  "storage_cfg \<Rightarrow> host_pool \<Rightarrow> int \<Rightarrow> 'v extra option \<Rightarrow> 'v extra option result \<Rightarrow> (string option \<times> string \<times> 'v config) result" where
  "load_from_config sc pool local_rank extra_config yaml =
     (let extra0 = (case extra_config of None \<Rightarrow> [] | Some e \<Rightarrow> e)
      in rbind (if ''kv_connector_extra_config'' \<in> dict_keys extra0 then Inr extra0
                else rbind yaml (\<lambda>yaml_extra. case yaml_extra of None \<Rightarrow> Inr extra0 | Some y \<Rightarrow> Inr (dict_update extra0 y))) (\<lambda>extra.
           if extra = [] then Inl ValueError
           else
             (case dict_get extra ''kv_connector_extra_config'' of
                None \<Rightarrow> Inl ValueError
              | Some ExtraNone \<Rightarrow> Inl ValueError
              | Some (ExtraOther _) \<Rightarrow> Inl AttributeError
              | Some (ExtraConnector kvc) \<Rightarrow>
                  (case (ce_config kvc, ce_name kvc) of
                     (Some ucm_cfg, Some name) \<Rightarrow>
                       rbind (sgl_store_config sc pool local_rank ucm_cfg) (\<lambda>cfg. Inr (ce_module_path kvc, name, cfg))
                   | _ \<Rightarrow> Inl ValueError))))"

section \<open>The connector\<close>

record sgl_connector =
  sg_pool :: host_pool
  sg_model :: "string option"
  sg_is_mla :: bool
  sg_tp_rank :: nat
  sg_tp_size :: nat

definition new_sgl_connector :: "host_pool \<Rightarrow> storage_cfg \<Rightarrow> sgl_connector" where
  "new_sgl_connector pool sc =
     \<lparr>sg_pool = pool, sg_model = sc_model_name sc, sg_is_mla = sc_is_mla_model sc, sg_tp_rank = sc_tp_rank sc, sg_tp_size = sc_tp_size sc\<rparr>"

definition sgl_model_name :: "sgl_connector \<Rightarrow> string" where
  "sgl_model_name c = (case sg_model c of None \<Rightarrow> [] | Some m \<Rightarrow> join_with (CHR ''-'') (split_on (CHR ''/'') m))"

definition build_config_suffix :: "sgl_connector \<Rightarrow> string" where
  "build_config_suffix c =
     (if sg_is_mla c then ''_'' @ sgl_model_name c
      else ''_'' @ sgl_model_name c @ ''_'' @ show_nat (sg_tp_rank c) @ ''_'' @ show_nat (sg_tp_size c))"

definition get_physical_key :: "sgl_connector \<Rightarrow> string \<Rightarrow> string" where
  "get_physical_key c logical_key = logical_key @ build_config_suffix c"

definition encode_keys :: "(string \<Rightarrow> bytes) \<Rightarrow> sgl_connector \<Rightarrow> string list \<Rightarrow> bytes list" where
  "encode_keys md5 c keys = map (\<lambda>k. md5 (get_physical_key c k)) keys"

text \<open>Without latent attention the pool gives the address of the keys and of the values of each page in turn.\<close>

definition sgl_generate_task :: "sgl_connector \<Rightarrow> bytes list \<Rightarrow> nat list \<Rightarrow> bytes list \<times> nat list \<times> u64 list list" where
  "sgl_generate_task c encoded_keys host_indices =
     (if encoded_keys = [] then ([], [], [])
      else
        let ptr_list = hp_page_buffer_meta (sg_pool c) host_indices
        in (encoded_keys, replicate (length encoded_keys) 0,
            if sg_is_mla c then map (\<lambda>p. [p]) ptr_list
            else map (\<lambda>(k, v). [k, v]) (zip (py_stride ptr_list 0 2) (py_stride ptr_list 1 2))))"

text \<open>A failure to submit is raised, a failure to wait is an answer.\<close>

definition sgl_finish :: "('w, 'x) kv_store_scheme \<Rightarrow> nat \<Rightarrow> nat result \<times> 'w \<Rightarrow> bool list result \<times> 'w" where
  "sgl_finish store n submitted =
     (case submitted of
        (Inl e, w) \<Rightarrow> (Inl e, w)
      | (Inr task, w) \<Rightarrow>
          (case st_wait store w task of
             (Inl e, w') \<Rightarrow> (if e \<in> {RuntimeError, StoreNotFound, NotImplemented} then Inr (replicate n False) else Inl e, w')
           | (Inr _, w') \<Rightarrow> (Inr (replicate n True), w')))"

definition batch_get_v1 ::
  "('w, 'x) kv_store_scheme \<Rightarrow> (string \<Rightarrow> bytes) \<Rightarrow> sgl_connector \<Rightarrow> string list \<Rightarrow> nat list \<Rightarrow> 'w \<Rightarrow> bool list result \<times> 'w" where
  "batch_get_v1 store md5 c keys host_indices w =
     (if keys = [] then (Inr [], w)
      else
        (case sgl_generate_task c (encode_keys md5 c keys) host_indices of
           (key_list, shard_index_list, ptr_list) \<Rightarrow> sgl_finish store (length keys) (st_load_data store w key_list shard_index_list ptr_list)))"

definition batch_set_v1 ::
  "('w, 'x) kv_store_scheme \<Rightarrow> (string \<Rightarrow> bytes) \<Rightarrow> sgl_connector \<Rightarrow> string list \<Rightarrow> nat list \<Rightarrow> 'w \<Rightarrow> bool list result \<times> 'w" where
  "batch_set_v1 store md5 c keys host_indices w =
     (if keys = [] then (Inr [], w)
      else
        (case sgl_generate_task c (encode_keys md5 c keys) host_indices of
           (key_list, shard_index_list, ptr_list) \<Rightarrow> sgl_finish store (length keys) (st_dump_data store w key_list shard_index_list ptr_list 0)))"

definition sgl_exists :: "('w, 'x) kv_lookup_api_scheme \<Rightarrow> (string \<Rightarrow> bytes) \<Rightarrow> sgl_connector \<Rightarrow> string \<Rightarrow> 'w \<Rightarrow> bool result \<times> 'w" where
  "sgl_exists store md5 c key w =
     (if sg_is_mla c \<and> sg_tp_rank c \<noteq> 0 then (Inr True, w)
      else (case st_lookup store w (encode_keys md5 c [key]) of (r, w') \<Rightarrow> (rbind r (\<lambda>found. py_index found 0), w')))"

definition sgl_batch_exists :: "('w, 'x) kv_lookup_api_scheme \<Rightarrow> (string \<Rightarrow> bytes) \<Rightarrow> sgl_connector \<Rightarrow> string list \<Rightarrow> 'w \<Rightarrow> int result \<times> 'w" where
  "sgl_batch_exists store md5 c keys w =
     (if keys = [] then (Inr 0, w)
      else if sg_is_mla c \<and> sg_tp_rank c \<noteq> 0 then (Inr (int (length keys)), w)
      else (case st_lookup_on_prefix store w (encode_keys md5 c keys) of (r, w') \<Rightarrow> (rbind r (\<lambda>i. Inr (i + 1)), w')))"

section \<open>The cache store\<close>

text \<open>
  \<open>UnifiedCacheStore\<close>. Its attribute \<open>store\<close> is set together with the connector. \<open>base_register\<close>
  is what the base class does to the attribute \<open>mem_pool_host\<close>; \<open>from_hicache\<close> builds a connector.
\<close>

record unified_store =
  us_connector :: "sgl_connector option"
  us_mem_pool_host :: "host_pool option"

definition unified_init :: unified_store where
  "unified_init = \<lparr>us_connector = None, us_mem_pool_host = None\<rparr>"

definition ensure_initialized :: "unified_store \<Rightarrow> sgl_connector result" where
  "ensure_initialized u = (case (us_connector u, us_mem_pool_host u) of (Some c, Some _) \<Rightarrow> Inr c | _ \<Rightarrow> Inl RuntimeError)"

definition register_mem_pool_host ::
  "(host_pool \<Rightarrow> host_pool option \<Rightarrow> host_pool option) \<Rightarrow> (host_pool \<Rightarrow> sgl_connector result) \<Rightarrow> host_pool \<Rightarrow> unified_store
     \<Rightarrow> unit result \<times> unified_store" where
  "register_mem_pool_host base_register from_hicache pool u =
     (let u0 = u\<lparr>us_mem_pool_host := base_register pool (us_mem_pool_host u)\<rparr> in
      if hp_layout pool \<noteq> ''page_first'' then (Inl ValueError, u0)
      else
        let u1 = u0\<lparr>us_mem_pool_host := Some pool\<rparr>
        in (case us_connector u1 of
              None \<Rightarrow>
                (case from_hicache pool of
                   Inl e \<Rightarrow> (Inl e, u1)
                 | Inr c \<Rightarrow> (Inr (), u1\<lparr>us_connector := Some c\<rparr>))
            | Some c \<Rightarrow> (Inr (), u1\<lparr>us_connector := Some (c\<lparr>sg_pool := pool\<rparr>)\<rparr>)))"

definition us_batch_get_v1 where
  "us_batch_get_v1 store md5 u keys host_indices w =
     (case ensure_initialized u of Inl e \<Rightarrow> (Inl e, w) | Inr c \<Rightarrow> batch_get_v1 store md5 c keys host_indices w)"

definition us_batch_set_v1 where
  "us_batch_set_v1 store md5 u keys host_indices w =
     (case ensure_initialized u of Inl e \<Rightarrow> (Inl e, w) | Inr c \<Rightarrow> batch_set_v1 store md5 c keys host_indices w)"

definition us_exists where
  "us_exists store md5 u key w = (case ensure_initialized u of Inl e \<Rightarrow> (Inl e, w) | Inr c \<Rightarrow> sgl_exists store md5 c key w)"

definition us_batch_exists where
  "us_batch_exists store md5 u keys w = (case ensure_initialized u of Inl e \<Rightarrow> (Inl e, w) | Inr c \<Rightarrow> sgl_batch_exists store md5 c keys w)"

section \<open>Keys\<close>

lemma not_in_show_nat: "CHR ''_'' \<notin> set (show_nat n)"
  using show_nat_is_digits [of n] not_digits(1) by (auto simp: list_all_iff)

lemma split_on_inject: "split_on c s = split_on c t \<longleftrightarrow> s = t"
  by (metis join_split)

lemma split_physical_key:
  assumes "CHR ''_'' \<notin> set h"
  shows "split_on (CHR ''_'') (get_physical_key c h) =
    h # (if sg_is_mla c then split_on (CHR ''_'') (sgl_model_name c)
         else split_on (CHR ''_'') (sgl_model_name c) @ [show_nat (sg_tp_rank c), show_nat (sg_tp_size c)])"
proof (cases "sg_is_mla c")
  case True
  then show ?thesis using assms by (simp add: get_physical_key_def build_config_suffix_def split_on_append)
next
  case False
  let ?u = "CHR ''_''"
  have "split_on ?u ((sgl_model_name c @ ?u # show_nat (sg_tp_rank c)) @ ?u # show_nat (sg_tp_size c))
      = split_on ?u (sgl_model_name c) @ [show_nat (sg_tp_rank c), show_nat (sg_tp_size c)]"
    by (simp only: split_on_snoc [OF not_in_show_nat]) simp
  moreover have "get_physical_key c h = h @ ?u # ((sgl_model_name c @ ?u # show_nat (sg_tp_rank c)) @ ?u # show_nat (sg_tp_size c))"
    using False by (simp add: get_physical_key_def build_config_suffix_def)
  ultimately show ?thesis using False by (simp only: split_on_append [OF assms]) simp
qed

text \<open>
  The model's part of a key is the name of the model with dashes for its slashes, and empty where
  the configuration names none.
\<close>

definition dashed_model :: "sgl_connector \<Rightarrow> string" where
  "dashed_model c = map (\<lambda>ch. if ch = CHR ''/'' then CHR ''-'' else ch) (case sg_model c of None \<Rightarrow> [] | Some m \<Rightarrow> m)"

lemma join_split_replaces: "join_with d (split_on c s) = map (\<lambda>ch. if ch = c then d else ch) s"
proof (induction s)
  case Nil
  then show ?case by simp
next
  case (Cons x s)
  obtain a list where "split_on c s = a # list" by (cases "split_on c s") auto
  with Cons show ?case by (cases list) auto
qed

lemma append_separator_iff:
  assumes "u \<notin> set h" "u \<notin> set h'"
  shows "h @ u # s = h' @ u # t \<longleftrightarrow> h = h' \<and> s = t"
  using assms
proof (induction h arbitrary: h')
  case Nil
  then show ?case by (cases h') auto
next
  case (Cons x h)
  then show ?case by (cases h') auto
qed

lemma sgl_model_name_dashed: "sgl_model_name c = dashed_model c"
  by (simp add: sgl_model_name_def dashed_model_def join_split_replaces split: option.split)

lemma divided_suffix:
  assumes "CHR ''_'' \<notin> set h" "CHR ''_'' \<notin> set h'" and "sg_is_mla c" "\<not> sg_is_mla c'"
  shows "get_physical_key c h = get_physical_key c' h' \<longleftrightarrow>
    h = h' \<and> dashed_model c = dashed_model c' @ ''_'' @ show_nat (sg_tp_rank c') @ ''_'' @ show_nat (sg_tp_size c')"
proof -
  have key: "get_physical_key c h = h @ CHR ''_'' # dashed_model c"
    "get_physical_key c' h' = h' @ CHR ''_'' # (dashed_model c' @ ''_'' @ show_nat (sg_tp_rank c') @ ''_'' @ show_nat (sg_tp_size c'))"
    using assms(3,4) by (simp_all add: get_physical_key_def build_config_suffix_def sgl_model_name_dashed)
  show ?thesis unfolding key using append_separator_iff [OF assms(1,2)] by simp
qed

text \<open>
  C37: Exactly when two connectors give pages one key. For page hashes without an underscore, as
  hexadecimal digests are, the hashes must be equal. Two connectors that both keep latent attention
  share the keys of models whose names agree when slashes are written as dashes; two that both divide
  the cache do so only if rank and number of ranks agree as well; and one of each kind only if the
  name of the first model is that of the second followed by the second's rank and number of ranks.
\<close>

theorem physical_keys_tell_apart:
  assumes "CHR ''_'' \<notin> set h" and "CHR ''_'' \<notin> set h'"
  shows "get_physical_key c h = get_physical_key c' h' \<longleftrightarrow> h = h' \<and>
    (if sg_is_mla c = sg_is_mla c'
     then dashed_model c = dashed_model c' \<and> (sg_is_mla c \<or> sg_tp_rank c = sg_tp_rank c' \<and> sg_tp_size c = sg_tp_size c')
     else if sg_is_mla c
     then dashed_model c = dashed_model c' @ ''_'' @ show_nat (sg_tp_rank c') @ ''_'' @ show_nat (sg_tp_size c')
     else dashed_model c' = dashed_model c @ ''_'' @ show_nat (sg_tp_rank c) @ ''_'' @ show_nat (sg_tp_size c))"
proof (cases "sg_is_mla c = sg_is_mla c'")
  case True
  have "get_physical_key c h = get_physical_key c' h' \<longleftrightarrow>
      split_on (CHR ''_'') (get_physical_key c h) = split_on (CHR ''_'') (get_physical_key c' h')" by (rule split_on_inject [symmetric])
  then show ?thesis using True by (auto simp: split_physical_key assms split_on_inject sgl_model_name_dashed)
next
  case False
  then show ?thesis
    using divided_suffix [OF assms, of c c'] divided_suffix [OF assms(2,1), of c' c] by (cases "sg_is_mla c") auto
qed

text \<open>A slash and a dash in the name of a model are one.\<close>

lemma model_names_may_clash:
  "sgl_model_name (c\<lparr>sg_model := Some ''a/b''\<rparr>) = sgl_model_name (c\<lparr>sg_model := Some ''a-b''\<rparr>)"
  by (simp add: sgl_model_name_def)

section \<open>Pages\<close>

text \<open>
  A task moves every page whole: it has one row per key, the rows together are the addresses
  the pool gave, in its order, and a row has as many addresses as tensors of the configured size
  fill a block.
\<close>

lemma pages_move_whole:
  assumes "keys \<noteq> []" and "length (hp_page_buffer_meta pool idx) = length keys * (if sc_is_mla_model sc then 1 else 2)"
    and "sgl_generate_task (new_sgl_connector pool sc) keys idx = (ks, shards, rows)"
  shows "ks = keys \<and> length shards = length keys \<and> length rows = length keys \<and> concat rows = hp_page_buffer_meta pool idx
    \<and> (\<forall>row \<in> set rows. int (length row) * fst (page_sizes sc pool) = snd (page_sizes sc pool))"
proof (cases "sc_is_mla_model sc")
  case True
  then show ?thesis using assms by (auto simp: sgl_generate_task_def new_sgl_connector_def Let_def page_sizes_def)
next
  case False
  let ?p = "hp_page_buffer_meta pool idx" and ?n = "length keys"
  have len: "length ?p = ?n * 2" using assms(2) False by simp
  have strides: "py_stride ?p 0 2 = map (\<lambda>k. ?p ! (k * 2 + 0)) [0..<?n]" "py_stride ?p 1 2 = map (\<lambda>k. ?p ! (k * 2 + 1)) [0..<?n]"
    by (rule py_stride_blocks [OF _ len]; simp)+
  have rows: "rows = map (\<lambda>k. [?p ! (k * 2), ?p ! (k * 2 + 1)]) [0..<?n]"
    using assms(1,3) False unfolding sgl_generate_task_def new_sgl_connector_def Let_def
    by (auto simp: strides strides(2) [unfolded One_nat_def] zip_map_map o_def map_zip_map zip_same_conv_map)
  have "concat (map (\<lambda>k. [?p ! (k * 2), ?p ! (k * 2 + 1)]) [0..<m]) = take (m * 2) ?p" if "m \<le> ?n" for m
    using that by (induction m) (simp_all add: len take_Suc_conv_app_nth)
  then have "concat rows = ?p" using len by (simp add: rows)
  moreover have "ks = keys" "length shards = length keys"
    using assms(1,3) False by (auto simp: sgl_generate_task_def new_sgl_connector_def Let_def)
  ultimately show ?thesis using False rows by (auto simp: page_sizes_def Let_def)
qed

definition demo_pool :: host_pool where
  "demo_pool = \<lparr>hp_layout = ''page_first'', hp_page_size = 4, hp_size_per_token = 16, hp_page_buffer_meta = concat \<circ> map (\<lambda>i. [of_nat i, of_nat i + 32])\<rparr>"

definition demo_storage :: storage_cfg where
  "demo_storage = \<lparr>sc_model_name = Some ''a_1/b'', sc_is_mla_model = False, sc_tp_rank = 1, sc_tp_size = 2\<rparr>"

theorem physical_keys_tell_apart_witness:
  "get_physical_key (new_sgl_connector demo_pool demo_storage) ''7f'' = ''7f_a_1-b_1_2''
   \<and> get_physical_key (new_sgl_connector demo_pool demo_storage) ''7f'' \<noteq> get_physical_key (new_sgl_connector demo_pool (demo_storage\<lparr>sc_tp_rank := 0\<rparr>)) ''7f''"
proof
  show "get_physical_key (new_sgl_connector demo_pool demo_storage) ''7f'' = ''7f_a_1-b_1_2''" by code_simp
  show "get_physical_key (new_sgl_connector demo_pool demo_storage) ''7f'' \<noteq> get_physical_key (new_sgl_connector demo_pool (demo_storage\<lparr>sc_tp_rank := 0\<rparr>)) ''7f''"
    by (subst physical_keys_tell_apart) (simp_all add: new_sgl_connector_def demo_storage_def)
qed

section \<open>Registration\<close>

lemma registered_store_is_ready:
  assumes "register_mem_pool_host base_register from_hicache pool u = (Inr (), u')"
    and "\<And>c. from_hicache pool = Inr c \<Longrightarrow> sg_pool c = pool"
  shows "\<exists>c. ensure_initialized u' = Inr c \<and> sg_pool c = pool"
  using assms by (auto simp: register_mem_pool_host_def ensure_initialized_def Let_def split: if_splits option.splits sum.splits)

lemma unregistered_store_refuses:
  "us_batch_get_v1 store md5 unified_init keys idx w = (Inl RuntimeError, w)"
  "us_batch_set_v1 store md5 unified_init keys idx w = (Inl RuntimeError, w)"
  "us_exists store md5 unified_init key w = (Inl RuntimeError, w)"
  "us_batch_exists store md5 unified_init keys w = (Inl RuntimeError, w)"
  by (simp_all add: us_batch_get_v1_def us_batch_set_v1_def us_exists_def us_batch_exists_def ensure_initialized_def unified_init_def)

text \<open>The configuration the adapter writes stacks a file store alone, with one shard per block.\<close>

lemma sgl_config_stacks_a_file_store:
  assumes "sgl_store_config sc pool rank ucm_cfg = Inr cfg"
  shows "pipeline_init registrations cfg = Inr [(''Posix'', cfg)]" and "dict_get cfg ''shard_size'' = dict_get cfg ''block_size''"
proof -
  have get: "dict_get cfg ''store_pipeline'' = Some (CfgStr ''Posix'')" "dict_get cfg ''shard_size'' = dict_get cfg ''block_size''"
    using assms by (auto simp: sgl_store_config_def Let_def rbind_Inr_iff update_conv' split: prod.splits)
  show "dict_get cfg ''shard_size'' = dict_get cfg ''block_size''" by (rule get(2))
  show "pipeline_init registrations cfg = Inr [(''Posix'', cfg)]"
    using get(1) by (simp add: pipeline_init_def py_key_def registrations_def posix_pipeline_def)
qed

end
