(* ===== verification/Esa_Layer.thy ===== *)
theory Esa_Layer
  imports Request_Hasher Kv_Store "HOL-Library.Char_ord" "HOL-Library.List_Lexorder"
begin

text \<open>
  Sparse attention of \<open>src/ucm/sparse/esa/esa.py\<close>, one request in one layer (\<open>ReprePool\<close>, \<open>ReqMeta\<close>,
  \<open>ReqStatePerLayer\<close>): after the prompt is computed its middle blocks are represented by one vector
  each; while tokens are generated, the blocks that fit the query best are fetched from the store
  into the few device blocks the request keeps. What is computed on tensors (representations,
  queries, the choice of the best) is a parameter; which blocks and slots are involved is modelled.
\<close>

section \<open>Steps that may fail\<close>

text \<open>A step answers a result and leaves a state, also where it fails.\<close>

definition then_do :: "'a result \<times> 's \<Rightarrow> ('a \<Rightarrow> 's \<Rightarrow> 'b result \<times> 's) \<Rightarrow> 'b result \<times> 's" where
  "then_do m f = (case m of (Inl e, s) \<Rightarrow> (Inl e, s) | (Inr x, s) \<Rightarrow> f x s)"

lemma then_do_simps [simp]:
  "then_do (Inl e, s) f = (Inl e, s)" "then_do (Inr x, s) f = f x s"
  by (simp_all add: then_do_def)

lemma then_do_Inr: "then_do m f = (Inr y, s') \<longleftrightarrow> (\<exists>x s. m = (Inr x, s) \<and> f x s = (Inr y, s'))"
  by (cases m; cases "fst m") auto

section \<open>The pool of slots\<close>

text \<open>
  \<open>ReprePool\<close>: the slots of one layer, each for the representation of a block. \<open>list_of\<close> is the
  order in which Python lists a set.
\<close>

record slot_pool =
  sp_free :: "nat set"
  sp_allocated :: "nat set"

definition new_pool :: "nat \<Rightarrow> slot_pool" where
  "new_pool num_slots = \<lparr>sp_free = {..<num_slots}, sp_allocated = {}\<rparr>"

definition pool_allocate :: "(nat set \<Rightarrow> nat list) \<Rightarrow> int \<Rightarrow> slot_pool \<Rightarrow> nat list result \<times> slot_pool" where
  "pool_allocate list_of num_new_slots p =
     (if int (card (sp_free p)) < num_new_slots then (Inl AssertionError, p)
      else
        let allocated = py_slice_int (list_of (sp_free p)) 0 num_new_slots
        in (Inr allocated, \<lparr>sp_free = sp_free p - set allocated, sp_allocated = sp_allocated p \<union> set allocated\<rparr>))"

definition pool_free :: "nat list \<Rightarrow> slot_pool \<Rightarrow> slot_pool" where
  "pool_free slots p = \<lparr>sp_free = sp_free p \<union> set slots, sp_allocated = sp_allocated p - set slots\<rparr>"

section \<open>Requests and ranges\<close>

record esa_meta =
  em_request_id :: req_id
  em_index_in_batch :: int
  em_num_scheduled_tokens :: nat
  em_num_computed_tokens :: nat
  em_vllm_block_ids :: "nat list"
  em_query_start_loc :: nat
  em_prompt_token_ids :: "nat list"
  em_output_token_ids :: "nat list"
  em_is_preempt :: bool
  em_ucm_block_hashes :: "bytes list"

definition em_num_prompt_tokens :: "esa_meta \<Rightarrow> nat" where
  "em_num_prompt_tokens m = length (em_prompt_token_ids m)"

definition em_num_tokens :: "esa_meta \<Rightarrow> nat" where
  "em_num_tokens m = em_num_prompt_tokens m + length (em_output_token_ids m)"

definition em_is_last_chunk :: "esa_meta \<Rightarrow> bool" where
  "em_is_last_chunk m \<longleftrightarrow> em_num_tokens m \<le> em_num_computed_tokens m + em_num_scheduled_tokens m"

text \<open>Rounding up, exact where the code divides floating-point numbers.\<close>

definition ceil_div :: "nat \<Rightarrow> nat \<Rightarrow> nat" where
  "ceil_div a b = (a + b - 1) div b"

lemma ceil_div_mult: "0 < b \<Longrightarrow> 0 < r \<Longrightarrow> r \<le> b \<Longrightarrow> ceil_div (n * b + r) b = Suc n"
proof -
  assume b: "0 < b" "0 < r" "r \<le> b"
  have "n * b + r + b - 1 = (r - 1) + Suc n * b" using b by simp
  then show ?thesis using b by (simp only: ceil_div_def div_mult_self1) simp
qed

lemma ceil_div_eq: "0 < b \<Longrightarrow> ceil_div n b = n div b + (if n mod b = 0 then 0 else 1)"
proof (cases "n mod b = 0")
  case True
  assume b: "0 < b"
  obtain q where "n = q * b" using True by (metis mod_0_imp_dvd dvd_def mult.commute)
  moreover have "q * b + b - 1 = (b - 1) + q * b" using b by simp
  ultimately show ?thesis using b True by (simp only: ceil_div_def div_mult_self1) simp
next
  case False
  assume b: "0 < b"
  then show ?thesis using ceil_div_mult [of b "n mod b" "n div b"] False by simp
qed

lemma drop_whole_blocks:
  assumes "0 < bs" and "d * bs \<le> (n :: nat)"
  shows "(n - d * bs) mod bs = n mod bs" and "(n - d * bs) div bs = n div bs - d"
proof -
  obtain r where r: "n = d * bs + r" using le_Suc_ex [OF assms(2)] by blast
  have "(r + d * bs) div bs = r div bs + d" using assms(1) by simp
  then show "(n - d * bs) mod bs = n mod bs" "(n - d * bs) div bs = n div bs - d" unfolding r by (simp_all add: add.commute)
qed

definition get_sparse_range :: "nat \<Rightarrow> nat \<Rightarrow> nat \<Rightarrow> nat \<Rightarrow> int" where
  "get_sparse_range init_window_sz local_window_sz prompt_len block_size =
     int (ceil_div prompt_len block_size) - int init_window_sz - int local_window_sz"

text \<open>
  The configuration. \<open>ec_scaled\<close> is \<open>int(n * sparse_ratio)\<close>.
\<close>

record esa_cfg =
  ec_init_window_sz :: nat
  ec_local_window_sz :: nat
  ec_retrieval_stride :: nat
  ec_scaled :: "int \<Rightarrow> int"
  ec_min_blocks :: nat
  ec_block_size :: nat
  ec_is_mla :: bool
  ec_num_layers :: nat

section \<open>Which blocks to fetch\<close>

text \<open>
  \<open>diff_two_map\<close>: what stays of the first map, and what of the second is new. A pair stays if its
  key and its value both occur in the second map, not necessarily together. The keys and values
  that are left over are paired in the order in which Python lists the two sets.
\<close>

fun keep_pairs :: "('k, 'v) dict \<Rightarrow> 'k set \<Rightarrow> 'v set \<Rightarrow> 'k set \<Rightarrow> 'v set \<Rightarrow> (('k, 'v) dict \<times> 'k set \<times> 'v set) result" where
  "keep_pairs [] keys2 values2 ks vs = Inr ([], ks, vs)"
| "keep_pairs ((k, v) # rest) keys2 values2 ks vs =
     (if k \<in> keys2 \<and> v \<in> values2
      then
        if k \<notin> ks \<or> v \<notin> vs then Inl KeyError
        else rbind (keep_pairs rest keys2 values2 (ks - {k}) (vs - {v})) (\<lambda>(kept, ks', vs'). Inr ((k, v) # kept, ks', vs'))
      else keep_pairs rest keys2 values2 ks vs)"

definition diff_two_map ::
  "('k set \<Rightarrow> 'k list) \<Rightarrow> ('v set \<Rightarrow> 'v list) \<Rightarrow> ('k, 'v) dict \<Rightarrow> ('k, 'v) dict \<Rightarrow> (('k, 'v) dict \<times> ('k, 'v) dict) result" where
  "diff_two_map key_list value_list d1 d2 =
     (let keys2 = fst ` set d2; values2 = snd ` set d2
      in rbind (keep_pairs d1 keys2 values2 keys2 values2) (\<lambda>(kept, ks, vs).
           let diff_map = zip (key_list ks) (value_list vs)
           in Inr (kept @ diff_map, diff_map)))"

section \<open>The state of a request in a layer\<close>

text \<open>
  The device tensors and host arrays the layer works on. Blocks are read and written by
  \<open>km_read\<close> and \<open>km_write\<close>, for keys (\<open>False\<close>) and values (\<open>True\<close>); \<open>rw_submit\<close>, \<open>rw_wait\<close> and
  \<open>rw_get_result\<close> are the retrieval worker, \<open>rw_represent\<close> the vector of a block.
\<close>

record ('w, 'd, 'q, 'r) esa_env =
  km_read :: "'w \<Rightarrow> bool \<Rightarrow> nat \<Rightarrow> 'd"
  km_write :: "'w \<Rightarrow> bool \<Rightarrow> nat \<Rightarrow> 'd \<Rightarrow> 'w"
  km_k_base :: u64
  km_k_block_bytes :: nat
  km_v :: "(u64 \<times> nat) option"
  rw_submit :: "'w \<Rightarrow> 'q \<Rightarrow> int \<Rightarrow> nat list \<Rightarrow> nat result \<times> 'w"
  rw_wait :: "'w \<Rightarrow> nat \<Rightarrow> unit result \<times> 'w"
  rw_get_result :: "'w \<Rightarrow> nat \<Rightarrow> nat list result \<times> 'w"
  rw_represent :: "'w \<Rightarrow> nat \<Rightarrow> 'r"
  rw_store_repre :: "'w \<Rightarrow> nat \<Rightarrow> 'r \<Rightarrow> 'w"
  es_store :: "'w kv_store"
  es_rope_store :: "'w kv_store"
  es_task_key :: "bytes list \<Rightarrow> string \<Rightarrow> string \<Rightarrow> int"
  es_slot_list :: "nat set \<Rightarrow> nat list"
  es_block_list :: "nat set \<Rightarrow> nat list"
  es_hash_list :: "bytes set \<Rightarrow> bytes list"

text \<open>
  The pool and the world are shared with the other requests: the caller hands them in and takes
  them back. A saved window is the contents of its blocks, keys and values.
\<close>

record ('w, 'd) esa_layer =
  el_layer_id :: nat
  el_slots :: "nat list"
  el_slots_to_relative :: "(nat, nat) dict"
  el_retrieval_task :: "nat option"
  el_tasks :: "(int, nat) dict"
  el_rope_tasks :: "(int, nat) dict"
  el_block_hashes :: "bytes list option"
  el_pre_topk :: "(nat, bytes) dict"
  el_sparse_range :: int
  el_static :: bool
  el_init_window :: "('d list \<times> 'd list option) option"
  el_local_window :: "('d list \<times> 'd list option) option"
  el_step :: nat
  el_pool :: slot_pool
  el_world :: 'w

definition new_esa_layer :: "nat \<Rightarrow> slot_pool \<Rightarrow> 'w \<Rightarrow> ('w, 'd) esa_layer" where
  "new_esa_layer layer_id pool w =
     \<lparr>el_layer_id = layer_id, el_slots = [], el_slots_to_relative = [], el_retrieval_task = None, el_tasks = [], el_rope_tasks = [],
      el_block_hashes = None, el_pre_topk = [], el_sparse_range = 0, el_static = False, el_init_window = None, el_local_window = None,
      el_step = 0, el_pool = pool, el_world = w\<rparr>"

definition in_world :: "('w \<Rightarrow> 'a \<times> 'w) \<Rightarrow> ('w, 'd) esa_layer \<Rightarrow> 'a \<times> ('w, 'd) esa_layer" where
  "in_world f s = (case f (el_world s) of (r, w) \<Rightarrow> (r, s\<lparr>el_world := w\<rparr>))"

definition maybe_register_static_data :: "esa_meta \<Rightarrow> ('w, 'd) esa_layer \<Rightarrow> ('w, 'd) esa_layer" where
  "maybe_register_static_data m s =
     (if el_static s then s else s\<lparr>el_block_hashes := Some (em_ucm_block_hashes m), el_static := True\<rparr>)"

section \<open>Transfers\<close>

definition block_addrs :: "u64 \<Rightarrow> nat \<Rightarrow> nat list \<Rightarrow> u64 list list" where
  "block_addrs base bytes_per_block ids = map (\<lambda>b. [of_nat b * of_nat bytes_per_block + base]) ids"

definition launch_transfer_task ::
  "esa_cfg \<Rightarrow> ('w, 'd, 'q, 'r) esa_env \<Rightarrow> string \<Rightarrow> bytes list \<Rightarrow> nat list \<Rightarrow> ('w, 'd) esa_layer \<Rightarrow> unit result \<times> ('w, 'd) esa_layer" where
  "launch_transfer_task cf env transfer_type block_hashes ids s0 =
     (let n = length block_hashes; shards = replicate n (el_layer_id s0) in
      then_do (in_world (\<lambda>w. st_load_data (es_store env) w block_hashes shards (block_addrs (km_k_base env) (km_k_block_bytes env) ids)) s0) (\<lambda>t s1.
        let s2 = s1\<lparr>el_tasks := dict_set (es_task_key env block_hashes transfer_type ''key'') t (el_tasks s1)\<rparr> in
        if \<not> ec_is_mla cf
        then
          (case km_v env of
             None \<Rightarrow> (Inl TypeError, s2)
           | Some (v_base, v_bytes) \<Rightarrow>
               then_do (in_world (\<lambda>w. st_load_data (es_store env) w block_hashes (replicate n (el_layer_id s2 + ec_num_layers cf))
                   (block_addrs v_base (km_k_block_bytes env) ids)) s2) (\<lambda>t s3.
                 (Inr (), s3\<lparr>el_tasks := dict_set (es_task_key env block_hashes transfer_type ''value'') t (el_tasks s3)\<rparr>)))
        else
          (case km_v env of
             None \<Rightarrow> (Inr (), s2)
           | Some (v_base, v_bytes) \<Rightarrow>
               then_do (in_world (\<lambda>w. st_load_data (es_rope_store env) w block_hashes shards (block_addrs v_base v_bytes ids)) s2) (\<lambda>t s3.
                 (Inr (), s3\<lparr>el_rope_tasks := dict_set (es_task_key env block_hashes transfer_type ''value'') t (el_rope_tasks s3)\<rparr>)))))"

fun wait_tasks :: "'w kv_store \<Rightarrow> nat list \<Rightarrow> ('w, 'd) esa_layer \<Rightarrow> unit result \<times> ('w, 'd) esa_layer" where
  "wait_tasks store [] s = (Inr (), s)"
| "wait_tasks store (t # ts) s = then_do (in_world (\<lambda>w. st_wait store w t) s) (\<lambda>_ s'. wait_tasks store ts s')"

definition wait_transfer_task_done :: "('w, 'd, 'q, 'r) esa_env \<Rightarrow> ('w, 'd) esa_layer \<Rightarrow> unit result \<times> ('w, 'd) esa_layer" where
  "wait_transfer_task_done env s =
     then_do (wait_tasks (es_store env) (map snd (el_tasks s)) s) (\<lambda>_ s1.
       then_do (wait_tasks (es_rope_store env) (map snd (el_rope_tasks s1)) s1) (\<lambda>_ s2.
         (Inr (), s2\<lparr>el_tasks := [], el_rope_tasks := []\<rparr>)))"

section \<open>Retrieval\<close>

text \<open>The query of the request is a parameter; it is what the attention computes from the batch.\<close>

definition esa_top_k :: "esa_cfg \<Rightarrow> ('w, 'd) esa_layer \<Rightarrow> int" where
  "esa_top_k cf s = ec_scaled cf (el_sparse_range s)"

definition start_retrieval ::
  "esa_cfg \<Rightarrow> ('w, 'd, 'q, 'r) esa_env \<Rightarrow> 'q \<Rightarrow> ('w, 'd) esa_layer \<Rightarrow> unit result \<times> ('w, 'd) esa_layer" where
  "start_retrieval cf env query s =
     then_do (in_world (\<lambda>w. rw_submit env w query (esa_top_k cf s) (el_slots s)) s) (\<lambda>t s'. (Inr (), s'\<lparr>el_retrieval_task := Some t\<rparr>))"

definition chosen_hashes :: "('w, 'd) esa_layer \<Rightarrow> nat list \<Rightarrow> bytes list result" where
  "chosen_hashes s slots =
     rbind (rmap (py_key (el_slots_to_relative s)) slots) (\<lambda>rel.
       case el_block_hashes s of None \<Rightarrow> Inl TypeError | Some hs \<Rightarrow> rmap (py_index hs) rel)"

text \<open>A dict comprehension: a later pair replaces an earlier one of the same key.\<close>

definition dict_of :: "('k \<times> 'v) list \<Rightarrow> ('k, 'v) dict" where
  "dict_of kvs = fold (\<lambda>(k, v). dict_set k v) kvs []"

definition fetch_targets :: "esa_cfg \<Rightarrow> esa_meta \<Rightarrow> bytes list \<Rightarrow> ('w, 'd) esa_layer \<Rightarrow> (nat, bytes) dict" where
  "fetch_targets cf m hashes s =
     (let i = int (ec_init_window_sz cf)
      in dict_of (zip (py_slice_int (em_vllm_block_ids m) i (i + esa_top_k cf s)) hashes))"

definition wait_retrieval_and_start_load ::
  "esa_cfg \<Rightarrow> ('w, 'd, 'q, 'r) esa_env \<Rightarrow> esa_meta \<Rightarrow> ('w, 'd) esa_layer \<Rightarrow> unit result \<times> ('w, 'd) esa_layer" where
  "wait_retrieval_and_start_load cf env m s0 =
     (case el_retrieval_task s0 of
        None \<Rightarrow> (Inl TypeError, s0)
      | Some t \<Rightarrow>
          then_do (in_world (\<lambda>w. rw_wait env w t) s0) (\<lambda>_ s1.
            then_do (in_world (\<lambda>w. rw_get_result env w t) s1) (\<lambda>choosed_slots s2.
              then_do (chosen_hashes s2 choosed_slots, s2) (\<lambda>hashes s3.
                then_do (diff_two_map (es_block_list env) (es_hash_list env) (el_pre_topk s3) (fetch_targets cf m hashes s3), s3) (\<lambda>(updated, diff) s4.
                  let s5 = s4\<lparr>el_pre_topk := updated\<rparr> in
                  then_do (if diff = [] then (Inr (), s5) else launch_transfer_task cf env ''load'' (map snd diff) (map fst diff) s5) (\<lambda>_ s6.
                    (Inr (), s6\<lparr>el_retrieval_task := None\<rparr>)))))))"

section \<open>Representations and windows\<close>

definition read_blocks :: "('w, 'd, 'q, 'r) esa_env \<Rightarrow> 'w \<Rightarrow> nat list \<Rightarrow> 'd list \<times> 'd list option" where
  "read_blocks env w ids =
     (map (km_read env w False) ids, case km_v env of None \<Rightarrow> None | Some _ \<Rightarrow> Some (map (km_read env w True) ids))"

text \<open>
  Assignment to the rows of a tensor: one row fits any number, other numbers have to agree.
\<close>

definition spread :: "'a list \<Rightarrow> nat \<Rightarrow> 'a list result" where
  "spread rows n =
     (if length rows = n then Inr rows else case rows of [r] \<Rightarrow> Inr (replicate n r) | _ \<Rightarrow> Inl RuntimeError)"

definition write_rows :: "('i \<Rightarrow> 'd \<Rightarrow> 'w \<Rightarrow> 'w) \<Rightarrow> 'i list \<Rightarrow> 'd list \<Rightarrow> 'w \<Rightarrow> unit result \<times> 'w" where
  "write_rows write ids rows w =
     (case spread rows (length ids) of
        Inl e \<Rightarrow> (Inl e, w)
      | Inr rs \<Rightarrow> (Inr (), fold (\<lambda>(i, r) w. write i r w) (zip ids rs) w))"

definition write_blocks :: "('w, 'd, 'q, 'r) esa_env \<Rightarrow> nat list \<Rightarrow> 'd list \<times> 'd list option \<Rightarrow> ('w, 'd) esa_layer \<Rightarrow> unit result \<times> ('w, 'd) esa_layer" where
  "write_blocks env ids window s =
     then_do (in_world (write_rows (\<lambda>b d w. km_write env w False b d) ids (fst window)) s) (\<lambda>_ s1.
       case snd window of
         None \<Rightarrow> (Inr (), s1)
       | Some v \<Rightarrow> in_world (write_rows (\<lambda>b d w. km_write env w True b d) ids v) s1)"

definition block_repre_data ::
  "esa_cfg \<Rightarrow> ('w, 'd, 'q, 'r) esa_env \<Rightarrow> esa_meta \<Rightarrow> ('w, 'd) esa_layer \<Rightarrow> unit result \<times> ('w, 'd) esa_layer" where
  "block_repre_data cf env m s0 =
     (let i = int (ec_init_window_sz cf); ids = em_vllm_block_ids m;
          sparse_range = get_sparse_range (ec_init_window_sz cf) (ec_local_window_sz cf) (em_num_prompt_tokens m) (ec_block_size cf);
          s1 = s0\<lparr>el_sparse_range := sparse_range\<rparr>;
          repre = map (rw_represent env (el_world s1)) (py_slice_int ids i (i + sparse_range))
      in case pool_allocate (es_slot_list env) sparse_range (el_pool s1) of
           (Inl e, p) \<Rightarrow> (Inl e, s1\<lparr>el_pool := p\<rparr>)
         | (Inr new_slots, p) \<Rightarrow>
             let og_len = length (el_slots s1);
                 s2 = s1\<lparr>el_pool := p,
                         el_slots_to_relative := fold (\<lambda>(k, slot). dict_set slot (og_len + k)) (zip [0..<length new_slots] new_slots) (el_slots_to_relative s1),
                         el_slots := el_slots s1 @ new_slots\<rparr>
             in then_do (in_world (write_rows (\<lambda>slot r w. rw_store_repre env w slot r) new_slots repre) s2) (\<lambda>_ s3.
                  (Inr (), s3\<lparr>el_init_window := Some (read_blocks env (el_world s3) (take (ec_init_window_sz cf) ids)),
                              el_local_window := Some (read_blocks env (el_world s3) (py_slice_int ids (i + sparse_range) (int (length ids))))\<rparr>)))"

definition restore_windows ::
  "esa_cfg \<Rightarrow> ('w, 'd, 'q, 'r) esa_env \<Rightarrow> esa_meta \<Rightarrow> ('w, 'd) esa_layer \<Rightarrow> unit result \<times> ('w, 'd) esa_layer" where
  "restore_windows cf env m s =
     (case (el_init_window s, el_local_window s) of
        (Some init_window, Some local_window) \<Rightarrow>
          let ids = em_vllm_block_ids m; local_window_sz = length (fst local_window)
          in then_do (write_blocks env (take (ec_init_window_sz cf) ids) init_window s) (\<lambda>_ s1.
               write_blocks env (py_slice_int ids (- int local_window_sz) (int (length ids))) local_window s1)
      | _ \<Rightarrow> (Inl TypeError, s))"

section \<open>Around the attention\<close>

definition attention_begin ::
  "esa_cfg \<Rightarrow> ('w, 'd, 'q, 'r) esa_env \<Rightarrow> 'q \<Rightarrow> esa_meta \<Rightarrow> ('w, 'd) esa_layer \<Rightarrow> unit result \<times> ('w, 'd) esa_layer" where
  "attention_begin cf env query m s =
     (let s0 = maybe_register_static_data m s in
      if ec_retrieval_stride cf = 0 then (Inl ZeroDivisionError, s0)
      else if el_step s0 mod ec_retrieval_stride cf \<noteq> 1 then (Inr (), s0)
      else
        then_do (if el_step s0 = 1
                 then then_do (restore_windows cf env m s0) (\<lambda>_ s1.
                        then_do (start_retrieval cf env query s1) (\<lambda>_ s2. wait_retrieval_and_start_load cf env m s2))
                 else (Inr (), s0))
          (\<lambda>_ s3. if el_tasks s3 \<noteq> [] then wait_transfer_task_done env s3 else (Inr (), s3)))"

definition attention_finished ::
  "esa_cfg \<Rightarrow> ('w, 'd, 'q, 'r) esa_env \<Rightarrow> 'q \<Rightarrow> esa_meta \<Rightarrow> ('w, 'd) esa_layer \<Rightarrow> unit result \<times> ('w, 'd) esa_layer" where
  "attention_finished cf env query m s =
     (if el_step s = 0
      then if em_is_last_chunk m then then_do (block_repre_data cf env m s) (\<lambda>_ s1. (Inr (), s1\<lparr>el_step := Suc (el_step s1)\<rparr>)) else (Inr (), s)
      else if ec_retrieval_stride cf = 0 then (Inl ZeroDivisionError, s)
      else
        let phase = el_step s mod ec_retrieval_stride cf in
        then_do (if phase = 2 then start_retrieval cf env query s else (Inr (), s)) (\<lambda>_ s1.
          then_do (if phase = 0 then wait_retrieval_and_start_load cf env m s1 else (Inr (), s1)) (\<lambda>_ s2.
            (Inr (), s2\<lparr>el_step := Suc (el_step s2)\<rparr>))))"

section \<open>Fetching only what is missing\<close>

text \<open>What Python guarantees of the list of a set.\<close>

definition lists_sets :: "('a set \<Rightarrow> 'a list) \<Rightarrow> bool" where
  "lists_sets f \<longleftrightarrow> (\<forall>s. finite s \<longrightarrow> set (f s) = s \<and> distinct (f s))"

lemma lists_setsD: "lists_sets f \<Longrightarrow> finite s \<Longrightarrow> set (f s) = s \<and> distinct (f s) \<and> length (f s) = card s"
  unfolding lists_sets_def by (metis distinct_card)

lemma keep_pairs_filter:
  assumes "distinct (map fst d1)" and "distinct (map snd d1)"
    and "\<forall>(k, v) \<in> set d1. (k \<in> keys2 \<longrightarrow> k \<in> ks) \<and> (v \<in> values2 \<longrightarrow> v \<in> vs)"
  shows "keep_pairs d1 keys2 values2 ks vs =
    (let kept = filter (\<lambda>(k, v). k \<in> keys2 \<and> v \<in> values2) d1 in Inr (kept, ks - fst ` set kept, vs - snd ` set kept))"
  using assms
proof (induction d1 arbitrary: ks vs)
  case Nil
  then show ?case by simp
next
  case (Cons kv d1)
  obtain k v where kv: "kv = (k, v)" by (cases kv)
  show ?case
  proof (cases "k \<in> keys2 \<and> v \<in> values2")
    case True
    have "\<forall>(k', v') \<in> set d1. (k' \<in> keys2 \<longrightarrow> k' \<in> ks - {k}) \<and> (v' \<in> values2 \<longrightarrow> v' \<in> vs - {v})"
    proof (rule ballI, clarify)
      fix k' v' assume mem: "(k', v') \<in> set d1"
      then have "k' \<noteq> k" "v' \<noteq> v" using Cons.prems(1,2) by (auto simp: kv image_iff)
      moreover have "(k' \<in> keys2 \<longrightarrow> k' \<in> ks) \<and> (v' \<in> values2 \<longrightarrow> v' \<in> vs)" using Cons.prems(3) mem by auto
      ultimately show "(k' \<in> keys2 \<longrightarrow> k' \<in> ks - {k}) \<and> (v' \<in> values2 \<longrightarrow> v' \<in> vs - {v})" by simp
    qed
    then have "keep_pairs d1 keys2 values2 (ks - {k}) (vs - {v}) =
        (let kept = filter (\<lambda>(k, v). k \<in> keys2 \<and> v \<in> values2) d1 in Inr (kept, ks - {k} - fst ` set kept, vs - {v} - snd ` set kept))"
      using Cons.IH Cons.prems(1,2) by simp
    then show ?thesis using True Cons.prems(3) by (auto simp: kv Let_def Diff_insert2 [symmetric])
  next
    case False
    then show ?thesis using Cons.IH [of ks vs] Cons.prems by (auto simp: kv Let_def)
  qed
qed

lemma diff_two_map_result:
  fixes d1 :: "('k, 'v) dict"
  assumes lists: "lists_sets kl" "lists_sets vl"
    and d1: "distinct (map fst d1)" "distinct (map snd d1)" and d2: "distinct (map fst d2)" "distinct (map snd d2)"
  shows "\<exists>kept diff. diff_two_map kl vl d1 d2 = Inr (kept @ diff, diff)
    \<and> kept = filter (\<lambda>(k, v). k \<in> fst ` set d2 \<and> v \<in> snd ` set d2) d1
    \<and> distinct (map fst (kept @ diff)) \<and> distinct (map snd (kept @ diff))
    \<and> fst ` set (kept @ diff) = fst ` set d2 \<and> snd ` set (kept @ diff) = snd ` set d2"
proof -
  define kept where "kept = filter (\<lambda>(k, v). k \<in> fst ` set d2 \<and> v \<in> snd ` set d2) d1"
  define ks where "ks = fst ` set d2 - fst ` set kept"
  define vs where "vs = snd ` set d2 - snd ` set kept"
  define diff where "diff = zip (kl ks) (vl vs)"
  have keep: "keep_pairs d1 (fst ` set d2) (snd ` set d2) (fst ` set d2) (snd ` set d2) = Inr (kept, ks, vs)"
    unfolding kept_def ks_def vs_def by (subst keep_pairs_filter [OF d1]) (auto simp: Let_def)
  have sub: "fst ` set kept \<subseteq> fst ` set d2" "snd ` set kept \<subseteq> snd ` set d2" by (force simp: kept_def)+
  have dk: "distinct (map fst kept)" "distinct (map snd kept)" unfolding kept_def using d1 by (simp_all add: distinct_map_filter)
  have cards: "card (fst ` set kept) = length kept" "card (snd ` set kept) = length kept"
      "card (fst ` set d2) = length d2" "card (snd ` set d2) = length d2"
    using distinct_card [OF dk(1)] distinct_card [OF dk(2)] distinct_card [OF d2(1)] distinct_card [OF d2(2)] by simp_all
  have "card ks = card vs" using sub cards by (simp add: ks_def vs_def card_Diff_subset finite_subset [OF sub(1)] finite_subset [OF sub(2)])
  then have len: "length (kl ks) = length (vl vs)" using lists by (simp add: lists_setsD ks_def vs_def)
  have l: "set (kl ks) = ks" "distinct (kl ks)" "set (vl vs) = vs" "distinct (vl vs)"
    using lists by (simp_all add: lists_setsD ks_def vs_def)
  have m: "map fst diff = kl ks" "map snd diff = vl vs" using len by (simp_all add: diff_def)
  have s: "fst ` set diff = ks" "snd ` set diff = vs" using m l set_map [of fst diff] set_map [of snd diff] by simp_all
  have "diff_two_map kl vl d1 d2 = Inr (kept @ diff, diff)" by (simp add: diff_two_map_def keep diff_def Let_def)
  moreover have "distinct (map fst (kept @ diff))" "distinct (map snd (kept @ diff))"
    using dk l s by (auto simp: m ks_def vs_def)
  moreover have "fst ` set (kept @ diff) = fst ` set d2" "snd ` set (kept @ diff) = snd ` set d2"
    using sub s by (auto simp: image_Un ks_def vs_def)
  ultimately show ?thesis by (intro exI [of _ kept] exI [of _ diff] conjI kept_def) assumption+
qed

text \<open>Device blocks after a fetch: the blocks of the difference hold the fetched content.\<close>

definition fetched :: "('k \<Rightarrow> 'v) \<Rightarrow> ('k, 'v) dict \<Rightarrow> 'k \<Rightarrow> 'v" where
  "fetched dev diff k = (case dict_get diff k of None \<Rightarrow> dev k | Some v \<Rightarrow> v)"

text \<open>
  C27: Fetching the difference alone is enough: afterwards the device blocks of the new choice hold
  exactly the chosen contents, each once and as the table says; and nothing is fetched that one
  of these blocks held before.
\<close>

theorem incremental_fetch_is_complete:
  assumes "lists_sets kl" "lists_sets vl"
    and "distinct (map fst d1)" "distinct (map snd d1)" "distinct (map fst d2)" "distinct (map snd d2)"
    and held: "\<forall>(k, v) \<in> set d1. dev k = v"
  shows "\<exists>updated diff. diff_two_map kl vl d1 d2 = Inr (updated, diff)
    \<and> fst ` set updated = fst ` set d2 \<and> distinct (map fst updated)
    \<and> (\<forall>(k, v) \<in> set updated. fetched dev diff k = v)
    \<and> fetched dev diff ` fst ` set d2 = snd ` set d2
    \<and> (\<forall>v \<in> snd ` set diff. \<forall>k \<in> fst ` set d2. (k, v) \<notin> set d1)"
proof -
  obtain kept diff where r: "diff_two_map kl vl d1 d2 = Inr (kept @ diff, diff)"
      "kept = filter (\<lambda>(k, v). k \<in> fst ` set d2 \<and> v \<in> snd ` set d2) d1"
      "distinct (map fst (kept @ diff))" "distinct (map snd (kept @ diff))"
      "fst ` set (kept @ diff) = fst ` set d2" "snd ` set (kept @ diff) = snd ` set d2"
    using diff_two_map_result [OF assms(1-6)] by (elim exE conjE) (rule that)
  have new: "fetched dev diff k = v" if "(k, v) \<in> set diff" for k v
    using r(3) that by (simp add: fetched_def)
  have old: "fetched dev diff k = v" if "(k, v) \<in> set kept" for k v
  proof -
    have "k \<notin> fst ` set diff" using r(3) that by force
    then have "dict_get diff k = None" by (simp add: map_of_eq_None_iff)
    moreover have "dev k = v" using held that r(2) by auto
    ultimately show ?thesis by (simp add: fetched_def)
  qed
  have all: "\<forall>(k, v) \<in> set (kept @ diff). fetched dev diff k = v" using new old by auto
  then have "fetched dev diff ` fst ` set (kept @ diff) = snd ` set (kept @ diff)"
    unfolding image_image by (intro image_cong refl) (auto simp: split_beta)
  moreover have "\<forall>v \<in> snd ` set diff. \<forall>k \<in> fst ` set d2. (k, v) \<notin> set d1"
  proof (intro ballI notI)
    fix v k assume v: "v \<in> snd ` set diff" "k \<in> fst ` set d2" "(k, v) \<in> set d1"
    then have "v \<in> snd ` set d2" using r(6) by auto
    then have "v \<in> snd ` set kept" using v(2,3) r(2) by force
    then show False using r(4) v(1) by auto
  qed
  moreover have "distinct (map fst (kept @ diff))" by (rule r(3))
  ultimately show ?thesis using r(1,5,6) all by (intro exI [of _ "kept @ diff"] exI [of _ diff]) simp
qed

section \<open>Slots, representations and keys\<close>

lemma fold_writes:
  assumes "\<And>w i r. at (write i r w) = (at w)(i := r)" and "distinct ids" and "length rs = length ids"
  shows "(\<forall>j < length ids. at (fold (\<lambda>(i, r) w. write i r w) (zip ids rs) w) (ids ! j) = rs ! j)
    \<and> (\<forall>k. k \<notin> set ids \<longrightarrow> at (fold (\<lambda>(i, r) w. write i r w) (zip ids rs) w) k = at w k)"
  using assms(2,3)
proof (induction ids arbitrary: rs w)
  case Nil
  then show ?case by simp
next
  case (Cons i ids)
  obtain r rs' where rs: "rs = r # rs'" using Cons.prems(2) by (cases rs) auto
  have ih: "(\<forall>j < length ids. at (fold (\<lambda>(i, r) w. write i r w) (zip ids rs') (write i r w)) (ids ! j) = rs' ! j)
      \<and> (\<forall>k. k \<notin> set ids \<longrightarrow> at (fold (\<lambda>(i, r) w. write i r w) (zip ids rs') (write i r w)) k = at (write i r w) k)"
    by (rule Cons.IH) (use Cons.prems rs in simp_all)
  show ?case using ih Cons.prems(1) by (auto simp: rs assms(1) nth_Cons split: nat.splits)
qed

lemma py_slice_int_nonneg: "0 \<le> a \<Longrightarrow> 0 \<le> b \<Longrightarrow> py_slice_int xs a b = py_slice xs (nat a) (nat b)"
  by (simp add: py_slice_int_def py_bound_def py_slice_def min_def)

lemma pool_allocate_ok:
  assumes "lists_sets list_of" and "finite (sp_free p)" and "n \<le> card (sp_free p)"
  shows "\<exists>slots. pool_allocate list_of (int n) p = (Inr slots, \<lparr>sp_free = sp_free p - set slots, sp_allocated = sp_allocated p \<union> set slots\<rparr>)
    \<and> length slots = n \<and> distinct slots \<and> set slots \<subseteq> sp_free p"
proof -
  have l: "set (list_of (sp_free p)) = sp_free p" "distinct (list_of (sp_free p))" "length (list_of (sp_free p)) = card (sp_free p)"
    using lists_setsD [OF assms(1,2)] by simp_all
  have "py_slice_int (list_of (sp_free p)) 0 (int n) = take n (list_of (sp_free p))" by (simp add: py_slice_int_nonneg py_slice_def)
  then show ?thesis using assms(3) l set_take_subset [of n "list_of (sp_free p)"] by (simp add: pool_allocate_def Let_def)
qed

lemma relative_indexes:
  "distinct slots \<Longrightarrow> j < length slots \<Longrightarrow>
   dict_get (fold (\<lambda>(k, slot). dict_set slot (og + k)) (zip [0..<length slots] slots) d) (slots ! j) = Some (og + j)"
proof (induction slots rule: rev_induct)
  case Nil
  then show ?case by simp
next
  case (snoc x slots)
  have "fold (\<lambda>(k, slot). dict_set slot (og + k)) (zip [0..<length (slots @ [x])] (slots @ [x])) d
      = dict_set x (og + length slots) (fold (\<lambda>(k, slot). dict_set slot (og + k)) (zip [0..<length slots] slots) d)"
    by simp
  then show ?case using snoc by (auto simp: nth_append update_conv' less_Suc_eq)
qed

text \<open>The state the prompt leaves behind.\<close>

definition repre_state ::
  "esa_cfg \<Rightarrow> ('w, 'd, 'q, 'r) esa_env \<Rightarrow> esa_meta \<Rightarrow> nat \<Rightarrow> nat list \<Rightarrow> 'w \<Rightarrow> ('w, 'd) esa_layer \<Rightarrow> ('w, 'd) esa_layer" where
  "repre_state cf env m n slots w s =
     (let i = ec_init_window_sz cf; ids = em_vllm_block_ids m
      in s\<lparr>el_sparse_range := int n, el_pool := \<lparr>sp_free = sp_free (el_pool s) - set slots, sp_allocated = sp_allocated (el_pool s) \<union> set slots\<rparr>,
           el_slots_to_relative := fold (\<lambda>(k, slot). dict_set slot (0 + k)) (zip [0..<length slots] slots) [], el_slots := slots, el_world := w,
           el_init_window := Some (read_blocks env w (take i ids)),
           el_local_window := Some (read_blocks env w (py_slice_int ids (int i + int n) (int (length ids))))\<rparr>)"

lemma block_repre_data_result:
  assumes env: "lists_sets (es_slot_list env)" "\<And>w slot r. repre_at (rw_store_repre env w slot r) = (repre_at w)(slot := r)"
    and fresh: "el_slots s = []" "el_slots_to_relative s = []" "el_block_hashes s = Some hs"
    and range: "get_sparse_range (ec_init_window_sz cf) (ec_local_window_sz cf) (em_num_prompt_tokens m) (ec_block_size cf) = int n"
    and room: "finite (sp_free (el_pool s))" "n \<le> card (sp_free (el_pool s))"
    and long: "ec_init_window_sz cf + n \<le> length (em_vllm_block_ids m)" "n \<le> length hs"
  shows "\<exists>slots w. block_repre_data cf env m s = (Inr (), repre_state cf env m n slots w s)
    \<and> length slots = n \<and> distinct slots \<and> set slots \<subseteq> sp_free (el_pool s)
    \<and> (\<forall>j < n. repre_at w (slots ! j) = rw_represent env (el_world s) (em_vllm_block_ids m ! (ec_init_window_sz cf + j)))"
proof -
  let ?i = "ec_init_window_sz cf" and ?ids = "em_vllm_block_ids m"
  obtain slots where a: "pool_allocate (es_slot_list env) (int n) (el_pool s)
        = (Inr slots, \<lparr>sp_free = sp_free (el_pool s) - set slots, sp_allocated = sp_allocated (el_pool s) \<union> set slots\<rparr>)"
      "length slots = n" "distinct slots" "set slots \<subseteq> sp_free (el_pool s)"
    using pool_allocate_ok [OF env(1) room] by blast
  define reps where "reps = map (rw_represent env (el_world s)) (py_slice_int ?ids (int ?i) (int ?i + int n))"
  have slice: "py_slice_int ?ids (int ?i) (int ?i + int n) = py_slice ?ids ?i (?i + n)" by (simp add: py_slice_int_nonneg nat_add_distrib)
  have reps: "length reps = n" "\<And>j. j < n \<Longrightarrow> reps ! j = rw_represent env (el_world s) (?ids ! (?i + j))"
    using long(1) by (simp_all add: reps_def slice)
  define w where "w = fold (\<lambda>(slot, r) w. rw_store_repre env w slot r) (zip slots reps) (el_world s)"
  have written: "\<forall>j < n. repre_at w (slots ! j) = reps ! j"
    unfolding w_def using fold_writes [of repre_at "\<lambda>slot r w. rw_store_repre env w slot r", OF env(2) a(3)] a(2) reps(1) by simp
  have len: "length (py_slice_int ?ids (int ?i) (int ?i + int n)) = n" using reps(1) by (simp add: reps_def)
  have "block_repre_data cf env m s = (Inr (), repre_state cf env m n slots w s)"
    using a(1,2) reps(1) fresh(1,2) len
    by (simp add: block_repre_data_def range Let_def reps_def [symmetric] in_world_def write_rows_def spread_def w_def repre_state_def)
  then show ?thesis using a(2-4) written reps(2) by (intro exI conjI) simp_all
qed

text \<open>
  When the prompt is complete the slots taken from the pool hold the representations of the
  blocks between the windows, in order, and a slot the retrieval chooses is fetched under the key
  of the very block it represents.
\<close>

lemma slots_stand_for_their_blocks:
  assumes env: "lists_sets (es_slot_list env)" "\<And>w slot r. repre_at (rw_store_repre env w slot r) = (repre_at w)(slot := r)"
    and fresh: "el_slots s = []" "el_slots_to_relative s = []" "el_block_hashes s = Some hs"
    and range: "get_sparse_range (ec_init_window_sz cf) (ec_local_window_sz cf) (em_num_prompt_tokens m) (ec_block_size cf) = int n"
    and room: "finite (sp_free (el_pool s))" "n \<le> card (sp_free (el_pool s))"
    and long: "ec_init_window_sz cf + n \<le> length (em_vllm_block_ids m)" "n \<le> length hs"
  shows "\<exists>s'. block_repre_data cf env m s = (Inr (), s') \<and> length (el_slots s') = n \<and> distinct (el_slots s')
    \<and> set (el_slots s') \<subseteq> sp_free (el_pool s)
    \<and> (\<forall>j < n. repre_at (el_world s') (el_slots s' ! j) = rw_represent env (el_world s) (em_vllm_block_ids m ! (ec_init_window_sz cf + j))
        \<and> chosen_hashes s' [el_slots s' ! j] = Inr [hs ! j])"
proof -
  obtain slots w where r: "block_repre_data cf env m s = (Inr (), repre_state cf env m n slots w s)" "length slots = n" "distinct slots"
      "set slots \<subseteq> sp_free (el_pool s)"
      "\<forall>j < n. repre_at w (slots ! j) = rw_represent env (el_world s) (em_vllm_block_ids m ! (ec_init_window_sz cf + j))"
    using block_repre_data_result [OF env fresh range room long] by blast
  let ?s = "repre_state cf env m n slots w s"
  have "dict_get (el_slots_to_relative ?s) (slots ! j) = Some j" if "j < n" for j
    using relative_indexes [OF r(3), of j 0 "[]"] that r(2) by (simp add: repre_state_def Let_def)
  then have "chosen_hashes ?s [slots ! j] = Inr [hs ! j]" if "j < n" for j
    using that long(2) fresh(3) by (simp add: chosen_hashes_def py_key_def py_index_def repre_state_def Let_def)
  moreover have "el_slots ?s = slots" "el_world ?s = w" by (simp_all add: repre_state_def Let_def)
  ultimately show ?thesis using r by (intro exI [of _ ?s] conjI) simp_all
qed

section \<open>Example\<close>

lemma sorted_lists_sets: "lists_sets sorted_list_of_set" by (simp add: lists_sets_def)

theorem incremental_fetch_is_complete_witness:
  "\<exists>updated diff. diff_two_map sorted_list_of_set sorted_list_of_set [(1 :: nat, 10 :: nat), (2, 20)] [(1, 20), (2, 30)] = Inr (updated, diff)
    \<and> fetched (\<lambda>k. 10 * k) diff ` {1, 2} = {20, 30}"
proof -
  let ?d1 = "[(1, 10), (2, 20)] :: (nat, nat) dict" and ?d2 = "[(1, 20), (2, 30)] :: (nat, nat) dict"
  have "\<exists>updated diff. diff_two_map sorted_list_of_set sorted_list_of_set ?d1 ?d2 = Inr (updated, diff)
    \<and> fst ` set updated = fst ` set ?d2 \<and> distinct (map fst updated)
    \<and> (\<forall>(k, v) \<in> set updated. fetched (\<lambda>k. 10 * k) diff k = v) \<and> fetched (\<lambda>k. 10 * k) diff ` fst ` set ?d2 = snd ` set ?d2
    \<and> (\<forall>v \<in> snd ` set diff. \<forall>k \<in> fst ` set ?d2. (k, v) \<notin> set ?d1)"
    by (rule incremental_fetch_is_complete [OF sorted_lists_sets sorted_lists_sets]) simp_all
  then obtain updated diff where "diff_two_map sorted_list_of_set sorted_list_of_set ?d1 ?d2 = Inr (updated, diff)"
      "fetched (\<lambda>k. 10 * k) diff ` fst ` set ?d2 = snd ` set ?d2"
    by (elim exE conjE) (rule that)
  then show ?thesis by (intro exI [of _ updated] exI [of _ diff]) simp
qed

text \<open>
  A layer of two-token blocks with windows of one block; the world is the table of representations,
  block \<open>b\<close> is represented by \<open>100 + b\<close>, and the retrieval always chooses the slot 5.
\<close>

definition demo_esa_store :: "(nat \<Rightarrow> nat) kv_store" where
  "demo_esa_store =
     \<lparr>st_lookup = (\<lambda>w ids. (Inr (replicate (length ids) True), w)), st_lookup_on_prefix = (\<lambda>w ids. (Inr (int (length ids) - 1), w)),
      st_prefetch = (\<lambda>w ids. (Inr (), w)), st_load_data = (\<lambda>w ids shards addrs. (Inr 7, w)),
      st_dump_data = (\<lambda>w ids shards addrs ev. (Inr 8, w)), st_wait = (\<lambda>w t. (Inr (), w)), st_check = (\<lambda>w t. (Inr True, w))\<rparr>"

definition demo_esa_env :: "(nat \<Rightarrow> nat, nat, unit, nat) esa_env" where
  "demo_esa_env =
     \<lparr>km_read = (\<lambda>w v b. b), km_write = (\<lambda>w v b d. w), km_k_base = 4096, km_k_block_bytes = 64, km_v = None,
      rw_submit = (\<lambda>w q k slots. (Inr 3, w)), rw_wait = (\<lambda>w t. (Inr (), w)), rw_get_result = (\<lambda>w t. (Inr [5], w)),
      rw_represent = (\<lambda>w b. 100 + b), rw_store_repre = (\<lambda>w slot r. w(slot := r)), es_store = demo_esa_store, es_rope_store = demo_esa_store,
      es_task_key = (\<lambda>hs a b. int (length hs)), es_slot_list = sorted_list_of_set, es_block_list = sorted_list_of_set,
      es_hash_list = sorted_list_of_set\<rparr>"

definition demo_esa_cfg :: esa_cfg where
  "demo_esa_cfg = \<lparr>ec_init_window_sz = 1, ec_local_window_sz = 1, ec_retrieval_stride = 4, ec_scaled = (\<lambda>n. n div 2), ec_min_blocks = 3,
     ec_block_size = 2, ec_is_mla = True, ec_num_layers = 1\<rparr>"

lemma demo_esa_cfg_layers: "ec_num_layers demo_esa_cfg = 1" by (simp add: demo_esa_cfg_def)

definition demo_esa_meta :: "nat list \<Rightarrow> esa_meta" where
  "demo_esa_meta outputs = \<lparr>em_request_id = ''r'', em_index_in_batch = 0, em_num_scheduled_tokens = (if outputs = [] then 8 else 1),
     em_num_computed_tokens = (if outputs = [] then 0 else 7 + length outputs), em_vllm_block_ids = [20, 21, 22, 23], em_query_start_loc = 0,
     em_prompt_token_ids = [1, 2, 3, 4, 5, 6, 7, 8], em_output_token_ids = outputs, em_is_preempt = False, em_ucm_block_hashes = [''x'', ''y'']\<rparr>"

end
