(* ===== verification/Esa_Decode.thy ===== *)
theory Esa_Decode
  imports Esa_Layer
begin

text \<open>
  What the steps of a layer come to while tokens are generated: the phases of a retrieval stride, the
  invariant between the steps, and that nothing waits for a result that never comes.
\<close>

section \<open>Generating tokens\<close>

text \<open>
  A run: the steps of a request with their queries, each around the attention of the layer. The
  states in which the attention runs are collected.
\<close>

fun esa_run ::
  "esa_cfg \<Rightarrow> ('w, 'd, 'q, 'r) esa_env \<Rightarrow> ('q \<times> esa_meta) list \<Rightarrow> ('w, 'd) esa_layer \<Rightarrow> ('w, 'd) esa_layer list result \<times> ('w, 'd) esa_layer" where
  "esa_run cf env [] s = (Inr [], s)"
| "esa_run cf env ((query, m) # steps) s =
     then_do (attention_begin cf env query m s) (\<lambda>_ mid.
       then_do (attention_finished cf env query m mid) (\<lambda>_ s'.
         then_do (esa_run cf env steps s') (\<lambda>mids s''. (Inr (mid # mids), s''))))"

text \<open>Services that do not fail, and a retrieval that chooses among the slots it was given.\<close>

definition answers :: "('w \<Rightarrow> 'a result \<times> 'w) \<Rightarrow> bool" where
  "answers f \<longleftrightarrow> (\<forall>w. \<exists>x. fst (f w) = Inr x)"

definition esa_services :: "('w, 'd, 'q, 'r) esa_env \<Rightarrow> nat list \<Rightarrow> bool" where
  "esa_services env slots \<longleftrightarrow>
     (\<forall>q k. answers (\<lambda>w. rw_submit env w q k slots)) \<and> (\<forall>t. answers (\<lambda>w. rw_wait env w t))
     \<and> (\<forall>t w. \<exists>chosen. fst (rw_get_result env w t) = Inr chosen \<and> distinct chosen \<and> set chosen \<subseteq> set slots)
     \<and> (\<forall>st \<in> {es_store env, es_rope_store env}. (\<forall>ids sh ad. answers (\<lambda>w. st_load_data st w ids sh ad)) \<and> (\<forall>t. answers (\<lambda>w. st_wait st w t)))
     \<and> lists_sets (es_block_list env) \<and> lists_sets (es_hash_list env)"

lemma in_world_answers: "answers f \<Longrightarrow> \<exists>x w. in_world f s = (Inr x, s\<lparr>el_world := w\<rparr>)"
  unfolding answers_def in_world_def by (metis (mono_tags, lifting) case_prod_unfold)

lemma wait_tasks_answers:
  "\<forall>t. answers (\<lambda>w. st_wait st w t) \<Longrightarrow> \<exists>w. wait_tasks st ts s = (Inr (), s\<lparr>el_world := w\<rparr>)"
proof (induction ts arbitrary: s)
  case Nil
  then show ?case by (intro exI [of _ "el_world s"]) simp
next
  case (Cons t ts)
  obtain x w where "in_world (\<lambda>w. st_wait st w t) s = (Inr x, s\<lparr>el_world := w\<rparr>)" using in_world_answers Cons.prems by blast
  moreover obtain w' where "wait_tasks st ts (s\<lparr>el_world := w\<rparr>) = (Inr (), s\<lparr>el_world := w\<rparr>\<lparr>el_world := w'\<rparr>)" using Cons by blast
  ultimately show ?case by (intro exI [of _ w']) simp
qed

lemma wait_transfer_answers:
  assumes "esa_services env slots"
  shows "\<exists>w. wait_transfer_task_done env s = (Inr (), s\<lparr>el_world := w, el_tasks := [], el_rope_tasks := []\<rparr>)"
proof -
  have st: "\<forall>t. answers (\<lambda>w. st_wait (es_store env) w t)" "\<forall>t. answers (\<lambda>w. st_wait (es_rope_store env) w t)"
    using assms by (simp_all add: esa_services_def)
  obtain w1 where "wait_tasks (es_store env) (map snd (el_tasks s)) s = (Inr (), s\<lparr>el_world := w1\<rparr>)" using wait_tasks_answers [OF st(1)] by blast
  moreover obtain w2 where "wait_tasks (es_rope_store env) (map snd (el_rope_tasks s)) (s\<lparr>el_world := w1\<rparr>) = (Inr (), s\<lparr>el_world := w1\<rparr>\<lparr>el_world := w2\<rparr>)"
    using wait_tasks_answers [OF st(2)] by blast
  ultimately show ?thesis by (intro exI [of _ w2]) (simp add: wait_transfer_task_done_def)
qed

lemma launch_answers:
  assumes "esa_services env slots" and "ec_is_mla cf \<or> km_v env \<noteq> None"
  shows "\<exists>w t ts r. launch_transfer_task cf env k hashes ids s = (Inr (), s\<lparr>el_world := w, el_tasks := t # ts, el_rope_tasks := r\<rparr>)"
proof -
  have ld: "answers (\<lambda>w. st_load_data (es_store env) w ids sh ad)" "answers (\<lambda>w. st_load_data (es_rope_store env) w ids sh ad)" for ids sh ad
    using assms(1) by (simp_all add: esa_services_def)
  have ne: "\<exists>t ts. dict_set a b d = t # ts" for a :: int and b :: nat and d by (cases "dict_set a b d") (auto dest: arg_cong [where f = set] simp: dict_in_set_update)
  let ?n = "length hashes"
  obtain x w where k: "in_world (\<lambda>w. st_load_data (es_store env) w hashes (replicate ?n (el_layer_id s)) (block_addrs (km_k_base env) (km_k_block_bytes env) ids)) s
      = (Inr x, s\<lparr>el_world := w\<rparr>)" using in_world_answers [OF ld(1)] by blast
  let ?s = "s\<lparr>el_world := w, el_tasks := dict_set (es_task_key env hashes k ''key'') x (el_tasks s)\<rparr>"
  obtain t ts where tts: "dict_set (es_task_key env hashes k ''key'') x (el_tasks s) = t # ts" using ne by blast
  show ?thesis
  proof (cases "ec_is_mla cf")
    case True
    show ?thesis
    proof (cases "km_v env")
      case None
      then show ?thesis using True k tts
        by (intro exI [of _ w] exI [of _ t] exI [of _ ts] exI [of _ "el_rope_tasks s"]) (simp add: launch_transfer_task_def Let_def)
    next
      case (Some v)
      obtain y w' where "in_world (\<lambda>w. st_load_data (es_rope_store env) w hashes (replicate ?n (el_layer_id s)) (block_addrs (fst v) (snd v) ids)) ?s
          = (Inr y, ?s\<lparr>el_world := w'\<rparr>)" using in_world_answers [OF ld(2)] by blast
      then show ?thesis using True k tts Some
        by (intro exI [of _ w'] exI [of _ t] exI [of _ ts] exI [of _ "dict_set (es_task_key env hashes k ''value'') y (el_rope_tasks s)"])
           (cases v, simp add: launch_transfer_task_def Let_def)
    qed
  next
    case False
    then obtain v where v: "km_v env = Some v" using assms(2) by blast
    obtain y w' where y: "in_world (\<lambda>w. st_load_data (es_store env) w hashes (replicate ?n (el_layer_id s + ec_num_layers cf)) (block_addrs (fst v) (km_k_block_bytes env) ids)) ?s
        = (Inr y, ?s\<lparr>el_world := w'\<rparr>)" using in_world_answers [OF ld(1)] by blast
    obtain t' ts' where "dict_set (es_task_key env hashes k ''value'') y (t # ts) = t' # ts'" using ne by blast
    then show ?thesis using False k tts v y
      by (intro exI [of _ w'] exI [of _ t'] exI [of _ ts'] exI [of _ "el_rope_tasks s"]) (cases v, simp add: launch_transfer_task_def Let_def)
  qed
qed

lemma dict_of_distinct: "distinct (map fst kvs) \<Longrightarrow> dict_of kvs = kvs"
proof (induction kvs rule: rev_induct)
  case Nil
  then show ?case by (simp add: dict_of_def)
next
  case (snoc kv kvs)
  have "AList.update k v d = d @ [(k, v)]" if "k \<notin> fst ` set d" for k :: 'a and v :: 'b and d
    using that by (induction d) auto
  moreover have "dict_of (kvs @ [kv]) = AList.update (fst kv) (snd kv) (dict_of kvs)" by (simp add: dict_of_def split_beta)
  ultimately show ?case using snoc by (simp add: split_beta)
qed

lemma rmap_all: "(\<And>x. x \<in> set xs \<Longrightarrow> f x = Inr (g x)) \<Longrightarrow> rmap f xs = Inr (map g xs)"
  by (induction xs) simp_all

text \<open>The slots of the layer lead to different keys.\<close>

definition slots_known :: "('w, 'd) esa_layer \<Rightarrow> nat list \<Rightarrow> bytes list \<Rightarrow> bool" where
  "slots_known s slots hs \<longleftrightarrow> el_slots s = slots \<and> el_block_hashes s = Some hs \<and> distinct hs
     \<and> (\<exists>pos. inj_on pos (set slots) \<and> (\<forall>x \<in> set slots. dict_get (el_slots_to_relative s) x = Some (pos x) \<and> pos x < length hs))"

lemma chosen_hashes_distinct:
  assumes "slots_known s slots hs" and "distinct chosen" and "set chosen \<subseteq> set slots"
  shows "\<exists>hashes. chosen_hashes s chosen = Inr hashes \<and> distinct hashes"
proof -
  obtain pos where pos: "inj_on pos (set slots)" "\<And>x. x \<in> set slots \<Longrightarrow> dict_get (el_slots_to_relative s) x = Some (pos x) \<and> pos x < length hs"
      "el_block_hashes s = Some hs" "distinct hs"
    using assms(1) by (auto simp: slots_known_def)
  have "rmap (py_key (el_slots_to_relative s)) chosen = Inr (map pos chosen)"
    by (rule rmap_all) (use pos(2) assms(3) in \<open>auto simp: py_key_def\<close>)
  moreover have "rmap (py_index hs) (map pos chosen) = Inr (map ((!) hs) (map pos chosen))"
    by (rule rmap_all) (use pos(2) assms(3) in \<open>auto simp: py_index_def\<close>)
  moreover have "distinct (map ((!) hs) (map pos chosen))"
  proof -
    have "inj_on pos (set chosen)" using inj_on_subset [OF pos(1) assms(3)] .
    then have "distinct (map pos chosen)" using assms(2) by (simp add: distinct_map)
    moreover have "set (map pos chosen) \<subseteq> {..<length hs}" using pos(2) assms(3) by auto
    then have "inj_on ((!) hs) (set (map pos chosen))" using inj_on_nth [OF pos(4), of "set (map pos chosen)"] by auto
    ultimately show ?thesis by (simp only: distinct_map)
  qed
  ultimately show ?thesis using pos(3) by (simp add: chosen_hashes_def)
qed

lemma fetch_targets_distinct:
  assumes "distinct (em_vllm_block_ids m)" and "distinct hashes"
  shows "distinct (map fst (fetch_targets cf m hashes s)) \<and> distinct (map snd (fetch_targets cf m hashes s))"
proof -
  let ?ids = "py_slice_int (em_vllm_block_ids m) (int (ec_init_window_sz cf)) (int (ec_init_window_sz cf) + esa_top_k cf s)"
  have d: "distinct ?ids" using assms(1) by (simp add: py_slice_int_def py_slice_def)
  have z: "distinct (map fst (zip ?ids hashes))" "distinct (map snd (zip ?ids hashes))"
    using d assms(2) by (simp_all add: map_fst_zip_take map_snd_zip_take)
  then show ?thesis by (simp add: fetch_targets_def Let_def dict_of_distinct)
qed

lemma wait_retrieval_answers:
  assumes srv: "esa_services env slots" "ec_is_mla cf \<or> km_v env \<noteq> None" and known: "slots_known s slots hs"
    and pre: "distinct (map fst (el_pre_topk s))" "distinct (map snd (el_pre_topk s))"
    and ids: "distinct (em_vllm_block_ids m)" and t: "el_retrieval_task s = Some t"
    and idle: "el_tasks s = []" "el_rope_tasks s = []"
  shows "\<exists>w p ts r. wait_retrieval_and_start_load cf env m s
      = (Inr (), s\<lparr>el_world := w, el_pre_topk := p, el_tasks := ts, el_rope_tasks := r, el_retrieval_task := None\<rparr>)
    \<and> distinct (map fst p) \<and> distinct (map snd p) \<and> (ts = [] \<longrightarrow> r = [])"
proof -
  have "answers (\<lambda>w. rw_wait env w t)" using srv(1) by (simp add: esa_services_def)
  then obtain x w1 where w1: "in_world (\<lambda>w. rw_wait env w t) s = (Inr x, s\<lparr>el_world := w1\<rparr>)" using in_world_answers by blast
  obtain chosen where ch: "fst (rw_get_result env w1 t) = Inr chosen" "distinct chosen" "set chosen \<subseteq> set slots"
    using srv(1) unfolding esa_services_def by blast
  define w2 where "w2 = snd (rw_get_result env w1 t)"
  have w2: "in_world (\<lambda>w. rw_get_result env w t) (s\<lparr>el_world := w1\<rparr>) = (Inr chosen, s\<lparr>el_world := w2\<rparr>)"
    using ch(1) by (simp add: in_world_def w2_def split_beta)
  have "slots_known (s\<lparr>el_world := w2\<rparr>) slots hs" using known by (simp add: slots_known_def)
  then obtain hashes where h: "chosen_hashes (s\<lparr>el_world := w2\<rparr>) chosen = Inr hashes" "distinct hashes"
    using chosen_hashes_distinct ch(2,3) by blast
  let ?d2 = "fetch_targets cf m hashes (s\<lparr>el_world := w2\<rparr>)"
  have ft: "distinct (map fst ?d2)" "distinct (map snd ?d2)" using fetch_targets_distinct [OF ids h(2)] by auto
  have lists: "lists_sets (es_block_list env)" "lists_sets (es_hash_list env)" using srv(1) by (simp_all add: esa_services_def)
  obtain kept diff where diff: "diff_two_map (es_block_list env) (es_hash_list env) (el_pre_topk s) ?d2 = Inr (kept @ diff, diff)"
      "distinct (map fst (kept @ diff))" "distinct (map snd (kept @ diff))"
    using diff_two_map_result [OF lists pre ft] by (elim exE conjE) (rule that)
  let ?s5 = "s\<lparr>el_world := w2\<rparr>\<lparr>el_pre_topk := kept @ diff\<rparr>"
  show ?thesis
  proof (cases "diff = []")
    case True
    then show ?thesis using t w1 w2 h(1) diff idle
      by (intro exI [of _ w2] exI [of _ "kept @ diff"] exI [of _ "[]"] exI [of _ "[]"] conjI) (simp_all add: wait_retrieval_and_start_load_def)
  next
    case False
    obtain w3 tk ts r where l: "launch_transfer_task cf env ''load'' (map snd diff) (map fst diff) ?s5
        = (Inr (), ?s5\<lparr>el_world := w3, el_tasks := tk # ts, el_rope_tasks := r\<rparr>)"
      using launch_answers [OF srv] by blast
    then show ?thesis using t w1 w2 h(1) diff False
      by (intro exI [of _ w3] exI [of _ "kept @ diff"] exI [of _ "tk # ts"] exI [of _ r] conjI) (simp_all add: wait_retrieval_and_start_load_def Let_def)
  qed
qed

lemma write_blocks_fits:
  assumes "length (fst win) = length ids" and "\<And>v. snd win = Some v \<Longrightarrow> length v = length ids"
  shows "\<exists>w. write_blocks env ids win s = (Inr (), s\<lparr>el_world := w\<rparr>)"
proof (cases "snd win")
  case None
  then show ?thesis using assms(1) by (simp add: write_blocks_def in_world_def write_rows_def spread_def) blast
next
  case (Some v)
  then show ?thesis using assms by (simp add: write_blocks_def in_world_def write_rows_def spread_def) blast
qed

text \<open>The requirements on a step, and what holds between the steps once the prompt is complete.\<close>

definition step_fits :: "esa_cfg \<Rightarrow> nat \<Rightarrow> esa_meta \<Rightarrow> bool" where
  "step_fits cf l m \<longleftrightarrow> distinct (em_vllm_block_ids m) \<and> ec_init_window_sz cf \<le> length (em_vllm_block_ids m)
     \<and> 0 < l \<and> l \<le> length (em_vllm_block_ids m)"

definition window_of :: "nat \<Rightarrow> ('d list \<times> 'd list option) option \<Rightarrow> bool" where
  "window_of n win \<longleftrightarrow> (\<exists>k v. win = Some (k, v) \<and> length k = n \<and> (\<forall>x. v = Some x \<longrightarrow> length x = n))"

definition decode_ok :: "esa_cfg \<Rightarrow> nat list \<Rightarrow> bytes list \<Rightarrow> nat \<Rightarrow> ('w, 'd) esa_layer \<Rightarrow> bool" where
  "decode_ok cf slots hs l s \<longleftrightarrow>
     el_static s \<and> slots_known s slots hs \<and> distinct (map fst (el_pre_topk s)) \<and> distinct (map snd (el_pre_topk s))
     \<and> window_of (ec_init_window_sz cf) (el_init_window s) \<and> window_of l (el_local_window s) \<and> 1 \<le> el_step s
     \<and> (el_tasks s = [] \<longrightarrow> el_rope_tasks s = []) \<and> (el_tasks s \<noteq> [] \<longrightarrow> 1 < el_step s \<and> el_step s mod ec_retrieval_stride cf = 1)
     \<and> (el_retrieval_task s \<noteq> None \<longleftrightarrow> 2 < el_step s \<and> el_step s mod ec_retrieval_stride cf \<notin> {1, 2})"

lemma restore_windows_fits:
  assumes "window_of (ec_init_window_sz cf) (el_init_window s)" and "window_of l (el_local_window s)" and "step_fits cf l m"
  shows "\<exists>w. restore_windows cf env m s = (Inr (), s\<lparr>el_world := w\<rparr>)"
proof -
  obtain k v k' v' where win: "el_init_window s = Some (k, v)" "length k = ec_init_window_sz cf" "\<And>x. v = Some x \<Longrightarrow> length x = ec_init_window_sz cf"
      "el_local_window s = Some (k', v')" "length k' = l" "\<And>x. v' = Some x \<Longrightarrow> length x = l"
    using assms(1,2) unfolding window_of_def by blast
  let ?ids = "em_vllm_block_ids m"
  have len: "length (take (ec_init_window_sz cf) ?ids) = ec_init_window_sz cf" "length (py_slice_int ?ids (- int l) (int (length ?ids))) = l"
    using assms(3) by (auto simp: step_fits_def py_slice_int_def py_bound_def)
  obtain w where w: "write_blocks env (take (ec_init_window_sz cf) ?ids) (k, v) s = (Inr (), s\<lparr>el_world := w\<rparr>)"
    using write_blocks_fits [of "(k, v)" "take (ec_init_window_sz cf) ?ids" env s] win len by auto
  obtain w' where "write_blocks env (py_slice_int ?ids (- int l) (int (length ?ids))) (k', v') (s\<lparr>el_world := w\<rparr>) = (Inr (), s\<lparr>el_world := w\<rparr>\<lparr>el_world := w'\<rparr>)"
    using write_blocks_fits [of "(k', v')" "py_slice_int ?ids (- int l) (int (length ?ids))" env "s\<lparr>el_world := w\<rparr>"] win len by auto
  then show ?thesis using w win by (intro exI [of _ w']) (simp add: restore_windows_def Let_def)
qed

lemma attention_begin_ok:
  assumes srv: "esa_services env slots" "ec_is_mla cf \<or> km_v env \<noteq> None" and stride: "3 \<le> ec_retrieval_stride cf"
    and ok: "decode_ok cf slots hs l s" and fits: "step_fits cf l m"
  shows "\<exists>mid. attention_begin cf env q m s = (Inr (), mid) \<and> el_tasks mid = [] \<and> el_rope_tasks mid = []
    \<and> decode_ok cf slots hs l mid \<and> el_step mid = el_step s"
proof -
  have reg: "maybe_register_static_data m s = s" using ok by (simp add: maybe_register_static_data_def decode_ok_def)
  have stride0: "ec_retrieval_stride cf \<noteq> 0" using stride by simp
  show ?thesis
  proof (cases "el_step s mod ec_retrieval_stride cf = 1")
    case False
    then have "el_tasks s = []" "el_rope_tasks s = []" using ok unfolding decode_ok_def by blast+
    then show ?thesis using False ok reg stride0 by (intro exI [of _ s] conjI) (simp_all add: attention_begin_def)
  next
    case True
    have finish: "\<exists>mid. (if el_tasks s3 \<noteq> [] then wait_transfer_task_done env s3 else (Inr (), s3)) = (Inr (), mid)
        \<and> el_tasks mid = [] \<and> el_rope_tasks mid = [] \<and> (\<exists>w. mid = s3\<lparr>el_world := w, el_tasks := [], el_rope_tasks := []\<rparr>)"
      if rope: "el_tasks s3 = [] \<longrightarrow> el_rope_tasks s3 = []" for s3
    proof (cases "el_tasks s3 = []")
      case True
      then show ?thesis using rope by (intro exI [of _ s3] conjI exI [of _ "el_world s3"]) simp_all
    next
      case False
      obtain w where "wait_transfer_task_done env s3 = (Inr (), s3\<lparr>el_world := w, el_tasks := [], el_rope_tasks := []\<rparr>)"
        using wait_transfer_answers [OF srv(1)] by blast
      then show ?thesis using False
        by (intro exI [of _ "s3\<lparr>el_world := w, el_tasks := [], el_rope_tasks := []\<rparr>"] exI [of _ w] conjI) simp_all
    qed
    show ?thesis
    proof (cases "el_step s = 1")
      case first: True
      have none: "el_tasks s = []" "el_rope_tasks s = []" "el_retrieval_task s = None" using ok first unfolding decode_ok_def by auto
      obtain w1 where w1: "restore_windows cf env m s = (Inr (), s\<lparr>el_world := w1\<rparr>)"
        using restore_windows_fits fits ok unfolding decode_ok_def by blast
      have sl: "el_slots s = slots" using ok by (simp add: decode_ok_def slots_known_def)
      have "answers (\<lambda>w. rw_submit env w q (esa_top_k cf (s\<lparr>el_world := w1\<rparr>)) slots)" using srv(1) by (simp add: esa_services_def)
      then obtain t w2 where sub: "in_world (\<lambda>w. rw_submit env w q (esa_top_k cf (s\<lparr>el_world := w1\<rparr>)) slots) (s\<lparr>el_world := w1\<rparr>)
          = (Inr t, s\<lparr>el_world := w1\<rparr>\<lparr>el_world := w2\<rparr>)" using in_world_answers by blast
      let ?s2 = "s\<lparr>el_world := w2, el_retrieval_task := Some t\<rparr>"
      have s2: "slots_known ?s2 slots hs" "distinct (map fst (el_pre_topk ?s2))" "distinct (map snd (el_pre_topk ?s2))"
          "el_tasks ?s2 = []" "el_rope_tasks ?s2 = []" "el_retrieval_task ?s2 = Some t"
        using ok none by (simp_all add: decode_ok_def slots_known_def)
      have d: "distinct (em_vllm_block_ids m)" using fits by (simp add: step_fits_def)
      obtain w p ts r where l: "wait_retrieval_and_start_load cf env m ?s2
          = (Inr (), ?s2\<lparr>el_world := w, el_pre_topk := p, el_tasks := ts, el_rope_tasks := r, el_retrieval_task := None\<rparr>)"
          "distinct (map fst p)" "distinct (map snd p)" "ts = [] \<longrightarrow> r = []"
        using wait_retrieval_answers [OF srv s2(1-3) d s2(6) s2(4,5)] by (elim exE conjE) (rule that)
      let ?s3 = "s\<lparr>el_world := w, el_pre_topk := p, el_tasks := ts, el_rope_tasks := r, el_retrieval_task := None\<rparr>"
      obtain mid w' where mid: "(if el_tasks ?s3 \<noteq> [] then wait_transfer_task_done env ?s3 else (Inr (), ?s3)) = (Inr (), mid)"
          "el_tasks mid = []" "el_rope_tasks mid = []" "mid = ?s3\<lparr>el_world := w', el_tasks := [], el_rope_tasks := []\<rparr>"
        using finish [of ?s3] l(4) by auto
      have "attention_begin cf env q m s = (Inr (), mid)"
        using first stride0 stride reg w1 sub sl l(1) mid(1) by (simp add: attention_begin_def start_retrieval_def)
      moreover have "decode_ok cf slots hs l mid"
        using ok l(2,3) none first unfolding mid(4) decode_ok_def slots_known_def by simp
      ultimately show ?thesis using mid by (intro exI [of _ mid] conjI) simp_all
    next
      case later: False
      obtain mid w' where mid: "(if el_tasks s \<noteq> [] then wait_transfer_task_done env s else (Inr (), s)) = (Inr (), mid)"
          "el_tasks mid = []" "el_rope_tasks mid = []" "mid = s\<lparr>el_world := w', el_tasks := [], el_rope_tasks := []\<rparr>"
        using finish [of s] ok unfolding decode_ok_def by auto
      have "attention_begin cf env q m s = (Inr (), mid)" using later True stride0 reg mid(1) by (simp add: attention_begin_def)
      moreover have "decode_ok cf slots hs l mid" using ok unfolding mid(4) decode_ok_def slots_known_def by simp
      ultimately show ?thesis using mid by (intro exI [of _ mid] conjI) simp_all
    qed
  qed
qed

lemma attention_finished_ok:
  assumes srv: "esa_services env slots" "ec_is_mla cf \<or> km_v env \<noteq> None" and stride: "3 \<le> ec_retrieval_stride cf"
    and ok: "decode_ok cf slots hs l s" and fits: "step_fits cf l m" and idle: "el_tasks s = []" "el_rope_tasks s = []"
  shows "\<exists>s'. attention_finished cf env q m s = (Inr (), s') \<and> decode_ok cf slots hs l s' \<and> el_step s' = Suc (el_step s)"
proof -
  let ?n = "ec_retrieval_stride cf" and ?k = "el_step s"
  have k: "?k \<noteq> 0" "?n \<noteq> 0" using ok stride by (simp_all add: decode_ok_def)
  have next_phase: "Suc ?k mod ?n = (if Suc (?k mod ?n) = ?n then 0 else Suc (?k mod ?n))" by (simp add: mod_Suc)
  have small: "?k mod ?n \<le> ?k" by simp
  consider (start) "?k mod ?n = 2" | (fetch) "?k mod ?n = 0" | (rest) "?k mod ?n \<noteq> 2" "?k mod ?n \<noteq> 0" by blast
  then show ?thesis
  proof cases
    case start
    have sl: "el_slots s = slots" using ok by (simp add: decode_ok_def slots_known_def)
    have "answers (\<lambda>w. rw_submit env w q (esa_top_k cf s) slots)" using srv(1) by (simp add: esa_services_def)
    then obtain t w where sub: "in_world (\<lambda>w. rw_submit env w q (esa_top_k cf s) slots) s = (Inr t, s\<lparr>el_world := w\<rparr>)"
      using in_world_answers by blast
    let ?s = "s\<lparr>el_world := w, el_retrieval_task := Some t, el_step := Suc ?k\<rparr>"
    have "attention_finished cf env q m s = (Inr (), ?s)"
      using k start sub sl by (simp add: attention_finished_def start_retrieval_def Let_def)
    moreover have "decode_ok cf slots hs l ?s" using ok start idle small stride next_phase by (auto simp: decode_ok_def slots_known_def)
    ultimately show ?thesis by (intro exI [of _ ?s] conjI) simp_all
  next
    case fetch
    have "2 < ?k"
    proof (rule ccontr)
      assume "\<not> 2 < ?k"
      then have "?k mod ?n = ?k" using stride by simp
      then show False using fetch k by simp
    qed
    then obtain t where t: "el_retrieval_task s = Some t" using ok fetch by (auto simp: decode_ok_def)
    have d: "distinct (em_vllm_block_ids m)" using fits by (simp add: step_fits_def)
    have pre: "slots_known s slots hs" "distinct (map fst (el_pre_topk s))" "distinct (map snd (el_pre_topk s))" using ok by (simp_all add: decode_ok_def)
    obtain w p ts r where l: "wait_retrieval_and_start_load cf env m s
        = (Inr (), s\<lparr>el_world := w, el_pre_topk := p, el_tasks := ts, el_rope_tasks := r, el_retrieval_task := None\<rparr>)"
        "distinct (map fst p)" "distinct (map snd p)" "ts = [] \<longrightarrow> r = []"
      using wait_retrieval_answers [OF srv pre d t idle] by (elim exE conjE) (rule that)
    let ?s = "s\<lparr>el_world := w, el_pre_topk := p, el_tasks := ts, el_rope_tasks := r, el_retrieval_task := None, el_step := Suc ?k\<rparr>"
    have "attention_finished cf env q m s = (Inr (), ?s)" using k fetch l(1) by (simp add: attention_finished_def Let_def)
    moreover have "Suc ?k mod ?n = 1" using next_phase fetch stride by simp
    then have "decode_ok cf slots hs l ?s" using ok l(2-4) \<open>2 < ?k\<close> by (simp add: decode_ok_def slots_known_def)
    ultimately show ?thesis by (intro exI [of _ ?s] conjI) simp_all
  next
    case rest
    let ?s = "s\<lparr>el_step := Suc ?k\<rparr>"
    have "attention_finished cf env q m s = (Inr (), ?s)" using k rest by (simp add: attention_finished_def Let_def)
    moreover have "decode_ok cf slots hs l ?s" using ok rest idle small stride next_phase by (auto simp: decode_ok_def slots_known_def)
    ultimately show ?thesis by (intro exI [of _ ?s] conjI) simp_all
  qed
qed

text \<open>
  C18: With services that do not fail and a stride of at least 3, generating tokens never gets
  stuck: every step returns, a retrieval is always there when its result is taken, and whenever
  the attention runs no fetch is outstanding.
\<close>

theorem generation_never_waits_in_vain:
  assumes "esa_services env slots" and "ec_is_mla cf \<or> km_v env \<noteq> None" and "3 \<le> ec_retrieval_stride cf"
    and "decode_ok cf slots hs l s" and "\<forall>(q, m) \<in> set steps. step_fits cf l m"
  shows "\<exists>mids s'. esa_run cf env steps s = (Inr mids, s') \<and> length mids = length steps
    \<and> (\<forall>mid \<in> set mids. el_tasks mid = [] \<and> el_rope_tasks mid = []) \<and> el_step s' = el_step s + length steps"
  using assms(4,5)
proof (induction steps arbitrary: s)
  case Nil
  then show ?case by simp
next
  case (Cons qm steps)
  obtain q m where qm: "qm = (q, m)" by (cases qm)
  have m: "step_fits cf l m" using Cons.prems(2) by (simp add: qm)
  obtain mid where mid: "attention_begin cf env q m s = (Inr (), mid)" "el_tasks mid = []" "el_rope_tasks mid = []"
      "decode_ok cf slots hs l mid" "el_step mid = el_step s"
    using attention_begin_ok [OF assms(1-3) Cons.prems(1) m] by blast
  obtain s1 where s1: "attention_finished cf env q m mid = (Inr (), s1)" "decode_ok cf slots hs l s1" "el_step s1 = Suc (el_step mid)"
    using attention_finished_ok [OF assms(1-3) mid(4) m mid(2,3)] by blast
  obtain mids s' where run: "esa_run cf env steps s1 = (Inr mids, s')" "length mids = length steps"
      "\<forall>mid \<in> set mids. el_tasks mid = [] \<and> el_rope_tasks mid = []" "el_step s' = el_step s1 + length steps"
    using Cons.IH [OF s1(2)] Cons.prems(2) by auto
  show ?case using mid(1-3,5) s1(1,3) run by (intro exI [of _ "mid # mids"] exI [of _ s'] conjI) (simp_all add: qm)
qed

text \<open>The prompt leads there: its last chunk leaves the layer ready to generate.\<close>

lemma prompt_leads_to_generation:
  assumes env: "lists_sets (es_slot_list env)" "\<And>w slot r. repre_at (rw_store_repre env w slot r) = (repre_at w)(slot := r)"
    and fresh: "el_slots s = []" "el_slots_to_relative s = []" "el_block_hashes s = Some hs" "el_static s" "el_step s = 0"
      "el_tasks s = []" "el_rope_tasks s = []" "el_retrieval_task s = None" "el_pre_topk s = []"
    and range: "get_sparse_range (ec_init_window_sz cf) (ec_local_window_sz cf) (em_num_prompt_tokens m) (ec_block_size cf) = int n"
    and room: "finite (sp_free (el_pool s))" "n \<le> card (sp_free (el_pool s))"
    and long: "ec_init_window_sz cf + n \<le> length (em_vllm_block_ids m)" "n \<le> length hs" and dhs: "distinct hs" and last_chunk: "em_is_last_chunk m"
  shows "\<exists>s'. attention_finished cf env q m s = (Inr (), s') \<and> el_step s' = 1
    \<and> decode_ok cf (el_slots s') hs (length (em_vllm_block_ids m) - (ec_init_window_sz cf + n)) s'"
proof -
  let ?i = "ec_init_window_sz cf" and ?ids = "em_vllm_block_ids m"
  obtain slots w where r: "block_repre_data cf env m s = (Inr (), repre_state cf env m n slots w s)" "length slots = n" "distinct slots"
    using block_repre_data_result [OF env fresh(1-3) range room long] by blast
  let ?s = "(repre_state cf env m n slots w s)\<lparr>el_step := 1\<rparr>"
  have rel: "dict_get (el_slots_to_relative ?s) (slots ! j) = Some j" if "j < n" for j
    using relative_indexes [OF r(3), of j 0 "[]"] that r(2) by (simp add: repre_state_def Let_def)
  define pos where "pos = (\<lambda>x. THE j. j < n \<and> slots ! j = x)"
  have pos: "pos (slots ! j) = j" if "j < n" for j
    unfolding pos_def using that r(2,3) by (intro the_equality) (auto simp: nth_eq_iff_index_eq)
  have "inj_on pos (set slots)" "\<forall>x \<in> set slots. dict_get (el_slots_to_relative ?s) x = Some (pos x) \<and> pos x < length hs"
    using pos rel long(2) r(2) by (auto simp: inj_on_def in_set_conv_nth)
  moreover have "el_slots ?s = slots" "el_block_hashes ?s = Some hs" using fresh(3) by (simp_all add: repre_state_def Let_def)
  ultimately have "slots_known ?s slots hs" using dhs unfolding slots_known_def by blast
  moreover have "window_of ?i (el_init_window ?s)"
    using long(1) by (auto simp: repre_state_def Let_def read_blocks_def window_of_def split: option.splits)
  moreover have "window_of (length ?ids - (?i + n)) (el_local_window ?s)"
    using long(1) by (auto simp: repre_state_def Let_def read_blocks_def window_of_def py_slice_int_nonneg nat_add_distrib split: option.splits)
  ultimately have "decode_ok cf (el_slots ?s) hs (length ?ids - (?i + n)) ?s"
    using fresh by (simp add: decode_ok_def repre_state_def Let_def)
  moreover have "attention_finished cf env q m s = (Inr (), ?s)"
    using fresh(5) last_chunk r(1) by (simp add: attention_finished_def repre_state_def Let_def)
  ultimately show ?thesis by (intro exI [of _ ?s]) simp
qed

section \<open>Example\<close>

definition demo_decoding :: "(nat \<Rightarrow> nat, nat) esa_layer" where
  "demo_decoding = (new_esa_layer 0 \<lparr>sp_free = {0..<4}, sp_allocated = {4, 5}\<rparr> (\<lambda>_. 0))
     \<lparr>el_slots := [4, 5], el_slots_to_relative := [(4, 0), (5, 1)], el_block_hashes := Some [''x'', ''y''], el_sparse_range := 2,
      el_static := True, el_init_window := Some ([20], None), el_local_window := Some ([23], None), el_step := 1\<rparr>"

theorem generation_never_waits_in_vain_witness:
  "\<exists>mids s'. esa_run demo_esa_cfg demo_esa_env [((), demo_esa_meta [1]), ((), demo_esa_meta [1, 2]), ((), demo_esa_meta [1, 2, 3]),
       ((), demo_esa_meta [1, 2, 3, 4]), ((), demo_esa_meta [1, 2, 3, 4, 5])] demo_decoding = (Inr mids, s')
    \<and> (\<forall>mid \<in> set mids. el_tasks mid = [] \<and> el_rope_tasks mid = []) \<and> el_step s' = 6"
proof -
  let ?steps = "[((), demo_esa_meta [1]), ((), demo_esa_meta [1, 2]), ((), demo_esa_meta [1, 2, 3]),
       ((), demo_esa_meta [1, 2, 3, 4]), ((), demo_esa_meta [1, 2, 3, 4, 5])]"
  have "\<exists>mids s'. esa_run demo_esa_cfg demo_esa_env ?steps demo_decoding = (Inr mids, s') \<and> length mids = length ?steps
    \<and> (\<forall>mid \<in> set mids. el_tasks mid = [] \<and> el_rope_tasks mid = []) \<and> el_step s' = el_step demo_decoding + length ?steps"
  proof (rule generation_never_waits_in_vain)
    show "esa_services demo_esa_env [4, 5]"
      by (simp add: esa_services_def answers_def demo_esa_env_def demo_esa_store_def sorted_lists_sets)
    show "decode_ok demo_esa_cfg [4, 5] [''x'', ''y''] 1 demo_decoding"
      by (auto simp: decode_ok_def slots_known_def demo_decoding_def demo_esa_cfg_def new_esa_layer_def window_of_def inj_on_def
          intro!: exI [of _ "\<lambda>x. x - 4 :: nat"])
  qed (simp_all add: demo_esa_cfg_def demo_esa_meta_def step_fits_def)
  then obtain mids s' where "esa_run demo_esa_cfg demo_esa_env ?steps demo_decoding = (Inr mids, s')"
      "\<forall>mid \<in> set mids. el_tasks mid = [] \<and> el_rope_tasks mid = []" "el_step s' = el_step demo_decoding + length ?steps"
    by (elim exE conjE) (rule that)
  moreover have "el_step demo_decoding + length ?steps = 6" by (simp add: demo_decoding_def)
  ultimately show ?thesis by (intro exI [of _ mids] exI [of _ s'] conjI) (assumption, assumption, simp only:)
qed

end
