(* ===== verification/Esa_Sparse.thy ===== *)
theory Esa_Sparse
  imports Esa_Decode Py_Text
begin

text \<open>
  The batch side of sparse attention (\<open>ESA\<close> in \<open>esa.py\<close>): which requests are sparse, the keys of their
  blocks, the metadata of a step, the layer states of all requests over the shared slot pools, and
  the number of token slots the scheduler reserves.
\<close>

section \<open>Keys of the blocks between the windows\<close>

text \<open>The loop of \<open>set_block_hashes\<close> over block numbers; blocks from \<open>limit\<close> on are passed over.\<close>

fun esa_hash_loop :: "(hash_input \<Rightarrow> bytes) \<Rightarrow> nat \<Rightarrow> nat list \<Rightarrow> int \<Rightarrow> nat \<Rightarrow> nat list \<Rightarrow> bytes \<Rightarrow> bytes list" where
  "esa_hash_loop h bs toks limit init [] parent = []"
| "esa_hash_loop h bs toks limit init (b # rest) parent =
     (if limit \<le> int b then esa_hash_loop h bs toks limit init rest parent
      else
        let block_token_ids = py_slice toks (b * bs) (b * bs + bs)
        in if length block_token_ids < bs then []
           else
             let hash_value = h (HBlock parent block_token_ids)
             in (if init \<le> b then [hash_value] else []) @ esa_hash_loop h bs toks limit init rest hash_value)"

definition esa_block_hashes :: "hash_funs \<Rightarrow> hasher_config \<Rightarrow> nat \<Rightarrow> esa_cfg \<Rightarrow> nat list \<Rightarrow> bytes list result" where
  "esa_block_hashes hf c rank cf token_ids =
     (let h = request_hasher hf (hasher_meta c 0); bs = ec_block_size cf;
          num_total_blocks = ceil_div (length token_ids) bs;
          hashes = esa_hash_loop h bs token_ids (int num_total_blocks - int (ec_local_window_sz cf)) (ec_init_window_sz cf)
                     [0..<num_total_blocks] (h (HText ''UCM_HASH_SEED''))
      in if bs = 0 then Inl ZeroDivisionError
         else Inr (if rank \<noteq> 0 \<and> \<not> ec_is_mla cf then map (\<lambda>b. request_hasher hf (hasher_meta c rank) (HBytes b)) hashes else hashes))"

text \<open>The table of the batch keeps the first answer for a request.\<close>

definition set_block_hashes ::
  "hash_funs \<Rightarrow> hasher_config \<Rightarrow> nat \<Rightarrow> esa_cfg \<Rightarrow> req_id \<Rightarrow> nat list \<Rightarrow> (req_id, bytes list) dict \<Rightarrow> (req_id, bytes list) dict result" where
  "set_block_hashes hf c rank cf rid token_ids tbl =
     (if rid \<in> dict_keys tbl then Inr tbl
      else rbind (esa_block_hashes hf c rank cf token_ids) (\<lambda>hs. Inr (dict_set rid hs tbl)))"

section \<open>The metadata of a step\<close>

record esa_request =
  eq_prompt_token_ids :: "nat list"
  eq_output_token_ids :: "nat list"
  eq_num_computed_tokens :: nat
  eq_block_ids :: "nat list"

text \<open>
  What the scheduler and the attention hand over; \<open>se_resumed\<close> pairs the cached requests with
  their flag of a resumed preemption. The metadata of latent attention has a prefill part and a
  decode part.
\<close>

record esa_step =
  se_num_scheduled :: "(req_id, nat) dict"
  se_req_ids :: "req_id list"
  se_resumed :: "(req_id \<times> bool) list"
  se_req_id_to_index :: "(req_id, nat) dict"
  se_query_start_loc :: "nat list"
  se_num_decodes :: nat
  se_prefill_start_loc :: "nat list option"
  se_has_decode :: bool

text \<open>Indexing with a negative index counts from the end.\<close>

definition py_index_int :: "'a list \<Rightarrow> int \<Rightarrow> 'a result" where
  "py_index_int xs i =
     (let j = (if i < 0 then int (length xs) + i else i) in if j < 0 \<or> int (length xs) \<le> j then Inl IndexError else Inr (xs ! nat j))"

definition is_sparsed_request :: "esa_cfg \<Rightarrow> nat list \<Rightarrow> bool" where
  "is_sparsed_request cf prompt \<longleftrightarrow> ec_block_size cf * ec_min_blocks cf \<le> length prompt"

record esa_batch =
  eb_requests :: "esa_meta list"
  eb_prefill :: "esa_meta list"
  eb_decode :: "esa_meta list"
  eb_block_hashes :: "(req_id, bytes list) dict"

definition esa_meta_of :: "esa_step \<Rightarrow> req_id \<Rightarrow> nat \<Rightarrow> esa_request \<Rightarrow> bytes list \<Rightarrow> int \<Rightarrow> nat \<Rightarrow> esa_meta" where
  "esa_meta_of st rid n req hs index loc =
     \<lparr>em_request_id = rid, em_index_in_batch = index, em_num_scheduled_tokens = n, em_num_computed_tokens = eq_num_computed_tokens req,
      em_vllm_block_ids = eq_block_ids req, em_query_start_loc = loc, em_prompt_token_ids = eq_prompt_token_ids req,
      em_output_token_ids = eq_output_token_ids req, em_is_preempt = ((rid, True) \<in> set (se_resumed st)), em_ucm_block_hashes = hs\<rparr>"

definition add_to_batch :: "esa_cfg \<Rightarrow> esa_step \<Rightarrow> req_id \<Rightarrow> nat \<Rightarrow> esa_request \<Rightarrow> bytes list \<Rightarrow> esa_batch \<Rightarrow> esa_batch result" where
  "add_to_batch cf st rid n req hs b =
     (if \<not> ec_is_mla cf
      then
        rbind (py_key (se_req_id_to_index st) rid) (\<lambda>i. rbind (py_index (se_query_start_loc st) i) (\<lambda>loc.
          Inr (b\<lparr>eb_requests := eb_requests b @ [esa_meta_of st rid n req hs (int i) loc]\<rparr>)))
      else if rid \<in> set (se_req_ids st) \<and> n = 1
      then
        if \<not> se_has_decode st then Inr b
        else
          rbind (py_key (se_req_id_to_index st) rid) (\<lambda>i. rbind (py_index (se_query_start_loc st) i) (\<lambda>loc.
            Inr (b\<lparr>eb_decode := eb_decode b @ [esa_meta_of st rid n req hs (int i) loc]\<rparr>)))
      else
        rbind (py_key (se_req_id_to_index st) rid) (\<lambda>i0.
          let i = int i0 - int (se_num_decodes st)
          in case se_prefill_start_loc st of
               None \<Rightarrow> Inl AttributeError
             | Some locs \<Rightarrow> rbind (py_index_int locs i) (\<lambda>loc. Inr (b\<lparr>eb_prefill := eb_prefill b @ [esa_meta_of st rid n req hs i loc]\<rparr>))))"

fun sparse_meta_loop ::
  "hash_funs \<Rightarrow> hasher_config \<Rightarrow> nat \<Rightarrow> esa_cfg \<Rightarrow> esa_step \<Rightarrow> (req_id, esa_request) dict \<Rightarrow> (req_id \<times> nat) list \<Rightarrow> esa_batch \<Rightarrow> esa_batch result" where
  "sparse_meta_loop hf c rank cf st requests [] b = Inr b"
| "sparse_meta_loop hf c rank cf st requests ((rid, n) # rest) b =
     rbind (py_key requests rid) (\<lambda>req.
       if \<not> is_sparsed_request cf (eq_prompt_token_ids req) then sparse_meta_loop hf c rank cf st requests rest b
       else
         rbind (set_block_hashes hf c rank cf rid (eq_prompt_token_ids req) (eb_block_hashes b)) (\<lambda>tbl.
           rbind (py_key tbl rid) (\<lambda>hs.
             rbind (add_to_batch cf st rid n req hs (b\<lparr>eb_block_hashes := tbl\<rparr>)) (sparse_meta_loop hf c rank cf st requests rest))))"

definition build_sparse_meta ::
  "hash_funs \<Rightarrow> hasher_config \<Rightarrow> nat \<Rightarrow> esa_cfg \<Rightarrow> esa_step \<Rightarrow> (req_id, esa_request) dict \<Rightarrow> (req_id, bytes list) dict \<Rightarrow> esa_batch result" where
  "build_sparse_meta hf c rank cf st requests tbl =
     sparse_meta_loop hf c rank cf st requests (se_num_scheduled st) \<lparr>eb_requests = [], eb_prefill = [], eb_decode = [], eb_block_hashes = tbl\<rparr>"

section \<open>Reserving token slots\<close>

text \<open>
  \<open>INVALID_SLOT\<close> is \<open>-1\<close>. \<open>preempted\<close> is \<open>preempt_req_output_tokens\<close>: how many output tokens a request
  had when it was preempted.
\<close>

definition sparse_output_tokens :: "(req_id, nat) dict \<Rightarrow> req_id \<Rightarrow> nat \<Rightarrow> int" where
  "sparse_output_tokens preempted rid num_output_tokens = int num_output_tokens - int (dict_get_or preempted rid 0)"

definition local_window_tokens :: "esa_cfg \<Rightarrow> nat \<Rightarrow> int" where
  "local_window_tokens cf prompt_len =
     (let flaw = prompt_len mod ec_block_size cf; bs = int (ec_block_size cf); l = int (ec_local_window_sz cf)
      in if flaw = 0 then bs * l else int flaw + bs * (l - 1))"

definition estimate_num_slots_sparsed ::
  "esa_cfg \<Rightarrow> req_id \<Rightarrow> bool \<Rightarrow> nat \<Rightarrow> nat list \<Rightarrow> nat \<Rightarrow> (req_id, nat) dict \<Rightarrow> int \<times> (req_id, nat) dict" where
  "estimate_num_slots_sparsed cf rid is_preempted num_computed_tokens prompt num_output_tokens preempted0 =
     (let preempted = (if is_preempted then dict_set rid num_output_tokens preempted0 else preempted0)
      in if num_computed_tokens = 0 \<or> sparse_output_tokens preempted rid num_output_tokens = 0 \<or> \<not> is_sparsed_request cf prompt
         then (-1, preempted)
         else
           let sparse_range = get_sparse_range (ec_init_window_sz cf) (ec_local_window_sz cf) (length prompt) (ec_block_size cf);
               bs = int (ec_block_size cf)
           in (int (ec_init_window_sz cf) * bs + ec_scaled cf sparse_range * bs + local_window_tokens cf (length prompt) + int num_output_tokens, preempted))"

text \<open>
  \<open>allocate_slots\<close> over vLLM's cache manager, whose calls are parameters on its state: freeing the
  request, counting and allocating blocks, the number of free blocks and the request's blocks.
\<close>

record 'm cache_manager =
  cm_free :: "req_id \<Rightarrow> 'm \<Rightarrow> 'm"
  cm_blocks_to_allocate :: "req_id \<Rightarrow> int \<Rightarrow> 'm \<Rightarrow> nat"
  cm_num_free_blocks :: "'m \<Rightarrow> nat"
  cm_allocate_new_blocks :: "req_id \<Rightarrow> int \<Rightarrow> 'm \<Rightarrow> 'm"
  cm_req_to_blocks :: "'m \<Rightarrow> req_id \<Rightarrow> nat list"

definition esa_allocate_slots ::
  "'m cache_manager \<Rightarrow> (req_id, nat) dict \<Rightarrow> req_id \<Rightarrow> nat \<Rightarrow> int \<Rightarrow> 'm \<Rightarrow> nat list option \<times> 'm" where
  "esa_allocate_slots cm preempted rid num_output_tokens num_slots_sparsed s0 =
     (let s1 = (if sparse_output_tokens preempted rid num_output_tokens = 1 then cm_free cm rid s0 else s0)
      in if cm_num_free_blocks cm s1 < cm_blocks_to_allocate cm rid num_slots_sparsed s1 then (None, s1)
         else let s2 = cm_allocate_new_blocks cm rid num_slots_sparsed s1 in (Some (cm_req_to_blocks cm s2 rid), s2))"

section \<open>The layers of all requests\<close>

record ('w, 'd) esa_worker =
  ew_req_states :: "(req_id, ('w, 'd) esa_layer option list) dict"
  ew_pools :: "slot_pool list"
  ew_world :: 'w

definition layer_id_of :: "string \<Rightarrow> int result" where
  "layer_id_of layer_name = rbind (py_index (split_on (CHR ''.'') layer_name) 2) py_int"

text \<open>A layer state runs on the pool of its layer and on the world as they are now.\<close>

definition run_layer ::
  "nat \<Rightarrow> (('w, 'd) esa_layer \<Rightarrow> unit result \<times> ('w, 'd) esa_layer) \<Rightarrow> req_id \<Rightarrow> ('w, 'd) esa_worker \<Rightarrow> unit result \<times> ('w, 'd) esa_worker" where
  "run_layer l f rid u =
     (case dict_get (ew_req_states u) rid of
        None \<Rightarrow> (Inl KeyError, u)
      | Some ls \<Rightarrow>
          (case py_index ls l of
             Inl e \<Rightarrow> (Inl e, u)
           | Inr None \<Rightarrow> (Inl AttributeError, u)
           | Inr (Some s) \<Rightarrow>
               (case f (s\<lparr>el_pool := ew_pools u ! l, el_world := ew_world u\<rparr>) of
                  (r, s') \<Rightarrow>
                    (r, u\<lparr>ew_req_states := dict_set rid (ls[l := Some s']) (ew_req_states u), ew_pools := (ew_pools u)[l := el_pool s'],
                          ew_world := el_world s'\<rparr>))))"

definition drop_preempted :: "nat \<Rightarrow> esa_meta \<Rightarrow> ('w, 'd) esa_worker \<Rightarrow> unit result \<times> ('w, 'd) esa_worker" where
  "drop_preempted l m u =
     (if \<not> em_is_preempt m then (Inr (), u)
      else
        (case dict_get (ew_req_states u) (em_request_id m) of
           None \<Rightarrow> (Inl KeyError, u)
         | Some ls \<Rightarrow>
             (case py_index ls l of
                Inl e \<Rightarrow> (Inl e, u)
              | Inr None \<Rightarrow> (Inl AttributeError, u)
              | Inr (Some s) \<Rightarrow>
                  (Inr (), u\<lparr>ew_req_states := dict_set (em_request_id m) (ls[l := None]) (ew_req_states u),
                             ew_pools := (ew_pools u)[l := pool_free (el_slots s) (ew_pools u ! l)]\<rparr>))))"

definition ensure_request :: "nat \<Rightarrow> req_id \<Rightarrow> ('w, 'd) esa_worker \<Rightarrow> ('w, 'd) esa_worker" where
  "ensure_request num_layers rid u =
     (if rid \<in> dict_keys (ew_req_states u) then u
      else u\<lparr>ew_req_states := dict_set rid (replicate num_layers None) (ew_req_states u)\<rparr>)"

definition ensure_layer :: "nat \<Rightarrow> req_id \<Rightarrow> ('w, 'd) esa_worker \<Rightarrow> unit result \<times> ('w, 'd) esa_worker" where
  "ensure_layer l rid u =
     (case dict_get (ew_req_states u) rid of
        None \<Rightarrow> (Inl KeyError, u)
      | Some ls \<Rightarrow>
          (case py_index ls l of
             Inl e \<Rightarrow> (Inl e, u)
           | Inr (Some s) \<Rightarrow> (Inr (), u)
           | Inr None \<Rightarrow>
               (Inr (), u\<lparr>ew_req_states := dict_set rid (ls[l := Some (new_esa_layer l (ew_pools u ! l) (ew_world u))]) (ew_req_states u)\<rparr>)))"

definition get_or_create_layerwise_req_state :: "nat \<Rightarrow> nat \<Rightarrow> esa_meta \<Rightarrow> ('w, 'd) esa_worker \<Rightarrow> unit result \<times> ('w, 'd) esa_worker" where
  "get_or_create_layerwise_req_state num_layers l m u =
     then_do (drop_preempted l m u) (\<lambda>_ u1. ensure_layer l (em_request_id m) (ensure_request num_layers (em_request_id m) u1))"

fun each_request :: "('m \<Rightarrow> 's \<Rightarrow> unit result \<times> 's) \<Rightarrow> 'm list \<Rightarrow> 's \<Rightarrow> unit result \<times> 's" where
  "each_request f [] u = (Inr (), u)"
| "each_request f (m # ms) u = then_do (f m u) (\<lambda>_ u'. each_request f ms u')"

text \<open>\<open>phase\<close> is \<open>Some True\<close> for the prefill and \<open>Some False\<close> for the decode part of latent attention.\<close>

definition batch_of_phase :: "esa_cfg \<Rightarrow> bool option \<Rightarrow> esa_batch \<Rightarrow> esa_meta list" where
  "batch_of_phase cf phase b =
     (if \<not> ec_is_mla cf then eb_requests b
      else case phase of Some True \<Rightarrow> eb_prefill b | Some False \<Rightarrow> eb_decode b | None \<Rightarrow> [])"

definition esa_attention_begin ::
  "esa_cfg \<Rightarrow> (nat \<Rightarrow> ('w, 'd, 'q, 'r) esa_env) \<Rightarrow> (esa_meta \<Rightarrow> 'q) \<Rightarrow> nat \<Rightarrow> bool option \<Rightarrow> esa_batch \<Rightarrow> ('w, 'd) esa_worker
     \<Rightarrow> unit result \<times> ('w, 'd) esa_worker" where
  "esa_attention_begin cf env query l phase b =
     each_request (\<lambda>m u.
       then_do (get_or_create_layerwise_req_state (ec_num_layers cf) l m u) (\<lambda>_ u'.
         run_layer l (attention_begin cf (env l) (query m) m) (em_request_id m) u')) (batch_of_phase cf phase b)"

definition esa_attention_finished ::
  "esa_cfg \<Rightarrow> (nat \<Rightarrow> ('w, 'd, 'q, 'r) esa_env) \<Rightarrow> (esa_meta \<Rightarrow> 'q) \<Rightarrow> nat \<Rightarrow> bool option \<Rightarrow> esa_batch \<Rightarrow> ('w, 'd) esa_worker
     \<Rightarrow> unit result \<times> ('w, 'd) esa_worker" where
  "esa_attention_finished cf env query l phase b =
     each_request (\<lambda>m u. run_layer l (attention_finished cf (env l) (query m) m) (em_request_id m) u) (batch_of_phase cf phase b)"

fun free_layers :: "nat \<Rightarrow> ('w, 'd) esa_layer option list \<Rightarrow> slot_pool list \<Rightarrow> unit result \<times> slot_pool list" where
  "free_layers l [] pools = (Inr (), pools)"
| "free_layers l (None # rest) pools = (Inl AttributeError, pools)"
| "free_layers l (Some s # rest) pools = free_layers (Suc l) rest (pools[l := pool_free (el_slots s) (pools ! l)])"

definition request_finished_in_worker :: "req_id \<Rightarrow> ('w, 'd) esa_worker \<Rightarrow> unit result \<times> ('w, 'd) esa_worker" where
  "request_finished_in_worker rid u =
     (case dict_get (ew_req_states u) rid of
        None \<Rightarrow> (Inr (), u)
      | Some ls \<Rightarrow>
          (case free_layers 0 ls (ew_pools u) of
             (Inl e, pools) \<Rightarrow> (Inl e, u\<lparr>ew_pools := pools\<rparr>)
           | (Inr _, pools) \<Rightarrow> (Inr (), u\<lparr>ew_pools := pools, ew_req_states := dict_pop rid (ew_req_states u)\<rparr>)))"

definition new_esa_worker :: "nat \<Rightarrow> nat \<Rightarrow> 'w \<Rightarrow> ('w, 'd) esa_worker" where
  "new_esa_worker num_layers num_slots w = \<lparr>ew_req_states = [], ew_pools = replicate num_layers (new_pool num_slots), ew_world = w\<rparr>"

section \<open>The keys are those the connector dumped\<close>

lemma esa_hash_loop_chain:
  assumes "0 < bs" and "limit \<le> int n" and "n = ceil_div (length toks) bs"
  shows "b \<le> n \<Longrightarrow> esa_hash_loop h bs toks limit init [b..<n] p
    = drop (init - b) (take (nat limit - b) (chain_ids h bs (drop (b * bs) toks) p))"
proof (induction "n - b" arbitrary: b p)
  case 0
  then have "b = n" by simp
  have "length toks \<le> n * bs"
  proof -
    have "length toks + bs - 1 < Suc n * bs" using assms(1,3) by (simp add: ceil_div_def) (metis dividend_less_div_times mult.commute)
    then show ?thesis using assms(1) by simp
  qed
  then show ?case using \<open>b = n\<close> assms(2) by simp
next
  case (Suc k)
  then have b: "b < n" "[b..<n] = b # [Suc b..<n]" by (simp_all add: upt_conv_Cons)
  show ?case
  proof (cases "limit \<le> int b")
    case True
    have skip: "esa_hash_loop h bs toks limit init [Suc b..<n] p = []"
      using Suc.hyps(1) [of "Suc b" p] Suc.hyps(2) b(1) True by simp
    then show ?thesis using True b(2) by simp
  next
    case False
    let ?blk = "py_slice toks (b * bs) (b * bs + bs)"
    have blk: "?blk = take bs (drop (b * bs) toks)" by (simp add: py_slice_def)
    show ?thesis
    proof (cases "length ?blk < bs")
      case True
      then have "chain_ids h bs (drop (b * bs) toks) p = []" by (subst chain_ids.simps) (auto simp: blk)
      then show ?thesis using True False b(2) by simp
    next
      case full: False
      let ?v = "h (HBlock p ?blk)"
      have nfull: "\<not> (bs = 0 \<or> length (drop (b * bs) toks) < bs)" using full assms(1) by (simp add: blk)
      have c: "chain_ids h bs (drop (b * bs) toks) p = ?v # chain_ids h bs (drop (Suc b * bs) toks) ?v"
        unfolding blk using chain_ids_step [OF nfull, of h p] by (simp add: add.commute)
      have ih: "esa_hash_loop h bs toks limit init [Suc b..<n] ?v
          = drop (init - Suc b) (take (nat limit - Suc b) (chain_ids h bs (drop (Suc b * bs) toks) ?v))"
        by (rule Suc.hyps(1)) (use Suc.hyps(2) b(1) in simp_all)
      obtain j where j: "nat limit - b = Suc j" "nat limit - Suc b = j" using False by (cases "nat limit - b") auto
      have "esa_hash_loop h bs toks limit init (b # [Suc b..<n]) p
          = (if init \<le> b then [?v] else []) @ esa_hash_loop h bs toks limit init [Suc b..<n] ?v"
        using False full by (simp add: Let_def)
      also have "\<dots> = drop (init - b) (take (Suc j) (?v # chain_ids h bs (drop (Suc b * bs) toks) ?v))"
        unfolding ih j(2) by (cases "init \<le> b") (simp_all add: Suc_diff_le drop_Cons')
      finally show ?thesis by (simp only: b(2) c j(1))
    qed
  qed
qed

text \<open>
  The keys are those of the prompt's blocks between the two windows, scoped to the rank by its own
  hasher; \<open>Sparse_Keys\<close> compares them with the keys the connector dumps under.
\<close>

lemma esa_block_hashes_window:
  assumes "0 < ec_block_size cf"
  shows "esa_block_hashes hf c rank cf toks =
    (let h = request_hasher hf (hasher_meta c 0)
     in Inr (drop (ec_init_window_sz cf) (take (ceil_div (length toks) (ec_block_size cf) - ec_local_window_sz cf)
          (rank_scoped_ids (request_hasher hf (hasher_meta c rank)) (rank = 0 \<or> ec_is_mla cf)
            (generate_hash h (ec_block_size cf) toks (h (HText ''UCM_HASH_SEED'')))))))"
proof -
  let ?h = "request_hasher hf (hasher_meta c 0)" and ?n = "ceil_div (length toks) (ec_block_size cf)"
  have "esa_hash_loop ?h (ec_block_size cf) toks (int ?n - int (ec_local_window_sz cf)) (ec_init_window_sz cf) [0..<?n] (?h (HText ''UCM_HASH_SEED''))
      = drop (ec_init_window_sz cf) (take (?n - ec_local_window_sz cf) (generate_hash ?h (ec_block_size cf) toks (?h (HText ''UCM_HASH_SEED''))))"
    using esa_hash_loop_chain [OF assms _ refl, of "int ?n - int (ec_local_window_sz cf)" toks 0 ?h "ec_init_window_sz cf" "?h (HText ''UCM_HASH_SEED'')"]
    by (simp add: generate_hash_chain nat_diff_distrib')
  then show ?thesis using assms by (auto simp: esa_block_hashes_def Let_def rank_scoped_ids_def drop_map take_map)
qed


section \<open>Where the windows are restored\<close>

text \<open>
  For the first generated token the scheduler reserves the windows, the blocks to choose and, if
  the prompt fills its blocks, one block more. The layer restores the last window over the last
  blocks it holds: right behind the chosen blocks, but one block further where there is one more.
\<close>

lemma local_window_is_restored_at:
  assumes bs: "0 < ec_block_size cf" and l: "0 < ec_local_window_sz cf" and sparse: "is_sparsed_request cf prompt" "computed \<noteq> 0"
    and k: "ec_scaled cf (get_sparse_range (ec_init_window_sz cf) (ec_local_window_sz cf) (length prompt) (ec_block_size cf)) = int k"
    and est: "estimate_num_slots_sparsed cf rid False computed prompt 1 [] = (est, pre)"
    and ids: "length ids = ceil_div (nat est) (ec_block_size cf)"
  shows "py_slice_int ids (- int (ec_local_window_sz cf)) (int (length ids))
    = drop (ec_init_window_sz cf + k + (if length prompt mod ec_block_size cf = 0 then 1 else 0)) ids"
proof -
  let ?b = "ec_block_size cf" and ?i = "ec_init_window_sz cf" and ?l = "ec_local_window_sz cf" and ?flaw = "length prompt mod ec_block_size cf"
  have e: "est = int (?i * ?b) + int k * int ?b + local_window_tokens cf (length prompt) + 1"
    using est sparse k by (simp add: estimate_num_slots_sparsed_def sparse_output_tokens_def dict_get_or_def Let_def)
  have n: "length ids = ?i + k + ?l + (if ?flaw = 0 then 1 else 0)"
  proof (cases "?flaw = 0")
    case True
    then have "nat est = (?i + k + ?l) * ?b + 1"
      by (simp add: e local_window_tokens_def nat_eq_iff algebra_simps)
    then show ?thesis using ids ceil_div_mult [of ?b 1 "?i + k + ?l"] bs True by simp
  next
    case False
    have f: "Suc ?flaw \<le> ?b" using bs by (simp add: Suc_leI)
    obtain l' where l': "?l = Suc l'" using l by (cases ?l) auto
    have "nat est = (?i + k + l') * ?b + Suc ?flaw"
      using False by (simp add: e local_window_tokens_def l' nat_eq_iff algebra_simps)
    then show ?thesis using ids ceil_div_mult [of ?b "Suc ?flaw" "?i + k + l'"] bs f False by (simp add: l')
  qed
  have "nat (int (length ids) - int ?l) = ?i + k + (if ?flaw = 0 then 1 else 0)" using n by simp
  then show ?thesis using l n by (simp add: py_slice_int_def py_bound_def py_slice_def del: of_nat_add)
qed

end
