(* ===== verification/Esa_Slots.thy ===== *)
theory Esa_Slots
  imports Esa_Sparse "HOL-Library.Multiset"
begin

text \<open>
  The slot pools of \<open>ESA\<close>: which slots the steps of a layer take and give back, the states a worker
  can reach, and that in all of them every slot has one owner.
\<close>

section \<open>Who owns a slot\<close>

text \<open>What a step of a layer does to its slots: it adds free ones of the pool.\<close>

definition grows :: "('w, 'd) esa_layer \<Rightarrow> ('w, 'd) esa_layer \<Rightarrow> bool" where
  "grows s s' \<longleftrightarrow> (\<exists>new. el_slots s' = el_slots s @ new \<and> distinct new \<and> set new \<subseteq> sp_free (el_pool s)
     \<and> el_pool s' = \<lparr>sp_free = sp_free (el_pool s) - set new, sp_allocated = sp_allocated (el_pool s) \<union> set new\<rparr>)"

definition keeps :: "'a result \<times> ('w, 'd) esa_layer \<Rightarrow> ('w, 'd) esa_layer \<Rightarrow> bool" where
  "keeps m s \<longleftrightarrow> el_pool (snd m) = el_pool s \<and> el_slots (snd m) = el_slots s"

lemma keeps_then: "keeps m s \<Longrightarrow> (\<And>x s'. keeps (f x s') s') \<Longrightarrow> keeps (then_do m f) s"
  by (cases m; cases "fst m") (auto simp: keeps_def)

lemma keeps_same: "el_pool s' = el_pool s \<Longrightarrow> el_slots s' = el_slots s \<Longrightarrow> keeps (r, s') s" by (simp add: keeps_def)

lemma keeps_in_world: "keeps (in_world f s) s" by (simp add: keeps_def in_world_def split: prod.splits)

lemma keeps_wait_tasks: "keeps (wait_tasks st ts s) s"
  by (induction ts arbitrary: s) (auto intro!: keeps_then keeps_in_world keeps_same)

lemma keeps_wait_transfer: "keeps (wait_transfer_task_done env s) s"
  unfolding wait_transfer_task_done_def by (intro keeps_then keeps_wait_tasks keeps_same) simp_all

lemma keeps_trans: "keeps m s \<Longrightarrow> el_pool s = el_pool s0 \<Longrightarrow> el_slots s = el_slots s0 \<Longrightarrow> keeps m s0" by (simp add: keeps_def)

lemma keeps_launch: "keeps (launch_transfer_task cf env k hs ids s) s"
  unfolding launch_transfer_task_def Let_def
  by (intro keeps_then keeps_in_world)
     (auto intro!: keeps_same keeps_trans [OF keeps_then [OF keeps_in_world]] split: option.splits)

lemma keeps_wait_retrieval: "keeps (wait_retrieval_and_start_load cf env m s) s"
proof (cases "el_retrieval_task s")
  case None
  then show ?thesis by (simp add: wait_retrieval_and_start_load_def keeps_same)
next
  case (Some t)
  have "keeps (then_do (if diff = [] then (Inr (), s4\<lparr>el_pre_topk := p\<rparr>) else launch_transfer_task cf env k h ids (s4\<lparr>el_pre_topk := p\<rparr>)) (\<lambda>_ s6.
            (Inr (), s6\<lparr>el_retrieval_task := None\<rparr>))) s4" for diff :: "(nat, bytes) dict" and s4 p k h ids
    by (rule keeps_then) (auto intro: keeps_same keeps_trans [OF keeps_launch])
  then show ?thesis unfolding wait_retrieval_and_start_load_def Some option.case Let_def
    by (intro keeps_then keeps_in_world keeps_same refl) (auto split: prod.splits)
qed

lemma keeps_start_retrieval: "keeps (start_retrieval cf env q s) s"
  unfolding start_retrieval_def by (intro keeps_then keeps_in_world keeps_same) simp_all

lemma keeps_write_blocks: "keeps (write_blocks env ids win s) s"
  unfolding write_blocks_def by (intro keeps_then keeps_in_world) (auto intro: keeps_in_world keeps_same split: option.splits)

lemma keeps_restore: "keeps (restore_windows cf env m s) s"
  unfolding restore_windows_def by (auto intro: keeps_same keeps_then keeps_write_blocks simp: Let_def split: option.splits)

lemma keeps_begin: "keeps (attention_begin cf env q m s) s"
proof -
  have reg: "el_pool (maybe_register_static_data m s) = el_pool s" "el_slots (maybe_register_static_data m s) = el_slots s"
    by (simp_all add: maybe_register_static_data_def)
  have "keeps (attention_begin cf env q m s) (maybe_register_static_data m s)"
    unfolding attention_begin_def Let_def
    by (auto intro!: keeps_same keeps_then keeps_restore keeps_start_retrieval keeps_wait_retrieval keeps_wait_transfer)
  then show ?thesis using reg by (rule keeps_trans)
qed

lemma grows_refl: "grows s s" by (auto simp: grows_def)

lemma keeps_grows: "keeps m s \<Longrightarrow> grows s (snd m)"
  by (auto simp: grows_def keeps_def intro!: exI [of _ "[]"])

lemma grows_keeps: "grows s s' \<Longrightarrow> keeps m s' \<Longrightarrow> grows s (snd m)"
  by (auto simp: grows_def keeps_def)

lemma pool_allocate_grows:
  assumes "lists_sets list_of" and "finite (sp_free p)"
  shows "case pool_allocate list_of n p of
     (Inl e, p') \<Rightarrow> p' = p
   | (Inr slots, p') \<Rightarrow> distinct slots \<and> set slots \<subseteq> sp_free p \<and> p' = \<lparr>sp_free = sp_free p - set slots, sp_allocated = sp_allocated p \<union> set slots\<rparr>"
proof -
  let ?a = "py_slice_int (list_of (sp_free p)) 0 n"
  have l: "set (list_of (sp_free p)) = sp_free p" "distinct (list_of (sp_free p))" using lists_setsD [OF assms] by simp_all
  have "set ?a \<subseteq> set (list_of (sp_free p))" by (simp add: py_slice_int_def py_slice_def) (meson set_drop_subset set_take_subset subset_trans)
  moreover have "distinct ?a" using l(2) by (simp add: py_slice_int_def py_slice_def)
  ultimately show ?thesis using l(1) by (simp add: pool_allocate_def Let_def)
qed

lemma then_do_snd: "snd (then_do m f) = (case m of (Inl e, s) \<Rightarrow> s | (Inr x, s) \<Rightarrow> snd (f x s))"
  by (simp add: then_do_def split: prod.splits sum.splits)

lemma block_repre_grows:
  assumes "lists_sets (es_slot_list env)" and "finite (sp_free (el_pool s))"
  shows "grows s (snd (block_repre_data cf env m s))"
proof -
  let ?r = "get_sparse_range (ec_init_window_sz cf) (ec_local_window_sz cf) (em_num_prompt_tokens m) (ec_block_size cf)"
  show ?thesis
  proof (cases "pool_allocate (es_slot_list env) ?r (el_pool s)")
    case (Pair r p)
    show ?thesis
    proof (cases r)
      case (Inl e)
      then show ?thesis using pool_allocate_grows [OF assms, of ?r] Pair
        by (auto simp: block_repre_data_def Let_def grows_def intro!: exI [of _ "[]"])
    next
      case (Inr slots)
      then have a: "distinct slots" "set slots \<subseteq> sp_free (el_pool s)"
          "p = \<lparr>sp_free = sp_free (el_pool s) - set slots, sp_allocated = sp_allocated (el_pool s) \<union> set slots\<rparr>"
        using pool_allocate_grows [OF assms, of ?r] Pair by simp_all
      define s2 where "s2 = s\<lparr>el_sparse_range := ?r, el_pool := p,
          el_slots_to_relative := fold (\<lambda>(k, slot). dict_set slot (length (el_slots s) + k)) (zip [0..<length slots] slots) (el_slots_to_relative s),
          el_slots := el_slots s @ slots\<rparr>"
      have "grows s s2" using a by (auto simp: grows_def s2_def)
      moreover have "keeps (block_repre_data cf env m s) s2"
        using Pair Inr by (simp add: block_repre_data_def Let_def s2_def [symmetric]) (intro keeps_then keeps_in_world keeps_same; simp)
      ultimately show ?thesis by (rule grows_keeps)
    qed
  qed
qed

lemma finished_grows:
  assumes "lists_sets (es_slot_list env)" and "finite (sp_free (el_pool s))"
  shows "grows s (snd (attention_finished cf env q m s))"
proof (cases "el_step s = 0")
  case True
  show ?thesis
  proof (cases "em_is_last_chunk m")
    case chunk: True
    have "grows s (snd (block_repre_data cf env m s))" by (rule block_repre_grows [OF assms])
    then show ?thesis using True chunk
      by (auto simp: attention_finished_def then_do_snd grows_def split: prod.splits sum.splits)
  next
    case False
    then show ?thesis using True by (simp add: attention_finished_def grows_refl)
  qed
next
  case False
  have "keeps (attention_finished cf env q m s) s"
    unfolding attention_finished_def Let_def using False
    by (auto intro!: keeps_same keeps_then keeps_start_retrieval keeps_wait_retrieval)
  then show ?thesis by (rule keeps_grows)
qed

section \<open>The slots of all requests\<close>

definition slots_in :: "nat \<Rightarrow> ('w, 'd) esa_layer option list \<Rightarrow> nat list" where
  "slots_in l ls = (case ls ! l of None \<Rightarrow> [] | Some s \<Rightarrow> el_slots s)"

definition owned_slots :: "nat \<Rightarrow> (req_id, ('w, 'd) esa_layer option list) dict \<Rightarrow> nat list" where
  "owned_slots l d = concat (map (slots_in l \<circ> snd) d)"

definition pool_holds :: "nat \<Rightarrow> nat list \<Rightarrow> slot_pool \<Rightarrow> bool" where
  "pool_holds n slots p \<longleftrightarrow> distinct slots \<and> set slots \<subseteq> {..<n} \<and> p = \<lparr>sp_free = {..<n} - set slots, sp_allocated = set slots\<rparr>"

definition slots_ok :: "nat \<Rightarrow> nat \<Rightarrow> ('w, 'd) esa_worker \<Rightarrow> bool" where
  "slots_ok num_layers n u \<longleftrightarrow>
     length (ew_pools u) = num_layers \<and> distinct (map fst (ew_req_states u)) \<and> (\<forall>ls \<in> snd ` set (ew_req_states u). length ls = num_layers)
     \<and> (\<forall>l < num_layers. pool_holds n (owned_slots l (ew_req_states u)) (ew_pools u ! l))"

lemma pool_holds_mset: "mset xs = mset ys \<Longrightarrow> pool_holds n xs p \<longleftrightarrow> pool_holds n ys p"
  unfolding pool_holds_def by (metis mset_eq_imp_distinct_iff mset_eq_setD)

lemma owned_get:
  "distinct (map fst d) \<Longrightarrow> dict_get d rid = Some ls \<Longrightarrow>
   mset (owned_slots l d) = mset (slots_in l ls) + mset (owned_slots l (dict_pop rid d))"
proof (induction d)
  case Nil
  then show ?case by simp
next
  case (Cons kv d)
  show ?case
  proof (cases "fst kv = rid")
    case True
    then have "dict_pop rid d = d" using Cons.prems(1) by (cases kv) simp
    then show ?thesis using True Cons.prems(2) by (cases kv) (simp add: owned_slots_def)
  next
    case False
    then show ?thesis using Cons by (cases kv) (simp add: owned_slots_def)
  qed
qed

lemma owned_set:
  assumes "distinct (map fst d)"
  shows "mset (owned_slots l (dict_set rid x d)) = mset (slots_in l x) + mset (owned_slots l (dict_pop rid d))"
  using owned_get [of "dict_set rid x d" rid x l] assms by (simp add: AList.delete_update_same distinct_update)

text \<open>Slots are added to and taken from a request.\<close>

lemma pool_holds_grows:
  assumes "pool_holds n (slots @ rest) p" and "distinct new" and "set new \<subseteq> sp_free p"
  shows "pool_holds n ((slots @ new) @ rest) \<lparr>sp_free = sp_free p - set new, sp_allocated = sp_allocated p \<union> set new\<rparr>"
  using assms by (auto simp: pool_holds_def)

lemma pool_holds_free: "pool_holds n (slots @ rest) p \<Longrightarrow> pool_holds n rest (pool_free slots p)"
  by (auto simp: pool_holds_def pool_free_def)

lemma pool_holds_finite: "pool_holds n slots p \<Longrightarrow> finite (sp_free p)" by (auto simp: pool_holds_def)

text \<open>One layer of one request changes, and its pool with it.\<close>

lemma slots_ok_layer:
  assumes ok: "slots_ok num_layers n u" and ls: "dict_get (ew_req_states u) rid = Some ls" and l: "l < num_layers"
    and u': "ew_req_states u' = dict_set rid (ls[l := x]) (ew_req_states u)" "ew_pools u' = (ew_pools u)[l := p]"
    and holds: "\<And>rest. pool_holds n (slots_in l ls @ rest) (ew_pools u ! l) \<Longrightarrow> pool_holds n ((case x of None \<Rightarrow> [] | Some s \<Rightarrow> el_slots s) @ rest) p"
  shows "slots_ok num_layers n u'"
proof -
  let ?d = "ew_req_states u"
  have d: "distinct (map fst ?d)" and len: "length ls = num_layers" "length (ew_pools u) = num_layers"
    using ok ls by (auto simp: slots_ok_def dest!: map_of_SomeD)
  have "pool_holds n (owned_slots j (ew_req_states u')) (ew_pools u' ! j)" if j: "j < num_layers" for j
  proof -
    let ?rest = "owned_slots j (dict_pop rid ?d)"
    have "pool_holds n (owned_slots j ?d) (ew_pools u ! j)" using ok j by (simp add: slots_ok_def)
    then have before: "pool_holds n (slots_in j ls @ ?rest) (ew_pools u ! j)"
      using pool_holds_mset [of "owned_slots j ?d" "slots_in j ls @ ?rest"] owned_get [OF d ls, of j] by simp
    have "pool_holds n (slots_in j (ls[l := x]) @ ?rest) (ew_pools u' ! j)"
    proof (cases "j = l")
      case True
      then show ?thesis using holds before len j u' by (simp add: slots_in_def)
    next
      case False
      then show ?thesis using before u' by (simp add: slots_in_def)
    qed
    then show ?thesis
      using pool_holds_mset [of "owned_slots j (ew_req_states u')" "slots_in j (ls[l := x]) @ ?rest"] owned_set [OF d, of j rid "ls[l := x]"] u' by simp
  qed
  moreover have "distinct (map fst (ew_req_states u'))" using d u' by (simp add: distinct_update)
  moreover have "\<forall>ls \<in> snd ` set (ew_req_states u'). length ls = num_layers"
  proof
    fix y assume "y \<in> snd ` set (ew_req_states u')"
    then obtain k where "(k, y) \<in> set (dict_set rid (ls[l := x]) ?d)" using u' by auto
    then show "length y = num_layers" using dict_in_set_update [of k y] ok len by (fastforce simp: slots_ok_def)
  qed
  ultimately show ?thesis using len u' by (simp add: slots_ok_def)
qed

lemma run_layer_slots:
  assumes ok: "slots_ok num_layers n u"
    and f: "\<And>s. finite (sp_free (el_pool s)) \<Longrightarrow> grows s (snd (f s))"
  shows "slots_ok num_layers n (snd (run_layer l f rid u))"
proof (cases "dict_get (ew_req_states u) rid")
  case None
  then show ?thesis using ok by (simp add: run_layer_def)
next
  case (Some ls)
  show ?thesis
  proof (cases "py_index ls l")
    case (Inl e)
    then show ?thesis using Some ok by (simp add: run_layer_def)
  next
    case (Inr o_s)
    show ?thesis
    proof (cases o_s)
      case None
      then show ?thesis using Some Inr ok by (simp add: run_layer_def)
    next
      case s: (Some s)
      have len: "length ls = num_layers" using ok Some by (auto simp: slots_ok_def dest!: map_of_SomeD)
      have l: "l < num_layers" "ls ! l = Some s" using Inr s len by (auto simp: py_index_def split: if_splits)
      define s0 where "s0 = s\<lparr>el_pool := ew_pools u ! l, el_world := ew_world u\<rparr>"
      obtain r s' where fs: "f s0 = (r, s')" by (cases "f s0")
      have run: "run_layer l f rid u = (r, u\<lparr>ew_req_states := dict_set rid (ls[l := Some s']) (ew_req_states u),
          ew_pools := (ew_pools u)[l := el_pool s'], ew_world := el_world s'\<rparr>)"
        using Some Inr s fs by (simp add: run_layer_def s0_def)
      have "finite (sp_free (el_pool s0))" using ok l by (auto simp: s0_def slots_ok_def intro: pool_holds_finite)
      then have "grows s0 s'" using f [of s0] fs by simp
      then obtain new where new: "el_slots s' = el_slots s @ new" "distinct new" "set new \<subseteq> sp_free (ew_pools u ! l)"
          "el_pool s' = \<lparr>sp_free = sp_free (ew_pools u ! l) - set new, sp_allocated = sp_allocated (ew_pools u ! l) \<union> set new\<rparr>"
        by (auto simp: grows_def s0_def)
      have "slots_ok num_layers n (snd (run_layer l f rid u))"
      proof (rule slots_ok_layer [OF ok Some l(1), where x = "Some s'" and p = "el_pool s'"])
        fix rest assume "pool_holds n (slots_in l ls @ rest) (ew_pools u ! l)"
        then show "pool_holds n ((case Some s' of None \<Rightarrow> [] | Some s \<Rightarrow> el_slots s) @ rest) (el_pool s')"
          using pool_holds_grows new l(2) by (simp add: slots_in_def)
      qed (simp_all add: run)
      then show ?thesis .
    qed
  qed
qed


text \<open>Creating and dropping the state of a layer.\<close>

lemma ensure_request_slots:
  assumes "slots_ok num_layers n u"
  shows "slots_ok num_layers n (ensure_request num_layers rid u)"
proof (cases "rid \<in> dict_keys (ew_req_states u)")
  case True
  then show ?thesis using assms by (simp add: ensure_request_def)
next
  case False
  have "AList.update rid v d = d @ [(rid, v)]" if "rid \<notin> fst ` set d" for v and d :: "(req_id, 'c) dict"
    using that by (induction d) auto
  then have "dict_set rid (replicate num_layers None) (ew_req_states u) = ew_req_states u @ [(rid, replicate num_layers None)]"
    using False by simp
  then show ?thesis using False assms by (auto simp: ensure_request_def slots_ok_def owned_slots_def slots_in_def)
qed

lemma slots_ok_index:
  "slots_ok num_layers n u \<Longrightarrow> dict_get (ew_req_states u) rid = Some ls \<Longrightarrow> py_index ls l = Inr x \<Longrightarrow> l < num_layers \<and> ls ! l = x"
  by (auto simp: py_index_def slots_ok_def dest!: map_of_SomeD split: if_splits)

lemma ensure_layer_slots:
  assumes ok: "slots_ok num_layers n u"
  shows "slots_ok num_layers n (snd (ensure_layer l rid u))"
proof (cases "\<exists>ls. dict_get (ew_req_states u) rid = Some ls \<and> py_index ls l = Inr None")
  case True
  then obtain ls where ls: "dict_get (ew_req_states u) rid = Some ls" "py_index ls l = Inr None" by blast
  note l = slots_ok_index [OF ok ls]
  let ?s = "new_esa_layer l (ew_pools u ! l) (ew_world u)"
  show ?thesis
  proof (rule slots_ok_layer [OF ok ls(1), where x = "Some ?s" and p = "ew_pools u ! l"])
    fix rest assume "pool_holds n (slots_in l ls @ rest) (ew_pools u ! l)"
    then show "pool_holds n ((case Some ?s of None \<Rightarrow> [] | Some s \<Rightarrow> el_slots s) @ rest) (ew_pools u ! l)"
      using l by (simp add: slots_in_def new_esa_layer_def)
  qed (use l ls in \<open>simp_all add: ensure_layer_def\<close>)
next
  case False
  then have "snd (ensure_layer l rid u) = u" by (auto simp: ensure_layer_def split: option.splits sum.splits)
  then show ?thesis using ok by simp
qed

lemma drop_preempted_slots:
  assumes ok: "slots_ok num_layers n u"
  shows "slots_ok num_layers n (snd (drop_preempted l m u))"
proof (cases "em_is_preempt m \<and> (\<exists>ls s. dict_get (ew_req_states u) (em_request_id m) = Some ls \<and> py_index ls l = Inr (Some s))")
  case True
  then obtain ls s where ls: "dict_get (ew_req_states u) (em_request_id m) = Some ls" "py_index ls l = Inr (Some s)" by blast
  note l = slots_ok_index [OF ok ls]
  show ?thesis
  proof (rule slots_ok_layer [OF ok ls(1), where x = None and p = "pool_free (el_slots s) (ew_pools u ! l)"])
    fix rest assume "pool_holds n (slots_in l ls @ rest) (ew_pools u ! l)"
    then show "pool_holds n ((case None of None \<Rightarrow> [] | Some s \<Rightarrow> el_slots s) @ rest) (pool_free (el_slots s) (ew_pools u ! l))"
      using l pool_holds_free by (simp add: slots_in_def)
  qed (use l ls True in \<open>simp_all add: drop_preempted_def\<close>)
next
  case False
  then have "snd (drop_preempted l m u) = u" by (auto simp: drop_preempted_def split: option.splits sum.splits)
  then show ?thesis using ok by simp
qed

lemma get_or_create_slots:
  assumes "slots_ok num_layers n u"
  shows "slots_ok num_layers n (snd (get_or_create_layerwise_req_state num_layers l m u))"
proof -
  obtain r u1 where u1: "drop_preempted l m u = (r, u1)" by (cases "drop_preempted l m u")
  then have ok: "slots_ok num_layers n u1" using drop_preempted_slots [OF assms, of l m] by simp
  show ?thesis using ok ensure_layer_slots [OF ensure_request_slots [OF ok]] u1
    by (cases r) (simp_all add: get_or_create_layerwise_req_state_def)
qed

lemma free_layers_frees:
  "free_layers j ls pools = (Inr x, pools') \<Longrightarrow> j + length ls \<le> length pools \<Longrightarrow>
   length pools' = length pools \<and>
   (\<forall>l < length pools. pools' ! l = (if j \<le> l \<and> l < j + length ls then pool_free (slots_in (l - j) ls) (pools ! l) else pools ! l))"
proof (induction ls arbitrary: j pools)
  case Nil
  then show ?case by auto
next
  case (Cons y ls)
  obtain s where s: "y = Some s" using Cons.prems(1) by (cases y) auto
  let ?p = "pools[j := pool_free (el_slots s) (pools ! j)]"
  have ih: "length pools' = length ?p \<and>
     (\<forall>l < length ?p. pools' ! l = (if Suc j \<le> l \<and> l < Suc j + length ls then pool_free (slots_in (l - Suc j) ls) (?p ! l) else ?p ! l))"
    by (rule Cons.IH) (use Cons.prems s in simp_all)
  have "slots_in (l - j) (y # ls) = (if l = j then el_slots s else slots_in (l - Suc j) ls)" if "j \<le> l" for l
    using that by (auto simp: slots_in_def s nth_Cons' diff_diff_add)
  then show ?case using ih Cons.prems(2) by (auto simp: nth_list_update)
qed

lemma request_finished_slots:
  assumes ok: "slots_ok num_layers n u" and fin: "request_finished_in_worker rid u = (Inr x, u')"
  shows "slots_ok num_layers n u'"
proof (cases "dict_get (ew_req_states u) rid")
  case None
  then show ?thesis using ok fin by (simp add: request_finished_in_worker_def)
next
  case (Some ls)
  let ?d = "ew_req_states u"
  have d: "distinct (map fst ?d)" and len: "length ls = num_layers" "length (ew_pools u) = num_layers"
    using ok Some by (auto simp: slots_ok_def dest!: map_of_SomeD)
  obtain pools where pools: "free_layers 0 ls (ew_pools u) = (Inr (), pools)"
      "u' = u\<lparr>ew_pools := pools, ew_req_states := dict_pop rid ?d\<rparr>"
    using fin Some by (auto simp: request_finished_in_worker_def split: prod.splits sum.splits)
  have freed: "length pools = num_layers" "\<And>l. l < num_layers \<Longrightarrow> pools ! l = pool_free (slots_in l ls) (ew_pools u ! l)"
    using free_layers_frees [OF pools(1)] len by simp_all
  have "pool_holds n (owned_slots l (dict_pop rid ?d)) (pools ! l)" if l: "l < num_layers" for l
  proof -
    have "pool_holds n (owned_slots l ?d) (ew_pools u ! l)" using ok l by (simp add: slots_ok_def)
    then have "pool_holds n (slots_in l ls @ owned_slots l (dict_pop rid ?d)) (ew_pools u ! l)"
      using pool_holds_mset [of "owned_slots l ?d" "slots_in l ls @ owned_slots l (dict_pop rid ?d)"] owned_get [OF d Some, of l] by simp
    then show ?thesis unfolding freed(2) [OF l] by (rule pool_holds_free)
  qed
  moreover have "distinct (map fst (dict_pop rid ?d))" using d by (simp add: AList.distinct_delete)
  moreover have "\<forall>ls \<in> snd ` set (dict_pop rid ?d). length ls = num_layers"
    using ok by (auto simp: slots_ok_def AList.delete_eq)
  ultimately show ?thesis using freed(1) by (simp add: slots_ok_def pools(2))
qed


section \<open>Reachable states\<close>

lemma each_request_keeps:
  "(\<And>m u. P u \<Longrightarrow> P (snd (f m u))) \<Longrightarrow> P u \<Longrightarrow> P (snd (each_request f ms u))"
  by (induction ms arbitrary: u) (auto simp: then_do_snd split: prod.splits sum.splits, metis snd_conv, metis snd_conv)

text \<open>
  The states of a worker: the attention of a layer begins and is finished for any batch and any
  queries, also where it fails half way, requests are finished without an exception, and the device
  and the store change.
\<close>

inductive esa_reachable :: "esa_cfg \<Rightarrow> (nat \<Rightarrow> ('w, 'd, 'q, 'r) esa_env) \<Rightarrow> nat \<Rightarrow> ('w, 'd) esa_worker \<Rightarrow> bool"
  for cf env num_slots where
  init: "esa_reachable cf env num_slots (new_esa_worker (ec_num_layers cf) num_slots w)"
| begins: "esa_reachable cf env num_slots u \<Longrightarrow> esa_reachable cf env num_slots (snd (esa_attention_begin cf env query l phase b u))"
| finishes: "esa_reachable cf env num_slots u \<Longrightarrow> esa_reachable cf env num_slots (snd (esa_attention_finished cf env query l phase b u))"
| request: "esa_reachable cf env num_slots u \<Longrightarrow> request_finished_in_worker rid u = (Inr x, u') \<Longrightarrow> esa_reachable cf env num_slots u'"
| world: "esa_reachable cf env num_slots u \<Longrightarrow> esa_reachable cf env num_slots (u\<lparr>ew_world := w\<rparr>)"

lemma reachable_slots_ok:
  fixes u :: "('w, 'd) esa_worker"
  assumes "esa_reachable cf env num_slots u" and lists: "\<forall>l. lists_sets (es_slot_list (env l))"
  shows "slots_ok (ec_num_layers cf) num_slots u"
  using assms(1)
proof (induction rule: esa_reachable.induct)
  case (init w)
  show ?case by (auto simp: new_esa_worker_def slots_ok_def owned_slots_def pool_holds_def new_pool_def)
next
  case (begins u query l phase b)
  have begin_one: "slots_ok (ec_num_layers cf) num_slots (snd (run_layer l (attention_begin cf (env l) (query m) m) rid u))"
    if "slots_ok (ec_num_layers cf) num_slots u" for u m rid
    using that by (rule run_layer_slots) (rule keeps_grows [OF keeps_begin])
  show ?case unfolding esa_attention_begin_def
  proof (rule each_request_keeps [where P = "slots_ok (ec_num_layers cf) num_slots", OF _ begins.IH])
    fix m and u1 :: "('w, 'd) esa_worker"
    assume ok: "slots_ok (ec_num_layers cf) num_slots u1"
    obtain r u2 where u2: "get_or_create_layerwise_req_state (ec_num_layers cf) l m u1 = (r, u2)"
      by (cases "get_or_create_layerwise_req_state (ec_num_layers cf) l m u1")
    then have "slots_ok (ec_num_layers cf) num_slots u2" using get_or_create_slots [OF ok, of l m] by simp
    then show "slots_ok (ec_num_layers cf) num_slots (snd (then_do (get_or_create_layerwise_req_state (ec_num_layers cf) l m u1) (\<lambda>_ u'.
         run_layer l (attention_begin cf (env l) (query m) m) (em_request_id m) u')))"
      using begin_one u2 by (cases r) simp_all
  qed
next
  case (finishes u query l phase b)
  show ?case unfolding esa_attention_finished_def
    by (rule each_request_keeps [where P = "slots_ok (ec_num_layers cf) num_slots", OF _ finishes.IH], rule run_layer_slots, assumption, rule finished_grows) (use lists in auto)
next
  case (request u rid x u')
  then show ?case using request_finished_slots by blast
next
  case (world u w)
  then show ?case by (simp add: slots_ok_def)
qed

text \<open>Finishing a request raises where one of its layers has no state.\<close>

lemma free_layers_raises:
  "(\<exists>e. fst (free_layers j ls pools) = Inl e) \<longleftrightarrow> None \<in> set ls"
proof (induction ls arbitrary: j pools)
  case Nil
  then show ?case by simp
next
  case (Cons y ls)
  then show ?case by (cases y) auto
qed

lemma request_finished_raises:
  "(\<exists>e. fst (request_finished_in_worker rid u) = Inl e) \<longleftrightarrow>
     (\<exists>ls. dict_get (ew_req_states u) rid = Some ls \<and> None \<in> set ls)"
proof (cases "dict_get (ew_req_states u) rid")
  case None
  then show ?thesis by (simp add: request_finished_in_worker_def)
next
  case (Some ls)
  then show ?thesis using free_layers_raises [of 0 ls "ew_pools u"]
    by (auto simp: request_finished_in_worker_def split: prod.splits sum.splits)
qed

text \<open>
  C16: However requests come, are preempted, fail in a layer and are finished, as long as finishing
  one has not raised: every slot of a layer is either free or belongs to exactly one request, once;
  and when no request is left the pools are as at the start. Finishing a request raises exactly where
  one of its layers has no state, because that layer never ran for it; what is left then is not
  among the states covered, since the slots of the layers before are freed and still owned.
\<close>

theorem slots_have_one_owner:
  assumes "esa_reachable cf env num_slots u" and "\<forall>l. lists_sets (es_slot_list (env l))"
  shows "(\<forall>l < ec_num_layers cf. let owned = owned_slots l (ew_req_states u) in
      distinct owned \<and> set owned \<subseteq> {..<num_slots} \<and> sp_allocated (ew_pools u ! l) = set owned \<and> sp_free (ew_pools u ! l) = {..<num_slots} - set owned)
    \<and> (ew_req_states u = [] \<longrightarrow> ew_pools u = replicate (ec_num_layers cf) (new_pool num_slots))
    \<and> (\<forall>rid. (\<exists>e. fst (request_finished_in_worker rid u) = Inl e) \<longleftrightarrow>
         (\<exists>ls. dict_get (ew_req_states u) rid = Some ls \<and> None \<in> set ls))"
proof -
  note ok = reachable_slots_ok [OF assms]
  have "ew_pools u = replicate (ec_num_layers cf) (new_pool num_slots)" if "ew_req_states u = []"
    using ok that by (auto simp: slots_ok_def pool_holds_def new_pool_def owned_slots_def intro: nth_equalityI)
  moreover have "\<forall>l < ec_num_layers cf. let owned = owned_slots l (ew_req_states u) in
      distinct owned \<and> set owned \<subseteq> {..<num_slots} \<and> sp_allocated (ew_pools u ! l) = set owned \<and> sp_free (ew_pools u ! l) = {..<num_slots} - set owned"
    using ok by (simp add: slots_ok_def pool_holds_def)
  ultimately show ?thesis by (intro conjI allI request_finished_raises impI) blast+
qed

section \<open>Example\<close>

definition demo_batch :: "nat list \<Rightarrow> esa_batch" where
  "demo_batch outputs = \<lparr>eb_requests = [], eb_prefill = (if outputs = [] then [demo_esa_meta []] else []),
     eb_decode = (if outputs = [] then [] else [demo_esa_meta outputs]), eb_block_hashes = []\<rparr>"

definition demo_prefilled :: "(nat \<Rightarrow> nat, nat) esa_worker" where
  "demo_prefilled =
     snd (esa_attention_finished demo_esa_cfg (\<lambda>_. demo_esa_env) (\<lambda>_. ()) 0 (Some True) (demo_batch [])
       (snd (esa_attention_begin demo_esa_cfg (\<lambda>_. demo_esa_env) (\<lambda>_. ()) 0 (Some True) (demo_batch []) (new_esa_worker (ec_num_layers demo_esa_cfg) 9 (\<lambda>_. 0)))))"

theorem slots_have_one_owner_witness:
  "let owned = owned_slots 0 (ew_req_states demo_prefilled) in
     distinct owned \<and> sp_allocated (ew_pools demo_prefilled ! 0) = set owned \<and> sp_free (ew_pools demo_prefilled ! 0) = {..<9} - set owned"
proof -
  have "esa_reachable demo_esa_cfg (\<lambda>_. demo_esa_env) 9 demo_prefilled"
    unfolding demo_prefilled_def
    by (rule esa_reachable.finishes, rule esa_reachable.begins, rule esa_reachable.init)
  from slots_have_one_owner [OF this] show ?thesis
    by (simp add: demo_esa_env_def demo_esa_cfg_layers sorted_lists_sets Let_def)
qed

end
