(* ===== verification/Sparse_Keys.thy ===== *)
theory Sparse_Keys
  imports Esa_Sparse Dump_Tasks
begin

text \<open>
  Where sparse attention meets the connector: the keys by which \<open>ESA\<close> (\<open>esa.py\<close>) fetches blocks from the
  store and the keys under which the direct connector (\<open>ucm_connector.py\<close>) dumps them are computed by
  two pieces of code, from two ideas of the rank. This theory compares them.
\<close>

text \<open>
  The worker that dumps for a rank: with latent attention rank 0 dumps for all. \<open>ESA\<close> scopes its keys
  by the rank of the process, the connector by that rank modulo the size of the tensor-parallel
  group.
\<close>

definition dumps_for_rank :: "hash_funs \<Rightarrow> hasher_config \<Rightarrow> nat \<Rightarrow> bool \<Rightarrow> 'w worker_cfg \<Rightarrow> bool" where
  "dumps_for_rank hf c rank is_mla w \<longleftrightarrow>
     wc_tp_rank w = (if is_mla then 0 else rank) \<and> \<not> wc_skip_null_vllm_blocks w
     \<and> wc_hasher w = request_hasher hf (hasher_meta c (wc_tp_rank w mod wc_tp_size w))"

text \<open>
  C28: On a rank of the first pipeline stage, the keys by which the sparse attention fetches the
  blocks of a prompt are the keys under which the rank's connector puts them into a dump, of the
  blocks between the two windows; with latent attention they are those of rank 0, which dumps for
  all ranks. The hypothesis \<open>rank < wc_tp_size w\<close> is that of the first stage: there the connector's rank
  within the tensor-parallel group is the rank of the process, which \<open>ESA\<close> uses.
\<close>

theorem sparse_keys_are_the_dumped_ids:
  assumes "0 < ec_block_size cf" and "dumps_for_rank hf c rank (ec_is_mla cf) w" and "rank < wc_tp_size w"
    and "h = request_hasher hf (hasher_meta c 0)"
    and "dm_dump dm = (generate_hash h (ec_block_size cf) toks (h (HText ''UCM_HASH_SEED'')), vllm_block_ids)"
  shows "esa_block_hashes hf c rank cf toks =
    Inr (drop (ec_init_window_sz cf) (take (ceil_div (length toks) (ec_block_size cf) - ec_local_window_sz cf)
      (da_ucm_block_ids (collect_dumps w [(rid, dm)] empty_dump_acc))))"
proof -
  let ?ids = "generate_hash h (ec_block_size cf) toks (h (HText ''UCM_HASH_SEED''))"
  have w: "wc_tp_rank w = (if ec_is_mla cf then 0 else rank)" "\<not> wc_skip_null_vllm_blocks w"
    "wc_hasher w = request_hasher hf (hasher_meta c (wc_tp_rank w mod wc_tp_size w))"
    using assms(2) by (simp_all add: dumps_for_rank_def)
  have "da_ucm_block_ids (collect_dumps w [(rid, dm)] empty_dump_acc) = rank_scoped_ids (wc_hasher w) (wc_tp_rank w = 0) ?ids"
    using w(2) by (simp add: assms(5) empty_dump_acc_def effective_blocks_def rank_scoped_ids_def)
  also have "\<dots> = rank_scoped_ids (request_hasher hf (hasher_meta c rank)) (rank = 0 \<or> ec_is_mla cf) ?ids"
    using w(1,3) assms(3) by (simp add: rank_scoped_ids_def)
  finally show ?thesis by (simp add: esa_block_hashes_window [OF assms(1)] assms(4) Let_def)
qed

text \<open>
  In a later stage the two differ: rank 2 of groups of 2 dumps under keys that are scoped to rank 0,
  and asks for keys scoped to rank 2.
\<close>

lemma later_stage_keys:
  assumes "0 < ec_block_size cf" and "dumps_for_rank hf c 2 False w" and "wc_tp_size w = 2" and "\<not> ec_is_mla cf"
    and "h = request_hasher hf (hasher_meta c 0)"
    and "dm_dump dm = (generate_hash h (ec_block_size cf) toks (h (HText ''UCM_HASH_SEED'')), vllm_block_ids)"
  shows "da_ucm_block_ids (collect_dumps w [(rid, dm)] empty_dump_acc) = map (\<lambda>b. h (HBytes b)) (fst (dm_dump dm))"
    and "esa_block_hashes hf c 2 cf toks = Inr (map (\<lambda>b. request_hasher hf (hasher_meta c 2) (HBytes b))
      (drop (ec_init_window_sz cf) (take (ceil_div (length toks) (ec_block_size cf) - ec_local_window_sz cf) (fst (dm_dump dm)))))"
  using assms(2-)
  by (auto simp: dumps_for_rank_def empty_dump_acc_def effective_blocks_def rank_scoped_ids_def
      esa_block_hashes_window [OF assms(1)] Let_def drop_map take_map)

definition demo_dumper :: "nat worker_cfg" where
  "demo_dumper = counting_cfg\<lparr>wc_tp_rank := 1, wc_tp_size := 2, wc_hasher := request_hasher demo_funs (hasher_meta demo_config 1)\<rparr>"

definition demo_dump :: dispatch_meta where
  "demo_dump =
     (let h = request_hasher demo_funs (hasher_meta demo_config 0)
      in \<lparr>dm_load = ([], []), dm_dump = (generate_hash h 2 [1, 2, 3, 4, 5, 6, 7, 8] (h (HText ''UCM_HASH_SEED'')), [4, 5, 6, 7])\<rparr>)"

theorem sparse_keys_are_the_dumped_ids_witness:
  "esa_block_hashes demo_funs demo_config 1 (demo_esa_cfg\<lparr>ec_is_mla := False\<rparr>) [1, 2, 3, 4, 5, 6, 7, 8]
     = Inr (drop 1 (take 3 (da_ucm_block_ids (collect_dumps demo_dumper [(''r'', demo_dump)] empty_dump_acc))))"
proof -
  let ?cf = "demo_esa_cfg\<lparr>ec_is_mla := False\<rparr>"
  have "dumps_for_rank demo_funs demo_config 1 (ec_is_mla ?cf) demo_dumper"
    by (simp add: dumps_for_rank_def demo_dumper_def counting_cfg_def demo_esa_cfg_def)
  moreover have "dm_dump demo_dump = (generate_hash (request_hasher demo_funs (hasher_meta demo_config 0)) (ec_block_size ?cf) [1, 2, 3, 4, 5, 6, 7, 8]
      (request_hasher demo_funs (hasher_meta demo_config 0) (HText ''UCM_HASH_SEED'')), [4, 5, 6, 7])"
    by (simp add: demo_dump_def demo_esa_cfg_def Let_def)
  ultimately have "esa_block_hashes demo_funs demo_config 1 ?cf [1, 2, 3, 4, 5, 6, 7, 8]
      = Inr (drop (ec_init_window_sz ?cf) (take (ceil_div (length [1, 2, 3, 4, 5, 6, 7, 8 :: nat]) (ec_block_size ?cf) - ec_local_window_sz ?cf)
          (da_ucm_block_ids (collect_dumps demo_dumper [(''r'', demo_dump)] empty_dump_acc))))"
    by (intro sparse_keys_are_the_dumped_ids [OF _ _ _ refl]) (simp_all add: demo_dumper_def demo_esa_cfg_def)
  then show ?thesis by (simp add: ceil_div_def demo_esa_cfg_def numeral_3_eq_3 del: collect_dumps.simps)
qed

end
