(* ===== verification/Core_Binding.thy ===== *)
theory Core_Binding
  imports Py_Text "HOL-Library.Product_Lexorder"
begin

text \<open>
  Binding of the retrieval threads to cores (\<open>src/ucm/sparse/kvstar/utils.py\<close>): the physical cores
  per NUMA node as \<open>lscpu -e\<close> lists them, and the share of a rank. \<open>scaled\<close> is \<open>int(n * ratio)\<close>.
\<close>

section \<open>Offsets\<close>

definition get_offset :: "nat \<times> nat \<times> nat \<Rightarrow> nat \<Rightarrow> nat \<Rightarrow> nat \<Rightarrow> nat \<Rightarrow> bool \<Rightarrow> bool \<Rightarrow> nat" where
  "get_offset block_shape rank tp_size precision layer_id is_v is_mla =
     (let (block_size, num_key_heads_per_tp, head_size) = block_shape;
          k_min_data_block_size = block_size * num_key_heads_per_tp * head_size * precision;
          v_min_data_block_size = (if \<not> is_mla then k_min_data_block_size else 0);
          layer_size = (k_min_data_block_size + v_min_data_block_size) * tp_size;
          k_offset = (if is_mla then layer_size * layer_id else layer_size * layer_id + layer_size div tp_size * rank)
      in if is_v then k_offset + k_min_data_block_size else k_offset)"

definition compute_layer_offset :: "nat \<Rightarrow> nat \<Rightarrow> bool \<Rightarrow> bool \<Rightarrow> nat" where
  "compute_layer_offset block_data_size layer_id is_v is_mla =
     (let k_offset = (if is_mla then block_data_size else block_data_size * 2) * layer_id
      in if is_mla then k_offset else if is_v then k_offset + block_data_size else k_offset)"

section \<open>The topology\<close>

type_synonym core_row = "int \<times> int \<times> int"

text \<open>A line gives the logical CPU, its NUMA node and its core; short lines are passed over.\<close>

definition topology_row :: "string \<Rightarrow> core_row option result" where
  "topology_row line =
     (let parts = split_words line
      in if length parts < 4 then Inr None
         else rbind (py_int (parts ! 0)) (\<lambda>cpu. rbind (py_int (parts ! 1)) (\<lambda>numa. rbind (py_int (parts ! 3)) (\<lambda>core. Inr (Some (cpu, numa, core))))))"

definition topology_rows :: "string \<Rightarrow> core_row list result" where
  "topology_rows lscpu_output =
     rbind (rmap topology_row (drop 1 (split_on (CHR 0x0A) (strip lscpu_output)))) (\<lambda>rows. Inr (List.map_filter (\<lambda>x. x) rows))"

definition add_row :: "core_row \<Rightarrow> (int, (int, int) dict) dict \<Rightarrow> (int, (int, int) dict) dict" where
  "add_row row topology =
     (let (cpu, numa, core) = row; cores = dict_get_or topology numa []
      in dict_set numa (if core \<in> dict_keys cores then cores else dict_set core cpu cores) topology)"

definition get_physical_core_topology :: "string \<Rightarrow> (int, int list) dict result" where
  "get_physical_core_topology lscpu_output =
     rbind (topology_rows lscpu_output) (\<lambda>rows. Inr (map (\<lambda>(numa, cores). (numa, sort (map snd cores))) (fold add_row rows [])))"

section \<open>The share of a rank\<close>

definition take_scaled :: "(nat \<Rightarrow> nat) \<Rightarrow> 'a list \<Rightarrow> 'a list" where
  "take_scaled scaled xs = py_slice xs 0 (scaled (length xs))"

definition numa_share :: "(nat \<Rightarrow> nat) \<Rightarrow> (int, int list) dict \<Rightarrow> int list \<Rightarrow> (int \<times> int) list" where
  "numa_share scaled physical_core_map alloc_numa_ids =
     concat (map (\<lambda>numa. map (\<lambda>core. (core, numa)) (take_scaled scaled (dict_get_or physical_core_map numa []))) alloc_numa_ids)"

definition all_cores :: "(int, int list) dict \<Rightarrow> (int \<times> int) list" where
  "all_cores physical_core_map =
     concat (map (\<lambda>numa. map (\<lambda>core. (core, numa)) (dict_get_or physical_core_map numa [])) (sort (map fst physical_core_map)))"

definition get_bind_cpus_for_rank ::
  "(int, int list) dict \<Rightarrow> nat \<Rightarrow> nat \<Rightarrow> (nat \<Rightarrow> nat) \<Rightarrow> ((int \<times> int) list \<times> int list) result" where
  "get_bind_cpus_for_rank physical_core_map world_size rank_id scaled =
     (if physical_core_map = [] then Inr ([], [])
      else if world_size = 0 then Inl ZeroDivisionError
      else
        let sorted_numa_ids = sort (map fst physical_core_map); numas_per_rank = length physical_core_map div world_size
        in if 0 < numas_per_rank
           then
             let alloc_numa_ids = py_slice sorted_numa_ids (rank_id * numas_per_rank) (rank_id * numas_per_rank + numas_per_rank)
             in Inr (sort (numa_share scaled physical_core_map alloc_numa_ids), alloc_numa_ids)
           else
             let cores = all_cores physical_core_map; cores_per_rank = length cores div world_size
             in if cores_per_rank = 0 then Inr ([], sorted_numa_ids)
                else
                  let rank_core_share = py_slice cores (rank_id * cores_per_rank) (rank_id * cores_per_rank + cores_per_rank)
                  in Inr (sort (take_scaled scaled rank_core_share), sorted_numa_ids))"

text \<open>The cores per NUMA node, as \<open>ESA\<close> hands them to its retrieval backends.\<close>

definition bind_info_dict :: "(int \<times> int) list \<Rightarrow> (int, int list) dict" where
  "bind_info_dict bind_info_list = fold (\<lambda>(core, numa) d. dict_set numa (dict_get_or d numa [] @ [core]) d) bind_info_list []"

section \<open>No core is bound twice\<close>

text \<open>What the topology holds comes from the rows, one CPU for each core.\<close>

definition from_rows :: "core_row set \<Rightarrow> (int, (int, int) dict) dict \<Rightarrow> bool" where
  "from_rows rows t \<longleftrightarrow> distinct (map fst t) \<and> (\<forall>(numa, cores) \<in> set t. distinct (map fst cores) \<and> (\<forall>(core, cpu) \<in> set cores. (cpu, numa, core) \<in> rows))"

lemma add_row_from_rows:
  assumes "from_rows rows t" and "row \<in> rows"
  shows "from_rows rows (add_row row t)"
proof -
  obtain cpu numa core where row: "row = (cpu, numa, core)" by (cases row)
  define cores where "cores = dict_get_or t numa []"
  have "distinct (map fst cores) \<and> (\<forall>(c, p) \<in> set cores. (p, numa, c) \<in> rows)"
    using assms(1) by (auto simp: cores_def dict_get_or_def from_rows_def dest!: map_of_SomeD split: option.split)
  moreover define new where "new = (if core \<in> dict_keys cores then cores else dict_set core cpu cores)"
  ultimately have "distinct (map fst new) \<and> (\<forall>(c, p) \<in> set new. (p, numa, c) \<in> rows)"
    using assms(2) row by (auto simp: distinct_update dest!: dict_in_set_update)
  moreover have "add_row row t = dict_set numa new t" by (simp add: add_row_def row cores_def new_def Let_def)
  moreover have "(n, cs) \<in> set t \<or> (n, cs) = (numa, new)" if "(n, cs) \<in> set (dict_set numa new t)" for n cs
    using dict_in_set_update [OF that] by auto
  ultimately show ?thesis using assms(1) unfolding from_rows_def by (fastforce simp: distinct_update)
qed

lemma topology_from_rows: "from_rows (set rows) (fold add_row rows [])"
proof -
  have "set xs \<subseteq> rs \<Longrightarrow> from_rows rs t \<Longrightarrow> from_rows rs (fold add_row xs t)" for xs rs t
    by (induction xs arbitrary: t) (simp_all add: add_row_from_rows)
  moreover have "from_rows (set rows) []" by (simp add: from_rows_def)
  ultimately show ?thesis by blast
qed

text \<open>Every CPU has one place in the map.\<close>

definition one_place :: "(int, int list) dict \<Rightarrow> bool" where
  "one_place m \<longleftrightarrow> distinct (map fst m) \<and> (\<forall>(n, cs) \<in> set m. distinct cs)
     \<and> (\<forall>(n, cs) \<in> set m. \<forall>(n', cs') \<in> set m. n \<noteq> n' \<longrightarrow> set cs \<inter> set cs' = {})"

lemma topology_one_place:
  assumes out: "topology_rows lscpu_output = Inr rows" "distinct (map fst rows)" and m: "get_physical_core_topology lscpu_output = Inr m"
  shows "one_place m"
proof -
  let ?t = "fold add_row rows []"
  have t: "from_rows (set rows) ?t" by (rule topology_from_rows)
  have m_t: "m = map (\<lambda>(numa, cores). (numa, sort (map snd cores))) ?t" using m out(1) by (simp add: get_physical_core_topology_def)
  have inj: "numa = numa' \<and> core = core'" if "(cpu, numa, core) \<in> set rows" "(cpu, numa', core') \<in> set rows" for cpu numa core numa' core'
    using out(2) that by (metis eq_key_imp_eq_value prod.inject)
  have vals: "distinct (map snd cores)" if c: "(numa, cores) \<in> set ?t" for numa cores
  proof -
    have all: "\<forall>(core, cpu) \<in> set cores. (cpu, numa, core) \<in> set rows" and d: "distinct (map fst cores)"
      using t c by (auto simp: from_rows_def)
    have rows: "(cpu, numa, core) \<in> set rows" if "(core, cpu) \<in> set cores" for core cpu using that all by blast
    have "inj_on snd (set cores)"
    proof (rule inj_onI)
      fix x y assume "x \<in> set cores" "y \<in> set cores" "snd x = snd y"
      then show "x = y" using inj [OF rows rows, of "fst x" "snd x" "fst y"] by (cases x; cases y) auto
    qed
    moreover have "distinct cores" using d by (rule distinct_map [THEN iffD1, THEN conjunct1])
    ultimately show ?thesis by (simp add: distinct_map)
  qed
  have apart: "snd ` set cores \<inter> snd ` set cores' = {}" if "(numa, cores) \<in> set ?t" "(numa', cores') \<in> set ?t" "numa \<noteq> numa'" for numa cores numa' cores'
  proof (intro equals0I)
    fix cpu assume "cpu \<in> snd ` set cores \<inter> snd ` set cores'"
    then obtain core core' where "(core, cpu) \<in> set cores" "(core', cpu) \<in> set cores'" by auto
    moreover have "\<forall>(core, cpu) \<in> set cores. (cpu, numa, core) \<in> set rows" "\<forall>(core, cpu) \<in> set cores'. (cpu, numa', core) \<in> set rows"
      using t that(1,2) by (auto simp: from_rows_def)
    ultimately show False using inj that(3) by blast
  qed
  have "map fst m = map fst ?t" by (simp add: m_t comp_def split_beta)
  then have "distinct (map fst m)" using t by (simp add: from_rows_def)
  moreover have in_t: "\<exists>cores. (n, cores) \<in> set ?t \<and> cs = sort (map snd cores)" if "(n, cs) \<in> set m" for n cs
    using that by (auto simp: m_t)
  moreover have "distinct cs" if "(n, cs) \<in> set m" for n cs using in_t [OF that] vals by auto
  moreover have "set cs \<inter> set cs' = {}" if "(n, cs) \<in> set m" "(n', cs') \<in> set m" "n \<noteq> n'" for n cs n' cs'
  proof -
    note mem = that
    obtain a b where "(n, a) \<in> set ?t" "cs = sort (map snd a)" "(n', b) \<in> set ?t" "cs' = sort (map snd b)" using in_t [OF mem(1)] in_t [OF mem(2)] by (elim exE conjE) (rule that)
    then show ?thesis using apart [of n a n' b] mem(3) by simp
  qed
  ultimately show ?thesis unfolding one_place_def by blast
qed

lemma one_place_get: "one_place m \<Longrightarrow> numa \<in> fst ` set m \<Longrightarrow> (numa, dict_get_or m numa []) \<in> set m"
  by (auto simp: one_place_def dict_get_or_def)

lemma distinct_cores:
  assumes m: "one_place m" and "distinct ns" and "set ns \<subseteq> fst ` set m"
  shows "distinct (map fst (concat (map (\<lambda>n. map (\<lambda>c. (c, n)) (dict_get_or m n [])) ns)))"
  using assms(2,3)
proof (induction ns)
  case Nil
  then show ?case by simp
next
  case (Cons n ns)
  have n: "(n, dict_get_or m n []) \<in> set m" using one_place_get [OF m] Cons.prems(2) by simp
  have "set (dict_get_or m n []) \<inter> set (dict_get_or m n' []) = {}" if "n' \<in> set ns" for n'
  proof -
    have "(n', dict_get_or m n' []) \<in> set m" "n \<noteq> n'" using one_place_get [OF m] Cons.prems that by auto
    then show ?thesis using m n unfolding one_place_def by fast
  qed
  moreover have "distinct (dict_get_or m n [])" using m n unfolding one_place_def by fast
  moreover have "map fst (concat (map (\<lambda>n. map (\<lambda>c. (c, n)) (dict_get_or m n [])) (n # ns)))
      = dict_get_or m n [] @ map fst (concat (map (\<lambda>n. map (\<lambda>c. (c, n)) (dict_get_or m n [])) ns))" by (simp add: comp_def)
  ultimately show ?case using Cons by (fastforce simp: image_iff)
qed

lemma slices_apart:
  assumes "distinct (map f xs)" and "r < (r' :: nat)"
  shows "f ` set (py_slice xs (r * k) (r * k + k)) \<inter> f ` set (py_slice xs (r' * k) (r' * k + k)) = {}"
proof -
  have "r * k + k \<le> r' * k" using assms(2) mult_le_mono1 [of "Suc r" r' k] by simp
  then have "set (py_slice (map f xs) (r * k) (r * k + k)) \<inter> set (py_slice (map f xs) (r' * k) (r' * k + k)) = {}"
    using set_take_disj_set_drop_if_distinct [OF assms(1), of "r * k + k" "r' * k"]
      set_drop_subset [of "r * k" "take (r * k + k) (map f xs)"] set_take_subset [of k "drop (r' * k) (map f xs)"]
    unfolding py_slice_def take_drop add_diff_cancel_left' by (simp only: add.commute) blast
  then show ?thesis by (simp add: py_slice_map)
qed

text \<open>The cores of a rank; those it may choose from.\<close>

definition rank_part :: "(int, int list) dict \<Rightarrow> nat \<Rightarrow> nat \<Rightarrow> (int \<times> int) list" where
  "rank_part m world r =
     (let k = length m div world; cores = all_cores m; j = length cores div world
      in if 0 < k then concat (map (\<lambda>n. map (\<lambda>c. (c, n)) (dict_get_or m n [])) (py_slice (sort (map fst m)) (r * k) (r * k + k)))
         else py_slice cores (r * j) (r * j + j))"

lemma bound_in_part:
  assumes "get_bind_cpus_for_rank m world r scaled = Inr (cores, numas)"
  shows "set cores \<subseteq> set (rank_part m world r)"
proof -
  have t: "set (take_scaled scaled xs) \<subseteq> set xs" for xs :: "'c list" by (simp add: take_scaled_def set_py_slice)
  have n: "set (numa_share scaled m ns) \<subseteq> set (concat (map (\<lambda>n. map (\<lambda>c. (c, n)) (dict_get_or m n [])) ns))" for ns
    using t by (fastforce simp: numa_share_def)
  let ?k = "length m div world" and ?all = "all_cores m"
  show ?thesis
  proof (cases "0 < ?k")
    case True
    then have "m \<noteq> []" "world \<noteq> 0" by (auto intro!: gr0I)
    then have "set cores = set (numa_share scaled m (py_slice (sort (map fst m)) (r * ?k) (r * ?k + ?k)))"
      using assms True by (auto simp: get_bind_cpus_for_rank_def Let_def)
    then show ?thesis using n [of "py_slice (sort (map fst m)) (r * ?k) (r * ?k + ?k)"] True by (simp add: rank_part_def Let_def)
  next
    case False
    let ?j = "length ?all div world"
    have "cores = [] \<or> cores = sort (take_scaled scaled (py_slice ?all (r * ?j) (r * ?j + ?j)))"
      using assms False by (auto simp: get_bind_cpus_for_rank_def Let_def split: if_splits)
    then have "set cores \<subseteq> set (py_slice ?all (r * ?j) (r * ?j + ?j))" using t [of "py_slice ?all (r * ?j) (r * ?j + ?j)"] by auto
    then show ?thesis using False by (simp add: rank_part_def Let_def)
  qed
qed

lemma parts_apart:
  assumes m: "one_place m" and "r < r'"
  shows "fst ` set (rank_part m world r) \<inter> fst ` set (rank_part m world r') = {}"
proof -
  let ?ns = "sort (map fst m)" and ?k = "length m div world" and ?cores = "\<lambda>ns. concat (map (\<lambda>n. map (\<lambda>c. (c, n)) (dict_get_or m n [])) ns)"
  have ns: "distinct ?ns" "set ?ns = fst ` set m" using m by (simp_all add: one_place_def)
  have all: "distinct (map fst (all_cores m))" unfolding all_cores_def using distinct_cores [OF m ns(1)] ns(2) by simp
  show ?thesis
  proof (cases "0 < ?k")
    case True
    let ?a = "py_slice ?ns (r * ?k) (r * ?k + ?k)" and ?b = "py_slice ?ns (r' * ?k) (r' * ?k + ?k)"
    have "set ?a \<inter> set ?b = {}" using slices_apart [of "\<lambda>x. x" ?ns r r' ?k] ns(1) assms(2) by simp
    moreover have "distinct ?a" "distinct ?b" using ns(1) by (simp_all add: py_slice_def)
    moreover have "set ?a \<subseteq> fst ` set m" "set ?b \<subseteq> fst ` set m" using ns(2) set_py_slice by metis+
    ultimately have "distinct (map fst (?cores (?a @ ?b)))" using distinct_cores [OF m, of "?a @ ?b"] by simp
    moreover have "map fst (?cores (?a @ ?b)) = map fst (?cores ?a) @ map fst (?cores ?b)" by simp
    ultimately have "set (map fst (?cores ?a)) \<inter> set (map fst (?cores ?b)) = {}" by (simp only: distinct_append)
    then show ?thesis using True by (simp only: rank_part_def Let_def if_True set_map)
  next
    case False
    then show ?thesis using slices_apart [OF all assms(2)] by (simp add: rank_part_def Let_def)
  qed
qed

text \<open>
  When \<open>lscpu\<close> lists every CPU once, no CPU is bound by the retrieval threads of two ranks, and
  within a rank each is bound once.
\<close>

lemma ranks_bind_distinct_cores:
  assumes out: "topology_rows lscpu_output = Inr rows" "distinct (map fst rows)" and m: "get_physical_core_topology lscpu_output = Inr m"
    and ranks: "r \<noteq> r'" "get_bind_cpus_for_rank m world r scaled = Inr (cores, numas)"
      "get_bind_cpus_for_rank m world r' scaled = Inr (cores', numas')"
  shows "fst ` set cores \<inter> fst ` set cores' = {}"
proof -
  have p: "one_place m" by (rule topology_one_place [OF out m])
  have "fst ` set (rank_part m world r) \<inter> fst ` set (rank_part m world r') = {}"
    using parts_apart [OF p, of r r' world] parts_apart [OF p, of r' r world] ranks(1) by (cases r r' rule: linorder_cases) auto
  then show ?thesis using bound_in_part [OF ranks(2)] bound_in_part [OF ranks(3)] by blast
qed


section \<open>Example\<close>

text \<open>Four CPUs, two per core, on two nodes; for two ranks and for three.\<close>

definition demo_lscpu :: string where
  "demo_lscpu = ''CPU NODE SOCKET CORE'' @ CHR 0x0A # ''0 0 0 0'' @ CHR 0x0A # ''1 0 0 1'' @ CHR 0x0A # ''2 1 1 2'' @ CHR 0x0A # ''3 1 1 2''"

lemma demo_lscpu_lines:
  "drop 1 (split_on (CHR 0x0A) (strip demo_lscpu)) = [''0 0 0 0'', ''1 0 0 1'', ''2 1 1 2'', ''3 1 1 2'']"
proof -
  have "strip demo_lscpu = demo_lscpu" by code_simp
  moreover have "split_on (CHR 0x0A) demo_lscpu = [''CPU NODE SOCKET CORE'', ''0 0 0 0'', ''1 0 0 1'', ''2 1 1 2'', ''3 1 1 2'']"
    unfolding demo_lscpu_def by (subst split_on_append, simp)+ (subst split_on_free, simp_all)
  ultimately show ?thesis by simp
qed

lemma demo_rows:
  "topology_row ''0 0 0 0'' = Inr (Some (0, 0, 0))" "topology_row ''1 0 0 1'' = Inr (Some (1, 0, 1))"
  "topology_row ''2 1 1 2'' = Inr (Some (2, 1, 2))" "topology_row ''3 1 1 2'' = Inr (Some (3, 1, 2))"
  by code_simp+

lemma demo_topology:
  "topology_rows demo_lscpu = Inr [(0, 0, 0), (1, 0, 1), (2, 1, 2), (3, 1, 2)]"
  "get_physical_core_topology demo_lscpu = Inr [(0, [0, 1]), (1, [2])]"
proof -
  show rows: "topology_rows demo_lscpu = Inr [(0, 0, 0), (1, 0, 1), (2, 1, 2), (3, 1, 2)]"
    unfolding topology_rows_def demo_lscpu_lines by (simp add: demo_rows map_filter_simps)
  show "get_physical_core_topology demo_lscpu = Inr [(0, [0, 1]), (1, [2])]"
    unfolding get_physical_core_topology_def rows by (simp add: add_row_def dict_get_or_def)
qed

end
