(* ===== verification/Kvstar_Layer.thy ===== *)
theory Kvstar_Layer
  imports Esa_Layer Core_Binding
begin

text \<open>
  Sparse attention of \<open>src/ucm/sparse/kvstar/multistep.py\<close>, one request in one layer (\<open>ReqMeta\<close>,
  \<open>ReqPerLayerState\<close>): queries are collected over a group of steps, the blocks that fit them best
  are searched in the background and loaded into a swap area two groups later. Tensors and the
  search itself are parameters, as in \<open>Esa_Layer\<close>; a batch's query is a list with one entry per token.
\<close>

section \<open>The metadata of a request\<close>

datatype req_stage = PREFILL | DECODE

record ks_meta =
  kq_request_id :: string
  kq_index_in_batch :: nat
  kq_num_prompt_tokens :: nat
  kq_num_output_tokens :: nat
  kq_num_scheduled_tokens :: nat
  kq_num_computed_tokens :: nat
  kq_num_sparsed_tokens :: int
  kq_vllm_block_ids :: "nat list"
  kq_token_blk_size :: nat
  kq_prompt_token_ids :: "nat list"
  kq_query_start_loc :: nat
  kq_query_len :: nat
  kq_retrieval_stride :: nat
  kq_block_hashes :: "string list"

definition kq_step :: "ks_meta \<Rightarrow> nat" where
  "kq_step m = kq_num_output_tokens m"

definition kq_stage :: "ks_meta \<Rightarrow> req_stage" where
  "kq_stage m = (if 0 < kq_num_output_tokens m then DECODE else PREFILL)"

definition kq_is_last_chunk :: "ks_meta \<Rightarrow> bool" where
  "kq_is_last_chunk m \<longleftrightarrow> kq_num_prompt_tokens m \<le> kq_num_computed_tokens m + kq_num_scheduled_tokens m"

definition kq_prefill_fully_blk_num :: "ks_meta \<Rightarrow> nat result" where
  "kq_prefill_fully_blk_num m = (if kq_token_blk_size m = 0 then Inl ZeroDivisionError else Inr (kq_num_prompt_tokens m div kq_token_blk_size m))"

text \<open>Where the queries of a chunk go in the group of the last \<open>retrieval_stride\<close> prompt tokens.\<close>

definition query_offload_info :: "ks_meta \<Rightarrow> int list option result" where
  "query_offload_info m =
     (let prompt = int (kq_num_prompt_tokens m); stride = int (kq_retrieval_stride m)
      in if kq_stage m = PREFILL
         then
           let end_pos = int (kq_num_computed_tokens m + kq_num_scheduled_tokens m)
           in if end_pos < prompt - stride then Inr None
              else
                let valid_end = stride - (prompt - end_pos);
                    valid_num = min valid_end (int (kq_num_scheduled_tokens m));
                    valid_start = valid_end - valid_num
                in Inr (Some [valid_start..valid_end - 1])
         else if kq_retrieval_stride m = 0 then Inl ZeroDivisionError
         else Inr (Some [int (kq_num_output_tokens m mod kq_retrieval_stride m)]))"

section \<open>The state of a request in a layer\<close>

text \<open>A group of queries is named \<open>prefill\<close> or \<open>decode\<close> with the number of its first step.\<close>

datatype retrieve_record = Prefill | Decode int

record ks_cfg =
  kc_init_window_sz :: nat
  kc_local_window_sz :: nat
  kc_retrieval_stride :: nat
  kc_scaled_up :: "nat \<Rightarrow> nat"
  kc_num_layers :: nat

text \<open>
  \<open>kc_scaled_up\<close> is \<open>math.ceil(n * sparse_ratio)\<close>. In the environment \<open>False\<close> selects the keys and
  \<open>True\<close> the values of a block; \<open>kr_result\<close> is \<open>None\<close> unless the status is \<open>SUCCESS\<close>.
\<close>

record ('w, 'd, 'q, 'r) ks_env =
  kk_read :: "'w \<Rightarrow> bool \<Rightarrow> nat \<Rightarrow> 'd"
  kk_write :: "'w \<Rightarrow> bool \<Rightarrow> nat \<Rightarrow> 'd \<Rightarrow> 'w"
  kk_block_size :: nat
  kk_block_data_size :: nat
  kr_represent :: "'w \<Rightarrow> nat \<Rightarrow> 'r"
  kr_async :: "'w \<Rightarrow> 'q list \<Rightarrow> 'r list \<Rightarrow> nat \<Rightarrow> int \<Rightarrow> nat result \<times> 'w"
  kr_wait :: "'w \<Rightarrow> nat \<Rightarrow> unit result \<times> 'w"
  kr_result :: "'w \<Rightarrow> nat \<Rightarrow> nat list option result \<times> 'w"
  ks_load :: "'w \<Rightarrow> string list \<Rightarrow> nat list \<Rightarrow> (bool \<times> nat) list \<Rightarrow> nat result \<times> 'w"
  ks_wait :: "'w \<Rightarrow> nat \<Rightarrow> int result \<times> 'w"
  ks_task_key :: "string list \<Rightarrow> string \<Rightarrow> string \<Rightarrow> int"

record ('w, 'd, 'q, 'r) ks_layer =
  kl_layer_id :: nat
  kl_blk_repre :: "'r list option"
  kl_block_hashes :: "string list"
  kl_num_tokens :: nat
  kl_init_window :: "('d list \<times> 'd list) option"
  kl_local_window :: "('d list \<times> 'd list) option"
  kl_block_size :: "nat option"
  kl_tasks :: "(int, nat) dict"
  kl_standby :: "(retrieve_record, 'q option list) dict"
  kl_do_retrieve :: "(retrieve_record, 'q list) dict"
  kl_results :: "(retrieve_record, string list) dict"
  kl_waiter :: "(retrieve_record, nat) dict"
  kl_num_blocks_dumped :: nat
  kl_pre_swap :: "(nat, string) dict"
  kl_world :: 'w

definition new_ks_layer :: "nat \<Rightarrow> 'w \<Rightarrow> ('w, 'd, 'q, 'r) ks_layer" where
  "new_ks_layer layer_id w =
     \<lparr>kl_layer_id = layer_id, kl_blk_repre = Some [], kl_block_hashes = [], kl_num_tokens = 0, kl_init_window = None, kl_local_window = None,
      kl_block_size = None, kl_tasks = [], kl_standby = [], kl_do_retrieve = [], kl_results = [], kl_waiter = [], kl_num_blocks_dumped = 0,
      kl_pre_swap = [], kl_world = w\<rparr>"

definition ks_world :: "('w \<Rightarrow> 'a \<times> 'w) \<Rightarrow> ('w, 'd, 'q, 'r) ks_layer \<Rightarrow> 'a \<times> ('w, 'd, 'q, 'r) ks_layer" where
  "ks_world f s = (case f (kl_world s) of (r, w) \<Rightarrow> (r, s\<lparr>kl_world := w\<rparr>))"

section \<open>Collecting queries\<close>

text \<open>\<open>xs[i] = x\<close>: a negative index counts from the end.\<close>

definition py_put :: "'a list \<Rightarrow> int \<Rightarrow> 'a \<Rightarrow> 'a list result" where
  "py_put xs i x =
     (let j = (if i < 0 then int (length xs) + i else i) in if j < 0 \<or> int (length xs) \<le> j then Inl IndexError else Inr (xs[nat j := x]))"

definition save_to_standby ::
  "ks_cfg \<Rightarrow> retrieve_record \<Rightarrow> int \<Rightarrow> nat \<Rightarrow> 'q list \<Rightarrow> ('w, 'd, 'q, 'r) ks_layer \<Rightarrow> unit result \<times> ('w, 'd, 'q, 'r) ks_layer" where
  "save_to_standby cf group_record in_query_group_idx query_relative_idx tokens_to_offload s0 =
     (let s = (if group_record \<in> dict_keys (kl_standby s0) then s0
               else s0\<lparr>kl_standby := dict_set group_record (replicate (kc_retrieval_stride cf) None) (kl_standby s0)\<rparr>)
      in case py_index tokens_to_offload query_relative_idx of
           Inl e \<Rightarrow> (Inl e, s)
         | Inr q \<Rightarrow>
             (case rbind (py_key (kl_standby s) group_record) (\<lambda>grp. py_put grp in_query_group_idx (Some q)) of
                Inl e \<Rightarrow> (Inl e, s)
              | Inr grp \<Rightarrow> (Inr (), s\<lparr>kl_standby := dict_set group_record grp (kl_standby s)\<rparr>)))"

fun save_each :: "ks_cfg \<Rightarrow> nat \<Rightarrow> int list \<Rightarrow> 'q list \<Rightarrow> ('w, 'd, 'q, 'r) ks_layer \<Rightarrow> unit result \<times> ('w, 'd, 'q, 'r) ks_layer" where
  "save_each cf rel [] tokens s = (Inr (), s)"
| "save_each cf rel (i # rest) tokens s = then_do (save_to_standby cf Prefill i rel tokens s) (\<lambda>_ s'. save_each cf (Suc rel) rest tokens s')"

definition offload_prefill_query :: "ks_cfg \<Rightarrow> 'q list \<Rightarrow> ks_meta \<Rightarrow> ('w, 'd, 'q, 'r) ks_layer \<Rightarrow> unit result \<times> ('w, 'd, 'q, 'r) ks_layer" where
  "offload_prefill_query cf query m s =
     (case query_offload_info m of
        Inl e \<Rightarrow> (Inl e, s)
      | Inr None \<Rightarrow> (Inr (), s)
      | Inr (Some []) \<Rightarrow> (Inr (), s)
      | Inr (Some info) \<Rightarrow>
          let n = length info; stop = kq_query_start_loc m + kq_query_len m
          in if kq_query_len m < n then (Inl AssertionError, s)
             else save_each cf 0 info (py_slice query (stop - n) stop) s)"

definition get_decode_step_record :: "ks_cfg \<Rightarrow> ks_meta \<Rightarrow> (retrieve_record \<times> int) result" where
  "get_decode_step_record cf m =
     (let i = int (kq_step m) - 1; stride = int (kc_retrieval_stride cf)
      in if stride = 0 then Inl ZeroDivisionError else Inr (Decode ((i div stride) * stride + 1), i mod stride))"

section \<open>Searching in the background\<close>

definition get_retrieve_record :: "ks_cfg \<Rightarrow> nat \<Rightarrow> retrieve_record" where
  "get_retrieve_record cf cur_step = (if cur_step = 1 then Prefill else Decode (int cur_step - int (kc_retrieval_stride cf)))"

text \<open>\<open>torch.stack\<close> refuses an empty list; \<open>int\<close> of the request's id may fail.\<close>

definition retrieval_async ::
  "ks_cfg \<Rightarrow> ('w, 'd, 'q, 'r) ks_env \<Rightarrow> ks_meta \<Rightarrow> nat \<Rightarrow> nat \<Rightarrow> ('w, 'd, 'q, 'r) ks_layer \<Rightarrow> unit result \<times> ('w, 'd, 'q, 'r) ks_layer" where
  "retrieval_async cf env m cur_step topk s =
     (let r = get_retrieve_record cf cur_step
      in if topk = 0 then (Inr (), s\<lparr>kl_results := dict_set r [] (kl_results s)\<rparr>)
         else
           case py_key (kl_standby s) r of
             Inl e \<Rightarrow> (Inl e, s)
           | Inr grp \<Rightarrow>
               let query_group = List.map_filter (\<lambda>x. x) grp
               in if query_group = [] then (Inl RuntimeError, s)
                  else
                    let s1 = s\<lparr>kl_do_retrieve := dict_set r query_group (kl_do_retrieve s)\<rparr>
                    in case py_int (kq_request_id m) of
                         Inl e \<Rightarrow> (Inl e, s1)
                       | Inr rid \<Rightarrow>
                           then_do (ks_world (\<lambda>w. kr_async env w query_group (case kl_blk_repre s1 of None \<Rightarrow> [] | Some reps \<Rightarrow> reps) topk rid) s1)
                             (\<lambda>t s2. (Inr (), s2\<lparr>kl_waiter := dict_set r t (kl_waiter s2)\<rparr>)))"

text \<open>The blocks of the swap area; a missing representation has no \<open>shape\<close>.\<close>

definition get_retrieve_candidate_block_ids :: "ks_cfg \<Rightarrow> ks_meta \<Rightarrow> ('w, 'd, 'q, 'r) ks_layer \<Rightarrow> nat list result" where
  "get_retrieve_candidate_block_ids cf m s =
     (case kl_blk_repre s of
        None \<Rightarrow> Inl AttributeError
      | Some reps \<Rightarrow>
          let i = kc_init_window_sz cf in Inr (py_slice (kq_vllm_block_ids m) i (kc_scaled_up cf (length reps) + i)))"

section \<open>Loading what was found\<close>

definition ks_launch_transfer_task ::
  "('w, 'd, 'q, 'r) ks_env \<Rightarrow> string \<Rightarrow> string list \<Rightarrow> nat list \<Rightarrow> ('w, 'd, 'q, 'r) ks_layer \<Rightarrow> unit result \<times> ('w, 'd, 'q, 'r) ks_layer" where
  "ks_launch_transfer_task env transfer_type block_hashes ids s =
     (if kl_block_size s = None then (Inl AttributeError, s)
      else
        let offsets = (\<lambda>is_v. replicate (length block_hashes) (compute_layer_offset (kk_block_data_size env) (kl_layer_id s) is_v False)) in
        then_do (ks_world (\<lambda>w. ks_load env w block_hashes (offsets False) (map (Pair False) ids)) s) (\<lambda>task_k s1.
          then_do (ks_world (\<lambda>w. ks_load env w block_hashes (offsets True) (map (Pair True) ids)) s1) (\<lambda>task_v s2.
            (Inr (), s2\<lparr>kl_tasks := dict_set (ks_task_key env block_hashes transfer_type ''value'') task_v
                        (dict_set (ks_task_key env block_hashes transfer_type ''key'') task_k (kl_tasks s2))\<rparr>))))"

fun ks_wait_each :: "('w, 'd, 'q, 'r) ks_env \<Rightarrow> nat list \<Rightarrow> ('w, 'd, 'q, 'r) ks_layer \<Rightarrow> unit result \<times> ('w, 'd, 'q, 'r) ks_layer" where
  "ks_wait_each env [] s = (Inr (), s)"
| "ks_wait_each env (t # ts) s = then_do (ks_world (\<lambda>w. ks_wait env w t) s) (\<lambda>_ s'. ks_wait_each env ts s')"

definition wait_for_blk_transfer_task_done :: "('w, 'd, 'q, 'r) ks_env \<Rightarrow> ('w, 'd, 'q, 'r) ks_layer \<Rightarrow> unit result \<times> ('w, 'd, 'q, 'r) ks_layer" where
  "wait_for_blk_transfer_task_done env s =
     then_do (ks_wait_each env (map snd (kl_tasks s)) s) (\<lambda>_ s'. (Inr (), s'\<lparr>kl_tasks := []\<rparr>))"

text \<open>The group whose result a load of a step uses: the one of two strides before.\<close>

definition needed_record :: "ks_cfg \<Rightarrow> nat \<Rightarrow> retrieve_record result" where
  "needed_record cf load_step =
     (let stride = kc_retrieval_stride cf
      in if load_step \<le> stride * 2 then Inr Prefill
         else if stride = 0 then Inl ZeroDivisionError
         else Inr (Decode ((int (ceil_div load_step stride) - 3) * int stride + 1)))"

definition take_result ::
  "ks_cfg \<Rightarrow> ('w, 'd, 'q, 'r) ks_env \<Rightarrow> retrieve_record \<Rightarrow> ('w, 'd, 'q, 'r) ks_layer \<Rightarrow> unit result \<times> ('w, 'd, 'q, 'r) ks_layer" where
  "take_result cf env r s0 =
     then_do (py_key (kl_waiter s0) r, s0) (\<lambda>t s.
       then_do (ks_world (\<lambda>w. kr_wait env w t) s) (\<lambda>_ s1.
         then_do (ks_world (\<lambda>w. kr_result env w t) s1) (\<lambda>task_result s2.
           if r \<notin> dict_keys (kl_standby s2) then (Inl KeyError, s2)
           else
             let s3 = s2\<lparr>kl_standby := dict_pop r (kl_standby s2)\<rparr> in
             if r \<notin> dict_keys (kl_do_retrieve s3) then (Inl KeyError, s3)
             else
               let s4 = s3\<lparr>kl_do_retrieve := dict_pop r (kl_do_retrieve s3)\<rparr> in
               case task_result of
                 None \<Rightarrow> (Inl AssertionError, s4)
               | Some topk_indices \<Rightarrow>
                   then_do (rmap (\<lambda>i. py_index (kl_block_hashes s4) (i + kc_init_window_sz cf)) topk_indices, s4) (\<lambda>hashes s5.
                     (Inr (), s5\<lparr>kl_results := dict_set r hashes (kl_results s5)\<rparr>)))))"

text \<open>
  Blocks of the area that hold a wanted content keep it: they and their content are taken off the
  lists. A block is taken off at most once for each time it is listed, so \<open>remove\<close> finds it.
\<close>

fun match_swap_area ::
  "(nat, string) dict \<Rightarrow> nat list \<Rightarrow> (nat, string) dict \<times> nat list \<times> string list \<Rightarrow> (nat, string) dict \<times> nat list \<times> string list" where
  "match_swap_area pre [] acc = acc"
| "match_swap_area pre (b # rest) (matched, cands, hashes) =
     match_swap_area pre rest
       (case dict_get pre b of
          None \<Rightarrow> (matched, cands, hashes)
        | Some h \<Rightarrow> if h \<in> set hashes then (dict_set b h matched, remove1 b cands, remove1 h hashes) else (matched, cands, hashes))"

definition update_swap_area :: "(nat, string) dict \<Rightarrow> nat list \<Rightarrow> string list \<Rightarrow> (nat, string) dict \<times> nat list \<times> string list" where
  "update_swap_area pre cands hashes =
     (if pre = [] then (dict_of (zip cands hashes), cands, hashes)
      else
        case match_swap_area pre cands ([], cands, hashes) of
          (matched, cands', hashes') \<Rightarrow> (fold (\<lambda>(b, h). dict_set b h) (zip cands' hashes') matched, cands', hashes'))"

definition load_retrieve_result_async ::
  "ks_cfg \<Rightarrow> ('w, 'd, 'q, 'r) ks_env \<Rightarrow> nat \<Rightarrow> nat list \<Rightarrow> ('w, 'd, 'q, 'r) ks_layer \<Rightarrow> unit result \<times> ('w, 'd, 'q, 'r) ks_layer" where
  "load_retrieve_result_async cf env load_step cands s0 =
     then_do (needed_record cf load_step, s0) (\<lambda>r s.
       then_do (if dict_get (kl_results s) r = None then take_result cf env r s else (Inr (), s)) (\<lambda>_ s1.
         then_do (py_key (kl_results s1) r, s1) (\<lambda>hashes s2.
           if r \<noteq> Prefill \<or> load_step = 1
           then
             (case update_swap_area (kl_pre_swap s2) cands hashes of
                (area, cands', hashes') \<Rightarrow>
                  let s3 = s2\<lparr>kl_pre_swap := area\<rparr>
                  in if hashes' = [] then (Inr (), s3) else ks_launch_transfer_task env ''load'' hashes' cands' s3)
           else (Inr (), s2))))"

section \<open>Representations and windows\<close>

definition ks_read_blocks :: "('w, 'd, 'q, 'r) ks_env \<Rightarrow> 'w \<Rightarrow> nat list \<Rightarrow> 'd list \<times> 'd list" where
  "ks_read_blocks env w ids = (map (kk_read env w False) ids, map (kk_read env w True) ids)"

definition ks_write_blocks ::
  "('w, 'd, 'q, 'r) ks_env \<Rightarrow> nat list \<Rightarrow> 'd list \<times> 'd list \<Rightarrow> ('w, 'd, 'q, 'r) ks_layer \<Rightarrow> unit result \<times> ('w, 'd, 'q, 'r) ks_layer" where
  "ks_write_blocks env ids window s =
     then_do (ks_world (write_rows (\<lambda>b d w. kk_write env w False b d) ids (fst window)) s) (\<lambda>_ s1.
       ks_world (write_rows (\<lambda>b d w. kk_write env w True b d) ids (snd window)) s1)"

definition prepare_init_and_local_window ::
  "ks_cfg \<Rightarrow> ('w, 'd, 'q, 'r) ks_env \<Rightarrow> ks_meta \<Rightarrow> ('w, 'd, 'q, 'r) ks_layer \<Rightarrow> unit result \<times> ('w, 'd, 'q, 'r) ks_layer" where
  "prepare_init_and_local_window cf env m s =
     (let ids = kq_vllm_block_ids m
      in case kl_init_window s of
           None \<Rightarrow> (Inl TypeError, s)
         | Some init_window \<Rightarrow>
             then_do (ks_write_blocks env (take (kc_init_window_sz cf) ids) init_window s) (\<lambda>_ s1.
               case kl_local_window s1 of
                 None \<Rightarrow> (Inr (), s1)
               | Some local_window \<Rightarrow>
                   ks_write_blocks env (py_slice_int ids (- int (kc_local_window_sz cf)) (int (length ids))) local_window s1))"

definition construct_init_and_local_window ::
  "ks_cfg \<Rightarrow> ('w, 'd, 'q, 'r) ks_env \<Rightarrow> ks_meta \<Rightarrow> ('w, 'd, 'q, 'r) ks_layer \<Rightarrow> ('w, 'd, 'q, 'r) ks_layer" where
  "construct_init_and_local_window cf env m s =
     (let ids = kq_vllm_block_ids m; i = kc_init_window_sz cf;
          s1 = s\<lparr>kl_init_window := Some (ks_read_blocks env (kl_world s) (take i ids))\<rparr>;
          local_window_sz = min (kc_local_window_sz cf) (length (drop i ids))
      in if 0 < local_window_sz
         then s1\<lparr>kl_local_window := Some (ks_read_blocks env (kl_world s1) (py_slice_int ids (- int local_window_sz) (int (length ids))))\<rparr>
         else s1)"

text \<open>One entry per block; blocks 0 and 1 occur in dummy runs only.\<close>

definition ks_extract_block_repre :: "('w, 'd, 'q, 'r) ks_env \<Rightarrow> 'w \<Rightarrow> nat list \<Rightarrow> 'r list option result" where
  "ks_extract_block_repre env w ids =
     (if ids = [] then Inl IndexError else if last ids < 2 then Inr None else Inr (Some (map (kr_represent env w) ids)))"

definition compute_block_repre ::
  "ks_cfg \<Rightarrow> ('w, 'd, 'q, 'r) ks_env \<Rightarrow> ks_meta \<Rightarrow> int \<Rightarrow> ('w, 'd, 'q, 'r) ks_layer \<Rightarrow> unit result \<times> ('w, 'd, 'q, 'r) ks_layer" where
  "compute_block_repre cf env m num_blocks_need_dump s =
     (if kq_stage m = PREFILL \<and> kq_is_last_chunk m
      then
        then_do (ks_extract_block_repre env (kl_world s)
                   (py_slice_int (kq_vllm_block_ids m) 0 (int (kl_num_blocks_dumped s) + num_blocks_need_dump)), s) (\<lambda>repre s1.
          let blk_repre = (case repre of
                             None \<Rightarrow> None
                           | Some reps \<Rightarrow>
                               if length reps \<le> 2 then None
                               else Some (py_slice_int reps (int (kc_init_window_sz cf)) (- int (kc_local_window_sz cf))))
          in (Inr (), construct_init_and_local_window cf env m (s1\<lparr>kl_blk_repre := blk_repre\<rparr>)))
      else (Inr (), s))"

definition maybe_register_kv_cache :: "('w, 'd, 'q, 'r) ks_env \<Rightarrow> ks_meta \<Rightarrow> ('w, 'd, 'q, 'r) ks_layer \<Rightarrow> ('w, 'd, 'q, 'r) ks_layer" where
  "maybe_register_kv_cache env m s =
     (case kl_block_size s of
        Some _ \<Rightarrow> s
      | None \<Rightarrow> s\<lparr>kl_block_size := Some (kk_block_size env), kl_block_hashes := kq_block_hashes m\<rparr>)"

section \<open>Around the attention\<close>

definition decode_begin ::
  "ks_cfg \<Rightarrow> ('w, 'd, 'q, 'r) ks_env \<Rightarrow> 'q list \<Rightarrow> ks_meta \<Rightarrow> ('w, 'd, 'q, 'r) ks_layer \<Rightarrow> unit result \<times> ('w, 'd, 'q, 'r) ks_layer" where
  "decode_begin cf env query m s =
     then_do (get_decode_step_record cf m, s) (\<lambda>(group_record, step_idx) s0.
       then_do (save_to_standby cf group_record step_idx (kq_query_start_loc m) query s0) (\<lambda>_ s1.
         then_do (if kq_step m mod kc_retrieval_stride cf = 0
                  then then_do (get_retrieve_candidate_block_ids cf m s1, s1) (\<lambda>cands s2.
                         retrieval_async cf env m (kq_step m + 1) (length cands) s2)
                  else (Inr (), s1)) (\<lambda>_ s3.
           then_do (if kq_step m = 1
                    then then_do (prepare_init_and_local_window cf env m s3) (\<lambda>_ s4.
                           then_do (get_retrieve_candidate_block_ids cf m s4, s4) (\<lambda>cands s5.
                             then_do (wait_for_blk_transfer_task_done env s5) (\<lambda>_ s6.
                               then_do (retrieval_async cf env m (kq_step m) (length cands) s6) (\<lambda>_ s7.
                                 load_retrieve_result_async cf env (kq_step m) cands s7))))
                    else (Inr (), s3)) (\<lambda>_ s8.
             if kq_step m mod kc_retrieval_stride cf = 1 then wait_for_blk_transfer_task_done env s8 else (Inr (), s8)))))"

definition ks_attention_begin ::
  "ks_cfg \<Rightarrow> ('w, 'd, 'q, 'r) ks_env \<Rightarrow> 'q list \<Rightarrow> ks_meta \<Rightarrow> ('w, 'd, 'q, 'r) ks_layer \<Rightarrow> unit result \<times> ('w, 'd, 'q, 'r) ks_layer" where
  "ks_attention_begin cf env query m s =
     (if kq_stage m = PREFILL then offload_prefill_query cf query m s
      else if kl_blk_repre s = None then (Inr (), s)
      else if kq_query_len m \<noteq> 1 then (Inl AssertionError, s)
      else decode_begin cf env query m s)"

definition ks_attention_finished ::
  "ks_cfg \<Rightarrow> ('w, 'd, 'q, 'r) ks_env \<Rightarrow> ks_meta \<Rightarrow> ('w, 'd, 'q, 'r) ks_layer \<Rightarrow> unit result \<times> ('w, 'd, 'q, 'r) ks_layer" where
  "ks_attention_finished cf env m s =
     (if kq_stage m \<noteq> PREFILL
      then
        if kc_retrieval_stride cf * 2 \<le> kq_step m
        then
          if kc_retrieval_stride cf = 0 then (Inl ZeroDivisionError, s)
          else if kq_step m mod kc_retrieval_stride cf = 0
          then then_do (get_retrieve_candidate_block_ids cf m s, s) (\<lambda>cands s1. load_retrieve_result_async cf env (kq_step m + 1) cands s1)
          else (Inr (), s)
        else (Inr (), s)
      else
        let s1 = maybe_register_kv_cache env m s; num_tokens = kq_num_computed_tokens m + kq_num_scheduled_tokens m
        in case kl_block_size s1 of
             None \<Rightarrow> (Inl TypeError, s1)
           | Some bs \<Rightarrow>
               if bs = 0 then (Inl ZeroDivisionError, s1)
               else compute_block_repre cf env m (int (num_tokens div bs) - int (kl_num_blocks_dumped s1)) (s1\<lparr>kl_num_tokens := num_tokens\<rparr>))"

section \<open>Example\<close>

text \<open>A layer of two-token blocks with windows of one block and a stride of two; the search finds representation 0.\<close>

definition demo_ks_cfg :: ks_cfg where
  "demo_ks_cfg = \<lparr>kc_init_window_sz = 1, kc_local_window_sz = 1, kc_retrieval_stride = 2, kc_scaled_up = (\<lambda>n. (n + 1) div 2), kc_num_layers = 1\<rparr>"

definition demo_ks_env :: "(nat, nat, nat, nat) ks_env" where
  "demo_ks_env =
     \<lparr>kk_read = (\<lambda>w v b. b), kk_write = (\<lambda>w v b d. w), kk_block_size = 2, kk_block_data_size = 64, kr_represent = (\<lambda>w b. b),
      kr_async = (\<lambda>w q r k i. (Inr 3, w)), kr_wait = (\<lambda>w t. (Inr (), w)), kr_result = (\<lambda>w t. (Inr (Some [0]), w)),
      ks_load = (\<lambda>w hs offs dst. (Inr w, Suc w)), ks_wait = (\<lambda>w t. (Inr 0, w)), ks_task_key = (\<lambda>hs a b. int (length b))\<rparr>"

definition demo_ks_meta :: "nat \<Rightarrow> nat \<Rightarrow> nat \<Rightarrow> ks_meta" where
  "demo_ks_meta computed scheduled outputs =
     \<lparr>kq_request_id = ''7'', kq_index_in_batch = 0, kq_num_prompt_tokens = 8, kq_num_output_tokens = outputs,
      kq_num_scheduled_tokens = scheduled, kq_num_computed_tokens = computed, kq_num_sparsed_tokens = - 1, kq_vllm_block_ids = [20, 21, 22, 23],
      kq_token_blk_size = 2, kq_prompt_token_ids = [1, 2, 3, 4, 5, 6, 7, 8], kq_query_start_loc = 1, kq_query_len = scheduled,
      kq_retrieval_stride = 2, kq_block_hashes = [''a'', ''b'', ''c'', ''d'']\<rparr>"

end
