(* ===== verification/Kvstar_Queries.thy ===== *)
theory Kvstar_Queries
  imports Kvstar_Layer
begin

text \<open>
  The queries and the swap area of \<open>multistep.py\<close>: what the group of the prompt holds after any
  chunks, and that the swap area follows the choice of the search.
\<close>

section \<open>The queries of the prompt\<close>

text \<open>Steps of the prompt: each chunk with the batch's query, around the attention.\<close>

fun prefill_run ::
  "ks_cfg \<Rightarrow> ('w, 'd, 'q, 'r) ks_env \<Rightarrow> ('q list \<times> ks_meta) list \<Rightarrow> ('w, 'd, 'q, 'r) ks_layer \<Rightarrow> unit result \<times> ('w, 'd, 'q, 'r) ks_layer" where
  "prefill_run cf env [] s = (Inr (), s)"
| "prefill_run cf env ((query, m) # chunks) s =
     then_do (ks_attention_begin cf env query m s) (\<lambda>_ s1.
       then_do (ks_attention_finished cf env m s1) (\<lambda>_ s2. prefill_run cf env chunks s2))"

text \<open>A group in which the entries from \<open>a\<close> on are replaced by tokens.\<close>

definition filled :: "nat \<Rightarrow> nat \<Rightarrow> 'q list \<Rightarrow> nat \<Rightarrow> 'q option list \<Rightarrow> 'q option list" where
  "filled a b tokens rel g = map (\<lambda>i. if a \<le> i \<and> i < b then Some (tokens ! (rel + (i - a))) else g ! i) [0..<length g]"

lemma save_to_standby_ok:
  assumes "get_or_new = (case dict_get (kl_standby s) r of None \<Rightarrow> replicate (kc_retrieval_stride cf) None | Some g \<Rightarrow> g)"
    and "rel < length tokens" and "i < length get_or_new"
  shows "\<exists>sb. save_to_standby cf r (int i) rel tokens s = (Inr (), s\<lparr>kl_standby := sb\<rparr>)
    \<and> dict_get sb r = Some (get_or_new[i := Some (tokens ! rel)]) \<and> (\<forall>r'. r' \<noteq> r \<longrightarrow> dict_get sb r' = dict_get (kl_standby s) r')"
proof (cases "dict_get (kl_standby s) r")
  case None
  then have "r \<notin> dict_keys (kl_standby s)" by (simp add: map_of_eq_None_iff)
  then show ?thesis using None assms
    by (intro exI [of _ "dict_set r (get_or_new[i := Some (tokens ! rel)]) (dict_set r (replicate (kc_retrieval_stride cf) None) (kl_standby s))"])
       (simp add: save_to_standby_def Let_def py_index_def py_key_def py_put_def)
next
  case (Some g)
  then have "r \<in> dict_keys (kl_standby s)" by (metis dom_map_of_conv_image_fst domI)
  then show ?thesis using Some assms
    by (intro exI [of _ "dict_set r (get_or_new[i := Some (tokens ! rel)]) (kl_standby s)"])
       (simp add: save_to_standby_def Let_def py_index_def py_key_def py_put_def)
qed

lemma filled_step:
  "a < b \<Longrightarrow> a < length g \<Longrightarrow> filled (Suc a) b tokens (Suc rel) (g[a := Some (tokens ! rel)]) = filled a b tokens rel g"
proof (rule nth_equalityI)
  fix i assume "a < b" "a < length g" "i < length (filled (Suc a) b tokens (Suc rel) (g[a := Some (tokens ! rel)]))"
  then show "filled (Suc a) b tokens (Suc rel) (g[a := Some (tokens ! rel)]) ! i = filled a b tokens rel g ! i"
    by (cases "i = a") (auto simp: filled_def nth_list_update Suc_diff_Suc)
qed (simp add: filled_def)

lemma save_each_ok:
  "a \<le> b \<Longrightarrow> b \<le> length g \<Longrightarrow> rel + (b - a) \<le> length tokens \<Longrightarrow>
   g = (case dict_get (kl_standby s) Prefill of None \<Rightarrow> replicate (kc_retrieval_stride cf) None | Some g \<Rightarrow> g) \<Longrightarrow>
   \<exists>sb. save_each cf rel [int a..int b - 1] tokens s = (Inr (), s\<lparr>kl_standby := sb\<rparr>)
     \<and> (case dict_get sb Prefill of None \<Rightarrow> replicate (kc_retrieval_stride cf) None | Some g \<Rightarrow> g) = filled a b tokens rel g
     \<and> (a < b \<longrightarrow> dict_get sb Prefill \<noteq> None)"
proof (induction "b - a" arbitrary: a rel g s)
  case 0
  then have "filled a b tokens rel g = g" by (intro nth_equalityI) (auto simp: filled_def)
  then show ?case using 0 by (intro exI [of _ "kl_standby s"]) simp
next
  case (Suc n)
  then have ab: "a < b" "[int a..int b - 1] = int a # [int (Suc a)..int b - 1]" by (simp_all add: upto_rec1 add.commute)
  obtain sb where sb: "save_to_standby cf Prefill (int a) rel tokens s = (Inr (), s\<lparr>kl_standby := sb\<rparr>)"
      "dict_get sb Prefill = Some (g[a := Some (tokens ! rel)])"
  proof -
    have "rel < length tokens" "a < length g" using Suc.prems(2,3) ab(1) by simp_all
    from save_to_standby_ok [OF Suc.prems(4) this] show thesis by (elim exE conjE) (rule that)
  qed
  let ?s = "s\<lparr>kl_standby := sb\<rparr>" and ?g = "g[a := Some (tokens ! rel)]"
  obtain sb' where sb': "save_each cf (Suc rel) [int (Suc a)..int b - 1] tokens ?s = (Inr (), ?s\<lparr>kl_standby := sb'\<rparr>)"
      "(case dict_get sb' Prefill of None \<Rightarrow> replicate (kc_retrieval_stride cf) None | Some g \<Rightarrow> g) = filled (Suc a) b tokens (Suc rel) ?g"
      "Suc a < b \<longrightarrow> dict_get sb' Prefill \<noteq> None"
  proof -
    have "n = b - Suc a" "Suc a \<le> b" "b \<le> length ?g" "Suc rel + (b - Suc a) \<le> length tokens"
        "?g = (case dict_get (kl_standby ?s) Prefill of None \<Rightarrow> replicate (kc_retrieval_stride cf) None | Some g \<Rightarrow> g)"
      using Suc.hyps(2) Suc.prems(2,3) ab(1) sb(2) by simp_all
    from Suc.hyps(1) [OF this] show thesis by (elim exE conjE) (rule that)
  qed
  have fs: "filled (Suc a) b tokens (Suc rel) ?g = filled a b tokens rel g" by (rule filled_step) (use ab(1) Suc.prems(2) in simp_all)
  have run: "save_each cf rel [int a..int b - 1] tokens s = (Inr (), s\<lparr>kl_standby := sb'\<rparr>)"
    using sb(1) sb'(1) by (simp only: ab(2) save_each.simps then_do_simps) simp
  have "dict_get sb' Prefill \<noteq> None"
  proof (cases "Suc a < b")
    case True
    then show ?thesis using sb'(3) by blast
  next
    case False
    then have "[int (Suc a)..int b - 1] = []" by simp
    then have "?s\<lparr>kl_standby := sb'\<rparr> = ?s" using sb'(1) by (simp only: save_each.simps prod.inject)
    then have "kl_standby (?s\<lparr>kl_standby := sb'\<rparr>) = kl_standby ?s" by (rule arg_cong)
    then show ?thesis using sb(2) by simp
  qed
  then show ?case using run sb'(2) fs by (intro exI [of _ sb'] conjI) simp_all
qed

text \<open>The finish of a prompt step leaves the queries alone.\<close>

lemma finished_prefill:
  assumes "kq_stage m = PREFILL" and "0 < kk_block_size env" and "kl_block_size s \<in> {None, Some (kk_block_size env)}" and "kl_num_blocks_dumped s = 0"
    and "kq_vllm_block_ids m \<noteq> []" and "kk_block_size env \<le> kq_num_prompt_tokens m"
  shows "\<exists>s'. ks_attention_finished cf env m s = (Inr (), s') \<and> kl_standby s' = kl_standby s
    \<and> kl_block_size s' \<in> {None, Some (kk_block_size env)} \<and> kl_num_blocks_dumped s' = 0"
proof -
  define s1 where "s1 = (maybe_register_kv_cache env m s)\<lparr>kl_num_tokens := kq_num_computed_tokens m + kq_num_scheduled_tokens m\<rparr>"
  let ?n = "(kq_num_computed_tokens m + kq_num_scheduled_tokens m) div kk_block_size env"
  have s1: "kl_block_size s1 = Some (kk_block_size env)" "kl_num_blocks_dumped s1 = 0" "kl_standby s1 = kl_standby s"
    using assms(3,4) by (auto simp: s1_def maybe_register_kv_cache_def)
  have fin: "ks_attention_finished cf env m s = compute_block_repre cf env m (int ?n) s1"
    using assms(1,2,4) s1 by (auto simp: ks_attention_finished_def Let_def s1_def maybe_register_kv_cache_def split: option.splits)
  show ?thesis
  proof (cases "kq_is_last_chunk m")
    case False
    then show ?thesis using fin s1 by (simp add: compute_block_repre_def)
  next
    case True
    then have "1 \<le> ?n" using assms(2,6) by (simp add: kq_is_last_chunk_def Suc_le_eq div_greater_zero_iff)
    moreover have "py_slice_int (kq_vllm_block_ids m) 0 (int ?n) = take ?n (kq_vllm_block_ids m)" by (simp add: py_slice_int_nonneg py_slice_def)
    ultimately have "py_slice_int (kq_vllm_block_ids m) 0 (int ?n) \<noteq> []" using assms(5) by simp
    then have "\<exists>x. ks_extract_block_repre env (kl_world s1) (py_slice_int (kq_vllm_block_ids m) 0 (int ?n)) = Inr x"
      by (auto simp: ks_extract_block_repre_def)
    then obtain x where "ks_extract_block_repre env (kl_world s1) (py_slice_int (kq_vllm_block_ids m) 0 (int ?n)) = Inr x" by blast
    then show ?thesis using fin True assms(1) s1 by (simp add: compute_block_repre_def construct_init_and_local_window_def Let_def)
  qed
qed

text \<open>The chunks of a prompt: they follow each other, and their queries are those of their tokens.\<close>

fun chunks_of :: "ks_cfg \<Rightarrow> ('w, 'd, 'q, 'r) ks_env \<Rightarrow> 'q list \<Rightarrow> nat \<Rightarrow> ('q list \<times> ks_meta) list \<Rightarrow> bool" where
  "chunks_of cf env all c [] \<longleftrightarrow> c = length all"
| "chunks_of cf env all c ((query, m) # chunks) \<longleftrightarrow>
     kq_stage m = PREFILL \<and> kq_num_prompt_tokens m = length all \<and> kq_num_computed_tokens m = c \<and> kq_retrieval_stride m = kc_retrieval_stride cf
     \<and> kq_query_len m = kq_num_scheduled_tokens m \<and> c + kq_num_scheduled_tokens m \<le> length all \<and> kq_vllm_block_ids m \<noteq> []
     \<and> py_slice query (kq_query_start_loc m) (kq_query_start_loc m + kq_query_len m) = py_slice all c (c + kq_num_scheduled_tokens m)
     \<and> chunks_of cf env all (c + kq_num_scheduled_tokens m) chunks"

definition queries_so_far :: "nat \<Rightarrow> 'q list \<Rightarrow> nat \<Rightarrow> 'q option list" where
  "queries_so_far stride all c = map (\<lambda>i. if length all - stride + i < c then Some (all ! (length all - stride + i)) else None) [0..<stride]"

definition standby_group :: "ks_cfg \<Rightarrow> ('w, 'd, 'q, 'r) ks_layer \<Rightarrow> 'q option list" where
  "standby_group cf s = (case dict_get (kl_standby s) Prefill of None \<Rightarrow> replicate (kc_retrieval_stride cf) None | Some g \<Rightarrow> g)"

lemma offload_chunk:
  assumes m: "kq_stage m = PREFILL" "kq_num_prompt_tokens m = length all" "kq_num_computed_tokens m = c" "kq_retrieval_stride m = kc_retrieval_stride cf"
      "kq_query_len m = kq_num_scheduled_tokens m" "c + kq_num_scheduled_tokens m \<le> length all"
      "py_slice query (kq_query_start_loc m) (kq_query_start_loc m + kq_query_len m) = py_slice all c (c + kq_num_scheduled_tokens m)"
    and stride: "kc_retrieval_stride cf \<le> length all" and g: "standby_group cf s = queries_so_far (kc_retrieval_stride cf) all c"
  shows "\<exists>sb. offload_prefill_query cf query m s = (Inr (), s\<lparr>kl_standby := sb\<rparr>)
    \<and> standby_group cf (s\<lparr>kl_standby := sb\<rparr>) = queries_so_far (kc_retrieval_stride cf) all (c + kq_num_scheduled_tokens m)"
proof -
  let ?S = "kc_retrieval_stride cf" and ?n = "kq_num_scheduled_tokens m" and ?P = "length all"
  show ?thesis
  proof (cases "c + ?n < ?P - ?S")
    case True
    then have "query_offload_info m = Inr None" using m stride by (simp add: query_offload_info_def Let_def)
    moreover have "queries_so_far ?S all (c + ?n) = queries_so_far ?S all c"
      using True stride by (intro nth_equalityI) (auto simp: queries_so_far_def)
    ultimately show ?thesis using g by (intro exI [of _ "kl_standby s"]) (simp add: offload_prefill_query_def)
  next
    case False
    define b where "b = c + ?n - (?P - ?S)"
    define k where "k = min b ?n"
    define a where "a = b - k"
    have b: "b \<le> ?S" "k \<le> b" "k \<le> ?n" "a + k = b" using m(6) stride by (simp_all add: b_def k_def a_def)
    have info: "query_offload_info m = Inr (Some [int a..int b - 1])"
    proof -
      have "int ?S - (int ?P - int (c + ?n)) = int b" using False stride m(6) by (simp add: b_def)
      then show ?thesis using False m stride b by (simp add: query_offload_info_def Let_def k_def [symmetric] min_def a_def of_nat_diff split: if_splits) (auto simp: k_def a_def)
    qed
    have tokens: "py_slice query (kq_query_start_loc m + kq_query_len m - k) (kq_query_start_loc m + kq_query_len m) = py_slice all (c + ?n - k) (c + ?n)"
    proof -
      have "py_slice xs (l + n - k) (l + n) = drop (n - k) (py_slice xs l (l + n))" if "k \<le> n" for l n and xs :: "'a list"
        using that by (simp add: py_slice_def drop_take) (metis Nat.add_diff_assoc add.commute)
      then show ?thesis using m(5,7) b(3) by simp
    qed
    have more: "filled a b (py_slice all (c + ?n - k) (c + ?n)) 0 (queries_so_far ?S all c) = queries_so_far ?S all (c + ?n)"
    proof (rule nth_equalityI)
      fix i assume "i < length (filled a b (py_slice all (c + ?n - k) (c + ?n)) 0 (queries_so_far ?S all c))"
      then have i: "i < ?S" by (simp add: filled_def queries_so_far_def)
      then show "filled a b (py_slice all (c + ?n - k) (c + ?n)) 0 (queries_so_far ?S all c) ! i = queries_so_far ?S all (c + ?n) ! i"
        using False m(6) stride by (auto simp: filled_def queries_so_far_def a_def k_def b_def min_def split: if_splits intro!: arg_cong [of _ _ "(!) all"])
    qed (simp add: filled_def queries_so_far_def)
    show ?thesis
    proof (cases "[int a..int b - 1]")
      case Nil
      then have "a = b" using b(4) by simp
      then have "filled a b (py_slice all (c + ?n - k) (c + ?n)) 0 (queries_so_far ?S all c) = queries_so_far ?S all c"
        by (intro nth_equalityI) (auto simp: filled_def)
      then show ?thesis using Nil info g more by (intro exI [of _ "kl_standby s"]) (simp add: offload_prefill_query_def)
    next
      case (Cons i0 rest)
      have len: "length [int a..int b - 1] = k" using b by simp
      have lt: "length (py_slice all (c + ?n - k) (c + ?n)) = k" using m(6) b(3) by simp
      obtain sb where "save_each cf 0 [int a..int b - 1] (py_slice all (c + ?n - k) (c + ?n)) s = (Inr (), s\<lparr>kl_standby := sb\<rparr>)"
          "(case dict_get sb Prefill of None \<Rightarrow> replicate ?S None | Some g \<Rightarrow> g) = filled a b (py_slice all (c + ?n - k) (c + ?n)) 0 (standby_group cf s)"
      proof -
        have "a \<le> b" "b \<le> length (standby_group cf s)" "0 + (b - a) \<le> length (py_slice all (c + ?n - k) (c + ?n))"
          using b lt unfolding g by (simp_all add: queries_so_far_def)
        from save_each_ok [OF this standby_group_def] show thesis by (elim exE conjE) (rule that)
      qed
      then show ?thesis using info Cons len tokens m(5) b(3) g more
        by (intro exI [of _ sb]) (simp add: offload_prefill_query_def Let_def standby_group_def)
    qed
  qed
qed

text \<open>
  C29: However the prompt is cut into chunks, afterwards the group \<open>prefill\<close> holds the queries of the
  last \<open>retrieval_stride\<close> prompt tokens, all of them and in order.
\<close>

theorem prefill_keeps_the_last_queries:
  assumes "chunks_of cf env all 0 chunks" and "0 < kc_retrieval_stride cf" "kc_retrieval_stride cf \<le> length all"
    and "0 < kk_block_size env" "kk_block_size env \<le> length all"
  shows "\<exists>s'. prefill_run cf env chunks (new_ks_layer l w) = (Inr (), s')
    \<and> standby_group cf s' = map Some (drop (length all - kc_retrieval_stride cf) all)"
proof -
  let ?S = "kc_retrieval_stride cf"
  have run: "\<exists>s'. prefill_run cf env chunks s = (Inr (), s') \<and> standby_group cf s' = queries_so_far ?S all (length all)"
    if "chunks_of cf env all c chunks" "standby_group cf s = queries_so_far ?S all c"
      "kl_block_size s \<in> {None, Some (kk_block_size env)}" "kl_num_blocks_dumped s = 0" for c s
    using that
  proof (induction chunks arbitrary: c s)
    case Nil
    then show ?case by simp
  next
    case (Cons qm chunks)
    obtain query m where qm: "qm = (query, m)" by (cases qm)
    note ch = Cons.prems(1) [unfolded qm chunks_of.simps]
    obtain sb where sb: "offload_prefill_query cf query m s = (Inr (), s\<lparr>kl_standby := sb\<rparr>)"
        "standby_group cf (s\<lparr>kl_standby := sb\<rparr>) = queries_so_far ?S all (c + kq_num_scheduled_tokens m)"
      using offload_chunk [of m all c cf query s] ch assms(3) Cons.prems(2) by auto
    obtain s2 where s2: "ks_attention_finished cf env m (s\<lparr>kl_standby := sb\<rparr>) = (Inr (), s2)" "kl_standby s2 = sb"
        "kl_block_size s2 \<in> {None, Some (kk_block_size env)}" "kl_num_blocks_dumped s2 = 0"
      using finished_prefill [of m env "s\<lparr>kl_standby := sb\<rparr>" cf] ch assms(4,5) Cons.prems(3,4) by auto
    have "standby_group cf s2 = queries_so_far ?S all (c + kq_num_scheduled_tokens m)" using sb(2) s2(2) by (simp add: standby_group_def)
    then obtain s' where "prefill_run cf env chunks s2 = (Inr (), s')" "standby_group cf s' = queries_so_far ?S all (length all)"
      using Cons.IH [of "c + kq_num_scheduled_tokens m" s2] ch s2(3,4) by blast
    then show ?case using ch sb(1) s2(1) by (simp add: qm ks_attention_begin_def)
  qed
  have fresh: "standby_group cf (new_ks_layer l w) = queries_so_far ?S all 0"
    by (intro nth_equalityI) (simp_all add: standby_group_def new_ks_layer_def queries_so_far_def)
  obtain s' where "prefill_run cf env chunks (new_ks_layer l w) = (Inr (), s')" "standby_group cf s' = queries_so_far ?S all (length all)"
  proof -
    have "kl_block_size (new_ks_layer l w) \<in> {None, Some (kk_block_size env)}" "kl_num_blocks_dumped (new_ks_layer l w) = 0"
      by (simp_all add: new_ks_layer_def)
    from run [OF assms(1) fresh this] show thesis by (elim exE conjE) (rule that)
  qed
  moreover have "queries_so_far ?S all (length all) = map Some (drop (length all - ?S) all)"
    using assms(3) by (intro nth_equalityI) (auto simp: queries_so_far_def)
  ultimately show ?thesis by auto
qed

section \<open>Example\<close>

theorem prefill_keeps_the_last_queries_witness:
  "\<exists>s'. prefill_run demo_ks_cfg demo_ks_env [([0, 11, 12, 13, 14, 15, 16, 17], demo_ks_meta 0 7 0), ([0, 18, 0], demo_ks_meta 7 1 0)] (new_ks_layer 0 5) = (Inr (), s')
     \<and> standby_group demo_ks_cfg s' = [Some 17, Some 18]"
proof -
  let ?all = "[11, 12, 13, 14, 15, 16, 17, 18 :: nat]" and ?chunks = "[([0, 11, 12, 13, 14, 15, 16, 17], demo_ks_meta 0 7 0), ([0, 18, 0], demo_ks_meta 7 1 0)]"
  have "chunks_of demo_ks_cfg demo_ks_env ?all 0 ?chunks"
    by (simp add: demo_ks_cfg_def demo_ks_meta_def kq_stage_def py_slice_def)
  from prefill_keeps_the_last_queries [OF this, of 0 5] show ?thesis by (simp add: demo_ks_cfg_def demo_ks_env_def)
qed

section \<open>The swap area\<close>

lemma update_new: "k \<notin> fst ` set d \<Longrightarrow> dict_set k v d = d @ [(k, v)]"
  by (induction d) auto

lemma fold_dict_set_new:
  "distinct (map fst kvs) \<Longrightarrow> fst ` set kvs \<inter> fst ` set d = {} \<Longrightarrow> fold (\<lambda>(b, h). dict_set b h) kvs d = d @ kvs"
proof (induction kvs arbitrary: d)
  case Nil
  then show ?case by simp
next
  case (Cons kv kvs)
  obtain k v where kv: "kv = (k, v)" by (cases kv)
  have "dict_set k v d = d @ [(k, v)]" using Cons.prems(2) by (intro update_new) (auto simp: kv)
  then show ?case using Cons by (auto simp: kv)
qed

text \<open>The blocks that keep their content.\<close>

definition keeps_content :: "(nat, string) dict \<Rightarrow> string list \<Rightarrow> nat \<Rightarrow> bool" where
  "keeps_content pre hashes b \<longleftrightarrow> (\<exists>h. dict_get pre b = Some h \<and> h \<in> set hashes)"

lemma match_swap_area_result:
  assumes "distinct (map snd pre)" "distinct (map fst pre)"
  shows "distinct rest \<Longrightarrow> fst ` set matched \<inter> set rest = {} \<Longrightarrow> distinct cands \<Longrightarrow> distinct hs \<Longrightarrow>
    \<forall>b \<in> set rest. \<forall>h. dict_get pre b = Some h \<longrightarrow> (h \<in> set hs \<longleftrightarrow> h \<in> set hashes) \<Longrightarrow>
    match_swap_area pre rest (matched, cands, hs) =
      (let kept = filter (keeps_content pre hashes) rest; content = (\<lambda>b. the (dict_get pre b))
       in (matched @ map (\<lambda>b. (b, content b)) kept, filter (\<lambda>b. b \<notin> set kept) cands, filter (\<lambda>h. h \<notin> content ` set kept) hs))"
proof (induction rest arbitrary: matched cands hs)
  case Nil
  then show ?case by simp
next
  case (Cons b rest)
  show ?case
  proof (cases "keeps_content pre hashes b")
    case False
    then have "match_swap_area pre (b # rest) (matched, cands, hs) = match_swap_area pre rest (matched, cands, hs)"
      using Cons.prems(5) by (auto simp: keeps_content_def split: option.split)
    then show ?thesis using Cons False by simp
  next
    case True
    then obtain h where h: "dict_get pre b = Some h" "h \<in> set hashes" by (auto simp: keeps_content_def)
    then have "h \<in> set hs" using Cons.prems(5) by simp
    have step: "match_swap_area pre (b # rest) (matched, cands, hs) = match_swap_area pre rest (matched @ [(b, h)], remove1 b cands, remove1 h hs)"
      using h(1) \<open>h \<in> set hs\<close> Cons.prems(2) update_new [of b matched h] by auto
    have other: "h' \<noteq> h" if "b' \<in> set rest" "dict_get pre b' = Some h'" for b' h'
    proof
      assume "h' = h"
      then have "(b', h) \<in> set pre" "(b, h) \<in> set pre" using that(2) h(1) by (simp_all add: map_of_SomeD)
      then have "b' = b" using assms(1) by (metis distinct_map inj_onD snd_conv prod.inject)
      then show False using that(1) Cons.prems(1) by simp
    qed
    have "match_swap_area pre rest (matched @ [(b, h)], remove1 b cands, remove1 h hs) =
      (let kept = filter (keeps_content pre hashes) rest; content = (\<lambda>b. the (dict_get pre b))
       in ((matched @ [(b, h)]) @ map (\<lambda>b. (b, content b)) kept, filter (\<lambda>b. b \<notin> set kept) (remove1 b cands),
           filter (\<lambda>h. h \<notin> content ` set kept) (remove1 h hs)))"
      by (rule Cons.IH) (use Cons.prems other in \<open>auto simp: distinct_remove1\<close>)
    then show ?thesis unfolding step using True h(1) Cons.prems(3,4)
      by (simp add: Let_def distinct_remove1_removeAll removeAll_filter_not_eq filter_filter) (auto intro!: filter_cong)
  qed
qed

text \<open>
  The swap area after an update is the choice of the retrieval: its blocks are the blocks of the
  area, its contents the chosen ones, each once. Loading what is left on the lists makes the device
  agree with it, and loads no content that one of the blocks holds.
\<close>

lemma swap_area_follows_the_choice:
  assumes pre: "distinct (map fst pre)" "distinct (map snd pre)" and "distinct cands" "distinct hashes" "length hashes = length cands"
    and held: "\<forall>(b, h) \<in> set pre. dev b = h"
  shows "\<exists>area cands' hashes'. update_swap_area pre cands hashes = (area, cands', hashes') \<and> length cands' = length hashes'
    \<and> distinct (map fst area) \<and> distinct (map snd area) \<and> fst ` set area = set cands \<and> snd ` set area = set hashes
    \<and> (\<forall>(b, h) \<in> set area. fetched dev (zip cands' hashes') b = h) \<and> (\<forall>h \<in> set hashes'. \<forall>b \<in> set cands. (b, h) \<notin> set pre)"
proof -
  define kept where "kept = filter (keeps_content pre hashes) cands"
  define content where "content = (\<lambda>b. the (dict_get pre b))"
  define cands' where "cands' = filter (\<lambda>b. b \<notin> set kept) cands"
  define hashes' where "hashes' = filter (\<lambda>h. h \<notin> content ` set kept) hashes"
  define area where "area = map (\<lambda>b. (b, content b)) kept @ zip cands' hashes'"
  have kept: "set kept \<subseteq> set cands" "distinct kept" using assms(3) by (auto simp: kept_def)
  have content: "(b, content b) \<in> set pre" "content b \<in> set hashes" if "b \<in> set kept" for b
    using that by (auto simp: kept_def keeps_content_def content_def dest: map_of_SomeD)
  have "inj_on content (set kept)"
  proof (rule inj_onI)
    fix x y assume "x \<in> set kept" "y \<in> set kept" "content x = content y"
    then have "(x, content x) \<in> set pre" "(y, content x) \<in> set pre" using content(1) by metis+
    then show "x = y" using pre(2) by (metis distinct_map inj_onD snd_conv prod.inject)
  qed
  then have ck: "distinct (map content kept)" "content ` set kept \<subseteq> set hashes" using kept(2) content(2) by (auto simp: distinct_map)
  have c': "set cands' = set cands - set kept" "distinct cands'" and h': "set hashes' = set hashes - content ` set kept" "distinct hashes'"
    using assms(3,4) by (auto simp: cands'_def hashes'_def)
  have "card (set cands') = card (set hashes')"
    using c'(1) h'(1) kept ck assms(3-5) \<open>inj_on content (set kept)\<close> by (simp add: card_Diff_subset card_image distinct_card)
  then have len: "length cands' = length hashes'" using c'(2) h'(2) by (simp add: distinct_card)
  have up: "update_swap_area pre cands hashes = (area, cands', hashes')"
  proof (cases "pre = []")
    case True
    then have "kept = []" by (simp add: kept_def keeps_content_def)
    then show ?thesis using True fold_dict_set_new [of "zip cands hashes" "[]"] assms(3,5)
      by (simp add: update_swap_area_def dict_of_def area_def cands'_def hashes'_def)
  next
    case False
    have "match_swap_area pre cands ([], cands, hashes) = (map (\<lambda>b. (b, content b)) kept, cands', hashes')"
      using match_swap_area_result [OF pre(2,1) assms(3) _ assms(3,4), of "[]" hashes]
      by (simp add: kept_def content_def cands'_def hashes'_def Let_def)
    moreover have "fold (\<lambda>(b, h). dict_set b h) (zip cands' hashes') (map (\<lambda>b. (b, content b)) kept) = area"
      unfolding area_def
    proof (rule fold_dict_set_new)
      show "distinct (map fst (zip cands' hashes'))" using c'(2) len by simp
      have "fst ` set (zip cands' hashes') = set cands'" using map_fst_zip [OF len] by (metis set_map)
      moreover have "fst ` set (map (\<lambda>b. (b, content b)) kept) = set kept" by force
      ultimately show "fst ` set (zip cands' hashes') \<inter> fst ` set (map (\<lambda>b. (b, content b)) kept) = {}" using c'(1) by auto
    qed
    ultimately show ?thesis using False by (simp add: update_swap_area_def)
  qed
  have keys: "map fst area = kept @ cands'" "map snd area = map content kept @ hashes'" using len by (simp_all add: area_def comp_def)
  have d: "distinct (map fst area)" "distinct (map snd area)" unfolding keys using kept ck c' h' by auto
  have s: "fst ` set area = set cands" "snd ` set area = set hashes"
    using arg_cong [OF keys(1), of set] arg_cong [OF keys(2), of set] kept(1) ck(2) c'(1) h'(1) by auto
  have dev: "fetched dev (zip cands' hashes') b = h" if "(b, h) \<in> set area" for b h
  proof (cases "(b, h) \<in> set (zip cands' hashes')")
    case True
    then show ?thesis using c'(2) len by (simp add: fetched_def map_of_zip_is_Some map_of_eq_Some_iff)
  next
    case False
    then have b: "b \<in> set kept" "h = content b" using that by (auto simp: area_def)
    have "dict_get (zip cands' hashes') b = None" using b(1) c'(1) len by simp
    moreover have "dev b = content b" using held content(1) [OF b(1)] by auto
    ultimately show ?thesis using b(2) by (simp add: fetched_def)
  qed
  have new: "(b, h) \<notin> set pre" if "h \<in> set hashes'" "b \<in> set cands" for b h
  proof
    assume "(b, h) \<in> set pre"
    then have "dict_get pre b = Some h" using pre(1) by simp
    moreover have "h \<in> set hashes" using that(1) h'(1) by simp
    ultimately have "b \<in> set kept" "content b = h" using that(2) by (auto simp: kept_def keeps_content_def content_def)
    then show False using that(1) h'(1) by auto
  qed
  show ?thesis using up len d s dev new by (intro exI [of _ area] exI [of _ cands'] exI [of _ hashes'] conjI ballI) auto
qed

end
