(* ===== verification/Kvstar_Decode.thy ===== *)
theory Kvstar_Decode
  imports Kvstar_Queries Esa_Decode
begin

text \<open>
  What the steps of a layer come to in \<open>multistep.py\<close>: the invariant between the steps, and that each
  search is started two strides before its result is loaded.
\<close>

section \<open>Generating tokens\<close>

fun ks_run ::
  "ks_cfg \<Rightarrow> ('w, 'd, 'q, 'r) ks_env \<Rightarrow> ('q list \<times> ks_meta) list \<Rightarrow> ('w, 'd, 'q, 'r) ks_layer
     \<Rightarrow> ('w, 'd, 'q, 'r) ks_layer list result \<times> ('w, 'd, 'q, 'r) ks_layer" where
  "ks_run cf env [] s = (Inr [], s)"
| "ks_run cf env ((query, m) # steps) s =
     then_do (ks_attention_begin cf env query m s) (\<lambda>_ mid.
       then_do (ks_attention_finished cf env m mid) (\<lambda>_ s'.
         then_do (ks_run cf env steps s') (\<lambda>mids s''. (Inr (mid # mids), s''))))"

text \<open>Services that answer; the search answers numbers of representations, of which there are \<open>n\<close>.\<close>

definition ks_services :: "('w, 'd, 'q, 'r) ks_env \<Rightarrow> nat \<Rightarrow> bool" where
  "ks_services env n \<longleftrightarrow>
     (\<forall>q r k i. answers (\<lambda>w. kr_async env w q r k i)) \<and> (\<forall>t. answers (\<lambda>w. kr_wait env w t))
     \<and> (\<forall>t w. \<exists>chosen. fst (kr_result env w t) = Inr (Some chosen) \<and> (\<forall>i \<in> set chosen. i < n))
     \<and> (\<forall>hs offs dst. answers (\<lambda>w. ks_load env w hs offs dst)) \<and> (\<forall>t. answers (\<lambda>w. ks_wait env w t))"

lemma ks_world_answers: "answers f \<Longrightarrow> \<exists>x w. ks_world f s = (Inr x, s\<lparr>kl_world := w\<rparr>)"
  unfolding answers_def ks_world_def by (metis (mono_tags, lifting) case_prod_unfold)

text \<open>A group whose result can be taken: it is there, or its search has been started.\<close>

definition available :: "retrieve_record \<Rightarrow> ('w, 'd, 'q, 'r) ks_layer \<Rightarrow> bool" where
  "available r s \<longleftrightarrow> r \<in> dict_keys (kl_results s)
     \<or> r \<in> dict_keys (kl_waiter s) \<and> r \<in> dict_keys (kl_standby s) \<and> r \<in> dict_keys (kl_do_retrieve s)"

lemma dict_get_key: "k \<in> dict_keys d \<Longrightarrow> \<exists>v. dict_get d k = Some v"
  by (metis dom_map_of_conv_image_fst domD)

lemma retrieval_async_ok:
  assumes srv: "ks_services env n" and g: "dict_get (kl_standby s) r = Some grp" "List.map_filter (\<lambda>x. x) grp \<noteq> []"
    and r: "get_retrieve_record cf step = r" and rid: "py_int (kq_request_id m) = Inr rid"
  shows "\<exists>res dr wt w. retrieval_async cf env m step topk s = (Inr (), s\<lparr>kl_results := res, kl_do_retrieve := dr, kl_waiter := wt, kl_world := w\<rparr>)
    \<and> available r (s\<lparr>kl_results := res, kl_do_retrieve := dr, kl_waiter := wt, kl_world := w\<rparr>)
    \<and> (\<forall>r'. available r' s \<longrightarrow> available r' (s\<lparr>kl_results := res, kl_do_retrieve := dr, kl_waiter := wt, kl_world := w\<rparr>))"
proof (cases "topk = 0")
  case True
  then show ?thesis using r
    by (intro exI [of _ "dict_set r [] (kl_results s)"] exI [of _ "kl_do_retrieve s"] exI [of _ "kl_waiter s"] exI [of _ "kl_world s"] conjI)
       (simp_all add: retrieval_async_def available_def)
next
  case False
  let ?qs = "List.map_filter (\<lambda>x. x) grp" and ?reps = "case kl_blk_repre s of None \<Rightarrow> [] | Some reps \<Rightarrow> reps"
  let ?s1 = "s\<lparr>kl_do_retrieve := dict_set r ?qs (kl_do_retrieve s)\<rparr>"
  have "answers (\<lambda>w. kr_async env w ?qs ?reps topk rid)" using srv by (simp add: ks_services_def)
  from ks_world_answers [OF this, of ?s1]
  obtain t w where t: "ks_world (\<lambda>w. kr_async env w ?qs ?reps topk rid) ?s1 = (Inr t, ?s1\<lparr>kl_world := w\<rparr>)" by blast
  have "r \<in> dict_keys (kl_standby s)" using g(1) by (metis dom_map_of_conv_image_fst domI)
  then show ?thesis using False g r rid t
    by (intro exI [of _ "kl_results s"] exI [of _ "dict_set r ?qs (kl_do_retrieve s)"] exI [of _ "dict_set r t (kl_waiter s)"] exI [of _ w] conjI)
       (auto simp: retrieval_async_def available_def py_key_def Let_def)
qed

lemma ks_wait_ok:
  assumes "ks_services env n"
  shows "\<exists>w. wait_for_blk_transfer_task_done env s = (Inr (), s\<lparr>kl_world := w, kl_tasks := []\<rparr>)"
proof -
  have a: "answers (\<lambda>w. ks_wait env w t)" for t using assms by (simp add: ks_services_def)
  have "\<exists>w. ks_wait_each env ts s = (Inr (), s\<lparr>kl_world := w\<rparr>)" for ts s
  proof (induction ts arbitrary: s)
    case Nil
    then show ?case by (intro exI [of _ "kl_world s"]) simp
  next
    case (Cons t ts)
    obtain x w where "ks_world (\<lambda>w. ks_wait env w t) s = (Inr x, s\<lparr>kl_world := w\<rparr>)" using ks_world_answers [OF a] by blast
    moreover obtain w' where "ks_wait_each env ts (s\<lparr>kl_world := w\<rparr>) = (Inr (), s\<lparr>kl_world := w\<rparr>\<lparr>kl_world := w'\<rparr>)" using Cons by blast
    ultimately show ?case by (intro exI [of _ w']) simp
  qed
  then obtain w where "ks_wait_each env (map snd (kl_tasks s)) s = (Inr (), s\<lparr>kl_world := w\<rparr>)" by blast
  then show ?thesis by (intro exI [of _ w]) (simp add: wait_for_blk_transfer_task_done_def)
qed

lemma ks_launch_ok:
  assumes srv: "ks_services env n" and "kl_block_size s \<noteq> None"
  shows "\<exists>ts w. ks_launch_transfer_task env k hs ids s = (Inr (), s\<lparr>kl_tasks := ts, kl_world := w\<rparr>)"
proof -
  have a: "answers (\<lambda>w. ks_load env w hs offs dst)" for offs dst using srv by (simp add: ks_services_def)
  let ?o = "\<lambda>is_v. replicate (length hs) (compute_layer_offset (kk_block_data_size env) (kl_layer_id s) is_v False)"
  obtain x w where x: "ks_world (\<lambda>w. ks_load env w hs (?o False) (map (Pair False) ids)) s = (Inr x, s\<lparr>kl_world := w\<rparr>)"
    using ks_world_answers [OF a] by blast
  obtain y w' where y: "ks_world (\<lambda>w. ks_load env w hs (?o True) (map (Pair True) ids)) (s\<lparr>kl_world := w\<rparr>) = (Inr y, s\<lparr>kl_world := w\<rparr>\<lparr>kl_world := w'\<rparr>)"
    using ks_world_answers [OF a] by blast
  show ?thesis using x y assms(2)
    by (intro exI [of _ "dict_set (ks_task_key env hs k ''value'') y (dict_set (ks_task_key env hs k ''key'') x (kl_tasks s))"] exI [of _ w'])
       (simp add: ks_launch_transfer_task_def Let_def)
qed

lemma take_result_ok:
  assumes srv: "ks_services env n" and r: "available r s" "dict_get (kl_results s) r = None" and hs: "n + kc_init_window_sz cf \<le> length (kl_block_hashes s)"
  shows "\<exists>h w. take_result cf env r s = (Inr (), s\<lparr>kl_standby := dict_pop r (kl_standby s), kl_do_retrieve := dict_pop r (kl_do_retrieve s),
      kl_results := dict_set r h (kl_results s), kl_world := w\<rparr>)"
proof -
  have "r \<notin> dict_keys (kl_results s)" using r(2) by (simp add: map_of_eq_None_iff)
  then have k: "r \<in> dict_keys (kl_waiter s)" "r \<in> dict_keys (kl_standby s)" "r \<in> dict_keys (kl_do_retrieve s)"
    using r(1) unfolding available_def by blast+
  obtain t where t: "dict_get (kl_waiter s) r = Some t" using dict_get_key [OF k(1)] by blast
  have "answers (\<lambda>w. kr_wait env w t)" using srv by (simp add: ks_services_def)
  from ks_world_answers [OF this, of s] obtain x w1 where w1: "ks_world (\<lambda>w. kr_wait env w t) s = (Inr x, s\<lparr>kl_world := w1\<rparr>)" by blast
  obtain chosen where ch: "fst (kr_result env w1 t) = Inr (Some chosen)" "\<forall>i \<in> set chosen. i < n"
    using srv unfolding ks_services_def by blast
  define w2 where "w2 = snd (kr_result env w1 t)"
  have w2: "ks_world (\<lambda>w. kr_result env w t) (s\<lparr>kl_world := w1\<rparr>) = (Inr (Some chosen), s\<lparr>kl_world := w2\<rparr>)"
    using ch(1) by (simp add: ks_world_def w2_def split_beta)
  have "rmap (\<lambda>i. py_index (kl_block_hashes s) (i + kc_init_window_sz cf)) chosen
      = Inr (map (\<lambda>i. kl_block_hashes s ! (i + kc_init_window_sz cf)) chosen)"
    by (rule rmap_all) (use ch(2) hs in \<open>fastforce simp: py_index_def\<close>)
  then show ?thesis using t w1 w2 k
    by (intro exI [of _ "map (\<lambda>i. kl_block_hashes s ! (i + kc_init_window_sz cf)) chosen"] exI [of _ w2])
       (simp add: take_result_def py_key_def)
qed

text \<open>What holds of a layer between the parts of a step.\<close>

definition ks_base :: "ks_cfg \<Rightarrow> nat \<Rightarrow> ('w, 'd, 'q, 'r) ks_layer \<Rightarrow> bool" where
  "ks_base cf n s \<longleftrightarrow> kl_block_size s \<noteq> None \<and> (\<exists>reps. kl_blk_repre s = Some reps \<and> length reps = n)
     \<and> n + kc_init_window_sz cf \<le> length (kl_block_hashes s)
     \<and> (\<forall>r g. dict_get (kl_standby s) r = Some g \<longrightarrow> length g = kc_retrieval_stride cf)"

lemma load_retrieve_ok:
  assumes srv: "ks_services env n" and base: "ks_base cf n s" and r: "needed_record cf step = Inr r" "available r s"
  shows "\<exists>s'. load_retrieve_result_async cf env step cands s = (Inr (), s') \<and> ks_base cf n s'
    \<and> (\<forall>r'. r' \<noteq> r \<longrightarrow> available r' s \<longrightarrow> available r' s')"
proof -
  have b: "kl_block_size s \<noteq> None" "n + kc_init_window_sz cf \<le> length (kl_block_hashes s)" using base by (auto simp: ks_base_def)
  obtain s1 where s1: "(if dict_get (kl_results s) r = None then take_result cf env r s else (Inr (), s)) = (Inr (), s1)"
      "r \<in> dict_keys (kl_results s1)" "ks_base cf n s1" "\<forall>r'. r' \<noteq> r \<longrightarrow> available r' s \<longrightarrow> available r' s1"
  proof (cases "dict_get (kl_results s) r = None")
    case True
    obtain h w where t: "take_result cf env r s = (Inr (), s\<lparr>kl_standby := dict_pop r (kl_standby s), kl_do_retrieve := dict_pop r (kl_do_retrieve s),
        kl_results := dict_set r h (kl_results s), kl_world := w\<rparr>)" using take_result_ok [OF srv r(2) True b(2)] by blast
    show thesis by (rule that [of "s\<lparr>kl_standby := dict_pop r (kl_standby s), kl_do_retrieve := dict_pop r (kl_do_retrieve s),
        kl_results := dict_set r h (kl_results s), kl_world := w\<rparr>"], use True t base in \<open>auto simp: ks_base_def available_def split: if_splits\<close>)
  next
    case False
    then have "r \<in> dict_keys (kl_results s)" by (metis dom_map_of_conv_image_fst domI not_Some_eq)
    then show thesis using False base by (intro that [of s]) auto
  qed
  obtain hs where hs: "dict_get (kl_results s1) r = Some hs" using dict_get_key [OF s1(2)] by blast
  obtain area c' h' where up: "update_swap_area (kl_pre_swap s1) cands hs = (area, c', h')" by (cases "update_swap_area (kl_pre_swap s1) cands hs") auto
  let ?s3 = "s1\<lparr>kl_pre_swap := area\<rparr>"
  have "kl_block_size ?s3 \<noteq> None" using s1(3) by (simp add: ks_base_def)
  from ks_launch_ok [OF srv this] obtain ts w where l: "ks_launch_transfer_task env ''load'' h' c' ?s3 = (Inr (), ?s3\<lparr>kl_tasks := ts, kl_world := w\<rparr>)" by blast
  have end_states: "ks_base cf n (?s3\<lparr>kl_tasks := ts, kl_world := w\<rparr>)" "ks_base cf n ?s3"
      "available r' s1 \<longrightarrow> available r' (?s3\<lparr>kl_tasks := ts, kl_world := w\<rparr>)" "available r' s1 \<longrightarrow> available r' ?s3" for r'
    using s1(3) by (simp_all add: ks_base_def available_def)
  have load: "load_retrieve_result_async cf env step cands s =
      (if r \<noteq> Prefill \<or> step = 1 then if h' = [] then (Inr (), ?s3) else (Inr (), ?s3\<lparr>kl_tasks := ts, kl_world := w\<rparr>) else (Inr (), s1))"
    using r(1) s1(1) hs up l by (simp add: load_retrieve_result_async_def py_key_def Let_def)
  then show ?thesis
    using s1(3,4) end_states
    by (intro exI [of _ "if r \<noteq> Prefill \<or> step = 1 then if h' = [] then ?s3 else ?s3\<lparr>kl_tasks := ts, kl_world := w\<rparr> else s1"]) simp
qed


text \<open>
  Before step \<open>t\<close>: the first step finds the queries of the prompt, a later one a started search for
  the group of one stride before, and loads are outstanding only where they are waited for next.
\<close>

definition pending_record :: "nat \<Rightarrow> nat \<Rightarrow> retrieve_record" where
  "pending_record stride t = Decode ((int ((t - 1) div stride) - 1) * int stride + 1)"

definition ks_ready :: "ks_cfg \<Rightarrow> nat \<Rightarrow> nat \<Rightarrow> ('w, 'd, 'q, 'r) ks_layer \<Rightarrow> bool" where
  "ks_ready cf n t s \<longleftrightarrow>
     ks_base cf n s \<and> 1 \<le> t \<and> (kl_tasks s \<noteq> [] \<longrightarrow> 1 < t \<and> t mod kc_retrieval_stride cf = 1)
     \<and> (t = 1 \<longrightarrow> (\<exists>grp. dict_get (kl_standby s) Prefill = Some grp \<and> List.map_filter (\<lambda>x. x) grp \<noteq> []))
     \<and> (kc_retrieval_stride cf < t \<longrightarrow> available (pending_record (kc_retrieval_stride cf) t) s)"

text \<open>What a step has to offer, and that the saved windows have the size of the blocks they go to.\<close>

definition decode_step :: "nat \<Rightarrow> 'q list \<Rightarrow> ks_meta \<Rightarrow> bool" where
  "decode_step t query m \<longleftrightarrow> 1 \<le> t \<and> kq_num_output_tokens m = t \<and> kq_query_len m = 1 \<and> kq_query_start_loc m < length query
     \<and> (\<exists>rid. py_int (kq_request_id m) = Inr rid)"

definition windows_fit :: "ks_cfg \<Rightarrow> ks_meta \<Rightarrow> ('w, 'd, 'q, 'r) ks_layer \<Rightarrow> bool" where
  "windows_fit cf m s \<longleftrightarrow>
     (let ids = kq_vllm_block_ids m; at_end = py_slice_int ids (- int (kc_local_window_sz cf)) (int (length ids))
      in (\<exists>k v. kl_init_window s = Some (k, v) \<and> length k = length (take (kc_init_window_sz cf) ids) \<and> length v = length k)
         \<and> (case kl_local_window s of None \<Rightarrow> True | Some (k, v) \<Rightarrow> length k = length at_end \<and> length v = length at_end))"

lemma ks_write_fits:
  "length k = length ids \<Longrightarrow> length v = length ids \<Longrightarrow> \<exists>w. ks_write_blocks env ids (k, v) s = (Inr (), s\<lparr>kl_world := w\<rparr>)"
  by (simp add: ks_write_blocks_def ks_world_def write_rows_def spread_def) blast

lemma prepare_fits:
  assumes "windows_fit cf m s"
  shows "\<exists>w. prepare_init_and_local_window cf env m s = (Inr (), s\<lparr>kl_world := w\<rparr>)"
proof -
  let ?ids = "kq_vllm_block_ids m"
  obtain k v where k: "kl_init_window s = Some (k, v)" "length k = length (take (kc_init_window_sz cf) ?ids)" "length v = length k"
    using assms by (auto simp: windows_fit_def Let_def)
  obtain w where w: "ks_write_blocks env (take (kc_init_window_sz cf) ?ids) (k, v) s = (Inr (), s\<lparr>kl_world := w\<rparr>)"
    using ks_write_fits [of k "take (kc_init_window_sz cf) ?ids" v env s] k by auto
  show ?thesis
  proof (cases "kl_local_window s")
    case None
    then show ?thesis using k(1) w by (intro exI [of _ w]) (simp add: prepare_init_and_local_window_def Let_def)
  next
    case (Some kv)
    obtain lk lv where kv: "kv = (lk, lv)" by (cases kv)
    let ?last = "py_slice_int ?ids (- int (kc_local_window_sz cf)) (int (length ?ids))"
    have fit: "length lk = length ?last" "length lv = length ?last"
      using assms by (simp_all only: windows_fit_def Let_def Some kv option.case prod.case)
    obtain w' where "ks_write_blocks env ?last (lk, lv) (s\<lparr>kl_world := w\<rparr>) = (Inr (), s\<lparr>kl_world := w\<rparr>\<lparr>kl_world := w'\<rparr>)"
      using ks_write_fits [OF fit, of env "s\<lparr>kl_world := w\<rparr>"] by blast
    then show ?thesis using k(1) w Some kv by (intro exI [of _ w']) (simp add: prepare_init_and_local_window_def Let_def)
  qed
qed

lemma candidates_ok: "ks_base cf n s \<Longrightarrow> \<exists>cands. get_retrieve_candidate_block_ids cf m s = Inr cands"
  by (auto simp: ks_base_def get_retrieve_candidate_block_ids_def Let_def)

text \<open>The part of a step that saves the query and, at the end of a stride, starts a search.\<close>

lemma decode_save_ok:
  assumes base: "ks_base cf n s" and stride: "0 < kc_retrieval_stride cf" and m: "decode_step t query m"
  shows "\<exists>sb r i. get_decode_step_record cf m = Inr (r, i) \<and> save_to_standby cf r i (kq_query_start_loc m) query s = (Inr (), s\<lparr>kl_standby := sb\<rparr>)
    \<and> ks_base cf n (s\<lparr>kl_standby := sb\<rparr>) \<and> r = Decode (int ((t - 1) div kc_retrieval_stride cf) * int (kc_retrieval_stride cf) + 1)
    \<and> (\<exists>grp. dict_get sb r = Some grp \<and> List.map_filter (\<lambda>x. x) grp \<noteq> []) \<and> (\<forall>r'. r' \<noteq> r \<longrightarrow> dict_get sb r' = dict_get (kl_standby s) r')
    \<and> (\<forall>r'. available r' s \<longrightarrow> available r' (s\<lparr>kl_standby := sb\<rparr>))"
proof -
  let ?S = "kc_retrieval_stride cf" and ?i = "(t - 1) mod kc_retrieval_stride cf"
  let ?r = "Decode (int ((t - 1) div ?S) * int ?S + 1)"
  define g where "g = (case dict_get (kl_standby s) ?r of None \<Rightarrow> replicate ?S None | Some g \<Rightarrow> g)"
  have len: "length g = ?S" using base by (auto simp: g_def ks_base_def split: option.split)
  have rec: "get_decode_step_record cf m = Inr (?r, int ?i)"
    using stride m by (simp add: get_decode_step_record_def decode_step_def kq_step_def Let_def zdiv_int zmod_int of_nat_diff)
  have q: "kq_query_start_loc m < length query" using m by (simp add: decode_step_def)
  obtain sb where sb: "save_to_standby cf ?r (int ?i) (kq_query_start_loc m) query s = (Inr (), s\<lparr>kl_standby := sb\<rparr>)"
      "dict_get sb ?r = Some (g[?i := Some (query ! kq_query_start_loc m)])" "\<forall>r'. r' \<noteq> ?r \<longrightarrow> dict_get sb r' = dict_get (kl_standby s) r'"
  proof -
    have "?i < length g" using stride len by simp
    from save_to_standby_ok [OF g_def q this] show thesis by (elim exE conjE) (rule that)
  qed
  have "Some (query ! kq_query_start_loc m) \<in> set (g[?i := Some (query ! kq_query_start_loc m)])"
    using stride len by (intro set_update_memI) simp
  then have ne: "List.map_filter (\<lambda>x. x) (g[?i := Some (query ! kq_query_start_loc m)]) \<noteq> []"
    by (auto simp: List.map_filter_def filter_empty_conv)
  have keys: "r' \<in> dict_keys sb" if "r' \<in> dict_keys (kl_standby s)" for r'
    using sb(2,3) dict_get_key [OF that] by (cases "r' = ?r") (metis dom_map_of_conv_image_fst domI)+
  have "ks_base cf n (s\<lparr>kl_standby := sb\<rparr>)"
    unfolding ks_base_def
  proof (intro conjI allI impI)
    fix r' g' assume "dict_get (kl_standby (s\<lparr>kl_standby := sb\<rparr>)) r' = Some g'"
    then show "length g' = ?S" using sb(2,3) len base by (cases "r' = ?r") (auto simp: ks_base_def)
  qed (use base in \<open>simp_all add: ks_base_def\<close>)
  moreover have "available r' (s\<lparr>kl_standby := sb\<rparr>)" if "available r' s" for r' using that keys by (auto simp: available_def)
  ultimately show ?thesis using rec sb ne by (intro exI [of _ sb] exI [of _ ?r] exI [of _ "int ?i"] conjI) simp_all
qed


text \<open>At the end of a stride a search for its group is started.\<close>

lemma start_search_ok:
  assumes srv: "ks_services env n" and base: "ks_base cf n s" and g: "dict_get (kl_standby s) r = Some grp" "List.map_filter (\<lambda>x. x) grp \<noteq> []"
    and r: "get_retrieve_record cf step = r" and rid: "py_int (kq_request_id m) = Inr rid"
  shows "\<exists>s'. then_do (get_retrieve_candidate_block_ids cf m s, s) (\<lambda>cands s2. retrieval_async cf env m step (length cands) s2) = (Inr (), s')
    \<and> ks_base cf n s' \<and> available r s' \<and> (\<forall>r'. available r' s \<longrightarrow> available r' s') \<and> kl_tasks s' = kl_tasks s"
proof -
  obtain cands where c: "get_retrieve_candidate_block_ids cf m s = Inr cands" using candidates_ok [OF base] by blast
  obtain res dr wt w where a: "retrieval_async cf env m step (length cands) s = (Inr (), s\<lparr>kl_results := res, kl_do_retrieve := dr, kl_waiter := wt, kl_world := w\<rparr>)"
      "available r (s\<lparr>kl_results := res, kl_do_retrieve := dr, kl_waiter := wt, kl_world := w\<rparr>)"
      "\<forall>r'. available r' s \<longrightarrow> available r' (s\<lparr>kl_results := res, kl_do_retrieve := dr, kl_waiter := wt, kl_world := w\<rparr>)"
    using retrieval_async_ok [OF srv g r rid] by blast
  show ?thesis using a c base
    by (intro exI [of _ "s\<lparr>kl_results := res, kl_do_retrieve := dr, kl_waiter := wt, kl_world := w\<rparr>"] conjI) (simp_all add: ks_base_def)
qed

lemma first_load_ok:
  assumes srv: "ks_services env n" and base: "ks_base cf n s" and stride: "0 < kc_retrieval_stride cf"
    and g: "dict_get (kl_standby s) Prefill = Some grp" "List.map_filter (\<lambda>x. x) grp \<noteq> []"
    and rid: "py_int (kq_request_id m) = Inr rid" and win: "windows_fit cf m s"
  shows "\<exists>s'. then_do (prepare_init_and_local_window cf env m s) (\<lambda>_ s4.
       then_do (get_retrieve_candidate_block_ids cf m s4, s4) (\<lambda>cands s5.
         then_do (wait_for_blk_transfer_task_done env s5) (\<lambda>_ s6.
           then_do (retrieval_async cf env m 1 (length cands) s6) (\<lambda>_ s7. load_retrieve_result_async cf env 1 cands s7)))) = (Inr (), s')
    \<and> ks_base cf n s'"
proof -
  obtain w where w: "prepare_init_and_local_window cf env m s = (Inr (), s\<lparr>kl_world := w\<rparr>)" using prepare_fits [OF win] by blast
  have b4: "ks_base cf n (s\<lparr>kl_world := w\<rparr>)" using base by (simp add: ks_base_def)
  obtain cands where c: "get_retrieve_candidate_block_ids cf m (s\<lparr>kl_world := w\<rparr>) = Inr cands" using candidates_ok [OF b4] by blast
  obtain w6 where w6: "wait_for_blk_transfer_task_done env (s\<lparr>kl_world := w\<rparr>) = (Inr (), s\<lparr>kl_world := w6, kl_tasks := []\<rparr>)"
    using ks_wait_ok [OF srv, of "s\<lparr>kl_world := w\<rparr>"] by auto
  let ?s6 = "s\<lparr>kl_world := w6, kl_tasks := []\<rparr>"
  have g6: "dict_get (kl_standby ?s6) Prefill = Some grp" and r: "get_retrieve_record cf 1 = Prefill" using g(1) by (simp_all add: get_retrieve_record_def)
  obtain res dr wt w7 where a: "retrieval_async cf env m 1 (length cands) ?s6 = (Inr (), ?s6\<lparr>kl_results := res, kl_do_retrieve := dr, kl_waiter := wt, kl_world := w7\<rparr>)"
      "available Prefill (?s6\<lparr>kl_results := res, kl_do_retrieve := dr, kl_waiter := wt, kl_world := w7\<rparr>)"
    using retrieval_async_ok [OF srv g6 g(2) r rid] by blast
  let ?s7 = "?s6\<lparr>kl_results := res, kl_do_retrieve := dr, kl_waiter := wt, kl_world := w7\<rparr>"
  have b7: "ks_base cf n ?s7" using base by (simp add: ks_base_def)
  have need: "needed_record cf 1 = Inr Prefill" using stride by (simp add: needed_record_def)
  obtain s' where "load_retrieve_result_async cf env 1 cands ?s7 = (Inr (), s')" "ks_base cf n s'"
    using load_retrieve_ok [OF srv b7 need a(2)] by blast
  then show ?thesis using w c w6 a(1) by (intro exI [of _ s'] conjI) simp_all
qed

lemma ks_begin_ok:
  assumes srv: "ks_services env n" and stride: "2 \<le> kc_retrieval_stride cf" and ready: "ks_ready cf n t s"
    and m: "decode_step t query m" and win: "t = 1 \<longrightarrow> windows_fit cf m s"
  shows "\<exists>mid. ks_attention_begin cf env query m s = (Inr (), mid) \<and> ks_base cf n mid \<and> kl_tasks mid = []
    \<and> (kc_retrieval_stride cf < t \<longrightarrow> available (pending_record (kc_retrieval_stride cf) t) mid)
    \<and> (t mod kc_retrieval_stride cf = 0 \<longrightarrow> available (Decode (int t + 1 - int (kc_retrieval_stride cf))) mid)"
proof -
  let ?S = "kc_retrieval_stride cf" and ?p = "pending_record (kc_retrieval_stride cf) t"
  have S: "0 < ?S" using stride by simp
  have base: "ks_base cf n s" and t: "1 \<le> t" "kq_step m = t" "kq_stage m = DECODE" "kq_query_len m = 1"
    using ready m by (simp_all add: ks_ready_def decode_step_def kq_step_def kq_stage_def)
  obtain rid where rid: "py_int (kq_request_id m) = Inr rid" using m by (auto simp: decode_step_def)
  have begin_eq: "ks_attention_begin cf env query m s = decode_begin cf env query m s"
    using t base by (auto simp: ks_attention_begin_def ks_base_def)
  obtain sb r i grp where save: "get_decode_step_record cf m = Inr (r, i)"
      "save_to_standby cf r i (kq_query_start_loc m) query s = (Inr (), s\<lparr>kl_standby := sb\<rparr>)" "ks_base cf n (s\<lparr>kl_standby := sb\<rparr>)"
      "r = Decode (int ((t - 1) div ?S) * int ?S + 1)" "dict_get sb r = Some grp" "List.map_filter (\<lambda>x. x) grp \<noteq> []"
      "\<forall>r'. r' \<noteq> r \<longrightarrow> dict_get sb r' = dict_get (kl_standby s) r'" "\<forall>r'. available r' s \<longrightarrow> available r' (s\<lparr>kl_standby := sb\<rparr>)"
    using decode_save_ok [OF base S m] by (elim exE conjE) (rule that)
  let ?s1 = "s\<lparr>kl_standby := sb\<rparr>"
  consider (first) "t = 1" | (last) "t mod ?S = 0" | (other) "t \<noteq> 1" "t mod ?S \<noteq> 0" by blast
  then show ?thesis
  proof cases
    case first
    have "t mod ?S = 1" "\<not> ?S < t" using first stride by simp_all
    obtain pg where "dict_get (kl_standby s) Prefill = Some pg" "List.map_filter (\<lambda>x. x) pg \<noteq> []" using ready first by (auto simp: ks_ready_def)
    then have pg: "dict_get (kl_standby ?s1) Prefill = Some pg" "List.map_filter (\<lambda>x. x) pg \<noteq> []" using save(4,7) by simp_all
    have "windows_fit cf m ?s1" using win first by (simp add: windows_fit_def)
    from first_load_ok [OF srv save(3) S pg rid this] obtain s8 where s8: "then_do (prepare_init_and_local_window cf env m ?s1) (\<lambda>_ s4.
       then_do (get_retrieve_candidate_block_ids cf m s4, s4) (\<lambda>cands s5.
         then_do (wait_for_blk_transfer_task_done env s5) (\<lambda>_ s6.
           then_do (retrieval_async cf env m 1 (length cands) s6) (\<lambda>_ s7. load_retrieve_result_async cf env 1 cands s7)))) = (Inr (), s8)"
        "ks_base cf n s8" by blast
    obtain w where w: "wait_for_blk_transfer_task_done env s8 = (Inr (), s8\<lparr>kl_world := w, kl_tasks := []\<rparr>)" using ks_wait_ok [OF srv] by blast
    have "decode_begin cf env query m s = (Inr (), s8\<lparr>kl_world := w, kl_tasks := []\<rparr>)"
      using first \<open>t mod ?S = 1\<close> t(2) save(1,2) s8(1) w by (simp add: decode_begin_def)
    then show ?thesis using s8(2) first \<open>t mod ?S = 1\<close> \<open>\<not> ?S < t\<close> begin_eq
      by (intro exI [of _ "s8\<lparr>kl_world := w, kl_tasks := []\<rparr>"] conjI) (simp_all add: ks_base_def)
  next
    case last
    have ne1: "t \<noteq> 1" using last stride by auto
    have no_tasks: "kl_tasks s = []" using ready last unfolding ks_ready_def by auto
    obtain k where k: "t = k * ?S" using last by (metis mod_0_imp_dvd dvd_def mult.commute)
    then obtain k' where k': "t = Suc k' * ?S" using t(1) by (cases k) auto
    have "(t - 1) div ?S = k'"
    proof -
      have "t - 1 = (?S - 1) + k' * ?S" using k' S by simp
      then show ?thesis using S by (simp only: div_mult_self1) simp
    qed
    then have r: "r = Decode (int t + 1 - int ?S)" using save(4) k' by (simp add: algebra_simps)
    have "get_retrieve_record cf (t + 1) = r" using t(1) r by (simp add: get_retrieve_record_def)
    from start_search_ok [OF srv save(3) _ save(6) this rid] save(5)
    obtain s3 where s3: "then_do (get_retrieve_candidate_block_ids cf m ?s1, ?s1) (\<lambda>cands s2. retrieval_async cf env m (t + 1) (length cands) s2) = (Inr (), s3)"
        "ks_base cf n s3" "available r s3" "\<forall>r'. available r' ?s1 \<longrightarrow> available r' s3" "kl_tasks s3 = kl_tasks ?s1" by auto
    have "decode_begin cf env query m s = (Inr (), s3)"
      using last ne1 t(2) save(1,2) s3(1) by (simp add: decode_begin_def)
    moreover have "?S < t \<longrightarrow> available ?p s3" using ready save(8) s3(4) unfolding ks_ready_def by blast
    ultimately show ?thesis using s3(2,3,5) r begin_eq no_tasks by (intro exI [of _ s3] conjI) simp_all
  next
    case other
    have pend: "?S < t \<longrightarrow> available ?p ?s1" using ready save(8) unfolding ks_ready_def by blast
    obtain w where w: "wait_for_blk_transfer_task_done env ?s1 = (Inr (), ?s1\<lparr>kl_world := w, kl_tasks := []\<rparr>)" using ks_wait_ok [OF srv] by blast
    let ?mid = "if t mod ?S = 1 then ?s1\<lparr>kl_world := w, kl_tasks := []\<rparr> else ?s1"
    have "kl_tasks ?mid = []" using ready other unfolding ks_ready_def by auto
    moreover have "decode_begin cf env query m s = (Inr (), ?mid)" using other t(2) save(1,2) w by (simp add: decode_begin_def)
    moreover have "ks_base cf n ?mid" "?S < t \<longrightarrow> available ?p ?mid" using save(3) pend by (simp_all add: ks_base_def available_def)
    ultimately show ?thesis using begin_eq other by (intro exI [of _ ?mid] conjI) simp_all
  qed
qed

lemma ks_finished_ok:
  assumes srv: "ks_services env n" and stride: "2 \<le> kc_retrieval_stride cf" and m: "decode_step t query m"
    and mid: "ks_base cf n s" "kl_tasks s = []" "kc_retrieval_stride cf < t \<longrightarrow> available (pending_record (kc_retrieval_stride cf) t) s"
      "t mod kc_retrieval_stride cf = 0 \<longrightarrow> available (Decode (int t + 1 - int (kc_retrieval_stride cf))) s"
  shows "\<exists>s'. ks_attention_finished cf env m s = (Inr (), s') \<and> ks_ready cf n (Suc t) s'"
proof -
  let ?S = "kc_retrieval_stride cf"
  have S: "0 < ?S" using stride by simp
  have t: "1 \<le> t" "kq_step m = t" "kq_stage m = DECODE" using m by (simp_all add: decode_step_def kq_step_def kq_stage_def)
  show ?thesis
  proof (cases "t mod ?S = 0")
    case False
    then have "t div ?S = (t - 1) div ?S" using t(1) by (cases t) (simp_all add: div_Suc split: if_splits)
    then have "?S < Suc t \<longrightarrow> available (pending_record ?S (Suc t)) s"
      using mid(3) False by (auto simp: pending_record_def less_Suc_eq)
    moreover have "ks_attention_finished cf env m s = (Inr (), s)" using False S t by (simp add: ks_attention_finished_def)
    ultimately show ?thesis using mid(1,2) t(1) by (intro exI [of _ s]) (simp add: ks_ready_def)
  next
    case True
    obtain k where k: "t = k * ?S" using True by (metis mod_0_imp_dvd dvd_def mult.commute)
    have k1: "1 \<le> k" using k t(1) by (cases k) auto
    have now: "pending_record ?S (Suc t) = Decode (int t + 1 - int ?S)"
      using k S by (simp add: pending_record_def algebra_simps)
    have phase: "Suc t mod ?S = 1" "1 < Suc t" using k stride t(1) by (simp_all add: mod_Suc)
    show ?thesis
    proof (cases "k = 1")
      case one: True
      then have "ks_attention_finished cf env m s = (Inr (), s)" using k S t by (simp add: ks_attention_finished_def)
      then show ?thesis using mid(1,2,4) True now t(1) by (intro exI [of _ s]) (simp add: ks_ready_def)
    next
      case False
      then have "2 \<le> k" using k1 by simp
      then obtain j where j: "k = j + 2" by (metis add.commute le_iff_add)
      have "?S * 2 \<le> t" "?S < t" using k j S by simp_all
      have "(t - 1) div ?S = j + 1"
      proof -
        have "t - 1 = (?S - 1) + (j + 1) * ?S" using k j S by simp
        then show ?thesis using S by (simp only: div_mult_self1) simp
      qed
      then have pend: "available (Decode (int j * int ?S + 1)) s" using mid(3) \<open>?S < t\<close> by (simp add: pending_record_def)
      have "ceil_div (t + 1) ?S = j + 3"
      proof -
        have "t + 1 + ?S - 1 = (j + 3) * ?S" using k j by (simp add: algebra_simps)
        then show ?thesis using S unfolding ceil_div_def by simp
      qed
      then have need: "needed_record cf (t + 1) = Inr (Decode (int j * int ?S + 1))"
        using \<open>?S * 2 \<le> t\<close> S by (simp add: needed_record_def Let_def)
      obtain cands where c: "get_retrieve_candidate_block_ids cf m s = Inr cands" using candidates_ok [OF mid(1)] by blast
      obtain s' where s': "load_retrieve_result_async cf env (t + 1) cands s = (Inr (), s')" "ks_base cf n s'"
          "\<forall>r'. r' \<noteq> Decode (int j * int ?S + 1) \<longrightarrow> available r' s \<longrightarrow> available r' s'"
        using load_retrieve_ok [OF srv mid(1) need pend] by blast
      have "int t + 1 - int ?S \<noteq> int j * int ?S + 1" using k j S by (simp add: algebra_simps)
      then have "available (pending_record ?S (Suc t)) s'" using s'(3) mid(4) True now by simp
      moreover have "ks_attention_finished cf env m s = (Inr (), s')"
        using True \<open>?S * 2 \<le> t\<close> S t c s'(1) by (simp add: ks_attention_finished_def)
      ultimately show ?thesis using s'(2) phase t(1) by (intro exI [of _ s']) (simp add: ks_ready_def)
    qed
  qed
qed

text \<open>Without representations, as after a prompt of at most two full blocks, a later step fails at the end.\<close>

lemma short_prompts_fail:
  assumes "kl_blk_repre s = None" and "kq_stage m = DECODE" and "kc_retrieval_stride cf * 2 \<le> kq_step m" "kq_step m mod kc_retrieval_stride cf = 0"
    and "0 < kc_retrieval_stride cf"
  shows "ks_attention_begin cf env query m s = (Inr (), s)" "ks_attention_finished cf env m s = (Inl AttributeError, s)"
  using assms by (simp_all add: ks_attention_begin_def ks_attention_finished_def get_retrieve_candidate_block_ids_def)

text \<open>The last chunk of the prompt leaves the layer ready for the first step.\<close>

lemma last_chunk_gets_ready:
  assumes m: "kq_stage m = PREFILL" "kq_num_computed_tokens m + kq_num_scheduled_tokens m = kq_num_prompt_tokens m"
    and full: "full = kq_num_prompt_tokens m div kk_block_size env" "2 < full" "full \<le> length (kq_vllm_block_ids m)"
      "2 \<le> kq_vllm_block_ids m ! (full - 1)" "kc_init_window_sz cf + kc_local_window_sz cf \<le> full"
    and s: "kl_block_size s \<in> {None, Some (kk_block_size env)}" "kl_block_size s = None \<or> kl_block_hashes s = kq_block_hashes m"
      "kl_num_blocks_dumped s = 0" "kl_tasks s = []" "full \<le> length (kq_block_hashes m)"
    and queries: "dict_get (kl_standby s) Prefill = Some grp" "List.map_filter (\<lambda>x. x) grp \<noteq> []"
      "\<forall>r g. dict_get (kl_standby s) r = Some g \<longrightarrow> length g = kc_retrieval_stride cf"
  shows "\<exists>s'. ks_attention_finished cf env m s = (Inr (), s') \<and> (\<exists>n \<le> full - kc_init_window_sz cf - kc_local_window_sz cf. ks_ready cf n 1 s')"
proof -
  let ?ids = "kq_vllm_block_ids m" and ?i = "kc_init_window_sz cf" and ?l = "kc_local_window_sz cf"
  define s1 where "s1 = (maybe_register_kv_cache env m s)\<lparr>kl_num_tokens := kq_num_prompt_tokens m\<rparr>"
  have s1: "kl_block_size s1 = Some (kk_block_size env)" "kl_num_blocks_dumped s1 = 0" "kl_standby s1 = kl_standby s" "kl_tasks s1 = []"
      "kl_block_hashes s1 = kq_block_hashes m"
    using s by (auto simp: s1_def maybe_register_kv_cache_def)
  have bs: "kk_block_size env \<noteq> 0" using full(1,2) by (auto intro!: gr0I)
  have fin: "ks_attention_finished cf env m s = compute_block_repre cf env m (int full) s1"
    using m bs s1(1,2) s(1,3) by (auto simp: ks_attention_finished_def Let_def s1_def maybe_register_kv_cache_def full(1) split: option.splits)
  have slice: "py_slice_int ?ids 0 (int full) = take full ?ids" by (simp add: py_slice_int_nonneg py_slice_def)
  have "take full ?ids \<noteq> []" using full(2,3) by auto
  moreover have "last (take full ?ids) = ?ids ! (full - 1)" using full(2,3) using \<open>take full ?ids \<noteq> []\<close> by (simp add: last_conv_nth min_def)
  ultimately have ex: "ks_extract_block_repre env (kl_world s1) (py_slice_int ?ids 0 (int full)) = Inr (Some (map (kr_represent env (kl_world s1)) (take full ?ids)))"
    using full(4) by (simp add: ks_extract_block_repre_def slice)
  define reps where "reps = py_slice_int (map (kr_represent env (kl_world s1)) (take full ?ids)) (int ?i) (- int ?l)"
  define s2 where "s2 = s1\<lparr>kl_blk_repre := Some reps\<rparr>"
  have run: "ks_attention_finished cf env m s = (Inr (), construct_init_and_local_window cf env m s2)"
    unfolding fin compute_block_repre_def s1(2) using m ex full(2,3) by (simp add: kq_is_last_chunk_def reps_def s2_def)
  have "length reps \<le> full - ?i - ?l" 
    using full(2,3,5) by (auto simp: reps_def py_slice_int_def py_bound_def)
  moreover have "0 < kc_retrieval_stride cf" 
  proof -
    have "length grp = kc_retrieval_stride cf" "grp \<noteq> []" using queries by (auto simp: map_filter_simps)
    then show ?thesis by (metis length_greater_0_conv)
  qed
  moreover have "ks_ready cf (length reps) 1 (construct_init_and_local_window cf env m s2)"
    using s1 queries full(5) s(5) calculation
    by (auto simp: ks_ready_def ks_base_def construct_init_and_local_window_def s2_def Let_def)
  ultimately show ?thesis using run by blast
qed

text \<open>
  C22: With services that answer and a stride of at least 2, generating tokens never gets stuck: each
  step returns, what a load needs has been searched for two strides before, and whenever the
  attention runs no load is outstanding.
\<close>

theorem searches_run_ahead_of_their_loads:
  assumes "ks_services env n" and "2 \<le> kc_retrieval_stride cf" and "ks_ready cf n t s"
    and "\<forall>j < length steps. decode_step (t + j) (fst (steps ! j)) (snd (steps ! j))"
    and "t = 1 \<longrightarrow> steps \<noteq> [] \<longrightarrow> windows_fit cf (snd (hd steps)) s"
  shows "\<exists>mids s'. ks_run cf env steps s = (Inr mids, s') \<and> length mids = length steps \<and> (\<forall>mid \<in> set mids. kl_tasks mid = [])
    \<and> ks_ready cf n (t + length steps) s'"
  using assms(3-5)
proof (induction steps arbitrary: t s)
  case Nil
  then show ?case by simp
next
  case (Cons qm steps)
  obtain q m where qm: "qm = (q, m)" by (cases qm)
  have m: "decode_step t q m" using Cons.prems(2) by (force simp: qm)
  have later: "\<forall>j < length steps. decode_step (Suc t + j) (fst (steps ! j)) (snd (steps ! j))"
  proof (intro allI impI)
    fix j assume "j < length steps"
    then show "decode_step (Suc t + j) (fst (steps ! j)) (snd (steps ! j))" using Cons.prems(2) [rule_format, of "Suc j"] by simp
  qed
  obtain mid where mid: "ks_attention_begin cf env q m s = (Inr (), mid)" "ks_base cf n mid" "kl_tasks mid = []"
      "kc_retrieval_stride cf < t \<longrightarrow> available (pending_record (kc_retrieval_stride cf) t) mid"
      "t mod kc_retrieval_stride cf = 0 \<longrightarrow> available (Decode (int t + 1 - int (kc_retrieval_stride cf))) mid"
    using ks_begin_ok [OF assms(1,2) Cons.prems(1) m] Cons.prems(3) by (auto simp: qm)
  obtain s1 where s1: "ks_attention_finished cf env m mid = (Inr (), s1)" "ks_ready cf n (Suc t) s1"
    using ks_finished_ok [OF assms(1,2) m mid(2-5)] by blast
  have "1 \<le> t" using Cons.prems(1) by (simp add: ks_ready_def)
  then have "Suc t = 1 \<longrightarrow> steps \<noteq> [] \<longrightarrow> windows_fit cf (snd (hd steps)) s1" by simp
  then obtain mids s' where run: "ks_run cf env steps s1 = (Inr mids, s')" "length mids = length steps"
      "\<forall>mid \<in> set mids. kl_tasks mid = []" "ks_ready cf n (Suc t + length steps) s'"
    using Cons.IH [OF s1(2) later] by blast
  show ?case using mid(1,3) s1(1) run by (intro exI [of _ "mid # mids"] exI [of _ s'] conjI) (simp_all add: qm)
qed

section \<open>Example\<close>

definition demo_ks_layer :: "(nat, nat, nat, nat) ks_layer" where
  "demo_ks_layer = (new_ks_layer 0 5)\<lparr>kl_blk_repre := Some [21, 22], kl_block_hashes := [''a'', ''b'', ''c'', ''d''], kl_init_window := Some ([20], [20]),
     kl_local_window := Some ([23], [23]), kl_block_size := Some 2, kl_standby := [(Prefill, [Some 17, Some 18])]\<rparr>"

theorem searches_run_ahead_of_their_loads_witness:
  "\<exists>mids s'. ks_run demo_ks_cfg demo_ks_env (map (\<lambda>t. ([0, 30 + t], demo_ks_meta (7 + t) 1 t)) [1..<7]) demo_ks_layer = (Inr mids, s')
     \<and> length mids = 6 \<and> (\<forall>mid \<in> set mids. kl_tasks mid = [])"
proof -
  let ?steps = "map (\<lambda>t. ([0, 30 + t], demo_ks_meta (7 + t) 1 t)) [1..<7]"
  have "\<exists>mids s'. ks_run demo_ks_cfg demo_ks_env ?steps demo_ks_layer = (Inr mids, s') \<and> length mids = length ?steps
    \<and> (\<forall>mid \<in> set mids. kl_tasks mid = []) \<and> ks_ready demo_ks_cfg 2 (1 + length ?steps) s'"
  proof (rule searches_run_ahead_of_their_loads)
    show "ks_services demo_ks_env 2" by (simp add: ks_services_def answers_def demo_ks_env_def)
    show "ks_ready demo_ks_cfg 2 1 demo_ks_layer"
      by (simp add: ks_ready_def ks_base_def demo_ks_cfg_def demo_ks_layer_def new_ks_layer_def map_filter_simps)
    have "py_int ''7'' = Inr 7" by code_simp
    then show "\<forall>j < length ?steps. decode_step (1 + j) (fst (?steps ! j)) (snd (?steps ! j))"
      by (simp add: decode_step_def demo_ks_meta_def del: upt_rec_numeral)
    show "1 = (1 :: nat) \<longrightarrow> ?steps \<noteq> [] \<longrightarrow> windows_fit demo_ks_cfg (snd (hd ?steps)) demo_ks_layer"
      by (simp add: hd_map windows_fit_def demo_ks_cfg_def demo_ks_meta_def demo_ks_layer_def new_ks_layer_def py_slice_int_def py_bound_def)
  qed (simp add: demo_ks_cfg_def)
  then obtain mids s' where "ks_run demo_ks_cfg demo_ks_env ?steps demo_ks_layer = (Inr mids, s')" "length mids = length ?steps"
      "\<forall>mid \<in> set mids. kl_tasks mid = []" by (elim exE conjE) (rule that)
  then show ?thesis by (intro exI [of _ mids] exI [of _ s']) (simp del: upt_rec_numeral)
qed

end
