(* ===== verification/Kvstar_Sparse.thy ===== *)
theory Kvstar_Sparse
  imports Kvstar_Decode
begin

text \<open>
  The batch side of \<open>KVStarMultiStep\<close> in \<open>multistep.py\<close>: the keys of a prompt's blocks, the metadata
  of a step, the states of all requests, and the token slots and blocks the scheduler keeps.
\<close>

section \<open>Block keys\<close>

text \<open>\<open>str\<close> of a byte string: its literal, with the quote that needs no escape.\<close>

definition repr_byte :: "char \<Rightarrow> char \<Rightarrow> string" where
  "repr_byte quote c =
     (let n = of_char c :: nat
      in if c = quote \<or> n = 92 then [CHR 0x5C, c]
         else if n = 9 then [CHR 0x5C, CHR ''t''] else if n = 10 then [CHR 0x5C, CHR ''n''] else if n = 13 then [CHR 0x5C, CHR ''r'']
         else if n < 32 \<or> 127 \<le> n then CHR 0x5C # CHR ''x'' # show_hex_padded 2 n
         else [c])"

definition str_bytes :: "bytes \<Rightarrow> string" where
  "str_bytes b =
     (let quote = (if CHR 0x27 \<in> set b \<and> CHR 0x22 \<notin> set b then CHR 0x22 else CHR 0x27)
      in CHR ''b'' # quote # concat (map (repr_byte quote) b) @ [quote])"

text \<open>
  The first parent is the integer of a digest, so the first block hashes a pair \<open>pickle_pair\<close> of an
  integer and tokens; later blocks hash a pair of a digest and tokens.
\<close>

definition compute_parent_block_hash :: "(bytes \<Rightarrow> bytes) \<Rightarrow> string \<Rightarrow> nat \<Rightarrow> string \<Rightarrow> nat \<Rightarrow> nat" where
  "compute_parent_block_hash md5 model_name world_size dtype seed_rank =
     foldl (\<lambda>n c. 256 * n + of_char c) 0
       (md5 (model_name @ '':'' @ show_nat world_size @ '':'' @ dtype @ '':'' @ show_nat seed_rank @ ''UCM_HASH_SEED''))"

fun ks_hash_chain :: "hash_funs \<Rightarrow> bytes \<Rightarrow> bytes \<Rightarrow> nat list list \<Rightarrow> bytes list" where
  "ks_hash_chain hf meta_bytes parent [] = []"
| "ks_hash_chain hf meta_bytes parent (blk # blks) =
     (let v = request_hasher hf meta_bytes (HBlock parent blk) in v # ks_hash_chain hf meta_bytes v blks)"

definition full_blocks :: "nat \<Rightarrow> nat list \<Rightarrow> nat list list" where
  "full_blocks bs toks = map (\<lambda>k. py_slice toks (k * bs) (k * bs + bs)) [0..<length toks div bs]"

definition ks_block_hashes ::
  "hash_funs \<Rightarrow> (nat \<Rightarrow> nat list \<Rightarrow> bytes) \<Rightarrow> hasher_config \<Rightarrow> nat \<Rightarrow> nat \<Rightarrow> bool \<Rightarrow> nat \<Rightarrow> nat list \<Rightarrow> string list" where
  "ks_block_hashes hf pickle_pair c world_size rank is_mla bs token_ids =
     (let meta0 = hasher_meta c 0; parent = compute_parent_block_hash (hf_md5 hf) (hc_model c) world_size (hc_dtype c) 0;
          hashes = (case full_blocks bs token_ids of
                      [] \<Rightarrow> []
                    | blk # blks \<Rightarrow> let v = hf_md5 hf (meta0 @ pickle_pair parent blk) in v # ks_hash_chain hf meta0 v blks);
          ids = map str_bytes hashes
      in if rank \<noteq> 0 \<and> \<not> is_mla then map (\<lambda>b. str_bytes (request_hasher hf (hasher_meta c rank) (HText b))) ids else ids)"

definition ks_set_block_hashes ::
  "hash_funs \<Rightarrow> (nat \<Rightarrow> nat list \<Rightarrow> bytes) \<Rightarrow> hasher_config \<Rightarrow> nat \<Rightarrow> nat \<Rightarrow> bool \<Rightarrow> nat \<Rightarrow> int \<Rightarrow> nat list
     \<Rightarrow> (int, string list) dict \<Rightarrow> (int, string list) dict result" where
  "ks_set_block_hashes hf pickle_pair c world_size rank is_mla bs rid token_ids tbl =
     (if rid \<in> dict_keys tbl then Inr tbl
      else if bs = 0 then Inl ValueError
      else Inr (dict_set rid (ks_block_hashes hf pickle_pair c world_size rank is_mla bs token_ids) tbl))"

section \<open>The metadata of a step\<close>

record ks_request =
  kp_prompt_token_ids :: "nat list"
  kp_output_token_ids :: "nat list"
  kp_num_computed_tokens :: nat
  kp_block_ids :: "nat list"

record ks_step =
  kt_num_scheduled :: "(string, nat) dict"
  kt_sparsed_slots :: "(string, int) dict"
  kt_req_id_to_index :: "(string, nat) dict"
  kt_query_start_loc :: "nat list"

type_synonym ks_hasher = "int \<Rightarrow> nat list \<Rightarrow> (int, string list) dict \<Rightarrow> (int, string list) dict result"

text \<open>
  \<open>hash\<close> is \<open>set_block_hashes\<close> of this rank. A query length is a difference of two positions and not
  negative, as the positions of a batch increase.
\<close>

definition ks_add_request ::
  "ks_cfg \<Rightarrow> nat \<Rightarrow> ks_step \<Rightarrow> string \<Rightarrow> nat \<Rightarrow> ks_request \<Rightarrow> string list \<Rightarrow> nat \<Rightarrow> nat \<Rightarrow> nat \<Rightarrow> ks_meta result" where
  "ks_add_request cf bs st rid n req hashes i q_start_loc q_len =
     rbind (py_key (kt_sparsed_slots st) rid) (\<lambda>sparsed.
       Inr \<lparr>kq_request_id = rid, kq_index_in_batch = i, kq_num_prompt_tokens = length (kp_prompt_token_ids req),
            kq_num_output_tokens = length (kp_output_token_ids req), kq_num_scheduled_tokens = n,
            kq_num_computed_tokens = kp_num_computed_tokens req, kq_num_sparsed_tokens = sparsed, kq_vllm_block_ids = kp_block_ids req,
            kq_token_blk_size = bs, kq_prompt_token_ids = kp_prompt_token_ids req, kq_query_start_loc = q_start_loc, kq_query_len = q_len,
            kq_retrieval_stride = kc_retrieval_stride cf, kq_block_hashes = hashes\<rparr>)"

fun ks_meta_loop ::
  "ks_hasher \<Rightarrow> ks_cfg \<Rightarrow> nat \<Rightarrow> ks_step \<Rightarrow> (string, ks_request) dict \<Rightarrow> (string \<times> nat) list \<Rightarrow> (int, string list) dict
     \<Rightarrow> (ks_meta list \<times> (int, string list) dict) result" where
  "ks_meta_loop hash cf bs st requests [] tbl = Inr ([], tbl)"
| "ks_meta_loop hash cf bs st requests ((rid, n) # rest) tbl =
     rbind (py_key requests rid) (\<lambda>req.
       rbind (py_int rid) (\<lambda>num.
         rbind (hash num (kp_prompt_token_ids req) tbl) (\<lambda>tbl'.
           rbind (py_key (kt_req_id_to_index st) rid) (\<lambda>i.
             rbind (py_index (kt_query_start_loc st) i) (\<lambda>start.
               rbind (py_index (kt_query_start_loc st) (i + 1)) (\<lambda>stop.
                 rbind (if bs < length (kp_prompt_token_ids req)
                        then rbind (py_key tbl' num) (\<lambda>hashes. rbind (ks_add_request cf bs st rid n req hashes i start (stop - start)) (\<lambda>m. Inr [m]))
                        else Inr []) (\<lambda>ms.
                   rbind (ks_meta_loop hash cf bs st requests rest tbl') (\<lambda>(ms', tbl''). Inr (ms @ ms', tbl'')))))))))"

definition ks_build_sparse_meta ::
  "ks_hasher \<Rightarrow> ks_cfg \<Rightarrow> nat \<Rightarrow> ks_step \<Rightarrow> (string, ks_request) dict \<Rightarrow> (int, string list) dict \<Rightarrow> (ks_meta list \<times> (int, string list) dict) result" where
  "ks_build_sparse_meta hash cf bs st requests tbl = ks_meta_loop hash cf bs st requests (kt_num_scheduled st) tbl"

section \<open>The states of all requests\<close>

record ('w, 'd, 'q, 'r) ks_worker =
  kw_req_states :: "(string, ('w, 'd, 'q, 'r) ks_layer option list) dict"
  kw_world :: 'w

definition create_layerwise_req_state :: "ks_cfg \<Rightarrow> nat \<Rightarrow> ks_meta \<Rightarrow> ('w, 'd, 'q, 'r) ks_worker \<Rightarrow> unit result \<times> ('w, 'd, 'q, 'r) ks_worker" where
  "create_layerwise_req_state cf l m u0 =
     (let rid = kq_request_id m;
          u = (if rid \<in> dict_keys (kw_req_states u0) then u0
               else u0\<lparr>kw_req_states := dict_set rid (replicate (kc_num_layers cf) None) (kw_req_states u0)\<rparr>)
      in case rbind (py_key (kw_req_states u) rid) (\<lambda>ls. rbind (py_index ls l) (\<lambda>x. Inr (ls, x))) of
           Inl e \<Rightarrow> (Inl e, u)
         | Inr (ls, Some s) \<Rightarrow> (Inr (), u)
         | Inr (ls, None) \<Rightarrow> (Inr (), u\<lparr>kw_req_states := dict_set rid (ls[l := Some (new_ks_layer l (kw_world u))]) (kw_req_states u)\<rparr>))"

definition run_ks_layer ::
  "nat \<Rightarrow> (('w, 'd, 'q, 'r) ks_layer \<Rightarrow> unit result \<times> ('w, 'd, 'q, 'r) ks_layer) \<Rightarrow> string \<Rightarrow> ('w, 'd, 'q, 'r) ks_worker
     \<Rightarrow> unit result \<times> ('w, 'd, 'q, 'r) ks_worker" where
  "run_ks_layer l f rid u =
     (case rbind (py_key (kw_req_states u) rid) (\<lambda>ls. rbind (py_index ls l) (\<lambda>x. Inr (ls, x))) of
        Inl e \<Rightarrow> (Inl e, u)
      | Inr (ls, None) \<Rightarrow> (Inl AttributeError, u)
      | Inr (ls, Some s) \<Rightarrow>
          (case f (s\<lparr>kl_world := kw_world u\<rparr>) of
             (r, s') \<Rightarrow> (r, u\<lparr>kw_req_states := dict_set rid (ls[l := Some s']) (kw_req_states u), kw_world := kl_world s'\<rparr>)))"

fun ks_each :: "(ks_meta \<Rightarrow> 's \<Rightarrow> unit result \<times> 's) \<Rightarrow> ks_meta list \<Rightarrow> 's \<Rightarrow> unit result \<times> 's" where
  "ks_each f [] u = (Inr (), u)"
| "ks_each f (m # ms) u = then_do (f m u) (\<lambda>_ u'. ks_each f ms u')"

definition multistep_attention_begin ::
  "ks_cfg \<Rightarrow> (nat \<Rightarrow> ('w, 'd, 'q, 'r) ks_env) \<Rightarrow> nat \<Rightarrow> 'q list \<Rightarrow> ks_meta list \<Rightarrow> ('w, 'd, 'q, 'r) ks_worker \<Rightarrow> unit result \<times> ('w, 'd, 'q, 'r) ks_worker" where
  "multistep_attention_begin cf env l query =
     ks_each (\<lambda>m u. then_do (create_layerwise_req_state cf l m u) (\<lambda>_ u'.
       run_ks_layer l (ks_attention_begin cf (env l) query m) (kq_request_id m) u'))"

definition multistep_attention_finished ::
  "ks_cfg \<Rightarrow> (nat \<Rightarrow> ('w, 'd, 'q, 'r) ks_env) \<Rightarrow> nat \<Rightarrow> ks_meta list \<Rightarrow> ('w, 'd, 'q, 'r) ks_worker \<Rightarrow> unit result \<times> ('w, 'd, 'q, 'r) ks_worker" where
  "multistep_attention_finished cf env l =
     ks_each (\<lambda>m u. then_do (create_layerwise_req_state cf l m u) (\<lambda>_ u'.
       run_ks_layer l (ks_attention_finished cf (env l) m) (kq_request_id m) u'))"

definition multistep_request_finished :: "string \<Rightarrow> ('w, 'd, 'q, 'r) ks_worker \<Rightarrow> unit result \<times> ('w, 'd, 'q, 'r) ks_worker" where
  "multistep_request_finished rid u =
     (if rid \<in> dict_keys (kw_req_states u) then (Inr (), u\<lparr>kw_req_states := dict_pop rid (kw_req_states u)\<rparr>) else (Inl KeyError, u))"

section \<open>Slots and blocks\<close>

definition compressed_blocks :: "ks_cfg \<Rightarrow> nat \<Rightarrow> nat \<Rightarrow> int" where
  "compressed_blocks cf bs num_prompt_tokens =
     (let num_prefill_fully_block = num_prompt_tokens div bs;
          num_prefill_keep_fixed_blk = min (kc_init_window_sz cf + kc_local_window_sz cf) num_prefill_fully_block;
          num_sparse_saved_fully_blk = kc_scaled_up cf (num_prefill_fully_block - num_prefill_keep_fixed_blk)
      in int num_prefill_fully_block - int num_sparse_saved_fully_blk - int num_prefill_keep_fixed_blk)"

definition ks_estimate_num_slots_sparsed :: "ks_cfg \<Rightarrow> nat \<Rightarrow> nat \<Rightarrow> nat \<Rightarrow> int result" where
  "ks_estimate_num_slots_sparsed cf bs num_prompt_tokens num_output_tokens =
     (if num_output_tokens = 0 then Inr (- 1)
      else if bs = 0 then Inl ZeroDivisionError
      else
        let num_tokens = num_prompt_tokens + num_output_tokens;
            num_blocks_this_step_budget = int (ceil_div num_tokens bs) - compressed_blocks cf bs num_prompt_tokens;
            tail = num_tokens mod bs
        in Inr (if tail \<noteq> 0 then (num_blocks_this_step_budget - 1) * int bs + int tail else num_blocks_this_step_budget * int bs))"

text \<open>
  The calls on vLLM's coordinator and block pool are parameters. The list registered for the request
  is the list that is returned, and vLLM's allocation appends to it.
\<close>

record 'm ks_manager =
  kg_get_blocks :: "'m \<Rightarrow> string \<Rightarrow> nat list"
  kg_set_blocks :: "string \<Rightarrow> nat list \<Rightarrow> 'm \<Rightarrow> 'm"
  kg_evict :: "nat \<Rightarrow> 'm \<Rightarrow> 'm"
  kg_free_blocks :: "nat list \<Rightarrow> 'm \<Rightarrow> 'm"
  kg_blocks_to_allocate :: "string \<Rightarrow> int \<Rightarrow> 'm \<Rightarrow> nat"
  kg_num_free_blocks :: "'m \<Rightarrow> nat"
  kg_allocate_new_blocks :: "string \<Rightarrow> int \<Rightarrow> 'm \<Rightarrow> 'm"

definition kept_and_returned :: "nat list \<Rightarrow> nat \<Rightarrow> nat list \<times> nat list" where
  "kept_and_returned allocated num_blocks_need =
     (let kept = map snd (filter (\<lambda>(i, b). int (length allocated) - int num_blocks_need \<le> int i) (enumerate 0 allocated));
          returned = map snd (filter (\<lambda>(i, b). int i < int (length allocated) - int num_blocks_need) (enumerate 0 allocated))
      in (kept, returned))"

definition ks_allocate_slots :: "'m ks_manager \<Rightarrow> nat \<Rightarrow> string \<Rightarrow> nat \<Rightarrow> 'm \<Rightarrow> nat list option \<times> 'm" where
  "ks_allocate_slots mg bs rid num_slots_sparsed s0 =
     (let allocated = kg_get_blocks mg s0 rid;
          (kept, returned) = kept_and_returned allocated (ceil_div num_slots_sparsed bs);
          s1 = kg_free_blocks mg returned (fold (kg_evict mg) allocated s0);
          s2 = kg_set_blocks mg rid kept s1
      in if kg_num_free_blocks mg s2 < kg_blocks_to_allocate mg rid (int num_slots_sparsed) s2 then (None, s2)
         else let s3 = kg_allocate_new_blocks mg rid (int num_slots_sparsed) s2 in (Some (kg_get_blocks mg s3 rid), s3))"

text \<open>The blocks kept are the last ones.\<close>

lemma enumerate_from:
  "map snd (filter (\<lambda>(i, b). m \<le> i) (enumerate k xs)) = drop (m - k) xs"
  "map snd (filter (\<lambda>(i, b). i < m) (enumerate k xs)) = take (m - k) xs"
proof (induction xs arbitrary: k)
  case Nil
  case 1
  then show ?case by simp
next
  case Nil
  case 2
  then show ?case by simp
next
  case (Cons x xs)
  have step: "m - k = Suc (m - Suc k)" if "k < m" for k using that by simp
  case 1
  show ?case
  proof (cases "k < m")
    case True
    then show ?thesis using Cons(1) [of "Suc k"] by (simp only: enumerate_simps) (simp add: step)
  next
    case False
    then show ?thesis using Cons(1) [of "Suc k"] by simp
  qed
next
  case (Cons x xs)
  have step: "m - k = Suc (m - Suc k)" if "k < m" for k using that by simp
  case 2
  then show ?case using Cons(2) [of "Suc k"] step by (cases "k < m") simp_all
qed

lemma kept_and_returned_eq:
  "kept_and_returned allocated need = (drop (length allocated - need) allocated, take (length allocated - need) allocated)"
proof -
  have "int (length allocated) - int need \<le> int i \<longleftrightarrow> length allocated - need \<le> i" "int i < int (length allocated) - int need \<longleftrightarrow> i < length allocated - need" for i
    by arith+
  then show ?thesis by (simp add: kept_and_returned_def enumerate_from)
qed

lemma sparse_budget:
  assumes "0 < bs" and "0 < outputs" and "\<And>n. kc_scaled_up cf n \<le> n"
    and est: "ks_estimate_num_slots_sparsed cf bs prompt outputs = Inr est"
  shows "\<exists>dropped. compressed_blocks cf bs prompt = int dropped \<and> dropped * bs \<le> prompt \<and> est = int (prompt + outputs - dropped * bs)
    \<and> ceil_div (nat est) bs = ceil_div (prompt + outputs) bs - dropped \<and> nat (est - 1) mod bs = (prompt + outputs - 1) mod bs"
proof -
  let ?full = "prompt div bs" and ?t = "prompt + outputs"
  let ?keep = "min (kc_init_window_sz cf + kc_local_window_sz cf) ?full"
  define d where "d = ?full - ?keep - kc_scaled_up cf (?full - ?keep)"
  have c: "compressed_blocks cf bs prompt = int d"
    using assms(3) [of "?full - ?keep"] by (simp add: compressed_blocks_def d_def Let_def of_nat_diff)
  have dp: "d * bs \<le> prompt"
  proof -
    have "d \<le> ?full" by (simp add: d_def)
    then have "d * bs \<le> ?full * bs" by (rule mult_le_mono1)
    also have "\<dots> \<le> prompt" by (rule div_times_less_eq_dividend)
    finally show ?thesis .
  qed
  note up = ceil_div_eq [OF assms(1)]
  have e: "est = int (?t - d * bs)"
  proof -
    have dv: "int ?t = int (?t div bs) * int bs + int (?t mod bs)" by (metis div_mult_mod_eq of_nat_add of_nat_mult)
    have "est = int (?t div bs) * int bs + int (?t mod bs) - int d * int bs"
      using est assms(1,2) unfolding ks_estimate_num_slots_sparsed_def c up by (auto simp: Let_def algebra_simps split: if_splits)
    then have "est = int ?t - int d * int bs" by (simp only: dv [symmetric])
    then show ?thesis using dp by (simp add: of_nat_diff)
  qed
  note same = drop_whole_blocks [OF assms(1), of d]
  have "d \<le> ?t div bs" using dp assms(1) by (simp add: less_eq_div_iff_mult_less_eq)
  then have blocks: "ceil_div (nat est) bs = ceil_div ?t bs - d"
    using same [of ?t] dp unfolding up e nat_int by (simp add: Suc_diff_le)
  have "?t - d * bs = Suc (?t - 1 - d * bs)" using assms(2) dp by simp
  then have "nat (est - 1) = ?t - 1 - d * bs" unfolding e by (simp del: of_nat_diff)
  then have "nat (est - 1) mod bs = (?t - 1) mod bs" using same(1) [of "?t - 1"] dp assms(2) by simp
  then show ?thesis using c dp e blocks by (intro exI [of _ d]) simp
qed

text \<open>
  C33: While a request generates tokens, its budget of slots is the number of its tokens less whole
  blocks, those of the prompt that are neither in a window nor in the swap area: every token keeps
  its offset in its block, and the last one is in the last block of the budget.
\<close>

theorem sparse_budget_drops_whole_blocks:
  assumes "0 < bs" and "0 < outputs" and "\<And>n. kc_scaled_up cf n \<le> n"
    and est: "ks_estimate_num_slots_sparsed cf bs prompt outputs = Inr est"
  shows "\<exists>dropped. compressed_blocks cf bs prompt = int dropped \<and> dropped * bs \<le> prompt \<and> est = int (prompt + outputs - dropped * bs)
    \<and> ceil_div (nat est) bs = ceil_div (prompt + outputs) bs - dropped \<and> nat (est - 1) mod bs = (prompt + outputs - 1) mod bs"
  by (rule sparse_budget [OF assms])

text \<open>
  With the first generated token a request gives back the first blocks and keeps the last ones. Where
  the prompt has a partial last block the new token goes there; where it fills its blocks and blocks
  are dropped, no block is allocated for the new token: it goes to the start of the last prompt block.
\<close>

lemma first_token_block:
  assumes bs: "0 < bs" and up: "\<And>n. kc_scaled_up cf n \<le> n" and d: "compressed_blocks cf bs prompt = int d" "0 < d"
    and est: "ks_estimate_num_slots_sparsed cf bs prompt 1 = Inr est" and ids: "length ids = ceil_div prompt bs"
  shows "kept_and_returned ids (ceil_div (nat est) bs)
      = (if prompt mod bs = 0 then (drop (d - 1) ids, take (d - 1) ids) else (drop d ids, take d ids))"
    and "nat (est - 1) div bs = ceil_div (nat est) bs - 1" "nat (est - 1) mod bs = prompt mod bs"
proof -
  obtain dd where dd: "compressed_blocks cf bs prompt = int dd" "dd * bs \<le> prompt" "est = int (prompt + 1 - dd * bs)"
      "ceil_div (nat est) bs = ceil_div (prompt + 1) bs - dd" "nat (est - 1) mod bs = (prompt + 1 - 1) mod bs"
    using sparse_budget [OF bs _ up est] by auto
  have "dd = d" using dd(1) d(1) by simp
  note c = ceil_div_eq [OF bs]
  have dle: "d \<le> prompt div bs" using dd(2) bs \<open>dd = d\<close> by (simp add: less_eq_div_iff_mult_less_eq)
  have need: "ceil_div (nat est) bs = prompt div bs + 1 - d"
  proof (cases "Suc (prompt mod bs) = bs")
    case True
    then have "(prompt + 1) div bs = prompt div bs + 1" "(prompt + 1) mod bs = 0" by (simp_all add: div_Suc mod_Suc)
    then show ?thesis using dd(4) \<open>dd = d\<close> by (simp add: c)
  next
    case False
    then have "(prompt + 1) div bs = prompt div bs" "(prompt + 1) mod bs \<noteq> 0" by (simp_all add: div_Suc mod_Suc)
    then show ?thesis using dd(4) \<open>dd = d\<close> by (simp add: c)
  qed
  show "kept_and_returned ids (ceil_div (nat est) bs)
      = (if prompt mod bs = 0 then (drop (d - 1) ids, take (d - 1) ids) else (drop d ids, take d ids))"
    using ids dle d(2) unfolding need kept_and_returned_eq by (simp add: c [of prompt] Suc_diff_le)
  show "nat (est - 1) mod bs = prompt mod bs" using dd(5) by simp
  have "prompt + 1 - d * bs = Suc (prompt - d * bs)" using dd(2) \<open>dd = d\<close> by (simp add: Suc_diff_le)
  then have "nat (est - 1) = prompt - d * bs" using dd(3) \<open>dd = d\<close> by (simp del: of_nat_diff)
  moreover obtain r where "prompt = d * bs + r" using le_Suc_ex [OF dd(2)] \<open>dd = d\<close> by blast
  ultimately show "nat (est - 1) div bs = ceil_div (nat est) bs - 1" using bs need by simp
qed

section \<open>Example\<close>

theorem sparse_budget_drops_whole_blocks_witness:
  "ks_estimate_num_slots_sparsed demo_ks_cfg 2 17 3 = Inr 14 \<and> ceil_div 14 2 = ceil_div 20 2 - 3"
proof -
  have est: "ks_estimate_num_slots_sparsed demo_ks_cfg 2 17 3 = Inr 14" by code_simp
  have "kc_scaled_up demo_ks_cfg n \<le> n" for n by (simp add: demo_ks_cfg_def)
  from sparse_budget_drops_whole_blocks [OF _ _ this est]
  obtain d where "14 = int (20 - d * 2)" "ceil_div 14 2 = ceil_div 20 2 - d" "d * 2 \<le> 17" by auto
  moreover from this have "d = 3" by simp
  ultimately show ?thesis using est by simp
qed

end
