(* ===== verification/Gsa_Stats.thy ===== *)
theory Gsa_Stats
  imports Esa_Layer
begin

text \<open>
  Sparse attention of \<open>src/ucm/sparse/gsa/gsa.py\<close>, what it keeps about one request (\<open>GSAConfig\<close> of
  \<open>src/ucm/sparse/utils.py\<close>, \<open>GSAReqStat\<close>): its blocks, the slots of their representations, which
  blocks a step has to represent, which must be chosen, and which blocks stay on the device after
  the prompt.
\<close>

section \<open>Configuration\<close>

text \<open>
  \<open>GSAConfig\<close>, with the constants of the module and what the code reads of vLLM's configuration
  as further fields. The block size is positive.
\<close>

record gsa_cfg =
  gc_block_size :: nat
  gc_init_windows_size :: nat
  gc_num_prefetch_blocks :: nat
  gc_min_topk_len :: nat
  gc_max_topk_len :: nat
  gc_seg_prefill_threshold :: nat
  gc_ptopk_prefetch_enable :: bool
  gc_use_mla :: bool
  gc_rank :: nat

definition set_config :: "nat \<Rightarrow> gsa_cfg \<Rightarrow> gsa_cfg" where
  "set_config bs cf = cf\<lparr>gc_block_size := bs, gc_min_topk_len := ceil_div (32 * 128) bs,
     gc_max_topk_len := ceil_div (48 * 128) bs, gc_num_prefetch_blocks := ceil_div (1 * 128) bs,
     gc_init_windows_size := ceil_div (1 * 128) bs\<rparr>"

text \<open>
  The code multiplies by the double \<open>0.3\<close> and rounds up. The product is an integer exactly where
  ten divides the number of blocks, so that this is rounding up three tenths.
\<close>

definition compute_topk_len :: "gsa_cfg \<Rightarrow> nat \<Rightarrow> nat" where
  "compute_topk_len cf raw_seq_len =
     (let topk_len = ceil_div (3 * raw_seq_len) 10
      in if topk_len < gc_min_topk_len cf then min (gc_min_topk_len cf) raw_seq_len
         else if gc_max_topk_len cf < topk_len then gc_max_topk_len cf
         else topk_len)"

lemma ceil_div_le_self: "ceil_div (3 * n) 10 \<le> n"
  by (cases "n = 0") (simp_all add: ceil_div_def)

lemma compute_topk_len_le: "compute_topk_len cf n \<le> n"
  using ceil_div_le_self [of n] by (auto simp: compute_topk_len_def Let_def)

lemma compute_topk_len_mono:
  assumes "gc_min_topk_len cf \<le> gc_max_topk_len cf" and "m \<le> n"
  shows "compute_topk_len cf m \<le> compute_topk_len cf n"
proof -
  have "ceil_div (3 * m) 10 \<le> ceil_div (3 * n) 10"
    using assms(2) by (simp add: ceil_div_def div_le_mono)
  then show ?thesis using assms ceil_div_le_self [of m] by (auto simp: compute_topk_len_def Let_def)
qed

text \<open>As long as a request has as many blocks as its window, the chosen blocks include the window.\<close>

lemma compute_topk_len_ge:
  assumes "w \<le> gc_min_topk_len cf" and "w \<le> n" and "gc_min_topk_len cf \<le> gc_max_topk_len cf"
  shows "w \<le> compute_topk_len cf n"
  using assms by (auto simp: compute_topk_len_def Let_def)

section \<open>A request\<close>

text \<open>
  \<open>GSAReqStat\<close>. \<open>topk_buf_tmp\<close> has a row of block indices per layer; \<open>reamin_map\<close> and
  \<open>prefetch_map\<close> (so spelled) have a map from block indices to device blocks per layer.
\<close>

record gsa_stat =
  gr_repre_slot_mapping :: "nat list"
  gr_calc_block_table :: "nat list"
  gr_calc_repre_slot_mapping :: "nat list"
  gr_include_mask :: "bool list"
  gr_exclude_mask :: "bool list"
  gr_blocks :: "nat list"
  gr_num_computed_tokens :: nat
  gr_num_scheduled_tokens :: nat
  gr_num_prompt_tokens :: nat
  gr_num_output_tokens :: nat
  gr_is_use_gsa :: bool
  gr_index_in_batch :: nat
  gr_remain_idx :: "nat list option"
  gr_prefetch_idx :: "nat list option"
  gr_topk_buf_tmp :: "nat list list option"
  gr_sparse_len :: nat
  gr_block_hashes :: "bytes list option"
  gr_num_prompt_blocks :: nat
  gr_reamin_map :: "(nat, nat) dict option list option"
  gr_prefetch_map :: "(nat, nat) dict option list option"

definition new_gsa_stat :: gsa_stat where
  "new_gsa_stat = \<lparr>gr_repre_slot_mapping = [], gr_calc_block_table = [], gr_calc_repre_slot_mapping = [],
     gr_include_mask = [], gr_exclude_mask = [], gr_blocks = [], gr_num_computed_tokens = 0,
     gr_num_scheduled_tokens = 0, gr_num_prompt_tokens = 0, gr_num_output_tokens = 0, gr_is_use_gsa = False,
     gr_index_in_batch = 0, gr_remain_idx = None, gr_prefetch_idx = None, gr_topk_buf_tmp = None, gr_sparse_len = 0,
     gr_block_hashes = None, gr_num_prompt_blocks = 0, gr_reamin_map = None, gr_prefetch_map = None\<rparr>"

text \<open>What the code reads of vLLM's \<open>CachedRequestState\<close>; the blocks are those of group 0.\<close>

record cached_state =
  cr_block_ids :: "nat list"
  cr_num_computed_tokens :: nat
  cr_prompt_token_ids :: "nat list"
  cr_output_token_ids :: "nat list"

datatype sequence_stage = DECODE | PREFILL

definition gsa_step :: "gsa_stat \<Rightarrow> nat" where
  "gsa_step s = gr_num_output_tokens s"

definition gsa_stage :: "gsa_stat \<Rightarrow> sequence_stage" where
  "gsa_stage s = (if gr_num_prompt_tokens s \<le> gr_num_computed_tokens s then DECODE else PREFILL)"

definition is_gsa :: "gsa_cfg \<Rightarrow> gsa_stat \<Rightarrow> bool" where
  "is_gsa cf s \<longleftrightarrow> gc_seg_prefill_threshold cf < gr_num_prompt_tokens s \<and> gsa_stage s \<noteq> PREFILL"

definition gsa_is_last_chunk :: "gsa_stat \<Rightarrow> bool" where
  "gsa_is_last_chunk s \<longleftrightarrow> gr_num_computed_tokens s + gr_num_scheduled_tokens s = gr_num_prompt_tokens s"

definition get_seq_len :: "gsa_stat \<Rightarrow> nat" where
  "get_seq_len s = gr_num_computed_tokens s + gr_num_scheduled_tokens s"

text \<open>
  The hashes of the prompt's full blocks: \<open>gh_seed\<close> is \<open>compute_parent_block_hash\<close> of the model,
  \<open>gh_next\<close> the hash of a parent and a block's tokens, \<open>gh_rank\<close> the hash of another rank. The loop
  carries the hash of the last block along; it does not append it to the list.
\<close>

record gsa_hashes =
  gh_seed :: bytes
  gh_next :: "bytes \<Rightarrow> nat list \<Rightarrow> bytes"
  gh_rank :: "bytes \<Rightarrow> bytes"

definition full_token_blocks :: "nat \<Rightarrow> nat list \<Rightarrow> nat list list" where
  "full_token_blocks bs token_ids = map (\<lambda>i. py_slice token_ids (i * bs) (i * bs + bs)) [0..<length token_ids div bs]"

definition gsa_set_block_hashes :: "gsa_cfg \<Rightarrow> gsa_hashes \<Rightarrow> nat list \<Rightarrow> gsa_stat \<Rightarrow> gsa_stat" where
  "gsa_set_block_hashes cf h token_ids s =
     (case gr_block_hashes s of
        Some _ \<Rightarrow> s
      | None \<Rightarrow>
          let (hashes, parent) = fold (\<lambda>tokens (hashes, parent). (hashes, gh_next h parent tokens))
                (full_token_blocks (gc_block_size cf) token_ids) ([], gh_seed h)
          in s\<lparr>gr_block_hashes := Some (if gc_rank cf \<noteq> 0 \<and> \<not> gc_use_mla cf then map (gh_rank h) hashes else hashes)\<rparr>)"

lemma block_hashes_stay_empty:
  "gr_block_hashes s = None \<Longrightarrow> gr_block_hashes (gsa_set_block_hashes cf h ts s) = Some []"
proof -
  have "fst (fold (\<lambda>tokens (hashes, parent). (hashes, gh_next h parent tokens)) bs (a, p)) = a" for bs and a :: "bytes list" and p
    by (induction bs arbitrary: p) auto
  then show "gr_block_hashes s = None \<Longrightarrow> ?thesis"
    by (auto simp: gsa_set_block_hashes_def split: prod.splits) (metis fst_conv)+
qed

section \<open>The slots of a request\<close>

definition init_mask :: "nat \<Rightarrow> bool list" where
  "init_mask value = (if 2 < value then (replicate value False)[0 := True, value - 1 := True, value - 2 := True] else replicate value True)"

definition gsa_init_slot :: "nat \<Rightarrow> gsa_stat \<Rightarrow> gsa_stat" where
  "gsa_init_slot offset s =
     (let slots = map (\<lambda>x. x + offset) [0..<length (gr_blocks s)];
          (blocks, calc) = (if gsa_is_last_chunk s then (butlast (gr_blocks s), butlast slots) else (gr_blocks s, slots));
          value = length (gr_blocks s)
      in s\<lparr>gr_repre_slot_mapping := slots, gr_calc_block_table := blocks, gr_calc_repre_slot_mapping := calc,
           gr_include_mask := init_mask value, gr_exclude_mask := replicate value False\<rparr>)"

text \<open>The loop of \<open>_update_slot\<close> adds a slot after the last one.\<close>

fun add_slots :: "nat \<Rightarrow> gsa_stat \<Rightarrow> gsa_stat result" where
  "add_slots 0 s = Inr s"
| "add_slots (Suc n) s =
     (if gr_repre_slot_mapping s = [] then Inl IndexError
      else
        let mask = gr_include_mask s
        in add_slots n (s\<lparr>gr_repre_slot_mapping := gr_repre_slot_mapping s @ [last (gr_repre_slot_mapping s) + 1],
             gr_include_mask := (if 2 < length mask then mask[length mask - 2 := False] @ [True] else mask @ [True]),
             gr_exclude_mask := gr_exclude_mask s @ [False]\<rparr>))"

definition gsa_update_slot :: "nat list \<Rightarrow> gsa_stat \<Rightarrow> gsa_stat result" where
  "gsa_update_slot add_blocks s0 =
     (let add_len = length add_blocks
      in rbind (add_slots add_len s0) (\<lambda>s.
        if 0 < add_len
        then
          if gsa_stage s = PREFILL
          then
            if gsa_is_last_chunk s
            then Inr (s\<lparr>gr_calc_block_table := butlast add_blocks,
                        gr_calc_repre_slot_mapping := py_slice_int (gr_repre_slot_mapping s) (- int add_len) (- 1)\<rparr>)
            else Inr (s\<lparr>gr_calc_block_table := add_blocks,
                        gr_calc_repre_slot_mapping := py_slice_int (gr_repre_slot_mapping s) (- int add_len) (int (length (gr_repre_slot_mapping s)))\<rparr>)
          else if gr_blocks s = [] then Inl IndexError
          else Inr (s\<lparr>gr_calc_block_table := [last (gr_blocks s)], gr_calc_repre_slot_mapping := [last (gr_repre_slot_mapping s)]\<rparr>)
        else Inr (s\<lparr>gr_calc_block_table := [], gr_calc_repre_slot_mapping := []\<rparr>)))"

text \<open>
  \<open>_get_sparse_and_free_block\<close>: which blocks of the prompt stay on the device, in the step after
  its last chunk. Slices with a negative bound count from the end.
\<close>

definition get_sparse_and_free_block :: "gsa_cfg \<Rightarrow> gsa_stat \<Rightarrow> gsa_stat" where
  "get_sparse_and_free_block cf s =
     (if gr_num_prompt_tokens s \<noteq> gr_num_computed_tokens s then s\<lparr>gr_remain_idx := None, gr_prefetch_idx := None\<rparr>
      else
        let blocks_len = length (gr_blocks s);
            remain_len = compute_topk_len cf blocks_len
        in if gc_seg_prefill_threshold cf < gr_num_prompt_tokens s \<and> gc_ptopk_prefetch_enable cf \<and> remain_len < blocks_len
           then
             let prefetch_len = min (gc_num_prefetch_blocks cf) (blocks_len - remain_len);
                 req_idx_list = [0..<blocks_len];
                 w = gc_init_windows_size cf
             in s\<lparr>gr_remain_idx := Some (py_slice_int req_idx_list 0 (int w) @ py_slice_int req_idx_list (int w - int remain_len) (int blocks_len)),
                  gr_prefetch_idx := Some (py_slice_int req_idx_list (int w - int remain_len - int prefetch_len) (int w - int remain_len)),
                  gr_sparse_len := remain_len + prefetch_len\<rparr>
           else s\<lparr>gr_remain_idx := Some [0..<blocks_len], gr_prefetch_idx := Some [], gr_sparse_len := blocks_len\<rparr>)"

section \<open>New and known requests\<close>

definition cut_slots :: "gsa_stat \<Rightarrow> gsa_stat" where
  "cut_slots s = s\<lparr>gr_repre_slot_mapping := take (length (gr_blocks s)) (gr_repre_slot_mapping s)\<rparr>"

definition add_req_new :: "gsa_cfg \<Rightarrow> gsa_hashes \<Rightarrow> nat \<Rightarrow> cached_state \<Rightarrow> nat \<Rightarrow> nat \<Rightarrow> gsa_stat \<Rightarrow> gsa_stat" where
  "add_req_new cf h num_scheduled_tokens r index_in_batch offset s =
     (let prompt = length (cr_prompt_token_ids r);
          s1 = s\<lparr>gr_blocks := cr_block_ids r, gr_index_in_batch := index_in_batch,
                 gr_num_computed_tokens := cr_num_computed_tokens r, gr_num_scheduled_tokens := num_scheduled_tokens,
                 gr_num_prompt_tokens := prompt, gr_num_output_tokens := length (cr_output_token_ids r),
                 gr_num_prompt_blocks := ceil_div prompt (gc_block_size cf),
                 gr_is_use_gsa := gc_seg_prefill_threshold cf < prompt\<rparr>;
          s2 = gsa_init_slot offset s1;
          s3 = (if length (gr_blocks s2) < length (gr_repre_slot_mapping s2) then cut_slots s2 else s2)
      in gsa_set_block_hashes cf h (cr_prompt_token_ids r) s3)"

definition updata_req_state :: "gsa_cfg \<Rightarrow> nat \<Rightarrow> cached_state \<Rightarrow> nat \<Rightarrow> gsa_stat \<Rightarrow> gsa_stat result" where
  "updata_req_state cf num_scheduled_tokens r index_in_batch s =
     (let s1 = s\<lparr>gr_num_computed_tokens := cr_num_computed_tokens r, gr_num_scheduled_tokens := num_scheduled_tokens,
                 gr_num_output_tokens := length (cr_output_token_ids r), gr_index_in_batch := index_in_batch\<rparr>;
          ids = cr_block_ids r;
          updated =
            (if gsa_stage s1 = PREFILL
             then gsa_update_slot (filter (\<lambda>x. x \<notin> set (gr_blocks s1)) ids) (s1\<lparr>gr_blocks := ids\<rparr>)
             else
               let s2 = get_sparse_and_free_block cf s1
               in if length ids \<noteq> gr_sparse_len s2
                  then if ids = [] then Inl IndexError
                       else gsa_update_slot [last ids] (s2\<lparr>gr_blocks := gr_blocks s2 @ [last ids], gr_sparse_len := length ids\<rparr>)
                  else Inr (s2\<lparr>gr_calc_block_table := [], gr_calc_repre_slot_mapping := []\<rparr>))
      in rbind updated (\<lambda>s3.
           Inr (if length (gr_blocks s3) < length (gr_repre_slot_mapping s3) then cut_slots (s3\<lparr>gr_topk_buf_tmp := None\<rparr>) else s3)))"

section \<open>Slots and masks follow the blocks\<close>

text \<open>The first block and the last two must be chosen.\<close>

definition recent_mask :: "nat \<Rightarrow> bool list" where
  "recent_mask n = map (\<lambda>i. i = 0 \<or> n \<le> i + 2) [0..<n]"

lemma length_recent_mask [simp]: "length (recent_mask n) = n" by (simp add: recent_mask_def)

lemma init_mask_recent: "init_mask n = recent_mask n"
  by (rule nth_equalityI) (auto simp: init_mask_def recent_mask_def nth_list_update)

lemma recent_mask_Suc:
  "recent_mask (Suc n) = (if 2 < n then (recent_mask n)[n - 2 := False] @ [True] else recent_mask n @ [True])"
  by (rule nth_equalityI) (auto simp: recent_mask_def nth_append nth_list_update less_Suc_eq)

definition slots_follow :: "nat \<Rightarrow> gsa_stat \<Rightarrow> bool" where
  "slots_follow off s \<longleftrightarrow> (let n = length (gr_blocks s)
     in gr_repre_slot_mapping s = [off..<off + n] \<and> gr_include_mask s = recent_mask n \<and> gr_exclude_mask s = replicate n False)"

lemma add_slots_follow:
  "gr_repre_slot_mapping s = [off..<off + k] \<Longrightarrow> gr_include_mask s = recent_mask k \<Longrightarrow> gr_exclude_mask s = replicate k False \<Longrightarrow> 0 < k \<Longrightarrow>
   add_slots n s = Inr (s\<lparr>gr_repre_slot_mapping := [off..<off + (k + n)], gr_include_mask := recent_mask (k + n), gr_exclude_mask := replicate (k + n) False\<rparr>)"
proof (induction n arbitrary: s k)
  case 0
  then show ?case by simp
next
  case (Suc n)
  let ?s = "s\<lparr>gr_repre_slot_mapping := [off..<off + Suc k], gr_include_mask := recent_mask (Suc k), gr_exclude_mask := replicate (Suc k) False\<rparr>"
  have "add_slots (Suc n) s = add_slots n ?s"
    using Suc.prems by (simp add: Let_def recent_mask_Suc replicate_append_same last_upt)
  also have "\<dots> = Inr (?s\<lparr>gr_repre_slot_mapping := [off..<off + (Suc k + n)], gr_include_mask := recent_mask (Suc k + n), gr_exclude_mask := replicate (Suc k + n) False\<rparr>)"
    by (rule Suc.IH) simp_all
  finally show ?case by simp
qed

text \<open>The pairs of a block and its slot, all but those of the indices \<open>left\<close>.\<close>

definition slot_pairs :: "nat \<Rightarrow> nat list \<Rightarrow> nat list \<Rightarrow> (nat \<times> nat) list" where
  "slot_pairs off blocks left = map (\<lambda>i. (blocks ! i, off + i)) (filter (\<lambda>i. i \<notin> set left) [0..<length blocks])"

text \<open>What a step represents: blocks and the slots that get the mean of their keys.\<close>

definition represented :: "gsa_stat \<Rightarrow> (nat \<times> nat) list" where
  "represented s = zip (gr_calc_block_table s) (gr_calc_repre_slot_mapping s)"

lemma zip_upt: "zip ys [a..<a + length ys] = map (\<lambda>i. (ys ! i, a + i)) [0..<length ys]"
  by (rule nth_equalityI) auto

lemma slot_pairs_append:
  assumes "set left \<subseteq> {..<length xs}"
  shows "slot_pairs off (xs @ ys) left = slot_pairs off xs left @ zip ys [off + length xs..<off + length xs + length ys]"
proof -
  let ?n = "length xs"
  have up: "[0..<?n + length ys] = [0..<?n] @ map (\<lambda>i. ?n + i) [0..<length ys]"
    using upt_add_eq_append [of 0 ?n "length ys"] map_add_upt [of ?n "length ys"] by (simp add: add.commute)
  have all: "filter (\<lambda>i. i \<notin> set left) (map (\<lambda>i. ?n + i) [0..<length ys]) = map (\<lambda>i. ?n + i) [0..<length ys]"
    using assms by (intro filter_True) auto
  show ?thesis unfolding slot_pairs_def zip_upt length_append up filter_append map_append all
    by (auto simp: nth_append intro!: map_cong)
qed

lemma slot_pairs_left_last:
  assumes "set left \<subseteq> {..<length xs}" and "ys \<noteq> []"
  shows "slot_pairs off (xs @ ys) (left @ [length (xs @ ys) - 1])
    = slot_pairs off xs left @ zip (butlast ys) (butlast [off + length xs..<off + length xs + length ys])"
proof -
  obtain zs z where ys: "ys = zs @ [z]" using assms(2) by (metis rev_exhaust)
  have "slot_pairs off (xs @ ys) (left @ [length (xs @ ys) - 1]) = slot_pairs off (xs @ zs) left"
  proof -
    let ?m = "length (xs @ zs)"
    have "filter (\<lambda>i. i \<notin> set (left @ [?m])) [0..<Suc ?m] = filter (\<lambda>i. i \<notin> set left) [0..<?m]"
      by (auto intro!: filter_cong)
    moreover have "(xs @ ys) ! i = (xs @ zs) ! i" if "i < ?m" for i
      using that by (simp add: ys nth_append [of "xs @ zs" "[z]"] flip: append_assoc)
    ultimately show ?thesis unfolding slot_pairs_def by (auto simp: ys intro!: map_cong)
  qed
  also have "\<dots> = slot_pairs off xs left @ zip zs [off + length xs..<off + length xs + length zs]"
    by (rule slot_pairs_append [OF assms(1)])
  finally show ?thesis by (simp add: ys)
qed

section \<open>The steps of a request\<close>

text \<open>
  A request as vLLM steps it, with the ids vLLM gives: chunks of the prompt up to its end, each where
  the last one stopped and with new blocks after those the request has; the first generated token,
  for which the scheduler keeps the prompt's blocks or, of a long prompt, as many as stay on the device,
  with at most one new block behind them; and more tokens, each with at most one new block.
  \<open>gsa_run gen s given ids np avg\<close>: the request is in state \<open>s\<close>, has been given the blocks \<open>given\<close> so
  far, \<open>np\<close> of them for its prompt, holds \<open>ids\<close> now, generates if \<open>gen\<close>, and its steps have
  represented \<open>avg\<close>.
\<close>

definition blocks_kept :: "gsa_cfg \<Rightarrow> nat \<Rightarrow> nat \<Rightarrow> nat" where
  "blocks_kept cf prompt n =
     (let k = compute_topk_len cf n
      in if gc_seg_prefill_threshold cf < prompt \<and> gc_ptopk_prefetch_enable cf \<and> k < n
         then k + min (gc_num_prefetch_blocks cf) (n - k) else n)"

inductive gsa_run :: "gsa_cfg \<Rightarrow> gsa_hashes \<Rightarrow> nat \<Rightarrow> bool \<Rightarrow> gsa_stat \<Rightarrow> nat list \<Rightarrow> nat list \<Rightarrow> nat \<Rightarrow> (nat \<times> nat) list \<Rightarrow> bool"
  for cf h off where
  first: "ids \<noteq> [] \<Longrightarrow> cr_block_ids r = ids \<Longrightarrow> cr_num_computed_tokens r + n \<le> length (cr_prompt_token_ids r) \<Longrightarrow>
    s = add_req_new cf h n r i off new_gsa_stat \<Longrightarrow> gsa_run cf h off False s ids ids (length ids) (represented s)"
| chunk: "gsa_run cf h off False s given ids np avg \<Longrightarrow> cr_num_computed_tokens r = get_seq_len s \<Longrightarrow>
    get_seq_len s < gr_num_prompt_tokens s \<Longrightarrow> get_seq_len s + n \<le> gr_num_prompt_tokens s \<Longrightarrow>
    cr_block_ids r = ids @ new \<Longrightarrow> set new \<inter> set ids = {} \<Longrightarrow> updata_req_state cf n r i s = Inr s' \<Longrightarrow>
    gsa_run cf h off False s' (given @ new) (ids @ new) (np + length new) (avg @ represented s')"
| first_token: "gsa_run cf h off False s given ids np avg \<Longrightarrow> get_seq_len s = gr_num_prompt_tokens s \<Longrightarrow>
    cr_num_computed_tokens r = gr_num_prompt_tokens s \<Longrightarrow> cr_block_ids r = kept @ new \<Longrightarrow>
    length kept = blocks_kept cf (gr_num_prompt_tokens s) np \<Longrightarrow> length new \<le> 1 \<Longrightarrow> updata_req_state cf n r i s = Inr s' \<Longrightarrow>
    gsa_run cf h off True s' (given @ new) (kept @ new) np (avg @ represented s')"
| token: "gsa_run cf h off True s given ids np avg \<Longrightarrow> gr_num_prompt_tokens s < cr_num_computed_tokens r \<Longrightarrow>
    cr_block_ids r = ids @ new \<Longrightarrow> length new \<le> 1 \<Longrightarrow> updata_req_state cf n r i s = Inr s' \<Longrightarrow>
    gsa_run cf h off True s' (given @ new) (ids @ new) np (avg @ represented s')"

lemma sparse_and_free_fields [simp]:
  "gr_blocks (get_sparse_and_free_block cf s) = gr_blocks s"
  "gr_repre_slot_mapping (get_sparse_and_free_block cf s) = gr_repre_slot_mapping s"
  "gr_include_mask (get_sparse_and_free_block cf s) = gr_include_mask s"
  "gr_exclude_mask (get_sparse_and_free_block cf s) = gr_exclude_mask s"
  "gr_num_prompt_tokens (get_sparse_and_free_block cf s) = gr_num_prompt_tokens s"
  "gr_num_computed_tokens (get_sparse_and_free_block cf s) = gr_num_computed_tokens s"
  "gr_num_scheduled_tokens (get_sparse_and_free_block cf s) = gr_num_scheduled_tokens s"
  by (simp_all add: get_sparse_and_free_block_def Let_def)

lemma last_slices:
  assumes "0 < m"
  shows "py_slice_int [off..<off + (k + m)] (- int m) (int (k + m)) = [off + k..<off + k + m]"
    and "py_slice_int [off..<off + (k + m)] (- int m) (- 1) = butlast [off + k..<off + k + m]"
proof -
  have "py_bound (k + m) (- int m) = k" "py_bound (k + m) (int (k + m)) = k + m" "py_bound (k + m) (- 1) = k + m - 1"
    using assms by (simp_all add: py_bound_def)
  then show "py_slice_int [off..<off + (k + m)] (- int m) (int (k + m)) = [off + k..<off + k + m]"
      "py_slice_int [off..<off + (k + m)] (- int m) (- 1) = butlast [off + k..<off + k + m]"
    using assms by (auto simp: py_slice_int_def py_slice_def butlast_conv_take add.assoc)
qed

text \<open>A chunk's new blocks are represented in their slots, its last block only where more chunks follow.\<close>

lemma chunk_step:
  assumes f: "slots_follow off s" and ne: "gr_blocks s \<noteq> []"
    and r: "cr_num_computed_tokens r < gr_num_prompt_tokens s" "cr_block_ids r = gr_blocks s @ new" "set new \<inter> set (gr_blocks s) = {}"
    and u: "updata_req_state cf n r i s = Inr s'"
  shows "slots_follow off s'" and "gr_blocks s' = gr_blocks s @ new" and "gr_num_prompt_tokens s' = gr_num_prompt_tokens s"
    and "get_seq_len s' = cr_num_computed_tokens r + n"
    and "represented s' = (let k = length (gr_blocks s); slots = [off + k..<off + k + length new]
           in if cr_num_computed_tokens r + n = gr_num_prompt_tokens s then zip (butlast new) (butlast slots) else zip new slots)"
proof -
  let ?k = "length (gr_blocks s)" and ?m = "length new"
  have new: "filter (\<lambda>x. x \<notin> set (gr_blocks s)) (gr_blocks s @ new) = new"
    using r(3) by (auto simp: filter_id_conv)
  note add = add_slots_follow [where off = off and k = ?k and n = ?m]
  have "slots_follow off s' \<and> gr_blocks s' = gr_blocks s @ new \<and> gr_num_prompt_tokens s' = gr_num_prompt_tokens s
    \<and> get_seq_len s' = cr_num_computed_tokens r + n \<and> represented s' = (let slots = [off + ?k..<off + ?k + ?m]
           in if cr_num_computed_tokens r + n = gr_num_prompt_tokens s then zip (butlast new) (butlast slots) else zip new slots)"
    using f ne r(1,2) u new last_slices [of ?m off ?k]
    by (cases "new = []")
       (auto simp: updata_req_state_def gsa_update_slot_def gsa_stage_def slots_follow_def add gsa_is_last_chunk_def get_seq_len_def
          represented_def Let_def split: if_splits)
  then show "slots_follow off s'" "gr_blocks s' = gr_blocks s @ new" "gr_num_prompt_tokens s' = gr_num_prompt_tokens s"
      "get_seq_len s' = cr_num_computed_tokens r + n"
      "represented s' = (let k = length (gr_blocks s); slots = [off + k..<off + k + length new]
           in if cr_num_computed_tokens r + n = gr_num_prompt_tokens s then zip (butlast new) (butlast slots) else zip new slots)"
    by (simp_all add: Let_def)
qed

lemma gsa_decode_step:
  assumes f: "slots_follow off s" and ne: "gr_blocks s \<noteq> []" and r: "gr_num_prompt_tokens s \<le> cr_num_computed_tokens r"
    and u: "updata_req_state cf n r i s = Inr s'"
    and new: "new = (if length (cr_block_ids r) \<noteq> (if gr_num_prompt_tokens s = cr_num_computed_tokens r
        then blocks_kept cf (gr_num_prompt_tokens s) (length (gr_blocks s)) else gr_sparse_len s) then [last (cr_block_ids r)] else [])"
  shows "slots_follow off s' \<and> gr_blocks s' = gr_blocks s @ new \<and> gr_num_prompt_tokens s' = gr_num_prompt_tokens s
    \<and> gr_num_prompt_tokens s \<le> get_seq_len s' \<and> represented s' = zip new [off + length (gr_blocks s)..<off + length (gr_blocks s) + length new]
    \<and> gr_sparse_len s' = length (cr_block_ids r)"
proof -
  let ?k = "length (gr_blocks s)"
  define s2 where "s2 = get_sparse_and_free_block cf (s\<lparr>gr_num_computed_tokens := cr_num_computed_tokens r, gr_num_scheduled_tokens := n,
      gr_num_output_tokens := length (cr_output_token_ids r), gr_index_in_batch := i\<rparr>)"
  have s2: "gr_blocks s2 = gr_blocks s" "gr_num_prompt_tokens s2 = gr_num_prompt_tokens s"
      "gr_num_computed_tokens s2 = cr_num_computed_tokens r" "gr_num_scheduled_tokens s2 = n"
    and f2: "gr_repre_slot_mapping s2 = [off..<off + ?k]" "gr_include_mask s2 = recent_mask ?k" "gr_exclude_mask s2 = replicate ?k False"
    using f by (simp_all add: s2_def slots_follow_def Let_def)
  define s3 where "s3 = s2\<lparr>gr_blocks := gr_blocks s2 @ [last (cr_block_ids r)], gr_sparse_len := length (cr_block_ids r)\<rparr>"
  have add: "add_slots 1 s3 = Inr (s3\<lparr>gr_repre_slot_mapping := [off..<off + (?k + 1)], gr_include_mask := recent_mask (?k + 1),
      gr_exclude_mask := replicate (?k + 1) False\<rparr>)"
    by (rule add_slots_follow) (use f2 ne in \<open>simp_all add: s3_def\<close>)
  have "gr_sparse_len s2 = (if gr_num_prompt_tokens s = cr_num_computed_tokens r
        then blocks_kept cf (gr_num_prompt_tokens s) ?k else gr_sparse_len s)"
    by (simp add: s2_def get_sparse_and_free_block_def blocks_kept_def Let_def)
  then have new: "new = (if length (cr_block_ids r) \<noteq> gr_sparse_len s2 then [last (cr_block_ids r)] else [])" by (simp add: new)
  have u': "rbind (if length (cr_block_ids r) \<noteq> gr_sparse_len s2
        then if cr_block_ids r = [] then Inl IndexError else gsa_update_slot [last (cr_block_ids r)] s3
        else Inr (s2\<lparr>gr_calc_block_table := [], gr_calc_repre_slot_mapping := []\<rparr>))
      (\<lambda>s3. Inr (if length (gr_blocks s3) < length (gr_repre_slot_mapping s3) then cut_slots (s3\<lparr>gr_topk_buf_tmp := None\<rparr>) else s3)) = Inr s'"
  proof -
    have "gsa_stage (s\<lparr>gr_num_computed_tokens := cr_num_computed_tokens r, gr_num_scheduled_tokens := n,
      gr_num_output_tokens := length (cr_output_token_ids r), gr_index_in_batch := i\<rparr>) = DECODE" using r by (simp add: gsa_stage_def)
    then show ?thesis using u unfolding updata_req_state_def Let_def s3_def s2_def by (simp only: sequence_stage.distinct if_False)
  qed
  have up: "gsa_update_slot [last (cr_block_ids r)] s3 = Inr (s3\<lparr>gr_repre_slot_mapping := [off..<off + (?k + 1)], gr_include_mask := recent_mask (?k + 1),
      gr_exclude_mask := replicate (?k + 1) False, gr_calc_block_table := [last (cr_block_ids r)], gr_calc_repre_slot_mapping := [off + ?k]\<rparr>)"
    using add s2 r by (simp add: gsa_update_slot_def gsa_stage_def s3_def del: add_slots.simps)
  show ?thesis
  proof (cases "length (cr_block_ids r) = gr_sparse_len s2")
    case True
    then show ?thesis using u' s2 f2 r new by (auto simp: slots_follow_def Let_def get_seq_len_def represented_def)
  next
    case False
    then have "s' = s3\<lparr>gr_repre_slot_mapping := [off..<off + (?k + 1)], gr_include_mask := recent_mask (?k + 1),
      gr_exclude_mask := replicate (?k + 1) False, gr_calc_block_table := [last (cr_block_ids r)], gr_calc_repre_slot_mapping := [off + ?k]\<rparr>"
      using u' up s2 by (auto simp: s3_def split: if_splits)
    then show ?thesis using False s2 r new by (simp add: slots_follow_def get_seq_len_def represented_def s3_def)
  qed
qed

lemma first_step:
  assumes "s = add_req_new cf h n r i off new_gsa_stat"
  shows "slots_follow off s" and "gr_blocks s = cr_block_ids r" and "gr_num_prompt_tokens s = length (cr_prompt_token_ids r)"
    and "get_seq_len s = cr_num_computed_tokens r + n"
    and "represented s = (let k = length (cr_block_ids r)
      in if cr_num_computed_tokens r + n = length (cr_prompt_token_ids r) then zip (butlast (cr_block_ids r)) (butlast [off..<off + k])
         else zip (cr_block_ids r) [off..<off + k])"
proof -
  have keep: "gr_blocks (gsa_set_block_hashes cf h ts s) = gr_blocks s" "gr_repre_slot_mapping (gsa_set_block_hashes cf h ts s) = gr_repre_slot_mapping s"
      "gr_include_mask (gsa_set_block_hashes cf h ts s) = gr_include_mask s" "gr_exclude_mask (gsa_set_block_hashes cf h ts s) = gr_exclude_mask s"
      "gr_num_prompt_tokens (gsa_set_block_hashes cf h ts s) = gr_num_prompt_tokens s" "gr_num_computed_tokens (gsa_set_block_hashes cf h ts s) = gr_num_computed_tokens s"
      "gr_num_scheduled_tokens (gsa_set_block_hashes cf h ts s) = gr_num_scheduled_tokens s" "gr_calc_block_table (gsa_set_block_hashes cf h ts s) = gr_calc_block_table s"
      "gr_calc_repre_slot_mapping (gsa_set_block_hashes cf h ts s) = gr_calc_repre_slot_mapping s" for ts s
    by (simp_all add: gsa_set_block_hashes_def Let_def split: option.splits prod.splits)
  have slots: "map (\<lambda>x. x + off) [0..<k] = [off..<off + k]" for k using map_add_upt [of off k] by (simp add: add.commute)
  show "slots_follow off s" "gr_blocks s = cr_block_ids r" "gr_num_prompt_tokens s = length (cr_prompt_token_ids r)"
      "get_seq_len s = cr_num_computed_tokens r + n"
      "represented s = (let k = length (cr_block_ids r)
      in if cr_num_computed_tokens r + n = length (cr_prompt_token_ids r) then zip (butlast (cr_block_ids r)) (butlast [off..<off + k])
         else zip (cr_block_ids r) [off..<off + k])"
    unfolding assms by (simp_all add: add_req_new_def gsa_init_slot_def Let_def keep slots_follow_def slots init_mask_recent
      get_seq_len_def represented_def gsa_is_last_chunk_def split del: if_split)
      (simp_all split: prod.splits)
qed

text \<open>
  What the steps of a request represent: every block it was given, once, in the slot of its index,
  except at most one, the last block of the prompt, and none before the prompt is complete.
\<close>

definition run_ok :: "nat \<Rightarrow> bool \<Rightarrow> gsa_stat \<Rightarrow> nat list \<Rightarrow> nat list \<Rightarrow> nat \<Rightarrow> (nat \<times> nat) list \<Rightarrow> bool" where
  "run_ok off gen s given ids np avg \<longleftrightarrow>
     gr_blocks s = given \<and> given \<noteq> [] \<and> slots_follow off s \<and> 0 < np \<and> np \<le> length given
     \<and> (\<exists>left. (left = [] \<or> left = [np - 1]) \<and> (left \<noteq> [] \<longrightarrow> gr_num_prompt_tokens s \<le> get_seq_len s) \<and> avg = slot_pairs off given left)
     \<and> (if gen then gr_sparse_len s = length ids \<and> gr_num_prompt_tokens s \<le> get_seq_len s else given = ids \<and> np = length ids)"

lemma generated_step:
  assumes ok: "run_ok off gen s given ids np avg" and r: "gr_num_prompt_tokens s \<le> cr_num_computed_tokens r"
    and u: "updata_req_state cf n r i s = Inr s'"
    and held: "cr_block_ids r = old @ new" "length new \<le> 1"
      "length old = (if gr_num_prompt_tokens s = cr_num_computed_tokens r then blocks_kept cf (gr_num_prompt_tokens s) (length given) else gr_sparse_len s)"
  shows "run_ok off True s' (given @ new) (old @ new) np (avg @ represented s')"
proof -
  obtain left where left: "left = [] \<or> left = [np - 1]" "avg = slot_pairs off given left"
    and b: "gr_blocks s = given" "given \<noteq> []" "slots_follow off s" "0 < np" "np \<le> length given"
    using ok by (auto simp: run_ok_def)
  have new: "new = (if length (cr_block_ids r) \<noteq> (if gr_num_prompt_tokens s = cr_num_computed_tokens r
        then blocks_kept cf (gr_num_prompt_tokens s) (length (gr_blocks s)) else gr_sparse_len s) then [last (cr_block_ids r)] else [])"
  proof (cases new)
    case Nil
    then show ?thesis using held(1,3) b(1) by simp
  next
    case (Cons x xs)
    then show ?thesis using held b(1) by simp
  qed
  note st = gsa_decode_step [OF b(3) _ r u new]
  have "set left \<subseteq> {..<length given}" using left(1) b(4,5) by auto
  from slot_pairs_append [OF this, of off new]
  have "avg @ represented s' = slot_pairs off (given @ new) left" using left(2) st b(1,2) by simp
  then show ?thesis using st b left(1) held(1) unfolding run_ok_def by (intro conjI exI [of _ left]) auto
qed

lemma gsa_run_ok: "gsa_run cf h off gen s given ids np avg \<Longrightarrow> run_ok off gen s given ids np avg"
proof (induction rule: gsa_run.induct)
  case (first ids r n s i)
  note st = first_step [OF first(4)]
  show ?case
  proof (cases "cr_num_computed_tokens r + n = length (cr_prompt_token_ids r)")
    case True
    then have "represented s = slot_pairs off ids [length ids - 1]"
      using st slot_pairs_left_last [of "[]" "[]" ids off] first(1,2) by (simp add: slot_pairs_def)
    then show ?thesis using st True first(1,2) unfolding run_ok_def
      by (intro conjI exI [of _ "[length ids - 1]"]) (simp_all add: Suc_le_eq)
  next
    case False
    then have "represented s = slot_pairs off ids []"
      using st slot_pairs_append [of "[]" "[]" off ids] first(2) by (simp add: slot_pairs_def)
    then show ?thesis using st first(1,2) unfolding run_ok_def
      by (intro conjI exI [of _ "[]"]) (simp_all add: Suc_le_eq)
  qed
next
  case (chunk s given ids np avg r n new i s')
  then have b: "gr_blocks s = ids" "ids \<noteq> []" "slots_follow off s" "given = ids" "np = length ids" "avg = slot_pairs off ids []"
    by (auto simp: run_ok_def)
  have "cr_num_computed_tokens r < gr_num_prompt_tokens s" using chunk(2,3) by simp
  note st = chunk_step [OF b(3) _ this _ _ chunk(7), unfolded b(1), OF b(2) chunk(5,6)]
  have left: "set [] \<subseteq> {..<length ids}" by simp
  show ?case
  proof (cases "cr_num_computed_tokens r + n = gr_num_prompt_tokens s \<and> new \<noteq> []")
    case True
    then have "avg @ represented s' = slot_pairs off (ids @ new) [length (ids @ new) - 1]"
      using st(5) slot_pairs_left_last [OF left, of new off] b(6) by (simp add: Let_def)
    then show ?thesis using st True b unfolding run_ok_def
      by (intro conjI exI [of _ "[length (ids @ new) - 1]"]) simp_all
  next
    case False
    then have "avg @ represented s' = slot_pairs off (ids @ new) []"
      using st(5) slot_pairs_append [OF left, of off new] b(6) by (auto simp: Let_def add.assoc)
    then show ?thesis using st b unfolding run_ok_def by (intro conjI exI [of _ "[]"]) simp_all
  qed
next
  case (first_token s given ids np avg r kept new n i s')
  then have "length given = np" by (auto simp: run_ok_def)
  then show ?case using generated_step [OF first_token.IH _ first_token(7,4,6)] first_token(3,5) by simp
next
  case (token s given ids np avg r new n i s')
  then have "gr_sparse_len s = length ids" by (simp add: run_ok_def)
  then show ?case using generated_step [OF token.IH _ token(5,3,4)] token(2) by simp
qed

text \<open>
  C26: Over the steps of a request as vLLM schedules them, the worker has exactly the blocks the
  request was given, in order; the block of index \<open>i\<close> has slot \<open>off + i\<close>; the first block and the last
  two must be chosen and none is excluded; and every block is represented once, by the step that adds
  it, in its slot, except at most one, the last block of the prompt. A step that gives the request no
  new block adds none and represents none.
\<close>

theorem blocks_are_represented_once:
  assumes "gsa_run cf h off gen s given ids np avg"
  shows "gr_blocks s = given \<and> gr_repre_slot_mapping s = [off..<off + length given] \<and> gr_include_mask s = recent_mask (length given)
    \<and> gr_exclude_mask s = replicate (length given) False
    \<and> (\<exists>left. (left = [] \<or> left = [np - 1])
         \<and> avg = map (\<lambda>i. (given ! i, off + i)) (filter (\<lambda>i. i \<notin> set left) [0..<length given]))"
  using gsa_run_ok [OF assms] by (auto simp: run_ok_def slots_follow_def slot_pairs_def Let_def)

text \<open>
  The exception is the last block of the prompt, also where it is full: it is left out of the last
  chunk, and a generated token adds the new block, which then holds one token.
\<close>

lemma prompt_end_is_left_out:
  assumes "s = add_req_new cf h (length (cr_prompt_token_ids r) - cr_num_computed_tokens r) r i off new_gsa_stat"
    and "cr_num_computed_tokens r \<le> length (cr_prompt_token_ids r)" and "distinct (cr_block_ids r)" and "cr_block_ids r \<noteq> []"
  shows "last (cr_block_ids r) \<notin> fst ` set (represented s)"
proof -
  have "distinct (butlast (cr_block_ids r) @ [last (cr_block_ids r)])" using assms(3,4) by simp
  then have "last (cr_block_ids r) \<notin> set (butlast (cr_block_ids r))" by (simp only: distinct_append) auto
  then show ?thesis using first_step(5) [OF assms(1)] assms(2) by (auto simp: Let_def dest: set_zip_leftD)
qed

text \<open>
  The first token is needed. Where no step begins exactly at the end of the prompt, as after a
  preemption that makes the request compute its generated tokens again in one step with its prompt,
  the next step takes a block the request already has for a new one.
\<close>

lemma passing_the_prompt_end_repeats_a_block:
  assumes "slots_follow off s" and "gr_blocks s \<noteq> []" and "gr_sparse_len s = 0"
    and "gr_num_prompt_tokens s < cr_num_computed_tokens r" and "cr_block_ids r = gr_blocks s"
    and "updata_req_state cf n r i s = Inr s'"
  shows "gr_blocks s' = gr_blocks s @ [last (gr_blocks s)]"
    and "gr_repre_slot_mapping s' = [off..<off + length (gr_blocks s) + 1]"
  using gsa_decode_step [OF assms(1,2) less_imp_le [OF assms(4)] assms(6) refl] assms(2-5)
  by (auto simp: slots_follow_def Let_def)

text \<open>A step of a request that has blocks does not fail.\<close>

lemma update_never_fails:
  assumes "slots_follow off s" and "gr_blocks s \<noteq> []" and "cr_block_ids r \<noteq> []"
  shows "\<exists>s'. updata_req_state cf n r i s = Inr s'"
proof -
  have add: "gr_repre_slot_mapping t \<noteq> [] \<Longrightarrow> \<exists>t'. add_slots m t = Inr t' \<and> gr_blocks t' = gr_blocks t" for m t
    by (induction m t rule: add_slots.induct) (auto simp: Let_def)
  have upd: "gr_repre_slot_mapping t \<noteq> [] \<Longrightarrow> gr_blocks t \<noteq> [] \<Longrightarrow> \<exists>t'. gsa_update_slot bs t = Inr t'" for bs t
    using add [of t "length bs"] by (auto simp: gsa_update_slot_def Let_def)
  have slots: "gr_repre_slot_mapping s \<noteq> []" using assms(1,2) by (auto simp: slots_follow_def Let_def)
  show ?thesis unfolding updata_req_state_def Let_def rbind_Inr_iff
    using slots assms(2,3) by (auto intro!: upd)
qed

section \<open>What stays of a prompt\<close>

text \<open>
  Where the window is smaller than the number of blocks chosen, the first blocks of the window
  stay and the last blocks; the blocks before those are free for blocks fetched later.
\<close>

lemma remaining_blocks:
  assumes "gr_num_prompt_tokens s = gr_num_computed_tokens s" and "gc_seg_prefill_threshold cf < gr_num_prompt_tokens s" "gc_ptopk_prefetch_enable cf"
    and n: "n = length (gr_blocks s)" and k: "k = compute_topk_len cf n" "k < n" "gc_init_windows_size cf < k"
    and p: "p = min (gc_num_prefetch_blocks cf) (n - k)"
  shows "gr_remain_idx (get_sparse_and_free_block cf s) = Some ([0..<gc_init_windows_size cf] @ [n - (k - gc_init_windows_size cf)..<n])"
    and "gr_prefetch_idx (get_sparse_and_free_block cf s) = Some [n - (k - gc_init_windows_size cf) - p..<n - (k - gc_init_windows_size cf)]"
    and "gr_sparse_len (get_sparse_and_free_block cf s) = k + p"
proof -
  let ?w = "gc_init_windows_size cf"
  have b: "py_bound n 0 = 0" "py_bound n (int ?w) = ?w" "py_bound n (int ?w - int k) = n - (k - ?w)" "py_bound n (int n) = n"
      "py_bound n (int ?w - int k - int p) = n - (k - ?w) - p"
    using k p by (auto simp: py_bound_def)
  note defs = get_sparse_and_free_block_def Let_def n [symmetric] k(1) [symmetric] p [symmetric]
  show "gr_remain_idx (get_sparse_and_free_block cf s) = Some ([0..<?w] @ [n - (k - ?w)..<n])"
    and "gr_prefetch_idx (get_sparse_and_free_block cf s) = Some [n - (k - ?w) - p..<n - (k - ?w)]"
    and "gr_sparse_len (get_sparse_and_free_block cf s) = k + p"
    using assms(1-3) k b p by (auto simp: defs py_slice_int_def py_slice_def min_def)
qed

section \<open>Example\<close>

definition demo_gsa_cfg :: gsa_cfg where
  "demo_gsa_cfg = \<lparr>gc_block_size = 2, gc_init_windows_size = 1, gc_num_prefetch_blocks = 1, gc_min_topk_len = 2, gc_max_topk_len = 3,
     gc_seg_prefill_threshold = 3, gc_ptopk_prefetch_enable = False, gc_use_mla = False, gc_rank = 0\<rparr>"

definition demo_gsa_hashes :: gsa_hashes where
  "demo_gsa_hashes = \<lparr>gh_seed = ''seed'', gh_next = (\<lambda>h ts. h @ map char_of ts), gh_rank = (\<lambda>h. h)\<rparr>"

definition demo_cached :: "nat list \<Rightarrow> nat \<Rightarrow> nat list \<Rightarrow> cached_state" where
  "demo_cached blocks computed outputs = \<lparr>cr_block_ids = blocks, cr_num_computed_tokens = computed, cr_prompt_token_ids = [5, 6, 7, 8, 9],
     cr_output_token_ids = outputs\<rparr>"

definition demo_gsa_step :: "nat \<Rightarrow> cached_state \<Rightarrow> gsa_stat \<Rightarrow> gsa_stat" where
  "demo_gsa_step n r s = (case updata_req_state demo_gsa_cfg n r 0 s of Inr s' \<Rightarrow> s' | Inl e \<Rightarrow> new_gsa_stat)"

definition demo_gsa_s1 :: gsa_stat where "demo_gsa_s1 = add_req_new demo_gsa_cfg demo_gsa_hashes 4 (demo_cached [7, 8] 0 []) 0 10 new_gsa_stat"

definition demo_gsa_s2 :: gsa_stat where "demo_gsa_s2 = demo_gsa_step 1 (demo_cached [7, 8, 3] 4 []) demo_gsa_s1"

definition demo_gsa_s3 :: gsa_stat where "demo_gsa_s3 = demo_gsa_step 1 (demo_cached [7, 8, 3] 5 [4]) demo_gsa_s2"

definition demo_gsa_s4 :: gsa_stat where "demo_gsa_s4 = demo_gsa_step 1 (demo_cached [7, 8, 3, 9] 6 [4, 4]) demo_gsa_s3"

definition demo_gsa_s5 :: gsa_stat where "demo_gsa_s5 = demo_gsa_step 1 (demo_cached [7, 8, 3, 9] 7 [4, 4, 4]) demo_gsa_s4"

lemma demo_gsa_run: "gsa_run demo_gsa_cfg demo_gsa_hashes 10 True demo_gsa_s5 [7, 8, 3, 9] [7, 8, 3, 9] 3 [(7, 10), (8, 11), (9, 13)]"
proof -
  have 1: "gsa_run demo_gsa_cfg demo_gsa_hashes 10 False demo_gsa_s1 [7, 8] [7, 8] (length [7, 8 :: nat]) (represented demo_gsa_s1)"
    by (rule gsa_run.first [OF _ _ _ demo_gsa_s1_def]) (simp_all add: demo_cached_def)
  have 2: "gsa_run demo_gsa_cfg demo_gsa_hashes 10 False demo_gsa_s2 ([7, 8] @ [3]) ([7, 8] @ [3]) (length [7, 8 :: nat] + length [3 :: nat])
      (represented demo_gsa_s1 @ represented demo_gsa_s2)"
    by (rule gsa_run.chunk [OF 1, where r = "demo_cached [7, 8, 3] 4 []" and n = 1 and i = 0]) code_simp+
  have 3: "gsa_run demo_gsa_cfg demo_gsa_hashes 10 True demo_gsa_s3 (([7, 8] @ [3]) @ []) ([7, 8, 3] @ []) (length [7, 8 :: nat] + length [3 :: nat])
      ((represented demo_gsa_s1 @ represented demo_gsa_s2) @ represented demo_gsa_s3)"
    by (rule gsa_run.first_token [OF 2, where r = "demo_cached [7, 8, 3] 5 [4]" and n = 1 and i = 0]) code_simp+
  have 4: "gsa_run demo_gsa_cfg demo_gsa_hashes 10 True demo_gsa_s4 ((([7, 8] @ [3]) @ []) @ [9]) (([7, 8, 3] @ []) @ [9]) (length [7, 8 :: nat] + length [3 :: nat])
      (((represented demo_gsa_s1 @ represented demo_gsa_s2) @ represented demo_gsa_s3) @ represented demo_gsa_s4)"
    by (rule gsa_run.token [OF 3, where r = "demo_cached [7, 8, 3, 9] 6 [4, 4]" and n = 1 and i = 0]) code_simp+
  have "gsa_run demo_gsa_cfg demo_gsa_hashes 10 True demo_gsa_s5 (((([7, 8] @ [3]) @ []) @ [9]) @ []) ((([7, 8, 3] @ []) @ [9]) @ []) (length [7, 8 :: nat] + length [3 :: nat])
      ((((represented demo_gsa_s1 @ represented demo_gsa_s2) @ represented demo_gsa_s3) @ represented demo_gsa_s4) @ represented demo_gsa_s5)"
    by (rule gsa_run.token [OF 4, where r = "demo_cached [7, 8, 3, 9] 7 [4, 4, 4]" and n = 1 and i = 0]) code_simp+
  moreover have "(((represented demo_gsa_s1 @ represented demo_gsa_s2) @ represented demo_gsa_s3) @ represented demo_gsa_s4) @ represented demo_gsa_s5
      = [(7, 10), (8, 11), (9, 13)]"
    by code_simp
  ultimately show ?thesis by (simp add: numeral_3_eq_3)
qed

theorem blocks_are_represented_once_witness:
  "gr_blocks demo_gsa_s5 = [7, 8, 3, 9] \<and> gr_repre_slot_mapping demo_gsa_s5 = [10, 11, 12, 13] \<and> gr_include_mask demo_gsa_s5 = [True, False, True, True]"
  using blocks_are_represented_once [OF demo_gsa_run] by (simp add: recent_mask_def upt_rec)

end
