(* ===== verification/Gsa_Moves.thy ===== *)
theory Gsa_Moves
  imports Gsa_Stats Kvstar_Sparse
begin

text \<open>
  What \<open>GSA\<close> keeps of a prompt on the device: the worker moves the chosen blocks into the device
  blocks that stay (\<open>get_mv_map\<close>, \<open>kvcache_init_last_chunk\<close>), and the scheduler gives back all
  others with the first generated token (\<open>estimate_num_slots_sparsed\<close>, \<open>allocate_slots\<close>).
\<close>

section \<open>Moving the chosen blocks\<close>

text \<open>Which chosen blocks are in place: \<open>None\<close> marks one that has to be moved.\<close>

definition mark_hits :: "nat list \<Rightarrow> nat list \<Rightarrow> nat list \<Rightarrow> nat option list result" where
  "mark_hits blocks remain_idxs topk_values =
     rmap (\<lambda>idx. if idx \<in> set remain_idxs then rbind (py_index blocks idx) (\<lambda>b. Inr (Some b)) else Inr None) topk_values"

fun fill_blocks :: "nat list \<Rightarrow> (nat \<times> nat option) list \<Rightarrow> nat list \<Rightarrow> (nat, nat) dict \<Rightarrow> (nat list \<times> (nat, nat) dict) result" where
  "fill_blocks blocks [] free mv_map = Inr ([], mv_map)"
| "fill_blocks blocks ((idx, Some b) # rest) free mv_map = rbind (fill_blocks blocks rest free mv_map) (\<lambda>(bs, mv). Inr (b # bs, mv))"
| "fill_blocks blocks ((idx, None) # rest) [] mv_map = Inl IndexError"
| "fill_blocks blocks ((idx, None) # rest) (f # free) mv_map =
     rbind (py_index blocks f) (\<lambda>b. rbind (py_index blocks idx) (\<lambda>src.
       rbind (fill_blocks blocks rest free (dict_set src b mv_map)) (\<lambda>(bs, mv). Inr (b # bs, mv))))"

definition index_map :: "(nat \<times> nat) list \<Rightarrow> (nat, nat) dict" where
  "index_map pairs = fold (\<lambda>(idx, b). dict_set idx b) pairs []"

definition get_mv_map ::
  "nat list \<Rightarrow> nat list \<Rightarrow> nat list \<Rightarrow> nat \<Rightarrow> ((nat, nat) dict \<times> (nat, nat) dict \<times> (nat, nat) dict) result" where
  "get_mv_map blocks remain_idxs topk_values remain_len =
     rbind (mark_hits blocks remain_idxs topk_values) (\<lambda>marked.
       let hit_block = filter (\<lambda>idx. idx \<in> set remain_idxs) topk_values;
           free_block = filter (\<lambda>idx. idx \<notin> set hit_block) remain_idxs
       in rbind (fill_blocks blocks (zip topk_values marked) free_block []) (\<lambda>(new_block, mv_map).
            Inr (mv_map, index_map (take remain_len (zip topk_values new_block)), index_map (drop remain_len (zip topk_values new_block)))))"

text \<open>The copies of one tensor of a layer, in the order of the map.\<close>

definition copy_blocks :: "(nat, nat) dict \<Rightarrow> (nat \<Rightarrow> 'v) \<Rightarrow> nat \<Rightarrow> 'v" where
  "copy_blocks mv_map cache = fold (\<lambda>(src, dst) c. c(dst := c src)) mv_map cache"

text \<open>\<open>kvcache_init_last_chunk\<close> for the keys, or in the same way the values, of a layer.\<close>

definition last_chunk_remain_idx :: "gsa_cfg \<Rightarrow> nat \<Rightarrow> nat list" where
  "last_chunk_remain_idx cf blocks_len =
     (let remain_len = compute_topk_len cf blocks_len;
          prefetch_len = min (gc_num_prefetch_blocks cf) (blocks_len - remain_len);
          w = gc_init_windows_size cf;
          req_idx_list = [0..<blocks_len]
      in py_slice_int req_idx_list 0 (int w) @ py_slice_int req_idx_list (int w - int remain_len - int prefetch_len) (int blocks_len))"

definition kvcache_init_last_chunk ::
  "gsa_cfg \<Rightarrow> nat \<Rightarrow> nat list \<Rightarrow> gsa_stat \<Rightarrow> (nat \<Rightarrow> 'v) \<Rightarrow> (gsa_stat \<times> (nat \<Rightarrow> 'v)) result" where
  "kvcache_init_last_chunk cf layer_id topk_value s cache =
     (let remain_idx = last_chunk_remain_idx cf (length (gr_blocks s))
      in if length remain_idx \<noteq> length topk_value then Inl AssertionError
         else
           rbind (get_mv_map (gr_blocks s) remain_idx topk_value (compute_topk_len cf (length (gr_blocks s)))) (\<lambda>(mv_map, rm, pm).
             case (gr_reamin_map s, gr_prefetch_map s) of
               (Some rms, Some pms) \<Rightarrow>
                 if length rms \<le> layer_id \<or> length pms \<le> layer_id then Inl IndexError
                 else Inr (s\<lparr>gr_reamin_map := Some (rms[layer_id := Some rm]), gr_prefetch_map := Some (pms[layer_id := Some pm])\<rparr>,
                           copy_blocks mv_map cache)
             | _ \<Rightarrow> Inl TypeError))"

text \<open>
  \<open>attention_finished\<close> for one request: after the last chunk of a long prompt the chosen blocks of
  the layer (\<open>topk_value\<close>, computed on tensors) are moved and remembered. Assigning a row to the
  tensor \<open>topk_buf_tmp\<close> fails where it has another length.
\<close>

definition finish_last_chunk ::
  "gsa_cfg \<Rightarrow> nat \<Rightarrow> nat \<Rightarrow> nat list \<Rightarrow> gsa_stat \<Rightarrow> (nat \<Rightarrow> 'v) \<Rightarrow> (gsa_stat \<times> (nat \<Rightarrow> 'v)) result" where
  "finish_last_chunk cf layer_num layer_id topk_value s cache =
     (if gsa_is_last_chunk s \<and> gc_seg_prefill_threshold cf < gr_num_prompt_tokens s \<and> gc_ptopk_prefetch_enable cf
      then
        let s1 = (if gr_reamin_map s = None then s\<lparr>gr_reamin_map := Some (replicate layer_num None), gr_prefetch_map := Some (replicate layer_num None)\<rparr> else s)
        in rbind (kvcache_init_last_chunk cf layer_id topk_value s1 cache) (\<lambda>(s2, cache').
             let buf = (case gr_topk_buf_tmp s2 of None \<Rightarrow> replicate layer_num (replicate (length topk_value) 0) | Some b \<Rightarrow> b)
             in if length buf \<le> layer_id then Inl IndexError
                else if length (buf ! layer_id) \<noteq> length topk_value then Inl RuntimeError
                else Inr (s2\<lparr>gr_topk_buf_tmp := Some (buf[layer_id := topk_value])\<rparr>, cache'))
      else Inr (s, cache))"

section \<open>The chosen blocks are in place\<close>

text \<open>Where a chosen block goes: it stays, or takes the next block that is free.\<close>

definition placed :: "nat set \<Rightarrow> nat list \<Rightarrow> nat list \<Rightarrow> nat \<Rightarrow> nat" where
  "placed R topk free i = (if i \<in> R then i else the (map_of (zip (filter (\<lambda>i. i \<notin> R) topk) free) i))"

abbreviation moved_pairs :: "nat list \<Rightarrow> nat set \<Rightarrow> nat list \<Rightarrow> nat list \<Rightarrow> (nat \<times> nat) list" where
  "moved_pairs blocks R topk free \<equiv> zip (map ((!) blocks) (filter (\<lambda>i. i \<notin> R) topk)) (map ((!) blocks) free)"

lemma mark_hits_eq:
  "set topk \<subseteq> {..<length blocks} \<Longrightarrow>
   mark_hits blocks remain topk = Inr (map (\<lambda>i. if i \<in> set remain then Some (blocks ! i) else None) topk)"
  unfolding mark_hits_def by (induction topk) (auto simp: py_index_def)

lemma fill_blocks_eq:
  "set topk \<subseteq> {..<length blocks} \<Longrightarrow> set free \<subseteq> {..<length blocks} \<Longrightarrow> distinct topk \<Longrightarrow> distinct blocks \<Longrightarrow>
   length free = length (filter (\<lambda>i. i \<notin> R) topk) \<Longrightarrow> (\<And>i. i \<in> set topk \<Longrightarrow> i \<notin> R \<Longrightarrow> blocks ! i \<notin> dict_keys mv) \<Longrightarrow>
   fill_blocks blocks (zip topk (map (\<lambda>i. if i \<in> R then Some (blocks ! i) else None) topk)) free mv
     = Inr (map (\<lambda>i. blocks ! placed R topk free i) topk, mv @ moved_pairs blocks R topk free)"
proof (induction topk arbitrary: free mv)
  case Nil
  then show ?case by simp
next
  case (Cons x topk)
  show ?case
  proof (cases "x \<in> R")
    case True
    have "fill_blocks blocks (zip topk (map (\<lambda>i. if i \<in> R then Some (blocks ! i) else None) topk)) free mv
        = Inr (map (\<lambda>i. blocks ! placed R topk free i) topk, mv @ moved_pairs blocks R topk free)"
      by (rule Cons.IH) (use Cons.prems True in auto)
    then show ?thesis using True by (simp add: placed_def)
  next
    case False
    then obtain f fs where free: "free = f # fs" using Cons.prems(5) by (cases free) auto
    have "fill_blocks blocks (zip topk (map (\<lambda>i. if i \<in> R then Some (blocks ! i) else None) topk)) fs (mv @ [(blocks ! x, blocks ! f)])
        = Inr (map (\<lambda>i. blocks ! placed R topk fs i) topk, (mv @ [(blocks ! x, blocks ! f)]) @ moved_pairs blocks R topk fs)"
      by (rule Cons.IH) (use Cons.prems False free in \<open>auto simp: nth_eq_iff_index_eq\<close>)
    moreover have "placed R (x # topk) free i = placed R topk fs i" if "i \<in> set topk" for i
      using Cons.prems(3) False free that by (auto simp: placed_def)
    moreover have "dict_set (blocks ! x) (blocks ! f) mv = mv @ [(blocks ! x, blocks ! f)]"
      using Cons.prems(6) [of x] False by (simp add: dict_set_new)
    ultimately show ?thesis using Cons.prems False free by (auto simp: py_index_def placed_def)
  qed
qed

lemma index_map_id: "distinct (map fst ps) \<Longrightarrow> index_map ps = ps"
proof (induction ps rule: rev_induct)
  case Nil
  then show ?case by (simp add: index_map_def)
next
  case (snoc p ps)
  then have "index_map ps = ps" by simp
  then show ?case using snoc.prems by (cases p) (auto simp: index_map_def dict_set_new)
qed

lemma copy_kept: "b \<notin> snd ` set mv \<Longrightarrow> copy_blocks mv cache b = cache b"
  unfolding copy_blocks_def by (induction mv arbitrary: cache) auto

lemma copy_moved:
  "distinct (map snd mv) \<Longrightarrow> fst ` set mv \<inter> snd ` set mv = {} \<Longrightarrow> (src, b) \<in> set mv \<Longrightarrow> copy_blocks mv cache b = cache src"
proof (induction mv arbitrary: cache)
  case Nil
  then show ?case by simp
next
  case (Cons p mv)
  obtain s d where p: "p = (s, d)" by (cases p)
  have step: "copy_blocks (p # mv) cache = copy_blocks mv (cache(d := cache s))" by (simp add: copy_blocks_def p)
  show ?case
  proof (cases "(src, b) \<in> set mv")
    case True
    then have "src \<noteq> d" using Cons.prems(2) by (force simp: p)
    moreover have "copy_blocks mv (cache(d := cache s)) b = (cache(d := cache s)) src"
      by (rule Cons.IH) (use Cons.prems True in auto)
    ultimately show ?thesis unfolding step by simp
  next
    case False
    then have "src = s" "b = d" "b \<notin> snd ` set mv" using Cons.prems by (auto simp: p)
    then show ?thesis unfolding step by (simp add: copy_kept)
  qed
qed

lemma placed_bij:
  assumes "distinct topk" and "distinct remain" and "length topk = length remain"
    and free: "free = filter (\<lambda>i. i \<notin> set topk) remain"
  shows "bij_betw (placed (set remain) topk free) (set topk) (set remain)"
    and "length free = length (filter (\<lambda>i. i \<notin> set remain) topk)"
proof -
  let ?R = "set remain" and ?T = "set topk"
  let ?miss = "filter (\<lambda>i. i \<notin> ?R) topk"
  have sets: "set free = ?R - ?T" "set ?miss = ?T - ?R" and d: "distinct free" "distinct ?miss"
    using assms by (auto simp: free)
  have "card ?T = card ?R" using assms by (simp add: distinct_card)
  then have "card (?R - ?T) = card (?T - ?R)"
    using card_Diff_subset_Int [of ?R ?T] card_Diff_subset_Int [of ?T ?R] by (simp add: Int_commute)
  then show len: "length free = length ?miss"
    using distinct_card [OF d(1)] distinct_card [OF d(2)] sets by simp
  have at: "placed ?R topk free (?miss ! k) = free ! k" if "k < length ?miss" for k
  proof -
    have "?miss ! k \<in> set ?miss" using that by (rule nth_mem)
    moreover have "map_of (zip ?miss free) (?miss ! k) = Some (free ! k)"
      using that len d(2) by (simp add: map_of_zip_nth)
    ultimately show ?thesis by (simp add: placed_def)
  qed
  have onmiss: "bij_betw (placed ?R topk free) (set ?miss) (set free)"
  proof (rule bij_betw_imageI)
    show "inj_on (placed ?R topk free) (set ?miss)"
      using at len d(1) by (auto simp: inj_on_def in_set_conv_nth nth_eq_iff_index_eq simp del: set_filter)
    show "placed ?R topk free ` set ?miss = set free"
    proof
      show "placed ?R topk free ` set ?miss \<subseteq> set free"
      proof
        fix y assume "y \<in> placed ?R topk free ` set ?miss"
        then obtain x where x: "x \<in> set ?miss" "y = placed ?R topk free x" by blast
        then obtain k where "k < length ?miss" "x = ?miss ! k" by (auto simp only: in_set_conv_nth)
        then show "y \<in> set free" using at [of k] len x by simp
      qed
      show "set free \<subseteq> placed ?R topk free ` set ?miss"
      proof
        fix y assume "y \<in> set free"
        then obtain k where k: "k < length free" "y = free ! k" by (auto simp only: in_set_conv_nth)
        then have "?miss ! k \<in> set ?miss" using len by (intro nth_mem) simp
        then show "y \<in> placed ?R topk free ` set ?miss" using at [of k] k len by (intro image_eqI [where x = "?miss ! k"]) simp_all
      qed
    qed
  qed
  have "bij_betw (placed ?R topk free) (?T \<inter> ?R) (?T \<inter> ?R)"
    by (rule bij_betwI') (auto simp: placed_def)
  from bij_betw_combine [OF this onmiss] sets
  have "bij_betw (placed ?R topk free) ((?T \<inter> ?R) \<union> (?T - ?R)) ((?T \<inter> ?R) \<union> (?R - ?T))" by auto
  moreover have "(?T \<inter> ?R) \<union> (?T - ?R) = ?T" "(?T \<inter> ?R) \<union> (?R - ?T) = ?R" by auto
  ultimately show "bij_betw (placed ?R topk free) ?T ?R" by simp
qed

lemma nth_inj: "distinct xs \<Longrightarrow> i < length xs \<Longrightarrow> j < length xs \<Longrightarrow> xs ! i = xs ! j \<longleftrightarrow> i = j"
  by (rule nth_eq_iff_index_eq)

lemma chosen_are_placed:
  assumes d: "distinct blocks" "distinct topk" "distinct remain"
    and sub: "set topk \<subseteq> {..<length blocks}" "set remain \<subseteq> {..<length blocks}" and len: "length topk = length remain"
  shows "\<exists>mv rm pm. get_mv_map blocks remain topk k = Inr (mv, rm, pm)
    \<and> map fst rm = take k topk \<and> map fst pm = drop k topk
    \<and> distinct (map snd (rm @ pm)) \<and> snd ` set (rm @ pm) = (!) blocks ` set remain
    \<and> (\<forall>(cache :: nat \<Rightarrow> 'v). (\<forall>(idx, b) \<in> set (rm @ pm). copy_blocks mv cache b = cache (blocks ! idx))
         \<and> (\<forall>b. b \<notin> (!) blocks ` set remain \<longrightarrow> copy_blocks mv cache b = cache b))"
proof -
  let ?R = "set remain"
  define free where "free = filter (\<lambda>i. i \<notin> set topk) remain"
  define new where "new = map (\<lambda>i. blocks ! placed ?R topk free i) topk"
  let ?ps = "zip topk new"
  let ?mv = "moved_pairs blocks ?R topk free"
  note bij = placed_bij [OF d(2,3) len free_def]
  have fr: "filter (\<lambda>i. i \<in> set topk \<longrightarrow> i \<notin> ?R) remain = free"
    unfolding free_def by (rule filter_cong) auto
  have free_in: "set free \<subseteq> {..<length blocks}" using sub(2) by (auto simp: free_def)
  have ps: "?ps = take k ?ps @ drop k ?ps" "map fst (take k ?ps) = take k topk" "map fst (drop k ?ps) = drop k topk"
    by (simp_all add: new_def flip: take_map drop_map)
  have get: "get_mv_map blocks remain topk k = Inr (?mv, take k ?ps, drop k ?ps)"
  proof -
    have "fill_blocks blocks (zip topk (map (\<lambda>i. if i \<in> ?R then Some (blocks ! i) else None) topk)) free [] = Inr (new, [] @ ?mv)"
      unfolding new_def by (rule fill_blocks_eq) (use d sub bij free_in in auto)
    then show ?thesis using d(2) ps by (simp add: get_mv_map_def mark_hits_eq [OF sub(1)] fr index_map_id Let_def)
  qed
  have place_in: "placed ?R topk free i < length blocks" if "i \<in> set topk" for i
    using bij(1) sub(2) that by (auto simp: bij_betw_def)
  have vals: "map snd ?ps = map ((!) blocks) (map (placed ?R topk free) topk)" by (simp add: new_def)
  have "distinct (map (placed ?R topk free) topk)" using bij(1) d(2) by (simp add: distinct_map bij_betw_def)
  then have dist: "distinct (map snd ?ps)"
    unfolding vals using place_in d(1) by (subst distinct_map) (auto simp: inj_on_def nth_inj)
  have "snd ` set ?ps = set (map snd ?ps)" by simp
  also have "\<dots> = (!) blocks ` (placed ?R topk free ` set topk)" unfolding vals by (simp add: image_image)
  also have "placed ?R topk free ` set topk = ?R" using bij(1) by (simp add: bij_betw_def)
  finally have img: "snd ` set ?ps = (!) blocks ` ?R" .
  have miss: "set (filter (\<lambda>i. i \<notin> ?R) topk) = set topk - ?R" "set free = ?R - set topk" by (auto simp: free_def)
  have mv_snd: "map snd ?mv = map ((!) blocks) free" and mv_fst: "map fst ?mv = map ((!) blocks) (filter (\<lambda>i. i \<notin> ?R) topk)"
    using bij(2) by simp_all
  have mv_d: "distinct (map snd ?mv)"
    unfolding mv_snd using free_in d by (subst distinct_map) (auto simp: inj_on_def nth_inj free_def subset_iff)
  have snd_mv: "snd ` set ?mv = (!) blocks ` (?R - set topk)" and fst_mv: "fst ` set ?mv = (!) blocks ` (set topk - ?R)"
    using arg_cong [OF mv_snd, of set] arg_cong [OF mv_fst, of set] miss by simp_all
  have mv_i: "fst ` set ?mv \<inter> snd ` set ?mv = {}"
    unfolding snd_mv fst_mv using d(1) sub by (auto simp: nth_inj subset_iff)
  have content: "copy_blocks ?mv cache b = cache (blocks ! idx)" if "(idx, b) \<in> set ?ps" for idx b and cache :: "nat \<Rightarrow> 'v"
  proof -
    have i: "idx \<in> set topk" "b = blocks ! placed ?R topk free idx"
      using that by (auto simp: new_def in_set_zip)
    show ?thesis
    proof (cases "idx \<in> ?R")
      case True
      then have "b = blocks ! idx" using i by (simp add: placed_def)
      moreover have "blocks ! idx \<notin> snd ` set ?mv" unfolding snd_mv using i(1) d(1) sub by (auto simp: nth_inj subset_iff)
      ultimately show ?thesis by (simp add: copy_kept)
    next
      case False
      then have "idx \<in> set (filter (\<lambda>i. i \<notin> ?R) topk)" using i(1) by simp
      then obtain j where j: "j < length (filter (\<lambda>i. i \<notin> ?R) topk)" "filter (\<lambda>i. i \<notin> ?R) topk ! j = idx" by (auto simp only: in_set_conv_nth)
      have "map_of (zip (filter (\<lambda>i. i \<notin> ?R) topk) free) idx = Some (free ! j)"
        using j bij(2) d(2) map_of_zip_nth [of "filter (\<lambda>i. i \<notin> ?R) topk" free j] by simp
      then have "b = blocks ! (free ! j)" using i(2) False by (simp add: placed_def)
      then have "(blocks ! idx, b) \<in> set ?mv" using j bij(2) by (auto simp: in_set_conv_nth intro!: exI [of _ j])
      then show ?thesis by (rule copy_moved [OF mv_d mv_i])
    qed
  qed
  have others: "copy_blocks ?mv cache b = cache b" if "b \<notin> (!) blocks ` ?R" for b and cache :: "nat \<Rightarrow> 'v"
    using that snd_mv by (intro copy_kept) auto
  show ?thesis
    using get ps dist img content others
    by (intro exI [of _ ?mv] exI [of _ "take k ?ps"] exI [of _ "drop k ?ps"]) (simp add: split_beta)
qed


section \<open>The scheduler gives the other blocks back\<close>

definition gsa_estimate_num_slots_sparsed :: "gsa_cfg \<Rightarrow> nat \<Rightarrow> nat \<Rightarrow> int" where
  "gsa_estimate_num_slots_sparsed cf num_prompt_tokens num_output_tokens =
     (let bs = gc_block_size cf; num_tokens = num_prompt_tokens + num_output_tokens
      in if \<not> gc_ptopk_prefetch_enable cf then - 1
         else if num_output_tokens = 0 \<or> num_prompt_tokens < bs then - 1
         else if num_prompt_tokens \<le> gc_seg_prefill_threshold cf then - 1
         else
           let num_prompt_blocks = ceil_div num_prompt_tokens bs;
               num_all_blocks = ceil_div num_tokens bs;
               topk_len = compute_topk_len cf num_prompt_blocks;
               prefetch_len = min (gc_num_prefetch_blocks cf) (num_prompt_blocks - topk_len);
               num_sparse_blocks = num_all_blocks - num_prompt_blocks + topk_len + prefetch_len;
               flaw = (if num_tokens mod bs \<noteq> 0 then bs - num_tokens mod bs else 0)
           in int (num_sparse_blocks * bs) - int flaw)"

text \<open>
  \<open>allocate_slots\<close>: the first token after a prompt that fills its blocks has no block yet. The blocks
  given back get the reference count one before they are freed.
\<close>

record 'm gsa_manager = "'m ks_manager" +
  kg_set_ref_cnt :: "nat \<Rightarrow> nat \<Rightarrow> 'm \<Rightarrow> 'm"

definition gsa_blocks_needed :: "nat \<Rightarrow> nat \<Rightarrow> nat \<Rightarrow> int \<Rightarrow> int" where
  "gsa_blocks_needed bs num_prompt_tokens num_tokens num_slots_sparsed =
     (if num_prompt_tokens + 1 = num_tokens \<and> num_tokens mod bs = 1
      then int (ceil_div (nat num_slots_sparsed) bs) - 1 else int (ceil_div (nat num_slots_sparsed) bs))"

definition gsa_keeps :: "nat \<Rightarrow> int \<Rightarrow> nat \<Rightarrow> nat \<Rightarrow> bool" where
  "gsa_keeps w need num_original i \<longleftrightarrow> int num_original - need + int w \<le> int i \<or> i < w"

definition gsa_kept :: "nat \<Rightarrow> int \<Rightarrow> nat list \<Rightarrow> nat list" where
  "gsa_kept w need allocated = map snd (filter (\<lambda>(i, b). gsa_keeps w need (length allocated) i) (enumerate 0 allocated))"

definition gsa_returned :: "nat \<Rightarrow> int \<Rightarrow> nat list \<Rightarrow> nat list" where
  "gsa_returned w need allocated = map snd (filter (\<lambda>(i, b). \<not> gsa_keeps w need (length allocated) i) (enumerate 0 allocated))"

definition gsa_allocate_slots :: "'m gsa_manager \<Rightarrow> gsa_cfg \<Rightarrow> string \<Rightarrow> nat \<Rightarrow> nat \<Rightarrow> int \<Rightarrow> 'm \<Rightarrow> nat list option \<times> 'm" where
  "gsa_allocate_slots mg cf rid num_prompt_tokens num_tokens num_slots_sparsed s0 =
     (let need = gsa_blocks_needed (gc_block_size cf) num_prompt_tokens num_tokens num_slots_sparsed;
          allocated = kg_get_blocks mg s0 rid;
          w = gc_init_windows_size cf;
          kept = gsa_kept w need allocated;
          returned = gsa_returned w need allocated;
          s1 = fold (\<lambda>(i, b) s. kg_evict mg b (if gsa_keeps w need (length allocated) i then s else kg_set_ref_cnt mg b 1 s)) (enumerate 0 allocated) s0;
          s2 = kg_set_blocks mg rid kept (kg_free_blocks mg returned s1)
      in if kg_num_free_blocks mg s2 < kg_blocks_to_allocate mg rid num_slots_sparsed s2 then (None, s2)
         else let s3 = kg_allocate_new_blocks mg rid num_slots_sparsed s2 in (Some (kg_get_blocks mg s3 rid), s3))"

lemma kept_indices:
  "map snd (filter (\<lambda>(i, b). P i) (enumerate 0 xs)) = map ((!) xs) (filter P [0..<length xs])"
proof -
  have "enumerate 0 xs = map (\<lambda>i. (i, xs ! i)) [0..<length xs]" by (rule nth_equalityI) (simp_all add: nth_enumerate_eq)
  then show ?thesis by (simp add: filter_map o_def)
qed

lemma gsa_budget:
  assumes bs: "0 < gc_block_size cf" and "0 < outputs" and on: "gc_ptopk_prefetch_enable cf" "gc_block_size cf \<le> prompt" "gc_seg_prefill_threshold cf < prompt"
    and n: "n = ceil_div prompt (gc_block_size cf)" and k: "k = compute_topk_len cf n" "0 < k" and p: "p = min (gc_num_prefetch_blocks cf) (n - k)"
  shows "gsa_estimate_num_slots_sparsed cf prompt outputs = int (prompt + outputs - (n - (k + p)) * gc_block_size cf)"
    and "(n - (k + p)) * gc_block_size cf < prompt + outputs"
    and "ceil_div (prompt + outputs - (n - (k + p)) * gc_block_size cf) (gc_block_size cf) = ceil_div (prompt + outputs) (gc_block_size cf) - (n - (k + p))"
proof -
  let ?bs = "gc_block_size cf" and ?t = "prompt + outputs"
  define d where "d = n - (k + p)"
  note up = ceil_div_eq [OF bs]
  have kp: "k + p \<le> n" using compute_topk_len_le [of cf n] k p by simp
  have na: "n \<le> ceil_div ?t ?bs" by (simp add: n ceil_div_def div_le_mono)
  have "d \<le> n - 1" using k(2) by (simp add: d_def)
  then have "d * ?bs \<le> (n - 1) * ?bs" by (rule mult_le_mono1)
  also have "(n - 1) * ?bs < prompt"
  proof (cases "prompt mod ?bs = 0")
    case True
    then have "prompt div ?bs * ?bs = prompt" "0 < prompt div ?bs" using bs on(2) by (auto simp: div_greater_zero_iff)
    moreover from this have "0 < prompt" by (metis div_0 less_nat_zero_code neq0_conv)
    ultimately show ?thesis using True bs by (simp add: n up diff_mult_distrib)
  next
    case False
    then have "prompt div ?bs * ?bs < prompt" using div_mult_mod_eq [of prompt ?bs] by linarith
    then show ?thesis using False by (simp add: n up)
  qed
  finally have dt: "d * ?bs < prompt" .
  then show "(n - (k + p)) * ?bs < ?t" by (simp add: d_def)
  have le: "d * ?bs \<le> ?t" using dt by simp
  note whole = drop_whole_blocks [OF bs le]
  have ddiv: "d \<le> ?t div ?bs" using le bs by (simp add: less_eq_div_iff_mult_less_eq)
  then show "ceil_div (?t - (n - (k + p)) * ?bs) ?bs = ceil_div ?t ?bs - (n - (k + p))"
    using whole unfolding d_def [symmetric] up by (simp add: Suc_diff_le)
  define flaw where "flaw = (if ?t mod ?bs \<noteq> 0 then ?bs - ?t mod ?bs else 0)"
  have t: "ceil_div ?t ?bs * ?bs = ?t + flaw"
  proof (cases "?t mod ?bs = 0")
    case True
    then have "?t div ?bs * ?bs = ?t" using div_mult_mod_eq [of ?t ?bs] by linarith
    then show ?thesis using True by (simp add: up flaw_def)
  next
    case False
    have "?t mod ?bs < ?bs" using bs by simp
    then have "?t div ?bs * ?bs + ?bs = ?t + (?bs - ?t mod ?bs)" using div_mult_mod_eq [of ?t ?bs] by linarith
    then show ?thesis using False by (simp add: up flaw_def)
  qed
  have "gsa_estimate_num_slots_sparsed cf prompt outputs = int ((ceil_div ?t ?bs - n + k + p) * ?bs) - int flaw"
    using assms(2) on unfolding gsa_estimate_num_slots_sparsed_def Let_def n [symmetric] k(1) [symmetric] p [symmetric] flaw_def [symmetric]
    by simp
  also have "ceil_div ?t ?bs - n + k + p = ceil_div ?t ?bs - d" using kp na by (simp add: d_def)
  also have "int ((ceil_div ?t ?bs - d) * ?bs) - int flaw = int (?t - d * ?bs)"
    using t le by (simp add: diff_mult_distrib of_nat_diff del: of_nat_mult of_nat_add)
  finally show "gsa_estimate_num_slots_sparsed cf prompt outputs = int (?t - (n - (k + p)) * ?bs)" by (simp only: d_def)
qed

text \<open>
  What the worker keeps after the last chunk and what the scheduler keeps with the first generated token.
\<close>

lemma last_chunk_remain_idx_eq:
  assumes k: "k = compute_topk_len cf n" and p: "p = min (gc_num_prefetch_blocks cf) (n - k)" and w: "gc_init_windows_size cf < k + p"
  shows "last_chunk_remain_idx cf n = [0..<gc_init_windows_size cf] @ [n - (k + p) + gc_init_windows_size cf..<n]"
proof -
  let ?w = "gc_init_windows_size cf"
  have "k + p \<le> n" using compute_topk_len_le [of cf n] k p by simp
  then have b: "py_bound n 0 = 0" "py_bound n (int ?w) = ?w" "py_bound n (int ?w - int k - int p) = n - (k + p) + ?w" "py_bound n (int n) = n"
    using w by (auto simp: py_bound_def)
  show ?thesis using \<open>k + p \<le> n\<close> w
    by (simp add: last_chunk_remain_idx_def Let_def k [symmetric] p [symmetric] py_slice_int_def b) (simp add: py_slice_def)
qed

lemma gsa_keeps_indices:
  "w \<le> m \<Longrightarrow> m \<le> n \<Longrightarrow> filter (gsa_keeps w (int m) n) [0..<n] = [0..<w] @ [n - m + w..<n]"
proof -
  assume le: "w \<le> m" "m \<le> n"
  have up: "[0..<n] = [0..<w] @ [w..<n - m + w] @ [n - m + w..<n]"
    using le upt_add_eq_append [of 0 w "n - w"] upt_add_eq_append [of w "n - m + w" "m - w"] by simp
  have "filter (gsa_keeps w (int m) n) [0..<w] = [0..<w]" "filter (gsa_keeps w (int m) n) [n - m + w..<n] = [n - m + w..<n]"
    using le by (auto simp: gsa_keeps_def intro!: filter_True)
  moreover have "filter (gsa_keeps w (int m) n) [w..<n - m + w] = []"
    using le by (auto simp: gsa_keeps_def filter_empty_conv)
  ultimately show ?thesis unfolding up by simp
qed


lemma gsa_kept_eq:
  assumes "w \<le> m" and "m \<le> length xs"
  shows "gsa_kept w (int m) xs = map ((!) xs) ([0..<w] @ [length xs - m + w..<length xs])"
  by (simp only: gsa_kept_def kept_indices gsa_keeps_indices [OF assms])

lemma first_token_needs:
  assumes bs: "1 < gc_block_size cf" and on: "gc_ptopk_prefetch_enable cf" "gc_block_size cf \<le> prompt" "gc_seg_prefill_threshold cf < prompt"
    and n: "n = ceil_div prompt (gc_block_size cf)" and k: "k = compute_topk_len cf n" "0 < k" and p: "p = min (gc_num_prefetch_blocks cf) (n - k)"
  shows "gsa_blocks_needed (gc_block_size cf) prompt (prompt + 1) (gsa_estimate_num_slots_sparsed cf prompt 1) = int (k + p)"
proof -
  let ?bs = "gc_block_size cf"
  have bs0: "0 < ?bs" using bs by simp
  note b = gsa_budget [OF bs0 zero_less_one on n k p]
  have kp: "k + p \<le> n" using compute_topk_len_le [of cf n] k p by simp
  have c: "ceil_div (nat (gsa_estimate_num_slots_sparsed cf prompt 1)) ?bs = ceil_div (prompt + 1) ?bs - (n - (k + p))"
    by (simp only: b(1) nat_int b(3))
  show ?thesis
  proof (cases "prompt mod ?bs = 0")
    case True
    then have "(prompt + 1) mod ?bs = 1" "(prompt + 1) div ?bs = prompt div ?bs" using bs by (simp_all add: mod_Suc div_Suc)
    then show ?thesis using c kp True by (simp add: gsa_blocks_needed_def n ceil_div_eq [OF bs0])
  next
    case False
    then have m: "(prompt + 1) mod ?bs \<noteq> 1" using bs by (simp add: mod_Suc)
    have "ceil_div (prompt + 1) ?bs = n"
      using False by (cases "Suc (prompt mod ?bs) = ?bs") (simp_all add: n ceil_div_eq [OF bs0] mod_Suc div_Suc)
    then show ?thesis using c kp m by (simp add: gsa_blocks_needed_def)
  qed
qed

text \<open>
  C19: The blocks a layer chose after the last chunk of the prompt survive: the worker copies each into
  a block that stays, none overwrites another, and the blocks that stay are those the scheduler keeps
  when the request generates its first token.
\<close>

theorem chosen_blocks_survive:
  fixes cache :: "nat \<Rightarrow> 'v"
  assumes "1 < gc_block_size cf" and "gc_ptopk_prefetch_enable cf" and "gc_block_size cf \<le> prompt" and "gc_seg_prefill_threshold cf < prompt"
    and n: "length (gr_blocks s) = ceil_div prompt (gc_block_size cf)" "n = length (gr_blocks s)" and "distinct (gr_blocks s)"
    and k: "k = compute_topk_len cf n" "0 < k" and p: "p = min (gc_num_prefetch_blocks cf) (n - k)" and w: "gc_init_windows_size cf < k + p"
    and maps: "gr_reamin_map s = Some rms" "gr_prefetch_map s = Some pms" "l < length rms" "l < length pms"
    and chosen: "distinct topk" "set topk \<subseteq> {..<n}" "length topk = k + p"
  shows "\<exists>s' cache' rm pm. kvcache_init_last_chunk cf l topk s cache = Inr (s', cache')
    \<and> gr_reamin_map s' = Some (rms[l := Some rm]) \<and> gr_prefetch_map s' = Some (pms[l := Some pm]) \<and> map fst (rm @ pm) = topk
    \<and> snd ` set (rm @ pm) = set (gsa_kept (gc_init_windows_size cf)
          (gsa_blocks_needed (gc_block_size cf) prompt (prompt + 1) (gsa_estimate_num_slots_sparsed cf prompt 1)) (gr_blocks s))
    \<and> (\<forall>(idx, b) \<in> set (rm @ pm). cache' b = cache (gr_blocks s ! idx))"
proof -
  let ?w = "gc_init_windows_size cf" and ?bl = "gr_blocks s"
  let ?remain = "[0..<?w] @ [n - (k + p) + ?w..<n]"
  have kp: "k + p \<le> n" using compute_topk_len_le [of cf n] k p by simp
  have need: "gsa_blocks_needed (gc_block_size cf) prompt (prompt + 1) (gsa_estimate_num_slots_sparsed cf prompt 1) = int (k + p)"
    by (rule first_token_needs) (use assms in simp_all)
  have kept: "gsa_kept ?w (int (k + p)) ?bl = map ((!) ?bl) ?remain"
    using gsa_kept_eq [of ?w "k + p" ?bl] w kp n(2) by simp
  have r: "distinct ?remain" "set ?remain \<subseteq> {..<length ?bl}" "length topk = length ?remain" using w kp chosen n(2) by auto
  note remain = last_chunk_remain_idx_eq [OF k(1) p w]
  obtain mv rm pm where g: "get_mv_map ?bl ?remain topk k = Inr (mv, rm, pm)" "map fst rm = take k topk" "map fst pm = drop k topk"
      "snd ` set (rm @ pm) = (!) ?bl ` set ?remain"
      "\<forall>(cache :: nat \<Rightarrow> 'v). (\<forall>(idx, b) \<in> set (rm @ pm). copy_blocks mv cache b = cache (?bl ! idx))
         \<and> (\<forall>b. b \<notin> (!) ?bl ` set ?remain \<longrightarrow> copy_blocks mv cache b = cache b)"
    using chosen_are_placed [OF assms(7) chosen(1) r(1) _ r(2,3), of k, where 'v = 'v] chosen(2) n(2) by auto
  have init: "kvcache_init_last_chunk cf l topk s cache
      = Inr (s\<lparr>gr_reamin_map := Some (rms[l := Some rm]), gr_prefetch_map := Some (pms[l := Some pm])\<rparr>, copy_blocks mv cache)"
    using g(1) r(3) maps by (simp add: kvcache_init_last_chunk_def Let_def remain n(2) [symmetric] k(1) [symmetric])
  have keys: "map fst (rm @ pm) = topk" using g(2,3) by simp
  have set_kept: "snd ` set (rm @ pm) = set (map ((!) ?bl) ?remain)" using g(4) by (simp add: image_Un)
  have content: "\<forall>(idx, b) \<in> set (rm @ pm). copy_blocks mv cache b = cache (?bl ! idx)" using g(5) by blast
  show ?thesis unfolding need kept
    by (intro exI conjI) (rule init, simp, simp, rule keys, rule set_kept, rule content)
qed


text \<open>In the steps after, a request holds no more blocks than it needs, and all of them stay.\<close>

lemma later_tokens_keep_all: "int (length allocated) \<le> need \<Longrightarrow> gsa_kept w need allocated = allocated"
proof -
  assume le: "int (length allocated) \<le> need"
  have "gsa_keeps w need (length allocated) = (\<lambda>i. True)"
    using le by (intro ext) (auto simp: gsa_keeps_def)
  then show ?thesis by (simp add: gsa_kept_def kept_indices map_nth)
qed

text \<open>
  Where the last chunk moved nothing, the step after it takes the same blocks: some of them hold
  chosen blocks, the others are free to fetch into.
\<close>

lemma remaining_are_kept:
  assumes "gr_num_prompt_tokens s = gr_num_computed_tokens s" and "gc_seg_prefill_threshold cf < gr_num_prompt_tokens s" "gc_ptopk_prefetch_enable cf"
    and n: "n = length (gr_blocks s)" and k: "k = compute_topk_len cf n" "k < n" "gc_init_windows_size cf < k"
  shows "set (the (gr_remain_idx (get_sparse_and_free_block cf s))) \<union> set (the (gr_prefetch_idx (get_sparse_and_free_block cf s)))
    = set (last_chunk_remain_idx cf n)"
proof -
  define p where "p = min (gc_num_prefetch_blocks cf) (n - k)"
  note r = remaining_blocks [OF assms p_def]
  have "last_chunk_remain_idx cf n = [0..<gc_init_windows_size cf] @ [n - (k + p) + gc_init_windows_size cf..<n]"
    by (rule last_chunk_remain_idx_eq [OF k(1) p_def]) (use k in simp)
  then show ?thesis using r(1,2) k p_def by auto
qed

section \<open>Example\<close>

definition demo_ptopk_cfg :: gsa_cfg where
  "demo_ptopk_cfg = demo_gsa_cfg\<lparr>gc_ptopk_prefetch_enable := True\<rparr>"

definition demo_moves_stat :: gsa_stat where
  "demo_moves_stat = new_gsa_stat\<lparr>gr_blocks := [10, 11, 12, 13, 14, 15], gr_reamin_map := Some [None], gr_prefetch_map := Some [None]\<rparr>"

theorem chosen_blocks_survive_witness:
  "\<exists>s' cache' rm pm. kvcache_init_last_chunk demo_ptopk_cfg 0 [2, 0, 5] demo_moves_stat (\<lambda>b. b) = Inr (s', cache')
    \<and> gr_reamin_map s' = Some [Some rm] \<and> snd ` set (rm @ pm) = {10, 14, 15} \<and> (\<forall>(idx, b) \<in> set (rm @ pm). cache' b = 10 + idx)"
proof -
  have n: "length (gr_blocks demo_moves_stat) = ceil_div 12 (gc_block_size demo_ptopk_cfg)" "6 = length (gr_blocks demo_moves_stat)" by code_simp+
  have k: "2 = compute_topk_len demo_ptopk_cfg 6" "1 = min (gc_num_prefetch_blocks demo_ptopk_cfg) (6 - 2)" by code_simp+
  have "\<exists>s' cache' rm pm. kvcache_init_last_chunk demo_ptopk_cfg 0 [2, 0, 5] demo_moves_stat (\<lambda>b. b) = Inr (s', cache')
    \<and> gr_reamin_map s' = Some ([None][0 := Some rm]) \<and> gr_prefetch_map s' = Some ([None][0 := Some pm]) \<and> map fst (rm @ pm) = [2, 0, 5]
    \<and> snd ` set (rm @ pm) = set (gsa_kept (gc_init_windows_size demo_ptopk_cfg)
          (gsa_blocks_needed (gc_block_size demo_ptopk_cfg) 12 (12 + 1) (gsa_estimate_num_slots_sparsed demo_ptopk_cfg 12 1)) (gr_blocks demo_moves_stat))
    \<and> (\<forall>(idx, b) \<in> set (rm @ pm). cache' b = gr_blocks demo_moves_stat ! idx)"
    by (rule chosen_blocks_survive [OF _ _ _ _ n _ k(1) _ k(2)]) (code_simp | simp add: demo_moves_stat_def)+
  then obtain s' cache' rm pm where r: "kvcache_init_last_chunk demo_ptopk_cfg 0 [2, 0, 5] demo_moves_stat (\<lambda>b. b) = Inr (s', cache')"
      "gr_reamin_map s' = Some [Some rm]" "map fst (rm @ pm) = [2, 0, 5]"
      "snd ` set (rm @ pm) = set (gsa_kept (gc_init_windows_size demo_ptopk_cfg)
          (gsa_blocks_needed (gc_block_size demo_ptopk_cfg) 12 (12 + 1) (gsa_estimate_num_slots_sparsed demo_ptopk_cfg 12 1)) (gr_blocks demo_moves_stat))"
      "\<forall>(idx, b) \<in> set (rm @ pm). cache' b = gr_blocks demo_moves_stat ! idx" by auto
  have kept: "set (gsa_kept (gc_init_windows_size demo_ptopk_cfg)
          (gsa_blocks_needed (gc_block_size demo_ptopk_cfg) 12 (12 + 1) (gsa_estimate_num_slots_sparsed demo_ptopk_cfg 12 1)) (gr_blocks demo_moves_stat)) = {10, 14, 15}"
    by code_simp
  have "cache' b = 10 + idx" if "(idx, b) \<in> set (rm @ pm)" for idx b
  proof -
    have "idx \<in> set (map fst (rm @ pm))" using that by force
    then have "idx \<in> {2, 0, 5}" unfolding r(3) by simp
    moreover have "cache' b = gr_blocks demo_moves_stat ! idx" using r(5) that by fast
    ultimately show ?thesis by (auto simp: demo_moves_stat_def)
  qed
  then show ?thesis using r(1,2,4) kept by blast
qed

end
