(* ===== verification/Gsa_Prefetch.thy ===== *)
theory Gsa_Prefetch
  imports Gsa_Stats
begin

text \<open>
  The engine of \<open>src/ucm/sparse/gsa/prefetch/prefetch_engine.py\<close> (\<open>GSAPrefetchBase\<close>): the block tables
  and sequence lengths that attention uses instead of vLLM's, for every layer and every row of
  the batch, and what the native engine is asked to fetch. A tensor over layers and rows is a
  function of both; a row of a table has \<open>max_block_len\<close> entries. Entries are below \<open>2 ^ 31\<close>.
\<close>

section \<open>State\<close>

type_synonym 'a table = "nat \<Rightarrow> nat \<Rightarrow> 'a"

record prefetch_cfg =
  pf_gsa :: gsa_cfg
  pf_num_attention_layers :: nat
  pf_max_block_len :: nat
  pf_is_python_load :: bool

text \<open>The calls of the native engine, in order. It answers later, through the tables it was given.\<close>

datatype prefetch_call =
    SetBlocksMap req_id "nat list" "nat list" "bytes list" nat
  | SetBlocksMapMultilayer req_id "(nat, nat) dict option list" "(nat, nat) dict option list" "bytes list" nat
  | AddBlocksMap req_id nat nat
  | DelBlocksMap req_id
  | SetBlocksTableInfo nat
  | RunAsyncPrefetch "req_id list" "nat list" "nat list"

record gsa_engine =
  ge_use_block_table :: "nat list table"
  ge_m_load_success_list :: "nat list table"
  ge_prefetch_blocks :: "nat list table"
  ge_prefetch_block_len :: "nat table"
  ge_block_table_len :: "nat table"
  ge_use_block_table_len :: "nat table"
  ge_gsa_seq_len :: "int table"
  ge_prefetch_topk_buf :: "nat list table"
  ge_topk_space :: nat
  ge_step_time :: nat
  ge_is_topk_cal :: bool
  ge_select_bs_index :: "nat list"
  ge_atb_gsa_enable :: bool
  ge_ptopk_prefetch_enable :: bool
  ge_req_ids_bs :: "req_id list"
  ge_block_table_list_bs :: "nat list list"
  ge_block_map_flag :: "(req_id, (nat \<times> nat) list) dict"
  ge_block_table_flag :: "(req_id, nat list) dict"
  ge_is_gsa_req_id :: "(req_id, bool) dict"
  ge_topk_buf_tmp :: "nat list table"
  ge_topk_bs :: "(req_id \<times> bool \<times> nat) list"
  ge_topk_len :: nat
  ge_is_topk_update :: bool
  ge_calls :: "prefetch_call list"

type_synonym gsa_stats = "(req_id, gsa_stat) dict"

definition new_engine :: "nat \<Rightarrow> gsa_engine" where
  "new_engine sp = \<lparr>ge_use_block_table = (\<lambda>_ _. replicate sp 0), ge_m_load_success_list = (\<lambda>_ _. replicate sp 0),
     ge_prefetch_blocks = (\<lambda>_ _. replicate sp 0), ge_prefetch_block_len = (\<lambda>_ _. 0), ge_block_table_len = (\<lambda>_ _. 0),
     ge_use_block_table_len = (\<lambda>_ _. 0), ge_gsa_seq_len = (\<lambda>_ _. 0), ge_prefetch_topk_buf = (\<lambda>_ _. replicate sp 0),
     ge_topk_space = 0, ge_step_time = 0, ge_is_topk_cal = False, ge_select_bs_index = [], ge_atb_gsa_enable = True,
     ge_ptopk_prefetch_enable = True, ge_req_ids_bs = [], ge_block_table_list_bs = [], ge_block_map_flag = [],
     ge_block_table_flag = [], ge_is_gsa_req_id = [], ge_topk_buf_tmp = (\<lambda>_ _. []), ge_topk_bs = [], ge_topk_len = 0,
     ge_is_topk_update = False, ge_calls = []\<rparr>"

text \<open>Loops that may fail, and assignments to one row of every layer, \<open>t[:, b, :len(ys)] = ys\<close>.\<close>

fun rfold :: "('a \<Rightarrow> 's \<Rightarrow> 's result) \<Rightarrow> 'a list \<Rightarrow> 's \<Rightarrow> 's result" where
  "rfold f [] s = Inr s"
| "rfold f (x # xs) s = rbind (f x s) (rfold f xs)"

definition set_at :: "nat \<Rightarrow> nat \<Rightarrow> (nat \<Rightarrow> 'a) \<Rightarrow> 'a table \<Rightarrow> 'a table" where
  "set_at num_layers b f t = (\<lambda>l. if l < num_layers then (t l)(b := f l) else t l)"

definition write_row :: "'a list \<Rightarrow> 'a list \<Rightarrow> 'a list" where
  "write_row ys row = ys @ drop (length ys) row"

definition write_table_rows :: "prefetch_cfg \<Rightarrow> nat \<Rightarrow> (nat \<Rightarrow> nat list) \<Rightarrow> nat list table \<Rightarrow> nat list table" where
  "write_table_rows pc b ys t = set_at (pf_num_attention_layers pc) b (\<lambda>l. write_row (ys l) (t l b)) t"

section \<open>What kind of step\<close>

fun any_gsa :: "gsa_cfg \<Rightarrow> gsa_stats \<Rightarrow> req_id list \<Rightarrow> bool result" where
  "any_gsa cf stats [] = Inr False"
| "any_gsa cf stats (rid # rids) = rbind (py_key stats rid) (\<lambda>s. if is_gsa cf s then Inr True else any_gsa cf stats rids)"

definition get_run_type :: "prefetch_cfg \<Rightarrow> gsa_stats \<Rightarrow> gsa_engine \<Rightarrow> gsa_engine result" where
  "get_run_type pc stats e =
     rbind (any_gsa (pf_gsa pc) stats (ge_req_ids_bs e)) (\<lambda>open_gsa.
       Inr (if open_gsa then e\<lparr>ge_atb_gsa_enable := True, ge_ptopk_prefetch_enable := gc_ptopk_prefetch_enable (pf_gsa pc)\<rparr>
            else e\<lparr>ge_atb_gsa_enable := False, ge_ptopk_prefetch_enable := False\<rparr>))"

definition set_req_stat :: "prefetch_cfg \<Rightarrow> gsa_stats \<Rightarrow> gsa_engine \<Rightarrow> gsa_engine result" where
  "set_req_stat pc stats e =
     rfold (\<lambda>rid e. rbind (py_key stats rid) (\<lambda>s.
         Inr (if rid \<in> dict_keys (ge_is_gsa_req_id e)
              then if gsa_stage s \<noteq> PREFILL \<and> is_gsa (pf_gsa pc) s then e\<lparr>ge_is_gsa_req_id := dict_set rid True (ge_is_gsa_req_id e)\<rparr> else e
              else e\<lparr>ge_is_gsa_req_id := dict_set rid (is_gsa (pf_gsa pc) s) (ge_is_gsa_req_id e)\<rparr>)))
       (ge_req_ids_bs e) e"

definition get_max_block_len :: "gsa_stats \<Rightarrow> gsa_engine \<Rightarrow> nat result" where
  "get_max_block_len stats e =
     rbind (rmap (\<lambda>rid. rbind (py_key stats rid) (\<lambda>s. Inr (length (gr_blocks s)))) (ge_req_ids_bs e)) (\<lambda>lens. Inr (foldl max 0 lens))"

section \<open>The chosen blocks\<close>

text \<open>
  \<open>_topk_tmp_deal\<close>: the choice made since the last time goes to its requests, and the next one is
  prepared. Row \<open>i\<close> of the buffer is the request at index \<open>i\<close> of the batch for which it was computed.
\<close>

definition take_topk :: "prefetch_cfg \<Rightarrow> nat list table \<Rightarrow> nat \<times> req_id \<times> bool \<times> nat \<Rightarrow> gsa_stats \<Rightarrow> gsa_stats" where
  "take_topk pc buf = (\<lambda>(index, rid, gsa, topk_len) stats.
     (case dict_get stats rid of
        Some s \<Rightarrow> if gsa then dict_set rid (s\<lparr>gr_topk_buf_tmp := Some (map (\<lambda>l. take topk_len (buf l index)) [0..<pf_num_attention_layers pc])\<rparr>) stats else stats
      | None \<Rightarrow> stats))"

definition topk_tmp_deal :: "prefetch_cfg \<Rightarrow> nat list table \<Rightarrow> gsa_stats \<Rightarrow> gsa_engine \<Rightarrow> (gsa_stats \<times> gsa_engine) result" where
  "topk_tmp_deal pc topk_buf_tmp stats0 e =
     (let stats = fold (take_topk pc (ge_topk_buf_tmp e)) (enumerate 0 (ge_topk_bs e)) stats0
      in rbind (rmap (\<lambda>rid. rbind (py_key stats rid) (\<lambda>s.
               Inr (rid, is_gsa (pf_gsa pc) s, compute_topk_len (pf_gsa pc) (length (gr_blocks s)) + gc_num_prefetch_blocks (pf_gsa pc))))
             (ge_req_ids_bs e)) (\<lambda>topk_bs.
           Inr (stats, e\<lparr>ge_topk_bs := topk_bs, ge_topk_buf_tmp := topk_buf_tmp\<rparr>)))"

text \<open>What the calculation of a step leaves in the buffer it was given.\<close>

definition topk_calculated :: "nat list table \<Rightarrow> gsa_engine \<Rightarrow> gsa_engine" where
  "topk_calculated buf e = e\<lparr>ge_topk_buf_tmp := buf\<rparr>"

text \<open>\<open>_topk_insert_last_idx\<close>: a block that is newer than the choice is added to it.\<close>

definition insert_last_idx :: "gsa_stat \<Rightarrow> gsa_stat" where
  "insert_last_idx s =
     (case gr_topk_buf_tmp s of
        None \<Rightarrow> s
      | Some buf \<Rightarrow>
          let last_idx = length (gr_blocks s) - 1
          in if \<exists>row \<in> set buf. last_idx \<in> set row then s
             else s\<lparr>gr_topk_buf_tmp := Some (map (\<lambda>row. row @ [last_idx]) buf)\<rparr>)"

definition topk_insert_last_idx :: "gsa_stats \<Rightarrow> gsa_engine \<Rightarrow> gsa_stats result" where
  "topk_insert_last_idx stats e =
     rfold (\<lambda>rid stats. rbind (py_key stats rid) (\<lambda>s. Inr (dict_set rid (insert_last_idx s) stats))) (ge_req_ids_bs e) stats"

section \<open>Tables of the chosen blocks\<close>

text \<open>
  \<open>_no_gsa_input_deal\<close> for one request, used where blocks are not given back: the table lists the
  chosen blocks, or all blocks. The row of all blocks is the list of the request's blocks.
\<close>

definition all_blocks_row :: "prefetch_cfg \<Rightarrow> nat \<Rightarrow> nat list \<Rightarrow> gsa_stat \<Rightarrow> gsa_engine \<Rightarrow> gsa_engine result" where
  "all_blocks_row pc b one_block_table s e =
     (if min (length (gr_blocks s)) (pf_max_block_len pc) \<noteq> length one_block_table then Inl RuntimeError
      else Inr (e\<lparr>ge_gsa_seq_len := set_at (pf_num_attention_layers pc) b (\<lambda>_. int (get_seq_len s)) (ge_gsa_seq_len e),
                  ge_use_block_table := write_table_rows pc b (\<lambda>_. one_block_table) (ge_use_block_table e)\<rparr>))"

definition no_gsa_row :: "prefetch_cfg \<Rightarrow> gsa_stats \<Rightarrow> nat \<times> req_id \<Rightarrow> gsa_engine \<Rightarrow> gsa_engine result" where
  "no_gsa_row pc stats = (\<lambda>(index, rid) e.
     rbind (py_index (ge_select_bs_index e) index) (\<lambda>b.
     rbind (py_index (ge_block_table_list_bs e) index) (\<lambda>one_block_table.
     rbind (py_key (ge_is_gsa_req_id e) rid) (\<lambda>gsa.
     rbind (py_key stats rid) (\<lambda>s.
       let num_layers = pf_num_attention_layers pc; bs = gc_block_size (pf_gsa pc)
       in case (if gsa then gr_topk_buf_tmp s else None) of
            None \<Rightarrow> all_blocks_row pc b one_block_table s e
          | Some buf \<Rightarrow>
              if concat buf = [] then Inl RuntimeError
              else if length one_block_table \<le> Max (set (concat buf))
              then all_blocks_row pc b one_block_table s
                     (e\<lparr>ge_use_block_table := set_at num_layers b (\<lambda>_. replicate (pf_max_block_len pc) 0) (ge_use_block_table e)\<rparr>)
              else if length buf < num_layers then Inl IndexError
              else
                let one_topk_len = length (hd buf);
                    remain_slot = get_seq_len s mod bs;
                    seq_len = int (one_topk_len * bs) + (if remain_slot = 0 then 0 else int remain_slot - int bs)
                in if pf_max_block_len pc < one_topk_len then Inl RuntimeError
                   else Inr (e\<lparr>ge_use_block_table := write_table_rows pc b (\<lambda>l. map ((!) one_block_table) (buf ! l)) (ge_use_block_table e),
                               ge_gsa_seq_len := set_at num_layers b (\<lambda>_. seq_len) (ge_gsa_seq_len e)\<rparr>))))))"

definition no_gsa_input_deal :: "prefetch_cfg \<Rightarrow> gsa_stats \<Rightarrow> gsa_engine \<Rightarrow> gsa_engine result" where
  "no_gsa_input_deal pc stats e = rfold (no_gsa_row pc stats) (enumerate 0 (ge_req_ids_bs e)) e"

section \<open>Tables of the blocks that stay\<close>

text \<open>
  \<open>_first_topk_deal\<close> for one request, in the step after its prompt. The blocks that stay are those
  the last chunk moved, in the order of their numbers, or those of \<open>remain_idx\<close>. A tensor has rows
  of one length.
\<close>

definition layer_lists :: "(nat, nat) dict option list \<Rightarrow> nat \<Rightarrow> nat list list result" where
  "layer_lists maps num_layers =
     rmap (\<lambda>l. rbind (py_index maps l) (\<lambda>m. case m of None \<Rightarrow> Inl AttributeError | Some d \<Rightarrow> Inr (map snd d))) [0..<num_layers]"

definition same_length :: "'a list list \<Rightarrow> bool" where
  "same_length xss \<longleftrightarrow> (\<forall>xs \<in> set xss. length xs = length (hd xss))"

definition staying_blocks :: "prefetch_cfg \<Rightarrow> nat list \<Rightarrow> gsa_stat \<Rightarrow> (nat list list \<times> nat list list) result" where
  "staying_blocks pc block_table s =
     (let num_layers = pf_num_attention_layers pc
      in case gr_reamin_map s of
           Some rms \<Rightarrow>
             rbind (layer_lists rms num_layers) (\<lambda>stay.
             rbind (case gr_prefetch_map s of None \<Rightarrow> Inl TypeError | Some pms \<Rightarrow> layer_lists pms num_layers) (\<lambda>pre.
               if same_length stay \<and> same_length pre then Inr (map sort stay, pre) else Inl ValueError))
         | None \<Rightarrow>
             let block_table_list = py_slice block_table 0 (length (gr_blocks s)); remain = the (gr_remain_idx s)
             in if pf_max_block_len pc \<le> length remain then Inl AssertionError
                else
                  rbind (case gr_prefetch_idx s of None \<Rightarrow> Inl TypeError | Some pre \<Rightarrow> rmap (py_index block_table_list) pre) (\<lambda>pre.
                  rbind (rmap (py_index block_table_list) remain) (\<lambda>stay.
                    Inr (replicate num_layers stay, replicate num_layers pre))))"

text \<open>The lists are as long as the last layer's; the code has at least one layer.\<close>

definition first_topk_row :: "prefetch_cfg \<Rightarrow> gsa_stats \<Rightarrow> nat \<times> req_id \<Rightarrow> gsa_engine \<Rightarrow> gsa_engine result" where
  "first_topk_row pc stats = (\<lambda>(index, rid) e.
     rbind (py_key stats rid) (\<lambda>s.
       if gr_remain_idx s = None then Inr e
       else
         rbind (py_index (ge_select_bs_index e) index) (\<lambda>b.
         rbind (py_index (ge_block_table_list_bs e) index) (\<lambda>block_table.
         rbind (staying_blocks pc block_table s) (\<lambda>(stay, pre).
           let num_layers = pf_num_attention_layers pc; sp = pf_max_block_len pc
           in if sp < length (hd stay) \<or> sp < length (hd pre) then Inl RuntimeError
              else
                let e1 = e\<lparr>ge_prefetch_block_len := set_at num_layers b (\<lambda>_. length (hd pre)) (ge_prefetch_block_len e),
                    ge_block_table_len := set_at num_layers b (\<lambda>_. length (hd stay)) (ge_block_table_len e),
                    ge_use_block_table_len := set_at num_layers b (\<lambda>_. length (hd stay)) (ge_use_block_table_len e),
                    ge_prefetch_blocks := write_table_rows pc b (\<lambda>l. pre ! l) (ge_prefetch_blocks e),
                    ge_use_block_table := write_table_rows pc b (\<lambda>l. stay ! l) (ge_use_block_table e),
                    ge_m_load_success_list := write_table_rows pc b (\<lambda>l. stay ! l) (ge_m_load_success_list e)\<rparr>
                in rbind (case gr_block_hashes s of None \<Rightarrow> Inl TypeError | Some hs \<Rightarrow> Inr hs) (\<lambda>hashes.
                   rbind (py_key (ge_is_gsa_req_id e1) rid) (\<lambda>gsa.
                     Inr (if \<not> gsa then e1
                          else e1\<lparr>ge_calls := ge_calls e1 @
                            [case gr_reamin_map s of
                               Some rms \<Rightarrow> SetBlocksMapMultilayer rid rms (the (gr_prefetch_map s)) hashes (length hashes)
                             | None \<Rightarrow> SetBlocksMap rid (py_slice block_table 0 (length (gr_blocks s)))
                                 (the (gr_prefetch_idx s) @ the (gr_remain_idx s)) hashes (length hashes)]\<rparr>))))))))"

definition first_topk_deal :: "prefetch_cfg \<Rightarrow> gsa_stats \<Rightarrow> gsa_engine \<Rightarrow> gsa_engine result" where
  "first_topk_deal pc stats e = rfold (first_topk_row pc stats) (enumerate 0 (ge_req_ids_bs e)) e"

text \<open>
  \<open>_gsa_block_len_pre\<close>: the lengths that go with the tables; a block that was just added follows
  those of the table in every layer. \<open>append_block\<close> adds it to the row of each layer.
\<close>

definition append_block :: "prefetch_cfg \<Rightarrow> nat \<Rightarrow> nat \<Rightarrow> gsa_engine \<Rightarrow> gsa_engine result" where
  "append_block pc b block e =
     (let num_layers = pf_num_attention_layers pc
      in if \<exists>l \<in> {..<num_layers}. pf_max_block_len pc \<le> ge_use_block_table_len e l b then Inl AssertionError
         else Inr (e\<lparr>ge_use_block_table := set_at num_layers b (\<lambda>l. (ge_use_block_table e l b)[ge_use_block_table_len e l b := block]) (ge_use_block_table e),
                     ge_use_block_table_len := set_at num_layers b (\<lambda>l. ge_use_block_table_len e l b + 1) (ge_use_block_table_len e)\<rparr>))"

definition flag_block :: "req_id \<Rightarrow> nat \<Rightarrow> nat \<Rightarrow> gsa_engine \<Rightarrow> gsa_engine result" where
  "flag_block rid idx block e0 =
     (let e = (if rid \<in> dict_keys (ge_block_table_flag e0) then e0
               else e0\<lparr>ge_block_map_flag := dict_set rid [] (ge_block_map_flag e0), ge_block_table_flag := dict_set rid [] (ge_block_table_flag e0)\<rparr>)
      in rbind (py_key (ge_block_table_flag e) rid) (\<lambda>ts. rbind (py_key (ge_block_map_flag e) rid) (\<lambda>ms.
           Inr (e\<lparr>ge_block_table_flag := dict_set rid (ts @ [block]) (ge_block_table_flag e),
                  ge_block_map_flag := dict_set rid (ms @ [(idx, block)]) (ge_block_map_flag e)\<rparr>))))"

definition block_len_row :: "prefetch_cfg \<Rightarrow> gsa_stats \<Rightarrow> nat \<times> req_id \<Rightarrow> gsa_engine \<Rightarrow> gsa_engine result" where
  "block_len_row pc stats = (\<lambda>(index, rid) e.
     rbind (py_index (ge_select_bs_index e) index) (\<lambda>b. rbind (py_key stats rid) (\<lambda>s.
       let bs = gc_block_size (pf_gsa pc); num_layers = pf_num_attention_layers pc; remain_slot = get_seq_len s mod bs;
           set_len = (\<lambda>f. e\<lparr>ge_gsa_seq_len := set_at num_layers b (\<lambda>l. f (ge_gsa_seq_len e l b)) (ge_gsa_seq_len e)\<rparr>)
       in if gsa_stage s = DECODE
          then
            if remain_slot = 0 then Inr (set_len (\<lambda>n. n * int bs))
            else if remain_slot = 1
            then if gr_blocks s = [] then Inl IndexError
                 else rbind (append_block pc b (last (gr_blocks s)) (set_len (\<lambda>n. n * int bs + 1)))
                        (flag_block rid (length (gr_blocks s) - 1) (last (gr_blocks s)))
            else Inr (set_len (\<lambda>n. (n - 1) * int bs + int remain_slot))
          else
            if pf_max_block_len pc < length (gr_blocks s) then Inl RuntimeError
            else Inr (e\<lparr>ge_block_map_flag := dict_set rid [] (ge_block_map_flag e), ge_block_table_flag := dict_set rid [] (ge_block_table_flag e),
                        ge_gsa_seq_len := set_at num_layers b (\<lambda>_. int (get_seq_len s)) (ge_gsa_seq_len e),
                        ge_use_block_table := write_table_rows pc b (\<lambda>_. gr_blocks s) (ge_use_block_table e)\<rparr>))))"

definition gsa_block_len_pre :: "prefetch_cfg \<Rightarrow> gsa_stats \<Rightarrow> gsa_engine \<Rightarrow> gsa_engine result" where
  "gsa_block_len_pre pc stats e =
     rfold (block_len_row pc stats) (enumerate 0 (ge_req_ids_bs e)) (e\<lparr>ge_gsa_seq_len := (\<lambda>l b. int (ge_use_block_table_len e l b))\<rparr>)"

section \<open>A step\<close>

text \<open>What a step hands to attention: tables, lengths and the buffer for the next choice.\<close>

record gsa_input =
  gi_atb_gsa_enable :: bool
  gi_is_topk :: bool
  gi_topk_caches :: "nat list list list"
  gi_block_tables_mp :: "nat list list list"
  gi_gsa_seq_len :: "int list list"

definition gather :: "prefetch_cfg \<Rightarrow> nat list \<Rightarrow> 'a table \<Rightarrow> 'a list list" where
  "gather pc rows t = map (\<lambda>l. map (t l) rows) [0..<pf_num_attention_layers pc]"

text \<open>
  \<open>model_input_deal\<close>. The buffer for the next choice is a fresh copy of rows of zeros. Without any
  request to treat sparsely, what the last such step left in the input is not used.
\<close>

definition next_choice :: "prefetch_cfg \<Rightarrow> nat list table \<Rightarrow> gsa_stats \<Rightarrow> gsa_engine \<Rightarrow> (gsa_stats \<times> gsa_engine) result" where
  "next_choice pc buf stats e =
     (if ge_is_topk_cal e then rbind (topk_tmp_deal pc buf stats e) (\<lambda>(stats', e'). Inr (stats', e'\<lparr>ge_is_topk_update := True\<rparr>))
      else Inr (stats, e))"

definition fill_tables :: "prefetch_cfg \<Rightarrow> gsa_stats \<Rightarrow> gsa_engine \<Rightarrow> gsa_engine result" where
  "fill_tables pc stats e =
     (if ge_ptopk_prefetch_enable e then rbind (first_topk_deal pc stats e) (gsa_block_len_pre pc stats) else no_gsa_input_deal pc stats e)"

definition sparse_input ::
  "prefetch_cfg \<Rightarrow> nat list \<Rightarrow> bool \<Rightarrow> nat \<Rightarrow> gsa_stats \<Rightarrow> gsa_engine \<Rightarrow> (gsa_stats \<times> gsa_engine \<times> gsa_input) result" where
  "sparse_input pc topk_kpre_maps is_topk_done max_len stats0 e =
     (let topk_len = compute_topk_len (pf_gsa pc) max_len + gc_num_prefetch_blocks (pf_gsa pc);
          zeros = replicate (min topk_len (pf_max_block_len pc)) 0
      in rbind (next_choice pc (\<lambda>_ _. zeros) stats0 (e\<lparr>ge_topk_len := topk_len, ge_is_topk_cal := is_topk_done \<and> ge_topk_space e mod 3 = 0\<rparr>)) (\<lambda>(stats1, e1).
         rbind (topk_insert_last_idx stats1 e1) (\<lambda>stats2.
         rbind (fill_tables pc stats2 e1) (\<lambda>e2.
           Inr (stats2, e2,
             \<lparr>gi_atb_gsa_enable = True, gi_is_topk = ge_is_topk_cal e2,
              gi_topk_caches = map (\<lambda>_. map (\<lambda>_. zeros) topk_kpre_maps) [0..<pf_num_attention_layers pc],
              gi_block_tables_mp = gather pc topk_kpre_maps (ge_use_block_table e2),
              gi_gsa_seq_len = gather pc topk_kpre_maps (ge_gsa_seq_len e2)\<rparr>)))))"

definition model_input_deal ::
  "prefetch_cfg \<Rightarrow> req_id list \<Rightarrow> nat list list \<Rightarrow> nat list \<Rightarrow> bool \<Rightarrow> gsa_stats \<Rightarrow> gsa_engine \<Rightarrow> (gsa_stats \<times> gsa_engine \<times> gsa_input) result" where
  "model_input_deal pc req_ids block_table_ori topk_kpre_maps is_topk_done stats e0 =
     (let e1 = e0\<lparr>ge_step_time := ge_step_time e0 + 1, ge_select_bs_index := topk_kpre_maps, ge_block_table_list_bs := block_table_ori,
                  ge_req_ids_bs := req_ids\<rparr>
      in rbind (get_run_type pc stats e1) (\<lambda>e2. rbind (set_req_stat pc stats e2) (\<lambda>e3.
         if \<not> ge_atb_gsa_enable e3
         then Inr (stats, e3, \<lparr>gi_atb_gsa_enable = False, gi_is_topk = False, gi_topk_caches = [], gi_block_tables_mp = [], gi_gsa_seq_len = []\<rparr>)
         else rbind (get_max_block_len stats e3) (\<lambda>max_len. sparse_input pc topk_kpre_maps is_topk_done max_len stats e3))))"

section \<open>Fetching between steps\<close>

text \<open>
  \<open>_swap_block_table_tensor\<close> for one row, after the tables that were filled in the background are
  taken into use: blocks added since then are appended to them, too, and the request's choice goes to the native engine.
\<close>

definition swap_row :: "prefetch_cfg \<Rightarrow> gsa_stats \<Rightarrow> nat \<times> nat \<Rightarrow> gsa_engine \<Rightarrow> gsa_engine result" where
  "swap_row pc stats = (\<lambda>(index, b) e.
     rbind (py_index (ge_req_ids_bs e) index) (\<lambda>rid.
       let e1 = (case dict_get (ge_block_map_flag e) rid of
                   None \<Rightarrow> e
                 | Some ms \<Rightarrow> e\<lparr>ge_calls := ge_calls e @ map (\<lambda>(idx, block). AddBlocksMap rid idx block) ms,
                                ge_block_map_flag := dict_set rid [] (ge_block_map_flag e)\<rparr>)
       in rbind (case dict_get (ge_block_table_flag e1) rid of
                   None \<Rightarrow> Inr e1
                 | Some ts \<Rightarrow> rbind (rfold (append_block pc b) ts e1) (\<lambda>e2.
                     Inr (e2\<lparr>ge_block_table_flag := dict_set rid [] (ge_block_table_flag e2)\<rparr>))) (\<lambda>e3.
          rbind (py_key stats rid) (\<lambda>s.
            case gr_topk_buf_tmp s of
              None \<Rightarrow> Inr e3
            | Some buf \<Rightarrow>
                if length buf \<noteq> pf_num_attention_layers pc \<or> pf_max_block_len pc < length (hd buf) then Inl RuntimeError
                else Inr (e3\<lparr>ge_prefetch_topk_buf := write_table_rows pc index (\<lambda>l. buf ! l) (ge_prefetch_topk_buf e3)\<rparr>)))))"

definition topk_lens :: "gsa_stats \<Rightarrow> gsa_engine \<Rightarrow> nat list result" where
  "topk_lens stats e =
     rmap (\<lambda>rid. rbind (py_key (ge_is_gsa_req_id e) rid) (\<lambda>gsa.
       if \<not> gsa then Inr 0
       else rbind (py_key stats rid) (\<lambda>s. Inr (case gr_topk_buf_tmp s of None \<Rightarrow> 0 | Some buf \<Rightarrow> length (hd buf))))) (ge_req_ids_bs e)"

text \<open>
  \<open>deal_async_prefetch\<close>; answers whether the lists of blocks to load are to be read from the native
  engine.
\<close>

definition deal_async_prefetch :: "prefetch_cfg \<Rightarrow> bool \<Rightarrow> gsa_stats \<Rightarrow> gsa_engine \<Rightarrow> (bool \<times> gsa_engine) result" where
  "deal_async_prefetch pc is_prefetch_done stats e0 =
     (let e1 = e0\<lparr>ge_topk_space := ge_topk_space e0 + 1\<rparr>
      in if ge_atb_gsa_enable e1 \<and> is_prefetch_done \<and> ge_ptopk_prefetch_enable e1 \<and> ge_is_topk_update e1
         then
           let e2 = e1\<lparr>ge_use_block_table := ge_m_load_success_list e1, ge_m_load_success_list := ge_use_block_table e1,
                       ge_use_block_table_len := ge_block_table_len e1, ge_block_table_len := ge_use_block_table_len e1\<rparr>
           in rbind (rfold (swap_row pc stats) (enumerate 0 (ge_select_bs_index e2)) e2) (\<lambda>e3.
              rbind (topk_lens stats e3) (\<lambda>lens.
                Inr (pf_is_python_load pc,
                     e3\<lparr>ge_calls := ge_calls e3 @ [SetBlocksTableInfo (ge_step_time e3), RunAsyncPrefetch (ge_req_ids_bs e3) lens (ge_select_bs_index e3)],
                        ge_is_topk_update := False\<rparr>)))
         else Inr (False, e1))"

definition del_finish_meta :: "prefetch_cfg \<Rightarrow> req_id \<Rightarrow> bool \<Rightarrow> gsa_engine \<Rightarrow> gsa_engine" where
  "del_finish_meta pc rid flag e =
     (let e1 = e\<lparr>ge_block_map_flag := dict_pop rid (ge_block_map_flag e), ge_block_table_flag := dict_pop rid (ge_block_table_flag e),
                 ge_is_gsa_req_id := dict_pop rid (ge_is_gsa_req_id e)\<rparr>
      in if gc_ptopk_prefetch_enable (pf_gsa pc) \<and> flag then e1\<lparr>ge_calls := ge_calls e1 @ [DelBlocksMap rid]\<rparr> else e1)"

section \<open>Loops over a batch\<close>

lemma rfold_append: "rfold f (xs @ ys) s = rbind (rfold f xs s) (rfold f ys)"
proof (induction xs arbitrary: s)
  case Nil
  then show ?case by simp
next
  case (Cons x xs)
  then show ?case by (cases "f x s") simp_all
qed

lemma rfold_keeps:
  "(\<And>x s s'. x \<in> set xs \<Longrightarrow> P s \<Longrightarrow> f x s = Inr s' \<Longrightarrow> P s') \<Longrightarrow> P s \<Longrightarrow> rfold f xs s = Inr s' \<Longrightarrow> P s'"
proof (induction xs arbitrary: s)
  case Nil
  then show ?case by simp
next
  case (Cons x xs)
  then obtain s1 where "f x s = Inr s1" "rfold f xs s1 = Inr s'" by (auto simp: rbind_Inr_iff)
  then show ?case using Cons by (metis list.set_intros(1) list.set_intros(2))
qed

lemma rfold_split:
  assumes "rfold f xs s = Inr s'" and "i < length xs"
  obtains s1 s2 where "rfold f (take i xs) s = Inr s1" and "f (xs ! i) s1 = Inr s2" and "rfold f (drop (Suc i) xs) s2 = Inr s'"
proof -
  have "rfold f (take i xs @ xs ! i # drop (Suc i) xs) s = Inr s'" using assms by (simp add: id_take_nth_drop [symmetric])
  then show ?thesis using that by (auto simp: rfold_append rbind_Inr_iff)
qed

lemma enumerate_take: "i < n \<Longrightarrow> (j, x) \<in> set (take i (enumerate 0 xs)) \<Longrightarrow> j < i"
  by (auto simp: in_set_conv_nth nth_enumerate_eq)

lemma enumerate_drop: "(j, x) \<in> set (drop (Suc i) (enumerate 0 xs)) \<Longrightarrow> i < j"
  by (auto simp: in_set_conv_nth nth_enumerate_eq)

lemma set_at_same [simp]: "set_at n b f t l b = (if l < n then f l else t l b)"
  by (simp add: set_at_def)

lemma set_at_other [simp]: "b' \<noteq> b \<Longrightarrow> set_at n b f t l b' = t l b'"
  by (simp add: set_at_def)

lemma take_write_row [simp]: "take (length ys) (write_row ys row) = ys"
  by (simp add: write_row_def)

text \<open>A request's step of the loop touches its own row of the tables only.\<close>

definition one_row :: "nat \<Rightarrow> nat \<Rightarrow> gsa_engine \<Rightarrow> gsa_engine \<Rightarrow> bool" where
  "one_row num_layers b e e' \<longleftrightarrow> (\<exists>f g. e' = e\<lparr>ge_use_block_table := set_at num_layers b f (ge_use_block_table e),
      ge_gsa_seq_len := set_at num_layers b g (ge_gsa_seq_len e)\<rparr>)"

lemma set_at_twice: "set_at n b f (set_at n b g t) = set_at n b f t"
  by (intro ext) (simp add: set_at_def)

lemma all_blocks_one_row:
  assumes "all_blocks_row pc b row s (e\<lparr>ge_use_block_table := t\<rparr>) = Inr e'"
    and "t = ge_use_block_table e \<or> t = set_at (pf_num_attention_layers pc) b h (ge_use_block_table e)"
  shows "one_row (pf_num_attention_layers pc) b e e'"
proof -
  have "set_at (pf_num_attention_layers pc) b f t = set_at (pf_num_attention_layers pc) b f (ge_use_block_table e)" for f
    using assms(2) by (auto simp: set_at_twice)
  then have "e' = e\<lparr>ge_gsa_seq_len := set_at (pf_num_attention_layers pc) b (\<lambda>_. int (get_seq_len s)) (ge_gsa_seq_len e),
      ge_use_block_table := set_at (pf_num_attention_layers pc) b (\<lambda>l. write_row row (t l b)) (ge_use_block_table e)\<rparr>"
    using assms(1) by (simp add: all_blocks_row_def write_table_rows_def split: if_splits)
  then show ?thesis unfolding one_row_def
    by (intro exI [of _ "\<lambda>l. write_row row (t l b)"] exI [of _ "\<lambda>_. int (get_seq_len s)"]) (auto intro!: gsa_engine.equality)
qed

lemma no_gsa_one_row:
  assumes "no_gsa_row pc stats (i, rid) e = Inr e'"
  shows "i < length (ge_select_bs_index e)" and "i < length (ge_block_table_list_bs e)"
    and "one_row (pf_num_attention_layers pc) (ge_select_bs_index e ! i) e e'"
proof -
  obtain gsa s where i: "i < length (ge_select_bs_index e)" "i < length (ge_block_table_list_bs e)"
    and gs: "dict_get (ge_is_gsa_req_id e) rid = Some gsa" "dict_get stats rid = Some s"
    using assms by (auto simp: no_gsa_row_def rbind_Inr_iff py_index_def py_key_def split: if_splits option.splits)
  then show "i < length (ge_select_bs_index e)" "i < length (ge_block_table_list_bs e)" by simp_all
  let ?b = "ge_select_bs_index e ! i" and ?row = "ge_block_table_list_bs e ! i"
  show "one_row (pf_num_attention_layers pc) ?b e e'"
  proof (cases "if gsa then gr_topk_buf_tmp s else None")
    case None
    then have "all_blocks_row pc ?b ?row s (e\<lparr>ge_use_block_table := ge_use_block_table e\<rparr>) = Inr e'"
      using assms i gs by (simp add: no_gsa_row_def py_index_def py_key_def Let_def del: if_split)
    then show ?thesis by (rule all_blocks_one_row) simp
  next
    case (Some buf)
    show ?thesis
    proof (cases "length ?row \<le> Max (set (concat buf))")
      case True
      then have "all_blocks_row pc ?b ?row s (e\<lparr>ge_use_block_table := set_at (pf_num_attention_layers pc) ?b (\<lambda>_. replicate (pf_max_block_len pc) 0) (ge_use_block_table e)\<rparr>) = Inr e'"
        using assms i gs Some by (cases "concat buf = []") (simp_all add: no_gsa_row_def py_index_def py_key_def Let_def del: concat_eq_Nil_conv)
      then show ?thesis by (rule all_blocks_one_row) (rule disjI2, rule refl)
    next
      case False
      let ?k = "length (hd buf)" and ?r = "get_seq_len s mod gc_block_size (pf_gsa pc)"
      have "e' = e\<lparr>ge_use_block_table := write_table_rows pc ?b (\<lambda>l. map ((!) ?row) (buf ! l)) (ge_use_block_table e),
          ge_gsa_seq_len := set_at (pf_num_attention_layers pc) ?b (\<lambda>_. int (?k * gc_block_size (pf_gsa pc))
            + (if ?r = 0 then 0 else int ?r - int (gc_block_size (pf_gsa pc)))) (ge_gsa_seq_len e)\<rparr>"
        using assms i gs Some False by (simp add: no_gsa_row_def py_index_def py_key_def Let_def del: concat_eq_Nil_conv split: if_splits)
      then show ?thesis unfolding one_row_def write_table_rows_def by blast
    qed
  qed
qed

lemma one_rowD:
  assumes "one_row n b e e'"
  shows "ge_select_bs_index e' = ge_select_bs_index e" "ge_block_table_list_bs e' = ge_block_table_list_bs e"
    "ge_is_gsa_req_id e' = ge_is_gsa_req_id e"
    "b' \<noteq> b \<Longrightarrow> ge_use_block_table e' l b' = ge_use_block_table e l b'" "b' \<noteq> b \<Longrightarrow> ge_gsa_seq_len e' l b' = ge_gsa_seq_len e l b'"
  using assms by (auto simp: one_row_def)

lemmas no_gsa_row_frame = one_rowD [OF no_gsa_one_row(3)]

text \<open>So after the loop a row is what its request's step made of it.\<close>

lemma no_gsa_row_after:
  assumes run: "no_gsa_input_deal pc stats e = Inr e'" and d: "distinct (ge_select_bs_index e)" and i: "i < length (ge_req_ids_bs e)"
  obtains e1 e2 where "no_gsa_row pc stats (i, ge_req_ids_bs e ! i) e1 = Inr e2" and "ge_select_bs_index e1 = ge_select_bs_index e"
    and "ge_block_table_list_bs e1 = ge_block_table_list_bs e" and "ge_is_gsa_req_id e1 = ge_is_gsa_req_id e"
    and "ge_use_block_table e' l (ge_select_bs_index e ! i) = ge_use_block_table e2 l (ge_select_bs_index e ! i)"
    and "ge_gsa_seq_len e' l (ge_select_bs_index e ! i) = ge_gsa_seq_len e2 l (ge_select_bs_index e ! i)"
proof -
  let ?xs = "enumerate 0 (ge_req_ids_bs e)" and ?sel = "ge_select_bs_index e"
  let ?b = "?sel ! i"
  have ix: "i < length ?xs" using i by simp
  obtain e1 e2 where e1: "rfold (no_gsa_row pc stats) (take i ?xs) e = Inr e1" and e2: "no_gsa_row pc stats (?xs ! i) e1 = Inr e2"
      and e': "rfold (no_gsa_row pc stats) (drop (Suc i) ?xs) e2 = Inr e'"
    using rfold_split [OF run [unfolded no_gsa_input_deal_def] ix] by blast
  have xi: "?xs ! i = (i, ge_req_ids_bs e ! i)" using i by (simp add: nth_enumerate_eq)
  have f1: "ge_select_bs_index e1 = ?sel \<and> ge_block_table_list_bs e1 = ge_block_table_list_bs e \<and> ge_is_gsa_req_id e1 = ge_is_gsa_req_id e"
  proof (rule rfold_keeps [OF _ _ e1])
    fix x s s' assume P: "ge_select_bs_index s = ?sel \<and> ge_block_table_list_bs s = ge_block_table_list_bs e \<and> ge_is_gsa_req_id s = ge_is_gsa_req_id e"
      and s': "no_gsa_row pc stats x s = Inr s'"
    obtain j rid where xj: "x = (j, rid)" by (cases x)
    show "ge_select_bs_index s' = ?sel \<and> ge_block_table_list_bs s' = ge_block_table_list_bs e \<and> ge_is_gsa_req_id s' = ge_is_gsa_req_id e"
      using no_gsa_row_frame(1-3) [OF s' [unfolded xj]] P by simp
  qed simp
  note fr = no_gsa_row_frame [OF e2 [unfolded xi]]
  have il: "i < length ?sel" using no_gsa_one_row(1) [OF e2 [unfolded xi]] f1 by simp
  have "ge_select_bs_index e' = ?sel \<and> ge_use_block_table e' l ?b = ge_use_block_table e2 l ?b \<and> ge_gsa_seq_len e' l ?b = ge_gsa_seq_len e2 l ?b"
  proof (rule rfold_keeps [OF _ _ e'])
    fix x s s' assume x: "x \<in> set (drop (Suc i) ?xs)"
      and P: "ge_select_bs_index s = ?sel \<and> ge_use_block_table s l ?b = ge_use_block_table e2 l ?b \<and> ge_gsa_seq_len s l ?b = ge_gsa_seq_len e2 l ?b"
      and s': "no_gsa_row pc stats x s = Inr s'"
    obtain j rid where xj: "x = (j, rid)" by (cases x)
    note f = no_gsa_row_frame [OF s' [unfolded xj]]
    have "i < j" using x unfolding xj by (rule enumerate_drop)
    then have "?b \<noteq> ?sel ! j" using d il no_gsa_one_row(1) [OF s' [unfolded xj]] P by (simp add: nth_eq_iff_index_eq)
    then show "ge_select_bs_index s' = ?sel \<and> ge_use_block_table s' l ?b = ge_use_block_table e2 l ?b \<and> ge_gsa_seq_len s' l ?b = ge_gsa_seq_len e2 l ?b"
      using f P by simp
  qed (use fr(1) f1 in simp_all)
  then show ?thesis using that e2 xi f1 by simp
qed


section \<open>What attention reads\<close>

text \<open>
  The tokens of the block at index \<open>i\<close> of a sequence: attention takes those of the entry at position
  \<open>j\<close> of a table to be as many as the length it is given has there.
\<close>

definition block_tokens :: "nat \<Rightarrow> nat \<Rightarrow> nat \<Rightarrow> nat" where
  "block_tokens bs seq_len i = min bs (seq_len - i * bs)"

lemma block_tokens_eq:
  assumes "0 < bs" and "i < ceil_div n bs"
  shows "block_tokens bs n i = (if Suc i = ceil_div n bs \<and> n mod bs \<noteq> 0 then n mod bs else bs)"
proof (cases "i < n div bs")
  case True
  then have "Suc i * bs \<le> n div bs * bs" by (intro mult_le_mono1) simp
  also have "\<dots> \<le> n" by (rule div_times_less_eq_dividend)
  finally have "bs \<le> n - i * bs" by simp
  then show ?thesis using True by (simp add: block_tokens_def ceil_div_eq [OF assms(1)])
next
  case False
  then have i: "i = n div bs" "n mod bs \<noteq> 0" using assms by (auto simp: ceil_div_eq split: if_splits)
  then have "n - i * bs = n mod bs" by (simp add: minus_div_mult_eq_mod)
  moreover have "n mod bs < bs" using assms(1) by simp
  ultimately show ?thesis using i assms(1) by (simp add: block_tokens_def ceil_div_eq)
qed

lemma chosen_tokens:
  assumes bs: "0 < bs" and n: "n = ceil_div seq bs" and row: "distinct row" "set row \<subseteq> {..<n}" "n - 1 \<in> set row"
    and len: "len = (if seq mod bs = 0 then length row * bs else length row * bs - bs + seq mod bs)"
  shows "(\<forall>j < length row. block_tokens bs len j = block_tokens bs seq (row ! j)) \<longleftrightarrow> seq mod bs = 0 \<or> last row = n - 1"
proof -
  have ne: "row \<noteq> []" using row(3) by auto
  then obtain m where m: "length row = Suc m" by (cases row) auto
  have lm: "len mod bs = seq mod bs" "ceil_div len bs = Suc m"
    using bs by (simp_all add: len m ceil_div_eq)
  have last: "last row = row ! m" using ne m by (simp add: last_conv_nth)
  have at: "block_tokens bs len j = (if j = m \<and> seq mod bs \<noteq> 0 then seq mod bs else bs)" if "j < length row" for j
    using block_tokens_eq [OF bs, of j len] that lm m by simp
  have at': "block_tokens bs seq (row ! j) = (if row ! j = n - 1 \<and> seq mod bs \<noteq> 0 then seq mod bs else bs)" if "j < length row" for j
  proof -
    have "row ! j < n" using row(2) that nth_mem by blast
    then show ?thesis using block_tokens_eq [OF bs, of "row ! j" seq] by (auto simp: n [symmetric])
  qed
  have lt: "seq mod bs \<noteq> bs" using bs by (metis mod_less_divisor nat_less_le)
  show ?thesis
  proof (cases "seq mod bs = 0")
    case True
    then show ?thesis using at at' by simp
  next
    case False
    have "(\<forall>j < length row. block_tokens bs len j = block_tokens bs seq (row ! j)) \<longleftrightarrow> (\<forall>j < length row. j = m \<longleftrightarrow> row ! j = n - 1)"
      using at at' False lt by (metis (no_types, lifting))
    also have "\<dots> \<longleftrightarrow> row ! m = n - 1"
    proof
      assume "\<forall>j < length row. j = m \<longleftrightarrow> row ! j = n - 1"
      then show "row ! m = n - 1" using m lessI [of m] by metis
    next
      assume "row ! m = n - 1"
      then show "\<forall>j < length row. j = m \<longleftrightarrow> row ! j = n - 1"
        using row(1) m by (metis lessI nth_eq_iff_index_eq)
    qed
    finally show ?thesis using False last by simp
  qed
qed


text \<open>
  C23: Where a step reads the chosen blocks of a request, each layer's table lists them in the order of
  the choice, whatever the other requests of the batch; and attention reads of each exactly the
  tokens it holds if and only if the sequence fills its blocks or its last block comes last.
\<close>

theorem chosen_blocks_are_read:
  fixes pc stats e e' i
  defines "rid \<equiv> ge_req_ids_bs e ! i" and "b \<equiv> ge_select_bs_index e ! i" and "bs \<equiv> gc_block_size (pf_gsa pc)"
  assumes run: "no_gsa_input_deal pc stats e = Inr e'" and d: "distinct (ge_select_bs_index e)"
    and i: "i < length (ge_req_ids_bs e)" and l: "l < pf_num_attention_layers pc"
    and s: "dict_get stats rid = Some s" "dict_get (ge_is_gsa_req_id e) rid = Some True" "gr_topk_buf_tmp s = Some buf"
    and blocks: "ge_block_table_list_bs e ! i = gr_blocks s" "0 < bs" "length (gr_blocks s) = ceil_div (get_seq_len s) bs"
    and buf: "same_length buf" "set (concat buf) \<subseteq> {..<length (gr_blocks s)}"
    and row: "distinct (buf ! l)" "length (gr_blocks s) - 1 \<in> set (buf ! l)"
  shows "take (length (buf ! l)) (ge_use_block_table e' l b) = map ((!) (gr_blocks s)) (buf ! l)
    \<and> ((\<forall>j < length (buf ! l). block_tokens bs (nat (ge_gsa_seq_len e' l b)) j = block_tokens bs (get_seq_len s) (buf ! l ! j))
         \<longleftrightarrow> get_seq_len s mod bs = 0 \<or> last (buf ! l) = length (gr_blocks s) - 1)"
proof -
  obtain e1 e2 where st: "no_gsa_row pc stats (i, rid) e1 = Inr e2" "ge_select_bs_index e1 = ge_select_bs_index e"
      "ge_block_table_list_bs e1 = ge_block_table_list_bs e" "ge_is_gsa_req_id e1 = ge_is_gsa_req_id e"
      "ge_use_block_table e' l b = ge_use_block_table e2 l b" "ge_gsa_seq_len e' l b = ge_gsa_seq_len e2 l b"
    using no_gsa_row_after [OF run d i, of l thesis] unfolding rid_def b_def by blast
  note ix = no_gsa_one_row(1,2) [OF st(1)]
  let ?k = "length (hd buf)" and ?r = "get_seq_len s mod bs"
  have ne: "concat buf \<noteq> []"
  proof
    assume "concat buf = []"
    then show False using st(1) ix s st(2-4) by (simp add: no_gsa_row_def py_index_def py_key_def Let_def)
  qed
  have "Max (set (concat buf)) \<in> set (concat buf)" using ne by (intro Max_in) simp_all
  then have mx: "\<not> length (gr_blocks s) \<le> Max (set (concat buf))" using buf(2) by auto
  have e2: "\<not> length buf < pf_num_attention_layers pc" "e2 = e1\<lparr>ge_use_block_table := write_table_rows pc b (\<lambda>l. map ((!) (gr_blocks s)) (buf ! l)) (ge_use_block_table e1),
      ge_gsa_seq_len := set_at (pf_num_attention_layers pc) b (\<lambda>_. int (?k * bs) + (if ?r = 0 then 0 else int ?r - int bs)) (ge_gsa_seq_len e1)\<rparr>"
    using st(1-4) ix s blocks(1) ne mx unfolding b_def bs_def
    by (simp_all add: no_gsa_row_def py_index_def py_key_def Let_def del: concat_eq_Nil_conv split: if_splits)
  have k: "?k = length (buf ! l)" using buf(1) e2(1) l by (simp add: same_length_def)
  have "buf ! l \<noteq> []" using row(2) by auto
  then have le: "bs \<le> ?k * bs" unfolding k by (cases "buf ! l") auto
  have key: "bs \<le> x \<Longrightarrow> int x + (int r - int bs) = int (x - bs + r)" for x r by simp
  have "int (?k * bs) + (if ?r = 0 then 0 else int ?r - int bs) = int (if ?r = 0 then ?k * bs else ?k * bs - bs + ?r)"
    by (cases "?r = 0") (simp_all only: simp_thms if_True if_False add_0_right key [OF le])
  then have len: "nat (ge_gsa_seq_len e' l b) = (if ?r = 0 then ?k * bs else ?k * bs - bs + ?r)"
    using st(6) e2(2) l by (simp del: of_nat_mult of_nat_add)
  have "buf ! l \<in> set buf" using e2(1) l by simp
  then have "set (buf ! l) \<subseteq> {..<length (gr_blocks s)}" using buf(2) by auto
  from chosen_tokens [OF blocks(2,3) row(1) this row(2) len [unfolded k]]
  have exact: "(\<forall>j < length (buf ! l). block_tokens bs (nat (ge_gsa_seq_len e' l b)) j = block_tokens bs (get_seq_len s) (buf ! l ! j))
         \<longleftrightarrow> ?r = 0 \<or> last (buf ! l) = length (gr_blocks s) - 1" .
  have "ge_use_block_table e' l b = write_row (map ((!) (gr_blocks s)) (buf ! l)) (ge_use_block_table e1 l b)"
    using st(5) e2(2) l by (simp add: write_table_rows_def)
  then have "take (length (buf ! l)) (ge_use_block_table e' l b) = map ((!) (gr_blocks s)) (buf ! l)"
    using take_write_row [of "map ((!) (gr_blocks s)) (buf ! l)"] by simp
  then show ?thesis using exact by blast
qed


text \<open>
  A choice that lacks the newest block gets it at the end of every layer's row, and the rows stay of
  one length; a choice that has it in one layer is left as it is.
\<close>

lemma inserted_idx_is_last:
  assumes "gr_topk_buf_tmp s = Some buf" and "\<forall>row \<in> set buf. length (gr_blocks s) - 1 \<notin> set row" and "same_length buf"
  shows "\<exists>buf'. gr_topk_buf_tmp (insert_last_idx s) = Some buf' \<and> same_length buf' \<and> length buf' = length buf
    \<and> (\<forall>l < length buf. buf' ! l = buf ! l @ [length (gr_blocks s) - 1])"
proof -
  have "gr_topk_buf_tmp (insert_last_idx s) = Some (map (\<lambda>row. row @ [length (gr_blocks s) - 1]) buf)"
    using assms(1,2) by (auto simp: insert_last_idx_def Let_def)
  moreover have "same_length (map (\<lambda>row. row @ [length (gr_blocks s) - 1]) buf)"
    using assms(3) by (cases buf) (auto simp: same_length_def)
  ultimately show ?thesis by simp
qed

text \<open>Without a choice the table lists all blocks, and attention reads the sequence.\<close>

lemma all_blocks_are_read:
  assumes "all_blocks_row pc b (gr_blocks s) s e = Inr e'" and "l < pf_num_attention_layers pc"
  shows "take (length (gr_blocks s)) (ge_use_block_table e' l b) = gr_blocks s" and "ge_gsa_seq_len e' l b = int (get_seq_len s)"
  using assms by (auto simp: all_blocks_row_def write_table_rows_def split: if_splits)

section \<open>Choices reach their requests\<close>

lemma take_topk_other:
  "rid \<notin> fst ` set xs \<Longrightarrow> dict_get (fold (take_topk pc buf) (enumerate n xs) stats) rid = dict_get stats rid"
proof (induction xs arbitrary: n stats)
  case Nil
  then show ?case by simp
next
  case (Cons x xs)
  obtain r g k where x: "x = (r, g, k)" by (cases x)
  have "dict_get (take_topk pc buf (n, x) stats) rid = dict_get stats rid"
    using Cons.prems by (auto simp: take_topk_def x split: option.splits)
  then show ?case using Cons by simp
qed

lemma take_topk_own:
  "i < length xs \<Longrightarrow> xs ! i = (rid, g, k) \<Longrightarrow> distinct (map fst xs) \<Longrightarrow> dict_get stats rid = Some s \<Longrightarrow>
   dict_get (fold (take_topk pc buf) (enumerate n xs) stats) rid
     = Some (if g then s\<lparr>gr_topk_buf_tmp := Some (map (\<lambda>l. take k (buf l (n + i))) [0..<pf_num_attention_layers pc])\<rparr> else s)"
proof (induction xs arbitrary: n stats i)
  case Nil
  then show ?case by (simp only: list.size not_less0)
next
  case (Cons x xs)
  show ?case
  proof (cases i)
    case 0
    then have "map fst (x # xs) = rid # map fst xs" using Cons.prems(2) by simp
    then have "rid \<notin> fst ` set xs" using Cons.prems(3) by (metis distinct.simps(2) list.set_map)
    moreover have "dict_get (take_topk pc buf (n, x) stats) rid
        = Some (if g then s\<lparr>gr_topk_buf_tmp := Some (map (\<lambda>l. take k (buf l n)) [0..<pf_num_attention_layers pc])\<rparr> else s)"
      using 0 Cons.prems by (simp add: take_topk_def)
    ultimately show ?thesis using 0 by (simp only: simp_thms enumerate_simps fold_simps take_topk_other add_0_right)
  next
    case (Suc j)
    obtain r g' k' where x: "x = (r, g', k')" by (cases x)
    have "xs ! j \<in> set xs" using Cons.prems(1) Suc by (intro nth_mem) simp
    moreover have "fst (xs ! j) = rid" using Cons.prems Suc by simp
    ultimately have "r \<noteq> rid" using Cons.prems(3) by (auto simp: x)
    then have "dict_get (take_topk pc buf (n, x) stats) rid = Some s"
      using Cons.prems by (simp add: take_topk_def x split: option.splits)
    then show ?thesis using Cons.IH [of j "take_topk pc buf (n, x) stats" "Suc n"] Cons.prems Suc by simp
  qed
qed

lemma topk_tmp_deal_bs:
  assumes "topk_tmp_deal pc buf stats e = Inr (stats', e')"
  shows "length (ge_topk_bs e') = length (ge_req_ids_bs e)" and "map fst (ge_topk_bs e') = ge_req_ids_bs e"
    and "stats' = fold (take_topk pc (ge_topk_buf_tmp e)) (enumerate 0 (ge_topk_bs e)) stats"
    and "i < length (ge_req_ids_bs e) \<Longrightarrow> dict_get stats' (ge_req_ids_bs e ! i) = Some s \<Longrightarrow>
      ge_topk_bs e' ! i = (ge_req_ids_bs e ! i, is_gsa (pf_gsa pc) s, compute_topk_len (pf_gsa pc) (length (gr_blocks s)) + gc_num_prefetch_blocks (pf_gsa pc))"
proof -
  define stats1 where "stats1 = fold (take_topk pc (ge_topk_buf_tmp e)) (enumerate 0 (ge_topk_bs e)) stats"
  obtain bs where r: "rmap (\<lambda>rid. rbind (py_key stats1 rid) (\<lambda>s.
        Inr (rid, is_gsa (pf_gsa pc) s, compute_topk_len (pf_gsa pc) (length (gr_blocks s)) + gc_num_prefetch_blocks (pf_gsa pc)))) (ge_req_ids_bs e) = Inr bs"
      and e': "stats' = stats1" "ge_topk_bs e' = bs"
    using assms by (auto simp: topk_tmp_deal_def Let_def rbind_Inr_iff stats1_def)
  note rm = rmap_Inr [OF r]
  show "length (ge_topk_bs e') = length (ge_req_ids_bs e)" using rm e' by simp
  have "fst (bs ! i) = ge_req_ids_bs e ! i" if "i < length (ge_req_ids_bs e)" for i
    using rm that by (auto simp: rbind_Inr_iff) (metis fst_conv)
  then show "map fst (ge_topk_bs e') = ge_req_ids_bs e" using rm e' by (intro nth_equalityI) auto
  show "stats' = fold (take_topk pc (ge_topk_buf_tmp e)) (enumerate 0 (ge_topk_bs e)) stats" using e' by (simp add: stats1_def)
  show "ge_topk_bs e' ! i = (ge_req_ids_bs e ! i, is_gsa (pf_gsa pc) s, compute_topk_len (pf_gsa pc) (length (gr_blocks s)) + gc_num_prefetch_blocks (pf_gsa pc))"
    if "i < length (ge_req_ids_bs e)" "dict_get stats' (ge_req_ids_bs e ! i) = Some s"
    using rm that e' by (auto simp: rbind_Inr_iff py_key_def split: option.splits)
qed

text \<open>
  C30: The blocks chosen for the requests of one step reach the same requests in the step that takes
  the choice over, cut to the length that was asked for, though the batch may have changed; requests
  that were not treated sparsely, or were not in that step, keep what they have.
\<close>

theorem choices_reach_their_requests:
  assumes first: "topk_tmp_deal pc buf1 stats1 e1 = Inr (stats1', e1')" and d: "distinct (ge_req_ids_bs e1)"
    and later: "ge_topk_bs e2 = ge_topk_bs e1'" "topk_tmp_deal pc buf2 stats2 e2 = Inr (stats2', e2')"
    and s2: "dict_get stats2 rid = Some s2"
  shows "dict_get stats2' rid = Some (case find (\<lambda>i. ge_req_ids_bs e1 ! i = rid) [0..<length (ge_req_ids_bs e1)] of
      None \<Rightarrow> s2
    | Some i \<Rightarrow> let s = the (dict_get stats1' rid); k = compute_topk_len (pf_gsa pc) (length (gr_blocks s)) + gc_num_prefetch_blocks (pf_gsa pc)
        in if is_gsa (pf_gsa pc) s
           then s2\<lparr>gr_topk_buf_tmp := Some (map (\<lambda>l. take k (ge_topk_buf_tmp e2 l i)) [0..<pf_num_attention_layers pc])\<rparr> else s2)"
proof (cases "find (\<lambda>i. ge_req_ids_bs e1 ! i = rid) [0..<length (ge_req_ids_bs e1)]")
  case None
  then have "rid \<notin> set (ge_req_ids_bs e1)" by (auto simp: find_None_iff in_set_conv_nth)
  moreover have "set (ge_req_ids_bs e1) = fst ` set (ge_topk_bs e2)"
    using arg_cong [OF topk_tmp_deal_bs(2) [OF first], of set] later(1) by simp
  ultimately have "rid \<notin> fst ` set (ge_topk_bs e2)" by simp
  then show ?thesis using None s2 topk_tmp_deal_bs(3) [OF later(2)] by (simp add: take_topk_other)
next
  case (Some i)
  then have i: "i < length (ge_req_ids_bs e1)" "ge_req_ids_bs e1 ! i = rid" by (auto simp: find_Some_iff)
  have "\<exists>s. dict_get stats1' rid = Some s"
  proof -
    have "fst ` set (ge_topk_bs e1') = set (ge_req_ids_bs e1)" using arg_cong [OF topk_tmp_deal_bs(2) [OF first], of set] by simp
    show ?thesis using first i nth_mem [OF i(1)]
      by (auto simp: topk_tmp_deal_def Let_def rbind_Inr_iff py_key_def dest!: rmap_Inr split: option.splits)
  qed
  then obtain s where s: "dict_get stats1' rid = Some s" by blast
  have bs: "ge_topk_bs e2 ! i = (rid, is_gsa (pf_gsa pc) s, compute_topk_len (pf_gsa pc) (length (gr_blocks s)) + gc_num_prefetch_blocks (pf_gsa pc))"
    using topk_tmp_deal_bs(4) [OF first i(1)] s i(2) later(1) by simp
  have "i < length (ge_topk_bs e2)" "distinct (map fst (ge_topk_bs e2))"
    using topk_tmp_deal_bs(1,2) [OF first] i(1) d later(1) by simp_all
  from take_topk_own [OF this(1) bs this(2) s2, of pc "ge_topk_buf_tmp e2" 0]
  show ?thesis using Some s topk_tmp_deal_bs(3) [OF later(2)] by (simp add: Let_def)
qed


section \<open>Examples\<close>

definition demo_prefetch_cfg :: prefetch_cfg where
  "demo_prefetch_cfg = \<lparr>pf_gsa = demo_gsa_cfg, pf_num_attention_layers = 1, pf_max_block_len = 4, pf_is_python_load = False\<rparr>"

definition demo_read_stat :: gsa_stat where
  "demo_read_stat = new_gsa_stat\<lparr>gr_blocks := [7, 8, 3], gr_num_prompt_tokens := 4, gr_num_computed_tokens := 4, gr_num_scheduled_tokens := 1,
     gr_topk_buf_tmp := Some [[0, 2]]\<rparr>"

definition demo_read_engine :: gsa_engine where
  "demo_read_engine = (new_engine 4)\<lparr>ge_req_ids_bs := [''a''], ge_select_bs_index := [5], ge_block_table_list_bs := [[7, 8, 3]],
     ge_is_gsa_req_id := [(''a'', True)]\<rparr>"

theorem chosen_blocks_are_read_witness:
  "\<exists>e'. no_gsa_input_deal demo_prefetch_cfg [(''a'', demo_read_stat)] demo_read_engine = Inr e'
    \<and> take 2 (ge_use_block_table e' 0 5) = [7, 3]
    \<and> (\<forall>j < 2. block_tokens 2 (nat (ge_gsa_seq_len e' 0 5)) j = block_tokens 2 5 ([0, 2] ! j))"
proof -
  let ?e = demo_read_engine and ?pc = demo_prefetch_cfg and ?s = demo_read_stat
  have f: "ge_req_ids_bs ?e = [''a'']" "ge_select_bs_index ?e = [5]" "ge_block_table_list_bs ?e = [[7, 8, 3]]" "ge_is_gsa_req_id ?e = [(''a'', True)]"
    by (simp_all add: demo_read_engine_def)
  have g: "gr_blocks ?s = [7, 8, 3]" "get_seq_len ?s = 5" "gr_topk_buf_tmp ?s = Some [[0, 2]]"
    by (simp_all add: demo_read_stat_def get_seq_len_def)
  have c: "gc_block_size (pf_gsa ?pc) = 2" "pf_num_attention_layers ?pc = 1" "pf_max_block_len ?pc = 4"
    by (simp_all add: demo_prefetch_cfg_def demo_gsa_cfg_def)
  obtain e' where run: "no_gsa_input_deal ?pc [(''a'', ?s)] ?e = Inr e'"
    using f g c by (auto simp: no_gsa_input_deal_def no_gsa_row_def py_index_def py_key_def Let_def)
  let ?buf = "[[0, 2]] :: nat list list"
  have "take (length (?buf ! 0)) (ge_use_block_table e' 0 (ge_select_bs_index ?e ! 0)) = map ((!) (gr_blocks ?s)) (?buf ! 0)
    \<and> ((\<forall>j < length (?buf ! 0). block_tokens (gc_block_size (pf_gsa ?pc)) (nat (ge_gsa_seq_len e' 0 (ge_select_bs_index ?e ! 0))) j
            = block_tokens (gc_block_size (pf_gsa ?pc)) (get_seq_len ?s) (?buf ! 0 ! j))
         \<longleftrightarrow> get_seq_len ?s mod gc_block_size (pf_gsa ?pc) = 0 \<or> last (?buf ! 0) = length (gr_blocks ?s) - 1)"
    by (rule chosen_blocks_are_read [OF run, where buf = ?buf and l = 0]) (simp_all add: f g c same_length_def ceil_div_def)
  then show ?thesis using run by (simp add: f g c numeral_2_eq_2)
qed

definition demo_choice_engine :: gsa_engine where
  "demo_choice_engine = (new_engine 4)\<lparr>ge_req_ids_bs := [''b'', ''a'']\<rparr>"

definition demo_prefill_stat :: gsa_stat where
  "demo_prefill_stat = new_gsa_stat\<lparr>gr_blocks := [4], gr_num_prompt_tokens := 4, gr_num_scheduled_tokens := 2\<rparr>"

theorem choices_reach_their_requests_witness:
  "\<exists>stats1 e1 stats2 e2. topk_tmp_deal demo_prefetch_cfg (\<lambda>_ _. []) [(''a'', demo_read_stat), (''b'', demo_prefill_stat)] demo_choice_engine = Inr (stats1, e1)
    \<and> topk_tmp_deal demo_prefetch_cfg (\<lambda>_ _. []) [(''a'', demo_read_stat)] ((topk_calculated (\<lambda>l i. [i, 2, 0]) e1)\<lparr>ge_req_ids_bs := [''a'']\<rparr>) = Inr (stats2, e2)
    \<and> dict_get stats2 ''a'' = Some (demo_read_stat\<lparr>gr_topk_buf_tmp := Some [[1, 2, 0]]\<rparr>)"
proof -
  let ?pc = demo_prefetch_cfg and ?st = "[(''a'', demo_read_stat), (''b'', demo_prefill_stat)]"
  have "ge_topk_bs demo_choice_engine = []" "ge_req_ids_bs demo_choice_engine = [''b'', ''a'']" by (simp_all add: demo_choice_engine_def new_engine_def)
  note en = this
  have gsa: "is_gsa (pf_gsa ?pc) demo_read_stat" "\<not> is_gsa (pf_gsa ?pc) demo_prefill_stat" "length (gr_blocks demo_read_stat) = 3" "pf_num_attention_layers ?pc = 1"
      "compute_topk_len (pf_gsa ?pc) 3 + gc_num_prefetch_blocks (pf_gsa ?pc) = 3" by code_simp+
  let ?len = "\<lambda>s. compute_topk_len (pf_gsa ?pc) (length (gr_blocks s)) + gc_num_prefetch_blocks (pf_gsa ?pc)"
  define e1 where "e1 = demo_choice_engine\<lparr>ge_topk_bs := [(''b'', False, ?len demo_prefill_stat), (''a'', True, ?len demo_read_stat)], ge_topk_buf_tmp := \<lambda>_ _. []\<rparr>"
  have one: "topk_tmp_deal ?pc (\<lambda>_ _. []) ?st demo_choice_engine = Inr (?st, e1)"
    by (simp add: topk_tmp_deal_def Let_def py_key_def en gsa(1,2) e1_def)
  define e2 where "e2 = (topk_calculated (\<lambda>l i. [i, 2, 0]) e1)\<lparr>ge_req_ids_bs := [''a'']\<rparr>"
  have bs2: "ge_topk_bs e2 = ge_topk_bs e1" by (simp add: e2_def topk_calculated_def)
  obtain stats2 e3 where two: "topk_tmp_deal ?pc (\<lambda>_ _. []) [(''a'', demo_read_stat)] e2 = Inr (stats2, e3)"
    by (simp add: topk_tmp_deal_def Let_def py_key_def bs2) (simp add: e1_def e2_def take_topk_def)
  have "dict_get stats2 ''a'' = Some (case find (\<lambda>i. ge_req_ids_bs demo_choice_engine ! i = ''a'') [0..<length (ge_req_ids_bs demo_choice_engine)] of
      None \<Rightarrow> demo_read_stat
    | Some i \<Rightarrow> let s = the (dict_get ?st ''a''); k = compute_topk_len (pf_gsa ?pc) (length (gr_blocks s)) + gc_num_prefetch_blocks (pf_gsa ?pc)
        in if is_gsa (pf_gsa ?pc) s
           then demo_read_stat\<lparr>gr_topk_buf_tmp := Some (map (\<lambda>l. take k (ge_topk_buf_tmp e2 l i)) [0..<pf_num_attention_layers ?pc])\<rparr> else demo_read_stat)"
    by (rule choices_reach_their_requests [OF one _ bs2 two]) (simp_all add: en)
  then have "dict_get stats2 ''a'' = Some (demo_read_stat\<lparr>gr_topk_buf_tmp := Some [[1, 2, 0]]\<rparr>)"
    using gsa by (simp add: en e2_def topk_calculated_def upt_rec Let_def)
  then show ?thesis using one two unfolding e2_def by blast
qed


text \<open>
  The blocks that the last chunk moved are listed in the order of their numbers: the last block of
  the request, here 3, need not come last, though the lengths above count the last entry as the partial one.
\<close>

lemma moved_blocks_lose_their_order:
  "staying_blocks demo_prefetch_cfg [9, 8, 3] (new_gsa_stat\<lparr>gr_blocks := [9, 8, 3], gr_remain_idx := Some [0, 2],
     gr_reamin_map := Some [Some [(0, 9), (2, 3)]], gr_prefetch_map := Some [Some []]\<rparr>) = Inr ([[3, 9]], [[]])"
  by code_simp

end
