(* ===== verification/Gsa_Worker.thy ===== *)
theory Gsa_Worker
  imports Gsa_Moves Gsa_Prefetch "HOL-Library.Multiset"
begin

text \<open>
  The worker of \<open>GSA\<close> in \<open>src/ucm/sparse/gsa/gsa.py\<close>: which index of the representation cache a request
  has (\<open>TopKAndKpreManger\<close>), the input of a step (\<open>GSAMetaData\<close>), the hooks around the model and its
  layers, and the fetching of blocks. \<open>CUDA_TOPK\<close> is off, as in the source. What a layer keeps in a
  block is a value of type \<open>'v\<close>, the mean of its keys a value of type \<open>'k\<close>.
\<close>

section \<open>Indexes of the representation cache\<close>

record kpre_manager =
  tk_cache_map :: "(req_id, nat) dict"
  tk_free_cache :: "nat list"

definition new_kpre_manager :: "nat \<Rightarrow> kpre_manager" where
  "new_kpre_manager max_num = \<lparr>tk_cache_map = [], tk_free_cache = [0..<max_num]\<rparr>"

definition tk_is_exist :: "req_id \<Rightarrow> kpre_manager \<Rightarrow> bool" where
  "tk_is_exist rid m \<longleftrightarrow> rid \<in> dict_keys (tk_cache_map m)"

definition tk_free :: "req_id \<Rightarrow> kpre_manager \<Rightarrow> (bool \<times> kpre_manager) result" where
  "tk_free rid m =
     rbind (py_key (tk_cache_map m) rid) (\<lambda>i.
       if i \<in> set (tk_free_cache m) then Inr (False, m)
       else Inr (True, m\<lparr>tk_free_cache := tk_free_cache m @ [i], tk_cache_map := dict_pop rid (tk_cache_map m)\<rparr>))"

definition tk_alloc :: "req_id \<Rightarrow> kpre_manager \<Rightarrow> nat option \<times> kpre_manager" where
  "tk_alloc rid m =
     (case tk_free_cache m of
        [] \<Rightarrow> (None, m)
      | i # free \<Rightarrow> (Some i, m\<lparr>tk_free_cache := free, tk_cache_map := dict_set rid i (tk_cache_map m)\<rparr>))"

section \<open>The input of a step\<close>

text \<open>What the code reads of vLLM's scheduler output, its requests and its batch.\<close>

record gsa_sched =
  gs_num_scheduled_tokens :: "(req_id, nat) dict"
  gs_cached_req_ids :: "req_id list"
  gs_resumed_from_preemption :: "bool list"
  gs_new_req_ids :: "req_id list"
  gs_requests :: "(req_id, cached_state) dict"
  gs_req_id_to_index :: "(req_id, nat) dict"
  gs_batch_req_ids :: "req_id list"

record gsa_model_input =
  mi_calc_block_table :: "nat list"
  mi_calc_repre_slot_mapping :: "nat list"
  mi_query_locals :: "nat list"
  mi_query_locals_prefill :: "nat list option"

definition add_new_stat ::
  "prefetch_cfg \<Rightarrow> gsa_hashes \<Rightarrow> gsa_sched \<Rightarrow> (req_id, nat) dict \<Rightarrow> req_id \<Rightarrow> gsa_stats \<Rightarrow> gsa_stats result" where
  "add_new_stat pc h sc cache_map rid stats =
     rbind (py_key (gs_num_scheduled_tokens sc) rid) (\<lambda>n. rbind (py_key (gs_requests sc) rid) (\<lambda>r.
     rbind (py_key (gs_req_id_to_index sc) rid) (\<lambda>i. rbind (py_key cache_map rid) (\<lambda>k.
       Inr (dict_set rid (add_req_new (pf_gsa pc) h n r i (pf_max_block_len pc * k) new_gsa_stat) stats)))))"

definition cached_stat ::
  "prefetch_cfg \<Rightarrow> gsa_hashes \<Rightarrow> gsa_sched \<Rightarrow> (req_id, nat) dict \<Rightarrow> nat \<times> req_id \<Rightarrow> gsa_stats \<times> gsa_engine \<Rightarrow> (gsa_stats \<times> gsa_engine) result" where
  "cached_stat pc h sc cache_map = (\<lambda>(index, rid) (stats, e).
     case dict_get stats rid of
       None \<Rightarrow> Inl AssertionError
     | Some s \<Rightarrow>
         rbind (py_index (gs_resumed_from_preemption sc) index) (\<lambda>resumed.
           if resumed
           then rbind (add_new_stat pc h sc cache_map rid (dict_pop rid stats)) (\<lambda>stats'. Inr (stats', del_finish_meta pc rid False e))
           else
             rbind (py_key (gs_num_scheduled_tokens sc) rid) (\<lambda>n. rbind (py_key (gs_requests sc) rid) (\<lambda>r.
             rbind (py_key (gs_req_id_to_index sc) rid) (\<lambda>i. rbind (updata_req_state (pf_gsa pc) n r i s) (\<lambda>s'.
               Inr (dict_set rid s' stats, e)))))))"

definition new_stat ::
  "prefetch_cfg \<Rightarrow> gsa_hashes \<Rightarrow> gsa_sched \<Rightarrow> (req_id, nat) dict \<Rightarrow> req_id \<Rightarrow> gsa_stats \<Rightarrow> gsa_stats result" where
  "new_stat pc h sc cache_map rid stats = add_new_stat pc h sc cache_map rid (dict_pop rid stats)"

text \<open>\<open>trans_input_tensor\<close>; \<open>accumulate\<close> is that of \<open>itertools\<close>.\<close>

definition accumulate_list :: "nat list \<Rightarrow> nat list" where
  "accumulate_list xs = map (\<lambda>i. sum_list (take (Suc i) xs)) [0..<length xs]"

definition query_rows :: "(req_id \<times> nat) list \<Rightarrow> (req_id \<Rightarrow> bool) \<Rightarrow> gsa_stats \<Rightarrow> nat list result" where
  "query_rows scheduled counted stats =
     rfold (\<lambda>(rid, n) q. rbind (py_key stats rid) (\<lambda>s.
         if \<not> counted rid then Inr q
         else if length q \<le> gr_index_in_batch s + 1 then Inl IndexError
         else Inr (q[gr_index_in_batch s + 1 := n])))
       scheduled (replicate (length scheduled + 1) 0)"

definition trans_input_tensor :: "prefetch_cfg \<Rightarrow> gsa_sched \<Rightarrow> gsa_stats \<Rightarrow> gsa_model_input result" where
  "trans_input_tensor pc sc stats =
     (let scheduled = gs_num_scheduled_tokens sc;
          prefill = (\<lambda>rid. case dict_get stats rid of Some s \<Rightarrow> gsa_stage s = sequence_stage.PREFILL | None \<Rightarrow> False)
      in rbind (rmap (\<lambda>(rid, n). py_key stats rid) scheduled) (\<lambda>ss.
         rbind (query_rows scheduled (\<lambda>_. True) stats) (\<lambda>q. rbind (query_rows scheduled prefill stats) (\<lambda>qp.
           Inr \<lparr>mi_calc_block_table = concat (map gr_calc_block_table ss), mi_calc_repre_slot_mapping = concat (map gr_calc_repre_slot_mapping ss),
                mi_query_locals = accumulate_list q,
                mi_query_locals_prefill = (if gc_use_mla (pf_gsa pc) then Some (accumulate_list qp) else None)\<rparr>))))"

definition get_model_input ::
  "prefetch_cfg \<Rightarrow> gsa_hashes \<Rightarrow> gsa_sched \<Rightarrow> (req_id, nat) dict \<Rightarrow> gsa_stats \<Rightarrow> gsa_engine \<Rightarrow> (gsa_model_input \<times> gsa_stats \<times> gsa_engine) result" where
  "get_model_input pc h sc cache_map stats e =
     rbind (rfold (cached_stat pc h sc cache_map) (enumerate 0 (gs_cached_req_ids sc)) (stats, e)) (\<lambda>(stats1, e1).
     rbind (rfold (new_stat pc h sc cache_map) (gs_new_req_ids sc) stats1) (\<lambda>stats2.
     rbind (trans_input_tensor pc sc stats2) (\<lambda>mi. Inr (mi, stats2, e1))))"

section \<open>The worker\<close>

record ('v, 'k) gsa_worker =
  gw_manager :: kpre_manager
  gw_stats :: gsa_stats
  gw_engine :: gsa_engine
  gw_model_input :: gsa_model_input
  gw_input :: gsa_input
  gw_decode_index :: "nat list"
  gw_copy_k_flag :: "bool list"
  gw_kpre_caches :: "nat \<Rightarrow> nat \<Rightarrow> 'k"
  gw_kv_caches :: "nat \<Rightarrow> nat \<Rightarrow> 'v"
  gw_task_load :: "(int, nat) dict"

definition alloc_index :: "req_id \<Rightarrow> kpre_manager \<Rightarrow> kpre_manager result" where
  "alloc_index rid m =
     (if tk_is_exist rid m then Inr m
      else case tk_alloc rid m of (None, m') \<Rightarrow> Inl AssertionError | (Some i, m') \<Rightarrow> Inr m')"

definition gsa_build_sparse_meta ::
  "prefetch_cfg \<Rightarrow> gsa_hashes \<Rightarrow> gsa_sched \<Rightarrow> ('v, 'k) gsa_worker \<Rightarrow> ('v, 'k) gsa_worker result" where
  "gsa_build_sparse_meta pc h sc u =
     rbind (rfold alloc_index (map fst (gs_num_scheduled_tokens sc)) (gw_manager u)) (\<lambda>m.
     rbind (get_model_input pc h sc (tk_cache_map m) (gw_stats u) (gw_engine u)) (\<lambda>(mi, stats, e).
     rbind (rmap (py_key (gs_req_id_to_index sc)) (filter (\<lambda>rid. dict_get_or (gs_num_scheduled_tokens sc) rid 0 = 1) (gs_batch_req_ids sc))) (\<lambda>decode.
       Inr (u\<lparr>gw_manager := m, gw_stats := stats, gw_engine := e, gw_model_input := mi, gw_decode_index := decode\<rparr>))))"

text \<open>
  \<open>execute_begin\<close>: the batch in the order of its rows. \<open>is_topk_done\<close> is the answer of the native library.
\<close>

definition batch_lists ::
  "gsa_sched \<Rightarrow> kpre_manager \<Rightarrow> gsa_stats \<Rightarrow> (req_id list \<times> nat list list \<times> nat list) result" where
  "batch_lists sc m stats =
     (let n = length (gs_num_scheduled_tokens sc)
      in rfold (\<lambda>(rid, _) (rids, tables, maps). rbind (py_key stats rid) (\<lambda>s.
             if n \<le> gr_index_in_batch s then Inl IndexError
             else rbind (py_key (tk_cache_map m) rid) (\<lambda>k.
               let i = gr_index_in_batch s in Inr (rids[i := rid], tables[i := gr_blocks s], maps[i := k]))))
           (gs_num_scheduled_tokens sc) (replicate n [], replicate n [], replicate n 0))"

definition gsa_execute_begin ::
  "prefetch_cfg \<Rightarrow> gsa_sched \<Rightarrow> bool \<Rightarrow> ('v, 'k) gsa_worker \<Rightarrow> ('v, 'k) gsa_worker result" where
  "gsa_execute_begin pc sc is_topk_done u =
     rbind (batch_lists sc (gw_manager u) (gw_stats u)) (\<lambda>(rids, tables, maps).
     rbind (model_input_deal pc rids tables maps is_topk_done (gw_stats u) (gw_engine u)) (\<lambda>(stats, e, gi).
       Inr (u\<lparr>gw_stats := stats, gw_engine := e, gw_input := gi, gw_copy_k_flag := replicate (pf_num_attention_layers pc) False\<rparr>)))"

text \<open>\<open>_start_topk_cal\<close>: what the native library is to choose blocks for.\<close>

record topk_request =
  tr_cal_topk_id :: "nat list"
  tr_is_decode :: "bool list"
  tr_topk_len_list :: "nat list"
  tr_repre_slot_mappings :: "nat list list"
  tr_calc_block_table :: "nat list option"

definition start_topk_cal :: "prefetch_cfg \<Rightarrow> ('v, 'k) gsa_worker \<Rightarrow> topk_request option result" where
  "start_topk_cal pc u =
     (let e = gw_engine u; cf = pf_gsa pc
      in if \<not> (ge_atb_gsa_enable e \<and> ge_is_topk_cal e) then Inr None
         else
           rbind (rmap (py_key (gw_stats u)) (ge_req_ids_bs e)) (\<lambda>ss.
             let sparse = filter (is_gsa cf) ss; calc = mi_calc_block_table (gw_model_input u)
             in Inr (Some \<lparr>tr_cal_topk_id = map gr_index_in_batch sparse, tr_is_decode = map (is_gsa cf) ss,
                  tr_topk_len_list = map (\<lambda>s. compute_topk_len cf (length (gr_blocks s)) + gc_num_prefetch_blocks cf) sparse,
                  tr_repre_slot_mappings = map gr_repre_slot_mapping ss, tr_calc_block_table = (if calc = [] then None else Some calc)\<rparr>)))"

text \<open>\<open>copy_q\<close>: the row of the query that is kept for each request, the last one of those treated sparsely.\<close>

definition copy_q_ids :: "prefetch_cfg \<Rightarrow> ('v, 'k) gsa_worker \<Rightarrow> int list result" where
  "copy_q_ids pc u =
     (let rids = ge_req_ids_bs (gw_engine u)
      in rfold (\<lambda>rid ids. rbind (py_key (gw_stats u) rid) (\<lambda>s.
             if \<not> is_gsa (pf_gsa pc) s then Inr ids
             else
               let i = gr_index_in_batch s
               in rbind (if gc_use_mla (pf_gsa pc) then Inr 1
                         else rbind (py_index (mi_query_locals (gw_model_input u)) (i + 1)) (\<lambda>q. Inr (int q - 1))) (\<lambda>row.
                  if length ids \<le> i then Inl IndexError else Inr (ids[i := row]))))
           rids (replicate (length rids) (- 1)))"

text \<open>\<open>attention_begin\<close>: the tables and lengths a layer uses instead of vLLM's; with MLA those of the rows that decode, in that phase.\<close>

definition gsa_attention_begin ::
  "prefetch_cfg \<Rightarrow> nat \<Rightarrow> bool \<Rightarrow> ('v, 'k) gsa_worker \<Rightarrow> (nat list list \<times> int list) option result" where
  "gsa_attention_begin pc layer_id decode_phase u =
     (let mla = gc_use_mla (pf_gsa pc)
      in if \<not> ge_atb_gsa_enable (gw_engine u) \<or> (mla \<and> \<not> decode_phase) then Inr None
         else
           rbind (py_index (gi_block_tables_mp (gw_input u)) layer_id) (\<lambda>tables.
           rbind (py_index (gi_gsa_seq_len (gw_input u)) layer_id) (\<lambda>lens.
             if \<not> mla then Inr (Some (tables, lens))
             else rbind (rmap (py_index tables) (gw_decode_index u)) (\<lambda>ts.
                  rbind (rmap (py_index lens) (gw_decode_index u)) (\<lambda>ls. Inr (Some (ts, ls)))))))"

text \<open>\<open>copy_k\<close>: the mean of the keys of each block of the step goes to its slot.\<close>

definition copy_k :: "('v \<Rightarrow> 'k) \<Rightarrow> nat \<Rightarrow> ('v, 'k) gsa_worker \<Rightarrow> ('v, 'k) gsa_worker" where
  "copy_k mean layer_id u =
     (let mi = gw_model_input u; kv = gw_kv_caches u layer_id
      in u\<lparr>gw_kpre_caches := (gw_kpre_caches u)(layer_id := fold (\<lambda>(b, slot) kpre. kpre(slot := mean (kv b)))
             (zip (mi_calc_block_table mi) (mi_calc_repre_slot_mapping mi)) (gw_kpre_caches u layer_id))\<rparr>)"

text \<open>
  \<open>attention_finished\<close>; \<open>last_chunk_topk_cal\<close> is computed on tensors and a parameter. \<open>cuda\<close>: a device
  of that kind is present.
\<close>

definition finish_request ::
  "prefetch_cfg \<Rightarrow> (req_id \<Rightarrow> nat list) \<Rightarrow> nat \<Rightarrow> req_id \<Rightarrow> ('v, 'k) gsa_worker \<Rightarrow> ('v, 'k) gsa_worker result" where
  "finish_request pc topk_of layer_id rid u =
     (case dict_get (gw_stats u) rid of
        None \<Rightarrow> Inl AssertionError
      | Some s \<Rightarrow>
          rbind (finish_last_chunk (pf_gsa pc) (pf_num_attention_layers pc) layer_id (topk_of rid) s (gw_kv_caches u layer_id)) (\<lambda>(s', cache).
            Inr (u\<lparr>gw_stats := dict_set rid s' (gw_stats u), gw_kv_caches := (gw_kv_caches u)(layer_id := cache)\<rparr>)))"

definition gsa_attention_finished ::
  "prefetch_cfg \<Rightarrow> bool \<Rightarrow> ('v \<Rightarrow> 'k) \<Rightarrow> (req_id \<Rightarrow> nat list) \<Rightarrow> nat \<Rightarrow> ('v, 'k) gsa_worker \<Rightarrow> ('v, 'k) gsa_worker result" where
  "gsa_attention_finished pc cuda mean topk_of layer_id u0 =
     rbind (py_index (gw_copy_k_flag u0) layer_id) (\<lambda>copied.
       let u = (if copied then u0 else (copy_k mean layer_id u0)\<lparr>gw_copy_k_flag := (gw_copy_k_flag u0)[layer_id := True]\<rparr>)
       in if gc_use_mla (pf_gsa pc) \<and> cuda then Inr u
          else rfold (finish_request pc topk_of layer_id) (ge_req_ids_bs (gw_engine u)) u)"

section \<open>Fetching blocks\<close>

definition gsa_layer_offset :: "nat \<Rightarrow> nat \<Rightarrow> bool \<Rightarrow> bool \<Rightarrow> nat" where
  "gsa_layer_offset block_data_size layer_id is_v is_mla =
     (let layer_data_size = (if is_mla then block_data_size else block_data_size * 2);
          k_offset = layer_data_size * layer_id
      in if is_mla then k_offset else if is_v then k_offset + block_data_size else k_offset)"

text \<open>
  \<open>launch_transfer_task\<close>: hashes, offsets and tensors of one load, a tensor given by layer, whether
  it holds values, and block. \<open>free_ids\<close> and \<open>miss_ids\<close> come from the native engine, per request
  and layer.
\<close>

type_synonym transfer = "bytes list \<times> nat list \<times> (nat \<times> bool \<times> nat) list"

definition layer_transfer ::
  "prefetch_cfg \<Rightarrow> nat \<Rightarrow> bytes list option \<Rightarrow> nat list list \<Rightarrow> nat list list option \<Rightarrow> nat \<Rightarrow> transfer \<Rightarrow> transfer result" where
  "layer_transfer pc block_data_size req_hashes free misses layer_id = (\<lambda>(hashes, offsets, tensors).
     rbind (py_index free layer_id) (\<lambda>blocks.
       let len = length blocks; mla = gc_use_mla (pf_gsa pc)
       in if len = 0 then Inr (hashes, offsets, tensors)
          else
            rbind (case misses of None \<Rightarrow> Inl KeyError | Some ms \<Rightarrow> py_index ms layer_id) (\<lambda>miss.
            rbind (case req_hashes of None \<Rightarrow> (if miss = [] then Inr [] else Inl TypeError) | Some hs \<Rightarrow> rmap (py_index hs) miss) (\<lambda>new.
              let k = (new, replicate len (gsa_layer_offset block_data_size layer_id False mla), map (\<lambda>b. (layer_id, False, b)) blocks);
                  v = (if mla then ([], [], [])
                       else (new, replicate len (gsa_layer_offset block_data_size layer_id True mla), map (\<lambda>b. (layer_id, True, b)) blocks))
              in Inr (hashes @ fst k @ fst v, offsets @ fst (snd k) @ fst (snd v), tensors @ snd (snd k) @ snd (snd v))))))"

definition transfer_of ::
  "prefetch_cfg \<Rightarrow> nat \<Rightarrow> gsa_stats \<Rightarrow> (req_id, nat list list) dict \<Rightarrow> (req_id, nat list list) dict \<Rightarrow> transfer result" where
  "transfer_of pc block_data_size stats free_ids miss_ids =
     rfold (\<lambda>(rid, free) t. rbind (py_key stats rid) (\<lambda>s.
         rfold (layer_transfer pc block_data_size (gr_block_hashes s) free (dict_get miss_ids rid)) [0..<pf_num_attention_layers pc] t))
       free_ids ([], [], [])"

definition launch_transfer ::
  "prefetch_cfg \<Rightarrow> (transfer \<Rightarrow> nat) \<Rightarrow> (bytes list \<Rightarrow> int) \<Rightarrow> nat \<Rightarrow> ((req_id, nat list list) dict \<times> (req_id, nat list list) dict) option
     \<Rightarrow> ('v, 'k) gsa_worker \<Rightarrow> ('v, 'k) gsa_worker result" where
  "launch_transfer pc load task_hash block_data_size ids u =
     (case ids of
        None \<Rightarrow> Inr u
      | Some (free_ids, miss_ids) \<Rightarrow>
          rbind (transfer_of pc block_data_size (gw_stats u) free_ids miss_ids) (\<lambda>t.
            Inr (u\<lparr>gw_task_load := dict_set (task_hash (fst t)) (load t) (gw_task_load u)\<rparr>)))"

definition check_transfer_task_done :: "(nat \<Rightarrow> bool) \<Rightarrow> ('v, 'k) gsa_worker \<Rightarrow> bool \<times> ('v, 'k) gsa_worker" where
  "check_transfer_task_done done u =
     (if gw_task_load u = [] then (True, u)
      else if \<exists>t \<in> snd ` set (gw_task_load u). \<not> done t then (False, u)
      else (True, u\<lparr>gw_task_load := []\<rparr>))"

text \<open>\<open>execute_finished\<close>; what the native engine has to load is read after it was started.\<close>

definition gsa_execute_finished ::
  "prefetch_cfg \<Rightarrow> (nat \<Rightarrow> bool) \<Rightarrow> bool \<Rightarrow> (transfer \<Rightarrow> nat) \<Rightarrow> (bytes list \<Rightarrow> int) \<Rightarrow> nat
     \<Rightarrow> (req_id, nat list list) dict \<times> (req_id, nat list list) dict \<Rightarrow> ('v, 'k) gsa_worker \<Rightarrow> ('v, 'k) gsa_worker result" where
  "gsa_execute_finished pc done native_status load task_hash block_data_size native_ids u0 =
     (if gc_ptopk_prefetch_enable (pf_gsa pc)
      then
        let (is_prefetch_done, u) = (if pf_is_python_load pc then check_transfer_task_done done u0 else (native_status, u0))
        in rbind (deal_async_prefetch pc is_prefetch_done (gw_stats u) (gw_engine u)) (\<lambda>(read_ids, e).
             let u1 = u\<lparr>gw_engine := e\<rparr>
             in if pf_is_python_load pc
                then launch_transfer pc load task_hash block_data_size (if read_ids then Some native_ids else None) u1
                else Inr u1)
      else rbind (deal_async_prefetch pc False (gw_stats u0) (gw_engine u0)) (\<lambda>(_, e). Inr (u0\<lparr>gw_engine := e\<rparr>)))"

definition gsa_request_finished :: "prefetch_cfg \<Rightarrow> req_id \<Rightarrow> ('v, 'k) gsa_worker \<Rightarrow> ('v, 'k) gsa_worker result" where
  "gsa_request_finished pc rid u =
     rbind (if tk_is_exist rid (gw_manager u) then rbind (tk_free rid (gw_manager u)) (\<lambda>(_, m). Inr m) else Inr (gw_manager u)) (\<lambda>m.
       Inr (u\<lparr>gw_manager := m, gw_stats := dict_pop rid (gw_stats u), gw_engine := del_finish_meta pc rid True (gw_engine u)\<rparr>))"

section \<open>Every index has one owner\<close>

definition tk_ok :: "nat \<Rightarrow> kpre_manager \<Rightarrow> bool" where
  "tk_ok max_num m \<longleftrightarrow> distinct (map fst (tk_cache_map m)) \<and> mset (map snd (tk_cache_map m)) + mset (tk_free_cache m) = mset [0..<max_num]"

lemma tk_ok_new: "tk_ok n (new_kpre_manager n)" by (simp add: tk_ok_def new_kpre_manager_def)

lemma dict_value_in: "dict_get d k = Some v \<Longrightarrow> v \<in># mset (map snd d)"
  by (induction d) (auto split: if_splits)

lemma mset_values_pop:
  "distinct (map fst d) \<Longrightarrow> dict_get d k = Some v \<Longrightarrow> mset (map snd d) = add_mset v (mset (map snd (dict_pop k d)))"
proof (induction d)
  case Nil
  then show ?case by simp
next
  case (Cons kv d)
  show ?case
  proof (cases "fst kv = k")
    case True
    then have "dict_pop k d = d" using Cons.prems(1) by (cases kv) simp
    then show ?thesis using True Cons.prems(2) by (cases kv) simp
  next
    case False
    then show ?thesis using Cons by (cases kv) simp
  qed
qed

lemma alloc_index_ok:
  assumes "alloc_index rid m = Inr m'" and "tk_ok n m"
  shows "tk_ok n m'" and "rid \<in> dict_keys (tk_cache_map m')" and "dict_get (tk_cache_map m) r = Some i \<Longrightarrow> dict_get (tk_cache_map m') r = Some i"
proof -
  have "tk_ok n m' \<and> rid \<in> dict_keys (tk_cache_map m') \<and> (dict_get (tk_cache_map m) r = Some i \<longrightarrow> dict_get (tk_cache_map m') r = Some i)"
  proof (cases "tk_is_exist rid m")
    case True
    then show ?thesis using assms by (simp add: alloc_index_def tk_is_exist_def)
  next
    case False
    then have new: "rid \<notin> dict_keys (tk_cache_map m)" by (simp add: tk_is_exist_def)
    then obtain j free where j: "tk_free_cache m = j # free" "m' = m\<lparr>tk_free_cache := free, tk_cache_map := dict_set rid j (tk_cache_map m)\<rparr>"
      using assms(1) by (auto simp: alloc_index_def tk_is_exist_def tk_alloc_def split: list.splits)
    have "r \<noteq> rid" if "dict_get (tk_cache_map m) r = Some i" using that new map_of_eq_None_iff [of "tk_cache_map m" rid] by auto
    then show ?thesis using assms(2) new j by (auto simp: tk_ok_def dict_set_new)
  qed
  then show "tk_ok n m'" "rid \<in> dict_keys (tk_cache_map m')" "dict_get (tk_cache_map m) r = Some i \<Longrightarrow> dict_get (tk_cache_map m') r = Some i" by auto
qed

lemma tk_free_ok:
  assumes "tk_free rid m = Inr (b, m')" and "tk_ok n m"
  shows "b" and "tk_ok n m'" and "tk_cache_map m' = dict_pop rid (tk_cache_map m)"
proof -
  obtain i where i: "dict_get (tk_cache_map m) rid = Some i" using assms(1) by (auto simp: tk_free_def py_key_def split: option.splits)
  note v = mset_values_pop [OF conjunct1 [OF assms(2) [unfolded tk_ok_def]] i]
  have all: "mset (map snd (tk_cache_map m)) + mset (tk_free_cache m) = mset [0..<n]" using assms(2) by (simp add: tk_ok_def)
  have "i \<notin> set (tk_free_cache m)"
  proof
    assume "i \<in> set (tk_free_cache m)"
    then have "0 < count (mset (tk_free_cache m)) i" by simp
    moreover have "0 < count (mset (map snd (tk_cache_map m))) i" unfolding v by simp
    ultimately have "2 \<le> count (mset (map snd (tk_cache_map m)) + mset (tk_free_cache m)) i"
      unfolding count_union by linarith
    moreover have "count (mset [0..<n]) i \<le> 1" using distinct_count_atmost_1 [of "[0..<n]"] by simp
    ultimately show False unfolding all by linarith
  qed
  then have r: "b" "m' = m\<lparr>tk_free_cache := tk_free_cache m @ [i], tk_cache_map := dict_pop rid (tk_cache_map m)\<rparr>"
    using assms(1) i by (auto simp: tk_free_def py_key_def)
  then show "b" "tk_cache_map m' = dict_pop rid (tk_cache_map m)" by simp_all
  have "mset (map snd (dict_pop rid (tk_cache_map m))) + mset (tk_free_cache m @ [i]) = mset [0..<n]"
    using all unfolding v by simp
  then show "tk_ok n m'" using r(2) assms(2) by (simp add: tk_ok_def distinct_delete)
qed

text \<open>Getting an index fails only where all of them are taken.\<close>

lemma alloc_index_full:
  assumes "alloc_index rid m = Inl e" and "tk_ok n m"
  shows "length (tk_cache_map m) = n"
proof -
  have "tk_free_cache m = []" using assms(1) by (auto simp: alloc_index_def tk_alloc_def split: if_splits list.splits)
  then have "mset (map snd (tk_cache_map m)) = mset [0..<n]" using assms(2) by (simp add: tk_ok_def)
  then show ?thesis using mset_eq_length [of "map snd (tk_cache_map m)" "[0..<n]"] by simp
qed

text \<open>Two requests never have one index, and every index is below the bound.\<close>

lemma tk_index:
  assumes "tk_ok n m" and "dict_get (tk_cache_map m) a = Some i"
  shows "i < n" and "dict_get (tk_cache_map m) b = Some i \<Longrightarrow> a = b"
proof -
  have all: "mset (map snd (tk_cache_map m)) + mset (tk_free_cache m) = mset [0..<n]" and d: "distinct (map fst (tk_cache_map m))"
    using assms(1) by (simp_all add: tk_ok_def)
  have "i \<in># mset (map snd (tk_cache_map m)) + mset (tk_free_cache m)"
    using dict_value_in [OF assms(2)] by simp
  then show "i < n" unfolding all by simp
  show "a = b" if b: "dict_get (tk_cache_map m) b = Some i"
  proof (rule ccontr)
    assume ne: "a \<noteq> b"
    have "dict_get (dict_pop a (tk_cache_map m)) b = Some i" using b ne by simp
    then have "i \<in># mset (map snd (dict_pop a (tk_cache_map m)))" by (rule dict_value_in)
    then have "0 < count (mset (map snd (dict_pop a (tk_cache_map m)))) i" by (simp only: count_greater_zero_iff)
    then have "2 \<le> count (mset (map snd (tk_cache_map m))) i"
      unfolding mset_values_pop [OF d assms(2)] by simp
    moreover have "count (mset (map snd (tk_cache_map m))) i \<le> count (mset [0..<n]) i" unfolding all [symmetric] by simp
    moreover have "count (mset [0..<n]) i \<le> 1" using distinct_count_atmost_1 [of "[0..<n]"] by simp
    ultimately show False by simp
  qed
qed

section \<open>The slots of all requests\<close>

definition in_region :: "nat \<Rightarrow> (req_id, nat) dict \<Rightarrow> req_id \<Rightarrow> gsa_stat \<Rightarrow> bool" where
  "in_region max_len cm rid s \<longleftrightarrow> (\<exists>i k. dict_get cm rid = Some i \<and> k \<le> length (gr_blocks s) \<and> gr_repre_slot_mapping s = [max_len * i..<max_len * i + k])"

lemma in_region_bounded:
  "in_region n cm rid s \<Longrightarrow> length (gr_blocks s) \<le> n \<Longrightarrow>
   \<exists>i k. dict_get cm rid = Some i \<and> k \<le> n \<and> gr_repre_slot_mapping s = [n * i..<n * i + k]"
  unfolding in_region_def by (meson le_trans)

definition stats_ok :: "nat \<Rightarrow> (req_id, nat) dict \<Rightarrow> gsa_stats \<Rightarrow> bool" where
  "stats_ok max_len cm stats \<longleftrightarrow> (\<forall>rid s. dict_get stats rid = Some s \<longrightarrow> in_region max_len cm rid s \<and> gr_block_hashes s = Some [])"

lemma stats_okD: "stats_ok n cm stats \<Longrightarrow> dict_get stats rid = Some s \<Longrightarrow> in_region n cm rid s \<and> gr_block_hashes s = Some []"
  by (simp add: stats_ok_def)

lemma stats_ok_set: "stats_ok n cm stats \<Longrightarrow> in_region n cm rid s \<Longrightarrow> gr_block_hashes s = Some [] \<Longrightarrow> stats_ok n cm (dict_set rid s stats)"
  by (simp add: stats_ok_def)

lemma stats_ok_pop: "stats_ok n cm stats \<Longrightarrow> stats_ok n cm (dict_pop rid stats)"
  by (auto simp: stats_ok_def split: if_splits)

lemma stats_ok_more: "stats_ok n cm stats \<Longrightarrow> (\<And>r i. dict_get cm r = Some i \<Longrightarrow> dict_get cm' r = Some i) \<Longrightarrow> stats_ok n cm' stats"
  unfolding stats_ok_def in_region_def by meson

text \<open>An update adds slots behind those a request has, never more than it has blocks.\<close>

lemma add_slots_region:
  "add_slots m s = Inr s' \<Longrightarrow> gr_repre_slot_mapping s = [a..<a + k] \<Longrightarrow>
   gr_repre_slot_mapping s' = [a..<a + (k + m)] \<and> gr_blocks s' = gr_blocks s \<and> gr_block_hashes s' = gr_block_hashes s"
proof (induction m s arbitrary: k rule: add_slots.induct)
  case (1 s)
  then show ?case by simp
next
  case (2 m s)
  have k: "0 < k" using 2(2,3) by (cases k) auto
  then have "[a..<a + k] @ [last [a..<a + k] + 1] = [a..<a + Suc k]" by (simp add: last_upt)
  then show ?case using 2(1) [OF _ refl, of "Suc k"] 2(2,3) k by (auto simp: Let_def split: if_splits)
qed

lemma update_slot_region:
  assumes "gsa_update_slot add s = Inr s'" and "gr_repre_slot_mapping s = [a..<a + k]"
  shows "gr_repre_slot_mapping s' = [a..<a + (k + length add)] \<and> gr_blocks s' = gr_blocks s \<and> gr_block_hashes s' = gr_block_hashes s"
proof -
  obtain t where "add_slots (length add) s = Inr t" using assms(1) by (auto simp: gsa_update_slot_def Let_def rbind_Inr_iff)
  with add_slots_region [OF this assms(2)] assms(1) show ?thesis
    by (auto simp: gsa_update_slot_def Let_def split: if_splits)
qed


lemma updata_region:
  assumes u: "updata_req_state cf n r i s = Inr s'" and reg: "in_region max_len cm rid s"
  shows "in_region max_len cm rid s'" and "gr_block_hashes s' = gr_block_hashes s"
proof -
  obtain j k where j: "dict_get cm rid = Some j" "k \<le> length (gr_blocks s)" "gr_repre_slot_mapping s = [max_len * j..<max_len * j + k]"
    using reg by (auto simp: in_region_def)
  define s1 where "s1 = s\<lparr>gr_num_computed_tokens := cr_num_computed_tokens r, gr_num_scheduled_tokens := n,
      gr_num_output_tokens := length (cr_output_token_ids r), gr_index_in_batch := i\<rparr>"
  have keep: "gr_repre_slot_mapping (get_sparse_and_free_block cf s1) = gr_repre_slot_mapping s" "gr_blocks (get_sparse_and_free_block cf s1) = gr_blocks s"
      "gr_block_hashes (get_sparse_and_free_block cf s1) = gr_block_hashes s"
    by (simp_all add: s1_def get_sparse_and_free_block_def Let_def)
  obtain s3 where s3: "\<exists>k. gr_repre_slot_mapping s3 = [max_len * j..<max_len * j + k]" "gr_block_hashes s3 = gr_block_hashes s"
      "s' = (if length (gr_blocks s3) < length (gr_repre_slot_mapping s3) then cut_slots (s3\<lparr>gr_topk_buf_tmp := None\<rparr>) else s3)"
  proof (cases "gsa_stage s1 = sequence_stage.PREFILL")
    case True
    then obtain s3 where s3: "gsa_update_slot (filter (\<lambda>x. x \<notin> set (gr_blocks s1)) (cr_block_ids r)) (s1\<lparr>gr_blocks := cr_block_ids r\<rparr>) = Inr s3"
        "s' = (if length (gr_blocks s3) < length (gr_repre_slot_mapping s3) then cut_slots (s3\<lparr>gr_topk_buf_tmp := None\<rparr>) else s3)"
      using u by (auto simp: updata_req_state_def Let_def s1_def [symmetric] rbind_Inr_iff)
    show ?thesis
      by (rule that [OF _ _ s3(2)]) (use update_slot_region [OF s3(1), of "max_len * j" k] j(3) in \<open>auto simp: s1_def\<close>)
  next
    case False
    let ?s2 = "get_sparse_and_free_block cf s1"
    have u': "rbind (if length (cr_block_ids r) \<noteq> gr_sparse_len ?s2
          then if cr_block_ids r = [] then Inl IndexError
               else gsa_update_slot [last (cr_block_ids r)] (?s2\<lparr>gr_blocks := gr_blocks ?s2 @ [last (cr_block_ids r)], gr_sparse_len := length (cr_block_ids r)\<rparr>)
          else Inr (?s2\<lparr>gr_calc_block_table := [], gr_calc_repre_slot_mapping := []\<rparr>))
        (\<lambda>s3. Inr (if length (gr_blocks s3) < length (gr_repre_slot_mapping s3) then cut_slots (s3\<lparr>gr_topk_buf_tmp := None\<rparr>) else s3)) = Inr s'"
      using u False unfolding updata_req_state_def Let_def s1_def by (simp only: if_False)
    show ?thesis
    proof (cases "length (cr_block_ids r) = gr_sparse_len ?s2")
      case True
      let ?s3 = "?s2\<lparr>gr_calc_block_table := [], gr_calc_repre_slot_mapping := []\<rparr>"
      have "gr_repre_slot_mapping ?s3 = [max_len * j..<max_len * j + k]" using keep(1) j(3) by simp
      then have "\<exists>k. gr_repre_slot_mapping ?s3 = [max_len * j..<max_len * j + k]" by (rule exI)
      then show ?thesis by (rule that) (use u' True keep in simp_all)
    next
      case False
      let ?up = "gsa_update_slot [last (cr_block_ids r)] (?s2\<lparr>gr_blocks := gr_blocks ?s2 @ [last (cr_block_ids r)], gr_sparse_len := length (cr_block_ids r)\<rparr>)"
      have "rbind ?up (\<lambda>s3. Inr (if length (gr_blocks s3) < length (gr_repre_slot_mapping s3) then cut_slots (s3\<lparr>gr_topk_buf_tmp := None\<rparr>) else s3)) = Inr s'"
        using u' False by (cases "cr_block_ids r = []") (simp_all only: if_True if_False simp_thms rbind_simps sum.distinct)
      then obtain s3 where s3: "?up = Inr s3"
          "s' = (if length (gr_blocks s3) < length (gr_repre_slot_mapping s3) then cut_slots (s3\<lparr>gr_topk_buf_tmp := None\<rparr>) else s3)"
        unfolding rbind_Inr_iff sum.inject by blast
      have "gr_repre_slot_mapping (?s2\<lparr>gr_blocks := gr_blocks ?s2 @ [last (cr_block_ids r)], gr_sparse_len := length (cr_block_ids r)\<rparr>)
          = [max_len * j..<max_len * j + k]" using keep(1) j(3) by simp
      note up = update_slot_region [OF s3(1) this]
      then have "\<exists>k. gr_repre_slot_mapping s3 = [max_len * j..<max_len * j + k]" by blast
      then show ?thesis by (rule that [OF _ _ s3(2)]) (use up keep(3) in simp)
    qed
  qed
  then obtain k' where "gr_repre_slot_mapping s3 = [max_len * j..<max_len * j + k']" by blast
  then have "gr_repre_slot_mapping s' = [max_len * j..<max_len * j + min k' (length (gr_blocks s'))]"
    using s3(3) by (auto simp: cut_slots_def take_upt min_def)
  then show "in_region max_len cm rid s'"
    unfolding in_region_def using j(1) by (intro exI [of _ j] exI [of _ "min k' (length (gr_blocks s'))"]) simp
  show "gr_block_hashes s' = gr_block_hashes s" using s3(2,3) by (simp add: cut_slots_def)
qed

lemma add_new_region:
  assumes "add_new_stat pc h sc cm rid stats = Inr stats'" and "stats_ok (pf_max_block_len pc) cm stats"
  shows "stats_ok (pf_max_block_len pc) cm stats'"
proof -
  obtain n r i k where k: "dict_get cm rid = Some k"
      "stats' = dict_set rid (add_req_new (pf_gsa pc) h n r i (pf_max_block_len pc * k) new_gsa_stat) stats"
    using assms(1) by (auto simp: add_new_stat_def rbind_Inr_iff py_key_def split: option.splits)
  define s where "s = add_req_new (pf_gsa pc) h n r i (pf_max_block_len pc * k) new_gsa_stat"
  note f = first_step(1,2) [OF s_def]
  have "gr_block_hashes s = Some []"
    unfolding s_def add_req_new_def Let_def
    by (rule block_hashes_stay_empty) (simp add: new_gsa_stat_def gsa_init_slot_def cut_slots_def Let_def split: prod.splits)
  moreover have "in_region (pf_max_block_len pc) cm rid s" using f k(1) by (auto simp: in_region_def slots_follow_def Let_def)
  ultimately show ?thesis using k(2) assms(2) by (simp add: s_def [symmetric] stats_ok_set)
qed


lemma get_model_input_ok:
  assumes "get_model_input pc h sc cm stats e = Inr (mi, stats', e')" and ok: "stats_ok (pf_max_block_len pc) cm stats"
  shows "stats_ok (pf_max_block_len pc) cm stats'"
proof -
  let ?ok = "stats_ok (pf_max_block_len pc) cm"
  obtain stats1 e1 where one: "rfold (cached_stat pc h sc cm) (enumerate 0 (gs_cached_req_ids sc)) (stats, e) = Inr (stats1, e1)"
      and two: "rfold (new_stat pc h sc cm) (gs_new_req_ids sc) stats1 = Inr stats'"
    using assms(1) by (auto simp: get_model_input_def rbind_Inr_iff split: prod.splits)
  have "?ok (fst (stats1, e1))"
  proof (rule rfold_keeps [OF _ _ one])
    fix x p p' assume p: "?ok (fst p)" and st: "cached_stat pc h sc cm x p = Inr p'"
    obtain index rid st0 e0 where xp: "x = (index, rid)" "p = (st0, e0)" by (cases x, cases p)
    obtain s resumed where s: "dict_get st0 rid = Some s" "py_index (gs_resumed_from_preemption sc) index = Inr resumed"
      using st by (auto simp: cached_stat_def xp rbind_Inr_iff split: option.splits)
    have ok0: "?ok st0" using p xp by simp
    show "?ok (fst p')"
    proof (cases resumed)
      case True
      then obtain st1 where "add_new_stat pc h sc cm rid (dict_pop rid st0) = Inr st1" "fst p' = st1"
        using st s by (auto simp: cached_stat_def xp rbind_Inr_iff)
      then show ?thesis using add_new_region [OF _ stats_ok_pop [OF ok0]] by simp
    next
      case False
      then obtain n r i s' where s': "updata_req_state (pf_gsa pc) n r i s = Inr s'" "fst p' = dict_set rid s' st0"
        using st s by (auto simp: cached_stat_def xp rbind_Inr_iff)
      note old = stats_okD [OF ok0 s(1)]
      note up = updata_region [OF s'(1) conjunct1 [OF old]]
      show ?thesis unfolding s'(2) by (rule stats_ok_set [OF ok0 up(1)]) (use up(2) old in simp)
    qed
  qed (use ok in simp)
  then have "?ok stats1" by simp
  then show ?thesis
    by (rule rfold_keeps [OF _ _ two, where P = ?ok, rotated]) (auto simp: new_stat_def intro: add_new_region stats_ok_pop)
qed

text \<open>The choice of blocks changes no slot and no block.\<close>

lemma stats_ok_topk:
  assumes "stats_ok n cm stats"
  shows "dict_get stats rid = Some s \<Longrightarrow> stats_ok n cm (dict_set rid (s\<lparr>gr_topk_buf_tmp := b\<rparr>) stats)"
  using stats_okD [OF assms] by (intro stats_ok_set [OF assms]) (simp_all add: in_region_def)

lemma topk_insert_ok:
  assumes "topk_insert_last_idx stats e = Inr stats'" and ok: "stats_ok n cm stats"
  shows "stats_ok n cm stats'"
proof (rule rfold_keeps [OF _ _ assms(1) [unfolded topk_insert_last_idx_def]])
  fix rid st st' assume ok: "stats_ok n cm st" and "rbind (py_key st rid) (\<lambda>s. Inr (dict_set rid (insert_last_idx s) st)) = Inr st'"
  then obtain s where s: "dict_get st rid = Some s" "st' = dict_set rid (insert_last_idx s) st"
    by (auto simp: rbind_Inr_iff py_key_def split: option.splits)
  have "insert_last_idx s = s\<lparr>gr_topk_buf_tmp := gr_topk_buf_tmp (insert_last_idx s)\<rparr>"
    by (simp add: insert_last_idx_def Let_def split: option.splits)
  then show "stats_ok n cm st'" using stats_ok_topk [OF ok s(1), of "gr_topk_buf_tmp (insert_last_idx s)"] s(2) by simp
qed (rule ok)

lemma topk_tmp_deal_ok:
  assumes "topk_tmp_deal pc buf stats e = Inr (stats', e')" and "stats_ok n cm stats"
  shows "stats_ok n cm stats'"
proof -
  have one: "stats_ok n cm (take_topk pc b x st)" if "stats_ok n cm st" for b x st
    using stats_ok_topk [OF that] that by (cases x) (auto simp: take_topk_def split: option.splits)
  have "stats_ok n cm (fold (take_topk pc b) xs st)" if "stats_ok n cm st" for b xs st
    using that by (induction xs arbitrary: st) (simp_all add: one)
  then show ?thesis using assms by (simp add: topk_tmp_deal_bs(3) [OF assms(1)])
qed

lemma sparse_input_ok:
  assumes "sparse_input pc maps topk_done k stats e = Inr (stats', e', gi)" and ok: "stats_ok n cm stats"
  shows "stats_ok n cm stats'"
proof -
  obtain stats1 e0 e1 buf where one: "next_choice pc buf stats e0 = Inr (stats1, e1)" and two: "topk_insert_last_idx stats1 e1 = Inr stats'"
    using assms(1) by (auto simp: sparse_input_def Let_def rbind_Inr_iff split: prod.splits)
  have "stats_ok n cm stats1"
    using one ok topk_tmp_deal_ok by (auto simp: next_choice_def rbind_Inr_iff split: if_splits prod.splits)
  then show ?thesis by (rule topk_insert_ok [OF two])
qed

lemma model_input_deal_ok:
  assumes "model_input_deal pc rids tables maps topk_done stats e = Inr (stats', e', gi)" and ok: "stats_ok n cm stats"
  shows "stats_ok n cm stats'"
  using assms(1) ok sparse_input_ok [OF _ ok] unfolding model_input_deal_def Let_def rbind_Inr_iff
  by (auto simp: rbind_Inr_iff split: if_splits)


lemma finish_last_chunk_kept:
  assumes "finish_last_chunk cf layers l topk s cache = Inr (s', cache')"
  shows "gr_repre_slot_mapping s' = gr_repre_slot_mapping s \<and> gr_blocks s' = gr_blocks s \<and> gr_block_hashes s' = gr_block_hashes s"
proof -
  have init: "gr_repre_slot_mapping t' = gr_repre_slot_mapping t \<and> gr_blocks t' = gr_blocks t \<and> gr_block_hashes t' = gr_block_hashes t"
    if "kvcache_init_last_chunk cf l topk t cache = Inr (t', c)" for t t' c
    using that by (cases "gr_reamin_map t"; cases "gr_prefetch_map t")
      (auto simp: kvcache_init_last_chunk_def Let_def rbind_Inr_iff split: if_splits)
  show ?thesis
    using assms by (auto simp: finish_last_chunk_def Let_def rbind_Inr_iff split: if_splits dest!: init)
qed

lemma in_region_kept:
  "in_region n cm rid s \<Longrightarrow> gr_repre_slot_mapping s' = gr_repre_slot_mapping s \<Longrightarrow> gr_blocks s' = gr_blocks s \<Longrightarrow> in_region n cm rid s'"
  by (simp add: in_region_def)

lemma gsa_attention_finished_ok:
  fixes u :: "('v, 'k) gsa_worker"
  assumes "gsa_attention_finished pc cuda mean topk_of l u = Inr u'" and "stats_ok n (tk_cache_map (gw_manager u)) (gw_stats u)"
  shows "gw_manager u' = gw_manager u \<and> stats_ok n (tk_cache_map (gw_manager u)) (gw_stats u')"
proof -
  let ?P = "\<lambda>v :: ('v, 'k) gsa_worker. gw_manager v = gw_manager u \<and> stats_ok n (tk_cache_map (gw_manager u)) (gw_stats v)"
  obtain copied where run: "(let u1 = (if copied then u else (copy_k mean l u)\<lparr>gw_copy_k_flag := (gw_copy_k_flag u)[l := True]\<rparr>)
       in if gc_use_mla (pf_gsa pc) \<and> cuda then Inr u1 else rfold (finish_request pc topk_of l) (ge_req_ids_bs (gw_engine u1)) u1) = Inr u'"
    using assms(1) unfolding gsa_attention_finished_def rbind_Inr_iff by blast
  define u1 where "u1 = (if copied then u else (copy_k mean l u)\<lparr>gw_copy_k_flag := (gw_copy_k_flag u)[l := True]\<rparr>)"
  have u1: "?P u1" using assms(2) by (simp add: u1_def copy_k_def Let_def)
  have body: "(if gc_use_mla (pf_gsa pc) \<and> cuda then Inr u1 else rfold (finish_request pc topk_of l) (ge_req_ids_bs (gw_engine u1)) u1) = Inr u'"
    using run unfolding u1_def Let_def .
  show ?thesis
  proof (cases "gc_use_mla (pf_gsa pc) \<and> cuda")
    case True
    then show ?thesis using u1 body by simp
  next
    case False
    then have loop: "rfold (finish_request pc topk_of l) (ge_req_ids_bs (gw_engine u1)) u1 = Inr u'" using body by (simp only: if_False)
    show ?thesis
    proof (rule rfold_keeps [where P = ?P, OF _ u1 loop])
      fix rid v v' assume v: "?P v" and st: "finish_request pc topk_of l rid v = Inr v'"
      then obtain s s' cache where s: "dict_get (gw_stats v) rid = Some s"
          "finish_last_chunk (pf_gsa pc) (pf_num_attention_layers pc) l (topk_of rid) s (gw_kv_caches v l) = Inr (s', cache)"
          "v' = v\<lparr>gw_stats := dict_set rid s' (gw_stats v), gw_kv_caches := (gw_kv_caches v)(l := cache)\<rparr>"
        by (auto simp: finish_request_def rbind_Inr_iff split: option.splits)
      note kept = finish_last_chunk_kept [OF s(2)]
      have ok: "stats_ok n (tk_cache_map (gw_manager u)) (gw_stats v)" using v by simp
      note old = stats_okD [OF ok s(1)]
      have "stats_ok n (tk_cache_map (gw_manager u)) (dict_set rid s' (gw_stats v))"
        by (rule stats_ok_set [OF ok in_region_kept [OF conjunct1 [OF old]]]) (use kept old in simp_all)
      then show "?P v'" using v s(3) by simp
    qed
  qed
qed

section \<open>Reachable workers\<close>

text \<open>
  The states a worker can reach with \<open>max_num\<close> indexes: steps are built and begun, layers finish, steps
  and requests finish, and the engine's tables and buffers may change in the background.
\<close>

inductive gsa_reach :: "prefetch_cfg \<Rightarrow> gsa_hashes \<Rightarrow> nat \<Rightarrow> ('v, 'k) gsa_worker \<Rightarrow> bool"
  for pc h max_num where
  start: "gw_manager u = new_kpre_manager max_num \<Longrightarrow> gw_stats u = [] \<Longrightarrow> gsa_reach pc h max_num u"
| build: "gsa_reach pc h max_num u \<Longrightarrow> gsa_build_sparse_meta pc h sc u = Inr u' \<Longrightarrow> gsa_reach pc h max_num u'"
| begins: "gsa_reach pc h max_num u \<Longrightarrow> gsa_execute_begin pc sc topk_done u = Inr u' \<Longrightarrow> gsa_reach pc h max_num u'"
| layer: "gsa_reach pc h max_num u \<Longrightarrow> gsa_attention_finished pc cuda mean topk_of l u = Inr u' \<Longrightarrow> gsa_reach pc h max_num u'"
| finish: "gsa_reach pc h max_num u \<Longrightarrow> gsa_execute_finished pc done status load task_hash bytes ids u = Inr u' \<Longrightarrow> gsa_reach pc h max_num u'"
| request: "gsa_reach pc h max_num u \<Longrightarrow> gsa_request_finished pc rid u = Inr u' \<Longrightarrow> gsa_reach pc h max_num u'"
| background: "gsa_reach pc h max_num u \<Longrightarrow> gsa_reach pc h max_num (u\<lparr>gw_engine := e\<rparr>)"

lemma execute_finished_keeps:
  assumes "gsa_execute_finished pc done status load task_hash bytes ids u = Inr u'"
  shows "gw_manager u' = gw_manager u \<and> gw_stats u' = gw_stats u"
proof -
  have c: "gw_manager (snd (check_transfer_task_done done u)) = gw_manager u" "gw_stats (snd (check_transfer_task_done done u)) = gw_stats u"
    by (simp_all add: check_transfer_task_done_def)
  have l: "gw_manager v' = gw_manager v \<and> gw_stats v' = gw_stats v"
    if "launch_transfer pc load task_hash bytes i v = Inr v'" for i and v v' :: "('a, 'b) gsa_worker"
    using that by (auto simp: launch_transfer_def rbind_Inr_iff split: option.splits prod.splits)
  show ?thesis using assms c
    by (auto simp: gsa_execute_finished_def Let_def rbind_Inr_iff dest!: l split: if_splits prod.splits)
qed

lemma gsa_reach_ok:
  "gsa_reach pc h n u \<Longrightarrow> tk_ok n (gw_manager u) \<and> stats_ok (pf_max_block_len pc) (tk_cache_map (gw_manager u)) (gw_stats u)"
proof (induction rule: gsa_reach.induct)
  case (start u)
  then show ?case by (simp add: tk_ok_new stats_ok_def)
next
  case (build u sc u')
  let ?m = "gw_manager u"
  obtain m mi stats e where m: "rfold alloc_index (map fst (gs_num_scheduled_tokens sc)) ?m = Inr m"
      and i: "get_model_input pc h sc (tk_cache_map m) (gw_stats u) (gw_engine u) = Inr (mi, stats, e)" and u': "gw_manager u' = m" "gw_stats u' = stats"
    using build(2) by (auto simp: gsa_build_sparse_meta_def rbind_Inr_iff split: prod.splits)
  have "tk_ok n m \<and> (\<forall>r i. dict_get (tk_cache_map ?m) r = Some i \<longrightarrow> dict_get (tk_cache_map m) r = Some i)"
    by (rule rfold_keeps [OF _ _ m]) (use build.IH alloc_index_ok in \<open>auto\<close>)
  then show ?case using get_model_input_ok [OF i] stats_ok_more [of "pf_max_block_len pc" "tk_cache_map ?m" "gw_stats u" "tk_cache_map m"] build.IH u' by auto
next
  case (begins u sc topk_done u')
  then obtain rids tables maps stats e gi where "model_input_deal pc rids tables maps topk_done (gw_stats u) (gw_engine u) = Inr (stats, e, gi)"
      "gw_manager u' = gw_manager u" "gw_stats u' = stats"
    by (auto simp: gsa_execute_begin_def rbind_Inr_iff split: prod.splits)
  then show ?case using model_input_deal_ok begins.IH by auto
next
  case (layer u cuda mean topk_of l u')
  then show ?case using gsa_attention_finished_ok by metis
next
  case (finish u)
  then show ?case using execute_finished_keeps by metis
next
  case (request u rid u')
  show ?case
  proof (cases "tk_is_exist rid (gw_manager u)")
    case True
    then obtain b m where m: "tk_free rid (gw_manager u) = Inr (b, m)" "gw_manager u' = m" "gw_stats u' = dict_pop rid (gw_stats u)"
      using request(2) by (auto simp: gsa_request_finished_def rbind_Inr_iff split: prod.splits)
    note f = tk_free_ok [OF m(1) conjunct1 [OF request.IH]]
    have "in_region k (tk_cache_map m) r s" if "r \<noteq> rid" "in_region k (tk_cache_map (gw_manager u)) r s" for k r s
      using that unfolding in_region_def f(3) by simp
    then have "stats_ok (pf_max_block_len pc) (tk_cache_map m) (dict_pop rid (gw_stats u))"
      using request.IH by (auto simp: stats_ok_def)
    then show ?thesis using f(2) m(2,3) by simp
  next
    case False
    then show ?thesis using request stats_ok_pop by (auto simp: gsa_request_finished_def rbind_Inr_iff)
  qed
next
  case (background u e)
  then show ?case by simp
qed


text \<open>
  C17: In every state a worker can reach, two requests have two indexes below \<open>max_num\<close>, and the
  representations of each fill the first slots of its own index's region of \<open>max_block_len\<close> slots, at
  most one per block the worker counts for it. So, as long as neither fills more than its region, they
  have no slot in common and lie inside the cache. A region can be overrun: \<open>resumed_request_overruns\<close>
  below.
\<close>

theorem representations_stay_apart:
  assumes "gsa_reach pc h max_num u" and "dict_get (gw_stats u) a = Some s" and "dict_get (gw_stats u) b = Some t" and "a \<noteq> b"
  shows "\<exists>i j k m. i \<noteq> j \<and> i < max_num \<and> j < max_num \<and> k \<le> length (gr_blocks s) \<and> m \<le> length (gr_blocks t)
    \<and> gr_repre_slot_mapping s = [pf_max_block_len pc * i..<pf_max_block_len pc * i + k]
    \<and> gr_repre_slot_mapping t = [pf_max_block_len pc * j..<pf_max_block_len pc * j + m]
    \<and> (k \<le> pf_max_block_len pc \<and> m \<le> pf_max_block_len pc \<longrightarrow>
         set (gr_repre_slot_mapping s) \<inter> set (gr_repre_slot_mapping t) = {}
         \<and> set (gr_repre_slot_mapping s) \<subseteq> {..<max_num * pf_max_block_len pc}
         \<and> set (gr_repre_slot_mapping t) \<subseteq> {..<max_num * pf_max_block_len pc})"
proof -
  let ?L = "pf_max_block_len pc" and ?cm = "tk_cache_map (gw_manager u)"
  note ok = gsa_reach_ok [OF assms(1)]
  obtain i k where i: "dict_get ?cm a = Some i" "k \<le> length (gr_blocks s)" "gr_repre_slot_mapping s = [?L * i..<?L * i + k]"
    using stats_okD [OF conjunct2 [OF ok] assms(2)] by (auto simp: in_region_def)
  obtain j m where j: "dict_get ?cm b = Some j" "m \<le> length (gr_blocks t)" "gr_repre_slot_mapping t = [?L * j..<?L * j + m]"
    using stats_okD [OF conjunct2 [OF ok] assms(3)] by (auto simp: in_region_def)
  have ne: "i \<noteq> j" using tk_index(2) [OF conjunct1 [OF ok] i(1)] j(1) assms(4) by blast
  have lt: "i < max_num" "j < max_num" using tk_index(1) [OF conjunct1 [OF ok]] i(1) j(1) by blast+
  have within: "x < max_num * ?L" if "x \<in> set [?L * l..<?L * l + c]" "c \<le> ?L" "l < max_num" for x l c
  proof -
    have "?L * Suc l \<le> ?L * max_num" using that(3) by (intro mult_le_mono2) simp
    then show ?thesis using that(1,2) by (simp add: mult.commute)
  qed
  have apart: "x \<notin> set [?L * j..<?L * j + m]" if "x \<in> set [?L * i..<?L * i + k]" "k \<le> ?L" "m \<le> ?L" for x
  proof
    assume "x \<in> set [?L * j..<?L * j + m]"
    then have "x div ?L = j" "x div ?L = i" using that by (auto intro!: div_nat_eqI simp: algebra_simps)
    then show False using ne by simp
  qed
  have "k \<le> ?L \<and> m \<le> ?L \<longrightarrow>
         set (gr_repre_slot_mapping s) \<inter> set (gr_repre_slot_mapping t) = {}
         \<and> set (gr_repre_slot_mapping s) \<subseteq> {..<max_num * ?L} \<and> set (gr_repre_slot_mapping t) \<subseteq> {..<max_num * ?L}"
    using apart within [OF _ _ lt(1)] within [OF _ _ lt(2)] unfolding i(3) j(3) by blast
  with ne lt i(2,3) j(2,3) show ?thesis by blast
qed

text \<open>
  Fetching from the worker raises as soon as the native engine has a block to load: no reachable
  request has a single block hash.
\<close>

lemma fetching_has_no_hashes:
  assumes "gsa_reach pc h max_num u" and "rid \<in> dict_keys (gw_stats u)"
    and "length free = pf_num_attention_layers pc" and "dict_get misses rid = Some miss" and "length miss = length free"
    and "\<And>l. l < length free \<Longrightarrow> length (miss ! l) = length (free ! l)" and "concat free \<noteq> []"
  shows "launch_transfer pc load task_hash block_bytes (Some ((rid, free) # rest, misses)) u = Inl IndexError"
proof -
  obtain s where s: "dict_get (gw_stats u) rid = Some s" using assms(2) by (metis map_of_eq_None_iff not_Some_eq)
  then have hashes: "gr_block_hashes s = Some []" using stats_okD [OF conjunct2 [OF gsa_reach_ok [OF assms(1)]]] by blast
  let ?step = "layer_transfer pc block_bytes (Some []) free (Some miss)"
  have none: "?step l t = Inr t" if "l < length free" "free ! l = []" for l t
    using that by (cases t) (simp add: layer_transfer_def py_index_def)
  have fails: "?step l t = Inl IndexError" if l: "l < length free" "free ! l \<noteq> []" for l t
  proof -
    obtain m ms where "miss ! l = m # ms" using l assms(6) [of l] by (cases "miss ! l") auto
    then show ?thesis using l assms(5) by (cases t) (simp add: layer_transfer_def py_index_def Let_def)
  qed
  have "rfold ?step ls t = Inl IndexError" if "set ls \<subseteq> {..<length free}" "\<exists>l \<in> set ls. free ! l \<noteq> []" for ls t
    using that
  proof (induction ls arbitrary: t)
    case Nil
    then show ?case by simp
  next
    case (Cons l ls)
    then show ?case by (cases "free ! l = []") (simp_all add: none fails)
  qed
  moreover have "\<exists>l \<in> set [0..<length free]. free ! l \<noteq> []"
  proof -
    obtain xs where "xs \<in> set free" "xs \<noteq> []" using assms(7) by auto
    then obtain l where "l < length free" "free ! l = xs" by (auto simp: in_set_conv_nth)
    then show ?thesis using \<open>xs \<noteq> []\<close> by (intro bexI [of _ l]) simp_all
  qed
  ultimately have "rfold ?step [0..<length free] ([], [], []) = Inl IndexError" by (metis atLeast_upt subset_refl)
  then show ?thesis using s hashes assms(3,4) by (simp add: launch_transfer_def transfer_of_def py_key_def)
qed

section \<open>Examples\<close>

definition demo_gsa_sched :: gsa_sched where
  "demo_gsa_sched = \<lparr>gs_num_scheduled_tokens = [(''a'', 4), (''b'', 2)], gs_cached_req_ids = [], gs_resumed_from_preemption = [],
     gs_new_req_ids = [''a'', ''b''], gs_requests = [(''a'', demo_cached [7, 8] 0 []), (''b'', demo_cached [3] 0 [])],
     gs_req_id_to_index = [(''a'', 0), (''b'', 1)], gs_batch_req_ids = [''a'', ''b'']\<rparr>"

definition demo_gsa_worker :: "(nat, nat) gsa_worker" where
  "demo_gsa_worker = \<lparr>gw_manager = new_kpre_manager 2, gw_stats = [], gw_engine = new_engine 4,
     gw_model_input = \<lparr>mi_calc_block_table = [], mi_calc_repre_slot_mapping = [], mi_query_locals = [], mi_query_locals_prefill = None\<rparr>,
     gw_input = \<lparr>gi_atb_gsa_enable = False, gi_is_topk = False, gi_topk_caches = [], gi_block_tables_mp = [], gi_gsa_seq_len = []\<rparr>,
     gw_decode_index = [], gw_copy_k_flag = [False], gw_kpre_caches = (\<lambda>_ _. 0), gw_kv_caches = (\<lambda>_ _. 0), gw_task_load = []\<rparr>"

lemma demo_gsa_built:
  "\<exists>u s t. gsa_reach demo_prefetch_cfg demo_gsa_hashes 2 (u :: (nat, nat) gsa_worker) \<and> gw_stats u = [(''a'', s), (''b'', t)]
    \<and> gr_blocks s = [7, 8] \<and> gr_blocks t = [3] \<and> gr_repre_slot_mapping s = [0, 1] \<and> gr_repre_slot_mapping t = [4]"
proof -
  let ?r = "gsa_build_sparse_meta demo_prefetch_cfg demo_gsa_hashes demo_gsa_sched demo_gsa_worker"
  have r: "(case ?r of Inl e \<Rightarrow> [] | Inr u \<Rightarrow> map (\<lambda>(rid, s). (rid, gr_blocks s, gr_repre_slot_mapping s)) (gw_stats u))
      = [(''a'', [7, 8], [0, 1]), (''b'', [3], [4])]" by code_simp
  then obtain u where u: "?r = Inr u" by (cases ?r) auto
  have "gsa_reach demo_prefetch_cfg demo_gsa_hashes 2 u"
    by (rule gsa_reach.build [OF gsa_reach.start u]) (simp_all add: demo_gsa_worker_def)
  then show ?thesis using r u by (auto simp: map_eq_Cons_conv)
qed

theorem representations_stay_apart_witness:
  "\<exists>u s t. gsa_reach demo_prefetch_cfg demo_gsa_hashes 2 (u :: (nat, nat) gsa_worker) \<and> dict_get (gw_stats u) ''a'' = Some s
    \<and> dict_get (gw_stats u) ''b'' = Some t \<and> gr_repre_slot_mapping s \<noteq> [] \<and> gr_repre_slot_mapping t \<noteq> []
    \<and> set (gr_repre_slot_mapping s) \<inter> set (gr_repre_slot_mapping t) = {} \<and> set (gr_repre_slot_mapping s) \<subseteq> {..<8}"
proof -
  obtain u s t where u: "gsa_reach demo_prefetch_cfg demo_gsa_hashes 2 (u :: (nat, nat) gsa_worker)" "gw_stats u = [(''a'', s), (''b'', t)]"
      "gr_blocks s = [7, 8]" "gr_blocks t = [3]" "gr_repre_slot_mapping s = [0, 1]" "gr_repre_slot_mapping t = [4]"
    using demo_gsa_built by blast
  have L: "pf_max_block_len demo_prefetch_cfg = 4" by (simp add: demo_prefetch_cfg_def)
  have g: "dict_get (gw_stats u) ''a'' = Some s" "dict_get (gw_stats u) ''b'' = Some t" using u(2) by simp_all
  have "''a'' \<noteq> ''b''" by simp
  from representations_stay_apart [OF u(1) g this] u(3,4) L
  have "set (gr_repre_slot_mapping s) \<inter> set (gr_repre_slot_mapping t) = {} \<and> set (gr_repre_slot_mapping s) \<subseteq> {..<8}" by auto
  then show ?thesis using u g by (intro exI [of _ u] exI [of _ s] exI [of _ t]) simp
qed

text \<open>
  A region is overrun although no request is ever given more than the four blocks a request may
  have. Request \<open>a\<close> is preempted, resumed with its prompt and two generated tokens in one step,
  and takes its last block for a new one in the next (\<open>passing_the_prompt_end_repeats_a_block\<close>): its fifth
  slot is the first of request \<open>b\<close>.
\<close>

definition resume_step :: gsa_sched where
  "resume_step = \<lparr>gs_num_scheduled_tokens = [(''a'', 7)], gs_cached_req_ids = [''a''], gs_resumed_from_preemption = [True],
     gs_new_req_ids = [], gs_requests = [(''a'', demo_cached [7, 8, 5, 9] 0 [1, 2])],
     gs_req_id_to_index = [(''a'', 0)], gs_batch_req_ids = [''a'']\<rparr>"

definition after_resume_step :: gsa_sched where
  "after_resume_step = \<lparr>gs_num_scheduled_tokens = [(''a'', 1)], gs_cached_req_ids = [''a''], gs_resumed_from_preemption = [False],
     gs_new_req_ids = [], gs_requests = [(''a'', demo_cached [7, 8, 5, 9] 7 [1, 2, 3])],
     gs_req_id_to_index = [(''a'', 0)], gs_batch_req_ids = [''a'']\<rparr>"

lemma resumed_request_overruns:
  "\<exists>u s t. gsa_reach demo_prefetch_cfg demo_gsa_hashes 2 (u :: (nat, nat) gsa_worker)
    \<and> dict_get (gw_stats u) ''a'' = Some s \<and> dict_get (gw_stats u) ''b'' = Some t
    \<and> gr_blocks s = [7, 8, 5, 9, 9] \<and> 4 \<in> set (gr_repre_slot_mapping s) \<inter> set (gr_repre_slot_mapping t)"
proof -
  let ?build = "gsa_build_sparse_meta demo_prefetch_cfg demo_gsa_hashes"
  have "(case ?build demo_gsa_sched demo_gsa_worker of Inl e \<Rightarrow> [] | Inr u1 \<Rightarrow> (case ?build resume_step u1 of Inl e \<Rightarrow> []
      | Inr u2 \<Rightarrow> (case ?build after_resume_step u2 of Inl e \<Rightarrow> []
      | Inr u3 \<Rightarrow> map (\<lambda>rid. map_option (\<lambda>s. (gr_blocks s, gr_repre_slot_mapping s)) (dict_get (gw_stats u3) rid)) [''a'', ''b''])))
      = [Some ([7, 8, 5, 9, 9], [0, 1, 2, 3, 4]), Some ([3], [4])]" by code_simp
  then obtain u1 u2 u3 where u: "?build demo_gsa_sched demo_gsa_worker = Inr u1" "?build resume_step u1 = Inr u2" "?build after_resume_step u2 = Inr u3"
    and r: "map_option (\<lambda>s. (gr_blocks s, gr_repre_slot_mapping s)) (dict_get (gw_stats u3) ''a'') = Some ([7, 8, 5, 9, 9], [0, 1, 2, 3, 4])"
      "map_option (\<lambda>s. (gr_blocks s, gr_repre_slot_mapping s)) (dict_get (gw_stats u3) ''b'') = Some ([3], [4])"
    by (auto split: sum.splits)
  have "gsa_reach demo_prefetch_cfg demo_gsa_hashes 2 u3"
    by (rule gsa_reach.build [OF gsa_reach.build [OF gsa_reach.build [OF gsa_reach.start u(1)] u(2)] u(3)]) (simp_all add: demo_gsa_worker_def)
  then show ?thesis using r by (intro exI [of _ u3]) auto
qed

end
