(* ===== verification/Spec2Isabelle.thy ===== *)
theory Spec2Isabelle
  imports Load_Accounting Shared_Indexer Fawa_Tasks Layer_Loads Connector_Facade Hla_Plans Hla_Row_Dumps Blend_Connector Cpu_Affinity Cache_Coordinator Slot_Allocation Mindie_Pool Sglang_Store Esa_Slots Sparse_Keys Kvstar_Sparse Gsa_Worker
begin

text \<open>
  Unified cache management keeps the KV cache of a language-model server in external stores. A
  connector has two sides. The scheduler side hashes a request's tokens into block ids, asks the
  store how long a prefix it holds, reports the hit to vLLM, and turns each step into a plan of
  blocks to load and to dump. The worker side carries plans out against the device memory of the
  paged KV cache and reports what failed. This development models the Python code of
  \<open>src/ucm/integration/vllm/\<close>: the connectors, the consistency between ranks, the device
  helpers, those patches to vLLM's cache managers that contain logic of their own, the
  adapters for MindIE and SGLang, the Python half of the stores, and of the sparse-attention
  methods the bookkeeping of ESA, KVStar and GSA.

  \<^bold>\<open>Theories and sources.\<close>
  \<^item> \<open>Ucm_Prelude\<close>, \<open>Py_Text\<close>: Python values as HOL data. Exceptions are values of
    \<open>exn\<close>; a fallible call returns \<open>exn + 'a\<close>. Dictionaries are association lists in insertion
    order; slices, indices, decimal and CPU-list text are written out.
  \<^item> \<open>Request_Hasher\<close>: the hash chain of \<open>RequestHasher\<close> and \<open>generate_hash\<close>.
  \<^item> \<open>Kv_Store\<close>: the store interface (\<open>ucmstore_v1.py\<close>) and device events as parameters.
  \<^item> \<open>Rank_Consistency\<close>: \<open>rank_consistency.py\<close>, the tracker of blocks some rank lacks, the manager
    on both sides, and the metadata workers send back.
  \<^item> \<open>Direct_Scheduler\<close>, \<open>Dump_Planner\<close>; \<open>Direct_Worker\<close>, \<open>Dump_Tasks\<close>, \<open>Load_Accounting\<close>: the two sides
    of \<open>UCMDirectConnector\<close> in \<open>ucm_connector.py\<close>.
  \<^item> \<open>Kv_Layout\<close>, \<open>Shared_Indexer\<close>: \<open>KVCacheLayout\<close> and \<open>SharedIndexerKVCacheLayout\<close>.
  \<^item> \<open>Layerwise\<close>, \<open>Layer_Loads\<close>, \<open>Layer_Dumps\<close>: \<open>UCMLayerWiseConnector\<close>.
  \<^item> \<open>Connector_Variants\<close>, \<open>Connector_Facade\<close>: the context-parallel, prefill/decode, mock and lite
    connectors, and \<open>UCMConnector\<close>, which chooses one and forwards to it.
  \<^item> \<open>Fawa_Scheduler\<close>, \<open>Fawa_Layout\<close>, \<open>Fawa_Worker\<close>, \<open>Fawa_Tasks\<close>: \<open>hma_connector.py\<close>, full attention and
    window attention in two stores.
  \<^item> \<open>Hla_Groups\<close>, \<open>Hla_Scheduler\<close>, \<open>Hla_Plans\<close>; \<open>Hla_Layout\<close>, \<open>Hla_Worker\<close>, \<open>Hla_Rows\<close>, \<open>Hla_Row_Dumps\<close>:
    \<open>hla_connector.py\<close>, attention groups and linear-attention states, with the synchronous and
    the row-wise worker.
  \<^item> \<open>Blend_Connector\<close>: \<open>blend_connector.py\<close>, chunks cached independently of their position.
  \<^item> \<open>Cpu_Affinity\<close>: the affinity half of \<open>device.py\<close>.
  \<^item> \<open>Cache_Coordinator\<close>: the lookup over attention groups in \<open>patch_kv_cache_coordinator.py\<close> of
    versions 0.20.2 to 0.23.0.
  \<^item> \<open>Slot_Allocation\<close>: \<open>kv_cache_get_free_block.py\<close> and \<open>CompressAttentionManager\<close>.
  \<^item> \<open>Mindie_Plugin\<close>, \<open>Mindie_Pool\<close>: the adapter for MindIE in \<open>src/ucm/integration/mindie/\<close>, block
    hashes in Python and natively, keys, and the pool that looks up, stores and fetches blocks.
  \<^item> \<open>Store_Backends\<close>: the Python half of two stores in \<open>src/ucm/store/\<close>, \<open>pcstore_connector_v1.py\<close> and the
    builders of \<open>pipeline/connector.py\<close>, and \<open>factory_v1.py\<close>.
  \<^item> \<open>Sglang_Store\<close>: the adapter for SGLang in \<open>src/ucm/integration/sglang/\<close>.
  \<^item> \<open>Esa_Layer\<close>, \<open>Esa_Decode\<close>, \<open>Esa_Sparse\<close>, \<open>Esa_Slots\<close>, \<open>Sparse_Keys\<close>: the sparse attention of
    \<open>src/ucm/sparse/esa/esa.py\<close>, a request in a layer, its steps, the batch, the slots of all requests, and
    its keys beside those of the connector.
  \<^item> \<open>Core_Binding\<close>: \<open>src/ucm/sparse/kvstar/utils.py\<close>, the cores a retrieval thread of a rank is bound to.
  \<^item> \<open>Kvstar_Layer\<close>, \<open>Kvstar_Queries\<close>, \<open>Kvstar_Decode\<close>, \<open>Kvstar_Sparse\<close>: the multi-step sparse attention
    of \<open>src/ucm/sparse/kvstar/multistep.py\<close>: a request in a layer, the queries it keeps, its decode
    steps with their searches and loads, and the batch with the block budget.
  \<^item> \<open>Gsa_Stats\<close>, \<open>Gsa_Moves\<close>, \<open>Gsa_Prefetch\<close>, \<open>Gsa_Worker\<close>: \<open>src/ucm/sparse/gsa/gsa.py\<close> and
    \<open>gsa/prefetch/prefetch_engine.py\<close>: what is kept of a request, the blocks moved and given back after
    the prompt, the block tables of a step, and the worker with the indexes of its requests.

  A record holds the attributes of one object; an operation takes the record and returns it
  updated. The store's state is a type parameter \<open>'w\<close> that every store call transforms, so the
  order of calls is visible. Where the same objects are shared and mutated (chunk metadata,
  request metadata) the update is written back to every place that is read later.

  \<^bold>\<open>What the lemmas show.\<close>
  \<^item> Keys: ids of a prefix do not depend on what follows, and equal ids mean equal prefixes when
    the hash is injective.
  \<^item> Matching: what is reported as a hit is stored and not known to be missing on a rank, it
    leaves tokens to compute, and it is the longest such hit, for direct, FAWA, hybrid and
    blended requests. The coordinator's lookup returns for all managers and refines the longest
    common hit of its groups.
  \<^item> Plans: the steps of a request dump each block once, in order.
  \<^item> Addresses: slices are exact, inside their tensors and disjoint.
  \<^item> Execution: every layer or row is loaded when it is needed; failures are charged to the
    requests they belong to, and no others (\<open>failed_loads\<close>); a block is reported as dumped only if all
    its rows are stored; deferred dumps are handed over; no task, event or context is left behind.
  \<^item> Sharing: cores and load are divided among ranks without gap or overlap; counted free blocks
    suffice for the allocation they are counted for.
  \<^item> Sparse attention: in the first pipeline stage the keys it fetches by are those the connector dumps
    (\<open>later_stage_keys\<close> shows the other stages), fetching the difference of two choices gives the new
    choice, no step waits for a result that was not asked for (for a stride of at least 3), and every
    slot has at most one owner until finishing a request raises. For KVStar,
    the prompt's last queries are kept across chunks, a search starts two strides before its blocks
    are loaded, and the block budget drops whole blocks. For GSA, every request has a region
    of slots of its own, every block is represented once (a resumed request can overrun its region:
    \<open>resumed_request_overruns\<close>), the blocks chosen after the prompt are those that stay, and attention reads
    the chosen blocks exactly when the partial one comes last.

  Three interfaces are locales, interpreted on the model: \<open>hash_chain\<close> (an id list that grows with
  the prompt), \<open>dump_planner\<close> (a step that moves a position forward and dumps what it passes,
  interpreted for the direct, the FAWA and the hybrid connector) and \<open>block_addressing\<close> (the
  addresses of a row of tensors).

  \<^bold>\<open>Assumptions.\<close> MD5 and pickling are a function parameter. A prefix lookup answers an index of
  at least \<open>-1\<close>; honesty of a store (its answers agree with a set of stored keys) is a named
  hypothesis, never part of the model. Block sizes are positive. A device is present. NumPy's
  detour of addresses through double precision is a parameter that is exact up to \<open>2 ^ 53\<close>.
  The iteration order of Python sets and the victim of \<open>set.pop\<close> are parameters. Text is ASCII.
  Of the metrics, counts and hit ratios are modelled, durations are not.

  \<^bold>\<open>Bounds.\<close> Loops over lists are structural recursion; \<open>split_chunks\<close> and \<open>chain_ids\<close> end because
  the rest of the prompt shrinks; the coordinator's \<open>while True\<close> is a partial function whose
  termination is a theorem. No fuel is used.

  \<^bold>\<open>Not modelled.\<close> The native stores and the wrappers of the first store interface; of the sparse attention what is computed on tensors and the methods other than ESA, KVStar and GSA
  (floating-point tensor programs); vLLM methods copied with small changes and the code that
  installs patches; the model-input half of the MindIE plugin and its saving thread;
  construction from configuration files,
  logging, registration of metrics; tools, tests and experiments.
\<close>

end
